(* ===== verification/Prelude.thy ===== *)
theory Prelude
  imports Main "HOL-Library.Word"
begin

text \<open>
  Shared vocabulary of the PlexsDOS development: the C integer types at their
  width, the counted \<open>for\<close> loop, and the generic facts on words, lists and
  folds that the component theories use.  The kernel is compiled with
  \<open>-m32\<close>, so \<open>int\<close>, \<open>long\<close>, \<open>size_t\<close> and pointers have 32 bits and
  plain \<open>char\<close> is signed.
\<close>

unbundle bit_operations_syntax

section \<open>Machine integers\<close>

type_synonym u8 = "8 word"
type_synonym u16 = "16 word"
type_synonym u32 = "32 word"

named_theorems word_bridge \<open>facts that carry a word expression over to nat\<close>
named_theorems layout_defs \<open>address and size constants of the kernel's memory layout\<close>

lemma unat_u8_less [simp]: "unat (x :: u8) < 256"
  using unsigned_less [of x, where ?'a = nat] by simp

lemma unat_u16_less [simp]: "unat (x :: u16) < 65536"
  using unsigned_less [of x, where ?'a = nat] by simp

lemma unat_u32_less [simp]: "unat (x :: u32) < 4294967296"
  using unsigned_less [of x, where ?'a = nat] by simp

lemma unat_of_nat_u8 [word_bridge]: "n < 256 \<Longrightarrow> unat (of_nat n :: u8) = n"
  by (simp add: unat_of_nat)

lemma unat_of_nat_u16 [word_bridge]: "n < 65536 \<Longrightarrow> unat (of_nat n :: u16) = n"
  by (simp add: unat_of_nat)

lemma unat_of_nat_u32 [word_bridge]: "n < 4294967296 \<Longrightarrow> unat (of_nat n :: u32) = n"
  by (simp add: unat_of_nat)

lemma unat_shr [word_bridge]: "unat (drop_bit n (x :: 'a::len word)) = unat x div 2 ^ n"
  by (simp only: unat_drop_bit_eq) (simp only: drop_bit_eq_div)

lemma unat_mask [word_bridge]: "unat (x AND mask n :: 'a::len word) = unat x mod 2 ^ n"
  by (simp only: flip: take_bit_eq_mask)
    (simp only: unsigned_take_bit_eq, simp only: take_bit_eq_mod)

lemma bit_small_nat: "j < 2 ^ k \<Longrightarrow> bit (j::nat) n \<Longrightarrow> n < k"
  by (metis bit_take_bit_iff take_bit_nat_eq_self)

text \<open>\<open>(i << k) | j\<close> is \<open>i * 2^k + j\<close> when \<open>j\<close> fits below the shift.\<close>

lemma shl_or_add:
  assumes "j < 2 ^ k"
  shows "push_bit k (of_nat i :: 'a::len word) OR of_nat j = of_nat (i * 2 ^ k + j)"
proof -
  have "push_bit k (of_nat i :: 'a word) OR of_nat j = push_bit k (of_nat i) + of_nat j"
    by (intro disjunctive_add [symmetric])
      (auto simp: bit_simps dest: bit_small_nat [OF assms])
  then show ?thesis by (simp add: push_bit_eq_mult)
qed

lemma and_bit_eq_0: "w AND push_bit j 1 = 0 \<longleftrightarrow> \<not> bit w j" if "j < LENGTH('a)" for w :: "'a::len word"
  using that by (auto simp: bit_eq_iff [of "w AND push_bit j 1"] bit_simps simp del: push_bit_of_1)

lemma all_bits_u8: "w = 0xFF \<longleftrightarrow> (\<forall>j<8. bit (w :: u8) j)"
proof -
  have ones: "(0xFF :: u8) = - 1" by simp
  show ?thesis
    unfolding ones unfolding bit_eq_iff by (auto simp: bit_simps)
qed

lemma mod_0E: "n mod m = 0 \<Longrightarrow> (\<And>k. n = m * k \<Longrightarrow> P) \<Longrightarrow> P" for n :: nat
  by (metis mult_div_mod_eq add.right_neutral)

lemma div_eq_Suc_0_iff: "0 < k \<Longrightarrow> n div k = Suc 0 \<longleftrightarrow> k \<le> n \<and> n < 2 * k" for n k :: nat
proof (intro iffI conjI)
  assume k: "0 < k" and q: "n div k = Suc 0"
  have "n = k + n mod k" using mult_div_mod_eq [of k n] q by simp
  with mod_less_divisor [OF k, of n] show "k \<le> n" "n < 2 * k" by linarith+
qed (auto intro!: div_nat_eqI)

lemma div_eq_0_iff: "0 < k \<Longrightarrow> n div k = 0 \<longleftrightarrow> n < k" for n k :: nat
  by (metis div_less div_mult_mod_eq mod_less_divisor mult_0 add_0)

lemma in_tl: "x \<in> set (tl xs) \<Longrightarrow> x \<in> set xs"
  by (cases xs) auto

section \<open>Searching a list\<close>

lemma find_map: "find P (map f xs) = map_option f (find (\<lambda>x. P (f x)) xs)"
  by (induction xs) auto

lemma find_append:
  "find P (xs @ ys) = (case find P xs of None \<Rightarrow> find P ys | Some x \<Rightarrow> Some x)"
  by (induction xs) auto

text \<open>A search over an interval finds the least hit.\<close>

lemma find_upt_None: "find P [a..<b] = None \<longleftrightarrow> (\<forall>i. a \<le> i \<and> i < b \<longrightarrow> \<not> P i)"
  by (auto simp: find_None_iff)

lemma find_upt_Some:
  "find P [a..<b] = Some i \<longleftrightarrow> a \<le> i \<and> i < b \<and> P i \<and> (\<forall>j. a \<le> j \<and> j < i \<longrightarrow> \<not> P j)"
  (is "?L \<longleftrightarrow> ?R")
proof
  assume ?L
  then obtain k where "k < b - a" "P (a + k)" "i = a + k" "\<forall>j<k. \<not> P (a + j)"
    by (auto simp: find_Some_iff)
  then show ?R by (auto simp: le_iff_add)
next
  assume ?R
  then show ?L by (auto simp: find_Some_iff intro!: exI [of _ "i - a"])
qed

section \<open>Counted loops\<close>

text \<open>
  \<open>for (i = a; i < b; i++) body\<close> over a loop counter that does not wrap.
\<close>

definition for_range :: "nat \<Rightarrow> nat \<Rightarrow> (nat \<Rightarrow> 's \<Rightarrow> 's) \<Rightarrow> 's \<Rightarrow> 's" where
  "for_range a b body s = fold body [a..<b] s"

lemma for_range_empty [simp]: "b \<le> a \<Longrightarrow> for_range a b f s = s"
  by (simp add: for_range_def)

lemma for_range_Suc: "a \<le> b \<Longrightarrow> for_range a (Suc b) f s = f b (for_range a b f s)"
  by (simp add: for_range_def)

text \<open>The loop rule: an invariant indexed by the counter.\<close>

lemma for_range_induct [consumes 1, case_names init step]:
  assumes "a \<le> b"
    and init: "P a s"
    and step: "\<And>i t. a \<le> i \<Longrightarrow> i < b \<Longrightarrow> P i t \<Longrightarrow> P (Suc i) (f i t)"
  shows "P b (for_range a b f s)"
  using assms(1) step
proof (induction b)
  case 0
  then show ?case using init by simp
next
  case (Suc b)
  show ?case
  proof (cases "a \<le> b")
    case True
    have "P b (for_range a b f s)"
      by (rule Suc.IH [OF True]) (simp add: Suc.prems(2))
    with True Suc.prems(2) show ?thesis by (simp add: for_range_Suc)
  next
    case False
    with Suc.prems(1) have "a = Suc b" by simp
    with init show ?thesis by simp
  qed
qed

end
