(* ===== verification/Ring_Buffer.thy ===== *)
theory Ring_Buffer
  imports Prelude
begin

text \<open>
  Ring buffers: an array of \<open>n\<close> places, the index of the oldest entry and the number of entries.  The interface of a bounded queue is the locale
  \<open>bounded_queue\<close>; the drivers that keep such a ring interpret it through the facts on \<open>ring_content\<close>.
\<close>

section \<open>The queue interface\<close>

text \<open>A queue of bounded capacity: what does not fit is dropped, what was put is got in order.\<close>

locale bounded_queue =
  fixes put :: "'a \<Rightarrow> 's \<Rightarrow> 's"
    and get :: "'s \<Rightarrow> 'r \<times> 's"
    and content :: "'s \<Rightarrow> 'a list"
    and ok :: "'s \<Rightarrow> bool"
    and cap :: nat
    and result :: "'a \<Rightarrow> 'r"
    and empty :: 'r
  assumes put_ok: "ok s \<Longrightarrow> ok (put x s)"
    and put_content: "ok s \<Longrightarrow> content (put x s) = (if length (content s) < cap then content s @ [x] else content s)"
    and get_empty: "ok s \<Longrightarrow> content s = [] \<Longrightarrow> get s = (empty, s)"
    and get_cons: "ok s \<Longrightarrow> content s = x # xs \<Longrightarrow> \<exists>t. get s = (result x, t) \<and> ok t \<and> content t = xs"
    and bounded: "ok s \<Longrightarrow> length (content s) \<le> cap"
begin

lemma put_all:
  "ok s \<Longrightarrow> ok (fold put xs s) \<and> content (fold put xs s) = take cap (content s @ xs)"
proof (induction xs arbitrary: s)
  case (Cons x xs)
  have "ok (put x s)" by (rule put_ok [OF Cons.prems])
  with Cons.IH [of "put x s"] put_content [OF Cons.prems, of x] bounded [OF Cons.prems] show ?case
    by (cases "length (content s) < cap") (auto simp: not_less take_Cons')
qed (simp add: bounded)

lemma get_fst: "ok s \<Longrightarrow> fst (get s) = (case content s of [] \<Rightarrow> empty | x # xs \<Rightarrow> result x)"
  using get_empty get_cons by (cases "content s") fastforce+

lemma get_snd: "ok s \<Longrightarrow> ok (snd (get s)) \<and> content (snd (get s)) = tl (content s)"
  using get_empty get_cons by (cases "content s") fastforce+

text \<open>Getting as often as characters were put yields the first of them that fit.\<close>

fun take_out :: "nat \<Rightarrow> 's \<Rightarrow> 'r list" where
  "take_out 0 s = []"
| "take_out (Suc n) s = fst (get s) # take_out n (snd (get s))"

lemma take_out_content: "ok s \<Longrightarrow> n \<le> length (content s) \<Longrightarrow> take_out n s = map result (take n (content s))"
proof (induction n arbitrary: s)
  case (Suc n)
  then obtain x xs where c: "content s = x # xs" by (cases "content s") auto
  with Suc.IH [of "snd (get s)"] get_fst [OF Suc.prems(1)] get_snd [OF Suc.prems(1)] Suc.prems(2) show ?case by simp
qed simp

end

section \<open>Arrays used as rings\<close>

definition ring_content :: "nat \<Rightarrow> 'a list \<Rightarrow> nat \<Rightarrow> nat \<Rightarrow> 'a list" where
  "ring_content n buf h c = map (\<lambda>i. buf ! ((h + i) mod n)) [0..<c]"

definition ring_ok :: "nat \<Rightarrow> 'a list \<Rightarrow> nat \<Rightarrow> nat \<Rightarrow> nat \<Rightarrow> bool" where
  "ring_ok n buf h t c \<longleftrightarrow> length buf = n \<and> h < n \<and> c \<le> n \<and> t = (h + c) mod n"

lemma length_ring_content [simp]: "length (ring_content n buf h c) = c"
  by (simp add: ring_content_def)

lemma ring_distinct: "i < j \<Longrightarrow> j < n \<Longrightarrow> h < n \<Longrightarrow> (h + i) mod n \<noteq> (h + j) mod n" for n :: nat
proof
  assume a: "i < j" "j < n" "h < n" and e: "(h + i) mod n = (h + j) mod n"
  from e have "(h + j - (h + i)) mod n = 0" using a by (intro mod_eq_dvd_iff_nat [THEN iffD1, THEN dvd_imp_mod_0]) auto
  then show False using a by simp
qed

text \<open>The place behind the newest entry is none of the entries while the ring is not full.\<close>

lemma ring_write_tail: "ring_ok n buf h t c \<Longrightarrow> c < n \<Longrightarrow> ring_content n (buf[t := x]) h c = ring_content n buf h c"
  unfolding ring_content_def ring_ok_def using ring_distinct [of _ c n h] by (fastforce simp: nth_list_update)

lemma ring_put:
  assumes "ring_ok n buf h t c" "c < n"
  shows "ring_content n (buf[t := x]) h (Suc c) = ring_content n buf h c @ [x]" "ring_ok n (buf[t := x]) h ((t + 1) mod n) (Suc c)"
proof -
  have "t < n" "length buf = n" using assms by (auto simp: ring_ok_def)
  then have "buf[t := x] ! ((h + c) mod n) = x" using assms(1) by (simp add: ring_ok_def)
  then show "ring_content n (buf[t := x]) h (Suc c) = ring_content n buf h c @ [x]"
    using ring_write_tail [OF assms, of x] by (simp add: ring_content_def)
  show "ring_ok n (buf[t := x]) h ((t + 1) mod n) (Suc c)" using assms by (simp add: ring_ok_def mod_Suc_eq)
qed

lemma ring_get:
  assumes "ring_ok n buf h t c" "0 < c"
  shows "ring_content n buf h c = buf ! h # ring_content n buf ((h + 1) mod n) (c - 1)" "ring_ok n buf ((h + 1) mod n) t (c - 1)"
proof -
  have "[0..<c] = 0 # map Suc [0..<c - 1]" using assms(2) by (simp add: upt_conv_Cons map_Suc_upt)
  then show "ring_content n buf h c = buf ! h # ring_content n buf ((h + 1) mod n) (c - 1)"
    using assms(1) by (simp add: ring_content_def ring_ok_def mod_Suc_eq flip: add_Suc_right)
      (simp add: mod_add_left_eq)
  have "((h + 1) mod n + (c - 1)) mod n = (h + 1 + (c - 1)) mod n" by (rule mod_add_left_eq)
  also have "h + 1 + (c - 1) = h + c" using assms(2) by simp
  finally have "((h + 1) mod n + (c - 1)) mod n = (h + c) mod n" .
  with assms show "ring_ok n buf ((h + 1) mod n) t (c - 1)" unfolding ring_ok_def by auto
qed

end
