(* ===== verification/Pfa.thy ===== *)
theory Pfa
  imports Prelude
begin

text \<open>
  The page frame allocator, \<^verbatim>\<open>src/kernel/mm/pfa.c\<close>: a bitmap of 4096 bytes in
  which a set bit marks a used 4 KB frame, with the cached number of free frames.
  The record holds the three statics of the file; the linker symbols
  \<open>bss_start\<close>, \<open>bss_end\<close> and the address of \<open>pfa_bitmap\<close> are arguments of
  \<open>pfa_init\<close>.  The abstract view is the set of free page numbers; the locale
  \<open>frame_allocator\<close> states what the pager relies on and is interpreted on
  this model.
\<close>

unbundle bit_operations_syntax

section \<open>State and operations\<close>

definition PFA_BITMAP_SIZE :: nat where [layout_defs]: "PFA_BITMAP_SIZE = 4096"
definition PFA_MAX_PAGES :: u32 where [layout_defs]: "PFA_MAX_PAGES = 32768"
definition PAGE_SIZE :: u32 where [layout_defs]: "PAGE_SIZE = 4096"

record pfa =
  pfa_bitmap :: "u8 list"
  pfa_total_pages :: u32
  pfa_free_pages :: u32

definition pfa_set_bit :: "u32 \<Rightarrow> pfa \<Rightarrow> pfa" where
  "pfa_set_bit page s =
     (let i = unat (drop_bit 3 page) in
      s\<lparr>pfa_bitmap := (pfa_bitmap s)[i := pfa_bitmap s ! i OR push_bit (unat (page AND 7)) 1]\<rparr>)"

definition pfa_clear_bit :: "u32 \<Rightarrow> pfa \<Rightarrow> pfa" where
  "pfa_clear_bit page s =
     (let i = unat (drop_bit 3 page) in
      s\<lparr>pfa_bitmap := (pfa_bitmap s)[i := pfa_bitmap s ! i AND NOT (push_bit (unat (page AND 7)) 1)]\<rparr>)"

definition pfa_test_bit :: "u32 \<Rightarrow> pfa \<Rightarrow> u8" where
  "pfa_test_bit page s =
     drop_bit (unat (page AND 7)) (pfa_bitmap s ! unat (drop_bit 3 page)) AND 1"

text \<open>The two loop bodies of \<open>pfa_init\<close>: release a page, take a page back.\<close>

definition init_release :: "nat \<Rightarrow> pfa \<Rightarrow> pfa" where
  "init_release i s =
     (if of_nat i < pfa_total_pages s
      then (pfa_clear_bit (of_nat i) s)\<lparr>pfa_free_pages := pfa_free_pages s + 1\<rparr> else s)"

definition init_reserve :: "nat \<Rightarrow> pfa \<Rightarrow> pfa" where
  "init_reserve i s =
     (if of_nat i < pfa_total_pages s \<and> pfa_test_bit (of_nat i) s = 0
      then (pfa_set_bit (of_nat i) s)\<lparr>pfa_free_pages := pfa_free_pages s - 1\<rparr> else s)"

definition pfa_init :: "u32 \<Rightarrow> u32 \<Rightarrow> u32 \<Rightarrow> u32 \<Rightarrow> pfa" where
  "pfa_init bss_start bss_end bitmap_addr total_pages =
     (let total = (if total_pages > PFA_MAX_PAGES then PFA_MAX_PAGES else total_pages);
          s0 = \<lparr>pfa_bitmap = replicate PFA_BITMAP_SIZE 0xFF,
                pfa_total_pages = total, pfa_free_pages = 0\<rparr>;
          s1 = for_range 0x98 0xB8 init_release s0;
          s2 = for_range 0xB9 0x100 init_release s1;
          s3 = for_range 259 (unat total) init_release s2;
          bss_pg_start = unat (drop_bit 12 bss_start);
          bss_pg_end = unat (drop_bit 12 (bss_end + PAGE_SIZE - 1));
          s4 = for_range bss_pg_start (min bss_pg_end (unat total)) init_reserve s3;
          bitmap_page_start = unat (drop_bit 12 bitmap_addr);
          bitmap_page_end = unat (drop_bit 12 (bitmap_addr + of_nat PFA_BITMAP_SIZE - 1))
      in for_range bitmap_page_start (Suc bitmap_page_end) init_reserve s4)"

text \<open>
  \<open>pfa_alloc_frame\<close>: the inner loop runs over the bits of one byte, the outer one over
  the bytes.  \<open>None\<close> says that the inner loop ended without \<open>return\<close>.
\<close>

fun alloc_bits :: "u8 \<Rightarrow> nat \<Rightarrow> nat list \<Rightarrow> pfa \<Rightarrow> (u32 \<times> pfa) option" where
  "alloc_bits byte byte_idx [] s = None"
| "alloc_bits byte byte_idx (bit_idx # rest) s =
     (if byte AND push_bit bit_idx 1 = 0
      then (let page = push_bit 3 (of_nat byte_idx) OR of_nat bit_idx in
            if page \<ge> pfa_total_pages s then Some (0, s)
            else Some (push_bit 12 page,
                       s\<lparr>pfa_bitmap := (pfa_bitmap s)[byte_idx := pfa_bitmap s ! byte_idx OR push_bit bit_idx 1],
                         pfa_free_pages := pfa_free_pages s - 1\<rparr>))
      else alloc_bits byte byte_idx rest s)"

fun alloc_bytes :: "nat list \<Rightarrow> pfa \<Rightarrow> u32 \<times> pfa" where
  "alloc_bytes [] s = (0, s)"
| "alloc_bytes (byte_idx # rest) s =
     (let byte = pfa_bitmap s ! byte_idx in
      if byte \<noteq> 0xFF
      then (case alloc_bits byte byte_idx [0..<8] s of Some r \<Rightarrow> r | None \<Rightarrow> alloc_bytes rest s)
      else alloc_bytes rest s)"

definition pfa_alloc_frame :: "pfa \<Rightarrow> u32 \<times> pfa" where
  "pfa_alloc_frame s = alloc_bytes [0..<unat (drop_bit 3 (pfa_total_pages s + 7))] s"

definition pfa_free_frame :: "u32 \<Rightarrow> pfa \<Rightarrow> pfa" where
  "pfa_free_frame frame_addr s =
     (let page = drop_bit 12 frame_addr in
      if page \<ge> pfa_total_pages s then s
      else if pfa_test_bit page s \<noteq> 0
      then (pfa_clear_bit page s)\<lparr>pfa_free_pages := pfa_free_pages s + 1\<rparr>
      else s)"

definition pfa_get_free_count :: "pfa \<Rightarrow> u32" where
  "pfa_get_free_count s = pfa_free_pages s"

section \<open>Abstract view and invariant\<close>

definition page_used :: "u8 list \<Rightarrow> nat \<Rightarrow> bool" where
  "page_used bm p \<longleftrightarrow> bit (bm ! (p div 8)) (p mod 8)"

definition frees :: "pfa \<Rightarrow> nat set" where
  "frees s = {p. p < unat (pfa_total_pages s) \<and> \<not> page_used (pfa_bitmap s) p}"

definition pfa_shape :: "pfa \<Rightarrow> bool" where
  "pfa_shape s \<longleftrightarrow> length (pfa_bitmap s) = PFA_BITMAP_SIZE \<and> pfa_total_pages s \<le> PFA_MAX_PAGES"

definition pfa_inv :: "pfa \<Rightarrow> bool" where
  "pfa_inv s \<longleftrightarrow> pfa_shape s \<and> unat (pfa_free_pages s) = card (frees s)"

lemma finite_frees [simp, intro]: "finite (frees s)"
  by (rule finite_subset [of _ "{..<unat (pfa_total_pages s)}"]) (auto simp: frees_def)

lemma shape_total: "pfa_shape s \<Longrightarrow> unat (pfa_total_pages s) \<le> 32768"
  by (simp add: pfa_shape_def PFA_MAX_PAGES_def word_le_nat_alt)

lemma card_frees_le: "pfa_shape s \<Longrightarrow> card (frees s) \<le> 32768"
proof -
  assume "pfa_shape s"
  moreover have "card (frees s) \<le> card {..<unat (pfa_total_pages s)}"
    by (rule card_mono) (auto simp: frees_def)
  ultimately show ?thesis using shape_total by fastforce
qed

lemma page_used_update:
  assumes "i < length bm"
  shows "page_used (bm[i := v]) p \<longleftrightarrow> (if p div 8 = i then bit v (p mod 8) else page_used bm p)"
  using assms by (auto simp: page_used_def nth_list_update)

lemma page_index [word_bridge]:
  "unat (drop_bit 3 (page :: u32)) = unat page div 8" "unat (page AND 7) = unat page mod 8"
  using unat_mask [of page 3] by (simp_all add: unat_shr mask_eq_exp_minus_1)

lemma div_mod_8_eq: "(p div 8 = q div 8 \<and> p mod 8 = q mod 8) \<longleftrightarrow> p = (q :: nat)"
  by (metis div_mult_mod_eq)

lemma page_used_or:
  assumes "q div 8 < length bm"
  shows "page_used (bm[q div 8 := bm ! (q div 8) OR push_bit (q mod 8) 1]) p
         \<longleftrightarrow> p = q \<or> page_used bm p"
proof (cases "p div 8 = q div 8")
  case True
  with div_mod_8_eq [of p q] have "p = q \<longleftrightarrow> q mod 8 = p mod 8" by auto
  with True assms show ?thesis
    by (auto simp: page_used_def nth_list_update bit_simps simp del: push_bit_of_1)
next
  case False
  with assms show ?thesis by (auto simp: page_used_def nth_list_update)
qed

lemma page_used_and_not:
  assumes "q div 8 < length bm"
  shows "page_used (bm[q div 8 := bm ! (q div 8) AND NOT (push_bit (q mod 8) 1)]) p
         \<longleftrightarrow> p \<noteq> q \<and> page_used bm p"
proof (cases "p div 8 = q div 8")
  case True
  with div_mod_8_eq [of p q] have "p = q \<longleftrightarrow> q mod 8 = p mod 8" by auto
  with True assms show ?thesis
    by (auto simp: page_used_def nth_list_update bit_simps simp del: push_bit_of_1)
next
  case False
  with assms show ?thesis by (auto simp: page_used_def nth_list_update)
qed

lemma shape_index: "pfa_shape s \<Longrightarrow> p < 32768 \<Longrightarrow> p div 8 < length (pfa_bitmap s)"
  by (simp add: pfa_shape_def layout_defs less_mult_imp_div_less)

lemma page_used_set:
  "pfa_shape s \<Longrightarrow> unat page < 32768 \<Longrightarrow>
   page_used (pfa_bitmap (pfa_set_bit page s)) p \<longleftrightarrow> p = unat page \<or> page_used (pfa_bitmap s) p"
  by (simp add: pfa_set_bit_def Let_def page_index page_used_or shape_index del: push_bit_of_1)

lemma page_used_clear:
  "pfa_shape s \<Longrightarrow> unat page < 32768 \<Longrightarrow>
   page_used (pfa_bitmap (pfa_clear_bit page s)) p \<longleftrightarrow> p \<noteq> unat page \<and> page_used (pfa_bitmap s) p"
  by (simp add: pfa_clear_bit_def Let_def page_index page_used_and_not shape_index del: push_bit_of_1)

lemma pfa_test_bit_iff: "pfa_test_bit page s \<noteq> 0 \<longleftrightarrow> page_used (pfa_bitmap s) (unat page)"
  by (simp add: pfa_test_bit_def page_index page_used_def and_one_eq bit_iff_odd_drop_bit
      mod2_eq_if del: even_drop_bit_iff_not_bit)

lemma shape_bits [simp]:
  "pfa_shape (pfa_set_bit page s) = pfa_shape s" "pfa_shape (pfa_clear_bit page s) = pfa_shape s"
  "pfa_shape (s\<lparr>pfa_free_pages := c\<rparr>) = pfa_shape s"
  by (simp_all add: pfa_shape_def pfa_set_bit_def pfa_clear_bit_def Let_def)

lemma bits_frame [simp]:
  "pfa_total_pages (pfa_set_bit page s) = pfa_total_pages s"
  "pfa_total_pages (pfa_clear_bit page s) = pfa_total_pages s"
  "pfa_free_pages (pfa_set_bit page s) = pfa_free_pages s"
  "pfa_free_pages (pfa_clear_bit page s) = pfa_free_pages s"
  by (simp_all add: pfa_set_bit_def pfa_clear_bit_def Let_def)

lemma frees_count [simp]: "frees (s\<lparr>pfa_free_pages := c\<rparr>) = frees s"
  by (simp add: frees_def)

lemma frees_set: "pfa_shape s \<Longrightarrow> page < pfa_total_pages s \<Longrightarrow>
    frees (pfa_set_bit page s) = frees s - {unat page}"
  using shape_total [of s] by (auto simp: frees_def page_used_set word_less_nat_alt)

lemma frees_clear: "pfa_shape s \<Longrightarrow> page < pfa_total_pages s \<Longrightarrow>
    frees (pfa_clear_bit page s) = insert (unat page) (frees s)"
  using shape_total [of s] by (auto simp: frees_def page_used_clear word_less_nat_alt)

text \<open>The counter moves with the set: one page taken or given back.\<close>

lemma count_take: "pfa_inv s \<Longrightarrow> p \<in> frees s \<Longrightarrow> unat (pfa_free_pages s - 1) = card (frees s - {p})"
  by (metis card_0_eq card_Diff_singleton empty_iff finite_frees pfa_inv_def unat_eq_zero unat_minus_one)

lemma count_give: "pfa_inv s \<Longrightarrow> p \<notin> frees s \<Longrightarrow> unat (pfa_free_pages s + 1) = card (insert p (frees s))"
  using card_frees_le [of s] by (simp add: pfa_inv_def unat_word_ariths)

lemma test_frees: "page < pfa_total_pages s \<Longrightarrow> pfa_test_bit page s \<noteq> 0 \<longleftrightarrow> unat page \<notin> frees s"
  by (simp add: pfa_test_bit_iff frees_def word_less_nat_alt)

section \<open>\<open>pfa_alloc_frame\<close> is a first-fit search\<close>

text \<open>Taking one page, and the reference search over page numbers instead of bytes and bits.\<close>

definition take_page :: "nat \<Rightarrow> pfa \<Rightarrow> u32 \<times> pfa" where
  "take_page p s =
     (if unat (pfa_total_pages s) \<le> p then (0, s)
      else (push_bit 12 (of_nat p), (pfa_set_bit (of_nat p) s)\<lparr>pfa_free_pages := pfa_free_pages s - 1\<rparr>))"

definition first_fit :: "nat \<Rightarrow> pfa \<Rightarrow> u32 \<times> pfa" where
  "first_fit n s =
     (case find (\<lambda>p. \<not> page_used (pfa_bitmap s) p) [0..<n] of
        None \<Rightarrow> (0, s) | Some p \<Rightarrow> take_page p s)"

lemma page_of_bits:
  assumes "j < 8" "i < 4096"
  shows "push_bit 3 (of_nat i) OR of_nat j = (of_nat (8 * i + j) :: u32)"
    "unat (of_nat (8 * i + j) :: u32) = 8 * i + j"
proof -
  show "push_bit 3 (of_nat i) OR of_nat j = (of_nat (8 * i + j) :: u32)"
    using assms shl_or_add [of j 3 i] by (simp add: mult.commute)
  show "unat (of_nat (8 * i + j) :: u32) = 8 * i + j"
    using assms by (intro unat_of_nat_u32) simp
qed

lemma alloc_bits_find:
  assumes "i < 4096" "\<forall>j \<in> set js. j < 8" "byte = pfa_bitmap s ! i"
  shows "alloc_bits byte i js s =
           map_option (\<lambda>j. take_page (8 * i + j) s) (find (\<lambda>j. \<not> bit byte j) js)"
  using assms(2)
proof (induction js)
  case (Cons j js)
  then have j: "j < 8" by simp
  note pg = page_of_bits [OF j assms(1)]
  have set: "s\<lparr>pfa_bitmap := (pfa_bitmap s)[i := pfa_bitmap s ! i OR push_bit j 1],
               pfa_free_pages := pfa_free_pages s - 1\<rparr>
             = (pfa_set_bit (of_nat (8 * i + j)) s)\<lparr>pfa_free_pages := pfa_free_pages s - 1\<rparr>"
    unfolding pfa_set_bit_def Let_def page_index pg(2) using j by simp
  have cond: "(of_nat (8 * i + j) :: u32) \<ge> pfa_total_pages s \<longleftrightarrow> unat (pfa_total_pages s) \<le> 8 * i + j"
    by (simp only: word_le_nat_alt pg(2))
  from Cons j show ?case
    unfolding alloc_bits.simps Let_def pg(1) set cond
    by (simp add: and_bit_eq_0 take_page_def del: push_bit_of_1 of_nat_add of_nat_mult)
qed simp

lemma find_bits_page_used:
  "find (\<lambda>j. \<not> bit (bm ! i) j) [0..<8] = None \<Longrightarrow> find (\<lambda>p. \<not> page_used bm p) [8 * i..<8 * Suc i] = None"
  "find (\<lambda>j. \<not> bit (bm ! i) j) [0..<8] = Some j \<Longrightarrow>
   find (\<lambda>p. \<not> page_used bm p) [8 * i..<8 * Suc i] = Some (8 * i + j)"
proof -
  have upt: "[8 * i..<8 * Suc i] = map (\<lambda>j. 8 * i + j) [0..<8]"
    using map_add_upt [of "8 * i" 8] by (simp add: add.commute)
  have used: "j < 8 \<Longrightarrow> page_used bm (8 * i + j) = bit (bm ! i) j" for j
    by (simp add: page_used_def)
  have "find (\<lambda>p. \<not> page_used bm p) [8 * i..<8 * Suc i]
        = map_option (\<lambda>j. 8 * i + j) (find (\<lambda>j. \<not> bit (bm ! i) j) [0..<8])"
    unfolding upt find_map
    by (intro arg_cong [where f = "map_option _"] find_cong) (auto simp: used)
  then show "find (\<lambda>j. \<not> bit (bm ! i) j) [0..<8] = None \<Longrightarrow> find (\<lambda>p. \<not> page_used bm p) [8 * i..<8 * Suc i] = None"
    "find (\<lambda>j. \<not> bit (bm ! i) j) [0..<8] = Some j \<Longrightarrow>
     find (\<lambda>p. \<not> page_used bm p) [8 * i..<8 * Suc i] = Some (8 * i + j)"
    by simp_all
qed

lemma alloc_bytes_find:
  assumes "pfa_shape s" "n \<le> 4096"
  shows "alloc_bytes [m..<n] s =
           (case find (\<lambda>p. \<not> page_used (pfa_bitmap s) p) [8 * m..<8 * n] of
              None \<Rightarrow> (0, s) | Some p \<Rightarrow> take_page p s)"
proof (induction "n - m" arbitrary: m)
  case 0
  then show ?case by simp
next
  case (Suc k)
  then have m: "m < n" by simp
  let ?P = "\<lambda>p. \<not> page_used (pfa_bitmap s) p" and ?byte = "pfa_bitmap s ! m"
  have pages: "[8 * m..<8 * n] = [8 * m..<8 * Suc m] @ [8 * Suc m..<8 * n]"
    using m upt_add_eq_append [of "8 * m" "8 * Suc m" "8 * n - 8 * Suc m"] by simp
  have bytes: "[m..<n] = m # [Suc m..<n]" using m by (simp add: upt_conv_Cons)
  have IH: "alloc_bytes [Suc m..<n] s =
      (case find ?P [8 * Suc m..<8 * n] of None \<Rightarrow> (0, s) | Some p \<Rightarrow> take_page p s)"
    using Suc by (intro Suc.hyps) simp
  have full: "?byte = 0xFF \<Longrightarrow> find (\<lambda>j. \<not> bit ?byte j) [0..<8] = None"
    by (simp add: find_upt_None all_bits_u8)
  have bits: "alloc_bits ?byte m [0..<8] s =
      map_option (\<lambda>j. take_page (8 * m + j) s) (find (\<lambda>j. \<not> bit ?byte j) [0..<8])"
    using m assms(2) by (intro alloc_bits_find) auto
  show ?case
  proof (cases "find (\<lambda>j. \<not> bit ?byte j) [0..<8]")
    case None
    then show ?thesis
      unfolding bytes pages find_append
      by (simp add: Let_def bits IH find_bits_page_used(1) [OF None] del: mult_Suc_right upt_Suc)
  next
    case (Some j)
    with full have "?byte \<noteq> 0xFF" by auto
    with Some show ?thesis
      unfolding bytes pages find_append
      by (simp add: bits find_bits_page_used(2) [OF Some] del: mult_Suc_right upt_Suc)
  qed
qed

theorem pfa_alloc_first_fit:
  assumes "pfa_shape s"
  shows "pfa_alloc_frame s = first_fit (8 * ((unat (pfa_total_pages s) + 7) div 8)) s"
proof -
  have "unat (pfa_total_pages s + 7) = unat (pfa_total_pages s) + 7"
    using shape_total [OF assms] by (simp add: unat_word_ariths)
  then have n: "unat (drop_bit 3 (pfa_total_pages s + 7)) = (unat (pfa_total_pages s) + 7) div 8"
    by (simp add: page_index)
  have le: "(unat (pfa_total_pages s) + 7) div 8 \<le> 4096"
    using shape_total [OF assms] by simp
  show ?thesis
    unfolding pfa_alloc_frame_def first_fit_def n
    using alloc_bytes_find [OF assms le, of 0] by simp
qed

section \<open>The operations on the set of free frames\<close>

lemma alloc_none: "pfa_shape s \<Longrightarrow> frees s = {} \<Longrightarrow> pfa_alloc_frame s = (0, s)"
  by (auto simp: pfa_alloc_first_fit first_fit_def take_page_def frees_def find_upt_Some
      split: option.split)

lemma alloc_some:
  assumes "pfa_shape s" "frees s \<noteq> {}"
  shows "pfa_alloc_frame s = take_page (Min (frees s)) s"
proof -
  let ?m = "Min (frees s)"
  have m: "?m \<in> frees s" using assms by (intro Min_in) auto
  have least: "\<not> page_used (pfa_bitmap s) j \<Longrightarrow> j \<ge> ?m" for j
  proof (cases "j < unat (pfa_total_pages s)")
    case True
    moreover assume "\<not> page_used (pfa_bitmap s) j"
    ultimately show ?thesis by (intro Min_le) (auto simp: frees_def)
  next
    case False
    with m show ?thesis by (simp add: frees_def)
  qed
  have "find (\<lambda>p. \<not> page_used (pfa_bitmap s) p) [0..<8 * ((unat (pfa_total_pages s) + 7) div 8)] = Some ?m"
    unfolding find_upt_Some using m least by (force simp: frees_def)
  then show ?thesis by (simp add: pfa_alloc_first_fit [OF assms(1)] first_fit_def)
qed

lemma free_page_bound: "pfa_shape s \<Longrightarrow> p \<in> frees s \<Longrightarrow> p < unat (pfa_total_pages s) \<and> p < 32768"
  using shape_total by (fastforce simp: frees_def)

text \<open>A frame address and its page number.\<close>

lemma frame_addr:
  assumes "p < 32768"
  shows "unat (push_bit 12 (of_nat p) :: u32) = 4096 * p" "drop_bit 12 (push_bit 12 (of_nat p) :: u32) = of_nat p"
    "unat (of_nat p :: u32) = p" "push_bit 12 (of_nat p :: u32) = 0 \<longleftrightarrow> p = 0"
proof -
  show a: "unat (push_bit 12 (of_nat p) :: u32) = 4096 * p"
    using assms by (simp add: push_bit_eq_mult unat_word_ariths unat_of_nat)
  show c: "unat (of_nat p :: u32) = p" using assms by (simp add: unat_of_nat_u32)
  show "drop_bit 12 (push_bit 12 (of_nat p) :: u32) = of_nat p"
    by (rule word_unat_eq_iff [THEN iffD2]) (simp add: unat_shr a c)
  show "push_bit 12 (of_nat p :: u32) = 0 \<longleftrightarrow> p = 0"
    using a by (simp add: unat_eq_zero [symmetric])
qed

lemma take_page_ok:
  assumes "pfa_inv s" "p \<in> frees s"
  shows "fst (take_page p s) = push_bit 12 (of_nat p)"
    "frees (snd (take_page p s)) = frees s - {p}" "pfa_inv (snd (take_page p s))"
    "pfa_total_pages (snd (take_page p s)) = pfa_total_pages s"
proof -
  have shape: "pfa_shape s" using assms(1) by (simp add: pfa_inv_def)
  note p = free_page_bound [OF shape assms(2)]
  have lt: "of_nat p < pfa_total_pages s"
    using p by (simp add: word_less_nat_alt frame_addr(3))
  note tp = frees_set [OF shape lt] frame_addr(3) count_take [OF assms]
  show "fst (take_page p s) = push_bit 12 (of_nat p)"
    "frees (snd (take_page p s)) = frees s - {p}" "pfa_inv (snd (take_page p s))"
    "pfa_total_pages (snd (take_page p s)) = pfa_total_pages s"
    using p shape tp by (simp_all add: take_page_def pfa_inv_def not_le)
qed

lemma free_frame_ok:
  assumes "pfa_inv s"
  shows "pfa_inv (pfa_free_frame a s)"
    "frees (pfa_free_frame a s) =
       (if unat a div 4096 < unat (pfa_total_pages s) then insert (unat a div 4096) (frees s) else frees s)"
    "pfa_total_pages (pfa_free_frame a s) = pfa_total_pages s"
proof -
  have shape: "pfa_shape s" using assms by (simp add: pfa_inv_def)
  let ?page = "drop_bit 12 a"
  have pg: "unat ?page = unat a div 4096" by (simp add: unat_shr)
  consider "?page \<ge> pfa_total_pages s" | "?page < pfa_total_pages s" "pfa_test_bit ?page s = 0"
    | "?page < pfa_total_pages s" "pfa_test_bit ?page s \<noteq> 0" by fastforce
  then have "pfa_inv (pfa_free_frame a s) \<and> frees (pfa_free_frame a s) =
       (if unat a div 4096 < unat (pfa_total_pages s) then insert (unat a div 4096) (frees s) else frees s)
       \<and> pfa_total_pages (pfa_free_frame a s) = pfa_total_pages s"
  proof cases
    case 1
    with assms show ?thesis by (simp add: pfa_free_frame_def word_le_nat_alt pg)
  next
    case 2
    with test_frees [of ?page s] assms show ?thesis
      by (auto simp: pfa_free_frame_def Let_def word_less_nat_alt pg)
  next
    case 3
    with test_frees [of ?page s] have "unat ?page \<notin> frees s" by simp
    with 3 shape count_give [OF assms this] show ?thesis
      by (simp add: pfa_free_frame_def Let_def frees_clear pfa_inv_def word_less_nat_alt word_le_nat_alt pg)
  qed
  then show "pfa_inv (pfa_free_frame a s)"
    "frees (pfa_free_frame a s) =
       (if unat a div 4096 < unat (pfa_total_pages s) then insert (unat a div 4096) (frees s) else frees s)"
    "pfa_total_pages (pfa_free_frame a s) = pfa_total_pages s"
    by auto
qed

section \<open>Initialisation\<close>

lemma init_release_ok:
  assumes "pfa_inv s" "i < 4294967296" "i \<notin> frees s"
  shows "pfa_inv (init_release i s)" "pfa_total_pages (init_release i s) = pfa_total_pages s"
    "frees (init_release i s) = frees s \<union> {j. j = i \<and> j < unat (pfa_total_pages s)}"
proof -
  have shape: "pfa_shape s" using assms by (simp add: pfa_inv_def)
  have i: "unat (of_nat i :: u32) = i" using assms(2) by (rule unat_of_nat_u32)
  show "pfa_inv (init_release i s)" "pfa_total_pages (init_release i s) = pfa_total_pages s"
    "frees (init_release i s) = frees s \<union> {j. j = i \<and> j < unat (pfa_total_pages s)}"
    using assms shape count_give [OF assms(1,3)]
    by (auto simp: init_release_def frees_clear i pfa_inv_def word_less_nat_alt)
qed

lemma init_reserve_ok:
  assumes "pfa_inv s" "i < 4294967296"
  shows "pfa_inv (init_reserve i s)" "pfa_total_pages (init_reserve i s) = pfa_total_pages s"
    "frees (init_reserve i s) = frees s - {i}"
proof -
  have shape: "pfa_shape s" using assms by (simp add: pfa_inv_def)
  have i: "unat (of_nat i :: u32) = i" using assms(2) by (rule unat_of_nat_u32)
  have notin: "\<not> of_nat i < pfa_total_pages s \<Longrightarrow> i \<notin> frees s"
    by (simp add: frees_def word_less_nat_alt i)
  show "pfa_inv (init_reserve i s)" "pfa_total_pages (init_reserve i s) = pfa_total_pages s"
    "frees (init_reserve i s) = frees s - {i}"
    using assms shape count_take [OF assms(1), of i] test_frees [of "of_nat i" s] notin
    by (auto simp: init_reserve_def frees_set i pfa_inv_def)
qed

lemma release_loop:
  assumes "pfa_inv s" "b \<le> 4294967296" "\<forall>p \<in> frees s. p < a"
  shows "pfa_inv (for_range a b init_release s) \<and>
    pfa_total_pages (for_range a b init_release s) = pfa_total_pages s \<and>
    frees (for_range a b init_release s) = frees s \<union> {p. a \<le> p \<and> p < b \<and> p < unat (pfa_total_pages s)}"
proof (cases "a \<le> b")
  case True
  let ?P = "\<lambda>i t. pfa_inv t \<and> pfa_total_pages t = pfa_total_pages s \<and>
    frees t = frees s \<union> {p. a \<le> p \<and> p < i \<and> p < unat (pfa_total_pages s)}"
  from True show ?thesis
  proof (rule for_range_induct [where P = ?P])
    show "?P a s" using assms by auto
  next
    fix i t
    assume i: "a \<le> i" "i < b" and t: "?P i t"
    have "i \<notin> frees t" using assms(3) i t by auto
    then have "pfa_inv (init_release i t)" "pfa_total_pages (init_release i t) = pfa_total_pages s"
      "frees (init_release i t) = frees t \<union> {j. j = i \<and> j < unat (pfa_total_pages s)}"
      using init_release_ok [of t i] t i assms(2) by simp_all
    with t i show "?P (Suc i) (init_release i t)" by (auto simp: less_Suc_eq)
  qed
qed (use assms in auto)

lemma reserve_loop:
  assumes "pfa_inv s" "b \<le> 4294967296"
  shows "pfa_inv (for_range a b init_reserve s) \<and>
    pfa_total_pages (for_range a b init_reserve s) = pfa_total_pages s \<and>
    frees (for_range a b init_reserve s) = frees s - {a..<b}"
proof (cases "a \<le> b")
  case True
  let ?P = "\<lambda>i t. pfa_inv t \<and> pfa_total_pages t = pfa_total_pages s \<and> frees t = frees s - {a..<i}"
  from True show ?thesis
  proof (rule for_range_induct [where P = ?P])
    show "?P a s" using assms by auto
  next
    fix i t
    assume i: "a \<le> i" "i < b" and t: "?P i t"
    have "i < 4294967296" using i assms(2) by simp
    moreover have "frees s - {a..<Suc i} = frees s - {a..<i} - {i}" using i by auto
    ultimately show "?P (Suc i) (init_reserve i t)"
      using init_reserve_ok [of t i] t by (simp only: simp_thms)
  qed
qed (use assms in simp)

text \<open>The pages that \<open>pfa_init\<close> leaves free, as sets of page numbers.\<close>

definition reserved_pages :: "u32 \<Rightarrow> u32 \<Rightarrow> u32 \<Rightarrow> nat set" where
  "reserved_pages bss_start bss_end bitmap_addr =
     {unat bss_start div 4096..<unat (bss_end + 4095) div 4096} \<union>
     {unat bitmap_addr div 4096..unat (bitmap_addr + 4095) div 4096}"

definition released_pages :: "nat set" where
  "released_pages = {0x98..0xB7} \<union> {0xB9..0xFF} \<union> {259..}"

lemma blank_bitmap: "p < 32768 \<Longrightarrow> page_used (replicate 4096 0xFF) p"
  using all_bits_u8 [of "0xFF"] by (simp add: page_used_def less_mult_imp_div_less)

lemma pfa_init_ok:
  fixes bss_start bss_end bitmap_addr total_pages
  defines "s \<equiv> pfa_init bss_start bss_end bitmap_addr total_pages"
  shows "pfa_inv s" "unat (pfa_total_pages s) = min (unat total_pages) 32768"
    "frees s = {p \<in> released_pages. p < min (unat total_pages) 32768}
               - reserved_pages bss_start bss_end bitmap_addr"
proof -
  define total where "total = (if total_pages > PFA_MAX_PAGES then PFA_MAX_PAGES else total_pages)"
  define s0 where "s0 = \<lparr>pfa_bitmap = replicate PFA_BITMAP_SIZE 0xFF, pfa_total_pages = total, pfa_free_pages = 0\<rparr>"
  have total: "unat total = min (unat total_pages) 32768" "unat total \<le> 32768"
    by (simp_all add: total_def layout_defs word_less_nat_alt word_le_nat_alt min_def)
  have f0: "frees s0 = {}"
    using total(2) blank_bitmap by (auto simp: s0_def frees_def layout_defs)
  have s0: "pfa_inv s0" "pfa_total_pages s0 = total"
    using f0 total(2) by (simp_all add: pfa_inv_def pfa_shape_def s0_def layout_defs word_le_nat_alt)
  define s1 where "s1 = for_range 0x98 0xB8 init_release s0"
  have s1: "pfa_inv s1" "pfa_total_pages s1 = total" "frees s1 = {p. 0x98 \<le> p \<and> p < 0xB8 \<and> p < unat total}"
    using release_loop [of s0 "0xB8" "0x98"] s0 f0 by (simp_all add: s1_def)
  define s2 where "s2 = for_range 0xB9 0x100 init_release s1"
  have s2: "pfa_inv s2" "pfa_total_pages s2 = total"
    "frees s2 = frees s1 \<union> {p. 0xB9 \<le> p \<and> p < 0x100 \<and> p < unat total}"
    using release_loop [of s1 "0x100" "0xB9"] s1 by (simp_all add: s2_def)
  have low: "\<forall>p \<in> frees s2. p < 259" unfolding s1(3) s2(3) by auto
  define s3 where "s3 = for_range 259 (unat total) init_release s2"
  have s3: "pfa_inv s3" "pfa_total_pages s3 = total" "frees s3 = frees s2 \<union> {p. 259 \<le> p \<and> p < unat total}"
    using release_loop [OF s2(1) _ low, of "unat total"] total(2) s2(2) by (auto simp: s3_def)
  define b1 where "b1 = unat (drop_bit 12 bss_start)"
  define b2 where "b2 = unat (drop_bit 12 (bss_end + PAGE_SIZE - 1))"
  define m1 where "m1 = unat (drop_bit 12 bitmap_addr)"
  define m2 where "m2 = unat (drop_bit 12 (bitmap_addr + of_nat PFA_BITMAP_SIZE - 1))"
  have bounds: "b1 = unat bss_start div 4096" "b2 = unat (bss_end + 4095) div 4096"
    "m1 = unat bitmap_addr div 4096" "m2 = unat (bitmap_addr + 4095) div 4096" "m2 < 4294967295"
    using unat_u32_less [of "4095 + bitmap_addr"]
    by (simp_all add: b1_def b2_def m1_def m2_def unat_shr layout_defs add.commute del: unat_u32_less)
  have le4: "min b2 (unat total) \<le> 4294967296" using total(2) by simp
  define s4 where "s4 = for_range b1 (min b2 (unat total)) init_reserve s3"
  have s4: "pfa_inv s4" "pfa_total_pages s4 = total" "frees s4 = frees s3 - {b1..<min b2 (unat total)}"
    using reserve_loop [OF s3(1), of "min b2 (unat total)" b1] le4 s3(2) by (simp_all only: s4_def)
  have s5: "s = for_range m1 (Suc m2) init_reserve s4"
    unfolding s_def pfa_init_def Let_def total_def [symmetric] s0_def [symmetric] s1_def [symmetric]
      s2_def [symmetric] s3_def [symmetric] b1_def [symmetric] b2_def [symmetric] s4_def [symmetric]
      m1_def [symmetric] m2_def [symmetric] ..
  have s5': "pfa_inv s" "pfa_total_pages s = total" "frees s = frees s4 - {m1..<Suc m2}"
    using reserve_loop [OF s4(1), of "Suc m2" m1] bounds(5) s4(2) unfolding s5 by (simp_all only: Suc_leI)
  show "pfa_inv s" "unat (pfa_total_pages s) = min (unat total_pages) 32768" using s5' total by auto
  show "frees s = {p \<in> released_pages. p < min (unat total_pages) 32768}
               - reserved_pages bss_start bss_end bitmap_addr"
    unfolding s5'(3) s4(3) s3(3) s2(3) s1(3) reserved_pages_def released_pages_def bounds(1-4)
      total(1) [symmetric] atLeastLessThanSuc_atLeastAtMost
    by (auto simp only: Un_iff Diff_iff mem_Collect_eq atLeastLessThan_iff atLeastAtMost_iff
        atLeast_iff min_less_iff_conj)
qed

section \<open>The contract of a frame allocator\<close>

text \<open>
  A client's session with an allocator: \<open>held\<close> is the set of page numbers that \<open>alloc\<close>
  returned and that the client has not released.  A client releases only what it holds.
\<close>

inductive session :: "('s \<Rightarrow> u32 \<times> 's) \<Rightarrow> (u32 \<Rightarrow> 's \<Rightarrow> 's) \<Rightarrow> 's \<Rightarrow> 's \<Rightarrow> nat set \<Rightarrow> bool"
  for alloc release s0 where
  session_start: "session alloc release s0 s0 {}"
| session_alloc: "session alloc release s0 s held \<Longrightarrow> alloc s = (a, t) \<Longrightarrow> a \<noteq> 0 \<Longrightarrow>
    session alloc release s0 t (insert (unat a div 4096) held)"
| session_release: "session alloc release s0 s held \<Longrightarrow> p \<in> held \<Longrightarrow>
    session alloc release s0 (release (push_bit 12 (of_nat p)) s) (held - {p})"

locale frame_allocator =
  fixes alloc :: "'s \<Rightarrow> u32 \<times> 's"
    and release :: "u32 \<Rightarrow> 's \<Rightarrow> 's"
    and avail :: "'s \<Rightarrow> nat set"
    and ok :: "'s \<Rightarrow> bool"
  assumes avail_bound: "ok s \<Longrightarrow> p \<in> avail s \<Longrightarrow> p < 32768"
    and alloc_empty: "ok s \<Longrightarrow> avail s = {} \<Longrightarrow> alloc s = (0, s)"
    and alloc_takes: "ok s \<Longrightarrow> avail s \<noteq> {} \<Longrightarrow>
          \<exists>p \<in> avail s. \<exists>t. alloc s = (push_bit 12 (of_nat p), t) \<and> ok t \<and> avail t = avail s - {p}"
    and release_ok: "ok s \<Longrightarrow> ok (release a s)"
    and release_avail: "ok s \<Longrightarrow> avail s \<subseteq> avail (release a s)"
      "ok s \<Longrightarrow> avail (release a s) \<subseteq> insert (unat a div 4096) (avail s)"
begin

lemma alloc_ok: "ok s \<Longrightarrow> ok (snd (alloc s))"
  by (metis alloc_empty alloc_takes snd_conv)

text \<open>A non-zero answer is the address of a frame that was available and no longer is.\<close>

lemma alloc_frame:
  assumes "ok s" "alloc s = (a, t)" "a \<noteq> 0"
  shows "\<exists>p. p \<in> avail s \<and> p < 32768 \<and> a = push_bit 12 (of_nat p) \<and> unat a = 4096 * p \<and> ok t \<and> avail t = avail s - {p}"
proof -
  have "avail s \<noteq> {}"
  proof
    assume "avail s = {}"
    from alloc_empty [OF assms(1) this] assms(2,3) show False by simp
  qed
  from alloc_takes [OF assms(1) this] obtain p t' where p: "p \<in> avail s"
    and t': "alloc s = (push_bit 12 (of_nat p), t')" "ok t'" "avail t' = avail s - {p}" by blast
  have at: "a = push_bit 12 (of_nat p)" "t = t'" using t'(1) assms(2) by (metis prod.inject)+
  have "p < 32768" by (rule avail_bound [OF assms(1) p])
  with p t'(2,3) at frame_addr(1) [OF this] show ?thesis by blast
qed

lemma session_inv:
  assumes "session alloc release s0 s held" "ok s0" "0 \<notin> avail s0"
  shows "ok s \<and> 0 \<notin> avail s \<and> 0 \<notin> held \<and> held \<inter> avail s = {} \<and> finite held \<and> (\<forall>p \<in> held. p < 32768)"
  using assms
proof (induction rule: session.induct)
  case session_start
  then show ?case by simp
next
  case (session_alloc s held a t)
  then have inv: "ok s" "0 \<notin> avail s" "0 \<notin> held" "held \<inter> avail s = {}" "finite held" "\<forall>p \<in> held. p < 32768"
    by simp_all
  obtain p where "p \<in> avail s" "p < 32768" "unat a = 4096 * p" "ok t" "avail t = avail s - {p}"
    using alloc_frame [OF inv(1) session_alloc.hyps(2,3)] by auto
  with inv show ?case by auto
next
  case (session_release s held p)
  then have inv: "ok s" "0 \<notin> avail s" "0 \<notin> held" "held \<inter> avail s = {}" "finite held" "\<forall>p \<in> held. p < 32768"
    by simp_all
  have p: "unat (push_bit 12 (of_nat p) :: u32) div 4096 = p" "p \<noteq> 0"
    using inv session_release.hyps frame_addr(1) [of p] by auto
  have "avail (release (push_bit 12 (of_nat p)) s) \<subseteq> insert p (avail s)"
    using release_avail(2) [OF inv(1)] p(1) by metis
  with inv p(2) release_ok [OF inv(1)] show ?case by auto
qed

lemma alloc_exclusive:
  assumes "session alloc release s0 s held" "ok s0" "0 \<notin> avail s0" "alloc s = (a, t)" "a \<noteq> 0"
  shows "unat a div 4096 \<notin> held \<and> unat a mod 4096 = 0 \<and> unat a div 4096 \<in> avail s"
proof -
  from session_inv [OF assms(1-3)] have "ok s" "held \<inter> avail s = {}" by simp_all
  with alloc_frame [OF this(1) assms(4,5)] show ?thesis by auto
qed

end

lemma pfa_alloc_cases:
  assumes "pfa_inv s" "frees s \<noteq> {}"
  shows "pfa_alloc_frame s = take_page (Min (frees s)) s" "Min (frees s) \<in> frees s"
  using assms by (auto simp: pfa_inv_def intro: alloc_some)

interpretation pfa_fa: frame_allocator pfa_alloc_frame pfa_free_frame frees pfa_inv
proof unfold_locales
  fix s :: pfa and p a
  show "pfa_inv s \<Longrightarrow> p \<in> frees s \<Longrightarrow> p < 32768"
    using free_page_bound [of s p] by (simp add: pfa_inv_def)
  show "pfa_inv s \<Longrightarrow> frees s = {} \<Longrightarrow> pfa_alloc_frame s = (0, s)"
    by (simp add: pfa_inv_def alloc_none)
  show "pfa_inv s \<Longrightarrow> frees s \<noteq> {} \<Longrightarrow>
      \<exists>p \<in> frees s. \<exists>t. pfa_alloc_frame s = (push_bit 12 (of_nat p), t) \<and> pfa_inv t \<and> frees t = frees s - {p}"
    using pfa_alloc_cases [of s] take_page_ok [of s "Min (frees s)"] by (metis prod.collapse)
  show "pfa_inv s \<Longrightarrow> pfa_inv (pfa_free_frame a s)" by (rule free_frame_ok)
  show "pfa_inv s \<Longrightarrow> frees s \<subseteq> frees (pfa_free_frame a s)"
    by (auto simp: free_frame_ok)
  show "pfa_inv s \<Longrightarrow> frees (pfa_free_frame a s) \<subseteq> insert (unat a div 4096) (frees s)"
    by (auto simp: free_frame_ok)
qed

section \<open>Properties\<close>

text \<open>
  C5. \<open>pfa_alloc_frame\<close> refines ``take the least free frame'': with no free frame it answers
  0 and changes nothing; otherwise it answers the 4 KB aligned address of the lowest free frame, that
  frame and no other becomes used, the cached counter drops by one and the allocator's
  invariant (bitmap size, page limit, counter = number of free frames) is kept.
\<close>

theorem pfa_alloc_frame_spec:
  assumes "pfa_inv s" "pfa_alloc_frame s = (a, t)"
  shows "if frees s = {} then a = 0 \<and> t = s
         else unat a = 4096 * Min (frees s) \<and> frees t = frees s - {Min (frees s)} \<and>
              pfa_get_free_count t = pfa_get_free_count s - 1 \<and> pfa_inv t"
proof (cases "frees s = {}")
  case True
  with assms show ?thesis using pfa_fa.alloc_empty [of s] by simp
next
  case False
  note al = pfa_alloc_cases [OF assms(1) False]
  note tp = take_page_ok [OF assms(1) al(2)]
  have b: "Min (frees s) < 32768" "Min (frees s) < unat (pfa_total_pages s)"
    using free_page_bound al(2) assms(1) by (auto simp: pfa_inv_def)
  have "pfa_free_pages (snd (take_page (Min (frees s)) s)) = pfa_free_pages s - 1"
    using b by (simp add: take_page_def)
  with False tp al(1) assms(2) frame_addr(1) [OF b(1)] show ?thesis
    unfolding pfa_get_free_count_def by (metis fst_conv snd_conv)
qed

text \<open>
  \<open>pfa_free_frame\<close> gives exactly the frame that holds the address back: the frame joins
  the free set when it is managed and used; an unmanaged address and a second release of the same
  frame leave the free set and the counter as they are.  The invariant is kept.
\<close>

theorem pfa_free_frame_spec:
  assumes "pfa_inv s"
  shows "pfa_inv (pfa_free_frame a s)
    \<and> frees (pfa_free_frame a s) =
        (if unat a div 4096 < unat (pfa_total_pages s) then insert (unat a div 4096) (frees s) else frees s)
    \<and> pfa_get_free_count (pfa_free_frame a s) =
        (if unat a div 4096 < unat (pfa_total_pages s) \<and> unat a div 4096 \<notin> frees s
         then pfa_get_free_count s + 1 else pfa_get_free_count s)"
proof -
  have pg: "unat (drop_bit 12 a) = unat a div 4096" by (simp add: unat_shr)
  have "pfa_free_pages (pfa_free_frame a s) =
      (if unat a div 4096 < unat (pfa_total_pages s) \<and> unat a div 4096 \<notin> frees s
       then pfa_free_pages s + 1 else pfa_free_pages s)"
    using test_frees [of "drop_bit 12 a" s]
    by (auto simp: pfa_free_frame_def Let_def word_le_nat_alt word_less_nat_alt pg)
  with free_frame_ok [OF assms] show ?thesis by (simp add: pfa_get_free_count_def)
qed


text \<open>
  C7. No frame is handed out twice: in every session that starts from \<open>pfa_init\<close> and in which
  clients release only what they hold, each address \<open>pfa_alloc_frame\<close> returns belongs to a
  frame that no client holds, and it is page aligned.
\<close>

theorem pfa_alloc_exclusive:
  assumes "session pfa_alloc_frame pfa_free_frame (pfa_init bss_start bss_end bitmap_addr n) s held"
    and "pfa_alloc_frame s = (a, t)" "a \<noteq> 0"
  shows "unat a div 4096 \<notin> held \<and> unat a mod 4096 = 0"
proof -
  have "0 \<notin> frees (pfa_init bss_start bss_end bitmap_addr n)"
    by (simp add: pfa_init_ok(3) released_pages_def)
  with pfa_fa.alloc_exclusive [OF assms(1) pfa_init_ok(1) _ assms(2,3)] show ?thesis by simp
qed


section \<open>Witnesses\<close>

definition demo :: pfa where "demo = pfa_init 0x200000 0x300000 0x210000 32768"

lemma demo_facts: "pfa_inv demo" "unat (pfa_total_pages demo) = 32768" "Min (frees demo) = 0x98" "frees demo \<noteq> {}"
proof -
  show "pfa_inv demo" "unat (pfa_total_pages demo) = 32768"
    unfolding demo_def by (simp_all add: pfa_init_ok(1,2))
  have f: "frees demo = {p \<in> released_pages. p < 32768} - reserved_pages 0x200000 0x300000 0x210000"
    unfolding demo_def by (simp add: pfa_init_ok(3))
  then have m: "0x98 \<in> frees demo" by (simp add: released_pages_def reserved_pages_def)
  then show "frees demo \<noteq> {}" by auto
  have "0x98 \<le> p" if "p \<in> frees demo" for p using that by (auto simp: f released_pages_def)
  then show "Min (frees demo) = 0x98" using m by (intro Min_eqI) auto
qed

lemma pfa_alloc_frame_spec_witness:
  "unat (fst (pfa_alloc_frame demo)) = 0x98000 \<and> 0x98 \<notin> frees (snd (pfa_alloc_frame demo))"
  using pfa_alloc_frame_spec [of demo "fst (pfa_alloc_frame demo)" "snd (pfa_alloc_frame demo)"] demo_facts
  by simp

lemma pfa_free_frame_spec_witness:
  "0 \<in> frees (pfa_free_frame 0 demo) \<and> frees (pfa_free_frame 0x98000 demo) = frees demo"
  using pfa_free_frame_spec [of demo 0] pfa_free_frame_spec [of demo "0x98000"] demo_facts Min_in [of "frees demo"]
  by (auto simp: insert_absorb)

lemma pfa_alloc_exclusive_witness:
  "let (a, s) = pfa_alloc_frame demo; (b, t) = pfa_alloc_frame s in a \<noteq> 0 \<and> b \<noteq> 0 \<and> a \<noteq> b"
proof -
  obtain a s where as: "pfa_alloc_frame demo = (a, s)" by fastforce
  obtain b t where bt: "pfa_alloc_frame s = (b, t)" by fastforce
  have f: "frees demo = {p \<in> released_pages. p < 32768} - reserved_pages 0x200000 0x300000 0x210000"
    unfolding demo_def by (simp add: pfa_init_ok(3))
  then have z: "0 \<notin> frees demo" "0x99 \<in> frees demo" by (simp_all add: released_pages_def reserved_pages_def)
  have nz: "fst (pfa_alloc_frame u) \<noteq> 0" if "pfa_inv u" "frees u \<noteq> {}" "0 \<notin> frees u" for u
  proof
    assume "fst (pfa_alloc_frame u) = 0"
    with pfa_fa.alloc_takes [OF that(1,2)] frame_addr(4) pfa_fa.avail_bound [OF that(1)] that(3)
    show False by (metis fst_conv)
  qed
  have a: "a \<noteq> 0" using nz [OF demo_facts(1,4) z(1)] as by simp
  have s: "pfa_inv s" "frees s = frees demo - {0x98}"
    using pfa_alloc_cases [OF demo_facts(1,4)] take_page_ok [OF demo_facts(1), of "0x98"] demo_facts(3) as
    by (metis snd_conv)+
  have "0x99 \<in> frees s" "0 \<notin> frees s" using s(2) z by simp_all
  then have b: "b \<noteq> 0" using nz [OF s(1)] bt by (metis empty_iff fst_conv)
  have "session pfa_alloc_frame pfa_free_frame demo s {unat a div 4096}"
  proof (rule session.session_alloc [where alloc = pfa_alloc_frame and held = "{}"])
    show "session pfa_alloc_frame pfa_free_frame demo demo {}" by (rule session.session_start)
  qed (fact as a)+
  from pfa_alloc_exclusive [OF this [unfolded demo_def] bt b] have "unat b div 4096 \<noteq> unat a div 4096" by simp
  with as bt a b show ?thesis by auto
qed

end
