(* ===== verification/Paging.thy ===== *)
theory Paging
  imports Pfa
begin

text \<open>
  The pager, \<^verbatim>\<open>src/kernel/mm/paging.c\<close>: two-level page tables in physical memory,
  which the kernel reaches through its identity mapping.  \<open>mem\<close> gives the dword at each
  4-byte aligned address (the code reads and writes page tables by aligned dwords and clears
  whole pages only); \<open>frames\<close> is the allocator of theory \<open>Pfa\<close>; every \<open>invlpg\<close> is logged
  in \<open>tlb_flushes\<close>.  Console output is left out.
\<close>

unbundle bit_operations_syntax

section \<open>State\<close>

definition PAGE_PRESENT :: u32 where "PAGE_PRESENT = 1"
definition PAGE_WRITABLE :: u32 where "PAGE_WRITABLE = 2"
definition PAGE_USER :: u32 where "PAGE_USER = 4"
definition PDE_4MB :: u32 where "PDE_4MB = 0x80"
definition PAGE_4M_SIZE :: u32 where "PAGE_4M_SIZE = 0x400000"
definition PAGE_DIR_ADDR :: u32 where [layout_defs]: "PAGE_DIR_ADDR = 0x100000"
definition PAGE_TABLE_ADDR :: u32 where [layout_defs]: "PAGE_TABLE_ADDR = 0x101000"
definition USER_LOAD_ADDR :: u32 where [layout_defs]: "USER_LOAD_ADDR = 0x50000"
definition USER_STACK_TOP :: u32 where [layout_defs]: "USER_STACK_TOP = 0x81000"
definition VGA_TEXT_BUFFER :: u32 where [layout_defs]: "VGA_TEXT_BUFFER = 0xB8000"
definition MAX_PAGE_TABLES :: u32 where "MAX_PAGE_TABLES = 254"

lemmas page_flags = PAGE_PRESENT_def PAGE_WRITABLE_def PAGE_USER_def PDE_4MB_def PAGE_4M_SIZE_def

record machine =
  mem :: "u32 \<Rightarrow> u32"
  frames :: pfa
  extra_page_tables :: "u32 list"
  tlb_flushes :: "u32 list"
  cr0 :: u32
  cr3 :: u32
  cr4 :: u32

definition store :: "u32 \<Rightarrow> u32 \<Rightarrow> machine \<Rightarrow> machine" where
  "store a v s = s\<lparr>mem := (mem s)(a := v)\<rparr>"

text \<open>\<open>fast_memset(p, 0, 4096)\<close>\<close>

definition zero_page :: "u32 \<Rightarrow> machine \<Rightarrow> machine" where
  "zero_page base s = s\<lparr>mem := (\<lambda>a. if a - base < 4096 then 0 else mem s a)\<rparr>"

text \<open>The entries \<open>page_directory[i]\<close> and \<open>pt[j]\<close>.\<close>

definition pde_addr :: "u32 \<Rightarrow> u32" where "pde_addr i = PAGE_DIR_ADDR + 4 * i"
definition pte_addr :: "u32 \<Rightarrow> u32 \<Rightarrow> u32" where "pte_addr pt j = pt + 4 * j"

abbreviation pde :: "machine \<Rightarrow> u32 \<Rightarrow> u32" where "pde s i \<equiv> mem s (pde_addr i)"

definition tlb_flush_page :: "u32 \<Rightarrow> machine \<Rightarrow> machine" where
  "tlb_flush_page vaddr s = s\<lparr>tlb_flushes := vaddr # tlb_flushes s\<rparr>"

definition present :: "u32 \<Rightarrow> bool" where "present e \<longleftrightarrow> e AND PAGE_PRESENT \<noteq> 0"

section \<open>Operations\<close>

definition init_pte :: "u32 \<Rightarrow> u32" where
  "init_pte i =
     (let flags = PAGE_PRESENT OR PAGE_WRITABLE;
          flags = (if i \<ge> drop_bit 12 USER_LOAD_ADDR \<and> i \<le> drop_bit 12 USER_STACK_TOP
                   then flags OR PAGE_USER else flags);
          flags = (if i = drop_bit 12 VGA_TEXT_BUFFER then PAGE_PRESENT OR PAGE_WRITABLE else flags)
      in (i * PAGE_SIZE) OR flags)"

definition paging_init :: "bool \<Rightarrow> u32 \<Rightarrow> u32 \<Rightarrow> u32 \<Rightarrow> machine \<Rightarrow> machine" where
  "paging_init has_pse bss_start bss_end bitmap_addr s =
     (let s = zero_page PAGE_DIR_ADDR s;
          s = zero_page PAGE_TABLE_ADDR s;
          s = for_range 0 1024 (\<lambda>i. store (pte_addr PAGE_TABLE_ADDR (of_nat i)) (init_pte (of_nat i))) s;
          s = store (pde_addr 0) (PAGE_TABLE_ADDR OR PAGE_PRESENT OR PAGE_WRITABLE OR PAGE_USER) s;
          s = (if has_pse
               then store (pde_addr 1) (PAGE_4M_SIZE OR PAGE_PRESENT OR PAGE_WRITABLE OR PDE_4MB) s
               else let s = zero_page 0x102000 s;
                        s = for_range 1024 1536 (\<lambda>i. store (pte_addr 0x102000 (of_nat i - 1024))
                              ((of_nat i * PAGE_SIZE) OR PAGE_PRESENT OR PAGE_WRITABLE)) s
                    in store (pde_addr 1) (0x102000 OR PAGE_PRESENT OR PAGE_WRITABLE) s);
          s = (if has_pse then s\<lparr>cr4 := cr4 s OR 0x10\<rparr> else s);
          s = s\<lparr>cr3 := PAGE_DIR_ADDR\<rparr>;
          s = s\<lparr>cr0 := cr0 s OR 0x80000000\<rparr>
      in s\<lparr>frames := pfa_init bss_start bss_end bitmap_addr 32768\<rparr>)"

definition user_ptr_valid :: "u32 \<Rightarrow> u32 \<Rightarrow> bool" where
  "user_ptr_valid addr sz =
     (if addr + sz < addr then False
      else let end = addr + sz - 1 in
        if addr < USER_LOAD_ADDR then False
        else if end > USER_STACK_TOP + PAGE_SIZE - 1 then False
        else True)"

definition page_table_is_empty :: "u32 \<Rightarrow> machine \<Rightarrow> bool" where
  "page_table_is_empty pd_idx s =
     (if pd_idx = 0 then False
      else let pt = pde s pd_idx AND 0xFFFFF000 in
        if \<not> present (pde s pd_idx) then True
        else list_all (\<lambda>i. \<not> present (mem s (pte_addr pt (of_nat i)))) [0..<1024])"

definition page_table_free :: "u32 \<Rightarrow> machine \<Rightarrow> machine" where
  "page_table_free pd_idx s =
     (if pd_idx = 0 then s
      else let pt_phys = pde s pd_idx AND 0xFFFFF000 in
        if pt_phys = 0 then s
        else let s = store (pde_addr pd_idx) 0 s;
                 s = s\<lparr>frames := pfa_free_frame pt_phys (frames s)\<rparr>
             in if pd_idx > 0 \<and> pd_idx - 1 < MAX_PAGE_TABLES
                then s\<lparr>extra_page_tables := (extra_page_tables s)[unat (pd_idx - 1) := 0]\<rparr> else s)"

text \<open>
  The first part of \<open>page_map\<close>: make sure that the directory entry is present; \<open>None\<close> is
  the early \<open>return -1\<close>.
\<close>

definition ensure_table :: "u32 \<Rightarrow> machine \<Rightarrow> machine option" where
  "ensure_table pd_idx s =
     (if present (pde s pd_idx) then Some s
      else let (new_pt_phys, f) = pfa_alloc_frame (frames s) in
        if new_pt_phys = 0 then None
        else let s = zero_page new_pt_phys (s\<lparr>frames := f\<rparr>);
                 s = store (pde_addr pd_idx) (new_pt_phys OR PAGE_PRESENT OR PAGE_WRITABLE) s
             in Some (if pd_idx > 0 \<and> pd_idx - 1 < MAX_PAGE_TABLES
                      then s\<lparr>extra_page_tables := (extra_page_tables s)[unat (pd_idx - 1) := new_pt_phys]\<rparr>
                      else s))"

definition table_of :: "u32 \<Rightarrow> machine \<Rightarrow> u32" where
  "table_of pd_idx s = (if pd_idx = 0 then PAGE_TABLE_ADDR else pde s pd_idx AND 0xFFFFF000)"

definition page_map :: "u32 \<Rightarrow> u32 \<Rightarrow> u32 \<Rightarrow> machine \<Rightarrow> int \<times> machine" where
  "page_map vaddr paddr flags s =
     (let pd_idx = drop_bit 22 vaddr; pt_idx = drop_bit 12 vaddr AND 0x3FF in
      if vaddr AND 0xFFF \<noteq> 0 \<or> paddr AND 0xFFF \<noteq> 0 then (-1, s)
      else if pd_idx \<ge> 1024 then (-1, s)
      else case ensure_table pd_idx s of
        None \<Rightarrow> (-1, s\<lparr>frames := snd (pfa_alloc_frame (frames s))\<rparr>)
      | Some s \<Rightarrow>
          let pt = table_of pd_idx s;
              s = store (pte_addr pt pt_idx)
                    ((paddr AND 0xFFFFF000) OR (flags AND 0xFFF) OR PAGE_PRESENT) s
          in (0, tlb_flush_page vaddr s))"

definition page_unmap :: "u32 \<Rightarrow> machine \<Rightarrow> machine" where
  "page_unmap vaddr s =
     (let pd_idx = drop_bit 22 vaddr; pt_idx = drop_bit 12 vaddr AND 0x3FF in
      if vaddr AND 0xFFF \<noteq> 0 then s
      else if pd_idx \<ge> 1024 then s
      else if \<not> present (pde s pd_idx) then s
      else let pt = table_of pd_idx s;
               s = (if present (mem s (pte_addr pt pt_idx))
                    then tlb_flush_page vaddr (store (pte_addr pt pt_idx) 0 s) else s)
           in if page_table_is_empty pd_idx s then page_table_free pd_idx s else s)"

definition page_unmap_and_free :: "u32 \<Rightarrow> machine \<Rightarrow> machine" where
  "page_unmap_and_free vaddr s =
     (let pd_idx = drop_bit 22 vaddr; pt_idx = drop_bit 12 vaddr AND 0x3FF in
      if vaddr AND 0xFFF \<noteq> 0 then s
      else if pd_idx \<ge> 1024 then s
      else if \<not> present (pde s pd_idx) then s
      else let pt = table_of pd_idx s; entry = mem s (pte_addr pt pt_idx) in
        if \<not> present entry then s
        else let paddr = entry AND 0xFFFFF000;
                 s = tlb_flush_page vaddr (store (pte_addr pt pt_idx) 0 s);
                 s = s\<lparr>frames := pfa_free_frame paddr (frames s)\<rparr>
             in if page_table_is_empty pd_idx s then page_table_free pd_idx s else s)"

definition page_get_mapping :: "u32 \<Rightarrow> machine \<Rightarrow> u32" where
  "page_get_mapping vaddr s =
     (let pd_idx = drop_bit 22 vaddr; pt_idx = drop_bit 12 vaddr AND 0x3FF in
      if pd_idx \<ge> 1024 then 0
      else if \<not> present (pde s pd_idx) then 0
      else let entry = mem s (pte_addr (table_of pd_idx s) pt_idx) in
        if \<not> present entry then 0
        else (entry AND 0xFFFFF000) + (vaddr AND 0xFFF))"

section \<open>Address arithmetic\<close>

lemma hi_mask: "x AND 0xFFFFF000 = push_bit 12 (drop_bit 12 (x :: u32))"
proof -
  have "(0xFFFFF000 :: u32) = NOT (mask 12)" by (simp add: mask_eq_exp_minus_1)
  then have "x AND 0xFFFFF000 = x AND NOT (mask 12)" by (simp only:)
  also have "\<dots> = push_bit 12 (drop_bit 12 x)" by (auto simp: bit_eq_iff bit_simps)
  finally show ?thesis .
qed

lemma unat_hi_mask: "unat (x AND 0xFFFFF000 :: u32) = 4096 * (unat x div 4096)"
proof -
  have "unat (push_bit 12 (drop_bit 12 x)) = (4096 * unat (drop_bit 12 x)) mod 4294967296"
    by (simp add: push_bit_eq_mult unat_word_ariths mult.commute)
  also have "\<dots> = 4096 * (unat x div 4096)"
    using unat_u32_less [of x] by (simp add: unat_shr del: unat_u32_less)
  finally show ?thesis by (simp add: hi_mask)
qed

lemma unat_lo_mask: "unat (x AND 0xFFF :: u32) = unat x mod 4096"
  using unat_mask [of x 12] by (simp add: mask_eq_exp_minus_1)

lemma aligned_iff: "x AND 0xFFF = (0 :: u32) \<longleftrightarrow> unat x mod 4096 = 0"
  by (simp add: unat_lo_mask flip: unat_eq_zero)

lemma idx_bounds:
  "unat (drop_bit 22 (v :: u32)) < 1024" "unat (drop_bit 12 v AND 0x3FF) < 1024"
  using unat_u32_less [of v] unat_mask [of "drop_bit 12 v" 10]
  by (simp_all add: unat_shr mask_eq_exp_minus_1 del: unat_u32_less)

lemma pd_idx_not_ge [simp]: "\<not> 1024 \<le> drop_bit 22 (v :: u32)"
  using idx_bounds(1) [of v] by (simp add: word_le_nat_alt)

lemma idx_eq_iff:
  "drop_bit 22 (v :: u32) = drop_bit 22 w \<and> drop_bit 12 v AND 0x3FF = drop_bit 12 w AND 0x3FF
   \<longleftrightarrow> unat v div 4096 = unat w div 4096"
proof -
  have idx: "unat (drop_bit 22 x) = unat x div 4096 div 1024"
    "unat (drop_bit 12 x AND 0x3FF) = unat x div 4096 mod 1024" for x :: u32
    using unat_mask [of "drop_bit 12 x" 10]
    by (simp_all add: unat_shr mask_eq_exp_minus_1 div_mult2_eq [symmetric])
  show ?thesis
    unfolding word_unat_eq_iff idx by (metis div_mult_mod_eq)
qed

text \<open>An entry address determines the page and the slot.\<close>

lemma page_room: "unat (b :: u32) mod 4096 = 0 \<Longrightarrow> unat b + 4095 < 4294967296"
proof (erule mod_0E)
  fix k assume k: "unat b = 4096 * k"
  with unat_u32_less [of b] have "k < 1048576" by linarith
  with k show ?thesis by simp
qed

lemma entry_addr:
  assumes "unat base mod 4096 = 0" "unat j < 1024"
  shows "unat (base + 4 * j :: u32) = unat base + 4 * unat j"
  using page_room [OF assms(1)] assms(2) by (simp add: unat_word_ariths)

lemma page_split:
  assumes "4096 * k + x = 4096 * k' + y" "x < 4096" "y < (4096 :: nat)"
  shows "k = k' \<and> x = y"
proof -
  from assms have "(4096 * k + x) div 4096 = (4096 * k' + y) div 4096" by simp
  with assms(2,3) have "k = k'" by simp
  with assms(1) show ?thesis by simp
qed

lemma entry_addr_inj:
  assumes "unat b mod 4096 = 0" "unat b' mod 4096 = 0" "unat i < 1024" "unat j < 1024"
  shows "(b + 4 * i :: u32) = b' + 4 * j \<longleftrightarrow> b = b' \<and> i = j"
proof
  assume "b + 4 * i = b' + 4 * j"
  then have e: "unat b + 4 * unat i = unat b' + 4 * unat j"
    using assms by (metis entry_addr)
  obtain k where k: "unat b = 4096 * k" using assms(1) by (rule mod_0E)
  obtain k' where k': "unat b' = 4096 * k'" using assms(2) by (rule mod_0E)
  have "k = k' \<and> 4 * unat i = 4 * unat j"
    using e assms(3,4) unfolding k k' by (intro page_split) simp_all
  with k k' show "b = b' \<and> i = j" by (simp add: word_unat_eq_iff)
qed simp

lemma entry_page:
  assumes "unat b mod 4096 = 0" "unat b' mod 4096 = 0" "unat j < 1024"
  shows "(b + 4 * j) - b' < (4096 :: u32) \<longleftrightarrow> b = b'"
proof
  assume "b = b'"
  with assms show "(b + 4 * j) - b' < (4096 :: u32)"
    by (simp add: word_less_nat_alt unat_word_ariths)
next
  assume l: "(b + 4 * j) - b' < (4096 :: u32)"
  define d where "d = (b + 4 * j) - b'"
  have eq: "b + 4 * j = b' + d" by (simp add: d_def)
  have d: "unat d < 4096" using l by (simp add: d_def word_less_nat_alt)
  have "unat (b' + d) = unat b' + unat d"
    using page_room [OF assms(2)] d by (simp add: unat_word_ariths)
  with eq entry_addr [OF assms(1,3)] have e: "unat b + 4 * unat j = unat b' + unat d" by simp
  obtain k where k: "unat b = 4096 * k" using assms(1) by (rule mod_0E)
  obtain k' where k': "unat b' = 4096 * k'" using assms(2) by (rule mod_0E)
  have "k = k' \<and> 4 * unat j = unat d"
    using e d assms(3) unfolding k k' by (intro page_split) simp_all
  with k k' show "b = b'" by (simp add: word_unat_eq_iff)
qed

section \<open>Abstract translation and invariant\<close>

text \<open>
  What the tables say of the page in slot \<open>(i, j)\<close>: its entry, or \<open>None\<close> when it is not
  mapped.  A directory entry with the 4 MB bit has no table; the slots below it are
  outside this view (the code does not look at the bit).
\<close>

definition is_table :: "machine \<Rightarrow> u32 \<Rightarrow> bool" where
  "is_table s i \<longleftrightarrow> present (pde s i) \<and> pde s i AND PDE_4MB = 0"

definition usable :: "machine \<Rightarrow> u32 \<Rightarrow> bool" where
  "usable s i \<longleftrightarrow> unat i < 1024 \<and> (present (pde s i) \<longrightarrow> i = 0 \<or> is_table s i)"

definition xlate :: "machine \<Rightarrow> u32 \<Rightarrow> u32 \<Rightarrow> u32 option" where
  "xlate s i j =
     (if present (pde s i) \<and> present (mem s (pte_addr (table_of i s) j))
      then Some (mem s (pte_addr (table_of i s) j)) else None)"

definition table_page :: "machine \<Rightarrow> u32 \<Rightarrow> nat" where
  "table_page s i = unat (table_of i s) div 4096"

definition PDE_0 :: u32 where
  "PDE_0 = PAGE_TABLE_ADDR OR PAGE_PRESENT OR PAGE_WRITABLE OR PAGE_USER"

lemma PDE_0_facts: "present PDE_0" "PDE_0 AND 0xFFFFF000 = PAGE_TABLE_ADDR" "PDE_0 AND PDE_4MB = 0"
  by (simp_all add: PDE_0_def page_flags layout_defs present_def)

definition pg_inv :: "machine \<Rightarrow> bool" where
  "pg_inv s \<longleftrightarrow> pfa_inv (frames s) \<and> frees (frames s) \<inter> {0, 256, 257} = {} \<and> pde s 0 = PDE_0 \<and>
     (\<forall>i. unat i < 1024 \<and> i \<noteq> 0 \<and> is_table s i \<longrightarrow>
        table_page s i \<notin> frees (frames s) \<union> {0, 256, 257} \<and>
        (\<forall>k. unat k < 1024 \<and> k \<noteq> 0 \<and> is_table s k \<and> table_page s k = table_page s i \<longrightarrow> k = i))"

lemma pg_inv_table:
  "pg_inv s \<Longrightarrow> unat i < 1024 \<Longrightarrow> i \<noteq> 0 \<Longrightarrow> is_table s i \<Longrightarrow> table_page s i \<notin> frees (frames s) \<union> {0, 256, 257}"
  "pg_inv s \<Longrightarrow> unat i < 1024 \<Longrightarrow> i \<noteq> 0 \<Longrightarrow> is_table s i \<Longrightarrow> unat k < 1024 \<Longrightarrow> k \<noteq> 0 \<Longrightarrow>
   is_table s k \<Longrightarrow> table_page s k = table_page s i \<Longrightarrow> k = i"
  unfolding pg_inv_def by blast+

lemma page_get_mapping_xlate:
  "page_get_mapping v s =
     (case xlate s (drop_bit 22 v) (drop_bit 12 v AND 0x3FF) of
        None \<Rightarrow> 0 | Some e \<Rightarrow> (e AND 0xFFFFF000) + (v AND 0xFFF))"
  by (simp add: page_get_mapping_def xlate_def Let_def)

lemma mem_store [simp]: "mem (store a v s) = (mem s)(a := v)"
  and mem_flush [simp]: "mem (tlb_flush_page v s) = mem s"
  and mem_zero [simp]: "mem (zero_page b s) = (\<lambda>a. if a - b < 4096 then 0 else mem s a)"
  and frames_frame [simp]: "frames (store a v s) = frames s" "frames (tlb_flush_page v s) = frames s"
    "frames (zero_page b s) = frames s"
  by (simp_all add: store_def tlb_flush_page_def zero_page_def)

lemma table_aligned: "unat (table_of i s) mod 4096 = 0"
  by (simp add: table_of_def layout_defs unat_hi_mask)

lemma dir_aligned: "unat PAGE_DIR_ADDR mod 4096 = 0" "unat PAGE_DIR_ADDR div 4096 = 256"
  "unat PAGE_TABLE_ADDR mod 4096 = 0" "unat PAGE_TABLE_ADDR div 4096 = 257"
  by (simp_all add: layout_defs)

lemma page_eqI: "unat (a :: u32) mod 4096 = 0 \<Longrightarrow> unat b mod 4096 = 0 \<Longrightarrow> unat a div 4096 = unat b div 4096 \<Longrightarrow> a = b"
  by (metis div_mult_mod_eq word_unat_eq_iff)

text \<open>Directory slots and table slots are different memory, and so are the slots of different tables.\<close>

lemma pde_addr_inj: "unat i < 1024 \<Longrightarrow> unat k < 1024 \<Longrightarrow> pde_addr i = pde_addr k \<longleftrightarrow> i = k"
  using entry_addr_inj [OF dir_aligned(1) dir_aligned(1)] by (simp add: pde_addr_def)

lemma pde_ne_pte:
  assumes "unat b mod 4096 = 0" "unat b div 4096 \<noteq> 256" "unat i < 1024" "unat j < 1024"
  shows "pde_addr i \<noteq> pte_addr b j" "pte_addr b j \<noteq> pde_addr i"
proof -
  have "b \<noteq> PAGE_DIR_ADDR" using assms(2) dir_aligned(2) by auto
  with entry_addr_inj [OF dir_aligned(1) assms(1) assms(3,4)]
  show "pde_addr i \<noteq> pte_addr b j" "pte_addr b j \<noteq> pde_addr i"
    by (auto simp: pde_addr_def pte_addr_def)
qed

lemma pte_addr_inj:
  "unat b mod 4096 = 0 \<Longrightarrow> unat b' mod 4096 = 0 \<Longrightarrow> unat j < 1024 \<Longrightarrow> unat l < 1024 \<Longrightarrow>
   pte_addr b j = pte_addr b' l \<longleftrightarrow> b = b' \<and> j = l"
  by (simp add: pte_addr_def entry_addr_inj)

lemma zero_hits:
  assumes "unat b mod 4096 = 0" "unat b' mod 4096 = 0" "unat j < 1024"
  shows "pte_addr b j - b' < 4096 \<longleftrightarrow> b = b'" "pde_addr j - b' < 4096 \<longleftrightarrow> PAGE_DIR_ADDR = b'"
  using entry_page [OF assms] entry_page [OF dir_aligned(1) assms(2,3)]
  by (simp_all add: pte_addr_def pde_addr_def)

lemma usable_table:
  assumes "pg_inv s" "usable s i" "present (pde s i)"
  shows "table_page s i \<noteq> 256" "table_page s i \<notin> frees (frames s)"
    "usable s k \<Longrightarrow> present (pde s k) \<Longrightarrow> table_page s k = table_page s i \<Longrightarrow> k = i"
proof -
  have zero: "table_page s 0 = 257" by (simp add: table_page_def table_of_def dir_aligned)
  have pos: "usable s k \<Longrightarrow> present (pde s k) \<Longrightarrow> k \<noteq> 0 \<Longrightarrow> is_table s k \<and> unat k < 1024" for k
    by (simp add: usable_def)
  show "table_page s i \<noteq> 256" "table_page s i \<notin> frees (frames s)"
    using assms zero pos [of i] by (cases "i = 0"; auto simp: pg_inv_def)+
  assume k: "usable s k" "present (pde s k)" "table_page s k = table_page s i"
  show "k = i"
  proof (cases "i = 0 \<or> k = 0")
    case True
    with k assms zero pos [of i] pos [of k] show ?thesis by (auto simp: pg_inv_def)
  next
    case False
    with k assms pos [of i] pos [of k] show ?thesis unfolding pg_inv_def by blast
  qed
qed

section \<open>Memory updates seen through the tables\<close>

lemma pg_inv_cong:
  assumes "\<And>k. unat k < 1024 \<Longrightarrow> pde t k = pde s k" "frames t = frames s"
  shows "pg_inv t = pg_inv s" "usable t k = usable s k" "unat k < 1024 \<Longrightarrow> table_of k t = table_of k s"
proof -
  have tb: "table_of k t = table_of k s" if "unat k < 1024" for k
    using assms(1) [OF that] by (simp add: table_of_def)
  have it: "is_table t k = is_table s k" if "unat k < 1024" for k
    using assms(1) [OF that] by (simp add: is_table_def)
  show "pg_inv t = pg_inv s"
    using assms(1) [of 0] assms(2) tb it by (simp add: pg_inv_def table_page_def cong: conj_cong)
  show "usable t k = usable s k"
    using assms(1) [of k] it [of k] by (auto simp: usable_def)
  show "unat k < 1024 \<Longrightarrow> table_of k t = table_of k s" by (rule tb)
qed

lemma store_entry:
  fixes e :: u32
  assumes inv: "pg_inv s" and i: "usable s i" "present (pde s i)" and j: "unat j < 1024"
  defines "t \<equiv> store (pte_addr (table_of i s) j) e s"
  shows "pg_inv t" "usable t k = usable s k" "unat k < 1024 \<Longrightarrow> pde t k = pde s k"
    "unat k < 1024 \<Longrightarrow> table_of k t = table_of k s"
    "usable s k \<Longrightarrow> unat l < 1024 \<Longrightarrow>
       xlate t k l = (if k = i \<and> l = j then (if present e then Some e else None) else xlate s k l)"
proof -
  note tab = usable_table [OF inv i]
  have dir: "pde t k = pde s k" if "unat k < 1024" for k
    using pde_ne_pte(1) [OF table_aligned _ that j, of i s] tab(1)
    by (simp add: t_def table_page_def)
  note cong = pg_inv_cong [of t s, OF dir]
  have fr: "frames t = frames s" by (simp add: t_def)
  show "pg_inv t" "usable t k = usable s k" "unat k < 1024 \<Longrightarrow> pde t k = pde s k"
    "unat k < 1024 \<Longrightarrow> table_of k t = table_of k s"
    using cong [OF _ fr] inv dir by simp_all
  assume k: "usable s k" and l: "unat l < 1024"
  then have k': "unat k < 1024" by (simp add: usable_def)
  have tk: "table_of k t = table_of k s" using cong(3) [OF _ fr k'] by simp
  have hit: "pte_addr (table_of k s) l = pte_addr (table_of i s) j \<longleftrightarrow> k = i \<and> l = j"
    if "present (pde s k)"
    using pte_addr_inj [OF table_aligned table_aligned l j] tab(3) [OF k that]
    by (auto simp: table_page_def)
  have mt: "mem t = (mem s)(pte_addr (table_of i s) j := e)" by (simp add: t_def)
  show "xlate t k l = (if k = i \<and> l = j then (if present e then Some e else None) else xlate s k l)"
    using hit i(2) unfolding xlate_def dir [OF k'] tk by (auto simp: mt)
qed

lemma mask_forms:
  "(0xFFFFF000 :: u32) = NOT (mask 12)" "(0xFFF :: u32) = mask 12"
  by (simp_all add: mask_eq_exp_minus_1)

lemma flag_bits: "bit (0x80 :: int) n \<longleftrightarrow> n = 7" "bit (3 :: int) n \<longleftrightarrow> n < 2"
proof -
  have "(0x80 :: int) = 2 ^ 7" "(3 :: int) = mask 2" by (simp_all add: mask_eq_exp_minus_1)
  then show "bit (0x80 :: int) n \<longleftrightarrow> n = 7" "bit (3 :: int) n \<longleftrightarrow> n < 2"
    by (metis bit_exp_iff possible_bit_int, metis bit_mask_iff possible_bit_int)
qed

lemma entry_bits:
  fixes p f :: u32
  shows "((p AND 0xFFFFF000) OR (f AND 0xFFF) OR PAGE_PRESENT) AND 0xFFFFF000 = p AND 0xFFFFF000"
    "present ((p AND 0xFFFFF000) OR (f AND 0xFFF) OR PAGE_PRESENT)"
    "((p AND 0xFFFFF000) OR PAGE_PRESENT OR PAGE_WRITABLE) AND 0xFFFFF000 = p AND 0xFFFFF000"
    "present ((p AND 0xFFFFF000) OR PAGE_PRESENT OR PAGE_WRITABLE)"
    "((p AND 0xFFFFF000) OR PAGE_PRESENT OR PAGE_WRITABLE) AND PDE_4MB = 0"
proof -
  have pr: "present (x OR PAGE_PRESENT)" "present (x OR PAGE_PRESENT OR PAGE_WRITABLE)" for x
    by (auto simp: present_def page_flags bit_eq_iff bit_simps intro!: exI [of _ 0])
  then show "present ((p AND 0xFFFFF000) OR (f AND 0xFFF) OR PAGE_PRESENT)"
    "present ((p AND 0xFFFFF000) OR PAGE_PRESENT OR PAGE_WRITABLE)" by (simp_all flip: or.assoc)
  have "(x AND y) AND z = x AND (y AND z)" for x y z :: u32 by (rule and.assoc)
  then show "((p AND 0xFFFFF000) OR (f AND 0xFFF) OR PAGE_PRESENT) AND 0xFFFFF000 = p AND 0xFFFFF000"
    "((p AND 0xFFFFF000) OR PAGE_PRESENT OR PAGE_WRITABLE) AND 0xFFFFF000 = p AND 0xFFFFF000"
    "((p AND 0xFFFFF000) OR PAGE_PRESENT OR PAGE_WRITABLE) AND PDE_4MB = 0"
    by (simp_all add: and.assoc bit.conj_disj_distrib2 page_flags)
qed

lemma hi_mask_id: "unat p mod 4096 = 0 \<Longrightarrow> p AND 0xFFFFF000 = (p :: u32)"
  using mult_div_mod_eq [of 4096 "unat p"] by (simp add: word_unat_eq_iff unat_hi_mask)

lemma extra_irrelevant [simp]:
  "pg_inv (s\<lparr>extra_page_tables := x\<rparr>) = pg_inv s" "usable (s\<lparr>extra_page_tables := x\<rparr>) = usable s"
  "xlate (s\<lparr>extra_page_tables := x\<rparr>) = xlate s" "table_of i (s\<lparr>extra_page_tables := x\<rparr>) = table_of i s"
  by (simp_all add: pg_inv_def usable_def xlate_def is_table_def table_of_def table_page_def fun_eq_iff)

lemma flush_irrelevant [simp]:
  "pg_inv (tlb_flush_page v s) = pg_inv s" "usable (tlb_flush_page v s) = usable s"
  "xlate (tlb_flush_page v s) = xlate s" "table_of i (tlb_flush_page v s) = table_of i s"
  by (simp_all add: tlb_flush_page_def pg_inv_def usable_def xlate_def is_table_def table_of_def
      table_page_def fun_eq_iff)

lemma new_table:
  assumes inv: "pg_inv s" and i: "unat i < 1024" "\<not> present (pde s i)"
    and al: "pfa_alloc_frame (frames s) = (a, f)" "a \<noteq> 0"
  defines "t \<equiv> store (pde_addr i) (a OR PAGE_PRESENT OR PAGE_WRITABLE) (zero_page a (s\<lparr>frames := f\<rparr>))"
  shows "pg_inv t" "usable t i" "present (pde t i)" "usable s k \<Longrightarrow> usable t k"
    "usable s k \<Longrightarrow> unat l < 1024 \<Longrightarrow> xlate t k l = xlate s k l"
proof -
  have "pfa_inv (frames s)" using inv by (simp add: pg_inv_def)
  from pfa_fa.alloc_frame [OF this al] obtain p where p: "p \<in> frees (frames s)" "unat a = 4096 * p"
    "pfa_inv f" "frees f = frees (frames s) - {p}" by blast
  have ni: "i \<noteq> 0" using inv i(2) PDE_0_facts by (auto simp: pg_inv_def)
  have al': "unat a mod 4096 = 0" "unat a div 4096 = p" using p(2) by simp_all
  have "0 \<notin> frees (frames s)" "256 \<notin> frees (frames s)" "257 \<notin> frees (frames s)"
    using inv by (simp_all add: pg_inv_def)
  with p(1) have p': "p \<noteq> 0" "p \<noteq> 256" "p \<noteq> 257" by metis+
  have a: "a AND 0xFFFFF000 = a" by (rule hi_mask_id [OF al'(1)])
  note eb = entry_bits(3-5) [of a, unfolded a]
  have ft: "frames t = f" by (simp add: t_def)
  have nd: "PAGE_DIR_ADDR \<noteq> a" using dir_aligned(2) al'(2) p'(2) by auto
  have dir: "pde t k = (if k = i then a OR PAGE_PRESENT OR PAGE_WRITABLE else pde s k)"
    if "unat k < 1024" for k
    using pde_addr_inj [OF that i(1)] zero_hits(2) [OF table_aligned al'(1) that] nd
    by (simp add: t_def)
  have ti: "table_of i t = a" using ni eb(1) by (simp add: table_of_def dir [OF i(1)])
  have tk: "table_of k t = table_of k s" if "k \<noteq> i" "unat k < 1024" for k
    using dir [OF that(2)] that(1) by (simp add: table_of_def)
  have it: "is_table t k = (k = i \<or> is_table s k)" if "unat k < 1024" for k
    using dir [OF that] eb by (auto simp: is_table_def)
  have tp: "table_page t k = (if k = i then p else table_page s k)" if "unat k < 1024" for k
    using tk [OF _ that] ti al'(2) by (simp add: table_page_def)
  show "present (pde t i)" using dir [OF i(1)] eb(2) by simp
  show "usable t i" using i(1) it [OF i(1)] by (simp add: usable_def)
  show us: "usable s k \<Longrightarrow> usable t k" for k
    using it [of k] dir [of k] eb by (auto simp: usable_def)
  show "pg_inv t"
  proof -
    have old: "table_page s k \<notin> frees (frames s) \<union> {0, 256, 257}"
      if "unat k < 1024" "k \<noteq> 0" "is_table s k" for k
      using inv that by (simp add: pg_inv_def)
    have new: "table_page t k \<notin> frees f \<union> {0, 256, 257}"
      if "unat k < 1024" "k \<noteq> 0" "is_table t k" for k
      using tp [OF that(1)] it [OF that(1)] old [OF that(1,2)] that(3) p p' by auto
    have inj: "k = j" if "unat k < 1024" "k \<noteq> 0" "is_table t k" "unat j < 1024" "j \<noteq> 0" "is_table t j"
      "table_page t k = table_page t j" for k j
      using that tp [OF that(1)] tp [OF that(4)] it [OF that(1)] it [OF that(4)] inv p(1)
      unfolding pg_inv_def by (metis UnI1)
    have "pde t 0 = PDE_0" using dir [of 0] inv ni by (simp add: pg_inv_def)
    moreover have "frees f \<inter> {0, 256, 257} = {}" using inv p(4) by (auto simp: pg_inv_def)
    ultimately show ?thesis
      unfolding pg_inv_def ft using p(3) new inj by blast
  qed
  assume k: "usable s k" and l: "unat l < 1024"
  then have k': "unat k < 1024" by (simp add: usable_def)
  have ne: "pte_addr (table_of k t) l \<noteq> pde_addr i" if "present (pde t k)"
    using usable_table(1) [OF \<open>pg_inv t\<close> us [OF k] that] pde_ne_pte(2) [OF table_aligned _ i(1) l]
    by (simp add: table_page_def)
  show "xlate t k l = xlate s k l"
  proof (cases "k = i")
    case True
    have z: "pte_addr a l - a < 4096" using zero_hits(1) [OF al'(1) al'(1) l] by simp
    have "mem t (pte_addr (table_of i t) l) = 0"
      using ne dir [OF i(1)] eb(2) z True ti by (simp add: t_def)
    moreover have "xlate s k l = None" using True i(2) by (simp add: xlate_def)
    ultimately show ?thesis using True by (simp add: xlate_def present_def)
  next
    case False
    have keep: "mem t (pte_addr (table_of k t) l) = mem s (pte_addr (table_of k s) l)" if "present (pde s k)"
    proof -
      have "table_of k s \<noteq> a"
        using usable_table(2) [OF inv k that] p(1) al'(2) by (auto simp: table_page_def)
      then show ?thesis
        using ne tk [OF False k'] dir [OF k'] that False zero_hits(1) [OF table_aligned al'(1) l]
        by (simp add: t_def)
    qed
    show ?thesis using keep dir [OF k'] False by (auto simp: xlate_def)
  qed
qed

lemma pg_inv_dir0: "pg_inv s \<Longrightarrow> present (pde s 0)"
  using PDE_0_facts by (simp add: pg_inv_def)

lemma free_data_frame:
  assumes inv: "pg_inv s" and q: "unat a div 4096 \<notin> {0, 256, 257}"
    "\<forall>k. usable s k \<and> present (pde s k) \<longrightarrow> table_page s k \<noteq> unat a div 4096"
  shows "pg_inv (s\<lparr>frames := pfa_free_frame a (frames s)\<rparr>)"
proof -
  have fr: "pfa_inv (frames s)" using inv by (simp add: pg_inv_def)
  have sub: "frees (pfa_free_frame a (frames s)) \<subseteq> insert (unat a div 4096) (frees (frames s))"
    by (rule pfa_fa.release_avail(2) [OF fr])
  have tab: "table_page s k \<noteq> unat a div 4096" if "unat k < 1024" "is_table s k" for k
    using q(2) that by (auto simp: usable_def is_table_def)
  have eqs: "table_page (s\<lparr>frames := f\<rparr>) = table_page s" "is_table (s\<lparr>frames := f\<rparr>) = is_table s"
    "frames (s\<lparr>frames := f\<rparr>) = f" "mem (s\<lparr>frames := f\<rparr>) = mem s" for f
    by (simp_all add: table_page_def table_of_def is_table_def fun_eq_iff)
  have sub': "x \<notin> frees (pfa_free_frame a (frames s))"
    if "x \<notin> frees (frames s)" "x \<noteq> unat a div 4096" for x
    using sub that by auto
  have low: "0 \<notin> frees (frames s)" "256 \<notin> frees (frames s)" "257 \<notin> frees (frames s)" "pde s 0 = PDE_0"
    using inv by (simp_all add: pg_inv_def)
  show ?thesis
    unfolding pg_inv_def eqs
  proof (intro conjI allI impI)
    show "pfa_inv (pfa_free_frame a (frames s))" by (rule pfa_fa.release_ok [OF fr])
    show "frees (pfa_free_frame a (frames s)) \<inter> {0, 256, 257} = {}" using low q(1) sub' by simp
    show "pde s 0 = PDE_0" by (rule low(4))
    fix i assume i: "unat i < 1024 \<and> i \<noteq> 0 \<and> is_table s i"
    then have "table_page s i \<notin> frees (frames s) \<union> {0, 256, 257}" using pg_inv_table(1) [OF inv] by blast
    then show "table_page s i \<notin> frees (pfa_free_frame a (frames s)) \<union> {0, 256, 257}"
      using sub' tab i by simp
    fix k assume "unat k < 1024 \<and> k \<noteq> 0 \<and> is_table s k \<and> table_page s k = table_page s i"
    with i pg_inv_table(2) [OF inv] show "k = i" by blast
  qed
qed

lemma empty_table: "page_table_is_empty i s \<Longrightarrow> unat l < 1024 \<Longrightarrow> xlate s i l = None"
proof -
  assume e: "page_table_is_empty i s" and l: "unat l < 1024"
  then have i: "i \<noteq> 0" by (auto simp: page_table_is_empty_def)
  show ?thesis
  proof (cases "present (pde s i)")
    case True
    with e have "\<forall>n < 1024. \<not> present (mem s (pte_addr (table_of i s) (of_nat n)))"
      by (auto simp: page_table_is_empty_def Let_def list_all_iff table_of_def i)
    with l have "\<not> present (mem s (pte_addr (table_of i s) (of_nat (unat l))))" by blast
    then show ?thesis by (simp add: xlate_def)
  qed (simp add: xlate_def)
qed

lemma free_table:
  assumes inv: "pg_inv s" and i: "usable s i" "present (pde s i)" and e: "page_table_is_empty i s"
  defines "t \<equiv> page_table_free i s"
  shows "pg_inv t" "usable s k \<Longrightarrow> usable t k"
    "usable s k \<Longrightarrow> unat l < 1024 \<Longrightarrow> xlate t k l = xlate s k l"
    "frames t = pfa_free_frame (table_of i s) (frames s)"
proof -
  have ni: "i \<noteq> 0" using e by (auto simp: page_table_is_empty_def)
  have i': "unat i < 1024" "is_table s i" using i ni by (auto simp: usable_def)
  let ?a = "pde s i AND 0xFFFFF000" and ?u = "store (pde_addr i) 0 s"
  have tab: "table_of i s = ?a" using ni by (simp add: table_of_def)
  have tp: "table_page s i \<notin> frees (frames s) \<union> {0, 256, 257}"
    using pg_inv_table(1) [OF inv i'(1) ni i'(2)] .
  then have na: "?a \<noteq> 0" unfolding table_page_def tab by auto
  let ?v = "?u\<lparr>frames := pfa_free_frame ?a (frames s)\<rparr>"
  have t: "\<exists>x. t = ?v\<lparr>extra_page_tables := x\<rparr>"
    using ni na exI [of "\<lambda>x. ?v = ?v\<lparr>extra_page_tables := x\<rparr>" "extra_page_tables ?v"]
    by (auto simp: t_def page_table_free_def Let_def)
  have dir: "pde ?u k = (if k = i then 0 else pde s k)" if "unat k < 1024" for k
    using pde_addr_inj [OF that i'(1)] by simp
  have np: "\<not> present 0" by (simp add: present_def)
  have it: "is_table ?u k = (k \<noteq> i \<and> is_table s k)" if "unat k < 1024" for k
    using dir [OF that] np by (simp add: is_table_def)
  have tk: "table_of k ?u = table_of k s" if "unat k < 1024" "k \<noteq> i" for k
    using dir [OF that(1)] that by (simp add: table_of_def)
  have u: "pg_inv ?u"
    unfolding pg_inv_def
  proof (intro conjI allI impI)
    show "pfa_inv (frames ?u)" "frees (frames ?u) \<inter> {0, 256, 257} = {}"
      using inv by (simp_all add: pg_inv_def)
    show "pde ?u 0 = PDE_0" using dir [of 0] ni inv by (simp add: pg_inv_def)
    fix k assume k: "unat k < 1024 \<and> k \<noteq> 0 \<and> is_table ?u k"
    with it [of k] tk [of k] have ks: "is_table s k" "table_page ?u k = table_page s k"
      by (auto simp: table_page_def)
    show "table_page ?u k \<notin> frees (frames ?u) \<union> {0, 256, 257}"
      using ks k inv by (simp add: pg_inv_def)
    fix j assume j: "unat j < 1024 \<and> j \<noteq> 0 \<and> is_table ?u j \<and> table_page ?u j = table_page ?u k"
    with it [of j] tk [of j] have js: "is_table s j" "table_page ?u j = table_page s j"
      by (auto simp: table_page_def)
    show "j = k" using ks js j k inv unfolding pg_inv_def by metis
  qed
  have us: "usable ?u k = usable s k" if "k \<noteq> i" for k
    using that dir [of k] it [of k] by (auto simp: usable_def)
  have ui: "usable ?u i" using dir [OF i'(1)] np i'(1) by (simp add: usable_def)
  have v: "pg_inv ?v"
  proof -
    have "table_page ?u k \<noteq> table_page s i" if "usable ?u k" "present (pde ?u k)" for k
    proof -
      have k: "k \<noteq> i" "unat k < 1024" using that dir [of k] np by (auto simp: usable_def)
      have "usable s k" "present (pde s k)" using that us k dir [OF k(2)] by auto
      with usable_table(3) [OF inv i this] k show ?thesis by (auto simp: table_page_def tk)
    qed
    moreover have "unat ?a div 4096 = table_page s i" by (simp add: table_page_def tab)
    ultimately show ?thesis
      using free_data_frame [OF u, of ?a] tp by simp
  qed
  from t v show "pg_inv t" by auto
  have uv: "usable ?v = usable ?u" "xlate ?v = xlate ?u"
    by (simp_all add: usable_def is_table_def xlate_def table_of_def fun_eq_iff)
  then have utv: "usable t = usable ?u" "xlate t = xlate ?u" using t by auto
  show "usable s k \<Longrightarrow> usable t k" for k
    using us [of k] ui unfolding utv by (cases "k = i") auto
  show "frames t = pfa_free_frame (table_of i s) (frames s)" using t tab by auto
  assume k: "usable s k" and l: "unat l < 1024"
  then have k': "unat k < 1024" by (simp add: usable_def)
  show "xlate t k l = xlate s k l"
  proof (cases "k = i")
    case True
    with empty_table [OF e l] dir [OF i'(1)] np show ?thesis by (simp add: utv xlate_def)
  next
    case False
    have "pte_addr (table_of k s) l \<noteq> pde_addr i" if "present (pde s k)"
      using usable_table(1) [OF inv k that] pde_ne_pte(2) [OF table_aligned _ i'(1) l]
      by (simp add: table_page_def)
    then show ?thesis using False dir [OF k'] tk [OF k' False] by (auto simp: utv xlate_def)
  qed
qed

section \<open>The operations on the abstract translation\<close>

lemma ensure_table_ok:
  assumes inv: "pg_inv s" and i: "usable s i" and e: "ensure_table i s = Some t"
  shows "pg_inv t" "usable t i" "present (pde t i)" "usable s k \<Longrightarrow> usable t k"
    "usable s k \<Longrightarrow> unat l < 1024 \<Longrightarrow> xlate t k l = xlate s k l"
proof -
  have i': "unat i < 1024" using i by (simp add: usable_def)
  obtain a f where al: "pfa_alloc_frame (frames s) = (a, f)" by (cases "pfa_alloc_frame (frames s)")
  let ?n = "store (pde_addr i) (a OR PAGE_PRESENT OR PAGE_WRITABLE) (zero_page a (s\<lparr>frames := f\<rparr>))"
  consider "present (pde s i)" "t = s"
    | x where "\<not> present (pde s i)" "a \<noteq> 0" "t = ?n\<lparr>extra_page_tables := x\<rparr>"
    using e al exI [of "\<lambda>x. ?n = ?n\<lparr>extra_page_tables := x\<rparr>" "extra_page_tables ?n"]
    by (auto simp: ensure_table_def Let_def split: if_splits)
  then have "pg_inv t \<and> usable t i \<and> present (pde t i) \<and> (\<forall>k. usable s k \<longrightarrow> usable t k) \<and>
    (\<forall>k l. usable s k \<and> unat l < 1024 \<longrightarrow> xlate t k l = xlate s k l)"
  proof cases
    case 1
    then show ?thesis using inv i by simp
  next
    case (2 x)
    with new_table [OF inv i' 2(1) al 2(2)] show ?thesis by simp
  qed
  then show "pg_inv t" "usable t i" "present (pde t i)" "usable s k \<Longrightarrow> usable t k"
    "usable s k \<Longrightarrow> unat l < 1024 \<Longrightarrow> xlate t k l = xlate s k l" by blast+
qed

lemma ensure_table_None:
  assumes "pg_inv s" "ensure_table i s = None"
  shows "\<not> present (pde s i)" "frees (frames s) = {}" "pfa_alloc_frame (frames s) = (0, frames s)"
proof -
  have p: "pfa_inv (frames s)" "0 \<notin> frees (frames s)" using assms(1) by (simp_all add: pg_inv_def)
  show "\<not> present (pde s i)" using assms(2) by (auto simp: ensure_table_def)
  have z: "fst (pfa_alloc_frame (frames s)) = 0"
    using assms(2) by (auto simp: ensure_table_def Let_def split: if_splits prod.splits)
  show emp: "frees (frames s) = {}"
  proof (rule ccontr)
    assume "frees (frames s) \<noteq> {}"
    from pfa_fa.alloc_takes [OF p(1) this] obtain q where q: "q \<in> frees (frames s)"
      "fst (pfa_alloc_frame (frames s)) = push_bit 12 (of_nat q)" by auto
    with z frame_addr(4) [OF pfa_fa.avail_bound [OF p(1) q(1)]] p(2) show False by simp
  qed
  show "pfa_alloc_frame (frames s) = (0, frames s)" by (rule pfa_fa.alloc_empty [OF p(1) emp])
qed

text \<open>The entry that \<open>page_map\<close> writes.\<close>

definition map_entry :: "u32 \<Rightarrow> u32 \<Rightarrow> u32" where
  "map_entry paddr flags = (paddr AND 0xFFFFF000) OR (flags AND 0xFFF) OR PAGE_PRESENT"

lemma page_map_ok:
  assumes inv: "pg_inv s" and us: "usable s (drop_bit 22 v)" and pm: "page_map v p f s = (0, t)"
  shows "pg_inv t" "usable s k \<Longrightarrow> usable t k"
    "usable s k \<Longrightarrow> unat l < 1024 \<Longrightarrow> xlate t k l =
       (if k = drop_bit 22 v \<and> l = drop_bit 12 v AND 0x3FF then Some (map_entry p f) else xlate s k l)"
    "v \<in> set (tlb_flushes t)" "unat v mod 4096 = 0" "unat p mod 4096 = 0"
proof -
  let ?i = "drop_bit 22 v" and ?j = "drop_bit 12 v AND 0x3FF"
  have al: "v AND 0xFFF = 0" "p AND 0xFFF = 0"
    using pm by (auto simp: page_map_def Let_def split: if_splits)
  then show "unat v mod 4096 = 0" "unat p mod 4096 = 0" by (simp_all only: aligned_iff)
  obtain u where u: "ensure_table ?i s = Some u"
    and t: "t = tlb_flush_page v (store (pte_addr (table_of ?i u) ?j) (map_entry p f) u)"
    using pm by (auto simp: page_map_def map_entry_def Let_def al split: option.splits if_splits)
  note en = ensure_table_ok [OF inv us u]
  note st = store_entry [OF en(1-3) idx_bounds(2)]
  show "pg_inv t" unfolding t using st(1) by simp
  show "usable s k \<Longrightarrow> usable t k" unfolding t using st(2) en(4) by simp
  show "v \<in> set (tlb_flushes t)"
    unfolding t by (simp add: tlb_flush_page_def)
  have pr: "present (map_entry p f)" unfolding map_entry_def by (rule entry_bits(2))
  show "usable s k \<Longrightarrow> unat l < 1024 \<Longrightarrow> xlate t k l =
       (if k = ?i \<and> l = ?j then Some (map_entry p f) else xlate s k l)"
    unfolding t using st(5) en(4,5) pr by simp
qed

lemma not_present_0 [simp]: "\<not> present 0"
  by (simp add: present_def)

lemma xlate_absent: "\<not> present (pde s i) \<Longrightarrow> xlate s i j = None"
  by (simp add: xlate_def)

text \<open>The common tail of the two unmap operations: give an empty table back.\<close>

lemma release_if_empty:
  assumes "pg_inv s" "usable s i" "present (pde s i)"
  defines "t \<equiv> (if page_table_is_empty i s then page_table_free i s else s)"
  shows "pg_inv t" "usable s k \<Longrightarrow> usable t k"
    "usable s k \<Longrightarrow> unat l < 1024 \<Longrightarrow> xlate t k l = xlate s k l"
    "frees (frames s) \<subseteq> frees (frames t)"
proof -
  have "pfa_inv (frames s)" using assms(1) by (simp add: pg_inv_def)
  with assms free_table [OF assms(1-3)] pfa_fa.release_avail(1)
  show "pg_inv t" "usable s k \<Longrightarrow> usable t k"
    "usable s k \<Longrightarrow> unat l < 1024 \<Longrightarrow> xlate t k l = xlate s k l"
    "frees (frames s) \<subseteq> frees (frames t)"
    by (auto simp: t_def)
qed

lemma clear_entry:
  fixes v :: u32
  assumes inv: "pg_inv s" and i: "usable s i" "present (pde s i)" and j: "unat j < 1024"
  defines "t \<equiv> tlb_flush_page v (store (pte_addr (table_of i s) j) 0 s)"
  shows "pg_inv t" "usable t k = usable s k" "present (pde t i)" "frames t = frames s"
    "table_page t k = table_page s k \<or> \<not> usable s k"
    "usable s k \<Longrightarrow> unat l < 1024 \<Longrightarrow> xlate t k l = (if k = i \<and> l = j then None else xlate s k l)"
proof -
  have i': "unat i < 1024" using i(1) by (simp add: usable_def)
  note st = store_entry [OF inv i j, where e = 0]
  show "pg_inv t" "usable t k = usable s k" "present (pde t i)" "frames t = frames s"
    "usable s k \<Longrightarrow> unat l < 1024 \<Longrightarrow> xlate t k l = (if k = i \<and> l = j then None else xlate s k l)"
    using st(1,2) st(3) [OF i'] st(5) i(2) by (simp_all add: t_def)
  show "table_page t k = table_page s k \<or> \<not> usable s k"
    using st(4) by (auto simp: t_def table_page_def usable_def)
qed

lemma page_unmap_ok:
  assumes inv: "pg_inv s" and us: "usable s (drop_bit 22 v)" and al: "unat v mod 4096 = 0"
  shows "pg_inv (page_unmap v s)" "usable s k \<Longrightarrow> usable (page_unmap v s) k"
    "usable s k \<Longrightarrow> unat l < 1024 \<Longrightarrow> xlate (page_unmap v s) k l =
       (if k = drop_bit 22 v \<and> l = drop_bit 12 v AND 0x3FF then None else xlate s k l)"
proof -
  let ?i = "drop_bit 22 v" and ?j = "drop_bit 12 v AND 0x3FF"
  have al': "v AND 0xFFF = 0" using al by (simp only: aligned_iff)
  have "pg_inv (page_unmap v s) \<and> (usable s k \<longrightarrow> usable (page_unmap v s) k) \<and>
    (usable s k \<and> unat l < 1024 \<longrightarrow> xlate (page_unmap v s) k l =
       (if k = ?i \<and> l = ?j then None else xlate s k l))" for k l
  proof (cases "present (pde s ?i)")
    case False
    then have "page_unmap v s = s" by (simp add: page_unmap_def Let_def)
    with inv False show ?thesis by (simp add: xlate_absent)
  next
    case True
    let ?c = "present (mem s (pte_addr (table_of ?i s) ?j))"
    define w where "w = tlb_flush_page v (store (pte_addr (table_of ?i s) ?j) 0 s)"
    define u where "u = (if ?c then w else s)"
    have t: "page_unmap v s = (if page_table_is_empty ?i u then page_table_free ?i u else u)"
      using True al' by (simp add: page_unmap_def Let_def u_def w_def)
    have absent: "\<not> ?c \<Longrightarrow> xlate s ?i ?j = None" by (simp add: xlate_def)
    note cl = clear_entry [OF inv us True idx_bounds(2) [of v], where v = v, folded w_def]
    have u: "pg_inv u" "usable u k = usable s k" "present (pde u ?i)"
      "usable s k \<Longrightarrow> unat l < 1024 \<Longrightarrow> xlate u k l = (if k = ?i \<and> l = ?j then None else xlate s k l)" for k l
      using cl inv True absent by (auto simp: u_def)
    have uu: "usable u ?i" using u(2) us by simp
    from release_if_empty [OF u(1) uu u(3)] u(2,4) show ?thesis unfolding t by simp
  qed
  then show "pg_inv (page_unmap v s)" "usable s k \<Longrightarrow> usable (page_unmap v s) k"
    "usable s k \<Longrightarrow> unat l < 1024 \<Longrightarrow> xlate (page_unmap v s) k l =
       (if k = ?i \<and> l = ?j then None else xlate s k l)" by blast+
qed

text \<open>\<open>page_unmap_and_free\<close> may release only a frame that is neither a table nor the directory.\<close>

definition data_frame :: "machine \<Rightarrow> u32 \<Rightarrow> bool" where
  "data_frame s a \<longleftrightarrow> unat a div 4096 \<notin> {0, 256, 257} \<and>
     (\<forall>k. usable s k \<and> present (pde s k) \<longrightarrow> table_page s k \<noteq> unat a div 4096)"

lemma page_unmap_and_free_ok:
  assumes inv: "pg_inv s" and us: "usable s (drop_bit 22 v)" and al: "unat v mod 4096 = 0"
    and e: "xlate s (drop_bit 22 v) (drop_bit 12 v AND 0x3FF) = Some e" and df: "data_frame s (e AND 0xFFFFF000)"
  shows "pg_inv (page_unmap_and_free v s)"
    "usable s k \<Longrightarrow> unat l < 1024 \<Longrightarrow> xlate (page_unmap_and_free v s) k l =
       (if k = drop_bit 22 v \<and> l = drop_bit 12 v AND 0x3FF then None else xlate s k l)"
    "unat e div 4096 < unat (pfa_total_pages (frames s)) \<Longrightarrow>
       unat e div 4096 \<in> frees (frames (page_unmap_and_free v s))"
proof -
  let ?i = "drop_bit 22 v" and ?j = "drop_bit 12 v AND 0x3FF" and ?a = "e AND 0xFFFFF000"
  have al': "v AND 0xFFF = 0" using al by (simp only: aligned_iff)
  have pr: "present (pde s ?i)" "present e" "mem s (pte_addr (table_of ?i s) ?j) = e"
    using e by (auto simp: xlate_def split: if_splits)
  define c where "c = tlb_flush_page v (store (pte_addr (table_of ?i s) ?j) 0 s)"
  define u where "u = c\<lparr>frames := pfa_free_frame ?a (frames s)\<rparr>"
  note cl = clear_entry [OF inv us pr(1) idx_bounds(2) [of v], where v = v, folded c_def]
  have pd: "pde c k = pde s k" if "usable s k" for k
    using store_entry(3) [OF inv us pr(1) idx_bounds(2)] that by (simp add: c_def usable_def)
  have t: "page_unmap_and_free v s = (if page_table_is_empty ?i u then page_table_free ?i u else u)"
    using pr al' by (simp add: page_unmap_and_free_def Let_def u_def c_def)
  have "data_frame c ?a"
    unfolding data_frame_def
  proof (intro conjI allI impI)
    show "unat ?a div 4096 \<notin> {0, 256, 257}" using df by (simp add: data_frame_def)
    fix k assume k: "usable c k \<and> present (pde c k)"
    then have "usable s k" "present (pde s k)" using cl(2) pd by auto
    with df cl(5) [of k] show "table_page c k \<noteq> unat ?a div 4096" by (auto simp: data_frame_def)
  qed
  then have ui: "pg_inv u"
    using free_data_frame [OF cl(1), of ?a] cl(4) by (simp add: u_def data_frame_def)
  have ux: "usable u = usable s" "pde u ?i = pde c ?i" "xlate u = xlate c"
    using cl(2) by (simp_all add: u_def usable_def is_table_def xlate_def table_of_def fun_eq_iff)
  have up: "usable u ?i" "present (pde u ?i)" using us cl(3) ux by simp_all
  note rel = release_if_empty [OF ui up, folded t]
  show "pg_inv (page_unmap_and_free v s)" by (rule rel)
  show "usable s k \<Longrightarrow> unat l < 1024 \<Longrightarrow> xlate (page_unmap_and_free v s) k l =
       (if k = ?i \<and> l = ?j then None else xlate s k l)"
    using rel(3) cl(6) ux by simp
  have pg: "unat ?a div 4096 = unat e div 4096" by (simp add: unat_hi_mask)
  assume "unat e div 4096 < unat (pfa_total_pages (frames s))"
  then have "unat e div 4096 \<in> frees (frames u)"
    using free_frame_ok(2) [of "frames s" ?a] inv by (simp add: u_def pg_inv_def pg)
  with rel(4) show "unat e div 4096 \<in> frees (frames (page_unmap_and_free v s))" by blast
qed

end
