(* ===== verification/Paging_Spec.thy ===== *)
theory Paging_Spec
  imports Paging
begin

text \<open>
  The state that \<open>paging_init\<close> builds, the page walk of the i386 as the hardware does it, and
  the properties of the pager.
\<close>

unbundle bit_operations_syntax

section \<open>Initialisation\<close>

lemma store_loop:
  fixes val :: "nat \<Rightarrow> u32" and s :: machine
  assumes "inj_on adr {a..<b}" "a \<le> b"
  defines "t \<equiv> for_range a b (\<lambda>i. store (adr i) (val i)) s"
  shows "\<And>i. a \<le> i \<Longrightarrow> i < b \<Longrightarrow> mem t (adr i) = val i"
    and "\<And>x. x \<notin> adr ` {a..<b} \<Longrightarrow> mem t x = mem s x"
    and "frames t = frames s"
proof -
  let ?P = "\<lambda>c (t :: machine). (\<forall>i. a \<le> i \<and> i < c \<longrightarrow> mem t (adr i) = val i) \<and>
     (\<forall>x. x \<notin> adr ` {a..<b} \<longrightarrow> mem t x = mem s x) \<and> frames t = frames s"
  have "?P b (for_range a b (\<lambda>i. store (adr i) (val i)) s)"
  proof (rule for_range_induct [where P = ?P])
    fix c u assume c: "a \<le> c" "c < b" and u: "?P c u"
    have "adr i = adr c \<longleftrightarrow> i = c" if "a \<le> i" "i < Suc c" for i
      using inj_on_eq_iff [OF assms(1), of i c] that c by simp
    with u c show "?P (Suc c) (store (adr c) (val c) u)" by (auto simp: less_Suc_eq)
  qed (use assms(2) in auto)
  then show "\<And>i. a \<le> i \<Longrightarrow> i < b \<Longrightarrow> mem t (adr i) = val i"
    "\<And>x. x \<notin> adr ` {a..<b} \<Longrightarrow> mem t x = mem s x" "frames t = frames s" by (auto simp: t_def)
qed

lemma of_nat_idx: "n < 1024 \<Longrightarrow> unat (of_nat n :: u32) = n"
  by (simp add: unat_of_nat_u32)

lemma table_fill:
  fixes val :: "nat \<Rightarrow> u32" and s :: machine
  assumes "unat b mod 4096 = 0" "lo \<le> n" "n \<le> lo + 1024"
  defines "t \<equiv> for_range lo n (\<lambda>i. store (pte_addr b (of_nat i - of_nat lo)) (val i)) s"
  shows "unat b' mod 4096 = 0 \<Longrightarrow> unat j < 1024 \<Longrightarrow> mem t (b' + 4 * j) =
           (if b' = b \<and> lo + unat j < n then val (lo + unat j) else mem s (b' + 4 * j))"
    and "frames t = frames s"
proof -
  let ?adr = "\<lambda>i. pte_addr b (of_nat i - of_nat lo)"
  have adr: "?adr i = b + 4 * of_nat (i - lo)" "unat (of_nat (i - lo) :: u32) = i - lo"
    if "lo \<le> i" "i < n" for i
  proof -
    show "?adr i = b + 4 * of_nat (i - lo)" using that by (simp add: pte_addr_def)
    show "unat (of_nat (i - lo) :: u32) = i - lo" using that assms(3) by (intro of_nat_idx) simp
  qed
  have hit: "c + 4 * j = ?adr i \<longleftrightarrow> c = b \<and> i = lo + unat j"
    if "lo \<le> i" "i < n" "unat c mod 4096 = 0" "unat j < 1024" for c i j
  proof -
    have "unat (of_nat (i - lo) :: u32) < 1024" using adr(2) [OF that(1,2)] that(1,2) assms(3) by simp
    from entry_addr_inj [OF that(3) assms(1) that(4) this]
    have "c + 4 * j = ?adr i \<longleftrightarrow> c = b \<and> j = of_nat (i - lo)" unfolding adr(1) [OF that(1,2)] .
    also have "j = of_nat (i - lo) \<longleftrightarrow> unat j = i - lo"
      using adr(2) [OF that(1,2)] by (simp only: word_unat_eq_iff)
    also have "unat j = i - lo \<longleftrightarrow> i = lo + unat j" using that(1) by auto
    finally show ?thesis .
  qed
  have inj: "inj_on ?adr {lo..<n}"
  proof (rule inj_onI)
    fix i k assume ik: "i \<in> {lo..<n}" "k \<in> {lo..<n}" "?adr i = ?adr k"
    then have i: "lo \<le> i" "i < n" and k: "lo \<le> k" "k < n" by simp_all
    have "unat (of_nat (i - lo) :: u32) < 1024" using adr(2) [OF i] i assms(3) by simp
    from hit [OF k assms(1) this] ik(3) adr [OF i] i show "i = k" by simp
  qed
  note sl = store_loop [OF inj assms(2), where val = val and s = s, folded t_def]
  show "frames t = frames s" by (rule sl(3))
  assume b': "unat b' mod 4096 = 0" and j: "unat j < 1024"
  show "mem t (b' + 4 * j) = (if b' = b \<and> lo + unat j < n then val (lo + unat j) else mem s (b' + 4 * j))"
  proof (cases "b' = b \<and> lo + unat j < n")
    case True
    have "b' + 4 * j = ?adr (lo + unat j)"
      by (rule hit [THEN iffD2]) (use True b' j in simp_all)
    with True sl(1) [of "lo + unat j"] show ?thesis by simp
  next
    case False
    have "b' + 4 * j \<notin> ?adr ` {lo..<n}"
    proof (rule notI, erule imageE)
      fix i assume i: "b' + 4 * j = ?adr i" "i \<in> {lo..<n}"
      then have "lo \<le> i" "i < n" by simp_all
      from hit [OF this b' j] i(1) \<open>i < n\<close> False show False by blast
    qed
    from sl(2) [OF this] show ?thesis unfolding if_not_P [OF False] .
  qed
qed

text \<open>The directory and the tables after \<open>paging_init\<close>.\<close>

definition init_pte1 :: "nat \<Rightarrow> u32" where
  "init_pte1 i = (of_nat i * PAGE_SIZE) OR PAGE_PRESENT OR PAGE_WRITABLE"

lemma paging_init_mem:
  fixes st :: machine and has_pse bs be ba
  assumes "unat j < 1024"
  defines "s \<equiv> paging_init has_pse bs be ba st"
  shows "pde s j = (if j = 0 then PDE_0 else if j = 1 then
            (if has_pse then PAGE_4M_SIZE OR PAGE_PRESENT OR PAGE_WRITABLE OR PDE_4MB
             else 0x102000 OR PAGE_PRESENT OR PAGE_WRITABLE) else 0)"
    and "mem s (pte_addr PAGE_TABLE_ADDR j) = init_pte j"
    and "\<not> has_pse \<Longrightarrow> mem s (pte_addr 0x102000 j) = (if unat j < 512 then init_pte1 (1024 + unat j) else 0)"
    and "frames s = pfa_init bs be ba 32768"
proof -
  define s1 where "s1 = zero_page PAGE_TABLE_ADDR (zero_page PAGE_DIR_ADDR st)"
  define s2 where "s2 = for_range 0 1024 (\<lambda>i. store (pte_addr PAGE_TABLE_ADDR (of_nat i - of_nat 0)) (init_pte (of_nat i))) s1"
  define s3 where "s3 = store (pde_addr 0) PDE_0 s2"
  define s4 where "s4 = zero_page 0x102000 s3"
  define s5 where "s5 = for_range 1024 1536 (\<lambda>i. store (pte_addr 0x102000 (of_nat i - of_nat 1024)) (init_pte1 i)) s4"
  have s: "mem s = mem (if has_pse then store (pde_addr 1) (PAGE_4M_SIZE OR PAGE_PRESENT OR PAGE_WRITABLE OR PDE_4MB) s3
       else store (pde_addr 1) (0x102000 OR PAGE_PRESENT OR PAGE_WRITABLE) s5)"
    by (simp add: s_def paging_init_def Let_def s1_def s2_def s3_def s4_def s5_def PDE_0_def init_pte1_def)
  show "frames s = pfa_init bs be ba 32768" by (simp add: s_def paging_init_def Let_def)
  note al = dir_aligned(1,3)
  have al1: "unat (0x102000 :: u32) mod 4096 = 0" by simp
  have ne: "PAGE_DIR_ADDR \<noteq> PAGE_TABLE_ADDR" "PAGE_DIR_ADDR \<noteq> 0x102000" "PAGE_TABLE_ADDR \<noteq> 0x102000"
    by (simp_all add: layout_defs)
  note f2 = table_fill(1) [where lo = 0 and n = 1024 and val = "\<lambda>i. init_pte (of_nat i)" and s = s1, OF al(2), folded s2_def]
  note f5 = table_fill(1) [where lo = 1024 and n = 1536 and val = init_pte1 and s = s4, OF al1, folded s5_def]
  note hits = zero_hits(2) [OF al1 al1] zero_hits(2) [OF al(1) al(1)] zero_hits(2) [OF al(2) al(2)]
  note e2 = entry_addr_inj [OF _ _ assms(1) assms(1)]
  have d1: "mem s1 (pde_addr j) = 0"
    using hits(2) [OF assms(1)] by (simp add: s1_def)
  have d2: "mem s2 (pde_addr j) = 0"
    using f2 [OF _ _ al(1) assms(1)] d1 ne by (simp add: pde_addr_def)
  have d3: "mem s3 (pde_addr j) = (if j = 0 then PDE_0 else 0)"
    using pde_addr_inj [OF assms(1), of 0] d2 by (simp add: s3_def)
  have d4: "mem s4 (pde_addr j) = mem s3 (pde_addr j)"
    using hits(1) [OF assms(1)] ne by (simp add: s4_def)
  have d5: "mem s5 (pde_addr j) = mem s3 (pde_addr j)"
    using f5 [OF _ _ al(1) assms(1)] d4 ne by (simp add: pde_addr_def)
  show "pde s j = (if j = 0 then PDE_0 else if j = 1 then
            (if has_pse then PAGE_4M_SIZE OR PAGE_PRESENT OR PAGE_WRITABLE OR PDE_4MB
             else 0x102000 OR PAGE_PRESENT OR PAGE_WRITABLE) else 0)"
  proof (cases "j = 1")
    case False
    then have "pde_addr j \<noteq> pde_addr 1" using pde_addr_inj [OF assms(1), of 1] by simp
    with False d3 d5 show ?thesis unfolding s by (simp only: mem_store fun_upd_other if_distrib [of mem]
        if_distrib [of "\<lambda>f. f (pde_addr j)"] if_cancel simp_thms if_False)
  qed (simp add: s)
  have far: "pte_addr PAGE_TABLE_ADDR j \<noteq> pde_addr k" "pte_addr 0x102000 j \<noteq> pde_addr k" if "unat k < 1024" for k
    using pde_ne_pte(2) [OF al(2) _ that assms(1)] pde_ne_pte(2) [OF al1 _ that assms(1)]
    by (simp_all add: dir_aligned(4))
  have t2: "mem s2 (pte_addr PAGE_TABLE_ADDR j) = init_pte j"
    using f2 [OF _ _ al(2) assms(1)] assms(1) by (simp add: pte_addr_def)
  have t3: "mem s3 (pte_addr PAGE_TABLE_ADDR j) = init_pte j" using t2 far(1) [of 0] by (simp add: s3_def)
  have t4: "mem s4 (pte_addr PAGE_TABLE_ADDR j) = init_pte j"
    using t3 zero_hits(1) [OF al(2) al1 assms(1)] ne by (simp add: s4_def)
  have t5: "mem s5 (pte_addr PAGE_TABLE_ADDR j) = init_pte j"
    using f5 [OF _ _ al(2) assms(1)] t4 ne by (simp add: pte_addr_def)
  show "mem s (pte_addr PAGE_TABLE_ADDR j) = init_pte j"
    unfolding s using t3 t5 far(1) [of 1] by simp
  have u5: "mem s5 (pte_addr 0x102000 j) = (if unat j < 512 then init_pte1 (1024 + unat j) else 0)"
    using f5 [OF _ _ al1 assms(1)] zero_hits(1) [OF al1 al1 assms(1)] by (simp add: pte_addr_def s4_def)
  show "\<not> has_pse \<Longrightarrow> mem s (pte_addr 0x102000 j) = (if unat j < 512 then init_pte1 (1024 + unat j) else 0)"
    unfolding s using u5 far(2) [of 1] by simp
qed


lemma init_pte_bits:
  assumes "unat j < 1024"
  shows "init_pte j AND 0xFFFFF000 = 4096 * j" "present (init_pte j)"
    "init_pte j AND PAGE_USER \<noteq> 0 \<longleftrightarrow> 0x50 \<le> unat j \<and> unat j \<le> 0x81"
proof -
  have hi: "(4096 * j) AND 0xFFFFF000 = 4096 * j"
  proof (rule hi_mask_id)
    have "unat (4096 * j) = 4096 * unat j" using assms by (simp add: unat_word_ariths)
    then show "unat (4096 * j) mod 4096 = 0" by simp
  qed
  have lo: "(4096 * j) AND 4 = 0"
  proof -
    have "(4096 * j) AND 4 = ((4096 * j) AND 0xFFFFF000) AND 4" by (simp only: hi)
    then show ?thesis by (simp add: and.assoc)
  qed
  have cases: "init_pte j = (4096 * j) OR (if 0x50 \<le> unat j \<and> unat j \<le> 0x81 then 7 else 3)"
    by (auto simp: init_pte_def Let_def layout_defs page_flags word_le_nat_alt mult.commute)
  show "init_pte j AND 0xFFFFF000 = 4096 * j"
    unfolding cases by (simp add: bit.conj_disj_distrib2 hi)
  have "odd (init_pte j)" unfolding cases by (simp add: even_or_iff)
  then show "present (init_pte j)" by (simp add: present_def page_flags and_one_eq odd_iff_mod_2_eq_one)
  show "init_pte j AND PAGE_USER \<noteq> 0 \<longleftrightarrow> 0x50 \<le> unat j \<and> unat j \<le> 0x81"
    unfolding cases by (simp add: bit.conj_disj_distrib2 lo page_flags)
qed

lemma init_pte1_bits:
  assumes "n < 1048576"
  shows "init_pte1 n AND 0xFFFFF000 = of_nat (4096 * n)" "present (init_pte1 n)"
proof -
  have hi: "(of_nat n * 4096 :: u32) AND 0xFFFFF000 = of_nat n * 4096"
  proof (rule hi_mask_id)
    have "unat (of_nat n * 4096 :: u32) = n * 4096"
      using assms by (simp add: unat_word_ariths unat_of_nat_u32)
    then show "unat (of_nat n * 4096 :: u32) mod 4096 = 0" by simp
  qed
  show "init_pte1 n AND 0xFFFFF000 = of_nat (4096 * n)"
    using entry_bits(3) [of "of_nat n * 4096"] by (simp add: init_pte1_def layout_defs hi mult.commute)
  show "present (init_pte1 n)"
    using entry_bits(4) [of "of_nat n * 4096"] by (simp add: init_pte1_def layout_defs hi)
qed

lemma paging_init_inv: "pg_inv (paging_init has_pse bs be ba st)"
proof -
  let ?s = "paging_init has_pse bs be ba st"
  note m = paging_init_mem [where has_pse = has_pse and bs = bs and be = be and ba = ba and st = st]
  have big: "(PAGE_4M_SIZE OR PAGE_PRESENT OR PAGE_WRITABLE OR PDE_4MB) AND PDE_4MB \<noteq> 0"
    by (simp add: page_flags)
  have only1: "i = 1 \<and> \<not> has_pse" if "unat i < 1024" "i \<noteq> 0" "is_table ?s i" for i
    using that m(1) [OF that(1)] big by (auto simp: is_table_def split: if_splits)
  have "table_page ?s 1 = 258" if "\<not> has_pse"
    using m(1) [of 1] that by (simp add: table_page_def table_of_def page_flags)
  with only1 have t1: "table_page ?s i = 258 \<and> i = 1" if "unat i < 1024 \<and> i \<noteq> 0 \<and> is_table ?s i" for i
    using that by blast
  have fr: "frees (frames ?s) \<inter> {0, 256, 257, 258} = {}"
    unfolding m(4) [of 0, simplified] pfa_init_ok(3) by (auto simp: released_pages_def)
  have "pfa_inv (frames ?s)" "pde ?s 0 = PDE_0"
    using m(1) [of 0] m(4) [of 0] pfa_init_ok(1) by simp_all
  with fr t1 show ?thesis unfolding pg_inv_def by auto
qed


text \<open>\<open>xlate\<close> of the freshly built tables.\<close>

lemma paging_init_xlate:
  assumes "unat j < 1024"
  shows "xlate (paging_init has_pse bs be ba st) 0 j = Some (init_pte j)"
    "\<not> has_pse \<Longrightarrow> xlate (paging_init has_pse bs be ba st) 1 j =
       (if unat j < 512 then Some (init_pte1 (1024 + unat j)) else None)"
    "unat i < 1024 \<Longrightarrow> i \<noteq> 0 \<Longrightarrow> i \<noteq> 1 \<Longrightarrow> xlate (paging_init has_pse bs be ba st) i j = None"
proof -
  note m = paging_init_mem [where has_pse = has_pse and bs = bs and be = be and ba = ba and st = st]
  show "xlate (paging_init has_pse bs be ba st) 0 j = Some (init_pte j)"
    using m(1) [of 0] m(2) [OF assms] init_pte_bits(2) [OF assms]
    by (simp add: xlate_def table_of_def PDE_0_facts)
  show "unat i < 1024 \<Longrightarrow> i \<noteq> 0 \<Longrightarrow> i \<noteq> 1 \<Longrightarrow> xlate (paging_init has_pse bs be ba st) i j = None"
    using m(1) [of i] by (simp add: xlate_def)
  assume np: "\<not> has_pse"
  have e: "pde (paging_init has_pse bs be ba st) 1 = 0x102003"
    using m(1) [of 1] np by (simp add: page_flags)
  have "table_of 1 (paging_init has_pse bs be ba st) = 0x102000"
    unfolding table_of_def e by simp
  moreover have "present (pde (paging_init has_pse bs be ba st) 1)"
    unfolding e by (simp add: present_def page_flags)
  ultimately show "xlate (paging_init has_pse bs be ba st) 1 j =
       (if unat j < 512 then Some (init_pte1 (1024 + unat j)) else None)"
    using np m(3) [OF assms] init_pte1_bits(2) [of "1024 + unat j"] by (simp add: xlate_def)
qed

section \<open>The hardware's page walk\<close>

text \<open>
  Address translation of the i386 with the page size extension: \<open>user\<close> is an access from
  ring 3.  \<open>None\<close> is a page fault.
\<close>

definition mmu_walk :: "bool \<Rightarrow> machine \<Rightarrow> u32 \<Rightarrow> u32 option" where
  "mmu_walk user s v =
     (let d = mem s ((cr3 s AND 0xFFFFF000) + 4 * drop_bit 22 v) in
      if \<not> present d \<or> (user \<and> d AND PAGE_USER = 0) then None
      else if d AND PDE_4MB \<noteq> 0 \<and> cr4 s AND 0x10 \<noteq> 0
      then Some ((d AND 0xFFC00000) + (v AND 0x3FFFFF))
      else let e = mem s ((d AND 0xFFFFF000) + 4 * (drop_bit 12 v AND 0x3FF)) in
        if \<not> present e \<or> (user \<and> e AND PAGE_USER = 0) then None
        else Some ((e AND 0xFFFFF000) + (v AND 0xFFF)))"

lemma mmu_walk_xlate:
  assumes "pg_inv s" "cr3 s = PAGE_DIR_ADDR" "pde s (drop_bit 22 v) AND PDE_4MB = 0"
  shows "mmu_walk user s v =
    (case xlate s (drop_bit 22 v) (drop_bit 12 v AND 0x3FF) of None \<Rightarrow> None
     | Some e \<Rightarrow> if user \<and> (pde s (drop_bit 22 v) AND PAGE_USER = 0 \<or> e AND PAGE_USER = 0) then None
               else Some ((e AND 0xFFFFF000) + (v AND 0xFFF)))"
proof -
  have d: "PAGE_DIR_ADDR AND 0xFFFFF000 = PAGE_DIR_ADDR" by (simp add: layout_defs)
  have t: "table_of (drop_bit 22 v) s = pde s (drop_bit 22 v) AND 0xFFFFF000"
    using assms(1) PDE_0_facts(2) by (simp add: table_of_def pg_inv_def)
  show ?thesis
    using assms(2,3) unfolding mmu_walk_def xlate_def t pte_addr_def
    by (auto simp: d pde_addr_def Let_def)
qed


text \<open>The indices of an address and the address they stand for.\<close>

lemma split_addr:
  fixes w :: u32
  shows "unat (drop_bit 22 w) = unat w div 4194304" "unat (drop_bit 12 w AND 0x3FF) = unat w div 4096 mod 1024"
    "unat (w AND 0xFFF) = unat w mod 4096" "unat (w AND 0x3FFFFF) = unat w mod 4194304"
  using unat_mask [of "drop_bit 12 w" 10] unat_mask [of w 22]
  by (simp_all add: unat_shr unat_lo_mask mask_eq_exp_minus_1)

lemma join_addr:
  fixes w :: u32
  assumes "n = unat w div 4096"
  shows "of_nat (4096 * n) + (w AND 0xFFF) = w"
proof -
  have "4096 * n + unat w mod 4096 = unat w" using assms by simp
  then have "of_nat (4096 * n + unat w mod 4096) = w" by simp
  then show ?thesis by (simp only: of_nat_add flip: split_addr(3)) simp
qed

lemma paging_init_walk_table:
  assumes "drop_bit 22 w \<noteq> 1 \<or> \<not> has_pse"
  shows "mmu_walk user (paging_init has_pse bs be ba st) w =
    (if drop_bit 22 w = 0 \<and> (user \<longrightarrow> 0x50 \<le> unat w div 4096 \<and> unat w div 4096 \<le> 0x81) \<or>
        drop_bit 22 w = 1 \<and> \<not> user \<and> unat w < 0x600000
     then Some w else None)"
proof -
  let ?s = "paging_init has_pse bs be ba st" and ?j = "drop_bit 12 w AND 0x3FF"
  have i: "unat (drop_bit 22 w) < 1024" and j: "unat ?j < 1024" by (rule idx_bounds)+
  note pd = paging_init_mem(1) [OF i, where has_pse = has_pse and bs = bs and be = be and ba = ba and st = st]
  note xl = paging_init_xlate [OF j, where has_pse = has_pse and bs = bs and be = be and ba = ba and st = st]
  have flat: "pde ?s (drop_bit 22 w) AND PDE_4MB = 0" and cr: "cr3 ?s = PAGE_DIR_ADDR"
    using pd assms PDE_0_facts(3) by (auto simp: page_flags paging_init_def Let_def)
  note walk = mmu_walk_xlate [OF paging_init_inv cr flat, of user]
  consider "drop_bit 22 w = 0" | "drop_bit 22 w = 1" "\<not> has_pse" | "drop_bit 22 w \<noteq> 0" "drop_bit 22 w \<noteq> 1"
    using assms by blast
  then show ?thesis
  proof cases
    case 1
    then have "unat w div 4194304 = 0" using split_addr(1) [of w] by simp
    then have jw: "unat ?j = unat w div 4096" by (simp add: split_addr(2))
    have "4096 * ?j + (w AND 0xFFF) = w"
      using join_addr [OF jw] by (simp only: of_nat_mult) simp
    then show ?thesis
      using walk xl(1) init_pte_bits(1,3) [OF j] 1 pd jw by (auto simp: PDE_0_def page_flags layout_defs)
  next
    case 2
    then have q: "unat w div 4194304 = 1" using split_addr(1) [of w] by simp
    have "unat w div 4096 div 1024 = 1" using q by (simp add: div_mult2_eq [symmetric])
    then have jw: "unat w div 4096 = 1024 + unat ?j"
      using div_mult_mod_eq [of "unat w div 4096" 1024] by (simp only: split_addr(2))
    then have lim: "unat ?j < 512 \<longleftrightarrow> unat w < 0x600000" by linarith
    have "init_pte1 (1024 + unat ?j) AND 0xFFFFF000 = of_nat (4096 * (1024 + unat ?j))"
      using j by (intro init_pte1_bits) simp
    then have "(init_pte1 (1024 + unat ?j) AND 0xFFFFF000) + (w AND 0xFFF) = w"
      using join_addr [of "1024 + unat ?j" w] jw by (simp only:)
    then show ?thesis
      using walk xl(2) [OF 2(2)] 2 pd lim by (simp add: page_flags)
  next
    case 3
    then show ?thesis using walk xl(3) [OF i] by simp
  qed
qed

lemma paging_init_cr4: "cr4 (paging_init True bs be ba st) AND 0x10 \<noteq> 0"
  by (simp add: paging_init_def Let_def bit.conj_disj_distrib2 or_eq_0_iff)

lemma paging_init_walk_4MB:
  assumes "drop_bit 22 w = 1"
  shows "mmu_walk user (paging_init True bs be ba st) w = (if user then None else Some w)"
proof -
  let ?s = "paging_init True bs be ba st"
  have "pde ?s 1 = 0x400083" using paging_init_mem(1) [where j = 1 and has_pse = True and bs = bs and be = be and ba = ba and st = st] by (simp add: page_flags)
  then have d: "mem ?s ((cr3 ?s AND 0xFFFFF000) + 4 * drop_bit 22 w) = 0x400083"
    unfolding assms by (simp add: pde_addr_def paging_init_def Let_def layout_defs)
  have c: "cr4 ?s AND 0x10 \<noteq> 0" by (rule paging_init_cr4)
  have "unat w div 4194304 = 1" using split_addr(1) [of w] assms by simp
  then have "unat w = 4194304 + unat w mod 4194304" using div_mult_mod_eq [of "unat w" 4194304] by simp
  then have "of_nat (unat w) = (of_nat (4194304 + unat w mod 4194304) :: u32)" by simp
  then have "w = of_nat (4194304 + unat w mod 4194304)" by simp
  then have "0x400000 + (w AND 0x3FFFFF) = w" by (simp only: of_nat_add flip: split_addr(4)) simp
  then show ?thesis using c unfolding mmu_walk_def d by (simp add: page_flags present_def)
qed

lemma paging_init_walk:
  "mmu_walk user (paging_init has_pse bss_start bss_end bitmap_addr s) w =
     (if user then (if 0x50000 \<le> unat w \<and> unat w \<le> 0x81FFF then Some w else None)
      else if unat w < (if has_pse then 0x800000 else 0x600000) then Some w else None)"
proof -
  have d: "drop_bit 22 w = 0 \<longleftrightarrow> unat w < 4194304" "drop_bit 22 w = 1 \<longleftrightarrow> 4194304 \<le> unat w \<and> unat w < 8388608"
    unfolding word_unat_eq_iff split_addr(1) by (simp_all add: div_eq_Suc_0_iff div_eq_0_iff)
  show ?thesis
  proof (cases "drop_bit 22 w = 1 \<and> has_pse")
    case True
    then show ?thesis using paging_init_walk_4MB [of w] d by auto
  next
    case False
    have p: "0x50 \<le> unat w div 4096 \<and> unat w div 4096 \<le> 0x81 \<longleftrightarrow> 0x50000 \<le> unat w \<and> unat w \<le> 0x81FFF"
      by linarith
    show ?thesis using False paging_init_walk_table [of w has_pse] unfolding d p by auto
  qed
qed


section \<open>Properties\<close>

lemma page_map_result:
  assumes "pg_inv s" "page_map v p f s = (r, t)"
  shows "r = 0 \<or> r = -1"
    "r = -1 \<longleftrightarrow> unat v mod 4096 \<noteq> 0 \<or> unat p mod 4096 \<noteq> 0 \<or>
       \<not> present (pde s (drop_bit 22 v)) \<and> frees (frames s) = {}"
    "r = -1 \<Longrightarrow> t = s"
proof -
  let ?i = "drop_bit 22 v"
  have pm: "(r, t) = (if unat v mod 4096 \<noteq> 0 \<or> unat p mod 4096 \<noteq> 0 then (-1, s)
      else case ensure_table ?i s of None \<Rightarrow> (-1, s\<lparr>frames := snd (pfa_alloc_frame (frames s))\<rparr>)
      | Some u \<Rightarrow> (0, t))"
    using assms(2) by (auto simp: page_map_def Let_def aligned_iff split: option.splits if_splits)
  have none: "ensure_table ?i s = None \<longleftrightarrow> \<not> present (pde s ?i) \<and> frees (frames s) = {}"
  proof
    assume "ensure_table ?i s = None"
    from ensure_table_None [OF assms(1) this] show "\<not> present (pde s ?i) \<and> frees (frames s) = {}" by simp
  next
    assume e: "\<not> present (pde s ?i) \<and> frees (frames s) = {}"
    have "pfa_inv (frames s)" using assms(1) by (simp add: pg_inv_def)
    with e pfa_fa.alloc_empty show "ensure_table ?i s = None" by (simp add: ensure_table_def)
  qed
  have same: "s\<lparr>frames := snd (pfa_alloc_frame (frames s))\<rparr> = s" if "ensure_table ?i s = None"
    using ensure_table_None(3) [OF assms(1) that] by simp
  show "r = 0 \<or> r = -1"
    "r = -1 \<longleftrightarrow> unat v mod 4096 \<noteq> 0 \<or> unat p mod 4096 \<noteq> 0 \<or>
       \<not> present (pde s ?i) \<and> frees (frames s) = {}"
    "r = -1 \<Longrightarrow> t = s"
    using pm none same by (auto split: if_splits option.splits)
qed

lemma same_page_get:
  assumes "\<And>k l. usable s k \<Longrightarrow> unat l < 1024 \<Longrightarrow> xlate t k l =
       (if k = drop_bit 22 v \<and> l = drop_bit 12 v AND 0x3FF then e else xlate s k l)"
    and "usable s (drop_bit 22 w)"
  shows "page_get_mapping w t =
    (if unat w div 4096 = unat v div 4096
     then (case e of None \<Rightarrow> 0 | Some e \<Rightarrow> (e AND 0xFFFFF000) + (w AND 0xFFF))
     else page_get_mapping w s)"
  using assms(1) [OF assms(2) idx_bounds(2) [of w]] idx_eq_iff [of w v]
  by (simp add: page_get_mapping_xlate)

text \<open>
  C8. A successful \<open>page_map(vaddr, paddr, flags)\<close> makes every address of that page translate
  to the same offset in the frame \<open>paddr\<close>, leaves the translation of every other page as it was,
  flushes the TLB entry of the page and keeps the pager's invariant: page tables occupy pairwise
  different frames, none of them free in the allocator, none of them the directory.  A directory slot is
  usable unless it holds a 4 MB page.
\<close>

theorem page_map_spec:
  assumes "pg_inv s" "usable s (drop_bit 22 vaddr)" "page_map vaddr paddr flags s = (0, t)"
  shows "pg_inv t \<and> vaddr \<in> set (tlb_flushes t) \<and>
    (\<forall>w. usable s (drop_bit 22 w) \<longrightarrow> usable t (drop_bit 22 w) \<and>
       page_get_mapping w t =
         (if unat w div 4096 = unat vaddr div 4096 then paddr + (w AND 0xFFF) else page_get_mapping w s))"
proof -
  note ok = page_map_ok [OF assms]
  have "map_entry paddr flags AND 0xFFFFF000 = paddr"
    unfolding map_entry_def entry_bits(1) by (rule hi_mask_id [OF ok(6)])
  then show ?thesis
    using ok(1,2,4) same_page_get [OF ok(3)] by simp
qed

text \<open>
  \<open>page_map\<close> fails (returns -1) exactly when an address is not page aligned or a page table
  is needed and no frame is free, and then nothing has changed.
\<close>

theorem page_map_error:
  assumes "pg_inv s" "page_map vaddr paddr flags s = (r, t)"
  shows "(r = -1 \<longleftrightarrow> unat vaddr mod 4096 \<noteq> 0 \<or> unat paddr mod 4096 \<noteq> 0 \<or>
            \<not> present (pde s (drop_bit 22 vaddr)) \<and> frees (frames s) = {})
    \<and> (if r = -1 then t = s else r = 0)"
  using page_map_result [OF assms] by auto

text \<open>
  \<open>page_unmap\<close> of an aligned address removes the translation of exactly that page and keeps the
  invariant, also when the page table became empty and its frame went back to the allocator.
\<close>

theorem page_unmap_spec:
  assumes "pg_inv s" "usable s (drop_bit 22 vaddr)" "unat vaddr mod 4096 = 0"
  shows "pg_inv (page_unmap vaddr s) \<and>
    (\<forall>w. usable s (drop_bit 22 w) \<longrightarrow> usable (page_unmap vaddr s) (drop_bit 22 w) \<and>
       page_get_mapping w (page_unmap vaddr s) =
         (if unat w div 4096 = unat vaddr div 4096 then 0 else page_get_mapping w s))"
proof -
  note ok = page_unmap_ok [OF assms]
  show ?thesis using ok(1,2) same_page_get [OF ok(3)] by simp
qed

text \<open>
  \<open>page_unmap_and_free\<close> of a mapped page whose frame holds no page table removes that
  translation only, puts the managed frame back into the free set and keeps the invariant.
\<close>

theorem page_unmap_and_free_spec:
  assumes "pg_inv s" "usable s (drop_bit 22 vaddr)" "unat vaddr mod 4096 = 0"
    and "page_get_mapping vaddr s \<noteq> 0" "data_frame s (page_get_mapping vaddr s)"
  shows "pg_inv (page_unmap_and_free vaddr s) \<and>
    (\<forall>w. usable s (drop_bit 22 w) \<longrightarrow> page_get_mapping w (page_unmap_and_free vaddr s) =
       (if unat w div 4096 = unat vaddr div 4096 then 0 else page_get_mapping w s)) \<and>
    (unat (page_get_mapping vaddr s) div 4096 < unat (pfa_total_pages (frames s)) \<longrightarrow>
       unat (page_get_mapping vaddr s) div 4096 \<in> frees (frames (page_unmap_and_free vaddr s)))"
proof -
  have lo: "vaddr AND 0xFFF = 0" using assms(3) by (simp only: aligned_iff)
  obtain e where e: "xlate s (drop_bit 22 vaddr) (drop_bit 12 vaddr AND 0x3FF) = Some e"
    "page_get_mapping vaddr s = e AND 0xFFFFF000"
    using assms(4) by (auto simp: page_get_mapping_xlate lo split: option.splits)
  note ok = page_unmap_and_free_ok [OF assms(1-3) e(1) assms(5) [unfolded e(2)]]
  have "unat (e AND 0xFFFFF000) div 4096 = unat e div 4096" by (simp add: unat_hi_mask)
  then show ?thesis
    using ok(1,3) same_page_get [OF ok(2)] by (simp add: e(2))
qed



text \<open>The comparisons of \<open>user_ptr_valid\<close> without wrap-around.\<close>

lemma user_ptr_valid_iff:
  assumes "sz \<noteq> 0"
  shows "user_ptr_valid addr sz \<longleftrightarrow> 0x50000 \<le> unat addr \<and> unat addr + unat sz \<le> 0x82000"
proof -
  let ?a = "unat addr" and ?n = "unat sz"
  have n: "0 < ?n" using assms by (simp add: unat_gt_0)
  show ?thesis
  proof (cases "?a + ?n < 4294967296")
    case True
    then have e: "unat (addr + sz) = ?a + ?n" by (simp add: unat_word_ariths)
    then have "addr + sz \<noteq> 0" using n by (metis add_is_0 less_irrefl unat_0)
    then have "unat (addr + sz - 1) = ?a + ?n - 1" using e by (simp add: unat_minus_one)
    then show ?thesis
      using n e by (auto simp: user_ptr_valid_def Let_def layout_defs word_less_nat_alt)
  next
    case False
    then have "unat (addr + sz) = ?a + ?n - 4294967296"
      using unat_u32_less [of addr] unat_u32_less [of sz]
      by (simp add: unat_word_ariths mod_if del: unat_u32_less)
    then have "addr + sz < addr"
      using False unat_u32_less [of sz] by (simp add: word_less_nat_alt del: unat_u32_less)
    then show ?thesis using False by (simp add: user_ptr_valid_def)
  qed
qed

text \<open>
  C10. \<open>user_ptr_valid(addr, size)\<close> accepts a non-empty range exactly when ring 3 can reach every
  byte of it in the address space that \<open>paging_init\<close> builds, wrap-around included.
\<close>

theorem user_ptr_valid_spec:
  assumes "sz \<noteq> 0"
  shows "user_ptr_valid addr sz \<longleftrightarrow>
    (\<forall>k < unat sz. mmu_walk True (paging_init has_pse bss_start bss_end bitmap_addr s) (addr + of_nat k) \<noteq> None)"
proof -
  let ?a = "unat addr" and ?n = "unat sz"
  have n: "0 < ?n" using assms by (simp add: unat_gt_0)
  have walk: "mmu_walk True (paging_init has_pse bss_start bss_end bitmap_addr s) w \<noteq> None \<longleftrightarrow>
      0x50000 \<le> unat w \<and> unat w \<le> 0x81FFF" for w
    by (simp add: paging_init_walk)
  note valid = user_ptr_valid_iff [OF assms]
  have at: "unat (addr + of_nat k) = ?a + k" if "?a + k < 4294967296" for k
    using that by (simp add: unat_word_ariths unat_of_nat_u32)
  show ?thesis
    unfolding valid walk
  proof (intro iffI allI impI)
    fix k assume "0x50000 \<le> ?a \<and> ?a + ?n \<le> 0x82000" "k < ?n"
    then show "0x50000 \<le> unat (addr + of_nat k) \<and> unat (addr + of_nat k) \<le> 0x81FFF"
      using at [of k] by simp
  next
    assume all: "\<forall>k<?n. 0x50000 \<le> unat (addr + of_nat k) \<and> unat (addr + of_nat k) \<le> 0x81FFF"
    from all n have a: "0x50000 \<le> ?a" "?a \<le> 0x81FFF" by force+
    have "\<not> 0x82000 - ?a < ?n"
    proof
      assume "0x82000 - ?a < ?n"
      with all have "unat (addr + of_nat (0x82000 - ?a)) \<le> 0x81FFF" by blast
      moreover have "?a + (0x82000 - ?a) = 0x82000" using a by simp
      ultimately show False using at [of "0x82000 - ?a"] by simp
    qed
    with a show "0x50000 \<le> ?a \<and> ?a + ?n \<le> 0x82000" by simp
  qed
qed


text \<open>
  A user mapping that needs a new page table is not reachable from ring 3: \<open>page_map\<close>
  creates the directory entry without \<open>PAGE_USER\<close>, whatever \<open>flags\<close> asks for, so the
  hardware refuses every ring 3 access to the page it reports as mapped.
\<close>

theorem page_map_user_unreachable:
  assumes "pg_inv s" "cr3 s = PAGE_DIR_ADDR" "\<not> present (pde s (drop_bit 22 vaddr))"
    and "page_map vaddr paddr flags s = (0, t)"
  shows "page_get_mapping vaddr t = paddr \<and> mmu_walk True t vaddr = None"
proof -
  let ?i = "drop_bit 22 vaddr" and ?j = "drop_bit 12 vaddr AND 0x3FF"
  have us: "usable s ?i" using assms(3) idx_bounds(1) by (simp add: usable_def)
  note ok = page_map_ok [OF assms(1) us assms(4)]
  have al: "vaddr AND 0xFFF = 0" "paddr AND 0xFFF = 0" using ok(5,6) by (simp_all only: aligned_iff)
  obtain u where u: "ensure_table ?i s = Some u"
    and t: "t = tlb_flush_page vaddr (store (pte_addr (table_of ?i u) ?j) (map_entry paddr flags) u)"
    using assms(4) by (auto simp: page_map_def map_entry_def Let_def al split: option.splits if_splits)
  note en = ensure_table_ok [OF assms(1) us u]
  obtain b f where b: "pfa_alloc_frame (frames s) = (b, f)" "b \<noteq> 0" "pde u ?i = b OR PAGE_PRESENT OR PAGE_WRITABLE" "cr3 u = cr3 s"
    using u assms(3) by (auto simp: ensure_table_def Let_def store_def zero_page_def split: prod.splits if_splits)
  have "pfa_inv (frames s)" using assms(1) by (simp add: pg_inv_def)
  from pfa_fa.alloc_frame [OF this b(1,2)] obtain q where "unat b = 4096 * q" by blast
  then have "unat b mod 4096 = 0" by simp
  then have "b AND PAGE_USER = (b AND 0xFFFFF000) AND PAGE_USER" by (simp add: hi_mask_id)
  then have nu: "b AND PAGE_USER = 0" by (simp add: and.assoc page_flags)
  have "pde t ?i = pde u ?i"
    unfolding t using store_entry(3) [OF en(1-3) idx_bounds(2) idx_bounds(1)] by simp
  with b(3) nu have pt: "pde t ?i AND PAGE_USER = 0" by (simp add: bit.conj_disj_distrib2 page_flags)
  have cr: "cr3 t = PAGE_DIR_ADDR" unfolding t using b(4) assms(2) by (simp add: tlb_flush_page_def store_def)
  have "mmu_walk True t vaddr = None"
    using pt unfolding mmu_walk_def cr pde_addr_def by (simp add: layout_defs Let_def)
  moreover have "page_get_mapping vaddr t = paddr"
  proof -
    have "map_entry paddr flags AND 0xFFFFF000 = paddr"
      unfolding map_entry_def entry_bits(1) by (rule hi_mask_id [OF ok(6)])
    then show ?thesis using same_page_get [OF ok(3) us] al by simp
  qed
  ultimately show ?thesis by simp
qed

text \<open>
  On a machine with PSE the dynamic mapping functions do not know the 4 MB page at 4-8 MB:
  \<open>page_map\<close> of an address there reports success, writes the entry into the physical memory at
  0x400000, which it takes for a page table, and the hardware goes on translating the address to itself.
\<close>

theorem page_map_pse_corrupts:
  fixes s :: machine and vaddr paddr flags bss_start bss_end bitmap_addr
  assumes "0x400000 \<le> unat vaddr" "unat vaddr < 0x800000"
    and "unat vaddr mod 4096 = 0" "unat paddr mod 4096 = 0"
  defines "r \<equiv> page_map vaddr paddr flags (paging_init True bss_start bss_end bitmap_addr s)"
  shows "fst r = 0 \<and> mem (snd r) (0x400000 + 4 * (drop_bit 12 vaddr AND 0x3FF)) = map_entry paddr flags \<and>
    mmu_walk False (snd r) vaddr = Some vaddr"
proof -
  let ?s = "paging_init True bss_start bss_end bitmap_addr s" and ?j = "drop_bit 12 vaddr AND 0x3FF"
  have al: "vaddr AND 0xFFF = 0" "paddr AND 0xFFF = 0" using assms(3,4) by (simp_all only: aligned_iff)
  have i: "drop_bit 22 vaddr = 1"
    using assms(1,2) unfolding word_unat_eq_iff split_addr(1) by (simp add: div_eq_Suc_0_iff)
  have d: "pde ?s 1 = 0x400083"
    using paging_init_mem(1) [where j = 1 and has_pse = True] by (simp add: page_flags)
  have pr: "present 0x400083" by (simp add: present_def page_flags)
  have "\<not> (1024 :: u32) \<le> 1" by (simp add: word_le_nat_alt)
  then have r: "r = (0, tlb_flush_page vaddr (store (pte_addr 0x400000 ?j) (map_entry paddr flags) ?s))"
    by (simp add: r_def page_map_def Let_def al i ensure_table_def d pr table_of_def map_entry_def)
  have ne: "pde_addr 1 \<noteq> pte_addr 0x400000 ?j"
    by (rule pde_ne_pte) (simp_all add: idx_bounds)
  have cr: "cr3 (snd r) = cr3 ?s" "cr4 (snd r) = cr4 ?s"
    by (simp_all add: r tlb_flush_page_def store_def)
  have c3: "cr3 ?s = PAGE_DIR_ADDR" by (simp add: paging_init_def Let_def)
  have w: "mem x ((PAGE_DIR_ADDR AND 0xFFFFF000) + 4 * drop_bit 22 vaddr) = pde x 1" for x
    unfolding i pde_addr_def by (simp add: layout_defs)
  have "mmu_walk False (snd r) vaddr = mmu_walk False ?s vaddr"
    using ne paging_init_cr4 unfolding mmu_walk_def cr c3 w by (simp add: r d pr page_flags)
  with paging_init_walk_4MB [OF i] show ?thesis by (simp add: r pte_addr_def)
qed


section \<open>Witnesses\<close>

definition blank :: machine where
  "blank = \<lparr>mem = \<lambda>_. 0, frames = \<lparr>pfa_bitmap = [], pfa_total_pages = 0, pfa_free_pages = 0\<rparr>,
     extra_page_tables = replicate 254 0, tlb_flushes = [], cr0 = 0, cr3 = 0, cr4 = 0\<rparr>"

definition booted :: machine where
  "booted = paging_init False 0x200000 0x300000 0x210000 blank"

lemma booted_usable: "unat i < 1024 \<Longrightarrow> usable booted i"
  using paging_init_mem(1) [of i False] PDE_0_facts(1)
  by (simp add: booted_def usable_def is_table_def page_flags)

lemma booted_facts: "pg_inv booted" "\<not> present (pde booted 2)" "0x98 \<in> frees (frames booted)" "cr3 booted = PAGE_DIR_ADDR"
proof -
  show "pg_inv booted" unfolding booted_def by (rule paging_init_inv)
  show "\<not> present (pde booted 2)" using paging_init_mem(1) [of 2 False] by (simp add: booted_def)
  show "0x98 \<in> frees (frames booted)"
    by (simp add: booted_def paging_init_mem(4) [of 0, simplified] pfa_init_ok(3) released_pages_def reserved_pages_def)
  show "cr3 booted = PAGE_DIR_ADDR" by (simp add: booted_def paging_init_def Let_def)
qed

lemma booted_map: "\<exists>t. page_map 0x800000 0x500000 7 booted = (0, t)"
proof -
  obtain r t where rt: "page_map 0x800000 0x500000 7 booted = (r, t)" by fastforce
  from page_map_result(1,2) [OF booted_facts(1) rt] booted_facts(3) have "r = 0" by auto
  with rt show ?thesis by blast
qed

lemma page_map_spec_witness:
  "\<exists>t. page_map 0x800000 0x500000 7 booted = (0, t) \<and> pg_inv t \<and> page_get_mapping 0x800123 t = 0x500123"
proof -
  obtain t where t: "page_map 0x800000 0x500000 7 booted = (0, t)" using booted_map by blast
  have "usable booted (drop_bit 22 w)" for w by (rule booted_usable [OF idx_bounds(1)])
  from page_map_spec [OF booted_facts(1) this t] this t show ?thesis by (auto dest!: spec [of _ "0x800123"])
qed

lemma page_map_error_witness: "page_map 0x800004 0x500000 7 booted = (-1, booted)"
proof -
  obtain r t where rt: "page_map 0x800004 0x500000 7 booted = (r, t)" by fastforce
  from page_map_error [OF booted_facts(1) rt] rt show ?thesis by simp
qed

lemma page_unmap_spec_witness: "page_get_mapping 0x400010 (page_unmap 0x400000 booted) = 0"
proof -
  have us: "usable booted (drop_bit 22 w)" for w by (rule booted_usable [OF idx_bounds(1)])
  have "unat (0x400000 :: u32) mod 4096 = 0" by simp
  from page_unmap_spec [OF booted_facts(1) us this] us show ?thesis by simp
qed


lemma booted_get: "page_get_mapping 0x400000 booted = 0x400000"
proof -
  have i: "drop_bit 22 (0x400000 :: u32) = 1" "drop_bit 12 (0x400000 :: u32) AND 0x3FF = 0" by simp_all
  have "xlate booted 1 0 = Some (init_pte1 1024)"
    using paging_init_xlate(2) [of 0 False] by (simp add: booted_def)
  then show ?thesis
    using init_pte1_bits(1) [of 1024] unfolding page_get_mapping_xlate i by simp
qed

lemma booted_data_frame: "data_frame booted 0x400000"
proof -
  have "k = 0 \<or> k = 1" if "usable booted k" "present (pde booted k)" for k
    using that paging_init_mem(1) [of k False] by (auto simp: booted_def usable_def split: if_splits)
  moreover have "table_page booted 0 = 257" by (simp add: table_page_def table_of_def layout_defs)
  moreover have "table_page booted 1 = 258"
    using paging_init_mem(1) [of 1 False] by (simp add: booted_def table_page_def table_of_def page_flags)
  ultimately show ?thesis by (fastforce simp: data_frame_def)
qed

lemma page_unmap_and_free_spec_witness: "1024 \<in> frees (frames (page_unmap_and_free 0x400000 booted))"
proof -
  have us: "usable booted (drop_bit 22 0x400000)" by (rule booted_usable [OF idx_bounds(1)])
  have al: "unat (0x400000 :: u32) mod 4096 = 0" by simp
  have "frames booted = pfa_init 0x200000 0x300000 0x210000 32768"
    by (simp add: booted_def paging_init_mem(4) [of 0, simplified])
  then have "unat (pfa_total_pages (frames booted)) = 32768" by (simp add: pfa_init_ok(2))
  with page_unmap_and_free_spec [OF booted_facts(1) us al] booted_data_frame show ?thesis
    by (simp add: booted_get)
qed

lemma user_ptr_valid_spec_witness: "user_ptr_valid 0x50000 1 \<and> mmu_walk True booted 0x50000 \<noteq> None"
proof -
  have v: "user_ptr_valid 0x50000 1" by (simp add: user_ptr_valid_def layout_defs)
  with user_ptr_valid_spec [of 1 "0x50000" False "0x200000" "0x300000" "0x210000" blank]
  show ?thesis unfolding booted_def by simp
qed

lemma page_map_user_unreachable_witness:
  "\<exists>t. page_map 0x800000 0x500000 7 booted = (0, t) \<and> page_get_mapping 0x800000 t = 0x500000 \<and>
     mmu_walk True t 0x800000 = None"
proof -
  obtain t where t: "page_map 0x800000 0x500000 7 booted = (0, t)" using booted_map by blast
  have "\<not> present (pde booted (drop_bit 22 0x800000))" using booted_facts(2) by simp
  from page_map_user_unreachable [OF booted_facts(1,4) this t] t show ?thesis by blast
qed

lemma page_map_pse_corrupts_witness:
  "mmu_walk False (snd (page_map 0x400000 0x500000 3 (paging_init True 0x200000 0x300000 0x210000 blank)))
     0x400000 = Some 0x400000"
  using page_map_pse_corrupts [of "0x400000" "0x500000" 3 "0x200000" "0x300000" "0x210000" blank] by simp

end
