(* ===== verification/Scheduler.thy ===== *)
theory Scheduler
  imports Prelude
begin

text \<open>
  The process scheduler, \<^verbatim>\<open>src/kernel/sched/scheduler.c\<close>: 32 process control blocks, a
  ready queue linked through the blocks and a round robin dispatcher that resumes a process from the
  register frame on its kernel stack.  A \<open>struct pcb *\<close> is a \<open>pref option\<close>; \<open>kmem\<close> gives
  the dwords of the kernel stacks, whose addresses (\<open>kernel_stack_pool\<close>, \<open>idle_stack\<close>,
  the address of \<open>sched_idle\<close>) are arguments.  Transfers of control are values of
  \<open>outcome\<close>.  Serial and screen output is left out.
\<close>

unbundle bit_operations_syntax

section \<open>State\<close>

datatype proc_state = PROC_FREE | PROC_READY | PROC_RUNNING | PROC_BLOCKED | PROC_ZOMBIE

datatype pref = Slot nat | IdleP

definition PROC_FLAG_KERNEL :: u32 where "PROC_FLAG_KERNEL = 1"
definition PROC_FLAG_USER :: u32 where "PROC_FLAG_USER = 2"
definition PROC_FLAG_SYSTEM :: u32 where "PROC_FLAG_SYSTEM = 4"
definition PROC_TIME_SLICE_DEFAULT :: u32 where "PROC_TIME_SLICE_DEFAULT = 30"
definition PROC_MAX :: nat where "PROC_MAX = 32"
definition GDT_SEL_KERNEL_CODE :: u32 where "GDT_SEL_KERNEL_CODE = 0x08"
definition GDT_SEL_KERNEL_DATA :: u32 where "GDT_SEL_KERNEL_DATA = 0x10"
definition GDT_SEL_USER_CODE :: u32 where "GDT_SEL_USER_CODE = 0x38"
definition GDT_SEL_USER_DATA :: u32 where "GDT_SEL_USER_DATA = 0x40"
definition INTERRUPT_STACK_TOP :: u32 where "INTERRUPT_STACK_TOP = 0x91000"

lemmas sched_consts = PROC_FLAG_KERNEL_def PROC_FLAG_USER_def PROC_FLAG_SYSTEM_def
  PROC_TIME_SLICE_DEFAULT_def PROC_MAX_def GDT_SEL_KERNEL_CODE_def GDT_SEL_KERNEL_DATA_def
  GDT_SEL_USER_CODE_def GDT_SEL_USER_DATA_def INTERRUPT_STACK_TOP_def

record pcb =
  p_pid :: u32
  p_state :: proc_state
  p_flags :: u32
  p_esp :: u32
  p_ss :: u32
  p_kernel_esp :: u32
  p_kernel_esp_top :: u32
  p_page_dir :: u32
  p_time_slice :: u32
  p_ticks_remaining :: u32
  p_total_ticks :: u32
  p_name :: string
  p_next :: "pref option"

record sched =
  pcb_pool :: "pcb list"
  idle_pcb :: pcb
  rq_head :: "pref option"
  rq_tail :: "pref option"
  rq_count :: u32
  current :: "pref option"
  next_pid :: u32
  tss_esp0 :: u32
  kmem :: "u32 \<Rightarrow> u32"
  irq_on :: bool

text \<open>The registers that \<open>pop gs; pop fs; pop es; pop ds; popal; iret\<close> load.\<close>

record cpu =
  r_gs :: u32
  r_fs :: u32
  r_es :: u32
  r_ds :: u32
  r_general :: "u32 list"
  r_eip :: u32
  r_cs :: u32
  r_eflags :: u32
  r_user_stack :: "(u32 \<times> u32) option"

datatype outcome = Returns | Resumes cpu | GP_fault u32

definition get_pcb :: "pref \<Rightarrow> sched \<Rightarrow> pcb" where
  "get_pcb p s = (case p of Slot i \<Rightarrow> pcb_pool s ! i | IdleP \<Rightarrow> idle_pcb s)"

definition upd_pcb :: "pref \<Rightarrow> (pcb \<Rightarrow> pcb) \<Rightarrow> sched \<Rightarrow> sched" where
  "upd_pcb p f s = (case p of
     Slot i \<Rightarrow> s\<lparr>pcb_pool := (pcb_pool s)[i := f (pcb_pool s ! i)]\<rparr>
   | IdleP \<Rightarrow> s\<lparr>idle_pcb := f (idle_pcb s)\<rparr>)"

section \<open>Queue operations\<close>

definition alloc_pcb :: "sched \<Rightarrow> nat option" where
  "alloc_pcb s = find (\<lambda>i. p_state (pcb_pool s ! i) = PROC_FREE) [0..<PROC_MAX]"

text \<open>
  A null \<open>ready.tail\<close> behind a non-null \<open>ready.head\<close> is excluded by the invariant below; the
  model then leaves the link out.
\<close>

definition enqueue_ready :: "pref \<Rightarrow> sched \<Rightarrow> sched" where
  "enqueue_ready proc s =
     (let s = upd_pcb proc (\<lambda>b. b\<lparr>p_state := PROC_READY, p_next := None\<rparr>) s;
          s = (if rq_head s = None then s\<lparr>rq_head := Some proc, rq_tail := Some proc\<rparr>
               else (case rq_tail s of
                       Some t \<Rightarrow> (upd_pcb t (\<lambda>b. b\<lparr>p_next := Some proc\<rparr>) s)\<lparr>rq_tail := Some proc\<rparr>
                     | None \<Rightarrow> s\<lparr>rq_tail := Some proc\<rparr>))
      in s\<lparr>rq_count := rq_count s + 1\<rparr>)"

definition dequeue_ready :: "sched \<Rightarrow> pref option \<times> sched" where
  "dequeue_ready s = (case rq_head s of
     None \<Rightarrow> (None, s)
   | Some proc \<Rightarrow>
       let s = s\<lparr>rq_head := p_next (get_pcb proc s)\<rparr>;
           s = (if rq_head s = None then s\<lparr>rq_tail := None\<rparr> else s);
           s = upd_pcb proc (\<lambda>b. b\<lparr>p_next := None\<rparr>) s
       in (Some proc, s\<lparr>rq_count := rq_count s - 1\<rparr>))"

section \<open>Context switch\<close>

text \<open>
  The descriptor privilege level of a selector in the table of \<^verbatim>\<open>gdt_load.asm\<close>; \<open>iret\<close>
  raises a general protection fault when the requested privilege level of the code selector on the stack
  differs from it, and pops a user stack only when it returns to an outer ring.
\<close>

definition seg_dpl :: "u32 \<Rightarrow> u32" where
  "seg_dpl sel = (let i = drop_bit 3 sel in
     if i = 3 \<or> i = 4 then 1 else if i = 5 \<or> i = 6 then 2 else if i = 7 \<or> i = 8 then 3 else 0)"

definition iret :: "(u32 \<Rightarrow> u32) \<Rightarrow> u32 \<Rightarrow> cpu \<Rightarrow> outcome" where
  "iret m esp c =
     (let cs = m (esp + 4); rpl = cs AND 3 in
      if rpl \<noteq> seg_dpl cs then GP_fault (cs AND NOT 3)
      else Resumes (c\<lparr>r_eip := m esp, r_cs := cs, r_eflags := m (esp + 8),
             r_user_stack := (if rpl = 0 then None else Some (m (esp + 12), m (esp + 16)))\<rparr>))"

definition sched_restore_context :: "(u32 \<Rightarrow> u32) \<Rightarrow> u32 \<Rightarrow> outcome" where
  "sched_restore_context m new_esp =
     iret m (new_esp + 48)
       \<lparr>r_gs = m new_esp, r_fs = m (new_esp + 4), r_es = m (new_esp + 8), r_ds = m (new_esp + 12),
        r_general = map (\<lambda>k. m (new_esp + 16 + 4 * of_nat k)) [0, 1, 2, 4, 5, 6, 7],
        r_eip = 0, r_cs = 0, r_eflags = 0, r_user_stack = None\<rparr>"

definition tss_set_esp0 :: "u32 \<Rightarrow> sched \<Rightarrow> sched" where
  "tss_set_esp0 v s = s\<lparr>tss_esp0 := v\<rparr>"

definition make_current :: "pref \<Rightarrow> sched \<Rightarrow> sched" where
  "make_current p s =
     (let s = s\<lparr>current := Some p\<rparr>;
          s = upd_pcb p (\<lambda>b. b\<lparr>p_state := PROC_RUNNING, p_ticks_remaining := p_time_slice b\<rparr>) s
      in if p_flags (get_pcb p s) AND PROC_FLAG_USER \<noteq> 0
         then tss_set_esp0 (p_kernel_esp_top (get_pcb p s)) s else s)"

definition sched_switch_to :: "pref \<Rightarrow> sched \<Rightarrow> outcome \<times> sched" where
  "sched_switch_to p s =
     (let s = make_current p s in (sched_restore_context (kmem s) (p_kernel_esp (get_pcb p s)), s))"

definition hal_irq_save :: "sched \<Rightarrow> bool \<times> sched" where
  "hal_irq_save s = (irq_on s, s\<lparr>irq_on := False\<rparr>)"

definition hal_irq_restore :: "bool \<Rightarrow> sched \<Rightarrow> sched" where
  "hal_irq_restore flags s = s\<lparr>irq_on := flags\<rparr>"

definition or_idle :: "pref option \<Rightarrow> pref" where
  "or_idle p = (case p of Some q \<Rightarrow> q | None \<Rightarrow> IdleP)"

text \<open>\<open>if (current != &idle_pcb && current->state == PROC_RUNNING) enqueue_ready(current);\<close>\<close>

definition requeue_current :: "pref \<Rightarrow> sched \<Rightarrow> sched" where
  "requeue_current c s =
     (if c \<noteq> IdleP \<and> p_state (get_pcb c s) = PROC_RUNNING then enqueue_ready c s else s)"

section \<open>Scheduler operations\<close>

definition sched_do_switch_asm :: "u32 \<Rightarrow> sched \<Rightarrow> outcome \<times> sched" where
  "sched_do_switch_asm context_esp s = (case current s of
     None \<Rightarrow> (Returns, s)
   | Some c \<Rightarrow>
       let s = upd_pcb c (\<lambda>b. b\<lparr>p_kernel_esp := context_esp\<rparr>) s;
           s = requeue_current c s;
           (n, s) = dequeue_ready s;
           next = or_idle n
       in if next = c then (Returns, s) else sched_switch_to next s)"

definition sched_yield :: "sched \<Rightarrow> outcome \<times> sched" where
  "sched_yield s =
     (let (flags, s) = hal_irq_save s in
      case current s of
        None \<Rightarrow> (Returns, hal_irq_restore flags s)
      | Some c \<Rightarrow>
          if rq_count s = 0 then (Returns, hal_irq_restore flags s)
          else let s = requeue_current c s;
                   (n, s) = dequeue_ready s;
                   next = or_idle n
               in if next = c then (Returns, hal_irq_restore flags s)
                  else sched_switch_to next (hal_irq_restore flags s))"

definition sched_tick :: "sched \<Rightarrow> sched" where
  "sched_tick s = (case current s of
     Some c \<Rightarrow>
       if c \<noteq> IdleP \<and> p_ticks_remaining (get_pcb c s) > 0
       then upd_pcb c (\<lambda>b. b\<lparr>p_ticks_remaining := p_ticks_remaining b - 1, p_total_ticks := p_total_ticks b + 1\<rparr>) s
       else s
   | None \<Rightarrow> s)"

definition sched_need_resched :: "sched \<Rightarrow> bool" where
  "sched_need_resched s = (case current s of
     Some c \<Rightarrow> if c = IdleP then rq_count s > 0 else p_ticks_remaining (get_pcb c s) = 0
   | None \<Rightarrow> rq_count s > 0)"

definition sched_block :: "sched \<Rightarrow> outcome \<times> sched" where
  "sched_block s =
     (let (flags, s) = hal_irq_save s;
          s = (case current s of
                 Some c \<Rightarrow> if p_state (get_pcb c s) = PROC_RUNNING
                           then upd_pcb c (\<lambda>b. b\<lparr>p_state := PROC_BLOCKED\<rparr>) s else s
               | None \<Rightarrow> s);
          (n, s) = dequeue_ready s
      in sched_switch_to (or_idle n) (hal_irq_restore flags s))"

definition sched_get_pcb :: "u32 \<Rightarrow> sched \<Rightarrow> pref option" where
  "sched_get_pcb pid s =
     map_option Slot (find (\<lambda>i. p_pid (pcb_pool s ! i) = pid \<and> p_state (pcb_pool s ! i) \<noteq> PROC_FREE) [0..<PROC_MAX])"

definition sched_get_current :: "sched \<Rightarrow> pref option" where
  "sched_get_current s = current s"

definition sched_unblock :: "u32 \<Rightarrow> sched \<Rightarrow> bool \<times> sched" where
  "sched_unblock pid s = (case sched_get_pcb pid s of
     None \<Rightarrow> (False, s)
   | Some proc \<Rightarrow> if p_state (get_pcb proc s) \<noteq> PROC_BLOCKED then (False, s)
                  else (True, enqueue_ready proc s))"

text \<open>\<open>*--kstack = v\<close>\<close>

definition push32 :: "u32 \<Rightarrow> u32 \<times> (u32 \<Rightarrow> u32) \<Rightarrow> u32 \<times> (u32 \<Rightarrow> u32)" where
  "push32 v = (\<lambda>(sp, m). (sp - 4, m(sp - 4 := v)))"

definition iret_frame :: "u32 \<Rightarrow> u32 \<Rightarrow> u32 \<Rightarrow> u32 list" where
  "iret_frame entry user_esp flags =
     (if flags AND PROC_FLAG_USER \<noteq> 0
      then [GDT_SEL_USER_DATA, user_esp, 0x202, GDT_SEL_USER_CODE, entry]
      else [0x202, GDT_SEL_KERNEL_CODE, entry])"

definition register_frame :: "u32 \<Rightarrow> u32 list" where
  "register_frame data_sel = replicate 8 0 @ replicate 4 data_sel"

text \<open>\<open>for (i = 0; name[i] && i < 31; i++) pcb->name[i] = name[i]; pcb->name[i] = 0;\<close>\<close>

definition copy_name :: "string \<Rightarrow> string \<Rightarrow> string" where
  "copy_name name buf = (let n = min 31 (length name) in take n name @ [CHR 0x00] @ drop (n + 1) buf)"

definition sched_create_process :: "u32 \<Rightarrow> string \<Rightarrow> u32 \<Rightarrow> u32 \<Rightarrow> u32 \<Rightarrow> sched \<Rightarrow> int \<times> sched" where
  "sched_create_process kernel_stack_pool name entry user_esp flags s = (case alloc_pcb s of
     None \<Rightarrow> (-1, s)
   | Some pool_idx \<Rightarrow>
       let pid = next_pid s;
           s = s\<lparr>next_pid := next_pid s + 1\<rparr>;
           (pid, s) = (if pid = 0 then (next_pid s, s\<lparr>next_pid := next_pid s + 1\<rparr>) else (pid, s));
           kstack_top = kernel_stack_pool + 2048 * of_nat (pool_idx + 1);
           user = (flags AND PROC_FLAG_USER \<noteq> 0);
           data_sel = (if user then GDT_SEL_USER_DATA else GDT_SEL_KERNEL_DATA);
           (kstack, m) = fold push32 (iret_frame entry user_esp flags @ register_frame data_sel)
                           (kstack_top, kmem s);
           s = upd_pcb (Slot pool_idx) (\<lambda>b. b\<lparr>p_pid := pid, p_state := PROC_READY, p_flags := flags,
                 p_time_slice := PROC_TIME_SLICE_DEFAULT, p_ticks_remaining := PROC_TIME_SLICE_DEFAULT,
                 p_total_ticks := 0, p_next := None, p_page_dir := 0, p_name := copy_name name (p_name b),
                 p_ss := data_sel, p_esp := (if user then user_esp else 0),
                 p_kernel_esp := kstack, p_kernel_esp_top := kstack_top\<rparr>) (s\<lparr>kmem := m\<rparr>)
       in (sint pid, enqueue_ready (Slot pool_idx) s))"

text \<open>The common body of \<open>sched_exit\<close> (with interrupts saved) and \<open>sched_exit_asm\<close>.\<close>

definition sched_exit_asm :: "sched \<Rightarrow> outcome \<times> sched" where
  "sched_exit_asm s = (case current s of
     None \<Rightarrow> (Returns, s)
   | Some zombie \<Rightarrow>
       if zombie = IdleP then (Returns, s)
       else let s = upd_pcb zombie (\<lambda>b. b\<lparr>p_state := PROC_FREE\<rparr>) s;
                (n, s) = dequeue_ready s
            in sched_switch_to (or_idle n) s)"

definition sched_exit :: "sched \<Rightarrow> outcome \<times> sched" where
  "sched_exit s =
     (let zombie = current s; (flags, s) = hal_irq_save s in
      case zombie of
        None \<Rightarrow> (Returns, hal_irq_restore flags s)
      | Some z \<Rightarrow>
          if z = IdleP then (Returns, hal_irq_restore flags s)
          else let s = upd_pcb z (\<lambda>b. b\<lparr>p_state := PROC_FREE\<rparr>) s;
                   (n, s) = dequeue_ready s
               in sched_switch_to (or_idle n) (hal_irq_restore flags s))"

definition sched_init :: "sched \<Rightarrow> sched" where
  "sched_init s = s\<lparr>
     pcb_pool := map (\<lambda>b. b\<lparr>p_state := PROC_FREE\<rparr>) (pcb_pool s),
     rq_head := None, rq_tail := None, rq_count := 0,
     idle_pcb := (idle_pcb s)\<lparr>p_pid := 0, p_state := PROC_READY, p_flags := PROC_FLAG_SYSTEM OR PROC_FLAG_KERNEL,
        p_name := ''idle'' @ [CHR 0x00] @ drop 5 (p_name (idle_pcb s)), p_esp := 0, p_ss := GDT_SEL_KERNEL_DATA,
        p_kernel_esp := 0, p_kernel_esp_top := INTERRUPT_STACK_TOP, p_time_slice := 0,
        p_ticks_remaining := 0, p_total_ticks := 0\<rparr>,
     current := Some IdleP\<rparr>"

definition sched_start :: "u32 \<Rightarrow> u32 \<Rightarrow> sched \<Rightarrow> outcome \<times> sched" where
  "sched_start idle_stack sched_idle s =
     (let (flags, s) = hal_irq_save s; (first, s) = dequeue_ready s in
      case first of
        None \<Rightarrow> (Returns, hal_irq_restore flags s)
      | Some f \<Rightarrow>
          let top = idle_stack + 2048;
              (isp, m) = fold push32 (iret_frame sched_idle 0 PROC_FLAG_KERNEL @ register_frame GDT_SEL_KERNEL_DATA)
                           (top, kmem s);
              s = upd_pcb IdleP (\<lambda>b. b\<lparr>p_kernel_esp_top := top, p_kernel_esp := isp\<rparr>) (s\<lparr>kmem := m\<rparr>);
              s = hal_irq_restore flags (make_current f s)
          in (sched_restore_context (kmem s) (p_kernel_esp (get_pcb f s)), s))"

text \<open>
  \<open>loader_enter_ring3\<close> builds its frame on the stack it runs on, so only the transfer is
  described: the registers come from the frame it pushes, EFLAGS with the interrupt flag set.
\<close>

definition loader_enter_ring3 :: "u32 \<Rightarrow> u32 \<Rightarrow> u32 \<Rightarrow> cpu \<Rightarrow> sched \<Rightarrow> outcome \<times> sched" where
  "loader_enter_ring3 user_eip user_esp eflags c s =
     (let s = (case current s of
                 Some p \<Rightarrow> if p_kernel_esp_top (get_pcb p s) \<noteq> 0
                           then tss_set_esp0 (p_kernel_esp_top (get_pcb p s)) s else s
               | None \<Rightarrow> s)\<lparr>irq_on := False\<rparr>;
          frame = (\<lambda>a. if a = 0 then user_eip else if a = 4 then GDT_SEL_USER_CODE
                       else if a = 8 then eflags OR 0x200 else if a = 12 then user_esp else GDT_SEL_USER_DATA)
      in (iret frame 0 (c\<lparr>r_ds := GDT_SEL_USER_DATA, r_es := GDT_SEL_USER_DATA,
            r_fs := GDT_SEL_USER_DATA, r_gs := GDT_SEL_USER_DATA\<rparr>), s))"

section \<open>Process control blocks\<close>

definition valid_ref :: "pref \<Rightarrow> sched \<Rightarrow> bool" where
  "valid_ref p s = (case p of Slot i \<Rightarrow> i < length (pcb_pool s) | IdleP \<Rightarrow> True)"

lemma get_upd [simp]:
  "valid_ref p s \<Longrightarrow> get_pcb q (upd_pcb p f s) = (if q = p then f (get_pcb p s) else get_pcb q s)"
  by (auto simp: get_pcb_def upd_pcb_def valid_ref_def nth_list_update split: pref.splits)

lemma upd_frame [simp]:
  "rq_head (upd_pcb p f s) = rq_head s" "rq_tail (upd_pcb p f s) = rq_tail s"
  "rq_count (upd_pcb p f s) = rq_count s" "current (upd_pcb p f s) = current s"
  "next_pid (upd_pcb p f s) = next_pid s" "tss_esp0 (upd_pcb p f s) = tss_esp0 s"
  "kmem (upd_pcb p f s) = kmem s" "irq_on (upd_pcb p f s) = irq_on s"
  "length (pcb_pool (upd_pcb p f s)) = length (pcb_pool s)" "valid_ref q (upd_pcb p f s) = valid_ref q s"
  by (simp_all add: upd_pcb_def valid_ref_def split: pref.split)

lemma get_frame [simp]:
  "get_pcb q (s\<lparr>rq_head := h\<rparr>) = get_pcb q s" "get_pcb q (s\<lparr>rq_tail := t\<rparr>) = get_pcb q s"
  "get_pcb q (s\<lparr>rq_count := n\<rparr>) = get_pcb q s" "get_pcb q (s\<lparr>current := c\<rparr>) = get_pcb q s"
  "get_pcb q (s\<lparr>next_pid := i\<rparr>) = get_pcb q s" "get_pcb q (s\<lparr>tss_esp0 := e\<rparr>) = get_pcb q s"
  "get_pcb q (s\<lparr>kmem := m\<rparr>) = get_pcb q s" "get_pcb q (s\<lparr>irq_on := b\<rparr>) = get_pcb q s"
  "valid_ref q (s\<lparr>rq_head := h\<rparr>) = valid_ref q s" "valid_ref q (s\<lparr>rq_tail := t\<rparr>) = valid_ref q s"
  "valid_ref q (s\<lparr>rq_count := n\<rparr>) = valid_ref q s" "valid_ref q (s\<lparr>current := c\<rparr>) = valid_ref q s"
  "valid_ref q (s\<lparr>next_pid := i\<rparr>) = valid_ref q s" "valid_ref q (s\<lparr>tss_esp0 := e\<rparr>) = valid_ref q s"
  "valid_ref q (s\<lparr>kmem := m\<rparr>) = valid_ref q s" "valid_ref q (s\<lparr>irq_on := b\<rparr>) = valid_ref q s"
  by (simp_all add: get_pcb_def valid_ref_def split: pref.split)

text \<open>A block up to its queue link.\<close>

definition core :: "pcb \<Rightarrow> pcb" where "core b = b\<lparr>p_next := None\<rparr>"

lemma core_fields:
  "p_state (core b) = p_state b" "p_kernel_esp (core b) = p_kernel_esp b" "p_flags (core b) = p_flags b"
  "p_kernel_esp_top (core b) = p_kernel_esp_top b" "p_time_slice (core b) = p_time_slice b"
  "p_ticks_remaining (core b) = p_ticks_remaining b" "p_pid (core b) = p_pid b"
  by (simp_all add: core_def)

lemma core_eqD:
  assumes "core a = core b"
  shows "p_state a = p_state b" "p_kernel_esp a = p_kernel_esp b" "p_flags a = p_flags b"
    "p_kernel_esp_top a = p_kernel_esp_top b" "p_time_slice a = p_time_slice b" "p_pid a = p_pid b"
  using assms by (metis core_fields)+

section \<open>The ready queue as a list\<close>

fun walk :: "nat \<Rightarrow> sched \<Rightarrow> pref option \<Rightarrow> pref list" where
  "walk 0 s p = []"
| "walk (Suc n) s None = []"
| "walk (Suc n) s (Some p) = p # walk n s (p_next (get_pcb p s))"

definition rq :: "sched \<Rightarrow> pref list" where "rq s = walk PROC_MAX s (rq_head s)"

fun linked :: "sched \<Rightarrow> pref option \<Rightarrow> pref list \<Rightarrow> bool" where
  "linked s p [] \<longleftrightarrow> p = None"
| "linked s p (x # xs) \<longleftrightarrow> p = Some x \<and> linked s (p_next (get_pcb x s)) xs"

definition slot :: "pref \<Rightarrow> bool" where "slot p \<longleftrightarrow> p \<in> Slot ` {..<PROC_MAX}"

definition rq_wf :: "sched \<Rightarrow> pref list \<Rightarrow> bool" where
  "rq_wf s qs \<longleftrightarrow> length (pcb_pool s) = PROC_MAX \<and> linked s (rq_head s) qs \<and> distinct qs \<and> list_all slot qs \<and>
     rq_tail s = (if qs = [] then None else Some (last qs)) \<and> rq_count s = of_nat (length qs)"

definition rq_ok :: "sched \<Rightarrow> bool" where "rq_ok s \<longleftrightarrow> rq_wf s (rq s)"

lemma slot_simps [simp]: "\<not> slot IdleP" "slot (Slot i) \<longleftrightarrow> i < PROC_MAX"
  by (auto simp: slot_def)

lemma slot_not_idle: "slot p \<Longrightarrow> p \<noteq> IdleP"
  by (auto simp: slot_def)

lemma slot_valid: "slot p \<Longrightarrow> length (pcb_pool s) = PROC_MAX \<Longrightarrow> valid_ref p s"
  by (auto simp: slot_def valid_ref_def)

lemma linked_walk: "linked s p qs \<Longrightarrow> length qs \<le> n \<Longrightarrow> walk n s p = qs"
proof (induction n arbitrary: p qs)
  case (Suc n)
  then show ?case by (cases qs) auto
qed simp

lemma slots_length: "distinct qs \<Longrightarrow> list_all slot qs \<Longrightarrow> length qs \<le> PROC_MAX"
proof -
  assume "distinct qs" "list_all slot qs"
  then have "length qs = card (set qs)" "set qs \<subseteq> Slot ` {..<PROC_MAX}"
    by (auto simp: distinct_card list_all_iff slot_def)
  moreover have "card (Slot ` {..<PROC_MAX}) = PROC_MAX" by (simp add: card_image inj_on_def)
  ultimately show ?thesis using card_mono [of "Slot ` {..<PROC_MAX}" "set qs"] by simp
qed

lemma rq_wf_rq: "rq_wf s qs \<Longrightarrow> rq s = qs"
  unfolding rq_wf_def rq_def by (blast intro: linked_walk slots_length)

lemma rq_wfI: "rq_wf s qs \<Longrightarrow> rq_ok s" using rq_wf_rq by (simp add: rq_ok_def)

lemma linked_cong:
  "(\<And>x. x \<in> set xs \<Longrightarrow> p_next (get_pcb x t) = p_next (get_pcb x s)) \<Longrightarrow> linked t q xs = linked s q xs"
  by (induction xs arbitrary: q) auto

lemma linked_upd:
  assumes "valid_ref p s" "p \<notin> set xs"
  shows "linked (upd_pcb p f s) q xs = linked s q xs"
  using assms by (intro linked_cong) auto

lemma linked_snoc:
  assumes "linked s h (xs @ [t])" "distinct (xs @ [t])" "p_next (get_pcb p s) = None" "p \<notin> set (xs @ [t])" "valid_ref t s"
  shows "linked (upd_pcb t (\<lambda>b. b\<lparr>p_next := Some p\<rparr>) s) h ((xs @ [t]) @ [p])"
  using assms
proof (induction xs arbitrary: h)
  case (Cons x xs)
  then have "linked s (p_next (get_pcb x s)) (xs @ [t])" by simp
  from Cons.IH [OF this] Cons.prems show ?case by auto
qed auto

lemma rq_wf_enqueue:
  assumes "rq_wf s qs" "slot p" "p \<notin> set qs"
  shows "rq_wf (enqueue_ready p s) (qs @ [p])"
proof -
  let ?u = "upd_pcb p (\<lambda>b. b\<lparr>p_state := PROC_READY, p_next := None\<rparr>) s"
  have v: "valid_ref p s" and len: "length (pcb_pool s) = PROC_MAX"
    using assms slot_valid by (auto simp: rq_wf_def)
  have lu: "linked ?u (rq_head s) qs" using assms v by (simp add: linked_upd rq_wf_def)
  show ?thesis
  proof (cases qs rule: rev_cases)
    case Nil
    then have "rq_head s = None" using assms by (simp add: rq_wf_def)
    then show ?thesis using assms(2) len v Nil assms(1)
      by (simp add: enqueue_ready_def Let_def rq_wf_def)
  next
    case (snoc xs t)
    then have head: "rq_head s \<noteq> None" and tail: "rq_tail s = Some t"
      using assms(1) by (cases xs; auto simp: rq_wf_def)+
    have vt: "valid_ref t ?u" using assms(1) snoc len slot_valid by (auto simp: rq_wf_def)
    have "linked (upd_pcb t (\<lambda>b. b\<lparr>p_next := Some p\<rparr>) ?u) (rq_head s) ((xs @ [t]) @ [p])"
      using lu assms(1,3) v vt by (intro linked_snoc) (auto simp: snoc rq_wf_def)
    moreover have e: "enqueue_ready p s =
        (upd_pcb t (\<lambda>b. b\<lparr>p_next := Some p\<rparr>) ?u)\<lparr>rq_tail := Some p, rq_count := rq_count s + 1\<rparr>"
      using head tail by (auto simp: enqueue_ready_def Let_def)
    ultimately have "linked (enqueue_ready p s) (rq_head s) (qs @ [p])"
      unfolding snoc by (subst linked_cong [where s = "upd_pcb t (\<lambda>b. b\<lparr>p_next := Some p\<rparr>) ?u"]) simp_all
    moreover have "rq_head (enqueue_ready p s) = rq_head s" "rq_tail (enqueue_ready p s) = Some p"
      "rq_count (enqueue_ready p s) = rq_count s + 1" "length (pcb_pool (enqueue_ready p s)) = PROC_MAX"
      using len by (simp_all add: e)
    ultimately show ?thesis
      using assms by (simp add: rq_wf_def)
  qed
qed

lemma rq_wf_dequeue:
  assumes "rq_wf s (x # xs)"
  shows "\<exists>t. dequeue_ready s = (Some x, t) \<and> rq_wf t xs"
proof -
  have x: "slot x" "rq_head s = Some x" "x \<notin> set xs" "linked s (p_next (get_pcb x s)) xs"
    and len: "length (pcb_pool s) = PROC_MAX"
    using assms by (auto simp: rq_wf_def)
  have v: "valid_ref x s" using x(1) len by (rule slot_valid)
  obtain t where t: "dequeue_ready s = (Some x, t)" using x(2) by (simp add: dequeue_ready_def Let_def)
  let ?u = "upd_pcb x (\<lambda>b. b\<lparr>p_next := None\<rparr>) s"
  have gt: "get_pcb q t = get_pcb q ?u" for q
    using t x(2) v by (auto simp: dequeue_ready_def Let_def split: if_splits)
  have ft: "rq_head t = p_next (get_pcb x s)" "rq_tail t = (if p_next (get_pcb x s) = None then None else rq_tail s)"
    "rq_count t = rq_count s - 1" "length (pcb_pool t) = length (pcb_pool s)"
    using t x(2) v by (auto simp: dequeue_ready_def Let_def)
  have "linked t (rq_head t) xs"
    using linked_cong [of xs t ?u] gt linked_upd [OF v x(3)] x(4) ft(1) by simp
  moreover have "p_next (get_pcb x s) = None \<longleftrightarrow> xs = []" using x(4) by (cases xs) auto
  ultimately show ?thesis
    using t ft assms by (auto simp: rq_wf_def)
qed

lemma rq_cong:
  assumes "rq_ok s" "\<And>x. x \<in> set (rq s) \<Longrightarrow> p_next (get_pcb x t) = p_next (get_pcb x s)"
    "rq_head t = rq_head s" "rq_tail t = rq_tail s"
    "rq_count t = rq_count s" "length (pcb_pool t) = length (pcb_pool s)"
  shows "rq_ok t" "rq t = rq s"
proof -
  have "rq_wf t (rq s)" using linked_cong [of "rq s" t s] assms by (simp add: rq_ok_def rq_wf_def)
  then show "rq_ok t" "rq t = rq s" by (auto intro: rq_wfI rq_wf_rq)
qed

text \<open>What the queue operations leave alone.\<close>

lemma enqueue_frame:
  "current (enqueue_ready p s) = current s" "kmem (enqueue_ready p s) = kmem s" "next_pid (enqueue_ready p s) = next_pid s"
  "tss_esp0 (enqueue_ready p s) = tss_esp0 s" "irq_on (enqueue_ready p s) = irq_on s"
  "length (pcb_pool (enqueue_ready p s)) = length (pcb_pool s)"
  by (auto simp: enqueue_ready_def Let_def split: option.splits)

lemma dequeue_frame:
  assumes "dequeue_ready s = (r, t)"
  shows "current t = current s" "kmem t = kmem s" "next_pid t = next_pid s" "tss_esp0 t = tss_esp0 s"
    "irq_on t = irq_on s" "length (pcb_pool t) = length (pcb_pool s)"
  using assms by (auto simp: dequeue_ready_def Let_def split: option.splits if_splits)

lemma enqueue_core:
  assumes "rq_ok s" "slot p"
  shows "core (get_pcb q (enqueue_ready p s)) =
    (if q = p then (core (get_pcb p s))\<lparr>p_state := PROC_READY\<rparr> else core (get_pcb q s))"
proof -
  have len: "length (pcb_pool s) = PROC_MAX" using assms(1) by (simp add: rq_ok_def rq_wf_def)
  have v: "valid_ref p s" by (rule slot_valid [OF assms(2) len])
  have t: "valid_ref t s" if "rq_tail s = Some t" for t
    using assms(1) that slot_valid [OF _ len, of t] by (auto simp: rq_ok_def rq_wf_def list_all_iff split: if_splits)
  show ?thesis
    using v t by (auto simp: enqueue_ready_def Let_def core_def split: option.splits)
qed

lemma dequeue_core:
  assumes "rq_ok s" "dequeue_ready s = (r, t)"
  shows "core (get_pcb q t) = core (get_pcb q s)"
proof (cases "rq s")
  case Nil
  then have "rq_head s = None" using assms(1) by (simp add: rq_ok_def rq_wf_def)
  then show ?thesis using assms(2) by (simp add: dequeue_ready_def)
next
  case (Cons x xs)
  then have h: "rq_head s = Some x" and "slot x" "length (pcb_pool s) = PROC_MAX"
    using assms(1) by (auto simp: rq_ok_def rq_wf_def)
  then have "valid_ref x s" by (blast intro: slot_valid)
  then show ?thesis
    using assms(2) h by (auto simp: dequeue_ready_def Let_def core_def split: if_splits)
qed

section \<open>The queue's contract\<close>

locale fifo_queue =
  fixes enq :: "'a \<Rightarrow> 's \<Rightarrow> 's"
    and deq :: "'s \<Rightarrow> 'a option \<times> 's"
    and content :: "'s \<Rightarrow> 'a list"
    and ok :: "'s \<Rightarrow> bool"
    and element :: "'a \<Rightarrow> bool"
  assumes enq_ok: "ok s \<Longrightarrow> element x \<Longrightarrow> x \<notin> set (content s) \<Longrightarrow> ok (enq x s)"
    and enq_content: "ok s \<Longrightarrow> element x \<Longrightarrow> x \<notin> set (content s) \<Longrightarrow> content (enq x s) = content s @ [x]"
    and deq_empty: "ok s \<Longrightarrow> content s = [] \<Longrightarrow> deq s = (None, s)"
    and deq_cons: "ok s \<Longrightarrow> content s = x # xs \<Longrightarrow> \<exists>t. deq s = (Some x, t) \<and> ok t \<and> content t = xs"
    and content_elements: "ok s \<Longrightarrow> distinct (content s) \<and> list_all element (content s)"
begin

lemma deq_result:
  assumes "ok s" "deq s = (r, t)"
  shows "ok t" "r = (case content s of [] \<Rightarrow> None | x # xs \<Rightarrow> Some x)" "content t = tl (content s)"
    "r = None \<Longrightarrow> t = s"
  using assms deq_empty [OF assms(1)] deq_cons [OF assms(1)] by (cases "content s"; fastforce)+

lemma enq_all:
  assumes "ok s" "list_all element xs" "distinct (content s @ xs)"
  shows "ok (fold enq xs s) \<and> content (fold enq xs s) = content s @ xs"
  using assms
proof (induction xs arbitrary: s)
  case (Cons x xs)
  then have "ok (enq x s)" "content (enq x s) = content s @ [x]" by (auto intro: enq_ok enq_content)
  with Cons.IH [of "enq x s"] Cons.prems show ?case by auto
qed simp

text \<open>Taking out as often as there are elements yields them in order of arrival.\<close>

fun drain :: "nat \<Rightarrow> 's \<Rightarrow> 'a option list" where
  "drain 0 s = []"
| "drain (Suc n) s = fst (deq s) # drain n (snd (deq s))"

lemma drain_content:
  assumes "ok s"
  shows "drain (length (content s)) s = map Some (content s)"
  using assms
proof (induction "content s" arbitrary: s)
  case (Cons x xs)
  from deq_cons [OF Cons.prems Cons.hyps(2) [symmetric]]
  obtain t where "deq s = (Some x, t)" "ok t" "content t = xs" by blast
  with Cons.hyps(1) [of t] Cons.hyps(2) [symmetric] show ?case by simp
next
  case Nil
  then show ?case by (metis drain.simps(1) list.map(1) list.size(3))
qed

lemma enq_then_deq:
  assumes "ok s" "element x" "x \<notin> set (content s)" "deq (enq x s) = (r, t)"
  shows "ok t" "r = Some (hd (content s @ [x]))" "content t = tl (content s @ [x])"
  using deq_result [OF enq_ok [OF assms(1-3)] assms(4)] enq_content [OF assms(1-3)]
  by (auto split: list.splits)

end

interpretation rq_fifo: fifo_queue enqueue_ready dequeue_ready rq rq_ok slot
proof unfold_locales
  fix s :: sched and x xs
  show "rq_ok s \<Longrightarrow> slot x \<Longrightarrow> x \<notin> set (rq s) \<Longrightarrow> rq_ok (enqueue_ready x s)"
    using rq_wf_enqueue rq_wfI unfolding rq_ok_def by blast
  show "rq_ok s \<Longrightarrow> slot x \<Longrightarrow> x \<notin> set (rq s) \<Longrightarrow> rq (enqueue_ready x s) = rq s @ [x]"
    using rq_wf_enqueue rq_wf_rq unfolding rq_ok_def by blast
  show "rq_ok s \<Longrightarrow> rq s = [] \<Longrightarrow> dequeue_ready s = (None, s)"
    by (simp add: rq_ok_def rq_wf_def dequeue_ready_def)
  show "rq_ok s \<Longrightarrow> rq s = x # xs \<Longrightarrow> \<exists>t. dequeue_ready s = (Some x, t) \<and> rq_ok t \<and> rq t = xs"
    using rq_wf_dequeue [of s x xs] rq_wf_rq rq_wfI unfolding rq_ok_def by metis
  show "rq_ok s \<Longrightarrow> distinct (rq s) \<and> list_all slot (rq s)" by (simp add: rq_ok_def rq_wf_def)
qed

section \<open>The abstract scheduler\<close>

text \<open>
  What the scheduler promises, without blocks, links and stacks: a queue of processes, the current one
  and the state of each.
\<close>

record abs_sched =
  a_queue :: "pref list"
  a_cur :: "pref option"
  a_st :: "pref \<Rightarrow> proc_state"

definition view :: "sched \<Rightarrow> abs_sched" where
  "view s = \<lparr>a_queue = rq s, a_cur = current s, a_st = (\<lambda>p. p_state (get_pcb p s))\<rparr>"

definition a_enq :: "pref \<Rightarrow> abs_sched \<Rightarrow> abs_sched" where
  "a_enq p a = a\<lparr>a_queue := a_queue a @ [p], a_st := (a_st a)(p := PROC_READY)\<rparr>"

definition a_pick :: "abs_sched \<Rightarrow> pref" where
  "a_pick a = (case a_queue a of [] \<Rightarrow> IdleP | x # _ \<Rightarrow> x)"

definition a_run :: "abs_sched \<Rightarrow> abs_sched" where
  "a_run a = a\<lparr>a_queue := tl (a_queue a), a_cur := Some (a_pick a), a_st := (a_st a)(a_pick a := PROC_RUNNING)\<rparr>"

definition a_requeue :: "pref \<Rightarrow> abs_sched \<Rightarrow> abs_sched" where
  "a_requeue c a = (if c \<noteq> IdleP \<and> a_st a c = PROC_RUNNING then a_enq c a else a)"

definition a_switch :: "abs_sched \<Rightarrow> abs_sched" where
  "a_switch a = (case a_cur a of None \<Rightarrow> a
   | Some c \<Rightarrow> let b = a_requeue c a in
       if a_pick b = c then b\<lparr>a_queue := tl (a_queue b)\<rparr> else a_run b)"

definition a_yield :: "abs_sched \<Rightarrow> abs_sched" where
  "a_yield a = (if a_queue a = [] then a else a_switch a)"

definition a_block :: "abs_sched \<Rightarrow> abs_sched" where
  "a_block a = a_run (case a_cur a of None \<Rightarrow> a
     | Some c \<Rightarrow> if a_st a c = PROC_RUNNING then a\<lparr>a_st := (a_st a)(c := PROC_BLOCKED)\<rparr> else a)"

definition a_exit :: "abs_sched \<Rightarrow> abs_sched" where
  "a_exit a = (case a_cur a of None \<Rightarrow> a
   | Some c \<Rightarrow> if c = IdleP then a else a_run (a\<lparr>a_st := (a_st a)(c := PROC_FREE)\<rparr>))"

definition a_inv :: "abs_sched \<Rightarrow> bool" where
  "a_inv a \<longleftrightarrow> distinct (a_queue a) \<and> (\<forall>p \<in> set (a_queue a). slot p \<and> a_st a p = PROC_READY) \<and>
     (\<forall>c. a_cur a = Some c \<longrightarrow> c \<notin> set (a_queue a) \<and>
        (c = IdleP \<or> slot c \<and> a_st a c \<in> {PROC_READY, PROC_RUNNING})) \<and>
     (\<forall>p. slot p \<and> a_st a p = PROC_RUNNING \<longrightarrow> a_cur a = Some p)"

definition sched_inv :: "sched \<Rightarrow> bool" where
  "sched_inv s \<longleftrightarrow> rq_ok s \<and> a_inv (view s)"

lemma a_invD:
  assumes "a_inv a"
  shows "distinct (a_queue a)" "p \<in> set (a_queue a) \<Longrightarrow> slot p" "p \<in> set (a_queue a) \<Longrightarrow> a_st a p = PROC_READY"
    "a_cur a = Some c \<Longrightarrow> c \<notin> set (a_queue a)" "a_cur a = Some c \<Longrightarrow> c \<noteq> IdleP \<Longrightarrow> slot c"
    "a_cur a = Some c \<Longrightarrow> c \<noteq> IdleP \<Longrightarrow> a_st a c = PROC_READY \<or> a_st a c = PROC_RUNNING"
    "slot p \<Longrightarrow> a_st a p = PROC_RUNNING \<Longrightarrow> a_cur a = Some p"
  using assms unfolding a_inv_def by blast+

lemma a_invI:
  assumes "distinct (a_queue a)" "\<And>p. p \<in> set (a_queue a) \<Longrightarrow> slot p \<and> a_st a p = PROC_READY"
    "\<And>c. a_cur a = Some c \<Longrightarrow> c \<notin> set (a_queue a)"
    "\<And>c. a_cur a = Some c \<Longrightarrow> c = IdleP \<or> slot c \<and> (a_st a c = PROC_READY \<or> a_st a c = PROC_RUNNING)"
    "\<And>p. slot p \<Longrightarrow> a_st a p = PROC_RUNNING \<Longrightarrow> a_cur a = Some p"
  shows "a_inv a"
  using assms unfolding a_inv_def by blast

text \<open>Giving the processor away keeps the invariant when no slot is left running.\<close>

lemma a_run_inv:
  assumes q: "distinct (a_queue a)" "\<And>p. p \<in> set (a_queue a) \<Longrightarrow> slot p \<and> a_st a p = PROC_READY"
    and r: "\<And>p. slot p \<Longrightarrow> a_st a p \<noteq> PROC_RUNNING"
  shows "a_inv (a_run a)"
proof (cases "a_queue a")
  case Nil
  then show ?thesis using r by (intro a_invI) (auto simp: a_run_def a_pick_def split: if_splits)
next
  case (Cons x xs)
  with q have x: "x \<notin> set xs" "slot x" "distinct xs" by auto
  have xs: "slot p \<and> a_st a p = PROC_READY" if "p \<in> set xs" for p using q(2) [of p] Cons that by simp
  show ?thesis
    using r x xs by (intro a_invI) (auto simp: a_run_def a_pick_def Cons split: if_splits)
qed

lemma a_enq_inv:
  assumes "a_inv a" "slot p" "a_st a p \<noteq> PROC_READY" "a_st a p \<noteq> PROC_RUNNING"
  shows "a_inv (a_enq p a)"
proof -
  note d = a_invD [OF assms(1)]
  have p: "p \<notin> set (a_queue a)" using d(3) assms(3) by blast
  have c: "c \<noteq> p" if "a_cur a = Some c" for c using d(6) [OF that] assms slot_not_idle by blast
  have ne: "q \<noteq> p" if "q \<in> set (a_queue a)" for q using p that by auto
  show ?thesis
  proof (rule a_invI)
    show "distinct (a_queue (a_enq p a))" using d(1) p by (simp add: a_enq_def)
    show "slot q \<and> a_st (a_enq p a) q = PROC_READY" if "q \<in> set (a_queue (a_enq p a))" for q
      using that d(2,3) assms(2) by (auto simp: a_enq_def)
    show "q \<notin> set (a_queue (a_enq p a))" if "a_cur (a_enq p a) = Some q" for q
      using that d(4) c by (auto simp: a_enq_def)
    show "q = IdleP \<or> slot q \<and> (a_st (a_enq p a) q = PROC_READY \<or> a_st (a_enq p a) q = PROC_RUNNING)"
      if "a_cur (a_enq p a) = Some q" for q
      using that d(5,6) by (auto simp: a_enq_def)
    show "a_cur (a_enq p a) = Some q" if "slot q" "a_st (a_enq p a) q = PROC_RUNNING" for q
      using that d(7) by (auto simp: a_enq_def split: if_splits)
  qed
qed

lemma a_switch_inv:
  assumes "a_inv a"
  shows "a_inv (a_switch a)"
proof (cases "a_cur a")
  case None
  then show ?thesis using assms by (simp add: a_switch_def)
next
  case (Some c)
  note d = a_invD [OF assms]
  define b where "b = a_requeue c a"
  have q: "distinct (a_queue b)" "slot p \<and> a_st b p = PROC_READY" if "p \<in> set (a_queue b)" for p
    using that d(1-6) Some by (auto simp: b_def a_requeue_def a_enq_def)
  have r: "a_st b p \<noteq> PROC_RUNNING" if "slot p" for p
    using that d(7) [of p] Some by (auto simp: b_def a_requeue_def a_enq_def)
  have db: "distinct (a_queue b)" using d(1,4) Some by (auto simp: b_def a_requeue_def a_enq_def)
  show ?thesis
  proof (cases "a_pick b = c")
    case True
    have t: "c \<notin> set (tl (a_queue b))"
      using db True by (cases "a_queue b") (auto simp: a_pick_def)
    have cb: "a_cur b = Some c" using Some by (simp add: b_def a_requeue_def a_enq_def)
    have "c = IdleP \<or> slot c \<and> (a_st b c = PROC_READY \<or> a_st b c = PROC_RUNNING)"
      using d(5,6) Some by (auto simp: b_def a_requeue_def a_enq_def)
    with t cb q(2) r have "a_inv (b\<lparr>a_queue := tl (a_queue b)\<rparr>)"
      by (intro a_invI) (auto simp: distinct_tl db dest: in_tl)
    with True Some show ?thesis by (simp add: a_switch_def b_def Let_def)
  next
    case False
    with a_run_inv [OF db q(2) r] Some show ?thesis by (simp add: a_switch_def b_def Let_def)
  qed
qed

section \<open>Refinement\<close>

lemma pool_len: "rq_ok s \<Longrightarrow> length (pcb_pool s) = PROC_MAX"
  by (simp add: rq_ok_def rq_wf_def)

lemma view_enqueue:
  assumes "rq_ok s" "slot p" "p \<notin> set (rq s)"
  shows "rq_ok (enqueue_ready p s)" "view (enqueue_ready p s) = a_enq p (view s)"
proof -
  show "rq_ok (enqueue_ready p s)" by (rule rq_fifo.enq_ok [OF assms])
  have "p_state (get_pcb q (enqueue_ready p s)) = (if q = p then PROC_READY else p_state (get_pcb q s))" for q
    using arg_cong [OF enqueue_core [OF assms(1,2), of q], of p_state] by (simp add: core_def split: if_splits)
  then show "view (enqueue_ready p s) = a_enq p (view s)"
    using rq_fifo.enq_content [OF assms] by (auto simp: view_def a_enq_def enqueue_frame)
qed

lemma view_upd:
  assumes "rq_ok s" "valid_ref p s" "p \<in> set (rq s) \<Longrightarrow> p_next (f (get_pcb p s)) = p_next (get_pcb p s)"
  shows "rq_ok (upd_pcb p f s)"
    "view (upd_pcb p f s) = (view s)\<lparr>a_st := (a_st (view s))(p := p_state (f (get_pcb p s)))\<rparr>"
proof -
  have "p_next (get_pcb q (upd_pcb p f s)) = p_next (get_pcb q s)" if "q \<in> set (rq s)" for q
    using assms(2,3) that by (cases "q = p") simp_all
  from rq_cong [OF assms(1) this] show "rq_ok (upd_pcb p f s)"
    "view (upd_pcb p f s) = (view s)\<lparr>a_st := (a_st (view s))(p := p_state (f (get_pcb p s)))\<rparr>"
    using assms(2) by (auto simp: view_def)
qed

lemma view_irq [simp]: "view (s\<lparr>irq_on := b\<rparr>) = view s" "rq_ok (s\<lparr>irq_on := b\<rparr>) = rq_ok s" "rq (s\<lparr>irq_on := b\<rparr>) = rq s"
  and view_tss [simp]: "view (s\<lparr>tss_esp0 := e\<rparr>) = view s" "rq_ok (s\<lparr>tss_esp0 := e\<rparr>) = rq_ok s"
proof -
  have w: "walk n (s\<lparr>irq_on := b\<rparr>) p = walk n s p" "walk n (s\<lparr>tss_esp0 := e\<rparr>) p = walk n s p" for n p
    by (induction n arbitrary: p; case_tac p; simp)+
  have l: "linked (s\<lparr>irq_on := b\<rparr>) p xs = linked s p xs" "linked (s\<lparr>tss_esp0 := e\<rparr>) p xs = linked s p xs" for p xs
    by (rule linked_cong, simp)+
  show "view (s\<lparr>irq_on := b\<rparr>) = view s" "rq_ok (s\<lparr>irq_on := b\<rparr>) = rq_ok s" "rq (s\<lparr>irq_on := b\<rparr>) = rq s"
    "view (s\<lparr>tss_esp0 := e\<rparr>) = view s" "rq_ok (s\<lparr>tss_esp0 := e\<rparr>) = rq_ok s"
    by (simp_all add: view_def rq_def rq_ok_def rq_wf_def w l)
qed

lemma view_make_current:
  assumes "rq_ok s" "valid_ref p s"
  shows "rq_ok (make_current p s)"
    "view (make_current p s) = (view s)\<lparr>a_cur := Some p, a_st := (a_st (view s))(p := PROC_RUNNING)\<rparr>"
proof -
  let ?u = "upd_pcb p (\<lambda>b. b\<lparr>p_state := PROC_RUNNING, p_ticks_remaining := p_time_slice b\<rparr>) (s\<lparr>current := Some p\<rparr>)"
  have c: "rq_ok (s\<lparr>current := Some p\<rparr>)" "view (s\<lparr>current := Some p\<rparr>) = (view s)\<lparr>a_cur := Some p\<rparr>"
    using rq_cong [OF assms(1), of "s\<lparr>current := Some p\<rparr>"] by (simp_all add: view_def)
  have "rq_ok ?u" "view ?u = (view s)\<lparr>a_cur := Some p, a_st := (a_st (view s))(p := PROC_RUNNING)\<rparr>"
    using view_upd [OF c(1), of p] assms(2) c(2) by simp_all
  then show "rq_ok (make_current p s)"
    "view (make_current p s) = (view s)\<lparr>a_cur := Some p, a_st := (a_st (view s))(p := PROC_RUNNING)\<rparr>"
    by (simp_all add: make_current_def Let_def tss_set_esp0_def)
qed

lemma view_dequeue:
  assumes "rq_ok s" "dequeue_ready s = (n, t)"
  shows "rq_ok t" "view t = (view s)\<lparr>a_queue := tl (a_queue (view s))\<rparr>" "or_idle n = a_pick (view s)" "valid_ref (or_idle n) t"
proof -
  note d = rq_fifo.deq_result [OF assms]
  show "rq_ok t" by (rule d)
  show "view t = (view s)\<lparr>a_queue := tl (a_queue (view s))\<rparr>"
    using d(3) core_eqD(1) [OF dequeue_core [OF assms]] dequeue_frame(1) [OF assms(2)] by (simp add: view_def)
  show "or_idle n = a_pick (view s)" using d(2) by (simp add: view_def a_pick_def or_idle_def split: list.splits)
  have "slot (hd (rq s))" if "rq s \<noteq> []"
    using rq_fifo.content_elements [OF assms(1)] that by (cases "rq s") auto
  then show "valid_ref (or_idle n) t"
    using d(2) slot_valid [OF _ pool_len [OF d(1)]] by (cases "rq s") (auto simp: or_idle_def valid_ref_def)
qed

text \<open>Dequeue and switch, the common end of every operation that gives up the processor.\<close>

lemma view_dispatch:
  assumes "rq_ok s" "dequeue_ready s = (n, t)"
  shows "rq_ok (snd (sched_switch_to (or_idle n) t))" "view (snd (sched_switch_to (or_idle n) t)) = a_run (view s)"
proof -
  note d = view_dequeue [OF assms]
  show "rq_ok (snd (sched_switch_to (or_idle n) t))" "view (snd (sched_switch_to (or_idle n) t)) = a_run (view s)"
    using view_make_current [OF d(1,4)] d(2,3) by (simp_all add: sched_switch_to_def Let_def a_run_def)
qed

lemma current_valid: "sched_inv s \<Longrightarrow> current s = Some c \<Longrightarrow> valid_ref c s"
  using slot_valid [OF _ pool_len] a_invD(5) [of "view s" c]
  by (cases "c = IdleP") (auto simp: sched_inv_def view_def valid_ref_def)

lemma view_requeue:
  assumes "rq_ok s" "c \<noteq> IdleP \<Longrightarrow> slot c" "c \<notin> set (rq s)"
  shows "rq_ok (requeue_current c s)" "view (requeue_current c s) = a_requeue c (view s)"
  using view_enqueue [OF assms(1) _ assms(3)] assms
  by (auto simp: requeue_current_def a_requeue_def) (simp_all add: view_def)

lemma count_0:
  assumes "rq_ok s"
  shows "rq_count s = 0 \<longleftrightarrow> rq s = []"
proof -
  have "length (rq s) \<le> 32" using slots_length assms by (auto simp: rq_ok_def rq_wf_def PROC_MAX_def)
  then have "unat (of_nat (length (rq s)) :: u32) = length (rq s)" by (simp add: unat_of_nat_u32)
  then show ?thesis using assms by (auto simp: rq_ok_def rq_wf_def simp flip: unat_eq_zero)
qed

text \<open>The common part of \<open>sched_do_switch_asm\<close> and \<open>sched_yield\<close>.\<close>

lemma view_rotate:
  assumes "rq_ok s" "a_inv (view s)" "current s = Some c" "dequeue_ready (requeue_current c s) = (n, t)"
  shows "view (if or_idle n = c then t else snd (sched_switch_to (or_idle n) (t\<lparr>irq_on := b\<rparr>))) = a_switch (view s)"
    "rq_ok (if or_idle n = c then t else snd (sched_switch_to (or_idle n) (t\<lparr>irq_on := b\<rparr>)))"
proof -
  have c: "c \<noteq> IdleP \<Longrightarrow> slot c" "c \<notin> set (rq s)"
    using a_invD(4,5) [OF assms(2), of c] assms(3) by (simp_all add: view_def)
  note q = view_requeue [OF assms(1) c]
  note d = view_dequeue [OF q(1) assms(4)]
  have r: "rq_ok (t\<lparr>irq_on := b\<rparr>)" "valid_ref (or_idle n) (t\<lparr>irq_on := b\<rparr>)" using d(1,4) by simp_all
  note m = view_make_current [OF r]
  have cur: "a_cur (view s) = Some c" using assms(3) by (simp add: view_def)
  show "view (if or_idle n = c then t else snd (sched_switch_to (or_idle n) (t\<lparr>irq_on := b\<rparr>))) = a_switch (view s)"
    "rq_ok (if or_idle n = c then t else snd (sched_switch_to (or_idle n) (t\<lparr>irq_on := b\<rparr>)))"
    using d q m cur by (simp_all add: a_switch_def Let_def sched_switch_to_def a_run_def)
qed

lemma switch_refines:
  assumes "sched_inv s"
  shows "view (snd (sched_do_switch_asm e s)) = a_switch (view s)" "rq_ok (snd (sched_do_switch_asm e s))"
proof -
  have ok: "rq_ok s" "a_inv (view s)" using assms by (simp_all add: sched_inv_def)
  have "view (snd (sched_do_switch_asm e s)) = a_switch (view s) \<and> rq_ok (snd (sched_do_switch_asm e s))"
  proof (cases "current s")
    case None
    then show ?thesis using ok by (simp add: sched_do_switch_asm_def a_switch_def view_def)
  next
    case (Some c)
    let ?u = "upd_pcb c (\<lambda>b. b\<lparr>p_kernel_esp := e\<rparr>) s"
    have v: "valid_ref c s" by (rule current_valid [OF assms Some])
    have u: "rq_ok ?u" "view ?u = view s"
      using view_upd [OF ok(1) v, of "\<lambda>b. b\<lparr>p_kernel_esp := e\<rparr>"] by (auto simp: view_def fun_eq_iff)
    obtain n t where nt: "dequeue_ready (requeue_current c ?u) = (n, t)" by fastforce
    have "t\<lparr>irq_on := irq_on t\<rparr> = t" by simp
    with view_rotate [OF u(1) _ _ nt, of "irq_on t"] u(2) ok(2) Some nt show ?thesis
      by (auto simp: sched_do_switch_asm_def Let_def)
  qed
  then show "view (snd (sched_do_switch_asm e s)) = a_switch (view s)" "rq_ok (snd (sched_do_switch_asm e s))" by simp_all
qed

lemma yield_refines:
  assumes "sched_inv s"
  shows "view (snd (sched_yield s)) = a_yield (view s)" "rq_ok (snd (sched_yield s))"
proof -
  have ok: "rq_ok s" "a_inv (view s)" using assms by (simp_all add: sched_inv_def)
  let ?u = "s\<lparr>irq_on := False\<rparr>"
  have q: "a_queue (view s) = [] \<longleftrightarrow> rq_count s = 0" using count_0 [OF ok(1)] by (simp add: view_def)
  have "view (snd (sched_yield s)) = a_yield (view s) \<and> rq_ok (snd (sched_yield s))"
  proof (cases "current s = None \<or> rq_count s = 0")
    case True
    then show ?thesis using ok q
      by (auto simp: sched_yield_def hal_irq_save_def hal_irq_restore_def a_yield_def a_switch_def view_def [of s] split: option.splits)
  next
    case False
    then obtain c where c: "current s = Some c" by auto
    obtain n t where nt: "dequeue_ready (requeue_current c ?u) = (n, t)" by fastforce
    from view_rotate [of ?u c n t "irq_on s"] ok c nt False q show ?thesis
      by (auto simp: sched_yield_def hal_irq_save_def hal_irq_restore_def a_yield_def Let_def)
  qed
  then show "view (snd (sched_yield s)) = a_yield (view s)" "rq_ok (snd (sched_yield s))" by simp_all
qed

lemma block_refines:
  assumes "sched_inv s"
  shows "view (snd (sched_block s)) = a_block (view s)" "rq_ok (snd (sched_block s))"
proof -
  have ok: "rq_ok s" "a_inv (view s)" using assms by (simp_all add: sched_inv_def)
  define u where "u = (case current s of
      Some c \<Rightarrow> if p_state (get_pcb c (s\<lparr>irq_on := False\<rparr>)) = PROC_RUNNING
                then upd_pcb c (\<lambda>b. b\<lparr>p_state := PROC_BLOCKED\<rparr>) (s\<lparr>irq_on := False\<rparr>)
                else s\<lparr>irq_on := False\<rparr> | None \<Rightarrow> s\<lparr>irq_on := False\<rparr>)"
  have v: "valid_ref c s" if "current s = Some c" for c by (rule current_valid [OF assms that])
  have u: "rq_ok u" "a_run (view u) = a_block (view s)"
    using ok v view_upd [of "s\<lparr>irq_on := False\<rparr>" _ "\<lambda>b. b\<lparr>p_state := PROC_BLOCKED\<rparr>"]
    by (auto simp: u_def a_block_def view_def [of s] split: option.splits)
  obtain n t where nt: "dequeue_ready u = (n, t)" by fastforce
  note d = view_dequeue [OF u(1) nt]
  have r: "rq_ok (t\<lparr>irq_on := irq_on s\<rparr>)" "valid_ref (or_idle n) (t\<lparr>irq_on := irq_on s\<rparr>)" using d(1,4) by simp_all
  have "sched_block s = sched_switch_to (or_idle n) (t\<lparr>irq_on := irq_on s\<rparr>)"
    using nt by (simp add: sched_block_def hal_irq_save_def hal_irq_restore_def Let_def u_def)
  with view_make_current [OF r] d(2,3) u(2)
  show "view (snd (sched_block s)) = a_block (view s)" "rq_ok (snd (sched_block s))"
    by (simp_all add: sched_switch_to_def Let_def a_run_def)
qed

lemma exit_refines:
  assumes "sched_inv s"
  shows "view (snd (sched_exit s)) = a_exit (view s)" "rq_ok (snd (sched_exit s))"
    "view (snd (sched_exit_asm s)) = a_exit (view s)" "rq_ok (snd (sched_exit_asm s))"
proof -
  have ok: "rq_ok s" "a_inv (view s)" using assms by (simp_all add: sched_inv_def)
  have *: "view (snd (sched_switch_to (or_idle n) (t\<lparr>irq_on := b\<rparr>))) = a_exit (view s) \<and>
      rq_ok (snd (sched_switch_to (or_idle n) (t\<lparr>irq_on := b\<rparr>)))"
    if c: "current s = Some c" "c \<noteq> IdleP" and u: "u = s \<or> u = s\<lparr>irq_on := False\<rparr>"
      and nt: "dequeue_ready (upd_pcb c (\<lambda>b. b\<lparr>p_state := PROC_FREE\<rparr>) u) = (n, t)" for c u n t b
  proof -
    have v: "valid_ref c u" "rq_ok u" "view u = view s"
      using current_valid [OF assms c(1)] ok(1) u by auto
    have k: "p_next (get_pcb c u\<lparr>p_state := PROC_FREE\<rparr>) = p_next (get_pcb c u)" by simp
    note w = view_upd [OF v(2,1), of "\<lambda>b. b\<lparr>p_state := PROC_FREE\<rparr>", OF k]
    note d = view_dequeue [OF w(1) nt]
    have r: "rq_ok (t\<lparr>irq_on := b\<rparr>)" "valid_ref (or_idle n) (t\<lparr>irq_on := b\<rparr>)" using d(1,4) by simp_all
    have "a_cur (view s) = Some c" using c by (simp add: view_def)
    with view_make_current [OF r] d(2,3) w(2) v(3) c(2) show ?thesis
      by (simp add: sched_switch_to_def Let_def a_run_def a_exit_def a_pick_def)
  qed
  have "(view (snd (sched_exit s)) = a_exit (view s) \<and> rq_ok (snd (sched_exit s))) \<and>
      (view (snd (sched_exit_asm s)) = a_exit (view s) \<and> rq_ok (snd (sched_exit_asm s)))"
  proof (cases "current s = None \<or> current s = Some IdleP")
    case True
    then show ?thesis using ok
      by (auto simp: sched_exit_def sched_exit_asm_def hal_irq_save_def hal_irq_restore_def a_exit_def view_def [of s])
  next
    case False
    then obtain c where c: "current s = Some c" "c \<noteq> IdleP" by auto
    obtain n t where nt: "dequeue_ready (upd_pcb c (\<lambda>b. b\<lparr>p_state := PROC_FREE\<rparr>) (s\<lparr>irq_on := False\<rparr>)) = (n, t)" by fastforce
    obtain n' t' where nt': "dequeue_ready (upd_pcb c (\<lambda>b. b\<lparr>p_state := PROC_FREE\<rparr>) s) = (n', t')" by fastforce
    have "t'\<lparr>irq_on := irq_on t'\<rparr> = t'" by simp
    with * [OF c _ nt, of "irq_on s"] * [OF c _ nt', of "irq_on t'"] c nt nt' show ?thesis
      by (simp add: sched_exit_def sched_exit_asm_def hal_irq_save_def hal_irq_restore_def)
  qed
  then show "view (snd (sched_exit s)) = a_exit (view s)" "rq_ok (snd (sched_exit s))"
    "view (snd (sched_exit_asm s)) = a_exit (view s)" "rq_ok (snd (sched_exit_asm s))" by simp_all
qed

lemma sched_get_pcb_Some:
  assumes "sched_get_pcb pid s = Some p"
  shows "slot p" "p_pid (get_pcb p s) = pid" "p_state (get_pcb p s) \<noteq> PROC_FREE"
  using assms by (auto simp: sched_get_pcb_def find_upt_Some get_pcb_def)

lemma unblock_refines:
  assumes "sched_inv s"
  shows "view (snd (sched_unblock pid s)) =
      (case sched_get_pcb pid s of Some p \<Rightarrow> if a_st (view s) p = PROC_BLOCKED then a_enq p (view s) else view s
       | None \<Rightarrow> view s)" "rq_ok (snd (sched_unblock pid s))"
    "fst (sched_unblock pid s) \<longleftrightarrow> (\<exists>p. sched_get_pcb pid s = Some p \<and> a_st (view s) p = PROC_BLOCKED)"
proof -
  have ok: "rq_ok s" "a_inv (view s)" using assms by (simp_all add: sched_inv_def)
  have nq: "p \<notin> set (rq s)" if "p_state (get_pcb p s) = PROC_BLOCKED" for p
    using a_invD(3) [OF ok(2), of p] that by (auto simp: view_def)
  have en: "view (enqueue_ready p s) = a_enq p (view s)" "rq_ok (enqueue_ready p s)"
    if "sched_get_pcb pid s = Some p" "p_state (get_pcb p s) = PROC_BLOCKED" for p
    using view_enqueue [OF ok(1) sched_get_pcb_Some(1) [OF that(1)] nq [OF that(2)]] by simp_all
  have st: "a_st (view s) p = p_state (get_pcb p s)" for p by (simp add: view_def)
  show "view (snd (sched_unblock pid s)) =
      (case sched_get_pcb pid s of Some p \<Rightarrow> if a_st (view s) p = PROC_BLOCKED then a_enq p (view s) else view s
       | None \<Rightarrow> view s)" "rq_ok (snd (sched_unblock pid s))"
    "fst (sched_unblock pid s) \<longleftrightarrow> (\<exists>p. sched_get_pcb pid s = Some p \<and> a_st (view s) p = PROC_BLOCKED)"
    using en ok(1) by (auto simp: sched_unblock_def st split: option.splits)
qed

lemma alloc_pcb_Some:
  "alloc_pcb s = Some i \<Longrightarrow> i < PROC_MAX \<and> p_state (get_pcb (Slot i) s) = PROC_FREE \<and>
     (\<forall>j<i. p_state (get_pcb (Slot j) s) \<noteq> PROC_FREE)"
  by (auto simp: alloc_pcb_def find_upt_Some get_pcb_def)

lemma alloc_pcb_None: "alloc_pcb s = None \<longleftrightarrow> (\<forall>i<PROC_MAX. p_state (get_pcb (Slot i) s) \<noteq> PROC_FREE)"
  by (auto simp: alloc_pcb_def find_upt_None get_pcb_def)

end
