(* ===== verification/Scheduler_Spec.thy ===== *)
theory Scheduler_Spec
  imports Scheduler
begin

text \<open>
  Process creation, the reachable states of the scheduler and its properties.
\<close>

unbundle bit_operations_syntax

section \<open>Stack frames\<close>

lemma offset_nz: "0 < k \<Longrightarrow> k < 1073741824 \<Longrightarrow> (4 * of_nat k :: u32) \<noteq> 0"
proof -
  assume k: "0 < k" "k < 1073741824"
  then have "unat (4 * of_nat k :: u32) = 4 * k" by (simp add: unat_word_ariths unat_of_nat_u32)
  with k show ?thesis by (metis mult_is_0 unat_0 not_less0 zero_neq_numeral)
qed

lemma push32_pair: "push32 v (sp, m) = (sp - 4, m(sp - 4 := v))"
  by (simp add: push32_def)

lemma push_all:
  assumes "fold push32 vs (sp, m) = (sp', m')" "length vs < 1073741824"
  shows "sp' = sp - 4 * of_nat (length vs)"
    "k < length vs \<Longrightarrow> m' (sp' + 4 * of_nat k) = rev vs ! k"
    "(\<And>k. k < length vs \<Longrightarrow> a \<noteq> sp' + 4 * of_nat k) \<Longrightarrow> m' a = m a"
proof -
  have "sp' = sp - 4 * of_nat (length vs) \<and> (\<forall>k < length vs. m' (sp' + 4 * of_nat k) = rev vs ! k) \<and>
    (\<forall>a. (\<forall>k < length vs. a \<noteq> sp' + 4 * of_nat k) \<longrightarrow> m' a = m a)"
    using assms
  proof (induction vs arbitrary: sp' m' rule: rev_induct)
    case (snoc v vs)
    obtain sp1 m1 where f: "fold push32 vs (sp, m) = (sp1, m1)" by fastforce
    with snoc.prems have s: "sp' = sp1 - 4" "m' = m1(sp1 - 4 := v)" by (auto simp: push32_pair)
    have len: "length vs < 1073741824" using snoc.prems by simp
    note ih = snoc.IH [OF f len]
    then have ih2: "m1 (sp1 + 4 * of_nat j) = rev vs ! j" if "j < length vs" for j using that by blast
    have "m' (sp' + 4 * of_nat k) = rev (vs @ [v]) ! k" if k: "k < length (vs @ [v])" for k
    proof (cases k)
      case (Suc j)
      have "(4 * of_nat k :: u32) \<noteq> 0" using k len Suc by (intro offset_nz) simp_all
      then have a1: "sp' + 4 * of_nat k \<noteq> sp1 - 4" unfolding s(1) by (simp only: add_cancel_left_right not_False_eq_True)
      have a2: "sp' + 4 * of_nat k = sp1 + 4 * of_nat j" using s(1) Suc by simp
      have "m' (sp' + 4 * of_nat k) = m1 (sp1 + 4 * of_nat j)"
        unfolding s(2) by (subst fun_upd_other [OF a1]) (simp only: a2)
      also have "\<dots> = rev vs ! j" using k Suc by (intro ih2) simp
      finally show ?thesis using Suc by simp
    qed (simp add: s)
    moreover have "m' a = m a" if a: "\<forall>k < length (vs @ [v]). a \<noteq> sp' + 4 * of_nat k" for a
    proof -
      have "a \<noteq> sp1 - 4" using a [rule_format, of 0] s by simp
      moreover have "a \<noteq> sp1 + 4 * of_nat j" if "j < length vs" for j
        using a [rule_format, of "Suc j"] that s by simp
      ultimately show ?thesis using ih s by simp
    qed
    moreover have "sp' = sp - 4 * of_nat (length (vs @ [v]))" using conjunct1 [OF ih] unfolding s(1) by (simp add: algebra_simps)
    ultimately show ?case by blast
  qed simp
  then show "sp' = sp - 4 * of_nat (length vs)" "k < length vs \<Longrightarrow> m' (sp' + 4 * of_nat k) = rev vs ! k"
    "(\<And>k. k < length vs \<Longrightarrow> a \<noteq> sp' + 4 * of_nat k) \<Longrightarrow> m' a = m a" by blast+
qed

text \<open>The first resumption from a frame that the kernel built.\<close>

definition start_cpu :: "u32 \<Rightarrow> cpu" where
  "start_cpu entry = \<lparr>r_gs = 0x10, r_fs = 0x10, r_es = 0x10, r_ds = 0x10, r_general = [0, 0, 0, 0, 0, 0, 0],
     r_eip = entry, r_cs = 0x08, r_eflags = 0x202, r_user_stack = None\<rparr>"

lemma frame_resume:
  assumes "fold push32 (iret_frame entry user_esp flags @ register_frame d) (sp, m0) = (esp, m)"
  shows "flags AND PROC_FLAG_USER = 0 \<Longrightarrow> d = GDT_SEL_KERNEL_DATA \<Longrightarrow>
           sched_restore_context m esp = Resumes (start_cpu entry)"
    "flags AND PROC_FLAG_USER \<noteq> 0 \<Longrightarrow> sched_restore_context m esp = GP_fault 0x38"
proof -
  let ?vs = "iret_frame entry user_esp flags @ register_frame d"
  have len: "length ?vs \<ge> 15" "length ?vs < 1073741824" by (simp_all add: iret_frame_def register_frame_def)
  have w: "m (esp + 4 * of_nat k) = rev ?vs ! k" if "k < 15" for k
    using push_all(2) [OF assms len(2)] that len(1) by simp
  have rv: "rev ?vs = [d, d, d, d, 0, 0, 0, 0, 0, 0, 0, 0] @ rev (iret_frame entry user_esp flags)"
    by (simp add: register_frame_def eval_nat_numeral)
  note ws = w [of 0] w [of 1] w [of 2] w [of 3] w [of 4] w [of 5] w [of 6] w [of 7] w [of 8] w [of 9]
    w [of 10] w [of 11] w [of 12] w [of 13] w [of 14]
  have regs: "m esp = d" "m (4 + esp) = d" "m (8 + esp) = d" "m (12 + esp) = d" "m (16 + esp) = 0" "m (20 + esp) = 0"
    "m (24 + esp) = 0" "m (32 + esp) = 0" "m (36 + esp) = 0" "m (40 + esp) = 0" "m (44 + esp) = 0"
    "m (48 + esp) = entry" "m (52 + esp) = (if flags AND PROC_FLAG_USER = 0 then 8 else 0x38)"
    "m (56 + esp) = 0x202"
    using ws unfolding rv by (simp_all add: add.commute iret_frame_def sched_consts)
  show "flags AND PROC_FLAG_USER = 0 \<Longrightarrow> d = GDT_SEL_KERNEL_DATA \<Longrightarrow>
      sched_restore_context m esp = Resumes (start_cpu entry)"
    using regs by (simp add: sched_restore_context_def iret_def start_cpu_def GDT_SEL_KERNEL_DATA_def
        seg_dpl_def Let_def add.commute [of esp])
  show "flags AND PROC_FLAG_USER \<noteq> 0 \<Longrightarrow> sched_restore_context m esp = GP_fault 0x38"
    using regs by (simp add: sched_restore_context_def iret_def seg_dpl_def Let_def add.commute [of esp])
qed

section \<open>Process creation\<close>

lemma create_ok:
  assumes inv: "sched_inv s" and i: "alloc_pcb s = Some i" and np: "next_pid s \<noteq> 0"
    and t: "sched_create_process base name entry user_esp flags s = (r, t)"
  defines "user \<equiv> flags AND PROC_FLAG_USER \<noteq> 0"
  shows "r = sint (next_pid s)" "next_pid t = next_pid s + 1" "rq_ok t" "view t = a_enq (Slot i) (view s)"
    "q \<noteq> Slot i \<Longrightarrow> core (get_pcb q t) = core (get_pcb q s)" "p_pid (get_pcb (Slot i) t) = next_pid s"
    "p_kernel_esp_top (get_pcb (Slot i) t) = base + 2048 * of_nat (i + 1)" "p_flags (get_pcb (Slot i) t) = flags"
    "p_time_slice (get_pcb (Slot i) t) = 30"
    "2048 \<le> a - (base + 2048 * of_nat i) \<Longrightarrow> kmem t a = kmem s a"
    "sched_restore_context (kmem t) (p_kernel_esp (get_pcb (Slot i) t)) =
       (if user then GP_fault 0x38 else Resumes (start_cpu entry))"
proof -
  note al = alloc_pcb_Some [OF i]
  have ok: "rq_ok s" "a_inv (view s)" using inv by (simp_all add: sched_inv_def)
  have sl: "slot (Slot i)" using al by simp
  have nq: "Slot i \<notin> set (rq s)" using a_invD(3) [OF ok(2), of "Slot i"] al by (auto simp: view_def)
  define vs where "vs = iret_frame entry user_esp flags @ register_frame (if user then GDT_SEL_USER_DATA else GDT_SEL_KERNEL_DATA)"
  define top where "top = base + 2048 * of_nat (i + 1)"
  obtain esp m where em: "fold push32 vs (top, kmem s) = (esp, m)" by fastforce
  define s1 where "s1 = s\<lparr>next_pid := next_pid s + 1, kmem := m\<rparr>"
  define f where "f = (\<lambda>b :: pcb. b\<lparr>p_pid := next_pid s, p_state := PROC_READY, p_flags := flags,
                 p_time_slice := PROC_TIME_SLICE_DEFAULT, p_ticks_remaining := PROC_TIME_SLICE_DEFAULT,
                 p_total_ticks := 0, p_next := None, p_page_dir := 0, p_name := copy_name name (p_name b),
                 p_ss := if user then GDT_SEL_USER_DATA else GDT_SEL_KERNEL_DATA, p_esp := (if user then user_esp else 0),
                 p_kernel_esp := esp, p_kernel_esp_top := top\<rparr>)"
  have rt: "r = sint (next_pid s)" "t = enqueue_ready (Slot i) (upd_pcb (Slot i) f s1)"
    using t np em unfolding sched_create_process_def i vs_def user_def top_def f_def s1_def by (simp_all add: Let_def)
  then show "r = sint (next_pid s)" by simp
  have s1: "rq_ok s1" "rq s1 = rq s" "view s1 = view s" "get_pcb q s1 = get_pcb q s" for q
    using rq_cong [OF ok(1), of s1] by (auto simp: s1_def view_def)
  have v1: "valid_ref (Slot i) s1" by (rule slot_valid [OF sl pool_len [OF s1(1)]])
  have u: "rq_ok (upd_pcb (Slot i) f s1)"
    "view (upd_pcb (Slot i) f s1) = (view s)\<lparr>a_st := (a_st (view s))(Slot i := PROC_READY)\<rparr>"
    using view_upd [OF s1(1) v1, of f] nq s1(2,3) by (simp_all add: f_def)
  have nu: "Slot i \<notin> set (rq (upd_pcb (Slot i) f s1))"
    using nq arg_cong [OF u(2), of a_queue] by (simp add: view_def)
  note en = view_enqueue [OF u(1) sl nu]
  show "rq_ok t" "view t = a_enq (Slot i) (view s)" using en u(2) by (simp_all add: rt(2) a_enq_def)
  have co: "core (get_pcb q t) = (if q = Slot i then (core (f (get_pcb (Slot i) s)))\<lparr>p_state := PROC_READY\<rparr>
      else core (get_pcb q s))" for q
    using enqueue_core [OF u(1) sl, of q] v1 s1(4) by (simp add: rt(2))
  show "q \<noteq> Slot i \<Longrightarrow> core (get_pcb q t) = core (get_pcb q s)" using co by simp
  have ci: "core (get_pcb (Slot i) t) = (core (f (get_pcb (Slot i) s)))\<lparr>p_state := PROC_READY\<rparr>" using co by simp
  show "p_pid (get_pcb (Slot i) t) = next_pid s"
    using arg_cong [OF ci, of p_pid] by (simp add: core_def f_def)
  show "p_kernel_esp_top (get_pcb (Slot i) t) = base + 2048 * of_nat (i + 1)"
    using arg_cong [OF ci, of p_kernel_esp_top] by (simp add: core_def f_def top_def)
  show "p_flags (get_pcb (Slot i) t) = flags" using arg_cong [OF ci, of p_flags] by (simp add: core_def f_def)
  show "p_time_slice (get_pcb (Slot i) t) = 30"
    using arg_cong [OF ci, of p_time_slice] by (simp add: core_def f_def sched_consts)
  have esp: "p_kernel_esp (get_pcb (Slot i) t) = esp"
    using arg_cong [OF ci, of p_kernel_esp] by (simp add: core_def f_def)
  have km: "kmem t = m" "next_pid t = next_pid s + 1" by (simp_all add: rt(2) enqueue_frame s1_def)
  then show "next_pid t = next_pid s + 1" by simp
  have len: "length vs \<le> 17" "length vs < 1073741824" by (simp_all add: vs_def iret_frame_def register_frame_def)
  show "kmem t a = kmem s a" if "2048 \<le> a - (base + 2048 * of_nat i)"
    unfolding km
  proof (rule push_all(3) [OF em len(2)])
    fix k assume k: "k < length vs"
    have "esp + 4 * of_nat k - (base + 2048 * of_nat i) = of_nat (2048 - 4 * length vs + 4 * k)"
      using push_all(1) [OF em len(2)] len(1) by (simp add: top_def algebra_simps)
    moreover have "2048 - 4 * length vs + 4 * k < 2048" using k len(1) by simp
    ultimately have "unat (esp + 4 * of_nat k - (base + 2048 * of_nat i)) < 2048" by (simp only: unat_of_nat_u32)
    with that show "a \<noteq> esp + 4 * of_nat k" by (auto simp: word_le_nat_alt)
  qed
  show "sched_restore_context (kmem t) (p_kernel_esp (get_pcb (Slot i) t)) =
       (if user then GP_fault 0x38 else Resumes (start_cpu entry))"
    using frame_resume [OF em [unfolded vs_def]] unfolding km esp user_def by simp
qed

section \<open>Reachable states\<close>

lemma view_start:
  assumes "rq_ok s" "a_queue (view s) \<noteq> []"
  shows "rq_ok (snd (sched_start ist idl s))" "view (snd (sched_start ist idl s)) = a_run (view s)"
proof -
  let ?u = "s\<lparr>irq_on := False\<rparr>"
  obtain n t where nt: "dequeue_ready ?u = (n, t)" by fastforce
  have u: "rq_ok ?u" "view ?u = view s" using assms(1) by simp_all
  note d = view_dequeue [OF u(1) nt]
  obtain f where f: "n = Some f"
    using rq_fifo.deq_result(2) [OF u(1) nt] assms(2) by (cases "rq s") (auto simp: view_def)
  obtain isp m where im: "fold push32 (iret_frame idl 0 PROC_FLAG_KERNEL @ register_frame GDT_SEL_KERNEL_DATA)
      (ist + 2048, kmem t) = (isp, m)" by fastforce
  define w where "w = upd_pcb IdleP (\<lambda>b. b\<lparr>p_kernel_esp_top := ist + 2048, p_kernel_esp := isp\<rparr>) (t\<lparr>kmem := m\<rparr>)"
  have k: "rq_ok (t\<lparr>kmem := m\<rparr>)" "view (t\<lparr>kmem := m\<rparr>) = view t"
    using rq_cong [OF d(1), of "t\<lparr>kmem := m\<rparr>"] by (simp_all add: view_def)
  have wf: "valid_ref f w" using d(4) f by (simp add: w_def or_idle_def)
  have iv: "valid_ref IdleP (t\<lparr>kmem := m\<rparr>)" by (simp add: valid_ref_def)
  have w: "rq_ok w" "view w = view t"
    using view_upd [OF k(1) iv, of "\<lambda>b. b\<lparr>p_kernel_esp_top := ist + 2048, p_kernel_esp := isp\<rparr>"] k(2)
    by (auto simp: w_def view_def fun_eq_iff)
  have "snd (sched_start ist idl s) = (make_current f w)\<lparr>irq_on := irq_on s\<rparr>"
    using nt im by (simp add: sched_start_def hal_irq_save_def hal_irq_restore_def f w_def Let_def)
  with view_make_current [OF w(1) wf] w(2) d(2,3) u(2) f
  show "rq_ok (snd (sched_start ist idl s))" "view (snd (sched_start ist idl s)) = a_run (view s)"
    by (simp_all add: a_run_def or_idle_def)
qed

lemma view_tick:
  assumes "sched_inv s"
  shows "rq_ok (sched_tick s)" "view (sched_tick s) = view s"
proof -
  have ok: "rq_ok s" using assms by (simp add: sched_inv_def)
  have v: "valid_ref c s" if "current s = Some c" for c by (rule current_valid [OF assms that])
  let ?f = "\<lambda>b :: pcb. b\<lparr>p_ticks_remaining := p_ticks_remaining b - 1, p_total_ticks := p_total_ticks b + 1\<rparr>"
  have "rq_ok (upd_pcb c ?f s)" "view (upd_pcb c ?f s) = view s" if "current s = Some c" for c
    using view_upd [OF ok v [OF that], of ?f] by (auto simp: view_def fun_eq_iff)
  then show "rq_ok (sched_tick s)" "view (sched_tick s) = view s"
    using ok by (auto simp: sched_tick_def split: option.splits)
qed

text \<open>
  The steps of the running system: the timer interrupt counts and may switch, processes yield, block,
  exit and are created and unblocked.  \<open>sched_start\<close> is taken from the boot thread only, when the
  current process is the idle one.
\<close>

inductive sched_step :: "u32 \<Rightarrow> u32 \<Rightarrow> u32 \<Rightarrow> sched \<Rightarrow> sched \<Rightarrow> bool" for pool ist idl where
  step_tick: "sched_step pool ist idl s (sched_tick s)"
| step_switch: "sched_need_resched s \<Longrightarrow> sched_step pool ist idl s (snd (sched_do_switch_asm esp s))"
| step_yield: "sched_step pool ist idl s (snd (sched_yield s))"
| step_block: "sched_step pool ist idl s (snd (sched_block s))"
| step_unblock: "sched_step pool ist idl s (snd (sched_unblock pid s))"
| step_create: "next_pid s \<noteq> 0 \<Longrightarrow> sched_step pool ist idl s (snd (sched_create_process pool name entry uesp flags s))"
| step_exit: "sched_step pool ist idl s (snd (sched_exit s))"
| step_exit_asm: "sched_step pool ist idl s (snd (sched_exit_asm s))"
| step_start: "current s = Some IdleP \<Longrightarrow> sched_step pool ist idl s (snd (sched_start ist idl s))"

inductive sched_reach :: "u32 \<Rightarrow> u32 \<Rightarrow> u32 \<Rightarrow> sched \<Rightarrow> sched \<Rightarrow> bool" for pool ist idl where
  reach_refl: "sched_reach pool ist idl s s"
| reach_step: "sched_reach pool ist idl s t \<Longrightarrow> sched_step pool ist idl t u \<Longrightarrow> sched_reach pool ist idl s u"

inductive_cases sched_stepE: "sched_step pool ist idl s t"

text \<open>A step, seen from above.\<close>

inductive a_step :: "abs_sched \<Rightarrow> abs_sched \<Rightarrow> bool" where
  "a_step a a"
| "a_step a (a_switch a)"
| "a_step a (a_yield a)"
| "a_step a (a_block a)"
| "a_step a (a_exit a)"
| "slot p \<Longrightarrow> a_st a p = PROC_BLOCKED \<or> a_st a p = PROC_FREE \<Longrightarrow> a_step a (a_enq p a)"
| "a_cur a = Some IdleP \<Longrightarrow> a_step a (a_run a)"

lemma step_refines:
  assumes "sched_inv s" "sched_step pool ist idl s t"
  shows "a_step (view s) (view t)" "rq_ok t"
proof -
  have ok: "rq_ok s" using assms(1) by (simp add: sched_inv_def)
  have "a_step (view s) (view t) \<and> rq_ok t"
    using assms(2)
  proof (cases rule: sched_step.cases)
    case step_tick
    then show ?thesis using view_tick [OF assms(1)] by (simp add: a_step.intros)
  next
    case step_switch
    then show ?thesis using switch_refines [OF assms(1)] by (simp add: a_step.intros)
  next
    case step_yield
    then show ?thesis using yield_refines [OF assms(1)] by (simp add: a_step.intros)
  next
    case step_block
    then show ?thesis using block_refines [OF assms(1)] by (simp add: a_step.intros)
  next
    case (step_unblock pid)
    then show ?thesis
      using unblock_refines(1,2) [OF assms(1), of pid] sched_get_pcb_Some(1) [of pid s]
      by (auto simp: a_step.intros split: option.splits)
  next
    case (step_create name entry uesp flags)
    show ?thesis
    proof (cases "alloc_pcb s")
      case None
      then show ?thesis using step_create ok by (simp add: sched_create_process_def a_step.intros)
    next
      case (Some i)
      obtain r u where "sched_create_process pool name entry uesp flags s = (r, u)" by fastforce
      with create_ok(3,4) [OF assms(1) Some step_create(2) this] alloc_pcb_Some [OF Some] step_create
      show ?thesis by (auto simp: view_def intro!: a_step.intros)
    qed
  next
    case step_exit
    then show ?thesis using exit_refines [OF assms(1)] by (simp add: a_step.intros)
  next
    case step_exit_asm
    then show ?thesis using exit_refines [OF assms(1)] by (simp add: a_step.intros)
  next
    case step_start
    show ?thesis
    proof (cases "a_queue (view s) = []")
      case True
      then have "dequeue_ready (s\<lparr>irq_on := False\<rparr>) = (None, s\<lparr>irq_on := False\<rparr>)"
        using rq_fifo.deq_empty [of "s\<lparr>irq_on := False\<rparr>"] ok by (simp add: view_def)
      then show ?thesis using step_start ok
        by (simp add: sched_start_def hal_irq_save_def hal_irq_restore_def a_step.intros)
    next
      case False
      then show ?thesis using view_start [OF ok] step_start by (auto simp: view_def [of s] intro!: a_step.intros)
    qed
  qed
  then show "a_step (view s) (view t)" "rq_ok t" by simp_all
qed

lemma a_step_inv:
  assumes "a_inv a" "a_step a b"
  shows "a_inv b"
proof -
  note d = a_invD [OF assms(1)]
  have run: "a_inv (a_run (a\<lparr>a_st := (a_st a)(c := q)\<rparr>))" if "a_cur a = Some c" "q \<noteq> PROC_RUNNING" for c q
  proof (rule a_run_inv)
    fix p assume "p \<in> set (a_queue (a\<lparr>a_st := (a_st a)(c := q)\<rparr>))"
    then show "slot p \<and> a_st (a\<lparr>a_st := (a_st a)(c := q)\<rparr>) p = PROC_READY"
      using d(2,3,4) that by auto
  next
    fix p assume "slot p"
    then show "a_st (a\<lparr>a_st := (a_st a)(c := q)\<rparr>) p \<noteq> PROC_RUNNING" using d(7) that by auto
  qed (simp add: d(1))
  have run': "a_inv (a_run a)" if "\<And>p. slot p \<Longrightarrow> a_st a p \<noteq> PROC_RUNNING"
    using that d(1-3) by (intro a_run_inv) auto
  have idle: "a_st a p \<noteq> PROC_RUNNING" if "a_cur a = Some IdleP \<or> a_cur a = None" "slot p" for p
    using d(7) [OF that(2)] that by auto
  show ?thesis
    using assms(2)
  proof (cases rule: a_step.cases)
    case 3
    then show ?thesis using assms(1) a_switch_inv by (simp add: a_yield_def)
  next
    case 4
    show ?thesis
    proof (cases "a_cur a")
      case (Some c)
      show ?thesis
      proof (cases "a_st a c = PROC_RUNNING")
        case False
        then have "a_st a p \<noteq> PROC_RUNNING" if "slot p" for p using d(7) [OF that] Some by auto
        with run' False Some 4 show ?thesis by (simp add: a_block_def)
      qed (use run [OF Some] 4 Some in \<open>simp add: a_block_def\<close>)
    qed (use run' idle 4 in \<open>simp add: a_block_def\<close>)
  next
    case 5
    then show ?thesis using run assms(1) by (simp add: a_exit_def split: option.splits)
  next
    case (6 p)
    then show ?thesis using a_enq_inv [OF assms(1)] by auto
  next
    case 7
    then show ?thesis using run' idle by simp
  qed (use assms(1) a_switch_inv in simp_all)
qed

lemma step_inv: "sched_inv s \<Longrightarrow> sched_step pool ist idl s t \<Longrightarrow> sched_inv t"
  using step_refines [of s pool ist idl t] a_step_inv [of "view s" "view t"] by (simp add: sched_inv_def)

lemma reach_inv: "sched_reach pool ist idl s t \<Longrightarrow> sched_inv s \<Longrightarrow> sched_inv t"
  by (induction rule: sched_reach.induct) (auto intro: step_inv)

lemma init_inv:
  assumes "length (pcb_pool s) = PROC_MAX"
  shows "sched_inv (sched_init s)" "rq (sched_init s) = []"
proof -
  have wf: "rq_wf (sched_init s) []" using assms by (simp add: rq_wf_def sched_init_def)
  then show q: "rq (sched_init s) = []" by (rule rq_wf_rq)
  have "p_state (get_pcb p (sched_init s)) \<noteq> PROC_RUNNING" if "slot p" for p
    using that assms by (auto simp: slot_def get_pcb_def sched_init_def)
  then show "sched_inv (sched_init s)"
    unfolding sched_inv_def using rq_wfI [OF wf] q
    by (intro conjI a_invI) (auto simp: view_def sched_init_def)
qed

section \<open>A process that is neither queued nor current\<close>

definition lost :: "pref \<Rightarrow> abs_sched \<Rightarrow> bool" where
  "lost p a \<longleftrightarrow> slot p \<and> a_st a p = PROC_READY \<and> p \<notin> set (a_queue a) \<and> a_cur a \<noteq> Some p"

lemma lost_run: "lost p a \<Longrightarrow> lost p (a_run a)"
  using slot_not_idle [of p] by (cases "a_queue a") (auto simp: lost_def a_run_def a_pick_def)

lemma lost_step:
  assumes "a_step a b" "lost p a"
  shows "lost p b"
proof -
  have sw: "lost p (a_switch a)"
  proof (cases "a_cur a")
    case (Some c)
    have "lost p (a_requeue c a)" using assms(2) Some by (auto simp: lost_def a_requeue_def a_enq_def)
    then show ?thesis using Some lost_run [of p "a_requeue c a"]
      by (auto simp: a_switch_def Let_def lost_def dest: in_tl)
  qed (use assms(2) in \<open>simp add: a_switch_def\<close>)
  have up: "lost p (a\<lparr>a_st := (a_st a)(c := q)\<rparr>)" if "a_cur a = Some c" for c q
    using assms(2) that by (auto simp: lost_def)
  show ?thesis
    using assms(1)
  proof (cases rule: a_step.cases)
    case 4
    then show ?thesis using assms(2) up by (auto simp: a_block_def intro!: lost_run split: option.splits)
  next
    case 5
    then show ?thesis using assms(2) up by (auto simp: a_exit_def intro!: lost_run split: option.splits)
  next
    case (6 q)
    then show ?thesis using assms(2) by (auto simp: lost_def a_enq_def)
  qed (use assms(2) sw lost_run in \<open>auto simp: a_yield_def\<close>)
qed

lemma lost_forever:
  "sched_reach pool ist idl s t \<Longrightarrow> sched_inv s \<Longrightarrow> lost p (view s) \<Longrightarrow> lost p (view t)"
  by (induction rule: sched_reach.induct) (auto intro: lost_step step_refines reach_inv)

section \<open>Round robin\<close>

definition ring :: "abs_sched \<Rightarrow> pref list" where
  "ring a = (case a_cur a of Some c \<Rightarrow> c # a_queue a | None \<Rightarrow> a_queue a)"

definition busy :: "abs_sched \<Rightarrow> bool" where
  "busy a \<longleftrightarrow> a_queue a \<noteq> [] \<and> (\<exists>c. a_cur a = Some c \<and> slot c \<and> a_st a c = PROC_RUNNING)"

lemma a_switch_busy:
  assumes "a_inv a" "busy a"
  shows "busy (a_switch a) \<and> ring (a_switch a) = rotate1 (ring a)"
proof -
  obtain c where c: "a_cur a = Some c" "slot c" "a_st a c = PROC_RUNNING" using assms(2) by (auto simp: busy_def)
  obtain x xs where x: "a_queue a = x # xs" using assms(2) by (cases "a_queue a") (auto simp: busy_def)
  have "c \<noteq> IdleP" "x \<noteq> c" "slot x"
    using c x slot_not_idle a_invD(2,4) [OF assms(1)] by auto
  then show ?thesis using c x
    by (simp add: a_switch_def a_requeue_def a_enq_def a_pick_def a_run_def busy_def ring_def Let_def)
qed

definition switches :: "u32 list \<Rightarrow> sched \<Rightarrow> sched" where
  "switches es s = fold (\<lambda>e s. snd (sched_do_switch_asm e s)) es s"

lemma switches_ring:
  assumes "sched_inv s" "busy (view s)"
  shows "sched_inv (switches es s) \<and> busy (view (switches es s)) \<and> ring (view (switches es s)) = rotate (length es) (ring (view s))"
  using assms
proof (induction es rule: rev_induct)
  case (snoc e es)
  let ?t = "switches es s"
  have t: "sched_inv ?t" "busy (view ?t)" "ring (view ?t) = rotate (length es) (ring (view s))"
    using snoc by simp_all
  have "sched_inv (snd (sched_do_switch_asm e ?t))"
    using switch_refines [OF t(1), of e] a_switch_inv t(1) by (simp add: sched_inv_def)
  moreover have "switches (es @ [e]) s = snd (sched_do_switch_asm e ?t)" by (simp add: switches_def)
  ultimately show ?case
    using a_switch_busy [of "view ?t"] switch_refines(1) [OF t(1), of e] t by (simp add: sched_inv_def)
qed (simp add: switches_def)

section \<open>What a context switch saves and resumes\<close>

lemma make_current_core:
  assumes "valid_ref p s"
  shows "p_kernel_esp (get_pcb q (make_current p s)) = p_kernel_esp (get_pcb q s)" "kmem (make_current p s) = kmem s"
  using assms by (simp_all add: make_current_def Let_def tss_set_esp0_def)

lemma requeue_core:
  assumes "rq_ok s" "c \<noteq> IdleP \<Longrightarrow> slot c"
  shows "p_kernel_esp (get_pcb q (requeue_current c s)) = p_kernel_esp (get_pcb q s)" "kmem (requeue_current c s) = kmem s"
  using arg_cong [OF enqueue_core [OF assms(1), of c q], of p_kernel_esp] assms
  by (auto simp: requeue_current_def enqueue_frame core_def split: if_splits)

text \<open>The kernel stack pointers after the common part of switch and yield.\<close>

lemma rotate_contexts:
  assumes "rq_ok u" "a_inv (view u)" "current u = Some c" "dequeue_ready (requeue_current c u) = (n, t)"
  shows "p_kernel_esp (get_pcb q (snd (sched_switch_to (or_idle n) (t\<lparr>irq_on := b\<rparr>)))) = p_kernel_esp (get_pcb q u)"
    "fst (sched_switch_to (or_idle n) (t\<lparr>irq_on := b\<rparr>)) = sched_restore_context (kmem u) (p_kernel_esp (get_pcb (or_idle n) u))"
proof -
  have c: "c \<noteq> IdleP \<Longrightarrow> slot c" "c \<notin> set (rq u)"
    using a_invD(4,5) [OF assms(2), of c] assms(3) by (simp_all add: view_def)
  note q = view_requeue [OF assms(1) c]
  note d = view_dequeue [OF q(1) assms(4)]
  note k = core_eqD(2) [OF dequeue_core [OF q(1) assms(4)]] requeue_core [OF assms(1) c(1)] dequeue_frame(2) [OF assms(4)]
  have v: "valid_ref (or_idle n) (t\<lparr>irq_on := b\<rparr>)" using d(4) by simp
  show "p_kernel_esp (get_pcb q (snd (sched_switch_to (or_idle n) (t\<lparr>irq_on := b\<rparr>)))) = p_kernel_esp (get_pcb q u)"
    "fst (sched_switch_to (or_idle n) (t\<lparr>irq_on := b\<rparr>)) = sched_restore_context (kmem u) (p_kernel_esp (get_pcb (or_idle n) u))"
    using make_current_core [OF v] k by (simp_all add: sched_switch_to_def Let_def)
qed

text \<open>A switch with a waiting process.\<close>

lemma switch_contexts_aux:
  assumes "sched_inv s" "current s = Some c" "rq s = x # xs"
  shows "fst (sched_do_switch_asm esp s) = sched_restore_context (kmem s) (p_kernel_esp (get_pcb x s)) \<and>
    p_kernel_esp (get_pcb c (snd (sched_do_switch_asm esp s))) = esp \<and>
    (q \<noteq> c \<longrightarrow> p_kernel_esp (get_pcb q (snd (sched_do_switch_asm esp s))) = p_kernel_esp (get_pcb q s)) \<and>
    current (snd (sched_do_switch_asm esp s)) = Some x"
proof -
  have ok: "rq_ok s" "a_inv (view s)" using assms(1) by (simp_all add: sched_inv_def)
  let ?u = "upd_pcb c (\<lambda>b. b\<lparr>p_kernel_esp := esp\<rparr>) s"
  have v: "valid_ref c s" by (rule current_valid [OF assms(1,2)])
  have u: "rq_ok ?u" "view ?u = view s"
    using view_upd [OF ok(1) v, of "\<lambda>b. b\<lparr>p_kernel_esp := esp\<rparr>"] by (auto simp: view_def fun_eq_iff)
  obtain n t where nt: "dequeue_ready (requeue_current c ?u) = (n, t)" by fastforce
  have c: "c \<noteq> IdleP \<Longrightarrow> slot c" "c \<notin> set (rq ?u)" "c \<notin> set (rq s)"
    using a_invD(4,5) [OF ok(2), of c] assms(2) arg_cong [OF u(2), of a_queue] by (simp_all add: view_def)
  note q = view_requeue [OF u(1) c(1,2)]
  have "a_queue (view s) = x # xs" using assms(3) by (simp add: view_def)
  then have "or_idle n = x"
    using view_dequeue(3) [OF q(1) nt] q(2) u(2) by (simp add: a_pick_def a_requeue_def a_enq_def)
  moreover have x: "x \<noteq> c" using c(3) assms(3) by auto
  moreover have "t\<lparr>irq_on := irq_on t\<rparr> = t" by simp
  ultimately have "sched_do_switch_asm esp s = sched_switch_to x t"
    "fst (sched_switch_to x t) = sched_restore_context (kmem s) (p_kernel_esp (get_pcb x s))"
    "p_kernel_esp (get_pcb q (snd (sched_switch_to x t))) = p_kernel_esp (get_pcb q ?u)" for q
    using assms(2) nt rotate_contexts [OF u(1) _ _ nt, where b = "irq_on t"] u(2) ok(2) v
    by (simp_all add: sched_do_switch_asm_def Let_def)
  moreover have "current (snd (sched_switch_to x t)) = Some x"
    by (simp add: sched_switch_to_def make_current_def Let_def tss_set_esp0_def)
  ultimately show ?thesis using v by simp
qed

text \<open>A switch that finds nobody else.\<close>

lemma sole_switch:
  assumes "sched_inv s" "current s = Some (Slot i)" "p_state (get_pcb (Slot i) s) = PROC_RUNNING" "rq s = []"
  shows "fst (sched_do_switch_asm e s) = Returns \<and>
    p_ticks_remaining (get_pcb (Slot i) (snd (sched_do_switch_asm e s))) = p_ticks_remaining (get_pcb (Slot i) s)"
proof -
  have ok: "rq_ok s" "a_inv (view s)" using assms(1) by (simp_all add: sched_inv_def)
  let ?u = "upd_pcb (Slot i) (\<lambda>b. b\<lparr>p_kernel_esp := e\<rparr>) s"
  have v: "valid_ref (Slot i) s" by (rule current_valid [OF assms(1,2)])
  have u: "rq_ok ?u" "view ?u = view s"
    using view_upd [OF ok(1) v, of "\<lambda>b. b\<lparr>p_kernel_esp := e\<rparr>"] by (auto simp: view_def fun_eq_iff)
  have sl: "slot (Slot i)" using a_invD(5) [OF ok(2)] assms(2) by (simp add: view_def)
  have nq: "Slot i \<notin> set (rq ?u)" "a_queue (view ?u) = []" using arg_cong [OF u(2), of a_queue] assms(4) by (simp_all add: view_def)
  note en = view_enqueue [OF u(1) sl nq(1)]
  obtain n t where nt: "dequeue_ready (enqueue_ready (Slot i) ?u) = (n, t)" by fastforce
  have "or_idle n = Slot i" using view_dequeue(3) [OF en(1) nt] en(2) nq(2) by (simp add: a_enq_def a_pick_def)
  moreover have "p_ticks_remaining (get_pcb (Slot i) t) = p_ticks_remaining (get_pcb (Slot i) s)"
    using arg_cong [OF dequeue_core [OF en(1) nt, of "Slot i"], of p_ticks_remaining]
      arg_cong [OF enqueue_core [OF u(1) sl, of "Slot i"], of p_ticks_remaining] v by (simp add: core_def)
  ultimately show ?thesis
    using assms(2,3) nt v by (simp add: sched_do_switch_asm_def requeue_current_def Let_def)
qed

lemma tick_once:
  assumes "current t = Some (Slot i)" "i < length (pcb_pool t)"
  shows "current (sched_tick t) = Some (Slot i)" "length (pcb_pool (sched_tick t)) = length (pcb_pool t)"
    "unat (p_ticks_remaining (get_pcb (Slot i) (sched_tick t))) = unat (p_ticks_remaining (get_pcb (Slot i) t)) - 1"
proof -
  have v: "valid_ref (Slot i) t" using assms(2) by (simp add: valid_ref_def)
  show "current (sched_tick t) = Some (Slot i)" "length (pcb_pool (sched_tick t)) = length (pcb_pool t)"
    using assms(1) by (simp_all add: sched_tick_def)
  show "unat (p_ticks_remaining (get_pcb (Slot i) (sched_tick t))) = unat (p_ticks_remaining (get_pcb (Slot i) t)) - 1"
    using assms(1) v unat_minus_one [of "p_ticks_remaining (get_pcb (Slot i) t)"]
    by (auto simp: sched_tick_def word_gt_0)
qed

lemma ticks:
  assumes "current s = Some (Slot i)" "i < length (pcb_pool s)"
  shows "current ((sched_tick ^^ n) s) = Some (Slot i)"
    "unat (p_ticks_remaining (get_pcb (Slot i) ((sched_tick ^^ n) s))) = unat (p_ticks_remaining (get_pcb (Slot i) s)) - n"
    "sched_need_resched ((sched_tick ^^ n) s) \<longleftrightarrow> unat (p_ticks_remaining (get_pcb (Slot i) s)) \<le> n"
proof -
  have *: "current ((sched_tick ^^ n) s) = Some (Slot i) \<and> length (pcb_pool ((sched_tick ^^ n) s)) = length (pcb_pool s) \<and>
      unat (p_ticks_remaining (get_pcb (Slot i) ((sched_tick ^^ n) s))) = unat (p_ticks_remaining (get_pcb (Slot i) s)) - n"
  proof (induction n)
    case (Suc n)
    then show ?case using tick_once [of "(sched_tick ^^ n) s" i] assms(2) by simp
  qed (use assms in simp)
  then show "current ((sched_tick ^^ n) s) = Some (Slot i)"
    "unat (p_ticks_remaining (get_pcb (Slot i) ((sched_tick ^^ n) s))) = unat (p_ticks_remaining (get_pcb (Slot i) s)) - n" by simp_all
  from * show "sched_need_resched ((sched_tick ^^ n) s) \<longleftrightarrow> unat (p_ticks_remaining (get_pcb (Slot i) s)) \<le> n"
    by (auto simp: sched_need_resched_def simp flip: unat_eq_zero)
qed

section \<open>Properties\<close>

text \<open>
  C1. Every scheduling operation implements the abstract scheduler: switching rotates the running process
  to the back of the queue and runs the front (the idle process when the queue is empty), yielding does
  so only when somebody waits, blocking and exiting run the next process without queueing the current one,
  unblocking queues exactly a blocked process.  The linked queue stays well formed.
\<close>

theorem sched_refines:
  assumes "sched_inv s"
  shows "view (snd (sched_do_switch_asm esp s)) = a_switch (view s) \<and> view (snd (sched_yield s)) = a_yield (view s) \<and>
    view (snd (sched_block s)) = a_block (view s) \<and> view (snd (sched_exit s)) = a_exit (view s) \<and>
    view (snd (sched_exit_asm s)) = a_exit (view s) \<and> view (sched_tick s) = view s \<and>
    view (snd (sched_unblock pid s)) =
      (case sched_get_pcb pid s of None \<Rightarrow> view s
       | Some p \<Rightarrow> if a_st (view s) p = PROC_BLOCKED then a_enq p (view s) else view s)"
  using switch_refines(1) [OF assms] yield_refines(1) [OF assms] block_refines(1) [OF assms]
    exit_refines(1,3) [OF assms] view_tick(2) [OF assms] unblock_refines(1) [OF assms, of pid]
  by (simp split: option.splits)


text \<open>
  C3. Round robin: with at least one process waiting, \<open>n\<close> timer switches rotate the ring of the current and
  the waiting processes \<open>n\<close> places, so that every waiting process gets the processor within as many
  switches as there are processes.
\<close>

theorem round_robin:
  assumes "sched_inv s" "current s = Some c" "c \<noteq> IdleP" "p_state (get_pcb c s) = PROC_RUNNING" "rq s \<noteq> []"
  shows "let t = fold (\<lambda>e s. snd (sched_do_switch_asm e s)) es s in
    current t = Some ((c # rq s) ! (length es mod Suc (length (rq s)))) \<and>
    the (current t) # rq t = rotate (length es) (c # rq s)"
proof -
  have "slot c" using a_invD(5) [of "view s" c] assms by (simp add: sched_inv_def view_def)
  then have "busy (view s)" using assms by (simp add: busy_def view_def)
  note sw = switches_ring [OF assms(1) this, of es]
  let ?t = "switches es s"
  obtain d where d: "current ?t = Some d" using sw by (auto simp: busy_def view_def)
  then have r: "d # rq ?t = rotate (length es) (c # rq s)"
    using sw assms(2) by (simp add: ring_def view_def)
  then have "d = hd (rotate (length es) (c # rq s))" by (metis list.sel(1))
  then have "d = (c # rq s) ! (length es mod Suc (length (rq s)))"
    by (subst (asm) hd_rotate_conv_nth) simp_all
  with d r show ?thesis by (simp add: switches_def Let_def)
qed

text \<open>
  C4. The context switch saves the stack pointer of the interrupted process in its block, leaves every other
  saved context alone and resumes the front of the queue from its own saved frame.
\<close>

theorem switch_contexts:
  assumes "sched_inv s" "current s = Some c" "rq s = x # xs"
  shows "fst (sched_do_switch_asm esp s) = sched_restore_context (kmem s) (p_kernel_esp (get_pcb x s)) \<and>
    p_kernel_esp (get_pcb c (snd (sched_do_switch_asm esp s))) = esp \<and>
    (q \<noteq> c \<longrightarrow> p_kernel_esp (get_pcb q (snd (sched_do_switch_asm esp s))) = p_kernel_esp (get_pcb q s)) \<and>
    current (snd (sched_do_switch_asm esp s)) = Some x"
  by (rule switch_contexts_aux [OF assms])

text \<open>
  \<open>sched_create_process\<close> fails exactly when no slot is free and then changes nothing; otherwise it takes
  the first free slot, gives it the next process number, queues it last, leaves all other processes alone and writes
  only into the slot's own 2 KB kernel stack.
\<close>

theorem create_process_spec:
  assumes "sched_inv s" "next_pid s \<noteq> 0" "sched_create_process pool name entry user_esp flags s = (r, t)"
  shows "case alloc_pcb s of
      None \<Rightarrow> r = -1 \<and> t = s
    | Some i \<Rightarrow> r = sint (next_pid s) \<and> next_pid t = next_pid s + 1 \<and> sched_inv t \<and> rq t = rq s @ [Slot i] \<and>
        p_pid (get_pcb (Slot i) t) = next_pid s \<and> p_state (get_pcb (Slot i) t) = PROC_READY \<and>
        (q \<noteq> Slot i \<longrightarrow> core (get_pcb q t) = core (get_pcb q s)) \<and>
        (2048 \<le> a - (pool + 2048 * of_nat i) \<longrightarrow> kmem t a = kmem s a)"
proof (cases "alloc_pcb s")
  case None
  then show ?thesis using assms(3) by (simp add: sched_create_process_def)
next
  case (Some i)
  note c = create_ok [OF assms(1) Some assms(2,3)]
  have free: "slot (Slot i)" "a_st (view s) (Slot i) = PROC_FREE" using alloc_pcb_Some [OF Some] by (simp_all add: view_def)
  then have "a_inv (view t)" using a_enq_inv [of "view s" "Slot i"] assms(1) c(4) by (simp add: sched_inv_def)
  moreover have "rq t = rq s @ [Slot i]" "p_state (get_pcb (Slot i) t) = PROC_READY"
    using arg_cong [OF c(4), of a_queue] fun_cong [OF arg_cong [OF c(4), of a_st], of "Slot i"]
    by (simp_all add: view_def a_enq_def)
  ultimately show ?thesis using Some c by (simp add: sched_inv_def)
qed

text \<open>
  The first switch to a process that was just created, from the idle process with an empty queue.
\<close>

lemma first_dispatch:
  assumes "sched_inv s" "next_pid s \<noteq> 0" "current s = Some IdleP" "rq s = []" "alloc_pcb s = Some i"
    and "sched_create_process pool name entry user_esp flags s = (r, t)"
  shows "sched_need_resched t" "fst (sched_do_switch_asm esp t) =
     (if flags AND PROC_FLAG_USER \<noteq> 0 then GP_fault 0x38 else Resumes (start_cpu entry))"
proof -
  note c = create_ok [OF assms(1) assms(5) assms(2) assms(6)]
  have q: "a_queue (view t) = [Slot i]" "a_cur (view t) = Some IdleP"
    using assms(3,4) c(4) by (simp_all add: view_def a_enq_def)
  then have qt: "rq t = [Slot i]" "current t = Some IdleP" by (simp_all add: view_def)
  have free: "slot (Slot i)" "a_st (view s) (Slot i) = PROC_FREE"
    using alloc_pcb_Some [OF assms(5)] by (simp_all add: view_def)
  then have inv: "sched_inv t" using a_enq_inv [of "view s" "Slot i"] assms(1) c(3,4) by (simp add: sched_inv_def)
  have "rq_count t = 1" using c(3) qt(1) by (simp add: rq_ok_def rq_wf_def)
  then show "sched_need_resched t" using qt(2) by (simp add: sched_need_resched_def)
  have "fst (sched_do_switch_asm esp t) = sched_restore_context (kmem t) (p_kernel_esp (get_pcb (Slot i) t))"
    using switch_contexts_aux [OF inv qt(2,1)] by simp
  then show "fst (sched_do_switch_asm esp t) =
     (if flags AND PROC_FLAG_USER \<noteq> 0 then GP_fault 0x38 else Resumes (start_cpu entry))" using c(11) by simp
qed

text \<open>
  A kernel process starts at its entry point: after its creation on an idle system the scheduler asks for a switch, and
  the switch resumes ring 0 at \<open>entry\<close> with the kernel selectors, zeroed general registers and interrupts enabled.
\<close>

theorem kernel_process_starts:
  assumes "sched_inv s" "next_pid s \<noteq> 0" "current s = Some IdleP" "rq s = []" "alloc_pcb s = Some i"
    and "sched_create_process pool name entry user_esp PROC_FLAG_KERNEL s = (r, t)"
  shows "sched_need_resched t \<and> fst (sched_do_switch_asm esp t) =
    Resumes \<lparr>r_gs = 0x10, r_fs = 0x10, r_es = 0x10, r_ds = 0x10, r_general = [0, 0, 0, 0, 0, 0, 0],
      r_eip = entry, r_cs = 0x08, r_eflags = 0x202, r_user_stack = None\<rparr>"
  using first_dispatch [OF assms] by (simp add: sched_consts start_cpu_def)

text \<open>
  A user process cannot start: the code selector in its initial frame is 0x38 with requested privilege 0, while the
  segment has privilege 3, so the first \<open>iret\<close> into it raises a general protection fault.
\<close>

theorem user_process_faults:
  assumes "sched_inv s" "next_pid s \<noteq> 0" "current s = Some IdleP" "rq s = []" "alloc_pcb s = Some i"
    and "sched_create_process pool name entry user_esp PROC_FLAG_USER s = (r, t)"
  shows "fst (sched_do_switch_asm esp t) = GP_fault 0x38"
  using first_dispatch(2) [OF assms] by (simp add: sched_consts)

text \<open>
  A process that is alone is lost when its time slice ends: the switch that finds nobody else returns with the process
  marked ready but in no queue and still without ticks, the next timer interrupt hands the processor to the
  idle process, and from then on no sequence of steps ever runs or queues the process again.
\<close>

theorem sole_process_lost:
  assumes "sched_inv s" "current s = Some (Slot i)" "p_state (get_pcb (Slot i) s) = PROC_RUNNING" "rq s = []"
    and "sched_need_resched s" "s1 = snd (sched_do_switch_asm e1 s)" "s2 = snd (sched_do_switch_asm e2 s1)"
    and "sched_reach pool ist idl s2 t"
  shows "fst (sched_do_switch_asm e1 s) = Returns \<and> sched_need_resched s1 \<and> current s2 = Some IdleP \<and>
    p_state (get_pcb (Slot i) t) = PROC_READY \<and> Slot i \<notin> set (rq t) \<and> current t \<noteq> Some (Slot i)"
proof -
  have ok: "rq_ok s" "a_inv (view s)" using assms(1) by (simp_all add: sched_inv_def)
  have sl: "slot (Slot i)" using a_invD(5) [OF ok(2)] assms(2) by (simp add: view_def)
  have v: "a_queue (view s) = []" "a_cur (view s) = Some (Slot i)" "a_st (view s) (Slot i) = PROC_RUNNING"
    using assms by (simp_all add: view_def)
  have i1: "sched_inv s1" using step_inv [OF assms(1) step_switch [OF assms(5)]] assms(6) by simp
  have v1: "view s1 = (view s)\<lparr>a_st := (a_st (view s))(Slot i := PROC_READY)\<rparr>"
    using switch_refines(1) [OF assms(1), of e1] v assms(6)
    by (simp add: a_switch_def a_requeue_def a_enq_def a_pick_def)
  have i2: "sched_inv s2"
    using switch_refines [OF i1, of e2] a_switch_inv i1 assms(7) by (simp add: sched_inv_def)
  have v2: "view s2 = a_run (view s1)"
    using switch_refines(1) [OF i1, of e2] v v1 assms(7) by (simp add: a_switch_def a_requeue_def a_pick_def)
  have "lost (Slot i) (view s2)" using v v1 v2 sl by (simp add: lost_def a_run_def a_pick_def)
  from lost_forever [OF assms(8) i2 this] have "lost (Slot i) (view t)" .
  moreover have "current s2 = Some IdleP"
    using arg_cong [OF v2, of a_cur] v v1 by (simp add: view_def [of s2] a_run_def a_pick_def)
  moreover have "fst (sched_do_switch_asm e1 s) = Returns \<and> p_ticks_remaining (get_pcb (Slot i) s1) = p_ticks_remaining (get_pcb (Slot i) s)"
    using sole_switch [OF assms(1-4), of e1] assms(6) by simp
  ultimately show ?thesis
    using assms(2,5) arg_cong [OF v1, of a_cur] v by (simp add: lost_def sched_need_resched_def view_def)
qed

text \<open>
  \<open>sched_yield\<close> does not save the context of the process that gives up the processor: it queues the process and
  resumes another one, and the block still holds the stack pointer of the last interrupt, from which the process
  will be resumed.
\<close>

theorem yield_keeps_stale_context:
  assumes "sched_inv s" "current s = Some c" "c \<noteq> IdleP" "p_state (get_pcb c s) = PROC_RUNNING" "rq s = x # xs"
  shows "current (snd (sched_yield s)) = Some x \<and> rq (snd (sched_yield s)) = xs @ [c] \<and>
    fst (sched_yield s) = sched_restore_context (kmem s) (p_kernel_esp (get_pcb x s)) \<and>
    p_kernel_esp (get_pcb c (snd (sched_yield s))) = p_kernel_esp (get_pcb c s)"
proof -
  have ok: "rq_ok s" "a_inv (view s)" using assms(1) by (simp_all add: sched_inv_def)
  let ?u = "s\<lparr>irq_on := False\<rparr>"
  have cnt: "rq_count s \<noteq> 0" using count_0 [OF ok(1)] assms(5) by simp
  obtain n t where nt: "dequeue_ready (requeue_current c ?u) = (n, t)" by fastforce
  have xc: "x \<noteq> c" using a_invD(4) [OF ok(2), of c] assms(2,5) by (auto simp: view_def)
  have qs: "a_queue (view s) = x # xs" "a_cur (view s) = Some c" "a_st (view s) c = PROC_RUNNING"
    using assms by (simp_all add: view_def)
  have "slot c" using a_invD(5) [OF ok(2), of c] qs(2) assms(3) by simp
  then have q: "rq_ok (requeue_current c ?u)" "view (requeue_current c ?u) = a_requeue c (view s)"
    using view_requeue [of ?u c] ok(1) a_invD(4) [OF ok(2), of c] assms(2) by (simp_all add: view_def [of s])
  have n: "or_idle n = x" using view_dequeue(3) [OF q(1) nt] q(2) qs by (simp add: a_pick_def a_requeue_def a_enq_def)
  have y: "sched_yield s = sched_switch_to x (t\<lparr>irq_on := irq_on s\<rparr>)"
    using assms(2) cnt nt n xc by (simp add: sched_yield_def hal_irq_save_def hal_irq_restore_def Let_def)
  have "view (snd (sched_yield s)) = a_run (a_enq c (view s))"
    using yield_refines(1) [OF assms(1)] qs xc assms(3)
    by (simp add: a_yield_def a_switch_def a_requeue_def a_pick_def a_enq_def)
  then have "a_cur (view (snd (sched_yield s))) = Some x \<and> a_queue (view (snd (sched_yield s))) = xs @ [c]"
    using qs by (simp add: a_run_def a_enq_def a_pick_def)
  then have "current (snd (sched_yield s)) = Some x \<and> rq (snd (sched_yield s)) = xs @ [c]" by (simp add: view_def)
  moreover have "p_kernel_esp (get_pcb c (snd (sched_yield s))) = p_kernel_esp (get_pcb c s)"
    "fst (sched_yield s) = sched_restore_context (kmem s) (p_kernel_esp (get_pcb x s))"
    using rotate_contexts [of ?u c n t, where b = "irq_on s"] ok assms(2) nt n y by simp_all
  ultimately show ?thesis by simp
qed

text \<open>
  The time slice: after \<open>n\<close> timer ticks the current process has used \<open>n\<close> of its ticks, and a switch is
  requested exactly when all of them are used.
\<close>

theorem time_slice_spec:
  assumes "current s = Some (Slot i)" "i < length (pcb_pool s)"
  shows "unat (p_ticks_remaining (get_pcb (Slot i) ((sched_tick ^^ n) s))) = unat (p_ticks_remaining (get_pcb (Slot i) s)) - n \<and>
    (sched_need_resched ((sched_tick ^^ n) s) \<longleftrightarrow> unat (p_ticks_remaining (get_pcb (Slot i) s)) \<le> n)"
  using ticks [OF assms] by simp

section \<open>Witnesses\<close>

definition blank_pcb :: pcb where
  "blank_pcb = \<lparr>p_pid = 0, p_state = PROC_FREE, p_flags = 0, p_esp = 0, p_ss = 0, p_kernel_esp = 0, p_kernel_esp_top = 0,
     p_page_dir = 0, p_time_slice = 0, p_ticks_remaining = 0, p_total_ticks = 0, p_name = replicate 32 (CHR 0x00), p_next = None\<rparr>"

definition raw_sys :: sched where
  "raw_sys = \<lparr>pcb_pool = replicate 32 blank_pcb, idle_pcb = blank_pcb, rq_head = None, rq_tail = None, rq_count = 0,
     current = None, next_pid = 1, tss_esp0 = 0, kmem = (\<lambda>_. 0), irq_on = True\<rparr>"

definition idle_sys :: sched where "idle_sys = sched_init raw_sys"

definition one_sys :: sched where "one_sys = snd (sched_create_process 0x300000 ''a'' 0x1000 0 PROC_FLAG_KERNEL idle_sys)"
definition two_sys :: sched where "two_sys = snd (sched_create_process 0x300000 ''b'' 0x2000 0 PROC_FLAG_KERNEL one_sys)"
definition alone :: sched where "alone = snd (sched_do_switch_asm 0 one_sys)"
definition pair :: sched where "pair = snd (sched_do_switch_asm 0 two_sys)"

lemma alloc_pcb_eqI:
  "i < PROC_MAX \<Longrightarrow> a_st (view s) (Slot i) = PROC_FREE \<Longrightarrow> (\<And>j. j < i \<Longrightarrow> a_st (view s) (Slot j) \<noteq> PROC_FREE) \<Longrightarrow>
   alloc_pcb s = Some i"
  by (auto simp: alloc_pcb_def find_upt_Some get_pcb_def view_def)

lemma idle_facts: "sched_inv idle_sys" "current idle_sys = Some IdleP" "rq idle_sys = []" "next_pid idle_sys = 1"
  "i < PROC_MAX \<Longrightarrow> a_st (view idle_sys) (Slot i) = PROC_FREE" "alloc_pcb idle_sys = Some 0"
proof -
  show "sched_inv idle_sys" "rq idle_sys = []" unfolding idle_sys_def by (rule init_inv, simp add: PROC_MAX_def raw_sys_def)+
  show "current idle_sys = Some IdleP" "next_pid idle_sys = 1" by (simp_all add: idle_sys_def raw_sys_def sched_init_def)
  show f: "a_st (view idle_sys) (Slot i) = PROC_FREE" if "i < PROC_MAX" for i
    using that by (simp add: view_def idle_sys_def raw_sys_def sched_init_def get_pcb_def blank_pcb_def PROC_MAX_def)
  show "alloc_pcb idle_sys = Some 0" using f by (intro alloc_pcb_eqI) (auto simp: PROC_MAX_def)
qed

lemma created_facts:
  fixes pool name entry uesp flags
  assumes "sched_inv s" "alloc_pcb s = Some i" "next_pid s \<noteq> 0"
  defines "t \<equiv> snd (sched_create_process pool name entry uesp flags s)"
  shows "sched_inv t" "view t = a_enq (Slot i) (view s)" "next_pid t = next_pid s + 1"
proof -
  obtain r u where "sched_create_process pool name entry uesp flags s = (r, u)" by fastforce
  from create_ok(2,3,4) [OF assms(1-3) this] this
  show v: "view t = a_enq (Slot i) (view s)" and "next_pid t = next_pid s + 1" by (simp_all add: t_def)
  have "rq_ok t" using create_ok(3) [OF assms(1-3)] by (metis prod.collapse t_def)
  then show "sched_inv t"
    using a_enq_inv [of "view s" "Slot i"] v alloc_pcb_Some [OF assms(2)] assms(1) by (simp add: sched_inv_def view_def [of s])
qed

lemma one_facts: "sched_inv one_sys" "view one_sys = a_enq (Slot 0) (view idle_sys)" "next_pid one_sys = 2" "alloc_pcb one_sys = Some 1"
proof -
  note c = created_facts [OF idle_facts(1,6), folded one_sys_def]
  show v: "sched_inv one_sys" "view one_sys = a_enq (Slot 0) (view idle_sys)" "next_pid one_sys = 2"
    using c idle_facts(4) by (simp_all add: one_sys_def)
  show "alloc_pcb one_sys = Some 1"
    using idle_facts(5) [of 1] by (intro alloc_pcb_eqI) (auto simp: v(2) a_enq_def PROC_MAX_def)
qed

lemma two_facts: "sched_inv two_sys" "view two_sys = a_enq (Slot 1) (view one_sys)"
  using created_facts [OF one_facts(1,4)] one_facts(3) by (simp_all add: two_sys_def)

lemma alone_facts: "sched_inv alone" "current alone = Some (Slot 0)" "p_state (get_pcb (Slot 0) alone) = PROC_RUNNING" "rq alone = []"
proof -
  have v: "view alone = a_run (view one_sys)"
    using switch_refines(1) [OF one_facts(1), of 0] idle_facts(2,3) one_facts(2)
    by (simp add: alone_def a_switch_def a_requeue_def a_enq_def a_pick_def view_def [of idle_sys])
  then have "view alone = \<lparr>a_queue = [], a_cur = Some (Slot 0), a_st = (a_st (view idle_sys))(Slot 0 := PROC_RUNNING)\<rparr>"
    using idle_facts(3) one_facts(2) by (simp add: a_run_def a_enq_def a_pick_def view_def [of idle_sys])
  then show "current alone = Some (Slot 0)" "p_state (get_pcb (Slot 0) alone) = PROC_RUNNING" "rq alone = []"
    by (simp_all add: view_def [of alone] fun_eq_iff)
  show "sched_inv alone"
    using switch_refines [OF one_facts(1), of 0] a_switch_inv one_facts(1) by (simp add: alone_def sched_inv_def)
qed

lemma pair_facts: "sched_inv pair" "current pair = Some (Slot 0)" "p_state (get_pcb (Slot 0) pair) = PROC_RUNNING" "rq pair = [Slot 1]"
proof -
  have v: "view pair = a_run (view two_sys)"
    using switch_refines(1) [OF two_facts(1), of 0] idle_facts(2,3) one_facts(2) two_facts(2)
    by (simp add: pair_def a_switch_def a_requeue_def a_enq_def a_pick_def view_def [of idle_sys])
  then have "view pair = \<lparr>a_queue = [Slot 1], a_cur = Some (Slot 0),
      a_st = (a_st (view idle_sys))(Slot 1 := PROC_READY, Slot 0 := PROC_RUNNING)\<rparr>"
    using idle_facts(3) one_facts(2) two_facts(2) by (simp add: a_run_def a_enq_def a_pick_def view_def [of idle_sys] fun_upd_twist)
  then show "current pair = Some (Slot 0)" "p_state (get_pcb (Slot 0) pair) = PROC_RUNNING" "rq pair = [Slot 1]"
    by (simp_all add: view_def [of pair] fun_eq_iff)
  show "sched_inv pair"
    using switch_refines [OF two_facts(1), of 0] a_switch_inv two_facts(1) by (simp add: pair_def sched_inv_def)
qed

lemma sched_refines_witness: "view (snd (sched_yield pair)) = a_yield (view pair) \<and> view (snd (sched_block pair)) = a_block (view pair)"
  using sched_refines [OF pair_facts(1), of 0 0] by simp


lemma round_robin_witness: "current (snd (sched_do_switch_asm 8 pair)) = Some (Slot 1)"
  using round_robin [OF pair_facts(1,2) _ pair_facts(3), of "[8]"] pair_facts(4) by (simp add: Let_def)

lemma switch_contexts_witness: "p_kernel_esp (get_pcb (Slot 0) (snd (sched_do_switch_asm 8 pair))) = 8"
  using switch_contexts [OF pair_facts(1,2,4)] by simp

lemma create_process_spec_witness:
  "\<exists>r t. sched_create_process 0x300000 ''b'' 0x2000 0 PROC_FLAG_KERNEL one_sys = (r, t) \<and> r = 2 \<and> rq t = rq one_sys @ [Slot 1]"
proof -
  obtain r t where rt: "sched_create_process 0x300000 ''b'' 0x2000 0 PROC_FLAG_KERNEL one_sys = (r, t)" by fastforce
  have "next_pid one_sys \<noteq> 0" by (simp add: one_facts(3))
  from create_process_spec [OF one_facts(1) this rt] rt one_facts(3,4) show ?thesis by simp
qed

lemma kernel_process_starts_witness:
  "sched_need_resched one_sys \<and> (case fst (sched_do_switch_asm 0 one_sys) of Resumes c \<Rightarrow> r_eip c = 0x1000 | _ \<Rightarrow> False)"
proof -
  obtain r t where rt: "sched_create_process 0x300000 ''a'' 0x1000 0 PROC_FLAG_KERNEL idle_sys = (r, t)" by fastforce
  have "next_pid idle_sys \<noteq> 0" by (simp add: idle_facts(4))
  from kernel_process_starts [OF idle_facts(1) this idle_facts(2,3,6) rt, of 0] rt show ?thesis by (simp add: one_sys_def)
qed

lemma user_process_faults_witness:
  "fst (sched_do_switch_asm 0 (snd (sched_create_process 0x300000 ''u'' 0x50000 0x81000 PROC_FLAG_USER idle_sys))) = GP_fault 0x38"
proof -
  obtain r t where rt: "sched_create_process 0x300000 ''u'' 0x50000 0x81000 PROC_FLAG_USER idle_sys = (r, t)" by fastforce
  have "next_pid idle_sys \<noteq> 0" by (simp add: idle_facts(4))
  from user_process_faults [OF idle_facts(1) this idle_facts(2,3,6) rt, of 0] rt show ?thesis by simp
qed

definition worn :: sched where
  "worn = (sched_tick ^^ unat (p_ticks_remaining (get_pcb (Slot 0) alone))) alone"

lemma worn_facts: "sched_inv worn" "current worn = Some (Slot 0)" "p_state (get_pcb (Slot 0) worn) = PROC_RUNNING" "rq worn = []"
  "sched_need_resched worn"
proof -
  have len: "0 < length (pcb_pool alone)" using pool_len alone_facts(1) by (simp add: sched_inv_def PROC_MAX_def)
  show "current worn = Some (Slot 0)" "sched_need_resched worn"
    using ticks [OF alone_facts(2) len] by (simp_all add: worn_def)
  have "sched_inv ((sched_tick ^^ n) alone) \<and> view ((sched_tick ^^ n) alone) = view alone" for n
    by (induction n) (use alone_facts(1) view_tick in \<open>auto simp: sched_inv_def\<close>)
  then have "sched_inv worn" and v: "view worn = view alone" by (simp_all add: worn_def)
  then show "sched_inv worn" by simp
  have "a_st (view worn) (Slot 0) = PROC_RUNNING" "a_queue (view worn) = []"
    unfolding v using alone_facts(3,4) by (simp_all add: view_def)
  then show "p_state (get_pcb (Slot 0) worn) = PROC_RUNNING" "rq worn = []" by (simp_all add: view_def)
qed

lemma sole_process_lost_witness:
  "current (snd (sched_do_switch_asm 8 (snd (sched_do_switch_asm 4 worn)))) = Some IdleP \<and>
   p_state (get_pcb (Slot 0) (snd (sched_do_switch_asm 8 (snd (sched_do_switch_asm 4 worn))))) = PROC_READY"
  using sole_process_lost [OF worn_facts refl refl reach_refl [of 0 0 0], of 4 8] by simp

lemma yield_keeps_stale_context_witness:
  "current (snd (sched_yield pair)) = Some (Slot 1) \<and>
   p_kernel_esp (get_pcb (Slot 0) (snd (sched_yield pair))) = p_kernel_esp (get_pcb (Slot 0) pair)"
  using yield_keeps_stale_context [OF pair_facts(1,2) _ pair_facts(3,4)] by simp

lemma time_slice_spec_witness: "sched_need_resched ((sched_tick ^^ unat (p_ticks_remaining (get_pcb (Slot 0) alone))) alone)"
proof -
  have len: "0 < length (pcb_pool alone)" using pool_len alone_facts(1) by (simp add: sched_inv_def PROC_MAX_def)
  from time_slice_spec [OF alone_facts(2) this] show ?thesis by simp
qed

end
