(* ===== verification/Fat_Common.thy ===== *)
theory Fat_Common
  imports Prelude
begin

text \<open>
  What \<^verbatim>\<open>src/kernel/fs/fat12.c\<close> and \<^verbatim>\<open>src/kernel/fs/fat32.c\<close> share: byte buffers with
  little-endian fields, the 32 byte directory entry, the 8.3 file name conversion and comparison, and the block device
  interface.  A C array is a function from byte offsets, which also covers the memory behind its end; a file name is the list of its
  bytes before the terminating zero.  The disk driver (port I/O) is a parameter: a device state and its read and write functions.
\<close>

unbundle bit_operations_syntax

section \<open>Byte buffers\<close>

type_synonym buf = "nat \<Rightarrow> u8"

definition rd16 :: "buf \<Rightarrow> nat \<Rightarrow> u16" where
  "rd16 b i = ucast (b i) OR push_bit 8 (ucast (b (i + 1)))"

definition rd32 :: "buf \<Rightarrow> nat \<Rightarrow> u32" where
  "rd32 b i = ucast (b i) OR push_bit 8 (ucast (b (i + 1))) OR push_bit 16 (ucast (b (i + 2))) OR push_bit 24 (ucast (b (i + 3)))"

definition wr16 :: "nat \<Rightarrow> u16 \<Rightarrow> buf \<Rightarrow> buf" where
  "wr16 i v b = b(i := ucast v, i + 1 := ucast (drop_bit 8 v))"

definition wr32 :: "nat \<Rightarrow> u32 \<Rightarrow> buf \<Rightarrow> buf" where
  "wr32 i v b = b(i := ucast v, i + 1 := ucast (drop_bit 8 v), i + 2 := ucast (drop_bit 16 v), i + 3 := ucast (drop_bit 24 v))"

text \<open>The bytes \<open>f 0, ..., f (n - 1)\<close> copied to offset \<open>off\<close>.\<close>

definition copy_to :: "nat \<Rightarrow> nat \<Rightarrow> buf \<Rightarrow> buf \<Rightarrow> buf" where
  "copy_to off n f b = (\<lambda>i. if off \<le> i \<and> i < off + n then f (i - off) else b i)"

lemma rd16_wr16: "rd16 (wr16 i v b) i = v"
proof (rule bit_word_eqI)
  fix n assume "n < LENGTH(16)"
  then consider "n < 8" | "8 \<le> n" "n < 16" "n - 8 < 8" by fastforce
  then show "bit (rd16 (wr16 i v b) i) n = bit v n"
    by cases (simp_all add: rd16_def wr16_def bit_simps)
qed

lemma rd32_wr32: "rd32 (wr32 i v b) i = v"
proof (rule bit_word_eqI)
  fix n assume "n < LENGTH(32)"
  then consider "n < 8" | "8 \<le> n" "n < 16" | "16 \<le> n" "n < 24" | "24 \<le> n" "n < 32" by fastforce
  then show "bit (rd32 (wr32 i v b) i) n = bit v n"
  proof cases
    case 2
    then show ?thesis by (simp add: rd32_def wr32_def bit_simps) linarith
  next
    case 3
    then show ?thesis by (simp add: rd32_def wr32_def bit_simps) linarith
  next
    case 4
    then show ?thesis by (simp add: rd32_def wr32_def bit_simps) linarith
  qed (simp add: rd32_def wr32_def bit_simps)
qed

lemma wr_other:
  "j \<noteq> i \<Longrightarrow> j \<noteq> Suc i \<Longrightarrow> wr16 i v b j = b j"
  "j \<notin> {i..<i + 4} \<Longrightarrow> wr32 i w b j = b j"
  by (auto simp: wr16_def wr32_def)

section \<open>Block devices\<close>

text \<open>
  \<open>read(lba, count, buf)\<close> and \<open>write(lba, count, buf)\<close>: a read gives the bytes of the sectors or fails,
  a write says whether it succeeded.
\<close>

type_synonym 'd read_fn = "u32 \<Rightarrow> u8 \<Rightarrow> 'd \<Rightarrow> buf option"
type_synonym 'd write_fn = "u32 \<Rightarrow> u8 \<Rightarrow> buf \<Rightarrow> 'd \<Rightarrow> bool \<times> 'd"

section \<open>Directory entries\<close>

record dir_entry =
  de_name :: "u8 list"
  de_attr :: u8
  de_reserved :: u8
  de_create_time_ms :: u8
  de_create_time :: u16
  de_create_date :: u16
  de_access_date :: u16
  de_cluster_hi :: u16
  de_modify_time :: u16
  de_modify_date :: u16
  de_cluster_lo :: u16
  de_file_size :: u32

definition ATTR_VOLUME_ID :: u8 where "ATTR_VOLUME_ID = 0x08"
definition ATTR_DIRECTORY :: u8 where "ATTR_DIRECTORY = 0x10"
definition ATTR_ARCHIVE :: u8 where "ATTR_ARCHIVE = 0x20"
definition ATTR_LFN :: u8 where "ATTR_LFN = 0x0F"

text \<open>\<open>entries[i]\<close> of a buffer of packed entries.\<close>

definition get_entry :: "buf \<Rightarrow> nat \<Rightarrow> dir_entry" where
  "get_entry b i = (let k = 32 * i in
     \<lparr>de_name = map (\<lambda>j. b (k + j)) [0..<11], de_attr = b (k + 11), de_reserved = b (k + 12), de_create_time_ms = b (k + 13),
      de_create_time = rd16 b (k + 14), de_create_date = rd16 b (k + 16), de_access_date = rd16 b (k + 18),
      de_cluster_hi = rd16 b (k + 20), de_modify_time = rd16 b (k + 22), de_modify_date = rd16 b (k + 24),
      de_cluster_lo = rd16 b (k + 26), de_file_size = rd32 b (k + 28)\<rparr>)"

definition set_name :: "nat \<Rightarrow> u8 list \<Rightarrow> buf \<Rightarrow> buf" where
  "set_name k name b = copy_to k 11 (\<lambda>j. name ! j) b"

definition put_entry :: "nat \<Rightarrow> dir_entry \<Rightarrow> buf \<Rightarrow> buf" where
  "put_entry i d b = (let k = 32 * i in
     wr32 (k + 28) (de_file_size d) (wr16 (k + 26) (de_cluster_lo d) (wr16 (k + 24) (de_modify_date d)
       (wr16 (k + 22) (de_modify_time d) (wr16 (k + 20) (de_cluster_hi d) (wr16 (k + 18) (de_access_date d)
         (wr16 (k + 16) (de_create_date d) (wr16 (k + 14) (de_create_time d)
           ((set_name k (de_name d) b)(k + 11 := de_attr d, k + 12 := de_reserved d, k + 13 := de_create_time_ms d))))))))))"

lemma put_entry_frame: "k < 32 * i \<or> 32 * i + 32 \<le> k \<Longrightarrow> put_entry i d b k = b k"
  by (auto simp: put_entry_def Let_def wr16_def wr32_def set_name_def copy_to_def)

lemma get_entry_cong: "(\<And>k. 32 * i \<le> k \<Longrightarrow> k < 32 * i + 32 \<Longrightarrow> b k = c k) \<Longrightarrow> get_entry b i = get_entry c i"
  by (simp add: get_entry_def Let_def rd16_def rd32_def)

lemma put_entry_other: "i \<noteq> j \<Longrightarrow> get_entry (put_entry i d b) j = get_entry b j"
  by (rule get_entry_cong, rule put_entry_frame) linarith

lemma rd_frame:
  "b i = c i \<Longrightarrow> b (Suc i) = c (Suc i) \<Longrightarrow> rd16 b i = rd16 c i"
  "b i = c i \<Longrightarrow> b (Suc i) = c (Suc i) \<Longrightarrow> b (i + 2) = c (i + 2) \<Longrightarrow> b (i + 3) = c (i + 3) \<Longrightarrow> rd32 b i = rd32 c i"
  by (simp_all add: rd16_def rd32_def)

lemma rd16_upd: "i + 2 \<le> j \<or> j + 2 \<le> i \<Longrightarrow> rd16 (wr16 j v b) i = rd16 b i"
  "i + 2 \<le> j \<or> j + 4 \<le> i \<Longrightarrow> rd16 (wr32 j w b) i = rd16 b i"
  by (auto simp: rd16_def wr16_def wr32_def)

lemma get_put_entry:
  assumes "length (de_name d) = 11"
  shows "get_entry (put_entry i d b) i = d"
proof -
  have n: "map (\<lambda>j. de_name d ! j) [0..<11] = de_name d"
    using assms by (intro nth_equalityI) simp_all
  have "put_entry i d b (32 * i + j) = de_name d ! j" if "j < 11" for j
    using that by (simp add: put_entry_def Let_def wr16_def wr32_def set_name_def copy_to_def)
  then have "map (\<lambda>j. put_entry i d b (32 * i + j)) [0..<11] = map (\<lambda>j. de_name d ! j) [0..<11]"
    by (intro map_cong) simp_all
  then have "map (\<lambda>j. put_entry i d b (32 * i + j)) [0..<11] = de_name d" by (simp only: n)
  moreover have "put_entry i d b (32 * i + 11) = de_attr d" "put_entry i d b (32 * i + 12) = de_reserved d"
    "put_entry i d b (32 * i + 13) = de_create_time_ms d"
    by (simp_all add: put_entry_def Let_def wr16_def wr32_def set_name_def copy_to_def)
  moreover have "rd16 (put_entry i d b) (32 * i + 14) = de_create_time d" "rd16 (put_entry i d b) (32 * i + 16) = de_create_date d"
    "rd16 (put_entry i d b) (32 * i + 18) = de_access_date d" "rd16 (put_entry i d b) (32 * i + 20) = de_cluster_hi d"
    "rd16 (put_entry i d b) (32 * i + 22) = de_modify_time d" "rd16 (put_entry i d b) (32 * i + 24) = de_modify_date d"
    "rd16 (put_entry i d b) (32 * i + 26) = de_cluster_lo d" "rd32 (put_entry i d b) (32 * i + 28) = de_file_size d"
    by (simp_all add: put_entry_def Let_def rd16_upd rd16_wr16 rd32_wr32)
  ultimately show ?thesis unfolding get_entry_def Let_def by simp
qed

section \<open>File names\<close>

definition to_upper :: "u8 \<Rightarrow> u8" where
  "to_upper c = (if 97 \<le> c \<and> c \<le> 122 then c - 32 else c)"

fun copy_main :: "nat \<Rightarrow> u8 list \<Rightarrow> u8 list \<Rightarrow> u8 list \<times> u8 list" where
  "copy_main i [] out = ([], out)"
| "copy_main i (c # name) out =
     (if c \<noteq> 0x2E \<and> i < 8 then copy_main (Suc i) name (out[i := to_upper c]) else (c # name, out))"

fun copy_ext :: "nat \<Rightarrow> u8 list \<Rightarrow> u8 list \<Rightarrow> u8 list" where
  "copy_ext i [] out = out"
| "copy_ext i (c # name) out = (if i < 11 then copy_ext (Suc i) name (out[i := to_upper c]) else out)"

definition convert_to_83 :: "u8 list \<Rightarrow> u8 list" where
  "convert_to_83 name =
     (let (rest, out) = copy_main 0 name (replicate 11 0x20) in
      case dropWhile (\<lambda>c. c \<noteq> 0x2E) rest of
        [] \<Rightarrow> out
      | _ # ext \<Rightarrow> copy_ext 8 ext out)"

fun name_cmp :: "u8 list \<Rightarrow> u8 list \<Rightarrow> int" where
  "name_cmp (a # as) (b # bs) =
     (let ca = to_upper a; cb = to_upper b in if ca \<noteq> cb then sint ca - sint cb else name_cmp as bs)"
| "name_cmp _ _ = 0"

definition pad :: "nat \<Rightarrow> u8 list \<Rightarrow> u8 list" where
  "pad n xs = xs @ replicate (n - length xs) 0x20"

lemma copy_main_result:
  "length out = 11 \<Longrightarrow> i \<le> 8 \<Longrightarrow> copy_main i name out =
     (let m = take (8 - i) (takeWhile (\<lambda>c. c \<noteq> 0x2E) name) in
      (drop (length m) name, take i out @ map to_upper m @ drop (i + length m) out))"
proof (induction i name out rule: copy_main.induct)
  case (2 i c name out)
  show ?case
  proof (cases "c \<noteq> 0x2E \<and> i < 8")
    case True
    then have "8 - i = Suc (7 - i)" by arith
    moreover have "take (Suc i) (out[i := to_upper c]) = take i out @ [to_upper c]"
      using 2 True by (simp add: take_Suc_conv_app_nth)
    ultimately show ?thesis using 2 True by (simp add: Let_def)
  next
    case False
    then show ?thesis by (auto simp: Let_def id_take_nth_drop)
  qed
qed (simp add: Let_def)

lemma copy_ext_result:
  "length out = 11 \<Longrightarrow> i \<le> 11 \<Longrightarrow> copy_ext i name out =
     take i out @ map to_upper (take (11 - i) name) @ drop (i + length (take (11 - i) name)) out"
proof (induction i name out rule: copy_ext.induct)
  case (2 i c name out)
  show ?case
  proof (cases "i < 11")
    case True
    then have "11 - i = Suc (10 - i)" by arith
    moreover have "take (Suc i) (out[i := to_upper c]) = take i out @ [to_upper c]"
      using 2 True by (simp add: take_Suc_conv_app_nth)
    ultimately show ?thesis using 2 True by simp
  qed (use 2 in simp)
qed simp

lemma after_main:
  "dropWhile P (drop (length (take k (takeWhile P xs))) xs) = dropWhile P xs"
proof -
  have "xs = takeWhile P xs @ dropWhile P xs" by simp
  then have "drop (length (take k (takeWhile P xs))) xs = drop (length (take k (takeWhile P xs))) (takeWhile P xs) @ dropWhile P xs"
    by (metis append_take_drop_id append_eq_conv_conj drop_append length_takeWhile_le diff_is_0_eq drop0 length_take min.cobounded1)
  then show ?thesis by (metis (no_types, lifting) dropWhile_append1 dropWhile_append2 dropWhile_idem in_set_dropD set_takeWhileD)
qed

lemma convert_to_83_eq:
  "convert_to_83 name = pad 8 (map to_upper (take 8 (takeWhile (\<lambda>c. c \<noteq> 0x2E) name))) @
     pad 3 (map to_upper (take 3 (tl (dropWhile (\<lambda>c. c \<noteq> 0x2E) name))))"
proof -
  let ?P = "\<lambda>c :: u8. c \<noteq> 0x2E"
  define m where "m = take 8 (takeWhile ?P name)"
  have lm: "length m \<le> 8" by (simp add: m_def)
  have cm: "copy_main 0 name (replicate 11 0x20) = (drop (length m) name, map to_upper m @ replicate (11 - length m) 0x20)"
    by (simp add: copy_main_result m_def Let_def)
  have rest: "dropWhile ?P (drop (length m) name) = dropWhile ?P name" unfolding m_def by (rule after_main)
  have pm: "map to_upper m @ replicate (11 - length m) 0x20 = pad 8 (map to_upper m) @ replicate 3 0x20"
    using lm by (simp add: pad_def flip: replicate_add)
  show ?thesis
  proof (cases "dropWhile ?P name")
    case Nil
    then have "convert_to_83 name = pad 8 (map to_upper m) @ replicate 3 0x20"
      unfolding convert_to_83_def cm Let_def prod.case rest by (simp only: list.case pm)
    then show ?thesis unfolding Nil by (simp add: pad_def m_def)
  next
    case (Cons d ext)
    have l8: "length (pad 8 (map to_upper m)) = 8" using lm by (simp add: pad_def)
    have "copy_ext 8 ext (pad 8 (map to_upper m) @ replicate 3 0x20) =
        pad 8 (map to_upper m) @ pad 3 (map to_upper (take 3 ext))"
      using l8 by (simp add: copy_ext_result pad_def)
    then have "convert_to_83 name = pad 8 (map to_upper m) @ pad 3 (map to_upper (take 3 ext))"
      unfolding convert_to_83_def cm Let_def prod.case rest Cons by (simp only: list.case pm)
    then show ?thesis unfolding Cons by (simp add: m_def)
  qed
qed

lemma name_cmp_0: "length a = length b \<Longrightarrow> name_cmp a b = 0 \<longleftrightarrow> map to_upper a = map to_upper b"
  by (induction a b rule: name_cmp.induct) (auto simp: Let_def dest: signed_word_eqI)

lemma length_convert_to_83 [simp]: "length (convert_to_83 name) = 11"
  by (simp add: convert_to_83_eq pad_def)

section \<open>Shared pieces of the directory and load loops\<close>

text \<open>The entries the directory loops look at: not deleted, no volume label, no long-name entry.\<close>

definition live_entry :: "dir_entry \<Rightarrow> bool" where
  "live_entry e \<longleftrightarrow> hd (de_name e) \<noteq> 0xE5 \<and> de_attr e AND ATTR_VOLUME_ID = 0 \<and> de_attr e \<noteq> ATTR_LFN"

text \<open>A name as the listings print it.\<close>

definition shown_name :: "u8 list \<Rightarrow> u8 list" where
  "shown_name n = filter (\<lambda>c. c \<noteq> 0x20) (take 8 n) @
     (if n ! 8 \<noteq> 0x20 then 0x2E # filter (\<lambda>c. c \<noteq> 0x20) (take 3 (drop 8 n)) else [])"

text \<open>Copying bytes to memory; addresses wrap at 32 bits.\<close>

definition copy_ram :: "u32 \<Rightarrow> u32 \<Rightarrow> buf \<Rightarrow> (u32 \<Rightarrow> u8) \<Rightarrow> u32 \<Rightarrow> u8" where
  "copy_ram dest n f ram = (\<lambda>a. if a - dest < n then f (unat (a - dest)) else ram a)"

text \<open>The bytes of \<open>k\<close> sectors from \<open>lba\<close> on, on a disk with sectors \<open>sec\<close>.\<close>

fun sector_bytes :: "(u32 \<Rightarrow> buf) \<Rightarrow> nat \<Rightarrow> u32 \<Rightarrow> u8 list" where
  "sector_bytes sec 0 lba = []"
| "sector_bytes sec (Suc k) lba = map (sec lba) [0..<512] @ sector_bytes sec k (lba + 1)"

lemma length_sector_bytes [simp]: "length (sector_bytes sec k lba) = 512 * k"
  by (induction k arbitrary: lba) simp_all

text \<open>Memory at \<open>addr\<close> holding the first \<open>fs\<close> bytes of \<open>img\<close>.\<close>

definition put_img :: "u32 \<Rightarrow> nat \<Rightarrow> u8 list \<Rightarrow> (u32 \<Rightarrow> u8) \<Rightarrow> u32 \<Rightarrow> u8" where
  "put_img addr fs img ram = (\<lambda>a. if unat (a - addr) < min fs (length img) then img ! unat (a - addr) else ram a)"

lemma unat_sub_add:
  fixes x :: u32
  assumes "m < 4294967296"
  shows "unat (x - of_nat m) = (if m \<le> unat x then unat x - m else unat x + 4294967296 - m)"
proof -
  have m: "unat (of_nat m :: u32) = m" using assms by (rule unat_of_nat_u32)
  show ?thesis
  proof (cases "m \<le> unat x")
    case True
    then have "of_nat m \<le> x" by (simp add: word_le_nat_alt m)
    then show ?thesis using True m by (simp add: unat_sub)
  next
    case False
    then show ?thesis
      using m unat_u32_less [of x] by (simp add: unat_sub_if' del: unat_u32_less)
  qed
qed

lemma copy_step:
  assumes "length pre = P" "fs + 512 \<le> 4294967295"
  shows "copy_ram (addr + of_nat (min fs P)) (of_nat (min fs (P + 512) - min fs P)) b (put_img addr fs pre ram) =
         put_img addr fs (pre @ map b [0..<512]) ram"
proof
  fix a :: u32
  let ?m = "min fs P" and ?n = "min fs (P + 512) - min fs P" and ?x = "unat (a - addr)"
  have le: "?n \<le> 512" "?m \<le> fs" by auto
  have n: "unat (of_nat ?n :: u32) = ?n" using le by (intro unat_of_nat_u32) simp
  have "a - (addr + of_nat ?m) = (a - addr) - of_nat ?m" by simp
  then have d: "unat (a - (addr + of_nat ?m)) = (if ?m \<le> ?x then ?x - ?m else ?x + 4294967296 - ?m)"
    using unat_sub_add [of ?m "a - addr"] assms(2) le(2) by (simp only:)
  have far: "\<not> ?x + 4294967296 - ?m < ?n" using le assms(2) by linarith
  have lt: "a - (addr + of_nat ?m) < of_nat ?n \<longleftrightarrow> ?m \<le> ?x \<and> ?x - ?m < ?n"
    unfolding word_less_nat_alt d n using far by simp
  have idx: "?m \<le> ?x \<and> ?x - ?m < ?n \<longleftrightarrow> ?m \<le> ?x \<and> ?x < min fs (P + 512)" by auto
  show "copy_ram (addr + of_nat ?m) (of_nat ?n) b (put_img addr fs pre ram) a = put_img addr fs (pre @ map b [0..<512]) ram a"
  proof (cases "?m \<le> ?x \<and> ?x < min fs (P + 512)")
    case True
    then have "?m = P" by auto
    with True assms(1) d show ?thesis
      unfolding copy_ram_def lt idx by (auto simp: put_img_def nth_append)
  next
    case False
    then show ?thesis
      unfolding copy_ram_def lt idx using assms(1) by (auto simp: put_img_def nth_append)
  qed
qed

lemma min_add: "min fs (P + 512) = min fs P + (min fs (P + 512) - min fs (P :: nat))" by simp

section \<open>Cluster chains\<close>

text \<open>The clusters met on the way from \<open>c\<close> through the table, as long as they are data clusters.\<close>

inductive on_chain :: "('c \<Rightarrow> bool) \<Rightarrow> ('c \<Rightarrow> 'c) \<Rightarrow> 'c \<Rightarrow> 'c \<Rightarrow> bool" for data nxt where
  chain_here: "data c \<Longrightarrow> on_chain data nxt c c"
| chain_next: "data c \<Longrightarrow> on_chain data nxt (nxt c) d \<Longrightarrow> on_chain data nxt c d"

inductive_cases on_chainE: "on_chain data nxt c d"

lemma on_chain_data: "on_chain data nxt c d \<Longrightarrow> data c \<and> data d"
  by (induction rule: on_chain.induct) auto

text \<open>
  The contract of a file allocation table: reading back what was written, independence of the other entries.  \<open>empty\<close> is the mark of a
  free cluster and no data cluster itself.
\<close>

locale cluster_table =
  fixes get :: "'c \<Rightarrow> 't \<Rightarrow> 'c"
    and put :: "'c \<Rightarrow> 'c \<Rightarrow> 't \<Rightarrow> 't"
    and data :: "'c \<Rightarrow> bool"
    and empty :: 'c
  assumes finite_data: "finite {c. data c}"
    and get_put_empty: "data c \<Longrightarrow> get c (put c empty t) = empty"
    and get_put_other: "data c \<Longrightarrow> d \<noteq> c \<Longrightarrow> get d (put c v t) = get d t"
    and empty_no_data: "\<not> data empty"
begin

definition used :: "'t \<Rightarrow> 'c set" where "used t = {d. data d \<and> get d t \<noteq> empty}"

lemma used_put: "data c \<Longrightarrow> used (put c empty t) = used t - {c}"
  using get_put_empty get_put_other by (auto simp: used_def) (metis+)

lemma used_less: "data c \<Longrightarrow> get c t \<noteq> empty \<Longrightarrow> card (used (put c empty t)) < card (used t)"
  using finite_subset [OF _ finite_data, of "used t"]
  by (simp only: used_put) (rule psubset_card_mono, auto simp: used_def)

lemma used_same: "data c \<Longrightarrow> get c t = empty \<Longrightarrow> used (put c empty t) = used t"
  by (simp only: used_put) (auto simp: used_def)

text \<open>Unlinking the first cluster of a chain takes exactly that cluster off it, also when the chain is a cycle.\<close>

lemma chain_put:
  assumes "data c"
  shows "on_chain data (\<lambda>x. get x t) c d \<longleftrightarrow> d = c \<or> on_chain data (\<lambda>x. get x (put c empty t)) (get c t) d"
    (is "?L \<longleftrightarrow> ?R")
proof
  let ?t = "put c empty t"
  have "on_chain data (\<lambda>x. get x ?t) x d \<or> d = c \<or> on_chain data (\<lambda>x. get x ?t) (get c t) d"
    if "on_chain data (\<lambda>x. get x t) x d" for x
    using that
  proof (induction rule: on_chain.induct)
    case (chain_next x d)
    show ?case
    proof (cases "x = c")
      case False
      then have "get x ?t = get x t" by (rule get_put_other [OF assms])
      with chain_next show ?thesis using on_chain.chain_next [of data x "\<lambda>x. get x ?t" d] by auto
    qed (use chain_next in auto)
  qed (auto intro: on_chain.chain_here)
  note keep = this
  assume ?L
  then show ?R
    by (cases rule: on_chain.cases) (use keep in auto)
next
  let ?t = "put c empty t"
  have rev: "on_chain data (\<lambda>x. get x t) x d" if "on_chain data (\<lambda>x. get x ?t) x d" for x
    using that
  proof (induction rule: on_chain.induct)
    case (chain_next x d)
    show ?case
    proof (cases "x = c")
      case True
      then have "data empty" using chain_next.hyps(2) get_put_empty [OF assms] on_chain_data by fastforce
      then show ?thesis using empty_no_data by simp
    next
      case False
      then have "get x ?t = get x t" by (rule get_put_other [OF assms])
      with chain_next show ?thesis using on_chain.chain_next [of data x "\<lambda>x. get x t" d] by simp
    qed
  qed (auto intro: on_chain.chain_here)
  assume ?R
  then show ?L using assms rev by (auto intro: on_chain.intros)
qed

text \<open>
  The loop \<open>while (data(c)) { next = get(c); put(c, empty); c = next; }\<close> with a bound on its rounds: it ends when the bound exceeds the
  number of used clusters by two, and it frees exactly the chain.
\<close>

fun release :: "nat \<Rightarrow> 'c \<Rightarrow> 't \<Rightarrow> 't option" where
  "release 0 c t = None"
| "release (Suc n) c t = (if data c then release n (get c t) (put c empty t) else Some t)"

lemma release_result:
  "release n c t = Some u \<Longrightarrow> get d u = (if on_chain data (\<lambda>x. get x t) c d then empty else get d t)"
proof (induction n c t rule: release.induct)
  case (2 n c t)
  show ?case
  proof (cases "data c")
    case True
    have "get d (put c empty t) = (if d = c then empty else get d t)"
      using get_put_empty [OF True] get_put_other [OF True] by simp
    with 2 chain_put [OF True, of t d] True show ?thesis by auto
  next
    case False
    then show ?thesis using 2 on_chain_data [of data _ c d] by auto
  qed
qed simp

lemma release_terminates: "card (used t) + 2 \<le> n \<Longrightarrow> \<exists>u. release n c t = Some u"
proof (induction n arbitrary: c t)
  case (Suc n)
  have stop: "\<exists>u. release n empty v = Some u" if "0 < n" for v
    using that empty_no_data by (cases n) auto
  show ?case
  proof (cases "data c")
    case True
    show ?thesis
    proof (cases "get c t = empty")
      case True
      then show ?thesis using stop Suc.prems \<open>data c\<close> by auto
    next
      case False
      then show ?thesis using used_less [OF True False] Suc True by simp
    qed
  qed simp
qed simp

end

end
