(* ===== verification/Fat12.thy ===== *)
theory Fat12
  imports Fat_Common
begin

text \<open>
  The FAT12 driver, \<^verbatim>\<open>src/kernel/fs/fat12.c\<close>.  The record holds the statics of the file, the function
  pointers \<open>fat12_read\<close> and \<open>fat12_write\<close> included, and the state of the device behind them.  \<open>fat_table\<close> and
  \<open>root_dir_buf\<close> are the memory from the start of the two arrays on (4608 and 7168 bytes).  The loop of
  \<open>fat12_load_file\<close> may run forever; it takes fuel.  Screen output is left out.
\<close>

unbundle bit_operations_syntax

section \<open>State\<close>

definition FAT12_CLUSTER_FREE :: u16 where "FAT12_CLUSTER_FREE = 0x000"
definition FAT12_CLUSTER_BAD :: u16 where "FAT12_CLUSTER_BAD = 0xFF7"
definition FAT12_CLUSTER_END_MIN :: u16 where "FAT12_CLUSTER_END_MIN = 0xFF8"

lemmas fat12_consts = FAT12_CLUSTER_FREE_def FAT12_CLUSTER_BAD_def FAT12_CLUSTER_END_MIN_def

record 'd fat12 =
  fat12_read :: "'d read_fn option"
  fat12_write :: "'d write_fn option"
  bpb_bytes_per_sec :: u16
  bpb_sec_per_clust :: u8
  bpb_reserved_secs :: u16
  bpb_num_fats :: u8
  bpb_root_entries :: u16
  bpb_total_secs :: u16
  bpb_fat_size :: u16
  fat_table :: buf
  root_dir_buf :: buf
  fat_start_lba :: u32
  root_dir_lba :: u32
  data_area_lba :: u32
  device :: 'd

text \<open>A call through \<open>fat12_read\<close>; a null pointer is never called (the initialisation sets it), the model then fails.\<close>

definition do_read :: "'d fat12 \<Rightarrow> u32 \<Rightarrow> u8 \<Rightarrow> buf option" where
  "do_read s lba count = (case fat12_read s of None \<Rightarrow> None | Some f \<Rightarrow> f lba count (device s))"

definition do_write :: "u32 \<Rightarrow> u8 \<Rightarrow> buf \<Rightarrow> 'd fat12 \<Rightarrow> bool \<times> 'd fat12" where
  "do_write lba count b s = (case fat12_write s of None \<Rightarrow> (False, s)
   | Some f \<Rightarrow> let (ok, d) = f lba count b (device s) in (ok, s\<lparr>device := d\<rparr>))"

definition fat12_set_write_fn :: "'d write_fn option \<Rightarrow> 'd fat12 \<Rightarrow> 'd fat12" where
  "fat12_set_write_fn f s = s\<lparr>fat12_write := f\<rparr>"

section \<open>Initialisation\<close>

definition check_bpb_valid :: "buf \<Rightarrow> bool" where
  "check_bpb_valid ram = (rd16 ram 0x7DFE = 0xAA55)"

text \<open>
  \<open>ram\<close> is the memory that holds the boot sector.  A division by \<open>bpb_bytes_per_sec = 0\<close> raises a
  processor exception; the result is then \<open>None\<close>, as it is when the sectors read do not fit into \<open>fat_table[9 * 512]\<close> or
  \<open>root_dir_buf[224 * 32]\<close> and the memory behind the array is overwritten.
\<close>

definition fat12_init_common :: "buf \<Rightarrow> nat \<Rightarrow> 'd fat12 \<Rightarrow> (bool \<times> 'd fat12) option" where
  "fat12_init_common ram bpb s =
     (let s = s\<lparr>bpb_bytes_per_sec := rd16 ram (bpb + 11), bpb_sec_per_clust := ram (bpb + 13),
                bpb_reserved_secs := rd16 ram (bpb + 14), bpb_num_fats := ram (bpb + 16),
                bpb_root_entries := rd16 ram (bpb + 17), bpb_total_secs := rd16 ram (bpb + 19),
                bpb_fat_size := rd16 ram (bpb + 22)\<rparr>;
          s = s\<lparr>fat_start_lba := ucast (bpb_reserved_secs s)\<rparr>;
          s = s\<lparr>root_dir_lba := fat_start_lba s + ucast (bpb_num_fats s) * ucast (bpb_fat_size s)\<rparr>
      in if bpb_bytes_per_sec s = 0 then None
         else let root_dir_size = (ucast (bpb_root_entries s) * 32 + ucast (bpb_bytes_per_sec s) - 1) div ucast (bpb_bytes_per_sec s) :: u32;
                  s = s\<lparr>data_area_lba := root_dir_lba s + root_dir_size\<rparr>
              in if (ucast (bpb_fat_size s) :: u8) > 9 then None
              else case do_read s (fat_start_lba s) (ucast (bpb_fat_size s)) of
                   None \<Rightarrow> Some (False, s)
                 | Some b \<Rightarrow>
                     let s = s\<lparr>fat_table := copy_to 0 (512 * unat (ucast (bpb_fat_size s) :: u8)) b (fat_table s)\<rparr>;
                         root_sectors = ucast root_dir_size :: u8
                     in if root_sectors > 14 then None
                     else case do_read s (root_dir_lba s) root_sectors of
                          None \<Rightarrow> Some (False, s)
                        | Some b \<Rightarrow> Some (True, s\<lparr>root_dir_buf := copy_to 0 (512 * unat root_sectors) b (root_dir_buf s)\<rparr>))"

definition fat12_init :: "'d read_fn \<Rightarrow> buf \<Rightarrow> 'd fat12 \<Rightarrow> (bool \<times> 'd fat12) option" where
  "fat12_init disk_read_sectors ram s =
     (if \<not> check_bpb_valid ram then Some (False, s)
      else fat12_init_common ram 0x7C00 (s\<lparr>fat12_read := Some disk_read_sectors\<rparr>))"

definition fat12_init_ex :: "'d read_fn option \<Rightarrow> buf \<Rightarrow> u32 \<Rightarrow> 'd fat12 \<Rightarrow> (bool \<times> 'd fat12) option" where
  "fat12_init_ex read_fn ram bpb_addr s = (case read_fn of
     None \<Rightarrow> Some (False, s)
   | Some f \<Rightarrow> fat12_init_common ram (unat bpb_addr) (s\<lparr>fat12_read := Some f\<rparr>))"

section \<open>The cluster table\<close>

definition fat12_offset :: "u16 \<Rightarrow> nat" where
  "fat12_offset cluster = unat cluster + unat cluster div 2"

definition fat12_get_next_cluster :: "u16 \<Rightarrow> buf \<Rightarrow> u16" where
  "fat12_get_next_cluster cluster t =
     (let off = fat12_offset cluster;
          value = (if cluster AND 1 \<noteq> 0
                   then drop_bit 4 (ucast (t off)) OR push_bit 4 (ucast (t (off + 1)))
                   else ucast (t off) OR push_bit 8 (ucast (t (off + 1) AND 0x0F)))
      in value AND 0xFFF)"

definition fat12_set_next_cluster :: "u16 \<Rightarrow> u16 \<Rightarrow> buf \<Rightarrow> buf" where
  "fat12_set_next_cluster cluster v t =
     (let off = fat12_offset cluster; value = v AND 0xFFF in
      if cluster AND 1 \<noteq> 0
      then t(off := (t off AND 0x0F) OR ucast (push_bit 4 value), off + 1 := ucast (drop_bit 4 value))
      else t(off := ucast (value AND 0xFF),
             off + 1 := (t (off + 1) AND 0xF0) OR ucast (drop_bit 8 value AND 0x0F)))"

text \<open>The 12 bits of an entry, as bits of its two bytes.\<close>

lemma mask8: "(0x0F :: u8) = mask 4" "(0xF0 :: u8) = push_bit 4 (mask 4)" "(0xFFF :: u16) = mask 12" "(0xFF :: u16) = mask 8" "(0x0F :: u16) = mask 4"
  by (simp_all add: mask_eq_exp_minus_1 push_bit_eq_mult)

lemma odd_and_1: "(c :: u16) AND 1 \<noteq> 0 \<longleftrightarrow> odd (unat c)"
proof -
  have "odd (unat c) \<longleftrightarrow> odd c" using bit_unsigned_iff [of c 0, where ?'a = nat] by (simp add: bit_0)
  then show ?thesis by (simp add: and_one_eq mod2_eq_if)
qed

lemma get_next_bits:
  "bit (fat12_get_next_cluster c t) n \<longleftrightarrow> n < 12 \<and>
     (if odd (unat c)
      then if n < 4 then bit (t (fat12_offset c)) (n + 4) else bit (t (fat12_offset c + 1)) (n - 4)
      else if n < 8 then bit (t (fat12_offset c)) n else bit (t (fat12_offset c + 1)) (n - 8))"
proof (cases "n < 12")
  case True
  then consider "n < 4" | "4 \<le> n" "n < 8" | "8 \<le> n" "n < 12" by linarith
  then show ?thesis
    unfolding fat12_get_next_cluster_def Let_def odd_and_1 mask8(1,3)
    by cases (auto simp: bit_simps add.commute dest: bit_imp_le_length)
qed (simp add: fat12_get_next_cluster_def Let_def mask8(3) bit_simps)

lemma set_next_bytes:
  "odd (unat c) \<Longrightarrow> m < 8 \<Longrightarrow> bit (fat12_set_next_cluster c v t (fat12_offset c)) m \<longleftrightarrow>
     (if m < 4 then bit (t (fat12_offset c)) m else bit v (m - 4))"
  "odd (unat c) \<Longrightarrow> m < 8 \<Longrightarrow> bit (fat12_set_next_cluster c v t (fat12_offset c + 1)) m \<longleftrightarrow> bit v (m + 4)"
  "even (unat c) \<Longrightarrow> m < 8 \<Longrightarrow> bit (fat12_set_next_cluster c v t (fat12_offset c)) m \<longleftrightarrow> bit v m"
  "even (unat c) \<Longrightarrow> m < 8 \<Longrightarrow> bit (fat12_set_next_cluster c v t (fat12_offset c + 1)) m \<longleftrightarrow>
     (if m < 4 then bit v (m + 8) else bit (t (fat12_offset c + 1)) m)"
  "k \<noteq> fat12_offset c \<Longrightarrow> k \<noteq> fat12_offset c + 1 \<Longrightarrow> fat12_set_next_cluster c v t k = t k"
  unfolding fat12_set_next_cluster_def Let_def odd_and_1 mask8
  by (auto simp: bit_simps add.commute)

lemma get_next_cong:
  "t (fat12_offset c) = u (fat12_offset c) \<Longrightarrow> t (fat12_offset c + 1) = u (fat12_offset c + 1) \<Longrightarrow>
   fat12_get_next_cluster c t = fat12_get_next_cluster c u"
  by (simp add: fat12_get_next_cluster_def Let_def)

lemma offset_eq: "fat12_offset c = 3 * (unat c div 2) + unat c mod 2"
  unfolding fat12_offset_def by presburger

lemmas set_next_bits = set_next_bytes [folded Suc_eq_plus1]

lemma triple_sep:
  "a \<noteq> b \<Longrightarrow> p < 2 \<Longrightarrow> q < 2 \<Longrightarrow> 3 * b + q \<noteq> 3 * a + p \<and> 3 * b + q \<noteq> 3 * a + p + 1 \<and> 3 * b + q + 1 \<noteq> 3 * a + (p :: nat)"
  by arith

lemma fat12_get_set_same: "fat12_get_next_cluster c (fat12_set_next_cluster c v t) = v AND 0xFFF"
proof (rule bit_word_eqI)
  fix n assume "n < LENGTH(16)"
  show "bit (fat12_get_next_cluster c (fat12_set_next_cluster c v t)) n = bit (v AND 0xFFF) n"
    unfolding get_next_bits mask8(3) by (auto simp: set_next_bits bit_simps split: if_splits)
qed

lemma fat12_get_set_other:
  assumes "c \<noteq> d"
  shows "fat12_get_next_cluster d (fat12_set_next_cluster c v t) = fat12_get_next_cluster d t"
proof (cases "unat c div 2 = unat d div 2")
  case False
  then have "fat12_offset d \<noteq> fat12_offset c" "fat12_offset d \<noteq> fat12_offset c + 1"
    "fat12_offset d + 1 \<noteq> fat12_offset c" "fat12_offset d + 1 \<noteq> fat12_offset c + 1"
    unfolding offset_eq using triple_sep [OF False, of "unat c mod 2" "unat d mod 2"] by simp_all
  then show ?thesis by (intro get_next_cong set_next_bytes(5)) simp_all
next
  case True
  have "unat c \<noteq> unat d" using assms by (simp add: word_unat_eq_iff)
  then have par: "unat c mod 2 \<noteq> unat d mod 2" using True by (metis div_mult_mod_eq)
  show ?thesis
  proof (rule bit_word_eqI)
    fix n assume "n < LENGTH(16)"
    show "bit (fat12_get_next_cluster d (fat12_set_next_cluster c v t)) n = bit (fat12_get_next_cluster d t) n"
    proof (cases "odd (unat c)")
      case odd: True
      then have o: "even (unat d)" "fat12_offset d + 1 = fat12_offset c"
        using par True by (auto simp: offset_eq mod2_eq_if split: if_splits)
      have "fat12_offset d \<noteq> fat12_offset c" "fat12_offset d \<noteq> fat12_offset c + 1" using o(2) by simp_all
      then show ?thesis
        unfolding get_next_bits o(2) using o(1) set_next_bytes(1) [OF odd] by (auto simp: set_next_bytes(5))
    next
      case even: False
      then have o: "odd (unat d)" "fat12_offset c + 1 = fat12_offset d"
        using par True by (auto simp: offset_eq mod2_eq_if split: if_splits)
      have "fat12_offset d + 1 \<noteq> fat12_offset c" "fat12_offset d + 1 \<noteq> fat12_offset c + 1" using o(2) by simp_all
      then show ?thesis
        unfolding get_next_bits using o(1) set_next_bytes(4) [of c, unfolded o(2)] even by (auto simp: set_next_bytes(5))
    qed
  qed
qed

definition fat12_data :: "u16 \<Rightarrow> bool" where
  "fat12_data c \<longleftrightarrow> c \<ge> 2 \<and> c < FAT12_CLUSTER_BAD"

interpretation fat12_tab: cluster_table fat12_get_next_cluster fat12_set_next_cluster fat12_data FAT12_CLUSTER_FREE
proof unfold_locales
  show "finite {c. fat12_data c}" by simp
  show "fat12_get_next_cluster c (fat12_set_next_cluster c FAT12_CLUSTER_FREE t) = FAT12_CLUSTER_FREE" for c t
    by (simp add: fat12_get_set_same fat12_consts)
  show "d \<noteq> c \<Longrightarrow> fat12_get_next_cluster d (fat12_set_next_cluster c v t) = fat12_get_next_cluster d t" for c d v t
    using fat12_get_set_other by metis
  show "\<not> fat12_data FAT12_CLUSTER_FREE" by (simp add: fat12_data_def fat12_consts word_le_nat_alt)
qed

text \<open>\<open>while (cluster >= 2 && cluster < FAT12_CLUSTER_BAD)\<close>\<close>

function fat12_free_cluster_chain :: "u16 \<Rightarrow> buf \<Rightarrow> buf" where
  "fat12_free_cluster_chain cluster t =
     (if cluster \<ge> 2 \<and> cluster < FAT12_CLUSTER_BAD
      then fat12_free_cluster_chain (fat12_get_next_cluster cluster t)
             (fat12_set_next_cluster cluster FAT12_CLUSTER_FREE t)
      else t)"
  by pat_completeness auto
termination
proof (relation "measures [\<lambda>(c, t). card (fat12_tab.used t), \<lambda>(c, t). if fat12_data c then 1 else 0]")
  fix c :: u16 and t :: buf
  assume "2 \<le> c \<and> c < FAT12_CLUSTER_BAD"
  then have c: "fat12_data c" by (simp add: fat12_data_def)
  show "((fat12_get_next_cluster c t, fat12_set_next_cluster c FAT12_CLUSTER_FREE t), c, t)
    \<in> measures [\<lambda>(c, t). card (fat12_tab.used t), \<lambda>(c, t). if fat12_data c then 1 else 0]"
  proof (cases "fat12_get_next_cluster c t = FAT12_CLUSTER_FREE")
    case True
    then show ?thesis using fat12_tab.used_same [OF c True] fat12_tab.empty_no_data c by simp
  next
    case False
    then show ?thesis using fat12_tab.used_less [OF c False] by simp
  qed
qed simp

declare fat12_free_cluster_chain.simps [simp del]

lemma free_chain_step:
  "fat12_data c \<Longrightarrow> fat12_free_cluster_chain c t =
     fat12_free_cluster_chain (fat12_get_next_cluster c t) (fat12_set_next_cluster c FAT12_CLUSTER_FREE t)"
  "\<not> fat12_data c \<Longrightarrow> fat12_free_cluster_chain c t = t"
  by (auto simp: fat12_data_def fat12_free_cluster_chain.simps [of c t])

lemma free_chain_result:
  "fat12_get_next_cluster d (fat12_free_cluster_chain c t) =
     (if on_chain fat12_data (\<lambda>x. fat12_get_next_cluster x t) c d then 0 else fat12_get_next_cluster d t)"
proof (induction c t rule: fat12_free_cluster_chain.induct)
  case (1 c t)
  show ?case
  proof (cases "fat12_data c")
    case True
    let ?t = "fat12_set_next_cluster c FAT12_CLUSTER_FREE t"
    have "fat12_get_next_cluster d ?t = (if d = c then 0 else fat12_get_next_cluster d t)"
      using fat12_tab.get_put_empty [OF True] fat12_tab.get_put_other [OF True] by (simp add: fat12_consts)
    with 1 [folded fat12_data_def, OF True] fat12_tab.chain_put [OF True, of t d] show ?thesis
      by (auto simp: free_chain_step(1) [OF True])
  next
    case False
    then show ?thesis using on_chain_data free_chain_step(2) by metis
  qed
qed

section \<open>Allocation\<close>

text \<open>\<open>None\<close> stands for the divide error when \<open>bpb_sec_per_clust\<close> is 0.\<close>

definition fat12_total_clusters :: "'d fat12 \<Rightarrow> u16" where
  "fat12_total_clusters s =
     (let data_sectors = ucast (ucast (bpb_total_secs s) - data_area_lba s) :: u16
      in data_sectors div ucast (bpb_sec_per_clust s))"

definition fat12_alloc_cluster :: "'d fat12 \<Rightarrow> (u16 \<times> 'd fat12) option" where
  "fat12_alloc_cluster s =
     (if bpb_sec_per_clust s = 0 then None
      else case find (\<lambda>c. fat12_get_next_cluster (of_nat c) (fat_table s) = FAT12_CLUSTER_FREE)
                  [2..<min (unat (fat12_total_clusters s) + 2) (unat FAT12_CLUSTER_BAD)] of
        Some c \<Rightarrow> Some (of_nat c, s\<lparr>fat_table := fat12_set_next_cluster (of_nat c) FAT12_CLUSTER_END_MIN (fat_table s)\<rparr>)
      | None \<Rightarrow> Some (0, s))"

definition fat12_calc_needed_clusters :: "u32 \<Rightarrow> 'd fat12 \<Rightarrow> u16 option" where
  "fat12_calc_needed_clusters file_size s =
     (let bytes_per_cluster = ucast (bpb_sec_per_clust s) * ucast (bpb_bytes_per_sec s) :: u32 in
      if bytes_per_cluster = 0 then None
      else Some (ucast ((file_size + bytes_per_cluster - 1) div bytes_per_cluster)))"

section \<open>Directory search and listing\<close>

fun fat12_find_from :: "nat \<Rightarrow> nat \<Rightarrow> buf \<Rightarrow> u8 list \<Rightarrow> nat option" where
  "fat12_find_from 0 i b name83 = None"
| "fat12_find_from (Suc k) i b name83 =
     (let e = get_entry b i in
      if hd (de_name e) = 0 then None
      else if \<not> live_entry e then fat12_find_from k (Suc i) b name83
      else if name_cmp (de_name e) name83 = 0 then Some i
      else fat12_find_from k (Suc i) b name83)"

definition fat12_find_file :: "u8 list \<Rightarrow> 'd fat12 \<Rightarrow> nat option" where
  "fat12_find_file name s =
     fat12_find_from (unat (bpb_root_entries s)) 0 (root_dir_buf s) (convert_to_83 name)"

text \<open>What \<open>fat12_list_root\<close> prints per entry: the name and the size.\<close>

fun fat12_list_from :: "nat \<Rightarrow> nat \<Rightarrow> buf \<Rightarrow> (u8 list \<times> u32) list" where
  "fat12_list_from 0 i b = []"
| "fat12_list_from (Suc k) i b =
     (let e = get_entry b i in
      if hd (de_name e) = 0 then []
      else if \<not> live_entry e then fat12_list_from k (Suc i) b
      else (shown_name (de_name e), de_file_size e) # fat12_list_from k (Suc i) b)"

definition fat12_list_root :: "'d fat12 \<Rightarrow> (u8 list \<times> u32) list" where
  "fat12_list_root s = fat12_list_from (unat (bpb_root_entries s)) 0 (root_dir_buf s)"

section \<open>Loading a file\<close>

text \<open>
  The loop over the sectors of a cluster: the flag says whether the function goes on (false: it returns because of a read error).
\<close>

fun fat12_load_cluster ::
  "nat \<Rightarrow> u32 \<Rightarrow> u32 \<Rightarrow> u32 \<Rightarrow> 'd fat12 \<Rightarrow> u32 \<Rightarrow> (u32 \<Rightarrow> u8) \<Rightarrow> bool \<times> u32 \<times> (u32 \<Rightarrow> u8)" where
  "fat12_load_cluster 0 lba file_size dest s loaded ram = (True, loaded, ram)"
| "fat12_load_cluster (Suc k) lba file_size dest s loaded ram =
     (case do_read s lba 1 of
        None \<Rightarrow> (False, loaded, ram)
      | Some sector_buf \<Rightarrow>
          let copy_size = (if loaded + 512 > file_size then file_size - loaded else 512) in
          if copy_size = 0 then (True, loaded, ram)
          else fat12_load_cluster k (lba + 1) file_size dest s (loaded + copy_size)
                 (copy_ram (dest + loaded) copy_size sector_buf ram))"

definition fat12_cluster_lba :: "u16 \<Rightarrow> 'd fat12 \<Rightarrow> u32" where
  "fat12_cluster_lba c s = data_area_lba s + ucast (c - 2) * ucast (bpb_sec_per_clust s)"

fun fat12_load_chain ::
  "nat \<Rightarrow> u16 \<Rightarrow> u32 \<Rightarrow> u32 \<Rightarrow> 'd fat12 \<Rightarrow> u32 \<Rightarrow> (u32 \<Rightarrow> u8) \<Rightarrow> (u32 \<times> (u32 \<Rightarrow> u8)) option" where
  "fat12_load_chain 0 cluster file_size dest s loaded ram = None"
| "fat12_load_chain (Suc fuel) cluster file_size dest s loaded ram =
     (if cluster \<ge> 2 \<and> cluster < FAT12_CLUSTER_BAD
      then (case fat12_load_cluster (unat (bpb_sec_per_clust s)) (fat12_cluster_lba cluster s) file_size dest s loaded ram of
              (False, loaded, ram) \<Rightarrow> Some (loaded, ram)
            | (True, loaded, ram) \<Rightarrow>
                fat12_load_chain fuel (fat12_get_next_cluster cluster (fat_table s)) file_size dest s loaded ram)
      else Some (loaded, ram))"

definition fat12_load_file ::
  "nat \<Rightarrow> dir_entry \<Rightarrow> u32 \<Rightarrow> 'd fat12 \<Rightarrow> (u32 \<Rightarrow> u8) \<Rightarrow> (u32 \<times> (u32 \<Rightarrow> u8)) option" where
  "fat12_load_file fuel entry load_addr s ram =
     (let cluster = de_cluster_lo entry in
      if cluster < 2 \<or> cluster \<ge> FAT12_CLUSTER_BAD then Some (0, ram)
      else fat12_load_chain fuel cluster (de_file_size entry) load_addr s 0 ram)"

section \<open>Writing, deleting, renaming\<close>

definition fat12_check_writable :: "'d fat12 \<Rightarrow> bool" where
  "fat12_check_writable s \<longleftrightarrow> fat12_write s \<noteq> None"

fun flush_copies :: "nat list \<Rightarrow> 'd fat12 \<Rightarrow> bool \<times> 'd fat12" where
  "flush_copies [] s = (True, s)"
| "flush_copies (i # js) s =
     (let (ok, s) = do_write (fat_start_lba s + of_nat i * ucast (bpb_fat_size s)) (ucast (bpb_fat_size s)) (fat_table s) s
      in if ok then flush_copies js s else (False, s))"

definition fat12_flush_fat :: "'d fat12 \<Rightarrow> bool \<times> 'd fat12" where
  "fat12_flush_fat s = flush_copies [0..<unat (bpb_num_fats s)] s"

definition fat12_flush_root_dir :: "'d fat12 \<Rightarrow> (bool \<times> 'd fat12) option" where
  "fat12_flush_root_dir s =
     (if bpb_bytes_per_sec s = 0 then None
      else let root_dir_size = (ucast (bpb_root_entries s) * 32 + ucast (bpb_bytes_per_sec s) - 1) div ucast (bpb_bytes_per_sec s) :: u32
           in Some (do_write (root_dir_lba s) (ucast root_dir_size) (root_dir_buf s) s))"

definition fat12_flush_sector :: "u32 \<Rightarrow> buf \<Rightarrow> 'd fat12 \<Rightarrow> bool \<times> 'd fat12" where
  "fat12_flush_sector lba b s = do_write lba 1 b s"

text \<open>
  The directory scan of \<open>fat12_write_file\<close>: the index where it stopped, the first reusable entry (0xFFFF: none) and the entry with the same
  name.
\<close>

fun scan_root :: "nat \<Rightarrow> nat \<Rightarrow> buf \<Rightarrow> u8 list \<Rightarrow> nat \<Rightarrow> nat \<times> nat \<times> nat option" where
  "scan_root 0 i b name83 free_entry = (i, free_entry, None)"
| "scan_root (Suc k) i b name83 free_entry =
     (let e = get_entry b i; first = hd (de_name e) in
      if first = 0 then (i, if free_entry = 0xFFFF then i else free_entry, None)
      else if first = 0xE5 then scan_root k (Suc i) b name83 (if free_entry = 0xFFFF then i else free_entry)
      else if \<not> live_entry e then scan_root k (Suc i) b name83 free_entry
      else if name_cmp (de_name e) name83 = 0 then (i, free_entry, Some i)
      else scan_root k (Suc i) b name83 free_entry)"

text \<open>
  The allocation loop.  \<open>None\<close>: the code has no defined behaviour (divide error, or the 513th element of \<open>cluster_chain[512]\<close> is
  written).  The flag is false when the disk is full; the clusters taken so far are then freed again.
\<close>

fun alloc_chain :: "nat \<Rightarrow> u16 \<Rightarrow> u16 list \<Rightarrow> 'd fat12 \<Rightarrow> (bool \<times> u16 list \<times> 'd fat12) option" where
  "alloc_chain 0 prev chain s = Some (True, chain, s)"
| "alloc_chain (Suc k) prev chain s = (case fat12_alloc_cluster s of
     None \<Rightarrow> None
   | Some (cl, s) \<Rightarrow>
       if cl = 0
       then Some (False, chain, if chain \<noteq> [] then s\<lparr>fat_table := fat12_free_cluster_chain (hd chain) (fat_table s)\<rparr> else s)
       else if length chain \<ge> 512 then None
       else alloc_chain k cl (chain @ [cl])
              (if prev \<noteq> 0 then s\<lparr>fat_table := fat12_set_next_cluster prev cl (fat_table s)\<rparr> else s))"

text \<open>
  The sectors of one cluster; the buffer on the stack starts with arbitrary bytes \<open>junk\<close>.
\<close>

fun write_cluster :: "buf \<Rightarrow> nat \<Rightarrow> u32 \<Rightarrow> buf \<Rightarrow> u32 \<Rightarrow> u32 \<Rightarrow> 'd fat12 \<Rightarrow> bool \<times> u32 \<times> 'd fat12" where
  "write_cluster junk 0 lba data sz written s = (True, written, s)"
| "write_cluster junk (Suc k) lba data sz written s =
     (let bps = ucast (bpb_bytes_per_sec s) :: u32;
          copy_size = (if written + bps > sz then sz - written else bps);
          sector_buf = copy_to (unat copy_size) (unat bps - unat copy_size) (\<lambda>_. 0)
                         (copy_to 0 (unat copy_size) (\<lambda>j. data (unat written + j)) junk);
          (ok, s) = do_write lba 1 sector_buf s
      in if \<not> ok then (False, written, s)
         else if written + copy_size \<ge> sz then (True, written + copy_size, s)
         else write_cluster junk k (lba + 1) data sz (written + copy_size) s)"

fun write_chain :: "buf \<Rightarrow> u16 list \<Rightarrow> buf \<Rightarrow> u32 \<Rightarrow> u32 \<Rightarrow> 'd fat12 \<Rightarrow> bool \<times> 'd fat12" where
  "write_chain junk [] data sz written s = (True, s)"
| "write_chain junk (c # cs) data sz written s =
     (let (ok, written, s) = write_cluster junk (unat (bpb_sec_per_clust s)) (fat12_cluster_lba c s) data sz written s
      in if ok then write_chain junk cs data sz written s else (False, s))"

text \<open>Read the sector of the directory that holds the byte \<open>entry_offset\<close>, change it there, write it back.\<close>

definition update_dir_sector :: "nat \<Rightarrow> nat \<Rightarrow> buf \<Rightarrow> 'd fat12 \<Rightarrow> (bool \<times> 'd fat12) option" where
  "update_dir_sector entry_offset n bytes s =
     (let bps = unat (bpb_bytes_per_sec s) in
      if bps = 0 then None
      else let sector_lba = root_dir_lba s + of_nat (entry_offset div bps); k = entry_offset mod bps in
        case do_read s sector_lba 1 of
          None \<Rightarrow> Some (False, s)
        | Some sector_buf \<Rightarrow>
            if k + n > 512 then None
            else Some (do_write sector_lba 1 (copy_to k n bytes sector_buf) s))"

definition new_entry :: "u8 list \<Rightarrow> dir_entry" where
  "new_entry name83 = \<lparr>de_name = name83, de_attr = ATTR_ARCHIVE, de_reserved = 0, de_create_time_ms = 0, de_create_time = 0,
     de_create_date = 0, de_access_date = 0, de_cluster_hi = 0, de_modify_time = 0, de_modify_date = 0, de_cluster_lo = 0,
     de_file_size = 0\<rparr>"

definition write_entry :: "nat \<Rightarrow> dir_entry \<Rightarrow> 'd fat12 \<Rightarrow> (bool \<times> 'd fat12) option" where
  "write_entry i e s =
     (let s = s\<lparr>root_dir_buf := put_entry i e (root_dir_buf s)\<rparr> in
      case update_dir_sector (32 * i) 32 (\<lambda>j. root_dir_buf s (32 * i + j)) s of
        None \<Rightarrow> None
      | Some (False, s) \<Rightarrow> Some (False, s)
      | Some (True, s) \<Rightarrow> Some (fat12_flush_fat s))"

definition fat12_write_file :: "buf \<Rightarrow> u8 list \<Rightarrow> buf \<Rightarrow> u32 \<Rightarrow> 'd fat12 \<Rightarrow> (bool \<times> 'd fat12) option" where
  "fat12_write_file junk name data sz s =
     (if \<not> fat12_check_writable s then Some (False, s)
      else let name83 = convert_to_83 name in
      case fat12_calc_needed_clusters sz s of None \<Rightarrow> None | Some n \<Rightarrow>
      let num_clusters = (if n = 0 then 1 else n);
          entries = unat (bpb_root_entries s);
          (i, fe, existing) = scan_root entries 0 (root_dir_buf s) name83 0xFFFF;
          free_entry = (if fe = 0xFFFF \<and> i < entries then i else fe)
      in if existing = None \<and> free_entry \<ge> entries then Some (False, s)
      else let (target, s) = (case existing of
                   None \<Rightarrow> (free_entry, s)
                 | Some x \<Rightarrow>
                     let c = de_cluster_lo (get_entry (root_dir_buf s) x) in
                     (x, if c \<ge> 2 \<and> c < FAT12_CLUSTER_BAD
                         then s\<lparr>fat_table := fat12_free_cluster_chain c (fat_table s)\<rparr> else s));
               base = (if existing = None then new_entry name83 else get_entry (root_dir_buf s) target)
      in if sz = 0 then write_entry target (base\<lparr>de_cluster_lo := 0, de_file_size := sz\<rparr>) s
      else case alloc_chain (unat num_clusters) 0 [] s of
        None \<Rightarrow> None
      | Some (False, _, s) \<Rightarrow> Some (False, s)
      | Some (True, chain, s) \<Rightarrow>
          if bpb_bytes_per_sec s > 512 then None
          else case write_chain junk chain data sz 0 s of
            (False, s) \<Rightarrow>
              Some (False, snd (fat12_flush_fat (s\<lparr>fat_table := fat12_free_cluster_chain (hd chain) (fat_table s)\<rparr>)))
          | (True, s) \<Rightarrow> write_entry target (base\<lparr>de_cluster_lo := hd chain, de_file_size := sz\<rparr>) s)"

definition fat12_delete_file :: "u8 list \<Rightarrow> 'd fat12 \<Rightarrow> (bool \<times> 'd fat12) option" where
  "fat12_delete_file name s =
     (if \<not> fat12_check_writable s then Some (False, s)
      else case fat12_find_file name s of
        None \<Rightarrow> Some (False, s)
      | Some i \<Rightarrow>
          let c = de_cluster_lo (get_entry (root_dir_buf s) i);
              s = (if c \<ge> 2 \<and> c < FAT12_CLUSTER_BAD
                   then s\<lparr>fat_table := fat12_free_cluster_chain c (fat_table s)\<rparr> else s);
              s = s\<lparr>root_dir_buf := (root_dir_buf s)(32 * i := 0xE5)\<rparr>
          in case update_dir_sector (32 * i) 1 (\<lambda>_. 0xE5) s of
               None \<Rightarrow> None
             | Some (False, s) \<Rightarrow> Some (False, s)
             | Some (True, s) \<Rightarrow> Some (fat12_flush_fat s))"

definition fat12_rename_file :: "u8 list \<Rightarrow> u8 list \<Rightarrow> 'd fat12 \<Rightarrow> (bool \<times> 'd fat12) option" where
  "fat12_rename_file old_name new_name s =
     (if \<not> fat12_check_writable s then Some (False, s)
      else case fat12_find_file old_name s of
        None \<Rightarrow> Some (False, s)
      | Some i \<Rightarrow>
          let new83 = convert_to_83 new_name;
              s = s\<lparr>root_dir_buf := set_name (32 * i) new83 (root_dir_buf s)\<rparr>
          in update_dir_sector (32 * i) 11 (\<lambda>j. new83 ! j) s)"

end
