(* ===== verification/Fat12_Spec.thy ===== *)
theory Fat12_Spec
  imports Fat12
begin

text \<open>
  Properties of the FAT12 driver: the packed table, allocation and release of cluster chains, loading a file, deleting and
  writing.
\<close>

unbundle bit_operations_syntax

section \<open>Loading along a chain\<close>

text \<open>\<open>cs\<close> is the complete chain from \<open>c\<close>.\<close>

fun chain_list :: "buf \<Rightarrow> u16 \<Rightarrow> u16 list \<Rightarrow> bool" where
  "chain_list t c [] \<longleftrightarrow> \<not> fat12_data c"
| "chain_list t c (x # xs) \<longleftrightarrow> c = x \<and> fat12_data c \<and> chain_list t (fat12_get_next_cluster c t) xs"

text \<open>The bytes of a chain on a disk with sectors \<open>sec\<close>.\<close>

definition chain_bytes :: "(u32 \<Rightarrow> buf) \<Rightarrow> 'd fat12 \<Rightarrow> u16 list \<Rightarrow> u8 list" where
  "chain_bytes sec s cs = concat (map (\<lambda>c. sector_bytes sec (unat (bpb_sec_per_clust s)) (fat12_cluster_lba c s)) cs)"

lemma load_cluster_ok:
  assumes fs: "fs + 512 \<le> 4294967295"
  shows "(\<And>q. q < k \<Longrightarrow> do_read s (lba + of_nat q) 1 = Some (sec (lba + of_nat q))) \<Longrightarrow> fat12_load_cluster k lba (of_nat fs) addr s (of_nat (min fs (length pre))) (put_img addr fs pre ram) =
    (True, of_nat (min fs (length pre + 512 * k)), put_img addr fs (pre @ sector_bytes sec k lba) ram)"
proof (induction k arbitrary: lba pre)
  case (Suc k)
  have rd: "do_read s lba 1 = Some (sec lba)" using Suc.prems [of 0] by simp
  have rd': "do_read s (lba + 1 + of_nat q) 1 = Some (sec (lba + 1 + of_nat q))" if "q < k" for q
    using Suc.prems [of "Suc q"] that by (simp add: add.assoc)
  let ?P = "length pre" and ?m = "min fs (length pre)"
  define c where "c = min fs (?P + 512) - ?m"
  have m: "unat (of_nat ?m :: u32) = ?m" "unat (of_nat fs :: u32) = fs" "unat (of_nat ?m + 512 :: u32) = ?m + 512"
    using fs by (simp_all add: unat_of_nat_u32 unat_word_ariths)
  have c: "(if of_nat ?m + 512 > (of_nat fs :: u32) then of_nat fs - of_nat ?m else 512) = (of_nat c :: u32)"
    using m by (auto simp: word_less_nat_alt c_def min_def)
  have sum: "of_nat ?m + of_nat c = (of_nat (min fs (?P + 512)) :: u32)" unfolding c_def by (simp flip: of_nat_add)
  have img: "copy_ram (addr + of_nat ?m) (of_nat c) (sec lba) (put_img addr fs pre ram) = put_img addr fs (pre @ map (sec lba) [0..<512]) ram"
    unfolding c_def by (rule copy_step [OF refl fs])
  show ?case
  proof (cases "c = 0")
    case True
    then have "fs \<le> ?P" by (auto simp: c_def min_def split: if_splits)
    then have "min fs (?P + 512 * Suc k) = ?m" "put_img addr fs (pre @ sector_bytes sec (Suc k) lba) ram = put_img addr fs pre ram"
      by (auto simp: put_img_def nth_append fun_eq_iff)
    moreover have "fat12_load_cluster (Suc k) lba (of_nat fs) addr s (of_nat ?m) (put_img addr fs pre ram) =
        (True, of_nat ?m, put_img addr fs pre ram)"
      unfolding fat12_load_cluster.simps rd option.case Let_def c using True by simp
    ultimately show ?thesis by simp
  next
    case False
    have "c \<le> 512" by (auto simp: c_def)
    then have "unat (of_nat c :: u32) = c" by (intro unat_of_nat_u32) simp
    then have "(of_nat c :: u32) \<noteq> 0" using False by auto
    then have "fat12_load_cluster (Suc k) lba (of_nat fs) addr s (of_nat ?m) (put_img addr fs pre ram) =
        fat12_load_cluster k (lba + 1) (of_nat fs) addr s (of_nat (min fs (length (pre @ map (sec lba) [0..<512]))))
          (put_img addr fs (pre @ map (sec lba) [0..<512]) ram)"
      unfolding fat12_load_cluster.simps rd option.case Let_def c sum img by simp
    then show ?thesis using Suc.IH [of "lba + 1" "pre @ map (sec lba) [0..<512]", OF rd'] by (simp add: algebra_simps)
  qed
qed simp

text \<open>The sectors of a cluster can be read.\<close>

definition readable :: "'d fat12 \<Rightarrow> (u32 \<Rightarrow> buf) \<Rightarrow> u16 \<Rightarrow> bool" where
  "readable s sec c \<longleftrightarrow> (\<forall>q<unat (bpb_sec_per_clust s).
     do_read s (fat12_cluster_lba c s + of_nat q) 1 = Some (sec (fat12_cluster_lba c s + of_nat q)))"

lemma load_chain_ok:
  assumes fs: "fs + 512 \<le> 4294967295"
  shows "chain_list (fat_table s) c cs \<Longrightarrow> (\<And>x. x \<in> set cs \<Longrightarrow> readable s sec x) \<Longrightarrow> length cs < fuel \<Longrightarrow>
    fat12_load_chain fuel c (of_nat fs) addr s (of_nat (min fs (length pre))) (put_img addr fs pre ram) =
      Some (of_nat (min fs (length (pre @ chain_bytes sec s cs))), put_img addr fs (pre @ chain_bytes sec s cs) ram)"
proof (induction cs arbitrary: c pre fuel)
  case Nil
  then obtain f where f: "fuel = Suc f" by (cases fuel) auto
  then show ?case using Nil by (auto simp: fat12_data_def chain_bytes_def)
next
  case (Cons x xs)
  then obtain f where f: "fuel = Suc f" by (cases fuel) auto
  have rd: "do_read s (fat12_cluster_lba c s + of_nat q) 1 = Some (sec (fat12_cluster_lba c s + of_nat q))" if "q < unat (bpb_sec_per_clust s)" for q
    using Cons.prems(1) Cons.prems(2) [of x] that by (auto simp: readable_def)
  let ?b = "sector_bytes sec (unat (bpb_sec_per_clust s)) (fat12_cluster_lba c s)"
  have len: "length (sector_bytes sec k l) = 512 * k" for k l by (induction k arbitrary: l) simp_all
  have data: "2 \<le> c" "c < FAT12_CLUSTER_BAD" using Cons.prems(1) by (auto simp: fat12_data_def)
  have "fat12_load_chain fuel c (of_nat fs) addr s (of_nat (min fs (length pre))) (put_img addr fs pre ram) =
      fat12_load_chain f (fat12_get_next_cluster c (fat_table s)) (of_nat fs) addr s
        (of_nat (min fs (length (pre @ ?b)))) (put_img addr fs (pre @ ?b) ram)"
    using data f load_cluster_ok [OF fs rd, where addr = addr and pre = pre and ram = ram]
    by (simp add: len)
  also have "\<dots> = Some (of_nat (min fs (length ((pre @ ?b) @ chain_bytes sec s xs))), put_img addr fs ((pre @ ?b) @ chain_bytes sec s xs) ram)"
    using Cons.prems f by (intro Cons.IH) auto
  finally show ?case using Cons.prems by (simp add: chain_bytes_def)
qed

text \<open>A chain that never leaves the data clusters keeps the loop going.\<close>

lemma load_chain_loops:
  assumes rd: "\<And>l. do_read s l 1 = Some (sec l)"
    and cyc: "\<And>d. on_chain fat12_data (\<lambda>x. fat12_get_next_cluster x (fat_table s)) c d \<Longrightarrow>
      fat12_data (fat12_get_next_cluster d (fat_table s))" and c: "fat12_data c"
  shows "fat12_load_chain fuel c fsz addr s n ram = None"
  using cyc c
proof (induction fuel arbitrary: c n ram)
  case (Suc fuel)
  let ?n = "fat12_get_next_cluster c (fat_table s)"
  have ok: "fst (fat12_load_cluster k lba fsz addr s n ram)" for k lba n ram
    by (induction k arbitrary: lba n ram) (simp_all add: rd Let_def)
  have "fat12_data ?n" using Suc.prems by (blast intro: on_chain.chain_here)
  then have "fat12_load_chain fuel ?n fsz addr s m r = None" for m r
    using Suc.prems by (intro Suc.IH) (auto intro: on_chain.chain_next)
  then show ?case
    using ok [of "unat (bpb_sec_per_clust s)" "fat12_cluster_lba c s" n ram] Suc.prems(2)
    by (auto simp: fat12_data_def split: prod.splits bool.splits)
qed simp

section \<open>Allocation\<close>

definition fat12_range :: "'d fat12 \<Rightarrow> nat set" where
  "fat12_range s = {2..<min (unat (fat12_total_clusters s) + 2) 0xFF7}"

lemma fat12_range_data: "c \<in> fat12_range s \<Longrightarrow> fat12_data (of_nat c) \<and> unat (of_nat c :: u16) = c"
  by (auto simp: fat12_range_def fat12_data_def fat12_consts word_le_nat_alt word_less_nat_alt unat_of_nat_u16)

lemma alloc_cluster_cases:
  assumes "bpb_sec_per_clust s \<noteq> 0"
  shows "fat12_alloc_cluster s = Some (0, s) \<and> (\<forall>c \<in> fat12_range s. fat12_get_next_cluster (of_nat c) (fat_table s) \<noteq> 0) \<or>
    (\<exists>c \<in> fat12_range s. fat12_get_next_cluster (of_nat c) (fat_table s) = 0 \<and>
       (\<forall>d \<in> fat12_range s. d < c \<longrightarrow> fat12_get_next_cluster (of_nat d) (fat_table s) \<noteq> 0) \<and>
       fat12_alloc_cluster s = Some (of_nat c, s\<lparr>fat_table := fat12_set_next_cluster (of_nat c) 0xFF8 (fat_table s)\<rparr>))"
proof (cases "find (\<lambda>c. fat12_get_next_cluster (of_nat c) (fat_table s) = FAT12_CLUSTER_FREE)
      [2..<min (unat (fat12_total_clusters s) + 2) (unat FAT12_CLUSTER_BAD)]")
  case None
  from find_upt_None [THEN iffD1, OF None]
  have "\<forall>c \<in> fat12_range s. fat12_get_next_cluster (of_nat c) (fat_table s) \<noteq> 0"
    by (auto simp: fat12_range_def fat12_consts)
  moreover have "fat12_alloc_cluster s = Some (0, s)"
    unfolding fat12_alloc_cluster_def None using assms by simp
  ultimately show ?thesis by blast
next
  case (Some c)
  from find_upt_Some [THEN iffD1, OF Some]
  have c: "c \<in> fat12_range s" "fat12_get_next_cluster (of_nat c) (fat_table s) = 0"
      "\<forall>d \<in> fat12_range s. d < c \<longrightarrow> fat12_get_next_cluster (of_nat d) (fat_table s) \<noteq> 0"
    by (auto simp: fat12_range_def fat12_consts)
  moreover have "fat12_alloc_cluster s = Some (of_nat c, s\<lparr>fat_table := fat12_set_next_cluster (of_nat c) 0xFF8 (fat_table s)\<rparr>)"
    unfolding fat12_alloc_cluster_def Some using assms by (simp add: fat12_consts)
  ultimately show ?thesis by blast
qed

text \<open>A chain is determined by its first cluster, so it has no repetition and at most 4085 clusters.\<close>

lemma chain_list_unique: "chain_list t c xs \<Longrightarrow> chain_list t c ys \<Longrightarrow> xs = ys"
proof (induction xs arbitrary: c ys)
  case Nil
  then show ?case by (cases ys) auto
next
  case (Cons x xs)
  then show ?case by (cases ys) auto
qed

lemma chain_list_suffix: "chain_list t c xs \<Longrightarrow> x \<in> set xs \<Longrightarrow> \<exists>ys. chain_list t x ys \<and> length ys \<le> length xs"
proof (induction xs arbitrary: c)
  case (Cons y ys)
  show ?case
  proof (cases "x = y")
    case True
    then show ?thesis using Cons.prems by (intro exI [of _ "y # ys"]) auto
  next
    case False
    then obtain zs where "chain_list t x zs" "length zs \<le> length ys" using Cons by auto
    then show ?thesis by (intro exI [of _ zs]) simp
  qed
qed simp

lemma chain_list_distinct: "chain_list t c xs \<Longrightarrow> distinct xs"
proof (induction xs arbitrary: c)
  case (Cons x xs)
  have "x \<notin> set xs"
  proof
    assume "x \<in> set xs"
    moreover have ch: "chain_list t (fat12_get_next_cluster x t) xs" "chain_list t x (x # xs)" using Cons.prems by auto
    ultimately obtain ys where "chain_list t x ys" "length ys \<le> length xs" using chain_list_suffix by blast
    with chain_list_unique [OF ch(2)] show False by fastforce
  qed
  then show ?case using Cons by auto
qed simp

lemma chain_list_data: "chain_list t c xs \<Longrightarrow> x \<in> set xs \<Longrightarrow> fat12_data x"
  by (induction xs arbitrary: c) auto

lemma chain_list_length: "chain_list t c xs \<Longrightarrow> length xs < 4096"
proof -
  assume c: "chain_list t c xs"
  have "unat ` set xs \<subseteq> {..<4095}"
    using chain_list_data [OF c] by (fastforce simp: fat12_data_def fat12_consts word_less_nat_alt)
  then have "card (unat ` set xs) \<le> card {..<4095 :: nat}" by (intro card_mono) auto
  moreover have "card (unat ` set xs) = length xs"
    using chain_list_distinct [OF c] by (simp add: card_image inj_on_def distinct_card word_unat_eq_iff)
  ultimately show ?thesis by simp
qed

section \<open>Properties\<close>

text \<open>
  A small volume for the witnesses: one sector per cluster, twelve sectors in all, data from sector 4 on; sector \<open>l\<close> is filled
  with the byte \<open>l\<close>.  Cluster 2 continues in cluster 3, which ends the chain; cluster 5 is its own successor.
\<close>

definition demo_table :: buf where
  "demo_table = fat12_set_next_cluster 5 5 (fat12_set_next_cluster 3 0xFFF (fat12_set_next_cluster 2 3 (\<lambda>_. 0)))"

definition demo12 :: "unit fat12" where
  "demo12 = \<lparr>fat12_read = Some (\<lambda>l n d. Some (\<lambda>_. ucast l)), fat12_write = Some (\<lambda>l n b d. (True, d)),
     bpb_bytes_per_sec = 512, bpb_sec_per_clust = 1, bpb_reserved_secs = 1, bpb_num_fats = 2, bpb_root_entries = 16,
     bpb_total_secs = 12, bpb_fat_size = 1, fat_table = demo_table,
     root_dir_buf = put_entry 0 ((new_entry (convert_to_83 [65, 46, 66]))\<lparr>de_cluster_lo := 2, de_file_size := 600\<rparr>) (\<lambda>_. 0),
     fat_start_lba = 1, root_dir_lba = 3, data_area_lba = 4, device = ()\<rparr>"

lemma demo_next:
  "fat12_get_next_cluster c demo_table = (if c = 5 then 5 else if c = 3 then 0xFFF else if c = 2 then 3 else 0)"
proof -
  have z: "fat12_get_next_cluster c (\<lambda>_. 0) = 0" by (simp add: fat12_get_next_cluster_def Let_def)
  show ?thesis
    unfolding demo_table_def
    by (cases "c = 5"; cases "c = 3"; cases "c = 2")
      (simp_all add: fat12_get_set_same fat12_get_set_other z)
qed

lemma demo_read: "do_read demo12 l n = Some (\<lambda>_. ucast l)"
  by (simp add: do_read_def demo12_def)

text \<open>The packed table: reading a cluster after writing one gives the twelve bits written for that cluster and the old value for every other one.\<close>

theorem fat12_table_roundtrip:
  "fat12_get_next_cluster d (fat12_set_next_cluster c v t) = (if d = c then v AND 0xFFF else fat12_get_next_cluster d t)"
  using fat12_get_set_same fat12_get_set_other by simp

text \<open>
  Freeing a chain ends on every table, also on a cyclic or corrupted one, and changes exactly the entries of the clusters on the chain: they
  become free.
\<close>

theorem fat12_free_chain_spec:
  "fat12_get_next_cluster d (fat12_free_cluster_chain c t) =
     (if on_chain fat12_data (\<lambda>x. fat12_get_next_cluster x t) c d then FAT12_CLUSTER_FREE else fat12_get_next_cluster d t)"
  using free_chain_result by (simp add: fat12_consts)

text \<open>
  \<open>fat12_alloc_cluster\<close> takes the least free cluster of the volume and marks it as the end of a chain; it returns 0 and changes
  nothing only when every cluster is in use.
\<close>

theorem fat12_alloc_cluster_spec:
  assumes "bpb_sec_per_clust s \<noteq> 0"
  shows "fat12_alloc_cluster s = Some (0, s) \<and> (\<forall>c \<in> fat12_range s. fat12_get_next_cluster (of_nat c) (fat_table s) \<noteq> 0) \<or>
    (\<exists>c \<in> fat12_range s. fat12_get_next_cluster (of_nat c) (fat_table s) = 0 \<and>
       (\<forall>d \<in> fat12_range s. d < c \<longrightarrow> fat12_get_next_cluster (of_nat d) (fat_table s) \<noteq> 0) \<and>
       fat12_alloc_cluster s = Some (of_nat c, s\<lparr>fat_table := fat12_set_next_cluster (of_nat c) 0xFF8 (fat_table s)\<rparr>))"
  using assms by (rule alloc_cluster_cases)

lemma demo_range: "fat12_range demo12 = {2..<10}"
  by (simp add: fat12_range_def fat12_total_clusters_def demo12_def)

theorem fat12_alloc_cluster_witness:
  "bpb_sec_per_clust demo12 \<noteq> 0 \<and>
   fat12_alloc_cluster demo12 = Some (4, demo12\<lparr>fat_table := fat12_set_next_cluster 4 0xFF8 demo_table\<rparr>)"
proof -
  have b: "bpb_sec_per_clust demo12 \<noteq> 0" and t: "fat_table demo12 = demo_table" by (simp_all add: demo12_def)
  have "(4 :: nat) \<in> fat12_range demo12" by (simp add: demo_range)
  moreover have "fat12_get_next_cluster (of_nat 4) demo_table = 0" by (simp add: demo_next)
  moreover have "c = 4" if "c \<in> fat12_range demo12" "fat12_get_next_cluster (of_nat c) demo_table = 0" "\<not> 4 < c" for c
  proof -
    have "c = 2 \<or> c = 3 \<or> c = 4" using that by (auto simp: demo_range)
    then show ?thesis using that(2) by (auto simp: demo_next)
  qed
  ultimately show ?thesis
    using fat12_alloc_cluster_spec [OF b] b unfolding t by (metis of_nat_numeral)
qed

text \<open>
  Loading a file whose chain is intact puts the first \<open>file_size\<close> bytes of its clusters, in the order of the chain, at the
  load address, leaves the rest of memory alone and returns the number of bytes; 4096 rounds of the loop are always enough.
\<close>

theorem fat12_load_file_spec:
  assumes "\<And>x. x \<in> set cs \<Longrightarrow> readable s sec x"
    and "chain_list (fat_table s) (de_cluster_lo entry) cs" and "cs \<noteq> []"
    and "unat (de_file_size entry) + 512 \<le> 4294967295"
  shows "fat12_load_file 4096 entry addr s ram =
    Some (of_nat (min (unat (de_file_size entry)) (length (chain_bytes sec s cs))),
      put_img addr (unat (de_file_size entry)) (chain_bytes sec s cs) ram)"
proof -
  have "fat12_data (de_cluster_lo entry)" using assms(2,3) by (cases cs) auto
  then have d: "\<not> (de_cluster_lo entry < 2 \<or> FAT12_CLUSTER_BAD \<le> de_cluster_lo entry)" by (auto simp: fat12_data_def)
  have "put_img addr (unat (de_file_size entry)) [] ram = ram" by (simp add: put_img_def)
  then show ?thesis
    using load_chain_ok [OF assms(4,2,1) chain_list_length [OF assms(2)], of addr "[]" ram] d
    unfolding fat12_load_file_def Let_def by simp
qed

theorem fat12_load_file_witness:
  "map_option (\<lambda>(n, r). (n, r 0x20000, r 0x20200, r 0x20258))
     (fat12_load_file 4096 (get_entry (root_dir_buf demo12) 0) 0x20000 demo12 (\<lambda>_. 0)) = Some (600, 4, 5, 0)"
proof -
  let ?e = "get_entry (root_dir_buf demo12) 0"
  have e: "de_cluster_lo ?e = 2" "de_file_size ?e = 600"
    by (simp_all add: demo12_def get_put_entry new_entry_def)
  have ch: "chain_list (fat_table demo12) 2 [2, 3]"
    by (simp add: demo12_def demo_next fat12_data_def fat12_consts word_le_nat_alt word_less_nat_alt)
  have b: "chain_bytes (\<lambda>l _. ucast l) demo12 [2, 3] = replicate 512 4 @ replicate 512 5"
    by (simp add: chain_bytes_def demo12_def fat12_cluster_lba_def map_replicate_const)
  have l: "fat12_load_file 4096 ?e 0x20000 demo12 r = Some (600, put_img 0x20000 600 (replicate 512 4 @ replicate 512 5) r)" for r
    using fat12_load_file_spec [of "[2, 3]" demo12 "\<lambda>l _. ucast l" ?e "0x20000" r] e ch b by (simp add: readable_def demo_read del: chain_list.simps)
  show ?thesis unfolding l by (simp add: put_img_def nth_append)
qed

text \<open>
  On a cyclic chain \<open>fat12_load_file\<close> never returns: no number of rounds is enough.
\<close>

theorem fat12_load_cyclic_diverges:
  assumes "\<And>l. do_read s l 1 = Some (sec l)" and "fat12_data (de_cluster_lo entry)"
    and "\<And>d. on_chain fat12_data (\<lambda>x. fat12_get_next_cluster x (fat_table s)) (de_cluster_lo entry) d \<Longrightarrow>
      fat12_data (fat12_get_next_cluster d (fat_table s))"
  shows "fat12_load_file fuel entry addr s ram = None"
  using load_chain_loops [OF assms(1,3,2)] assms(2)
  by (auto simp: fat12_load_file_def Let_def fat12_data_def)

theorem fat12_load_cyclic_witness:
  "fat12_load_file 1000000 ((new_entry [])\<lparr>de_cluster_lo := 5, de_file_size := 1\<rparr>) 0 demo12 (\<lambda>_. 0) = None"
proof -
  have 5: "d = 5" if "on_chain fat12_data (\<lambda>x. fat12_get_next_cluster x (fat_table demo12)) c d" "c = 5" for c d
    using that by (induction rule: on_chain.induct) (auto simp: demo12_def demo_next)
  have d: "fat12_data 5" by (simp add: fat12_data_def fat12_consts word_le_nat_alt word_less_nat_alt)
  have "fat12_data (fat12_get_next_cluster d (fat_table demo12))"
    if "on_chain fat12_data (\<lambda>x. fat12_get_next_cluster x (fat_table demo12)) 5 d" for d
    using 5 [OF that refl] d by (simp add: demo12_def demo_next)
  then show ?thesis by (intro fat12_load_cyclic_diverges [OF demo_read]) (simp_all add: d)
qed

end
