(* ===== verification/Fat12_Write.thy ===== *)
theory Fat12_Write
  imports Fat12_Spec
begin

text \<open>
  Writing a file to a FAT12 volume and loading it again: \<open>fat12_write_file\<close> followed by \<open>fat12_find_file\<close> and \<open>fat12_load_file\<close> of
  \<^verbatim>\<open>src/kernel/fs/fat12.c\<close>.
\<close>

unbundle bit_operations_syntax

section \<open>Disks and volumes\<close>

text \<open>
  The driver of a disk of \<open>cap\<close> sectors: a read of one sector gives its 512 bytes, a write that reports success has stored the bytes of its sectors and changed no other
  sector.  \<open>sec d l\<close> is the content of sector \<open>l\<close> in the state \<open>d\<close> of the device, \<open>good\<close> what the driver
  keeps of its state.  Nothing is said about sectors beyond the end.
\<close>

definition disk_ok :: "nat \<Rightarrow> ('d \<Rightarrow> bool) \<Rightarrow> 'd read_fn \<Rightarrow> 'd write_fn \<Rightarrow> ('d \<Rightarrow> u32 \<Rightarrow> buf) \<Rightarrow> bool" where
  "disk_ok cap good rd wr sec \<longleftrightarrow>
     (\<forall>l d. good d \<longrightarrow> unat l < cap \<longrightarrow> (\<exists>b. rd l 1 d = Some b \<and> (\<forall>i<512. b i = sec d l i))) \<and>
     (\<forall>l n b d d'. good d \<longrightarrow> unat l + unat n \<le> cap \<longrightarrow> wr l n b d = (True, d') \<longrightarrow> good d' \<and>
        (\<forall>m. unat m < cap \<longrightarrow> (\<forall>i<512. sec d' m i = (if unat (m - l) < unat n then b (512 * unat (m - l) + i) else sec d m i))))"

text \<open>A volume with sectors of 512 bytes whose tables, root directory and data clusters follow each other, on a disk of \<open>cap\<close> sectors.\<close>

definition volume :: "nat \<Rightarrow> 'd fat12 \<Rightarrow> bool" where
  "volume cap s \<longleftrightarrow> bpb_bytes_per_sec s = 512 \<and> bpb_sec_per_clust s \<noteq> 0 \<and> bpb_num_fats s \<noteq> 0 \<and>
     unat (fat_start_lba s) + unat (bpb_num_fats s) * unat (bpb_fat_size s) \<le> unat (root_dir_lba s) \<and>
     unat (root_dir_lba s) + (unat (bpb_root_entries s) + 15) div 16 \<le> unat (data_area_lba s) \<and>
     unat (data_area_lba s) \<le> unat (bpb_total_secs s) \<and> unat (bpb_total_secs s) \<le> cap"

section \<open>The chain of a new file\<close>

lemma end_no_data: "\<not> fat12_data 0xFF8" "\<not> fat12_data 0"
  by (simp_all add: fat12_data_def fat12_consts word_le_nat_alt word_less_nat_alt)

lemma data_12: "fat12_data x \<Longrightarrow> x AND 0xFFF = x"
proof -
  assume "fat12_data x"
  then have "unat x < 4096" by (simp add: fat12_data_def fat12_consts word_less_nat_alt)
  moreover have "unat (x AND mask 12) = unat x mod 2 ^ 12" by (rule unat_mask)
  ultimately have "x AND mask 12 = x" by (simp add: word_unat_eq_iff)
  then show ?thesis by (simp add: mask_eq_exp_minus_1)
qed

lemma chain_list_nonzero: "chain_list t c xs \<Longrightarrow> (\<And>x. x \<in> set xs \<Longrightarrow> fat12_get_next_cluster (last xs) t \<noteq> 0 \<Longrightarrow> fat12_get_next_cluster x t \<noteq> 0)"
proof (induction xs arbitrary: c)
  case (Cons y ys)
  show ?case
  proof (cases ys)
    case Nil
    then show ?thesis using Cons.prems by simp
  next
    case (Cons z zs)
    then have "fat12_get_next_cluster y t = z" "fat12_data z" using Cons.prems(1) by auto
    then have "fat12_get_next_cluster y t \<noteq> 0" using end_no_data(2) by auto
    then show ?thesis using Cons.prems Cons.IH [of "fat12_get_next_cluster y t" x] Cons by auto
  qed
qed simp

text \<open>Appending a cluster: mark it as the end and let the last cluster point to it.\<close>

lemma chain_list_snoc:
  "chain_list t c xs \<Longrightarrow> xs \<noteq> [] \<Longrightarrow> distinct xs \<Longrightarrow> x \<notin> set xs \<Longrightarrow> fat12_data x \<Longrightarrow>
   chain_list (fat12_set_next_cluster (last xs) x (fat12_set_next_cluster x 0xFF8 t)) c (xs @ [x])"
proof (induction xs arbitrary: c)
  case (Cons y ys)
  let ?t = "fat12_set_next_cluster (last (y # ys)) x (fat12_set_next_cluster x 0xFF8 t)"
  show ?case
  proof (cases ys)
    case Nil
    then have "fat12_get_next_cluster y ?t = x" "fat12_get_next_cluster x ?t = 0xFF8"
      using Cons.prems by (simp_all add: fat12_get_set_same fat12_get_set_other data_12)
    then show ?thesis using Nil Cons.prems end_no_data by auto
  next
    case (Cons z zs)
    then have ne: "last (y # ys) \<noteq> y" "x \<noteq> y" using Cons.prems by auto
    then have "fat12_get_next_cluster y ?t = fat12_get_next_cluster y t" by (simp add: fat12_get_set_other del: last.simps)
    moreover have "chain_list (fat12_set_next_cluster (last ys) x (fat12_set_next_cluster x 0xFF8 t)) (fat12_get_next_cluster y t) (ys @ [x])"
      by (rule Cons.IH) (use Cons.prems \<open>ys = z # zs\<close> in auto)
    moreover have "last (y # ys) = last ys" using \<open>ys = z # zs\<close> by simp
    ultimately show ?thesis using Cons.prems(1) by (auto simp del: last.simps)
  qed
qed simp

text \<open>What the allocation loop has built so far.\<close>

definition grown :: "'d fat12 \<Rightarrow> u16 list \<Rightarrow> 'd fat12 \<Rightarrow> bool" where
  "grown s0 chain s \<longleftrightarrow> (\<exists>t. s = s0\<lparr>fat_table := t\<rparr>) \<and> set chain \<subseteq> of_nat ` fat12_range s0 \<and>
     (chain \<noteq> [] \<longrightarrow> chain_list (fat_table s) (hd chain) chain \<and> fat12_get_next_cluster (last chain) (fat_table s) = 0xFF8) \<and>
     (\<forall>d. d \<notin> set chain \<longrightarrow> fat12_get_next_cluster d (fat_table s) = fat12_get_next_cluster d (fat_table s0)) \<and>
     (\<forall>d \<in> set chain. fat12_get_next_cluster d (fat_table s0) = 0)"

lemma grown_range: "grown s0 chain s \<Longrightarrow> fat12_range s = fat12_range s0 \<and> bpb_sec_per_clust s = bpb_sec_per_clust s0"
  by (auto simp: grown_def fat12_range_def fat12_total_clusters_def)

lemma grown_step:
  assumes g: "grown s0 chain s" and c: "c \<in> fat12_range s0" "fat12_get_next_cluster (of_nat c) (fat_table s) = 0"
  defines "cl \<equiv> of_nat c :: u16"
  defines "s1 \<equiv> s\<lparr>fat_table := fat12_set_next_cluster cl 0xFF8 (fat_table s)\<rparr>"
  shows "grown s0 (chain @ [cl]) (if chain \<noteq> [] then s1\<lparr>fat_table := fat12_set_next_cluster (last chain) cl (fat_table s1)\<rparr> else s1)"
proof -
  have cd: "fat12_data cl" using fat12_range_data [OF c(1)] by (simp add: cl_def)
  have self: "fat12_get_next_cluster cl (fat12_set_next_cluster cl 0xFF8 t) = 0xFF8" for t by (simp add: fat12_get_set_same)
  show ?thesis
  proof (cases "chain = []")
    case True
    then show ?thesis
      using g c cd self by (auto simp: grown_def s1_def cl_def fat12_get_set_other end_no_data)
  next
    case False
    then have ch: "chain_list (fat_table s) (hd chain) chain" "fat12_get_next_cluster (last chain) (fat_table s) = 0xFF8"
      using g by (simp_all add: grown_def)
    have new: "cl \<notin> set chain" using chain_list_nonzero [OF ch(1), of cl] ch(2) c(2) by (auto simp: cl_def)
    then have nl: "cl \<noteq> last chain" using False by auto
    let ?t = "fat12_set_next_cluster (last chain) cl (fat12_set_next_cluster cl 0xFF8 (fat_table s))"
    have "chain_list ?t (hd chain) (chain @ [cl])" by (rule chain_list_snoc [OF ch(1) False chain_list_distinct [OF ch(1)] new cd])
    moreover have "fat12_get_next_cluster cl ?t = 0xFF8" using nl self by (simp add: fat12_get_set_other)
    moreover have "fat12_get_next_cluster d ?t = fat12_get_next_cluster d (fat_table s)" if "d \<notin> set (chain @ [cl])" for d
    proof -
      have "d \<noteq> last chain" "d \<noteq> cl" using that False by auto
      then show ?thesis by (simp add: fat12_get_set_other)
    qed
    moreover have "fat12_get_next_cluster cl (fat_table s0) = 0" using g new c(2) by (simp add: grown_def cl_def)
    ultimately show ?thesis using g False c(1) by (auto simp: grown_def s1_def cl_def hd_append)
  qed
qed

lemma alloc_chain_grows:
  assumes "bpb_sec_per_clust s0 \<noteq> 0"
  shows "grown s0 chain s \<Longrightarrow> prev = (if chain = [] then 0 else last chain) \<Longrightarrow> alloc_chain k prev chain s = Some (True, cs, t) \<Longrightarrow>
    grown s0 cs t \<and> length cs = length chain + k"
proof (induction k arbitrary: chain prev s)
  case (Suc k)
  note g = Suc.prems(1)
  have spc: "bpb_sec_per_clust s \<noteq> 0" using grown_range [OF g] assms by simp
  obtain c where c: "c \<in> fat12_range s" "fat12_get_next_cluster (of_nat c) (fat_table s) = 0"
    and al: "fat12_alloc_cluster s = Some (of_nat c, s\<lparr>fat_table := fat12_set_next_cluster (of_nat c) 0xFF8 (fat_table s)\<rparr>)"
    using alloc_cluster_cases [OF spc] Suc.prems(3) by fastforce
  let ?cl = "of_nat c :: u16" and ?s1 = "s\<lparr>fat_table := fat12_set_next_cluster (of_nat c) 0xFF8 (fat_table s)\<rparr>"
  let ?s2 = "if chain \<noteq> [] then ?s1\<lparr>fat_table := fat12_set_next_cluster (last chain) ?cl (fat_table ?s1)\<rparr> else ?s1"
  have cd: "fat12_data ?cl" using fat12_range_data [OF c(1)] by simp
  then have nz: "?cl \<noteq> 0" using end_no_data(2) by auto
  have g2: "grown s0 (chain @ [?cl]) ?s2" using grown_step [OF g, of c] c grown_range [OF g] by simp
  have last_nz: "last chain \<noteq> 0" if "chain \<noteq> []"
    using g that chain_list_data [of "fat_table s" "hd chain" chain "last chain"] end_no_data(2) by (auto simp: grown_def)
  have "alloc_chain (Suc k) prev chain s = (if length chain \<ge> 512 then None else alloc_chain k ?cl (chain @ [?cl]) ?s2)"
    using al nz Suc.prems(2) last_nz by simp
  then have "alloc_chain k ?cl (chain @ [?cl]) ?s2 = Some (True, cs, t)" using Suc.prems(3) by (simp split: if_splits)
  from Suc.IH [OF g2 _ this] show ?case by simp
qed simp

section \<open>The sectors of the data clusters\<close>

definition secs :: "'d fat12 \<Rightarrow> u16 \<Rightarrow> u32 set" where
  "secs s c = {m. unat (m - fat12_cluster_lba c s) < unat (bpb_sec_per_clust s)}"

lemma unat_up:
  "unat (ucast (x :: u16) :: u32) = unat x" "unat (ucast (y :: u8) :: u32) = unat y" "unat (ucast (y :: u8) :: u16) = unat y"
  using unat_u16_less [of x] unat_u8_less [of y] by (simp_all add: unsigned_ucast_eq take_bit_nat_eq_self del: unat_u16_less unat_u8_less)

lemma cluster_lba_unat:
  assumes "volume cap s" "c \<in> fat12_range s"
  shows "unat (fat12_cluster_lba (of_nat c) s) = unat (data_area_lba s) + (c - 2) * unat (bpb_sec_per_clust s)"
    and "unat (data_area_lba s) + (c - 2) * unat (bpb_sec_per_clust s) + unat (bpb_sec_per_clust s) < 65536"
    and "unat (data_area_lba s) + (c - 2) * unat (bpb_sec_per_clust s) + unat (bpb_sec_per_clust s) \<le> unat (bpb_total_secs s)"
proof -
  let ?k = "unat (bpb_sec_per_clust s)" and ?D = "unat (data_area_lba s)" and ?T = "unat (bpb_total_secs s)"
  have le: "?D \<le> ?T" "?T < 65536" using assms(1) by (auto simp: volume_def)
  have small: "?T - ?D < 65536" using le by linarith
  have u: "unat (ucast (bpb_total_secs s) - data_area_lba s) = ?T - ?D"
    using le by (subst unat_sub) (simp_all add: word_le_nat_alt unat_up)
  have "unat (ucast (ucast (bpb_total_secs s) - data_area_lba s :: u32) :: u16) = ?T - ?D"
    using u small by (simp add: unsigned_ucast_eq take_bit_nat_eq_self)
  moreover have "unat (ucast (bpb_sec_per_clust s) :: u16) = ?k" by (rule unat_up)
  ultimately have "unat (fat12_total_clusters s) = (?T - ?D) div ?k" by (simp add: fat12_total_clusters_def Let_def unat_div)
  then have c: "2 \<le> c" "c - 2 < (?T - ?D) div ?k" "c < 0xFF7" using assms(2) by (auto simp: fat12_range_def)
  then have "(c - 2 + 1) * ?k \<le> (?T - ?D) div ?k * ?k" by (intro mult_right_mono) simp_all
  also have "\<dots> \<le> ?T - ?D" by simp
  finally have b: "?D + (c - 2) * ?k + ?k \<le> ?T" using le by (simp add: add_mult_distrib)
  show "?D + (c - 2) * ?k + ?k \<le> ?T" by (rule b)
  show lt: "?D + (c - 2) * ?k + ?k < 65536" using b le by linarith
  have "unat ((of_nat c - 2) :: u16) = c - 2" using c by (subst unat_sub) (simp_all add: word_le_nat_alt unat_of_nat_u16)
  then have uc: "unat (ucast ((of_nat c - 2) :: u16) :: u32) = c - 2" by (simp only: unat_up)
  have uk: "unat (ucast (bpb_sec_per_clust s) :: u32) = ?k" by (rule unat_up)
  have "unat (ucast ((of_nat c - 2) :: u16) * ucast (bpb_sec_per_clust s) :: u32) = (c - 2) * ?k"
    using lt by (subst unat_mult_lem [THEN iffD1]) (simp_all only: uc uk, simp_all)
  then show "unat (fat12_cluster_lba (of_nat c) s) = ?D + (c - 2) * ?k"
    unfolding fat12_cluster_lba_def using lt by (subst unat_add_lem [THEN iffD1]) simp_all
qed

lemma unat_minus_less:
  assumes "unat (m - l :: u32) < k" "unat l + k < 4294967296"
  shows "unat m = unat l + unat (m - l)"
proof -
  have "m = l + (m - l)" by simp
  moreover have "unat (l + (m - l)) = unat l + unat (m - l)" using assms by (subst unat_add_lem [THEN iffD1]) simp_all
  ultimately show ?thesis by simp
qed

lemma secs_bounds:
  assumes "volume cap s" "c \<in> fat12_range s" "m \<in> secs s (of_nat c)"
  shows "unat (data_area_lba s) + (c - 2) * unat (bpb_sec_per_clust s) \<le> unat m"
    "unat m < unat (data_area_lba s) + (c - 1) * unat (bpb_sec_per_clust s)"
proof -
  note l = cluster_lba_unat [OF assms(1,2)]
  have c: "2 \<le> c" using assms(2) by (simp add: fat12_range_def)
  have m: "unat (m - fat12_cluster_lba (of_nat c) s) < unat (bpb_sec_per_clust s)" using assms(3) by (simp add: secs_def)
  have e: "unat m = unat (fat12_cluster_lba (of_nat c) s) + unat (m - fat12_cluster_lba (of_nat c) s)"
    using l by (intro unat_minus_less [OF m]) simp
  show "unat (data_area_lba s) + (c - 2) * unat (bpb_sec_per_clust s) \<le> unat m" using e l(1) by simp
  have "(c - 1) * unat (bpb_sec_per_clust s) = (c - 2) * unat (bpb_sec_per_clust s) + unat (bpb_sec_per_clust s)"
  proof -
    have "c - 1 = Suc (c - 2)" using c by simp
    then show ?thesis by simp
  qed
  then show "unat m < unat (data_area_lba s) + (c - 1) * unat (bpb_sec_per_clust s)" using e l(1) m by linarith
qed

lemma secs_disjoint:
  assumes "volume cap s" "c \<in> fat12_range s" "d \<in> fat12_range s" "c \<noteq> d"
  shows "secs s (of_nat c) \<inter> secs s (of_nat d) = {}"
proof -
  have no: False if "x < y" "m \<in> secs s (of_nat x)" "m \<in> secs s (of_nat y)" "x \<in> fat12_range s" "y \<in> fat12_range s" for x y m
  proof -
    have "(x - 1) * unat (bpb_sec_per_clust s) \<le> (y - 2) * unat (bpb_sec_per_clust s)" using that(1) by (intro mult_right_mono) simp_all
    then show False using secs_bounds(2) [OF assms(1) that(4,2)] secs_bounds(1) [OF assms(1) that(5,3)] by linarith
  qed
  show ?thesis using no assms(2-4) by (meson disjoint_iff linorder_neqE_nat)
qed

lemma secs_beyond:
  "volume cap s \<Longrightarrow> c \<in> fat12_range s \<Longrightarrow> m \<in> secs s (of_nat c) \<Longrightarrow> unat (data_area_lba s) \<le> unat m"
  using secs_bounds(1) le_trans le_add1 by blast

lemma unat_add_le: "unat (x + y :: u32) \<le> unat x + unat y"
  by (simp add: unat_word_ariths)

lemma cluster_in_cap:
  assumes "volume cap s" "c \<in> fat12_range s"
  shows "unat (fat12_cluster_lba (of_nat c) s) + unat (bpb_sec_per_clust s) \<le> cap"
  using cluster_lba_unat [OF assms] assms(1) by (simp add: volume_def)

lemma secs_in_data:
  assumes "volume cap s" "c \<in> fat12_range s" "q < unat (bpb_sec_per_clust s)"
  shows "unat (data_area_lba s) \<le> unat (fat12_cluster_lba (of_nat c) s + of_nat q) \<and> unat (fat12_cluster_lba (of_nat c) s + of_nat q) < cap"
proof -
  let ?l = "fat12_cluster_lba (of_nat c) s"
  have uq: "unat (of_nat q :: u32) = q" using assms(3) unat_u8_less [of "bpb_sec_per_clust s"] by (intro unat_of_nat_u32) linarith
  then have "?l + of_nat q \<in> secs s (of_nat c)" using assms(3) by (simp add: secs_def)
  then have "unat (data_area_lba s) \<le> unat (?l + of_nat q)" by (rule secs_beyond [OF assms(1,2)])
  moreover have "unat (?l + of_nat q) < cap" using cluster_in_cap [OF assms(1,2)] unat_add_le [of ?l "of_nat q"] uq assms(3) by linarith
  ultimately show ?thesis ..
qed

section \<open>Writing the data\<close>

lemma do_write_disk:
  assumes "disk_ok cap good rd wr sec" "fat12_write s = Some wr" "do_write l n b s = (True, t)" "unat l + unat n \<le> cap" "good (device s)"
  shows "\<exists>d. t = s\<lparr>device := d\<rparr> \<and> good d \<and>
    (\<forall>m. \<forall>i<512. unat m < cap \<longrightarrow> sec d m i = (if unat (m - l) < unat n then b (512 * unat (m - l) + i) else sec (device s) m i))"
proof -
  obtain d where "wr l n b (device s) = (True, d)" "t = s\<lparr>device := d\<rparr>"
    using assms(2,3) by (auto simp: do_write_def Let_def split: prod.splits)
  then show ?thesis using assms(1,4,5) unfolding disk_ok_def by (intro exI [of _ d]) auto
qed

text \<open>The data from offset \<open>w\<close> on, and nothing else, has arrived in the sectors from \<open>lba\<close> on.\<close>

definition arrived :: "('d \<Rightarrow> u32 \<Rightarrow> buf) \<Rightarrow> buf \<Rightarrow> nat \<Rightarrow> nat \<Rightarrow> u32 \<Rightarrow> nat \<Rightarrow> 'd \<Rightarrow> bool" where
  "arrived sec data z w lba k d \<longleftrightarrow> (\<forall>q<k. \<forall>i<512. w + 512 * q + i < z \<longrightarrow> sec d (lba + of_nat q) i = data (w + 512 * q + i))"

lemma unat_diff_1: "unat (x - y - 1) = unat (x - y) - 1" if "unat (x - y) \<noteq> 0" for x y :: u32
  using that by (intro unat_minus_one) (simp add: unat_eq_0)

lemma unat_plus_one_le: "unat (l + 1 :: u32) \<le> unat l + 1"
  by (simp add: unat_word_ariths)

lemma write_cluster_disk:
  assumes ok: "disk_ok cap good rd wr sec" and z: "z + 512 < 4294967296"
  shows "write_cluster junk k lba data (of_nat z) (of_nat w) s = (True, w', t) \<Longrightarrow> fat12_write s = Some wr \<Longrightarrow> bpb_bytes_per_sec s = 512 \<Longrightarrow>
    w < z \<Longrightarrow> k < 4294967296 \<Longrightarrow> unat lba + k \<le> cap \<Longrightarrow> good (device s) \<Longrightarrow>
    \<exists>d. t = s\<lparr>device := d\<rparr> \<and> good d \<and> w' = of_nat (min z (w + 512 * k)) \<and> arrived sec data z w lba k d \<and>
      (\<forall>m. \<forall>i<512. unat m < cap \<longrightarrow> k \<le> unat (m - lba) \<longrightarrow> sec d m i = sec (device s) m i)"
proof (induction k arbitrary: lba w s)
  case 0
  then show ?case by (intro exI [of _ "device s"]) (simp add: arrived_def)
next
  case (Suc k)
  define c where "c = min z (w + 512) - w"
  have uw: "unat (of_nat w :: u32) = w" "unat (of_nat z :: u32) = z" using Suc.prems(4) z by (simp_all add: unat_of_nat_u32)
  have bps: "ucast (bpb_bytes_per_sec s) = (512 :: u32)" using Suc.prems(3) by simp
  have "unat (of_nat w + 512 :: u32) = w + 512" using Suc.prems(4) z uw by (subst unat_add_lem [THEN iffD1]) simp_all
  then have cs: "(if of_nat w + 512 > (of_nat z :: u32) then of_nat z - of_nat w else 512) = (of_nat c :: u32)"
    using uw Suc.prems(4) by (auto simp: word_less_nat_alt c_def min_def of_nat_diff)
  have cle: "0 < c" "c \<le> 512" "w + c = min z (w + 512)" using Suc.prems(4) by (auto simp: c_def)
  have uc: "unat (of_nat c :: u32) = c" using cle by (intro unat_of_nat_u32) simp
  have sum: "of_nat w + of_nat c = (of_nat (min z (w + 512)) :: u32)" using cle(3) by (metis of_nat_add)
  have usum: "unat (of_nat (min z (w + 512)) :: u32) = min z (w + 512)" using z by (intro unat_of_nat_u32) simp
  define b where "b = copy_to c (512 - c) (\<lambda>_. 0) (copy_to 0 c (\<lambda>j. data (w + j)) junk)"
  obtain o1 s1 where dw: "do_write lba 1 b s = (o1, s1)" by fastforce
  have step: "write_cluster junk (Suc k) lba data (of_nat z) (of_nat w) s =
      (if \<not> o1 then (False, of_nat w, s1)
       else if z \<le> w + 512 then (True, of_nat (min z (w + 512)), s1)
       else write_cluster junk k (lba + 1) data (of_nat z) (of_nat (min z (w + 512))) s1)"
    unfolding write_cluster.simps bps Let_def cs sum using dw uw uc usum
    by (simp add: b_def word_le_nat_alt min_def)
  then have o1: "o1" using Suc.prems(1) by (auto split: if_splits)
  have in_cap: "unat lba < cap" "unat (lba + 1) + k \<le> cap" using Suc.prems(6) unat_plus_one_le [of lba] by simp_all
  obtain d1 where d1: "s1 = s\<lparr>device := d1\<rparr>"
    "\<And>m i. i < 512 \<Longrightarrow> unat m < cap \<Longrightarrow> sec d1 m i = (if unat (m - lba) < 1 then b (512 * unat (m - lba) + i) else sec (device s) m i)"
    and i1: "good d1" using do_write_disk [OF ok Suc.prems(2), of lba 1 b s1] dw o1 in_cap(1) Suc.prems(7) by auto
  have here: "sec d1 lba i = data (w + i)" if "i < 512" "w + i < z" for i
    using d1(2) [OF that(1) in_cap(1)] that cle(3) by (auto simp: b_def copy_to_def)
  show ?case
  proof (cases "z \<le> w + 512")
    case True
    have "arrived sec data z w lba (Suc k) d1"
      unfolding arrived_def using here True by (auto simp: less_Suc_eq_0_disj)
    moreover have "min z (w + 512 * Suc k) = z" "min z (w + 512) = z" using True by auto
    ultimately show ?thesis using step o1 True Suc.prems(1) d1 i1 by (intro exI [of _ d1]) auto
  next
    case False
    then have mn: "min z (w + 512) = w + 512" by simp
    have call: "write_cluster junk k (lba + 1) data (of_nat z) (of_nat (w + 512)) s1 = (True, w', t)"
      using step o1 False Suc.prems(1) mn by simp
    obtain d where d: "t = s1\<lparr>device := d\<rparr>" "w' = of_nat (min z (w + 512 + 512 * k))" "arrived sec data z (w + 512) (lba + 1) k d"
      "\<And>m i. i < 512 \<Longrightarrow> unat m < cap \<Longrightarrow> k \<le> unat (m - (lba + 1)) \<Longrightarrow> sec d m i = sec (device s1) m i"
      and i2: "good d" using Suc.IH [OF call] Suc.prems in_cap(2) d1(1) i1 False by auto
    have first: "sec d lba i = sec d1 lba i" if "i < 512" for i
    proof -
      have "unat (lba - (lba + 1)) = 4294967295" by (simp add: unsigned_minus_1_eq_mask mask_eq_exp_minus_1)
      then show ?thesis using d(4) [OF that in_cap(1)] d1(1) Suc.prems(5) by simp
    qed
    have "arrived sec data z w lba (Suc k) d"
      unfolding arrived_def
    proof (intro allI impI)
      fix q i assume q: "q < Suc k" "i < 512" "w + 512 * q + i < z"
      show "sec d (lba + of_nat q) i = data (w + 512 * q + i)"
      proof (cases q)
        case 0
        then show ?thesis using first q here by simp
      next
        case (Suc p)
        then show ?thesis using d(3) q unfolding arrived_def by (auto simp: algebra_simps)
      qed
    qed
    moreover have "sec d m i = sec (device s) m i" if "i < 512" "unat m < cap" "Suc k \<le> unat (m - lba)" for m i
    proof -
      have "m - (lba + 1) = m - lba - 1" by simp
      then have "unat (m - (lba + 1)) = unat (m - lba) - 1" using unat_diff_1 [of m lba] that by (simp only:)
      then have "sec d m i = sec d1 m i" using d(4) [OF that(1,2)] that d1(1) by simp
      then show ?thesis using d1(2) [OF that(1,2)] that by simp
    qed
    ultimately show ?thesis using d(1,2) d1(1) i2 by (intro exI [of _ d]) (auto simp: algebra_simps)
  qed
qed

text \<open>The loop over the clusters of the chain.\<close>

lemma write_chain_disk:
  assumes ok: "disk_ok cap good rd wr sec" and z: "z + 512 < 4294967296" and vol: "volume cap s0"
  defines "k \<equiv> unat (bpb_sec_per_clust s0)"
  shows "write_chain junk (map of_nat cs) data (of_nat z) (of_nat w) s = (True, t) \<Longrightarrow> fat12_write s = Some wr \<Longrightarrow>
    (\<exists>d tab. s = s0\<lparr>fat_table := tab, device := d\<rparr>) \<Longrightarrow> set cs \<subseteq> fat12_range s0 \<Longrightarrow> distinct cs \<Longrightarrow>
    (cs \<noteq> [] \<longrightarrow> w + 512 * k * (length cs - 1) < z) \<Longrightarrow> good (device s) \<Longrightarrow>
    \<exists>d. t = s\<lparr>device := d\<rparr> \<and> good d \<and>
      (\<forall>j<length cs. arrived sec data z (w + 512 * k * j) (fat12_cluster_lba (of_nat (cs ! j)) s0) k d) \<and>
      (\<forall>m. \<forall>i<512. unat m < cap \<longrightarrow> (\<forall>c \<in> set cs. m \<notin> secs s0 (of_nat c)) \<longrightarrow> sec d m i = sec (device s) m i)"
proof (induction cs arbitrary: w s)
  case Nil
  then show ?case by (intro exI [of _ "device s"]) simp
next
  case (Cons c cs)
  obtain d0 tab where s: "s = s0\<lparr>fat_table := tab, device := d0\<rparr>" using Cons.prems(3) by blast
  have lba: "fat12_cluster_lba (of_nat c) s = fat12_cluster_lba (of_nat c) s0" and spc: "bpb_sec_per_clust s = bpb_sec_per_clust s0"
    and bps: "bpb_bytes_per_sec s = 512" using s vol by (simp_all add: fat12_cluster_lba_def volume_def)
  let ?l = "fat12_cluster_lba (of_nat c) s0"
  have kpos: "0 < k" "k < 4294967296" using vol order_less_trans [OF unat_u8_less] by (auto simp: k_def volume_def unat_gt_0)
  obtain o1 w1 s1 where wc: "write_cluster junk k ?l data (of_nat z) (of_nat w) s = (o1, w1, s1)" by (metis prod_cases3)
  have o1: "o1" and rest: "write_chain junk (map of_nat cs) data (of_nat z) w1 s1 = (True, t)"
    using Cons.prems(1) wc lba spc by (auto simp: k_def split: if_splits)
  have wz: "w < z" using Cons.prems(6) by simp
  have cin: "unat ?l + k \<le> cap" using cluster_in_cap [OF vol, of c] Cons.prems(4) by (simp add: k_def)
  obtain d1 where d1: "s1 = s\<lparr>device := d1\<rparr>" "w1 = of_nat (min z (w + 512 * k))" "arrived sec data z w ?l k d1"
    "\<And>m i. i < 512 \<Longrightarrow> unat m < cap \<Longrightarrow> k \<le> unat (m - ?l) \<Longrightarrow> sec d1 m i = sec (device s) m i"
    and i1: "good d1" using write_cluster_disk [OF ok z, of junk k ?l data w s w1 s1] wc o1 Cons.prems(2,7) bps wz kpos cin by auto
  have outside: "sec d1 m i = sec (device s) m i" if "i < 512" "unat m < cap" "m \<notin> secs s0 (of_nat c)" for m i
    using d1(4) [OF that(1,2)] that(3) by (simp add: secs_def k_def not_less)
  show ?case
  proof (cases "cs = []")
    case True
    then show ?thesis using rest d1(1,3) i1 outside by (intro exI [of _ d1]) simp
  next
    case False
    then have len: "length cs = Suc (length cs - 1)" by simp
    then have wz1: "w + 512 * k + 512 * k * (length cs - 1) < z" using Cons.prems(6) by (metis add.assoc length_Cons diff_Suc_1 list.distinct(1) mult_Suc_right)
    then have mn: "min z (w + 512 * k) = w + 512 * k" by simp
    have "\<exists>d. t = s1\<lparr>device := d\<rparr> \<and> good d \<and>
      (\<forall>j<length cs. arrived sec data z (w + 512 * k + 512 * k * j) (fat12_cluster_lba (of_nat (cs ! j)) s0) k d) \<and>
      (\<forall>m. \<forall>i<512. unat m < cap \<longrightarrow> (\<forall>c \<in> set cs. m \<notin> secs s0 (of_nat c)) \<longrightarrow> sec d m i = sec (device s1) m i)"
      using rest d1(1,2) i1 mn Cons.prems(2,4,5) s wz1 by (intro Cons.IH) auto
    then obtain d where d: "t = s1\<lparr>device := d\<rparr>"
      "\<And>j. j < length cs \<Longrightarrow> arrived sec data z (w + 512 * k + 512 * k * j) (fat12_cluster_lba (of_nat (cs ! j)) s0) k d"
      "\<And>m i. i < 512 \<Longrightarrow> unat m < cap \<Longrightarrow> \<forall>c \<in> set cs. m \<notin> secs s0 (of_nat c) \<Longrightarrow> sec d m i = sec d1 m i"
      and i2: "good d" using d1(1) by auto
    have kept: "sec d (?l + of_nat q) i = sec d1 (?l + of_nat q) i" if "q < k" "i < 512" for q i
    proof (rule d(3) [OF that(2)])
      have uq: "unat (of_nat q :: u32) = q" using that(1) kpos(2) by (intro unat_of_nat_u32) simp
      show "unat (?l + of_nat q) < cap" using cin that(1) unat_add_le [of ?l "of_nat q"] uq by linarith
    next
      show "\<forall>c \<in> set cs. ?l + of_nat q \<notin> secs s0 (of_nat c)"
      proof
      fix c' assume "c' \<in> set cs"
      moreover have "unat (of_nat q :: u32) = q" using that(1) kpos(2) by (intro unat_of_nat_u32) simp
      then have "?l + of_nat q \<in> secs s0 (of_nat c)" using that(1) by (simp add: secs_def k_def)
      ultimately show "?l + of_nat q \<notin> secs s0 (of_nat c')" using secs_disjoint [OF vol, of c c'] Cons.prems(4,5) by auto
      qed
    qed
    have a0: "arrived sec data z w ?l k d" using d1(3) kept unfolding arrived_def by simp
    have "arrived sec data z (w + 512 * k * j) (fat12_cluster_lba (of_nat ((c # cs) ! j)) s0) k d" if "j < length (c # cs)" for j
    proof (cases j)
      case 0
      then show ?thesis using a0 by simp
    next
      case (Suc i)
      then show ?thesis using d(2) [of i] that by (simp add: algebra_simps)
    qed
    moreover have "sec d m i = sec (device s) m i" if "i < 512" "unat m < cap" "\<forall>c' \<in> set (c # cs). m \<notin> secs s0 (of_nat c')" for m i
      using d(3) [OF that(1,2)] outside [OF that(1,2)] that(3) by simp
    ultimately show ?thesis using d(1) d1(1) i2 by (intro exI [of _ d]) auto
  qed
qed

section \<open>Reading the bytes back\<close>

lemma sector_bytes_nth: "p < 512 * k \<Longrightarrow> sector_bytes sec k l ! p = sec (l + of_nat (p div 512)) (p mod 512)"
proof (induction k arbitrary: l p)
  case (Suc k)
  show ?case
  proof (cases "p < 512")
    case False
    then have "p div 512 = Suc ((p - 512) div 512)" "p mod 512 = (p - 512) mod 512" by (simp_all add: le_div_geq le_mod_geq)
    then show ?thesis using Suc.IH [of "p - 512" "l + 1"] Suc.prems False by (simp add: nth_append add.assoc)
  qed (simp add: nth_append)
qed simp

lemma length_chain_bytes: "length (chain_bytes sec s cs) = 512 * unat (bpb_sec_per_clust s) * length cs"
  by (induction cs) (simp_all add: chain_bytes_def algebra_simps)

lemma chain_bytes_nth:
  "j < length cs \<Longrightarrow> q < 512 * unat (bpb_sec_per_clust s) \<Longrightarrow>
   chain_bytes sec s cs ! (512 * unat (bpb_sec_per_clust s) * j + q) = sector_bytes sec (unat (bpb_sec_per_clust s)) (fat12_cluster_lba (cs ! j) s) ! q"
proof (induction cs arbitrary: j)
  case (Cons c cs)
  show ?case
  proof (cases j)
    case 0
    then show ?thesis using Cons.prems by (simp add: chain_bytes_def nth_append)
  next
    case (Suc i)
    then show ?thesis using Cons.IH [of i] Cons.prems by (simp add: chain_bytes_def nth_append)
  qed
qed simp

text \<open>If the data of the file has arrived in every cluster of the chain, the chain holds the file.\<close>

lemma chain_holds_data:
  assumes "\<And>j. j < length cs \<Longrightarrow> arrived sec data z (512 * unat (bpb_sec_per_clust s) * j) (fat12_cluster_lba (cs ! j) s) (unat (bpb_sec_per_clust s)) d"
    and "\<And>c q i. c \<in> set cs \<Longrightarrow> q < unat (bpb_sec_per_clust s) \<Longrightarrow> i < 512 \<Longrightarrow>
      rdsec (fat12_cluster_lba c s + of_nat q) i = sec d (fat12_cluster_lba c s + of_nat q) i" and "z \<le> 512 * unat (bpb_sec_per_clust s) * length cs"
  shows "take z (chain_bytes rdsec s cs) = map data [0..<z]"
proof (rule nth_equalityI)
  let ?B = "512 * unat (bpb_sec_per_clust s)"
  show "length (take z (chain_bytes rdsec s cs)) = length (map data [0..<z])" using assms(3) by (simp add: length_chain_bytes)
  fix p assume "p < length (take z (chain_bytes rdsec s cs))"
  then have p: "p < z" by simp
  then have pB: "p < ?B * length cs" using assms(3) by simp
  then have B: "0 < ?B" by (metis gr0I mult_0 not_less0)
  define j q where "j = p div ?B" and "q = p mod ?B"
  have pq: "p = ?B * j + q" by (simp add: j_def q_def)
  have q: "q < ?B" using B by (simp add: q_def)
  have j: "j < length cs" using pB B by (simp add: j_def less_mult_imp_div_less mult.commute)
  have e: "?B * j + 512 * (q div 512) + q mod 512 = p" using pq by simp
  have qd: "q div 512 < unat (bpb_sec_per_clust s)" using q by (simp add: less_mult_imp_div_less mult.commute)
  have "rdsec (fat12_cluster_lba (cs ! j) s + of_nat (q div 512)) (q mod 512) = data p"
    using assms(1) [OF j] assms(2) [OF nth_mem [OF j] qd, of "q mod 512"] p qd e unfolding arrived_def by simp
  moreover have "chain_bytes rdsec s cs ! p = rdsec (fat12_cluster_lba (cs ! j) s + of_nat (q div 512)) (q mod 512)"
    using chain_bytes_nth [OF j q, of rdsec] sector_bytes_nth [OF q] unfolding pq [symmetric] by simp
  ultimately show "take z (chain_bytes rdsec s cs) ! p = map data [0..<z] ! p" using p by simp
qed

section \<open>Directory and table sectors\<close>

lemma unat_add_small: "unat x + unat y < 4294967296 \<Longrightarrow> unat (x + y) = unat x + unat y" for x y :: u32
  by (subst unat_add_lem [THEN iffD1]) simp_all

text \<open>What a write below the data area leaves alone: everything in memory and the sectors of the data area.\<close>

definition data_kept :: "nat \<Rightarrow> ('d \<Rightarrow> bool) \<Rightarrow> ('d \<Rightarrow> u32 \<Rightarrow> buf) \<Rightarrow> 'd fat12 \<Rightarrow> 'd fat12 \<Rightarrow> bool" where
  "data_kept cap good sec s t \<longleftrightarrow> (\<exists>d. t = s\<lparr>device := d\<rparr>) \<and> good (device t) \<and>
     (\<forall>m. \<forall>i<512. unat (data_area_lba s) \<le> unat m \<longrightarrow> unat m < cap \<longrightarrow> sec (device t) m i = sec (device s) m i)"

lemma data_kept_refl: "good (device s) \<Longrightarrow> data_kept cap good sec s s"
  unfolding data_kept_def by (intro conjI exI [of _ "device s"]) simp_all

lemma data_kept_trans: "data_kept cap good sec s t \<Longrightarrow> data_kept cap good sec t u \<Longrightarrow> data_kept cap good sec s u"
  by (auto simp: data_kept_def)

lemma low_write:
  assumes "disk_ok cap good rd wr sec" "fat12_write s = Some wr" "do_write l n b s = (True, t)" "unat l + unat n \<le> unat (data_area_lba s)"
    "unat (data_area_lba s) \<le> cap" "good (device s)"
  shows "data_kept cap good sec s t"
proof -
  obtain d where d: "t = s\<lparr>device := d\<rparr>" "good d"
    "\<And>m i. i < 512 \<Longrightarrow> unat m < cap \<Longrightarrow> sec d m i = (if unat (m - l) < unat n then b (512 * unat (m - l) + i) else sec (device s) m i)"
    using do_write_disk [OF assms(1-3) le_trans [OF assms(4,5)] assms(6)] by blast
  have "\<not> unat (m - l) < unat n" if "unat (data_area_lba s) \<le> unat m" for m
  proof
    assume lt: "unat (m - l) < unat n"
    have "unat l + unat n < 4294967296" using assms(4) unat_u32_less [of "data_area_lba s"] by linarith
    from unat_minus_less [OF lt this] show False using that assms(4) lt by linarith
  qed
  then show ?thesis using d unfolding data_kept_def by (auto intro!: exI [of _ d])
qed

text \<open>The copies of the table and the sectors of the root directory lie below the data area.\<close>

lemma fat_copy_low:
  assumes "volume cap s" "j < unat (bpb_num_fats s)"
  shows "unat (fat_start_lba s + of_nat j * ucast (bpb_fat_size s) :: u32) + unat (ucast (bpb_fat_size s) :: u8) \<le> unat (data_area_lba s)"
proof -
  let ?F = "unat (bpb_fat_size s)"
  have vol: "unat (fat_start_lba s) + unat (bpb_num_fats s) * ?F \<le> unat (root_dir_lba s)" "unat (root_dir_lba s) \<le> unat (data_area_lba s)"
    using assms(1) by (auto simp: volume_def)
  have "Suc j * ?F \<le> unat (bpb_num_fats s) * ?F" using assms(2) by (intro mult_right_mono) simp_all
  then have b: "unat (fat_start_lba s) + j * ?F + ?F \<le> unat (data_area_lba s)" using vol by simp
  have uj: "unat (of_nat j :: u32) = j" using assms(2) unat_u8_less [of "bpb_num_fats s"] by (intro unat_of_nat_u32) linarith
  have lt: "unat (fat_start_lba s) + j * ?F < 4294967296" using b unat_u32_less [of "data_area_lba s"] by linarith
  have "unat (of_nat j * ucast (bpb_fat_size s) :: u32) = j * ?F"
    using lt by (subst unat_mult_lem [THEN iffD1]) (simp_all only: uj unat_up, simp_all)
  then have "unat (fat_start_lba s + of_nat j * ucast (bpb_fat_size s) :: u32) = unat (fat_start_lba s) + j * ?F"
    using lt by (subst unat_add_lem [THEN iffD1]) simp_all
  moreover have "unat (ucast (bpb_fat_size s) :: u8) \<le> ?F" by (simp add: unsigned_ucast_eq)
  ultimately show ?thesis using b by linarith
qed

lemma dir_sector_low:
  assumes "volume cap s" "i < unat (bpb_root_entries s)"
  shows "unat (root_dir_lba s + of_nat (32 * i div 512)) + 1 \<le> unat (data_area_lba s)"
proof -
  have q: "32 * i div 512 < (unat (bpb_root_entries s) + 15) div 16" using assms(2) by linarith
  have b: "unat (root_dir_lba s) + 32 * i div 512 < unat (data_area_lba s)" using q assms(1) by (auto simp: volume_def)
  have uq: "unat (of_nat (32 * i div 512) :: u32) = 32 * i div 512" using b unat_u32_less [of "data_area_lba s"] by (intro unat_of_nat_u32) linarith
  show ?thesis
    using unat_add_small [of "root_dir_lba s" "of_nat (32 * i div 512)"] b unat_u32_less [of "data_area_lba s"] unfolding uq by linarith
qed

lemma flush_copies_kept:
  assumes "disk_ok cap good rd wr sec" "volume cap s0"
  shows "flush_copies js s = (True, t) \<Longrightarrow> data_kept cap good sec s0 s \<Longrightarrow> fat12_write s0 = Some wr \<Longrightarrow> set js \<subseteq> {..<unat (bpb_num_fats s0)} \<Longrightarrow>
    data_kept cap good sec s0 t"
proof (induction js arbitrary: s)
  case (Cons j js)
  obtain d where s: "s = s0\<lparr>device := d\<rparr>" using Cons.prems(2) by (auto simp: data_kept_def)
  let ?l = "fat_start_lba s0 + of_nat j * ucast (bpb_fat_size s0) :: u32"
  have vol: "unat (data_area_lba s0) \<le> cap" using assms(2) by (simp add: volume_def)
  have j: "j < unat (bpb_num_fats s0)" using Cons.prems(4) by simp
  note low = fat_copy_low [OF assms(2) j]
  obtain o1 s1 where w: "do_write ?l (ucast (bpb_fat_size s0)) (fat_table s0) s = (o1, s1)" by fastforce
  have o1: "o1" "flush_copies js s1 = (True, t)" using Cons.prems(1) w s by (auto split: if_splits)
  have "data_kept cap good sec s s1"
    using low_write [OF assms(1), of s ?l "ucast (bpb_fat_size s0)" "fat_table s0" s1] w o1(1) Cons.prems(2,3) s low vol by (simp add: data_kept_def)
  then have "data_kept cap good sec s0 s1" using Cons.prems(2) data_kept_trans by blast
  then show ?case using Cons.IH [OF o1(2)] Cons.prems(3,4) by simp
qed simp

lemma write_entry_kept:
  assumes "disk_ok cap good rd wr sec" "volume cap s" "fat12_read s = Some rd" "fat12_write s = Some wr" "i < unat (bpb_root_entries s)" "good (device s)"
    "write_entry i e s = Some (True, t)"
  shows "data_kept cap good sec (s\<lparr>root_dir_buf := put_entry i e (root_dir_buf s)\<rparr>) t"
proof -
  let ?s = "s\<lparr>root_dir_buf := put_entry i e (root_dir_buf s)\<rparr>"
  obtain s1 where u: "update_dir_sector (32 * i) 32 (\<lambda>j. root_dir_buf ?s (32 * i + j)) ?s = Some (True, s1)"
    and f: "fat12_flush_fat s1 = (True, t)"
    using assms(7) by (auto simp: write_entry_def Let_def split: option.splits bool.splits prod.splits)
  have bps: "unat (bpb_bytes_per_sec s) = 512" using assms(2) by (simp add: volume_def)
  let ?l = "root_dir_lba s + of_nat (32 * i div 512)"
  note low = dir_sector_low [OF assms(2,5)]
  obtain bb where w: "do_write ?l 1 bb ?s = (True, s1)"
    using u bps by (auto simp: update_dir_sector_def Let_def split: option.splits if_splits)
  have "data_kept cap good sec ?s s1" using low_write [OF assms(1) _ w] assms(2,4,6) low by (simp add: volume_def)
  moreover have "volume cap ?s" using assms(2) by (simp add: volume_def)
  moreover have "bpb_num_fats s1 = bpb_num_fats ?s" using \<open>data_kept cap good sec ?s s1\<close> by (auto simp: data_kept_def)
  ultimately show ?thesis
    using flush_copies_kept [OF assms(1), of ?s "[0..<unat (bpb_num_fats s1)]" s1 t] f assms(4) by (auto simp: fat12_flush_fat_def atLeast0LessThan)
qed

section \<open>The directory entry\<close>

lemma find_from_intro:
  "i \<le> x \<Longrightarrow> x < i + k \<Longrightarrow> (\<And>j. i \<le> j \<Longrightarrow> j < x \<Longrightarrow> hd (de_name (get_entry b j)) \<noteq> 0 \<and>
       \<not> (live_entry (get_entry b j) \<and> name_cmp (de_name (get_entry b j)) n = 0)) \<Longrightarrow>
   hd (de_name (get_entry b x)) \<noteq> 0 \<Longrightarrow> live_entry (get_entry b x) \<Longrightarrow> name_cmp (de_name (get_entry b x)) n = 0 \<Longrightarrow>
   fat12_find_from k i b n = Some x"
proof (induction k arbitrary: i)
  case (Suc k)
  show ?case
  proof (cases "i = x")
    case True
    then show ?thesis using Suc.prems by (simp add: Let_def)
  next
    case False
    then have "fat12_find_from k (Suc i) b n = Some x" using Suc.prems by (intro Suc.IH) auto
    then show ?thesis using Suc.prems(3) [of i] Suc.prems(1) False by (auto simp: Let_def)
  qed
qed simp

text \<open>Where the scan of the directory stops and what it passes on the way.\<close>

lemma scan_root_spec:
  "scan_root k i b n fe = (i', fe', ex) \<Longrightarrow>
   i \<le> i' \<and> i' \<le> i + k \<and> (\<forall>j. i \<le> j \<and> j < i' \<longrightarrow> hd (de_name (get_entry b j)) \<noteq> 0 \<and>
       \<not> (live_entry (get_entry b j) \<and> name_cmp (de_name (get_entry b j)) n = 0)) \<and>
   (case ex of
      Some x \<Rightarrow> x = i' \<and> i' < i + k \<and> hd (de_name (get_entry b x)) \<noteq> 0 \<and> live_entry (get_entry b x) \<and> name_cmp (de_name (get_entry b x)) n = 0
    | None \<Rightarrow> (fe' = fe \<or> i \<le> fe' \<and> fe' \<le> i' \<and> fe' < i + k) \<and> fat12_find_from k i b n = None)"
proof (induction k arbitrary: i fe)
  case (Suc k)
  let ?e = "get_entry b i"
  have step: ?case
    if h: "hd (de_name ?e) \<noteq> 0" "\<not> (live_entry ?e \<and> name_cmp (de_name ?e) n = 0)"
      and r: "scan_root k (Suc i) b n g = (i', fe', ex)" and g: "g = fe \<or> g = i" for g
  proof -
    note IH = Suc.IH [OF r]
    have "hd (de_name (get_entry b j)) \<noteq> 0 \<and> \<not> (live_entry (get_entry b j) \<and> name_cmp (de_name (get_entry b j)) n = 0)"
      if "i \<le> j" "j < i'" for j
      using that IH h by (cases "j = i") auto
    moreover have "fat12_find_from (Suc k) i b n = fat12_find_from k (Suc i) b n" using h by (auto simp: Let_def)
    ultimately show ?thesis using IH g by (auto split: option.splits)
  qed
  consider "hd (de_name ?e) = 0" | "hd (de_name ?e) = 0xE5" | "hd (de_name ?e) \<noteq> 0" "hd (de_name ?e) \<noteq> 0xE5" "\<not> live_entry ?e"
    | "hd (de_name ?e) \<noteq> 0" "live_entry ?e" "name_cmp (de_name ?e) n = 0" | "hd (de_name ?e) \<noteq> 0" "live_entry ?e" "name_cmp (de_name ?e) n \<noteq> 0"
    by blast
  then show ?case
  proof cases
    case 1
    then show ?thesis using Suc.prems by (auto simp: Let_def split: if_splits)
  next
    case 2
    then have "scan_root k (Suc i) b n (if fe = 0xFFFF then i else fe) = (i', fe', ex)" using Suc.prems by (simp add: Let_def)
    then show ?thesis using 2 by (intro step) (auto simp: live_entry_def split: if_splits)
  next
    case 3
    then show ?thesis using Suc.prems by (intro step [of fe]) (simp_all add: Let_def)
  next
    case 4
    then have "hd (de_name ?e) \<noteq> 0xE5" by (simp add: live_entry_def)
    then show ?thesis using 4 Suc.prems by (auto simp: Let_def)
  next
    case 5
    then have "hd (de_name ?e) \<noteq> 0xE5" by (simp add: live_entry_def)
    then show ?thesis using 5 Suc.prems by (intro step [of fe]) (simp_all add: Let_def)
  qed
qed auto

text \<open>The entry that \<open>fat12_write_file\<close> fills is the one a search finds afterwards.\<close>

lemma entry_found:
  assumes "hd (de_name e) \<noteq> 0" "live_entry e" "name_cmp (de_name e) n = 0" "length (de_name e) = 11" "x < k"
    "\<And>j. j < x \<Longrightarrow> hd (de_name (get_entry b j)) \<noteq> 0 \<and> \<not> (live_entry (get_entry b j) \<and> name_cmp (de_name (get_entry b j)) n = 0)"
  shows "fat12_find_from k 0 (put_entry x e b) n = Some x"
  by (rule find_from_intro) (use assms in \<open>auto simp: get_put_entry put_entry_other\<close>)

lemma length_entry_name [simp]: "length (de_name (get_entry b i)) = 11"
  by (simp add: get_entry_def Let_def)

lemma new_entry_live:
  "hd n \<noteq> 0 \<Longrightarrow> hd n \<noteq> 0xE5 \<Longrightarrow> hd (de_name (new_entry n)) \<noteq> 0 \<and> live_entry (new_entry n) \<and> name_cmp (de_name (new_entry n)) n = 0"
  by (simp add: new_entry_def live_entry_def ATTR_ARCHIVE_def ATTR_VOLUME_ID_def ATTR_LFN_def name_cmp_0)

section \<open>A successful write\<close>

definition released :: "u8 list \<Rightarrow> 'd fat12 \<Rightarrow> 'd fat12" where
  "released name s = (case fat12_find_file name s of
     None \<Rightarrow> s
   | Some x \<Rightarrow> let c = de_cluster_lo (get_entry (root_dir_buf s) x) in
       if c \<ge> 2 \<and> c < FAT12_CLUSTER_BAD then s\<lparr>fat_table := fat12_free_cluster_chain c (fat_table s)\<rparr> else s)"

lemma released_frame:
  "\<exists>t. released name s = s\<lparr>fat_table := t\<rparr>" "volume cap (released name s) = volume cap s" "fat12_range (released name s) = fat12_range s"
proof -
  show ex: "\<exists>t. released name s = s\<lparr>fat_table := t\<rparr>"
    by (cases "fat12_find_file name s") (auto simp: released_def Let_def intro: exI [of _ "fat_table s"])
  show "volume cap (released name s) = volume cap s" "fat12_range (released name s) = fat12_range s"
    using ex by (auto simp: volume_def fat12_range_def fat12_total_clusters_def)
qed

lemma needed_clusters:
  assumes "volume cap s" "unat sz \<le> 16777216" "fat12_calc_needed_clusters sz s = Some n" "sz \<noteq> 0"
  shows "n \<noteq> 0" "512 * unat (bpb_sec_per_clust s) * (unat n - 1) < unat sz" "unat sz \<le> 512 * unat (bpb_sec_per_clust s) * unat n"
proof -
  let ?B = "512 * unat (bpb_sec_per_clust s)" and ?z = "unat sz"
  define B where "B = (ucast (bpb_sec_per_clust s) * ucast (bpb_bytes_per_sec s) :: u32)"
  have k: "0 < unat (bpb_sec_per_clust s)" "unat (bpb_sec_per_clust s) < 256" "bpb_bytes_per_sec s = 512"
    using assms(1) by (simp_all add: volume_def unat_gt_0)
  have k2: "unat (bpb_sec_per_clust s) < 8388608" using k(2) by linarith
  have uB: "unat B = ?B"
    unfolding B_def k(3) using k2 by (subst unat_mult_lem [THEN iffD1]) (simp_all add: unat_up)
  have z: "0 < ?z" using assms(4) by (simp add: unat_gt_0)
  have "unat (sz + B) = ?z + ?B" using unat_add_small [of sz B] uB k assms(2) by simp
  then have u: "unat (sz + B - 1) = ?z + ?B - 1" using z by (subst unat_minus_one) (auto simp: unat_eq_0 [symmetric])
  let ?q = "(?z + ?B - 1) div ?B"
  have q1: "?q = (?z - 1) div ?B + 1"
  proof -
    have "?z + ?B - 1 = (?z - 1) + ?B" using z by simp
    moreover have "((?z - 1) + ?B) div ?B = (?z - 1) div ?B + 1" using k(1) by (intro div_add_self2) simp
    ultimately show ?thesis by (simp only:)
  qed
  have "(?z - 1) div ?B \<le> ?z - 1" by (rule div_le_dividend)
  have "(?z - 1) div ?B < 65535"
  proof -
    have "(?z - 1) div ?B \<le> (?z - 1) div 512" using k by (intro div_le_mono2) simp_all
    also have "\<dots> < 65535" using assms(2) by (simp add: less_mult_imp_div_less)
    finally show ?thesis .
  qed
  then have q: "?q < 65536" using q1 by simp
  have "B \<noteq> 0" using uB k by auto
  then have "n = ucast ((sz + B - 1) div B)" using assms(3) by (simp add: fat12_calc_needed_clusters_def Let_def B_def)
  then have n: "unat n = ?q" using q u uB by (simp add: unsigned_ucast_eq unat_div take_bit_nat_eq_self)
  show "n \<noteq> 0" using n q1 by auto
  have le: "?B * ((?z - 1) div ?B) \<le> ?z - 1" by (rule times_div_less_eq_dividend)
  have "unat n - 1 = (?z - 1) div ?B" using n q1 by simp
  then show "?B * (unat n - 1) < ?z" using le z by (simp only:)
  have "?z - 1 < ?B * ((?z - 1) div ?B + 1)" using k by (simp add: dividend_less_times_div)
  then show "?z \<le> ?B * unat n" using n q1 by simp
qed

text \<open>The entry that a call fills, and the entry it starts from.\<close>

definition slot_of :: "u8 list \<Rightarrow> 'd fat12 \<Rightarrow> nat" where
  "slot_of name s = (case scan_root (unat (bpb_root_entries s)) 0 (root_dir_buf s) (convert_to_83 name) 0xFFFF of
     (i, fe, ex) \<Rightarrow> case ex of None \<Rightarrow> if fe = 0xFFFF \<and> i < unat (bpb_root_entries s) then i else fe | Some x \<Rightarrow> x)"

definition base_of :: "u8 list \<Rightarrow> 'd fat12 \<Rightarrow> dir_entry" where
  "base_of name s = (case fat12_find_file name s of None \<Rightarrow> new_entry (convert_to_83 name) | Some x \<Rightarrow> get_entry (root_dir_buf s) x)"

lemma scan_finds:
  assumes "scan_root (unat (bpb_root_entries s)) 0 (root_dir_buf s) (convert_to_83 name) 0xFFFF = (i, fe, ex)"
  shows "ex = fat12_find_file name s"
proof (cases ex)
  case None
  then show ?thesis using scan_root_spec [OF assms] by (simp add: fat12_find_file_def)
next
  case (Some x)
  then have "fat12_find_from (unat (bpb_root_entries s)) 0 (root_dir_buf s) (convert_to_83 name) = Some x"
    using scan_root_spec [OF assms] by (intro find_from_intro) auto
  then show ?thesis using Some by (simp add: fat12_find_file_def)
qed

lemma slot_bound: "fat12_find_file name s \<noteq> None \<Longrightarrow> slot_of name s < unat (bpb_root_entries s)"
proof -
  assume "fat12_find_file name s \<noteq> None"
  moreover obtain i fe ex where sc: "scan_root (unat (bpb_root_entries s)) 0 (root_dir_buf s) (convert_to_83 name) 0xFFFF = (i, fe, ex)"
    by (metis prod_cases3)
  ultimately show ?thesis using scan_finds [OF sc] scan_root_spec [OF sc] by (auto simp: slot_of_def sc)
qed

lemma slot_before:
  assumes "slot_of name s < unat (bpb_root_entries s)" "j < slot_of name s"
  shows "hd (de_name (get_entry (root_dir_buf s) j)) \<noteq> 0 \<and>
    \<not> (live_entry (get_entry (root_dir_buf s) j) \<and> name_cmp (de_name (get_entry (root_dir_buf s) j)) (convert_to_83 name) = 0)"
proof -
  obtain i fe ex where sc: "scan_root (unat (bpb_root_entries s)) 0 (root_dir_buf s) (convert_to_83 name) 0xFFFF = (i, fe, ex)"
    by (metis prod_cases3)
  note spec = scan_root_spec [OF sc]
  have E: "unat (bpb_root_entries s) < 65536" by (rule unat_u16_less)
  have "slot_of name s \<le> i"
    using spec assms(1) E by (cases ex) (auto simp: slot_of_def sc split: if_splits)
  then show ?thesis using spec assms(2) by auto
qed

lemma base_live:
  assumes "hd (convert_to_83 name) \<noteq> 0" "hd (convert_to_83 name) \<noteq> 0xE5"
  shows "hd (de_name (base_of name s)) \<noteq> 0 \<and> live_entry (base_of name s) \<and> name_cmp (de_name (base_of name s)) (convert_to_83 name) = 0 \<and>
    length (de_name (base_of name s)) = 11"
proof -
  obtain i fe ex where sc: "scan_root (unat (bpb_root_entries s)) 0 (root_dir_buf s) (convert_to_83 name) 0xFFFF = (i, fe, ex)"
    by (metis prod_cases3)
  show ?thesis using scan_root_spec [OF sc] scan_finds [OF sc, symmetric] new_entry_live [OF assms]
    by (cases ex) (auto simp: base_of_def new_entry_def)
qed

text \<open>The call with the search of the directory done.\<close>

lemma write_file_eq:
  assumes "fat12_check_writable s" "slot_of name s < unat (bpb_root_entries s)"
  shows "fat12_write_file junk name data sz s = (case fat12_calc_needed_clusters sz s of None \<Rightarrow> None | Some n \<Rightarrow>
      if sz = 0 then write_entry (slot_of name s) ((base_of name s)\<lparr>de_cluster_lo := 0, de_file_size := sz\<rparr>) (released name s)
      else case alloc_chain (unat (if n = 0 then 1 else n)) 0 [] (released name s) of
        None \<Rightarrow> None
      | Some (False, _, s) \<Rightarrow> Some (False, s)
      | Some (True, chain, s1) \<Rightarrow>
          if bpb_bytes_per_sec s1 > 512 then None
          else case write_chain junk chain data sz 0 s1 of
            (False, s) \<Rightarrow> Some (False, snd (fat12_flush_fat (s\<lparr>fat_table := fat12_free_cluster_chain (hd chain) (fat_table s)\<rparr>)))
          | (True, s1) \<Rightarrow> write_entry (slot_of name s) ((base_of name s)\<lparr>de_cluster_lo := hd chain, de_file_size := sz\<rparr>) s1)"
proof -
  let ?n83 = "convert_to_83 name" and ?b = "root_dir_buf s" and ?E = "unat (bpb_root_entries s)"
  obtain i fe ex where sc: "scan_root ?E 0 ?b ?n83 0xFFFF = (i, fe, ex)" by (metis prod_cases3)
  have ex: "ex = fat12_find_file name s" by (rule scan_finds [OF sc])
  have bufr: "root_dir_buf (released name s) = ?b" using released_frame(1) [of name s] by auto
  have slot: "slot_of name s = (case ex of None \<Rightarrow> if fe = 0xFFFF \<and> i < ?E then i else fe | Some x \<Rightarrow> x)" by (simp add: slot_of_def sc)
  have base: "base_of name s = (case ex of None \<Rightarrow> new_entry ?n83 | Some x \<Rightarrow> get_entry ?b x)" by (simp add: base_of_def ex)
  show ?thesis
  proof (cases ex)
    case None
    then have r: "released name s = s" using ex by (simp add: released_def)
    have fn: "\<not> ?E \<le> (if fe = 0xFFFF \<and> i < ?E then i else fe)" using assms(2) None by (simp add: slot)
    show ?thesis unfolding fat12_write_file_def Let_def sc prod.case None r slot base using assms(1) fn
      by (simp only: option.case if_True if_False simp_thms prod.case not_True_eq_False refl)
  next
    case (Some y)
    then have y: "fat12_find_file name s = Some y" using ex by simp
    have r: "(if 2 \<le> de_cluster_lo (get_entry ?b y) \<and> de_cluster_lo (get_entry ?b y) < FAT12_CLUSTER_BAD
        then s\<lparr>fat_table := fat12_free_cluster_chain (de_cluster_lo (get_entry ?b y)) (fat_table s)\<rparr> else s) = released name s"
      by (simp add: released_def y Let_def)
    show ?thesis unfolding fat12_write_file_def Let_def sc prod.case Some option.case r slot base bufr using assms(1)
      by (simp only: option.case if_True if_False simp_thms prod.case not_True_eq_False refl option.distinct)
  qed
qed

text \<open>The steps of a successful call.\<close>

lemma write_file_steps:
  assumes "fat12_write_file junk name data sz s = Some (True, t)"
  shows "slot_of name s < unat (bpb_root_entries s) \<and>
     (if sz = 0 then write_entry (slot_of name s) ((base_of name s)\<lparr>de_cluster_lo := 0, de_file_size := sz\<rparr>) (released name s) = Some (True, t)
      else \<exists>n cs s2 s3. fat12_calc_needed_clusters sz s = Some n \<and>
        alloc_chain (unat (if n = 0 then 1 else n)) 0 [] (released name s) = Some (True, cs, s2) \<and>
        write_chain junk cs data sz 0 s2 = (True, s3) \<and>
        write_entry (slot_of name s) ((base_of name s)\<lparr>de_cluster_lo := hd cs, de_file_size := sz\<rparr>) s3 = Some (True, t))"
proof -
  have chk: "fat12_check_writable s" by (rule ccontr) (use assms in \<open>simp add: fat12_write_file_def\<close>)
  obtain i fe ex where sc: "scan_root (unat (bpb_root_entries s)) 0 (root_dir_buf s) (convert_to_83 name) 0xFFFF = (i, fe, ex)"
    by (metis prod_cases3)
  have slot: "slot_of name s < unat (bpb_root_entries s)"
  proof (cases "fat12_find_file name s")
    case None
    then have "ex = None" using scan_finds [OF sc] by simp
    then show ?thesis using assms sc by (auto simp: fat12_write_file_def Let_def slot_of_def split: if_splits option.splits)
  qed (simp add: slot_bound)
  have "(if sz = 0 then write_entry (slot_of name s) ((base_of name s)\<lparr>de_cluster_lo := 0, de_file_size := sz\<rparr>) (released name s) = Some (True, t)
      else \<exists>n cs s2 s3. fat12_calc_needed_clusters sz s = Some n \<and>
        alloc_chain (unat (if n = 0 then 1 else n)) 0 [] (released name s) = Some (True, cs, s2) \<and>
        write_chain junk cs data sz 0 s2 = (True, s3) \<and>
        write_entry (slot_of name s) ((base_of name s)\<lparr>de_cluster_lo := hd cs, de_file_size := sz\<rparr>) s3 = Some (True, t))"
    using assms unfolding write_file_eq [OF chk slot] by (auto split: option.splits prod.splits bool.splits if_splits)
  then show ?thesis using slot by blast
qed

text \<open>
  What a successful call leaves behind: the entry \<open>x\<close> of the name with the size and the first cluster, a chain \<open>cs\<close> of formerly free clusters which
  hold the data, and all other sectors of the data area as they were.
\<close>

definition file_written :: "nat \<Rightarrow> ('d \<Rightarrow> bool) \<Rightarrow> ('d \<Rightarrow> u32 \<Rightarrow> buf) \<Rightarrow> u8 list \<Rightarrow> buf \<Rightarrow> u32 \<Rightarrow> 'd fat12 \<Rightarrow> 'd fat12 \<Rightarrow> nat \<Rightarrow> dir_entry \<Rightarrow> u16 list \<Rightarrow> bool" where
  "file_written cap good sec name data sz s t x e cs \<longleftrightarrow> good (device t) \<and>
     (\<exists>tab d. t = s\<lparr>fat_table := tab, root_dir_buf := put_entry x e (root_dir_buf s), device := d\<rparr>) \<and>
     fat12_find_file name t = Some x \<and> get_entry (root_dir_buf t) x = e \<and> de_file_size e = sz \<and>
     de_cluster_lo e = (if cs = [] then 0 else hd cs) \<and> (cs = [] \<longleftrightarrow> sz = 0) \<and>
     grown (released name s) cs ((released name s)\<lparr>fat_table := fat_table t\<rparr>) \<and>
     unat sz \<le> 512 * unat (bpb_sec_per_clust s) * length cs \<and>
     (\<forall>j<length cs. arrived sec data (unat sz) (512 * unat (bpb_sec_per_clust s) * j) (fat12_cluster_lba (cs ! j) s) (unat (bpb_sec_per_clust s)) (device t)) \<and>
     (\<forall>m. \<forall>i<512. unat (data_area_lba s) \<le> unat m \<longrightarrow> unat m < cap \<longrightarrow> (\<forall>c \<in> set cs. m \<notin> secs s c) \<longrightarrow> sec (device t) m i = sec (device s) m i)"

lemma entry_upd:
  "hd (de_name base) \<noteq> 0 \<Longrightarrow> live_entry base \<Longrightarrow> hd (de_name (base\<lparr>de_cluster_lo := c, de_file_size := z\<rparr>)) \<noteq> 0 \<and> live_entry (base\<lparr>de_cluster_lo := c, de_file_size := z\<rparr>)"
  by (simp add: live_entry_def)

lemma grown_start: "grown s [] s"
  unfolding grown_def by (intro conjI exI [of _ "fat_table s"]) simp_all

lemma write_file_result:
  assumes ok: "disk_ok cap good rd wr sec" and rd: "fat12_read s = Some rd" and wr: "fat12_write s = Some wr" and voli: "volume cap s \<and> good (device s)"
    and nm: "hd (convert_to_83 name) \<noteq> 0" "hd (convert_to_83 name) \<noteq> 0xE5" and sz: "unat sz \<le> 16777216"
    and w: "fat12_write_file junk name data sz s = Some (True, t)"
  shows "\<exists>x e cs. file_written cap good sec name data sz s t x e cs"
proof -
  let ?r = "released name s" and ?k = "unat (bpb_sec_per_clust s)"
  obtain tab0 where r: "?r = s\<lparr>fat_table := tab0\<rparr>" using released_frame(1) by blast
  have vol: "volume cap s" and dev: "good (device s)" using voli by simp_all
  have volr: "volume cap ?r" using vol released_frame(2) by blast
  define x base where "x = slot_of name s" and "base = base_of name s"
  have x: "x < unat (bpb_root_entries s)"
    and steps: "if sz = 0 then write_entry x (base\<lparr>de_cluster_lo := 0, de_file_size := sz\<rparr>) ?r = Some (True, t)
      else \<exists>n cs s2 s3. fat12_calc_needed_clusters sz s = Some n \<and> alloc_chain (unat (if n = 0 then 1 else n)) 0 [] ?r = Some (True, cs, s2) \<and>
        write_chain junk cs data sz 0 s2 = (True, s3) \<and> write_entry x (base\<lparr>de_cluster_lo := hd cs, de_file_size := sz\<rparr>) s3 = Some (True, t)"
    using write_file_steps [OF w] unfolding x_def base_def by blast+
  have before: "\<And>j. j < x \<Longrightarrow> hd (de_name (get_entry (root_dir_buf s) j)) \<noteq> 0 \<and>
        \<not> (live_entry (get_entry (root_dir_buf s) j) \<and> name_cmp (de_name (get_entry (root_dir_buf s) j)) (convert_to_83 name) = 0)"
    using slot_before x unfolding x_def by blast
  have base: "hd (de_name base) \<noteq> 0" "live_entry base" "name_cmp (de_name base) (convert_to_83 name) = 0" "length (de_name base) = 11"
    using base_live [OF nm, of s] unfolding base_def by blast+
  have found: "fat12_find_file name t = Some x \<and> get_entry (root_dir_buf t) x = base\<lparr>de_cluster_lo := c, de_file_size := sz\<rparr>"
    if "root_dir_buf t = put_entry x (base\<lparr>de_cluster_lo := c, de_file_size := sz\<rparr>) (root_dir_buf s)" "bpb_root_entries t = bpb_root_entries s" for c
    using entry_found [of "base\<lparr>de_cluster_lo := c, de_file_size := sz\<rparr>" "convert_to_83 name" x _ "root_dir_buf s"]
      entry_upd [OF base(1,2), where c = c and z = sz] base(3,4) before x that by (simp add: fat12_find_file_def get_put_entry)
  show ?thesis
  proof (cases "sz = 0")
    case True
    let ?e = "base\<lparr>de_cluster_lo := 0, de_file_size := sz\<rparr>"
    have k: "data_kept cap good sec (?r\<lparr>root_dir_buf := put_entry x ?e (root_dir_buf ?r)\<rparr>) t"
      using write_entry_kept [OF ok volr, of x ?e t] rd wr x steps True r dev by simp
    then obtain d where t: "t = ?r\<lparr>root_dir_buf := put_entry x ?e (root_dir_buf ?r), device := d\<rparr>" by (auto simp: data_kept_def)
    then have "file_written cap good sec name data sz s t x ?e []"
      unfolding file_written_def using True k r found [of 0] grown_start [of ?r]
      by (auto simp: data_kept_def intro!: exI [of _ tab0] exI [of _ d])
    then show ?thesis by blast
  next
    case False
    with steps obtain n cs s2 s3 where n: "fat12_calc_needed_clusters sz s = Some n"
      and al: "alloc_chain (unat (if n = 0 then 1 else n)) 0 [] ?r = Some (True, cs, s2)"
      and wc: "write_chain junk cs data sz 0 s2 = (True, s3)"
      and we: "write_entry x (base\<lparr>de_cluster_lo := hd cs, de_file_size := sz\<rparr>) s3 = Some (True, t)" by auto
    note nc = needed_clusters [OF vol sz n False]
    have g: "grown ?r cs s2" and len: "length cs = unat n"
      using alloc_chain_grows [of ?r "[]" ?r 0 "unat n" cs s2] al nc(1) grown_start [of ?r] volr by (auto simp: volume_def)
    have cs: "cs \<noteq> []" using len nc(1) by (auto simp: unat_eq_0)
    obtain tab where s2: "s2 = s\<lparr>fat_table := tab\<rparr>" using g r by (auto simp: grown_def)
    define ns where "ns = map unat cs"
    have csn: "cs = map of_nat ns" by (simp add: ns_def comp_def)
    have dist: "distinct cs" using g cs chain_list_distinct by (auto simp: grown_def)
    have sub: "set ns \<subseteq> fat12_range s"
      using g fat12_range_data released_frame(3) [of name s] by (fastforce simp: grown_def ns_def)
    have dn: "distinct ns" using dist by (simp add: ns_def distinct_map inj_on_def word_unat_eq_iff)
    have z: "unat sz + 512 < 4294967296" using sz by simp
    have pre: "\<exists>d tab. s2 = s\<lparr>fat_table := tab, device := d\<rparr>" using s2 by (intro exI [of _ "device s"] exI [of _ tab]) simp
    have room: "ns \<noteq> [] \<longrightarrow> 0 + 512 * ?k * (length ns - 1) < unat sz" using nc(2) len by (simp add: ns_def)
    have wc': "write_chain junk (map of_nat ns) data (of_nat (unat sz)) (of_nat 0) s2 = (True, s3)" using wc unfolding csn [symmetric] by simp
    have wr2: "fat12_write s2 = Some wr" using wr s2 by simp
    have i2: "good (device s2)" using dev s2 by simp
    obtain d where d: "s3 = s2\<lparr>device := d\<rparr>"
      "\<forall>j<length ns. arrived sec data (unat sz) (0 + 512 * ?k * j) (fat12_cluster_lba (of_nat (ns ! j)) s) ?k d"
      "\<forall>m. \<forall>i<512. unat m < cap \<longrightarrow> (\<forall>c \<in> set ns. m \<notin> secs s (of_nat c)) \<longrightarrow> sec d m i = sec (device s2) m i"
      and i3: "good d" using write_chain_disk [OF ok z vol wc' wr2 pre sub dn room i2] by blast
    let ?e = "base\<lparr>de_cluster_lo := hd cs, de_file_size := sz\<rparr>"
    have vol3: "volume cap s3" "fat12_read s3 = Some rd" "fat12_write s3 = Some wr" "x < unat (bpb_root_entries s3)"
      using d(1) s2 vol rd wr x by (simp_all add: volume_def)
    have k: "data_kept cap good sec (s3\<lparr>root_dir_buf := put_entry x ?e (root_dir_buf s3)\<rparr>) t" by (rule write_entry_kept [OF ok vol3 _ we]) (use d(1) i3 in simp)
    then obtain d' where t: "t = s\<lparr>fat_table := tab, root_dir_buf := put_entry x ?e (root_dir_buf s), device := d'\<rparr>"
      using d(1) s2 by (auto simp: data_kept_def)
    have keep: "sec d' m i = sec d m i" if "i < 512" "unat (data_area_lba s) \<le> unat m" "unat m < cap" for m i
      using k t d(1) s2 that by (auto simp: data_kept_def)
    have arr: "arrived sec data (unat sz) (512 * ?k * j) (fat12_cluster_lba (cs ! j) s) ?k d'" if j: "j < length cs" for j
    proof -
      have nj: "ns ! j \<in> fat12_range s" "of_nat (ns ! j) = cs ! j" using sub j by (auto simp: ns_def)
      have "unat (data_area_lba s) \<le> unat (fat12_cluster_lba (cs ! j) s + of_nat q) \<and> unat (fat12_cluster_lba (cs ! j) s + of_nat q) < cap"
        if "q < ?k" for q using secs_in_data [OF vol nj(1) that] nj(2) by simp
      then show ?thesis using d(2) j keep nj(2) unfolding arrived_def by (simp add: ns_def)
    qed
    have oth: "sec d' m i = sec (device s) m i" if "i < 512" "unat (data_area_lba s) \<le> unat m" "unat m < cap" "\<forall>c \<in> set cs. m \<notin> secs s c" for m i
      using keep [OF that(1-3)] d(3) that s2 by (auto simp: ns_def)
    have "grown ?r cs (?r\<lparr>fat_table := fat_table t\<rparr>)" using g s2 t r by simp
    then have "file_written cap good sec name data sz s t x ?e cs"
      unfolding file_written_def using t found [of "hd cs"] cs False nc(3) len arr oth k by (auto simp: data_kept_def)
    then show ?thesis by blast
  qed
qed

section \<open>Properties\<close>

lemma disk_reads:
  assumes "disk_ok cap good rd wr sec" "fat12_read s = Some rd" "good (device s)"
  obtains rs where "\<And>l. unat l < cap \<Longrightarrow> do_read s l 1 = Some (rs l)" "\<And>l i. unat l < cap \<Longrightarrow> i < 512 \<Longrightarrow> rs l i = sec (device s) l i"
proof -
  have "\<exists>b. unat l < cap \<longrightarrow> do_read s l 1 = Some b \<and> (\<forall>i<512. b i = sec (device s) l i)" for l
    using assms by (auto simp: disk_ok_def do_read_def)
  then have "\<exists>rs. \<forall>l. unat l < cap \<longrightarrow> do_read s l 1 = Some (rs l) \<and> (\<forall>i<512. rs l i = sec (device s) l i)" by (intro choice) blast
  then show ?thesis using that by blast
qed

lemma put_img_take: "fs \<le> length img \<Longrightarrow> put_img addr fs img ram = put_img addr fs (take fs img) ram"
  by (auto simp: put_img_def)

lemma write_then_load:
  assumes "disk_ok cap good rd wr sec" and "fat12_read s = Some rd" and "fat12_write s = Some wr" and "volume cap s \<and> good (device s)"
    and "hd (convert_to_83 name) \<noteq> 0" and "hd (convert_to_83 name) \<noteq> 0xE5" and "unat sz \<le> 16777216"
    and "fat12_write_file junk name data sz s = Some (True, t)"
  shows "\<exists>x. fat12_find_file name t = Some x \<and> de_file_size (get_entry (root_dir_buf t) x) = sz \<and>
    fat12_load_file 4096 (get_entry (root_dir_buf t) x) addr t ram = Some (sz, put_img addr (unat sz) (map data [0..<unat sz]) ram)"
proof -
  have vol: "volume cap s" using assms(4) by blast
  obtain x e cs where fw: "file_written cap good sec name data sz s t x e cs" using write_file_result [OF assms] by blast
  then have x: "fat12_find_file name t = Some x" "get_entry (root_dir_buf t) x = e" "de_file_size e = sz"
    by (simp_all add: file_written_def)
  obtain tab b d where t: "t = s\<lparr>fat_table := tab, root_dir_buf := b, device := d\<rparr>" using fw by (auto simp: file_written_def)
  show ?thesis
  proof (cases "sz = 0")
    case True
    then have "de_cluster_lo e = 0" using fw by (simp add: file_written_def)
    then have "fat12_load_file 4096 e addr t ram = Some (0, ram)" by (simp add: fat12_load_file_def)
    then show ?thesis using x True by (simp add: put_img_def)
  next
    case False
    then have cs: "cs \<noteq> []" "de_cluster_lo e = hd cs" using fw by (auto simp: file_written_def)
    then have ch: "chain_list (fat_table t) (de_cluster_lo e) cs" using fw by (simp add: file_written_def grown_def)
    have it: "good (device t)" using fw by (simp add: file_written_def)
    have "fat12_read t = Some rd" using t assms(2) by simp
    from disk_reads [OF assms(1) this it] obtain rs where rs: "\<And>l. unat l < cap \<Longrightarrow> do_read t l 1 = Some (rs l)"
      "\<And>l i. unat l < cap \<Longrightarrow> i < 512 \<Longrightarrow> rs l i = sec (device t) l i" by blast
    have inc: "unat (fat12_cluster_lba c t + of_nat q) < cap" if c: "c \<in> set cs" and q: "q < unat (bpb_sec_per_clust t)" for c q
    proof -
      have "grown (released name s) cs ((released name s)\<lparr>fat_table := fat_table t\<rparr>)" using fw by (simp add: file_written_def)
      then obtain n where "c = of_nat n" "n \<in> fat12_range (released name s)" using c unfolding grown_def by blast
      then show ?thesis using secs_in_data [OF vol, of n q] q t released_frame(3) [of name s] by (simp add: fat12_cluster_lba_def)
    qed
    have same: "bpb_sec_per_clust t = bpb_sec_per_clust s" "fat12_cluster_lba c t = fat12_cluster_lba c s" for c
      using t by (simp_all add: fat12_cluster_lba_def)
    have room: "unat sz \<le> 512 * unat (bpb_sec_per_clust t) * length cs" using fw same by (simp add: file_written_def)
    have tk: "take (unat sz) (chain_bytes rs t cs) = map data [0..<unat sz]"
    proof (rule chain_holds_data [where sec = sec and d = "device t"])
      show "arrived sec data (unat sz) (512 * unat (bpb_sec_per_clust t) * j) (fat12_cluster_lba (cs ! j) t) (unat (bpb_sec_per_clust t)) (device t)"
        if "j < length cs" for j using fw that unfolding same file_written_def by blast
      show "rs (fat12_cluster_lba c t + of_nat q) i = sec (device t) (fat12_cluster_lba c t + of_nat q) i"
        if "c \<in> set cs" "q < unat (bpb_sec_per_clust t)" "i < 512" for c q i by (rule rs(2) [OF inc [OF that(1,2)] that(3)])
    qed (rule room)
    have "fat12_load_file 4096 e addr t ram =
        Some (of_nat (min (unat sz) (length (chain_bytes rs t cs))), put_img addr (unat sz) (chain_bytes rs t cs) ram)"
      using fat12_load_file_spec [OF _ ch cs(1)] rs(1) inc x(3) assms(7) by (simp add: readable_def)
    also have "\<dots> = Some (sz, put_img addr (unat sz) (map data [0..<unat sz]) ram)"
      using room tk put_img_take [of "unat sz" "chain_bytes rs t cs" addr ram] by (simp add: length_chain_bytes)
    finally show ?thesis using x by simp
  qed
qed

text \<open>
  C16. Writing a file and loading it: after \<open>fat12_write_file\<close> reported success, whether the name existed before or not, \<open>fat12_find_file\<close> finds the name and \<open>fat12_load_file\<close> of its
  entry returns the size and puts exactly the bytes written at the load address; 4096 rounds of the load loop are enough.
\<close>

theorem fat12_write_then_load:
  assumes "disk_ok cap good rd wr sec" and "fat12_read s = Some rd" and "fat12_write s = Some wr" and "volume cap s \<and> good (device s)"
    and "hd (convert_to_83 name) \<noteq> 0" and "hd (convert_to_83 name) \<noteq> 0xE5" and "unat sz \<le> 16777216"
    and "fat12_write_file junk name data sz s = Some (True, t)"
  shows "\<exists>x. fat12_find_file name t = Some x \<and>
    fat12_load_file 4096 (get_entry (root_dir_buf t) x) addr t ram = Some (sz, put_img addr (unat sz) (map data [0..<unat sz]) ram)"
  using write_then_load [OF assms] by blast

lemma chain_list_cong: "chain_list t c xs \<Longrightarrow> (\<And>x. x \<in> set xs \<Longrightarrow> fat12_get_next_cluster x u = fat12_get_next_cluster x t) \<Longrightarrow> chain_list u c xs"
  by (induction xs arbitrary: c) auto

lemma sector_bytes_cong: "(\<And>l i. i < 512 \<Longrightarrow> l - lba < of_nat k \<Longrightarrow> f l i = g l i) \<Longrightarrow> k < 4294967296 \<Longrightarrow> sector_bytes f k lba = sector_bytes g k lba"
proof (rule nth_equalityI)
  fix p assume h: "\<And>l i. i < 512 \<Longrightarrow> l - lba < of_nat k \<Longrightarrow> f l i = g l i" "k < 4294967296" and "p < length (sector_bytes f k lba)"
  then have p: "p < 512 * k" by simp
  then have "p div 512 < k" by (simp add: less_mult_imp_div_less mult.commute)
  then have "(of_nat (p div 512) :: u32) < of_nat k" using h(2) by (simp add: word_less_nat_alt unat_of_nat_u32)
  then show "sector_bytes f k lba ! p = sector_bytes g k lba ! p" using h(1) p by (simp add: sector_bytes_nth)
qed simp

text \<open>
  C17. Writing a new file does not touch the others: a file whose chain is intact, of clusters of the volume and properly ended, loads after the write exactly as it did before.
\<close>

theorem fat12_write_keeps_others:
  assumes "disk_ok cap good rd wr sec" and "fat12_read s = Some rd" and "fat12_write s = Some wr" and "volume cap s \<and> good (device s)"
    and "hd (convert_to_83 name) \<noteq> 0" and "hd (convert_to_83 name) \<noteq> 0xE5" and "unat sz \<le> 16777216"
    and "fat12_write_file junk name data sz s = Some (True, t)" and "fat12_find_file name s = None"
    and "chain_list (fat_table s) (de_cluster_lo e) cs" and "cs \<noteq> []" and "set cs \<subseteq> of_nat ` fat12_range s"
    and "fat12_get_next_cluster (last cs) (fat_table s) \<noteq> 0" and "unat (de_file_size e) + 512 \<le> 4294967295"
  shows "fat12_load_file 4096 e addr t ram = fat12_load_file 4096 e addr s ram"
proof -
  have vol: "volume cap s" using assms(4) by blast
  obtain x e' ns where fw: "file_written cap good sec name data sz s t x e' ns" using write_file_result [OF assms(1-8)] by blast
  have rel: "released name s = s" using assms(9) by (simp add: released_def)
  obtain tab b d where t: "t = s\<lparr>fat_table := tab, root_dir_buf := b, device := d\<rparr>" using fw by (auto simp: file_written_def)
  have g: "grown s ns (s\<lparr>fat_table := tab\<rparr>)" using fw t rel by (simp add: file_written_def)
  have disj: "c \<notin> set ns" if "c \<in> set cs" for c
    using chain_list_nonzero [OF assms(10) that assms(13)] g by (auto simp: grown_def)
  have ch: "chain_list (fat_table t) (de_cluster_lo e) cs"
    by (rule chain_list_cong [OF assms(10)]) (use g disj t in \<open>simp add: grown_def\<close>)
  obtain rs where rs: "\<And>l. unat l < cap \<Longrightarrow> do_read s l 1 = Some (rs l)" "\<And>l i. unat l < cap \<Longrightarrow> i < 512 \<Longrightarrow> rs l i = sec (device s) l i"
    using disk_reads [OF assms(1,2) conjunct2 [OF assms(4)]] by blast
  have it: "good (device t)" using fw by (simp add: file_written_def)
  have "fat12_read t = Some rd" using t assms(2) by simp
  from disk_reads [OF assms(1) this it] obtain rt where rt: "\<And>l. unat l < cap \<Longrightarrow> do_read t l 1 = Some (rt l)"
    "\<And>l i. unat l < cap \<Longrightarrow> i < 512 \<Longrightarrow> rt l i = sec (device t) l i" by blast
  let ?k = "unat (bpb_sec_per_clust s)"
  have k: "?k < 4294967296" using unat_u8_less [of "bpb_sec_per_clust s"] by linarith
  have rds: "readable s rs c" "readable t rt c" if c: "c \<in> set cs" for c
  proof -
    obtain n where n: "c = of_nat n" "n \<in> fat12_range s" using c assms(12) by blast
    then show "readable s rs c" "readable t rt c"
      using secs_in_data [OF vol n(2)] rs(1) rt(1) t by (simp_all add: readable_def fat12_cluster_lba_def)
  qed
  have "sector_bytes rt ?k (fat12_cluster_lba c s) = sector_bytes rs ?k (fat12_cluster_lba c s)" if c: "c \<in> set cs" for c
  proof (rule sector_bytes_cong [OF _ k])
    fix l i assume i: "i < (512 :: nat)" and "l - fat12_cluster_lba c s < of_nat ?k"
    then have l: "l \<in> secs s c" using k by (simp add: secs_def word_less_nat_alt unat_up)
    obtain n where n: "c = of_nat n" "n \<in> fat12_range s" using c assms(12) by blast
    have low: "unat (data_area_lba s) \<le> unat l" "unat l < cap"
      using secs_in_data [OF vol n(2), of "unat (l - fat12_cluster_lba c s)"] l n(1) by (simp_all add: secs_def)
    have "l \<notin> secs s c'" if c': "c' \<in> set ns" for c'
    proof -
      obtain n' where n': "c' = of_nat n'" "n' \<in> fat12_range s" using c' g by (auto simp: grown_def)
      have "n \<noteq> n'" using disj [OF c] c' n(1) n'(1) by auto
      then show ?thesis using secs_disjoint [OF vol n(2) n'(2)] l n(1) n'(1) by auto
    qed
    then show "rt l i = rs l i" using fw i low rs(2) [OF low(2) i] rt(2) [OF low(2) i] by (simp add: file_written_def)
  qed
  then have "chain_bytes rt t cs = chain_bytes rs s cs"
    using t by (simp add: chain_bytes_def fat12_cluster_lba_def cong: map_cong)
  then show ?thesis
    using fat12_load_file_spec [OF rds(1) assms(10,11,14), of addr ram] fat12_load_file_spec [OF rds(2) ch assms(11,14), of addr ram] by simp
qed

end
