(* ===== verification/Fat12_Total.thy ===== *)
theory Fat12_Total
  imports Fat12_Write
begin

text \<open>
  Writing a file succeeds: when the directory has an entry for the name, enough clusters are free and the disk takes every write, \<open>fat12_write_file\<close> of
  \<^verbatim>\<open>src/kernel/fs/fat12.c\<close> reports success.  Also the witnesses of \<open>Fat12_Write\<close>.
\<close>

unbundle bit_operations_syntax

section \<open>What a write needs\<close>

text \<open>A disk that takes every write in its range.\<close>

definition writes_ok :: "nat \<Rightarrow> ('d \<Rightarrow> bool) \<Rightarrow> 'd write_fn \<Rightarrow> bool" where
  "writes_ok cap good wr \<longleftrightarrow> (\<forall>l n b d. good d \<longrightarrow> unat l + unat n \<le> cap \<longrightarrow> fst (wr l n b d))"

definition has_room :: "u8 list \<Rightarrow> 'd fat12 \<Rightarrow> bool" where
  "has_room name s \<longleftrightarrow> fat12_find_file name s \<noteq> None \<or>
     (\<exists>j<unat (bpb_root_entries s). hd (de_name (get_entry (root_dir_buf s) j)) = 0 \<or> hd (de_name (get_entry (root_dir_buf s) j)) = 0xE5)"

definition free_clusters :: "'d fat12 \<Rightarrow> nat set" where
  "free_clusters s = {c \<in> fat12_range s. fat12_get_next_cluster (of_nat c) (fat_table s) = 0}"

definition clusters_for :: "nat \<Rightarrow> 'd fat12 \<Rightarrow> nat" where
  "clusters_for z s = (z + 512 * unat (bpb_sec_per_clust s) - 1) div (512 * unat (bpb_sec_per_clust s))"

section \<open>Directory\<close>

lemma scan_keeps_free: "scan_root k i b n fe = (i', fe', None) \<Longrightarrow> fe \<noteq> 0xFFFF \<Longrightarrow> fe' = fe"
  by (induction k i b n fe rule: scan_root.induct) (auto simp: Let_def split: if_splits)

lemma scan_room:
  "scan_root k i b n fe = (i', fe', None) \<Longrightarrow> fe = 0xFFFF \<Longrightarrow> i \<le> j \<Longrightarrow> j < i + k \<Longrightarrow> i + k < 65536 \<Longrightarrow>
   hd (de_name (get_entry b j)) = 0 \<or> hd (de_name (get_entry b j)) = 0xE5 \<Longrightarrow> fe' < i + k"
proof (induction k arbitrary: i fe)
  case (Suc k)
  let ?h = "hd (de_name (get_entry b i))"
  consider "?h = 0" | "?h = 0xE5" | "?h \<noteq> 0" "?h \<noteq> 0xE5" by blast
  then show ?case
  proof cases
    case 1
    then show ?thesis using Suc.prems by (simp add: Let_def)
  next
    case 2
    then have "scan_root k (Suc i) b n i = (i', fe', None)" using Suc.prems(1,2) by (simp add: Let_def)
    then show ?thesis using scan_keeps_free [of k "Suc i" b n i i' fe'] Suc.prems(5) by simp
  next
    case 3
    then have "scan_root k (Suc i) b n fe = (i', fe', None)" using Suc.prems(1) by (auto simp: Let_def split: if_splits)
    moreover have "i \<noteq> j" using 3 Suc.prems(6) by auto
    ultimately show ?thesis using Suc.IH [of "Suc i" fe] Suc.prems by simp
  qed
qed simp

lemma slot_exists:
  assumes "has_room name s"
  shows "slot_of name s < unat (bpb_root_entries s)"
proof (cases "fat12_find_file name s")
  case None
  obtain i fe ex where sc: "scan_root (unat (bpb_root_entries s)) 0 (root_dir_buf s) (convert_to_83 name) 0xFFFF = (i, fe, ex)"
    by (metis prod_cases3)
  then have ex: "ex = None" using scan_finds [OF sc] None by simp
  obtain j where "j < unat (bpb_root_entries s)" "hd (de_name (get_entry (root_dir_buf s) j)) = 0 \<or> hd (de_name (get_entry (root_dir_buf s) j)) = 0xE5"
    using assms None by (auto simp: has_room_def)
  then have "fe < unat (bpb_root_entries s)" using scan_room [of "unat (bpb_root_entries s)" 0 _ _ _ i fe j] sc ex unat_u16_less [of "bpb_root_entries s"] by simp
  then show ?thesis by (simp add: slot_of_def sc ex)
qed (simp add: slot_bound)

section \<open>Clusters\<close>

lemma finite_free: "finite (free_clusters s)"
  by (simp add: free_clusters_def fat12_range_def)

lemma grown_free:
  assumes "grown s0 chain s"
  shows "free_clusters s = free_clusters s0 - unat ` set chain" "card (unat ` set chain) = length chain"
proof -
  have nz: "fat12_get_next_cluster x (fat_table s) \<noteq> 0" if "x \<in> set chain" for x
    using assms chain_list_nonzero [of "fat_table s" "hd chain" chain x] that by (auto simp: grown_def)
  have u: "c \<in> unat ` set chain \<longleftrightarrow> of_nat c \<in> set chain" if "c \<in> fat12_range s0" for c
    using fat12_range_data [OF that] by force
  show "free_clusters s = free_clusters s0 - unat ` set chain"
    using nz u grown_range [OF assms] assms unfolding free_clusters_def by (auto simp: grown_def)
  have "distinct chain" using assms chain_list_distinct by (cases "chain = []") (auto simp: grown_def)
  then show "card (unat ` set chain) = length chain" by (simp add: card_image inj_on_def word_unat_eq_iff distinct_card)
qed

lemma alloc_chain_succeeds:
  assumes "bpb_sec_per_clust s0 \<noteq> 0"
  shows "grown s0 chain s \<Longrightarrow> prev = (if chain = [] then 0 else last chain) \<Longrightarrow> length chain + k \<le> card (free_clusters s0) \<Longrightarrow> length chain + k \<le> 512 \<Longrightarrow>
    \<exists>cs t. alloc_chain k prev chain s = Some (True, cs, t)"
proof (induction k arbitrary: chain prev s)
  case (Suc k)
  note g = Suc.prems(1)
  have spc: "bpb_sec_per_clust s \<noteq> 0" using grown_range [OF g] assms by simp
  have "card (free_clusters s) \<ge> card (free_clusters s0) - length chain"
    unfolding grown_free(1) [OF g] using grown_free(2) [OF g] diff_card_le_card_Diff [of "unat ` set chain" "free_clusters s0"] by simp
  then have "free_clusters s \<noteq> {}" using Suc.prems(3) by auto
  then obtain c where c: "c \<in> fat12_range s" "fat12_get_next_cluster (of_nat c) (fat_table s) = 0"
    and al: "fat12_alloc_cluster s = Some (of_nat c, s\<lparr>fat_table := fat12_set_next_cluster (of_nat c) 0xFF8 (fat_table s)\<rparr>)"
    using alloc_cluster_cases [OF spc] by (fastforce simp: free_clusters_def)
  let ?cl = "of_nat c :: u16" and ?s1 = "s\<lparr>fat_table := fat12_set_next_cluster (of_nat c) 0xFF8 (fat_table s)\<rparr>"
  let ?s2 = "if chain \<noteq> [] then ?s1\<lparr>fat_table := fat12_set_next_cluster (last chain) ?cl (fat_table ?s1)\<rparr> else ?s1"
  have nz: "?cl \<noteq> 0" using fat12_range_data [OF c(1)] end_no_data(2) by auto
  have g2: "grown s0 (chain @ [?cl]) ?s2" using grown_step [OF g, of c] c grown_range [OF g] by simp
  have last_nz: "last chain \<noteq> 0" if "chain \<noteq> []"
    using g that chain_list_data [of "fat_table s" "hd chain" chain "last chain"] end_no_data(2) by (auto simp: grown_def)
  have "alloc_chain (Suc k) prev chain s = alloc_chain k ?cl (chain @ [?cl]) ?s2"
    using al nz Suc.prems(2,4) last_nz by simp
  then show ?case using Suc.IH [OF g2] Suc.prems(3,4) by simp
qed simp

section \<open>Sectors\<close>

lemma do_write_succeeds:
  assumes "disk_ok cap good rd wr sec" "writes_ok cap good wr" "fat12_write s = Some wr" "good (device s)" "unat l + unat n \<le> cap"
  shows "\<exists>d. do_write l n b s = (True, s\<lparr>device := d\<rparr>) \<and> good d"
proof -
  obtain d where "wr l n b (device s) = (True, d)" using assms(2,4,5) unfolding writes_ok_def by (metis (full_types) surjective_pairing)
  then have w: "do_write l n b s = (True, s\<lparr>device := d\<rparr>)" using assms(3) by (simp add: do_write_def)
  then show ?thesis using do_write_disk [OF assms(1,3) w assms(5,4)] by auto
qed

lemma write_cluster_succeeds:
  assumes "disk_ok cap good rd wr sec" "writes_ok cap good wr"
  shows "fat12_write s = Some wr \<Longrightarrow> good (device s) \<Longrightarrow> unat lba + k \<le> cap \<Longrightarrow>
    \<exists>w' d. write_cluster junk k lba data sz w s = (True, w', s\<lparr>device := d\<rparr>) \<and> good d"
proof (induction k arbitrary: lba w s)
  case 0
  then show ?case by (auto intro: exI [of _ "device s"])
next
  case (Suc k)
  let ?bps = "ucast (bpb_bytes_per_sec s) :: u32"
  let ?c = "if w + ?bps > sz then sz - w else ?bps"
  have l: "unat lba + unat (1 :: u8) \<le> cap" "unat (lba + 1) + k \<le> cap" using Suc.prems(3) unat_plus_one_le [of lba] by simp_all
  obtain d where d: "do_write lba 1 (copy_to (unat ?c) (unat ?bps - unat ?c) (\<lambda>_. 0) (copy_to 0 (unat ?c) (\<lambda>j. data (unat w + j)) junk)) s = (True, s\<lparr>device := d\<rparr>)"
    "good d" using do_write_succeeds [OF assms Suc.prems(1,2) l(1)] by blast
  obtain w' d' where "write_cluster junk k (lba + 1) data sz (w + ?c) (s\<lparr>device := d\<rparr>) = (True, w', s\<lparr>device := d'\<rparr>)" "good d'"
    using Suc.IH [of "s\<lparr>device := d\<rparr>" "lba + 1" "w + ?c"] Suc.prems(1) d(2) l(2) by auto
  then show ?case unfolding write_cluster.simps Let_def d(1) prod.case using d(2) by (cases "sz \<le> w + ?c") auto
qed

lemma write_chain_succeeds:
  assumes "disk_ok cap good rd wr sec" "writes_ok cap good wr"
  shows "fat12_write s = Some wr \<Longrightarrow> good (device s) \<Longrightarrow> volume cap s \<Longrightarrow> set cs \<subseteq> of_nat ` fat12_range s \<Longrightarrow>
    \<exists>d. write_chain junk cs data sz w s = (True, s\<lparr>device := d\<rparr>) \<and> good d"
proof (induction cs arbitrary: s w)
  case Nil
  then show ?case by (intro exI [of _ "device s"]) simp
next
  case (Cons c cs)
  obtain n where n: "c = of_nat n" "n \<in> fat12_range s" using Cons.prems(4) by auto
  obtain w' d where d: "write_cluster junk (unat (bpb_sec_per_clust s)) (fat12_cluster_lba c s) data sz w s = (True, w', s\<lparr>device := d\<rparr>)" "good d"
    using write_cluster_succeeds [OF assms Cons.prems(1,2)] cluster_in_cap [OF Cons.prems(3) n(2)] n(1) by blast
  have "volume cap (s\<lparr>device := d\<rparr>)" "fat12_range (s\<lparr>device := d\<rparr>) = fat12_range s"
    using Cons.prems(3) by (simp_all add: volume_def fat12_range_def fat12_total_clusters_def)
  then show ?case using Cons.IH [of "s\<lparr>device := d\<rparr>" w'] Cons.prems(1,4) d by simp
qed

lemma flush_succeeds:
  assumes "disk_ok cap good rd wr sec" "writes_ok cap good wr"
  shows "fat12_write s = Some wr \<Longrightarrow> good (device s) \<Longrightarrow> volume cap s \<Longrightarrow> set js \<subseteq> {..<unat (bpb_num_fats s)} \<Longrightarrow> \<exists>t. flush_copies js s = (True, t)"
proof (induction js arbitrary: s)
  case (Cons j js)
  let ?l = "fat_start_lba s + of_nat j * ucast (bpb_fat_size s) :: u32"
  have "unat ?l + unat (ucast (bpb_fat_size s) :: u8) \<le> cap"
    using fat_copy_low [OF Cons.prems(3), of j] Cons.prems(3,4) by (simp add: volume_def)
  then obtain d where "do_write ?l (ucast (bpb_fat_size s)) (fat_table s) s = (True, s\<lparr>device := d\<rparr>)" "good d"
    using do_write_succeeds [OF assms Cons.prems(1,2)] by blast
  then show ?case using Cons.IH [of "s\<lparr>device := d\<rparr>"] Cons.prems by (simp add: volume_def)
qed simp

lemma write_entry_succeeds:
  assumes "disk_ok cap good rd wr sec" "writes_ok cap good wr" "fat12_read s = Some rd" "fat12_write s = Some wr" "good (device s)" "volume cap s"
    "i < unat (bpb_root_entries s)"
  shows "\<exists>t. write_entry i e s = Some (True, t)"
proof -
  let ?s = "s\<lparr>root_dir_buf := put_entry i e (root_dir_buf s)\<rparr>" and ?l = "root_dir_lba s + of_nat (32 * i div 512)"
  have l: "unat ?l + 1 \<le> cap" "unat ?l < cap" using dir_sector_low [OF assms(6,7)] assms(6) by (simp_all add: volume_def)
  have bps: "unat (bpb_bytes_per_sec s) = 512" using assms(6) by (simp add: volume_def)
  obtain b where b: "rd ?l 1 (device s) = Some b" using assms(1,5) l(2) unfolding disk_ok_def by blast
  have "32 * i mod 512 = 32 * (i mod 16)" using mult_mod_right [of 32 i 16] by simp
  then have fit: "\<not> 32 * i mod 512 + 32 > 512" using mod_less_divisor [of 16 i] by simp
  let ?buf = "copy_to (32 * i mod 512) 32 (\<lambda>j. root_dir_buf ?s (32 * i + j)) b"
  have "unat ?l + unat (1 :: u8) \<le> cap" using l(1) by simp
  then obtain d where d: "do_write ?l 1 ?buf ?s = (True, ?s\<lparr>device := d\<rparr>)" "good d"
    using do_write_succeeds [OF assms(1,2), of ?s ?l 1 ?buf] assms(4,5) by auto
  have u: "update_dir_sector (32 * i) 32 (\<lambda>j. root_dir_buf ?s (32 * i + j)) ?s = Some (True, ?s\<lparr>device := d\<rparr>)"
    using b d(1) bps fit assms(3) by (simp add: update_dir_sector_def Let_def do_read_def)
  have "\<exists>t. fat12_flush_fat (?s\<lparr>device := d\<rparr>) = (True, t)"
    unfolding fat12_flush_fat_def using assms(4,6) d(2)
    by (intro flush_succeeds [OF assms(1,2)]) (auto simp: volume_def)
  then show ?thesis using u by (auto simp: write_entry_def Let_def)
qed

section \<open>Success\<close>

lemma needed_exists:
  assumes "volume cap s" "unat sz \<le> 16777216"
  shows "\<exists>n. fat12_calc_needed_clusters sz s = Some n \<and> (sz \<noteq> 0 \<longrightarrow> n \<noteq> 0 \<and> unat n = clusters_for (unat sz) s)"
proof -
  let ?k = "unat (bpb_sec_per_clust s)" and ?z = "unat sz"
  have k: "0 < ?k" "bpb_bytes_per_sec s = 512" using assms(1) by (simp_all add: volume_def unat_gt_0)
  have k2: "?k < 8388608" using unat_u8_less [of "bpb_sec_per_clust s"] by linarith
  have "unat (ucast (bpb_sec_per_clust s) * ucast (bpb_bytes_per_sec s) :: u32) = 512 * ?k"
    unfolding k(2) using k2 by (subst unat_mult_lem [THEN iffD1]) (simp_all add: unat_up)
  then have "(ucast (bpb_sec_per_clust s) * ucast (bpb_bytes_per_sec s) :: u32) \<noteq> 0" using k(1) by (metis less_numeral_extra(3) mult_pos_pos unat_0 zero_less_numeral)
  then obtain n where n: "fat12_calc_needed_clusters sz s = Some n" by (simp add: fat12_calc_needed_clusters_def Let_def)
  have "unat n = clusters_for ?z s" "n \<noteq> 0" if "sz \<noteq> 0"
  proof -
    note nc = needed_clusters [OF assms n that]
    define m where "m = unat n - 1"
    have m: "unat n = Suc m" using nc(1) by (simp add: m_def unat_gt_0)
    define B where "B = 512 * ?k"
    have b: "B * m < ?z" "?z \<le> B + B * m" "0 < B" using nc(2,3) k(1) unfolding m B_def by simp_all
    have "(?z + B - 1) div B = Suc m"
    proof (rule div_nat_eqI)
      show "B * Suc m \<le> ?z + B - 1" unfolding mult_Suc_right using b by linarith
      show "?z + B - 1 < B * Suc (Suc m)" unfolding mult_Suc_right using b by linarith
    qed
    then show "unat n = clusters_for ?z s" by (simp add: clusters_for_def m B_def)
    show "n \<noteq> 0" by (rule nc(1))
  qed
  then show ?thesis using n by blast
qed

lemma write_succeeds:
  assumes ok: "disk_ok cap good rd wr sec" and wok: "writes_ok cap good wr" and rd: "fat12_read s = Some rd" and wr: "fat12_write s = Some wr"
    and voli: "volume cap s \<and> good (device s)" and room: "has_room name s" and sz: "unat sz \<le> 16777216"
    and fits: "clusters_for (unat sz) s \<le> card (free_clusters (released name s))" and max: "clusters_for (unat sz) s \<le> 512"
  shows "\<exists>t. fat12_write_file junk name data sz s = Some (True, t)"
proof -
  let ?r = "released name s" and ?x = "slot_of name s" and ?base = "base_of name s"
  have vol: "volume cap s" and dev: "good (device s)" using voli by simp_all
  obtain tab0 where r: "?r = s\<lparr>fat_table := tab0\<rparr>" using released_frame(1) by blast
  have x: "?x < unat (bpb_root_entries s)" by (rule slot_exists [OF room])
  have chk: "fat12_check_writable s" using wr by (simp add: fat12_check_writable_def)
  obtain n where n: "fat12_calc_needed_clusters sz s = Some n" "sz \<noteq> 0 \<Longrightarrow> n \<noteq> 0 \<and> unat n = clusters_for (unat sz) s"
    using needed_exists [OF vol sz] by blast
  have we: "\<exists>t. write_entry ?x e u = Some (True, t)" if "\<exists>tab d. u = s\<lparr>fat_table := tab, device := d\<rparr> \<and> good d" for e u
    using that vol rd wr x by (intro write_entry_succeeds [OF ok wok]) (auto simp: volume_def)
  show ?thesis
  proof (cases "sz = 0")
    case True
    have "\<exists>tab d. ?r = s\<lparr>fat_table := tab, device := d\<rparr> \<and> good d" using r dev by (intro exI [of _ tab0] exI [of _ "device s"]) simp
    from we [OF this] show ?thesis unfolding write_file_eq [OF chk x] using n(1) True by simp
  next
    case False
    have spc: "bpb_sec_per_clust ?r \<noteq> 0" using vol r by (simp add: volume_def)
    obtain cs s2 where al: "alloc_chain (unat n) 0 [] ?r = Some (True, cs, s2)"
      using alloc_chain_succeeds [OF spc grown_start, of 0 "unat n"] n(2) [OF False] fits max by auto
    have g: "grown ?r cs s2" using alloc_chain_grows [OF spc grown_start _ al] by simp
    obtain tab where s2: "s2 = s\<lparr>fat_table := tab\<rparr>" using g r by (auto simp: grown_def)
    have sub: "set cs \<subseteq> of_nat ` fat12_range s2" using g grown_range [OF g] by (simp add: grown_def)
    have "volume cap s2" "fat12_write s2 = Some wr" "good (device s2)" using s2 vol wr dev by (simp_all add: volume_def)
    then obtain d where d: "write_chain junk cs data sz 0 s2 = (True, s2\<lparr>device := d\<rparr>)" "good d"
      using write_chain_succeeds [OF ok wok _ _ _ sub] by blast
    have "s2\<lparr>device := d\<rparr> = s\<lparr>fat_table := tab, device := d\<rparr>" using s2 by simp
    then obtain t where "write_entry ?x (?base\<lparr>de_cluster_lo := hd cs, de_file_size := sz\<rparr>) (s2\<lparr>device := d\<rparr>) = Some (True, t)"
      using we [of "s2\<lparr>device := d\<rparr>"] d(2) by blast
    moreover have "\<not> bpb_bytes_per_sec s2 > 512" using s2 vol by (simp add: volume_def)
    ultimately show ?thesis unfolding write_file_eq [OF chk x] using n(1) n(2) [OF False] al d(1) False by simp
  qed
qed

text \<open>
  C15. On a disk that takes the writes, \<open>fat12_write_file\<close> succeeds when the directory has an entry for the name (or a free one) and enough clusters
  are free, counting those of an old file of that name; the code has room for 512 clusters of a file.
\<close>

theorem fat12_write_succeeds:
  assumes "disk_ok cap good rd wr sec" and "writes_ok cap good wr" and "fat12_read s = Some rd" and "fat12_write s = Some wr"
    and "volume cap s \<and> good (device s)" and "has_room name s" and "unat sz \<le> 16777216"
    and "clusters_for (unat sz) s \<le> card (free_clusters (released name s))" and "clusters_for (unat sz) s \<le> 512"
  shows "\<exists>t. fat12_write_file junk name data sz s = Some (True, t)"
  by (rule write_succeeds [OF assms])

section \<open>Witnesses\<close>

text \<open>A volume in memory: cluster 2 is a file of one cluster, the directory is empty.\<close>

definition mem_read :: "(u32 \<Rightarrow> buf) read_fn" where
  "mem_read l n d = Some (\<lambda>i. d (l + of_nat (i div 512)) (i mod 512))"

definition mem_write :: "(u32 \<Rightarrow> buf) write_fn" where
  "mem_write l n b d = (True, \<lambda>m i. if unat (m - l) < unat n \<and> i < 512 then b (512 * unat (m - l) + i) else d m i)"

definition demo_vol :: "(u32 \<Rightarrow> buf) fat12" where
  "demo_vol = \<lparr>fat12_read = Some mem_read, fat12_write = Some mem_write, bpb_bytes_per_sec = 512, bpb_sec_per_clust = 1,
     bpb_reserved_secs = 1, bpb_num_fats = 1, bpb_root_entries = 16, bpb_total_secs = 12, bpb_fat_size = 1,
     fat_table = fat12_set_next_cluster 2 0xFFF (\<lambda>_. 0), root_dir_buf = (\<lambda>_. 0),
     fat_start_lba = 1, root_dir_lba = 2, data_area_lba = 3, device = (\<lambda>l i. ucast l)\<rparr>"

lemma mem_disk: "disk_ok cap (\<lambda>_. True) mem_read mem_write (\<lambda>d. d)"
  by (auto simp: disk_ok_def mem_read_def mem_write_def)

lemma mem_writes: "writes_ok cap (\<lambda>_. True) mem_write"
  by (simp add: writes_ok_def mem_write_def)

lemma demo_vol_ok: "volume 12 demo_vol \<and> True" "fat12_read demo_vol = Some mem_read" "fat12_write demo_vol = Some mem_write"
  by (simp_all add: volume_def demo_vol_def)

lemma demo_table_next:
  "fat12_get_next_cluster c (fat_table demo_vol) = (if c = 2 then 0xFFF else 0)"
proof -
  have z: "fat12_get_next_cluster c (\<lambda>_. 0) = 0" by (simp add: fat12_get_next_cluster_def Let_def)
  then show ?thesis by (simp add: demo_vol_def fat12_get_set_same fat12_get_set_other)
qed

lemma demo_vol_range: "fat12_range demo_vol = {2..<11}"
  by (simp add: fat12_range_def fat12_total_clusters_def demo_vol_def)

lemma demo_room:
  "has_room [65] demo_vol" "unat (3 :: u32) \<le> 16777216" "clusters_for (unat (3 :: u32)) demo_vol \<le> card (free_clusters (released [65] demo_vol))"
  "clusters_for (unat (3 :: u32)) demo_vol \<le> 512"
proof -
  have e: "hd (de_name (get_entry (\<lambda>_. 0) 0)) = 0" by (simp add: get_entry_def Let_def hd_map)
  then show "has_room [65] demo_vol" by (auto simp: has_room_def demo_vol_def intro!: exI [of _ 0])
  have "fat12_find_from 16 0 (\<lambda>_. 0) nm = None" for nm by (simp add: numeral_eq_Suc e Let_def)
  then have r: "released [65] demo_vol = demo_vol" by (simp add: released_def fat12_find_file_def demo_vol_def)
  have "free_clusters demo_vol = {3..<11}" by (auto simp: free_clusters_def demo_vol_range demo_table_next word_unat_eq_iff unat_of_nat_u16)
  then show "clusters_for (unat (3 :: u32)) demo_vol \<le> card (free_clusters (released [65] demo_vol))" "clusters_for (unat (3 :: u32)) demo_vol \<le> 512"
    unfolding r by (simp_all add: clusters_for_def demo_vol_def)
qed (simp)

lemma demo_write: "\<exists>t. fat12_write_file (\<lambda>_. 0) [65] of_nat 3 demo_vol = Some (True, t)"
  by (rule write_succeeds [OF mem_disk mem_writes demo_vol_ok(2,3,1) demo_room])

theorem fat12_write_succeeds_witness: "\<exists>t. fat12_write_file (\<lambda>_. 1) [65] of_nat 3 demo_vol = Some (True, t)"
  by (rule fat12_write_succeeds [OF mem_disk mem_writes demo_vol_ok(2,3,1) demo_room])

theorem fat12_write_then_load_witness:
  "\<exists>t x. fat12_write_file (\<lambda>_. 0) [65] of_nat 3 demo_vol = Some (True, t) \<and> fat12_find_file [65] t = Some x \<and>
     fat12_load_file 4096 (get_entry (root_dir_buf t) x) 0x20000 t (\<lambda>_. 9) = Some (3, put_img 0x20000 3 [0, 1, 2] (\<lambda>_. 9))"
proof -
  obtain t where t: "fat12_write_file (\<lambda>_. 0) [65] of_nat 3 demo_vol = Some (True, t)" using demo_write by blast
  have h: "hd (convert_to_83 [65]) \<noteq> 0" "hd (convert_to_83 [65]) \<noteq> 0xE5" by code_simp+
  have "map of_nat [0..<unat (3 :: u32)] = ([0, 1, 2] :: u8 list)" by (simp add: upt_rec)
  then show ?thesis
    using fat12_write_then_load [OF mem_disk demo_vol_ok(2,3,1) h _ t, where addr = "0x20000" and ram = "\<lambda>_. 9"] t by auto
qed

theorem fat12_write_keeps_others_witness:
  "\<exists>t. fat12_write_file (\<lambda>_. 0) [65] of_nat 3 demo_vol = Some (True, t) \<and>
     fat12_load_file 4096 ((new_entry [])\<lparr>de_cluster_lo := 2, de_file_size := 512\<rparr>) 0x20000 t (\<lambda>_. 9) =
     fat12_load_file 4096 ((new_entry [])\<lparr>de_cluster_lo := 2, de_file_size := 512\<rparr>) 0x20000 demo_vol (\<lambda>_. 9)"
proof -
  obtain t where t: "fat12_write_file (\<lambda>_. 0) [65] of_nat 3 demo_vol = Some (True, t)" using demo_write by blast
  have h: "hd (convert_to_83 [65]) \<noteq> 0" "hd (convert_to_83 [65]) \<noteq> 0xE5" by code_simp+
  have e: "hd (de_name (get_entry (\<lambda>_. 0) 0)) = 0" by (simp add: get_entry_def Let_def hd_map)
  have f0: "fat12_find_from 16 0 (\<lambda>_. 0) nm = None" for nm by (simp add: numeral_eq_Suc e Let_def)
  have f: "fat12_find_file [65] demo_vol = None" using f0 by (simp add: fat12_find_file_def demo_vol_def)
  have c: "chain_list (fat_table demo_vol) 2 [2]" "fat12_get_next_cluster (last [2]) (fat_table demo_vol) \<noteq> 0"
    by (simp_all add: demo_table_next fat12_data_def fat12_consts word_le_nat_alt word_less_nat_alt)
  have r: "set [2 :: u16] \<subseteq> of_nat ` fat12_range demo_vol" by (auto simp: demo_vol_range image_iff intro: bexI [of _ 2])
  show ?thesis
    using fat12_write_keeps_others [OF mem_disk demo_vol_ok(2,3,1) h _ t f, where e = "(new_entry [])\<lparr>de_cluster_lo := 2, de_file_size := 512\<rparr>" and cs = "[2]" and addr = "0x20000" and ram = "\<lambda>_. 9"]
      c r t by auto
qed

end
