(* ===== verification/Fat32.thy ===== *)
theory Fat32
  imports Fat_Common
begin

text \<open>
  The FAT32 driver, \<^verbatim>\<open>src/kernel/fs/fat32.c\<close>.  The record holds the statics of the file and the state of the
  disk.  The driver calls \<open>disk_read_sectors\<close> and \<open>disk_write_sectors\<close> directly; they are the parameters \<open>rd\<close> and
  \<open>wr\<close> of the operations.  A failed read leaves \<open>sector_buf\<close> alone (no caller looks at it after a failure).  The loops along
  cluster chains may run forever and take fuel; \<open>None\<close> stands for running out of it and for a divide error.
\<close>

unbundle bit_operations_syntax

section \<open>State\<close>

definition FAT32_CLUSTER_BAD :: u32 where "FAT32_CLUSTER_BAD = 0x0FFFFFF7"
definition FAT32_CLUSTER_END_MIN :: u32 where "FAT32_CLUSTER_END_MIN = 0x0FFFFFF8"
definition FAT32_CLUSTER_END_MAX :: u32 where "FAT32_CLUSTER_END_MAX = 0x0FFFFFFF"
definition FAT32_MAX_CLUSTER :: u32 where "FAT32_MAX_CLUSTER = 0x0FFFFFF8"
definition FAT_BUF_SIZE :: u32 where "FAT_BUF_SIZE = 16 * 1024"

lemmas fat32_consts = FAT32_CLUSTER_BAD_def FAT32_CLUSTER_END_MIN_def FAT32_CLUSTER_END_MAX_def FAT32_MAX_CLUSTER_def
  FAT_BUF_SIZE_def

record 'd fat32 =
  bpb_bytes_per_sec :: u16
  bpb_sec_per_clust :: u8
  bpb_reserved_secs :: u16
  bpb_num_fats :: u8
  bpb_total_secs :: u32
  bpb_fat_size :: u32
  bpb_root_cluster :: u32
  bpb_fs_info :: u16
  fat_start_lba :: u32
  data_area_lba :: u32
  total_clusters :: u32
  fat_buf :: buf
  sector_buf :: buf
  found_entry :: dir_entry
  device :: 'd

text \<open>The file has its own copies of the two name helpers, with the same bodies as those of the FAT12 driver.\<close>

definition fat32_convert_to_83 :: "u8 list \<Rightarrow> u8 list" where
  "fat32_convert_to_83 name = convert_to_83 name"

definition fat32_name_cmp :: "u8 list \<Rightarrow> u8 list \<Rightarrow> int" where
  "fat32_name_cmp a b = name_cmp a b"

definition read_sector :: "'d read_fn \<Rightarrow> u32 \<Rightarrow> 'd fat32 \<Rightarrow> bool \<times> 'd fat32" where
  "read_sector rd lba s = (case rd lba 1 (device s) of
     None \<Rightarrow> (False, s)
   | Some b \<Rightarrow> (True, s\<lparr>sector_buf := copy_to 0 512 b (sector_buf s)\<rparr>))"

definition write_sector :: "'d write_fn \<Rightarrow> u32 \<Rightarrow> buf \<Rightarrow> 'd fat32 \<Rightarrow> bool \<times> 'd fat32" where
  "write_sector wr lba b s = (let (ok, d) = wr lba 1 b (device s) in (ok, s\<lparr>device := d\<rparr>))"

section \<open>Initialisation\<close>

definition parse_bpb :: "buf \<Rightarrow> 'd fat32 \<Rightarrow> 'd fat32" where
  "parse_bpb bpb s = s\<lparr>bpb_bytes_per_sec := rd16 bpb 11, bpb_sec_per_clust := bpb 13, bpb_reserved_secs := rd16 bpb 14,
     bpb_num_fats := bpb 16, bpb_total_secs := rd32 bpb 32, bpb_fat_size := rd32 bpb 36, bpb_root_cluster := rd32 bpb 44,
     bpb_fs_info := rd16 bpb 48\<rparr>"

definition read_fat :: "'d read_fn \<Rightarrow> 'd fat32 \<Rightarrow> (bool \<times> 'd fat32) option" where
  "read_fat rd s =
     (if bpb_fat_size s = 0 then Some (False, s)
      else let fat_bytes = bpb_fat_size s * ucast (bpb_bytes_per_sec s);
               fat_bytes = (if fat_bytes > FAT_BUF_SIZE then FAT_BUF_SIZE else fat_bytes) in
      if bpb_bytes_per_sec s = 0 then None
      else let fat_sectors = ucast (fat_bytes div ucast (bpb_bytes_per_sec s)) :: u8 in
      case rd (fat_start_lba s) fat_sectors (device s) of
        None \<Rightarrow> Some (False, s)
      | Some b \<Rightarrow> Some (True, s\<lparr>fat_buf := copy_to 0 (512 * unat fat_sectors) b (fat_buf s)\<rparr>))"

text \<open>\<open>ram\<close> is the memory that holds the boot sector at 0x7C00.\<close>

definition fat32_init :: "'d read_fn \<Rightarrow> buf \<Rightarrow> 'd fat32 \<Rightarrow> (bool \<times> 'd fat32) option" where
  "fat32_init rd ram s =
     (if rd16 ram 0x7DFE \<noteq> 0xAA55 then Some (False, s)
      else let s = parse_bpb (\<lambda>i. ram (0x7C00 + i)) s;
               s = s\<lparr>fat_start_lba := ucast (bpb_reserved_secs s)\<rparr>;
               s = s\<lparr>data_area_lba := fat_start_lba s + ucast (bpb_num_fats s) * bpb_fat_size s\<rparr>;
               data_sectors = bpb_total_secs s - data_area_lba s
           in if bpb_sec_per_clust s = 0 then None
              else read_fat rd (s\<lparr>total_clusters := data_sectors div ucast (bpb_sec_per_clust s)\<rparr>))"

definition fat32_init_drive :: "'d read_fn \<Rightarrow> u32 \<Rightarrow> 'd fat32 \<Rightarrow> (bool \<times> 'd fat32) option" where
  "fat32_init_drive rd partition_lba s = (case read_sector rd partition_lba s of
     (False, s) \<Rightarrow> Some (False, s)
   | (True, s) \<Rightarrow>
       if rd16 (sector_buf s) 510 \<noteq> 0xAA55 then Some (False, s)
       else let s = parse_bpb (sector_buf s) s;
                s = s\<lparr>fat_start_lba := partition_lba + ucast (bpb_reserved_secs s)\<rparr>;
                s = s\<lparr>data_area_lba := fat_start_lba s + ucast (bpb_num_fats s) * bpb_fat_size s\<rparr>;
                data_sectors = bpb_total_secs s - ucast (bpb_reserved_secs s) - ucast (bpb_num_fats s) * bpb_fat_size s
            in if bpb_sec_per_clust s = 0 then None
               else read_fat rd (s\<lparr>total_clusters := data_sectors div ucast (bpb_sec_per_clust s)\<rparr>))"

section \<open>Clusters\<close>

definition in_fat_buf :: "u32 \<Rightarrow> bool" where
  "in_fat_buf cluster \<longleftrightarrow> cluster * 4 + 4 \<le> FAT_BUF_SIZE"

definition fat32_get_next_cluster :: "'d read_fn \<Rightarrow> u32 \<Rightarrow> 'd fat32 \<Rightarrow> u32 \<times> 'd fat32" where
  "fat32_get_next_cluster rd cluster s =
     (let offset = cluster * 4 in
      if offset + 4 \<le> FAT_BUF_SIZE then (rd32 (fat_buf s) (unat offset) AND 0x0FFFFFFF, s)
      else case read_sector rd (fat_start_lba s + drop_bit 9 offset) s of
        (False, s) \<Rightarrow> (FAT32_CLUSTER_END_MAX, s)
      | (True, s) \<Rightarrow> (rd32 (sector_buf s) (unat (offset AND 511)) AND 0x0FFFFFFF, s))"

definition fat32_get_cluster_lba :: "u32 \<Rightarrow> 'd fat32 \<Rightarrow> u32" where
  "fat32_get_cluster_lba cluster s = data_area_lba s + (cluster - 2) * ucast (bpb_sec_per_clust s)"

text \<open>The sector of the table buffer that holds the byte \<open>offset\<close> goes back to disk.\<close>

definition write_fat_sector :: "'d write_fn \<Rightarrow> u32 \<Rightarrow> 'd fat32 \<Rightarrow> bool \<times> 'd fat32" where
  "write_fat_sector wr offset s =
     write_sector wr (fat_start_lba s + drop_bit 9 offset) (\<lambda>i. fat_buf s (unat (offset AND NOT 0x1FF) + i)) s"

definition fat32_alloc_cluster :: "'d write_fn \<Rightarrow> u32 \<Rightarrow> 'd fat32 \<Rightarrow> u32 \<times> 'd fat32" where
  "fat32_alloc_cluster wr hint s =
     (let start = (if hint \<ge> 2 then hint else 2) in
      case find (\<lambda>c. let offset = of_nat c * 4 :: u32 in
                   offset + 4 \<le> FAT_BUF_SIZE \<and> rd32 (fat_buf s) (unat offset) AND 0x0FFFFFFF = 0)
             [unat start..<unat (total_clusters s + 2)] of
        None \<Rightarrow> (0, s)
      | Some c \<Rightarrow>
          let offset = of_nat c * 4 :: u32;
              s = s\<lparr>fat_buf := wr32 (unat offset) FAT32_CLUSTER_END_MIN (fat_buf s)\<rparr>;
              (ok, s) = write_fat_sector wr offset s
          in (if ok then of_nat c else 0, s))"

definition fat32_update_fat :: "'d write_fn \<Rightarrow> u32 \<Rightarrow> u32 \<Rightarrow> 'd fat32 \<Rightarrow> 'd fat32" where
  "fat32_update_fat wr cluster value s =
     (let offset = cluster * 4 in
      if offset + 4 \<le> FAT_BUF_SIZE
      then snd (write_fat_sector wr offset (s\<lparr>fat_buf := wr32 (unat offset) (value AND 0x0FFFFFFF) (fat_buf s)\<rparr>))
      else s)"

fun fat32_free_cluster_chain ::
  "nat \<Rightarrow> 'd read_fn \<Rightarrow> 'd write_fn \<Rightarrow> u32 \<Rightarrow> 'd fat32 \<Rightarrow> 'd fat32 option" where
  "fat32_free_cluster_chain 0 rd wr cluster s = None"
| "fat32_free_cluster_chain (Suc fuel) rd wr cluster s =
     (if cluster \<ge> 2 \<and> cluster < FAT32_MAX_CLUSTER
      then let (next, s) = fat32_get_next_cluster rd cluster s
           in fat32_free_cluster_chain fuel rd wr next (fat32_update_fat wr cluster 0 s)
      else Some s)"

section \<open>Walking the root directory\<close>

text \<open>
  The loops over the root directory share their frame: for every cluster of the chain and every sector of the cluster, read the sector, then a body
  that goes on with a new accumulator (\<open>Inl\<close>) or returns from the function (\<open>Inr\<close>).  \<open>err\<close> is what the function returns when a
  sector cannot be read.
\<close>

fun walk_sectors ::
  "'d read_fn \<Rightarrow> (u32 \<Rightarrow> 'a \<Rightarrow> 'd fat32 \<Rightarrow> ('a + 'r) \<times> 'd fat32) \<Rightarrow> ('a \<Rightarrow> 'r) \<Rightarrow> nat \<Rightarrow> u32 \<Rightarrow> 'a \<Rightarrow> 'd fat32 \<Rightarrow>
   ('a + 'r) \<times> 'd fat32" where
  "walk_sectors rd body err 0 lba a s = (Inl a, s)"
| "walk_sectors rd body err (Suc k) lba a s = (case read_sector rd lba s of
     (False, s) \<Rightarrow> (Inr (err a), s)
   | (True, s) \<Rightarrow> (case body lba a s of
         (Inr r, s) \<Rightarrow> (Inr r, s)
       | (Inl a, s) \<Rightarrow> walk_sectors rd body err k (lba + 1) a s))"

fun walk_chain ::
  "nat \<Rightarrow> 'd read_fn \<Rightarrow> (u32 \<Rightarrow> 'a \<Rightarrow> 'd fat32 \<Rightarrow> ('a + 'r) \<times> 'd fat32) \<Rightarrow> ('a \<Rightarrow> 'r) \<Rightarrow> u32 \<Rightarrow> 'a \<Rightarrow> 'd fat32 \<Rightarrow>
   (('a + 'r) \<times> 'd fat32) option" where
  "walk_chain 0 rd body err cluster a s = None"
| "walk_chain (Suc fuel) rd body err cluster a s =
     (if cluster \<ge> 2 \<and> cluster < FAT32_MAX_CLUSTER
      then (case walk_sectors rd body err (unat (bpb_sec_per_clust s)) (fat32_get_cluster_lba cluster s) a s of
              (Inr r, s) \<Rightarrow> Some (Inr r, s)
            | (Inl a, s) \<Rightarrow> let (next, s) = fat32_get_next_cluster rd cluster s
                            in walk_chain fuel rd body err next a s)
      else Some (Inl a, s))"

definition walk_root ::
  "nat \<Rightarrow> 'd read_fn \<Rightarrow> (u32 \<Rightarrow> 'a \<Rightarrow> 'd fat32 \<Rightarrow> ('a + 'r) \<times> 'd fat32) \<Rightarrow> ('a \<Rightarrow> 'r) \<Rightarrow> 'a \<Rightarrow> 'd fat32 \<Rightarrow>
   (('a + 'r) \<times> 'd fat32) option" where
  "walk_root fuel rd body err a s = walk_chain fuel rd body err (bpb_root_cluster s) a s"

text \<open>The entries \<open>i, i + 1, ...\<close> of a sector as the listing prints them; the flag says that an empty entry ended the directory.\<close>

fun list_sector :: "nat \<Rightarrow> nat \<Rightarrow> buf \<Rightarrow> (u8 list \<times> u32) list \<times> bool" where
  "list_sector 0 i b = ([], False)"
| "list_sector (Suc k) i b =
     (let e = get_entry b i in
      if hd (de_name e) = 0 then ([], True)
      else let (rows, ended) = list_sector k (Suc i) b
           in (if live_entry e then (shown_name (de_name e), de_file_size e) # rows else rows, ended))"

definition fat32_list_root :: "nat \<Rightarrow> 'd read_fn \<Rightarrow> 'd fat32 \<Rightarrow> ((u8 list \<times> u32) list \<times> 'd fat32) option" where
  "fat32_list_root fuel rd s =
     map_option (\<lambda>(r, s). (case r of Inl rows \<Rightarrow> rows | Inr rows \<Rightarrow> rows, s))
       (walk_root fuel rd
          (\<lambda>lba rows s. let (new, ended) = list_sector 16 0 (sector_buf s)
                        in (if ended then Inr (rows @ new) else Inl (rows @ new), s))
          (\<lambda>rows. rows) [] s)"

text \<open>The search for a name in a sector.\<close>

datatype hit = NoHit | DirEnd | Hit nat

fun scan_sector :: "nat \<Rightarrow> nat \<Rightarrow> buf \<Rightarrow> u8 list \<Rightarrow> hit" where
  "scan_sector 0 i b name83 = NoHit"
| "scan_sector (Suc k) i b name83 =
     (let e = get_entry b i in
      if hd (de_name e) = 0 then DirEnd
      else if \<not> live_entry e then scan_sector k (Suc i) b name83
      else if fat32_name_cmp (de_name e) name83 = 0 then Hit i
      else scan_sector k (Suc i) b name83)"

datatype place = ReadError | Missing | At u32 nat

definition locate :: "nat \<Rightarrow> 'd read_fn \<Rightarrow> u8 list \<Rightarrow> 'd fat32 \<Rightarrow> (place \<times> 'd fat32) option" where
  "locate fuel rd name83 s =
     map_option (\<lambda>(r, s). (case r of Inl _ \<Rightarrow> Missing | Inr p \<Rightarrow> p, s))
       (walk_root fuel rd
          (\<lambda>lba a s. (case scan_sector 16 0 (sector_buf s) name83 of
               NoHit \<Rightarrow> Inl ()
             | DirEnd \<Rightarrow> Inr Missing
             | Hit i \<Rightarrow> Inr (At lba i), s))
          (\<lambda>_. ReadError) () s)"

definition fat32_find_file :: "nat \<Rightarrow> 'd read_fn \<Rightarrow> u8 list \<Rightarrow> 'd fat32 \<Rightarrow> (dir_entry option \<times> 'd fat32) option" where
  "fat32_find_file fuel rd name s =
     map_option (\<lambda>(p, s). case p of
         At lba i \<Rightarrow> (Some (get_entry (sector_buf s) i), s\<lparr>found_entry := get_entry (sector_buf s) i\<rparr>)
       | _ \<Rightarrow> (None, s))
       (locate fuel rd (fat32_convert_to_83 name) s)"

section \<open>Loading\<close>

definition entry_cluster :: "dir_entry \<Rightarrow> u32" where
  "entry_cluster e = push_bit 16 (ucast (de_cluster_hi e)) OR ucast (de_cluster_lo e)"

fun load_cluster ::
  "nat \<Rightarrow> 'd read_fn \<Rightarrow> u32 \<Rightarrow> u32 \<Rightarrow> u32 \<Rightarrow> 'd fat32 \<Rightarrow> u32 \<Rightarrow> (u32 \<Rightarrow> u8) \<Rightarrow> bool \<times> u32 \<times> (u32 \<Rightarrow> u8) \<times> 'd fat32" where
  "load_cluster 0 rd lba file_size dest s loaded ram = (True, loaded, ram, s)"
| "load_cluster (Suc k) rd lba file_size dest s loaded ram =
     (case read_sector rd lba s of
        (False, s) \<Rightarrow> (False, loaded, ram, s)
      | (True, s) \<Rightarrow>
          let copy_size = (if loaded + 512 > file_size then file_size - loaded else 512) in
          if copy_size = 0 then (True, loaded, ram, s)
          else load_cluster k rd (lba + 1) file_size dest s (loaded + copy_size)
                 (copy_ram (dest + loaded) copy_size (sector_buf s) ram))"

fun load_chain ::
  "nat \<Rightarrow> 'd read_fn \<Rightarrow> u32 \<Rightarrow> u32 \<Rightarrow> u32 \<Rightarrow> 'd fat32 \<Rightarrow> u32 \<Rightarrow> (u32 \<Rightarrow> u8) \<Rightarrow> (u32 \<times> (u32 \<Rightarrow> u8) \<times> 'd fat32) option" where
  "load_chain 0 rd cluster file_size dest s loaded ram = None"
| "load_chain (Suc fuel) rd cluster file_size dest s loaded ram =
     (if cluster \<ge> 2 \<and> cluster < FAT32_MAX_CLUSTER
      then (case load_cluster (unat (bpb_sec_per_clust s)) rd (fat32_get_cluster_lba cluster s) file_size dest s loaded ram of
              (False, loaded, ram, s) \<Rightarrow> Some (loaded, ram, s)
            | (True, loaded, ram, s) \<Rightarrow> let (next, s) = fat32_get_next_cluster rd cluster s
                                         in load_chain fuel rd next file_size dest s loaded ram)
      else Some (loaded, ram, s))"

definition fat32_load_file ::
  "nat \<Rightarrow> 'd read_fn \<Rightarrow> dir_entry \<Rightarrow> u32 \<Rightarrow> 'd fat32 \<Rightarrow> (u32 \<Rightarrow> u8) \<Rightarrow> (u32 \<times> (u32 \<Rightarrow> u8) \<times> 'd fat32) option" where
  "fat32_load_file fuel rd entry load_addr s ram =
     (let cluster = entry_cluster entry in
      if cluster < 2 \<or> cluster \<ge> FAT32_CLUSTER_BAD then Some (0, ram, s)
      else load_chain fuel rd cluster (de_file_size entry) load_addr s 0 ram)"

section \<open>Writing\<close>

fun write_cluster_data ::
  "nat \<Rightarrow> 'd write_fn \<Rightarrow> u32 \<Rightarrow> buf \<Rightarrow> u32 \<Rightarrow> u32 \<Rightarrow> 'd fat32 \<Rightarrow> bool \<times> u32 \<times> 'd fat32" where
  "write_cluster_data 0 wr lba data sz data_offset s = (True, data_offset, s)"
| "write_cluster_data (Suc k) wr lba data sz data_offset s =
     (let remaining = sz - data_offset;
          copy = (if remaining > 512 then 512 else remaining);
          write_buf = copy_to 0 (unat copy) (\<lambda>i. data (unat data_offset + i)) (\<lambda>_. 0);
          data_offset = (if remaining > 0 then data_offset + copy else data_offset);
          (ok, s) = write_sector wr lba write_buf s
      in if ok then write_cluster_data k wr (lba + 1) data sz data_offset s else (False, data_offset, s))"

fun write_clusters ::
  "nat \<Rightarrow> 'd write_fn \<Rightarrow> buf \<Rightarrow> u32 \<Rightarrow> u32 \<Rightarrow> u32 \<Rightarrow> u32 \<Rightarrow> 'd fat32 \<Rightarrow> bool \<times> u32 \<times> u32 \<times> 'd fat32" where
  "write_clusters 0 wr data sz data_offset first prev s = (True, first, prev, s)"
| "write_clusters (Suc n) wr data sz data_offset first prev s =
     (let (new_cluster, s) = fat32_alloc_cluster wr 0 s in
      if new_cluster = 0 then (False, first, prev, s)
      else let first = (if first = 0 then new_cluster else first);
               s = (if prev \<noteq> 0 then fat32_update_fat wr prev new_cluster s else s);
               (ok, data_offset, s) = write_cluster_data (unat (bpb_sec_per_clust s)) wr (fat32_get_cluster_lba new_cluster s)
                                        data sz data_offset s
           in if ok then write_clusters n wr data sz data_offset first new_cluster s else (False, first, prev, s))"

definition fresh_entry :: "u8 list \<Rightarrow> u8 \<Rightarrow> u32 \<Rightarrow> u32 \<Rightarrow> dir_entry" where
  "fresh_entry name83 attr cluster sz = \<lparr>de_name = name83, de_attr = attr, de_reserved = 0, de_create_time_ms = 0, de_create_time = 0,
     de_create_date = 0x5621, de_access_date = 0x5621, de_cluster_hi = ucast (drop_bit 16 cluster), de_modify_time = 0,
     de_modify_date = 0x5621, de_cluster_lo = ucast (cluster AND 0xFFFF), de_file_size = sz\<rparr>"

definition free_slot :: "buf \<Rightarrow> nat option" where
  "free_slot b = find (\<lambda>i. hd (de_name (get_entry b i)) = 0 \<or> hd (de_name (get_entry b i)) = 0xE5) [0..<16]"

text \<open>
  Put an entry into the first free slot of the root directory: \<open>Some (Some True)\<close> when it is written, \<open>Some (Some False)\<close> after a
  disk error, \<open>Some None\<close> when the directory is full.
\<close>

definition place_entry :: "nat \<Rightarrow> 'd read_fn \<Rightarrow> 'd write_fn \<Rightarrow> dir_entry \<Rightarrow> 'd fat32 \<Rightarrow> (bool option \<times> 'd fat32) option" where
  "place_entry fuel rd wr e s =
     map_option (\<lambda>(r, s). (case r of Inl _ \<Rightarrow> None | Inr ok \<Rightarrow> Some ok, s))
       (walk_root fuel rd
          (\<lambda>lba a s. case free_slot (sector_buf s) of
               None \<Rightarrow> (Inl (), s)
             | Some i \<Rightarrow>
                 let s = s\<lparr>sector_buf := put_entry i e (sector_buf s)\<rparr>;
                     (ok, s) = write_sector wr lba (sector_buf s) s
                 in (Inr ok, s))
          (\<lambda>_. False) () s)"

definition fat32_write_file ::
  "nat \<Rightarrow> 'd read_fn \<Rightarrow> 'd write_fn \<Rightarrow> u8 list \<Rightarrow> buf \<Rightarrow> u32 \<Rightarrow> 'd fat32 \<Rightarrow> (bool \<times> 'd fat32) option" where
  "fat32_write_file fuel rd wr name data sz s =
     (let name83 = fat32_convert_to_83 name;
          cluster_size = ucast (bpb_sec_per_clust s) * ucast (bpb_bytes_per_sec s) :: u32 in
      if cluster_size = 0 then None
      else let clusters_needed = (sz + cluster_size - 1) div cluster_size;
               clusters_needed = (if clusters_needed = 0 then 1 else clusters_needed);
               (ok, first, prev, s) = write_clusters (unat clusters_needed) wr data sz 0 0 0 s
      in if \<not> ok then Some (False, s)
      else let s = (if prev \<noteq> 0 then fat32_update_fat wr prev FAT32_CLUSTER_END_MIN s else s)
      in map_option (\<lambda>(r, s). (r = Some True, s)) (place_entry fuel rd wr (fresh_entry name83 ATTR_ARCHIVE first sz) s))"

definition fat32_delete_file ::
  "nat \<Rightarrow> 'd read_fn \<Rightarrow> 'd write_fn \<Rightarrow> u8 list \<Rightarrow> 'd fat32 \<Rightarrow> (bool \<times> 'd fat32) option" where
  "fat32_delete_file fuel rd wr name s = (case locate fuel rd (fat32_convert_to_83 name) s of
     None \<Rightarrow> None
   | Some (At lba i, s) \<Rightarrow>
       let file_cluster = entry_cluster (get_entry (sector_buf s) i) in
       (case (if file_cluster \<ge> 2 \<and> file_cluster < FAT32_CLUSTER_BAD
              then fat32_free_cluster_chain fuel rd wr file_cluster s else Some s) of
          None \<Rightarrow> None
        | Some s \<Rightarrow>
            let s = s\<lparr>sector_buf := (sector_buf s)(32 * i := 0xE5)\<rparr>
            in Some (write_sector wr lba (sector_buf s) s))
   | Some (_, s) \<Rightarrow> Some (False, s))"

text \<open>One sector of the renaming loop: the sector buffer and whether an empty entry ended the directory.\<close>

fun rename_sector :: "nat \<Rightarrow> nat \<Rightarrow> u8 list \<Rightarrow> u8 list \<Rightarrow> buf \<Rightarrow> buf \<times> bool" where
  "rename_sector 0 i old new b = (b, False)"
| "rename_sector (Suc k) i old new b =
     (let e = get_entry b i in
      if hd (de_name e) = 0 then (b, True)
      else if live_entry e \<and> fat32_name_cmp (de_name e) old = 0 then rename_sector k (Suc i) old new (set_name (32 * i) new b)
      else rename_sector k (Suc i) old new b)"

definition fat32_rename_file ::
  "nat \<Rightarrow> 'd read_fn \<Rightarrow> u8 list \<Rightarrow> u8 list \<Rightarrow> 'd fat32 \<Rightarrow> (bool \<times> 'd fat32) option" where
  "fat32_rename_file fuel rd old_name new_name s =
     map_option (\<lambda>(r, s). (False, s))
       (walk_root fuel rd
          (\<lambda>lba a s. let (b, ended) = rename_sector 16 0 (fat32_convert_to_83 old_name) (fat32_convert_to_83 new_name) (sector_buf s)
                     in (if ended then Inr () else Inl (), s\<lparr>sector_buf := b\<rparr>))
          (\<lambda>_. ()) () s)"

section \<open>Formatting and creating directories\<close>

text \<open>\<open>memset(sector_buf, 0, 512)\<close>, and zero sectors written one after the other.\<close>

definition clear_buf :: "'d fat32 \<Rightarrow> 'd fat32" where
  "clear_buf s = s\<lparr>sector_buf := copy_to 0 512 (\<lambda>_. 0) (sector_buf s)\<rparr>"

fun write_run :: "nat \<Rightarrow> 'd write_fn \<Rightarrow> u32 \<Rightarrow> 'd fat32 \<Rightarrow> bool \<times> 'd fat32" where
  "write_run 0 wr lba s = (True, s)"
| "write_run (Suc k) wr lba s =
     (let (ok, s) = write_sector wr lba (sector_buf s) s in if ok then write_run k wr (lba + 1) s else (False, s))"

definition and_then :: "bool \<times> 's \<Rightarrow> ('s \<Rightarrow> bool \<times> 's) \<Rightarrow> bool \<times> 's" where
  "and_then r f = (case r of (True, s) \<Rightarrow> f s | (False, s) \<Rightarrow> (False, s))"

definition write_fsinfo :: "'d write_fn \<Rightarrow> u32 \<Rightarrow> 'd fat32 \<Rightarrow> bool \<times> 'd fat32" where
  "write_fsinfo wr lba s =
     (let s = clear_buf s;
          s = s\<lparr>sector_buf := wr16 510 0xAA55 (wr32 492 0xFFFFFFFF (wr32 488 0xFFFFFFFF (wr32 484 0x61417272
                 (wr32 0 0x41615252 (sector_buf s)))))\<rparr>
      in write_sector wr lba (sector_buf s) s)"

text \<open>The first sector of a table, then \<open>fat_size - 1\<close> zero sectors.\<close>

definition write_empty_fat :: "'d write_fn \<Rightarrow> u32 \<Rightarrow> u32 \<Rightarrow> 'd fat32 \<Rightarrow> bool \<times> 'd fat32" where
  "write_empty_fat wr lba fat_size s =
     (let s = clear_buf s;
          s = s\<lparr>sector_buf := wr32 8 0x0FFFFFFF (wr32 4 0x0FFFFFFF (wr32 0 0x0FFFFFF8 (sector_buf s)))\<rparr>
      in and_then (write_sector wr lba (sector_buf s) s) (\<lambda>s. write_run (unat fat_size - 1) wr (lba + 1) (clear_buf s)))"

definition fat32_format :: "'d read_fn \<Rightarrow> 'd write_fn \<Rightarrow> u32 \<Rightarrow> 'd fat32 \<Rightarrow> bool \<times> 'd fat32" where
  "fat32_format rd wr partition_lba s = (case read_sector rd partition_lba s of
     (False, s) \<Rightarrow> (False, s)
   | (True, s) \<Rightarrow>
       let b = sector_buf s in
       if rd16 b 510 \<noteq> 0xAA55 then (False, s)
       else let bytes_per_sec = rd16 b 11; sec_per_clust = b 13; reserved_secs = rd16 b 14; num_fats = b 16;
                fat_size = rd32 b 36; root_cluster = rd32 b 44; fs_info_sec = rd16 b 48 in
       if bytes_per_sec \<noteq> 512 then (False, s)
       else let fat1_lba = partition_lba + ucast reserved_secs;
                fat2_lba = fat1_lba + fat_size;
                data_lba = partition_lba + ucast reserved_secs + ucast num_fats * fat_size;
                root_lba = data_lba + (root_cluster - 2) * ucast sec_per_clust in
       and_then (and_then (and_then
         (if fs_info_sec > 0 \<and> fs_info_sec < reserved_secs then write_fsinfo wr (partition_lba + ucast fs_info_sec) s else (True, s))
         (write_empty_fat wr fat1_lba fat_size))
         (write_empty_fat wr fat2_lba fat_size))
         (\<lambda>s. write_run (unat sec_per_clust) wr root_lba (clear_buf s)))"

definition dot_entry :: "u8 list \<Rightarrow> u32 \<Rightarrow> dir_entry" where
  "dot_entry name cluster = \<lparr>de_name = name, de_attr = ATTR_DIRECTORY, de_reserved = 0, de_create_time_ms = 0, de_create_time = 0,
     de_create_date = 0, de_access_date = 0, de_cluster_hi = ucast (drop_bit 16 cluster), de_modify_time = 0, de_modify_date = 0,
     de_cluster_lo = ucast (cluster AND 0xFFFF), de_file_size = 0\<rparr>"

text \<open>The clusters of a directory that could not be finished are given back.\<close>

definition undo_dir :: "nat \<Rightarrow> 'd read_fn \<Rightarrow> 'd write_fn \<Rightarrow> u32 \<Rightarrow> 'd fat32 \<Rightarrow> (bool \<times> 'd fat32) option" where
  "undo_dir fuel rd wr new_cluster s = map_option (\<lambda>s. (False, s)) (fat32_free_cluster_chain fuel rd wr new_cluster s)"

definition fat32_create_dir ::
  "nat \<Rightarrow> 'd read_fn \<Rightarrow> 'd write_fn \<Rightarrow> u8 list \<Rightarrow> 'd fat32 \<Rightarrow> (bool \<times> 'd fat32) option" where
  "fat32_create_dir fuel rd wr name s =
     (let name83 = fat32_convert_to_83 name in
      case locate fuel rd name83 s of
        None \<Rightarrow> None
      | Some (ReadError, s) \<Rightarrow> Some (False, s)
      | Some (At lba i, s) \<Rightarrow> Some (False, s)
      | Some (Missing, s) \<Rightarrow>
          let (new_cluster, s) = fat32_alloc_cluster wr 0 s in
          if new_cluster = 0 then Some (False, s)
          else let dir_lba = fat32_get_cluster_lba new_cluster s;
                   s = clear_buf s;
                   s = s\<lparr>sector_buf := put_entry 1 (dot_entry (0x2E # 0x2E # replicate 9 0x20) (bpb_root_cluster s))
                          (put_entry 0 (dot_entry (0x2E # replicate 10 0x20) new_cluster) (sector_buf s))\<rparr>;
                   (ok, s) = and_then (write_sector wr dir_lba (sector_buf s) s)
                               (\<lambda>s. write_run (unat (bpb_sec_per_clust s) - 1) wr (dir_lba + 1) (clear_buf s))
          in if \<not> ok then undo_dir fuel rd wr new_cluster s
          else case place_entry fuel rd wr (fresh_entry name83 ATTR_DIRECTORY new_cluster 0) s of
            None \<Rightarrow> None
          | Some (Some True, s) \<Rightarrow> Some (True, s)
          | Some (_, s) \<Rightarrow> undo_dir fuel rd wr new_cluster s)"

end
