(* ===== verification/Fat32_Spec.thy ===== *)
theory Fat32_Spec
  imports Fat32
begin

text \<open>
  Properties of the FAT32 driver: directory search and listing against an abstract directory, the renaming loop, allocation and release in the
  buffered part of the table, coherence of the buffer with the disk, deletion beyond the buffer, and formatting.
\<close>

unbundle bit_operations_syntax

section \<open>The buffered part of the table\<close>

lemma copy_to_rd:
  "k + 2 \<le> n \<Longrightarrow> rd16 (copy_to 0 n b c) k = rd16 b k"
  "k + 4 \<le> n \<Longrightarrow> rd32 (copy_to 0 n b c) k = rd32 b k"
  by (simp_all add: rd16_def rd32_def copy_to_def)

definition buf_get :: "u32 \<Rightarrow> buf \<Rightarrow> u32" where
  "buf_get c t = rd32 t (4 * unat c) AND 0x0FFFFFFF"

definition buf_put :: "u32 \<Rightarrow> u32 \<Rightarrow> buf \<Rightarrow> buf" where
  "buf_put c v t = wr32 (4 * unat c) (v AND 0x0FFFFFFF) t"

definition buf_data :: "u32 \<Rightarrow> bool" where
  "buf_data c \<longleftrightarrow> 2 \<le> c \<and> c < 4096"

definition fat32_data :: "u32 \<Rightarrow> bool" where
  "fat32_data c \<longleftrightarrow> c \<ge> 2 \<and> c < FAT32_MAX_CLUSTER"

lemma buf_data_data: "buf_data c \<Longrightarrow> fat32_data c"
  by (simp add: buf_data_def fat32_data_def fat32_consts word_less_nat_alt)

lemma unat_times_4: "unat (c :: u32) < 0x40000000 \<Longrightarrow> unat (c * 4) = 4 * unat c"
  by (simp add: unat_word_ariths)

lemma in_buf_iff: "fat32_data c \<Longrightarrow> c * 4 + 4 \<le> FAT_BUF_SIZE \<longleftrightarrow> c < 4096"
proof -
  assume "fat32_data c"
  then have c: "unat c < 0x0FFFFFF8" by (simp add: fat32_data_def fat32_consts word_less_nat_alt)
  then have "unat (c * 4 + 4) = 4 * unat c + 4" by (simp add: unat_word_ariths)
  then show ?thesis by (auto simp: word_le_nat_alt word_less_nat_alt fat32_consts)
qed

lemma buf_get_put: "buf_get d (buf_put c v t) = (if d = c then v AND 0x0FFFFFFF else buf_get d t)"
proof (cases "d = c")
  case True
  then show ?thesis by (simp add: buf_get_def buf_put_def rd32_wr32 and.assoc)
next
  case False
  then have "unat d \<noteq> unat c" by (simp add: word_unat_eq_iff)
  then have "rd32 (buf_put c v t) (4 * unat d) = rd32 t (4 * unat d)"
    unfolding buf_put_def by (intro rd_frame(2) wr_other(2)) auto
  then show ?thesis using False by (simp add: buf_get_def)
qed

interpretation fat32_tab: cluster_table buf_get buf_put buf_data 0
proof unfold_locales
  show "finite {c. buf_data c}" by simp
qed (simp_all add: buf_get_put buf_data_def word_le_nat_alt)

lemma get_next_in_buf: "buf_data c \<Longrightarrow> fat32_get_next_cluster rd c s = (buf_get c (fat_buf s), s)"
proof -
  assume c: "buf_data c"
  have "c < 4096" using c by (simp add: buf_data_def)
  then have "unat (c * 4) = 4 * unat c" by (simp add: unat_times_4 word_less_nat_alt)
  then show ?thesis
    using in_buf_iff [OF buf_data_data [OF c]] \<open>c < 4096\<close>
    by (simp add: fat32_get_next_cluster_def Let_def buf_get_def)
qed

definition fat_only :: "'d fat32 \<Rightarrow> 'd fat32 \<Rightarrow> bool" where
  "fat_only s s' \<longleftrightarrow> s' = s\<lparr>fat_buf := fat_buf s', device := device s'\<rparr>"

lemma fat_only_refl: "fat_only s s" by (simp add: fat_only_def)

lemma fat_only_trans: "fat_only s t \<Longrightarrow> fat_only t u \<Longrightarrow> fat_only s u"
  unfolding fat_only_def by (cases s; cases t; cases u) simp

lemma write_fat_sector_frame: "snd (write_fat_sector wr off s) = s\<lparr>device := snd (wr (fat_start_lba s + drop_bit 9 off) 1
    (\<lambda>i. fat_buf s (unat (off AND NOT 0x1FF) + i)) (device s))\<rparr>"
  by (simp add: write_fat_sector_def write_sector_def split: prod.split)

lemma update_in_buf:
  assumes "buf_data c"
  shows "fat_buf (fat32_update_fat wr c v s) = buf_put c v (fat_buf s)" "fat_only s (fat32_update_fat wr c v s)"
proof -
  have c: "c < 4096" using assms by (simp add: buf_data_def)
  then have "unat (c * 4) = 4 * unat c" by (simp add: unat_times_4 word_less_nat_alt)
  then show "fat_buf (fat32_update_fat wr c v s) = buf_put c v (fat_buf s)"
    using c in_buf_iff [OF buf_data_data [OF assms]]
    by (simp add: fat32_update_fat_def Let_def write_fat_sector_frame buf_put_def)
  show "fat_only s (fat32_update_fat wr c v s)"
    by (simp add: fat32_update_fat_def Let_def write_fat_sector_frame fat_only_def)
qed

text \<open>A chain that stays in the buffer until it leaves the data clusters.\<close>

definition chain_in_buf :: "u32 \<Rightarrow> buf \<Rightarrow> bool" where
  "chain_in_buf c t \<longleftrightarrow> (buf_data c \<or> \<not> fat32_data c) \<and>
     (\<forall>d. on_chain buf_data (\<lambda>x. buf_get x t) c d \<longrightarrow> buf_data (buf_get d t) \<or> \<not> fat32_data (buf_get d t))"

lemma chain_in_buf_step: "chain_in_buf c t \<Longrightarrow> buf_data c \<Longrightarrow> chain_in_buf (buf_get c t) (buf_put c 0 t)"
proof -
  assume ch: "chain_in_buf c t" and c: "buf_data c"
  have "buf_data (buf_get d (buf_put c 0 t)) \<or> \<not> fat32_data (buf_get d (buf_put c 0 t))"
    if "on_chain buf_data (\<lambda>x. buf_get x (buf_put c 0 t)) (buf_get c t) d" for d
    using that ch fat32_tab.chain_put [OF c, of t d]
    by (auto simp: chain_in_buf_def buf_get_put fat32_data_def word_le_nat_alt)
  then show ?thesis using ch c by (auto simp: chain_in_buf_def intro: on_chain.chain_here)
qed

lemma free_in_buf:
  "chain_in_buf c (fat_buf s) \<Longrightarrow> fat32_tab.release n c (fat_buf s) = Some u \<Longrightarrow>
   \<exists>s'. fat32_free_cluster_chain n rd wr c s = Some s' \<and> fat_buf s' = u \<and> fat_only s s'"
proof (induction n arbitrary: c s)
  case (Suc n)
  show ?case
  proof (cases "buf_data c")
    case True
    let ?s = "fat32_update_fat wr c 0 s"
    have d: "2 \<le> c \<and> c < FAT32_MAX_CLUSTER" using buf_data_data [OF True] by (simp add: fat32_data_def)
    have "\<exists>s'. fat32_free_cluster_chain n rd wr (buf_get c (fat_buf s)) ?s = Some s' \<and> fat_buf s' = u \<and> fat_only ?s s'"
      using Suc.prems True chain_in_buf_step [OF Suc.prems(1) True] by (intro Suc.IH) (simp_all add: update_in_buf)
    then show ?thesis
      using d get_next_in_buf [OF True, of rd s] fat_only_trans [OF update_in_buf(2) [OF True]] by auto
  next
    case False
    then have "\<not> fat32_data c" using Suc.prems(1) by (auto simp: chain_in_buf_def)
    then show ?thesis using Suc.prems(2) False by (auto simp: fat32_data_def fat_only_refl)
  qed
qed simp

lemma used_le: "card (fat32_tab.used t) \<le> 4096"
proof -
  have "unat ` fat32_tab.used t \<subseteq> {..<4096}" by (auto simp: fat32_tab.used_def buf_data_def word_less_nat_alt)
  then have "card (unat ` fat32_tab.used t) \<le> 4096" using card_mono [of "{..<4096 :: nat}"] by simp
  then show ?thesis by (simp add: card_image inj_on_def word_unat_eq_iff)
qed

lemma free_in_buf_spec:
  assumes "chain_in_buf c (fat_buf s)" "4098 \<le> n"
  shows "\<exists>s'. fat32_free_cluster_chain n rd wr c s = Some s' \<and> fat_only s s' \<and>
     (\<forall>d. buf_get d (fat_buf s') = (if on_chain buf_data (\<lambda>x. buf_get x (fat_buf s)) c d then 0 else buf_get d (fat_buf s)))"
proof -
  have "card (fat32_tab.used (fat_buf s)) + 2 \<le> n" using used_le [of "fat_buf s"] assms(2) by linarith
  then obtain u where u: "fat32_tab.release n c (fat_buf s) = Some u" using fat32_tab.release_terminates by blast
  from free_in_buf [OF assms(1) u] fat32_tab.release_result [OF u] show ?thesis by metis
qed

section \<open>Walking a directory that can be read\<close>

fun fold_sectors :: "(u32 \<Rightarrow> 'a \<Rightarrow> 'a + 'r) \<Rightarrow> 'a \<Rightarrow> u32 list \<Rightarrow> 'a + 'r" where
  "fold_sectors f a [] = Inl a"
| "fold_sectors f a (l # ls) = (case f l a of Inr r \<Rightarrow> Inr r | Inl a \<Rightarrow> fold_sectors f a ls)"

lemma fold_sectors_append:
  "fold_sectors f a (xs @ ys) = (case fold_sectors f a xs of Inr r \<Rightarrow> Inr r | Inl a \<Rightarrow> fold_sectors f a ys)"
  by (induction xs arbitrary: a) (auto split: sum.splits)

fun sectors_from :: "nat \<Rightarrow> u32 \<Rightarrow> u32 list" where
  "sectors_from 0 lba = []"
| "sectors_from (Suc k) lba = lba # sectors_from k (lba + 1)"

text \<open>Only the sector buffer differs.\<close>

definition buf_only :: "'d fat32 \<Rightarrow> 'd fat32 \<Rightarrow> bool" where
  "buf_only s s' \<longleftrightarrow> (\<exists>b. s' = s\<lparr>sector_buf := b\<rparr>)"

lemma buf_onlyI: "buf_only s (s\<lparr>sector_buf := b\<rparr>)" unfolding buf_only_def by blast

lemma buf_only_refl: "buf_only s s"
  using buf_onlyI [of s "sector_buf s"] by simp

lemma buf_only_trans: "buf_only s t \<Longrightarrow> buf_only t u \<Longrightarrow> buf_only s u"
  by (auto simp: buf_only_def)

lemma buf_only_fields:
  "buf_only s s' \<Longrightarrow> device s' = device s \<and> fat_buf s' = fat_buf s \<and> bpb_sec_per_clust s' = bpb_sec_per_clust s \<and>
     data_area_lba s' = data_area_lba s \<and> fat_start_lba s' = fat_start_lba s \<and> bpb_root_cluster s' = bpb_root_cluster s"
  by (auto simp: buf_only_def)

lemma read_sector_frame: "buf_only s (snd (read_sector rd lba s))"
  by (auto simp: read_sector_def buf_only_refl buf_onlyI split: option.split)

lemma get_next_frame: "buf_only s (snd (fat32_get_next_cluster rd c s))"
  using read_sector_frame [of s rd]
  by (auto simp: fat32_get_next_cluster_def Let_def buf_only_refl split: prod.splits bool.splits) (metis snd_conv)+

text \<open>The successor of a cluster depends on the table buffer and the disk only.\<close>

definition next_cluster :: "'d read_fn \<Rightarrow> 'd fat32 \<Rightarrow> u32 \<Rightarrow> u32" where
  "next_cluster rd s c = fst (fat32_get_next_cluster rd c s)"

lemma off_in_sector: "unat ((c * 4 :: u32) AND 511) + 4 \<le> 512"
proof -
  have m: "(mask 9 :: u32) = 511" by (simp add: mask_eq_exp_minus_1)
  have "unat ((c * 4 :: u32) AND 511) = unat (c * 4) mod 512" using unat_mask [of "c * 4" 9] unfolding m by simp
  also have "\<dots> = 4 * unat c mod 512" by (simp add: unat_word_ariths mult.commute mod_mod_cancel)
  also have "\<dots> = 4 * (unat c mod 128)" using mult_mod_right [of 4 "unat c" 128] by simp
  finally have e: "unat ((c * 4 :: u32) AND 511) = 4 * (unat c mod 128)" .
  have "unat c mod 128 < 128" by simp
  then show ?thesis unfolding e by linarith
qed

lemma next_cluster_cong: "buf_only s s' \<Longrightarrow> next_cluster rd s' c = next_cluster rd s c"
proof -
  assume b: "buf_only s s'"
  note f = buf_only_fields [OF b]
  show ?thesis
    using off_in_sector [of c] f
    by (auto simp: next_cluster_def fat32_get_next_cluster_def Let_def read_sector_def copy_to_rd split: option.split)
qed

fun chain_from :: "(u32 \<Rightarrow> u32) \<Rightarrow> u32 \<Rightarrow> u32 list \<Rightarrow> bool" where
  "chain_from nxt c [] \<longleftrightarrow> \<not> fat32_data c"
| "chain_from nxt c (x # xs) \<longleftrightarrow> c = x \<and> fat32_data c \<and> chain_from nxt (nxt c) xs"

definition chain_sectors :: "'d fat32 \<Rightarrow> u32 list \<Rightarrow> u32 list" where
  "chain_sectors s cs = concat (map (\<lambda>c. sectors_from (unat (bpb_sec_per_clust s)) (fat32_get_cluster_lba c s)) cs)"

text \<open>
  A body that only looks at the sector just read: what it returns is \<open>f\<close>, and a returned value and the buffer satisfy \<open>Q\<close>.
\<close>

definition reads_only ::
  "(u32 \<Rightarrow> buf) \<Rightarrow> (u32 \<Rightarrow> 'a \<Rightarrow> 'd fat32 \<Rightarrow> ('a + 'r) \<times> 'd fat32) \<Rightarrow> (u32 \<Rightarrow> 'a \<Rightarrow> 'a + 'r) \<Rightarrow> ('r \<Rightarrow> buf \<Rightarrow> bool) \<Rightarrow> bool" where
  "reads_only sec body f Q \<longleftrightarrow> (\<forall>lba a s. (\<forall>i<512. sector_buf s i = sec lba i) \<longrightarrow>
     fst (body lba a s) = f lba a \<and> buf_only s (snd (body lba a s)) \<and> (\<forall>r. f lba a = Inr r \<longrightarrow> Q r (sector_buf (snd (body lba a s)))))"

lemma walk_sectors_fold:
  assumes rd: "\<And>l. rd l 1 (device s) = Some (sec l)" and body: "reads_only sec body f Q"
  shows "\<exists>s'. walk_sectors rd body err k lba a s = (fold_sectors f a (sectors_from k lba), s') \<and> buf_only s s' \<and>
    (\<forall>r. fold_sectors f a (sectors_from k lba) = Inr r \<longrightarrow> Q r (sector_buf s'))"
  using rd
proof (induction k arbitrary: lba a s)
  case (Suc k)
  let ?s = "s\<lparr>sector_buf := copy_to 0 512 (sec lba) (sector_buf s)\<rparr>"
  have r: "read_sector rd lba s = (True, ?s)" by (simp add: read_sector_def Suc.prems)
  have b: "fst (body lba a ?s) = f lba a" "buf_only ?s (snd (body lba a ?s))"
    "\<And>r. f lba a = Inr r \<Longrightarrow> Q r (sector_buf (snd (body lba a ?s)))"
    using body unfolding reads_only_def by (simp_all add: copy_to_def)
  note bo = buf_only_trans [OF buf_onlyI b(2)]
  show ?case
  proof (cases "f lba a")
    case (Inl a')
    have "device (snd (body lba a ?s)) = device s" using buf_only_fields [OF bo] by simp
    then obtain t where "walk_sectors rd body err k (lba + 1) a' (snd (body lba a ?s)) = (fold_sectors f a' (sectors_from k (lba + 1)), t)"
      "buf_only (snd (body lba a ?s)) t" "\<forall>r. fold_sectors f a' (sectors_from k (lba + 1)) = Inr r \<longrightarrow> Q r (sector_buf t)"
      using Suc.IH [of "snd (body lba a ?s)" "lba + 1" a'] Suc.prems by auto
    then show ?thesis
      using r b(1) Inl bo by (cases "body lba a ?s") (auto intro: buf_only_trans)
  next
    case (Inr x)
    then show ?thesis using r b(1) b(3) bo by (cases "body lba a ?s") auto
  qed
qed (simp add: buf_only_refl)

lemma walk_chain_fold:
  assumes rd: "\<And>l. rd l 1 (device s) = Some (sec l)" and body: "reads_only sec body f Q"
  shows "chain_from (next_cluster rd s) c cs \<Longrightarrow> length cs < fuel \<Longrightarrow>
    \<exists>s'. walk_chain fuel rd body err c a s = Some (fold_sectors f a (chain_sectors s cs), s') \<and> buf_only s s' \<and>
      (\<forall>r. fold_sectors f a (chain_sectors s cs) = Inr r \<longrightarrow> Q r (sector_buf s'))"
  using rd
proof (induction cs arbitrary: c a s fuel)
  case Nil
  then obtain n where "fuel = Suc n" by (cases fuel) auto
  then show ?case using Nil by (auto simp: fat32_data_def chain_sectors_def buf_only_refl)
next
  case (Cons x xs)
  then obtain n where n: "fuel = Suc n" by (cases fuel) auto
  have x: "x = c" "2 \<le> c \<and> c < FAT32_MAX_CLUSTER" using Cons.prems(1) by (auto simp: fat32_data_def)
  let ?ls = "sectors_from (unat (bpb_sec_per_clust s)) (fat32_get_cluster_lba c s)"
  obtain t where t: "walk_sectors rd body err (unat (bpb_sec_per_clust s)) (fat32_get_cluster_lba c s) a s = (fold_sectors f a ?ls, t)"
    "buf_only s t" "\<And>r. fold_sectors f a ?ls = Inr r \<Longrightarrow> Q r (sector_buf t)"
    using walk_sectors_fold [of rd s sec body f Q, OF Cons.prems(3) body] by metis
  have cat: "chain_sectors s (c # xs) = ?ls @ chain_sectors s xs" by (simp add: chain_sectors_def)
  show ?case
  proof (cases "fold_sectors f a ?ls")
    case (Inr r)
    then show ?thesis using t x n by (auto simp: cat fold_sectors_append)
  next
    case (Inl a')
    let ?t = "snd (fat32_get_next_cluster rd c t)"
    have bt: "buf_only s ?t" by (rule buf_only_trans [OF t(2) get_next_frame])
    have nx: "fst (fat32_get_next_cluster rd c t) = next_cluster rd s c"
      using next_cluster_cong [OF t(2)] by (simp add: next_cluster_def)
    have cs: "chain_sectors ?t xs = chain_sectors s xs"
      using buf_only_fields [OF bt] by (simp add: chain_sectors_def fat32_get_cluster_lba_def)
    have nt: "next_cluster rd ?t = next_cluster rd s" using next_cluster_cong [OF bt] by blast
    have "chain_from (next_cluster rd ?t) (next_cluster rd s c) xs"
      using Cons.prems(1) unfolding nt by auto
    then obtain u where "walk_chain n rd body err (next_cluster rd s c) a' ?t = Some (fold_sectors f a' (chain_sectors s xs), u)"
      "buf_only ?t u" "\<forall>r. fold_sectors f a' (chain_sectors s xs) = Inr r \<longrightarrow> Q r (sector_buf u)"
      using Cons.IH [of ?t "next_cluster rd s c" n a'] Cons.prems n buf_only_fields [OF bt] by (auto simp: cs)
    then show ?thesis
      using n x t Inl nx buf_only_trans [OF bt] by (cases "fat32_get_next_cluster rd c t") (auto simp: cat fold_sectors_append)
  qed
qed

section \<open>The abstract directory\<close>

text \<open>The entries of the directory, and search and listing over them: up to the first empty entry, live entries only.\<close>

definition sector_entries :: "buf \<Rightarrow> dir_entry list" where
  "sector_entries b = map (get_entry b) [0..<16]"

definition directory :: "(u32 \<Rightarrow> buf) \<Rightarrow> u32 list \<Rightarrow> dir_entry list" where
  "directory sec ls = concat (map (\<lambda>l. sector_entries (sec l)) ls)"

definition dir_live :: "dir_entry list \<Rightarrow> dir_entry list" where
  "dir_live es = filter live_entry (takeWhile (\<lambda>e. hd (de_name e) \<noteq> 0) es)"

definition dir_find :: "u8 list \<Rightarrow> dir_entry list \<Rightarrow> dir_entry option" where
  "dir_find name83 es = find (\<lambda>e. map to_upper (de_name e) = map to_upper name83) (dir_live es)"

definition dir_rows :: "dir_entry list \<Rightarrow> (u8 list \<times> u32) list" where
  "dir_rows es = map (\<lambda>e. (shown_name (de_name e), de_file_size e)) (dir_live es)"

lemma dir_live_simps:
  "dir_live [] = []"
  "dir_live (e # es) = (if hd (de_name e) = 0 then [] else if live_entry e then e # dir_live es else dir_live es)"
  by (simp_all add: dir_live_def)

lemma sector_entries_cong: "(\<And>i. i < 512 \<Longrightarrow> b i = c i) \<Longrightarrow> sector_entries b = sector_entries c"
  unfolding sector_entries_def by (intro map_cong refl get_entry_cong) auto

definition dir_ended :: "dir_entry list \<Rightarrow> bool" where
  "dir_ended es \<longleftrightarrow> (\<exists>e \<in> set es. hd (de_name e) = 0)"

lemma dir_live_append: "dir_live (xs @ ys) = dir_live xs @ (if dir_ended xs then [] else dir_live ys)"
  by (induction xs) (auto simp: dir_live_simps dir_ended_def)

text \<open>The loops over the entries of one sector.\<close>

lemma de_name_length: "length (de_name (get_entry b i)) = 11"
  by (simp add: get_entry_def Let_def)

lemma list_sector_spec:
  "list_sector k i b = (dir_rows (map (get_entry b) [i..<i + k]), dir_ended (map (get_entry b) [i..<i + k]))"
  by (induction k arbitrary: i)
    (simp_all add: dir_rows_def dir_live_simps dir_ended_def Let_def upt_conv_Cons del: upt_Suc)

lemma scan_sector_find:
  "length name83 = 11 \<Longrightarrow>
   (case scan_sector k i b name83 of
      NoHit \<Rightarrow> dir_find name83 (map (get_entry b) [i..<i + k]) = None \<and> \<not> dir_ended (map (get_entry b) [i..<i + k])
    | DirEnd \<Rightarrow> dir_find name83 (map (get_entry b) [i..<i + k]) = None \<and> dir_ended (map (get_entry b) [i..<i + k])
    | Hit j \<Rightarrow> dir_find name83 (map (get_entry b) [i..<i + k]) = Some (get_entry b j) \<and> j < i + k)"
proof (induction k arbitrary: i)
  case (Suc k)
  have u: "[i..<i + Suc k] = i # [Suc i..<Suc i + k]" by (simp add: upt_conv_Cons del: upt_Suc)
  show ?case
    using Suc.IH [of "Suc i"] Suc.prems unfolding u
    by (auto simp: dir_find_def dir_live_simps dir_ended_def Let_def fat32_name_cmp_def name_cmp_0 de_name_length split: hit.splits)
qed (simp add: dir_find_def dir_live_simps dir_ended_def)

lemma dir_find_append:
  "dir_find n (xs @ ys) = (case dir_find n xs of Some e \<Rightarrow> Some e | None \<Rightarrow> if dir_ended xs then None else dir_find n ys)"
  by (simp add: dir_find_def dir_live_append find_append split: option.split)

lemma sector_as_entries: "map (get_entry b) [0..<0 + 16] = sector_entries b"
  by (simp add: sector_entries_def)

definition locate_in :: "(u32 \<Rightarrow> buf) \<Rightarrow> u8 list \<Rightarrow> u32 \<Rightarrow> unit \<Rightarrow> unit + place" where
  "locate_in sec name83 lba a = (case scan_sector 16 0 (sec lba) name83 of NoHit \<Rightarrow> Inl () | DirEnd \<Rightarrow> Inr Missing | Hit i \<Rightarrow> Inr (At lba i))"

lemma scan_sector_cong: "(\<And>j. j < 512 \<Longrightarrow> b j = c j) \<Longrightarrow> i + k \<le> 16 \<Longrightarrow> scan_sector k i b n = scan_sector k i c n"
proof (induction k arbitrary: i)
  case (Suc k)
  have "get_entry b i = get_entry c i" using Suc.prems by (intro get_entry_cong) auto
  then show ?case using Suc by (simp add: Let_def)
qed simp

lemma list_sector_cong: "(\<And>j. j < 512 \<Longrightarrow> b j = c j) \<Longrightarrow> list_sector 16 0 b = list_sector 16 0 c"
  using sector_entries_cong [of b c] unfolding list_sector_spec sector_as_entries by simp

text \<open>What is at a place found by the search.\<close>

definition place_ok :: "(u32 \<Rightarrow> buf) \<Rightarrow> place \<Rightarrow> buf \<Rightarrow> bool" where
  "place_ok sec p b \<longleftrightarrow> (case p of At lba i \<Rightarrow> i < 16 \<and> (\<forall>j<512. b j = sec lba j) | _ \<Rightarrow> True)"

lemma locate_body:
  assumes "length name83 = 11"
  shows "reads_only sec (\<lambda>lba a s. (case scan_sector 16 0 (sector_buf s) name83 of NoHit \<Rightarrow> Inl () | DirEnd \<Rightarrow> Inr Missing
     | Hit i \<Rightarrow> Inr (At lba i), s)) (locate_in sec name83) (place_ok sec)"
  unfolding reads_only_def
proof (intro allI impI)
  fix lba :: u32 and a :: unit and s :: "'d fat32"
  assume b: "\<forall>i<512. sector_buf s i = sec lba i"
  then have sc: "scan_sector 16 0 (sector_buf s) name83 = scan_sector 16 0 (sec lba) name83"
    by (intro scan_sector_cong) auto
  show "fst (case scan_sector 16 0 (sector_buf s) name83 of NoHit \<Rightarrow> Inl () | DirEnd \<Rightarrow> Inr Missing | Hit i \<Rightarrow> Inr (At lba i), s) =
      locate_in sec name83 lba a \<and>
    buf_only s (snd (case scan_sector 16 0 (sector_buf s) name83 of NoHit \<Rightarrow> Inl () | DirEnd \<Rightarrow> Inr Missing | Hit i \<Rightarrow> Inr (At lba i), s)) \<and>
    (\<forall>r. locate_in sec name83 lba a = Inr r \<longrightarrow> place_ok sec r (sector_buf (snd (case scan_sector 16 0 (sector_buf s) name83 of
        NoHit \<Rightarrow> Inl () | DirEnd \<Rightarrow> Inr Missing | Hit i \<Rightarrow> Inr (At lba i), s))))"
    unfolding sc using b scan_sector_find [OF assms, where k = 16 and i = 0 and b = "sec lba"]
    by (auto simp: locate_in_def place_ok_def buf_only_refl split: hit.splits)
qed

lemma locate_find:
  "length name83 = 11 \<Longrightarrow>
   (case fold_sectors (locate_in sec name83) () ls of
      Inl _ \<Rightarrow> dir_find name83 (directory sec ls) = None
    | Inr ReadError \<Rightarrow> False
    | Inr Missing \<Rightarrow> dir_find name83 (directory sec ls) = None
    | Inr (At l i) \<Rightarrow> dir_find name83 (directory sec ls) = Some (get_entry (sec l) i))"
proof (induction ls)
  case (Cons l ls)
  have d: "directory sec (l # ls) = sector_entries (sec l) @ directory sec ls" by (simp add: directory_def)
  note sc = scan_sector_find [OF Cons.prems, where k = 16 and i = 0 and b = "sec l", unfolded sector_as_entries]
  show ?case
  proof (cases "scan_sector 16 0 (sec l) name83")
    case NoHit
    then have df: "dir_find name83 (directory sec (l # ls)) = dir_find name83 (directory sec ls)" and lc: "locate_in sec name83 l () = Inl ()"
      using sc unfolding d dir_find_append by (simp_all add: locate_in_def)
    show ?thesis unfolding fold_sectors.simps lc df sum.case using Cons.IH [OF Cons.prems] .
  qed (use sc in \<open>simp_all add: d dir_find_append locate_in_def\<close>)
qed (simp add: directory_def dir_find_def dir_live_simps)

lemma locate_spec:
  assumes "\<And>l. rd l 1 (device s) = Some (sec l)" "length name83 = 11"
    and "chain_from (next_cluster rd s) (bpb_root_cluster s) cs" "length cs < fuel"
  shows "\<exists>p s'. locate fuel rd name83 s = Some (p, s') \<and> p \<noteq> ReadError \<and> buf_only s s' \<and> place_ok sec p (sector_buf s') \<and>
    dir_find name83 (directory sec (chain_sectors s cs)) = (case p of At l i \<Rightarrow> Some (get_entry (sec l) i) | _ \<Rightarrow> None)"
proof -
  let ?r = "fold_sectors (locate_in sec name83) () (chain_sectors s cs)"
  obtain s' where w: "walk_root fuel rd (\<lambda>lba a s. (case scan_sector 16 0 (sector_buf s) name83 of NoHit \<Rightarrow> Inl () | DirEnd \<Rightarrow> Inr Missing
       | Hit i \<Rightarrow> Inr (At lba i), s)) (\<lambda>_. ReadError) () s = Some (?r, s')" "buf_only s s'"
     "\<forall>r. ?r = Inr r \<longrightarrow> place_ok sec r (sector_buf s')"
    using walk_chain_fold [of rd s sec, OF assms(1) locate_body [OF assms(2)] assms(3,4), of "\<lambda>_. ReadError" "()"]
    unfolding walk_root_def by blast
  then have l: "locate fuel rd name83 s = Some (case ?r of Inl _ \<Rightarrow> Missing | Inr p \<Rightarrow> p, s')" by (simp add: locate_def)
  show ?thesis
    using l w locate_find [OF assms(2), of sec "chain_sectors s cs"]
    by (cases ?r) (auto simp: place_ok_def split: place.splits)
qed

lemma find_file_spec:
  assumes "\<And>l. rd l 1 (device s) = Some (sec l)"
    and "chain_from (next_cluster rd s) (bpb_root_cluster s) cs" "length cs < fuel"
  shows "\<exists>s'. fat32_find_file fuel rd name s = Some (dir_find (convert_to_83 name) (directory sec (chain_sectors s cs)), s')"
proof -
  let ?n = "convert_to_83 name"
  obtain p s' where p: "locate fuel rd ?n s = Some (p, s')" "place_ok sec p (sector_buf s')"
    "dir_find ?n (directory sec (chain_sectors s cs)) = (case p of At l i \<Rightarrow> Some (get_entry (sec l) i) | _ \<Rightarrow> None)"
    using locate_spec [of rd s sec ?n, OF assms(1) _ assms(2,3)] by auto
  have "get_entry (sector_buf s') i = get_entry (sec l) i" if "p = At l i" for l i
    using p(2) that by (intro get_entry_cong) (auto simp: place_ok_def)
  then show ?thesis
    using p(1,3) by (auto simp: fat32_find_file_def fat32_convert_to_83_def split: place.splits)
qed

definition list_in :: "(u32 \<Rightarrow> buf) \<Rightarrow> u32 \<Rightarrow> (u8 list \<times> u32) list \<Rightarrow> (u8 list \<times> u32) list + (u8 list \<times> u32) list" where
  "list_in sec lba rows = (let (new, ended) = list_sector 16 0 (sec lba) in if ended then Inr (rows @ new) else Inl (rows @ new))"

lemma list_body:
  "reads_only sec (\<lambda>lba rows s. let (new, ended) = list_sector 16 0 (sector_buf s) in (if ended then Inr (rows @ new) else Inl (rows @ new), s))
     (list_in sec) (\<lambda>_ _. True)"
  unfolding reads_only_def
proof (intro allI impI)
  fix lba :: u32 and a :: "(u8 list \<times> u32) list" and s :: "'d fat32"
  assume "\<forall>i<512. sector_buf s i = sec lba i"
  then have ls: "list_sector 16 0 (sector_buf s) = list_sector 16 0 (sec lba)" by (intro list_sector_cong) auto
  show "fst (let (new, ended) = list_sector 16 0 (sector_buf s) in (if ended then Inr (a @ new) else Inl (a @ new), s)) = list_in sec lba a \<and>
    buf_only s (snd (let (new, ended) = list_sector 16 0 (sector_buf s) in (if ended then Inr (a @ new) else Inl (a @ new), s))) \<and>
    (\<forall>r. list_in sec lba a = Inr r \<longrightarrow> True)"
    unfolding ls by (simp add: list_in_def buf_only_refl split: prod.split)
qed

lemma list_fold:
  "(case fold_sectors (list_in sec) rows ls of Inl r \<Rightarrow> r | Inr r \<Rightarrow> r) = rows @ dir_rows (directory sec ls)"
proof (induction ls arbitrary: rows)
  case (Cons l ls)
  have "list_sector 16 0 (sec l) = (dir_rows (sector_entries (sec l)), dir_ended (sector_entries (sec l)))"
    using list_sector_spec [of 16 0 "sec l"] unfolding sector_as_entries .
  then show ?case using Cons by (simp add: list_in_def directory_def dir_rows_def dir_live_append)
qed (simp add: directory_def dir_rows_def dir_live_simps)

lemma list_root_spec:
  assumes "\<And>l. rd l 1 (device s) = Some (sec l)"
    and "chain_from (next_cluster rd s) (bpb_root_cluster s) cs" "length cs < fuel"
  shows "\<exists>s'. fat32_list_root fuel rd s = Some (dir_rows (directory sec (chain_sectors s cs)), s') \<and> buf_only s s'"
proof -
  obtain s' where "walk_chain fuel rd (\<lambda>lba rows s. let (new, ended) = list_sector 16 0 (sector_buf s)
      in (if ended then Inr (rows @ new) else Inl (rows @ new), s)) (\<lambda>rows. rows) (bpb_root_cluster s) [] s =
      Some (fold_sectors (list_in sec) [] (chain_sectors s cs), s')" "buf_only s s'"
    using walk_chain_fold [of rd s sec, OF assms(1) list_body assms(2,3), of "\<lambda>rows. rows" "[]"] by blast
  then show ?thesis using list_fold [of sec "[]" "chain_sectors s cs"] by (simp add: fat32_list_root_def walk_root_def)
qed

section \<open>The buffer and the disk\<close>

text \<open>The disk sectors of the table agree with the buffer; the disk stores what is written to it.\<close>

definition coherent :: "('d \<Rightarrow> u32 \<Rightarrow> buf) \<Rightarrow> 'd fat32 \<Rightarrow> bool" where
  "coherent sec s \<longleftrightarrow> (\<forall>k<32. \<forall>i<512. sec (device s) (fat_start_lba s + of_nat k) i = fat_buf s (512 * k + i))"

definition stores :: "'d write_fn \<Rightarrow> ('d \<Rightarrow> u32 \<Rightarrow> buf) \<Rightarrow> bool" where
  "stores wr sec \<longleftrightarrow> (\<forall>l b d. fst (wr l 1 b d) \<and> (\<forall>m. \<forall>i<512. sec (snd (wr l 1 b d)) m i = (if m = l then b i else sec d m i)))"

lemma word_off:
  assumes "unat (c :: u32) < 4096"
  shows "drop_bit 9 (c * 4) = of_nat (4 * unat c div 512)" "unat (c * 4 AND NOT 0x1FF) = 512 * (4 * unat c div 512)"
    "4 * unat c div 512 < 32"
proof -
  have u: "unat (c * 4) = 4 * unat c" using assms by (simp add: unat_times_4)
  show "drop_bit 9 (c * 4) = of_nat (4 * unat c div 512)"
    unfolding word_unat_eq_iff unat_shr u using assms by (simp add: unat_of_nat_u32)
  have m: "(0x1FF :: u32) = mask 9" by (simp add: mask_eq_exp_minus_1)
  have "c * 4 AND NOT 0x1FF = push_bit 9 (drop_bit 9 (c * 4))"
    unfolding m by (rule bit_word_eqI) (auto simp: bit_simps)
  then have "unat (c * 4 AND NOT 0x1FF) = unat (push_bit 9 (of_nat (4 * unat c div 512) :: u32))"
    using \<open>drop_bit 9 (c * 4) = of_nat (4 * unat c div 512)\<close> by simp
  also have "\<dots> = unat (of_nat (512 * (4 * unat c div 512)) :: u32)" by (simp add: push_bit_eq_mult mult.commute)
  finally show "unat (c * 4 AND NOT 0x1FF) = 512 * (4 * unat c div 512)"
    using assms by (subst (asm) unat_of_nat_u32) simp_all
  show "4 * unat c div 512 < 32" using assms by simp
qed

lemma coherent_write:
  assumes co: "coherent sec s" and st: "stores wr sec" and c: "unat c < 4096"
  shows "coherent sec (snd (write_fat_sector wr (c * 4) (s\<lparr>fat_buf := buf_put c v (fat_buf s)\<rparr>)))"
proof -
  let ?q = "4 * unat c div 512"
  let ?s = "snd (write_fat_sector wr (c * 4) (s\<lparr>fat_buf := buf_put c v (fat_buf s)\<rparr>))"
  have "sec (device ?s) (fat_start_lba s + of_nat k) i = buf_put c v (fat_buf s) (512 * k + i)" if ki: "k < 32" "i < 512" for k i
  proof (cases "k = ?q")
    case True
    then show ?thesis
      using st ki word_off [OF c] unfolding write_fat_sector_frame by (simp add: stores_def)
  next
    case False
    have "(of_nat k :: u32) \<noteq> of_nat ?q"
      using False ki word_off(3) [OF c] unat_of_nat_u32 [of k] unat_of_nat_u32 [of ?q] by auto
    then have "sec (device ?s) (fat_start_lba s + of_nat k) i = fat_buf s (512 * k + i)"
      using st ki word_off [OF c] co unfolding write_fat_sector_frame by (simp add: stores_def coherent_def)
    moreover have "512 * k + i \<notin> {4 * unat c..<4 * unat c + 4}" using False ki by auto
    ultimately show ?thesis unfolding buf_put_def by (simp add: wr_other(2))
  qed
  then show ?thesis unfolding coherent_def write_fat_sector_frame by simp
qed

lemma coherent_update:
  assumes "coherent sec s" "stores wr sec" "fat32_data c"
  shows "coherent sec (fat32_update_fat wr c v s)"
proof (cases "c < 4096")
  case True
  then have "unat c < 4096" by (simp add: word_less_nat_alt)
  moreover have "buf_put c v (fat_buf s) = wr32 (unat (c * 4)) (v AND 0x0FFFFFFF) (fat_buf s)"
    using \<open>unat c < 4096\<close> by (simp add: buf_put_def unat_times_4)
  ultimately show ?thesis
    using coherent_write [OF assms(1,2), of c v] True in_buf_iff [OF assms(3)] by (simp add: fat32_update_fat_def Let_def)
next
  case False
  then show ?thesis using assms in_buf_iff [OF assms(3)] by (simp add: fat32_update_fat_def Let_def)
qed

lemma coherent_buf_only: "buf_only s s' \<Longrightarrow> coherent sec s' = coherent sec s"
  by (auto simp: coherent_def buf_only_def)

lemma coherent_free:
  "stores wr sec \<Longrightarrow> coherent sec s \<Longrightarrow> fat32_free_cluster_chain n rd wr c s = Some s' \<Longrightarrow> coherent sec s'"
proof (induction n arbitrary: c s)
  case (Suc n)
  show ?case
  proof (cases "fat32_data c")
    case True
    have "coherent sec (snd (fat32_get_next_cluster rd c s))" using coherent_buf_only [OF get_next_frame] Suc.prems by blast
    then have "coherent sec (fat32_update_fat wr c 0 (snd (fat32_get_next_cluster rd c s)))"
      using coherent_update Suc.prems True by blast
    then show ?thesis
      using Suc.IH Suc.prems True by (auto simp: fat32_data_def split: prod.splits)
  next
    case False
    then show ?thesis using Suc.prems by (auto simp: fat32_data_def split: if_splits)
  qed
qed simp

section \<open>Allocation\<close>

definition alloc_range :: "u32 \<Rightarrow> 'd fat32 \<Rightarrow> nat set" where
  "alloc_range hint s = {c. (if hint \<ge> 2 then unat hint else 2) \<le> c \<and> c < 4096 \<and> c < unat (total_clusters s) + 2}"

lemma alloc_test:
  assumes "c < 0x10000000"
  shows "(of_nat c * 4 :: u32) + 4 \<le> FAT_BUF_SIZE \<longleftrightarrow> c < 4096" "unat (of_nat c * 4 :: u32) = 4 * c"
    "unat (of_nat c :: u32) = c"
proof -
  have "unat (of_nat c :: u32) = c" using assms by (intro unat_of_nat_u32) simp
  then have u: "unat (of_nat c :: u32) = c" "unat (of_nat c * 4 :: u32) = 4 * c" "unat (of_nat c * 4 + 4 :: u32) = 4 * c + 4"
    using assms by (simp_all add: unat_word_ariths)
  then show "(of_nat c * 4 :: u32) + 4 \<le> FAT_BUF_SIZE \<longleftrightarrow> c < 4096" "unat (of_nat c * 4 :: u32) = 4 * c" "unat (of_nat c :: u32) = c"
    by (auto simp: word_le_nat_alt fat32_consts)
qed

lemma alloc_cases:
  assumes "unat (total_clusters s) \<le> 0x0FFFFFF0"
  shows "(\<forall>c \<in> alloc_range hint s. buf_get (of_nat c) (fat_buf s) \<noteq> 0) \<and> fat32_alloc_cluster wr hint s = (0, s) \<or>
    (\<exists>c \<in> alloc_range hint s. buf_get (of_nat c) (fat_buf s) = 0 \<and>
       (\<forall>d \<in> alloc_range hint s. d < c \<longrightarrow> buf_get (of_nat d) (fat_buf s) \<noteq> 0) \<and>
       fat32_alloc_cluster wr hint s =
         (let (ok, s') = write_fat_sector wr (of_nat c * 4) (s\<lparr>fat_buf := buf_put (of_nat c) FAT32_CLUSTER_END_MIN (fat_buf s)\<rparr>)
          in (if ok then of_nat c else 0, s')))"
proof -
  let ?start = "if hint \<ge> 2 then hint else 2"
  let ?P = "\<lambda>c. let offset = of_nat c * 4 :: u32 in offset + 4 \<le> FAT_BUF_SIZE \<and> rd32 (fat_buf s) (unat offset) AND 0x0FFFFFFF = 0"
  have tot: "unat (total_clusters s + 2) = unat (total_clusters s) + 2" using assms by (simp add: unat_word_ariths)
  have P: "?P c \<longleftrightarrow> c < 4096 \<and> buf_get (of_nat c) (fat_buf s) = 0" if "c < unat (total_clusters s) + 2" for c
  proof -
    have "c < 0x10000000" using that assms by simp
    from alloc_test [OF this] show ?thesis by (simp add: Let_def buf_get_def)
  qed
  have st: "unat ?start = (if hint \<ge> 2 then unat hint else 2)" by simp
  show ?thesis
  proof (cases "find ?P [unat ?start..<unat (total_clusters s + 2)]")
    case None
    from find_upt_None [THEN iffD1, OF None]
    have "\<forall>c \<in> alloc_range hint s. buf_get (of_nat c) (fat_buf s) \<noteq> 0"
      unfolding tot st alloc_range_def using P by blast
    moreover have "fat32_alloc_cluster wr hint s = (0, s)" unfolding fat32_alloc_cluster_def using None by (simp add: Let_def)
    ultimately show ?thesis by blast
  next
    case (Some c)
    from find_upt_Some [THEN iffD1, OF Some]
    have c: "unat ?start \<le> c" "c < unat (total_clusters s) + 2" "?P c" "\<And>d. unat ?start \<le> d \<Longrightarrow> d < c \<Longrightarrow> \<not> ?P d"
      unfolding tot by blast+
    have pc: "c < 4096" "buf_get (of_nat c) (fat_buf s) = 0" using P [OF c(2)] c(3) by blast+
    have r: "c \<in> alloc_range hint s" using c(1,2) pc(1) unfolding st alloc_range_def by blast
    have least: "buf_get (of_nat d) (fat_buf s) \<noteq> 0" if "d \<in> alloc_range hint s" "d < c" for d
    proof -
      have "unat ?start \<le> d" "d < unat (total_clusters s) + 2" "d < 4096" using that(1) unfolding alloc_range_def st by blast+
      with c(4) [OF _ that(2)] P [of d] show ?thesis by blast
    qed
    have "wr32 (unat (of_nat c * 4 :: u32)) FAT32_CLUSTER_END_MIN (fat_buf s) = buf_put (of_nat c) FAT32_CLUSTER_END_MIN (fat_buf s)"
      using alloc_test [of c] pc(1) by (simp add: buf_put_def fat32_consts)
    then have "fat32_alloc_cluster wr hint s =
         (let (ok, s') = write_fat_sector wr (of_nat c * 4) (s\<lparr>fat_buf := buf_put (of_nat c) FAT32_CLUSTER_END_MIN (fat_buf s)\<rparr>)
          in (if ok then of_nat c else 0, s'))"
      unfolding fat32_alloc_cluster_def Let_def using Some [unfolded Let_def] by simp
    with r pc least show ?thesis by blast
  qed
qed

section \<open>Renaming\<close>

lemma walk_sectors_frame:
  assumes "\<And>lba a s. buf_only s (snd (body lba a s))"
  shows "buf_only s (snd (walk_sectors rd body err k lba a s))"
proof (induction k arbitrary: lba a s)
  case (Suc k)
  obtain ok t where r: "read_sector rd lba s = (ok, t)" by fastforce
  have t: "buf_only s t" using read_sector_frame [of s rd lba] r by simp
  obtain x u where b: "body lba a t = (x, u)" by fastforce
  have u: "buf_only s u" using assms [of t lba a] b buf_only_trans [OF t] by simp
  show ?case
    using r t b u Suc.IH buf_only_trans [OF u] by (auto split: bool.splits sum.splits)
qed (simp add: buf_only_refl)

lemma walk_chain_frame:
  assumes "\<And>lba a s. buf_only s (snd (body lba a s))"
  shows "walk_chain n rd body err c a s = Some (r, s') \<Longrightarrow> buf_only s s'"
proof (induction n arbitrary: c a s)
  case (Suc n)
  let ?w = "walk_sectors rd body err (unat (bpb_sec_per_clust s)) (fat32_get_cluster_lba c s) a s"
  have w: "buf_only s (snd ?w)" by (rule walk_sectors_frame [OF assms])
  show ?case
  proof (cases "2 \<le> c \<and> c < FAT32_MAX_CLUSTER")
    case True
    show ?thesis
    proof (cases "fst ?w")
      case (Inl a')
      let ?g = "fat32_get_next_cluster rd c (snd ?w)"
      have "walk_chain n rd body err (fst ?g) a' (snd ?g) = Some (r, s')"
        using Suc.prems True Inl by (cases ?w) (auto split: prod.splits)
      from Suc.IH [OF this] show ?thesis by (blast intro: buf_only_trans w get_next_frame)
    next
      case (Inr x)
      then show ?thesis using Suc.prems True w by (cases ?w) auto
    qed
  qed (use Suc.prems in \<open>auto simp: buf_only_refl\<close>)
qed simp

lemma rename_frame: "fat32_rename_file n rd old new s = Some (r, s') \<Longrightarrow> \<not> r \<and> buf_only s s'"
  unfolding fat32_rename_file_def walk_root_def
  by (auto simp: split_def Let_def intro!: buf_onlyI dest!: walk_chain_frame [rotated])

section \<open>Formatting\<close>

lemma write_sector_eq: "write_sector wr lba b s = (fst (wr lba 1 b (device s)), s\<lparr>device := snd (wr lba 1 b (device s))\<rparr>)"
  by (simp add: write_sector_def split: prod.split)

text \<open>
  A disk step that succeeds, leaves the statics other than the sector buffer alone and changes no sector outside \<open>L\<close>.
\<close>

definition touches :: "('d \<Rightarrow> u32 \<Rightarrow> buf) \<Rightarrow> u32 set \<Rightarrow> 'd fat32 \<Rightarrow> bool \<times> 'd fat32 \<Rightarrow> bool" where
  "touches sec L s r \<longleftrightarrow> fst r \<and> (\<forall>m i. m \<notin> L \<longrightarrow> i < 512 \<longrightarrow> sec (device (snd r)) m i = sec (device s) m i)"

lemma touches_write: "stores wr sec \<Longrightarrow> touches sec {lba} s (write_sector wr lba b s)"
  by (auto simp: touches_def write_sector_eq stores_def)

lemma touches_mono: "touches sec L s r \<Longrightarrow> L \<subseteq> M \<Longrightarrow> touches sec M s r"
  by (auto simp: touches_def)

lemma touches_clear: "touches sec L (clear_buf s) r = touches sec L s r"
  by (simp add: touches_def clear_buf_def)

lemma touches_then:
  "touches sec L s r \<Longrightarrow> (\<And>t. touches sec M t (f t)) \<Longrightarrow> touches sec (L \<union> M) s (and_then r f)"
  by (cases r) (auto simp: touches_def and_then_def split: bool.split)

lemma touchesD: "touches sec L s r \<Longrightarrow> m \<notin> L \<Longrightarrow> i < 512 \<Longrightarrow> sec (device (snd r)) m i = sec (device s) m i"
  by (simp add: touches_def)

lemma touches_cong: "device t = device s \<Longrightarrow> touches sec L t r \<Longrightarrow> touches sec L s r"
  by (simp add: touches_def)

lemma write_run_Suc: "write_run (Suc k) wr lba s = and_then (write_sector wr lba (sector_buf s) s) (write_run k wr (lba + 1))"
  by (cases "write_sector wr lba (sector_buf s) s") (simp add: and_then_def split: bool.split)

lemma write_run_touches:
  "stores wr sec \<Longrightarrow> touches sec {lba + of_nat j | j. j < k} s (write_run k wr lba s)"
proof (induction k arbitrary: lba s)
  case (Suc k)
  let ?w = "write_sector wr lba (sector_buf s) s"
  have w: "touches sec {lba} s ?w" by (rule touches_write [OF Suc.prems])
  have "touches sec {lba + 1 + of_nat j | j. j < k} t (write_run k wr (lba + 1) t)" for t by (rule Suc.IH [OF Suc.prems])
  from touches_then [OF w this]
  have "touches sec ({lba} \<union> {lba + 1 + of_nat j | j. j < k}) s (write_run (Suc k) wr lba s)"
    by (simp only: write_run_Suc)
  moreover have "{lba} \<union> {lba + 1 + of_nat j | j. j < k} \<subseteq> {lba + of_nat j | j. j < Suc k}"
  proof -
    have "\<exists>j'. lba + 1 + of_nat j = lba + of_nat j' \<and> j' < Suc k" if "j < k" for j
      using that by (intro exI [of _ "Suc j"]) (simp add: algebra_simps)
    moreover have "\<exists>j'. lba = lba + of_nat j' \<and> j' < Suc k" by (intro exI [of _ 0]) simp
    ultimately show ?thesis by auto
  qed
  ultimately show ?case by (rule touches_mono)
qed (simp add: touches_def)

text \<open>The first sector of a run of zero sectors is zero at the end, when the run does not wrap around.\<close>

lemma write_run_first:
  assumes st: "stores wr sec" and k: "0 < k" "k < 4294967296" and i: "i < 512"
  shows "sec (device (snd (write_run k wr lba (clear_buf s)))) lba i = 0"
proof -
  obtain n where n: "k = Suc n" using k by (cases k) auto
  let ?t = "snd (write_sector wr lba (sector_buf (clear_buf s)) (clear_buf s))"
  have f: "sec (device ?t) lba i = 0"
    using st i by (simp add: write_sector_eq stores_def clear_buf_def copy_to_def)
  have "lba \<notin> {lba + 1 + of_nat j | j. j < n}"
  proof
    assume "lba \<in> {lba + 1 + of_nat j | j. j < n}"
    then obtain j where j: "j < n" "lba = lba + 1 + of_nat j" by blast
    then have "lba + 0 = lba + of_nat (Suc j)" by (simp add: algebra_simps)
    then have "(of_nat (Suc j) :: u32) = 0" by (metis add_left_cancel)
    then show False using unat_of_nat_u32 [of "Suc j"] j n k by simp
  qed
  then have "sec (device (snd (write_run n wr (lba + 1) ?t))) lba i = 0"
    using touchesD [OF write_run_touches [OF st] _ i, where m = lba] f by simp
  then show ?thesis
    using touches_write [OF st, of lba "clear_buf s" "sector_buf (clear_buf s)"]
    unfolding n touches_def write_run_Suc and_then_def by (simp add: split_def)
qed

lemma write_empty_fat_touches:
  assumes "stores wr sec"
  shows "touches sec ({lba} \<union> {lba + 1 + of_nat j | j. j < unat n - 1}) s (write_empty_fat wr lba n s)"
  unfolding write_empty_fat_def Let_def
proof (rule touches_then)
  show "touches sec {lba + 1 + of_nat j | j. j < unat n - 1} t (write_run (unat n - 1) wr (lba + 1) (clear_buf t))" for t
    using write_run_touches [OF assms] touches_clear by blast
qed (rule touches_cong [OF _ touches_write [OF assms]], simp add: clear_buf_def)

text \<open>A boot sector at \<open>p\<close> with a usable geometry whose areas fit below sector \<open>2^32\<close>.\<close>

definition geometry_ok :: "buf \<Rightarrow> u32 \<Rightarrow> bool" where
  "geometry_ok b p \<longleftrightarrow> rd16 b 510 = 0xAA55 \<and> rd16 b 11 = 512 \<and> 0 < unat (b 13) \<and> 0 < unat (rd16 b 14) \<and> 0 < unat (rd32 b 36) \<and>
     2 \<le> unat (rd32 b 44) \<and> unat p + unat (rd16 b 14) + 2 * unat (rd32 b 36) < 4294967296 \<and>
     unat p + unat (rd16 b 14) + unat (b 16) * unat (rd32 b 36) + (unat (rd32 b 44) - 2) * unat (b 13) + unat (b 13) < 4294967296"

definition boot_root_lba :: "buf \<Rightarrow> u32 \<Rightarrow> u32" where
  "boot_root_lba b p = p + ucast (rd16 b 14) + ucast (b 16) * rd32 b 36 + (rd32 b 44 - 2) * ucast (b 13)"

lemma off_ne: "0 < k \<Longrightarrow> k < 4294967296 \<Longrightarrow> p + of_nat k \<noteq> (p :: u32)"
proof
  assume k: "0 < k" "k < 4294967296" and "p + of_nat k = p"
  then have "(of_nat k :: u32) = 0" by simp
  then show False using unat_of_nat_u32 [OF k(2)] k(1) by simp
qed

lemma ucast_of_nat: "ucast (x :: 'a::len word) = (of_nat (unat x) :: 'b::len word)"
  by simp

lemma boot_root_lba_nat:
  assumes "2 \<le> unat (rd32 b 44)"
  shows "boot_root_lba b p = p + of_nat (unat (rd16 b 14) + unat (b 16) * unat (rd32 b 36) + (unat (rd32 b 44) - 2) * unat (b 13))"
proof -
  have "(of_nat (unat (rd32 b 44) - 2) :: u32) = rd32 b 44 - 2" using assms by (simp add: of_nat_diff)
  then show ?thesis unfolding boot_root_lba_def of_nat_add of_nat_mult by (simp add: add.assoc)
qed

lemma geometry_apart:
  assumes g: "geometry_ok b p"
  shows "p \<notin> {p + ucast (rd16 b 14)} \<union> {p + ucast (rd16 b 14) + 1 + of_nat j | j. j < unat (rd32 b 36) - 1}"
    "p \<notin> {p + ucast (rd16 b 14) + rd32 b 36} \<union> {p + ucast (rd16 b 14) + rd32 b 36 + 1 + of_nat j | j. j < unat (rd32 b 36) - 1}"
    "p \<notin> {boot_root_lba b p + of_nat j | j. j < unat (b 13)}"
    "0 < x \<Longrightarrow> p + ucast (x :: u16) \<noteq> p"
proof -
  let ?r = "unat (rd16 b 14)" and ?f = "unat (rd32 b 36)"
  note g' = g [unfolded geometry_ok_def]
  have A: "p \<noteq> p + of_nat (?r + k)" if "k < 2 * ?f" for k
    using g' that off_ne [of "?r + k" p] by auto
  have a1: "p + ucast (rd16 b 14) + 1 + of_nat j = p + of_nat (?r + (1 + j))" for j by (simp add: algebra_simps)
  have a2: "p + ucast (rd16 b 14) + rd32 b 36 + 1 + of_nat j = p + of_nat (?r + (?f + 1 + j))" for j by (simp add: algebra_simps)
  have a3: "p + ucast (rd16 b 14) = p + of_nat (?r + 0)" "p + ucast (rd16 b 14) + rd32 b 36 = p + of_nat (?r + ?f)"
    by (simp_all add: algebra_simps)
  have f: "0 < 2 * ?f" "?f < 2 * ?f" using g' by auto
  have "p \<noteq> p + ucast (rd16 b 14) + 1 + of_nat j" "p \<noteq> p + ucast (rd16 b 14) + rd32 b 36 + 1 + of_nat j" if "j < ?f - 1" for j
    unfolding a1 a2 using that by (intro A; linarith)+
  moreover have "p \<noteq> p + ucast (rd16 b 14)" unfolding a3(1) by (rule A [OF f(1)])
  moreover have "p \<noteq> p + ucast (rd16 b 14) + rd32 b 36" unfolding a3(2) by (rule A [OF f(2)])
  ultimately show "p \<notin> {p + ucast (rd16 b 14)} \<union> {p + ucast (rd16 b 14) + 1 + of_nat j | j. j < ?f - 1}"
    "p \<notin> {p + ucast (rd16 b 14) + rd32 b 36} \<union> {p + ucast (rd16 b 14) + rd32 b 36 + 1 + of_nat j | j. j < ?f - 1}"
    by blast+
  let ?q = "unat (rd16 b 14) + unat (b 16) * unat (rd32 b 36) + (unat (rd32 b 44) - 2) * unat (b 13)"
  have "p + of_nat (?q + j) \<noteq> p" if "j < unat (b 13)" for j
    using g' that by (intro off_ne) auto
  then show "p \<notin> {boot_root_lba b p + of_nat j | j. j < unat (b 13)}"
    using boot_root_lba_nat [of b p] g' by (auto simp: add.assoc)
  show "0 < x \<Longrightarrow> p + ucast (x :: u16) \<noteq> p"
    using off_ne [of "unat x" p] unat_u16_less [of x] by (auto simp: unat_gt_0)
qed

lemma format_eq:
  assumes rd: "\<And>l. rd l 1 (device s) = Some (sec (device s) l)" and g: "geometry_ok (sec (device s) p) p"
  defines "b \<equiv> sec (device s) p" and "t \<equiv> s\<lparr>sector_buf := copy_to 0 512 (sec (device s) p) (sector_buf s)\<rparr>"
  shows "fat32_format rd wr p s = and_then (and_then (and_then
         (if rd16 b 48 > 0 \<and> rd16 b 48 < rd16 b 14 then write_fsinfo wr (p + ucast (rd16 b 48)) t else (True, t))
         (write_empty_fat wr (p + ucast (rd16 b 14)) (rd32 b 36)))
         (write_empty_fat wr (p + ucast (rd16 b 14) + rd32 b 36) (rd32 b 36)))
         (\<lambda>s. write_run (unat (b 13)) wr (boot_root_lba b p) (clear_buf s))"
proof -
  have r: "read_sector rd p s = (True, t)" by (simp add: read_sector_def rd t_def)
  have t: "sector_buf t = copy_to 0 512 b (sector_buf s)" by (simp add: t_def b_def)
  have f: "rd16 (sector_buf t) 510 = 0xAA55" "rd16 (sector_buf t) 11 = 512" "sector_buf t 13 = b 13" "sector_buf t 16 = b 16"
    "rd16 (sector_buf t) 14 = rd16 b 14" "rd32 (sector_buf t) 36 = rd32 b 36" "rd32 (sector_buf t) 44 = rd32 b 44"
    "rd16 (sector_buf t) 48 = rd16 b 48"
    using g unfolding t geometry_ok_def b_def by (simp_all add: copy_to_rd) (simp_all add: copy_to_def)
  show ?thesis
    unfolding fat32_format_def r prod.case Let_def bool.case f boot_root_lba_def by simp
qed

lemma format_result:
  assumes rd: "\<And>l. rd l 1 (device s) = Some (sec (device s) l)" and st: "stores wr sec"
    and g: "geometry_ok (sec (device s) p) p"
  defines "b \<equiv> sec (device s) p"
  shows "\<exists>u. fat32_format rd wr p s = (True, u) \<and> (\<forall>i<512. sec (device u) p i = b i) \<and> (\<forall>i<512. sec (device u) (boot_root_lba b p) i = 0)"
proof -
  let ?t = "s\<lparr>sector_buf := copy_to 0 512 (sec (device s) p) (sector_buf s)\<rparr>"
  let ?F = "if rd16 b 48 > 0 \<and> rd16 b 48 < rd16 b 14 then {p + ucast (rd16 b 48)} else {}"
  let ?A = "{p + ucast (rd16 b 14)} \<union> {p + ucast (rd16 b 14) + 1 + of_nat j | j. j < unat (rd32 b 36) - 1}"
  let ?B = "{p + ucast (rd16 b 14) + rd32 b 36} \<union> {p + ucast (rd16 b 14) + rd32 b 36 + 1 + of_nat j | j. j < unat (rd32 b 36) - 1}"
  define x where "x = and_then (and_then
         (if rd16 b 48 > 0 \<and> rd16 b 48 < rd16 b 14 then write_fsinfo wr (p + ucast (rd16 b 48)) ?t else (True, ?t))
         (write_empty_fat wr (p + ucast (rd16 b 14)) (rd32 b 36)))
         (write_empty_fat wr (p + ucast (rd16 b 14) + rd32 b 36) (rd32 b 36))"
  have "touches sec {l} t (write_fsinfo wr l t)" for l t
    unfolding write_fsinfo_def Let_def by (rule touches_cong [OF _ touches_write [OF st]]) (simp add: clear_buf_def)
  then have "touches sec ?F ?t (if rd16 b 48 > 0 \<and> rd16 b 48 < rd16 b 14 then write_fsinfo wr (p + ucast (rd16 b 48)) ?t else (True, ?t))"
    by (simp add: touches_def)
  then have x: "touches sec (?F \<union> ?A \<union> ?B) ?t x"
    unfolding x_def by (intro touches_then write_empty_fat_touches [OF st])
  have fx: "fat32_format rd wr p s = and_then x (\<lambda>s. write_run (unat (b 13)) wr (boot_root_lba b p) (clear_buf s))"
    unfolding x_def b_def by (rule format_eq [of rd s sec p, OF rd g])
  have "p \<notin> ?F \<union> ?A \<union> ?B" using geometry_apart [OF g] unfolding b_def by auto
  moreover have w: "touches sec {boot_root_lba b p + of_nat j | j. j < unat (b 13)} v (write_run (unat (b 13)) wr (boot_root_lba b p) (clear_buf v))" for v
    using write_run_touches [OF st] touches_clear by blast
  ultimately have all: "touches sec (?F \<union> ?A \<union> ?B \<union> {boot_root_lba b p + of_nat j | j. j < unat (b 13)}) ?t (fat32_format rd wr p s)"
    and np: "p \<notin> ?F \<union> ?A \<union> ?B \<union> {boot_root_lba b p + of_nat j | j. j < unat (b 13)}"
    unfolding fx using touches_then [OF x w] geometry_apart(3) [OF g] unfolding b_def by auto
  obtain u where u: "fat32_format rd wr p s = (True, u)" using all by (cases "fat32_format rd wr p s") (simp add: touches_def)
  have "sec (device u) p i = b i" if "i < 512" for i
    using touchesD [OF all np that] u by (simp add: b_def)
  moreover have "u = snd (write_run (unat (b 13)) wr (boot_root_lba b p) (clear_buf (snd x)))"
    using u x unfolding fx touches_def and_then_def by (cases x) (auto split: bool.splits)
  then have "sec (device u) (boot_root_lba b p) i = 0" if "i < 512" for i
    using write_run_first [OF st _ _ that, of "unat (b 13)"] g unat_u8_less [of "b 13"] by (simp add: geometry_ok_def b_def)
  ultimately show ?thesis using u by blast
qed

section \<open>A small volume\<close>

text \<open>
  A disk held in memory, and a mounted volume on it for the witnesses: the table from sector 1 on, the root directory in cluster 2 at sector 33 with
  one file, whose entry has the first cluster \<open>c\<close>.
\<close>

definition ram_read :: "(u32 \<Rightarrow> buf) read_fn" where
  "ram_read l n d = Some (\<lambda>i. d (l + of_nat (i div 512)) (i mod 512))"

definition ram_write :: "(u32 \<Rightarrow> buf) write_fn" where
  "ram_write l n b d = (True, \<lambda>m. if m - l < ucast n then (\<lambda>i. b (512 * unat (m - l) + i)) else d m)"

definition ram_sec :: "(u32 \<Rightarrow> buf) \<Rightarrow> u32 \<Rightarrow> buf" where
  "ram_sec d l = (\<lambda>i. d (l + of_nat (i div 512)) (i mod 512))"

definition demo_fat :: buf where "demo_fat = buf_put 2 0x0FFFFFFF (\<lambda>_. 0)"

definition demo_file :: "u32 \<Rightarrow> dir_entry" where "demo_file c = fresh_entry (convert_to_83 [65, 46, 66]) ATTR_ARCHIVE c 600"

definition demo32 :: "u32 \<Rightarrow> (u32 \<Rightarrow> buf) fat32" where
  "demo32 c = \<lparr>bpb_bytes_per_sec = 512, bpb_sec_per_clust = 1, bpb_reserved_secs = 1, bpb_num_fats = 1, bpb_total_secs = 10000,
     bpb_fat_size = 32, bpb_root_cluster = 2, bpb_fs_info = 0, fat_start_lba = 1, data_area_lba = 33, total_clusters = 9000,
     fat_buf = demo_fat, sector_buf = \<lambda>_. 0, found_entry = demo_file 0,
     device = (\<lambda>_ _. 0)(1 := demo_fat, 33 := put_entry 0 (demo_file c) (\<lambda>_. 0))\<rparr>"

lemma ram_read_sec: "ram_read l 1 d = Some (ram_sec d l)" by (simp add: ram_read_def ram_sec_def)

lemma ram_stores: "stores ram_write ram_sec"
proof -
  have "m - l < 1 \<longleftrightarrow> m = l" for m l :: u32 by (metis diff_eq_eq add_0 word_less_1)
  then show ?thesis by (simp add: stores_def ram_write_def ram_sec_def)
qed

lemma buf_get_zero: "buf_get c (\<lambda>_. 0) = 0" by (simp add: buf_get_def rd32_def)

lemma demo_get: "buf_get c demo_fat = (if c = 2 then 0x0FFFFFFF else 0)"
  by (simp add: demo_fat_def buf_get_put buf_get_zero)

lemma demo_chain: "chain_from (next_cluster ram_read (demo32 c)) 2 [2]"
proof -
  have "buf_data 2" by (simp add: buf_data_def word_less_nat_alt)
  then show ?thesis
    using get_next_in_buf [of 2 ram_read "demo32 c"]
    by (simp add: next_cluster_def buf_data_data) (simp add: demo32_def demo_get fat32_data_def fat32_consts)
qed

lemma demo_name: "convert_to_83 [97, 46, 98] = [65, 32, 32, 32, 32, 32, 32, 32, 66, 32, 32]"
  "convert_to_83 [65, 46, 66] = [65, 32, 32, 32, 32, 32, 32, 32, 66, 32, 32]"
  by code_simp+

lemma demo_entry: "get_entry (put_entry 0 (demo_file c) (\<lambda>_. 0)) 0 = demo_file c"
  by (intro get_put_entry) (simp add: demo_file_def fresh_entry_def)

lemma zero_entry: "0 < i \<Longrightarrow> hd (de_name (get_entry (put_entry 0 d (\<lambda>_. 0)) i)) = 0"
  by (simp add: put_entry_other) (simp add: get_entry_def Let_def upt_conv_Cons)

lemma demo_live: "dir_live (directory (ram_sec (device (demo32 c))) (chain_sectors (demo32 c) [2])) = [demo_file c]"
proof -
  have s: "ram_sec (device (demo32 c)) 33 i = put_entry 0 (demo_file c) (\<lambda>_. 0) i" if "i < 512" for i
    using that by (simp add: ram_sec_def demo32_def)
  have u: "[0..<16] = 0 # 1 # [2..<(16 :: nat)]" by code_simp
  have "chain_sectors (demo32 c) [2] = [33]" by (simp add: chain_sectors_def demo32_def fat32_get_cluster_lba_def)
  then have "directory (ram_sec (device (demo32 c))) (chain_sectors (demo32 c) [2]) =
      map (get_entry (put_entry 0 (demo_file c) (\<lambda>_. 0))) [0..<16]"
    using sector_entries_cong [OF s] by (simp add: directory_def sector_entries_def)
  also have "\<dots> = demo_file c # get_entry (put_entry 0 (demo_file c) (\<lambda>_. 0)) 1 # map (get_entry (put_entry 0 (demo_file c) (\<lambda>_. 0))) [2..<16]"
    unfolding u by (simp add: demo_entry)
  finally show ?thesis
    using zero_entry [of 1 "demo_file c"]
    by (simp add: dir_live_simps live_entry_def)
      (simp add: demo_file_def fresh_entry_def demo_name ATTR_ARCHIVE_def ATTR_VOLUME_ID_def ATTR_LFN_def)
qed

section \<open>Properties\<close>

text \<open>
  C33. On a volume whose root directory chain is intact and whose sectors can be read, \<open>fat32_find_file\<close> and \<open>fat32_list_root\<close> return, and
  they are the search and the listing over the directory as a list of entries: entries up to the first empty one, without deleted entries, volume
  labels and long-name entries, names compared without case.
\<close>

theorem fat32_directory_refines:
  assumes "\<And>l. rd l 1 (device s) = Some (sec l)"
    and "chain_from (next_cluster rd s) (bpb_root_cluster s) cs" and "length cs < fuel"
  shows "map_option fst (fat32_find_file fuel rd name s) = Some (dir_find (convert_to_83 name) (directory sec (chain_sectors s cs))) \<and>
    map_option fst (fat32_list_root fuel rd s) = Some (dir_rows (directory sec (chain_sectors s cs)))"
  using find_file_spec [of rd s sec, OF assms] list_root_spec [of rd s sec, OF assms] by fastforce

theorem fat32_directory_witness:
  "map_option fst (fat32_find_file 2 ram_read [97, 46, 98] (demo32 3)) = Some (Some (demo_file 3)) \<and>
   map_option fst (fat32_list_root 2 ram_read (demo32 3)) = Some [([65, 46, 66], 600)]"
proof -
  have "chain_from (next_cluster ram_read (demo32 3)) (bpb_root_cluster (demo32 3)) [2]"
    using demo_chain by (simp add: demo32_def)
  moreover have "shown_name (convert_to_83 [65, 46, 66]) = [65, 46, 66]"
    unfolding demo_name by (simp add: shown_name_def)
  ultimately show ?thesis
    using fat32_directory_refines [of ram_read "demo32 3" "ram_sec (device (demo32 3))" "[2]" 2 "[97, 46, 98]", OF ram_read_sec]
    by (simp add: dir_find_def dir_rows_def demo_live del: chain_from.simps)
      (simp add: demo_file_def fresh_entry_def demo_name)
qed

text \<open>
  \<open>fat32_rename_file\<close> never renames: whenever it returns, it returns false, and the disk and the table are unchanged (the loop changes the name in the sector buffer
  and never writes the buffer back).
\<close>

theorem fat32_rename_never:
  "case fat32_rename_file fuel rd old new s of
     None \<Rightarrow> True
   | Some (r, s') \<Rightarrow> r = False \<and> device s' = device s \<and> fat_buf s' = fat_buf s"
  using rename_frame [of fuel rd old new s] buf_only_fields [of s]
  by (auto split: option.splits)

text \<open>
  Releasing a chain that stays in the buffered part of the table (the first 4096 clusters) ends, changes only the table and the disk, and makes exactly the clusters
  of the chain free.
\<close>

theorem fat32_free_chain_spec:
  assumes "chain_in_buf c (fat_buf s)"
  shows "\<exists>s'. fat32_free_cluster_chain 4098 rd wr c s = Some s' \<and> fat_only s s' \<and>
     (\<forall>d. buf_get d (fat_buf s') = (if on_chain buf_data (\<lambda>x. buf_get x (fat_buf s)) c d then 0 else buf_get d (fat_buf s)))"
  using free_in_buf_spec [OF assms] by simp

theorem fat32_free_chain_witness:
  "\<exists>s'. fat32_free_cluster_chain 4098 ram_read ram_write 2 (demo32 3) = Some s' \<and> fat_only (demo32 3) s' \<and> buf_get 2 (fat_buf s') = 0"
proof -
  have t: "fat_buf (demo32 3) = demo_fat" by (simp add: demo32_def)
  have d: "buf_data 2" by (simp add: buf_data_def word_less_nat_alt)
  have e: "\<not> fat32_data 0x0FFFFFFF" "\<not> fat32_data 0" by (simp_all add: fat32_data_def fat32_consts word_le_nat_alt)
  have "chain_in_buf 2 demo_fat" unfolding chain_in_buf_def demo_get using d e by simp
  then show ?thesis
    using fat32_free_chain_spec [of 2 "demo32 3" ram_read ram_write] on_chain.chain_here [of buf_data 2 "\<lambda>x. buf_get x demo_fat", OF d] unfolding t by fastforce
qed

text \<open>
  \<open>fat32_alloc_cluster\<close> takes the least free cluster among the buffered ones at or above the hint, marks it as the end of a chain and writes
  that sector of the table; clusters beyond the buffer are never handed out.
\<close>

theorem fat32_alloc_cluster_spec:
  assumes "unat (total_clusters s) \<le> 0x0FFFFFF0"
  shows "(\<forall>c \<in> alloc_range hint s. buf_get (of_nat c) (fat_buf s) \<noteq> 0) \<and> fat32_alloc_cluster wr hint s = (0, s) \<or>
    (\<exists>c \<in> alloc_range hint s. buf_get (of_nat c) (fat_buf s) = 0 \<and>
       (\<forall>d \<in> alloc_range hint s. d < c \<longrightarrow> buf_get (of_nat d) (fat_buf s) \<noteq> 0) \<and>
       fat32_alloc_cluster wr hint s =
         (let (ok, s') = write_fat_sector wr (of_nat c * 4) (s\<lparr>fat_buf := buf_put (of_nat c) FAT32_CLUSTER_END_MIN (fat_buf s)\<rparr>)
          in (if ok then of_nat c else 0, s')))"
  using assms by (rule alloc_cases)

theorem fat32_alloc_cluster_witness:
  "unat (total_clusters (demo32 3)) \<le> 0x0FFFFFF0 \<and> fst (fat32_alloc_cluster ram_write 0 (demo32 3)) = 3"
proof -
  have h: "unat (total_clusters (demo32 3)) \<le> 0x0FFFFFF0" by (simp add: demo32_def)
  have r: "alloc_range 0 (demo32 3) = {2..<4096}" by (auto simp: alloc_range_def demo32_def)
  have t: "fat_buf (demo32 3) = demo_fat" by (simp add: demo32_def)
  have g: "buf_get (of_nat c) demo_fat = 0 \<longleftrightarrow> c \<noteq> 2" if "c < 4096" for c
    using that unat_of_nat_u32 [of c] by (auto simp: demo_get)
  have ok: "fst (write_fat_sector ram_write x y)" for x y by (simp add: write_fat_sector_def write_sector_def ram_write_def)
  have 3: "c = 3" if "c \<in> {2..<4096}" "c \<noteq> 2" "\<not> 3 < c" for c :: nat using that by auto
  show ?thesis
    using fat32_alloc_cluster_spec [OF h, of 0 ram_write] unfolding r t
  proof (elim disjE conjE bexE)
    assume "\<forall>c\<in>{2..<4096}. buf_get (of_nat c) demo_fat \<noteq> 0"
    then have "buf_get (of_nat 3) demo_fat \<noteq> 0" by (rule bspec) simp
    then show ?thesis using g [of 3] by simp
  next
    fix c assume c: "c \<in> {2..<4096}" "buf_get (of_nat c) demo_fat = 0" "\<forall>d\<in>{2..<4096}. d < c \<longrightarrow> buf_get (of_nat d) demo_fat \<noteq> 0"
      and e: "fat32_alloc_cluster ram_write 0 (demo32 3) =
         (let (ok, s') = write_fat_sector ram_write (of_nat c * 4) (demo32 3\<lparr>fat_buf := buf_put (of_nat c) FAT32_CLUSTER_END_MIN demo_fat\<rparr>)
          in (if ok then of_nat c else 0, s'))"
    have "c \<noteq> 2" using c g [of c] by simp
    moreover have "\<not> 3 < c" using bspec [OF c(3), of 3] g [of 3] by auto
    ultimately have "c = 3" using 3 c(1) by blast
    then show ?thesis using e h ok by (simp add: split_def Let_def)
  qed
qed

lemma coherent_alloc:
  assumes "coherent sec s" "stores wr sec" "unat (total_clusters s) \<le> 0x0FFFFFF0"
  shows "coherent sec (snd (fat32_alloc_cluster wr hint s))"
  using alloc_cases [OF assms(3), of hint wr]
proof (elim disjE conjE bexE)
  fix c assume c: "c \<in> alloc_range hint s" and e: "fat32_alloc_cluster wr hint s =
      (let (ok, s') = write_fat_sector wr (of_nat c * 4) (s\<lparr>fat_buf := buf_put (of_nat c) FAT32_CLUSTER_END_MIN (fat_buf s)\<rparr>)
       in (if ok then of_nat c else 0, s'))"
  have "unat (of_nat c :: u32) < 4096" using c by (simp add: alloc_range_def unat_of_nat_u32)
  from coherent_write [OF assms(1,2) this] show ?thesis unfolding e by (simp add: split_def Let_def)
qed (simp add: assms(1))

text \<open>
  C34. The disk copy of the first table stays equal to the buffer through every table update, allocation and release, when the disk stores what is written to it.
\<close>

theorem fat32_table_coherent:
  assumes "coherent sec s" and "stores wr sec" and "unat (total_clusters s) \<le> 0x0FFFFFF0" and "fat32_data c"
  shows "coherent sec (fat32_update_fat wr c v s) \<and> coherent sec (snd (fat32_alloc_cluster wr hint s)) \<and>
    (case fat32_free_cluster_chain fuel rd wr c s of None \<Rightarrow> True | Some s' \<Rightarrow> coherent sec s')"
  using coherent_update [OF assms(1,2,4)] coherent_alloc [OF assms(1,2,3)] coherent_free [OF assms(2,1)]
  by (auto split: option.split)

lemma demo_coherent: "coherent ram_sec (demo32 3)"
proof -
  have "ram_sec (device (demo32 3)) (1 + of_nat k) i = demo_fat (512 * k + i)" if "k < 32" "i < 512" for k i
  proof (cases "k = 0")
    case False
    have "unat (1 + of_nat k :: u32) = 1 + k" using that unat_of_nat_u32 [of "1 + k"] by simp
    then have "(1 + of_nat k :: u32) \<noteq> 1" "(1 + of_nat k :: u32) \<noteq> 33" using that False by auto
    moreover have "512 * k + i \<notin> {8..<12}" using False by simp
    ultimately show ?thesis using that by (simp add: ram_sec_def demo32_def demo_fat_def buf_put_def wr_other(2))
  qed (use that in \<open>simp add: ram_sec_def demo32_def\<close>)
  then show ?thesis by (simp add: coherent_def demo32_def)
qed

theorem fat32_table_coherent_witness:
  "coherent ram_sec (fat32_update_fat ram_write 7 9 (demo32 3)) \<and> coherent ram_sec (snd (fat32_alloc_cluster ram_write 0 (demo32 3)))"
proof -
  have "fat32_data 7" by (simp add: fat32_data_def fat32_consts word_le_nat_alt word_less_nat_alt)
  moreover have "unat (total_clusters (demo32 3)) \<le> 0x0FFFFFF0" by (simp add: demo32_def)
  ultimately show ?thesis using fat32_table_coherent [OF demo_coherent ram_stores, of 7 9 0] by blast
qed

lemma list_root_empty:
  assumes rd: "\<And>l. rd l 1 (device s) = Some (sec l)" and z: "\<And>i. i < 512 \<Longrightarrow> sec (fat32_get_cluster_lba (bpb_root_cluster s) s) i = 0"
    and k: "0 < unat (bpb_sec_per_clust s)"
  shows "map_option fst (fat32_list_root 1 rd s) = Some []"
proof -
  let ?l = "fat32_get_cluster_lba (bpb_root_cluster s) s"
  obtain n where n: "unat (bpb_sec_per_clust s) = Suc n" using k gr0_implies_Suc by blast
  have e: "hd (de_name (get_entry (copy_to 0 512 (sec ?l) x) 0)) = 0" for x
    using z by (simp add: get_entry_def Let_def copy_to_def upt_conv_Cons)
  have "list_sector 16 0 (copy_to 0 512 (sec ?l) x) = ([], True)" for x
    using e [of x] list_sector.simps(2) [of 15 0 "copy_to 0 512 (sec ?l) x"] by (simp add: Let_def numeral_eq_Suc)
  then show ?thesis
    unfolding fat32_list_root_def walk_root_def
    by (simp add: n read_sector_def rd numeral_eq_Suc del: list_sector.simps)
qed

lemma read_fat_ok:
  assumes "bpb_fat_size w \<noteq> 0" "bpb_bytes_per_sec w \<noteq> 0" "\<And>l n. \<exists>b. rd l n (device w) = Some b"
  shows "\<exists>t. read_fat rd w = Some (True, w\<lparr>fat_buf := t\<rparr>)"
proof -
  let ?n = "if bpb_fat_size w * ucast (bpb_bytes_per_sec w) > FAT_BUF_SIZE then FAT_BUF_SIZE else bpb_fat_size w * ucast (bpb_bytes_per_sec w)"
  obtain b where "rd (fat_start_lba w) (ucast (?n div ucast (bpb_bytes_per_sec w))) (device w) = Some b" using assms(3) by blast
  then show ?thesis using assms(1,2) unfolding read_fat_def Let_def by auto
qed

lemma init_drive_ok:
  assumes "rd p 1 (device u) = Some x" "\<And>l n. \<exists>b. rd l n (device u) = Some b"
    and "rd16 (copy_to 0 512 x (sector_buf u)) 510 = 0xAA55" "copy_to 0 512 x (sector_buf u) 13 \<noteq> 0"
    and "rd16 (copy_to 0 512 x (sector_buf u)) 11 \<noteq> 0" "rd32 (copy_to 0 512 x (sector_buf u)) 36 \<noteq> 0"
  defines "c \<equiv> copy_to 0 512 x (sector_buf u)"
  shows "\<exists>v. fat32_init_drive rd p u = Some (True, v) \<and> device v = device u \<and> bpb_root_cluster v = rd32 c 44 \<and>
    bpb_sec_per_clust v = c 13 \<and> data_area_lba v = p + ucast (rd16 c 14) + ucast (c 16) * rd32 c 36"
proof -
  let ?s = "u\<lparr>sector_buf := c\<rparr>"
  let ?w = "(parse_bpb c ?s)\<lparr>fat_start_lba := p + ucast (rd16 c 14), data_area_lba := p + ucast (rd16 c 14) + ucast (c 16) * rd32 c 36,
    total_clusters := (rd32 c 32 - ucast (rd16 c 14) - ucast (c 16) * rd32 c 36) div ucast (c 13)\<rparr>"
  have "\<exists>t. read_fat rd ?w = Some (True, ?w\<lparr>fat_buf := t\<rparr>)"
    using assms by (intro read_fat_ok) (simp_all add: parse_bpb_def c_def)
  moreover have "fat32_init_drive rd p u = read_fat rd ?w"
    using assms(1,3,4) by (simp add: fat32_init_drive_def read_sector_def c_def [symmetric] Let_def parse_bpb_def)
  ultimately show ?thesis by (auto simp: parse_bpb_def)
qed

text \<open>
  Formatting a partition with a valid boot sector succeeds; the partition can be mounted afterwards and its root directory is empty.
\<close>

theorem fat32_format_mount_empty:
  assumes "\<And>l n d. \<exists>b. rd l n d = Some b" and "\<And>l d. rd l 1 d = Some (sec d l)" and "stores wr sec"
    and "geometry_ok (sec (device s) p) p"
  shows "\<exists>u v. fat32_format rd wr p s = (True, u) \<and> fat32_init_drive rd p u = Some (True, v) \<and>
    map_option fst (fat32_list_root 1 rd v) = Some []"
proof -
  let ?b = "sec (device s) p"
  obtain u where u: "fat32_format rd wr p s = (True, u)" "\<And>i. i < 512 \<Longrightarrow> sec (device u) p i = ?b i"
    "\<And>i. i < 512 \<Longrightarrow> sec (device u) (boot_root_lba ?b p) i = 0"
    using format_result [of rd s sec wr p, OF assms(2,3,4)] by blast
  let ?c = "copy_to 0 512 (sec (device u) p) (sector_buf u)"
  have f: "rd16 ?c 510 = 0xAA55" "rd16 ?c 11 = 512" "?c 13 = ?b 13" "?c 16 = ?b 16" "rd16 ?c 14 = rd16 ?b 14" "rd32 ?c 36 = rd32 ?b 36"
    "rd32 ?c 44 = rd32 ?b 44"
    using assms(4) u(2) unfolding geometry_ok_def by (simp_all add: rd16_def rd32_def copy_to_def)
  have nz: "?b 13 \<noteq> 0" "rd32 ?b 36 \<noteq> 0" using assms(4) by (auto simp: geometry_ok_def unat_gt_0)
  have "rd16 ?c 11 \<noteq> 0" unfolding f by simp
  then obtain v where v: "fat32_init_drive rd p u = Some (True, v)" "device v = device u" "bpb_root_cluster v = rd32 ?b 44"
    "bpb_sec_per_clust v = ?b 13" "data_area_lba v = p + ucast (rd16 ?b 14) + ucast (?b 16) * rd32 ?b 36"
    using init_drive_ok [of rd p u "sec (device u) p", OF assms(2)] assms(1) nz unfolding f by blast
  have "fat32_get_cluster_lba (bpb_root_cluster v) v = boot_root_lba ?b p"
    by (simp add: fat32_get_cluster_lba_def boot_root_lba_def v)
  then have "map_option fst (fat32_list_root 1 rd v) = Some []"
    using u(3) nz v by (intro list_root_empty [of rd v "sec (device u)"]) (simp_all add: assms(2) unat_gt_0)
  then show ?thesis using u(1) v(1) by blast
qed

definition demo_boot :: buf where
  "demo_boot = wr16 510 0xAA55 (wr32 44 2 (wr32 36 1 (wr16 14 1 (wr16 11 512 ((\<lambda>_. 0)(13 := 1, 16 := 2))))))"

theorem fat32_format_mount_witness:
  "geometry_ok (ram_sec ((\<lambda>_. \<lambda>_. 7)(0 := demo_boot)) 0) 0 \<and>
   (\<exists>u v. fat32_format ram_read ram_write 0 (demo32 3\<lparr>device := (\<lambda>_. \<lambda>_. 7)(0 := demo_boot)\<rparr>) = (True, u) \<and>
     fat32_init_drive ram_read 0 u = Some (True, v) \<and> map_option fst (fat32_list_root 1 ram_read v) = Some [])"
proof -
  have "geometry_ok (ram_sec ((\<lambda>_. \<lambda>_. 7)(0 := demo_boot)) 0) 0"
    by (simp add: geometry_ok_def ram_sec_def demo_boot_def rd16_def rd32_def wr16_def wr32_def)
  moreover have "\<exists>b. ram_read l n d = Some b" for l n d by (simp add: ram_read_def)
  ultimately show ?thesis
    using fat32_format_mount_empty [of ram_read ram_sec ram_write "demo32 3\<lparr>device := (\<lambda>_. \<lambda>_. 7)(0 := demo_boot)\<rparr>" 0,
      OF _ ram_read_sec ram_stores] by simp
qed

text \<open>
  Deleting a file whose single cluster lies beyond the buffered part of the table does not free the cluster: the table is unchanged. It also destroys the
  directory sector: reading the table entry has replaced the sector buffer by a sector of the table, and that sector, with the deletion mark in it, is
  written over the directory.
\<close>

theorem fat32_delete_beyond_buffer:
  assumes "locate fuel rd (convert_to_83 name) s = Some (At lba i, t)"
    and "c = entry_cluster (get_entry (sector_buf t) i)" and "4096 \<le> c" and "c < FAT32_CLUSTER_BAD"
    and "rd (fat_start_lba t + drop_bit 9 (c * 4)) 1 (device t) = Some fs"
    and "\<not> fat32_data (rd32 fs (unat (c * 4 AND 511)) AND 0x0FFFFFFF)" and "2 \<le> fuel"
  shows "fat32_delete_file fuel rd wr name s =
    (let b = (copy_to 0 512 fs (sector_buf t))(32 * i := 0xE5) in Some (write_sector wr lba b (t\<lparr>sector_buf := b\<rparr>)))"
proof -
  obtain n where n: "fuel = Suc (Suc n)" using assms(7) by (metis Suc_le_D numeral_2_eq_2 Suc_le_mono)
  have d: "fat32_data c" "\<not> c < 4096" using assms(3,4) by (auto simp: fat32_data_def fat32_consts word_le_nat_alt word_less_nat_alt)
  then have nb: "\<not> c * 4 + 4 \<le> FAT_BUF_SIZE" using in_buf_iff by blast
  let ?t = "t\<lparr>sector_buf := copy_to 0 512 fs (sector_buf t)\<rparr>"
  let ?v = "rd32 fs (unat (c * 4 AND 511)) AND 0x0FFFFFFF"
  have "fat32_get_next_cluster rd c t = (?v, ?t)"
    using nb assms(5) off_in_sector [of c] by (simp add: fat32_get_next_cluster_def Let_def read_sector_def copy_to_rd)
  moreover have "fat32_update_fat wr c 0 ?t = ?t" using nb by (simp add: fat32_update_fat_def Let_def)
  ultimately have "fat32_free_cluster_chain fuel rd wr c t = Some ?t"
    using assms(6) d(1) unfolding n by (auto simp: fat32_data_def)
  moreover have "2 \<le> c" using d by (simp add: fat32_data_def)
  ultimately show ?thesis
    using assms(1,4) unfolding fat32_delete_file_def fat32_convert_to_83_def Let_def assms(2) [symmetric]
    by (simp add: assms(2) [symmetric] Let_def)
qed

lemma demo_locate:
  "locate 2 ram_read (convert_to_83 [65, 46, 66]) (demo32 5000) =
     Some (At 33 0, (demo32 5000)\<lparr>sector_buf := copy_to 0 512 (put_entry 0 (demo_file 5000) (\<lambda>_. 0)) (\<lambda>_. 0)\<rparr>)"
proof -
  let ?b = "put_entry 0 (demo_file 5000) (\<lambda>_. 0)"
  have c: "copy_to 0 512 (ram_sec (device (demo32 5000)) 33) (\<lambda>_. 0) = copy_to 0 512 ?b (\<lambda>_. 0)"
    by (auto simp: copy_to_def ram_sec_def demo32_def)
  have e: "get_entry (copy_to 0 512 ?b (\<lambda>_. 0)) 0 = demo_file 5000"
    using get_entry_cong [of 0 "copy_to 0 512 ?b (\<lambda>_. 0)" ?b] demo_entry by (simp add: copy_to_def)
  have n: "name_cmp (de_name (demo_file 5000)) (convert_to_83 [65, 46, 66]) = 0"
    by (subst name_cmp_0) (simp_all add: demo_file_def fresh_entry_def)
  have l: "live_entry (demo_file 5000)" "hd (de_name (demo_file 5000)) \<noteq> 0"
    by (simp_all add: live_entry_def demo_file_def fresh_entry_def demo_name ATTR_ARCHIVE_def ATTR_VOLUME_ID_def ATTR_LFN_def)
  have s16: "(16 :: nat) = Suc 15" by simp
  have sc: "scan_sector 16 0 (copy_to 0 512 ?b (\<lambda>_. 0)) (convert_to_83 [65, 46, 66]) = Hit 0"
    unfolding s16 scan_sector.simps(2) e Let_def fat32_name_cmp_def n using l by simp
  have r: "read_sector ram_read 33 (demo32 5000) = (True, (demo32 5000)\<lparr>sector_buf := copy_to 0 512 ?b (\<lambda>_. 0)\<rparr>)"
    using c by (simp add: read_sector_def ram_read_sec demo32_def)
  have f: "bpb_root_cluster (demo32 5000) = 2" "unat (bpb_sec_per_clust (demo32 5000)) = Suc 0" "fat32_get_cluster_lba 2 (demo32 5000) = 33"
    by (simp_all add: demo32_def fat32_get_cluster_lba_def)
  have m: "(2 :: u32) < FAT32_MAX_CLUSTER" by (simp add: fat32_consts)
  show ?thesis
    unfolding locate_def walk_root_def f(1) numeral_2_eq_2 walk_chain.simps(2) f using m
    by (simp add: f r sc del: walk_chain.simps)
qed

theorem fat32_delete_beyond_witness:
  "device (demo32 5000) 33 1 = 0x20 \<and>
   map_option (\<lambda>(ok, s). (ok, device s 33 0, device s 33 1)) (fat32_delete_file 2 ram_read ram_write [65, 46, 66] (demo32 5000)) =
     Some (True, 0xE5, 0)"
proof -
  let ?t = "(demo32 5000)\<lparr>sector_buf := copy_to 0 512 (put_entry 0 (demo_file 5000) (\<lambda>_. 0)) (\<lambda>_. 0)\<rparr>"
  have e: "get_entry (sector_buf ?t) 0 = demo_file 5000"
    using get_entry_cong [of 0 "sector_buf ?t" "put_entry 0 (demo_file 5000) (\<lambda>_. 0)"] demo_entry by (simp add: copy_to_def)
  have c: "5000 = entry_cluster (get_entry (sector_buf ?t) 0)" unfolding e by (simp add: entry_cluster_def demo_file_def fresh_entry_def)
  have rd: "ram_read (fat_start_lba ?t + drop_bit 9 (5000 * 4)) 1 (device ?t) = Some (ram_sec (device ?t) 40)"
    by (simp add: ram_read_sec demo32_def)
  have z: "\<not> fat32_data (rd32 (ram_sec (device ?t) 40) (unat (5000 * 4 AND 511 :: u32)) AND 0x0FFFFFFF)"
    by (simp add: ram_sec_def demo32_def rd32_def fat32_data_def word_le_nat_alt)
  have "device (demo32 5000) 33 1 = 0x20"
    by (simp add: demo32_def put_entry_def Let_def wr16_def wr32_def set_name_def copy_to_def demo_file_def fresh_entry_def demo_name)
  moreover have "(5000 :: u32) < FAT32_CLUSTER_BAD" by (simp add: fat32_consts)
  ultimately show ?thesis
    using fat32_delete_beyond_buffer [of 2 ram_read "[65, 46, 66]" "demo32 5000" 33 0 ?t 5000 "ram_sec (device ?t) 40" ram_write, OF demo_locate c _ _ rd z]
    by (simp add: write_sector_def ram_write_def copy_to_def ram_sec_def Let_def) (simp add: demo32_def)
qed

end
