(* ===== verification/Fat32_Load.thy ===== *)
theory Fat32_Load
  imports Fat32_Spec
begin

text \<open>
  Loading a file from a FAT32 volume: the bytes of an intact chain arrive in memory, and whatever the volume holds, \<open>fat32_load_file\<close> stores inside the
  range of the file's size and changes nothing of the volume but the sector buffer.
\<close>

unbundle bit_operations_syntax

section \<open>An intact chain\<close>

text \<open>The bytes of a chain, and that its sectors can be read.\<close>

definition chain_bytes32 :: "(u32 \<Rightarrow> buf) \<Rightarrow> 'd fat32 \<Rightarrow> u32 list \<Rightarrow> u8 list" where
  "chain_bytes32 sec s cs = concat (map (\<lambda>c. sector_bytes sec (unat (bpb_sec_per_clust s)) (fat32_get_cluster_lba c s)) cs)"

definition readable32 :: "'d read_fn \<Rightarrow> (u32 \<Rightarrow> buf) \<Rightarrow> 'd fat32 \<Rightarrow> u32 \<Rightarrow> bool" where
  "readable32 rd sec s c \<longleftrightarrow> (\<forall>q<unat (bpb_sec_per_clust s).
     rd (fat32_get_cluster_lba c s + of_nat q) 1 (device s) = Some (sec (fat32_get_cluster_lba c s + of_nat q)))"

lemma copy_ram_cong: "(\<And>i. i < unat n \<Longrightarrow> f i = g i) \<Longrightarrow> copy_ram dest n f ram = copy_ram dest n g ram"
  by (auto simp: copy_ram_def word_less_nat_alt)

lemma load_cluster32_ok:
  assumes fs: "fs + 512 \<le> 4294967295"
  shows "(\<And>q. q < k \<Longrightarrow> rd (lba + of_nat q) 1 (device s) = Some (sec (lba + of_nat q))) \<Longrightarrow>
    \<exists>s'. load_cluster k rd lba (of_nat fs) addr s (of_nat (min fs (length pre))) (put_img addr fs pre ram) =
      (True, of_nat (min fs (length pre + 512 * k)), put_img addr fs (pre @ sector_bytes sec k lba) ram, s') \<and> buf_only s s'"
proof (induction k arbitrary: lba pre s)
  case 0
  then show ?case by (auto intro: buf_only_refl)
next
  case (Suc k)
  define t where "t = s\<lparr>sector_buf := copy_to 0 512 (sec lba) (sector_buf s)\<rparr>"
  have rd: "read_sector rd lba s = (True, t)" using Suc.prems [of 0] by (simp add: read_sector_def t_def)
  have bt: "buf_only s t" unfolding t_def by (rule buf_onlyI)
  have rd': "rd (lba + 1 + of_nat q) 1 (device t) = Some (sec (lba + 1 + of_nat q))" if "q < k" for q
    using Suc.prems [of "Suc q"] that by (simp add: add.assoc t_def)
  let ?P = "length pre" and ?m = "min fs (length pre)"
  define c where "c = min fs (?P + 512) - ?m"
  have c512: "c \<le> 512" by (auto simp: c_def)
  then have uc: "unat (of_nat c :: u32) = c" by (intro unat_of_nat_u32) simp
  have m: "unat (of_nat ?m :: u32) = ?m" "unat (of_nat fs :: u32) = fs" "unat (of_nat ?m + 512 :: u32) = ?m + 512"
    using fs by (simp_all add: unat_of_nat_u32 unat_word_ariths)
  have c: "(if of_nat ?m + 512 > (of_nat fs :: u32) then of_nat fs - of_nat ?m else 512) = (of_nat c :: u32)"
    using m by (auto simp: word_less_nat_alt c_def min_def)
  have sum: "of_nat ?m + of_nat c = (of_nat (min fs (?P + 512)) :: u32)" unfolding c_def by (simp flip: of_nat_add)
  have "copy_ram (addr + of_nat ?m) (of_nat c) (sector_buf t) (put_img addr fs pre ram) =
      copy_ram (addr + of_nat ?m) (of_nat c) (sec lba) (put_img addr fs pre ram)"
    using c512 uc by (intro copy_ram_cong) (simp add: t_def copy_to_def)
  then have img: "copy_ram (addr + of_nat ?m) (of_nat c) (sector_buf t) (put_img addr fs pre ram) = put_img addr fs (pre @ map (sec lba) [0..<512]) ram"
    unfolding c_def using copy_step [OF refl fs] by metis
  show ?case
  proof (cases "c = 0")
    case True
    then have "fs \<le> ?P" by (auto simp: c_def min_def split: if_splits)
    then have "min fs (?P + 512 * Suc k) = ?m" "put_img addr fs (pre @ sector_bytes sec (Suc k) lba) ram = put_img addr fs pre ram"
      by (auto simp: put_img_def nth_append fun_eq_iff)
    moreover have "load_cluster (Suc k) rd lba (of_nat fs) addr s (of_nat ?m) (put_img addr fs pre ram) =
        (True, of_nat ?m, put_img addr fs pre ram, t)"
      unfolding load_cluster.simps rd prod.case bool.case Let_def c using True by simp
    ultimately show ?thesis using bt by auto
  next
    case False
    then have "(of_nat c :: u32) \<noteq> 0" using uc by auto
    then have "load_cluster (Suc k) rd lba (of_nat fs) addr s (of_nat ?m) (put_img addr fs pre ram) =
        load_cluster k rd (lba + 1) (of_nat fs) addr t (of_nat (min fs (length (pre @ map (sec lba) [0..<512]))))
          (put_img addr fs (pre @ map (sec lba) [0..<512]) ram)"
      unfolding load_cluster.simps rd prod.case bool.case Let_def c sum img by simp
    moreover obtain s' where "load_cluster k rd (lba + 1) (of_nat fs) addr t (of_nat (min fs (length (pre @ map (sec lba) [0..<512]))))
          (put_img addr fs (pre @ map (sec lba) [0..<512]) ram) =
        (True, of_nat (min fs (length (pre @ map (sec lba) [0..<512]) + 512 * k)),
         put_img addr fs ((pre @ map (sec lba) [0..<512]) @ sector_bytes sec k (lba + 1)) ram, s')" "buf_only t s'"
      using Suc.IH [of "lba + 1" t "pre @ map (sec lba) [0..<512]", OF rd'] by blast
    ultimately show ?thesis using buf_only_trans [OF bt] by (auto simp: algebra_simps)
  qed
qed

lemma readable32_cong: "buf_only s t \<Longrightarrow> readable32 rd sec t c = readable32 rd sec s c"
  by (drule buf_only_fields) (simp add: readable32_def fat32_get_cluster_lba_def)

lemma chain_bytes32_cong: "buf_only s t \<Longrightarrow> chain_bytes32 sec t cs = chain_bytes32 sec s cs"
  by (drule buf_only_fields) (simp add: chain_bytes32_def fat32_get_cluster_lba_def)

lemma load_chain32_ok:
  assumes fs: "fs + 512 \<le> 4294967295"
  shows "chain_from (next_cluster rd s) c cs \<Longrightarrow> (\<And>x. x \<in> set cs \<Longrightarrow> readable32 rd sec s x) \<Longrightarrow> length cs < fuel \<Longrightarrow>
    \<exists>s'. load_chain fuel rd c (of_nat fs) addr s (of_nat (min fs (length pre))) (put_img addr fs pre ram) =
      Some (of_nat (min fs (length (pre @ chain_bytes32 sec s cs))), put_img addr fs (pre @ chain_bytes32 sec s cs) ram, s') \<and> buf_only s s'"
proof (induction cs arbitrary: c pre fuel s)
  case Nil
  then obtain f where f: "fuel = Suc f" by (cases fuel) auto
  then show ?case using Nil by (auto simp: fat32_data_def chain_bytes32_def buf_only_refl)
next
  case (Cons x xs)
  then obtain f where f: "fuel = Suc f" by (cases fuel) auto
  have x: "x = c" "2 \<le> c" "c < FAT32_MAX_CLUSTER" using Cons.prems(1) by (auto simp: fat32_data_def)
  have rd: "rd (fat32_get_cluster_lba c s + of_nat q) 1 (device s) = Some (sec (fat32_get_cluster_lba c s + of_nat q))" if "q < unat (bpb_sec_per_clust s)" for q
    using Cons.prems(2) [of x] that x(1) by (auto simp: readable32_def)
  let ?b = "sector_bytes sec (unat (bpb_sec_per_clust s)) (fat32_get_cluster_lba c s)"
  obtain t where t: "load_cluster (unat (bpb_sec_per_clust s)) rd (fat32_get_cluster_lba c s) (of_nat fs) addr s
      (of_nat (min fs (length pre))) (put_img addr fs pre ram) =
      (True, of_nat (min fs (length (pre @ ?b))), put_img addr fs (pre @ ?b) ram, t)" "buf_only s t"
    using load_cluster32_ok [OF fs, where k = "unat (bpb_sec_per_clust s)" and lba = "fat32_get_cluster_lba c s" and s = s and rd = rd and sec = sec
      and addr = addr and pre = pre and ram = ram] rd by auto
  define u where "u = snd (fat32_get_next_cluster rd c t)"
  have bu: "buf_only s u" unfolding u_def by (rule buf_only_trans [OF t(2) get_next_frame])
  have nx: "fat32_get_next_cluster rd c t = (next_cluster rd s c, u)"
    using next_cluster_cong [OF t(2)] by (simp add: next_cluster_def prod_eq_iff u_def)
  have step: "load_chain fuel rd c (of_nat fs) addr s (of_nat (min fs (length pre))) (put_img addr fs pre ram) =
      load_chain f rd (next_cluster rd s c) (of_nat fs) addr u (of_nat (min fs (length (pre @ ?b)))) (put_img addr fs (pre @ ?b) ram)"
    using x f t(1) nx by simp
  have ch: "chain_from (next_cluster rd u) (next_cluster rd s c) xs"
    using Cons.prems(1) next_cluster_cong [OF bu] by (metis chain_from.simps(2) ext)
  have rs: "\<And>y. y \<in> set xs \<Longrightarrow> readable32 rd sec u y" using Cons.prems(2) readable32_cong [OF bu] by simp
  have "length xs < f" using Cons.prems(3) f by simp
  from Cons.IH [OF ch rs this, of "pre @ ?b"] obtain s' where
    "load_chain f rd (next_cluster rd s c) (of_nat fs) addr u (of_nat (min fs (length (pre @ ?b)))) (put_img addr fs (pre @ ?b) ram) =
      Some (of_nat (min fs (length ((pre @ ?b) @ chain_bytes32 sec u xs))), put_img addr fs ((pre @ ?b) @ chain_bytes32 sec u xs) ram, s')"
    "buf_only u s'" by blast
  moreover have "(pre @ ?b) @ chain_bytes32 sec u xs = pre @ chain_bytes32 sec s (x # xs)"
    using chain_bytes32_cong [OF bu] x(1) by (simp add: chain_bytes32_def)
  ultimately show ?case unfolding step using buf_only_trans [OF bu] by (simp only:) blast
qed

text \<open>A file whose chain is complete and readable loads with its bytes.\<close>

lemma fat32_load_ok:
  assumes "chain_from (next_cluster rd s) (entry_cluster e) cs" "cs \<noteq> []" "entry_cluster e < FAT32_CLUSTER_BAD"
    and "\<And>x. x \<in> set cs \<Longrightarrow> readable32 rd sec s x" "length cs < fuel"
    and "unat (de_file_size e) + 512 \<le> 4294967295" "unat (de_file_size e) \<le> length (chain_bytes32 sec s cs)"
  shows "\<exists>s'. fat32_load_file fuel rd e addr s ram =
    Some (de_file_size e, put_img addr (unat (de_file_size e)) (chain_bytes32 sec s cs) ram, s') \<and> buf_only s s'"
proof -
  have "2 \<le> entry_cluster e" using assms(1,2) by (cases cs) (auto simp: fat32_data_def)
  moreover have "put_img addr (unat (de_file_size e)) [] ram = ram" by (simp add: put_img_def)
  ultimately show ?thesis
    using load_chain32_ok [OF assms(6,1,4,5), where pre = "[]" and addr = addr and ram = ram] assms(3,7)
    by (auto simp: fat32_load_file_def Let_def not_less not_le min_absorb1)
qed

section \<open>Any volume\<close>

text \<open>Memory outside of \<open>n\<close> bytes at \<open>p\<close> is the same.\<close>

definition same_outside :: "u32 \<Rightarrow> nat \<Rightarrow> (u32 \<Rightarrow> u8) \<Rightarrow> (u32 \<Rightarrow> u8) \<Rightarrow> bool" where
  "same_outside p n m m' \<longleftrightarrow> (\<forall>a. n \<le> unat (a - p) \<longrightarrow> m' a = m a)"

lemma same_outside_refl [simp]: "same_outside p n m m" by (simp add: same_outside_def)

lemma same_outside_trans: "same_outside p n m m' \<Longrightarrow> same_outside p n m' m'' \<Longrightarrow> same_outside p n m m''"
  by (simp add: same_outside_def)

lemma copy_ram_outside:
  assumes "unat x + unat k \<le> n" "n < 4294967296"
  shows "same_outside p n m (copy_ram (p + x) k f m)"
  unfolding same_outside_def copy_ram_def
proof (intro allI impI)
  fix a assume a: "n \<le> unat (a - p)"
  have "unat (a - (p + x)) = unat (a - p) - unat x"
  proof -
    have "x \<le> a - p" using a assms(1) by (simp add: word_le_nat_alt)
    then show ?thesis by (simp add: unat_sub diff_diff_eq [symmetric] del: diff_diff_eq)
  qed
  then have "\<not> a - (p + x) < k" using a assms(1) unfolding word_less_nat_alt by linarith
  then show "(if a - (p + x) < k then f (unat (a - (p + x))) else m a) = m a" by simp
qed

lemma load_cluster_outside:
  "load_cluster k rd lba fs p s n m = (ok, n', m', s') \<Longrightarrow> n \<le> fs \<Longrightarrow> unat fs + 512 < 4294967296 \<Longrightarrow>
    same_outside p (unat fs) m m' \<and> n' \<le> fs \<and> buf_only s s'"
proof (induction k arbitrary: lba s n m)
  case 0
  then show ?case by (simp add: buf_only_refl)
next
  case (Suc k)
  obtain good t where r: "read_sector rd lba s = (good, t)" by fastforce
  have bt: "buf_only s t" using read_sector_frame [of s rd lba] r by simp
  define c where "c = (if n + 512 > fs then fs - n else 512 :: u32)"
  have n: "unat n \<le> unat fs" using Suc.prems(2) by (simp add: word_le_nat_alt)
  have n5: "unat (n + 512) = unat n + 512" using n Suc.prems(3) by (simp add: unat_word_ariths)
  have c: "unat n + unat c \<le> unat fs"
    using n n5 Suc.prems(2) by (auto simp: c_def word_less_nat_alt unat_sub)
  then have le: "n + c \<le> fs" using Suc.prems(3) by (simp add: word_le_nat_alt unat_word_ariths)
  show ?case
  proof (cases "good \<and> c \<noteq> 0")
    case True
    then have "load_cluster k rd (lba + 1) fs p t (n + c) (copy_ram (p + n) c (sector_buf t) m) = (ok, n', m', s')"
      using Suc.prems(1) r c_def by (simp add: Let_def)
    from Suc.IH [OF this le Suc.prems(3)] show ?thesis
      using copy_ram_outside [OF c, of p m "sector_buf t"] buf_only_trans [OF bt] same_outside_trans by auto
  next
    case False
    then show ?thesis using Suc.prems r bt by (auto simp: Let_def simp flip: c_def split: bool.splits)
  qed
qed

lemma load_chain_outside:
  "load_chain fuel rd c fs p s n m = Some (n', m', s') \<Longrightarrow> n \<le> fs \<Longrightarrow> unat fs + 512 < 4294967296 \<Longrightarrow>
    same_outside p (unat fs) m m' \<and> n' \<le> fs \<and> buf_only s s'"
proof (induction fuel arbitrary: c s n m)
  case (Suc fuel)
  obtain ok n1 m1 t where l: "load_cluster (unat (bpb_sec_per_clust s)) rd (fat32_get_cluster_lba c s) fs p s n m = (ok, n1, m1, t)"
    by (metis prod.exhaust)
  note o = load_cluster_outside [OF l Suc.prems(2,3)]
  obtain c2 u where g: "fat32_get_next_cluster rd c t = (c2, u)" by fastforce
  have bu: "buf_only t u" using get_next_frame [of t rd c] g by simp
  consider (stop) "\<not> (2 \<le> c \<and> c < FAT32_MAX_CLUSTER)" | (fail) "2 \<le> c \<and> c < FAT32_MAX_CLUSTER" "\<not> ok"
    | (go) "2 \<le> c \<and> c < FAT32_MAX_CLUSTER" ok by blast
  then show ?case
  proof cases
    case stop
    then show ?thesis using Suc.prems by (auto simp: buf_only_refl)
  next
    case fail
    then show ?thesis using Suc.prems(1) l o by auto
  next
    case go
    then have "load_chain fuel rd c2 fs p u n1 m1 = Some (n', m', s')" using Suc.prems(1) l g by simp
    from Suc.IH [OF this] o Suc.prems(3) bu show ?thesis by (meson buf_only_trans same_outside_trans)
  qed
qed simp

lemma fat32_load_outside:
  assumes "fat32_load_file fuel rd e p s m = Some (n, m', s')" "unat (de_file_size e) + 512 < 4294967296"
  shows "same_outside p (unat (de_file_size e)) m m' \<and> n \<le> de_file_size e \<and> buf_only s s'"
  using assms load_chain_outside [of fuel rd _ "de_file_size e" p s 0 m n m' s']
  by (auto simp: fat32_load_file_def Let_def buf_only_refl split: if_splits)

text \<open>A search changes the sector buffer and, when it finds the file, the copy of the entry.\<close>

definition search_only :: "'d fat32 \<Rightarrow> 'd fat32 \<Rightarrow> bool" where
  "search_only s s' \<longleftrightarrow> (\<exists>b e. s' = s\<lparr>sector_buf := b, found_entry := e\<rparr>)"

lemma search_onlyI: "search_only s (s\<lparr>sector_buf := b, found_entry := e\<rparr>)" unfolding search_only_def by blast

lemma buf_only_search: "buf_only s t \<Longrightarrow> search_only s t"
  using search_onlyI [where s = s and e = "found_entry s"] by (auto simp: buf_only_def)

lemma search_only_refl: "search_only s s"
  by (rule buf_only_search [OF buf_only_refl])

lemma search_only_trans: "search_only s t \<Longrightarrow> search_only t u \<Longrightarrow> search_only s u"
  by (auto simp: search_only_def [of s t] search_only_def [of t u] intro: search_onlyI)

lemma locate_frame: "locate fuel rd name83 s = Some (p, t) \<Longrightarrow> buf_only s t"
  unfolding locate_def walk_root_def by (auto dest!: walk_chain_frame [rotated] simp: buf_only_refl split: hit.splits)

lemma found_entry_search: "buf_only s t \<Longrightarrow> search_only s (t\<lparr>found_entry := e\<rparr>)"
  using search_onlyI [where s = s and e = e] by (auto simp: buf_only_def)

lemma find_file_frame: "fat32_find_file fuel rd name s = Some (e, s') \<Longrightarrow> search_only s s'"
  unfolding fat32_find_file_def
  by (clarsimp split: place.splits) (metis locate_frame buf_only_search found_entry_search place.exhaust)

end
