(* ===== verification/Fdc.thy ===== *)
theory Fdc
  imports Fat12_Total
begin

text \<open>
  The floppy driver \<^verbatim>\<open>src/kernel/drivers/fdc.c\<close>: the motors, and the translation of sector numbers to cylinder, head and sector, together with the floppy
  functions of \<^verbatim>\<open>src/kernel/fs/fs.c\<close> that the FAT12 file system calls.  The controller itself is a parameter: \<open>xfer_read\<close> and \<open>xfer_write\<close>
  are the outcome of seek, DMA transfer and READ DATA or WRITE DATA command for a drive, head, cylinder, first sector and number of sectors.  Delays and messages are left out.
\<close>

unbundle bit_operations_syntax

section \<open>State\<close>

definition DOR_DRIVE0 :: u8 where "DOR_DRIVE0 = 0x00"
definition DOR_DRIVE1 :: u8 where "DOR_DRIVE1 = 0x01"
definition DOR_RESET :: u8 where "DOR_RESET = 0x04"
definition DOR_DMA_GATE :: u8 where "DOR_DMA_GATE = 0x08"
definition DOR_MOTOR0 :: u8 where "DOR_MOTOR0 = 0x10"
definition DOR_MOTOR1 :: u8 where "DOR_MOTOR1 = 0x20"
definition DIR_WRITE_PROTECT :: u8 where "DIR_WRITE_PROTECT = 0x40"
definition MOTOR_OFF_DELAY_MS :: u32 where "MOTOR_OFF_DELAY_MS = 2000"
definition FDC_CYLINDERS :: u8 where "FDC_CYLINDERS = 80"
definition FDC_HEADS :: u8 where "FDC_HEADS = 2"
definition FDC_SPT :: u8 where "FDC_SPT = 18"

lemmas dor_consts = DOR_DRIVE0_def DOR_DRIVE1_def DOR_RESET_def DOR_DMA_GATE_def DOR_MOTOR0_def DOR_MOTOR1_def

datatype fdc_motor_state = MOTOR_OFF | MOTOR_STARTING | MOTOR_ON | MOTOR_STOPPING
datatype fdc_media_type = FDC_MEDIA_1440K | FDC_MEDIA_1200K | FDC_MEDIA_720K

record fdc_geometry =
  cylinders :: u8
  heads :: u8
  spt :: u8
  sector_size :: u16
  total_sectors :: u32
  media_type :: fdc_media_type

text \<open>\<open>dor\<close> is the last byte written to the digital output register, \<open>media\<close> the disks in the drives.\<close>

record 'd fdc =
  motor_state :: "fdc_motor_state list"
  motor_off_timer :: "u32 list"
  fdc_current_drive :: u8
  dor :: u8
  drive_geom :: "fdc_geometry list"
  media :: 'd

section \<open>Motors\<close>

definition fdc_motor_on :: "u8 \<Rightarrow> 'd fdc \<Rightarrow> 'd fdc" where
  "fdc_motor_on drive s =
     (if drive > 1 then s
      else let i = unat drive in
      if motor_state s ! i = MOTOR_ON then s\<lparr>motor_off_timer := (motor_off_timer s)[i := MOTOR_OFF_DELAY_MS]\<rparr>
      else let v = DOR_RESET OR DOR_DMA_GATE;
               v = v OR (if drive = 0 then DOR_MOTOR0 OR DOR_DRIVE0 else DOR_MOTOR1 OR DOR_DRIVE1);
               s = s\<lparr>dor := v, fdc_current_drive := drive, motor_state := (motor_state s)[i := MOTOR_STARTING]\<rparr>
           in s\<lparr>motor_state := (motor_state s)[i := MOTOR_ON], motor_off_timer := (motor_off_timer s)[i := MOTOR_OFF_DELAY_MS]\<rparr>)"

definition fdc_motor_off :: "u8 \<Rightarrow> 'd fdc \<Rightarrow> 'd fdc" where
  "fdc_motor_off drive s =
     (if drive > 1 then s
      else let i = unat drive;
               v = DOR_RESET OR DOR_DMA_GATE;
               v = (if drive = 0 then v OR DOR_DRIVE0 else v OR DOR_DRIVE1)
           in s\<lparr>dor := v, motor_state := (motor_state s)[i := MOTOR_OFF], motor_off_timer := (motor_off_timer s)[i := 0]\<rparr>)"

definition tick_drive :: "u8 \<Rightarrow> 'd fdc \<Rightarrow> 'd fdc" where
  "tick_drive drive s =
     (let i = unat drive in
      if motor_state s ! i = MOTOR_ON \<and> motor_off_timer s ! i > 0
      then let s = s\<lparr>motor_off_timer := (motor_off_timer s)[i := motor_off_timer s ! i - 1]\<rparr>
           in if motor_off_timer s ! i = 0 then fdc_motor_off drive s else s
      else s)"

definition fdc_motor_tick :: "'d fdc \<Rightarrow> 'd fdc" where
  "fdc_motor_tick s = fold tick_drive [0, 1] s"

section \<open>Initialisation\<close>

text \<open>Whether the controller answers the reset with an interrupt, and whether the recalibration succeeds, is up to the hardware.\<close>

definition fdc_reset :: "bool \<Rightarrow> 'd fdc \<Rightarrow> bool \<times> 'd fdc" where
  "fdc_reset irq s = (let s = s\<lparr>dor := 0\<rparr>; s = s\<lparr>dor := DOR_RESET OR DOR_DMA_GATE\<rparr> in (irq, s))"

definition default_geometry :: fdc_geometry where
  "default_geometry = \<lparr>cylinders = FDC_CYLINDERS, heads = FDC_HEADS, spt = FDC_SPT, sector_size = 512,
     total_sectors = 80 * 2 * 18, media_type = FDC_MEDIA_1440K\<rparr>"

definition fdc_init :: "bool \<Rightarrow> bool \<Rightarrow> 'd fdc \<Rightarrow> bool \<times> 'd fdc" where
  "fdc_init irq recalibrated s =
     (let s = s\<lparr>motor_state := [MOTOR_OFF, MOTOR_OFF], motor_off_timer := [0, 0], drive_geom := [default_geometry, default_geometry]\<rparr>
      in case fdc_reset irq s of
           (False, s) \<Rightarrow> (False, s)
         | (True, s) \<Rightarrow> let s = fdc_motor_on 0 s in (recalibrated, fdc_motor_off 0 s))"

section \<open>Sector access\<close>

type_synonym 'd xfer_read = "u8 \<Rightarrow> u8 \<Rightarrow> u8 \<Rightarrow> u8 \<Rightarrow> nat \<Rightarrow> 'd \<Rightarrow> buf option"
type_synonym 'd xfer_write = "u8 \<Rightarrow> u8 \<Rightarrow> u8 \<Rightarrow> u8 \<Rightarrow> nat \<Rightarrow> buf \<Rightarrow> 'd \<Rightarrow> bool \<times> 'd"

definition valid_chs :: "u8 \<Rightarrow> u8 \<Rightarrow> u8 \<Rightarrow> u8 \<Rightarrow> u8 \<Rightarrow> 'd fdc \<Rightarrow> bool" where
  "valid_chs drive head cylinder sector count s \<longleftrightarrow>
     \<not> (drive > 1 \<or> head > 1 \<or> cylinder \<ge> FDC_CYLINDERS \<or> sector < 1 \<or> sector > spt (drive_geom s ! unat drive) \<or> count = 0)"

definition keep_motor :: "u8 \<Rightarrow> 'd fdc \<Rightarrow> 'd fdc" where
  "keep_motor drive s = s\<lparr>motor_off_timer := (motor_off_timer s)[unat drive := MOTOR_OFF_DELAY_MS]\<rparr>"

definition fdc_read_sectors :: "'d xfer_read \<Rightarrow> u8 \<Rightarrow> u8 \<Rightarrow> u8 \<Rightarrow> u8 \<Rightarrow> u8 \<Rightarrow> 'd fdc \<Rightarrow> buf option \<times> 'd fdc" where
  "fdc_read_sectors xfer_read drive head cylinder sector count s =
     (if \<not> valid_chs drive head cylinder sector count s then (None, s)
      else let count = (if count > 16 then 16 else count);
               s = fdc_motor_on drive s
           in case xfer_read drive head cylinder sector (unat count) (media s) of
                None \<Rightarrow> (None, fdc_motor_off drive s)
              | Some b \<Rightarrow> (Some b, keep_motor drive s))"

text \<open>\<open>dir\<close> reads the digital input register.\<close>

definition fdc_write_protected :: "('d \<Rightarrow> u8) \<Rightarrow> 'd fdc \<Rightarrow> bool" where
  "fdc_write_protected dir s \<longleftrightarrow> dir (media s) AND DIR_WRITE_PROTECT \<noteq> 0"

definition fdc_write_sectors ::
  "('d \<Rightarrow> u8) \<Rightarrow> 'd xfer_write \<Rightarrow> u8 \<Rightarrow> u8 \<Rightarrow> u8 \<Rightarrow> u8 \<Rightarrow> u8 \<Rightarrow> buf \<Rightarrow> 'd fdc \<Rightarrow> bool \<times> 'd fdc" where
  "fdc_write_sectors dir xfer_write drive head cylinder sector count buf s =
     (if \<not> valid_chs drive head cylinder sector count s then (False, s)
      else let count = (if count > 16 then 16 else count) in
      if fdc_write_protected dir s then (False, s)
      else let s = fdc_motor_on drive s
           in case xfer_write drive head cylinder sector (unat count) buf (media s) of
                (False, d) \<Rightarrow> (False, fdc_motor_off drive (s\<lparr>media := d\<rparr>))
              | (True, d) \<Rightarrow> (True, keep_motor drive (s\<lparr>media := d\<rparr>)))"

definition fdc_get_geometry :: "u8 \<Rightarrow> 'd fdc \<Rightarrow> (u8 \<times> u8) option" where
  "fdc_get_geometry drive s = (if drive > 1 then None else Some (heads (drive_geom s ! unat drive), spt (drive_geom s ! unat drive)))"

text \<open>
  The loops over the sectors of a request.  A buffer argument is the function of its bytes; the read sectors are
  joined in the order of the loop.  \<open>None\<close> in front stands for the processor exception of a division by zero.
\<close>

fun read_lba_loop :: "'d xfer_read \<Rightarrow> u8 \<Rightarrow> u8 \<Rightarrow> u8 \<Rightarrow> nat \<Rightarrow> u32 \<Rightarrow> 'd fdc \<Rightarrow> buf option \<times> 'd fdc" where
  "read_lba_loop xfer_read drive nh ns 0 lba s = (Some (\<lambda>_. 0), s)"
| "read_lba_loop xfer_read drive nh ns (Suc k) lba s =
     (let cylinder = ucast (lba div (ucast nh * ucast ns)) :: u8;
          head = ucast ((lba div ucast ns) mod ucast nh) :: u8;
          sector = ucast (lba mod ucast ns + 1) :: u8
      in case fdc_read_sectors xfer_read drive head cylinder sector 1 s of
           (None, s) \<Rightarrow> (None, s)
         | (Some b, s) \<Rightarrow> (case read_lba_loop xfer_read drive nh ns k (lba + 1) s of
               (None, s) \<Rightarrow> (None, s)
             | (Some r, s) \<Rightarrow> (Some (\<lambda>i. if i < 512 then b i else r (i - 512)), s)))"

definition fdc_read_lba :: "'d xfer_read \<Rightarrow> u8 \<Rightarrow> u32 \<Rightarrow> u8 \<Rightarrow> 'd fdc \<Rightarrow> (buf option \<times> 'd fdc) option" where
  "fdc_read_lba xfer_read drive lba count s =
     (let nh = heads (drive_geom s ! unat drive); ns = spt (drive_geom s ! unat drive) in
      if count \<noteq> 0 \<and> (nh = 0 \<or> ns = 0) then None
      else Some (read_lba_loop xfer_read drive nh ns (unat count) lba s))"

fun write_lba_loop :: "('d \<Rightarrow> u8) \<Rightarrow> 'd xfer_write \<Rightarrow> u8 \<Rightarrow> u8 \<Rightarrow> u8 \<Rightarrow> nat \<Rightarrow> u32 \<Rightarrow> buf \<Rightarrow> 'd fdc \<Rightarrow> bool \<times> 'd fdc" where
  "write_lba_loop dir xfer_write drive nh ns 0 lba data s = (True, s)"
| "write_lba_loop dir xfer_write drive nh ns (Suc k) lba data s =
     (let temp = lba div ucast ns;
          head = ucast (temp mod ucast nh) :: u8;
          cylinder = ucast (temp div ucast nh) :: u8;
          sector = ucast (lba mod ucast ns + 1) :: u8
      in case fdc_write_sectors dir xfer_write drive head cylinder sector 1 data s of
           (False, s) \<Rightarrow> (False, s)
         | (True, s) \<Rightarrow> write_lba_loop dir xfer_write drive nh ns k (lba + 1) (\<lambda>i. data (512 + i)) s)"

definition floppy_write_sectors ::
  "('d \<Rightarrow> u8) \<Rightarrow> 'd xfer_write \<Rightarrow> u8 \<Rightarrow> u32 \<Rightarrow> u8 \<Rightarrow> buf \<Rightarrow> 'd fdc \<Rightarrow> (bool \<times> 'd fdc) option" where
  "floppy_write_sectors dir xfer_write fdc_drive lba count buf s = (case fdc_get_geometry fdc_drive s of
     None \<Rightarrow> Some (False, s)
   | Some (nh, ns) \<Rightarrow>
       if count \<noteq> 0 \<and> (nh = 0 \<or> ns = 0) then None
       else Some (write_lba_loop dir xfer_write fdc_drive nh ns (unat count) lba buf s))"

text \<open>The functions handed to the file system.  A read changes nothing but motor bookkeeping, which the file system does not see.\<close>

definition floppy_read_sectors :: "'d xfer_read \<Rightarrow> u8 \<Rightarrow> 'd fdc read_fn" where
  "floppy_read_sectors xfer_read fdc_drive lba count s = (case fdc_read_lba xfer_read fdc_drive lba count s of None \<Rightarrow> None | Some (b, s) \<Rightarrow> b)"

definition floppy_read_a :: "'d xfer_read \<Rightarrow> 'd fdc read_fn" where
  "floppy_read_a xfer_read = floppy_read_sectors xfer_read 0"

definition floppy_read_b :: "'d xfer_read \<Rightarrow> 'd fdc read_fn" where
  "floppy_read_b xfer_read = floppy_read_sectors xfer_read 1"

definition floppy_write_a :: "('d \<Rightarrow> u8) \<Rightarrow> 'd xfer_write \<Rightarrow> 'd fdc write_fn" where
  "floppy_write_a dir xfer_write lba count buf s = (case floppy_write_sectors dir xfer_write 0 lba count buf s of None \<Rightarrow> (False, s) | Some r \<Rightarrow> r)"

definition floppy_write_b :: "('d \<Rightarrow> u8) \<Rightarrow> 'd xfer_write \<Rightarrow> 'd fdc write_fn" where
  "floppy_write_b dir xfer_write lba count buf s = (case floppy_write_sectors dir xfer_write 1 lba count buf s of None \<Rightarrow> (False, s) | Some r \<Rightarrow> r)"

section \<open>Cylinder, head and sector\<close>

definition cyl_of :: "u32 \<Rightarrow> u8" where "cyl_of l = of_nat (unat l div 36)"
definition head_of :: "u32 \<Rightarrow> u8" where "head_of l = of_nat (unat l div 18 mod 2)"
definition sect_of :: "u32 \<Rightarrow> u8" where "sect_of l = of_nat (unat l mod 18 + 1)"

lemma chs_eqs:
  "ucast (l div (ucast FDC_HEADS * ucast FDC_SPT) :: u32) = (of_nat (unat l div 36) :: u8)"
  "ucast (l div ucast FDC_SPT mod ucast FDC_HEADS :: u32) = head_of l"
  "ucast (l mod ucast FDC_SPT + 1 :: u32) = sect_of l"
  "ucast (l div ucast FDC_SPT div ucast FDC_HEADS :: u32) = (of_nat (unat l div 36) :: u8)"
proof -
  have u: "unat (l mod 18 + 1) = unat l mod 18 + 1"
    by (subst unat_add_lem [THEN iffD1]) (simp_all add: unat_mod order_less_trans [OF mod_less_divisor])
  have n: "ucast x = (of_nat k :: u8)" if "unat x = k" for x :: u32 and k
    using that by (simp flip: that)
  show "ucast (l div (ucast FDC_HEADS * ucast FDC_SPT) :: u32) = (of_nat (unat l div 36) :: u8)"
    by (rule n) (simp add: FDC_HEADS_def FDC_SPT_def unat_div)
  show "ucast (l div ucast FDC_SPT mod ucast FDC_HEADS :: u32) = head_of l"
    unfolding head_of_def by (rule n) (simp add: FDC_HEADS_def FDC_SPT_def unat_div unat_mod)
  show "ucast (l mod ucast FDC_SPT + 1 :: u32) = sect_of l"
    unfolding sect_of_def by (rule n) (simp add: FDC_SPT_def u)
  show "ucast (l div ucast FDC_SPT div ucast FDC_HEADS :: u32) = (of_nat (unat l div 36) :: u8)"
    by (rule n) (simp add: FDC_HEADS_def FDC_SPT_def unat_div div_mult2_eq [symmetric])
qed

lemma chs_bounds:
  assumes "unat l < 2880"
  shows "unat (cyl_of l) = unat l div 36" "unat (cyl_of l) < 80" "unat (head_of l) = unat l div 18 mod 2" "unat (sect_of l) = unat l mod 18 + 1"
proof -
  have b: "unat l div 36 < 80" "unat l div 18 mod 2 < 256" "unat l mod 18 + 1 < 256"
    using assms mod_less_divisor [of 18 "unat l"] mod_less_divisor [of 2 "unat l div 18"] by linarith+
  show "unat (cyl_of l) = unat l div 36" "unat (cyl_of l) < 80" "unat (head_of l) = unat l div 18 mod 2" "unat (sect_of l) = unat l mod 18 + 1"
    unfolding cyl_of_def head_of_def sect_of_def using b unat_of_nat_u8 [OF b(2)] unat_of_nat_u8 [OF b(3)] unat_of_nat_u8 [of "unat l div 36"] by linarith+
qed

lemma chs_inj:
  assumes "unat l < 2880" "unat m < 2880" "cyl_of l = cyl_of m" "head_of l = head_of m" "sect_of l = sect_of m"
  shows "l = m"
proof -
  have e: "unat l div 36 = unat m div 36" "unat l div 18 mod 2 = unat m div 18 mod 2" "unat l mod 18 = unat m mod 18"
    using assms(3-5) chs_bounds(1,3,4) [OF assms(1)] chs_bounds(1,3,4) [OF assms(2)] by (metis, metis, metis add_right_imp_eq)
  have d: "x div 18 = 2 * (x div 36) + x div 18 mod 2" for x :: nat using div_mult2_eq [of x 18 2] mult_div_mod_eq [of 2 "x div 18"] by simp
  have "unat l div 18 = 2 * (unat l div 36) + unat l div 18 mod 2" by (rule d)
  also have "\<dots> = 2 * (unat m div 36) + unat m div 18 mod 2" by (simp only: e)
  also have "\<dots> = unat m div 18" by (rule d [symmetric])
  finally have q: "unat l div 18 = unat m div 18" .
  have "unat l = 18 * (unat l div 18) + unat l mod 18" by (rule mult_div_mod_eq [symmetric])
  also have "\<dots> = 18 * (unat m div 18) + unat m mod 18" by (simp only: e q)
  also have "\<dots> = unat m" by (rule mult_div_mod_eq)
  finally have "unat l = unat m" .
  then show ?thesis by (simp add: word_unat_eq_iff)
qed

section \<open>The floppy as a disk\<close>

text \<open>
  What the controller does for one sector: \<open>content d drive c h r\<close> is the sector \<open>r\<close> on cylinder \<open>c\<close> and side \<open>h\<close> of the disk in a drive.  Reads in the
  range of a 1.44 MB disk succeed; a successful write changes that sector only.
\<close>

definition controller_ok :: "'d xfer_read \<Rightarrow> 'd xfer_write \<Rightarrow> ('d \<Rightarrow> u8 \<Rightarrow> u8 \<Rightarrow> u8 \<Rightarrow> u8 \<Rightarrow> buf) \<Rightarrow> bool" where
  "controller_ok xr xw content \<longleftrightarrow>
     (\<forall>v h c r d. v \<le> 1 \<longrightarrow> h \<le> 1 \<longrightarrow> c < 80 \<longrightarrow> 1 \<le> r \<longrightarrow> r \<le> 18 \<longrightarrow>
        (\<exists>b. xr v h c r 1 d = Some b \<and> (\<forall>i<512. b i = content d v c h r i))) \<and>
     (\<forall>v h c r b d d'. xw v h c r 1 b d = (True, d') \<longrightarrow>
        (\<forall>v' h' c' r'. \<forall>i<512. content d' v' c' h' r' i = (if v' = v \<and> c' = c \<and> h' = h \<and> r' = r then b i else content d v' c' h' r' i)))"

definition geometry_ok :: "'d fdc \<Rightarrow> bool" where
  "geometry_ok s \<longleftrightarrow> drive_geom s = [default_geometry, default_geometry]"

definition floppy_sec :: "('d \<Rightarrow> u8 \<Rightarrow> u8 \<Rightarrow> u8 \<Rightarrow> u8 \<Rightarrow> buf) \<Rightarrow> u8 \<Rightarrow> 'd fdc \<Rightarrow> u32 \<Rightarrow> buf" where
  "floppy_sec content v s l = content (media s) v (cyl_of l) (head_of l) (sect_of l)"

lemma motor_frame [simp]:
  "drive_geom (fdc_motor_on v s) = drive_geom s" "media (fdc_motor_on v s) = media s"
  "drive_geom (fdc_motor_off v s) = drive_geom s" "media (fdc_motor_off v s) = media s"
  "drive_geom (keep_motor v s) = drive_geom s" "media (keep_motor v s) = media s"
  by (simp_all add: fdc_motor_on_def fdc_motor_off_def keep_motor_def Let_def)

lemma geometry_nth: "geometry_ok s \<Longrightarrow> v \<le> 1 \<Longrightarrow> drive_geom s ! unat v = default_geometry"
  by (cases "unat v") (auto simp: geometry_ok_def word_le_nat_alt)

lemma valid_chs_lba:
  assumes "geometry_ok s" "v \<le> 1" "unat l < 2880"
  shows "valid_chs v (head_of l) (cyl_of l) (sect_of l) 1 s"
    "head_of l \<le> 1" "cyl_of l < 80" "1 \<le> sect_of l" "sect_of l \<le> 18"
proof -
  note b = chs_bounds [OF assms(3)]
  have h2: "unat (head_of l) < 2" unfolding b(3) by (rule mod_less_divisor) simp
  obtain r where r: "unat (sect_of l) = r + 1" "r < 18"
    using b(4) by (rule that) (rule mod_less_divisor, simp)
  show h: "head_of l \<le> 1" "cyl_of l < 80" "1 \<le> sect_of l" "sect_of l \<le> 18"
    using h2 b(2) r by (simp_all add: word_le_nat_alt word_less_nat_alt)
  show "valid_chs v (head_of l) (cyl_of l) (sect_of l) 1 s"
    using h assms(2) geometry_nth [OF assms(1,2)] by (auto simp: valid_chs_def FDC_CYLINDERS_def default_geometry_def FDC_SPT_def)
qed

lemma cyl_lba: "unat l < 2880 \<Longrightarrow> (of_nat (unat l div 36) :: u8) = cyl_of l"
  by (simp add: cyl_of_def)

lemma read_one:
  assumes "controller_ok xr xw content" "geometry_ok s" "v \<le> 1" "unat l < 2880"
  shows "\<exists>b. floppy_read_sectors xr v l 1 s = Some b \<and> (\<forall>i<512. b i = floppy_sec content v s l i)"
proof -
  note c = valid_chs_lba [OF assms(2-4)]
  obtain b where b: "xr v (head_of l) (cyl_of l) (sect_of l) 1 (media s) = Some b"
    "\<forall>i<512. b i = content (media s) v (cyl_of l) (head_of l) (sect_of l) i"
    using conjunct1 [OF assms(1) [unfolded controller_ok_def], rule_format, OF assms(3) c(2-5)] by blast
  have g: "drive_geom s ! unat v = default_geometry" by (rule geometry_nth [OF assms(2,3)])
  have r: "fdc_read_sectors xr v (head_of l) (cyl_of l) (sect_of l) 1 s = (Some b, keep_motor v (fdc_motor_on v s))"
    using c(1) b(1) by (simp add: fdc_read_sectors_def)
  have "fdc_read_lba xr v l 1 s = Some (read_lba_loop xr v FDC_HEADS FDC_SPT (Suc 0) l s)"
    using g by (simp add: fdc_read_lba_def Let_def default_geometry_def) (simp add: FDC_HEADS_def FDC_SPT_def)
  then have "floppy_read_sectors xr v l 1 s = Some (\<lambda>i. if i < 512 then b i else 0)"
    unfolding floppy_read_sectors_def read_lba_loop.simps chs_eqs cyl_of_def [symmetric] Let_def r by simp
  then show ?thesis using b(2) by (simp add: floppy_sec_def)
qed

lemma write_loop:
  assumes "controller_ok xr xw content" "v \<le> 1"
  shows "write_lba_loop dir xw v FDC_HEADS FDC_SPT k l data s = (True, t) \<Longrightarrow> geometry_ok s \<Longrightarrow> unat l + k \<le> 2880 \<Longrightarrow>
    geometry_ok t \<and> (\<forall>m. unat m < 2880 \<longrightarrow> (\<forall>i<512. floppy_sec content v t m i =
      (if unat (m - l) < k then data (512 * unat (m - l) + i) else floppy_sec content v s m i)))"
proof (induction k arbitrary: l data s)
  case (Suc k)
  have l: "unat l < 2880" using Suc.prems(3) by simp
  have l1: "unat (l + 1) = unat l + 1" using l by (subst unat_add_lem [THEN iffD1]) simp_all
  note c = valid_chs_lba [OF Suc.prems(2) assms(2) l]
  obtain o1 s1 where w: "fdc_write_sectors dir xw v (head_of l) (cyl_of l) (sect_of l) 1 data s = (o1, s1)" by fastforce
  have step: "o1" "write_lba_loop dir xw v FDC_HEADS FDC_SPT k (l + 1) (\<lambda>i. data (512 + i)) s1 = (True, t)"
    using Suc.prems(1) w unfolding write_lba_loop.simps Let_def chs_eqs cyl_of_def [symmetric] by (auto split: bool.splits)
  obtain d where d: "xw v (head_of l) (cyl_of l) (sect_of l) 1 data (media s) = (True, d)" "media s1 = d" "drive_geom s1 = drive_geom s"
    using w step(1) c(1) by (auto simp: fdc_write_sectors_def Let_def split: if_splits prod.splits bool.splits)
  have g: "geometry_ok s1" using d(3) Suc.prems(2) by (simp add: geometry_ok_def)
  have here: "floppy_sec content v s1 m i = (if m = l then data i else floppy_sec content v s m i)" if "unat m < 2880" "i < 512" for m i
  proof -
    have "cyl_of m = cyl_of l \<and> head_of m = head_of l \<and> sect_of m = sect_of l \<longleftrightarrow> m = l" using chs_inj [OF that(1) l] by blast
    then show ?thesis using assms(1) d(1,2) that(2) unfolding controller_ok_def floppy_sec_def by auto
  qed
  have IH: "geometry_ok t" "\<And>m i. unat m < 2880 \<Longrightarrow> i < 512 \<Longrightarrow> floppy_sec content v t m i =
      (if unat (m - (l + 1)) < k then data (512 + (512 * unat (m - (l + 1)) + i)) else floppy_sec content v s1 m i)"
    using Suc.IH [OF step(2) g] Suc.prems(3) l1 by simp_all
  have "floppy_sec content v t m i = (if unat (m - l) < Suc k then data (512 * unat (m - l) + i) else floppy_sec content v s m i)"
    if "unat m < 2880" "i < 512" for m i
  proof (cases "m = l")
    case True
    have "unat (l - (l + 1)) = 4294967295" by (simp add: unsigned_minus_1_eq_mask mask_eq_exp_minus_1)
    then show ?thesis using IH(2) [OF that] here [OF that] True Suc.prems(3) by simp
  next
    case False
    then have nz: "unat (m - l) \<noteq> 0" by (simp add: unat_eq_0)
    have "m - (l + 1) = m - l - 1" by simp
    then have e: "unat (m - (l + 1)) = unat (m - l) - 1" using unat_diff_1 [OF nz] by (simp only:)
    then have idx: "512 + (512 * unat (m - (l + 1)) + i) = 512 * unat (m - l) + i" using nz by (simp add: algebra_simps)
    have "floppy_sec content v t m i = (if unat (m - l) - 1 < k then data (512 * unat (m - l) + i) else floppy_sec content v s1 m i)"
      using IH(2) [OF that] unfolding idx unfolding e .
    moreover have "unat (m - l) - 1 < k \<longleftrightarrow> unat (m - l) < Suc k" using nz by linarith
    ultimately show ?thesis using here [OF that] False by simp
  qed
  then show ?case using IH(1) by blast
qed simp

lemma floppy_disk:
  assumes "controller_ok xr xw content"
  shows "disk_ok 2880 geometry_ok (floppy_read_a xr) (floppy_write_a dir xw) (floppy_sec content 0)"
    "disk_ok 2880 geometry_ok (floppy_read_b xr) (floppy_write_b dir xw) (floppy_sec content 1)"
proof -
  have wr: "geometry_ok d' \<and> (\<forall>m. unat m < 2880 \<longrightarrow> (\<forall>i<512. floppy_sec content v d' m i =
      (if unat (m - l) < unat n then b (512 * unat (m - l) + i) else floppy_sec content v d m i)))"
    if "geometry_ok d" "unat l + unat n \<le> 2880" "floppy_write_sectors dir xw v l n b d = Some (True, d')" "v \<le> 1" for v l n b d d'
  proof -
    have "fdc_get_geometry v d = Some (FDC_HEADS, FDC_SPT)"
      using that(4) geometry_nth [OF that(1,4)] by (auto simp: fdc_get_geometry_def default_geometry_def)
    then have "write_lba_loop dir xw v FDC_HEADS FDC_SPT (unat n) l b d = (True, d')"
      using that(3) by (simp add: floppy_write_sectors_def split: if_splits)
    from write_loop [OF assms that(4) this that(1,2)] show ?thesis .
  qed
  show "disk_ok 2880 geometry_ok (floppy_read_a xr) (floppy_write_a dir xw) (floppy_sec content 0)"
    unfolding disk_ok_def using read_one [OF assms, of _ 0] wr [of _ _ _ 0]
    by (auto simp: floppy_read_a_def floppy_write_a_def split: option.splits)
  show "disk_ok 2880 geometry_ok (floppy_read_b xr) (floppy_write_b dir xw) (floppy_sec content 1)"
    unfolding disk_ok_def using read_one [OF assms, of _ 1] wr [of _ _ _ 1]
    by (auto simp: floppy_read_b_def floppy_write_b_def split: option.splits)
qed

lemma read_loop_succeeds:
  assumes "controller_ok xr xw content" "v \<le> 1"
  shows "geometry_ok s \<Longrightarrow> unat l + k \<le> 2880 \<Longrightarrow> \<exists>b t. read_lba_loop xr v FDC_HEADS FDC_SPT k l s = (Some b, t)"
proof (induction k arbitrary: l s)
  case (Suc k)
  have l: "unat l < 2880" using Suc.prems(2) by simp
  note c = valid_chs_lba [OF Suc.prems(1) assms(2) l]
  obtain b where b: "xr v (head_of l) (cyl_of l) (sect_of l) 1 (media s) = Some b"
    using conjunct1 [OF assms(1) [unfolded controller_ok_def], rule_format, OF assms(2) c(2-5)] by blast
  let ?t = "keep_motor v (fdc_motor_on v s)"
  have r: "fdc_read_sectors xr v (head_of l) (cyl_of l) (sect_of l) 1 s = (Some b, ?t)"
    using c(1) b by (simp add: fdc_read_sectors_def)
  have "geometry_ok ?t" using Suc.prems(1) by (simp add: geometry_ok_def)
  moreover have "unat (l + 1) + k \<le> 2880" using Suc.prems(2) unat_plus_one_le [of l] by linarith
  ultimately obtain b' t' where "read_lba_loop xr v FDC_HEADS FDC_SPT k (l + 1) ?t = (Some b', t')" using Suc.IH by blast
  then show ?case unfolding read_lba_loop.simps chs_eqs cyl_of_def [symmetric] Let_def r by simp
qed simp

lemma floppy_read_succeeds:
  assumes "controller_ok xr xw content" "geometry_ok s" "v \<le> 1" "unat l + unat n \<le> 2880"
  shows "\<exists>b. floppy_read_sectors xr v l n s = Some b"
proof -
  obtain b t where "read_lba_loop xr v FDC_HEADS FDC_SPT (unat n) l s = (Some b, t)" using read_loop_succeeds [OF assms(1,3,2,4)] by blast
  moreover have "FDC_HEADS \<noteq> 0" "FDC_SPT \<noteq> 0" by (simp_all add: FDC_HEADS_def FDC_SPT_def)
  ultimately show ?thesis
    using geometry_nth [OF assms(2,3)] by (simp add: floppy_read_sectors_def fdc_read_lba_def Let_def default_geometry_def)
qed

text \<open>A disk that is not write protected in a drive that works.\<close>

definition controller_writes :: "('d \<Rightarrow> u8) \<Rightarrow> 'd xfer_write \<Rightarrow> bool" where
  "controller_writes dir xw \<longleftrightarrow> (\<forall>d. dir d AND DIR_WRITE_PROTECT = 0) \<and> (\<forall>v h c r b d. fst (xw v h c r 1 b d))"

lemma write_loop_succeeds:
  assumes "controller_writes dir xw" "v \<le> 1"
  shows "geometry_ok s \<Longrightarrow> unat l + k \<le> 2880 \<Longrightarrow> fst (write_lba_loop dir xw v FDC_HEADS FDC_SPT k l data s)"
proof (induction k arbitrary: l data s)
  case (Suc k)
  have l: "unat l < 2880" using Suc.prems(2) by simp
  note c = valid_chs_lba [OF Suc.prems(1) assms(2) l]
  obtain d where d: "xw v (head_of l) (cyl_of l) (sect_of l) 1 data (media s) = (True, d)"
    using assms(1) unfolding controller_writes_def by (metis (full_types) surjective_pairing)
  let ?t = "keep_motor v ((fdc_motor_on v s)\<lparr>media := d\<rparr>)"
  have w: "fdc_write_sectors dir xw v (head_of l) (cyl_of l) (sect_of l) 1 data s = (True, ?t)"
    using c(1) d assms(1) by (simp add: fdc_write_sectors_def fdc_write_protected_def controller_writes_def)
  have "geometry_ok ?t" using Suc.prems(1) by (simp add: geometry_ok_def)
  moreover have "unat (l + 1) + k \<le> 2880" using Suc.prems(2) unat_plus_one_le [of l] by linarith
  ultimately have "fst (write_lba_loop dir xw v FDC_HEADS FDC_SPT k (l + 1) (\<lambda>i. data (512 + i)) ?t)" by (rule Suc.IH)
  then show ?case unfolding write_lba_loop.simps chs_eqs cyl_of_def [symmetric] Let_def w by simp
qed simp

lemma floppy_writes:
  assumes "controller_writes dir xw"
  shows "writes_ok 2880 geometry_ok (floppy_write_a dir xw)" "writes_ok 2880 geometry_ok (floppy_write_b dir xw)"
proof -
  have w: "map_option fst (floppy_write_sectors dir xw v l n b d) = Some True" if "geometry_ok d" "unat l + unat n \<le> 2880" "v \<le> 1" for v l n b d
  proof -
    have g: "fdc_get_geometry v d = Some (FDC_HEADS, FDC_SPT)"
      using geometry_nth [OF that(1,3)] that(3) by (simp add: fdc_get_geometry_def default_geometry_def)
    have "FDC_HEADS \<noteq> 0" "FDC_SPT \<noteq> 0" by (simp_all add: FDC_HEADS_def FDC_SPT_def)
    then show ?thesis using write_loop_succeeds [OF assms that(3,1,2), of b] g by (simp add: floppy_write_sectors_def)
  qed
  have ok: "fst (case floppy_write_sectors dir xw v l n b d of None \<Rightarrow> (False, d) | Some r \<Rightarrow> r)"
    if "geometry_ok d" "unat l + unat n \<le> 2880" "v \<le> 1" for v l n b d
    using w [OF that, of b] by (cases "floppy_write_sectors dir xw v l n b d") auto
  show "writes_ok 2880 geometry_ok (floppy_write_a dir xw)" using ok [where v = 0] by (simp add: writes_ok_def floppy_write_a_def)
  show "writes_ok 2880 geometry_ok (floppy_write_b dir xw)" using ok [where v = 1] by (simp add: writes_ok_def floppy_write_b_def)
qed

section \<open>Mounting a floppy\<close>

text \<open>The parameters in the boot sector at 0x7C00 describe a volume on a 1.44 MB disk.\<close>

definition floppy_bpb :: "buf \<Rightarrow> bool" where
  "floppy_bpb ram \<longleftrightarrow> rd16 ram 0x7C0B = 512 \<and> ram 0x7C0D \<noteq> 0 \<and> ram 0x7C10 \<noteq> 0 \<and> unat (rd16 ram 0x7C13) \<le> 2880 \<and> unat (rd16 ram 0x7C16) \<le> 9 \<and> unat (rd16 ram 0x7C11) \<le> 224 \<and>
     unat (rd16 ram 0x7C0E) + unat (ram 0x7C10) * unat (rd16 ram 0x7C16) + (unat (rd16 ram 0x7C11) + 15) div 16 \<le> unat (rd16 ram 0x7C13)"

lemma bpb_layout:
  assumes "floppy_bpb ram"
  defines "root \<equiv> ucast (rd16 ram 0x7C0E) + ucast (ram 0x7C10) * ucast (rd16 ram 0x7C16) :: u32"
    and "sectors \<equiv> (ucast (rd16 ram 0x7C11) * 32 + ucast (512 :: u16) - 1) div ucast (512 :: u16) :: u32"
  shows "unat root = unat (rd16 ram 0x7C0E) + unat (ram 0x7C10) * unat (rd16 ram 0x7C16)"
    "unat sectors = (unat (rd16 ram 0x7C11) + 15) div 16" "unat (root + sectors) = unat root + unat sectors"
proof -
  let ?R = "rd16 ram 0x7C0E" and ?N = "ram 0x7C10" and ?F = "rd16 ram 0x7C16" and ?E = "rd16 ram 0x7C11" and ?T = "rd16 ram 0x7C13"
  have b: "unat ?T \<le> 2880" "unat ?R + unat ?N * unat ?F + (unat ?E + 15) div 16 \<le> unat ?T" "unat ?E \<le> 224"
    using assms(1) by (simp_all add: floppy_bpb_def)
  have m: "unat ?N * unat ?F < 4294967296" using b by linarith
  have "unat (ucast ?N * ucast ?F :: u32) = unat ?N * unat ?F"
    using m by (subst unat_mult_lem [THEN iffD1]) (simp_all only: unat_up, simp_all)
  then show root: "unat root = unat ?R + unat ?N * unat ?F"
    using unat_add_small [of "ucast ?R" "ucast ?N * ucast ?F"] b unfolding root_def by (simp only: unat_up)
  have E: "unat ?E * 32 + 511 < 4294967296" using b(3) by linarith
  have "unat (ucast ?E * 32 :: u32) = unat ?E * 32" using E by (subst unat_mult_lem [THEN iffD1]) (simp_all only: unat_up, simp_all)
  then have u: "unat (ucast ?E * 32 + 511 :: u32) = unat ?E * 32 + 511" using E unat_add_small [of "ucast ?E * 32" 511] by simp
  have n: "ucast ?E * 32 + ucast (512 :: u16) - 1 = (ucast ?E * 32 + 511 :: u32)" by simp
  have "unat sectors = (unat ?E * 32 + 511) div 512" unfolding sectors_def n unat_div u by simp
  then show sec: "unat sectors = (unat ?E + 15) div 16" by linarith
  show "unat (root + sectors) = unat root + unat sectors" using unat_add_small [of root sectors] root sec b(1,2) by linarith
qed

lemma mount_floppy:
  assumes "controller_ok xr xw content" "floppy_bpb ram" "geometry_ok (device s)" "fat12_read s = Some (floppy_read_a xr)"
  shows "\<exists>t. fat12_init_common ram 0x7C00 s = Some (True, t) \<and> volume 2880 t \<and> fat12_read t = fat12_read s \<and> device t = device s"
proof -
  let ?R = "rd16 ram 0x7C0E" and ?N = "ram 0x7C10" and ?F = "rd16 ram 0x7C16" and ?E = "rd16 ram 0x7C11" and ?T = "rd16 ram 0x7C13"
  have b: "rd16 ram 0x7C0B = 512" "ram 0x7C0D \<noteq> 0" "?N \<noteq> 0" "unat ?T \<le> 2880" "unat ?F \<le> 9" "unat ?E \<le> 224"
    "unat ?R + unat ?N * unat ?F + (unat ?E + 15) div 16 \<le> unat ?T"
    using assms(2) by (simp_all add: floppy_bpb_def)
  define root where "root = (ucast ?R + ucast ?N * ucast ?F :: u32)"
  define sectors where "sectors = ((ucast ?E * 32 + ucast (512 :: u16) - 1) div ucast (512 :: u16) :: u32)"
  have lay: "unat root = unat ?R + unat ?N * unat ?F" "unat sectors = (unat ?E + 15) div 16" "unat (root + sectors) = unat root + unat sectors"
    unfolding root_def sectors_def by (rule bpb_layout [OF assms(2)])+
  have F: "unat (ucast ?F :: u8) = unat ?F" using b(5) by (simp add: unsigned_ucast_eq take_bit_nat_eq_self)
  have s14: "unat sectors \<le> 14" using lay(2) b(6) by linarith
  then have S: "unat (ucast sectors :: u8) = unat sectors" by (simp add: unsigned_ucast_eq take_bit_nat_eq_self)
  have "unat ?F \<le> unat ?N * unat ?F" using b(3) unat_gt_0 [of ?N] by simp
  then have r1: "unat (ucast ?R :: u32) + unat (ucast ?F :: u8) \<le> 2880" unfolding F unat_up using b(4,7) by linarith
  have r2: "unat root + unat (ucast sectors :: u8) \<le> 2880" unfolding S using lay(1,2) b(4,7) by linarith
  have guards: "\<not> (ucast ?F :: u8) > 9" "\<not> (ucast sectors :: u8) > 14" using F S b(5) s14 by (simp_all add: word_less_nat_alt)
  obtain b1 b2 where rd: "floppy_read_a xr (ucast ?R) (ucast ?F) (device s) = Some b1" "floppy_read_a xr root (ucast sectors) (device s) = Some b2"
    using floppy_read_succeeds [OF assms(1,3) _ r1, of 0] floppy_read_succeeds [OF assms(1,3) _ r2, of 0] by (auto simp: floppy_read_a_def)
  have "\<exists>t. fat12_init_common ram 0x7C00 s = Some (True, t) \<and> bpb_bytes_per_sec t = 512 \<and> bpb_sec_per_clust t = ram 0x7C0D \<and> bpb_num_fats t = ?N \<and>
      bpb_root_entries t = ?E \<and> bpb_total_secs t = ?T \<and> bpb_fat_size t = ?F \<and> fat_start_lba t = ucast ?R \<and> root_dir_lba t = root \<and>
      data_area_lba t = root + sectors \<and> fat12_read t = fat12_read s \<and> device t = device s"
    using b(1) guards rd assms(4) unfolding fat12_init_common_def root_def sectors_def by (simp add: Let_def do_read_def)
  then show ?thesis unfolding volume_def using b lay by (auto simp: unat_up)
qed

section \<open>Properties\<close>

text \<open>The motor of the other drive is not running.\<close>

definition only_motor :: "u8 \<Rightarrow> 'd fdc \<Rightarrow> bool" where
  "only_motor v s \<longleftrightarrow> v \<le> 1 \<and> length (motor_state s) = 2 \<and> length (motor_off_timer s) = 2 \<and> motor_state s ! unat (1 - v) \<noteq> MOTOR_ON"

lemma drive_cases: "v \<le> 1 \<Longrightarrow> v = 0 \<or> v = (1 :: u8)"
proof -
  assume "v \<le> 1"
  then have "unat v = 0 \<or> unat v = 1" by (auto simp: word_le_nat_alt)
  then show ?thesis by (auto simp: word_unat_eq_iff)
qed

lemma tick_running:
  assumes "only_motor v s" "motor_state s ! unat v = MOTOR_ON" "motor_off_timer s ! unat v = t" "t \<noteq> 0"
  shows "fdc_motor_tick s =
    (if t = 1 then fdc_motor_off v (s\<lparr>motor_off_timer := (motor_off_timer s)[unat v := 0]\<rparr>)
     else s\<lparr>motor_off_timer := (motor_off_timer s)[unat v := t - 1]\<rparr>)"
  using drive_cases [of v] assms
  by (auto simp: only_motor_def fdc_motor_tick_def tick_drive_def fdc_motor_off_def Let_def word_gt_0 dor_consts)

lemma tick_stopped:
  assumes "only_motor v s" "motor_state s ! unat v \<noteq> MOTOR_ON"
  shows "fdc_motor_tick s = s"
  using drive_cases [of v] assms by (auto simp: only_motor_def fdc_motor_tick_def tick_drive_def)

definition running_dor :: "u8 \<Rightarrow> u8" where
  "running_dor v = (if v = 0 then 0x1C else 0x2D)"

definition stopped_dor :: "u8 \<Rightarrow> u8" where
  "stopped_dor v = (if v = 0 then 0x0C else 0x0D)"

definition idle_after :: "u8 \<Rightarrow> nat \<Rightarrow> 'd fdc \<Rightarrow> bool" where
  "idle_after v n s \<longleftrightarrow> only_motor v s \<and>
     (if n < 2000 then motor_state s ! unat v = MOTOR_ON \<and> motor_off_timer s ! unat v = of_nat (2000 - n) \<and> dor s = running_dor v
      else motor_state s ! unat v = MOTOR_OFF \<and> motor_off_timer s ! unat v = 0 \<and> dor s = stopped_dor v)"

lemma motor_on_idle:
  assumes "only_motor v s" "motor_state s ! unat v \<noteq> MOTOR_ON"
  shows "idle_after v 0 (fdc_motor_on v s)"
  using drive_cases [of v] assms
  by (auto simp: idle_after_def only_motor_def fdc_motor_on_def Let_def MOTOR_OFF_DELAY_MS_def running_dor_def dor_consts)

lemma tick_idle:
  assumes "idle_after v n s"
  shows "idle_after v (Suc n) (fdc_motor_tick s)"
proof (cases "n < 2000")
  case True
  have u: "unat (of_nat (2000 - n) :: u32) = 2000 - n" by (intro unat_of_nat_u32) simp
  have nz: "(of_nat (2000 - n) :: u32) \<noteq> 0" using True u by (metis unat_0 zero_less_diff less_irrefl)
  have one: "(of_nat (2000 - n) :: u32) = 1 \<longleftrightarrow> n = 1999" using True u by (auto simp: word_unat_eq_iff)
  have m: "(of_nat (2000 - n) :: u32) - 1 = of_nat (2000 - Suc n)" using True by (simp add: Suc_diff_Suc of_nat_diff)
  have h: "only_motor v s" "motor_state s ! unat v = MOTOR_ON" "motor_off_timer s ! unat v = of_nat (2000 - n)" "dor s = running_dor v"
    using assms True by (simp_all add: idle_after_def)
  note tick = tick_running [OF h(1-3) nz, unfolded one m]
  have v: "unat v < 2" using h(1) by (auto simp: only_motor_def word_le_nat_alt)
  show ?thesis
  proof (cases "n = 1999")
    case True
    then show ?thesis using tick h drive_cases [of v]
      by (auto simp: idle_after_def only_motor_def fdc_motor_off_def Let_def stopped_dor_def dor_consts)
  next
    case False
    then show ?thesis using tick h v True unfolding idle_after_def by (simp add: only_motor_def)
  qed
next
  case False
  then show ?thesis using assms tick_stopped [of v s] by (simp add: idle_after_def)
qed

text \<open>
  A motor that was started and is not used runs for 2000 ticks of the timer, counting down, and then stops: the motor is off in the driver's
  books and in the register of the controller, and stays off.
\<close>

theorem motor_stops:
  assumes "only_motor v s" and "motor_state s ! unat v \<noteq> MOTOR_ON"
  shows "idle_after v n ((fdc_motor_tick ^^ n) (fdc_motor_on v s))"
  by (induction n) (simp_all add: motor_on_idle [OF assms] tick_idle)

text \<open>
  Switching between the drives loses the motor: with both motors started, one after the other, a further \<open>fdc_motor_on\<close> for the first drive takes its motor for running and
  writes nothing to the controller, which has the first motor switched off and the second drive selected.
\<close>

theorem motor_lost:
  assumes "length (motor_state s) = 2" and "motor_state s ! 0 \<noteq> MOTOR_ON" and "motor_state s ! 1 \<noteq> MOTOR_ON"
  shows "let t = fdc_motor_on 0 (fdc_motor_on 1 (fdc_motor_on 0 s)) in
    motor_state t ! 0 = MOTOR_ON \<and> dor t AND DOR_MOTOR0 = 0 \<and> dor t AND DOR_DRIVE1 = DOR_DRIVE1"
proof -
  let ?s1 = "fdc_motor_on 0 s"
  let ?s2 = "fdc_motor_on 1 ?s1"
  have 1: "motor_state ?s1 = [MOTOR_ON, motor_state s ! 1]" using assms by (auto simp: fdc_motor_on_def Let_def length_Suc_conv numeral_2_eq_2)
  have 2: "motor_state ?s2 = [MOTOR_ON, MOTOR_ON]" "dor ?s2 = 0x2D"
    using 1 assms(3) by (simp_all add: fdc_motor_on_def [of 1] Let_def dor_consts)
  then show ?thesis by (simp add: fdc_motor_on_def [of 0 ?s2] dor_consts Let_def)
qed

text \<open>
  The cylinder is cut to eight bits before its range is checked: a sector number beyond the end of the disk by a multiple of 9216 is not refused, the
  sector of the smaller number is read in its place.
\<close>

theorem floppy_read_wraps:
  assumes "geometry_ok s" and "v \<le> 1" and "unat l + 9216 * k + unat n < 4294967296"
  shows "floppy_read_sectors xr v (l + of_nat (9216 * k)) n s = floppy_read_sectors xr v l n s"
proof -
  have loop: "read_lba_loop xr v FDC_HEADS FDC_SPT j (l + of_nat (9216 * k)) s = read_lba_loop xr v FDC_HEADS FDC_SPT j l s"
    if "unat l + 9216 * k + j < 4294967296" for j l s
    using that
  proof (induction j arbitrary: l s)
    case (Suc j)
    have uk: "unat (of_nat (9216 * k) :: u32) = 9216 * k" using Suc.prems by (intro unat_of_nat_u32) linarith
    have u: "unat (l + of_nat (9216 * k)) = unat l + 9216 * k" using unat_add_small [of l "of_nat (9216 * k)"] uk Suc.prems by simp
    have d: "(unat l + 9216 * k) div 36 = unat l div 36 + 256 * k" "(unat l + 9216 * k) div 18 = unat l div 18 + 512 * k" "(unat l + 9216 * k) mod 18 = unat l mod 18"
      using div_mult_self2 [of 36 "unat l" "256 * k"] div_mult_self2 [of 18 "unat l" "512 * k"] mod_mult_self2 [of "unat l" 18 "512 * k"]
      by (simp_all add: mult.assoc)
    have m2: "(unat l div 18 + 512 * k) mod 2 = unat l div 18 mod 2" using mod_mult_self2 [of "unat l div 18" 2 "256 * k"] by (simp add: mult.assoc)
    have "(of_nat (256 * k) :: u8) = 0" by (simp add: word_of_nat_eq_0_iff del: of_nat_mult)
    then have c: "(of_nat (unat l div 36 + 256 * k) :: u8) = of_nat (unat l div 36)" by (simp only: of_nat_add add_0_right)
    have eq: "(of_nat (unat (l + of_nat (9216 * k)) div 36) :: u8) = of_nat (unat l div 36)"
      "head_of (l + of_nat (9216 * k)) = head_of l" "sect_of (l + of_nat (9216 * k)) = sect_of l"
      unfolding head_of_def sect_of_def u d m2 c by (rule refl)+
    have n: "l + of_nat (9216 * k) + 1 = (l + 1) + of_nat (9216 * k)" by simp
    have "unat (l + 1) + 9216 * k + j < 4294967296" using Suc.prems unat_plus_one_le [of l] by linarith
    note IH = Suc.IH [OF this]
    show ?case unfolding read_lba_loop.simps chs_eqs eq Let_def n IH by (rule refl)
  qed simp
  show ?thesis
    using geometry_nth [OF assms(1,2)] loop [OF assms(3)]
    by (simp add: floppy_read_sectors_def fdc_read_lba_def default_geometry_def Let_def)
qed

text \<open>The driver after its initialisation, with disks that are kept in memory.\<close>

type_synonym mem_disks = "u8 \<Rightarrow> u8 \<Rightarrow> u8 \<Rightarrow> u8 \<Rightarrow> buf"

definition mem_xread :: "mem_disks xfer_read" where
  "mem_xread v h c r n d = Some (d v c h r)"

definition mem_xwrite :: "mem_disks xfer_write" where
  "mem_xwrite v h c r n b d = (True, \<lambda>v' c' h' r' i. if v' = v \<and> c' = c \<and> h' = h \<and> r' = r \<and> i < 512 then b i else d v' c' h' r' i)"

lemma mem_controller: "controller_ok mem_xread mem_xwrite (\<lambda>d. d)"
  by (auto simp: controller_ok_def mem_xread_def mem_xwrite_def)

definition demo_fdc :: "mem_disks \<Rightarrow> mem_disks fdc" where
  "demo_fdc d = snd (fdc_init True True \<lparr>motor_state = [], motor_off_timer = [], fdc_current_drive = 0xFF, dor = 0, drive_geom = [], media = d\<rparr>)"

lemma demo_fdc_state:
  "motor_state (demo_fdc d) = [MOTOR_OFF, MOTOR_OFF]" "motor_off_timer (demo_fdc d) = [0, 0]" "geometry_ok (demo_fdc d)" "media (demo_fdc d) = d"
  by (simp_all add: demo_fdc_def fdc_init_def fdc_reset_def Let_def geometry_ok_def fdc_motor_on_def fdc_motor_off_def)

theorem motor_stops_witness:
  "motor_state ((fdc_motor_tick ^^ 2000) (fdc_motor_on 0 (demo_fdc (\<lambda>_ _ _ _ _. 0)))) ! 0 = MOTOR_OFF \<and>
   dor ((fdc_motor_tick ^^ 1999) (fdc_motor_on 0 (demo_fdc (\<lambda>_ _ _ _ _. 0)))) = 0x1C"
proof -
  have "only_motor 0 (demo_fdc d)" "motor_state (demo_fdc d) ! unat (0 :: u8) \<noteq> MOTOR_ON" for d
    by (simp_all add: only_motor_def demo_fdc_state)
  from motor_stops [OF this, where n = 2000] motor_stops [OF this, where n = 1999] show ?thesis
    by (simp add: idle_after_def running_dor_def del: funpow.simps)
qed

theorem motor_lost_witness:
  "dor (fdc_motor_on 0 (fdc_motor_on 1 (fdc_motor_on 0 (demo_fdc (\<lambda>_ _ _ _ _. 0))))) AND DOR_MOTOR0 = 0"
  using motor_lost [of "demo_fdc (\<lambda>_ _ _ _ _. 0)"] by (simp add: demo_fdc_state Let_def)

theorem floppy_read_wraps_witness:
  "floppy_read_sectors mem_xread 0 9221 1 (demo_fdc (\<lambda>_ _ _ _ _. 7)) = floppy_read_sectors mem_xread 0 5 1 (demo_fdc (\<lambda>_ _ _ _ _. 7))"
  using floppy_read_wraps [OF demo_fdc_state(3) [of "\<lambda>_ _ _ _ _. 7"], where v = 0 and l = 5 and k = 1 and n = 1 and xr = mem_xread] by simp

end
