(* ===== verification/Drive.thy ===== *)
theory Drive
  imports Prelude
begin

text \<open>
  The drive table of \<^verbatim>\<open>src/kernel/drivers/drive.c\<close>: drive letters A to Z with the kind, device and partition of each.  An \<open>int\<close> argument is any integer; serial output is
  left out.
\<close>

definition DRIVE_MAX :: nat where "DRIVE_MAX = 26"
definition DRIVE_LETTER_C :: int where "DRIVE_LETTER_C = 2"
definition DRIVE_TYPE_NONE :: u8 where "DRIVE_TYPE_NONE = 0"
definition DRIVE_TYPE_FLOPPY :: u8 where "DRIVE_TYPE_FLOPPY = 1"
definition DRIVE_TYPE_HDD :: u8 where "DRIVE_TYPE_HDD = 2"
definition DRIVE_TYPE_CDROM :: u8 where "DRIVE_TYPE_CDROM = 3"

lemmas drive_types = DRIVE_TYPE_NONE_def DRIVE_TYPE_FLOPPY_def DRIVE_TYPE_HDD_def DRIVE_TYPE_CDROM_def

record drive_info =
  drv_type :: u8
  device_id :: u8
  partition_lba :: u32
  mounted :: bool
  label :: "u8 list"

record drives =
  drive_table :: "drive_info list"
  g_current_drive :: int

definition drive_init :: "drives \<Rightarrow> drives" where
  "drive_init s = s\<lparr>drive_table := map (\<lambda>d. d\<lparr>drv_type := DRIVE_TYPE_NONE, device_id := 0, partition_lba := 0, mounted := False,
     label := (label d)[0 := 0]\<rparr>) (drive_table s), g_current_drive := DRIVE_LETTER_C\<rparr>"

definition drive_get_current :: "drives \<Rightarrow> int" where
  "drive_get_current s = g_current_drive s"

definition drive_set_current :: "int \<Rightarrow> drives \<Rightarrow> bool \<times> drives" where
  "drive_set_current letter s =
     (if letter < 0 \<or> letter \<ge> int DRIVE_MAX then (False, s)
      else if drv_type (drive_table s ! nat letter) = DRIVE_TYPE_NONE then (False, s)
      else (True, s\<lparr>g_current_drive := letter\<rparr>))"

definition drive_get_info :: "int \<Rightarrow> drives \<Rightarrow> drive_info option" where
  "drive_get_info letter s =
     (if letter < 0 \<or> letter \<ge> int DRIVE_MAX then None
      else if drv_type (drive_table s ! nat letter) = DRIVE_TYPE_NONE then None
      else Some (drive_table s ! nat letter))"

definition drive_register :: "int \<Rightarrow> u8 \<Rightarrow> u8 \<Rightarrow> u32 \<Rightarrow> drives \<Rightarrow> drives" where
  "drive_register letter ty dev lba s =
     (if letter < 0 \<or> letter \<ge> int DRIVE_MAX then s
      else s\<lparr>drive_table := (drive_table s)[nat letter := (drive_table s ! nat letter)\<lparr>drv_type := ty, device_id := dev,
             partition_lba := lba, mounted := (ty \<noteq> DRIVE_TYPE_NONE)\<rparr>]\<rparr>)"

definition drive_letter_to_char :: "int \<Rightarrow> u8" where
  "drive_letter_to_char letter = (if letter \<ge> 0 \<and> letter < int DRIVE_MAX then 65 + of_int letter else 63)"

definition drive_get_type_name :: "u8 \<Rightarrow> string" where
  "drive_get_type_name ty =
     (if ty = DRIVE_TYPE_FLOPPY then ''Floppy'' else if ty = DRIVE_TYPE_HDD then ''Hard Disk'' else if ty = DRIVE_TYPE_CDROM then ''CD-ROM'' else ''Unknown'')"

section \<open>Invariant\<close>

text \<open>The table has its size, a drive is mounted exactly when it has a kind, and the current drive is a letter.\<close>

definition drives_ok :: "drives \<Rightarrow> bool" where
  "drives_ok s \<longleftrightarrow> length (drive_table s) = DRIVE_MAX \<and> (\<forall>d \<in> set (drive_table s). mounted d \<longleftrightarrow> drv_type d \<noteq> DRIVE_TYPE_NONE) \<and>
     0 \<le> g_current_drive s \<and> g_current_drive s < int DRIVE_MAX"

lemma drive_init_ok: "length (drive_table s) = DRIVE_MAX \<Longrightarrow> drives_ok (drive_init s)"
  by (simp add: drives_ok_def drive_init_def DRIVE_LETTER_C_def DRIVE_MAX_def)

lemma drive_register_ok: "drives_ok s \<Longrightarrow> drives_ok (drive_register letter ty dev lba s)"
  unfolding drives_ok_def drive_register_def by (auto dest!: set_update_subset_insert [THEN subsetD])

lemma drive_set_current_ok: "drives_ok s \<Longrightarrow> drives_ok (snd (drive_set_current letter s))"
  by (simp add: drives_ok_def drive_set_current_def)

lemma drive_get_register:
  assumes "drives_ok s"
  shows "drive_get_info l (drive_register l' ty dev lba s) =
    (if l = l' \<and> 0 \<le> l \<and> l < int DRIVE_MAX
     then if ty = DRIVE_TYPE_NONE then None
          else Some ((drive_table s ! nat l)\<lparr>drv_type := ty, device_id := dev, partition_lba := lba, mounted := True\<rparr>)
     else drive_get_info l s)"
proof (cases "l = l' \<and> 0 \<le> l \<and> l < int DRIVE_MAX")
  case True
  then have "nat l < length (drive_table s)" using assms by (auto simp: drives_ok_def)
  then show ?thesis using True by (auto simp: drive_get_info_def drive_register_def)
next
  case False
  have "nat l \<noteq> nat l'" if "0 \<le> l" "l < int DRIVE_MAX" "0 \<le> l'" using that False by (auto simp: nat_eq_iff)
  then have "drive_table (drive_register l' ty dev lba s) ! nat l = drive_table s ! nat l" if "0 \<le> l" "l < int DRIVE_MAX"
    using that by (auto simp: drive_register_def)
  then have "drive_get_info l (drive_register l' ty dev lba s) = drive_get_info l s"
    by (auto simp: drive_get_info_def not_less)
  then show ?thesis using False by (simp only: if_False)
qed

lemma drive_get_init: "length (drive_table s) = DRIVE_MAX \<Longrightarrow> drive_get_info l (drive_init s) = None"
  using nat_less_iff [of l DRIVE_MAX] by (auto simp: drive_get_info_def drive_init_def not_less)

end
