(* ===== verification/Fs.thy ===== *)
theory Fs
  imports Fdc Fat32 Drive
begin

text \<open>
  The file system layer \<^verbatim>\<open>src/kernel/fs/fs.c\<close>, which routes the calls of the shell to FAT12 on the floppy drives and to FAT32 on the
  hard disk.  Its state joins the static variables of \<^verbatim>\<open>fs.c\<close> with those of both file systems and the drive table.  The machine's
  memory is in the state, because the boot sector at 0x7C00 is read and files are loaded into it.  A result \<open>None\<close> is a processor exception in the code called, or a walk along a
  cyclic chain; messages are left out.
\<close>

unbundle bit_operations_syntax

section \<open>State\<close>

definition FS_FAT12 :: int where "FS_FAT12 = 0"
definition FS_FAT32 :: int where "FS_FAT32 = 1"
definition FS_NONE :: int where "FS_NONE = 0xFF"

lemmas fs_types = FS_FAT12_def FS_FAT32_def FS_NONE_def

record fs_entry =
  fe_name :: "u8 list"
  fe_attr :: u8
  fe_size :: u32
  is_directory :: bool

record ('d, 'e) fs =
  current_drive :: u8
  current_fs_type :: int
  fat12_initialized :: bool
  fs_found :: fs_entry
  f12 :: "'d fdc fat12"
  f32 :: "'e fat32"
  drv :: drives
  iso_mounted :: bool
  memory :: "u32 \<Rightarrow> u8"

text \<open>The hardware: the floppy controller with its input register, and the hard disk.\<close>

record ('d, 'e) hardware =
  hw_read :: "'d xfer_read"
  hw_write :: "'d xfer_write"
  hw_dir :: "'d \<Rightarrow> u8"
  disk_read_sectors :: "'e read_fn"
  disk_write_sectors :: "'e write_fn"

definition low_memory :: "('d, 'e) fs \<Rightarrow> buf" where
  "low_memory s = (\<lambda>i. memory s (of_nat i))"

section \<open>Mounting\<close>

definition fs_init_floppy :: "('d, 'e) hardware \<Rightarrow> u8 \<Rightarrow> ('d, 'e) fs \<Rightarrow> (bool \<times> ('d, 'e) fs) option" where
  "fs_init_floppy hw fdc_drive s =
     (let rfn = (if fdc_drive = 0 then floppy_read_a (hw_read hw) else floppy_read_b (hw_read hw));
          wfn = (if fdc_drive = 0 then floppy_write_a (hw_dir hw) (hw_write hw) else floppy_write_b (hw_dir hw) (hw_write hw))
      in case fat12_init_ex (Some rfn) (low_memory s) 0x7C00 (f12 s) of
           None \<Rightarrow> None
         | Some (False, f) \<Rightarrow> Some (False, s\<lparr>f12 := f, current_fs_type := FS_NONE\<rparr>)
         | Some (True, f) \<Rightarrow> Some (True, s\<lparr>f12 := fat12_set_write_fn (Some wfn) f, fat12_initialized := True, current_fs_type := FS_FAT12\<rparr>))"

definition fs_init_hdd :: "('d, 'e) hardware \<Rightarrow> u32 \<Rightarrow> ('d, 'e) fs \<Rightarrow> (bool \<times> ('d, 'e) fs) option" where
  "fs_init_hdd hw lba s = (case fat32_init_drive (disk_read_sectors hw) lba (f32 s) of
     None \<Rightarrow> None
   | Some (True, f) \<Rightarrow> Some (True, s\<lparr>f32 := f, current_fs_type := FS_FAT32\<rparr>)
   | Some (False, f) \<Rightarrow> Some (False, s\<lparr>f32 := f\<rparr>))"

definition fs_ensure_init :: "('d, 'e) hardware \<Rightarrow> ('d, 'e) fs \<Rightarrow> (bool \<times> ('d, 'e) fs) option" where
  "fs_ensure_init hw s =
     (if current_fs_type s \<noteq> FS_NONE then Some (True, s)
      else case drive_get_info (uint (current_drive s) - 65) (drv s) of
        None \<Rightarrow> Some (False, s)
      | Some info \<Rightarrow>
          if drv_type info = DRIVE_TYPE_NONE then Some (False, s)
          else if drv_type info = DRIVE_TYPE_FLOPPY then fs_init_floppy hw (device_id info) s
          else if drv_type info = DRIVE_TYPE_HDD then fs_init_hdd hw (partition_lba info) s
          else if drv_type info = DRIVE_TYPE_CDROM
          then if iso_mounted s then Some (True, s\<lparr>current_fs_type := FS_NONE\<rparr>) else Some (False, s)
          else Some (False, s))"

definition fs_init :: "('d, 'e) fs \<Rightarrow> bool \<times> ('d, 'e) fs" where
  "fs_init s = (True, s\<lparr>current_fs_type := FS_NONE, current_drive := 65\<rparr>)"

definition fs_get_type :: "('d, 'e) fs \<Rightarrow> string" where
  "fs_get_type s = (if current_fs_type s = FS_FAT12 then ''FAT12'' else if current_fs_type s = FS_FAT32 then ''FAT32'' else ''NONE'')"

definition fs_get_current_drive :: "('d, 'e) fs \<Rightarrow> u8" where
  "fs_get_current_drive s = current_drive s"

definition fs_set_current_drive :: "('d, 'e) hardware \<Rightarrow> u8 \<Rightarrow> ('d, 'e) fs \<Rightarrow> (bool \<times> ('d, 'e) fs) option" where
  "fs_set_current_drive hw letter s =
     (let letter = (if 97 \<le> letter \<and> letter \<le> 122 then letter - 32 else letter) in
      if letter < 65 \<or> letter > 90 then Some (False, s)
      else case drive_get_info (uint letter - 65) (drv s) of
        None \<Rightarrow> Some (False, s)
      | Some info \<Rightarrow>
          if drv_type info = DRIVE_TYPE_NONE then Some (False, s)
          else if letter = current_drive s \<and> current_fs_type s \<noteq> FS_NONE then Some (True, s)
          else let s = s\<lparr>current_drive := letter, current_fs_type := FS_NONE\<rparr> in
               if drv_type info = DRIVE_TYPE_FLOPPY then fs_init_floppy hw (device_id info) s
               else if drv_type info = DRIVE_TYPE_HDD then fs_init_hdd hw (partition_lba info) s
               else if drv_type info = DRIVE_TYPE_CDROM then Some (True, s)
               else Some (False, s))"

section \<open>Files\<close>

text \<open>A call behind \<open>fs_ensure_init\<close>: \<open>fail\<close> is the result without a file system, \<open>on12\<close> and \<open>on32\<close> are the branches of the switch.\<close>

definition dispatch ::
  "('d, 'e) hardware \<Rightarrow> 'r \<Rightarrow> (('d, 'e) fs \<Rightarrow> ('r \<times> ('d, 'e) fs) option) \<Rightarrow> (('d, 'e) fs \<Rightarrow> ('r \<times> ('d, 'e) fs) option) \<Rightarrow>
   ('d, 'e) fs \<Rightarrow> ('r \<times> ('d, 'e) fs) option" where
  "dispatch hw fail on12 on32 s = (case fs_ensure_init hw s of
     None \<Rightarrow> None
   | Some (False, s) \<Rightarrow> Some (fail, s)
   | Some (True, s) \<Rightarrow>
       if current_fs_type s = FS_FAT12 then on12 s
       else if current_fs_type s = FS_FAT32 then on32 s
       else Some (fail, s))"

definition with_f12 :: "('r \<times> 'd fdc fat12) option \<Rightarrow> ('d, 'e) fs \<Rightarrow> ('r \<times> ('d, 'e) fs) option" where
  "with_f12 r s = map_option (\<lambda>(x, f). (x, s\<lparr>f12 := f\<rparr>)) r"

definition with_f32 :: "('r \<times> 'e fat32) option \<Rightarrow> ('d, 'e) fs \<Rightarrow> ('r \<times> ('d, 'e) fs) option" where
  "with_f32 r s = map_option (\<lambda>(x, f). (x, s\<lparr>f32 := f\<rparr>)) r"

definition fs_list_root :: "('d, 'e) hardware \<Rightarrow> nat \<Rightarrow> ('d, 'e) fs \<Rightarrow> ((u8 list \<times> u32) list option \<times> ('d, 'e) fs) option" where
  "fs_list_root hw fuel = dispatch hw None
     (\<lambda>s. Some (Some (fat12_list_root (f12 s)), s))
     (\<lambda>s. with_f32 (map_option (\<lambda>(l, f). (Some l, f)) (fat32_list_root fuel (disk_read_sectors hw) (f32 s))) s)"

definition fs_list_dir :: "('d, 'e) hardware \<Rightarrow> nat \<Rightarrow> u8 list \<Rightarrow> ('d, 'e) fs \<Rightarrow> ((u8 list \<times> u32) list option \<times> ('d, 'e) fs) option" where
  "fs_list_dir hw fuel path s = fs_list_root hw fuel s"

definition fs_name :: "u8 list \<Rightarrow> u8 list" where
  "fs_name n = filter (\<lambda>c. c \<noteq> 0x20) (take 8 n) @
     (if n ! 8 \<noteq> 0x20 then 0x2E # filter (\<lambda>c. c \<noteq> 0x20) (take 3 (drop 8 n)) else [])"

definition generic_entry :: "dir_entry \<Rightarrow> fs_entry" where
  "generic_entry e = \<lparr>fe_name = fs_name (de_name e), fe_attr = de_attr e, fe_size = de_file_size e,
     is_directory = (de_attr e AND ATTR_DIRECTORY \<noteq> 0)\<rparr>"

definition fs_find_file :: "('d, 'e) hardware \<Rightarrow> nat \<Rightarrow> u8 list \<Rightarrow> ('d, 'e) fs \<Rightarrow> (fs_entry option \<times> ('d, 'e) fs) option" where
  "fs_find_file hw fuel name = dispatch hw None
     (\<lambda>s. case fat12_find_file name (f12 s) of
            None \<Rightarrow> Some (None, s)
          | Some i \<Rightarrow> let e = generic_entry (get_entry (root_dir_buf (f12 s)) i) in Some (Some e, s\<lparr>fs_found := e\<rparr>))
     (\<lambda>s. case fat32_find_file fuel (disk_read_sectors hw) name (f32 s) of
            None \<Rightarrow> None
          | Some (None, f) \<Rightarrow> Some (None, s\<lparr>f32 := f\<rparr>)
          | Some (Some d, f) \<Rightarrow> let e = generic_entry d in Some (Some e, s\<lparr>f32 := f, fs_found := e\<rparr>))"

definition fs_load_file :: "('d, 'e) hardware \<Rightarrow> nat \<Rightarrow> fs_entry \<Rightarrow> u32 \<Rightarrow> ('d, 'e) fs \<Rightarrow> (u32 \<times> ('d, 'e) fs) option" where
  "fs_load_file hw fuel entry load_addr = dispatch hw 0
     (\<lambda>s. case fat12_find_file (fe_name entry) (f12 s) of
            None \<Rightarrow> Some (0, s)
          | Some i \<Rightarrow> map_option (\<lambda>(n, m). (n, s\<lparr>memory := m\<rparr>))
              (fat12_load_file fuel (get_entry (root_dir_buf (f12 s)) i) load_addr (f12 s) (memory s)))
     (\<lambda>s. case fat32_find_file fuel (disk_read_sectors hw) (fe_name entry) (f32 s) of
            None \<Rightarrow> None
          | Some (None, f) \<Rightarrow> Some (0, s\<lparr>f32 := f\<rparr>)
          | Some (Some d, f) \<Rightarrow> map_option (\<lambda>(n, m, f). (n, s\<lparr>memory := m, f32 := f\<rparr>))
              (fat32_load_file fuel (disk_read_sectors hw) d load_addr f (memory s)))"

definition fs_write_file :: "('d, 'e) hardware \<Rightarrow> nat \<Rightarrow> buf \<Rightarrow> u8 list \<Rightarrow> buf \<Rightarrow> u32 \<Rightarrow> ('d, 'e) fs \<Rightarrow> (bool \<times> ('d, 'e) fs) option" where
  "fs_write_file hw fuel junk name data sz = dispatch hw False
     (\<lambda>s. with_f12 (fat12_write_file junk name data sz (f12 s)) s)
     (\<lambda>s. with_f32 (fat32_write_file fuel (disk_read_sectors hw) (disk_write_sectors hw) name data sz (f32 s)) s)"

definition fs_delete_file :: "('d, 'e) hardware \<Rightarrow> nat \<Rightarrow> u8 list \<Rightarrow> ('d, 'e) fs \<Rightarrow> (bool \<times> ('d, 'e) fs) option" where
  "fs_delete_file hw fuel name = dispatch hw False
     (\<lambda>s. with_f12 (fat12_delete_file name (f12 s)) s)
     (\<lambda>s. with_f32 (fat32_delete_file fuel (disk_read_sectors hw) (disk_write_sectors hw) name (f32 s)) s)"

definition fs_rename_file :: "('d, 'e) hardware \<Rightarrow> nat \<Rightarrow> u8 list \<Rightarrow> u8 list \<Rightarrow> ('d, 'e) fs \<Rightarrow> (bool \<times> ('d, 'e) fs) option" where
  "fs_rename_file hw fuel old_name new_name = dispatch hw False
     (\<lambda>s. with_f12 (fat12_rename_file old_name new_name (f12 s)) s)
     (\<lambda>s. with_f32 (fat32_rename_file fuel (disk_read_sectors hw) old_name new_name (f32 s)) s)"

text \<open>The result with the values stored for the caller: none when the file system is not ready.\<close>

definition fs_get_free_space :: "('d, 'e) hardware \<Rightarrow> ('d, 'e) fs \<Rightarrow> ((bool \<times> (u32 \<times> u32) option) \<times> ('d, 'e) fs) option" where
  "fs_get_free_space hw s = (case fs_ensure_init hw s of
     None \<Rightarrow> None
   | Some (False, s) \<Rightarrow> Some ((False, None), s)
   | Some (True, s) \<Rightarrow>
       if current_fs_type s = FS_FAT12 then Some ((True, Some (1440 * 1024, 1440 * 1024)), s)
       else Some ((False, Some (0, 0)), s))"

section \<open>Volume label\<close>

definition fs_get_volume_label :: "('d, 'e) hardware \<Rightarrow> ('d, 'e) fs \<Rightarrow> (u8 list option \<times> ('d, 'e) fs) option" where
  "fs_get_volume_label hw s = (case fs_ensure_init hw s of
     None \<Rightarrow> None
   | Some (False, s) \<Rightarrow> Some (None, s)
   | Some (True, s) \<Rightarrow>
       let vol_off = (if current_fs_type s = FS_FAT32 then 0x47 else 0x2B);
           c = (\<lambda>i. low_memory s (0x7C00 + vol_off + i))
       in Some (Some (map (\<lambda>i. if 32 \<le> c i \<and> c i < 127 then c i else 0x20) [0..<11]), s))"

text \<open>The caller's label is read for eleven bytes, also behind its terminating zero.\<close>

definition fs_set_volume_label :: "('d, 'e) hardware \<Rightarrow> buf \<Rightarrow> ('d, 'e) fs \<Rightarrow> (bool \<times> ('d, 'e) fs) option" where
  "fs_set_volume_label hw new_label s = (case fs_ensure_init hw s of
     None \<Rightarrow> None
   | Some (False, s) \<Rightarrow> Some (False, s)
   | Some (True, s) \<Rightarrow>
       if current_fs_type s \<noteq> FS_FAT32 then Some (False, s)
       else let s = s\<lparr>memory := copy_ram (0x7C00 + 0x47) 11 (\<lambda>i. if new_label i \<noteq> 0 then new_label i else 0x20) (memory s)\<rparr>;
                (ok, d) = disk_write_sectors hw 0 1 (\<lambda>i. low_memory s (0x7C00 + i)) (fat32.device (f32 s))
            in Some (ok, s\<lparr>f32 := (f32 s)\<lparr>fat32.device := d\<rparr>\<rparr>))"

section \<open>Names\<close>

lemma to_upper_props [simp]: "to_upper (to_upper c) = to_upper c" "to_upper c = 0x20 \<longleftrightarrow> c = 0x20" "to_upper c = 0x2E \<longleftrightarrow> c = 0x2E"
proof -
  have r: "unat (c - 32) = unat c - 32" "65 \<le> unat (c - 32)" "unat (c - 32) \<le> 90" if "97 \<le> c" "c \<le> 122"
  proof -
    have "unat (c - 32) = unat c - unat (32 :: u8)" using that by (intro unat_sub) (simp add: word_le_nat_alt)
    then show "unat (c - 32) = unat c - 32" by simp
    then show "65 \<le> unat (c - 32)" "unat (c - 32) \<le> 90" using that by (simp_all add: word_le_nat_alt)
  qed
  show "to_upper (to_upper c) = to_upper c" using r by (auto simp: to_upper_def word_le_nat_alt)
  show "to_upper c = 0x20 \<longleftrightarrow> c = 0x20" using r by (auto simp: to_upper_def word_unat_eq_iff word_le_nat_alt)
  show "to_upper c = 0x2E \<longleftrightarrow> c = 0x2E" using r by (auto simp: to_upper_def word_unat_eq_iff word_le_nat_alt)
qed

lemma in_set_tlD: "x \<in> set (tl xs) \<Longrightarrow> x \<in> set xs"
  by (cases xs) auto

lemma takeWhile_upper: "takeWhile (\<lambda>c. c \<noteq> 0x2E) (map to_upper xs) = map to_upper (takeWhile (\<lambda>c. c \<noteq> 0x2E) xs)"
  "dropWhile (\<lambda>c. c \<noteq> 0x2E) (map to_upper xs) = map to_upper (dropWhile (\<lambda>c. c \<noteq> 0x2E) xs)"
  by (simp_all add: takeWhile_map dropWhile_map comp_def)

lemma convert_upper: "convert_to_83 (map to_upper xs) = convert_to_83 xs"
  by (simp add: convert_to_83_eq takeWhile_upper take_map map_tl [symmetric] comp_def)

lemma upper_convert: "map to_upper (convert_to_83 xs) = convert_to_83 xs"
  by (simp add: convert_to_83_eq pad_def comp_def)

lemma fs_name_upper: "length n = 11 \<Longrightarrow> fs_name (map to_upper n) = map to_upper (fs_name n)"
  by (simp add: fs_name_def take_map drop_map filter_map comp_def)

lemma filter_pad: "0x20 \<notin> set xs \<Longrightarrow> filter (\<lambda>c. c \<noteq> 0x20) (pad n xs) = xs"
  by (induction xs) (auto simp: pad_def filter_empty_conv)

lemma split_dot: "0x2E \<notin> set m \<Longrightarrow> takeWhile (\<lambda>c. c \<noteq> 0x2E) (m @ 0x2E # y) = m \<and> dropWhile (\<lambda>c. c \<noteq> 0x2E) (m @ 0x2E # y) = 0x2E # (y :: u8 list)"
  "0x2E \<notin> set m \<Longrightarrow> takeWhile (\<lambda>c. c \<noteq> 0x2E) m = m \<and> dropWhile (\<lambda>c. c \<noteq> 0x2E) m = ([] :: u8 list)"
  by (induction m) auto

text \<open>The name shown for an entry leads back to the entry, unless the name has blanks.\<close>

lemma convert_fs_name:
  assumes "0x20 \<notin> set name"
  shows "convert_to_83 (fs_name (convert_to_83 name)) = convert_to_83 name"
proof -
  let ?P = "\<lambda>c :: u8. c \<noteq> 0x2E"
  define m x where "m = map to_upper (take 8 (takeWhile ?P name))" and "x = map to_upper (take 3 (tl (dropWhile ?P name)))"
  have c: "convert_to_83 name = pad 8 m @ pad 3 x" by (simp add: convert_to_83_eq m_def x_def)
  have "set (take 8 (takeWhile ?P name)) \<subseteq> set name" "set (take 3 (tl (dropWhile ?P name))) \<subseteq> set name"
    by (auto dest!: in_set_takeD set_takeWhileD in_set_tlD set_dropWhileD)
  then have "set m \<subseteq> to_upper ` set name" "set x \<subseteq> to_upper ` set name" by (auto simp: m_def x_def)
  moreover have "0x20 \<notin> to_upper ` set name" using assms to_upper_props(2) by (metis imageE)
  ultimately have blank: "0x20 \<notin> set m" "0x20 \<notin> set x" by blast+
  have dot: "0x2E \<notin> set m" by (auto simp: m_def dest!: in_set_takeD set_takeWhileD)
  have len: "length (pad 8 m) = 8" "length m \<le> 8" "length x \<le> 3" by (simp_all add: m_def x_def pad_def)
  have h: "(pad 8 m @ pad 3 x) ! 8 \<noteq> 0x20 \<longleftrightarrow> x \<noteq> []"
    using len blank(2) by (cases x) (auto simp: nth_append pad_def)
  have "fs_name (pad 8 m @ pad 3 x) = m @ (if x \<noteq> [] then 0x2E # x else [])"
    unfolding fs_name_def h using len filter_pad [OF blank(1), of 8] filter_pad [OF blank(2), of 3] by (simp add: pad_def)
  then have fn: "fs_name (convert_to_83 name) = m @ (if x \<noteq> [] then 0x2E # x else [])" unfolding c .
  have tw: "takeWhile ?P (m @ (if x \<noteq> [] then 0x2E # x else [])) = m" "dropWhile ?P (m @ (if x \<noteq> [] then 0x2E # x else [])) = (if x \<noteq> [] then 0x2E # x else [])"
    using split_dot [OF dot] by (cases "x = []"; simp)+
  have up: "map to_upper m = m" "map to_upper x = x" by (simp_all add: m_def x_def comp_def)
  have tk: "take 8 m = m" "take 3 (tl (if x \<noteq> [] then 0x2E # x else [])) = x" using len by simp_all
  have "convert_to_83 (fs_name (convert_to_83 name)) = pad 8 m @ pad 3 x"
    unfolding fn convert_to_83_eq [of "m @ (if x \<noteq> [] then 0x2E # x else [])"] tw tk up ..
  then show ?thesis unfolding c .
qed

lemma find_from_name: "fat12_find_from k i b n = Some x \<Longrightarrow> name_cmp (de_name (get_entry b x)) n = 0"
  by (induction k i b n rule: fat12_find_from.induct) (auto simp: Let_def split: if_splits)

lemma find_by_shown_name:
  assumes "fat12_find_file name s = Some x" "0x20 \<notin> set name"
  shows "fat12_find_file (fs_name (de_name (get_entry (root_dir_buf s) x))) s = Some x"
proof -
  let ?n = "de_name (get_entry (root_dir_buf s) x)"
  have len: "length ?n = 11" by (simp add: get_entry_def Let_def)
  have "name_cmp ?n (convert_to_83 name) = 0" using assms(1) find_from_name by (auto simp: fat12_find_file_def)
  then have "map to_upper ?n = convert_to_83 name" using name_cmp_0 [of ?n "convert_to_83 name"] len upper_convert by simp
  then have "convert_to_83 (fs_name ?n) = convert_to_83 name"
    using convert_fs_name [OF assms(2)] convert_upper [of "fs_name ?n"] fs_name_upper [OF len] by simp
  then show ?thesis using assms(1) by (simp add: fat12_find_file_def)
qed

section \<open>A floppy in drive A\<close>

definition drive_a_is_floppy :: "drives \<Rightarrow> bool" where
  "drive_a_is_floppy d = (case drive_get_info 0 d of None \<Rightarrow> False | Some info \<Rightarrow> drv_type info = DRIVE_TYPE_FLOPPY \<and> device_id info = 0)"

text \<open>What mounting drive A leaves behind.\<close>

definition floppy_mounted :: "('d, 'e) hardware \<Rightarrow> ('d, 'e) fs \<Rightarrow> bool" where
  "floppy_mounted hw s \<longleftrightarrow> current_fs_type s = FS_FAT12 \<and> fat12_read (f12 s) = Some (floppy_read_a (hw_read hw)) \<and>
     fat12_write (f12 s) = Some (floppy_write_a (hw_dir hw) (hw_write hw)) \<and> volume 2880 (f12 s) \<and> geometry_ok (fat12.device (f12 s))"

lemma init_floppy_mounted:
  assumes "controller_ok (hw_read hw) (hw_write hw) content" "floppy_bpb (low_memory s)" "geometry_ok (fat12.device (f12 s))"
  shows "\<exists>t. fs_init_floppy hw 0 s = Some (True, t) \<and> floppy_mounted hw t"
proof -
  let ?f = "(f12 s)\<lparr>fat12_read := Some (floppy_read_a (hw_read hw))\<rparr>"
  obtain f where f: "fat12_init_common (low_memory s) 0x7C00 ?f = Some (True, f)" "volume 2880 f" "fat12_read f = fat12_read ?f" "fat12.device f = fat12.device ?f"
    using mount_floppy [OF assms(1,2), of ?f] assms(3) by auto
  then show ?thesis using assms(3)
    by (simp add: fs_init_floppy_def fat12_init_ex_def fat12_set_write_fn_def floppy_mounted_def volume_def)
qed

lemma set_drive_mounted:
  assumes "controller_ok (hw_read hw) (hw_write hw) content" "drive_a_is_floppy (drv s)" "current_fs_type s = FS_NONE"
    "floppy_bpb (low_memory s)" "geometry_ok (fat12.device (f12 s))"
  shows "\<exists>t. fs_set_current_drive hw 65 s = Some (True, t) \<and> floppy_mounted hw t"
proof -
  let ?s = "s\<lparr>current_drive := 65, current_fs_type := FS_NONE\<rparr>"
  have "fs_set_current_drive hw 65 s = fs_init_floppy hw 0 ?s"
    using assms(2,3) by (auto simp: fs_set_current_drive_def drive_a_is_floppy_def drive_types split: option.splits)
  then show ?thesis using init_floppy_mounted [OF assms(1), of ?s] assms(4,5) by (simp add: low_memory_def)
qed

lemma ensure_mounted: "floppy_mounted hw s \<Longrightarrow> fs_ensure_init hw s = Some (True, s) \<and> current_fs_type s = FS_FAT12"
  by (simp add: floppy_mounted_def fs_ensure_init_def fs_types)

text \<open>There is room for a file: an entry in the directory and enough free clusters.\<close>

definition file_fits :: "u8 list \<Rightarrow> u32 \<Rightarrow> 'd fdc fat12 \<Rightarrow> bool" where
  "file_fits name sz f \<longleftrightarrow> has_room name f \<and> unat sz \<le> 16777216 \<and>
     clusters_for (unat sz) f \<le> card (free_clusters (released name f)) \<and> clusters_for (unat sz) f \<le> 512"

lemma mounted_write:
  assumes "controller_ok (hw_read hw) (hw_write hw) content" "controller_writes (hw_dir hw) (hw_write hw)" "floppy_mounted hw t" "file_fits name sz (f12 t)"
  shows "\<exists>f. fs_write_file hw fuel junk name data sz t = Some (True, t\<lparr>f12 := f\<rparr>) \<and> fat12_write_file junk name data sz (f12 t) = Some (True, f)"
proof -
  obtain f where f: "fat12_write_file junk name data sz (f12 t) = Some (True, f)"
    using write_succeeds [OF floppy_disk(1) [OF assms(1)] floppy_writes(1) [OF assms(2)], of "f12 t" name sz junk data] assms(3,4)
    unfolding floppy_mounted_def file_fits_def by blast
  then have "fs_write_file hw fuel junk name data sz t = Some (True, t\<lparr>f12 := f\<rparr>)"
    using ensure_mounted [OF assms(3)] by (simp add: fs_write_file_def dispatch_def with_f12_def)
  then show ?thesis using f by blast
qed


section \<open>An example\<close>

text \<open>An empty disk of twelve sectors in drive A.\<close>

definition demo_hw :: "(mem_disks, unit) hardware" where
  "demo_hw = \<lparr>hw_read = mem_xread, hw_write = mem_xwrite, hw_dir = (\<lambda>_. 0), disk_read_sectors = (\<lambda>_ _ _. None), disk_write_sectors = (\<lambda>_ _ _ d. (False, d))\<rparr>"

definition boot_memory :: "u32 \<Rightarrow> u8" where
  "boot_memory = (\<lambda>_. 0)(0x7C0C := 2, 0x7C0D := 1, 0x7C0E := 1, 0x7C10 := 1, 0x7C11 := 16, 0x7C13 := 12, 0x7C16 := 1)"

definition blank_fat12 :: "mem_disks fdc fat12" where
  "blank_fat12 = \<lparr>fat12_read = None, fat12_write = None, bpb_bytes_per_sec = 0, bpb_sec_per_clust = 0, bpb_reserved_secs = 0, bpb_num_fats = 0,
     bpb_root_entries = 0, bpb_total_secs = 0, bpb_fat_size = 0, fat_table = (\<lambda>_. 0), root_dir_buf = (\<lambda>_. 0), fat_start_lba = 0, root_dir_lba = 0,
     data_area_lba = 0, device = demo_fdc (\<lambda>_ _ _ _ _. 0)\<rparr>"

definition blank_fat32 :: "unit fat32" where
  "blank_fat32 = \<lparr>bpb_bytes_per_sec = 0, bpb_sec_per_clust = 0, bpb_reserved_secs = 0, bpb_num_fats = 0, bpb_total_secs = 0, bpb_fat_size = 0,
     bpb_root_cluster = 0, bpb_fs_info = 0, fat_start_lba = 0, data_area_lba = 0, total_clusters = 0, fat_buf = (\<lambda>_. 0), sector_buf = (\<lambda>_. 0),
     found_entry = new_entry [], device = ()\<rparr>"

definition demo_drives :: drives where
  "demo_drives = drive_register 0 DRIVE_TYPE_FLOPPY 0 0 (drive_init
     \<lparr>drive_table = replicate 26 \<lparr>drv_type = 0, device_id = 0, partition_lba = 0, mounted = False, label = replicate 12 0\<rparr>, g_current_drive = 0\<rparr>)"

definition demo_fs :: "(mem_disks, unit) fs" where
  "demo_fs = \<lparr>current_drive = 65, current_fs_type = FS_NONE, fat12_initialized = False,
     fs_found = \<lparr>fe_name = [], fe_attr = 0, fe_size = 0, is_directory = False\<rparr>, f12 = blank_fat12, f32 = blank_fat32, drv = demo_drives,
     iso_mounted = False, memory = boot_memory\<rparr>"

lemma demo_boot: "low_memory demo_fs 0x7C0B = 0" "low_memory demo_fs 0x7C0C = 2" "low_memory demo_fs 0x7C0D = 1" "low_memory demo_fs 0x7C0E = 1"
  "low_memory demo_fs 0x7C0F = 0" "low_memory demo_fs 0x7C10 = 1" "low_memory demo_fs 0x7C11 = 16" "low_memory demo_fs 0x7C12 = 0" "low_memory demo_fs 0x7C13 = 12"
  "low_memory demo_fs 0x7C14 = 0" "low_memory demo_fs 0x7C16 = 1" "low_memory demo_fs 0x7C17 = 0"
  by (simp_all add: low_memory_def demo_fs_def boot_memory_def)

lemma demo_ok: "controller_ok (hw_read demo_hw) (hw_write demo_hw) (\<lambda>d. d)" "controller_writes (hw_dir demo_hw) (hw_write demo_hw)"
  "drive_a_is_floppy (drv demo_fs)" "current_fs_type demo_fs = FS_NONE" "floppy_bpb (low_memory demo_fs)" "geometry_ok (fat12.device (f12 demo_fs))"
proof -
  show "controller_ok (hw_read demo_hw) (hw_write demo_hw) (\<lambda>d. d)" using mem_controller by (simp add: demo_hw_def)
  show "controller_writes (hw_dir demo_hw) (hw_write demo_hw)" by (simp add: demo_hw_def controller_writes_def mem_xwrite_def)
  have "drives_ok (drive_init \<lparr>drive_table = replicate 26 \<lparr>drv_type = 0, device_id = 0, partition_lba = 0, mounted = False, label = replicate 12 0\<rparr>, g_current_drive = 0\<rparr>)"
    by (rule drive_init_ok) (simp add: DRIVE_MAX_def)
  note get = drive_get_register [OF this, of 0 0 DRIVE_TYPE_FLOPPY 0 0]
  show "drive_a_is_floppy (drv demo_fs)" unfolding drive_a_is_floppy_def demo_fs_def demo_drives_def fs.simps get
    by (simp add: DRIVE_MAX_def drive_types)
  show "current_fs_type demo_fs = FS_NONE" "geometry_ok (fat12.device (f12 demo_fs))" by (simp_all add: demo_fs_def blank_fat12_def demo_fdc_state)
  show "floppy_bpb (low_memory demo_fs)" by (simp add: floppy_bpb_def rd16_def demo_boot)
qed

lemma demo_floppy_read: "unat l < 2880 \<Longrightarrow> \<exists>b. floppy_read_a mem_xread l 1 (demo_fdc (\<lambda>_ _ _ _ _. 0)) = Some b \<and> (\<forall>i<512. b i = 0)"
  using read_one [OF mem_controller demo_fdc_state(3), of 0 l "\<lambda>_ _ _ _ _. 0"] by (simp add: floppy_read_a_def floppy_sec_def demo_fdc_state)

lemma demo_mount:
  "\<exists>t. fs_set_current_drive demo_hw 65 demo_fs = Some (True, t) \<and> fat_table (f12 t) = (\<lambda>_. 0) \<and> root_dir_buf (f12 t) = (\<lambda>_. 0) \<and>
     bpb_root_entries (f12 t) = 16 \<and> fat12.bpb_sec_per_clust (f12 t) = 1 \<and> fat12.bpb_total_secs (f12 t) = 12 \<and> fat12.data_area_lba (f12 t) = 3"
proof -
  obtain b1 where b1: "floppy_read_a mem_xread 1 1 (demo_fdc (\<lambda>_ _ _ _ _. 0)) = Some b1" "\<forall>i<512. b1 i = 0" using demo_floppy_read [of 1] by auto
  obtain b2 where b2: "floppy_read_a mem_xread 2 1 (demo_fdc (\<lambda>_ _ _ _ _. 0)) = Some b2" "\<forall>i<512. b2 i = 0" using demo_floppy_read [of 2] by auto
  have z: "copy_to 0 512 b1 (\<lambda>_. 0) = (\<lambda>_. 0)" "copy_to 0 512 b2 (\<lambda>_. 0) = (\<lambda>_. 0)" using b1(2) b2(2) by (auto simp: copy_to_def)
  let ?s = "demo_fs\<lparr>current_drive := 65, current_fs_type := FS_NONE\<rparr>"
  have lm: "low_memory ?s = low_memory demo_fs" by (simp add: low_memory_def)
  have rd: "rd16 (low_memory demo_fs) 0x7C0B = 512" "rd16 (low_memory demo_fs) 0x7C0E = 1" "rd16 (low_memory demo_fs) 0x7C11 = 16"
    "rd16 (low_memory demo_fs) 0x7C13 = 12" "rd16 (low_memory demo_fs) 0x7C16 = 1"
    by (simp_all add: rd16_def demo_boot)
  have "\<exists>f. fat12_init_common (low_memory demo_fs) 0x7C00 (blank_fat12\<lparr>fat12_read := Some (floppy_read_a mem_xread)\<rparr>) = Some (True, f) \<and>
      fat_table f = (\<lambda>_. 0) \<and> root_dir_buf f = (\<lambda>_. 0) \<and> bpb_root_entries f = 16 \<and> fat12.bpb_sec_per_clust f = 1 \<and> fat12.bpb_total_secs f = 12 \<and>
      fat12.data_area_lba f = 3"
    using b1(1) b2(1) z by (simp add: fat12_init_common_def Let_def rd demo_boot do_read_def blank_fat12_def)
  then obtain f where f: "fat12_init_common (low_memory demo_fs) 0x7C00 (blank_fat12\<lparr>fat12_read := Some (floppy_read_a mem_xread)\<rparr>) = Some (True, f)"
    "fat_table f = (\<lambda>_. 0)" "root_dir_buf f = (\<lambda>_. 0)" "bpb_root_entries f = 16" "fat12.bpb_sec_per_clust f = 1" "fat12.bpb_total_secs f = 12"
    "fat12.data_area_lba f = 3" by blast
  have "fs_set_current_drive demo_hw 65 demo_fs = fs_init_floppy demo_hw 0 ?s"
    using demo_ok(3,4) by (auto simp: fs_set_current_drive_def drive_a_is_floppy_def drive_types split: option.splits)
  moreover have "f12 ?s = blank_fat12" "hw_read demo_hw = mem_xread" by (simp_all add: demo_fs_def demo_hw_def)
  ultimately show ?thesis using f lm by (simp add: fs_init_floppy_def fat12_init_ex_def fat12_set_write_fn_def)
qed

lemma demo_fits:
  assumes "fat_table f = (\<lambda>_. 0)" "root_dir_buf f = (\<lambda>_. 0)" "bpb_root_entries f = 16" "fat12.bpb_sec_per_clust f = 1" "fat12.bpb_total_secs f = 12"
    "fat12.data_area_lba f = 3"
  shows "file_fits [65] 3 f"
proof -
  have e: "hd (de_name (get_entry (\<lambda>_. 0) 0)) = 0" by (simp add: get_entry_def Let_def hd_map)
  then have "has_room [65] f" using assms(2,3) by (auto simp: has_room_def intro!: exI [of _ 0])
  moreover have "fat12_find_from 16 0 (\<lambda>_. 0) nm = None" for nm by (simp add: numeral_eq_Suc e Let_def)
  then have r: "released [65] f = f" using assms(2,3) by (simp add: released_def fat12_find_file_def)
  have "fat12_get_next_cluster c (\<lambda>_. 0) = 0" for c by (simp add: fat12_get_next_cluster_def Let_def)
  then have "free_clusters f = {2..<11}" using assms by (auto simp: free_clusters_def fat12_range_def fat12_total_clusters_def)
  then have "clusters_for (unat (3 :: u32)) f \<le> card (free_clusters (released [65] f))" "clusters_for (unat (3 :: u32)) f \<le> 512"
    unfolding r using assms(4) by (simp_all add: clusters_for_def)
  ultimately show ?thesis by (simp add: file_fits_def)
qed


end
