(* ===== verification/Keyboard.thy ===== *)
theory Keyboard
  imports Ring_Buffer
begin

text \<open>
  The keyboard driver \<^verbatim>\<open>src/kernel/drivers/keyboard.c\<close>: the ring buffer between the interrupt handler and the readers, the decoding of
  scan codes, and reading of characters and lines.  The interrupt handler is a function of the byte at port 0x60.  Waiting for a
  character is modelled over a list of what happens meanwhile.  Echo on the screen is left out.
\<close>

unbundle bit_operations_syntax

section \<open>State\<close>

definition KBD_BUFFER_SIZE :: nat where "KBD_BUFFER_SIZE = 64"

record kbd =
  kbd_buffer :: "u8 list"
  kbd_head :: nat
  kbd_tail :: nat
  kbd_count :: nat
  shift_pressed :: bool
  caps_lock :: bool
  ctrl_pressed :: bool
  alt_pressed :: bool
  e0_prefix :: bool

definition scancode_table :: "u8 list" where
  "scancode_table = [0, 27, 49, 50, 51, 52, 53, 54, 55, 56, 57, 48, 45, 61, 8, 9, 113, 119, 101, 114, 116, 121, 117, 105, 111, 112, 91, 93,
     13, 0, 97, 115, 100, 102, 103, 104, 106, 107, 108, 59, 39, 96, 0, 92, 122, 120, 99, 118, 98, 110, 109, 44, 46, 47, 0, 42,
     0, 32, 0, 0, 0, 0, 0, 0, 0, 0, 0, 0, 0, 0, 0, 55, 56, 57, 45, 52, 53, 54, 43, 49, 50, 51, 48, 46] @ replicate 44 0"

definition scancode_shift_table :: "u8 list" where
  "scancode_shift_table = [0, 27, 33, 64, 35, 36, 37, 94, 38, 42, 40, 41, 95, 43, 8, 9, 81, 87, 69, 82, 84, 89, 85, 73, 79, 80, 123, 125,
     13, 0, 65, 83, 68, 70, 71, 72, 74, 75, 76, 58, 34, 126, 0, 124, 90, 88, 67, 86, 66, 78, 77, 60, 62, 63, 0, 42,
     0, 32, 0, 0, 0, 0, 0, 0, 0, 0, 0, 0, 0, 0, 0, 55, 56, 57, 45, 52, 53, 54, 43, 49, 50, 51, 48, 46] @ replicate 44 0"

section \<open>The ring buffer\<close>

definition kbd_buffer_put :: "u8 \<Rightarrow> kbd \<Rightarrow> kbd" where
  "kbd_buffer_put c k =
     (if kbd_count k \<ge> KBD_BUFFER_SIZE then k
      else k\<lparr>kbd_buffer := (kbd_buffer k)[kbd_tail k := c], kbd_tail := (kbd_tail k + 1) mod KBD_BUFFER_SIZE, kbd_count := kbd_count k + 1\<rparr>)"

text \<open>The result is an \<open>int\<close>: the sign extended character, or -1.\<close>

definition kbd_buffer_get :: "kbd \<Rightarrow> int \<times> kbd" where
  "kbd_buffer_get k =
     (if kbd_count k \<le> 0 then (-1, k)
      else let c = kbd_buffer k ! kbd_head k
           in (sint c, k\<lparr>kbd_head := (kbd_head k + 1) mod KBD_BUFFER_SIZE, kbd_count := kbd_count k - 1\<rparr>))"

definition kbd_put_arrow :: "u8 \<Rightarrow> kbd \<Rightarrow> kbd" where
  "kbd_put_arrow dir k = kbd_buffer_put dir (kbd_buffer_put 0x5B (kbd_buffer_put 0x1B k))"

section \<open>The interrupt handler\<close>

definition KBD_ESC_UP :: u8 where "KBD_ESC_UP = 0x41"
definition KBD_ESC_DOWN :: u8 where "KBD_ESC_DOWN = 0x42"
definition KBD_ESC_RIGHT :: u8 where "KBD_ESC_RIGHT = 0x43"
definition KBD_ESC_LEFT :: u8 where "KBD_ESC_LEFT = 0x44"

definition e0_key :: "u8 \<Rightarrow> kbd \<Rightarrow> kbd" where
  "e0_key scancode k =
     (if scancode AND 0x80 \<noteq> 0 then k
      else if scancode = 0x48 then kbd_put_arrow KBD_ESC_UP k
      else if scancode = 0x50 then kbd_put_arrow KBD_ESC_DOWN k
      else if scancode = 0x4B then kbd_put_arrow KBD_ESC_LEFT k
      else if scancode = 0x4D then kbd_put_arrow KBD_ESC_RIGHT k
      else if scancode = 0x53 then kbd_buffer_put 0x7F k
      else if scancode = 0x47 then kbd_buffer_put 0x48 (kbd_buffer_put 0x5B (kbd_buffer_put 0x1B k))
      else if scancode = 0x4F then kbd_buffer_put 0x46 (kbd_buffer_put 0x5B (kbd_buffer_put 0x1B k))
      else k)"

definition release_key :: "u8 \<Rightarrow> kbd \<Rightarrow> kbd" where
  "release_key scancode k =
     (if scancode = 0x2A \<or> scancode = 0x36 then k\<lparr>shift_pressed := False\<rparr>
      else if scancode = 0x1D then k\<lparr>ctrl_pressed := False\<rparr>
      else if scancode = 0x38 then k\<lparr>alt_pressed := False\<rparr>
      else k)"

definition scan_ascii :: "bool \<Rightarrow> bool \<Rightarrow> u8 \<Rightarrow> u8" where
  "scan_ascii shifted caps scancode =
     (let ascii = (if shifted then scancode_shift_table ! unat scancode else scancode_table ! unat scancode)
      in if caps \<and> 0x61 \<le> ascii \<and> ascii \<le> 0x7A then ascii - 32
         else if caps \<and> 0x41 \<le> ascii \<and> ascii \<le> 0x5A then ascii + 32
         else ascii)"

definition function_key :: "u8 \<Rightarrow> bool" where
  "function_key scancode \<longleftrightarrow> scancode \<in> {0x3B, 0x3C, 0x3D, 0x3E, 0x3F, 0x40, 0x41, 0x42, 0x43, 0x44, 0x57, 0x58}"

definition press_key :: "u8 \<Rightarrow> kbd \<Rightarrow> kbd" where
  "press_key scancode k =
     (if scancode = 0x2A \<or> scancode = 0x36 then k\<lparr>shift_pressed := True\<rparr>
      else if scancode = 0x1D then k\<lparr>ctrl_pressed := True\<rparr>
      else if scancode = 0x38 then k\<lparr>alt_pressed := True\<rparr>
      else if scancode = 0x3A then k\<lparr>caps_lock := \<not> caps_lock k\<rparr>
      else if function_key scancode then k
      else if scancode = 0x01 then kbd_buffer_put 0x1B k
      else if scancode \<ge> 128 then k
      else let ascii = scan_ascii (shift_pressed k) (caps_lock k) scancode
           in if ascii \<noteq> 0 then kbd_buffer_put ascii k else k)"

definition kbd_interrupt_handler :: "u8 \<Rightarrow> kbd \<Rightarrow> kbd" where
  "kbd_interrupt_handler scancode k =
     (if scancode = 0xE0 then k\<lparr>e0_prefix := True\<rparr>
      else if e0_prefix k then e0_key scancode (k\<lparr>e0_prefix := False\<rparr>)
      else if scancode AND 0x80 \<noteq> 0 then release_key (scancode AND 0x7F) k
      else press_key scancode k)"

section \<open>Initialisation\<close>

text \<open>
  \<open>resp i\<close> is the \<open>i\<close>-th byte that the controller hands to \<open>kbd_read_data\<close>.  The result has the bytes written to the command port 0x64 and the data port 0x60 in
  order, and whether the keyboard was reported ready.  Polling of the status register is left out.
\<close>

datatype port_write = Cmd u8 | Data u8

definition config_byte :: "u8 \<Rightarrow> u8" where
  "config_byte config = ((((config OR 0x01) AND NOT 0x02) OR 0x40) OR 0x04)"

definition keyboard_init :: "(nat \<Rightarrow> u8) \<Rightarrow> kbd \<Rightarrow> (bool \<times> port_write list) \<times> kbd" where
  "keyboard_init resp k =
     (let k = k\<lparr>kbd_head := 0, kbd_tail := 0, kbd_count := 0, shift_pressed := False, caps_lock := False, ctrl_pressed := False,
            alt_pressed := False, e0_prefix := False\<rparr>;
          out = [Cmd 0xAD, Cmd 0xA7, Cmd 0x20, Cmd 0x60, Data (config_byte (resp 0)), Cmd 0xAA]
      in if resp 1 \<noteq> 0x55 then ((False, out), k)
         else let out = out @ [Cmd 0xAB] in
         if resp 2 \<noteq> 0x00 then ((False, out), k)
         else let out = out @ [Cmd 0xAE, Data 0xFF, Data 0xF4]
              in ((resp 5 = 0xFA, out), k))"

section \<open>Reading\<close>

text \<open>
  One round of the waiting loop in \<open>keyboard_getchar\<close> ends with a character from the serial line, or with scan codes that arrive while the processor is
  halted.  \<open>None\<close>: the caller still waits when the list ends.
\<close>

datatype idle_event = Serial u8 | Halt "u8 list"

fun keyboard_getchar :: "idle_event list \<Rightarrow> kbd \<Rightarrow> (u8 \<times> idle_event list \<times> kbd) option" where
  "keyboard_getchar [] k = (case kbd_buffer_get k of (c, k) \<Rightarrow> if c \<noteq> -1 then Some (of_int c, [], k) else None)"
| "keyboard_getchar (e # es) k = (case kbd_buffer_get k of (c, k) \<Rightarrow>
     if c \<noteq> -1 then Some (of_int c, e # es, k)
     else case e of Serial ch \<Rightarrow> Some (ch, es, k) | Halt codes \<Rightarrow> keyboard_getchar es (fold kbd_interrupt_handler codes k))"

definition keyboard_available :: "kbd \<Rightarrow> bool" where
  "keyboard_available k \<longleftrightarrow> kbd_count k > 0"

lemma getchar_progress:
  "keyboard_getchar es k = Some (c, es', k') \<Longrightarrow> length es' < length es \<or> length es' = length es \<and> kbd_count k' < kbd_count k"
proof (induction es k rule: keyboard_getchar.induct)
  case (1 k)
  then show ?case by (auto simp: kbd_buffer_get_def Let_def split: if_splits)
next
  case (2 e es k)
  show ?case
  proof (cases "fst (kbd_buffer_get k) = -1")
    case False
    with 2(2) show ?thesis by (auto simp: kbd_buffer_get_def Let_def split: if_splits)
  next
    case True
    then show ?thesis using 2 by (cases e) (fastforce split: prod.splits)+
  qed
qed

text \<open>The line is stored in \<open>buf\<close>, an array of at least \<open>max_len\<close> characters.\<close>

function read_line_loop :: "nat \<Rightarrow> nat \<Rightarrow> u8 list \<Rightarrow> idle_event list \<Rightarrow> kbd \<Rightarrow> (nat \<times> u8 list \<times> idle_event list \<times> kbd) option" where
  "read_line_loop max_len len buf es k = (case keyboard_getchar es k of
     None \<Rightarrow> None
   | Some (c, es, k) \<Rightarrow>
       if c = 13 \<or> c = 10 then Some (len, buf[len := 0], es, k)
       else if c = 8 then read_line_loop max_len (if len > 0 then len - 1 else len) buf es k
       else if len + 1 < max_len then read_line_loop max_len (len + 1) (buf[len := c]) es k
       else read_line_loop max_len len buf es k)"
  by pat_completeness auto

termination
  by (relation "measures [\<lambda>(_, _, _, es, _). length es, \<lambda>(_, _, _, _, k). kbd_count k]") (auto dest: getchar_progress)

definition keyboard_read_line :: "nat \<Rightarrow> u8 list \<Rightarrow> idle_event list \<Rightarrow> kbd \<Rightarrow> (nat \<times> u8 list \<times> idle_event list \<times> kbd) option" where
  "keyboard_read_line max_len buf es k = read_line_loop max_len 0 buf es k"

section \<open>The buffer as a queue\<close>

definition kbd_ok :: "kbd \<Rightarrow> bool" where
  "kbd_ok k \<longleftrightarrow> length (kbd_buffer k) = KBD_BUFFER_SIZE \<and> kbd_head k < KBD_BUFFER_SIZE \<and> kbd_count k \<le> KBD_BUFFER_SIZE \<and>
     kbd_tail k = (kbd_head k + kbd_count k) mod KBD_BUFFER_SIZE"

definition kbd_queue :: "kbd \<Rightarrow> u8 list" where
  "kbd_queue k = map (\<lambda>i. kbd_buffer k ! ((kbd_head k + i) mod KBD_BUFFER_SIZE)) [0..<kbd_count k]"

lemma length_kbd_queue [simp]: "length (kbd_queue k) = kbd_count k"
  by (simp add: kbd_queue_def)

lemma kbd_ring:
  "kbd_queue k = ring_content KBD_BUFFER_SIZE (kbd_buffer k) (kbd_head k) (kbd_count k)"
  "kbd_ok k \<longleftrightarrow> ring_ok KBD_BUFFER_SIZE (kbd_buffer k) (kbd_head k) (kbd_tail k) (kbd_count k)"
  by (simp_all add: kbd_queue_def ring_content_def kbd_ok_def ring_ok_def)

lemma put_queue:
  "kbd_ok k \<Longrightarrow> kbd_queue (kbd_buffer_put c k) = (if kbd_count k < KBD_BUFFER_SIZE then kbd_queue k @ [c] else kbd_queue k)"
  using ring_put(1) [of KBD_BUFFER_SIZE "kbd_buffer k" "kbd_head k" "kbd_tail k" "kbd_count k" c] by (simp add: kbd_ring kbd_buffer_put_def)

lemma put_kbd_ok: "kbd_ok k \<Longrightarrow> kbd_ok (kbd_buffer_put c k)"
  using ring_put(2) [of KBD_BUFFER_SIZE "kbd_buffer k" "kbd_head k" "kbd_tail k" "kbd_count k" c] by (simp add: kbd_ring kbd_buffer_put_def)

lemma get_queue:
  assumes "kbd_ok k" "kbd_queue k = c # cs"
  shows "\<exists>t. kbd_buffer_get k = (sint c, t) \<and> kbd_ok t \<and> kbd_queue t = cs"
proof -
  have "0 < kbd_count k" using assms(2) length_kbd_queue [of k] by simp
  with assms ring_get [of KBD_BUFFER_SIZE "kbd_buffer k" "kbd_head k" "kbd_tail k" "kbd_count k"] show ?thesis
    by (simp add: kbd_ring kbd_buffer_get_def)
qed

interpretation kb: bounded_queue kbd_buffer_put kbd_buffer_get kbd_queue kbd_ok KBD_BUFFER_SIZE sint "-1"
proof unfold_locales
  fix k :: kbd and c cs
  show "kbd_ok k \<Longrightarrow> kbd_ok (kbd_buffer_put c k)" by (rule put_kbd_ok)
  show "kbd_ok k \<Longrightarrow> kbd_queue (kbd_buffer_put c k) = (if length (kbd_queue k) < KBD_BUFFER_SIZE then kbd_queue k @ [c] else kbd_queue k)"
    by (simp add: put_queue)
  show "kbd_ok k \<Longrightarrow> kbd_queue k = [] \<Longrightarrow> kbd_buffer_get k = (-1, k)"
    using length_kbd_queue [of k] by (simp add: kbd_buffer_get_def del: length_kbd_queue)
  show "kbd_ok k \<Longrightarrow> kbd_queue k = c # cs \<Longrightarrow> \<exists>t. kbd_buffer_get k = (sint c, t) \<and> kbd_ok t \<and> kbd_queue t = cs" by (rule get_queue)
  show "kbd_ok k \<Longrightarrow> length (kbd_queue k) \<le> KBD_BUFFER_SIZE" by (simp add: kbd_ok_def)
qed

section \<open>What a scan code does\<close>

definition e0_chars :: "u8 \<Rightarrow> u8 list" where
  "e0_chars sc =
     (if sc AND 0x80 \<noteq> 0 then [] else if sc = 0x48 then [0x1B, 0x5B, 0x41] else if sc = 0x50 then [0x1B, 0x5B, 0x42]
      else if sc = 0x4B then [0x1B, 0x5B, 0x44] else if sc = 0x4D then [0x1B, 0x5B, 0x43]
      else if sc = 0x53 then [0x7F] else if sc = 0x47 then [0x1B, 0x5B, 0x48] else if sc = 0x4F then [0x1B, 0x5B, 0x46] else [])"

definition press_chars :: "u8 \<Rightarrow> kbd \<Rightarrow> u8 list" where
  "press_chars sc k =
     (if sc = 0x2A \<or> sc = 0x36 then [] else if sc = 0x1D then [] else if sc = 0x38 then [] else if sc = 0x3A then []
      else if function_key sc then [] else if sc = 0x01 then [0x1B] else if sc \<ge> 128 then []
      else let ascii = scan_ascii (shift_pressed k) (caps_lock k) sc in if ascii \<noteq> 0 then [ascii] else [])"

definition press_flags :: "u8 \<Rightarrow> kbd \<Rightarrow> kbd" where
  "press_flags sc k =
     (if sc = 0x2A \<or> sc = 0x36 then k\<lparr>shift_pressed := True\<rparr> else if sc = 0x1D then k\<lparr>ctrl_pressed := True\<rparr>
      else if sc = 0x38 then k\<lparr>alt_pressed := True\<rparr> else if sc = 0x3A then k\<lparr>caps_lock := \<not> caps_lock k\<rparr> else k)"

definition key_chars :: "u8 \<Rightarrow> kbd \<Rightarrow> u8 list" where
  "key_chars sc k = (if sc = 0xE0 then [] else if e0_prefix k then e0_chars sc else if sc AND 0x80 \<noteq> 0 then [] else press_chars sc k)"

definition key_flags :: "u8 \<Rightarrow> kbd \<Rightarrow> kbd" where
  "key_flags sc k = (if sc = 0xE0 then k\<lparr>e0_prefix := True\<rparr> else if e0_prefix k then k\<lparr>e0_prefix := False\<rparr>
     else if sc AND 0x80 \<noteq> 0 then release_key (sc AND 0x7F) k else press_flags sc k)"

lemma fold_if: "fold f (if b then xs else ys) s = (if b then fold f xs s else fold f ys s)"
  by simp

lemma e0_key_eq: "e0_key sc k = fold kbd_buffer_put (e0_chars sc) k"
  unfolding e0_key_def e0_chars_def kbd_put_arrow_def KBD_ESC_UP_def KBD_ESC_DOWN_def KBD_ESC_LEFT_def KBD_ESC_RIGHT_def
  by (simp only: fold_if fold_simps)

lemma press_key_eq: "press_key sc k = fold kbd_buffer_put (press_chars sc k) (press_flags sc k)"
proof -
  have [simp]: "press_flags sc k = k" if "\<not> (sc = 0x2A \<or> sc = 0x36)" "sc \<noteq> 0x1D" "sc \<noteq> 0x38" "sc \<noteq> 0x3A"
    using that by (simp only: press_flags_def if_False)
  show ?thesis
    unfolding press_key_def press_chars_def Let_def fold_if fold_simps
    by (intro if_cong refl) (simp_all add: press_flags_def)
qed

lemma handler_eq: "kbd_interrupt_handler sc k = fold kbd_buffer_put (key_chars sc k) (key_flags sc k)"
  by (simp only: kbd_interrupt_handler_def key_chars_def key_flags_def e0_key_eq press_key_eq fold_if fold_simps split: if_split) simp

lemma flags_frame [simp]:
  "kbd_buffer (key_flags sc k) = kbd_buffer k" "kbd_head (key_flags sc k) = kbd_head k" "kbd_tail (key_flags sc k) = kbd_tail k"
  "kbd_count (key_flags sc k) = kbd_count k"
  by (simp_all add: key_flags_def release_key_def press_flags_def)

lemma flags_ok [simp]: "kbd_ok (key_flags sc k) = kbd_ok k" "kbd_queue (key_flags sc k) = kbd_queue k"
  by (simp_all add: kbd_ok_def kbd_queue_def)

lemma handler_ok: "kbd_ok k \<Longrightarrow> kbd_ok (kbd_interrupt_handler sc k)"
  and handler_queue: "kbd_ok k \<Longrightarrow> kbd_queue (kbd_interrupt_handler sc k) = take KBD_BUFFER_SIZE (kbd_queue k @ key_chars sc k)"
  using kb.put_all [of "key_flags sc k" "key_chars sc k"] by (simp_all add: handler_eq)

lemma handlers_ok: "kbd_ok k \<Longrightarrow> kbd_ok (fold kbd_interrupt_handler scs k)"
  by (induction scs arbitrary: k) (simp_all add: handler_ok)

section \<open>Interrupts during a read\<close>

text \<open>
  \<open>kbd_buffer_get\<close> runs with interrupts enabled.  \<open>get_interrupted irq n\<close> is its body with the interrupt handler run before statement \<open>n\<close> (the test, the read of the character, the
  two assignments, the return), each statement being indivisible.
\<close>

definition get_interrupted :: "(kbd \<Rightarrow> kbd) \<Rightarrow> nat \<Rightarrow> kbd \<Rightarrow> int \<times> kbd" where
  "get_interrupted irq n k =
     (let at = (\<lambda>i k. if i = n then irq k else k);
          k = at 0 k
      in if kbd_count k \<le> 0 then (-1, if n > 0 then irq k else k)
         else let k = at 1 k;
                  c = kbd_buffer k ! kbd_head k;
                  k = at 2 k;
                  k = k\<lparr>kbd_head := (kbd_head k + 1) mod KBD_BUFFER_SIZE\<rparr>;
                  k = at 3 k;
                  k = k\<lparr>kbd_count := kbd_count k - 1\<rparr>;
                  k = at 4 k
              in (sint c, k))"

lemma put_frame: "kbd_head (kbd_buffer_put c k) = kbd_head k" "kbd_count k \<le> kbd_count (kbd_buffer_put c k)"
  "kbd_buffer_put c (k\<lparr>kbd_head := h\<rparr>) = (kbd_buffer_put c k)\<lparr>kbd_head := h\<rparr>"
  by (simp_all add: kbd_buffer_put_def)

lemma puts_frame: "kbd_head (fold kbd_buffer_put cs k) = kbd_head k" "kbd_count k \<le> kbd_count (fold kbd_buffer_put cs k)"
  "fold kbd_buffer_put cs (k\<lparr>kbd_head := h\<rparr>) = (fold kbd_buffer_put cs k)\<lparr>kbd_head := h\<rparr>"
  by (induction cs arbitrary: k) (auto simp: put_frame intro: order_trans [OF put_frame(2)])

lemma handler_frame: "kbd_head (kbd_interrupt_handler sc k) = kbd_head k" "kbd_count k \<le> kbd_count (kbd_interrupt_handler sc k)"
  "kbd_interrupt_handler sc (k\<lparr>kbd_head := h\<rparr>) = (kbd_interrupt_handler sc k)\<lparr>kbd_head := h\<rparr>"
proof -
  have f: "key_flags sc (k\<lparr>kbd_head := h\<rparr>) = (key_flags sc k)\<lparr>kbd_head := h\<rparr>" "key_chars sc (k\<lparr>kbd_head := h\<rparr>) = key_chars sc k"
    by (simp_all add: key_flags_def release_key_def key_chars_def press_chars_def press_flags_def)
  show "kbd_head (kbd_interrupt_handler sc k) = kbd_head k" by (simp add: handler_eq puts_frame)
  show "kbd_count k \<le> kbd_count (kbd_interrupt_handler sc k)"
    using puts_frame(2) [of "key_flags sc k" "key_chars sc k"] by (simp add: handler_eq)
  show "kbd_interrupt_handler sc (k\<lparr>kbd_head := h\<rparr>) = (kbd_interrupt_handler sc k)\<lparr>kbd_head := h\<rparr>"
    unfolding handler_eq f by (rule puts_frame)
qed

lemma queue_head: "kbd_ok k \<Longrightarrow> 0 < kbd_count k \<Longrightarrow> kbd_buffer k ! kbd_head k = hd (kbd_queue k)"
  by (simp add: kbd_queue_def kbd_ok_def hd_map)

lemma handler_keeps_front:
  assumes "kbd_ok k" "0 < kbd_count k"
  shows "kbd_buffer (kbd_interrupt_handler sc k) ! kbd_head k = kbd_buffer k ! kbd_head k"
proof -
  have ne: "kbd_queue k \<noteq> []" using assms(2) length_kbd_queue [of k] by (auto simp del: length_kbd_queue)
  have "kbd_buffer (kbd_interrupt_handler sc k) ! kbd_head k = hd (kbd_queue (kbd_interrupt_handler sc k))"
    using queue_head [OF handler_ok [OF assms(1)], of sc] handler_frame(1,2) [where k = k and sc = sc] assms(2) by simp
  also have "\<dots> = hd (kbd_queue k)" using ne by (simp add: handler_queue [OF assms(1)] KBD_BUFFER_SIZE_def hd_append)
  finally show ?thesis by (simp add: queue_head [OF assms])
qed

lemma interrupted_get:
  assumes "kbd_ok k" "n \<le> 4"
  shows "get_interrupted (kbd_interrupt_handler sc) n k =
      (if n = 0 \<or> n < 4 \<and> 0 < kbd_count k then kbd_buffer_get (kbd_interrupt_handler sc k)
       else map_prod id (kbd_interrupt_handler sc) (kbd_buffer_get k))"
proof -
  have n: "n = 0 \<or> n = 1 \<or> n = 2 \<or> n = 3 \<or> n = 4" using assms(2) by auto
  show ?thesis
  proof (cases "0 < kbd_count k")
    case True
    then have "0 < kbd_count (kbd_interrupt_handler sc k)" using handler_frame(2) [where k = k and sc = sc] by simp
    with True n show ?thesis
      by (elim disjE) (simp_all add: get_interrupted_def kbd_buffer_get_def Let_def handler_keeps_front [OF assms(1)] handler_frame)
  next
    case False
    with n show ?thesis by (elim disjE) (simp_all add: get_interrupted_def kbd_buffer_get_def Let_def)
  qed
qed


section \<open>Typing\<close>

text \<open>The scan codes of a key for a character: press and release, inside shift where the shifted table has it.\<close>

definition type_key :: "u8 \<Rightarrow> u8 list" where
  "type_key c = (case find (\<lambda>i. scancode_table ! i = c) [0..<128] of
     Some i \<Rightarrow> [of_nat i, of_nat i + 0x80]
   | None \<Rightarrow> (case find (\<lambda>i. scancode_shift_table ! i = c) [0..<128] of
       Some i \<Rightarrow> [0x2A, of_nat i, of_nat i + 0x80, 0xAA] | None \<Rightarrow> []))"

definition plain_key :: "u8 \<Rightarrow> bool" where
  "plain_key sc \<longleftrightarrow> sc < 128 \<and> sc \<notin> {0x2A, 0x36, 0x1D, 0x38, 0x3A, 0x01, 0x60} \<and> \<not> function_key sc"

definition typable :: "u8 \<Rightarrow> bool" where
  "typable c \<longleftrightarrow> c \<in> set scancode_table \<union> set scancode_shift_table \<and> c \<noteq> 0 \<and> c \<noteq> 0x1B"

lemmas tables = scancode_table_def scancode_shift_table_def

lemma table_lengths [simp]: "length scancode_table = 128" "length scancode_shift_table = 128"
  by (simp_all add: tables)

lemma printable_typable:
  assumes "32 \<le> c" "c < 127"
  shows "typable c"
proof -
  have "list_all (\<lambda>n. n \<in> set (map unat (scancode_table @ scancode_shift_table))) [32..<127]" by (simp add: tables)
  moreover have "32 \<le> unat c \<and> unat c < 127" using assms by (simp add: word_le_nat_alt word_less_nat_alt)
  then have "unat c \<in> set [32..<127]" unfolding set_upt atLeastLessThan_iff .
  ultimately have "unat c \<in> unat ` set (scancode_table @ scancode_shift_table)" by (simp only: list_all_iff set_map)
  then have "c \<in> set (scancode_table @ scancode_shift_table)" by (auto dest: word_eq_iff_unsigned [THEN iffD2] simp: word_unat_eq_iff [symmetric])
  then show ?thesis using assms by (auto simp: typable_def)
qed

lemma special_codes:
  "sc \<in> {0x2A, 0x36, 0x1D, 0x38, 0x3A, 0x01, 0x60} \<or> function_key sc \<Longrightarrow>
   scancode_table ! unat sc \<in> {0, 0x1B} \<and> scancode_shift_table ! unat sc \<in> {0, 0x1B}"
  unfolding function_key_def insert_iff empty_iff by (elim disjE) (simp_all add: tables)

lemma release_codes:
  assumes "sc < 128"
  shows "sc AND 0x80 = 0" "(sc + 0x80) AND 0x80 \<noteq> 0" "(sc + 0x80) AND 0x7F = (sc :: u8)"
proof -
  have "list_all (\<lambda>i. (of_nat i :: u8) AND 0x80 = 0 \<and> (of_nat i + 0x80 :: u8) AND 0x80 \<noteq> 0 \<and> (of_nat i + 0x80 :: u8) AND 0x7F = of_nat i) [0..<128]"
    by code_simp
  moreover have "unat sc \<in> set [0..<128]" using assms by (simp add: word_less_nat_alt)
  ultimately have "sc AND 0x80 = 0 \<and> (sc + 0x80) AND 0x80 \<noteq> 0 \<and> (sc + 0x80) AND 0x7F = sc"
    unfolding list_all_iff by (auto dest!: bspec)
  then show "sc AND 0x80 = 0" "(sc + 0x80) AND 0x80 \<noteq> 0" "(sc + 0x80) AND 0x7F = sc" by auto
qed

lemma plain_press:
  "plain_key sc \<Longrightarrow> \<not> e0_prefix k \<Longrightarrow> scan_ascii (shift_pressed k) (caps_lock k) sc = c \<Longrightarrow> c \<noteq> 0 \<Longrightarrow>
   kbd_interrupt_handler sc k = kbd_buffer_put c k"
  using release_codes(1) [of sc] by (auto simp: plain_key_def kbd_interrupt_handler_def press_key_def)

lemma plain_release: "plain_key sc \<Longrightarrow> \<not> e0_prefix k \<Longrightarrow> kbd_interrupt_handler (sc + 0x80) k = k"
proof -
  assume p: "plain_key sc" and e: "\<not> e0_prefix k"
  then have "sc + 0x80 \<noteq> 0xE0" by (auto simp: plain_key_def eq_diff_eq [symmetric])
  then show ?thesis using p e release_codes [of sc] by (auto simp: plain_key_def kbd_interrupt_handler_def release_key_def)
qed

lemma shift_codes: "\<not> e0_prefix k \<Longrightarrow> kbd_interrupt_handler 0x2A k = k\<lparr>shift_pressed := True\<rparr>"
  "\<not> e0_prefix k \<Longrightarrow> kbd_interrupt_handler 0xAA k = k\<lparr>shift_pressed := False\<rparr>"
  by (simp_all add: kbd_interrupt_handler_def press_key_def release_key_def)

lemma found_key:
  assumes "find (\<lambda>i. t ! i = c) [0..<128] = Some i" "t = scancode_table \<or> t = scancode_shift_table" "c \<noteq> 0" "c \<noteq> 0x1B"
  shows "plain_key (of_nat i)" "unat (of_nat i :: u8) = i" "t ! i = c"
proof -
  have i: "i < 128" "t ! i = c" using assms(1) by (simp_all add: find_upt_Some)
  then show u: "unat (of_nat i :: u8) = i" and "t ! i = c" by (simp_all add: unat_of_nat_u8)
  with i special_codes [of "of_nat i"] assms(2-4) show "plain_key (of_nat i)"
    by (auto simp: plain_key_def word_less_nat_alt)
qed

lemma type_key_handled:
  assumes "typable c" "\<not> e0_prefix k" "\<not> shift_pressed k" "\<not> caps_lock k"
  shows "fold kbd_interrupt_handler (type_key c) k = kbd_buffer_put c k"
proof (cases "find (\<lambda>i. scancode_table ! i = c) [0..<128]")
  case (Some i)
  then have "plain_key (of_nat i)" "scan_ascii False False (of_nat i) = c" "c \<noteq> 0"
    using found_key [OF Some] assms(1) by (simp_all add: typable_def scan_ascii_def Let_def)
  then show ?thesis
    using assms Some plain_press [of "of_nat i" k c] plain_release [of "of_nat i" "kbd_buffer_put c k"]
    by (simp add: type_key_def kbd_buffer_put_def)
next
  case None
  then have "c \<notin> set scancode_table" by (auto simp: find_None_iff in_set_conv_nth)
  then have "c \<in> set scancode_shift_table" using assms(1) by (simp add: typable_def)
  then obtain i where i: "find (\<lambda>i. scancode_shift_table ! i = c) [0..<128] = Some i"
    by (cases "find (\<lambda>i. scancode_shift_table ! i = c) [0..<128]") (auto simp: find_None_iff in_set_conv_nth)
  then have "plain_key (of_nat i)" "scan_ascii True False (of_nat i) = c" "c \<noteq> 0"
    using found_key [OF i] assms(1) by (simp_all add: typable_def scan_ascii_def Let_def)
  then show ?thesis
    using assms None i plain_press [of "of_nat i" "k\<lparr>shift_pressed := True\<rparr>" c]
      plain_release [of "of_nat i" "kbd_buffer_put c (k\<lparr>shift_pressed := True\<rparr>)"]
    by (simp add: type_key_def shift_codes kbd_buffer_put_def)
qed

text \<open>No modifier is held and nothing waits in the buffer.\<close>

definition kbd_idle :: "kbd \<Rightarrow> bool" where
  "kbd_idle k \<longleftrightarrow> kbd_ok k \<and> kbd_count k = 0 \<and> \<not> shift_pressed k \<and> \<not> caps_lock k \<and> \<not> e0_prefix k"

lemma sint_kept: "of_int (sint c) = (c :: u8)"
  by simp

lemma typable_sint: "typable c \<Longrightarrow> sint c \<noteq> -1"
proof -
  have "- 1 \<notin> set scancode_table \<union> set scancode_shift_table" by (simp add: tables)
  moreover assume "typable c"
  ultimately have "c \<noteq> -1" by (auto simp: typable_def)
  then show ?thesis by (metis sint_kept of_int_minus of_int_1)
qed

lemma idle_get: "kbd_idle k \<Longrightarrow> kbd_buffer_get k = (-1, k)"
  by (simp add: kbd_idle_def kbd_buffer_get_def)

lemma idle_queue: "kbd_idle k \<Longrightarrow> kbd_queue k = []"
  by (simp add: kbd_idle_def kbd_queue_def)

lemma getchar_typed:
  assumes "kbd_idle k" "typable c"
  shows "\<exists>k'. keyboard_getchar (Halt (type_key c) # es) k = Some (c, es, k') \<and> kbd_idle k'"
proof -
  let ?p = "kbd_buffer_put c k"
  have ok: "kbd_ok k" and f: "\<not> e0_prefix k" "\<not> shift_pressed k" "\<not> caps_lock k" and z: "kbd_count k = 0" using assms(1) by (simp_all add: kbd_idle_def)
  have "kbd_queue ?p = [c]" using put_queue [OF ok, of c] idle_queue [OF assms(1)] z by (simp add: KBD_BUFFER_SIZE_def)
  from get_queue [OF put_kbd_ok [OF ok] this] obtain k' where
    g: "kbd_buffer_get ?p = (sint c, k')" "kbd_ok k'" "kbd_queue k' = []" by blast
  have "kbd_count k' = 0" using g(3) length_kbd_queue [of k'] by simp
  moreover have "e0_prefix k' = e0_prefix k \<and> shift_pressed k' = shift_pressed k \<and> caps_lock k' = caps_lock k"
    using g(1) by (auto simp: kbd_buffer_get_def kbd_buffer_put_def Let_def split: if_splits)
  ultimately have "kbd_idle k'" using f g(2) by (simp add: kbd_idle_def)
  moreover have "keyboard_getchar es ?p = Some (c, es, k')" using g(1) typable_sint [OF assms(2)] by (cases es) simp_all
  ultimately show ?thesis using idle_get [OF assms(1)] type_key_handled [OF assms(2) f] by simp
qed

lemma typable_enter: "typable 13"
  by (simp add: typable_def tables)

lemma read_typed:
  assumes "kbd_idle k" "\<forall>c \<in> set cs. 32 \<le> c \<and> c < 127" "len + length cs < max_len" "max_len \<le> length buf"
  shows "\<exists>k'. kbd_idle k' \<and> read_line_loop max_len len buf (map (\<lambda>c. Halt (type_key c)) (cs @ [13])) k =
    Some (len + length cs, take len buf @ cs @ 0 # drop (len + length cs + 1) buf, [], k')"
  using assms
proof (induction cs arbitrary: len buf k)
  case Nil
  from getchar_typed [OF Nil(1) typable_enter, of "[]"] obtain k' where "keyboard_getchar [Halt (type_key 13)] k = Some (13, [], k')" "kbd_idle k'" by blast
  then show ?case using Nil by (simp add: upd_conv_take_nth_drop)
next
  case (Cons c cs)
  let ?es = "map (\<lambda>c. Halt (type_key c)) (cs @ [13])"
  have c: "32 \<le> c" "c < 127" using Cons.prems(2) by auto
  from getchar_typed [OF Cons.prems(1) printable_typable [OF c], of ?es] obtain k' where
    g: "keyboard_getchar (Halt (type_key c) # ?es) k = Some (c, ?es, k')" and i: "kbd_idle k'" by blast
  have ne: "c \<noteq> 13" "c \<noteq> 10" "c \<noteq> 8" using c by auto
  have "read_line_loop max_len len buf (Halt (type_key c) # ?es) k = read_line_loop max_len (len + 1) (buf[len := c]) ?es k'"
    using g ne Cons.prems(3) by (simp del: map_append append_Cons)
  moreover have "\<exists>k''. kbd_idle k'' \<and> read_line_loop max_len (len + 1) (buf[len := c]) ?es k' =
      Some (len + 1 + length cs, take (len + 1) (buf[len := c]) @ cs @ 0 # drop (len + 1 + length cs + 1) (buf[len := c]), [], k'')"
    using Cons.prems by (intro Cons.IH [OF i]) auto
  moreover have "take (len + 1) (buf[len := c]) = take len buf @ [c]" using Cons.prems by (simp add: take_Suc_conv_app_nth)
  ultimately show ?case using Cons.prems by simp
qed

text \<open>
  C21. From the keys to the line: when the keys for a text of printable characters and the Enter key are pressed and released one after the other, with shift where needed,
  \<open>keyboard_read_line\<close> returns the length of the text and has stored it in the buffer with a terminating zero, and the
  keyboard is idle again.
\<close>

theorem keyboard_types_line:
  assumes "kbd_idle k" "\<forall>c \<in> set cs. 32 \<le> c \<and> c < 127" "length cs < max_len" "max_len \<le> length buf"
  shows "\<exists>k'. kbd_idle k' \<and> keyboard_read_line max_len buf (map (\<lambda>c. Halt (type_key c)) (cs @ [13])) k =
    Some (length cs, cs @ 0 # drop (length cs + 1) buf, [], k')"
  using read_typed [of k cs 0 max_len buf] assms by (simp add: keyboard_read_line_def)

section \<open>Characters the keyboard can deliver\<close>

definition kbd_char :: "u8 \<Rightarrow> bool" where
  "kbd_char c \<longleftrightarrow> 32 \<le> c \<and> c \<le> 127 \<or> c \<in> {8, 9, 13, 0x1B}"

lemma table_chars: "c \<in> set scancode_table \<union> set scancode_shift_table \<Longrightarrow> c = 0 \<or> kbd_char c"
  by (auto simp: tables kbd_char_def)

lemma scan_chars:
  assumes "sc < 128" "scan_ascii sh cp sc \<noteq> 0"
  shows "kbd_char (scan_ascii sh cp sc)"
proof -
  define a where "a = (if sh then scancode_shift_table ! unat sc else scancode_table ! unat sc)"
  have "unat sc < 128" using assms(1) by (simp add: word_less_nat_alt)
  then have "a \<in> set scancode_table \<union> set scancode_shift_table" by (simp add: a_def)
  then have k: "a = 0 \<or> kbd_char a" by (rule table_chars)
  have "kbd_char (a - 32)" if "0x61 \<le> a" "a \<le> 0x7A"
    using that by (auto simp: kbd_char_def word_le_nat_alt unat_sub_if')
  moreover have "kbd_char (a + 32)" if "0x41 \<le> a" "a \<le> 0x5A"
    using that by (auto simp: kbd_char_def word_le_nat_alt unat_plus_if')
  ultimately show ?thesis using k assms(2) by (auto simp: scan_ascii_def a_def [symmetric] Let_def split: if_splits)
qed

lemma key_chars_kbd: "\<forall>c \<in> set (key_chars sc k). kbd_char c"
proof -
  have "\<forall>c \<in> set (e0_chars sc). kbd_char c" by (auto simp: e0_chars_def kbd_char_def)
  moreover have "\<forall>c \<in> set (press_chars sc k). kbd_char c"
    using scan_chars [of sc] by (auto simp: press_chars_def Let_def not_le) (auto simp: kbd_char_def)
  ultimately show ?thesis by (simp add: key_chars_def)
qed

lemma handlers_kbd_char:
  "kbd_ok k \<Longrightarrow> \<forall>c \<in> set (kbd_queue k). kbd_char c \<Longrightarrow> \<forall>c \<in> set (kbd_queue (fold kbd_interrupt_handler scs k)). kbd_char c"
proof (induction scs arbitrary: k)
  case (Cons sc scs)
  have "\<forall>c \<in> set (kbd_queue (kbd_interrupt_handler sc k)). kbd_char c"
    using Cons.prems key_chars_kbd [of sc k] by (auto simp: handler_queue dest: in_set_takeD)
  then show ?case using Cons.IH [OF handler_ok [OF Cons.prems(1)]] by simp
qed simp

text \<open>
  Control is tracked but never used: whatever keys are pressed, in any order and number, only printable characters, backspace, tab, Enter, escape and delete reach the buffer.  The codes of Ctrl+S,
  Ctrl+F and Ctrl+G (0x13, 0x06, 0x07), with which the editor saves, searches and jumps, cannot be typed.
\<close>

theorem kbd_no_control:
  assumes "kbd_ok k" "\<forall>c \<in> set (kbd_queue k). kbd_char c"
  shows "\<forall>c \<in> set (kbd_queue (fold kbd_interrupt_handler scs k)). kbd_char c \<and> c \<notin> {0x13, 0x06, 0x07}"
  using handlers_kbd_char [OF assms, of scs] by (auto simp: kbd_char_def)

section \<open>Witnesses\<close>

definition demo_kbd :: kbd where
  "demo_kbd = snd (keyboard_init (\<lambda>i. [0x47, 0x55, 0x00, 0xFA, 0xAA, 0xFA] ! i) \<lparr>kbd_buffer = replicate 64 0, kbd_head = 5, kbd_tail = 9, kbd_count = 4,
     shift_pressed = True, caps_lock = True, ctrl_pressed = False, alt_pressed = False, e0_prefix = False\<rparr>)"

lemma demo_kbd_idle: "kbd_idle demo_kbd" "kbd_ok demo_kbd"
  by (simp_all add: demo_kbd_def keyboard_init_def Let_def kbd_idle_def kbd_ok_def KBD_BUFFER_SIZE_def)


theorem keyboard_types_line_witness:
  "\<exists>k'. keyboard_read_line 8 [0, 0, 0, 0, 0, 0, 0, 0] (map (\<lambda>c. Halt (type_key c)) ([0x44, 0x69, 0x72] @ [13])) demo_kbd =
     Some (3, [0x44, 0x69, 0x72, 0, 0, 0, 0, 0], [], k')"
  using keyboard_types_line [OF demo_kbd_idle(1), of "[0x44, 0x69, 0x72]" 8 "[0, 0, 0, 0, 0, 0, 0, 0]"] by auto

theorem kbd_no_control_witness:
  "0x13 \<notin> set (kbd_queue (fold kbd_interrupt_handler [0x1D, 0x1F, 0x9F, 0x9D] demo_kbd))"
  using kbd_no_control [OF demo_kbd_idle(2), of "[0x1D, 0x1F, 0x9F, 0x9D]"] idle_queue [OF demo_kbd_idle(1)] by auto

lemma keyboard_init_ready:
  "resp 1 = 0x55 \<Longrightarrow> resp 2 = 0 \<Longrightarrow> fst (fst (keyboard_init resp k)) \<longleftrightarrow> resp 5 = 0xFA"
  "Data (config_byte (resp 0)) \<in> set (snd (fst (keyboard_init resp k)))"
  by (simp_all add: keyboard_init_def Let_def)

lemma config_byte_bits: "bit (config_byte c) 0" "\<not> bit (config_byte c) 1" "bit (config_byte c) 2" "bit (config_byte c) 6"
  by (simp_all add: config_byte_def bit_simps)

end
