(* ===== verification/Editor.thy ===== *)
theory Editor
  imports Fat32 Keyboard "HOL-Library.Monad_Syntax"
begin

text \<open>
  The text editor \<^verbatim>\<open>src/kernel/editor/editor.c\<close>: the array of lines, the cursor, the view on the screen, search, and saving and loading through FAT32.
  A result \<open>None\<close>, or \<open>Undef\<close> in the command loop, is undefined behaviour: an access outside an array, a string without end or a signed overflow.
  Rows and columns are natural numbers; where the code subtracts and then tests for a negative value, the subtraction here ends at zero.
\<close>

unbundle bit_operations_syntax

section \<open>State\<close>

definition EDIT_MAX_LINES :: nat where "EDIT_MAX_LINES = 128"
definition EDIT_MAX_COLS :: nat where "EDIT_MAX_COLS = 128"
definition EDIT_TAB_STOP :: nat where "EDIT_TAB_STOP = 4"
definition EDIT_LINE_NUM_W :: nat where "EDIT_LINE_NUM_W = 5"
definition EDIT_SCREEN_LINES :: nat where "EDIT_SCREEN_LINES = 23"
definition EDIT_SCREEN_COLS :: nat where "EDIT_SCREEN_COLS = 80"
definition COLOR_STATUS :: u8 where "COLOR_STATUS = 0x1F"
definition COLOR_LINENUM :: u8 where "COLOR_LINENUM = 0x03"
definition COLOR_TEXT :: u8 where "COLOR_TEXT = 0x07"
definition COLOR_CMD :: u8 where "COLOR_CMD = 0x0E"
definition COLOR_CUR_LINE :: u8 where "COLOR_CUR_LINE = 0x07"

lemmas ed_consts = EDIT_MAX_LINES_def EDIT_MAX_COLS_def EDIT_TAB_STOP_def EDIT_LINE_NUM_W_def EDIT_SCREEN_LINES_def EDIT_SCREEN_COLS_def

text \<open>The cells of the text screen are numbered row by row; \<open>cursor_pos\<close> is the position given to the display controller.\<close>

record 'd ed =
  edit_lines :: "u8 list list"
  edit_line_count :: nat
  cursor_row :: nat
  cursor_col :: nat
  view_top :: nat
  view_left :: nat
  edit_filename :: "u8 list"
  edit_modified :: bool
  edit_running :: bool
  search_str :: "u8 list"
  save_buf :: buf
  vga :: "nat \<Rightarrow> u16"
  cursor_pos :: u16
  disk :: "'d fat32"
  ram :: "u32 \<Rightarrow> u8"

text \<open>What the file system needs: bound on chain walks, sector functions, and the address of \<open>load_buf\<close>.\<close>

record 'd files =
  fuel :: nat
  disk_read :: "'d read_fn"
  disk_write :: "'d write_fn"
  load_buf :: u32

section \<open>Screen\<close>

definition vga_putchar_at :: "nat \<Rightarrow> nat \<Rightarrow> u8 \<Rightarrow> u8 \<Rightarrow> (nat \<Rightarrow> u16) \<Rightarrow> nat \<Rightarrow> u16" where
  "vga_putchar_at row col ch attr v = (if row < 25 \<and> col < 80 then v(row * 80 + col := push_bit 8 (ucast attr) OR ucast ch) else v)"

fun vga_puts_at :: "nat \<Rightarrow> nat \<Rightarrow> u8 list \<Rightarrow> u8 \<Rightarrow> (nat \<Rightarrow> u16) \<Rightarrow> nat \<times> (nat \<Rightarrow> u16)" where
  "vga_puts_at row col [] attr v = (col, v)"
| "vga_puts_at row col (c # cs) attr v = vga_puts_at row (col + 1) cs attr (vga_putchar_at row col c attr v)"

definition vga_fill_at :: "nat \<Rightarrow> nat \<Rightarrow> nat \<Rightarrow> u8 \<Rightarrow> u8 \<Rightarrow> (nat \<Rightarrow> u16) \<Rightarrow> nat \<Rightarrow> u16" where
  "vga_fill_at row col count ch attr v = for_range 0 count (\<lambda>i. vga_putchar_at row (col + i) ch attr) v"

definition of_text :: "string \<Rightarrow> u8 list" where
  "of_text = map of_char"

fun dec_digits :: "nat \<Rightarrow> u8 list" where
  "dec_digits n = (if n = 0 then [] else (0x30 + of_nat (n mod 10)) # dec_digits (n div 10))"

declare dec_digits.simps [simp del]

definition edit_print_dec_at :: "nat \<Rightarrow> nat \<Rightarrow> nat \<Rightarrow> u8 \<Rightarrow> (nat \<Rightarrow> u16) \<Rightarrow> nat \<times> (nat \<Rightarrow> u16)" where
  "edit_print_dec_at row col val attr v = vga_puts_at row col (if val = 0 then [0x30] else rev (dec_digits val)) attr v"

text \<open>A string ends before its first zero; an array without one is no string.\<close>

definition is_line :: "u8 list \<Rightarrow> bool" where
  "is_line s \<longleftrightarrow> 0 \<in> set s"

definition str :: "u8 list \<Rightarrow> u8 list" where
  "str s = takeWhile (\<lambda>c. c \<noteq> 0) s"

definition edit_strlen :: "u8 list \<Rightarrow> nat" where
  "edit_strlen s = length (str s)"

fun edit_strcpy :: "u8 list \<Rightarrow> u8 list \<Rightarrow> u8 list option" where
  "edit_strcpy (d # ds) (c # cs) = (if c = 0 then Some (0 # ds) else map_option ((#) c) (edit_strcpy ds cs))"
| "edit_strcpy _ _ = None"

definition draw_status_bar :: "'d ed \<Rightarrow> (nat \<Rightarrow> u16) \<Rightarrow> nat \<Rightarrow> u16" where
  "draw_status_bar s v =
     (let v = vga_fill_at 0 0 80 0x20 COLOR_STATUS v;
          (col, v) = vga_puts_at 0 1 (of_text '' Nexsteaduser Editor'') COLOR_STATUS v;
          (col, v) = vga_puts_at 0 col (of_text '' | '') COLOR_STATUS v;
          (col, v) = vga_puts_at 0 col (if edit_filename s ! 0 \<noteq> 0 then str (edit_filename s) else of_text ''(untitled)'') COLOR_STATUS v;
          (col, v) = vga_puts_at 0 col (of_text '' | Ln '') COLOR_STATUS v;
          (col, v) = edit_print_dec_at 0 col (cursor_row s + 1) COLOR_STATUS v;
          (col, v) = vga_puts_at 0 col (of_text '' Col '') COLOR_STATUS v;
          (col, v) = edit_print_dec_at 0 col (cursor_col s + 1) COLOR_STATUS v
      in if edit_modified s then snd (vga_puts_at 0 col (of_text '' | *'') COLOR_STATUS v) else v)"

definition draw_command_line :: "(nat \<Rightarrow> u16) \<Rightarrow> nat \<Rightarrow> u16" where
  "draw_command_line v = snd (vga_puts_at 24 0 (of_text '' ^S:Save ^F:Find ^G:Goto  ESC:Quit'') 0x07 (vga_fill_at 24 0 80 0x20 0x07 v))"

definition shown_char :: "u8 list \<Rightarrow> nat \<Rightarrow> u8" where
  "shown_char line col = (if col < edit_strlen line then (if line ! col = 9 then 0x20 else line ! col) else 0x20)"

definition draw_line :: "'d ed \<Rightarrow> nat \<Rightarrow> nat \<Rightarrow> (nat \<Rightarrow> u16) \<Rightarrow> nat \<Rightarrow> u16" where
  "draw_line s file_row screen_row v =
     (let v = (if file_row < edit_line_count s
               then vga_putchar_at screen_row (EDIT_LINE_NUM_W - 1) 0x7C COLOR_LINENUM (snd (edit_print_dec_at screen_row 0 (file_row + 1) COLOR_LINENUM v))
               else vga_putchar_at screen_row 0 0x7E COLOR_LINENUM (vga_fill_at screen_row 0 EDIT_LINE_NUM_W 0x20 COLOR_LINENUM v));
          max_col = EDIT_SCREEN_COLS - EDIT_LINE_NUM_W
      in if file_row < edit_line_count s
         then for_range 0 max_col (\<lambda>i. vga_putchar_at screen_row (EDIT_LINE_NUM_W + i) (shown_char (edit_lines s ! file_row) (view_left s + i))
                (if file_row = cursor_row s then COLOR_CUR_LINE else COLOR_TEXT)) v
         else vga_fill_at screen_row EDIT_LINE_NUM_W max_col 0x20 COLOR_TEXT v)"

text \<open>The lines drawn must be inside the array and strings.\<close>

definition draw_screen :: "'d ed \<Rightarrow> 'd ed option" where
  "draw_screen s =
     (if \<forall>i \<in> set [view_top s..<view_top s + EDIT_SCREEN_LINES]. i < edit_line_count s \<longrightarrow> i < EDIT_MAX_LINES \<and> is_line (edit_lines s ! i)
      then let v = draw_command_line (draw_status_bar s (vga s))
           in Some (s\<lparr>vga := for_range 0 EDIT_SCREEN_LINES (\<lambda>i. draw_line s (view_top s + i) (i + 1)) v\<rparr>)
      else None)"

definition update_cursor :: "'d ed \<Rightarrow> 'd ed" where
  "update_cursor s =
     (let screen_row = of_int (int (cursor_row s) - int (view_top s) + 1) :: u16;
          screen_col = of_int (int (cursor_col s) - int (view_left s) + int EDIT_LINE_NUM_W) :: u16;
          screen_row = (if screen_row < 1 then 1 else screen_row);
          screen_row = (if screen_row > of_nat EDIT_SCREEN_LINES then of_nat EDIT_SCREEN_LINES else screen_row);
          screen_col = (if screen_col < of_nat EDIT_LINE_NUM_W then of_nat EDIT_LINE_NUM_W else screen_col);
          screen_col = (if screen_col \<ge> 80 then 79 else screen_col)
      in s\<lparr>cursor_pos := screen_row * 80 + screen_col\<rparr>)"

section \<open>Editing\<close>

definition get_line :: "nat \<Rightarrow> 'd ed \<Rightarrow> u8 list option" where
  "get_line i s = (if i < EDIT_MAX_LINES \<and> is_line (edit_lines s ! i) then Some (edit_lines s ! i) else None)"

definition put_line :: "nat \<Rightarrow> u8 list \<Rightarrow> 'd ed \<Rightarrow> 'd ed" where
  "put_line i l s = s\<lparr>edit_lines := (edit_lines s)[i := l]\<rparr>"

fun ensure_rows :: "nat \<Rightarrow> 'd ed \<Rightarrow> 'd ed option" where
  "ensure_rows 0 s = Some s"
| "ensure_rows (Suc n) s =
     (if edit_line_count s < EDIT_MAX_LINES
      then ensure_rows n (put_line (edit_line_count s) ((edit_lines s ! edit_line_count s)[0 := 0]) (s\<lparr>edit_line_count := edit_line_count s + 1\<rparr>))
      else None)"

definition ensure_line :: "nat \<Rightarrow> 'd ed \<Rightarrow> 'd ed option" where
  "ensure_line line s = ensure_rows (line + 1 - edit_line_count s) s"

definition insert_char :: "u8 \<Rightarrow> 'd ed \<Rightarrow> 'd ed option" where
  "insert_char ch s = do {
     s \<leftarrow> ensure_line (cursor_row s) s;
     line \<leftarrow> get_line (cursor_row s) s;
     let len = edit_strlen line;
     if len \<ge> EDIT_MAX_COLS - 1 then Some s
     else if cursor_col s \<ge> EDIT_MAX_COLS then None
     else let line = fold (\<lambda>i l. l[i := l ! (i - 1)]) (rev [cursor_col s + 1..<len + 1]) line;
              line = line[cursor_col s := ch];
              line = line[len + 1 := 0]
          in Some ((put_line (cursor_row s) line s)\<lparr>cursor_col := cursor_col s + 1, edit_modified := True\<rparr>)
   }"

definition delete_char :: "'d ed \<Rightarrow> 'd ed option" where
  "delete_char s =
     (if cursor_row s \<ge> edit_line_count s then Some s
      else do {
        line \<leftarrow> get_line (cursor_row s) s;
        let len = edit_strlen line;
        if cursor_col s \<ge> len then Some s
        else Some ((put_line (cursor_row s) (fold (\<lambda>i l. l[i := l ! (i + 1)]) [cursor_col s..<len] line) s)\<lparr>edit_modified := True\<rparr>)
      })"

definition copy_line :: "nat \<Rightarrow> nat \<Rightarrow> 'd ed \<Rightarrow> 'd ed option" where
  "copy_line i j s =
     (if i < EDIT_MAX_LINES \<and> j < EDIT_MAX_LINES then map_option (\<lambda>l. put_line i l s) (edit_strcpy (edit_lines s ! i) (edit_lines s ! j)) else None)"

fun copy_lines :: "(nat \<times> nat) list \<Rightarrow> 'd ed \<Rightarrow> 'd ed option" where
  "copy_lines [] s = Some s"
| "copy_lines ((i, j) # ps) s = do { s \<leftarrow> copy_line i j s; copy_lines ps s }"

definition backspace_char :: "'d ed \<Rightarrow> 'd ed option" where
  "backspace_char s =
     (if cursor_col s > 0 then delete_char (s\<lparr>cursor_col := cursor_col s - 1\<rparr>)
      else if cursor_row s > 0 then do {
        prev \<leftarrow> get_line (cursor_row s - 1) s;
        cur \<leftarrow> get_line (cursor_row s) s;
        let prev_len = edit_strlen prev;
        let cur_len = edit_strlen cur;
        if prev_len + cur_len < EDIT_MAX_COLS then do {
          let prev = fold (\<lambda>i l. l[prev_len + i := cur ! i]) [0..<cur_len + 1] prev;
          s \<leftarrow> copy_lines (map (\<lambda>i. (i, i + 1)) [cursor_row s..<edit_line_count s - 1]) (put_line (cursor_row s - 1) prev s);
          Some (s\<lparr>edit_line_count := edit_line_count s - 1, cursor_row := cursor_row s - 1, cursor_col := prev_len, edit_modified := True\<rparr>)
        }
        else Some s
      }
      else Some s)"

text \<open>\<open>new_line\<close> stays uninitialised when the cursor is behind the end of the line.\<close>

definition insert_newline :: "'d ed \<Rightarrow> 'd ed option" where
  "insert_newline s = do {
     s \<leftarrow> ensure_line (cursor_row s) s;
     line \<leftarrow> get_line (cursor_row s) s;
     let new_line = (if cursor_col s \<le> edit_strlen line then Some (drop (cursor_col s) line) else None);
     if cursor_col s \<ge> EDIT_MAX_COLS then None
     else do {
       let s = put_line (cursor_row s) (line[cursor_col s := 0]) s;
       s \<leftarrow> (if edit_line_count s < EDIT_MAX_LINES - 1 then do {
                s \<leftarrow> copy_lines (map (\<lambda>i. (i + 1, i)) (rev [cursor_row s + 1..<edit_line_count s + 1])) s;
                new \<leftarrow> new_line;
                if cursor_row s + 1 < EDIT_MAX_LINES then do {
                  l \<leftarrow> edit_strcpy (edit_lines s ! (cursor_row s + 1)) new;
                  Some ((put_line (cursor_row s + 1) l s)\<lparr>edit_line_count := edit_line_count s + 1\<rparr>)
                } else None
              } else Some s);
       Some (s\<lparr>cursor_row := cursor_row s + 1, cursor_col := 0, edit_modified := True\<rparr>)
     }
   }"

section \<open>Files\<close>

fun save_lines :: "nat list \<Rightarrow> u8 list \<Rightarrow> 'd ed \<Rightarrow> u8 list option" where
  "save_lines [] out s = Some out"
| "save_lines (i # is) out s =
     (if length out < 32768 - 2 then do {
        line \<leftarrow> get_line i s;
        let out = out @ take (32768 - 2 - length out) (str line);
        save_lines is (out @ [10]) s
      } else Some out)"

definition file_save :: "'d files \<Rightarrow> u8 list \<Rightarrow> 'd ed \<Rightarrow> (bool \<times> 'd ed) option" where
  "file_save fs filename s = do {
     out \<leftarrow> save_lines [0..<edit_line_count s] [] s;
     let s = s\<lparr>save_buf := \<lambda>i. if i < length out then out ! i else save_buf s i\<rparr>;
     (ok, d) \<leftarrow> fat32_write_file (fuel fs) (disk_read fs) (disk_write fs) (str filename) (save_buf s) (of_nat (length out)) (disk s);
     Some (ok, if ok then s\<lparr>disk := d, edit_modified := False\<rparr> else s\<lparr>disk := d\<rparr>)
   }"

fun parse_bytes :: "u8 list \<Rightarrow> nat \<Rightarrow> 'd ed \<Rightarrow> nat \<times> 'd ed" where
  "parse_bytes [] col s = (col, s)"
| "parse_bytes (c # cs) col s =
     (if edit_line_count s \<ge> EDIT_MAX_LINES then (col, s)
      else let n = edit_line_count s; row = edit_lines s ! n in
      if c = 10 then parse_bytes cs 0 (put_line n (row[col := 0]) (s\<lparr>edit_line_count := n + 1\<rparr>))
      else if c = 13 then parse_bytes cs col s
      else if col < EDIT_MAX_COLS - 1 then parse_bytes cs (col + 1) (put_line n (row[col := c]) s)
      else parse_bytes cs col s)"

definition parse_lines :: "u8 list \<Rightarrow> 'd ed \<Rightarrow> 'd ed" where
  "parse_lines bytes s =
     (let (col, s) = parse_bytes bytes 0 (s\<lparr>edit_line_count := 0\<rparr>);
          n = edit_line_count s;
          s = (if col > 0 \<and> n < EDIT_MAX_LINES then put_line n ((edit_lines s ! n)[col := 0]) (s\<lparr>edit_line_count := n + 1\<rparr>) else s);
          s = (if edit_line_count s = 0 then put_line 0 ((edit_lines s ! 0)[0 := 0]) (s\<lparr>edit_line_count := 1\<rparr>) else s)
      in s\<lparr>edit_modified := False\<rparr>)"

definition file_load :: "'d files \<Rightarrow> u8 list \<Rightarrow> 'd ed \<Rightarrow> (bool \<times> 'd ed) option" where
  "file_load fs filename s = do {
     (entry, d) \<leftarrow> fat32_find_file (fuel fs) (disk_read fs) (str filename) (disk s);
     let s = s\<lparr>disk := d\<rparr>;
     case entry of
       None \<Rightarrow> Some (False, s)
     | Some e \<Rightarrow> do {
         (size, mem, d) \<leftarrow> fat32_load_file (fuel fs) (disk_read fs) e (load_buf fs) (disk s) (ram s);
         let s = s\<lparr>disk := d, ram := mem\<rparr>;
         if size = 0 then Some (False, s)
         else Some (True, parse_lines (map (\<lambda>i. ram s (load_buf fs + of_nat i)) [0..<unat size]) s)
       }
   }"

section \<open>Commands\<close>

definition editor_show_message :: "string \<Rightarrow> 'd ed \<Rightarrow> 'd ed" where
  "editor_show_message msg s = s\<lparr>vga := snd (vga_puts_at 24 1 (of_text msg) COLOR_CMD (vga_fill_at 24 0 80 0x20 COLOR_CMD (vga s)))\<rparr>"

text \<open>
  The keys in the order in which \<open>keyboard_getchar\<close> returns them, each with the answer of \<open>keyboard_available\<close> right after it.  Commands wait when the list ends.
\<close>

type_synonym keys = "(u8 \<times> bool) list"

datatype 'a ed_result = Ok 'a | Waits | Undef

fun and_then_do :: "'a ed_result \<Rightarrow> ('a \<Rightarrow> 'b ed_result) \<Rightarrow> 'b ed_result" where
  "and_then_do (Ok x) f = f x"
| "and_then_do Waits f = Waits"
| "and_then_do Undef f = Undef"

definition defined :: "'a option \<Rightarrow> 'a ed_result" where
  "defined r = (case r of Some x \<Rightarrow> Ok x | None \<Rightarrow> Undef)"

fun cmdline_loop :: "nat \<Rightarrow> nat \<Rightarrow> nat \<Rightarrow> u8 list \<Rightarrow> (nat \<Rightarrow> u16) \<Rightarrow> keys \<Rightarrow> (nat \<times> u8 list \<times> (nat \<Rightarrow> u16) \<times> keys) ed_result" where
  "cmdline_loop maxlen col len buf v [] = Waits"
| "cmdline_loop maxlen col len buf v ((c, _) # ks) =
     (if c = 0x1B then Ok (0, buf[0 := 0], v, ks)
      else if c = 13 \<or> c = 10 then Ok (len, buf[len := 0], v, ks)
      else if (c = 8 \<or> c = 0x7F) \<and> len > 0 then cmdline_loop maxlen col (len - 1) buf (vga_putchar_at 24 (col + (len - 1)) 0x20 COLOR_CMD v) ks
      else if 32 \<le> c \<and> c < 127 \<and> len + 1 < maxlen
      then cmdline_loop maxlen col (len + 1) (buf[len := c]) (vga_putchar_at 24 (col + len) c COLOR_CMD v) ks
      else cmdline_loop maxlen col len buf v ks)"

definition editor_read_cmdline :: "string \<Rightarrow> u8 list \<Rightarrow> nat \<Rightarrow> (nat \<Rightarrow> u16) \<Rightarrow> keys \<Rightarrow> (nat \<times> u8 list \<times> (nat \<Rightarrow> u16) \<times> keys) ed_result" where
  "editor_read_cmdline prompt buf maxlen v ks =
     cmdline_loop maxlen (length prompt + 1) 0 buf (snd (vga_puts_at 24 1 (of_text prompt) COLOR_CMD (vga_fill_at 24 0 80 0x20 COLOR_CMD v))) ks"

definition match_at :: "u8 list \<Rightarrow> u8 list \<Rightarrow> nat \<Rightarrow> bool" where
  "match_at line pat c \<longleftrightarrow> list_all (\<lambda>k. line ! (c + k) = pat ! k) [0..<edit_strlen pat]"

fun find_rows :: "u8 list \<Rightarrow> nat \<Rightarrow> nat list \<Rightarrow> 'd ed \<Rightarrow> (nat \<times> nat) option option" where
  "find_rows pat start_row [] s = Some None"
| "find_rows pat start_row (r # rs) s = do {
     line \<leftarrow> get_line r s;
     let sc = (if r = start_row then cursor_col s + 1 else 0);
     case find (match_at line pat) [sc..<edit_strlen line + 1 - edit_strlen pat] of
       Some c \<Rightarrow> Some (Some (r, c))
     | None \<Rightarrow> find_rows pat start_row rs s
   }"

definition cmd_find :: "keys \<Rightarrow> 'd ed \<Rightarrow> ('d ed \<times> keys) ed_result" where
  "cmd_find ks s = and_then_do (editor_read_cmdline ''Find: '' (search_str s) 64 (vga s) ks) (\<lambda>(n, buf, v, ks).
     let s = s\<lparr>search_str := buf, vga := v\<rparr> in
     if n = 0 then Ok (s, ks)
     else and_then_do (defined (find_rows (search_str s) (cursor_row s) [cursor_row s..<edit_line_count s] s)) (\<lambda>hit. case hit of
         Some (r, c) \<Rightarrow> Ok (editor_show_message ''Found.'' (s\<lparr>cursor_row := r, cursor_col := c\<rparr>), ks)
       | None \<Rightarrow> Ok (editor_show_message ''Not found.'' s, ks)))"

text \<open>The number typed, or \<open>None\<close> when it leaves the range of an \<open>int\<close>.\<close>

fun parse_number :: "u8 list \<Rightarrow> nat \<Rightarrow> nat option" where
  "parse_number [] line = Some line"
| "parse_number (c # cs) line =
     (if 0x30 \<le> c \<and> c \<le> 0x39
      then let line = line * 10 + unat (c - 0x30) in if line < 2 ^ 31 then parse_number cs line else None
      else parse_number cs line)"

definition cmd_goto :: "keys \<Rightarrow> 'd ed \<Rightarrow> ('d ed \<times> keys) ed_result" where
  "cmd_goto ks s = and_then_do (editor_read_cmdline ''Go to line: '' (replicate 16 0) 16 (vga s) ks) (\<lambda>(n, buf, v, ks).
     let s = s\<lparr>vga := v\<rparr> in
     if n = 0 then Ok (s, ks)
     else and_then_do (defined (parse_number (str buf) 0)) (\<lambda>line.
       if line > 0 \<and> line \<le> edit_line_count s then Ok (s\<lparr>cursor_row := line - 1, cursor_col := 0\<rparr>, ks)
       else Ok (editor_show_message ''Invalid line number.'' s, ks)))"

section \<open>The command loop\<close>

definition clamp_col :: "'d ed \<Rightarrow> 'd ed option" where
  "clamp_col s = do { line \<leftarrow> get_line (cursor_row s) s;
     Some (if cursor_col s > edit_strlen line then s\<lparr>cursor_col := edit_strlen line\<rparr> else s) }"

text \<open>The letter of an escape sequence; page up and down take one more key.\<close>

definition move_key :: "u8 \<Rightarrow> keys \<Rightarrow> 'd ed \<Rightarrow> ('d ed \<times> keys) ed_result" where
  "move_key c ks s =
     (let moved = (\<lambda>r. and_then_do (defined r) (\<lambda>s. Ok (s, ks))) in
      if c = 0x41 then moved (if cursor_row s > 0 then clamp_col (s\<lparr>cursor_row := cursor_row s - 1\<rparr>) else Some s)
      else if c = 0x42 then moved (if cursor_row s + 1 < edit_line_count s then clamp_col (s\<lparr>cursor_row := cursor_row s + 1\<rparr>) else Some s)
      else if c = 0x43 then
        (if cursor_row s < edit_line_count s
         then moved (do { line \<leftarrow> get_line (cursor_row s) s; Some (if cursor_col s < edit_strlen line then s\<lparr>cursor_col := cursor_col s + 1\<rparr> else s) })
         else Ok (s, ks))
      else if c = 0x44 then Ok (if cursor_col s > 0 then s\<lparr>cursor_col := cursor_col s - 1\<rparr> else s, ks)
      else if c = 0x48 then Ok (s\<lparr>cursor_col := 0\<rparr>, ks)
      else if c = 0x46 then moved (do { line \<leftarrow> get_line (cursor_row s) s; Some (s\<lparr>cursor_col := edit_strlen line\<rparr>) })
      else if c = 0x35 \<or> c = 0x36 then (case ks of
          [] \<Rightarrow> Waits
        | _ # ks \<Rightarrow>
            let row = (if c = 0x35 then cursor_row s - EDIT_SCREEN_LINES
                       else let row = cursor_row s + EDIT_SCREEN_LINES in if row \<ge> edit_line_count s then edit_line_count s - 1 else row)
            in and_then_do (defined (clamp_col (s\<lparr>cursor_row := row\<rparr>))) (\<lambda>s. Ok (s, ks)))
      else Ok (s, ks))"

definition save_command :: "'d files \<Rightarrow> 'd ed \<Rightarrow> 'd ed ed_result" where
  "save_command fs s = and_then_do (defined (file_save fs (edit_filename s) s)) (\<lambda>(ok, s).
     Ok (editor_show_message (if ok then ''Saved.'' else ''Save failed!'') s))"

definition update_view :: "'d ed \<Rightarrow> 'd ed" where
  "update_view s =
     (let s = (if cursor_row s < view_top s then s\<lparr>view_top := cursor_row s\<rparr> else s);
          s = (if cursor_row s \<ge> view_top s + EDIT_SCREEN_LINES then s\<lparr>view_top := cursor_row s - EDIT_SCREEN_LINES + 1\<rparr> else s);
          s = (if cursor_col s < view_left s then s\<lparr>view_left := cursor_col s\<rparr> else s);
          w = EDIT_SCREEN_COLS - EDIT_LINE_NUM_W
      in if cursor_col s \<ge> view_left s + w then s\<lparr>view_left := cursor_col s - w + 1\<rparr> else s)"

definition redraw :: "'d ed \<Rightarrow> 'd ed option" where
  "redraw s = map_option update_cursor (draw_screen (update_view s))"

fun insert_tab :: "nat \<Rightarrow> 'd ed \<Rightarrow> 'd ed option" where
  "insert_tab 0 s = Some s"
| "insert_tab (Suc n) s = do { s \<leftarrow> insert_char 0x20 s; insert_tab n s }"

text \<open>What the key does before the view is updated.\<close>

definition key_command :: "'d files \<Rightarrow> u8 \<Rightarrow> keys \<Rightarrow> 'd ed \<Rightarrow> ('d ed \<times> keys) ed_result" where
  "key_command fs c ks s =
     (let done = (\<lambda>r. and_then_do (defined r) (\<lambda>s. Ok (s, ks))) in
      if c = 0x13 then
        (if edit_filename s ! 0 \<noteq> 0 then and_then_do (save_command fs s) (\<lambda>s. Ok (s, ks))
         else and_then_do (editor_read_cmdline ''Save as: '' (edit_filename s) 63 (vga s) ks) (\<lambda>(n, buf, v, ks).
           let s = s\<lparr>edit_filename := buf, vga := v\<rparr> in
           if n = 0 then Ok (s, ks) else and_then_do (save_command fs s) (\<lambda>s. Ok (s, ks))))
      else if c = 0x06 then cmd_find ks s
      else if c = 0x07 then cmd_goto ks s
      else if c = 13 \<or> c = 10 then done (insert_newline s)
      else if c = 8 \<or> c = 0x7F then done (backspace_char s)
      else if c = 9 then done (insert_tab EDIT_TAB_STOP s)
      else if 32 \<le> c \<and> c < 127 then done (insert_char c s)
      else Ok (s, ks))"

text \<open>One round of the loop; a lone escape leaves it without drawing.\<close>

definition editor_step :: "'d files \<Rightarrow> keys \<Rightarrow> 'd ed \<Rightarrow> ('d ed \<times> keys) ed_result" where
  "editor_step fs keys s =
     (let drawn = (\<lambda>r. and_then_do r (\<lambda>(s, ks). and_then_do (defined (redraw s)) (\<lambda>s. Ok (s, ks)))) in
      case keys of
        [] \<Rightarrow> Waits
      | (c, avail) # ks \<Rightarrow>
          if c \<noteq> 0x1B then drawn (key_command fs c ks s)
          else if avail then (case ks of
              [] \<Rightarrow> Waits
            | (c, _) # ks \<Rightarrow>
                if c \<noteq> 0x5B then drawn (Ok (s, ks))
                else (case ks of [] \<Rightarrow> Waits | (c, _) # ks \<Rightarrow> drawn (move_key c ks s)))
          else if edit_modified s then
            (let s = editor_show_message ''Unsaved changes! ESC again to quit.'' s in
             case ks of [] \<Rightarrow> Waits | (c, _) # ks \<Rightarrow> if c \<noteq> 0x1B then Ok (s, ks) else Ok (s\<lparr>edit_running := False\<rparr>, ks))
          else Ok (s\<lparr>edit_running := False\<rparr>, ks))"

text \<open>\<open>editor_main\<close> up to its loop: reset, load the file, draw.  \<open>screen_clear\<close> is a parameter.\<close>

definition store_name :: "u8 list \<Rightarrow> u8 list \<Rightarrow> u8 list" where
  "store_name filename buf = (let n = take 63 (str filename) in n @ 0 # drop (length n + 1) buf)"

definition editor_start :: "'d files \<Rightarrow> ((nat \<Rightarrow> u16) \<Rightarrow> nat \<Rightarrow> u16) \<Rightarrow> u8 list option \<Rightarrow> 'd ed \<Rightarrow> 'd ed option" where
  "editor_start fs screen_clear filename s =
     (let s = s\<lparr>cursor_row := 0, cursor_col := 0, view_top := 0, view_left := 0, edit_modified := False, edit_running := True, edit_line_count := 1,
            edit_lines := (edit_lines s)[0 := (edit_lines s ! 0)[0 := 0]], edit_filename := (edit_filename s)[0 := 0]\<rparr>
      in do {
        s \<leftarrow> (case filename of
            None \<Rightarrow> Some s
          | Some f \<Rightarrow> if str f = [] then Some s
              else (let s = s\<lparr>edit_filename := store_name f (edit_filename s)\<rparr>
                    in map_option (\<lambda>(ok, s). if ok then s else editor_show_message ''New file.'' s) (file_load fs (edit_filename s) s)));
        map_option update_cursor (draw_screen (s\<lparr>vga := screen_clear (vga s)\<rparr>))
      })"

text \<open>Every round takes at least one key, so that the loop ends or waits for a key.\<close>

lemma and_then_Ok: "and_then_do r f = Ok y \<longleftrightarrow> (\<exists>x. r = Ok x \<and> f x = Ok y)"
  by (cases r) auto

lemma cmdline_shorter: "cmdline_loop n col len buf v ks = Ok (m, b, w, ks') \<Longrightarrow> length ks' < length ks"
  by (induction n col len buf v ks rule: cmdline_loop.induct) (auto split: if_splits)

lemma key_command_shorter: "key_command fs c ks s = Ok (t, ks') \<Longrightarrow> length ks' \<le> length ks"
  by (auto simp: key_command_def cmd_find_def cmd_goto_def editor_read_cmdline_def and_then_Ok Let_def
      dest!: cmdline_shorter split: if_splits option.splits)

lemma move_key_shorter: "move_key c ks s = Ok (t, ks') \<Longrightarrow> length ks' \<le> length ks"
  by (auto simp: move_key_def and_then_Ok Let_def split: if_splits list.splits)

lemma step_shorter: "editor_step fs keys s = Ok (t, ks) \<Longrightarrow> length ks < length keys"
  by (auto simp: editor_step_def and_then_Ok Let_def dest!: key_command_shorter move_key_shorter split: if_splits list.splits)

function editor_loop :: "'d files \<Rightarrow> keys \<Rightarrow> 'd ed \<Rightarrow> ('d ed \<times> keys) ed_result" where
  "editor_loop fs keys s =
     (if \<not> edit_running s then Ok (s, keys)
      else case editor_step fs keys s of Ok (s, ks) \<Rightarrow> editor_loop fs ks s | Waits \<Rightarrow> Waits | Undef \<Rightarrow> Undef)"
  by pat_completeness auto

termination
  by (relation "measure (\<lambda>(_, keys, _). length keys)") (auto dest: step_shorter)

declare editor_loop.simps [simp del]

definition editor_main :: "'d files \<Rightarrow> ((nat \<Rightarrow> u16) \<Rightarrow> nat \<Rightarrow> u16) \<Rightarrow> u8 list option \<Rightarrow> keys \<Rightarrow> 'd ed \<Rightarrow> ('d ed \<times> keys) ed_result" where
  "editor_main fs screen_clear filename keys s = and_then_do (defined (editor_start fs screen_clear filename s)) (editor_loop fs keys)"

end
