(* ===== verification/Editor_Spec.thy ===== *)
theory Editor_Spec
  imports Editor
begin

text \<open>
  The editor refines an abstract editor on a list of lines and a cursor: every editing key and cursor movement on a text with room has the
  abstract effect and stays inside the arrays.  A saved text parses back to itself, searching finds the next occurrence, and the screen shows the text.
\<close>

section \<open>Shifting in an array\<close>

lemma shift_left_nth:
  assumes "c \<le> n" "n < length l"
  shows "length (fold (\<lambda>i l. l[i := l ! (i + 1)]) [c..<n] l) = length l \<and>
    (\<forall>j < length l. fold (\<lambda>i l. l[i := l ! (i + 1)]) [c..<n] l ! j = (if c \<le> j \<and> j < n then l ! (j + 1) else l ! j))"
  using assms
proof (induction n)
  case (Suc n)
  show ?case
  proof (cases "c \<le> n")
    case True
    with Suc show ?thesis by (auto simp: nth_list_update less_Suc_eq)
  next
    case False
    with Suc.prems show ?thesis by auto
  qed
qed simp

lemma shift_left:
  assumes "c \<le> n" "n < length l"
  shows "fold (\<lambda>i l. l[i := l ! (i + 1)]) [c..<n] l = take c l @ take (n - c) (drop (c + 1) l) @ drop n l"
  using shift_left_nth [OF assms] assms by (intro nth_equalityI) (auto simp: nth_append)

lemma shift_right_nth:
  assumes "c \<le> n" "n < length l"
  shows "length (fold (\<lambda>i l. l[i := l ! (i - 1)]) (rev [c + 1..<n + 1]) l) = length l \<and>
    (\<forall>j < length l. fold (\<lambda>i l. l[i := l ! (i - 1)]) (rev [c + 1..<n + 1]) l ! j = (if c < j \<and> j \<le> n then l ! (j - 1) else l ! j))"
  using assms
proof (induction n arbitrary: l)
  case (Suc n)
  show ?case
  proof (cases "c \<le> n")
    case True
    let ?m = "l[Suc n := l ! n]"
    have "rev [c + 1..<Suc n + 1] = Suc n # rev [c + 1..<n + 1]" using True by simp
    then have f: "fold (\<lambda>i l. l[i := l ! (i - 1)]) (rev [c + 1..<Suc n + 1]) l = fold (\<lambda>i l. l[i := l ! (i - 1)]) (rev [c + 1..<n + 1]) ?m"
      by (simp del: upt_Suc)
    show ?thesis
    proof (intro conjI allI impI)
      fix j assume "j < length l"
      then show "fold (\<lambda>i l. l[i := l ! (i - 1)]) (rev [c + 1..<Suc n + 1]) l ! j = (if c < j \<and> j \<le> Suc n then l ! (j - 1) else l ! j)"
        unfolding f using Suc.IH [of ?m] True Suc.prems by (cases "j = Suc n") auto
    qed (unfold f, use Suc.IH [of ?m] True Suc.prems in simp)
  next
    case False
    with Suc.prems show ?thesis by auto
  qed
qed simp

lemma shift_right:
  assumes "c \<le> n" "n < length l"
  shows "fold (\<lambda>i l. l[i := l ! (i - 1)]) (rev [c + 1..<n + 1]) l = take (c + 1) l @ take (n - c) (drop c l) @ drop (n + 1) l"
  using shift_right_nth [OF assms] assms by (intro nth_equalityI) (auto simp: nth_append min_def)

lemma overwrite_nth:
  "p + n \<le> length l \<Longrightarrow> fold (\<lambda>i l. l[p + i := cur ! i]) [0..<n] l = take p l @ map ((!) cur) [0..<n] @ drop (p + n) l"
proof (induction n)
  case (Suc n)
  then show ?case by (auto intro!: nth_equalityI simp: nth_append nth_list_update)
qed simp

section \<open>Strings in arrays\<close>

lemma str_split: "is_line l \<Longrightarrow> l = str l @ 0 # drop (edit_strlen l + 1) l"
proof (induction l)
  case (Cons a l)
  then show ?case by (cases "a = 0") (auto simp: is_line_def str_def edit_strlen_def)
qed (simp add: is_line_def)

lemma strlen_less: "is_line l \<Longrightarrow> edit_strlen l < length l"
  using arg_cong [OF str_split, of l length] by (simp add: edit_strlen_def)

lemma str_app [simp]: "0 \<notin> set xs \<Longrightarrow> str (xs @ 0 # ys) = xs"
  by (auto simp: str_def takeWhile_append)

lemma is_line_app [simp]: "is_line (xs @ 0 # ys)"
  by (simp add: is_line_def)

lemma str_no_zero [simp]: "0 \<notin> set (str l)" "c \<in> set (str l) \<Longrightarrow> c \<noteq> 0"
  by (auto simp: str_def dest: set_takeWhileD)

lemma strcpy_ok: "is_line l \<Longrightarrow> edit_strlen l < length d \<Longrightarrow> edit_strcpy d l = Some (str l @ 0 # drop (edit_strlen l + 1) d)"
proof (induction d l rule: edit_strcpy.induct)
  case (1 d ds c cs)
  then show ?case by (cases "c = 0") (auto simp: is_line_def str_def edit_strlen_def)
qed (auto simp: is_line_def)

lemma insert_array:
  assumes "is_line l" "c \<le> edit_strlen l" "edit_strlen l + 1 < length l"
  shows "(fold (\<lambda>i l. l[i := l ! (i - 1)]) (rev [c + 1..<edit_strlen l + 1]) l)[c := ch, edit_strlen l + 1 := 0] =
    (take c (str l) @ ch # drop c (str l)) @ 0 # drop (edit_strlen l + 2) l"
proof -
  let ?n = "edit_strlen l"
  have s: "take ?n l = str l" using arg_cong [OF str_split [OF assms(1)], of "take ?n"] by (simp add: edit_strlen_def)
  have "fold (\<lambda>i l. l[i := l ! (i - 1)]) (rev [c + 1..<?n + 1]) l = take (c + 1) l @ take (?n - c) (drop c l) @ drop (?n + 1) l"
    using assms by (intro shift_right) auto
  also have "take (?n - c) (drop c l) = drop c (str l)" using assms(2) by (simp add: s [symmetric] drop_take)
  also have "take (c + 1) l = take c (str l) @ [l ! c]"
    using assms by (simp add: s [symmetric] take_Suc_conv_app_nth min_absorb1)
  also have "drop (?n + 1) l = l ! (?n + 1) # drop (?n + 2) l" using assms(3) by (simp add: Cons_nth_drop_Suc)
  finally show ?thesis using assms(2) by (simp add: list_update_append edit_strlen_def Suc_diff_le)
qed

lemma delete_array:
  assumes "is_line l" "c < edit_strlen l"
  shows "fold (\<lambda>i l. l[i := l ! (i + 1)]) [c..<edit_strlen l] l = (take c (str l) @ drop (c + 1) (str l)) @ 0 # drop (edit_strlen l) l"
proof -
  let ?n = "edit_strlen l"
  have n: "?n < length l" by (rule strlen_less [OF assms(1)])
  have s: "take ?n l = str l" and z: "l ! ?n = 0"
    using arg_cong [OF str_split [OF assms(1)], of "take ?n"] arg_cong [OF str_split [OF assms(1)], of "\<lambda>x. x ! ?n"]
    by (simp_all add: edit_strlen_def)
  have "take (?n - c) (drop (c + 1) l) = drop (c + 1) (take (Suc ?n) l)" using assms(2) by (simp add: drop_take Suc_diff_Suc)
  also have "\<dots> = drop (c + 1) (str l) @ [0]" using n assms(2) by (simp add: take_Suc_conv_app_nth s z) (simp add: edit_strlen_def)
  finally have d: "take (?n - c) (drop (c + 1) l) = drop (c + 1) (str l) @ [0]" .
  have "take c l = take c (str l)" using assms(2) by (simp add: s [symmetric] min_absorb1)
  then show ?thesis using shift_left [of c ?n l] assms(2) n by (simp only: d) simp
qed

lemma join_array:
  assumes "is_line p" "is_line l" "edit_strlen p + edit_strlen l < length p"
  shows "fold (\<lambda>i q. q[edit_strlen p + i := l ! i]) [0..<edit_strlen l + 1] p = (str p @ str l) @ 0 # drop (edit_strlen p + edit_strlen l + 1) p"
proof -
  have "map ((!) l) [0..<edit_strlen l + 1] = take (edit_strlen l + 1) l"
    using strlen_less [OF assms(2)] by (intro nth_equalityI) (auto simp del: upt_Suc)
  also have "\<dots> = str l @ [0]" using arg_cong [OF str_split [OF assms(2)], of "take (edit_strlen l + 1)"] by (simp add: edit_strlen_def)
  finally have m: "map ((!) l) [0..<edit_strlen l + 1] = str l @ [0]" .
  have "take (edit_strlen p) p = str p" using arg_cong [OF str_split [OF assms(1)], of "take (edit_strlen p)"] by (simp add: edit_strlen_def)
  then show ?thesis using overwrite_nth [of "edit_strlen p" "edit_strlen l + 1" p l] assms(3) by (simp only: m) (simp add: add.assoc)
qed

section \<open>The document\<close>

text \<open>What the editor shows its user: the lines of the text and the place of the cursor.\<close>

record doc =
  d_lines :: "u8 list list"
  d_row :: nat
  d_col :: nat

definition doc_of :: "'d ed \<Rightarrow> doc" where
  "doc_of s = \<lparr>d_lines = map str (take (edit_line_count s) (edit_lines s)), d_row = cursor_row s, d_col = cursor_col s\<rparr>"

definition a_insert :: "u8 \<Rightarrow> doc \<Rightarrow> doc" where
  "a_insert ch d = (let l = d_lines d ! d_row d in
     if length l \<ge> 127 then d
     else d\<lparr>d_lines := (d_lines d)[d_row d := take (d_col d) l @ ch # drop (d_col d) l], d_col := d_col d + 1\<rparr>)"

definition a_delete :: "doc \<Rightarrow> doc" where
  "a_delete d = (let l = d_lines d ! d_row d in
     if d_col d \<ge> length l then d else d\<lparr>d_lines := (d_lines d)[d_row d := take (d_col d) l @ drop (d_col d + 1) l]\<rparr>)"

definition a_backspace :: "doc \<Rightarrow> doc" where
  "a_backspace d =
     (if d_col d > 0 then a_delete (d\<lparr>d_col := d_col d - 1\<rparr>)
      else if d_row d = 0 then d
      else let p = d_lines d ! (d_row d - 1); l = d_lines d ! d_row d in
        if length p + length l < 128
        then \<lparr>d_lines = take (d_row d - 1) (d_lines d) @ [p @ l] @ drop (d_row d + 1) (d_lines d), d_row = d_row d - 1, d_col = length p\<rparr>
        else d)"

text \<open>In a text of 127 lines there is no room for another: the rest of the line behind the cursor is dropped.\<close>

definition a_newline :: "doc \<Rightarrow> doc" where
  "a_newline d =
     (let l = d_lines d ! d_row d;
          front = (if length (d_lines d) < 127 then take (d_row d) (d_lines d) @ [take (d_col d) l, drop (d_col d) l] @ drop (d_row d + 1) (d_lines d)
                   else (d_lines d)[d_row d := take (d_col d) l])
      in \<lparr>d_lines = front, d_row = d_row d + 1, d_col = 0\<rparr>)"

definition rows_ok :: "'d ed \<Rightarrow> bool" where
  "rows_ok s \<longleftrightarrow> length (edit_lines s) = 128 \<and> (\<forall>l \<in> set (edit_lines s). length l = 128 \<and> is_line l)"

definition ed_ok :: "'d ed \<Rightarrow> bool" where
  "ed_ok s \<longleftrightarrow> rows_ok s \<and> edit_line_count s \<le> 128 \<and> cursor_row s < edit_line_count s \<and> cursor_col s \<le> edit_strlen (edit_lines s ! cursor_row s)"

definition same_disk :: "'d ed \<Rightarrow> 'd ed \<Rightarrow> bool" where
  "same_disk s t \<longleftrightarrow> disk t = disk s \<and> edit_filename t = edit_filename s \<and> search_str t = search_str s \<and> edit_running t = edit_running s"

definition refines_by :: "('d ed \<Rightarrow> 'd ed option) \<Rightarrow> (doc \<Rightarrow> doc) \<Rightarrow> 'd ed \<Rightarrow> bool" where
  "refines_by f g s \<longleftrightarrow> (\<exists>t. f s = Some t \<and> ed_ok t \<and> doc_of t = g (doc_of s) \<and> same_disk s t)"

lemma rows_okD: "rows_ok s \<Longrightarrow> i < 128 \<Longrightarrow> length (edit_lines s ! i) = 128 \<and> is_line (edit_lines s ! i)"
  by (simp add: rows_ok_def)

lemma get_row: "rows_ok s \<Longrightarrow> i < 128 \<Longrightarrow> get_line i s = Some (edit_lines s ! i)"
  by (simp add: get_line_def rows_okD EDIT_MAX_LINES_def)

lemma put_line_rows: "rows_ok s \<Longrightarrow> length l = 128 \<Longrightarrow> is_line l \<Longrightarrow> rows_ok (put_line i l s)"
  by (auto simp: rows_ok_def put_line_def dest!: set_update_subset_insert [THEN subsetD])

lemma put_line_frame [simp]:
  "edit_line_count (put_line i l s) = edit_line_count s" "cursor_row (put_line i l s) = cursor_row s" "cursor_col (put_line i l s) = cursor_col s"
  "edit_lines (put_line i l s) = (edit_lines s)[i := l]" "disk (put_line i l s) = disk s" "edit_filename (put_line i l s) = edit_filename s"
  "search_str (put_line i l s) = search_str s" "edit_running (put_line i l s) = edit_running s"
  by (simp_all add: put_line_def)

lemma rows_cong: "edit_lines t = edit_lines s \<Longrightarrow> rows_ok t = rows_ok s"
  by (simp add: rows_ok_def)

lemma map_take_update: "map f (take n (xs[i := x])) = (map f (take n xs))[i := f x]"
  by (simp add: take_map [symmetric] map_update take_update_swap) 

lemma ed_okD:
  assumes "ed_ok s"
  shows "rows_ok s" "cursor_row s < edit_line_count s" "edit_line_count s \<le> 128" "cursor_row s < 128"
    "cursor_col s \<le> edit_strlen (edit_lines s ! cursor_row s)" "length (edit_lines s ! cursor_row s) = 128" "is_line (edit_lines s ! cursor_row s)"
    "edit_strlen (edit_lines s ! cursor_row s) < 128" "length (edit_lines s) = 128" "get_line (cursor_row s) s = Some (edit_lines s ! cursor_row s)"
proof -
  show 1: "rows_ok s" "cursor_row s < edit_line_count s" "edit_line_count s \<le> 128" "cursor_col s \<le> edit_strlen (edit_lines s ! cursor_row s)"
    using assms by (simp_all add: ed_ok_def)
  then show r: "cursor_row s < 128" by simp
  then show 2: "length (edit_lines s ! cursor_row s) = 128" "is_line (edit_lines s ! cursor_row s)" using rows_okD [OF 1(1)] by simp_all
  then show "edit_strlen (edit_lines s ! cursor_row s) < 128" using strlen_less by fastforce
  show "length (edit_lines s) = 128" using 1(1) by (simp add: rows_ok_def)
  show "get_line (cursor_row s) s = Some (edit_lines s ! cursor_row s)" by (rule get_row [OF 1(1) r])
qed

lemma ensure_self: "ed_ok s \<Longrightarrow> ensure_line (cursor_row s) s = Some s"
  using ed_okD(2) [of s] by (simp add: ensure_line_def Suc_le_eq)

lemma doc_line: "ed_ok s \<Longrightarrow> d_lines (doc_of s) ! d_row (doc_of s) = str (edit_lines s ! cursor_row s)"
  using ed_okD(2,3,9) [of s] by (simp add: doc_of_def)

lemma doc_fields [simp]: "d_row (doc_of s) = cursor_row s" "d_col (doc_of s) = cursor_col s"
  by (simp_all add: doc_of_def)

lemma put_line_ed_ok:
  assumes "ed_ok s" "length l = 128" "is_line l" "edit_lines t = (edit_lines s)[cursor_row s := l]" "edit_line_count t = edit_line_count s"
    "cursor_row t = cursor_row s" "cursor_col t \<le> edit_strlen l"
  shows "ed_ok t"
proof -
  note o = ed_okD [OF assms(1)]
  have "rows_ok t = rows_ok (put_line (cursor_row s) l s)" by (rule rows_cong) (simp add: assms(4))
  moreover have "edit_lines t ! cursor_row t = l" using o(4,9) by (simp add: assms(4,6))
  ultimately show ?thesis using put_line_rows [OF o(1) assms(2,3)] o(2,3) assms(5-7) by (simp only: ed_ok_def)
qed

lemma insert_refines:
  assumes "ed_ok s" "ch \<noteq> 0"
  shows "refines_by (insert_char ch) (a_insert ch) s"
proof -
  note o = ed_okD [OF assms(1)]
  define l where "l = edit_lines s ! cursor_row s"
  note b = ensure_self [OF assms(1)] o(10) [folded l_def]
  show ?thesis
  proof (cases "edit_strlen l \<ge> 127")
    case True
    then show ?thesis using assms(1) b doc_line [OF assms(1)]
      by (simp add: refines_by_def insert_char_def a_insert_def EDIT_MAX_COLS_def same_disk_def l_def [symmetric] edit_strlen_def)
  next
    case False
    let ?l = "(take (cursor_col s) (str l) @ ch # drop (cursor_col s) (str l)) @ 0 # drop (edit_strlen l + 2) l"
    let ?t = "(put_line (cursor_row s) ?l s)\<lparr>cursor_col := cursor_col s + 1, edit_modified := True\<rparr>"
    have a: "(fold (\<lambda>i l. l[i := l ! (i - 1)]) (rev [cursor_col s + 1..<edit_strlen l + 1]) l)[cursor_col s := ch, edit_strlen l + 1 := 0] = ?l"
      using o(5,6,7) False by (intro insert_array) (simp_all add: l_def)
    have z: "0 \<notin> set (take (cursor_col s) (str l) @ ch # drop (cursor_col s) (str l))"
      using assms(2) str_no_zero(1) [of l] by (auto dest: in_set_takeD in_set_dropD)
    have n: "length ?l = 128" "is_line ?l" "str ?l = take (cursor_col s) (str l) @ ch # drop (cursor_col s) (str l)"
      using o(5,6) False str_app [OF z] by (auto simp: l_def edit_strlen_def simp del: append_assoc str_app)
    have "insert_char ch s = Some ?t"
      unfolding insert_char_def using b False o(5,8) a by (simp add: EDIT_MAX_COLS_def l_def [symmetric])
    moreover have "ed_ok ?t"
      using o(5) [folded l_def] False n(3) by (intro put_line_ed_ok [OF assms(1) n(1,2)]) (simp_all add: edit_strlen_def)
    moreover have "doc_of ?t = a_insert ch (doc_of s)"
      using n(3) doc_line [OF assms(1)] False by (simp add: doc_of_def a_insert_def Let_def map_take_update l_def [symmetric] edit_strlen_def)
    ultimately show ?thesis unfolding refines_by_def by (intro exI [of _ ?t]) (simp add: same_disk_def)
  qed
qed

lemma delete_refines:
  assumes "ed_ok s"
  shows "refines_by delete_char a_delete s"
proof -
  note o = ed_okD [OF assms(1)]
  define l where "l = edit_lines s ! cursor_row s"
  show ?thesis
  proof (cases "cursor_col s \<ge> edit_strlen l")
    case True
    then show ?thesis using assms(1) o doc_line [OF assms(1)]
      by (simp add: refines_by_def delete_char_def a_delete_def same_disk_def l_def [symmetric] edit_strlen_def)
  next
    case False
    let ?l = "(take (cursor_col s) (str l) @ drop (cursor_col s + 1) (str l)) @ 0 # drop (edit_strlen l) l"
    let ?t = "(put_line (cursor_row s) ?l s)\<lparr>edit_modified := True\<rparr>"
    have a: "fold (\<lambda>i l. l[i := l ! (i + 1)]) [cursor_col s..<edit_strlen l] l = ?l"
      using o(7) False by (intro delete_array) (simp_all add: l_def)
    have z: "0 \<notin> set (take (cursor_col s) (str l) @ drop (cursor_col s + 1) (str l))"
      using str_no_zero(1) [of l] by (auto dest: in_set_takeD in_set_dropD)
    have n: "length ?l = 128" "is_line ?l" "str ?l = take (cursor_col s) (str l) @ drop (cursor_col s + 1) (str l)"
      using o(6,8) False str_app [OF z] by (auto simp: l_def edit_strlen_def simp del: append_assoc str_app)
    have "delete_char s = Some ?t"
      unfolding delete_char_def using False o(2,10) a by (simp add: l_def [symmetric])
    moreover have "ed_ok ?t"
      using o(5) [folded l_def] False n(3) by (intro put_line_ed_ok [OF assms(1) n(1,2)]) (simp_all add: edit_strlen_def)
    moreover have "doc_of ?t = a_delete (doc_of s)"
      using n(3) doc_line [OF assms(1)] False by (simp add: doc_of_def a_delete_def Let_def map_take_update l_def [symmetric] edit_strlen_def)
    ultimately show ?thesis unfolding refines_by_def by (intro exI [of _ ?t]) (simp add: same_disk_def)
  qed
qed

text \<open>Copying lines acts on the strings in the rows.\<close>

lemma copy_line_ok:
  assumes "rows_ok s" "i < 128" "j < 128"
  shows "\<exists>t. copy_line i j s = Some t \<and> rows_ok t \<and> map str (edit_lines t) = (map str (edit_lines s))[i := map str (edit_lines s) ! j] \<and>
    t = s\<lparr>edit_lines := edit_lines t\<rparr>"
proof -
  let ?l = "edit_lines s ! j" let ?r = "str ?l @ 0 # drop (edit_strlen ?l + 1) (edit_lines s ! i)"
  have r: "length (edit_lines s ! i) = 128" "length ?l = 128" "is_line ?l" "length (edit_lines s) = 128"
    using rows_okD [OF assms(1)] assms by (auto simp: rows_ok_def)
  then have n: "edit_strlen ?l < 128" using strlen_less [OF r(3)] by simp
  have "copy_line i j s = Some (put_line i ?r s)"
    using strcpy_ok [OF r(3)] n r(1) assms by (simp add: copy_line_def EDIT_MAX_LINES_def)
  moreover have "rows_ok (put_line i ?r s)" using r n by (intro put_line_rows [OF assms(1)]) (simp_all add: edit_strlen_def)
  ultimately show ?thesis using assms r(4) by (simp add: map_update) (simp add: put_line_def)
qed

lemma copy_lines_ok:
  assumes "rows_ok s" "\<forall>(i, j) \<in> set ps. i < 128 \<and> j < 128"
  shows "\<exists>t. copy_lines ps s = Some t \<and> rows_ok t \<and> map str (edit_lines t) = fold (\<lambda>(i, j) l. l[i := l ! j]) ps (map str (edit_lines s)) \<and>
    t = s\<lparr>edit_lines := edit_lines t\<rparr>"
  using assms
proof (induction ps arbitrary: s)
  case (Cons p ps)
  obtain i j where p: "p = (i, j)" by (cases p)
  then have "i < 128" "j < 128" using Cons.prems(2) by auto
  from copy_line_ok [OF Cons.prems(1) this] obtain t where
    t: "copy_line i j s = Some t" "rows_ok t" "map str (edit_lines t) = (map str (edit_lines s))[i := map str (edit_lines s) ! j]" "t = s\<lparr>edit_lines := edit_lines t\<rparr>"
    by blast
  from Cons.IH [OF t(2)] Cons.prems(2) obtain u where
    u: "copy_lines ps t = Some u" "rows_ok u" "map str (edit_lines u) = fold (\<lambda>(i, j) l. l[i := l ! j]) ps (map str (edit_lines t))" "u = t\<lparr>edit_lines := edit_lines u\<rparr>"
    by auto
  have "u = s\<lparr>edit_lines := edit_lines u\<rparr>" by (subst u(4), subst t(4)) simp
  with t(1,3) u p show ?case by (intro exI [of _ u]) simp
qed simp

lemma fold_pairs: "fold (\<lambda>(i, j) l. l[i := l ! j]) (map (\<lambda>i. (f i, g i)) is) l = fold (\<lambda>i l. l[f i := l ! g i]) is l"
  by (induction "is" arbitrary: l) auto

lemma doc_lines_map: "d_lines (doc_of s) = take (edit_line_count s) (map str (edit_lines s))"
  by (simp add: doc_of_def take_map)

lemma ed_okI:
  assumes "rows_ok s" "edit_line_count s \<le> 128" "cursor_row s < edit_line_count s" "cursor_col s \<le> length (map str (edit_lines s) ! cursor_row s)"
  shows "ed_ok s"
  using assms by (simp add: ed_ok_def rows_ok_def edit_strlen_def)

lemma backspace_refines:
  assumes "ed_ok s"
  shows "refines_by backspace_char a_backspace s"
proof (cases "cursor_col s > 0 \<or> cursor_row s = 0")
  case True
  let ?s = "s\<lparr>cursor_col := cursor_col s - 1\<rparr>"
  have "ed_ok ?s" using assms by (auto simp: ed_ok_def rows_ok_def)
  from delete_refines [OF this] True assms show ?thesis
    by (auto simp: refines_by_def backspace_char_def a_backspace_def same_disk_def doc_of_def)
next
  case False
  note o = ed_okD [OF assms]
  define r where "r = cursor_row s - 1"
  define p where "p = edit_lines s ! r"
  define l where "l = edit_lines s ! cursor_row s"
  have r: "cursor_row s = r + 1" "r < 128" using False o(4) by (simp_all add: r_def)
  have p: "get_line r s = Some p" "length p = 128" "is_line p" using get_row [OF o(1) r(2)] rows_okD [OF o(1) r(2)] by (simp_all add: p_def)
  have n: "edit_line_count s \<le> 128" "r + 1 < edit_line_count s" using o(2,3) r(1) by simp_all
  have d: "d_lines (doc_of s) ! r = str p" "d_lines (doc_of s) ! (r + 1) = str l"
    using n o(9) r(1) by (simp_all add: doc_of_def p_def l_def)
  show ?thesis
  proof (cases "edit_strlen p + edit_strlen l < 128")
    case no_room: False
    then show ?thesis using False assms p(1) o(10) [folded l_def] d r(1)
      by (simp add: refines_by_def backspace_char_def a_backspace_def same_disk_def EDIT_MAX_COLS_def edit_strlen_def Let_def)
  next
    case room: True
    let ?p = "(str p @ str l) @ 0 # drop (edit_strlen p + edit_strlen l + 1) p"
    let ?u = "put_line r ?p s"
    let ?ps = "map (\<lambda>i. (i, i + 1)) [r + 1..<edit_line_count s - 1]"
    have j: "fold (\<lambda>i q. q[edit_strlen p + i := l ! i]) [0..<edit_strlen l + 1] p = ?p"
      using join_array [OF p(3) o(7), folded l_def] room p(2) by (simp add: l_def)
    have z: "0 \<notin> set (str p @ str l)" by simp
    have u: "rows_ok ?u" using room p(2) by (intro put_line_rows [OF o(1)]) (simp_all add: edit_strlen_def is_line_def)
    have "\<forall>(i, j) \<in> set ?ps. i < 128 \<and> j < 128" using n by auto
    from copy_lines_ok [OF u this] obtain t where
      t: "copy_lines ?ps ?u = Some t" "rows_ok t" "map str (edit_lines t) = fold (\<lambda>(i, j) l. l[i := l ! j]) ?ps (map str (edit_lines ?u))"
        "t = ?u\<lparr>edit_lines := edit_lines t\<rparr>" by blast
    have tf: "edit_line_count t = edit_line_count s" "cursor_row t = r + 1" "same_disk s t"
      by (subst t(4), simp add: same_disk_def r)+
    define X where "X = (map str (edit_lines s))[r := str p @ str l]"
    have lx: "length X = 128" using o(9) by (simp add: X_def)
    have "map str (edit_lines ?u) = X" unfolding X_def put_line_frame map_update str_app [OF z] ..
    then have st: "map str (edit_lines t) = take (r + 1) X @ take (edit_line_count s - 1 - (r + 1)) (drop (r + 2) X) @ drop (edit_line_count s - 1) X"
      using t(3) shift_left [of "r + 1" "edit_line_count s - 1" X] n lx by (simp add: fold_pairs)
    let ?t = "t\<lparr>edit_line_count := edit_line_count t - 1, cursor_row := r, cursor_col := edit_strlen p, edit_modified := True\<rparr>"
    have "backspace_char s = Some ?t"
      unfolding backspace_char_def using False p(1) o(10) [folded l_def] r room j t(1) tf
      by (simp add: EDIT_MAX_COLS_def Let_def)
    moreover have rr: "map str (edit_lines t) ! r = str p @ str l"
      unfolding st using lx r(2) by (simp add: nth_append X_def o(9))
    moreover have "ed_ok ?t"
      using t(2) n tf rr by (intro ed_okI) (simp_all add: rows_ok_def edit_strlen_def)
    moreover have "doc_of ?t = a_backspace (doc_of s)"
    proof -
      have "d_lines (doc_of ?t) = take (r + 1) X @ take (edit_line_count s - 1 - (r + 1)) (drop (r + 2) X)"
        unfolding doc_lines_map using n lx tf by (simp add: st min_absorb1)
      also have "take (r + 1) X = take r (d_lines (doc_of s)) @ [str p @ str l]"
        using n o(9) by (simp add: X_def doc_lines_map take_Suc_conv_app_nth min_absorb1)
      also have "take (edit_line_count s - 1 - (r + 1)) (drop (r + 2) X) = drop (r + 2) (d_lines (doc_of s))"
        using n by (simp add: X_def doc_lines_map drop_take)
      finally show ?thesis using room d r(1) False by (simp add: a_backspace_def doc_of_def edit_strlen_def Let_def)
    qed
    ultimately show ?thesis unfolding refines_by_def using tf(3) by (intro exI [of _ ?t]) (simp add: same_disk_def)
  qed
qed

lemma cut_array:
  assumes "is_line l" "c \<le> edit_strlen l" "edit_strlen l < length l"
  shows "l[c := 0] = take c (str l) @ 0 # drop (c + 1) l" "drop c l = drop c (str l) @ 0 # drop (edit_strlen l + 1) l"
proof -
  have s: "take (edit_strlen l) l = str l" using arg_cong [OF str_split [OF assms(1)], of "take (edit_strlen l)"] by (simp add: edit_strlen_def)
  show "l[c := 0] = take c (str l) @ 0 # drop (c + 1) l"
    using assms by (simp add: s [symmetric] upd_conv_take_nth_drop min_absorb1)
  show "drop c l = drop c (str l) @ 0 # drop (edit_strlen l + 1) l"
    using arg_cong [OF str_split [OF assms(1)], of "drop c"] assms(2) by (simp add: edit_strlen_def)
qed

lemma take_drop_no_zero: "0 \<notin> set (take c (str l))" "0 \<notin> set (drop c (str l))"
  using str_no_zero(1) [of l] by (auto dest: in_set_takeD in_set_dropD)

lemma newline_full:
  assumes "ed_ok s" "127 \<le> edit_line_count s" "cursor_row s + 1 < edit_line_count s"
  shows "refines_by insert_newline a_newline s"
proof -
  note o = ed_okD [OF assms(1)]
  define l where "l = edit_lines s ! cursor_row s"
  define c where "c = cursor_col s"
  let ?l = "take c (str l) @ 0 # drop (c + 1) l"
  have cut: "l[c := 0] = ?l" using cut_array(1) [of l c] o(5-8) by (simp add: l_def c_def)
  have s: "str ?l = take c (str l)" by (rule str_app [OF take_drop_no_zero(1)])
  have cl: "c \<le> edit_strlen l" "c < 128" "length l = 128" using o(5,6,8) by (simp_all add: l_def c_def)
  let ?t = "(put_line (cursor_row s) ?l s)\<lparr>cursor_row := cursor_row s + 1, cursor_col := 0, edit_modified := True\<rparr>"
  have "insert_newline s = Some ?t"
    unfolding insert_newline_def using ensure_self [OF assms(1)] o(10) assms(2) cut cl
    by (simp add: EDIT_MAX_COLS_def EDIT_MAX_LINES_def l_def [symmetric] c_def [symmetric])
  moreover have "ed_ok ?t"
  proof -
    have "rows_ok (put_line (cursor_row s) ?l s)" using cl by (intro put_line_rows [OF o(1)]) (simp_all add: edit_strlen_def)
    then have "rows_ok ?t" using rows_cong [of ?t "put_line (cursor_row s) ?l s"] by simp
    then show ?thesis using o(3) assms(3) by (simp add: ed_ok_def)
  qed
  moreover have "doc_of ?t = a_newline (doc_of s)"
    using s assms(2) o(3,9) doc_line [OF assms(1)]
    by (simp add: doc_of_def a_newline_def map_take_update l_def [symmetric] c_def Let_def)
  ultimately show ?thesis unfolding refines_by_def by (intro exI [of _ ?t]) (simp add: same_disk_def)
qed

lemma newline_room:
  assumes "ed_ok s" "edit_line_count s < 127"
  shows "refines_by insert_newline a_newline s"
proof -
  note o = ed_okD [OF assms(1)]
  define l where "l = edit_lines s ! cursor_row s"
  define c where "c = cursor_col s"
  define r where "r = cursor_row s"
  define n where "n = edit_line_count s"
  let ?l = "take c (str l) @ 0 # drop (c + 1) l"
  have cl: "c \<le> edit_strlen l" "c < 128" "length l = 128" "is_line l" "edit_strlen l < 128" "r < n" "n < 127"
    using o(2,5-8) assms(2) by (simp_all add: l_def c_def r_def n_def)
  have cut: "l[c := 0] = ?l" "drop c l = drop c (str l) @ 0 # drop (edit_strlen l + 1) l"
    using cut_array [of l c] cl by simp_all
  have s: "str ?l = take c (str l)" by (rule str_app [OF take_drop_no_zero(1)])
  let ?u = "put_line r ?l s"
  let ?ps = "map (\<lambda>i. (i + 1, i)) (rev [r + 1..<n + 1])"
  have u: "rows_ok ?u" using cl by (intro put_line_rows [OF o(1)]) (simp_all add: edit_strlen_def)
  have "\<forall>(i, j) \<in> set ?ps. i < 128 \<and> j < 128" using cl by auto
  from copy_lines_ok [OF u this] obtain t where
    t: "copy_lines ?ps ?u = Some t" "rows_ok t" "map str (edit_lines t) = fold (\<lambda>(i, j) l. l[i := l ! j]) ?ps (map str (edit_lines ?u))"
      "t = ?u\<lparr>edit_lines := edit_lines t\<rparr>" by blast
  have tf: "edit_line_count t = n" "cursor_row t = r" "cursor_col t = c" "same_disk s t"
    by (subst t(4), simp add: same_disk_def r_def n_def c_def)+
  define X where "X = (map str (edit_lines s))[r := take c (str l)]"
  have lx: "length X = 128" using o(9) by (simp add: X_def)
  have "map str (edit_lines ?u) = X" unfolding X_def put_line_frame map_update s ..
  moreover have "map (\<lambda>i. (i + 1, i)) (rev [r + 1..<n + 1]) = map (\<lambda>i. (i, i - 1)) (rev [(r + 1) + 1..<(n + 1) + 1])"
    unfolding rev_map map_map [symmetric] by (simp add: rev_map map_Suc_upt [symmetric] comp_def del: upt_Suc map_Suc_upt)
  ultimately have st: "map str (edit_lines t) = take (r + 2) X @ take (n - r) (drop (r + 1) X) @ drop (n + 2) X"
    using t(3) shift_right [of "r + 1" "n + 1" X] cl lx by (simp only: fold_pairs) simp
  let ?new = "drop c l"
  let ?m = "drop c (str l) @ 0 # drop (edit_strlen ?new + 1) (edit_lines t ! (r + 1))"
  have row: "length (edit_lines t ! (r + 1)) = 128" "length (edit_lines t) = 128" using rows_okD [OF t(2), of "r + 1"] cl t(2) by (simp_all add: rows_ok_def)
  have new: "is_line ?new" "str ?new = drop c (str l)" "edit_strlen ?new < 128"
    using str_app [OF take_drop_no_zero(2), of c l "drop (edit_strlen l + 1) l"] cl by (simp_all add: cut(2) edit_strlen_def)
  have cp: "edit_strcpy (edit_lines t ! (r + 1)) ?new = Some ?m" using strcpy_ok [OF new(1)] new row by simp
  have sm: "str ?m = drop c (str l)" by (rule str_app [OF take_drop_no_zero(2)])
  let ?t = "(put_line (r + 1) ?m t)\<lparr>edit_line_count := n + 1, cursor_row := r + 1, cursor_col := 0, edit_modified := True\<rparr>"
  have "insert_newline s = Some ?t"
    unfolding insert_newline_def using ensure_self [OF assms(1), folded r_def] o(10) [folded l_def r_def] cut(1) cl t(1) cp tf
    by (simp add: EDIT_MAX_COLS_def EDIT_MAX_LINES_def c_def [symmetric] r_def [symmetric] n_def [symmetric] del: upt_Suc)
  moreover have "ed_ok ?t"
  proof -
    have "rows_ok (put_line (r + 1) ?m t)"
      using row(1) new by (intro put_line_rows [OF t(2)]) (simp_all add: edit_strlen_def)
    then have "rows_ok ?t" using rows_cong [of ?t "put_line (r + 1) ?m t"] by simp
    then show ?thesis using cl by (simp add: ed_ok_def)
  qed
  moreover have "doc_of ?t = a_newline (doc_of s)"
  proof -
    have "d_lines (doc_of ?t) = take (n + 1) ((map str (edit_lines t))[r + 1 := drop c (str l)])"
      unfolding doc_lines_map by (simp add: map_update str_app [OF take_drop_no_zero(2)])
    also have "\<dots> = take r X @ [take c (str l), drop c (str l)] @ take (n - r - 1) (drop (r + 1) X)"
    proof -
      have "take (r + 2) X = take r X @ [X ! r, X ! (r + 1)]" using cl lx by (simp add: take_Suc_conv_app_nth)
      moreover have "X ! r = take c (str l)" using cl o(9) by (simp add: X_def)
      ultimately have "(map str (edit_lines t))[r + 1 := drop c (str l)] =
          (take r X @ [take c (str l), drop c (str l)]) @ take (n - r) (drop (r + 1) X) @ drop (n + 2) X"
        unfolding st using cl lx by (simp add: list_update_append min_absorb1)
      then show ?thesis using cl lx by (simp add: min_absorb1 Suc_diff_Suc take_Cons')
    qed
    also have "take r X = take r (d_lines (doc_of s))" using cl by (simp add: X_def doc_lines_map n_def min_absorb1)
    also have "take (n - r - 1) (drop (r + 1) X) = drop (r + 1) (d_lines (doc_of s))" using cl by (simp add: X_def doc_lines_map n_def drop_take)
    finally show ?thesis using cl o(9) doc_line [OF assms(1)]
      by (simp add: a_newline_def doc_of_def l_def [symmetric] c_def r_def n_def Let_def)
  qed
  ultimately show ?thesis unfolding refines_by_def using tf(4) by (intro exI [of _ ?t]) (simp add: same_disk_def)
qed

section \<open>Cursor movement\<close>

definition a_clamp :: "doc \<Rightarrow> doc" where
  "a_clamp d = d\<lparr>d_col := min (d_col d) (length (d_lines d ! d_row d))\<rparr>"

definition a_move :: "u8 \<Rightarrow> doc \<Rightarrow> doc" where
  "a_move c d =
     (if c = 0x41 then (if d_row d > 0 then a_clamp (d\<lparr>d_row := d_row d - 1\<rparr>) else d)
      else if c = 0x42 then (if d_row d + 1 < length (d_lines d) then a_clamp (d\<lparr>d_row := d_row d + 1\<rparr>) else d)
      else if c = 0x43 then (if d_col d < length (d_lines d ! d_row d) then d\<lparr>d_col := d_col d + 1\<rparr> else d)
      else if c = 0x44 then d\<lparr>d_col := d_col d - 1\<rparr>
      else if c = 0x48 then d\<lparr>d_col := 0\<rparr>
      else if c = 0x46 then d\<lparr>d_col := length (d_lines d ! d_row d)\<rparr>
      else if c = 0x35 then a_clamp (d\<lparr>d_row := d_row d - 23\<rparr>)
      else if c = 0x36 then a_clamp (d\<lparr>d_row := min (d_row d + 23) (length (d_lines d) - 1)\<rparr>)
      else d)"

definition at_doc :: "'d ed \<Rightarrow> doc \<Rightarrow> 'd ed \<Rightarrow> bool" where
  "at_doc s d t \<longleftrightarrow> ed_ok t \<and> doc_of t = d \<and> same_disk s t"

lemma refines_at: "refines_by f g s \<longleftrightarrow> (\<exists>t. f s = Some t \<and> at_doc s (g (doc_of s)) t)"
  by (simp add: refines_by_def at_doc_def)

lemma doc_length: "ed_ok s \<Longrightarrow> length (d_lines (doc_of s)) = edit_line_count s"
  using ed_okD(3,9) [of s] by (simp add: doc_of_def)

lemma move_cursor:
  assumes "ed_ok s" "edit_lines t = edit_lines s" "edit_line_count t = edit_line_count s" "same_disk s t"
    "cursor_row t < edit_line_count s" "cursor_col t \<le> edit_strlen (edit_lines s ! cursor_row t)"
  shows "at_doc s ((doc_of s)\<lparr>d_row := cursor_row t, d_col := cursor_col t\<rparr>) t"
  using assms ed_okD(1,3) [OF assms(1)] by (simp add: at_doc_def ed_ok_def rows_ok_def doc_of_def)

lemma clamp_move:
  assumes "ed_ok s" "r < edit_line_count s"
  shows "\<exists>t. clamp_col (s\<lparr>cursor_row := r\<rparr>) = Some t \<and> at_doc s (a_clamp ((doc_of s)\<lparr>d_row := r\<rparr>)) t"
proof -
  note o = ed_okD [OF assms(1)]
  let ?s = "s\<lparr>cursor_row := r\<rparr>"
  let ?t = "if cursor_col s > edit_strlen (edit_lines s ! r) then ?s\<lparr>cursor_col := edit_strlen (edit_lines s ! r)\<rparr> else ?s"
  have "rows_ok ?s" using o(1) by (simp add: rows_ok_def)
  then have "clamp_col ?s = Some ?t" using get_row [of ?s r] assms(2) o(3) by (simp add: clamp_col_def)
  moreover have "at_doc s ((doc_of s)\<lparr>d_row := cursor_row ?t, d_col := cursor_col ?t\<rparr>) ?t"
    using assms by (intro move_cursor) (simp_all add: same_disk_def)
  moreover have "(doc_of s)\<lparr>d_row := cursor_row ?t, d_col := cursor_col ?t\<rparr> = a_clamp ((doc_of s)\<lparr>d_row := r\<rparr>)"
    using assms(2) o(3,9) by (simp add: a_clamp_def doc_of_def edit_strlen_def)
  ultimately show ?thesis by auto
qed

lemma at_doc_refl: "ed_ok s \<Longrightarrow> at_doc s (doc_of s) s"
  by (simp add: at_doc_def same_disk_def)

lemma move_refines:
  assumes "ed_ok s" "c = 0x35 \<or> c = 0x36 \<longrightarrow> ks \<noteq> []"
  shows "\<exists>t. move_key c ks s = Ok (t, if c = 0x35 \<or> c = 0x36 then tl ks else ks) \<and> at_doc s (a_move c (doc_of s)) t"
proof -
  note o = ed_okD [OF assms(1)]
  note dl = doc_line [OF assms(1)] doc_length [OF assms(1)]
  have l: "length (str (edit_lines s ! cursor_row s)) = edit_strlen (edit_lines s ! cursor_row s)" by (simp add: edit_strlen_def)
  consider (up) "c = 0x41" | (down) "c = 0x42" | (right) "c = 0x43" | (left) "c = 0x44" | (home) "c = 0x48" | (tail) "c = 0x46" | (pgup) "c = 0x35"
    | (pgdn) "c = 0x36" | (other) "c \<notin> {0x41, 0x42, 0x43, 0x44, 0x48, 0x46, 0x35, 0x36}" by auto
  then show ?thesis
  proof cases
    case up
    then show ?thesis using clamp_move [OF assms(1) less_imp_diff_less [OF o(2), of 1]] at_doc_refl [OF assms(1)]
      by (cases "cursor_row s > 0") (auto simp: move_key_def a_move_def Let_def defined_def)
  next
    case down
    then show ?thesis using clamp_move [OF assms(1), of "cursor_row s + 1"] at_doc_refl [OF assms(1)] dl(2)
      by (cases "cursor_row s + 1 < edit_line_count s") (auto simp: move_key_def a_move_def Let_def defined_def)
  next
    case right
    then show ?thesis using move_cursor [OF assms(1), of "s\<lparr>cursor_col := cursor_col s + 1\<rparr>"] at_doc_refl [OF assms(1)] o(2,10) dl(1) l
      by (cases "cursor_col s < edit_strlen (edit_lines s ! cursor_row s)")
        (auto simp: move_key_def a_move_def Let_def defined_def same_disk_def doc_of_def)
  next
    case left
    then show ?thesis using move_cursor [OF assms(1), of "if cursor_col s > 0 then s\<lparr>cursor_col := cursor_col s - 1\<rparr> else s"] o(2,5)
      by (auto simp: move_key_def a_move_def Let_def same_disk_def doc_of_def split: if_splits)
  next
    case home
    then show ?thesis using move_cursor [OF assms(1), of "s\<lparr>cursor_col := 0\<rparr>"] o(2)
      by (auto simp: move_key_def a_move_def Let_def same_disk_def doc_of_def)
  next
    case tail
    then show ?thesis using move_cursor [OF assms(1), of "s\<lparr>cursor_col := edit_strlen (edit_lines s ! cursor_row s)\<rparr>"] o(2,10) dl(1) l
      by (auto simp: move_key_def a_move_def Let_def defined_def same_disk_def doc_of_def)
  next
    case pgup
    then show ?thesis using clamp_move [OF assms(1) less_imp_diff_less [OF o(2), of 23]] assms(2)
      by (cases ks) (auto simp: move_key_def a_move_def Let_def defined_def EDIT_SCREEN_LINES_def)
  next
    case pgdn
    have m: "(if cursor_row s + 23 \<ge> edit_line_count s then edit_line_count s - 1 else cursor_row s + 23) = min (cursor_row s + 23) (edit_line_count s - 1)"
      using o(2) by auto
    have b: "min (cursor_row s + 23) (edit_line_count s - 1) < edit_line_count s" using o(2) by auto
    show ?thesis using pgdn clamp_move [OF assms(1) b] assms(2) dl(2)
      by (cases ks) (auto simp: move_key_def a_move_def Let_def defined_def EDIT_SCREEN_LINES_def m)
  next
    case other
    then show ?thesis using at_doc_refl [OF assms(1)] by (auto simp: move_key_def a_move_def)
  qed
qed

section \<open>Keys\<close>

definition a_key :: "u8 \<Rightarrow> doc \<Rightarrow> doc" where
  "a_key c d =
     (if c = 13 \<or> c = 10 then a_newline d
      else if c = 8 \<or> c = 0x7F then a_backspace d
      else if c = 9 then (a_insert 0x20 ^^ 4) d
      else if 32 \<le> c \<and> c < 127 then a_insert c d
      else d)"

definition a_step :: "keys \<Rightarrow> doc \<Rightarrow> doc" where
  "a_step keys d = (case keys of
     [] \<Rightarrow> d
   | (c, avail) # ks \<Rightarrow>
       if c \<noteq> 0x1B then a_key c d
       else if avail then (case ks of (c2, _) # (c3, _) # _ \<Rightarrow> if c2 = 0x5B then a_move c3 d else d | _ \<Rightarrow> d)
       else d)"

lemma same_disk_trans: "same_disk s t \<Longrightarrow> same_disk t u \<Longrightarrow> same_disk s u"
  by (simp add: same_disk_def)

lemma insert_tab_refines: "ed_ok s \<Longrightarrow> \<exists>t. insert_tab n s = Some t \<and> at_doc s ((a_insert 0x20 ^^ n) (doc_of s)) t"
proof (induction n arbitrary: s)
  case (Suc n)
  from insert_refines [OF Suc.prems, where ch = "0x20"] obtain t where
    t: "insert_char 0x20 s = Some t" "ed_ok t" "doc_of t = a_insert 0x20 (doc_of s)" "same_disk s t" by (auto simp: refines_by_def)
  from Suc.IH [OF t(2)] obtain u where "insert_tab n t = Some u" "at_doc t ((a_insert 0x20 ^^ n) (doc_of t)) u" by blast
  then show ?case using t by (auto simp: at_doc_def funpow_swap1 intro: same_disk_trans)
qed (simp add: at_doc_refl)

lemma edit_key_refines:
  assumes "ed_ok s" "edit_line_count s < 127 \<or> cursor_row s + 1 < edit_line_count s" "c \<notin> {0x13, 0x06, 0x07}"
  shows "\<exists>t. key_command fs c ks s = Ok (t, ks) \<and> at_doc s (a_key c (doc_of s)) t"
proof -
  have nl: "refines_by insert_newline a_newline s"
    using newline_room [OF assms(1)] newline_full [OF assms(1)] assms(2) by (cases "edit_line_count s < 127") auto
  have "\<exists>t. insert_char c s = Some t \<and> at_doc s (a_insert c (doc_of s)) t" if "32 \<le> c"
  proof -
    have "c \<noteq> 0" using that by auto
    then show ?thesis using insert_refines [OF assms(1)] unfolding refines_at by blast
  qed
  then show ?thesis
    using assms(3) nl backspace_refines [OF assms(1)] insert_tab_refines [OF assms(1), of 4] at_doc_refl [OF assms(1)] unfolding refines_at
    by (auto simp: key_command_def a_key_def Let_def defined_def EDIT_TAB_STOP_def)
qed

lemma redraw_ok:
  assumes "ed_ok s"
  shows "\<exists>t. redraw s = Some t \<and> at_doc s (doc_of s) t"
proof -
  let ?v = "update_view s"
  have v: "edit_lines ?v = edit_lines s" "edit_line_count ?v = edit_line_count s" "cursor_row ?v = cursor_row s" "cursor_col ?v = cursor_col s" "same_disk s ?v"
    by (simp_all add: update_view_def Let_def same_disk_def)
  have "\<forall>i < edit_line_count s. i < 128 \<and> is_line (edit_lines s ! i)" using ed_okD(1,3) [OF assms] rows_okD [of s] by auto
  then obtain w where "draw_screen ?v = Some (?v\<lparr>vga := w\<rparr>)" using v by (auto simp: draw_screen_def EDIT_MAX_LINES_def Let_def)
  moreover obtain c where "update_cursor (?v\<lparr>vga := w\<rparr>) = ?v\<lparr>vga := w, cursor_pos := c\<rparr>" by (simp add: update_cursor_def Let_def)
  moreover have "at_doc s (doc_of s) (?v\<lparr>vga := w, cursor_pos := c\<rparr>)"
    using v assms by (simp add: at_doc_def ed_ok_def rows_ok_def doc_of_def same_disk_def)
  ultimately show ?thesis by (simp add: redraw_def)
qed

text \<open>A command followed by drawing the screen.\<close>

definition drawn :: "('d ed \<times> keys) ed_result \<Rightarrow> ('d ed \<times> keys) ed_result" where
  "drawn r = and_then_do r (\<lambda>(s, ks). and_then_do (defined (redraw s)) (\<lambda>s. Ok (s, ks)))"

lemma drawn_ok:
  assumes "at_doc s d t"
  shows "\<exists>u. drawn (Ok (t, ks)) = Ok (u, ks) \<and> at_doc s d u"
proof -
  from redraw_ok [of t] assms obtain u where "redraw t = Some u" "at_doc t (doc_of t) u" by (auto simp: at_doc_def)
  then show ?thesis using assms by (auto simp: drawn_def defined_def at_doc_def intro: same_disk_trans)
qed

lemma a_key_lines: "d_row d < length (d_lines d) \<Longrightarrow> length (d_lines (a_key c d)) \<le> length (d_lines d) + 1"
proof -
  assume r: "d_row d < length (d_lines d)"
  have "length (d_lines ((a_insert x ^^ n) d)) = length (d_lines d)" for x n
    by (induction n) (auto simp: a_insert_def Let_def)
  moreover have "length (d_lines (a_newline d)) \<le> length (d_lines d) + 1" using r by (auto simp: a_newline_def Let_def)
  moreover have "length (d_lines (a_backspace d)) \<le> length (d_lines d) + 1" using r by (simp add: a_backspace_def a_delete_def Let_def)
  ultimately show ?thesis by (auto simp: a_key_def a_insert_def Let_def)
qed

text \<open>What a round of the editor may do: it has the abstract effect, or waits, and is never undefined.\<close>

definition step_ok :: "keys \<Rightarrow> 'd ed \<Rightarrow> ('d ed \<times> keys) ed_result \<Rightarrow> bool" where
  "step_ok keys s r = (case r of
      Ok (t, ks) \<Rightarrow> ed_ok t \<and> doc_of t = a_step keys (doc_of s) \<and> disk t = disk s \<and> length ks < length keys \<and> set ks \<subseteq> set keys
    | Waits \<Rightarrow> keys = [] \<or> fst (hd keys) = 0x1B \<and> length keys < 4
    | Undef \<Rightarrow> False)"

lemma step_okI:
  "at_doc s (a_step keys (doc_of s)) t \<Longrightarrow> length ks < length keys \<Longrightarrow> set ks \<subseteq> set keys \<Longrightarrow> step_ok keys s (Ok (t, ks))"
  by (simp add: step_ok_def at_doc_def same_disk_def)

lemma drawn_step_ok:
  assumes "r = Ok (t, ks)" "at_doc s (a_step keys (doc_of s)) t" "length ks < length keys" "set ks \<subseteq> set keys"
  shows "step_ok keys s (drawn r)"
  using drawn_ok [OF assms(2), of ks] assms(1,3,4) step_okI by fastforce

lemma editor_step_Cons:
  "editor_step fs ((c, a) # ks) s =
    (if c \<noteq> 0x1B then drawn (key_command fs c ks s)
     else if a then (case ks of [] \<Rightarrow> Waits | (c, _) # ks \<Rightarrow> if c \<noteq> 0x5B then drawn (Ok (s, ks))
           else (case ks of [] \<Rightarrow> Waits | (c, _) # ks \<Rightarrow> drawn (move_key c ks s)))
     else if edit_modified s then
          (let s = editor_show_message ''Unsaved changes! ESC again to quit.'' s in
           case ks of [] \<Rightarrow> Waits | (c, _) # ks \<Rightarrow> if c \<noteq> 0x1B then Ok (s, ks) else Ok (s\<lparr>edit_running := False\<rparr>, ks))
     else Ok (s\<lparr>edit_running := False\<rparr>, ks))"
  unfolding editor_step_def drawn_def by simp

lemma step_escape:
  assumes "ed_ok s"
  shows "step_ok ((0x1B, False) # ks) s (editor_step fs ((0x1B, False) # ks) s)"
proof -
  have d: "ed_ok (editor_show_message m s) \<and> doc_of (editor_show_message m s) = doc_of s \<and> disk (editor_show_message m s) = disk s" for m
    using assms by (simp add: editor_show_message_def ed_ok_def rows_ok_def doc_of_def)
  have q: "ed_ok (u\<lparr>edit_running := False\<rparr>) = ed_ok u" "doc_of (u\<lparr>edit_running := False\<rparr>) = doc_of u" for u :: "'a ed"
    by (simp_all add: ed_ok_def rows_ok_def doc_of_def)
  show ?thesis using d q assms by (auto simp: editor_step_Cons step_ok_def a_step_def Let_def split: list.splits)
qed

lemma step_move:
  assumes "ed_ok s"
  shows "step_ok ((0x1B, True) # (0x5B, a2) # (c, a3) # ks) s (drawn (move_key c ks s))"
proof (cases "(c = 0x35 \<or> c = 0x36) \<and> ks = []")
  case True
  then have "move_key c ks s = Waits" by (auto simp: move_key_def Let_def)
  then show ?thesis using True by (simp add: drawn_def step_ok_def)
next
  case False
  then obtain t where "move_key c ks s = Ok (t, if c = 0x35 \<or> c = 0x36 then tl ks else ks)" "at_doc s (a_move c (doc_of s)) t"
    using move_refines [OF assms, of c ks] by auto
  then show ?thesis by (elim drawn_step_ok) (auto simp: a_step_def dest: in_tl)
qed

lemma step_sequence:
  assumes "ed_ok s"
  shows "step_ok ((0x1B, True) # ks) s (editor_step fs ((0x1B, True) # ks) s)"
proof (cases ks)
  case (Cons k ks2)
  obtain c2 a2 where k: "k = (c2, a2)" by (cases k)
  show ?thesis
  proof (cases "c2 = 0x5B")
    case False
    have "step_ok ((0x1B, True) # ks) s (drawn (Ok (s, ks2)))"
      using at_doc_refl [OF assms] False Cons k by (intro drawn_step_ok [OF refl]) (auto simp: a_step_def split: list.splits)
    then show ?thesis using False Cons k by (simp add: editor_step_Cons)
  next
    case True
    then show ?thesis using Cons k step_move [OF assms]
      by (cases ks2) (auto simp: editor_step_Cons step_ok_def [of "_ # _ # []"] split: prod.splits)
  qed
qed (simp add: editor_step_Cons step_ok_def)

lemma step_key:
  assumes "ed_ok s" "edit_line_count s < 127 \<or> cursor_row s + 1 < edit_line_count s" "kbd_char c" "c \<noteq> 0x1B"
  shows "step_ok ((c, a) # ks) s (editor_step fs ((c, a) # ks) s)"
proof -
  have "c \<notin> {0x13, 0x06, 0x07}" using assms(3) by (auto simp: kbd_char_def)
  from edit_key_refines [OF assms(1,2) this, of fs ks] obtain t where
    "key_command fs c ks s = Ok (t, ks)" "at_doc s (a_key c (doc_of s)) t" by blast
  then have "step_ok ((c, a) # ks) s (drawn (key_command fs c ks s))"
    using assms(4) by (elim drawn_step_ok) (auto simp: a_step_def)
  then show ?thesis using assms(4) by (simp add: editor_step_Cons)
qed

lemma editor_step_ok:
  assumes "ed_ok s" "edit_line_count s < 127 \<or> cursor_row s + 1 < edit_line_count s" "\<forall>(c, a) \<in> set keys. kbd_char c"
  shows "step_ok keys s (editor_step fs keys s)"
proof (cases keys)
  case (Cons k ks)
  obtain c a where k: "k = (c, a)" by (cases k)
  show ?thesis
  proof (cases "c = 0x1B")
    case True
    then show ?thesis using step_escape [OF assms(1)] step_sequence [OF assms(1)] Cons k by (cases a) simp_all
  next
    case False
    then show ?thesis using step_key [OF assms(1,2)] assms(3) Cons k by simp
  qed
qed (simp add: editor_step_def step_ok_def)

text \<open>
  C18. Typing edits the text: for keys as the keyboard delivers them, in a text with room for another line (or with the cursor above the last line), one round of the editor stays
  inside its arrays, has exactly the effect of the abstract editor on the lines and the cursor, keeps the editor's invariant, and writes nothing to the disk.  It ends, or waits for a further key
  within an escape sequence.
\<close>

theorem editor_refines:
  assumes "ed_ok s" "edit_line_count s < 127 \<or> cursor_row s + 1 < edit_line_count s" "\<forall>(c, a) \<in> set keys. kbd_char c"
  shows "case editor_step fs keys s of
      Ok (t, ks) \<Rightarrow> ed_ok t \<and> doc_of t = a_step keys (doc_of s) \<and> disk t = disk s \<and> length ks < length keys
    | Waits \<Rightarrow> keys = [] \<or> fst (hd keys) = 0x1B \<and> length keys < 4
    | Undef \<Rightarrow> False"
  using editor_step_ok [OF assms, of fs] unfolding step_ok_def by (auto split: ed_result.splits)

lemma a_step_lines:
  assumes "d_row d < length (d_lines d)"
  shows "length (d_lines (a_step keys d)) \<le> length (d_lines d) + 1"
proof -
  have "length (d_lines (a_move c d)) = length (d_lines d)" for c by (simp add: a_move_def a_clamp_def)
  then show ?thesis using a_key_lines [OF assms] by (auto simp: a_step_def split: list.splits)
qed


section \<open>A full text\<close>

text \<open>
  In a text of 128 lines, the most a file can bring in, Enter on the last line moves the cursor below the array: the next
  character typed, or a second Enter, is stored outside \<open>edit_lines\<close>.
\<close>

theorem editor_overflow:
  assumes "ed_ok s" "edit_line_count s = 128" "cursor_row s = 127"
  shows "\<exists>t. insert_newline s = Some t \<and> cursor_row t = 128 \<and> insert_char ch t = None \<and> insert_newline t = None"
proof -
  note o = ed_okD [OF assms(1)]
  have "cursor_col s < 128" using o(5,8) by simp
  then obtain t where t: "insert_newline s = Some t" "cursor_row t = 128" "edit_line_count t = 128"
    unfolding insert_newline_def using ensure_self [OF assms(1)] o(10) assms(2,3)
    by (simp add: EDIT_MAX_COLS_def EDIT_MAX_LINES_def Let_def)
  then have "ensure_line (cursor_row t) t = None" by (simp add: ensure_line_def EDIT_MAX_LINES_def)
  then show ?thesis using t by (simp add: insert_char_def insert_newline_def)
qed

section \<open>Witnesses\<close>

definition blank_disk :: "unit fat32" where
  "blank_disk = \<lparr>bpb_bytes_per_sec = 512, bpb_sec_per_clust = 1, bpb_reserved_secs = 32, bpb_num_fats = 2, bpb_total_secs = 0, bpb_fat_size = 0,
     bpb_root_cluster = 2, bpb_fs_info = 1, fat_start_lba = 0, data_area_lba = 0, total_clusters = 0, fat_buf = \<lambda>_. 0, sector_buf = \<lambda>_. 0,
     found_entry = get_entry (\<lambda>_. 0) 0, device = ()\<rparr>"

definition demo_ed :: "nat \<Rightarrow> nat \<Rightarrow> nat \<Rightarrow> unit ed" where
  "demo_ed n r c = \<lparr>edit_lines = (0x61 # 0x62 # 0 # replicate 125 0) # replicate 127 (0 # replicate 127 0), edit_line_count = n, cursor_row = r, cursor_col = c,
     view_top = 0, view_left = 0, edit_filename = replicate 64 0, edit_modified = False, edit_running = True, search_str = replicate 64 0,
     save_buf = \<lambda>_. 0, vga = \<lambda>_. 0, cursor_pos = 0, disk = blank_disk, ram = \<lambda>_. 0\<rparr>"

definition demo_files :: "unit files" where
  "demo_files = \<lparr>fuel = 0, disk_read = \<lambda>_ _ _. None, disk_write = \<lambda>_ _ _ d. (False, d), load_buf = 0\<rparr>"

lemma str_demo: "str (0x61 # 0x62 # 0 # replicate 125 0) = [0x61, 0x62]" "str (0 # replicate 127 0) = []"
  by (simp_all add: str_def)

lemma demo_ed_ok: "ed_ok (demo_ed 128 127 0)" "ed_ok (demo_ed 2 0 1)" "ed_ok (demo_ed 2 0 0)"
  by (simp_all add: ed_ok_def rows_ok_def demo_ed_def is_line_def edit_strlen_def str_demo)

lemma demo_doc: "doc_of (demo_ed 2 0 c) = \<lparr>d_lines = [[0x61, 0x62], []], d_row = 0, d_col = c\<rparr>"
  by (simp add: doc_of_def demo_ed_def str_demo numeral_2_eq_2)

theorem editor_refines_witness:
  "\<exists>t. editor_step demo_files [(0x78, False)] (demo_ed 2 0 1) = Ok (t, []) \<and> doc_of t = \<lparr>d_lines = [[0x61, 0x78, 0x62], []], d_row = 0, d_col = 2\<rparr>"
proof -
  have "a_step [(0x78, False)] (doc_of (demo_ed 2 0 1)) = \<lparr>d_lines = [[0x61, 0x78, 0x62], []], d_row = 0, d_col = 2\<rparr>"
    by (simp add: a_step_def a_key_def a_insert_def demo_doc Let_def)
  moreover have "edit_line_count (demo_ed 2 0 1) = 2" by (simp add: demo_ed_def)
  ultimately show ?thesis
    using editor_refines [OF demo_ed_ok(2), of "[(0x78, False)]" demo_files] by (auto simp: kbd_char_def split: ed_result.splits)
qed


theorem editor_overflow_witness:
  "\<exists>t. insert_newline (demo_ed 128 127 0) = Some t \<and> insert_char 0x78 t = None"
  using editor_overflow [OF demo_ed_ok(1), of "0x78"] by (auto simp: demo_ed_def)

end
