(* ===== verification/Editor_Files.thy ===== *)
theory Editor_Files
  imports Editor_Spec
begin

text \<open>
  The editor's text on disk and on the screen: what is saved loads as the same text, searching finds the next occurrence behind the cursor, and the
  screen shows the part of the text that the view selects.
\<close>

section \<open>Saving and loading\<close>

lemma save_all:
  assumes "rows_ok s" "\<forall>i \<in> set is. i < 128" "length out + 128 * length is \<le> 16384"
  shows "save_lines is out s = Some (out @ concat (map (\<lambda>i. str (edit_lines s ! i) @ [10]) is))"
  using assms(2,3)
proof (induction "is" arbitrary: out)
  case (Cons i "is")
  have i: "i < 128" using Cons.prems(1) by simp
  have l: "length (str (edit_lines s ! i)) < 128"
    using strlen_less [of "edit_lines s ! i"] rows_okD [OF assms(1) i] by (simp add: edit_strlen_def)
  then have "save_lines (i # is) out s = save_lines is (out @ str (edit_lines s ! i) @ [10]) s"
    using get_row [OF assms(1) i] Cons.prems(2) by simp
  also have "\<dots> = Some ((out @ str (edit_lines s ! i) @ [10]) @ concat (map (\<lambda>i. str (edit_lines s ! i) @ [10]) is))"
    using Cons.prems l by (intro Cons.IH) simp_all
  finally show ?case by simp
qed simp

lemma parse_chars:
  assumes "10 \<notin> set l" "13 \<notin> set l" "edit_line_count s < 128" "edit_line_count s < length (edit_lines s)"
    "col + length l \<le> 127" "length (edit_lines s ! edit_line_count s) = 128"
  shows "parse_bytes (l @ rest) col s =
    parse_bytes rest (col + length l)
      (put_line (edit_line_count s) (take col (edit_lines s ! edit_line_count s) @ l @ drop (col + length l) (edit_lines s ! edit_line_count s)) s)"
  using assms
proof (induction l arbitrary: col s)
  case Nil
  then show ?case by (simp add: put_line_def)
next
  case (Cons c l)
  let ?n = "edit_line_count s" let ?row = "edit_lines s ! ?n"
  have "parse_bytes ((c # l) @ rest) col s = parse_bytes (l @ rest) (col + 1) (put_line ?n (?row[col := c]) s)"
    using Cons.prems by (simp add: EDIT_MAX_LINES_def EDIT_MAX_COLS_def Let_def)
  also have "\<dots> = parse_bytes rest (col + 1 + length l)
      (put_line ?n (take (col + 1) (?row[col := c]) @ l @ drop (col + 1 + length l) (?row[col := c])) (put_line ?n (?row[col := c]) s))"
    using Cons.prems Cons.IH [where s = "put_line ?n (?row[col := c]) s" and col = "col + 1"] by simp
  also have "take (col + 1) (?row[col := c]) @ l @ drop (col + 1 + length l) (?row[col := c]) = take col ?row @ (c # l) @ drop (col + length (c # l)) ?row"
    using Cons.prems by (simp add: take_Suc_conv_app_nth)
  finally show ?case by (simp add: put_line_def)
qed

lemma parse_line:
  assumes "10 \<notin> set l" "13 \<notin> set l" "0 \<notin> set l" "rows_ok s" "edit_line_count s < 128" "length l < 128"
  shows "\<exists>t. parse_bytes (l @ 10 # rest) 0 s = parse_bytes rest 0 t \<and> rows_ok t \<and> edit_line_count t = edit_line_count s + 1 \<and>
    map str (take (edit_line_count s + 1) (edit_lines t)) = map str (take (edit_line_count s) (edit_lines s)) @ [l]"
proof -
  let ?n = "edit_line_count s" let ?row = "edit_lines s ! ?n"
  have r: "length ?row = 128" "length (edit_lines s) = 128" using rows_okD [OF assms(4,5)] assms(4) by (simp_all add: rows_ok_def)
  let ?l = "l @ 0 # drop (length l + 1) ?row"
  let ?t = "put_line ?n ?l (s\<lparr>edit_line_count := ?n + 1\<rparr>)"
  have "(l @ drop (length l) ?row)[length l := 0] = ?l" using assms(6) r(1) by (simp add: upd_conv_take_nth_drop)
  then have "parse_bytes (l @ 10 # rest) 0 s = parse_bytes rest 0 ?t"
    using parse_chars [OF assms(1,2,5), of 0 "10 # rest"] assms(5,6) r by (simp add: EDIT_MAX_LINES_def Let_def put_line_def)
  moreover have "rows_ok ?t" using assms(4,6) r by (intro put_line_rows) (simp_all add: rows_ok_def)
  moreover have "map str (take (?n + 1) (edit_lines ?t)) = map str (take ?n (edit_lines s)) @ [l]"
    using assms(3,5) r(2) by (simp add: take_Suc_conv_app_nth)
  ultimately show ?thesis by (intro exI [of _ ?t]) simp
qed

lemma parse_all:
  assumes "\<forall>l \<in> set ls. 10 \<notin> set l \<and> 13 \<notin> set l \<and> 0 \<notin> set l \<and> length l < 128" "rows_ok s" "edit_line_count s + length ls \<le> 128"
  shows "\<exists>t. parse_bytes (concat (map (\<lambda>l. l @ [10]) ls)) 0 s = (0, t) \<and> rows_ok t \<and> edit_line_count t = edit_line_count s + length ls \<and>
    map str (take (edit_line_count t) (edit_lines t)) = map str (take (edit_line_count s) (edit_lines s)) @ ls"
  using assms
proof (induction ls arbitrary: s)
  case (Cons l ls)
  have "10 \<notin> set l" "13 \<notin> set l" "0 \<notin> set l" "length l < 128" "edit_line_count s < 128" using Cons.prems by auto
  from parse_line [OF this(1-3) Cons.prems(2) this(5,4), of "concat (map (\<lambda>l. l @ [10]) ls)"] obtain t where
    t: "parse_bytes (l @ 10 # concat (map (\<lambda>l. l @ [10]) ls)) 0 s = parse_bytes (concat (map (\<lambda>l. l @ [10]) ls)) 0 t" "rows_ok t"
      "edit_line_count t = edit_line_count s + 1" "map str (take (edit_line_count s + 1) (edit_lines t)) = map str (take (edit_line_count s) (edit_lines s)) @ [l]"
    by blast
  from Cons.IH [OF _ t(2)] Cons.prems t(3) obtain u where
    "parse_bytes (concat (map (\<lambda>l. l @ [10]) ls)) 0 t = (0, u)" "rows_ok u" "edit_line_count u = edit_line_count t + length ls"
    "map str (take (edit_line_count u) (edit_lines u)) = map str (take (edit_line_count t) (edit_lines t)) @ ls" by auto
  then show ?case using t by (intro exI [of _ u]) simp
qed simp

text \<open>
  A text survives saving and loading: what \<open>file_save\<close> writes for a text, without line feeds or carriage returns inside the lines, never exceeds its buffer and is
  parsed by \<open>file_load\<close> into the same lines, whatever the editor held before.
\<close>

theorem editor_text_roundtrip:
  assumes "ed_ok s" "\<forall>l \<in> set (d_lines (doc_of s)). 10 \<notin> set l \<and> 13 \<notin> set l" "rows_ok t"
  shows "\<exists>out. save_lines [0..<edit_line_count s] [] s = Some out \<and> length out \<le> 16384 \<and>
    d_lines (doc_of (parse_lines out t)) = d_lines (doc_of s) \<and> rows_ok (parse_lines out t)"
proof -
  note o = ed_okD [OF assms(1)]
  let ?ls = "d_lines (doc_of s)" let ?out = "concat (map (\<lambda>l. l @ [10]) ?ls)"
  have ls: "?ls = map (\<lambda>i. str (edit_lines s ! i)) [0..<edit_line_count s]"
    using o(3,9) by (intro nth_equalityI) (simp_all add: doc_of_def)
  have short: "length (str (edit_lines s ! i)) < 128" if "i < 128" for i
    using strlen_less [of "edit_lines s ! i"] rows_okD [OF o(1) that] by (simp add: edit_strlen_def)
  have all: "\<forall>l \<in> set ?ls. 10 \<notin> set l \<and> 13 \<notin> set l \<and> 0 \<notin> set l \<and> length l < 128"
    using assms(2) short o(3) unfolding ls by auto
  have sv: "save_lines [0..<edit_line_count s] [] s = Some ?out"
    using save_all [OF o(1), of "[0..<edit_line_count s]" "[]"] o(3) by (simp add: ls comp_def)
  have "length (concat (map (\<lambda>l. l @ [10]) xs)) \<le> 128 * length xs" if "\<forall>l \<in> set xs. length l < 128" for xs :: "u8 list list"
    using that by (induction xs) auto
  from this [of ?ls] have "length ?out \<le> 16384" using all o(3) doc_length [OF assms(1)] by fastforce
  moreover have "rows_ok (t\<lparr>edit_line_count := 0\<rparr>)" using assms(3) by (simp add: rows_ok_def)
  from parse_all [OF all this] doc_length [OF assms(1)] o(3) obtain u where
    u: "parse_bytes ?out 0 (t\<lparr>edit_line_count := 0\<rparr>) = (0, u)" "rows_ok u" "edit_line_count u = length ?ls"
      "map str (take (edit_line_count u) (edit_lines u)) = ?ls" by auto
  have "parse_lines ?out t = u\<lparr>edit_modified := False\<rparr>"
    using u(1,3) doc_length [OF assms(1)] o(2) by (simp add: parse_lines_def)
  then have "d_lines (doc_of (parse_lines ?out t)) = ?ls \<and> rows_ok (parse_lines ?out t)" using u(2,4) by (simp add: doc_of_def rows_ok_def)
  ultimately show ?thesis using sv by blast
qed

section \<open>Searching\<close>

text \<open>An occurrence of \<open>p\<close> behind the cursor.\<close>

definition occurs :: "doc \<Rightarrow> u8 list \<Rightarrow> nat \<Rightarrow> nat \<Rightarrow> bool" where
  "occurs d p r c \<longleftrightarrow> d_row d \<le> r \<and> r < length (d_lines d) \<and> (r = d_row d \<longrightarrow> d_col d < c) \<and>
     c + length p \<le> length (d_lines d ! r) \<and> take (length p) (drop c (d_lines d ! r)) = p"

text \<open>The first occurrence from line \<open>a\<close> on, in reading order.\<close>

definition first_hit :: "doc \<Rightarrow> u8 list \<Rightarrow> nat \<Rightarrow> (nat \<times> nat) option \<Rightarrow> bool" where
  "first_hit d p a hit = (case hit of
      None \<Rightarrow> \<forall>r c. a \<le> r \<longrightarrow> \<not> occurs d p r c
    | Some (r, c) \<Rightarrow> occurs d p r c \<and> (\<forall>r' c'. a \<le> r' \<longrightarrow> occurs d p r' c' \<longrightarrow> r < r' \<or> r = r' \<and> c \<le> c'))"

lemma sublist_at: "c + length P \<le> length L \<Longrightarrow> take (length P) (drop c L) = P \<longleftrightarrow> (\<forall>k < length P. L ! (c + k) = P ! k)"
  by (simp add: list_eq_iff_nth_eq)

lemma str_nth: "is_line l \<Longrightarrow> k < length (str l) \<Longrightarrow> l ! k = str l ! k"
  using arg_cong [OF str_split, of l "\<lambda>x. x ! k"] by (simp add: nth_append)

lemma match_at_iff:
  assumes "is_line line" "c + length (str pat) \<le> length (str line)" "is_line pat"
  shows "match_at line pat c \<longleftrightarrow> take (length (str pat)) (drop c (str line)) = str pat"
  using str_nth [OF assms(1)] str_nth [OF assms(3)] assms(2)
  by (simp add: match_at_def list_all_iff edit_strlen_def sublist_at) (simp add: Ball_def)

lemma find_rows_spec:
  assumes "ed_ok s" "is_line pat" "cursor_row s \<le> a"
  shows "\<exists>hit. find_rows pat (cursor_row s) [a..<edit_line_count s] s = Some hit \<and> first_hit (doc_of s) (str pat) a hit"
  using assms(3)
proof (induction "edit_line_count s - a" arbitrary: a)
  case 0
  then have e: "[a..<edit_line_count s] = []" and "\<forall>r c. a \<le> r \<longrightarrow> \<not> occurs (doc_of s) (str pat) r c"
    using doc_length [OF assms(1)] by (auto simp: occurs_def)
  then show ?case unfolding e by (intro exI [of _ None]) (simp add: first_hit_def)
next
  case (Suc k)
  note o = ed_okD [OF assms(1)]
  let ?l = "edit_lines s ! a" let ?p = "str pat"
  let ?sc = "if a = cursor_row s then cursor_col s + 1 else 0"
  let ?F = "find (match_at ?l pat) [?sc..<edit_strlen ?l + 1 - edit_strlen pat]"
  have a: "a < edit_line_count s" "a < 128" using Suc.hyps(2) o(3) by simp_all
  then have row: "is_line ?l" "get_line a s = Some ?l" "d_lines (doc_of s) ! a = str ?l"
    using rows_okD [OF o(1) a(2)] get_row [OF o(1) a(2)] o(3,9) by (simp_all add: doc_of_def)
  have occ: "occurs (doc_of s) ?p a c \<longleftrightarrow> ?sc \<le> c \<and> c < edit_strlen ?l + 1 - edit_strlen pat \<and> match_at ?l pat c" for c
    using a(1) Suc.prems row match_at_iff [OF row(1) _ assms(2), of c] doc_length [OF assms(1)]
    by (auto simp: occurs_def edit_strlen_def)
  have rows: "[a..<edit_line_count s] = a # [a + 1..<edit_line_count s]" using a(1) by (simp add: upt_conv_Cons)
  show ?case
  proof (cases ?F)
    case (Some c)
    then have "occurs (doc_of s) ?p a c" "\<forall>c'. occurs (doc_of s) ?p a c' \<longrightarrow> c \<le> c'" by (auto simp: occ find_upt_Some not_le)
    then show ?thesis using Some row(2) unfolding rows by (intro exI [of _ "Some (a, c)"]) (auto simp: first_hit_def)
  next
    case None
    then have no: "\<not> occurs (doc_of s) ?p a c" for c by (auto simp: occ find_upt_None)
    have k: "k = edit_line_count s - (a + 1)" "cursor_row s \<le> a + 1" using Suc.hyps(2) Suc.prems by simp_all
    from Suc.hyps(1) [OF k] obtain hit where
      h: "find_rows pat (cursor_row s) [a + 1..<edit_line_count s] s = Some hit" "first_hit (doc_of s) ?p (a + 1) hit" by blast
    have up: "a + 1 \<le> r" if "a \<le> r" "occurs (doc_of s) ?p r c" for r c using that no le_neq_implies_less by fastforce
    have "find_rows pat (cursor_row s) [a..<edit_line_count s] s = Some hit" using None row(2) h(1) unfolding rows by simp
    moreover have "first_hit (doc_of s) ?p a hit"
    proof (cases hit)
      case None
      then show ?thesis using h(2) up unfolding first_hit_def by simp blast
    next
      case (Some rc)
      obtain r0 c0 where "hit = Some (r0, c0)" using Some by (cases rc) simp
      then show ?thesis using h(2) up unfolding first_hit_def by simp
    qed
    ultimately show ?thesis by blast
  qed
qed

lemma cmdline_typed:
  assumes "\<forall>c \<in> set p. 32 \<le> c \<and> c < 127" "len + length p < maxlen" "maxlen \<le> length buf"
  shows "\<exists>v'. cmdline_loop maxlen col len buf v (map (\<lambda>c. (c, b)) p @ (13, b') # ks) =
    Ok (len + length p, take len buf @ p @ 0 # drop (len + length p + 1) buf, v', ks)"
  using assms
proof (induction p arbitrary: len buf v)
  case Nil
  then show ?case by (simp add: upd_conv_take_nth_drop)
next
  case (Cons c p)
  have "c \<noteq> 0x1B" "c \<noteq> 13" "c \<noteq> 10" "c \<noteq> 8" "c \<noteq> 0x7F" "32 \<le> c" "c < 127" using Cons.prems(1) by auto
  then have "cmdline_loop maxlen col len buf v (map (\<lambda>c. (c, b)) (c # p) @ (13, b') # ks) =
      cmdline_loop maxlen col (len + 1) (buf[len := c]) (vga_putchar_at 24 (col + len) c COLOR_CMD v) (map (\<lambda>c. (c, b)) p @ (13, b') # ks)"
    using Cons.prems(2) by simp
  moreover have "take (len + 1) (buf[len := c]) = take len buf @ [c]" using Cons.prems by (simp add: take_Suc_conv_app_nth)
  ultimately show ?case
    using Cons.IH [of "len + 1" "buf[len := c]" "vga_putchar_at 24 (col + len) c COLOR_CMD v"] Cons.prems by simp
qed

text \<open>
  Searching: after Ctrl+F, a text of printable characters and Enter, the cursor stands on the first occurrence of the text behind its old place, in reading order; without an
  occurrence it stays.  The lines are unchanged.
\<close>

theorem editor_find:
  assumes "ed_ok s" "length (search_str s) = 64" "\<forall>c \<in> set p. 32 \<le> c \<and> c < 127" "p \<noteq> []" "length p < 64"
  shows "\<exists>t. cmd_find (map (\<lambda>c. (c, False)) p @ (13, False) # ks) s = Ok (t, ks) \<and> d_lines (doc_of t) = d_lines (doc_of s) \<and>
    (if \<exists>r c. occurs (doc_of s) p r c
     then occurs (doc_of s) p (cursor_row t) (cursor_col t) \<and>
       (\<forall>r c. occurs (doc_of s) p r c \<longrightarrow> cursor_row t < r \<or> cursor_row t = r \<and> cursor_col t \<le> c)
     else cursor_row t = cursor_row s \<and> cursor_col t = cursor_col s)"
proof -
  let ?buf = "p @ 0 # drop (length p + 1) (search_str s)"
  obtain v where c: "editor_read_cmdline ''Find: '' (search_str s) 64 (vga s) (map (\<lambda>c. (c, False)) p @ (13, False) # ks) = Ok (length p, ?buf, v, ks)"
    using cmdline_typed [of p 0 64 "search_str s"] assms(2,3,5) unfolding editor_read_cmdline_def by fastforce
  have z: "0 \<notin> set p" using assms(3) by auto
  let ?s = "s\<lparr>search_str := ?buf, vga := v\<rparr>"
  have s': "ed_ok ?s" "doc_of ?s = doc_of s" using assms(1) by (simp_all add: ed_ok_def rows_ok_def doc_of_def)
  have b: "is_line ?buf" "str ?buf = p" using z by simp_all
  from find_rows_spec [OF s'(1) b(1), of "cursor_row ?s"] obtain hit where
    h: "find_rows ?buf (cursor_row s) [cursor_row s..<edit_line_count s] ?s = Some hit" "first_hit (doc_of s) p (cursor_row s) hit"
    unfolding b(2) s'(2) by auto
  have after: "cursor_row s \<le> r" if "occurs (doc_of s) p r c" for r c using that by (simp add: occurs_def)
  define t where "t = (case hit of Some (r, c) \<Rightarrow> editor_show_message ''Found.'' (?s\<lparr>cursor_row := r, cursor_col := c\<rparr>)
    | None \<Rightarrow> editor_show_message ''Not found.'' ?s)"
  have "cmd_find (map (\<lambda>c. (c, False)) p @ (13, False) # ks) s = Ok (t, ks)"
    using c h(1) assms(4) by (auto simp: cmd_find_def Let_def defined_def t_def split: option.splits)
  moreover have "d_lines (doc_of t) = d_lines (doc_of s)" by (auto simp: t_def editor_show_message_def doc_of_def split: option.splits)
  moreover have "if \<exists>r c. occurs (doc_of s) p r c
     then occurs (doc_of s) p (cursor_row t) (cursor_col t) \<and> (\<forall>r c. occurs (doc_of s) p r c \<longrightarrow> cursor_row t < r \<or> cursor_row t = r \<and> cursor_col t \<le> c)
     else cursor_row t = cursor_row s \<and> cursor_col t = cursor_col s"
    using h(2) after by (fastforce simp: t_def first_hit_def editor_show_message_def split: option.splits)
  ultimately show ?thesis by blast
qed

section \<open>The screen\<close>

lemma cell_row: "c < 80 \<Longrightarrow> (r * 80 + c) div 80 = r" "c < 80 \<Longrightarrow> (r * 80 + c) mod 80 = (c :: nat)"
  by simp_all

lemma putchar_other: "k div 80 \<noteq> row \<Longrightarrow> vga_putchar_at row col ch attr v k = v k"
  by (auto simp: vga_putchar_at_def cell_row)

lemma putchar_cell:
  "row < 25 \<Longrightarrow> c < 80 \<Longrightarrow> vga_putchar_at row col ch attr v (row * 80 + c) = (if c = col then push_bit 8 (ucast attr) OR ucast ch else v (row * 80 + c))"
  by (auto simp: vga_putchar_at_def)

lemma puts_other: "k div 80 \<noteq> row \<Longrightarrow> snd (vga_puts_at row col cs attr v) k = v k"
  by (induction row col cs attr v rule: vga_puts_at.induct) (auto simp: putchar_other)

lemma run_other: "k div 80 \<noteq> row \<Longrightarrow> for_range 0 n (\<lambda>i. vga_putchar_at row (f i) (g i) attr) v k = v k"
  by (induction n) (auto simp: for_range_Suc putchar_other)

lemma run_cell:
  "row < 25 \<Longrightarrow> c < 80 \<Longrightarrow> for_range 0 n (\<lambda>i. vga_putchar_at row (a + i) (g i) attr) v (row * 80 + c) =
     (if a \<le> c \<and> c < a + n then push_bit 8 (ucast attr) OR ucast (g (c - a)) else v (row * 80 + c))"
  by (induction n) (auto simp: for_range_Suc putchar_cell less_Suc_eq)

lemma draw_line_other: "k div 80 \<noteq> row \<Longrightarrow> draw_line s fr row v k = v k"
  by (simp add: draw_line_def Let_def putchar_other puts_other run_other edit_print_dec_at_def vga_fill_at_def)

definition cell_char :: "'d ed \<Rightarrow> nat \<Rightarrow> nat \<Rightarrow> u8" where
  "cell_char s r c = (if r < edit_line_count s then shown_char (edit_lines s ! r) c else 0x20)"

lemma draw_line_cell:
  assumes "row < 25" "j < 75"
  shows "draw_line s fr row v (row * 80 + (5 + j)) = 0x0700 OR ucast (cell_char s fr (view_left s + j))"
  using assms by (simp add: draw_line_def cell_char_def Let_def run_cell vga_fill_at_def EDIT_LINE_NUM_W_def EDIT_SCREEN_COLS_def COLOR_TEXT_def COLOR_CUR_LINE_def)

lemma draw_rows:
  assumes "j < 75" "i < n" "n \<le> 23"
  shows "for_range 0 n (\<lambda>i. draw_line s (view_top s + i) (i + 1)) v ((i + 1) * 80 + (5 + j)) = 0x0700 OR ucast (cell_char s (view_top s + i) (view_left s + j))"
  using assms(2,3)
proof (induction n)
  case (Suc n)
  let ?k = "(i + 1) * 80 + (5 + j)"
  have k: "?k div 80 = i + 1" using assms(1) by (intro cell_row) simp
  show ?case
  proof (cases "i = n")
    case True
    then show ?thesis using draw_line_cell [of "i + 1" j] assms(1) Suc.prems by (simp only: for_range_Suc) simp
  next
    case False
    then show ?thesis using draw_line_other [of ?k "n + 1" s] k Suc by (simp add: for_range_Suc)
  qed
qed simp

lemma cell_char_doc:
  assumes "ed_ok s"
  shows "cell_char s r c = (if r < length (d_lines (doc_of s)) \<and> c < length (d_lines (doc_of s) ! r) \<and> d_lines (doc_of s) ! r ! c \<noteq> 9
    then d_lines (doc_of s) ! r ! c else 0x20)"
proof (cases "r < edit_line_count s")
  case True
  note o = ed_okD [OF assms]
  have "is_line (edit_lines s ! r)" "d_lines (doc_of s) ! r = str (edit_lines s ! r)" using True rows_okD [OF o(1), of r] o(3,9) by (simp_all add: doc_of_def)
  then show ?thesis using True doc_length [OF assms] str_nth [of "edit_lines s ! r" c] by (simp add: cell_char_def shown_char_def edit_strlen_def)
qed (simp add: cell_char_def doc_length [OF assms])

text \<open>
  The screen shows the text: after \<open>draw_screen\<close> the cell in row \<open>i\<close> and column \<open>j\<close> of the text area has the character of the document at the
  place given by the view, a blank for tabs and behind the end of the line or the text.
\<close>

theorem editor_screen:
  assumes "ed_ok s" "i < 23" "j < 75"
  shows "\<exists>t. draw_screen s = Some t \<and> doc_of t = doc_of s \<and> vga t ((i + 1) * 80 + (5 + j)) = 0x0700 OR ucast
    (let ls = d_lines (doc_of s); r = view_top s + i; c = view_left s + j in
     if r < length ls \<and> c < length (ls ! r) \<and> ls ! r ! c \<noteq> 9 then ls ! r ! c else 0x20)"
proof -
  note o = ed_okD [OF assms(1)]
  have "\<forall>i < edit_line_count s. i < 128 \<and> is_line (edit_lines s ! i)" using o(1,3) rows_okD [of s] by auto
  then have d: "draw_screen s = Some (s\<lparr>vga := for_range 0 EDIT_SCREEN_LINES (\<lambda>i. draw_line s (view_top s + i) (i + 1)) (draw_command_line (draw_status_bar s (vga s)))\<rparr>)"
    by (simp add: draw_screen_def EDIT_MAX_LINES_def Let_def)
  show ?thesis unfolding Let_def cell_char_doc [OF assms(1), symmetric] using d draw_rows [OF assms(3,2) le_refl, of s]
    by (simp add: EDIT_SCREEN_LINES_def doc_of_def)
qed

text \<open>The line number of a row is drawn over the one shown before, without clearing it: scrolling from line 10 to line 9 shows 90.\<close>

lemma stale_line_number:
  assumes "row < 25" "9 \<le> edit_line_count s" "10 \<le> edit_line_count t"
  shows "draw_line s 8 row (draw_line t 9 row v) (row * 80) = 0x0300 OR 0x39" "draw_line s 8 row (draw_line t 9 row v) (row * 80 + 1) = 0x0300 OR 0x30"
proof -
  have n: "dec_digits 9 = [0x39]" "dec_digits 10 = [0x30, 0x31]" by (simp_all add: dec_digits.simps)
  have c: "draw_line u fr row w (row * 80 + k) =
     snd (vga_puts_at row 0 (rev (dec_digits (fr + 1))) COLOR_LINENUM w) (row * 80 + k)" if "k < 4" "fr < edit_line_count u" for u fr w k
    using assms(1) that by (simp add: draw_line_def Let_def run_cell putchar_cell EDIT_LINE_NUM_W_def EDIT_SCREEN_COLS_def edit_print_dec_at_def)
  show "draw_line s 8 row (draw_line t 9 row v) (row * 80) = 0x0300 OR 0x39"
    using c [of 0 8 s] assms n putchar_cell [OF assms(1), of 0] by (simp add: COLOR_LINENUM_def)
  show "draw_line s 8 row (draw_line t 9 row v) (row * 80 + 1) = 0x0300 OR 0x30"
    using c [of 1 8 s] c [of 1 9 t] assms n putchar_cell [OF assms(1), of 1] by (simp add: COLOR_LINENUM_def)
qed

section \<open>Witnesses\<close>

theorem editor_text_roundtrip_witness:
  "\<exists>out. save_lines [0..<edit_line_count (demo_ed 2 0 0)] [] (demo_ed 2 0 0) = Some out \<and>
     d_lines (doc_of (parse_lines out (demo_ed 128 127 0))) = [[0x61, 0x62], []]"
  using editor_text_roundtrip [OF demo_ed_ok(3) _ ed_okD(1) [OF demo_ed_ok(1)]] by (auto simp: demo_doc)

theorem editor_find_witness:
  "\<exists>t. cmd_find [(0x62, False), (13, False)] (demo_ed 2 0 0) = Ok (t, []) \<and> cursor_row t = 0 \<and> cursor_col t = 1"
proof -
  have o: "occurs (doc_of (demo_ed 2 0 0)) [0x62] r c \<longleftrightarrow> r = 0 \<and> c = 1" for r c
    by (auto simp: occurs_def demo_doc less_Suc_eq)
  have l: "length (search_str (demo_ed 2 0 0)) = 64" by (simp add: demo_ed_def)
  from editor_find [OF demo_ed_ok(3) l, of "[0x62]" "[]"] obtain t where
    "cmd_find [(0x62, False), (13, False)] (demo_ed 2 0 0) = Ok (t, [])" "occurs (doc_of (demo_ed 2 0 0)) [0x62] (cursor_row t) (cursor_col t)"
    by (auto simp: o)
  then show ?thesis by (auto simp: o)
qed

theorem editor_screen_witness:
  "\<exists>t. draw_screen (demo_ed 2 0 0) = Some t \<and> vga t 86 = 0x0762"
proof -
  have "view_top (demo_ed 2 0 0) = 0" "view_left (demo_ed 2 0 0) = 0" by (simp_all add: demo_ed_def)
  then show ?thesis using editor_screen [OF demo_ed_ok(3), of 0 1] by (auto simp: demo_doc Let_def)
qed

end
