(* ===== verification/Cstring.thy ===== *)
theory Cstring
  imports Prelude
begin

text \<open>
  The string and character library, \<^verbatim>\<open>src/lib/string.c\<close> and \<^verbatim>\<open>src/lib/ctype.c\<close>, over a flat memory of
  bytes with 32 bit pointers; pointer arithmetic wraps.  The loops that run to a terminating zero are partial functions: \<open>None\<close> means that
  the loop never ends (no zero byte in memory).  \<open>char\<close> is signed.
\<close>

type_synonym mem = "u32 \<Rightarrow> u8"

section \<open>Character classes\<close>

definition isalpha :: "int \<Rightarrow> bool" where "isalpha c \<longleftrightarrow> c \<ge> 65 \<and> c \<le> 90 \<or> c \<ge> 97 \<and> c \<le> 122"
definition isdigit :: "int \<Rightarrow> bool" where "isdigit c \<longleftrightarrow> c \<ge> 48 \<and> c \<le> 57"
definition isalnum :: "int \<Rightarrow> bool" where "isalnum c \<longleftrightarrow> isalpha c \<or> isdigit c"
definition isspace :: "int \<Rightarrow> bool" where "isspace c \<longleftrightarrow> c = 32 \<or> c = 9 \<or> c = 10 \<or> c = 13 \<or> c = 12 \<or> c = 11"
definition isupper :: "int \<Rightarrow> bool" where "isupper c \<longleftrightarrow> c \<ge> 65 \<and> c \<le> 90"
definition islower :: "int \<Rightarrow> bool" where "islower c \<longleftrightarrow> c \<ge> 97 \<and> c \<le> 122"
definition isprint :: "int \<Rightarrow> bool" where "isprint c \<longleftrightarrow> c \<ge> 0x20 \<and> c \<le> 0x7E"
definition isxdigit :: "int \<Rightarrow> bool" where "isxdigit c \<longleftrightarrow> isdigit c \<or> c \<ge> 65 \<and> c \<le> 70 \<or> c \<ge> 97 \<and> c \<le> 102"
definition ispunct :: "int \<Rightarrow> bool" where "ispunct c \<longleftrightarrow> isprint c \<and> \<not> isalnum c \<and> \<not> isspace c"
definition iscntrl :: "int \<Rightarrow> bool" where "iscntrl c \<longleftrightarrow> c \<ge> 0 \<and> c \<le> 0x1F \<or> c = 0x7F"
definition toupper :: "int \<Rightarrow> int" where "toupper c = (if c \<ge> 97 \<and> c \<le> 122 then c - 97 + 65 else c)"
definition tolower :: "int \<Rightarrow> int" where "tolower c = (if c \<ge> 65 \<and> c \<le> 90 then c - 65 + 97 else c)"

section \<open>Memory\<close>

fun memset_loop :: "nat \<Rightarrow> u32 \<Rightarrow> u8 \<Rightarrow> mem \<Rightarrow> mem" where
  "memset_loop 0 d v m = m"
| "memset_loop (Suc n) d v m = memset_loop n (d + 1) v (m(d := v))"

definition memset :: "u32 \<Rightarrow> u32 \<Rightarrow> u32 \<Rightarrow> mem \<Rightarrow> u32 \<times> mem" where
  "memset dst val n m = (dst, memset_loop (unat n) dst (ucast val) m)"

fun copy_up :: "nat \<Rightarrow> u32 \<Rightarrow> u32 \<Rightarrow> mem \<Rightarrow> mem" where
  "copy_up 0 d s m = m"
| "copy_up (Suc n) d s m = copy_up n (d + 1) (s + 1) (m(d := m s))"

fun copy_down :: "nat \<Rightarrow> u32 \<Rightarrow> u32 \<Rightarrow> mem \<Rightarrow> mem" where
  "copy_down 0 d s m = m"
| "copy_down (Suc n) d s m = copy_down n (d - 1) (s - 1) (m(d - 1 := m (s - 1)))"

definition memcpy :: "u32 \<Rightarrow> u32 \<Rightarrow> u32 \<Rightarrow> mem \<Rightarrow> u32 \<times> mem" where
  "memcpy dst src n m = (dst, copy_up (unat n) dst src m)"

definition memmove :: "u32 \<Rightarrow> u32 \<Rightarrow> u32 \<Rightarrow> mem \<Rightarrow> u32 \<times> mem" where
  "memmove dst src n m =
     (dst, if dst < src then copy_up (unat n) dst src m
           else if dst > src then copy_down (unat n) (dst + n) (src + n) m
           else m)"

fun memcmp_loop :: "nat \<Rightarrow> u32 \<Rightarrow> u32 \<Rightarrow> mem \<Rightarrow> int" where
  "memcmp_loop 0 p q m = 0"
| "memcmp_loop (Suc n) p q m = (if m p \<noteq> m q then uint (m p) - uint (m q) else memcmp_loop n (p + 1) (q + 1) m)"

definition memcmp :: "u32 \<Rightarrow> u32 \<Rightarrow> u32 \<Rightarrow> mem \<Rightarrow> int" where
  "memcmp p q n m = memcmp_loop (unat n) p q m"

section \<open>Strings\<close>

partial_function (option) strlen_loop :: "u32 \<Rightarrow> u32 \<Rightarrow> mem \<Rightarrow> u32 option" where
  "strlen_loop p len m = (if m p = 0 then Some len else strlen_loop (p + 1) (len + 1) m)"

definition strlen :: "u32 \<Rightarrow> mem \<Rightarrow> u32 option" where
  "strlen str m = strlen_loop str 0 m"

partial_function (option) strcpy_loop :: "u32 \<Rightarrow> u32 \<Rightarrow> mem \<Rightarrow> mem option" where
  "strcpy_loop d s m = (if m s = 0 then Some (m(d := 0)) else strcpy_loop (d + 1) (s + 1) (m(d := m s)))"

definition strcpy :: "u32 \<Rightarrow> u32 \<Rightarrow> mem \<Rightarrow> (u32 \<times> mem) option" where
  "strcpy dst src m = map_option (\<lambda>m. (dst, m)) (strcpy_loop dst src m)"

partial_function (option) strcmp :: "u32 \<Rightarrow> u32 \<Rightarrow> mem \<Rightarrow> int option" where
  "strcmp p q m =
     (if m p \<noteq> 0 \<and> m q \<noteq> 0
      then if m p \<noteq> m q then Some (sint (m p) - sint (m q)) else strcmp (p + 1) (q + 1) m
      else Some (sint (m p) - sint (m q)))"

fun strncmp_loop :: "nat \<Rightarrow> u32 \<Rightarrow> u32 \<Rightarrow> mem \<Rightarrow> int" where
  "strncmp_loop 0 p q m = 0"
| "strncmp_loop (Suc n) p q m =
     (if m p \<noteq> 0 \<and> m q \<noteq> 0
      then if m p \<noteq> m q then sint (m p) - sint (m q) else strncmp_loop n (p + 1) (q + 1) m
      else sint (m p) - sint (m q))"

definition strncmp :: "u32 \<Rightarrow> u32 \<Rightarrow> u32 \<Rightarrow> mem \<Rightarrow> int" where
  "strncmp p q n m = strncmp_loop (unat n) p q m"

partial_function (option) str_end :: "u32 \<Rightarrow> mem \<Rightarrow> u32 option" where
  "str_end d m = (if m d = 0 then Some d else str_end (d + 1) m)"

definition strcat :: "u32 \<Rightarrow> u32 \<Rightarrow> mem \<Rightarrow> (u32 \<times> mem) option" where
  "strcat dst src m = (case str_end dst m of None \<Rightarrow> None | Some d \<Rightarrow> map_option (\<lambda>m. (dst, m)) (strcpy_loop d src m))"

text \<open>\<open>while (n > 0 && *src) { *d++ = *src++; n--; }\<close>: the final \<open>d\<close>, \<open>n\<close> and memory.\<close>

fun copy_n :: "nat \<Rightarrow> u32 \<Rightarrow> u32 \<Rightarrow> mem \<Rightarrow> u32 \<times> nat \<times> mem" where
  "copy_n 0 d s m = (d, 0, m)"
| "copy_n (Suc n) d s m = (if m s \<noteq> 0 then copy_n n (d + 1) (s + 1) (m(d := m s)) else (d, Suc n, m))"

definition strncat :: "u32 \<Rightarrow> u32 \<Rightarrow> u32 \<Rightarrow> mem \<Rightarrow> (u32 \<times> mem) option" where
  "strncat dst src n m = (case str_end dst m of
     None \<Rightarrow> None
   | Some d \<Rightarrow> let (d, _, m) = copy_n (unat n) d src m in Some (dst, m(d := 0)))"

definition strncpy :: "u32 \<Rightarrow> u32 \<Rightarrow> u32 \<Rightarrow> mem \<Rightarrow> u32 \<times> mem" where
  "strncpy dst src n m = (let (d, k, m) = copy_n (unat n) dst src m in (dst, memset_loop k d 0 m))"

partial_function (option) strchr :: "u32 \<Rightarrow> u32 \<Rightarrow> mem \<Rightarrow> u32 option" where
  "strchr str c m =
     (if m str = 0 then Some (if c = 0 then str else 0)
      else if m str = ucast c then Some str
      else strchr (str + 1) c m)"

partial_function (option) strrchr_loop :: "u32 \<Rightarrow> u32 \<Rightarrow> u32 \<Rightarrow> mem \<Rightarrow> u32 option" where
  "strrchr_loop str c found m =
     (if m str = 0 then Some (if c = 0 then str else found)
      else strrchr_loop (str + 1) c (if m str = ucast c then str else found) m)"

definition strrchr :: "u32 \<Rightarrow> u32 \<Rightarrow> mem \<Rightarrow> u32 option" where
  "strrchr str c m = strrchr_loop str c 0 m"

text \<open>The inner loop of \<open>strstr\<close>: where the needle pointer stops.\<close>

partial_function (option) match_loop :: "u32 \<Rightarrow> u32 \<Rightarrow> mem \<Rightarrow> u32 option" where
  "match_loop h n m = (if m h \<noteq> 0 \<and> m n \<noteq> 0 \<and> m h = m n then match_loop (h + 1) (n + 1) m else Some n)"

partial_function (option) strstr_loop :: "u32 \<Rightarrow> u32 \<Rightarrow> mem \<Rightarrow> u32 option" where
  "strstr_loop haystack needle m =
     (if m haystack = 0 then Some 0
      else case match_loop haystack needle m of
        None \<Rightarrow> None
      | Some n \<Rightarrow> if m n = 0 then Some haystack else strstr_loop (haystack + 1) needle m)"

definition strstr :: "u32 \<Rightarrow> u32 \<Rightarrow> mem \<Rightarrow> u32 option" where
  "strstr haystack needle m = (if m needle = 0 then Some haystack else strstr_loop haystack needle m)"

partial_function (option) in_reject :: "u32 \<Rightarrow> u8 \<Rightarrow> mem \<Rightarrow> bool option" where
  "in_reject r c m = (if m r = 0 then Some False else if c = m r then Some True else in_reject (r + 1) c m)"

partial_function (option) strcspn_loop :: "u32 \<Rightarrow> u32 \<Rightarrow> u32 \<Rightarrow> mem \<Rightarrow> u32 option" where
  "strcspn_loop s reject len m =
     (if m (s + len) = 0 then Some len
      else case in_reject reject (m (s + len)) m of
        None \<Rightarrow> None
      | Some hit \<Rightarrow> if hit then Some len else strcspn_loop s reject (len + 1) m)"

definition strcspn :: "u32 \<Rightarrow> u32 \<Rightarrow> mem \<Rightarrow> u32 option" where
  "strcspn s reject m = strcspn_loop s reject 0 m"

section \<open>Strings in memory\<close>

fun is_str :: "mem \<Rightarrow> u32 \<Rightarrow> u8 list \<Rightarrow> bool" where
  "is_str m p [] \<longleftrightarrow> m p = 0"
| "is_str m p (x # xs) \<longleftrightarrow> m p = x \<and> x \<noteq> 0 \<and> is_str m (p + 1) xs"

lemma is_str_unique: "is_str m p xs \<Longrightarrow> is_str m p ys \<Longrightarrow> xs = ys"
proof (induction xs arbitrary: p ys)
  case Nil
  then show ?case by (cases ys) auto
next
  case (Cons x xs)
  then show ?case by (cases ys) auto
qed

lemma is_str_nth: "is_str m p xs \<longleftrightarrow> (\<forall>i<length xs. m (p + of_nat i) = xs ! i \<and> xs ! i \<noteq> 0) \<and> m (p + of_nat (length xs)) = 0"
proof (induction xs arbitrary: p)
  case (Cons x xs)
  have "(\<forall>i<length (x # xs). m (p + of_nat i) = (x # xs) ! i \<and> (x # xs) ! i \<noteq> 0) \<longleftrightarrow>
      m p = x \<and> x \<noteq> 0 \<and> (\<forall>i<length xs. m (p + 1 + of_nat i) = xs ! i \<and> xs ! i \<noteq> 0)"
    by (auto simp: All_less_Suc2 add.assoc)
  then show ?case using Cons by (auto simp: add.assoc)
qed simp

lemma is_str_frame: "is_str m p xs \<Longrightarrow> (\<And>i. i \<le> length xs \<Longrightarrow> m' (p + of_nat i) = m (p + of_nat i)) \<Longrightarrow> is_str m' p xs"
  unfolding is_str_nth by auto

lemma strlen_loop_str: "is_str m p xs \<Longrightarrow> strlen_loop p len m = Some (len + of_nat (length xs))"
proof (induction xs arbitrary: p len)
  case Nil
  then show ?case by (simp add: strlen_loop.simps)
next
  case (Cons x xs)
  then show ?case by (subst strlen_loop.simps) (simp add: add.assoc)
qed

lemma str_end_str: "is_str m p xs \<Longrightarrow> str_end p m = Some (p + of_nat (length xs))"
proof (induction xs arbitrary: p)
  case Nil
  then show ?case by (simp add: str_end.simps)
next
  case (Cons x xs)
  then show ?case by (subst str_end.simps) (simp add: add.assoc)
qed

text \<open>The first differing position decides; a proper prefix is smaller, as its terminating zero is compared.\<close>

fun str_diff :: "u8 list \<Rightarrow> u8 list \<Rightarrow> int" where
  "str_diff [] [] = 0"
| "str_diff [] (y # ys) = - sint y"
| "str_diff (x # xs) [] = sint x"
| "str_diff (x # xs) (y # ys) = (if x = y then str_diff xs ys else sint x - sint y)"

lemma strcmp_str: "is_str m p xs \<Longrightarrow> is_str m q ys \<Longrightarrow> strcmp p q m = Some (str_diff xs ys)"
  by (induction xs ys arbitrary: p q rule: str_diff.induct) (auto simp: strcmp.simps)

lemma strncmp_str:
  "is_str m p xs \<Longrightarrow> is_str m q ys \<Longrightarrow> strncmp_loop n p q m = str_diff (take n xs) (take n ys)"
proof (induction n arbitrary: p q xs ys)
  case (Suc n)
  then show ?case by (cases xs; cases ys) auto
qed simp

lemma sint_eq_0: "sint (x :: u8) = 0 \<longleftrightarrow> x = 0"
  using signed_word_eqI [of x 0] by auto

lemma str_diff_0: "0 \<notin> set xs \<Longrightarrow> 0 \<notin> set ys \<Longrightarrow> str_diff xs ys = 0 \<longleftrightarrow> xs = ys"
  by (induction xs ys rule: str_diff.induct) (auto simp: sint_eq_0 dest: signed_word_eqI)

section \<open>Block copies\<close>

definition moved :: "u32 \<Rightarrow> u32 \<Rightarrow> nat \<Rightarrow> mem \<Rightarrow> mem" where
  "moved dst src n m = (\<lambda>a. if unat (a - dst) < n then m (src + (a - dst)) else m a)"

lemma unat_minus_1 [simp]: "unat (- 1 :: u32) = 4294967295"
  by (simp add: unsigned_minus_1_eq_mask mask_eq_exp_minus_1)

lemma of_nat_unat_sub: "d + of_nat (unat (a - d)) = (a :: u32)"
  by simp

lemma unat_sub_Suc: "a \<noteq> d \<Longrightarrow> unat (a - d) = Suc (unat (a - (d + 1)))" for a d :: u32
proof -
  assume "a \<noteq> d"
  then have "a - d \<noteq> 0" by simp
  then have "unat (a - d - 1) = unat (a - d) - 1" by (rule unat_minus_one)
  moreover have "unat (a - d) \<noteq> 0" using \<open>a - d \<noteq> 0\<close> by (simp add: unat_eq_0)
  ultimately show ?thesis by (simp add: diff_diff_eq)
qed

lemma copy_up_moved:
  "n < 4294967296 \<Longrightarrow> (\<And>i j. i < j \<Longrightarrow> j < n \<Longrightarrow> d + of_nat i \<noteq> s + of_nat j) \<Longrightarrow> copy_up n d s m = moved d s n m"
proof (induction n arbitrary: d s m)
  case (Suc n)
  let ?m = "m(d := m s)"
  have apart: "d + 1 + of_nat i \<noteq> s + 1 + of_nat j" if "i < j" "j < n" for i j
    using Suc.prems(2) [of "Suc i" "Suc j"] that by (simp add: add.assoc)
  have e: "copy_up (Suc n) d s m = moved (d + 1) (s + 1) n ?m"
    unfolding copy_up.simps using Suc.prems(1) by (intro Suc.IH apart) simp_all
  have "moved (d + 1) (s + 1) n ?m a = moved d s (Suc n) m a" for a
  proof (cases "a = d")
    case True
    have "unat (d - (d + 1)) = 4294967295" by simp
    then show ?thesis using True Suc.prems(1) by (simp add: moved_def)
  next
    case False
    have u: "unat (a - d) = Suc (unat (a - (d + 1)))" by (rule unat_sub_Suc [OF False])
    have "s + (a - d) \<noteq> d" if "unat (a - d) < Suc n"
      using Suc.prems(2) [of 0 "unat (a - d)"] that u by (simp add: eq_commute)
    moreover have "s + 1 + (a - (d + 1)) = s + (a - d)" by simp
    ultimately show ?thesis using False u by (simp add: moved_def del: add_diff_eq)
  qed
  then show ?case using e by auto
qed (simp add: moved_def)

lemma copy_down_moved:
  "n < 4294967296 \<Longrightarrow> (\<And>i j. j < i \<Longrightarrow> i < n \<Longrightarrow> d + of_nat i \<noteq> s + of_nat j) \<Longrightarrow>
   copy_down n (d + of_nat n) (s + of_nat n) m = moved d s n m"
proof (induction n arbitrary: m)
  case (Suc n)
  let ?m = "m(d + of_nat n := m (s + of_nat n))"
  have "copy_down (Suc n) (d + of_nat (Suc n)) (s + of_nat (Suc n)) m = copy_down n (d + of_nat n) (s + of_nat n) ?m"
    by (simp add: algebra_simps)
  also have "\<dots> = moved d s n ?m" using Suc.prems by (intro Suc.IH) auto
  also have "\<dots> = moved d s (Suc n) m"
  proof
    fix a
    have un: "unat (of_nat n :: u32) = n" using Suc.prems(1) by (simp add: unat_of_nat_u32)
    show "moved d s n ?m a = moved d s (Suc n) m a"
    proof (cases "a = d + of_nat n")
      case True
      then show ?thesis using un by (simp add: moved_def)
    next
      case False
      then have ne: "unat (a - d) \<noteq> n" using of_nat_unat_sub [of d a] by metis
      have "s + (a - d) \<noteq> d + of_nat n" if "unat (a - d) < n"
        using Suc.prems(2) [of "unat (a - d)" n] that by (simp add: eq_commute)
      then show ?thesis using False ne by (auto simp: moved_def)
    qed
  qed
  finally show ?case .
qed (simp add: moved_def)

lemma add_word_less:
  "unat (x :: u32) + i < 4294967296 \<Longrightarrow> unat (x + of_nat i) = unat x + i"
  by (subst unat_add_lem [THEN iffD1]) (simp_all add: unat_of_nat_u32)

text \<open>
  \<open>memmove\<close> copies the \<open>n\<close> bytes of the source as they were before the call, also when source and destination overlap, and changes
  nothing else.
\<close>

theorem memmove_spec:
  assumes "unat dst + unat n \<le> 4294967296" and "unat src + unat n \<le> 4294967296"
  shows "memmove dst src n m = (dst, moved dst src (unat n) m)"
proof -
  have lo: "dst + of_nat i \<noteq> src + of_nat j" if "i < j" "j < unat n" "dst < src" for i j
    using that assms add_word_less [of dst i] add_word_less [of src j] by (auto simp: word_less_nat_alt word_unat_eq_iff)
  have hi: "dst + of_nat i \<noteq> src + of_nat j" if "j < i" "i < unat n" "src < dst" for i j
    using that assms add_word_less [of dst i] add_word_less [of src j] by (auto simp: word_less_nat_alt word_unat_eq_iff)
  consider "dst < src" | "src < dst" | "src = dst" by fastforce
  then show ?thesis
  proof cases
    case 1
    then show ?thesis using copy_up_moved [of "unat n" dst src m] lo by (simp add: memmove_def)
  next
    case 2
    then show ?thesis using copy_down_moved [of "unat n" dst src m] hi by (auto simp: memmove_def)
  next
    case 3
    then show ?thesis by (auto simp: memmove_def moved_def)
  qed
qed

theorem memmove_witness:
  "map (snd (memmove 2 0 4 (\<lambda>a. ucast a + 10))) [0, 1, 2, 3, 4, 5, 6] = [10, 11, 10, 11, 12, 13, 16]"
proof -
  have "memmove 2 0 4 (\<lambda>a. ucast a + 10) = (2, moved 2 0 (unat (4 :: u32)) (\<lambda>a. ucast a + 10))"
    by (rule memmove_spec) simp_all
  then show ?thesis by (simp add: moved_def)
qed

section \<open>Searching\<close>

text \<open>Where a needle begins in a list: the first position, if any.\<close>

definition occurs_at :: "u8 list \<Rightarrow> u8 list \<Rightarrow> nat \<Rightarrow> bool" where
  "occurs_at ys xs k \<longleftrightarrow> take (length ys) (drop k xs) = ys"

lemma match_loop_str:
  "is_str m h xs \<Longrightarrow> is_str m n ys \<Longrightarrow> \<exists>q. match_loop h n m = Some q \<and> (m q = 0 \<longleftrightarrow> take (length ys) xs = ys)"
proof (induction ys arbitrary: h n xs)
  case Nil
  then show ?case by (subst match_loop.simps) auto
next
  case (Cons y ys)
  show ?case
  proof (cases xs)
    case Nil
    then show ?thesis using Cons.prems by (subst match_loop.simps) auto
  next
    case (Cons x zs)
    then show ?thesis
      using Cons.prems Cons.IH [of "h + 1" zs "n + 1"] by (subst match_loop.simps) auto
  qed
qed

lemma strstr_loop_str:
  assumes "is_str m n ys" "ys \<noteq> []"
  shows "is_str m h xs \<Longrightarrow> strstr_loop h n m = Some (case find (occurs_at ys xs) [0..<length xs] of Some k \<Rightarrow> h + of_nat k | None \<Rightarrow> 0)"
proof (induction xs arbitrary: h)
  case Nil
  then show ?case by (subst strstr_loop.simps) simp
next
  case (Cons x xs)
  obtain q where q: "match_loop h n m = Some q" "m q = 0 \<longleftrightarrow> occurs_at ys (x # xs) 0"
    using match_loop_str [OF Cons.prems assms(1)] by (auto simp: occurs_at_def)
  have up: "[0..<length (x # xs)] = 0 # map Suc [0..<length xs]" by (simp add: upt_conv_Cons map_Suc_upt del: upt_Suc)
  have "occurs_at ys (x # xs) (Suc k) = occurs_at ys xs k" for k by (simp add: occurs_at_def)
  then have f: "find (occurs_at ys (x # xs)) [0..<length (x # xs)] =
      (if occurs_at ys (x # xs) 0 then Some 0 else map_option Suc (find (occurs_at ys xs) [0..<length xs]))"
    unfolding up by (simp add: find_map)
  have "strstr_loop h n m = (if occurs_at ys (x # xs) 0 then Some h else strstr_loop (h + 1) n m)"
    using q Cons.prems by (subst strstr_loop.simps) simp
  then show ?case using Cons f by (simp add: add.assoc split: option.split)
qed

text \<open>
  \<open>strstr\<close> on two terminated strings returns the address of the first occurrence of the needle in the haystack, the haystack itself for an empty
  needle, and a null pointer when there is none.
\<close>

theorem strstr_spec:
  assumes "is_str m h xs" and "is_str m n ys"
  shows "strstr h n m = Some (if ys = [] then h else case find (occurs_at ys xs) [0..<length xs] of Some k \<Rightarrow> h + of_nat k | None \<Rightarrow> 0)"
  using strstr_loop_str [OF assms(2) _ assms(1)] assms(2) by (cases ys) (auto simp: strstr_def)

theorem strstr_witness:
  "strstr 100 200 ((\<lambda>_. 0)(100 := 7, 101 := 7, 102 := 8, 200 := 7, 201 := 8)) = Some 101"
proof -
  let ?m = "(\<lambda>_. 0)(100 := 7, 101 := 7, 102 := 8, 200 := 7, 201 := 8) :: mem"
  have "is_str ?m 100 [7, 7, 8]" "is_str ?m 200 [7, 8]" by simp_all
  from strstr_spec [OF this] show ?thesis by (simp add: occurs_at_def upt_rec numeral_eq_Suc)
qed

end
