(* ===== verification/Cstdlib.thy ===== *)
theory Cstdlib
  imports Cstring
begin

text \<open>
  Number conversion, \<^verbatim>\<open>src/lib/kstdlib.c\<close>.  \<open>int\<close> and \<open>long\<close> have 32 bits; their arithmetic is that of the machine and wraps (C leaves
  signed overflow undefined).  \<open>strtol\<close> and \<open>strtoul\<close> return the value and the pointer they store to \<open>*endptr\<close>.
\<close>

section \<open>Parsing\<close>

definition c_abs :: "u32 \<Rightarrow> u32" where "c_abs x = (if sint x < 0 then - x else x)"

definition labs :: "u32 \<Rightarrow> u32" where "labs x = (if sint x < 0 then - x else x)"

partial_function (option) skip_space :: "u32 \<Rightarrow> mem \<Rightarrow> u32 option" where
  "skip_space p m = (if isspace (sint (m p)) then skip_space (p + 1) m else Some p)"

definition parse_sign :: "u32 \<Rightarrow> mem \<Rightarrow> bool \<times> u32" where
  "parse_sign p m = (if m p = 45 then (True, p + 1) else if m p = 43 then (False, p + 1) else (False, p))"

partial_function (option) atoi_digits :: "u32 \<Rightarrow> u32 \<Rightarrow> mem \<Rightarrow> u32 option" where
  "atoi_digits p r m = (if isdigit (sint (m p)) then atoi_digits (p + 1) (r * 10 + (scast (m p) - 48)) m else Some r)"

definition atoi :: "u32 \<Rightarrow> mem \<Rightarrow> u32 option" where
  "atoi str m = (case skip_space str m of
     None \<Rightarrow> None
   | Some p \<Rightarrow> let (neg, p) = parse_sign p m in map_option (\<lambda>r. if neg then - r else r) (atoi_digits p 0 m))"

definition detect_base :: "u32 \<Rightarrow> int \<Rightarrow> mem \<Rightarrow> u32 \<times> int" where
  "detect_base p base m =
     (if base = 0
      then if m p = 48
           then if m (p + 1) = 120 \<or> m (p + 1) = 88 then (p + 1 + 1, 16) else (p + 1, 8)
           else (p, 10)
      else if base = 16 \<and> m p = 48 \<and> (m (p + 1) = 120 \<or> m (p + 1) = 88) then (p + 2, base)
      else (p, base))"

definition digit_of :: "u8 \<Rightarrow> int option" where
  "digit_of c =
     (if isdigit (sint c) then Some (sint c - 48)
      else if sint c \<ge> 65 \<and> sint c \<le> 90 then Some (sint c - 65 + 10)
      else if sint c \<ge> 97 \<and> sint c \<le> 122 then Some (sint c - 97 + 10)
      else None)"

partial_function (option) parse_digits :: "u32 \<Rightarrow> int \<Rightarrow> u32 \<Rightarrow> mem \<Rightarrow> (u32 \<times> u32) option" where
  "parse_digits p base r m =
     (if m p = 0 then Some (r, p)
      else case digit_of (m p) of
        None \<Rightarrow> Some (r, p)
      | Some digit \<Rightarrow> if digit \<ge> base then Some (r, p) else parse_digits (p + 1) base (r * of_int base + of_int digit) m)"

definition strtol :: "u32 \<Rightarrow> int \<Rightarrow> mem \<Rightarrow> (u32 \<times> u32) option" where
  "strtol str base m = (case skip_space str m of
     None \<Rightarrow> None
   | Some p \<Rightarrow>
       let (neg, p) = parse_sign p m; (p, base) = detect_base p base m
       in map_option (\<lambda>(r, e). (if neg then - r else r, e)) (parse_digits p base 0 m))"

definition strtoul :: "u32 \<Rightarrow> int \<Rightarrow> mem \<Rightarrow> (u32 \<times> u32) option" where
  "strtoul str base m = (case skip_space str m of
     None \<Rightarrow> None
   | Some p \<Rightarrow>
       let p = (if m p = 43 then p + 1 else p); (p, base) = detect_base p base m
       in parse_digits p base 0 m)"

section \<open>Printing\<close>

definition digit_char :: "u32 \<Rightarrow> u8" where
  "digit_char d = (if d < 10 then ucast (48 + d) else ucast (97 + d - 10))"

partial_function (option) emit_digits :: "u32 \<Rightarrow> u32 \<Rightarrow> u32 \<Rightarrow> mem \<Rightarrow> (u32 \<times> mem) option" where
  "emit_digits uval base p m =
     (if uval > 0 then emit_digits (uval div base) base (p + 1) (m(p := digit_char (uval mod base))) else Some (p, m))"

partial_function (option) reverse_loop :: "u32 \<Rightarrow> u32 \<Rightarrow> mem \<Rightarrow> mem option" where
  "reverse_loop start p m =
     (if start < p then reverse_loop (start + 1) (p - 1) (m(start := m p, p := m start)) else Some m)"

definition utoa :: "u32 \<Rightarrow> u32 \<Rightarrow> int \<Rightarrow> mem \<Rightarrow> (u32 \<times> mem) option" where
  "utoa value buf base m =
     (if base < 2 \<or> base > 36 then Some (buf, m(buf := 0))
      else if value = 0 then Some (buf, m(buf := 48, buf + 1 := 0))
      else case emit_digits value (of_int base) buf m of
        None \<Rightarrow> None
      | Some (p, m) \<Rightarrow> map_option (\<lambda>m. (buf, m)) (reverse_loop buf (p - 1) (m(p := 0))))"

definition itoa :: "u32 \<Rightarrow> u32 \<Rightarrow> int \<Rightarrow> mem \<Rightarrow> (u32 \<times> mem) option" where
  "itoa value buf base m =
     (if base < 2 \<or> base > 36 then Some (buf, m(buf := 0))
      else let neg = (sint value < 0 \<and> base = 10);
               uval = (if neg then - (value + 1) + 1 else value)
      in if uval = 0 then Some (buf, m(buf := 48, buf + 1 := 0))
      else case emit_digits uval (of_int base) buf m of
        None \<Rightarrow> None
      | Some (p, m) \<Rightarrow>
          let (p, m) = (if neg then (p + 1, m(p := 45)) else (p, m))
          in map_option (\<lambda>m. (buf, m)) (reverse_loop buf (p - 1) (m(p := 0))))"

text \<open>\<open>ltoa\<close> repeats the body of \<open>itoa\<close> for \<open>long\<close>, which is the same type here.\<close>

definition ltoa :: "u32 \<Rightarrow> u32 \<Rightarrow> int \<Rightarrow> mem \<Rightarrow> (u32 \<times> mem) option" where
  "ltoa value buf base m = itoa value buf base m"

section \<open>Digits of a number\<close>

text \<open>The digits of \<open>n\<close>, least significant first.\<close>

function num_digits :: "nat \<Rightarrow> nat \<Rightarrow> nat list" where
  "num_digits b n = (if n = 0 \<or> b < 2 then [] else n mod b # num_digits b (n div b))"
  by pat_completeness auto
termination by (relation "measure snd") auto

declare num_digits.simps [simp del]

lemma num_digits_less: "d \<in> set (num_digits b n) \<Longrightarrow> d < b"
proof (induction b n rule: num_digits.induct)
  case (1 b n)
  then show ?case by (cases "n = 0 \<or> b < 2") (auto simp: num_digits.simps [of b n])
qed

lemma num_digits_value: "2 \<le> b \<Longrightarrow> foldr (\<lambda>d r. r * b + d) (num_digits b n) 0 = n"
proof (induction b n rule: num_digits.induct)
  case (1 b n)
  show ?case
  proof (cases "n = 0")
    case True
    then show ?thesis by (simp add: num_digits.simps)
  next
    case False
    then show ?thesis using 1 by (simp add: num_digits.simps [of b n])
  qed
qed

lemma num_digits_length: "2 \<le> b \<Longrightarrow> n < 2 ^ k \<Longrightarrow> length (num_digits b n) \<le> k"
proof (induction k arbitrary: n)
  case 0
  then show ?case by (simp add: num_digits.simps)
next
  case (Suc k)
  have "n div b \<le> n div 2" using Suc.prems(1) by (intro div_le_mono2) auto
  moreover have "n div 2 < 2 ^ k" using Suc.prems(2) by (simp add: less_mult_imp_div_less)
  ultimately have "length (num_digits b (n div b)) \<le> k" using Suc by (intro Suc.IH) auto
  then show ?case by (simp add: num_digits.simps [of b n])
qed

definition dchar :: "nat \<Rightarrow> u8" where "dchar d = digit_char (of_nat d)"

lemma ucast_of_nat_byte: "ucast (of_nat k :: u32) = (of_nat k :: u8)"
  by (rule bit_word_eqI) (simp add: bit_simps)

lemma sint_dchar: "d < 36 \<Longrightarrow> sint (dchar d) = (if d < 10 then int d + 48 else int d + 87)"
proof -
  assume d: "d < 36"
  define v where "v = (if d < 10 then d + 48 else d + 87)"
  have u: "unat (of_nat d :: u32) = d" using d by (intro unat_of_nat_u32) simp
  have "dchar d = ucast (of_nat v :: u32)"
    using u by (simp add: dchar_def digit_char_def v_def word_less_nat_alt) (simp add: add.commute)
  then have "dchar d = (of_nat v :: u8)" by (simp only: ucast_of_nat_byte)
  moreover have "v < 128" using d by (simp add: v_def)
  then have "sint (of_nat v :: u8) = int v" by (simp add: signed_of_nat signed_take_bit_int_eq_self)
  ultimately show ?thesis by (simp add: v_def)
qed

lemma digit_of_dchar: "d < 36 \<Longrightarrow> digit_of (dchar d) = Some (int d)"
  by (simp add: digit_of_def isdigit_def sint_dchar)

lemma dchar_facts:
  assumes "d < 36"
  shows "dchar d \<noteq> 0" "dchar d \<noteq> 43" "dchar d \<noteq> 45" "\<not> isspace (sint (dchar d))" "d < 16 \<Longrightarrow> dchar d \<noteq> 120" "d < 16 \<Longrightarrow> dchar d \<noteq> 88"
proof -
  note s = sint_dchar [OF assms]
  show "dchar d \<noteq> 0" "dchar d \<noteq> 43" "dchar d \<noteq> 45" using s by (auto split: if_splits)
  show "\<not> isspace (sint (dchar d))" using s by (auto simp: isspace_def split: if_splits)
  show "d < 16 \<Longrightarrow> dchar d \<noteq> 120" "d < 16 \<Longrightarrow> dchar d \<noteq> 88" using s by (auto split: if_splits)
qed

lemma parse_digits_str:
  assumes "\<forall>d \<in> set ds. d < b" "b \<le> 36" "is_str m p (map dchar ds)"
  shows "parse_digits p (int b) r m = Some (of_nat (foldl (\<lambda>r d. r * b + d) (unat r) ds), p + of_nat (length ds))"
  using assms(1,3)
proof (induction ds arbitrary: p r)
  case Nil
  then show ?case by (subst parse_digits.simps) simp
next
  case (Cons d ds)
  have d: "d < b" "d < 36" "m p = dchar d" "m p \<noteq> 0" using Cons.prems assms(2) by auto
  let ?r = "r * of_int (int b) + of_int (int d)"
  have "parse_digits p (int b) r m = parse_digits (p + 1) (int b) ?r m"
    using d by (subst parse_digits.simps) (simp add: digit_of_dchar)
  also have "\<dots> = Some (of_nat (foldl (\<lambda>r d. r * b + d) (unat ?r) ds), p + 1 + of_nat (length ds))"
    using Cons.prems by (intro Cons.IH) auto
  also have "of_nat (foldl (\<lambda>r d. r * b + d) (unat ?r) ds) = (of_nat (foldl (\<lambda>r d. r * b + d) (unat r * b + d) ds) :: u32)"
  proof -
    have "(of_nat (foldl (\<lambda>r d. r * b + d) x ds) :: u32) = foldl (\<lambda>r d. r * of_nat b + of_nat d) (of_nat x) ds" for x
      by (induction ds arbitrary: x) simp_all
    moreover have "(of_nat (unat ?r) :: u32) = of_nat (unat r * b + d)" by simp
    ultimately show ?thesis by metis
  qed
  finally show ?case by (simp add: add.assoc)
qed

lemma skip_space_none: "\<not> isspace (sint (m p)) \<Longrightarrow> skip_space p m = Some p"
  by (subst skip_space.simps) simp

text \<open>The text of a number, most significant digit first.\<close>

definition num_text :: "nat \<Rightarrow> nat \<Rightarrow> u8 list" where
  "num_text b n = (if n = 0 then [dchar 0] else map dchar (rev (num_digits b n)))"

lemma num_text_digits:
  assumes "2 \<le> b" "b \<le> 36"
  shows "\<exists>ds. num_text b n = map dchar ds \<and> ds \<noteq> [] \<and> (\<forall>d \<in> set ds. d < b) \<and> foldl (\<lambda>r d. r * b + d) 0 ds = n"
proof (cases "n = 0")
  case True
  then show ?thesis using assms by (intro exI [of _ "[0]"]) (simp add: num_text_def)
next
  case False
  have "foldl (\<lambda>r d. r * b + d) 0 (rev (num_digits b n)) = n"
    using num_digits_value [OF assms(1), of n] by (simp add: foldl_conv_foldr)
  moreover have "num_digits b n \<noteq> []" using False assms by (simp add: num_digits.simps)
  ultimately show ?thesis
    using False num_digits_less by (intro exI [of _ "rev (num_digits b n)"]) (auto simp: num_text_def)
qed

lemma detect_base_text:
  assumes "2 \<le> b" "b \<le> 36" "is_str m p (map dchar ds)" "ds \<noteq> []" "\<forall>d \<in> set ds. d < b"
  shows "detect_base p (int b) m = (p, int b)"
proof -
  have "\<not> (m (p + 1) = 120 \<or> m (p + 1) = 88)" if "b = 16"
  proof -
    obtain d es where ds: "ds = d # es" using assms(4) by (cases ds) auto
    show ?thesis
    proof (cases es)
      case Nil
      then show ?thesis using assms(3) ds by simp
    next
      case (Cons e fs)
      then have "m (p + 1) = dchar e" "e < 16" using assms(3,5) ds that by auto
      then show ?thesis using dchar_facts [of e] by auto
    qed
  qed
  then show ?thesis using assms(1) by (auto simp: detect_base_def)
qed

lemma text_first:
  assumes "b \<le> 36" "is_str m p (map dchar ds)" "ds \<noteq> []" "\<forall>d \<in> set ds. d < b"
  shows "\<not> isspace (sint (m p))" "m p \<noteq> 43" "m p \<noteq> 45"
proof -
  obtain d es where "ds = d # es" using assms(3) by (cases ds) auto
  then have "m p = dchar d" "d < 36" using assms by auto
  then show "\<not> isspace (sint (m p))" "m p \<noteq> 43" "m p \<noteq> 45" using dchar_facts by auto
qed

lemma strtoul_text:
  assumes "2 \<le> b" "b \<le> 36" "is_str m p (num_text b n)"
  shows "strtoul p (int b) m = Some (of_nat n, p + of_nat (length (num_text b n)))"
proof -
  obtain ds where ds: "num_text b n = map dchar ds" "ds \<noteq> []" "\<forall>d \<in> set ds. d < b" "foldl (\<lambda>r d. r * b + d) 0 ds = n"
    using num_text_digits [OF assms(1,2)] by blast
  note str = assms(3) [unfolded ds(1)]
  note first = text_first [OF assms(2) str ds(2,3)]
  show ?thesis
    using parse_digits_str [OF ds(3) assms(2) str, of 0] ds(4) skip_space_none [of m p, OF first(1)] first(2)
      detect_base_text [OF assms(1,2) str ds(2,3)]
    by (simp add: strtoul_def ds(1))
qed

lemma strtol_text:
  assumes "2 \<le> b" "b \<le> 36" "is_str m p ((if neg then [45] else []) @ num_text b n)"
  shows "\<exists>e. strtol p (int b) m = Some (if neg then - of_nat n else of_nat n, e)"
proof -
  obtain ds where ds: "num_text b n = map dchar ds" "ds \<noteq> []" "\<forall>d \<in> set ds. d < b" "foldl (\<lambda>r d. r * b + d) 0 ds = n"
    using num_text_digits [OF assms(1,2)] by blast
  let ?q = "if neg then p + 1 else p"
  have str: "is_str m ?q (map dchar ds)" using assms(3) by (auto simp: ds(1) split: if_splits)
  note first = text_first [OF assms(2) str ds(2,3)]
  have "\<not> isspace (sint (m p))" using assms(3) first by (auto simp: isspace_def split: if_splits)
  moreover have "parse_sign p m = (neg, ?q)" using assms(3) first by (auto simp: parse_sign_def split: if_splits)
  ultimately show ?thesis
    using parse_digits_str [OF ds(3) assms(2) str, of 0] ds(4) skip_space_none [of m p]
      detect_base_text [OF assms(1,2) str ds(2,3)]
    by (auto simp: strtol_def)
qed

section \<open>What the printing functions write\<close>

fun put_list :: "u32 \<Rightarrow> u8 list \<Rightarrow> mem \<Rightarrow> mem" where
  "put_list p [] m = m"
| "put_list p (x # xs) m = put_list (p + 1) xs (m(p := x))"

lemma put_list_get:
  "length xs < 4294967296 \<Longrightarrow> put_list p xs m a = (if unat (a - p) < length xs then xs ! unat (a - p) else m a)"
proof (induction xs arbitrary: p m)
  case (Cons x xs)
  show ?case
  proof (cases "a = p")
    case True
    then show ?thesis using Cons by simp
  next
    case False
    then show ?thesis using Cons unat_sub_Suc [OF False] by simp
  qed
qed simp

lemma put_list_append: "put_list p (xs @ ys) m = put_list (p + of_nat (length xs)) ys (put_list p xs m)"
  by (induction xs arbitrary: p m) (simp_all add: add.assoc)

lemma emit_digits_list:
  assumes "2 \<le> b" "b \<le> 36"
  shows "emit_digits u (of_nat b) p m =
    Some (p + of_nat (length (num_digits b (unat u))), put_list p (map dchar (num_digits b (unat u))) m)"
proof (induction "unat u" arbitrary: u p m rule: less_induct)
  case less
  have b: "unat (of_nat b :: u32) = b" using assms by (intro unat_of_nat_u32) simp
  show ?case
  proof (cases "u = 0")
    case True
    then show ?thesis by (subst emit_digits.simps) (simp add: num_digits.simps)
  next
    case False
    have u: "unat (u div of_nat b) = unat u div b" "u mod of_nat b = of_nat (unat u mod b)"
      using b by (simp_all add: unat_div word_arith_nat_mod)
    have "0 < unat u" using False by (simp add: unat_gt_0)
    then have lt: "unat (u div of_nat b) < unat u" unfolding u using assms by simp
    have nd: "num_digits b (unat u) = unat u mod b # num_digits b (unat u div b)"
      using False assms by (simp add: num_digits.simps [of b "unat u"] unat_eq_0)
    show ?thesis
      using less [OF lt] False unfolding nd u
      by (subst emit_digits.simps) (simp add: word_gt_0 u dchar_def add.assoc)
  qed
qed

definition mirrored :: "u32 \<Rightarrow> nat \<Rightarrow> mem \<Rightarrow> mem" where
  "mirrored p n m = (\<lambda>a. if unat (a - p) < n then m (p + of_nat (n - 1 - unat (a - p))) else m a)"

lemma reverse_loop_mirrored:
  "unat p + n \<le> 4294967296 \<Longrightarrow> (n = 0 \<Longrightarrow> p \<noteq> 0) \<Longrightarrow> reverse_loop p (p + of_nat n - 1) m = Some (mirrored p n m)"
proof (induction n arbitrary: p m rule: induct_nat_012)
  case 0
  then have "\<not> p < p - 1" using unat_minus_one [of p] by (simp add: word_less_nat_alt)
  then show ?case by (subst reverse_loop.simps) (simp add: mirrored_def)
next
  case 1
  have "mirrored p 1 m = m" by (auto simp: mirrored_def unat_eq_0)
  then show ?case by (subst reverse_loop.simps) simp
next
  case (ge2 n)
  let ?q = "p + of_nat (Suc n)"
  have q: "unat ?q = unat p + Suc n" using ge2.prems(1) by (intro add_word_less) simp
  have "p < ?q" using q by (simp add: word_less_nat_alt)
  let ?m = "m(p := m ?q, ?q := m p)"
  have p1: "unat (p + 1) = unat p + 1" using add_word_less [of p 1] ge2.prems(1) by simp
  have "reverse_loop p (p + of_nat (Suc (Suc n)) - 1) m = reverse_loop (p + 1) (p + 1 + of_nat n - 1) ?m"
    using \<open>p < ?q\<close> by (subst reverse_loop.simps) (simp add: algebra_simps)
  also have "\<dots> = Some (mirrored (p + 1) n ?m)" using ge2.prems p1 by (intro ge2.IH(1)) auto
  also have "mirrored (p + 1) n ?m = mirrored p (Suc (Suc n)) m"
  proof
    fix a
    have idx: "p + of_nat i \<noteq> p" "p + of_nat i \<noteq> ?q" if "0 < i" "i < Suc n" for i
      using add_word_less [of p i] q ge2.prems(1) that by (auto simp: word_unat_eq_iff)
    show "mirrored (p + 1) n ?m a = mirrored p (Suc (Suc n)) m a"
    proof (cases "a = p")
      case True
      then show ?thesis using ge2.prems(1) \<open>p < ?q\<close> by (auto simp: mirrored_def)
    next
      case False
      have u: "unat (a - p) = Suc (unat (a - (p + 1)))" by (rule unat_sub_Suc [OF False])
      show ?thesis
      proof (cases "a = ?q")
        case True
        have "unat (?q - p) = Suc n" using unat_of_nat_u32 [of "Suc n"] ge2.prems(1) by simp
        then show ?thesis using True u by (simp add: mirrored_def)
      next
        case nq: False
        define j where "j = unat (a - (p + 1))"
        have "unat (a - p) \<noteq> Suc n" using nq of_nat_unat_sub [of p a] by metis
        then have jn: "j \<noteq> n" using u by (simp add: j_def)
        have uj: "unat (a - p) = Suc j" using u by (simp add: j_def)
        show ?thesis
        proof (cases "j < n")
          case True
          then have "n - j = Suc (n - 1 - j)" by simp
          then have "of_nat (n - j) = 1 + (of_nat (n - 1 - j) :: u32)" by (metis of_nat_Suc)
          then have "mirrored (p + 1) n ?m a = ?m (p + of_nat (n - j))"
            unfolding mirrored_def j_def [symmetric] using True by (simp only: if_True add.assoc)
          also have "\<dots> = m (p + of_nat (n - j))" using idx [of "n - j"] True by (simp only: fun_upd_apply) simp
          also have "\<dots> = mirrored p (Suc (Suc n)) m a"
            unfolding mirrored_def uj using True by (simp only: diff_Suc_1 diff_Suc_Suc) simp
          finally show ?thesis .
        next
          case False
          then show ?thesis
            using jn \<open>a \<noteq> p\<close> nq unfolding mirrored_def uj j_def [symmetric] by simp
        qed
      qed
    qed
  qed
  finally show ?case .
qed

lemma mirrored_str:
  assumes "unat p + length xs < 4294967296" "0 \<notin> set xs"
  shows "is_str (mirrored p (length xs) ((put_list p xs m)(p + of_nat (length xs) := 0))) p (rev xs)"
  unfolding is_str_nth length_rev
proof (intro conjI allI impI)
  let ?n = "length xs" and ?m = "(put_list p xs m)(p + of_nat (length xs) := 0)"
  have off: "unat (p + of_nat i - p) = i" if "i \<le> ?n" for i
    using that assms(1) by (simp add: unat_of_nat_u32)
  have ne: "p + of_nat i \<noteq> p + of_nat ?n" if "i < ?n" for i
    using off [of i] off [of ?n] that by (metis less_imp_le nat_neq_iff order_refl)
  have get: "?m (p + of_nat i) = xs ! i" if "i < ?n" for i
    using that off [of i] ne [OF that] assms(1) by (simp add: put_list_get)
  fix i assume i: "i < ?n"
  show "mirrored p ?n ?m (p + of_nat i) = rev xs ! i"
    using i off [of i] get [of "?n - 1 - i"] by (simp add: mirrored_def rev_nth del: fun_upd_apply)
  have "rev xs ! i \<in> set xs" using i by (metis length_rev nth_mem set_rev)
  then show "rev xs ! i \<noteq> 0" using assms(2) by metis
next
  show "mirrored p (length xs) ((put_list p xs m)(p + of_nat (length xs) := 0)) (p + of_nat (length xs)) = 0"
    using assms(1) by (simp add: mirrored_def unat_of_nat_u32)
qed

text \<open>The common tail of the printing functions: a reversed text, its terminator, the reversal in place.\<close>

lemma reverse_text:
  assumes "unat buf + length xs < 4294967296" "0 \<notin> set xs" "xs \<noteq> []"
  shows "\<exists>m'. reverse_loop buf (buf + of_nat (length xs) - 1) ((put_list buf xs m)(buf + of_nat (length xs) := 0)) = Some m' \<and>
    is_str m' buf (rev xs) \<and> (\<forall>a. length xs < unat (a - buf) \<longrightarrow> m' a = m a)"
proof -
  let ?m = "(put_list buf xs m)(buf + of_nat (length xs) := 0)"
  have "reverse_loop buf (buf + of_nat (length xs) - 1) ?m = Some (mirrored buf (length xs) ?m)"
    using assms by (intro reverse_loop_mirrored) simp_all
  moreover have "mirrored buf (length xs) ?m a = m a" if "length xs < unat (a - buf)" for a
  proof -
    have "a \<noteq> buf + of_nat (length xs)" using that assms(1) by (auto simp: unat_of_nat_u32)
    then show ?thesis using that assms(1) by (simp add: mirrored_def put_list_get)
  qed
  ultimately show ?thesis using mirrored_str [OF assms(1,2)] by blast
qed

lemma digits_no_zero: "2 \<le> b \<Longrightarrow> b \<le> 36 \<Longrightarrow> 0 \<notin> set (map dchar (num_digits b n))"
proof
  assume b: "2 \<le> b" "b \<le> 36" and "0 \<in> set (map dchar (num_digits b n))"
  then obtain d where d: "d \<in> set (num_digits b n)" "dchar d = 0" unfolding set_map by (metis imageE)
  have "d < 36" using num_digits_less [OF d(1)] b(2) by simp
  from dchar_facts(1) [OF this] d(2) show False by simp
qed

lemma dchar_0: "dchar 0 = 48" by (simp add: dchar_def digit_char_def)

lemma zero_text: "unat buf + 1 < 4294967296 \<Longrightarrow> is_str (m(buf := 48, buf + 1 := 0)) buf (num_text b 0)"
  by (simp add: num_text_def dchar_0)

lemma utoa_text:
  assumes b: "2 \<le> b" "b \<le> 36" and buf: "unat buf + 33 \<le> 4294967296"
  shows "\<exists>m'. utoa v buf (int b) m = Some (buf, m') \<and> is_str m' buf (num_text b (unat v)) \<and> (\<forall>a. 32 < unat (a - buf) \<longrightarrow> m' a = m a)"
proof (cases "v = 0")
  case True
  have "a \<noteq> buf" "a \<noteq> buf + 1" if "32 < unat (a - buf)" for a using that by auto
  then show ?thesis using True b buf zero_text [of buf m b] by (auto simp: utoa_def)
next
  case False
  let ?ds = "num_digits b (unat v)"
  let ?xs = "map dchar ?ds"
  have len: "length ?xs \<le> 32" using num_digits_length [OF b(1), of "unat v" 32] by simp
  have ne: "?xs \<noteq> []" using False b by (simp add: num_digits.simps unat_eq_0)
  obtain m' where m': "reverse_loop buf (buf + of_nat (length ?xs) - 1) ((put_list buf ?xs m)(buf + of_nat (length ?xs) := 0)) = Some m'"
    "is_str m' buf (rev ?xs)" "\<And>a. length ?xs < unat (a - buf) \<Longrightarrow> m' a = m a"
    using reverse_text [of buf ?xs m] digits_no_zero [OF b] len ne buf by auto
  have "utoa v buf (int b) m = Some (buf, m')"
    using emit_digits_list [OF b, of v buf m] m'(1) False b by (simp add: utoa_def)
  moreover have "rev ?xs = num_text b (unat v)" using False by (simp add: num_text_def rev_map unat_eq_0)
  ultimately show ?thesis using m' len by auto
qed

lemma itoa_text:
  assumes buf: "unat buf + 34 \<le> 4294967296"
  shows "\<exists>m'. itoa v buf 10 m = Some (buf, m') \<and>
    is_str m' buf ((if sint v < 0 then [45] else []) @ num_text 10 (unat (if sint v < 0 then - v else v)))"
proof -
  let ?u = "if sint v < 0 then - v else v"
  have u: "- (v + 1) + 1 = - v" by simp
  show ?thesis
  proof (cases "?u = 0")
    case True
    then have "v = 0" by (simp split: if_splits)
    then show ?thesis using zero_text [of buf m 10] buf by (auto simp: itoa_def)
  next
    case False
    let ?ds = "num_digits 10 (unat ?u)"
    let ?xs = "map dchar ?ds" and ?sg = "if sint v < 0 then [45 :: u8] else []"
    let ?ys = "?xs @ ?sg"
    have len: "length ?xs \<le> 32" using num_digits_length [of 10 "unat ?u" 32] by simp
    have "0 \<notin> set ?ys" using digits_no_zero [of 10 "unat ?u"] by auto
    moreover have "?ys \<noteq> []" using False by (simp add: num_digits.simps unat_eq_0)
    moreover have "unat buf + length ?ys < 4294967296" using len buf by auto
    ultimately obtain m' where m': "reverse_loop buf (buf + of_nat (length ?ys) - 1) ((put_list buf ?ys m)(buf + of_nat (length ?ys) := 0)) = Some m'"
      "is_str m' buf (rev ?ys)"
      using reverse_text [of buf ?ys m] by blast
    have "itoa v buf 10 m = Some (buf, m')"
      using emit_digits_list [of 10 ?u buf m] m'(1) False
      by (auto simp: itoa_def u Let_def put_list_append algebra_simps split: if_splits)
    moreover have "rev ?ys = ?sg @ num_text 10 (unat ?u)" using False by (simp add: num_text_def rev_map unat_eq_0)
    ultimately show ?thesis using m'(2) by auto
  qed
qed

text \<open>
  C36. Printing and parsing are inverse: \<open>strtoul\<close> reads back what \<open>utoa\<close> wrote in any base from 2 to 36, and \<open>strtol\<close> what \<open>itoa\<close> wrote in
  base 10; \<open>utoa\<close> stays in 33 bytes of the buffer.
\<close>

theorem number_roundtrip:
  assumes "2 \<le> b" and "b \<le> 36" and "unat buf + 34 \<le> 4294967296"
  shows "(\<exists>m' e. utoa v buf (int b) m = Some (buf, m') \<and> strtoul buf (int b) m' = Some (v, e) \<and> (\<forall>a. 32 < unat (a - buf) \<longrightarrow> m' a = m a)) \<and>
    (\<exists>m' e. itoa v buf 10 m = Some (buf, m') \<and> strtol buf 10 m' = Some (v, e))"
proof
  show "\<exists>m' e. utoa v buf (int b) m = Some (buf, m') \<and> strtoul buf (int b) m' = Some (v, e) \<and> (\<forall>a. 32 < unat (a - buf) \<longrightarrow> m' a = m a)"
    using utoa_text [OF assms(1,2), of buf v m] strtoul_text [OF assms(1,2)] assms(3) by fastforce
  obtain m' where "itoa v buf 10 m = Some (buf, m')"
    "is_str m' buf ((if sint v < 0 then [45] else []) @ num_text 10 (unat (if sint v < 0 then - v else v)))"
    using itoa_text [OF assms(3)] by blast
  then show "\<exists>m' e. itoa v buf 10 m = Some (buf, m') \<and> strtol buf 10 m' = Some (v, e)"
    using strtol_text [of 10 m' buf "sint v < 0" "unat (if sint v < 0 then - v else v)"] by auto
qed

theorem number_roundtrip_witness:
  "(\<exists>m' e. utoa 3735928559 1000 16 (\<lambda>_. 7) = Some (1000, m') \<and> strtoul 1000 16 m' = Some (3735928559, e)) \<and>
   (\<exists>m' e. itoa (- 42) 1000 10 (\<lambda>_. 7) = Some (1000, m') \<and> strtol 1000 10 m' = Some (- 42, e))"
  using number_roundtrip [of 16 1000 3735928559 "\<lambda>_. 7"] number_roundtrip [of 16 1000 "- 42" "\<lambda>_. 7"] by auto

end
