(* ===== verification/Cstdio.thy ===== *)
theory Cstdio
  imports Cstdlib
begin

text \<open>
  Formatted output, \<^verbatim>\<open>src/lib/kstdio.c\<close>.  The variable arguments are the words \<open>args 0, args 1, ...\<close> of the caller's stack
  (every type the formats name has four bytes); \<open>pos\<close> is a natural number, it would need an output of two gigabytes to overflow.
\<close>

section \<open>Numbers\<close>

definition fmt_char :: "bool \<Rightarrow> u32 \<Rightarrow> u8" where
  "fmt_char uppercase d = (if d < 10 then ucast (48 + d) else if uppercase then ucast (65 + d - 10) else ucast (97 + d - 10))"

partial_function (option) fmt_digits :: "u32 \<Rightarrow> u32 \<Rightarrow> bool \<Rightarrow> u8 list \<Rightarrow> u8 list option" where
  "fmt_digits val base uppercase tmp =
     (if val > 0 then fmt_digits (val div base) base uppercase (tmp @ [fmt_char uppercase (val mod base)]) else Some tmp)"

text \<open>\<open>if (pos < max) buf[pos++] = c\<close> for each of the given bytes, and \<open>if (pos < max) buf[pos] = c; pos++\<close>.\<close>

fun emit :: "u8 list \<Rightarrow> u32 \<Rightarrow> nat \<Rightarrow> nat \<times> mem \<Rightarrow> nat \<times> mem" where
  "emit [] buf lim st = st"
| "emit (c # cs) buf lim (pos, m) = (if pos < lim then emit cs buf lim (Suc pos, m(buf + of_nat pos := c)) else (pos, m))"

definition put_char :: "u8 \<Rightarrow> u32 \<Rightarrow> nat \<Rightarrow> nat \<times> mem \<Rightarrow> nat \<times> mem" where
  "put_char c buf lim st = (case st of (pos, m) \<Rightarrow> (Suc pos, if pos < lim then m(buf + of_nat pos := c) else m))"

definition format_number ::
  "u32 \<Rightarrow> nat \<Rightarrow> u32 \<Rightarrow> u32 \<Rightarrow> u32 \<Rightarrow> bool \<Rightarrow> bool \<Rightarrow> bool \<Rightarrow> u32 \<Rightarrow> nat \<times> mem \<Rightarrow> (nat \<times> mem) option" where
  "format_number buf lim num base width pad_zero uppercase is_signed signed_val st =
     (let neg = (is_signed \<and> sint signed_val < 0);
          val = (if neg then - (signed_val + 1) + 1 else num)
      in case (if val = 0 then Some [48] else fmt_digits val base uppercase []) of
           None \<Rightarrow> None
         | Some tmp \<Rightarrow>
             let total = int (length tmp) + (if neg then 1 else 0);
                 pad = (if sint width > total then nat (sint width - total) else 0);
                 st = emit (replicate pad (if pad_zero then 48 else 32)) buf lim st;
                 st = emit (if neg then [45] else []) buf lim st
             in Some (emit (rev tmp) buf lim st))"

section \<open>The format string\<close>

partial_function (option) parse_width :: "u32 \<Rightarrow> u32 \<Rightarrow> mem \<Rightarrow> (u32 \<times> u32) option" where
  "parse_width f width m =
     (if isdigit (sint (m f)) then parse_width (f + 1) (width * 10 + (scast (m f) - 48)) m else Some (f, width))"

text \<open>\<open>while (*str && pos < max) buf[pos++] = *str++\<close>\<close>

partial_function (option) emit_str :: "u32 \<Rightarrow> u32 \<Rightarrow> nat \<Rightarrow> nat \<times> mem \<Rightarrow> (nat \<times> mem) option" where
  "emit_str str buf lim st =
     (if snd st str \<noteq> 0 \<and> fst st < lim
      then emit_str (str + 1) buf lim (Suc (fst st), (snd st)(buf + of_nat (fst st) := snd st str))
      else Some st)"

definition format_string :: "u32 \<Rightarrow> u32 \<Rightarrow> nat \<Rightarrow> u32 \<Rightarrow> nat \<times> mem \<Rightarrow> (nat \<times> mem) option" where
  "format_string str buf lim width st =
     (if str = 0
      then let pad = (if sint width > 6 then nat (sint width - 6) else 0)
           in Some (emit [40, 110, 117, 108, 108, 41] buf lim (emit (replicate pad 32) buf lim st))
      else case strlen_loop str 0 (snd st) of
        None \<Rightarrow> None
      | Some slen \<Rightarrow>
          let pad = (if sint width > sint slen then nat (sint width - sint slen) else 0)
          in emit_str str buf lim (emit (replicate pad 32) buf lim st))"

text \<open>
  The \<open>switch\<close> on the conversion character at \<open>f\<close>: \<open>k\<close> arguments are used up.  \<open>%d\<close> passes 0 as the
  unsigned value, and \<open>format_number\<close> uses that value for a number that is not negative.
\<close>

definition convert ::
  "(nat \<Rightarrow> u32) \<Rightarrow> u32 \<Rightarrow> nat \<Rightarrow> u32 \<Rightarrow> bool \<Rightarrow> u32 \<Rightarrow> nat \<Rightarrow> nat \<times> mem \<Rightarrow> (nat \<times> nat \<times> mem) option" where
  "convert args buf lim f pad_zero width k st =
     (let c = snd st f in
      if c = 100 \<or> c = 105 then map_option (Pair (Suc k)) (format_number buf lim 0 10 width pad_zero False True (args k) st)
      else if c = 117 then map_option (Pair (Suc k)) (format_number buf lim (args k) 10 width pad_zero False False 0 st)
      else if c = 120 then map_option (Pair (Suc k)) (format_number buf lim (args k) 16 width pad_zero False False 0 st)
      else if c = 88 then map_option (Pair (Suc k)) (format_number buf lim (args k) 16 width pad_zero True False 0 st)
      else if c = 111 then map_option (Pair (Suc k)) (format_number buf lim (args k) 8 width pad_zero False False 0 st)
      else if c = 112 then map_option (Pair (Suc k)) (format_number buf lim (args k) 16 8 True False False 0 (emit [48, 120] buf lim st))
      else if c = 99 then Some (Suc k, put_char (ucast (args k)) buf lim st)
      else if c = 115 then map_option (Pair (Suc k)) (format_string (args k) buf lim width st)
      else if c = 37 then Some (k, put_char 37 buf lim st)
      else let st = put_char 37 buf lim st in Some (k, put_char (snd st f) buf lim st))"

partial_function (option) vsn_loop ::
  "(nat \<Rightarrow> u32) \<Rightarrow> u32 \<Rightarrow> nat \<Rightarrow> u32 \<Rightarrow> nat \<Rightarrow> nat \<times> mem \<Rightarrow> (nat \<times> mem) option" where
  "vsn_loop args buf lim f k st =
     (let m = snd st in
      if m f = 0 then Some st
      else if m f \<noteq> 37 then vsn_loop args buf lim (f + 1) k (put_char (m f) buf lim st)
      else let f1 = f + 1; pad_zero = (m f1 = 48); f2 = (if pad_zero then f1 + 1 else f1)
      in case parse_width f2 0 m of
        None \<Rightarrow> None
      | Some fw \<Rightarrow>
          let f3 = (if m (fst fw) = 108 then fst fw + 1 else fst fw)
          in case convert args buf lim f3 pad_zero (snd fw) k st of
            None \<Rightarrow> None
          | Some r \<Rightarrow> vsn_loop args buf lim (if snd (snd r) f3 \<noteq> 0 then f3 + 1 else f3) (fst r) (snd r))"

definition vsn_max :: "u32 \<Rightarrow> nat" where
  "vsn_max sz = nat (sint (sz - 1))"

definition vsnprintf :: "u32 \<Rightarrow> u32 \<Rightarrow> u32 \<Rightarrow> (nat \<Rightarrow> u32) \<Rightarrow> mem \<Rightarrow> (nat \<times> mem) option" where
  "vsnprintf buf sz format args m =
     (let lim = vsn_max sz in
      case vsn_loop args buf lim format 0 (0, m) of
        None \<Rightarrow> None
      | Some (pos, m) \<Rightarrow>
          Some (pos, if sz > 0 then if pos < lim then m(buf + of_nat pos := 0) else m(buf + of_nat lim := 0) else m))"

definition vsprintf :: "u32 \<Rightarrow> u32 \<Rightarrow> (nat \<Rightarrow> u32) \<Rightarrow> mem \<Rightarrow> (nat \<times> mem) option" where
  "vsprintf buf format args m = vsnprintf buf 0x7FFFFFFF format args m"

definition sprintf :: "u32 \<Rightarrow> u32 \<Rightarrow> (nat \<Rightarrow> u32) \<Rightarrow> mem \<Rightarrow> (nat \<times> mem) option" where
  "sprintf buf format args m = vsnprintf buf 0x7FFFFFFF format args m"

definition snprintf :: "u32 \<Rightarrow> u32 \<Rightarrow> u32 \<Rightarrow> (nat \<Rightarrow> u32) \<Rightarrow> mem \<Rightarrow> (nat \<times> mem) option" where
  "snprintf buf sz format args m = vsnprintf buf sz format args m"

section \<open>The output stays in the buffer\<close>

definition outside :: "u32 \<Rightarrow> nat \<Rightarrow> mem \<Rightarrow> mem \<Rightarrow> bool" where
  "outside buf n m m' \<longleftrightarrow> (\<forall>a. n \<le> unat (a - buf) \<longrightarrow> m' a = m a)"

lemma outside_refl: "outside buf n m m" by (simp add: outside_def)

lemma outside_trans: "outside buf n l m \<Longrightarrow> outside buf n m m' \<Longrightarrow> outside buf n l m'"
  by (simp add: outside_def)

lemma outside_upd: "i < n \<Longrightarrow> n < 4294967296 \<Longrightarrow> outside buf n m (m(buf + of_nat i := c))"
  by (auto simp: outside_def unat_of_nat_u32)

lemma emit_outside: "n < 4294967296 \<Longrightarrow> outside buf n (snd st) (snd (emit cs buf n st))"
proof (induction cs buf n st rule: emit.induct)
  case (2 c cs buf n pos m)
  then show ?case using outside_trans [OF outside_upd [of pos n buf m c]] by (auto simp: outside_refl simp del: fun_upd_apply)
qed (simp add: outside_refl)

lemma put_char_outside: "n < 4294967296 \<Longrightarrow> outside buf n (snd st) (snd (put_char c buf n st))"
  by (cases st) (simp add: put_char_def outside_upd outside_refl)

lemma fmt_digits_returns: "2 \<le> unat base \<Longrightarrow> \<exists>ds. fmt_digits v base up tmp = Some ds"
proof (induction "unat v" arbitrary: v tmp rule: less_induct)
  case less
  show ?case
  proof (cases "v = 0")
    case True
    then show ?thesis by (subst fmt_digits.simps) simp
  next
    case False
    then have "0 < unat v" by (simp add: unat_gt_0)
    then have "unat (v div base) < unat v" using less.prems by (simp add: unat_div)
    then show ?thesis using less.hyps [of "v div base"] less.prems False by (subst fmt_digits.simps) (simp add: word_gt_0)
  qed
qed

lemma format_number_ok:
  assumes "n < 4294967296" "2 \<le> unat base"
  shows "\<exists>st'. format_number buf n num base w pz up sg sv st = Some st' \<and> outside buf n (snd st) (snd st')"
proof -
  have e: "outside buf n (snd st) (snd (emit xs buf n (emit ys buf n (emit zs buf n st))))" for xs ys zs
    by (blast intro: outside_trans emit_outside assms(1))
  show ?thesis
    using fmt_digits_returns [OF assms(2), of _ up "[]"] unfolding format_number_def Let_def
    by (smt (verit, best) e option.simps(5))
qed

section \<open>The loops end at a zero byte outside the buffer\<close>

text \<open>\<open>z\<close> is a zero byte that the output cannot reach; pointers move towards it.\<close>

definition zero_at :: "u32 \<Rightarrow> u32 \<Rightarrow> nat \<Rightarrow> mem \<Rightarrow> bool" where
  "zero_at z buf n m \<longleftrightarrow> m z = 0 \<and> n \<le> unat (z - buf)"

lemma zero_at_outside: "zero_at z buf n m \<Longrightarrow> outside buf n m m' \<Longrightarrow> zero_at z buf n m'"
  by (simp add: zero_at_def outside_def)

lemma step_closer: "p \<noteq> z \<Longrightarrow> unat (z - (p + 1)) < unat (z - p)" for p z :: u32
  using unat_sub_Suc [of z p] by simp

lemma strlen_returns: "m z = 0 \<Longrightarrow> \<exists>n. strlen_loop p len m = Some n"
proof (induction "unat (z - p)" arbitrary: p len rule: less_induct)
  case less
  then show ?case using step_closer [of p z] by (subst strlen_loop.simps) auto
qed

lemma parse_width_returns:
  "m z = 0 \<Longrightarrow> \<exists>fw. parse_width f w m = Some fw \<and> unat (z - fst fw) \<le> unat (z - f)"
proof (induction "unat (z - f)" arbitrary: f w rule: less_induct)
  case less
  show ?case
  proof (cases "isdigit (sint (m f))")
    case True
    then have "f \<noteq> z" using less.prems by (auto simp: isdigit_def)
    then show ?thesis using less step_closer [of f z] True by (subst parse_width.simps) fastforce
  next
    case False
    then show ?thesis by (subst parse_width.simps) simp
  qed
qed

lemma emit_str_ok:
  assumes "n < 4294967296"
  shows "zero_at z buf n (snd st) \<Longrightarrow> \<exists>st'. emit_str p buf n st = Some st' \<and> outside buf n (snd st) (snd st')"
proof (induction "unat (z - p)" arbitrary: p st rule: less_induct)
  case less
  show ?case
  proof (cases "snd st p \<noteq> 0 \<and> fst st < n")
    case True
    let ?m = "(snd st)(buf + of_nat (fst st) := snd st p)"
    have o: "outside buf n (snd st) ?m" using True assms by (intro outside_upd) auto
    have "p \<noteq> z" using True less.prems by (auto simp: zero_at_def)
    from less.hyps [OF step_closer [OF this], of "(Suc (fst st), ?m)"] zero_at_outside [OF less.prems o]
    obtain st' where "emit_str (p + 1) buf n (Suc (fst st), ?m) = Some st'" "outside buf n ?m (snd st')" by auto
    then show ?thesis using True outside_trans [OF o] by (subst emit_str.simps) auto
  next
    case False
    then have "emit_str p buf n st = Some st" by (subst emit_str.simps) auto
    then show ?thesis using outside_refl by blast
  qed
qed

lemma format_string_ok:
  assumes "n < 4294967296" "zero_at z buf n (snd st)"
  shows "\<exists>st'. format_string p buf n w st = Some st' \<and> outside buf n (snd st) (snd st')"
proof (cases "p = 0")
  case True
  have "outside buf n (snd st) (snd (emit xs buf n (emit ys buf n st)))" for xs ys
    by (blast intro: outside_trans emit_outside assms(1))
  then show ?thesis using True by (simp add: format_string_def Let_def)
next
  case False
  obtain k where k: "strlen_loop p 0 (snd st) = Some k" using strlen_returns [of "snd st" z p 0] assms(2) by (auto simp: zero_at_def)
  let ?st = "emit (replicate (if sint w > sint k then nat (sint w - sint k) else 0) 32) buf n st"
  have o: "outside buf n (snd st) (snd ?st)" by (rule emit_outside [OF assms(1)])
  obtain st' where "emit_str p buf n ?st = Some st'" "outside buf n (snd ?st) (snd st')"
    using emit_str_ok [OF assms(1) zero_at_outside [OF assms(2) o]] by blast
  then show ?thesis using False k outside_trans [OF o] by (simp add: format_string_def Let_def)
qed

definition conv_ok :: "u32 \<Rightarrow> nat \<Rightarrow> mem \<Rightarrow> (nat \<times> nat \<times> mem) option \<Rightarrow> bool" where
  "conv_ok buf n m x \<longleftrightarrow> (\<exists>r. x = Some r \<and> outside buf n m (snd (snd r)))"

lemma conv_ok_if: "conv_ok buf n m x \<Longrightarrow> conv_ok buf n m y \<Longrightarrow> conv_ok buf n m (if c then x else y)"
  by simp

lemma conv_ok_Pair: "\<exists>st. x = Some st \<and> outside buf n m (snd st) \<Longrightarrow> conv_ok buf n m (map_option (Pair k) x)"
  by (auto simp: conv_ok_def)

lemma conv_ok_Some: "outside buf n m (snd st) \<Longrightarrow> conv_ok buf n m (Some (k, st))"
  by (simp add: conv_ok_def)

lemma convert_ok:
  assumes "n < 4294967296" "zero_at z buf n (snd st)"
  shows "conv_ok buf n (snd st) (convert args buf n f pz w k st)"
proof -
  have fn: "conv_ok buf n (snd st) (map_option (Pair (Suc k)) (format_number buf n num base w' pz' up sg sv st))"
    if "2 \<le> unat base" for num base w' pz' up sg sv
    by (intro conv_ok_Pair format_number_ok assms(1) that)
  have p: "conv_ok buf n (snd st) (map_option (Pair (Suc k)) (format_number buf n (args k) 16 8 True False False 0 (emit [48, 120] buf n st)))"
    using format_number_ok [OF assms(1), of 16 buf "args k" 8 True False False 0 "emit [48, 120] buf n st"]
      outside_trans [OF emit_outside [OF assms(1), of buf st "[48, 120]"]] by (intro conv_ok_Pair) fastforce
  have s: "conv_ok buf n (snd st) (map_option (Pair (Suc k)) (format_string (args k) buf n w st))"
    by (rule conv_ok_Pair, rule format_string_ok [OF assms])
  have c: "conv_ok buf n (snd st) (Some (j, put_char x buf n st))" for x j
    by (intro conv_ok_Some put_char_outside assms(1))
  have cc: "conv_ok buf n (snd st) (Some (j, put_char x buf n (put_char y buf n st)))" for x y j
    by (rule conv_ok_Some, rule outside_trans, (rule put_char_outside [OF assms(1)])+)
  have b: "2 \<le> unat (10 :: u32)" "2 \<le> unat (16 :: u32)" "2 \<le> unat (8 :: u32)" by simp_all
  show ?thesis
    unfolding convert_def Let_def by (intro conv_ok_if fn [OF b(1)] fn [OF b(2)] fn [OF b(3)] p s c cc)
qed

text \<open>The pointer of the format loop moves towards the zero byte.\<close>

lemma skip_closer: "m z = 0 \<Longrightarrow> unat (z - (if m f = c then f + 1 else f)) \<le> unat (z - f)" if "c \<noteq> 0" for z f :: u32 and c :: u8
  using that step_closer [of f z] by (cases "f = z") auto

lemma vsn_loop_ok:
  assumes "n < 4294967296"
  shows "zero_at z buf n (snd st) \<Longrightarrow> \<exists>r. vsn_loop args buf n f k st = Some r \<and> outside buf n (snd st) (snd r)"
proof (induction "unat (z - f)" arbitrary: f k st rule: less_induct)
  case less
  let ?m = "snd st"
  have z: "?m z = 0" using less.prems by (simp add: zero_at_def)
  have continue: "\<exists>r. vsn_loop args buf n g j st' = Some r \<and> outside buf n ?m (snd r)"
    if "unat (z - g) < unat (z - f)" "outside buf n ?m (snd st')" for g j st'
    using less.hyps [OF that(1) zero_at_outside [OF less.prems that(2)], of j] outside_trans [OF that(2)] by blast
  show ?case
  proof (cases "?m f = 0")
    case True
    then have "vsn_loop args buf n f k st = Some st" by (subst vsn_loop.simps) (simp add: Let_def)
    then show ?thesis using outside_refl by blast
  next
    case nz: False
    then have near: "unat (z - (f + 1)) < unat (z - f)" using z step_closer by metis
    show ?thesis
    proof (cases "?m f = 37")
      case False
      then have "vsn_loop args buf n f k st = vsn_loop args buf n (f + 1) k (put_char (?m f) buf n st)"
        using nz by (subst vsn_loop.simps) (simp add: Let_def)
      then show ?thesis using continue [OF near put_char_outside [OF assms]] by simp
    next
      case True
      define f2 where "f2 = (if ?m (f + 1) = 48 then f + 1 + 1 else f + 1)"
      obtain fw where fw: "parse_width f2 0 ?m = Some fw" "unat (z - fst fw) \<le> unat (z - f2)"
        using parse_width_returns [of ?m z, OF z] by blast
      define f3 where "f3 = (if ?m (fst fw) = 108 then fst fw + 1 else fst fw)"
      obtain r where r: "convert args buf n f3 (?m (f + 1) = 48) (snd fw) k st = Some r" "outside buf n ?m (snd (snd r))"
        using convert_ok [OF assms less.prems] unfolding conv_ok_def by blast
      define f4 where "f4 = (if snd (snd r) f3 \<noteq> 0 then f3 + 1 else f3)"
      have "unat (z - f2) \<le> unat (z - (f + 1))" unfolding f2_def using skip_closer [of 48 ?m z "f + 1"] z by simp
      moreover have "unat (z - f3) \<le> unat (z - fst fw)" unfolding f3_def using skip_closer [of 108 ?m z "fst fw"] z by simp
      moreover have "unat (z - f4) \<le> unat (z - f3)"
      proof (cases "snd (snd r) f3 = 0")
        case False
        have "snd (snd r) z = 0" using zero_at_outside [OF less.prems r(2)] by (simp add: zero_at_def)
        then have "f3 \<noteq> z" using False by auto
        then show ?thesis using step_closer [of f3 z] False by (simp add: f4_def)
      qed (simp add: f4_def)
      ultimately have "unat (z - f4) < unat (z - f)" using near fw(2) by linarith
      from continue [OF this r(2)] have "\<exists>q. vsn_loop args buf n f4 (fst r) (snd r) = Some q \<and> outside buf n ?m (snd q)" .
      moreover have "vsn_loop args buf n f k st = vsn_loop args buf n f4 (fst r) (snd r)"
        using True fw(1) r(1) unfolding f4_def f3_def f2_def by (subst vsn_loop.simps) (simp add: Let_def)
      ultimately show ?thesis by simp
    qed
  qed
qed

lemma vsn_max_less: "sz \<noteq> 0 \<Longrightarrow> vsn_max sz < unat sz"
proof -
  assume sz: "sz \<noteq> 0"
  have "sint x \<le> uint x" for x :: u32
  proof -
    have "- (2 ^ 31) \<le> uint x" by (rule order_trans [OF _ unsigned_greater_eq]) simp
    then show ?thesis using signed_take_bit_int_less_eq_self_iff [of 31 "uint x"] by (simp add: sint_uint)
  qed
  then have "sint (sz - 1) \<le> uint (sz - 1)" .
  also have "\<dots> = int (unat (sz - 1))" by simp
  also have "unat (sz - 1) = unat sz - 1" using sz by (rule unat_minus_one)
  finally have "vsn_max sz \<le> unat sz - 1" by (simp add: vsn_max_def)
  moreover have "0 < unat sz" using sz by (simp add: unat_gt_0)
  ultimately show ?thesis by linarith
qed

section \<open>Properties\<close>

text \<open>
  C35. \<open>vsnprintf\<close> returns for every format and every arguments, changes no byte outside the \<open>size\<close> bytes of its buffer and terminates its output,
  as long as some byte outside the buffer is zero.
\<close>

theorem vsnprintf_safe:
  assumes "m z = 0" and "unat sz \<le> unat (z - buf)"
  shows "\<exists>pos m'. vsnprintf buf sz format args m = Some (pos, m') \<and> (\<forall>a. unat sz \<le> unat (a - buf) \<longrightarrow> m' a = m a) \<and>
    (sz \<noteq> 0 \<longrightarrow> m' (buf + of_nat (min pos (vsn_max sz))) = 0)"
proof (cases "sz = 0")
  case True
  have max: "vsn_max 0 = 0" by (simp add: vsn_max_def)
  obtain r where "vsn_loop args buf 0 format 0 (0, m) = Some r" "outside buf 0 m (snd r)"
    using vsn_loop_ok [of 0 z buf "(0, m)" args format 0] assms by (auto simp: zero_at_def)
  then show ?thesis using True max by (cases r) (auto simp: vsnprintf_def Let_def outside_def)
next
  case False
  let ?n = "vsn_max sz"
  have n: "?n < unat sz" "?n < 4294967296" using vsn_max_less [OF False] unat_u32_less [of sz] by linarith+
  have "zero_at z buf ?n (snd (0 :: nat, m))" using assms n(1) by (simp add: zero_at_def)
  from vsn_loop_ok [OF n(2) this] obtain pos m1 where
    r: "vsn_loop args buf ?n format 0 (0, m) = Some (pos, m1)" "outside buf ?n m m1" by fastforce
  let ?m = "m1(buf + of_nat (min pos ?n) := 0)"
  have "0 < sz" using False by (simp add: word_gt_0)
  then have v: "vsnprintf buf sz format args m = Some (pos, ?m)"
    using r(1) by (auto simp: vsnprintf_def Let_def min_def)
  have "outside buf (unat sz) m m1" using r(2) n(1) by (simp add: outside_def)
  moreover have "outside buf (unat sz) m1 ?m" using n(1) unat_u32_less [of sz] by (intro outside_upd) auto
  ultimately have "outside buf (unat sz) m ?m" by (rule outside_trans)
  then show ?thesis using v by (auto simp: outside_def)
qed

text \<open>The format string \<open>"ab%5u"\<close> at address 100, the value 7, a buffer of 6 bytes.\<close>

definition demo_format :: mem where
  "demo_format = (\<lambda>_. 0)(100 := 97, 101 := 98, 102 := 37, 103 := 53, 104 := 117)"

theorem vsnprintf_witness:
  "demo_format 200 = 0 \<and> (\<exists>pos m'. vsnprintf 16 6 100 (\<lambda>_. 7) demo_format = Some (pos, m') \<and> m' 22 = 0 \<and> m' 102 = 37)"
proof -
  have z: "demo_format 200 = 0" "demo_format 22 = 0" "demo_format 102 = 37" by (simp_all add: demo_format_def)
  obtain pos m' where m': "vsnprintf 16 6 100 (\<lambda>_. 7) demo_format = Some (pos, m')"
    "\<And>a. unat (6 :: u32) \<le> unat (a - 16) \<Longrightarrow> m' a = demo_format a"
    using vsnprintf_safe [of demo_format 200 6 16 100 "\<lambda>_. 7"] z(1) by auto
  have "m' 22 = 0" "m' 102 = 37" using m'(2) [of 22] m'(2) [of 102] z by simp_all
  then show ?thesis using m'(1) z(1) by blast
qed

text \<open>
  \<open>%d\<close> prints every number that is not negative as 0: the value goes to \<open>format_number\<close> as the signed value only, and the digits come from
  the unsigned value, which is 0.
\<close>

theorem printf_d_prints_zero:
  assumes "is_str m fmt [37, 100]" and "\<And>i. i \<le> 2 \<Longrightarrow> unat sz \<le> unat (fmt + of_nat i - buf)"
    and "2 \<le> unat sz" and "unat sz < 2147483648" and "0 \<le> sint (args 0)"
  shows "\<exists>m'. snprintf buf sz fmt args m = Some (1, m') \<and> is_str m' buf [48]"
proof -
  have s0: "sint (sz - 1) = int (unat sz - 1)"
  proof -
    have "sz \<noteq> 0" using assms(3) by auto
    then have "unat (sz - 1) = unat sz - 1" by (rule unat_minus_one)
    then have "sz - 1 = of_nat (unat sz - 1)" using assms(3) by (simp add: word_unat_eq_iff unat_of_nat_u32 less_imp_diff_less del: unat_minus_one)
    then show ?thesis using assms(4) by (simp add: signed_of_nat signed_take_bit_int_eq_self)
  qed
  then have n: "vsn_max sz = unat sz - 1" by (simp add: vsn_max_def)
  have f: "m fmt = 37" "m (fmt + 1) = 100" "m (fmt + 2) = 0" using assms(1) by (simp_all add: add.commute)
  let ?m1 = "m(buf := 48)"
  have ne: "fmt + 2 \<noteq> buf" using assms(2) [of 2] assms(3) by auto
  have cv: "convert args buf (unat sz - 1) (fmt + 1) False 0 0 (0, m) = Some (1, 1, ?m1)"
    using f assms(3,5) by (simp add: convert_def format_number_def Let_def)
  have pw: "parse_width (fmt + 1) 0 m = Some (fmt + 1, 0)"
    using f by (subst parse_width.simps) (simp add: isdigit_def)
  have "vsn_loop args buf (unat sz - 1) (fmt + 2) 1 (1, ?m1) = Some (1, ?m1)"
    using f ne by (subst vsn_loop.simps) (simp add: Let_def)
  moreover have "?m1 (fmt + 1) \<noteq> 0" using f by simp
  ultimately have "vsn_loop args buf (unat sz - 1) fmt 0 (0, m) = Some (1, ?m1)"
    using f cv pw by (subst vsn_loop.simps) (simp add: Let_def add.commute [of 2 fmt] del: fun_upd_apply)
  moreover have "0 < sz" using assms(3) by (auto simp: word_gt_0)
  ultimately have "snprintf buf sz fmt args m = Some (1, ?m1(buf + of_nat (min 1 (unat sz - 1)) := 0))"
    using n by (auto simp: snprintf_def vsnprintf_def Let_def min_def simp del: of_nat_diff)
  moreover have "min 1 (unat sz - 1) = 1" using assms(3) by simp
  ultimately have "snprintf buf sz fmt args m = Some (1, ?m1(buf + of_nat 1 := 0))" by (simp only:)
  then show ?thesis by simp
qed

theorem printf_d_witness:
  "\<exists>m'. snprintf 16 16 100 (\<lambda>_. 42) ((\<lambda>_. 0)(100 := 37, 101 := 100)) = Some (1, m') \<and> is_str m' 16 [48]"
proof (rule printf_d_prints_zero)
  show "unat (16 :: u32) \<le> unat (100 + of_nat i - 16 :: u32)" if "i \<le> 2" for i
  proof -
    consider "i = 0" | "i = 1" | "i = 2" using \<open>i \<le> 2\<close> by linarith
    then show ?thesis by cases simp_all
  qed
qed simp_all

end
