(* ===== verification/Cpu.thy ===== *)
theory Cpu
  imports Prelude
begin

text \<open>
  Processor detection, \<^verbatim>\<open>src/kernel/arch/cpu.c\<close> with the flags of \<^verbatim>\<open>cpu.h\<close>.  The CPUID instruction is the hardware's: a
  function \<open>cpuid\<close> of the control register CR4 (bit 27 of ECX of leaf 1 mirrors CR4.OSXSAVE) and of the leaf, with
  the registers EAX, EBX, ECX, EDX as its result.  The FPU reset and the screen output are left out.
\<close>

type_synonym cpuid_fn = "u32 \<Rightarrow> u32 \<Rightarrow> u32 \<times> u32 \<times> u32 \<times> u32"

definition CPU_FEATURE_FPU :: u32 where "CPU_FEATURE_FPU = push_bit 0 1"
definition CPU_FEATURE_PSE :: u32 where "CPU_FEATURE_PSE = push_bit 3 1"
definition CPU_FEATURE_TSC :: u32 where "CPU_FEATURE_TSC = push_bit 4 1"
definition CPU_FEATURE_CMOV :: u32 where "CPU_FEATURE_CMOV = push_bit 15 1"
definition CPU_FEATURE_MMX :: u32 where "CPU_FEATURE_MMX = push_bit 23 1"
definition CPU_FEATURE_SSE :: u32 where "CPU_FEATURE_SSE = push_bit 25 1"
definition CPU_FEATURE_SSE2 :: u32 where "CPU_FEATURE_SSE2 = push_bit 26 1"
definition CPU_FEATURE_SSE3 :: u32 where "CPU_FEATURE_SSE3 = push_bit 0 1"
definition CPU_FEATURE_SSSE3 :: u32 where "CPU_FEATURE_SSSE3 = push_bit 9 1"
definition CPU_FEATURE_SSE41 :: u32 where "CPU_FEATURE_SSE41 = push_bit 19 1"
definition CPU_FEATURE_SSE42 :: u32 where "CPU_FEATURE_SSE42 = push_bit 20 1"
definition CPU_FEATURE_POPCNT :: u32 where "CPU_FEATURE_POPCNT = push_bit 23 1"
definition CPU_FEATURE_AVX :: u32 where "CPU_FEATURE_AVX = push_bit 28 1"
definition CPU_FEATURE_F16C :: u32 where "CPU_FEATURE_F16C = push_bit 29 1"
definition CPU_FEATURE_FMA :: u32 where "CPU_FEATURE_FMA = push_bit 12 1"
definition CPU_FEATURE_BMI1 :: u32 where "CPU_FEATURE_BMI1 = push_bit 3 1"
definition CPU_FEATURE_AVX2 :: u32 where "CPU_FEATURE_AVX2 = push_bit 5 1"
definition CPU_FEATURE_BMI2 :: u32 where "CPU_FEATURE_BMI2 = push_bit 8 1"
definition CPU_FEATURE_ERMSB :: u32 where "CPU_FEATURE_ERMSB = push_bit 9 1"
definition CPU_FEATURE_3DNOW :: u32 where "CPU_FEATURE_3DNOW = push_bit 31 1"
definition CPU_FEATURE_3DNOWP :: u32 where "CPU_FEATURE_3DNOWP = push_bit 30 1"
definition CPU_FEATURE_SSE4A :: u32 where "CPU_FEATURE_SSE4A = push_bit 6 1"
definition CPU_FEATURE_ABM :: u32 where "CPU_FEATURE_ABM = push_bit 5 1"

definition CR4_OSFXSR :: u32 where "CR4_OSFXSR = push_bit 9 1"
definition CR4_OSXMMEXCPT :: u32 where "CR4_OSXMMEXCPT = push_bit 10 1"
definition CR4_OSXSAVE :: u32 where "CR4_OSXSAVE = push_bit 18 1"

definition CPU_GROUP_AVX :: u32 where
  "CPU_GROUP_AVX = CPU_FEATURE_SSE OR CPU_FEATURE_SSE2 OR CPU_FEATURE_SSE3 OR CPU_FEATURE_SSSE3 OR CPU_FEATURE_SSE41
     OR CPU_FEATURE_SSE42 OR CPU_FEATURE_AVX"

lemmas feature_defs =
  CPU_FEATURE_FPU_def CPU_FEATURE_PSE_def CPU_FEATURE_TSC_def CPU_FEATURE_CMOV_def CPU_FEATURE_MMX_def
  CPU_FEATURE_SSE_def CPU_FEATURE_SSE2_def CPU_FEATURE_SSE3_def CPU_FEATURE_SSSE3_def CPU_FEATURE_SSE41_def
  CPU_FEATURE_SSE42_def CPU_FEATURE_POPCNT_def CPU_FEATURE_AVX_def CPU_FEATURE_F16C_def CPU_FEATURE_FMA_def
  CPU_FEATURE_BMI1_def CPU_FEATURE_AVX2_def CPU_FEATURE_BMI2_def CPU_FEATURE_ERMSB_def CPU_FEATURE_3DNOW_def
  CPU_FEATURE_3DNOWP_def CPU_FEATURE_SSE4A_def CPU_FEATURE_ABM_def

section \<open>State and operations\<close>

text \<open>The static variables of \<open>cpu.c\<close>, and the control registers CR4 and XCR0 (low half) it sets.\<close>

record cpuinfo =
  features_edx :: u32
  features_ecx :: u32
  features_leaf7_ebx :: u32
  features_ext_edx :: u32
  features_ext_ecx :: u32
  max_leaf :: u32
  max_ext_leaf :: u32
  c_cr4 :: u32
  c_xcr0 :: u32

definition bytes32 :: "u32 \<Rightarrow> u8 list" where
  "bytes32 w = [ucast w, ucast (drop_bit 8 w), ucast (drop_bit 16 w), ucast (drop_bit 24 w)]"

definition cpu_get_vendor :: "cpuid_fn \<Rightarrow> cpuinfo \<Rightarrow> u8 list \<times> cpuinfo" where
  "cpu_get_vendor cpuid s =
     (let (eax, ebx, ecx, edx) = cpuid (c_cr4 s) 0
      in (bytes32 ebx @ bytes32 edx @ bytes32 ecx @ [0], s\<lparr>max_leaf := eax\<rparr>))"

definition cpu_get_brand :: "cpuid_fn \<Rightarrow> cpuinfo \<Rightarrow> u8 list \<times> cpuinfo" where
  "cpu_get_brand cpuid s =
     (let (eax, _, _, _) = cpuid (c_cr4 s) 0x80000000;
          s = s\<lparr>max_ext_leaf := eax\<rparr>
      in if max_ext_leaf s < 0x80000004 then ([0], s)
         else (concat (map (\<lambda>i. let (eax, ebx, ecx, edx) = cpuid (c_cr4 s) (0x80000002 + of_nat i)
                                in bytes32 eax @ bytes32 ebx @ bytes32 ecx @ bytes32 edx) [0..<3]) @ [0], s))"

definition cpu_has_feature :: "u32 \<Rightarrow> cpuinfo \<Rightarrow> bool" where
  "cpu_has_feature feature s =
     (if feature \<in> {CPU_FEATURE_FPU, CPU_FEATURE_TSC, CPU_FEATURE_CMOV, CPU_FEATURE_MMX, CPU_FEATURE_SSE, CPU_FEATURE_SSE2}
      then features_edx s AND feature \<noteq> 0
      else if feature \<in> {CPU_FEATURE_SSE3, CPU_FEATURE_SSSE3, CPU_FEATURE_SSE41, CPU_FEATURE_SSE42,
                       CPU_FEATURE_POPCNT, CPU_FEATURE_AVX, CPU_FEATURE_F16C, CPU_FEATURE_FMA}
      then features_ecx s AND feature \<noteq> 0
      else if feature \<in> {CPU_FEATURE_BMI1, CPU_FEATURE_AVX2, CPU_FEATURE_BMI2, CPU_FEATURE_ERMSB}
      then features_leaf7_ebx s AND feature \<noteq> 0
      else if feature \<in> {CPU_FEATURE_3DNOW, CPU_FEATURE_3DNOWP}
      then features_ext_edx s AND feature \<noteq> 0
      else if feature \<in> {CPU_FEATURE_SSE4A, CPU_FEATURE_ABM}
      then features_ext_ecx s AND feature \<noteq> 0
      else False)"

definition cpu_has_group :: "u32 \<Rightarrow> cpuinfo \<Rightarrow> bool" where
  "cpu_has_group grp s =
     (let edx_mask = grp AND (CPU_FEATURE_FPU OR CPU_FEATURE_TSC OR CPU_FEATURE_CMOV OR CPU_FEATURE_MMX OR
                                CPU_FEATURE_SSE OR CPU_FEATURE_SSE2);
          ecx_mask = grp AND (CPU_FEATURE_SSE3 OR CPU_FEATURE_SSSE3 OR CPU_FEATURE_SSE41 OR CPU_FEATURE_SSE42 OR
                                CPU_FEATURE_POPCNT OR CPU_FEATURE_AVX OR CPU_FEATURE_F16C OR CPU_FEATURE_FMA);
          ebx_mask = grp AND (CPU_FEATURE_BMI1 OR CPU_FEATURE_AVX2 OR CPU_FEATURE_BMI2 OR CPU_FEATURE_ERMSB)
      in if edx_mask \<noteq> 0 \<and> features_edx s AND edx_mask \<noteq> edx_mask then False
         else if ecx_mask \<noteq> 0 \<and> features_ecx s AND ecx_mask \<noteq> ecx_mask then False
         else if ebx_mask \<noteq> 0 \<and> features_leaf7_ebx s AND ebx_mask \<noteq> ebx_mask then False
         else True)"

definition cpu_get_features_edx :: "cpuinfo \<Rightarrow> u32" where "cpu_get_features_edx s = features_edx s"
definition cpu_get_features_ecx :: "cpuinfo \<Rightarrow> u32" where "cpu_get_features_ecx s = features_ecx s"

definition cpu_rdtsc :: "u32 \<Rightarrow> u32 \<Rightarrow> 64 word" where
  "cpu_rdtsc lo hi = push_bit 32 (ucast hi) OR ucast lo"

definition sse_enable :: "cpuinfo \<Rightarrow> cpuinfo" where
  "sse_enable s = s\<lparr>c_cr4 := c_cr4 s OR CR4_OSFXSR OR CR4_OSXMMEXCPT\<rparr>"

definition avx_enable :: "cpuinfo \<Rightarrow> cpuinfo" where
  "avx_enable s = s\<lparr>c_cr4 := c_cr4 s OR CR4_OSXSAVE, c_xcr0 := c_xcr0 s OR 0x07\<rparr>"

text \<open>\<open>cpu_init\<close> up to the screen output, in the order of the code.\<close>

definition read_features :: "cpuid_fn \<Rightarrow> cpuinfo \<Rightarrow> cpuinfo" where
  "read_features cpuid s =
     (let s = snd (cpu_get_vendor cpuid s);
          s = (if max_leaf s \<ge> 1
               then let (eax, ebx, ecx, edx) = cpuid (c_cr4 s) 1 in s\<lparr>features_edx := edx, features_ecx := ecx\<rparr>
               else s);
          s = (if max_leaf s \<ge> 7
               then let (eax, ebx, ecx, edx) = cpuid (c_cr4 s) 7 in s\<lparr>features_leaf7_ebx := ebx\<rparr>
               else s)
      in if max_ext_leaf s \<ge> 0x80000001
         then let (eax, ebx, ecx, edx) = cpuid (c_cr4 s) 0x80000001 in s\<lparr>features_ext_edx := edx, features_ext_ecx := ecx\<rparr>
         else s)"

definition cpu_init :: "cpuid_fn \<Rightarrow> cpuinfo \<Rightarrow> cpuinfo" where
  "cpu_init cpuid s =
     (let s = read_features cpuid s;
          s = (if features_edx s AND CPU_FEATURE_SSE \<noteq> 0 then sse_enable s else s);
          s = (if features_ecx s AND CPU_FEATURE_AVX \<noteq> 0 \<and> features_ecx s AND push_bit 27 1 \<noteq> 0
               then if c_cr4 s AND CR4_OSXSAVE \<noteq> 0 then avx_enable s else s
               else s)
      in snd (cpu_get_brand cpuid s))"

text \<open>VEX encoded instructions need CR4.OSXSAVE and the SSE and AVX bits of XCR0; otherwise they raise an invalid opcode exception.\<close>

definition avx_on :: "cpuinfo \<Rightarrow> bool" where
  "avx_on s \<longleftrightarrow> bit (c_cr4 s) 18 \<and> bit (c_xcr0 s) 1 \<and> bit (c_xcr0 s) 2"

section \<open>What the queries answer\<close>

lemma and_push: "n < 32 \<Longrightarrow> (w AND push_bit n 1 \<noteq> 0) = bit (w :: u32) n"
  using and_bit_eq_0 [of n w] by simp

lemma and_pow: "(w AND 1 \<noteq> 0) = bit (w :: u32) 0"
  using and_push [of 0 w] by simp

text \<open>
  \<open>cpu_has_feature\<close> knows a feature by its bit mask alone, and features of different CPUID registers share masks.  It answers the question for page size
  extensions with the BMI1 bit of leaf 7, for SSE3 with the FPU bit, for POPCNT with the MMX bit, for ERMSB with the SSSE3 bit, and for
  LZCNT with the AVX2 bit; the features that have a mask of their own are answered from their register.
\<close>

theorem cpu_has_feature_spec:
  "cpu_has_feature CPU_FEATURE_PSE s = bit (features_leaf7_ebx s) 3 \<and>
   cpu_has_feature CPU_FEATURE_SSE3 s = bit (features_edx s) 0 \<and>
   cpu_has_feature CPU_FEATURE_POPCNT s = bit (features_edx s) 23 \<and>
   cpu_has_feature CPU_FEATURE_ERMSB s = bit (features_ecx s) 9 \<and>
   cpu_has_feature CPU_FEATURE_ABM s = bit (features_leaf7_ebx s) 5 \<and>
   cpu_has_feature CPU_FEATURE_SSE s = bit (features_edx s) 25 \<and>
   cpu_has_feature CPU_FEATURE_SSE2 s = bit (features_edx s) 26 \<and>
   cpu_has_feature CPU_FEATURE_MMX s = bit (features_edx s) 23 \<and>
   cpu_has_feature CPU_FEATURE_AVX s = bit (features_ecx s) 28"
  using and_push [of 3 "features_leaf7_ebx s"] and_push [of 0 "features_edx s"] and_push [of 23 "features_edx s"]
    and_push [of 9 "features_ecx s"] and_push [of 5 "features_leaf7_ebx s"] and_push [of 25 "features_edx s"]
    and_push [of 26 "features_edx s"] and_push [of 28 "features_ecx s"]
  by (simp add: cpu_has_feature_def feature_defs)

lemma group_avx_masks:
  "CPU_GROUP_AVX AND (CPU_FEATURE_FPU OR CPU_FEATURE_TSC OR CPU_FEATURE_CMOV OR CPU_FEATURE_MMX OR CPU_FEATURE_SSE OR CPU_FEATURE_SSE2) = 0x6000001"
  "CPU_GROUP_AVX AND (CPU_FEATURE_SSE3 OR CPU_FEATURE_SSSE3 OR CPU_FEATURE_SSE41 OR CPU_FEATURE_SSE42 OR CPU_FEATURE_POPCNT OR CPU_FEATURE_AVX OR
     CPU_FEATURE_F16C OR CPU_FEATURE_FMA) = 0x10180201"
  "CPU_GROUP_AVX AND (CPU_FEATURE_BMI1 OR CPU_FEATURE_AVX2 OR CPU_FEATURE_BMI2 OR CPU_FEATURE_ERMSB) = 0x200"
  by (simp_all add: CPU_GROUP_AVX_def feature_defs)

lemma has_group_avx:
  "cpu_has_group CPU_GROUP_AVX s \<longleftrightarrow>
     features_edx s AND 0x6000001 = 0x6000001 \<and> features_ecx s AND 0x10180201 = 0x10180201 \<and> features_leaf7_ebx s AND 0x200 = 0x200"
  unfolding cpu_has_group_def group_avx_masks by (auto simp: Let_def)

section \<open>What initialisation leaves behind\<close>

lemma vendor_frame [simp]:
  "c_cr4 (snd (cpu_get_vendor cpuid s)) = c_cr4 s" "c_xcr0 (snd (cpu_get_vendor cpuid s)) = c_xcr0 s"
  "max_ext_leaf (snd (cpu_get_vendor cpuid s)) = max_ext_leaf s" "features_ecx (snd (cpu_get_vendor cpuid s)) = features_ecx s"
  "features_ext_edx (snd (cpu_get_vendor cpuid s)) = features_ext_edx s" "features_ext_ecx (snd (cpu_get_vendor cpuid s)) = features_ext_ecx s"
  by (simp_all add: cpu_get_vendor_def split: prod.split)

lemma brand_frame [simp]:
  "c_cr4 (snd (cpu_get_brand cpuid s)) = c_cr4 s" "c_xcr0 (snd (cpu_get_brand cpuid s)) = c_xcr0 s"
  "features_edx (snd (cpu_get_brand cpuid s)) = features_edx s" "features_ecx (snd (cpu_get_brand cpuid s)) = features_ecx s"
  "features_leaf7_ebx (snd (cpu_get_brand cpuid s)) = features_leaf7_ebx s"
  "features_ext_edx (snd (cpu_get_brand cpuid s)) = features_ext_edx s" "features_ext_ecx (snd (cpu_get_brand cpuid s)) = features_ext_ecx s"
  by (simp_all add: cpu_get_brand_def Let_def split: prod.split)

lemma read_features_frame [simp]:
  "c_cr4 (read_features cpuid s) = c_cr4 s" "c_xcr0 (read_features cpuid s) = c_xcr0 s"
  by (simp_all add: read_features_def Let_def split: prod.split)

lemma read_features_ext:
  "max_ext_leaf s < 0x80000001 \<Longrightarrow>
   features_ext_edx (read_features cpuid s) = features_ext_edx s \<and> features_ext_ecx (read_features cpuid s) = features_ext_ecx s"
  by (auto simp: read_features_def Let_def not_le split: prod.split)

lemma cr4_bit_18: "bit (w OR CR4_OSFXSR OR CR4_OSXMMEXCPT) 18 = bit w 18"
  by (simp add: CR4_OSFXSR_def CR4_OSXMMEXCPT_def bit_simps)

text \<open>
  \<open>cpu_init\<close> enables AVX only where CR4.OSXSAVE is set already: it never turns AVX on by itself.
\<close>

lemma cpu_init_avx:
  assumes "\<not> bit (c_cr4 s) 18"
  shows "\<not> avx_on (cpu_init cpuid s)"
proof -
  have "c_cr4 (read_features cpuid s) AND CR4_OSXSAVE = 0" "(c_cr4 s OR CR4_OSFXSR OR CR4_OSXMMEXCPT) AND CR4_OSXSAVE = 0"
    using assms cr4_bit_18 [of "c_cr4 s"] and_bit_eq_0 [of 18 "c_cr4 s"] and_bit_eq_0 [of 18 "c_cr4 s OR CR4_OSFXSR OR CR4_OSXMMEXCPT"]
    by (simp_all add: CR4_OSXSAVE_def del: push_bit_of_1)
  then show ?thesis using assms cr4_bit_18 [of "c_cr4 s"] by (auto simp: cpu_init_def Let_def avx_on_def sse_enable_def)
qed

lemma cpu_init_features:
  "features_edx (cpu_init cpuid s) = features_edx (read_features cpuid s)"
  "features_ecx (cpu_init cpuid s) = features_ecx (read_features cpuid s)"
  "features_leaf7_ebx (cpu_init cpuid s) = features_leaf7_ebx (read_features cpuid s)"
  "features_ext_edx (cpu_init cpuid s) = features_ext_edx (read_features cpuid s)"
  "features_ext_ecx (cpu_init cpuid s) = features_ext_ecx (read_features cpuid s)"
  by (simp_all add: cpu_init_def Let_def sse_enable_def avx_enable_def)

text \<open>
  The extended leaf number is read by \<open>cpu_get_brand\<close>, after the place where it decides about the extended features: they are
  never read on the first call, whatever the processor offers.
\<close>

lemma cpu_init_no_ext:
  assumes "max_ext_leaf s = 0" "features_ext_edx s = 0" "features_ext_ecx s = 0"
  shows "features_ext_edx (cpu_init cpuid s) = 0 \<and> features_ext_ecx (cpu_init cpuid s) = 0 \<and>
    \<not> cpu_has_feature CPU_FEATURE_3DNOW (cpu_init cpuid s)"
proof -
  have "features_ext_edx (read_features cpuid s) = 0 \<and> features_ext_ecx (read_features cpuid s) = 0"
    using read_features_ext [of s cpuid] assms by simp
  then show ?thesis by (simp add: cpu_init_features cpu_has_feature_def feature_defs)
qed

end
