(* ===== verification/Loader.thy ===== *)
theory Loader
  imports Prelude Paging_Spec Scheduler Fat32_Load Cpu
begin

unbundle bit_operations_syntax

text \<open>
  The program loader \<^verbatim>\<open>src/kernel/loader.c\<close> with the file formats of \<^verbatim>\<open>com.h\<close> and \<^verbatim>\<open>comx.h\<close>.  Memory is one function from 32 bit
  addresses to bytes; \<open>file_buf\<close> is the address of the static buffer in it, so that a file larger than the buffer, or a program that is loaded over it, has
  the effect it has in the machine.  The headers are read from memory at every use, as the compiled code has to: the stores through \<open>uint8_t *\<close> may alias them.
\<close>

section \<open>Formats\<close>

type_synonym memory = "u32 \<Rightarrow> u8"

definition COM_LOAD_ADDR :: u32 where "COM_LOAD_ADDR = 0x50100"
definition COM_MAX_SIZE :: u32 where "COM_MAX_SIZE = 65280"
definition MZ_PAGE_SIZE :: u32 where "MZ_PAGE_SIZE = 512"
definition MZ_PARA_SIZE :: u32 where "MZ_PARA_SIZE = 16"
definition MZ_HEADER_MIN :: u32 where "MZ_HEADER_MIN = 28"
definition EXE_LOAD_SEG :: u32 where "EXE_LOAD_SEG = 0x5000"
definition COMX_MAGIC :: u32 where "COMX_MAGIC = 0x43505800"
definition COMX_VERSION :: u8 where "COMX_VERSION = 1"
definition COMX_FLAG_SSE :: u8 where "COMX_FLAG_SSE = 1"
definition COMX_FLAG_SSE2 :: u8 where "COMX_FLAG_SSE2 = 2"
definition COMX_FLAG_MMX :: u8 where "COMX_FLAG_MMX = 4"
definition COMX_MAX_SIZE :: u32 where "COMX_MAX_SIZE = 32 * 1024"
definition COMX_HEADER_SIZE :: u32 where "COMX_HEADER_SIZE = 32"

lemmas loader_consts = COM_LOAD_ADDR_def COM_MAX_SIZE_def MZ_PAGE_SIZE_def MZ_PARA_SIZE_def MZ_HEADER_MIN_def EXE_LOAD_SEG_def
  COMX_MAGIC_def COMX_VERSION_def COMX_FLAG_SSE_def COMX_FLAG_SSE2_def COMX_FLAG_MMX_def COMX_MAX_SIZE_def COMX_HEADER_SIZE_def

text \<open>The bytes from the address \<open>p\<close> on.\<close>

definition bytes_at :: "memory \<Rightarrow> u32 \<Rightarrow> buf" where "bytes_at m p = (\<lambda>i. m (p + of_nat i))"

record comx_header =
  h_magic :: u32
  h_version :: u8
  h_flags :: u8
  h_entry_offset :: u32
  h_code_size :: u32
  h_bss_size :: u32
  h_load_addr :: u32
  h_checksum :: u32

definition comx_header_at :: "memory \<Rightarrow> u32 \<Rightarrow> comx_header" where
  "comx_header_at m p = (let b = bytes_at m p in
     \<lparr>h_magic = rd32 b 0, h_version = b 4, h_flags = b 5, h_entry_offset = rd32 b 8, h_code_size = rd32 b 12,
      h_bss_size = rd32 b 16, h_load_addr = rd32 b 20, h_checksum = rd32 b 24\<rparr>)"

definition comx_check_magic :: "comx_header \<Rightarrow> bool" where "comx_check_magic h \<longleftrightarrow> h_magic h = COMX_MAGIC"
definition comx_check_version :: "comx_header \<Rightarrow> bool" where "comx_check_version h \<longleftrightarrow> h_version h = COMX_VERSION"

record mz_header =
  mz_last_page :: u16
  mz_pages :: u16
  mz_relocs :: u16
  mz_header_para :: u16
  mz_init_ip :: u16
  mz_init_cs :: u16
  mz_reloc_offset :: u16

definition mz_header_at :: "memory \<Rightarrow> u32 \<Rightarrow> mz_header" where
  "mz_header_at m p = (let b = bytes_at m p in
     \<lparr>mz_last_page = rd16 b 2, mz_pages = rd16 b 4, mz_relocs = rd16 b 6, mz_header_para = rd16 b 8,
      mz_init_ip = rd16 b 0x14, mz_init_cs = rd16 b 0x16, mz_reloc_offset = rd16 b 0x18\<rparr>)"

definition mz_check :: "memory \<Rightarrow> u32 \<Rightarrow> bool" where "mz_check m p \<longleftrightarrow> m p = 0x4D \<and> m (p + 1) = 0x5A"

text \<open>\<open>hdr->pages - 1\<close> is an \<open>int\<close>, which is then converted to 32 bits.\<close>

definition mz_get_size :: "mz_header \<Rightarrow> u32" where
  "mz_get_size h =
     (let sz = (ucast (mz_pages h) - 1) * MZ_PAGE_SIZE + ucast (mz_last_page h);
          header_bytes = ucast (mz_header_para h) * MZ_PARA_SIZE
      in if sz < header_bytes then 0 else sz - header_bytes)"

section \<open>Files\<close>

text \<open>\<open>loader_checksum\<close>, one byte and the loop over the bytes at \<open>p\<close>.\<close>

definition checksum_step :: "u32 \<Rightarrow> u8 \<Rightarrow> u32" where
  "checksum_step acc b = push_bit 3 acc XOR drop_bit 29 acc XOR ucast b"

definition loader_checksum :: "memory \<Rightarrow> u32 \<Rightarrow> u32 \<Rightarrow> u32" where
  "loader_checksum m p sz = fold (\<lambda>i acc. checksum_step acc (m (p + of_nat i))) [0..<unat sz] 0"

text \<open>
  The volume, the processor and the scheduler the loader works with, and memory.  What does not change is in \<open>loader_env\<close>: the number of clusters a chain may have
  (\<open>l_fuel\<close>), the sector function, the address of \<open>file_buf\<close>, and the flags and other registers at the time of the call.
\<close>

record 'd loader_env =
  l_fuel :: nat
  l_read :: "'d read_fn"
  file_buf :: u32
  l_eflags :: u32
  l_cpu :: cpu
  l_features :: cpuinfo

record 'd loader =
  l_vol :: "'d fat32"
  l_ram :: memory
  l_sched :: sched

text \<open>\<open>try_load\<close>: the name that is looked up, and the load of the file into \<open>file_buf\<close>; names are without the final zero.\<close>

definition try_name :: "u8 list \<Rightarrow> u8 list \<Rightarrow> u8 list" where
  "try_name name ext =
     (let fname = take 40 name in
      if list_ex (\<lambda>c. c = 0x2E) fname then fname
      else let fname = fname @ [0x2E] in fname @ take (44 - length fname) ext)"

definition try_load :: "'d loader_env \<Rightarrow> u8 list \<Rightarrow> u8 list \<Rightarrow> 'd loader \<Rightarrow> (u32 \<times> 'd loader) option" where
  "try_load env name ext s =
     (case fat32_find_file (l_fuel env) (l_read env) (try_name name ext) (l_vol s) of
        None \<Rightarrow> None
      | Some (None, v) \<Rightarrow> Some (0, s\<lparr>l_vol := v\<rparr>)
      | Some (Some e, v) \<Rightarrow>
          map_option (\<lambda>(n, m, v). (n, s\<lparr>l_vol := v, l_ram := m\<rparr>))
            (fat32_load_file (l_fuel env) (l_read env) e (file_buf env) v (l_ram s)))"

section \<open>Loading\<close>

datatype load_error =
    Invalid_COM_size | COM_outside | Invalid_MZ_header | Corrupt_EXE | EXE_outside
  | Unsupported_version | Invalid_code_size | Truncated | Requires_SSE | Requires_SSE2 | Requires_MMX
  | Checksum_mismatch | Load_outside | File_not_found

text \<open>
  A loader either prints a message and returns \<open>false\<close> (\<open>Inl\<close>) or gives control away (\<open>Inr\<close>): \<open>loader_enter_ring3\<close> ends with \<open>iret\<close> and does not return.
\<close>

type_synonym 'd load_result = "(load_error + outcome) \<times> 'd loader"

definition enter :: "'d loader_env \<Rightarrow> u32 \<Rightarrow> 'd loader \<Rightarrow> 'd load_result" where
  "enter env eip s = (let (out, c) = loader_enter_ring3 eip USER_STACK_TOP (l_eflags env) (l_cpu env) (l_sched s)
     in (Inr out, s\<lparr>l_sched := c\<rparr>))"

text \<open>\<open>for (i = 0; i < n; i++) dst[i] = src[i]\<close>\<close>

definition copy_bytes :: "u32 \<Rightarrow> u32 \<Rightarrow> u32 \<Rightarrow> memory \<Rightarrow> memory" where
  "copy_bytes dst src n m = for_range 0 (unat n) (\<lambda>i m. m(dst + of_nat i := m (src + of_nat i))) m"

definition loader_run_com :: "'d loader_env \<Rightarrow> u32 \<Rightarrow> u32 \<Rightarrow> 'd loader \<Rightarrow> 'd load_result" where
  "loader_run_com env data sz s =
     (if sz = 0 \<or> sz > COM_MAX_SIZE then (Inl Invalid_COM_size, s)
      else if \<not> user_ptr_valid COM_LOAD_ADDR sz then (Inl COM_outside, s)
      else enter env COM_LOAD_ADDR (s\<lparr>l_ram := copy_bytes COM_LOAD_ADDR data sz (l_ram s)\<rparr>))"

text \<open>The relocation loop from entry \<open>i\<close> on; the number of entries and the entry are read in every round.\<close>

definition fixup_addr :: "u32 \<Rightarrow> u32 \<Rightarrow> u32 \<Rightarrow> memory \<Rightarrow> u32" where
  "fixup_addr load_addr reloc i m =
     load_addr + ucast (rd16 (bytes_at m (reloc + 4 * i)) 2) * MZ_PARA_SIZE + ucast (rd16 (bytes_at m (reloc + 4 * i)) 0)"

definition add_seg :: "u32 \<Rightarrow> memory \<Rightarrow> memory" where
  "add_seg a m = (let v = rd16 (bytes_at m a) 0 + ucast EXE_LOAD_SEG in m(a := ucast v, a + 1 := ucast (drop_bit 8 v)))"

function fix_relocs :: "u32 \<Rightarrow> u32 \<Rightarrow> u32 \<Rightarrow> u32 \<Rightarrow> u32 \<Rightarrow> memory \<Rightarrow> memory" where
  "fix_relocs data load_addr code_size reloc i m =
     (if i < ucast (mz_relocs (mz_header_at m data))
      then let a = fixup_addr load_addr reloc i m
           in fix_relocs data load_addr code_size reloc (i + 1) (if a < load_addr + code_size - 1 then add_seg a m else m)
      else m)"
  by pat_completeness auto

lemma step_measure: "i < n \<Longrightarrow> 4294967296 - unat (i + 1) < 4294967296 - unat (i :: u32)" for n :: u32
proof -
  assume "i < n"
  then have "Suc (unat i) < 4294967296" using unat_u32_less [of n] unfolding word_less_nat_alt by linarith
  then show ?thesis by (simp add: unat_word_ariths)
qed

termination fix_relocs
  by (relation "measure (\<lambda>(d, l, c, r, i, m). 4294967296 - unat i)") (auto simp: step_measure)

definition loader_run_exe :: "'d loader_env \<Rightarrow> u32 \<Rightarrow> u32 \<Rightarrow> 'd loader \<Rightarrow> 'd load_result" where
  "loader_run_exe env data sz s =
     (if sz < MZ_HEADER_MIN \<or> \<not> mz_check (l_ram s) data then (Inl Invalid_MZ_header, s)
      else let hdr = (\<lambda>m. mz_header_at m data);
               code_size = mz_get_size (hdr (l_ram s));
               header_bytes = ucast (mz_header_para (hdr (l_ram s))) * MZ_PARA_SIZE in
      if code_size = 0 \<or> header_bytes + code_size > sz then (Inl Corrupt_EXE, s)
      else let load_addr = EXE_LOAD_SEG * MZ_PARA_SIZE in
      if \<not> user_ptr_valid load_addr (code_size + 4096) then (Inl EXE_outside, s)
      else let m = copy_bytes load_addr (data + header_bytes) code_size (l_ram s);
               m = (if mz_relocs (hdr m) > 0 \<and> (ucast (mz_reloc_offset (hdr m)) + ucast (mz_relocs (hdr m)) * 4 :: u32) \<le> sz
                    then fix_relocs data load_addr code_size (data + ucast (mz_reloc_offset (hdr m))) 0 m else m);
               entry_addr = load_addr + ucast (mz_init_cs (hdr m)) * MZ_PARA_SIZE + ucast (mz_init_ip (hdr m))
           in enter env entry_addr (s\<lparr>l_ram := m\<rparr>))"

text \<open>The two loops of the \<^verbatim>\<open>.comx\<close> loader from byte \<open>i\<close> on: code, then zeros.\<close>

function copy_code :: "u32 \<Rightarrow> u32 \<Rightarrow> u32 \<Rightarrow> memory \<Rightarrow> memory" where
  "copy_code data lp i m =
     (if i < h_code_size (comx_header_at m data)
      then copy_code data lp (i + 1) (m(lp + i := m (data + COMX_HEADER_SIZE + i))) else m)"
  by pat_completeness auto

termination copy_code
  by (relation "measure (\<lambda>(d, l, i, m). 4294967296 - unat i)") (auto simp: step_measure)

function clear_bss :: "u32 \<Rightarrow> u32 \<Rightarrow> u32 \<Rightarrow> memory \<Rightarrow> memory" where
  "clear_bss data lp i m =
     (if i < h_bss_size (comx_header_at m data)
      then clear_bss data lp (i + 1) (m(lp + h_code_size (comx_header_at m data) + i := 0)) else m)"
  by pat_completeness auto

termination clear_bss
  by (relation "measure (\<lambda>(d, l, i, m). 4294967296 - unat i)") (auto simp: step_measure)

definition loader_run_comx :: "'d loader_env \<Rightarrow> u32 \<Rightarrow> 'd loader \<Rightarrow> 'd load_result" where
  "loader_run_comx env file_size s =
     (let data = file_buf env; h = comx_header_at (l_ram s) data in
      if \<not> comx_check_version h then (Inl Unsupported_version, s)
      else if h_code_size h = 0 \<or> h_code_size h > COMX_MAX_SIZE then (Inl Invalid_code_size, s)
      else if COMX_HEADER_SIZE + h_code_size h > file_size then (Inl Truncated, s)
      else if h_flags h AND COMX_FLAG_SSE \<noteq> 0 \<and> \<not> cpu_has_feature CPU_FEATURE_SSE (l_features env) then (Inl Requires_SSE, s)
      else if h_flags h AND COMX_FLAG_SSE2 \<noteq> 0 \<and> \<not> cpu_has_feature CPU_FEATURE_SSE2 (l_features env) then (Inl Requires_SSE2, s)
      else if h_flags h AND COMX_FLAG_MMX \<noteq> 0 \<and> \<not> cpu_has_feature CPU_FEATURE_MMX (l_features env) then (Inl Requires_MMX, s)
      else if loader_checksum (l_ram s) (data + COMX_HEADER_SIZE) (h_code_size h) \<noteq> h_checksum h then (Inl Checksum_mismatch, s)
      else if \<not> user_ptr_valid (h_load_addr h) (h_code_size h + h_bss_size h) then (Inl Load_outside, s)
      else let m = clear_bss data (h_load_addr h) 0 (copy_code data (h_load_addr h) 0 (l_ram s));
               h = comx_header_at m data
           in enter env (h_load_addr h + h_entry_offset h) (s\<lparr>l_ram := m\<rparr>))"

definition EXT_COMX :: "u8 list" where "EXT_COMX = [0x43, 0x4F, 0x4D, 0x58]"
definition EXT_EXE :: "u8 list" where "EXT_EXE = [0x45, 0x58, 0x45]"
definition EXT_COM :: "u8 list" where "EXT_COM = [0x43, 0x4F, 0x4D]"

definition loader_run :: "'d loader_env \<Rightarrow> u8 list \<Rightarrow> 'd loader \<Rightarrow> 'd load_result option" where
  "loader_run env filename s =
     Option.bind (try_load env filename EXT_COMX s) (\<lambda>(file_size, s).
     if file_size \<ge> COMX_HEADER_SIZE \<and> comx_check_magic (comx_header_at (l_ram s) (file_buf env))
     then Some (loader_run_comx env file_size s)
     else Option.bind (try_load env filename EXT_EXE s) (\<lambda>(file_size, s).
     if file_size \<ge> MZ_HEADER_MIN \<and> mz_check (l_ram s) (file_buf env)
     then Some (loader_run_exe env (file_buf env) file_size s)
     else Option.bind (try_load env filename EXT_COM s) (\<lambda>(file_size, s).
     if file_size > 0 \<and> file_size \<le> COM_MAX_SIZE then Some (loader_run_com env (file_buf env) file_size s)
     else Some (Inl File_not_found, s))))"

declare fix_relocs.simps [simp del] copy_code.simps [simp del] clear_bss.simps [simp del]

end
