(* ===== verification/Loader_Spec.thy ===== *)
theory Loader_Spec
  imports Loader
begin

text \<open>
  What the loader does to memory: a \<^verbatim>\<open>.comx\<close> file arrives as code and zeros, no file reaches memory outside the user area and the file buffer as long as the
  sizes do not wrap, a changed byte is detected; and the two defects: sizes that wrap clear memory everywhere, and the jump to ring 3 faults.
\<close>

unbundle bit_operations_syntax

section \<open>Loops over memory\<close>

lemma copy_ram_0 [simp]: "copy_ram p 0 f m = m" by (simp add: copy_ram_def)

lemma copy_ram_step:
  assumes "Suc (unat i) < 4294967296"
  shows "(copy_ram p i f m)(p + i := f (unat i)) = copy_ram p (i + 1) f m"
proof
  fix a
  have u: "unat (i + 1) = Suc (unat i)" using assms by (simp add: unat_word_ariths)
  have "a = p + i \<longleftrightarrow> unat (a - p) = unat i" by (metis add_diff_cancel_left' diff_add_cancel add.commute word_unat_eq_iff)
  then show "((copy_ram p i f m)(p + i := f (unat i))) a = copy_ram p (i + 1) f m a"
    by (auto simp: copy_ram_def word_less_nat_alt u)
qed

lemma copy_ram_other: "i \<le> n \<Longrightarrow> unat n \<le> unat (a - p) \<Longrightarrow> copy_ram p i f m a = m a"
  by (auto simp: copy_ram_def word_less_nat_alt word_le_nat_alt)

lemma same_outside_upd: "unat (a - p) < n \<Longrightarrow> same_outside p n m (m(a := v))"
  by (auto simp: same_outside_def)

lemma copy_bytes_outside: "same_outside dst (unat n) m (copy_bytes dst src n m)"
  unfolding copy_bytes_def
proof (induction rule: for_range_induct [where P = "\<lambda>i t. same_outside dst (unat n) m t", OF le0])
  case (2 i t)
  have "unat (dst + of_nat i - dst) = i" using less_trans [OF 2(2) unat_u32_less] by (simp add: unat_of_nat_u32)
  with 2 show ?case by (intro same_outside_trans [OF 2(3) same_outside_upd]) simp
qed simp

section \<open>The copy of a .comx file\<close>

lemma comx_header_cong:
  assumes "\<And>j. j < 28 \<Longrightarrow> m (p + of_nat j) = m' (p + of_nat j)"
  shows "comx_header_at m p = comx_header_at m' p"
proof -
  have "bytes_at m p j = bytes_at m' p j" if "j < 28" for j using assms [OF that] by (simp add: bytes_at_def)
  then show ?thesis by (simp add: comx_header_at_def Let_def rd32_def)
qed

lemma copy_code_run:
  assumes n: "h_code_size (comx_header_at m data) = n"
    and apart: "\<And>j. j < 32 + unat n \<Longrightarrow> unat n \<le> unat (data + of_nat j - lp)"
  shows "i \<le> n \<Longrightarrow> copy_code data lp i (copy_ram lp i (bytes_at m (data + 32)) m) = copy_ram lp n (bytes_at m (data + 32)) m"
proof (induction "unat n - unat i" arbitrary: i)
  case 0
  then have "i = n" by (simp add: word_le_nat_alt word_unat_eq_iff)
  moreover have "h_code_size (comx_header_at (copy_ram lp n (bytes_at m (data + 32)) m) data) = n"
    unfolding n [symmetric]
    by (rule arg_cong [where f = h_code_size], rule comx_header_cong) (use apart n in \<open>simp add: copy_ram_other [of _ n]\<close>)
  ultimately show ?case by (simp add: copy_code.simps)
next
  case (Suc k)
  let ?m = "copy_ram lp i (bytes_at m (data + 32)) m"
  have lt: "unat i < unat n" using Suc(2) by linarith
  have le: "i \<le> n" "i < n" using lt by (simp_all add: word_le_nat_alt word_less_nat_alt)
  have si: "Suc (unat i) < 4294967296" using lt unat_u32_less [of n] by linarith
  then have u: "unat (i + 1) = Suc (unat i)" by (simp add: unat_word_ariths)
  have h: "h_code_size (comx_header_at ?m data) = n"
    unfolding n [symmetric]
    by (rule arg_cong [where f = h_code_size], rule comx_header_cong) (use apart n le in \<open>simp add: copy_ram_other [of _ n]\<close>)
  have "?m (data + of_nat (32 + unat i)) = m (data + of_nat (32 + unat i))"
    using apart [of "32 + unat i"] lt le by (intro copy_ram_other [of _ n]) auto
  then have d: "?m (data + COMX_HEADER_SIZE + i) = bytes_at m (data + 32) (unat i)"
    by (simp add: bytes_at_def loader_consts add.assoc)
  have "copy_code data lp i ?m = copy_code data lp (i + 1) (?m(lp + i := bytes_at m (data + 32) (unat i)))"
    by (subst copy_code.simps) (simp only: h le if_True d)
  also have "\<dots> = copy_code data lp (i + 1) (copy_ram lp (i + 1) (bytes_at m (data + 32)) m)"
    by (simp only: copy_ram_step [OF si])
  also have "\<dots> = copy_ram lp n (bytes_at m (data + 32)) m"
    using Suc.hyps lt u by (intro Suc.hyps(1)) (simp_all add: word_le_nat_alt)
  finally show ?case .
qed

lemma clear_bss_run:
  assumes h: "h_code_size (comx_header_at m data) = c" "h_bss_size (comx_header_at m data) = n"
    and apart: "\<And>j. j < 28 \<Longrightarrow> unat k \<le> unat (data + of_nat j - (lp + c))"
    and "k \<le> n"
  shows "i \<le> k \<Longrightarrow> clear_bss data lp i (copy_ram (lp + c) i (\<lambda>_. 0) m) = clear_bss data lp k (copy_ram (lp + c) k (\<lambda>_. 0) m)"
proof (induction "unat k - unat i" arbitrary: i)
  case 0
  then have "i = k" by (simp add: word_le_nat_alt word_unat_eq_iff)
  then show ?case by simp
next
  case (Suc d)
  let ?m = "copy_ram (lp + c) i (\<lambda>_. 0) m"
  have lt: "unat i < unat k" using Suc(2) by linarith
  then have le: "i \<le> k" "i < n" using assms(4) by (auto simp: word_le_nat_alt word_less_nat_alt)
  have si: "Suc (unat i) < 4294967296" using lt unat_u32_less [of k] by linarith
  then have u: "unat (i + 1) = Suc (unat i)" by (simp add: unat_word_ariths)
  have h': "comx_header_at ?m data = comx_header_at m data"
    by (rule comx_header_cong) (use apart le in \<open>simp add: copy_ram_other [of _ k]\<close>)
  have "clear_bss data lp i ?m = clear_bss data lp (i + 1) (?m(lp + c + i := 0))"
    by (subst clear_bss.simps) (simp only: h' h le if_True)
  also have "?m(lp + c + i := 0) = copy_ram (lp + c) (i + 1) (\<lambda>_. 0) m"
    using copy_ram_step [OF si, of "lp + c" "\<lambda>_. 0"] .
  also have "clear_bss data lp (i + 1) \<dots> = clear_bss data lp k (copy_ram (lp + c) k (\<lambda>_. 0) m)"
    using Suc.hyps lt u by (intro Suc.hyps(1)) (simp_all add: word_le_nat_alt)
  finally show ?case .
qed

text \<open>The file buffer is a variable in the section that the linker script places at 0x200000; it does not wrap.\<close>

definition buffer_placed :: "'d loader_env \<Rightarrow> bool" where
  "buffer_placed env \<longleftrightarrow> 0x200000 \<le> unat (file_buf env) \<and> unat (file_buf env) + 32800 \<le> 4294967296"

lemma far:
  fixes p data :: u32
  assumes "unat p + n \<le> unat data" "unat data + j < 4294967296"
  shows "n \<le> unat (data + of_nat j - p)"
proof -
  have u: "unat (data + of_nat j) = unat data + j" using assms(2) by (simp add: unat_word_ariths unat_of_nat_u32)
  then have "p \<le> data + of_nat j" using assms by (simp add: word_le_nat_alt)
  then have "unat (data + of_nat j - p) = unat data + j - unat p" using u by (simp add: unat_sub)
  with assms show ?thesis by linarith
qed

text \<open>Memory with the program of header \<open>h\<close> and code \<open>code\<close> in place.\<close>

definition comx_image :: "comx_header \<Rightarrow> buf \<Rightarrow> memory \<Rightarrow> memory" where
  "comx_image h code m =
     copy_ram (h_load_addr h + h_code_size h) (h_bss_size h) (\<lambda>_. 0) (copy_ram (h_load_addr h) (h_code_size h) code m)"

lemma comx_loops:
  assumes b: "0x200000 \<le> unat data" "unat data + 32800 \<le> 4294967296"
    and h: "h = comx_header_at m data"
    and c: "unat (h_code_size h) \<le> 32768" "unat (h_load_addr h) + unat (h_code_size h) + unat (h_bss_size h) \<le> 0x82000"
  shows "clear_bss data (h_load_addr h) 0 (copy_code data (h_load_addr h) 0 m) = comx_image h (bytes_at m (data + 32)) m"
    and "comx_header_at (comx_image h (bytes_at m (data + 32)) m) data = h"
proof -
  let ?l = "h_load_addr h" and ?c = "h_code_size h" and ?n = "h_bss_size h"
  let ?m = "copy_ram ?l ?c (bytes_at m (data + 32)) m"
  have copied: "copy_code data ?l 0 m = ?m"
    using copy_code_run [of m data ?c ?l 0] far [of ?l "unat ?c" data] b c h by simp
  have hm: "comx_header_at ?m data = h" unfolding h
    by (rule comx_header_cong) (use far [of ?l "unat ?c" data] b c in \<open>simp add: copy_ram_other [of _ ?c] h [symmetric]\<close>)
  have lc: "unat (?l + ?c) = unat ?l + unat ?c" using c by (simp add: unat_word_ariths)
  have ap: "unat ?n \<le> unat (data + of_nat j - (?l + ?c))" if "j < 28" for j
    using far [of "?l + ?c" "unat ?n" data j] that b c lc by simp
  have hi: "comx_header_at (comx_image h (bytes_at m (data + 32)) m) data = comx_header_at ?m data" unfolding comx_image_def
    by (rule comx_header_cong) (use ap in \<open>simp add: copy_ram_other [of _ ?n]\<close>)
  then show "comx_header_at (comx_image h (bytes_at m (data + 32)) m) data = h" using hm by simp
  have "clear_bss data ?l 0 ?m = clear_bss data ?l ?n (comx_image h (bytes_at m (data + 32)) m)"
    unfolding comx_image_def using clear_bss_run [of ?m data ?c ?n ?n ?l 0] hm ap by simp
  also have "\<dots> = comx_image h (bytes_at m (data + 32)) m"
    by (subst clear_bss.simps) (simp add: hi hm)
  finally show "clear_bss data ?l 0 (copy_code data ?l 0 m) = comx_image h (bytes_at m (data + 32)) m" using copied by simp
qed

section \<open>Confinement\<close>

text \<open>Memory outside the user area and the file buffer.\<close>

definition kept :: "u32 \<Rightarrow> memory \<Rightarrow> memory \<Rightarrow> bool" where
  "kept fb m m' \<longleftrightarrow> (\<forall>a. (unat a < 0x50000 \<or> 0x82000 \<le> unat a) \<and> 32800 \<le> unat (a - fb) \<longrightarrow> m' a = m a)"

lemma kept_refl [simp]: "kept fb m m" by (simp add: kept_def)

lemma kept_trans: "kept fb m m' \<Longrightarrow> kept fb m' m'' \<Longrightarrow> kept fb m m''" by (simp add: kept_def)

lemma kept_buffer: "same_outside fb n m m' \<Longrightarrow> n \<le> 32800 \<Longrightarrow> kept fb m m'"
  by (simp add: kept_def same_outside_def)

lemma kept_user:
  assumes "same_outside p n m m'" "0x50000 \<le> unat p" "unat p + n \<le> 0x82000"
  shows "kept fb m m'"
  unfolding kept_def
proof (intro allI impI)
  fix a assume a: "(unat a < 0x50000 \<or> 0x82000 \<le> unat a) \<and> 32800 \<le> unat (a - fb)"
  have "n \<le> unat (a - p)"
  proof (rule ccontr)
    assume n: "\<not> n \<le> unat (a - p)"
    define d where "d = a - p"
    have d: "a = p + d" by (simp add: d_def)
    have "unat a = unat p + unat d" using n assms(3) unfolding d by (simp add: unat_word_ariths)
    with a n assms(2,3) d_def show False by simp
  qed
  with assms(1) show "m' a = m a" by (simp add: same_outside_def)
qed

lemma kept_copy_ram:
  "0x50000 \<le> unat p \<Longrightarrow> unat p + unat n \<le> 0x82000 \<Longrightarrow> kept fb m (copy_ram p n f m)"
  using copy_ram_outside [of 0 n "unat n" p m f] by (intro kept_user) simp_all

lemma add_seg_outside:
  assumes "unat (a - p) + 1 < n"
  shows "same_outside p n m (add_seg a m)"
proof -
  have e: "a + 1 - p = (a - p) + 1" by simp
  have "unat (a + 1 - p) \<le> unat (a - p) + 1" unfolding e by (simp add: unat_word_ariths)
  with assms have "unat (a + 1 - p) < n" by (rule le_less_trans [rotated])
  then show ?thesis using assms unfolding add_seg_def Let_def
    by (intro same_outside_trans [OF same_outside_upd same_outside_upd]) simp_all
qed

lemma unat_ucast16: "unat (ucast (x :: u16) :: u32) = unat x"
  using unat_u16_less [of x] by (simp add: unsigned_ucast_eq take_bit_nat_eq_self del: unat_u16_less)

lemma fixup_inside:
  assumes "unat code_size \<le> 0x31000" "a = fixup_addr 0x50000 reloc i m" "a < 0x50000 + code_size - 1" "code_size \<noteq> 0"
  shows "unat (a - 0x50000) + 1 < unat code_size"
proof -
  let ?s = "rd16 (bytes_at m (reloc + 4 * i)) 2" and ?o = "rd16 (bytes_at m (reloc + 4 * i)) 0"
  have u: "unat (ucast ?s * 16 + ucast ?o :: u32) = unat ?s * 16 + unat ?o"
    using unat_u16_less [of ?s] unat_u16_less [of ?o]
    by (simp add: unat_word_ariths unat_ucast16 del: unat_u16_less)
  have d: "a - 0x50000 = ucast ?s * 16 + ucast ?o" unfolding assms(2) fixup_addr_def by (simp add: loader_consts)
  have lim: "unat ?s * 16 + unat ?o \<le> 1114095" using unat_u16_less [of ?s] unat_u16_less [of ?o] by linarith
  have "a = 0x50000 + (ucast ?s * 16 + ucast ?o)" using d by (simp add: algebra_simps)
  then have a: "unat a = 0x50000 + unat (a - 0x50000)"
    using u lim unat_word_ariths(1) [of "0x50000 :: u32" "ucast ?s * 16 + ucast ?o"] unfolding d by simp
  have "1 \<le> unat code_size" using assms(4) by (metis less_one not_le unat_eq_0)
  then have "unat (0x50000 + code_size - 1) = 0x50000 + unat code_size - 1"
    using assms(1) by (simp add: unat_sub_if' unat_word_ariths word_le_nat_alt)
  with assms(3) a show ?thesis by (simp add: word_less_nat_alt)
qed

lemma fix_relocs_outside:
  "unat code_size \<le> 0x31000 \<Longrightarrow> code_size \<noteq> 0 \<Longrightarrow> same_outside 0x50000 (unat code_size) m (fix_relocs data 0x50000 code_size reloc i m)"
proof (induction data "0x50000 :: u32" code_size reloc i m rule: fix_relocs.induct)
  case (1 data code_size reloc i m)
  show ?case
  proof (cases "i < ucast (mz_relocs (mz_header_at m data))")
    case True
    let ?a = "fixup_addr 0x50000 reloc i m"
    let ?m = "if ?a < 0x50000 + code_size - 1 then add_seg ?a m else m"
    have k: "same_outside 0x50000 (unat code_size) m ?m"
      using add_seg_outside [OF fixup_inside [OF 1(2) refl _ 1(3)]] by simp
    have "fix_relocs data 0x50000 code_size reloc i m = fix_relocs data 0x50000 code_size reloc (i + 1) ?m"
      by (subst fix_relocs.simps) (simp only: True if_True Let_def)
    then show ?thesis by (simp only: same_outside_trans [OF k 1(1) [OF True refl 1(2,3)]])
  next
    case False
    then show ?thesis by (subst fix_relocs.simps) simp
  qed
qed

lemma mz_size_le:
  assumes "mz_get_size h \<noteq> 0" "ucast (mz_header_para h) * MZ_PARA_SIZE + mz_get_size h \<le> n"
  shows "mz_get_size h \<le> n"
proof -
  let ?hb = "ucast (mz_header_para h) * MZ_PARA_SIZE :: u32"
  have "mz_get_size h \<le> ?hb + mz_get_size h"
    using assms(1) by (auto simp: mz_get_size_def Let_def not_less word_le_nat_alt unat_sub split: if_splits)
  then show ?thesis using assms(2) by (rule order_trans)
qed

lemma enter_eq: "enter env eip s = (Inr (fst (loader_enter_ring3 eip USER_STACK_TOP (l_eflags env) (l_cpu env) (l_sched s))),
    s\<lparr>l_sched := snd (loader_enter_ring3 eip USER_STACK_TOP (l_eflags env) (l_cpu env) (l_sched s))\<rparr>)"
  by (simp add: enter_def split: prod.split)

lemma run_com_kept:
  assumes "loader_run_com env data sz s = (r, s')"
  shows "kept fb (l_ram s) (l_ram s') \<and> l_vol s' = l_vol s"
proof (cases "sz = 0 \<or> sz > COM_MAX_SIZE")
  case False
  then have sz: "unat sz \<le> 65280" by (simp add: loader_consts word_less_nat_alt)
  have "kept fb (l_ram s) (copy_bytes COM_LOAD_ADDR data sz (l_ram s))"
    using copy_bytes_outside by (rule kept_user) (use sz in \<open>simp_all add: loader_consts\<close>)
  then show ?thesis using assms False by (auto simp: loader_run_com_def enter_eq split: if_splits)
qed (use assms in \<open>simp add: loader_run_com_def\<close>)

lemma run_exe_kept:
  assumes r: "loader_run_exe env data sz s = (r, s')" and sz: "unat sz \<le> 32800"
  shows "kept fb (l_ram s) (l_ram s') \<and> l_vol s' = l_vol s"
proof -
  define h where "h = mz_header_at (l_ram s) data"
  define hb where "hb = (ucast (mz_header_para h) * MZ_PARA_SIZE :: u32)"
  define c where "c = mz_get_size h"
  define m where "m = copy_bytes 0x50000 (data + hb) c (l_ram s)"
  have la: "EXE_LOAD_SEG * MZ_PARA_SIZE = 0x50000" by (simp add: loader_consts)
  show ?thesis
  proof (cases "sz < MZ_HEADER_MIN \<or> \<not> mz_check (l_ram s) data \<or> c = 0 \<or> hb + c > sz \<or> \<not> user_ptr_valid 0x50000 (c + 4096)")
    case True
    then show ?thesis
      using r unfolding loader_run_exe_def Let_def la h_def [symmetric] hb_def [symmetric] c_def [symmetric]
      by (auto split: if_splits)
  next
    case False
    then have cs: "unat c \<le> 32800"
      using mz_size_le [of h sz] sz unfolding hb_def [symmetric] c_def [symmetric] by (auto simp: word_le_nat_alt not_less)
    have c0: "c \<noteq> 0" using False by blast
    have k1: "same_outside 0x50000 (unat c) (l_ram s) m" unfolding m_def by (rule copy_bytes_outside)
    have k2: "same_outside 0x50000 (unat c) m (if b then fix_relocs data 0x50000 c rl 0 m else m)" for b rl
      using fix_relocs_outside [of c m] cs c0 by simp
    define t where "t = (if mz_relocs (mz_header_at m data) > 0 \<and>
        (ucast (mz_reloc_offset (mz_header_at m data)) + ucast (mz_relocs (mz_header_at m data)) * 4 :: u32) \<le> sz
      then fix_relocs data 0x50000 c (data + ucast (mz_reloc_offset (mz_header_at m data))) 0 m else m)"
    have "\<exists>e. (r, s') = enter env e (s\<lparr>l_ram := t\<rparr>)"
      using r False unfolding loader_run_exe_def Let_def la h_def [symmetric] hb_def [symmetric] c_def [symmetric] m_def [symmetric] t_def [symmetric]
      by (auto intro: sym)
    then have "l_ram s' = t" "l_vol s' = l_vol s" by (auto simp: enter_eq)
    moreover have "kept fb (l_ram s) t"
      unfolding t_def using same_outside_trans [OF k1 k2] by (rule kept_user) (use cs in simp_all)
    ultimately show ?thesis by simp
  qed
qed

lemma comx_accept:
  assumes "buffer_placed env" "h = comx_header_at (l_ram s) (file_buf env)"
    and "unat (h_code_size h) + unat (h_bss_size h) < 4294967296"
  shows "(\<exists>e. loader_run_comx env fs s = (Inl e, s)) \<or>
    0x50000 \<le> unat (h_load_addr h) \<and> unat (h_load_addr h) + unat (h_code_size h) + unat (h_bss_size h) \<le> 0x82000 \<and>
    unat (h_code_size h) \<le> 32768 \<and>
    loader_run_comx env fs s = enter env (h_load_addr h + h_entry_offset h)
      (s\<lparr>l_ram := comx_image h (bytes_at (l_ram s) (file_buf env + 32)) (l_ram s)\<rparr>)"
proof (cases "\<exists>e. loader_run_comx env fs s = (Inl e, s)")
  case False
  then have "h_code_size h \<noteq> 0" "h_code_size h \<le> COMX_MAX_SIZE" and v: "user_ptr_valid (h_load_addr h) (h_code_size h + h_bss_size h)"
    and r: "loader_run_comx env fs s = (let m = clear_bss (file_buf env) (h_load_addr h) 0 (copy_code (file_buf env) (h_load_addr h) 0 (l_ram s));
        h = comx_header_at m (file_buf env) in enter env (h_load_addr h + h_entry_offset h) (s\<lparr>l_ram := m\<rparr>))"
    unfolding loader_run_comx_def Let_def assms(2) [symmetric] by (auto split: if_splits)
  have sum: "unat (h_code_size h + h_bss_size h) = unat (h_code_size h) + unat (h_bss_size h)"
    using assms(3) by (simp add: unat_word_ariths)
  have c: "unat (h_code_size h) \<le> 32768" using \<open>h_code_size h \<le> _\<close> by (simp add: loader_consts word_le_nat_alt)
  have "h_code_size h + h_bss_size h \<noteq> 0" using sum \<open>h_code_size h \<noteq> 0\<close> by (metis add_is_0 unat_0 unat_eq_0)
  from v [unfolded user_ptr_valid_iff [OF this] sum]
  have l: "0x50000 \<le> unat (h_load_addr h)" "unat (h_load_addr h) + unat (h_code_size h) + unat (h_bss_size h) \<le> 0x82000" by auto
  show ?thesis
    using r l c comx_loops [OF _ _ assms(2) c l(2)] assms(1) by (simp add: Let_def buffer_placed_def)
qed blast

lemma run_comx_kept:
  assumes "buffer_placed env" "h = comx_header_at (l_ram s) (file_buf env)"
    and "unat (h_code_size h) + unat (h_bss_size h) < 4294967296" "loader_run_comx env fs s = (r, s')"
  shows "kept fb (l_ram s) (l_ram s') \<and> l_vol s' = l_vol s"
  using comx_accept [OF assms(1-3), of fs]
proof (elim disjE exE conjE)
  assume l: "0x50000 \<le> unat (h_load_addr h)" "unat (h_load_addr h) + unat (h_code_size h) + unat (h_bss_size h) \<le> 0x82000"
    and e: "loader_run_comx env fs s = enter env (h_load_addr h + h_entry_offset h)
      (s\<lparr>l_ram := comx_image h (bytes_at (l_ram s) (file_buf env + 32)) (l_ram s)\<rparr>)"
  have "unat (h_load_addr h + h_code_size h) = unat (h_load_addr h) + unat (h_code_size h)" using l by (simp add: unat_word_ariths)
  then have "kept fb m (comx_image h f m)" for f m
    unfolding comx_image_def using l by (intro kept_trans [OF kept_copy_ram kept_copy_ram]) simp_all
  then show ?thesis using assms(4) e by (auto simp: enter_eq)
qed (use assms(4) in auto)

text \<open>The files that the three names of a program name stand for, and that they fit the buffer.\<close>

definition files_fit :: "'d loader_env \<Rightarrow> u8 list \<Rightarrow> 'd fat32 \<Rightarrow> bool" where
  "files_fit env name v \<longleftrightarrow> (\<forall>t ext e u. search_only v t \<and> ext \<in> {EXT_COMX, EXT_EXE, EXT_COM} \<and>
     fat32_find_file (l_fuel env) (l_read env) (try_name name ext) t = Some (Some e, u) \<longrightarrow> unat (de_file_size e) \<le> 32800)"

lemma try_load_kept:
  assumes "try_load env name ext s = Some (n, s')" "files_fit env name v" "search_only v (l_vol s)" "ext \<in> {EXT_COMX, EXT_EXE, EXT_COM}"
  shows "kept (file_buf env) (l_ram s) (l_ram s') \<and> search_only v (l_vol s') \<and> unat n \<le> 32800"
proof -
  obtain r u where f: "fat32_find_file (l_fuel env) (l_read env) (try_name name ext) (l_vol s) = Some (r, u)"
    using assms(1) by (cases "fat32_find_file (l_fuel env) (l_read env) (try_name name ext) (l_vol s)") (auto simp: try_load_def)
  have su: "search_only v u" using search_only_trans [OF assms(3) find_file_frame [OF f]] .
  show ?thesis
  proof (cases r)
    case None
    then show ?thesis using assms(1) f su by (auto simp: try_load_def)
  next
    case (Some e)
    then have sz: "unat (de_file_size e) \<le> 32800" using assms(2,3,4) f unfolding files_fit_def by blast
    obtain m w where l: "fat32_load_file (l_fuel env) (l_read env) e (file_buf env) u (l_ram s) = Some (n, m, w)"
      "s' = s\<lparr>l_vol := w, l_ram := m\<rparr>" using assms(1) f Some by (auto simp: try_load_def)
    note o = fat32_load_outside [OF l(1)]
    have "unat n \<le> unat (de_file_size e)" using o sz by (simp add: word_le_nat_alt)
    then show ?thesis using o sz l(2) kept_buffer search_only_trans [OF su buf_only_search] by auto
  qed
qed

lemma search_only_device: "search_only s t \<Longrightarrow> device t = device s" by (auto simp: search_only_def)

section \<open>The checksum\<close>

lemma checksum_bit:
  assumes "n < 32"
  shows "bit (checksum_step x b) n \<longleftrightarrow> ((if n < 3 then bit x (n + 29) else bit x (n - 3)) \<noteq> bit (ucast b :: u32) n)"
proof -
  have far: "\<not> bit x (n + 29)" if "3 \<le> n" using that bit_imp_le_length [of x "n + 29"] by auto
  show ?thesis
    using assms far by (auto simp: checksum_step_def bit_xor_iff bit_push_bit_iff bit_drop_bit_eq add.commute not_less)
qed

lemma checksum_inj: "checksum_step x b = checksum_step y b \<Longrightarrow> x = y"
proof (rule bit_word_eqI)
  fix n assume e: "checksum_step x b = checksum_step y b" and n: "n < LENGTH(32)"
  show "bit x n = bit y n"
  proof (cases "n < 29")
    case True
    then show ?thesis using checksum_bit [of "n + 3" x b] checksum_bit [of "n + 3" y b] e by auto
  next
    case False
    then have "n - 29 < 3" "n - 29 + 29 = n" using n by auto
    then show ?thesis using checksum_bit [of "n - 29" x b] checksum_bit [of "n - 29" y b] e by auto
  qed
qed

lemma checksum_inj_byte: "checksum_step x b = checksum_step x c \<Longrightarrow> b = c"
proof (rule bit_word_eqI)
  fix n assume e: "checksum_step x b = checksum_step x c" and n: "n < LENGTH(8)"
  then have "bit (ucast b :: u32) n = bit (ucast c :: u32) n"
    using checksum_bit [of n x b] checksum_bit [of n x c] by auto
  then show "bit b n = bit c n" using n by (simp add: bit_ucast_iff)
qed

definition checksum_list :: "u32 \<Rightarrow> u8 list \<Rightarrow> u32" where "checksum_list acc bs = foldl checksum_step acc bs"

lemma checksum_list_inj: "checksum_list x bs = checksum_list y bs \<Longrightarrow> x = y"
  unfolding checksum_list_def by (induction bs arbitrary: x y) (auto dest: checksum_inj)

lemma loader_checksum_list: "loader_checksum m p sz = checksum_list 0 (map (bytes_at m p) [0..<unat sz])"
proof -
  have "fold (\<lambda>i acc. checksum_step acc (m (p + of_nat i))) is a = foldl checksum_step a (map (bytes_at m p) is)" for "is" a
    by (induction "is" arbitrary: a) (simp_all add: bytes_at_def)
  then show ?thesis by (simp add: loader_checksum_def checksum_list_def)
qed

text \<open>Replacing one byte changes the sum.\<close>

lemma checksum_update: "k < length bs \<Longrightarrow> checksum_list x (bs[k := v]) = checksum_list x bs \<Longrightarrow> v = bs ! k"
proof -
  assume k: "k < length bs" and e: "checksum_list x (bs[k := v]) = checksum_list x bs"
  have u: "bs[k := v] = take k bs @ v # drop (Suc k) bs" using k by (rule upd_conv_take_nth_drop)
  have b: "bs = take k bs @ bs ! k # drop (Suc k) bs" using k by (rule id_take_nth_drop)
  let ?y = "foldl checksum_step x (take k bs)"
  have "checksum_list (checksum_step ?y v) (drop (Suc k) bs) = checksum_list (checksum_step ?y (bs ! k)) (drop (Suc k) bs)"
    using e unfolding u by (subst (asm) (2) b) (simp add: checksum_list_def)
  from checksum_inj_byte [OF checksum_list_inj [OF this]] show ?thesis .
qed

section \<open>A .comx file on disk\<close>

lemma comx_header_bytes:
  assumes "\<And>j. j < 28 \<Longrightarrow> bytes_at m p j = bytes_at m' p' j"
  shows "comx_header_at m p = comx_header_at m' p'"
  using assms by (simp add: comx_header_at_def Let_def rd32_def)

text \<open>What the loader demands of a header, the code and the length of the file.\<close>

definition comx_acceptable :: "cpuinfo \<Rightarrow> comx_header \<Rightarrow> u8 list \<Rightarrow> nat \<Rightarrow> bool" where
  "comx_acceptable f h code n \<longleftrightarrow>
     h_magic h = 0x43505800 \<and> h_version h = 1 \<and> h_code_size h \<noteq> 0 \<and> unat (h_code_size h) \<le> 32768 \<and> 32 + unat (h_code_size h) \<le> n \<and>
     (bit (h_flags h) 0 \<longrightarrow> cpu_has_feature CPU_FEATURE_SSE f) \<and> (bit (h_flags h) 1 \<longrightarrow> cpu_has_feature CPU_FEATURE_SSE2 f) \<and>
     (bit (h_flags h) 2 \<longrightarrow> cpu_has_feature CPU_FEATURE_MMX f) \<and> h_checksum h = checksum_list 0 code \<and>
     0x50000 \<le> unat (h_load_addr h) \<and> unat (h_load_addr h) + unat (h_code_size h) + unat (h_bss_size h) \<le> 0x82000"

lemma comx_flag_bits:
  "h_flags h AND COMX_FLAG_SSE \<noteq> 0 \<longleftrightarrow> bit (h_flags h) 0" "h_flags h AND COMX_FLAG_SSE2 \<noteq> 0 \<longleftrightarrow> bit (h_flags h) 1"
  "h_flags h AND COMX_FLAG_MMX \<noteq> 0 \<longleftrightarrow> bit (h_flags h) 2"
  using and_bit_eq_0 [of 0 "h_flags h"] and_bit_eq_0 [of 1 "h_flags h"] and_bit_eq_0 [of 2 "h_flags h"]
  by (simp_all add: loader_consts push_bit_eq_mult)

lemma run_comx_accepts:
  assumes p: "buffer_placed env" and h: "h = comx_header_at (l_ram s) (file_buf env)"
    and ok: "comx_acceptable (l_features env) h (map (bytes_at (l_ram s) (file_buf env + 32)) [0..<unat (h_code_size h)]) (unat fs)"
  shows "loader_run_comx env fs s = enter env (h_load_addr h + h_entry_offset h)
      (s\<lparr>l_ram := comx_image h (bytes_at (l_ram s) (file_buf env + 32)) (l_ram s)\<rparr>)"
proof -
  note k = ok [unfolded comx_acceptable_def]
  have w: "unat (h_code_size h) + unat (h_bss_size h) < 4294967296" using k by linarith
  have sum: "unat (h_code_size h + h_bss_size h) = unat (h_code_size h) + unat (h_bss_size h)" using w by (simp add: unat_word_ariths)
  have "h_code_size h + h_bss_size h \<noteq> 0" using sum k by (metis add_is_0 unat_0 unat_eq_0)
  from user_ptr_valid_iff [OF this] have v: "user_ptr_valid (h_load_addr h) (h_code_size h + h_bss_size h)" unfolding sum using k by simp
  have t: "\<not> fs < COMX_HEADER_SIZE + h_code_size h" using k by (simp add: loader_consts word_less_nat_alt unat_word_ariths)
  have c: "\<not> COMX_MAX_SIZE < h_code_size h" using k by (simp add: loader_consts word_less_nat_alt)
  have "\<nexists>e. loader_run_comx env fs s = (Inl e, s)"
    unfolding loader_run_comx_def Let_def h [symmetric]
    using v t c k by (simp add: comx_flag_bits loader_checksum_list comx_check_version_def COMX_VERSION_def COMX_HEADER_SIZE_def enter_eq)
  with comx_accept [OF p h w, of fs] show ?thesis by blast
qed

text \<open>Nothing that a walk along a chain depends on is changed by a search.\<close>

lemma search_only_cong:
  assumes "search_only s t"
  shows "next_cluster rd t c = next_cluster rd s c" "readable32 rd sec t c = readable32 rd sec s c" "chain_bytes32 sec t cs = chain_bytes32 sec s cs"
proof -
  obtain b e where t: "t = (s\<lparr>sector_buf := b\<rparr>)\<lparr>found_entry := e\<rparr>" using assms by (auto simp: search_only_def)
  let ?u = "s\<lparr>sector_buf := b\<rparr>"
  have u: "buf_only s ?u" by (rule buf_onlyI)
  have "next_cluster rd t c = next_cluster rd ?u c"
    unfolding t by (simp add: next_cluster_def fat32_get_next_cluster_def read_sector_def Let_def split: option.split)
  then show "next_cluster rd t c = next_cluster rd s c" using next_cluster_cong [OF u] by simp
  show "readable32 rd sec t c = readable32 rd sec s c" "chain_bytes32 sec t cs = chain_bytes32 sec s cs"
    unfolding t by (simp_all add: readable32_def chain_bytes32_def fat32_get_cluster_lba_def)
qed

lemma put_img_bytes:
  assumes "j < n" "n \<le> length img" "n < 4294967296"
  shows "bytes_at (put_img p n img m) p j = img ! j"
proof -
  have "unat (of_nat j :: u32) = j" using assms by (intro unat_of_nat_u32) simp
  then show ?thesis using assms by (simp add: bytes_at_def put_img_def)
qed

lemma try_load_file:
  assumes "\<And>l. l_read env l 1 (device (l_vol s)) = Some (sec l)"
    and "chain_from (next_cluster (l_read env) (l_vol s)) (bpb_root_cluster (l_vol s)) ds" "length ds < l_fuel env"
    and "dir_find (convert_to_83 (try_name name ext)) (directory sec (chain_sectors (l_vol s) ds)) = Some e"
    and "chain_from (next_cluster (l_read env) (l_vol s)) (entry_cluster e) cs" "cs \<noteq> []" "entry_cluster e < FAT32_CLUSTER_BAD"
    and "length cs < l_fuel env" "unat (de_file_size e) + 512 \<le> 4294967295"
    and "unat (de_file_size e) \<le> length (chain_bytes32 sec (l_vol s) cs)"
  shows "\<exists>v. try_load env name ext s = Some (de_file_size e,
    s\<lparr>l_vol := v, l_ram := put_img (file_buf env) (unat (de_file_size e)) (chain_bytes32 sec (l_vol s) cs) (l_ram s)\<rparr>)"
proof -
  obtain u where f: "fat32_find_file (l_fuel env) (l_read env) (try_name name ext) (l_vol s) = Some (Some e, u)"
    using find_file_spec [of "l_read env" "l_vol s" sec ds "l_fuel env" "try_name name ext"] assms(1-4) by auto
  note so = find_file_frame [OF f]
  have nx: "next_cluster (l_read env) u = next_cluster (l_read env) (l_vol s)" using search_only_cong(1) [OF so] by blast
  have "readable32 (l_read env) sec u x" for x using assms(1) search_only_cong(2) [OF so] by (simp add: readable32_def)
  with fat32_load_ok [of "l_read env" u e cs sec "l_fuel env" "file_buf env" "l_ram s"] assms(5-10)
  show ?thesis unfolding nx search_only_cong(3) [OF so] by (auto simp: try_load_def f)
qed

lemma comx_from_disk:
  assumes p: "buffer_placed env"
    and disk: "\<And>l. l_read env l 1 (device (l_vol s)) = Some (sec l)"
    and root: "chain_from (next_cluster (l_read env) (l_vol s)) (bpb_root_cluster (l_vol s)) ds" "length ds < l_fuel env"
    and dir: "dir_find (convert_to_83 (try_name name EXT_COMX)) (directory sec (chain_sectors (l_vol s) ds)) = Some e"
    and fl: "chain_from (next_cluster (l_read env) (l_vol s)) (entry_cluster e) cs" "cs \<noteq> []" "entry_cluster e < FAT32_CLUSTER_BAD"
      "length cs < l_fuel env" "unat (de_file_size e) \<le> 32800"
    and bytes: "b = take (unat (de_file_size e)) (chain_bytes32 sec (l_vol s) cs)" "length b = unat (de_file_size e)"
    and h: "h = comx_header_at (\<lambda>a. b ! unat a) 0" and code: "code = take (unat (h_code_size h)) (drop 32 b)"
    and ok: "comx_acceptable (l_features env) h code (length b)"
  shows "\<exists>v code'. (\<forall>j < unat (h_code_size h). code' j = code ! j) \<and> loader_run env name s = Some (enter env (h_load_addr h + h_entry_offset h)
    (s\<lparr>l_vol := v, l_ram := comx_image h code' (put_img (file_buf env) (unat (de_file_size e)) (chain_bytes32 sec (l_vol s) cs) (l_ram s))\<rparr>))"
proof -
  let ?img = "chain_bytes32 sec (l_vol s) cs" and ?n = "unat (de_file_size e)"
  let ?m = "put_img (file_buf env) ?n ?img (l_ram s)"
  have len: "?n \<le> length ?img" using bytes by (metis length_take min.cobounded1)
  obtain v where t: "try_load env name EXT_COMX s = Some (de_file_size e, s\<lparr>l_vol := v, l_ram := ?m\<rparr>)"
    using try_load_file [OF disk root dir fl(1-4) _ len] fl(5) by auto
  note k = ok [unfolded comx_acceptable_def]
  have at: "bytes_at ?m (file_buf env) j = b ! j" if "j < ?n" for j
    using put_img_bytes [OF that len] fl(5) that bytes(1) by simp
  have u: "unat (of_nat j :: u32) = j" if "j < ?n" for j using that fl(5) by (intro unat_of_nat_u32) simp
  have hm: "comx_header_at ?m (file_buf env) = h" unfolding h
    by (rule comx_header_bytes) (use at u k bytes(2) in \<open>simp add: bytes_at_def\<close>)
  have cb: "bytes_at ?m (file_buf env + 32) j = code ! j" if "j < unat (h_code_size h)" for j
  proof -
    have j: "32 + j < ?n" using that k bytes(2) by simp
    have "bytes_at ?m (file_buf env + 32) j = bytes_at ?m (file_buf env) (32 + j)" by (simp add: bytes_at_def add.assoc)
    also have "\<dots> = code ! j" unfolding at [OF j] using that j bytes(2) by (simp add: code)
    finally show ?thesis .
  qed
  have "32 + unat (h_code_size h) \<le> length b" using k by blast
  then have "length code = unat (h_code_size h)" unfolding code by simp
  then have codes: "map (bytes_at ?m (file_buf env + 32)) [0..<unat (h_code_size h)] = code"
    by (intro nth_equalityI) (simp_all add: cb)
  let ?s = "s\<lparr>l_vol := v, l_ram := ?m\<rparr>"
  let ?t = "?s\<lparr>l_ram := comx_image h (bytes_at ?m (file_buf env + 32)) ?m\<rparr>"
  have "loader_run_comx env (de_file_size e) ?s = enter env (h_load_addr h + h_entry_offset h) ?t"
    using run_comx_accepts [OF p, of h ?s "de_file_size e"] hm codes ok bytes(2) by simp
  moreover have "COMX_HEADER_SIZE \<le> de_file_size e" using k bytes(2) by (simp add: loader_consts word_le_nat_alt)
  moreover have "comx_check_magic h" using k by (simp add: comx_check_magic_def loader_consts)
  ultimately have "loader_run env name s = Some (enter env (h_load_addr h + h_entry_offset h) ?t)"
    unfolding loader_run_def t by (simp add: hm)
  then show ?thesis using cb by (intro exI [of _ v] exI [of _ "bytes_at ?m (file_buf env + 32)"]) simp
qed

section \<open>An example volume\<close>

text \<open>
  One file, \<^verbatim>\<open>A.COM\<close> in the directory, which the name \<^verbatim>\<open>a\<close> with the extension \<^verbatim>\<open>COMX\<close> stands for: a header with three bytes of code and \<open>bss\<close> bytes to clear.
\<close>

definition prog_bytes :: "u8 list \<Rightarrow> u8 list" where
  "prog_bytes bss = [0x00, 0x58, 0x50, 0x43, 1, 0, 0, 0, 1, 0, 0, 0, 3, 0, 0, 0] @ bss @
     [0x00, 0x00, 0x05, 0x00, 0xCB, 0x2E, 0, 0, 0, 0, 0, 0, 0xB8, 0x01, 0xC3]"

definition prog_file :: dir_entry where "prog_file = fresh_entry [65, 32, 32, 32, 32, 32, 32, 32, 67, 79, 77] ATTR_ARCHIVE 3 35"

definition prog_fat :: buf where "prog_fat = buf_put 3 0x0FFFFFFF demo_fat"

definition prog_vol :: "(u32 \<Rightarrow> buf) fat32" where
  "prog_vol = (demo32 3)\<lparr>fat_buf := prog_fat, device := (\<lambda>_ _. 0)(1 := prog_fat, 33 := put_entry 0 prog_file (\<lambda>_. 0),
     34 := (\<lambda>i. if i < 35 then prog_bytes [16, 0, 0, 0] ! i else 0))\<rparr>"

definition quiet_pcb :: pcb where
  "quiet_pcb = \<lparr>p_pid = 0, p_state = PROC_FREE, p_flags = 0, p_esp = 0, p_ss = 0, p_kernel_esp = 0, p_kernel_esp_top = 0, p_page_dir = 0,
     p_time_slice = 0, p_ticks_remaining = 0, p_total_ticks = 0, p_name = [], p_next = None\<rparr>"

definition quiet_sched :: sched where
  "quiet_sched = \<lparr>pcb_pool = [], idle_pcb = quiet_pcb, rq_head = None, rq_tail = None, rq_count = 0, current = None, next_pid = 1,
     tss_esp0 = 0, kmem = (\<lambda>_. 0), irq_on = True\<rparr>"

definition prog_env :: "(u32 \<Rightarrow> buf) loader_env" where
  "prog_env = \<lparr>l_fuel = 4, l_read = ram_read, file_buf = 0x200000, l_eflags = 2,
     l_cpu = \<lparr>r_gs = 0, r_fs = 0, r_es = 0, r_ds = 0, r_general = [], r_eip = 0, r_cs = 8, r_eflags = 2, r_user_stack = None\<rparr>,
     l_features = \<lparr>features_edx = 0, features_ecx = 0, features_leaf7_ebx = 0, features_ext_edx = 0, features_ext_ecx = 0, max_leaf = 0,
       max_ext_leaf = 0, c_cr4 = 0, c_xcr0 = 0\<rparr>\<rparr>"

definition prog_start :: "(u32 \<Rightarrow> buf) loader" where
  "prog_start = \<lparr>l_vol = prog_vol, l_ram = (\<lambda>_. 7), l_sched = quiet_sched\<rparr>"

lemma prog_placed: "buffer_placed prog_env" by (simp add: buffer_placed_def prog_env_def)

lemma prog_chain: "c \<in> {2, 3} \<Longrightarrow> chain_from (next_cluster ram_read prog_vol) c [c]"
proof -
  assume c: "c \<in> {2, 3}"
  then have d: "buf_data c" by (auto simp: buf_data_def word_less_nat_alt)
  have "buf_get c prog_fat = 0x0FFFFFFF" using c by (auto simp: prog_fat_def buf_get_put demo_get)
  moreover have "fat_buf prog_vol = prog_fat" by (simp add: prog_vol_def)
  ultimately show ?thesis
    using get_next_in_buf [OF d, of ram_read prog_vol] buf_data_data [OF d]
    by (simp add: next_cluster_def) (simp add: fat32_data_def fat32_consts)
qed

lemma prog_live: "dir_live (directory (ram_sec (device prog_vol)) (chain_sectors prog_vol [2])) = [prog_file]"
proof -
  have s: "ram_sec (device prog_vol) 33 i = put_entry 0 prog_file (\<lambda>_. 0) i" if "i < 512" for i
    using that by (simp add: ram_sec_def prog_vol_def)
  have u: "[0..<16] = 0 # 1 # [2..<(16 :: nat)]" by code_simp
  have e: "get_entry (put_entry 0 prog_file (\<lambda>_. 0)) 0 = prog_file" by (intro get_put_entry) (simp add: prog_file_def fresh_entry_def)
  have "chain_sectors prog_vol [2] = [33]" by (simp add: chain_sectors_def prog_vol_def demo32_def fat32_get_cluster_lba_def)
  then have "directory (ram_sec (device prog_vol)) (chain_sectors prog_vol [2]) =
      prog_file # get_entry (put_entry 0 prog_file (\<lambda>_. 0)) 1 # map (get_entry (put_entry 0 prog_file (\<lambda>_. 0))) [2..<16]"
    using sector_entries_cong [OF s] by (simp add: directory_def sector_entries_def u e)
  then show ?thesis
    using zero_entry [of 1 prog_file]
    by (simp add: dir_live_simps live_entry_def) (simp add: prog_file_def fresh_entry_def ATTR_ARCHIVE_def ATTR_VOLUME_ID_def ATTR_LFN_def)
qed

lemma prog_name: "convert_to_83 (try_name [97] EXT_COMX) = [65, 32, 32, 32, 32, 32, 32, 32, 67, 79, 77]" by code_simp

lemma prog_found:
  "dir_find (convert_to_83 (try_name [97] EXT_COMX)) (directory (ram_sec (device prog_vol)) (chain_sectors prog_vol [2])) = Some prog_file"
  unfolding prog_name dir_find_def prog_live by (simp add: prog_file_def fresh_entry_def)

lemma prog_length: "length (prog_bytes bss) = 31 + length bss" by (simp add: prog_bytes_def)

lemma prog_content: "take 35 (chain_bytes32 (ram_sec (device prog_vol)) prog_vol [3]) = prog_bytes [16, 0, 0, 0]"
proof -
  have l: "fat32_get_cluster_lba 3 prog_vol = 34" "unat (bpb_sec_per_clust prog_vol) = 1"
    by (simp_all add: prog_vol_def demo32_def fat32_get_cluster_lba_def)
  have "map (ram_sec (device prog_vol) 34) [0..<35] = map (\<lambda>i. prog_bytes [16, 0, 0, 0] ! i) [0..<35]"
    by (intro map_cong) (auto simp: ram_sec_def prog_vol_def)
  moreover have "map (\<lambda>i. prog_bytes [16, 0, 0, 0] ! i) [0..<35] = prog_bytes [16, 0, 0, 0]"
    using map_nth [of "prog_bytes [16, 0, 0, 0]"] prog_length [of "[16, 0, 0, 0]"] by (simp only: list.size) simp
  ultimately show ?thesis by (simp add: chain_bytes32_def l take_map)
qed

definition prog_header :: comx_header where
  "prog_header = \<lparr>h_magic = 0x43505800, h_version = 1, h_flags = 0, h_entry_offset = 1, h_code_size = 3, h_bss_size = 16,
     h_load_addr = 0x50000, h_checksum = 0x2ECB\<rparr>"

lemma prog_header: "comx_header_at (\<lambda>a. prog_bytes [16, 0, 0, 0] ! unat a) 0 = prog_header"
  by (simp add: comx_header_at_def bytes_at_def rd32_def prog_bytes_def prog_header_def Let_def)

lemma prog_code: "drop 32 (prog_bytes bss) = [0xB8, 0x01, 0xC3]" if "length bss = 4"
  using that by (simp add: prog_bytes_def)

lemma prog_sum: "checksum_list 0 [0xB8, 0x01, 0xC3] = 0x2ECB" by code_simp

lemma prog_acceptable: "comx_acceptable f prog_header [0xB8, 0x01, 0xC3] 35"
  by (simp add: comx_acceptable_def prog_header_def prog_sum)

lemma prog_fields: "l_vol prog_start = prog_vol" "l_read prog_env = ram_read" "l_fuel prog_env = 4" "bpb_root_cluster prog_vol = 2"
  by (simp_all add: prog_start_def prog_env_def prog_vol_def demo32_def)

lemma prog_size: "unat (de_file_size prog_file) = 35" "entry_cluster prog_file = 3"
  by (simp_all add: prog_file_def fresh_entry_def entry_cluster_def)

text \<open>The hypotheses on a file, for this one.\<close>

lemma prog_disk: "l_read prog_env l 1 (device (l_vol prog_start)) = Some (ram_sec (device prog_vol) l)"
  by (simp add: prog_fields ram_read_sec)

lemma prog_root: "chain_from (next_cluster (l_read prog_env) (l_vol prog_start)) (bpb_root_cluster (l_vol prog_start)) [2]"
  unfolding prog_fields by (rule prog_chain) simp

lemma prog_file_chain: "chain_from (next_cluster (l_read prog_env) (l_vol prog_start)) (entry_cluster prog_file) [3]"
  unfolding prog_fields prog_size by (rule prog_chain) simp

lemma prog_found': "dir_find (convert_to_83 (try_name [97] EXT_COMX)) (directory (ram_sec (device prog_vol)) (chain_sectors (l_vol prog_start) [2])) = Some prog_file"
  unfolding prog_fields by (rule prog_found)

lemma prog_content': "prog_bytes [16, 0, 0, 0] = take (unat (de_file_size prog_file)) (chain_bytes32 (ram_sec (device prog_vol)) (l_vol prog_start) [3])"
  unfolding prog_fields prog_size prog_content ..

lemma prog_take: "[0xB8, 0x01, 0xC3] = take (unat (h_code_size prog_header)) (drop 32 (prog_bytes [16, 0, 0, 0]))"
  by (simp add: prog_code prog_header_def)

lemma prog_acceptable': "comx_acceptable f prog_header [0xB8, 0x01, 0xC3] (length (prog_bytes [16, 0, 0, 0]))"
  by (simp add: prog_acceptable prog_length)

lemma prog_runs:
  "\<exists>v c. loader_run prog_env [97] prog_start = Some (enter prog_env 0x50001 (prog_start\<lparr>l_vol := v, l_ram := c\<rparr>))"
  using comx_from_disk [OF prog_placed prog_disk prog_root _ prog_found' prog_file_chain _ _ _ _ prog_content' _ prog_header [symmetric] prog_take prog_acceptable']
  by (auto simp: prog_size prog_length prog_env_def fat32_consts prog_header_def)

text \<open>The same file in the buffer already, with any BSS size.\<close>

definition prog_loaded :: "u8 list \<Rightarrow> (u32 \<Rightarrow> buf) loader" where
  "prog_loaded bss = prog_start\<lparr>l_ram := put_img 0x200000 35 (prog_bytes bss) (\<lambda>_. 7)\<rparr>"

lemma prog_at: "length bss = 4 \<Longrightarrow> j < 35 \<Longrightarrow> bytes_at (l_ram (prog_loaded bss)) 0x200000 j = prog_bytes bss ! j"
  unfolding prog_loaded_def by (simp add: put_img_bytes prog_length)

lemma prog_files_fit: "files_fit prog_env [97] (l_vol prog_start)"
  unfolding files_fit_def prog_fields
proof (intro allI impI)
  fix t ext e u
  assume a: "search_only prog_vol t \<and> ext \<in> {EXT_COMX, EXT_EXE, EXT_COM} \<and> fat32_find_file 4 ram_read (try_name [97] ext) t = Some (Some e, u)"
  have f: "device t = device prog_vol" "bpb_root_cluster t = 2" "chain_sectors t cs = chain_sectors prog_vol cs" for cs
    using a prog_fields(4) by (auto simp: search_only_def chain_sectors_def fat32_get_cluster_lba_def)
  have "next_cluster ram_read t = next_cluster ram_read prog_vol" using a search_only_cong(1) by blast
  then have "chain_from (next_cluster ram_read t) (bpb_root_cluster t) [2]" using prog_chain [of 2] f(2) by simp
  from find_file_spec [of ram_read t "ram_sec (device t)", OF ram_read_sec this, of 4 "try_name [97] ext"] a
  have "dir_find (convert_to_83 (try_name [97] ext)) (directory (ram_sec (device prog_vol)) (chain_sectors prog_vol [2])) = Some e"
    unfolding f by simp
  then have "e = prog_file" unfolding dir_find_def prog_live by (simp split: if_splits)
  then show "unat (de_file_size e) \<le> 32800" by (simp add: prog_size)
qed

lemma take_eqD: "take n xs = ys \<Longrightarrow> length ys = n \<Longrightarrow> n \<le> length xs" "take n xs = ys \<Longrightarrow> j < n \<Longrightarrow> xs ! j = ys ! j"
  by auto

lemma prog_image_header:
  assumes "length bss = 4" "take 35 img = prog_bytes bss"
  shows "comx_header_at (put_img 0x200000 35 img m) 0x200000 = comx_header_at (\<lambda>a. prog_bytes bss ! unat a) 0"
proof (rule comx_header_bytes)
  fix j :: nat assume j: "j < 28"
  have l: "35 \<le> length img" using take_eqD(1) [OF assms(2)] prog_length [of bss] assms(1) by simp
  have "img ! j = prog_bytes bss ! j" using j take_eqD(2) [OF assms(2), of j] by simp
  moreover have "unat (of_nat j :: u32) = j" using j by (simp add: unat_of_nat_u32)
  ultimately show "bytes_at (put_img 0x200000 35 img m) 0x200000 j = bytes_at (\<lambda>a. prog_bytes bss ! unat a) 0 j"
    using put_img_bytes [of j 35 img] j l by (simp add: bytes_at_def)
qed

lemma prog_try:
  assumes "try_load prog_env [97] EXT_COMX prog_start = Some (n, t)"
  shows "comx_header_at (l_ram t) (file_buf prog_env) = prog_header"
proof -
  have "unat (de_file_size prog_file) \<le> length (chain_bytes32 (ram_sec (device prog_vol)) (l_vol prog_start) [3])"
    unfolding prog_size prog_fields using take_eqD(1) [OF prog_content] prog_length [of "[16, 0, 0, 0]"] by simp
  then obtain v where "try_load prog_env [97] EXT_COMX prog_start = Some (de_file_size prog_file,
      prog_start\<lparr>l_vol := v, l_ram := put_img (file_buf prog_env) 35 (chain_bytes32 (ram_sec (device prog_vol)) prog_vol [3]) (l_ram prog_start)\<rparr>)"
    using try_load_file [OF prog_disk prog_root _ prog_found' prog_file_chain] by (auto simp: prog_size prog_fields fat32_consts)
  then show ?thesis
    using assms prog_image_header [of "[16, 0, 0, 0]", OF _ prog_content] by (auto simp: prog_header prog_env_def)
qed

lemma prog_loaded_header:
  "length bss = 4 \<Longrightarrow> comx_header_at (l_ram (prog_loaded bss)) 0x200000 = comx_header_at (\<lambda>a. prog_bytes bss ! unat a) 0"
  unfolding prog_loaded_def using prog_image_header [of bss "prog_bytes bss"] by (simp add: prog_length)

lemma prog_loaded_code:
  assumes "length bss = 4"
  shows "map (bytes_at (l_ram (prog_loaded bss)) 0x200020) [0..<3] = [0xB8, 0x01, 0xC3]"
proof -
  have "bytes_at (l_ram (prog_loaded bss)) 0x200020 j = drop 32 (prog_bytes bss) ! j" if "j < 3" for j
  proof -
    have "bytes_at (l_ram (prog_loaded bss)) 0x200020 j = bytes_at (l_ram (prog_loaded bss)) 0x200000 (32 + j)" by (simp add: bytes_at_def add.assoc [symmetric])
    then show ?thesis using prog_at [of bss "32 + j"] that assms by (simp add: prog_length)
  qed
  then show ?thesis unfolding prog_code [OF assms] by (simp add: upt_conv_Cons)
qed

section \<open>Properties\<close>





text \<open>
  No program is ever executed: when \<open>loader_run\<close> gets as far as \<open>loader_enter_ring3\<close>, the \<open>iret\<close> there raises a general protection fault, because the
  code selector it pushes has requested privilege level 0.
\<close>

theorem loader_run_faults:
  assumes "loader_run env name s = Some (Inr out, s')"
  shows "out = GP_fault 0x38"
proof -
  have f: "fst (loader_enter_ring3 eip esp fl c t) = GP_fault 0x38" for eip esp fl c t
    by (simp add: loader_enter_ring3_def iret_def seg_dpl_def sched_consts Let_def drop_bit_eq_div)
  have e: "fst (enter env eip t) = Inr (GP_fault 0x38)" for eip t by (simp add: enter_eq f)
  have "fst (loader_run_com env d n t) = Inr out \<Longrightarrow> ?thesis" for d n t
    by (auto simp: loader_run_com_def e split: if_splits)
  moreover have "fst (loader_run_exe env d n t) = Inr out \<Longrightarrow> ?thesis" for d n t
    by (simp add: loader_run_exe_def e Let_def split: if_splits)
  moreover have "fst (loader_run_comx env n t) = Inr out \<Longrightarrow> ?thesis" for n t
    by (simp add: loader_run_comx_def e Let_def split: if_splits)
  ultimately show ?thesis using assms
    by (auto simp: loader_run_def Option.bind_eq_Some_conv split: if_splits) (metis fst_conv)+
qed

theorem loader_run_faults_witness: "\<exists>s'. loader_run prog_env [97] prog_start = Some (Inr (GP_fault 0x38), s')"
proof -
  obtain out s' where r: "loader_run prog_env [97] prog_start = Some (Inr out, s')" using prog_runs by (auto simp: enter_eq)
  from loader_run_faults [OF r] r show ?thesis by auto
qed

lemma comx_checked:
  assumes "fst (loader_run_comx env fs s) = Inr out" "h = comx_header_at (l_ram s) (file_buf env)"
  shows "comx_check_version h" "h_code_size h \<noteq> 0" "h_code_size h \<le> COMX_MAX_SIZE" "COMX_HEADER_SIZE + h_code_size h \<le> fs"
    "h_flags h AND COMX_FLAG_SSE \<noteq> 0 \<longrightarrow> cpu_has_feature CPU_FEATURE_SSE (l_features env)"
    "h_flags h AND COMX_FLAG_SSE2 \<noteq> 0 \<longrightarrow> cpu_has_feature CPU_FEATURE_SSE2 (l_features env)"
    "h_flags h AND COMX_FLAG_MMX \<noteq> 0 \<longrightarrow> cpu_has_feature CPU_FEATURE_MMX (l_features env)"
    "loader_checksum (l_ram s) (file_buf env + COMX_HEADER_SIZE) (h_code_size h) = h_checksum h"
    "user_ptr_valid (h_load_addr h) (h_code_size h + h_bss_size h)"
  using assms(1) unfolding loader_run_comx_def Let_def assms(2) [symmetric] by (auto split: if_splits)

lemma offset_inj: "i < 40000 \<Longrightarrow> j < 40000 \<Longrightarrow> p + of_nat i = p + of_nat j \<longleftrightarrow> i = j" for p :: u32
proof -
  assume "i < 40000" "j < 40000"
  then have "unat (of_nat i :: u32) = i" "unat (of_nat j :: u32) = j" by (simp_all add: unat_of_nat_u32)
  then show ?thesis by (metis add_left_imp_eq)
qed

text \<open>
  C13. A single damaged byte is noticed: if the \<^verbatim>\<open>.comx\<close> file in the buffer is accepted, then the same file with any one byte of the code replaced by another value is
  rejected for its checksum, and nothing is loaded.
\<close>

theorem comx_corruption_rejected:
  assumes "buffer_placed env" and h: "h = comx_header_at (l_ram s) (file_buf env)"
    and acc: "fst (loader_run_comx env fs s) = Inr out"
    and k: "k < unat (h_code_size h)" and v: "v \<noteq> l_ram s (file_buf env + of_nat (32 + k))"
    and t: "t = s\<lparr>l_ram := (l_ram s)(file_buf env + of_nat (32 + k) := v)\<rparr>"
  shows "loader_run_comx env fs t = (Inl Checksum_mismatch, t)"
proof -
  note c = comx_checked [OF acc h]
  have n: "unat (h_code_size h) \<le> 32768" using c(3) by (simp add: loader_consts word_le_nat_alt)
  have ht: "comx_header_at (l_ram t) (file_buf env) = h" unfolding h
    by (rule comx_header_cong) (use offset_inj [of _ "32 + k" "file_buf env"] k n in \<open>simp add: t\<close>)
  let ?bs = "map (bytes_at (l_ram s) (file_buf env + 32)) [0..<unat (h_code_size h)]"
  have at: "bytes_at m (file_buf env + 32) j = m (file_buf env + of_nat (32 + j))" for m j by (simp add: bytes_at_def add.assoc)
  have bs: "map (bytes_at (l_ram t) (file_buf env + 32)) [0..<unat (h_code_size h)] = ?bs[k := v]"
  proof (rule nth_equalityI)
    fix j assume "j < length (map (bytes_at (l_ram t) (file_buf env + 32)) [0..<unat (h_code_size h)])"
    then have j: "j < unat (h_code_size h)" by simp
    then have "l_ram t (file_buf env + of_nat (32 + j)) = (if j = k then v else l_ram s (file_buf env + of_nat (32 + j)))"
      using offset_inj [of "32 + j" "32 + k" "file_buf env"] k n unfolding t by simp
    then show "map (bytes_at (l_ram t) (file_buf env + 32)) [0..<unat (h_code_size h)] ! j = ?bs[k := v] ! j"
      using j by (simp only: at nth_map nth_upt nth_list_update length_map length_upt) (simp add: at)
  qed simp
  have "v \<noteq> ?bs ! k" using v k by (simp add: at)
  then have "checksum_list 0 (?bs[k := v]) \<noteq> checksum_list 0 ?bs" using checksum_update [of k ?bs 0 v] k by auto
  then have "loader_checksum (l_ram t) (file_buf env + COMX_HEADER_SIZE) (h_code_size h) \<noteq> h_checksum h"
    using c(8) unfolding loader_checksum_list COMX_HEADER_SIZE_def bs by simp
  then show ?thesis
    unfolding loader_run_comx_def Let_def ht using c(1-7) by (auto simp: not_less)
qed

theorem comx_corruption_rejected_witness:
  "let t = (prog_loaded [16, 0, 0, 0])\<lparr>l_ram := (l_ram (prog_loaded [16, 0, 0, 0]))(0x200021 := 9)\<rparr>
   in loader_run_comx prog_env 35 t = (Inl Checksum_mismatch, t)"
proof -
  let ?s = "prog_loaded [16, 0, 0, 0]"
  have h: "prog_header = comx_header_at (l_ram ?s) (file_buf prog_env)"
    using prog_loaded_header [of "[16, 0, 0, 0]"] by (simp add: prog_header prog_env_def)
  have acc: "fst (loader_run_comx prog_env 35 ?s) = Inr (fst (loader_enter_ring3 0x50001 USER_STACK_TOP 2 (l_cpu prog_env) (l_sched ?s)))"
    using run_comx_accepts [OF prog_placed h, of 35] prog_loaded_code [of "[16, 0, 0, 0]"] prog_acceptable
    by (simp add: prog_header_def prog_env_def enter_eq)
  have "l_ram ?s 0x200021 = 1" using prog_at [of "[16, 0, 0, 0]" 33] by (simp add: bytes_at_def prog_bytes_def)
  then show ?thesis
    using comx_corruption_rejected [OF prog_placed h acc, of 1 9] by (simp add: prog_header_def prog_env_def Let_def)
qed

lemma clear_bss_zero: "m a = 0 \<Longrightarrow> clear_bss data lp i m a = 0"
  by (induction data lp i m rule: clear_bss.induct) (subst clear_bss.simps, auto)

text \<open>
  The test of the load address can be passed by sizes whose sum wraps around.  The file is then accepted, and clearing the BSS sets all memory from the end of the code up to the file buffer to
  zero, the kernel's stacks and page tables included.
\<close>

theorem comx_bss_wraps:
  assumes p: "buffer_placed env" and h: "h = comx_header_at (l_ram s) (file_buf env)"
    and acc: "loader_run_comx env fs s = (Inr out, s')"
    and wrap: "4294967296 \<le> unat (h_code_size h) + unat (h_bss_size h)"
    and a: "0x8A000 \<le> unat a" "unat a < unat (file_buf env)"
  shows "l_ram s' a = 0"
proof -
  let ?l = "h_load_addr h" and ?c = "h_code_size h" and ?n = "h_bss_size h" and ?d = "file_buf env"
  have ok: "fst (loader_run_comx env fs s) = Inr out" using acc by simp
  note c = comx_checked [OF ok h]
  have n: "unat ?c \<le> 32768" using c(3) by (simp add: loader_consts word_le_nat_alt)
  have "unat ?l \<le> 0x82000"
  proof (cases "?c + ?n = 0")
    case True
    with c(9) have v: "0x50000 \<le> unat ?l" "unat (?l - 1) \<le> 0x81FFF"
      by (simp_all add: user_ptr_valid_def Let_def layout_defs word_less_nat_alt not_less split: if_splits)
    then have "?l \<noteq> 0" by auto
    with v(2) show ?thesis by (simp add: unat_minus_one)
  next
    case False
    with c(9) user_ptr_valid_iff [OF False] show ?thesis by simp
  qed
  then have lc: "unat (?l + ?c) = unat ?l + unat ?c" "unat ?l + unat ?c \<le> 0x8A000" using n by (simp_all add: unat_word_ariths)
  have d: "0x200000 \<le> unat ?d" "unat ?d + 32800 \<le> 4294967296" using p by (simp_all add: buffer_placed_def)
  let ?m = "copy_ram ?l ?c (bytes_at (l_ram s) (?d + 32)) (l_ram s)"
  have copied: "copy_code ?d ?l 0 (l_ram s) = ?m"
    using copy_code_run [of "l_ram s" ?d ?c ?l 0] far [of ?l "unat ?c" ?d] d lc n h by simp
  have hm: "comx_header_at ?m ?d = h" unfolding h
    by (rule comx_header_cong) (use far [of ?l "unat ?c" ?d] d lc in \<open>simp add: copy_ram_other [of _ ?c] h [symmetric]\<close>)
  define k where "k = ?d - (?l + ?c)"
  have le: "?l + ?c \<le> ?d" using lc d by (simp add: word_le_nat_alt)
  then have uk: "unat k = unat ?d - (unat ?l + unat ?c)" using lc by (simp add: k_def unat_sub)
  have kn: "k \<le> ?n" using uk wrap lc d n unfolding word_le_nat_alt by linarith
  have ap: "unat k \<le> unat (?d + of_nat j - (?l + ?c))" if "j < 28" for j
    using far [of "?l + ?c" "unat k" ?d j] that d lc uk by simp
  have "clear_bss ?d ?l 0 ?m = clear_bss ?d ?l k (copy_ram (?l + ?c) k (\<lambda>_. 0) ?m)"
    using clear_bss_run [of ?m ?d ?c ?n k ?l 0] hm ap kn by simp
  moreover have "copy_ram (?l + ?c) k (\<lambda>_. 0) ?m a = 0"
  proof -
    have "?l + ?c \<le> a" using a lc by (simp add: word_le_nat_alt)
    then have "unat (a - (?l + ?c)) < unat k" using uk a lc by (simp add: unat_sub)
    then show ?thesis by (simp add: copy_ram_def word_less_nat_alt)
  qed
  ultimately have z: "clear_bss ?d ?l 0 (copy_code ?d ?l 0 (l_ram s)) a = 0" using clear_bss_zero copied by metis
  have "l_ram s' = clear_bss ?d ?l 0 (copy_code ?d ?l 0 (l_ram s))"
    using acc c unfolding loader_run_comx_def Let_def h [symmetric] by (auto simp: enter_eq not_less split: if_splits)
  with z show ?thesis by simp
qed

theorem comx_bss_wraps_witness:
  "\<exists>out s'. loader_run_comx prog_env 35 (prog_loaded [0xFF, 0xFF, 0xFF, 0xFF]) = (Inr out, s') \<and> l_ram s' 0x90000 = 0"
proof -
  let ?s = "prog_loaded [0xFF, 0xFF, 0xFF, 0xFF]" and ?h = "prog_header\<lparr>h_bss_size := 0xFFFFFFFF\<rparr>"
  have h: "?h = comx_header_at (l_ram ?s) (file_buf prog_env)"
    using prog_loaded_header [of "[0xFF, 0xFF, 0xFF, 0xFF]"]
    by (simp add: prog_env_def comx_header_at_def bytes_at_def rd32_def prog_bytes_def prog_header_def Let_def)
  have "loader_checksum (l_ram ?s) (file_buf prog_env + 32) 3 = 0x2ECB"
    using prog_loaded_code [of "[0xFF, 0xFF, 0xFF, 0xFF]"] by (simp add: loader_checksum_list prog_env_def prog_sum)
  then have "\<exists>out s'. loader_run_comx prog_env 35 ?s = (Inr out, s')"
    unfolding loader_run_comx_def Let_def h [symmetric]
    by (simp add: prog_header_def comx_check_version_def loader_consts user_ptr_valid_def layout_defs enter_eq)
  then obtain out s' where r: "loader_run_comx prog_env 35 ?s = (Inr out, s')" by blast
  from comx_bss_wraps [OF prog_placed h r, of "0x90000"] have "l_ram s' 0x90000 = 0" by (simp add: prog_header_def prog_env_def)
  with r show ?thesis by blast
qed

end
