(* ===== verification/Fastmem.thy ===== *)
theory Fastmem
  imports Cpu Cstring
begin

text \<open>
  Block copies, fills and comparisons with run time dispatch, \<^verbatim>\<open>src/lib/fast_mem.c\<close>.  The inline assembly is
  modelled by what its instructions do: a vector register is its list of bytes, \<open>movdqa\<close> and \<open>vmovdqa\<close> raise a general protection
  fault on an address that is not a multiple of the register's size, VEX encoded instructions an invalid opcode exception while
  AVX is not enabled.
\<close>

datatype fault = GP | UD | Null_call

datatype impl = Baseline | SSE2 | AVX

record fast_mem =
  memcpy_impl :: "impl option"
  memset_impl :: "impl option"
  memcmp_impl :: bool \<comment> \<open>\<open>memcmp_sse2\<close> is selected\<close>

section \<open>Alignment\<close>

text \<open>The distance of an address to the next multiple of \<open>2 ^ k\<close>, and how it shrinks.\<close>

definition pad :: "nat \<Rightarrow> u32 \<Rightarrow> nat" where
  "pad k d = unat (- d AND mask k)"

lemma and_mask_0: "x AND mask k = 0 \<longleftrightarrow> unat (x :: u32) mod 2 ^ k = 0"
  using unat_mask [of x k] by (metis unat_eq_0)

lemma aligned_sum:
  fixes x y :: u32
  assumes "k \<le> 32" and "x AND mask k = 0"
  shows "(x + y) AND mask k = 0 \<longleftrightarrow> y AND mask k = 0"
proof -
  have "(2 :: nat) ^ k dvd 2 ^ 32" using assms(1) by (rule le_imp_power_dvd)
  then have "unat (x + y) mod 2 ^ k = (unat x + unat y) mod 2 ^ k"
    by (simp add: unat_word_ariths mod_mod_cancel)
  also have "\<dots> = unat y mod 2 ^ k" using assms(2) by (simp add: and_mask_0 mod_add_left_eq [symmetric] del: mod_add_left_eq)
  finally show ?thesis by (simp add: and_mask_0)
qed

lemma pad_0: "k \<le> 32 \<Longrightarrow> pad k d = 0 \<longleftrightarrow> d AND mask k = 0"
  using aligned_sum [of k d "- d"] aligned_sum [of k "- d" d] by (auto simp: pad_def unat_eq_0)

lemma mod_pred: "n mod m \<noteq> 0 \<Longrightarrow> n mod m = Suc ((n - 1) mod m)" for n m :: nat
  using mod_Suc [of "n - 1" m] by (cases n) (auto split: if_splits)

lemma pad_step: "k \<le> 32 \<Longrightarrow> d AND mask k \<noteq> 0 \<Longrightarrow> pad k d = Suc (pad k (d + 1))"
proof -
  assume "k \<le> 32" "d AND mask k \<noteq> 0"
  then have "pad k d \<noteq> 0" by (simp add: pad_0)
  then have nz: "unat (- d) mod 2 ^ k \<noteq> 0" by (simp add: pad_def unat_mask)
  then have "unat (- d) \<noteq> 0" by (metis mod_0)
  then have "unat (- d - 1) = unat (- d) - 1" by (intro unat_minus_one) (simp add: unat_eq_0)
  with mod_pred [OF nz] show ?thesis by (simp add: pad_def unat_mask)
qed

lemma pad_less: "pad k d < 2 ^ k"
  by (simp add: pad_def unat_mask)

lemma aligned_pad: "k \<le> 32 \<Longrightarrow> (d + of_nat (pad k d)) AND mask k = 0"
proof (induction "pad k d" arbitrary: d)
  case 0
  then show ?case using pad_0 [of k d] by simp
next
  case (Suc n)
  then have "d AND mask k \<noteq> 0" using pad_0 [of k d] by auto
  note step = pad_step [OF Suc.prems this]
  have "d + of_nat (pad k d) = d + 1 + of_nat (pad k (d + 1))" by (simp add: step)
  moreover have "(d + 1 + of_nat (pad k (d + 1))) AND mask k = 0" by (rule Suc.hyps(1)) (use step Suc.hyps(2) Suc.prems in simp_all)
  ultimately show ?case by (simp only:)
qed

lemma aligned_of_nat: "2 ^ k dvd n \<Longrightarrow> (of_nat n :: u32) AND mask k = 0"
proof -
  assume "2 ^ k dvd n"
  then obtain q where "n = 2 ^ k * q" by (auto elim: dvdE)
  then have "(of_nat n :: u32) = push_bit k (of_nat q)" by (simp add: push_bit_eq_mult mult.commute)
  then show ?thesis by (simp add: bit_eq_iff bit_simps)
qed

lemma masks: "(3 :: u32) = mask 2" "(15 :: u32) = mask 4" "(31 :: u32) = mask 5" "(0 :: u32) = mask 0"
  by (simp_all add: mask_eq_exp_minus_1)

lemma pad_step3: "d AND 3 \<noteq> 0 \<Longrightarrow> pad 2 d = Suc (pad 2 (d + 1))"
  using pad_step [of 2 d] by (simp add: mask_eq_exp_minus_1)

lemma blocks_decrease: "0 < w \<Longrightarrow> 0 < k \<Longrightarrow> \<not> n < w * k \<Longrightarrow> n - w * k < n" for n w k :: nat
  using mult_pos_pos [of w k] by linarith

section \<open>Loads and stores\<close>

definition get_bytes :: "nat \<Rightarrow> u32 \<Rightarrow> mem \<Rightarrow> u8 list" where
  "get_bytes w a m = map (\<lambda>i. m (a + of_nat i)) [0..<w]"

fun put_bytes :: "u8 list \<Rightarrow> u32 \<Rightarrow> mem \<Rightarrow> mem" where
  "put_bytes [] a m = m"
| "put_bytes (b # bs) a m = put_bytes bs (a + 1) (m(a := b))"

text \<open>\<open>k\<close> consecutive loads into registers of \<open>w\<close> bytes; \<open>al\<close> is the alignment mask of the instruction, 0 for unaligned moves.\<close>

fun load_regs :: "u32 \<Rightarrow> nat \<Rightarrow> nat \<Rightarrow> u32 \<Rightarrow> mem \<Rightarrow> fault + u8 list list" where
  "load_regs al w 0 a m = Inr []"
| "load_regs al w (Suc k) a m =
     (if a AND al \<noteq> 0 then Inl GP
      else case load_regs al w k (a + of_nat w) m of Inl e \<Rightarrow> Inl e | Inr rs \<Rightarrow> Inr (get_bytes w a m # rs))"

fun store_regs :: "u32 \<Rightarrow> nat \<Rightarrow> u8 list list \<Rightarrow> u32 \<Rightarrow> mem \<Rightarrow> fault + mem" where
  "store_regs al w [] a m = Inr m"
| "store_regs al w (r # rs) a m =
     (if a AND al \<noteq> 0 then Inl GP else store_regs al w rs (a + of_nat w) (put_bytes r a m))"

section \<open>Copies\<close>

text \<open>The state of a copy loop: bytes left, destination, source and memory.\<close>

type_synonym cp = "nat \<times> u32 \<times> u32 \<times> mem"

text \<open>\<open>while ((size_t)d & 3) { *d++ = *s++; n--; }\<close>, where \<open>n\<close> is not tested.\<close>

function align_word :: "u32 \<Rightarrow> u32 \<Rightarrow> u32 \<Rightarrow> mem \<Rightarrow> u32 \<times> u32 \<times> u32 \<times> mem" where
  "align_word d s n m = (if d AND 3 \<noteq> 0 then align_word (d + 1) (s + 1) (n - 1) (m(d := m s)) else (d, s, n, m))"
  by pat_completeness auto

termination align_word
  by (relation "measure (\<lambda>(d, s, n, m). pad 2 d)") (auto simp: pad_step3)

text \<open>\<open>rep movsl\<close> with the direction flag clear.\<close>

fun rep_movsl :: "nat \<Rightarrow> u32 \<Rightarrow> u32 \<Rightarrow> mem \<Rightarrow> u32 \<times> u32 \<times> mem" where
  "rep_movsl 0 d s m = (d, s, m)"
| "rep_movsl (Suc c) d s m = rep_movsl c (d + 4) (s + 4) (put_bytes (get_bytes 4 s m) d m)"

text \<open>\<open>while (n > 0 && ((size_t)d & al)) { *d++ = *s++; n--; }\<close>\<close>

fun align_copy :: "u32 \<Rightarrow> nat \<Rightarrow> u32 \<Rightarrow> u32 \<Rightarrow> mem \<Rightarrow> cp" where
  "align_copy al 0 d s m = (0, d, s, m)"
| "align_copy al (Suc n) d s m =
     (if d AND al \<noteq> 0 then align_copy al n (d + 1) (s + 1) (m(d := m s)) else (Suc n, d, s, m))"

text \<open>\<open>while (n >= w * k)\<close>: \<open>k\<close> loads, then \<open>k\<close> stores.\<close>

function copy_blocks :: "u32 \<Rightarrow> nat \<Rightarrow> nat \<Rightarrow> cp \<Rightarrow> fault + cp" where
  "copy_blocks al w k (n, d, s, m) =
     (if w * k = 0 \<or> n < w * k then Inr (n, d, s, m)
      else case load_regs al w k s m of
        Inl e \<Rightarrow> Inl e
      | Inr rs \<Rightarrow> (case store_regs al w rs d m of
          Inl e \<Rightarrow> Inl e
        | Inr m \<Rightarrow> copy_blocks al w k (n - w * k, d + of_nat (w * k), s + of_nat (w * k), m)))"
  by pat_completeness auto

termination copy_blocks
  by (relation "measure (\<lambda>(al, w, k, n, d, s, m). n)") (auto simp: blocks_decrease)

definition memcpy_sse2 :: "u32 \<Rightarrow> u32 \<Rightarrow> u32 \<Rightarrow> mem \<Rightarrow> fault + u32 \<times> mem" where
  "memcpy_sse2 dst src n m =
     (case copy_blocks 15 16 8 (align_copy 15 (unat n) dst src m) of
        Inl e \<Rightarrow> Inl e
      | Inr st \<Rightarrow> (case copy_blocks 0 16 1 st of
          Inl e \<Rightarrow> Inl e
        | Inr (n, d, s, m) \<Rightarrow> Inr (dst, copy_up n d s m)))"

definition memcpy_baseline :: "u32 \<Rightarrow> u32 \<Rightarrow> u32 \<Rightarrow> mem \<Rightarrow> u32 \<times> mem" where
  "memcpy_baseline dst src n m =
     (if n < 4 then (dst, copy_up (unat n) dst src m)
      else let (d, s, n, m) = align_word dst src n m;
               (d, s, n, m) = (if n \<ge> 4 then let (d, s, m) = rep_movsl (unat (n div 4)) d s m in (d, s, n AND 3, m)
                               else (d, s, n, m))
           in (dst, copy_up (unat n) d s m))"

text \<open>After the byte loop the AVX version always executes a VEX encoded instruction, \<open>vmovdqa\<close> or \<open>vzeroupper\<close>.\<close>

definition memcpy_avx :: "bool \<Rightarrow> u32 \<Rightarrow> u32 \<Rightarrow> u32 \<Rightarrow> mem \<Rightarrow> fault + u32 \<times> mem" where
  "memcpy_avx avx dst src n m =
     (let st = align_copy 31 (unat n) dst src m in
      if \<not> avx then Inl UD
      else case copy_blocks 31 32 8 st of
        Inl e \<Rightarrow> Inl e
      | Inr st \<Rightarrow> (case copy_blocks 31 32 1 st of
          Inl e \<Rightarrow> Inl e
        | Inr (n, d, s, m) \<Rightarrow> Inr (dst, copy_up n d s m)))"

section \<open>Fills\<close>

function align_word_set :: "u32 \<Rightarrow> u32 \<Rightarrow> u8 \<Rightarrow> mem \<Rightarrow> u32 \<times> u32 \<times> mem" where
  "align_word_set d n v m = (if d AND 3 \<noteq> 0 then align_word_set (d + 1) (n - 1) v (m(d := v)) else (d, n, m))"
  by pat_completeness auto

termination align_word_set
  by (relation "measure (\<lambda>(d, n, v, m). pad 2 d)") (auto simp: pad_step3)

definition pattern32 :: "u8 \<Rightarrow> u32" where
  "pattern32 v = ucast v OR push_bit 8 (ucast v) OR push_bit 16 (ucast v) OR push_bit 24 (ucast v)"

fun rep_stosl :: "nat \<Rightarrow> u32 \<Rightarrow> u32 \<Rightarrow> mem \<Rightarrow> u32 \<times> mem" where
  "rep_stosl 0 d eax m = (d, m)"
| "rep_stosl (Suc c) d eax m = rep_stosl c (d + 4) eax (put_bytes (bytes32 eax) d m)"

fun align_set :: "u32 \<Rightarrow> nat \<Rightarrow> u32 \<Rightarrow> u8 \<Rightarrow> mem \<Rightarrow> nat \<times> u32 \<times> mem" where
  "align_set al 0 d v m = (0, d, m)"
| "align_set al (Suc n) d v m = (if d AND al \<noteq> 0 then align_set al n (d + 1) v (m(d := v)) else (Suc n, d, m))"

function set_blocks :: "u32 \<Rightarrow> nat \<Rightarrow> nat \<Rightarrow> u8 list \<Rightarrow> nat \<times> u32 \<times> mem \<Rightarrow> fault + nat \<times> u32 \<times> mem" where
  "set_blocks al w k r (n, d, m) =
     (if w * k = 0 \<or> n < w * k then Inr (n, d, m)
      else case store_regs al w (replicate k r) d m of
        Inl e \<Rightarrow> Inl e
      | Inr m \<Rightarrow> set_blocks al w k r (n - w * k, d + of_nat (w * k), m))"
  by pat_completeness auto

termination set_blocks
  by (relation "measure (\<lambda>(al, w, k, r, n, d, m). n)") (auto simp: blocks_decrease)

declare align_word.simps [simp del] copy_blocks.simps [simp del] align_word_set.simps [simp del] set_blocks.simps [simp del]

text \<open>The 16 byte register after \<open>movd\<close>, \<open>punpcklbw\<close>, \<open>punpcklwd\<close> and \<open>pshufd $0\<close>.\<close>

definition movd :: "u32 \<Rightarrow> u8 list" where "movd w = bytes32 w @ replicate 12 0"
definition punpcklbw :: "u8 list \<Rightarrow> u8 list" where "punpcklbw x = concat (map (\<lambda>i. [x ! i, x ! i]) [0..<8])"
definition punpcklwd :: "u8 list \<Rightarrow> u8 list" where
  "punpcklwd x = concat (map (\<lambda>i. [x ! (2 * i), x ! (2 * i + 1), x ! (2 * i), x ! (2 * i + 1)]) [0..<4])"
definition pshufd0 :: "u8 list \<Rightarrow> u8 list" where "pshufd0 x = concat (replicate 4 (take 4 x))"

definition memset_baseline :: "u32 \<Rightarrow> u32 \<Rightarrow> u32 \<Rightarrow> mem \<Rightarrow> u32 \<times> mem" where
  "memset_baseline dst c n m =
     (let val = ucast c in
      if n < 4 then (dst, memset_loop (unat n) dst val m)
      else let (d, n, m) = align_word_set dst n val m;
               (d, n, m) = (if n \<ge> 4 then let (d, m) = rep_stosl (unat (n div 4)) d (pattern32 val) m in (d, n AND 3, m)
                            else (d, n, m))
           in (dst, memset_loop (unat n) d val m))"

definition memset_sse2 :: "u32 \<Rightarrow> u32 \<Rightarrow> u32 \<Rightarrow> mem \<Rightarrow> fault + u32 \<times> mem" where
  "memset_sse2 dst c n m =
     (let val = ucast c;
          st = align_set 15 (unat n) dst val m;
          xmm0 = pshufd0 (punpcklwd (punpcklbw (movd (pattern32 val))))
      in case set_blocks 15 16 8 xmm0 st of
        Inl e \<Rightarrow> Inl e
      | Inr st \<Rightarrow> (case set_blocks 15 16 1 xmm0 st of
          Inl e \<Rightarrow> Inl e
        | Inr (n, d, m) \<Rightarrow> Inr (dst, memset_loop n d val m)))"

definition memset_avx :: "bool \<Rightarrow> u32 \<Rightarrow> u32 \<Rightarrow> u32 \<Rightarrow> mem \<Rightarrow> fault + u32 \<times> mem" where
  "memset_avx avx dst c n m =
     (let val = ucast c; st = align_set 31 (unat n) dst val m in
      if \<not> avx then Inl UD
      else let xmm0 = pshufd0 (punpcklwd (punpcklbw (movd (pattern32 val)))); ymm0 = xmm0 @ xmm0
      in case set_blocks 31 32 8 ymm0 st of
        Inl e \<Rightarrow> Inl e
      | Inr st \<Rightarrow> (case set_blocks 31 32 1 ymm0 st of
          Inl e \<Rightarrow> Inl e
        | Inr (n, d, m) \<Rightarrow> Inr (dst, memset_loop n d val m)))"

section \<open>Comparison\<close>

definition load32 :: "u32 \<Rightarrow> mem \<Rightarrow> u32" where
  "load32 p m = ucast (m p) OR push_bit 8 (ucast (m (p + 1))) OR push_bit 16 (ucast (m (p + 2))) OR push_bit 24 (ucast (m (p + 3)))"

definition pcmpeqb :: "u8 list \<Rightarrow> u8 list \<Rightarrow> u8 list" where
  "pcmpeqb x y = map2 (\<lambda>a b. if a = b then 0xFF else 0) x y"

definition pmovmskb :: "u8 list \<Rightarrow> u32" where
  "pmovmskb x = horner_sum of_bool 2 (map (\<lambda>b. bit b 7) x)"

text \<open>The loops stop at the first word or block that differs, and return the remaining length and the two pointers.\<close>

fun skip_words :: "nat \<Rightarrow> u32 \<Rightarrow> u32 \<Rightarrow> mem \<Rightarrow> nat \<times> u32 \<times> u32" where
  "skip_words n p1 p2 m =
     (if n \<ge> 4 then if load32 p1 m \<noteq> load32 p2 m then (n, p1, p2) else skip_words (n - 4) (p1 + 4) (p2 + 4) m
      else (n, p1, p2))"

fun skip_blocks :: "nat \<Rightarrow> u32 \<Rightarrow> u32 \<Rightarrow> mem \<Rightarrow> nat \<times> u32 \<times> u32" where
  "skip_blocks n p1 p2 m =
     (if n \<ge> 16
      then if pmovmskb (pcmpeqb (get_bytes 16 p1 m) (get_bytes 16 p2 m)) \<noteq> 0xFFFF then (n, p1, p2)
           else skip_blocks (n - 16) (p1 + 16) (p2 + 16) m
      else (n, p1, p2))"

declare skip_words.simps [simp del] skip_blocks.simps [simp del]

definition memcmp_sse2 :: "u32 \<Rightarrow> u32 \<Rightarrow> u32 \<Rightarrow> mem \<Rightarrow> int" where
  "memcmp_sse2 s1 s2 n m = (let (n, p1, p2) = skip_blocks (unat n) s1 s2 m in memcmp_loop n p1 p2 m)"

section \<open>Dispatch\<close>

definition fast_mem_init :: "cpuinfo \<Rightarrow> fast_mem" where
  "fast_mem_init c =
     (let i = (if cpu_has_group CPU_GROUP_AVX c then AVX
               else if cpu_has_feature CPU_FEATURE_SSE2 c then SSE2
               else Baseline)
      in \<lparr>memcpy_impl = Some i, memset_impl = Some i, memcmp_impl = cpu_has_feature CPU_FEATURE_SSE2 c\<rparr>)"

definition fast_memcpy :: "cpuinfo \<Rightarrow> fast_mem \<Rightarrow> u32 \<Rightarrow> u32 \<Rightarrow> u32 \<Rightarrow> mem \<Rightarrow> fault + u32 \<times> mem" where
  "fast_memcpy c f dst src n m = (case memcpy_impl f of
     None \<Rightarrow> Inl Null_call
   | Some Baseline \<Rightarrow> Inr (memcpy_baseline dst src n m)
   | Some SSE2 \<Rightarrow> memcpy_sse2 dst src n m
   | Some AVX \<Rightarrow> memcpy_avx (avx_on c) dst src n m)"

definition fast_memset :: "cpuinfo \<Rightarrow> fast_mem \<Rightarrow> u32 \<Rightarrow> u32 \<Rightarrow> u32 \<Rightarrow> mem \<Rightarrow> fault + u32 \<times> mem" where
  "fast_memset c f dst v n m = (case memset_impl f of
     None \<Rightarrow> Inl Null_call
   | Some Baseline \<Rightarrow> Inr (memset_baseline dst v n m)
   | Some SSE2 \<Rightarrow> memset_sse2 dst v n m
   | Some AVX \<Rightarrow> memset_avx (avx_on c) dst v n m)"

definition fast_memcmp :: "fast_mem \<Rightarrow> u32 \<Rightarrow> u32 \<Rightarrow> u32 \<Rightarrow> mem \<Rightarrow> int" where
  "fast_memcmp f s1 s2 n m =
     (if memcmp_impl f \<and> n \<ge> 16 then memcmp_sse2 s1 s2 n m
      else let (n, p1, p2) = skip_words (unat n) s1 s2 m in memcmp_loop n p1 p2 m)"

section \<open>Blocks of bytes\<close>

lemma length_get_bytes [simp]: "length (get_bytes w a m) = w"
  by (simp add: get_bytes_def)

lemma get_bytes_add: "get_bytes (v + w) a m = get_bytes v a m @ get_bytes w (a + of_nat v) m"
  by (rule nth_equalityI) (auto simp: get_bytes_def nth_append add.assoc simp flip: of_nat_add)

lemma put_bytes_append: "put_bytes (xs @ ys) a m = put_bytes ys (a + of_nat (length xs)) (put_bytes xs a m)"
  by (induction xs arbitrary: a m) (simp_all add: add.assoc)

lemma put_bytes_nth:
  "length bs \<le> 4294967295 \<Longrightarrow> put_bytes bs d m a = (if unat (a - d) < length bs then bs ! unat (a - d) else m a)"
proof (induction bs arbitrary: d m)
  case (Cons b bs)
  then have IH: "put_bytes bs (d + 1) (m(d := b)) a = (if unat (a - (d + 1)) < length bs then bs ! unat (a - (d + 1)) else (m(d := b)) a)"
    by simp
  show ?case
  proof (cases "a = d")
    case True
    have "\<not> unat (d - (d + 1)) < length bs" using Cons.prems by simp
    then show ?thesis using True IH by simp
  next
    case False
    then show ?thesis using IH unat_sub_Suc [OF False] by simp
  qed
qed simp

lemma put_bytes_get_bytes: "n \<le> 4294967295 \<Longrightarrow> put_bytes (get_bytes n s m) d m = moved d s n m"
  by (rule ext) (simp add: put_bytes_nth moved_def get_bytes_def)

lemma load_regs_aligned:
  "k \<le> 32 \<Longrightarrow> 2 ^ k dvd w \<Longrightarrow> a AND mask k = 0 \<Longrightarrow>
   \<exists>rs. load_regs (mask k) w c a m = Inr rs \<and> concat rs = get_bytes (w * c) a m \<and> length rs = c \<and> list_all (\<lambda>r. length r = w) rs"
proof (induction c arbitrary: a)
  case 0
  then show ?case by (simp add: get_bytes_def)
next
  case (Suc c)
  have "(a + of_nat w) AND mask k = 0" using aligned_sum [of k a "of_nat w"] aligned_of_nat [of k w] Suc.prems by simp
  from Suc.IH [OF Suc.prems(1,2) this] show ?case using Suc.prems(3) get_bytes_add [of w "w * c" a m] by auto
qed

lemma load_regs_misaligned: "0 < c \<Longrightarrow> a AND al \<noteq> 0 \<Longrightarrow> load_regs al w c a m = Inl GP"
  by (cases c) simp_all

lemma store_regs_aligned:
  "k \<le> 32 \<Longrightarrow> 2 ^ k dvd w \<Longrightarrow> a AND mask k = 0 \<Longrightarrow> list_all (\<lambda>r. length r = w) rs \<Longrightarrow>
   store_regs (mask k) w rs a m = Inr (put_bytes (concat rs) a m)"
proof (induction rs arbitrary: a m)
  case (Cons r rs)
  have "(a + of_nat w) AND mask k = 0" using aligned_sum [of k a "of_nat w"] aligned_of_nat [of k w] Cons.prems by simp
  from Cons.IH [OF Cons.prems(1,2) this] show ?case using Cons.prems by (simp add: put_bytes_append)
qed simp

section \<open>Copies are copies byte by byte\<close>

text \<open>
  A forward copy reads every byte of the source before it overwrites it: the destination does not start inside the source
  block, or is the source itself.
\<close>

definition no_clobber :: "u32 \<Rightarrow> u32 \<Rightarrow> nat \<Rightarrow> bool" where
  "no_clobber d s n \<longleftrightarrow> d = s \<or> n \<le> unat (d - s)"

lemma no_clobber_sub: "no_clobber d s n \<Longrightarrow> k \<le> n \<Longrightarrow> no_clobber (d + x) (s + x) k"
  by (auto simp: no_clobber_def)

lemma no_clobber_apart:
  assumes "no_clobber d s n" "i < j" "j < n" "n < 4294967296"
  shows "d + of_nat i \<noteq> s + of_nat j"
proof
  assume e: "d + of_nat i = s + of_nat j"
  have "d - s = of_nat j - of_nat i" using e by (simp add: algebra_simps)
  also have "\<dots> = of_nat (j - i)" using assms(2) by (simp add: of_nat_diff)
  finally have "unat (d - s) = j - i" using assms by (simp add: unat_of_nat_u32 del: of_nat_diff)
  then show False using assms by (auto simp: no_clobber_def)
qed

lemma block_copy_up: "no_clobber d s n \<Longrightarrow> n \<le> 4294967295 \<Longrightarrow> put_bytes (get_bytes n s m) d m = copy_up n d s m"
  using copy_up_moved [of n d s m] no_clobber_apart [of d s n] by (simp add: put_bytes_get_bytes)

lemma copy_up_add: "copy_up (a + b) d s m = copy_up b (d + of_nat a) (s + of_nat a) (copy_up a d s m)"
  by (induction a arbitrary: d s m) (simp_all add: add.assoc)

lemma align_word_spec:
  "align_word d s n m = (d + of_nat (pad 2 d), s + of_nat (pad 2 d), n - of_nat (pad 2 d), copy_up (pad 2 d) d s m)"
proof (induction d s n m rule: align_word.induct)
  case (1 d s n m)
  show ?case
  proof (cases "d AND 3 = 0")
    case True
    then have "pad 2 d = 0" using pad_0 [of 2 d] by (simp add: mask_eq_exp_minus_1)
    with True show ?thesis by (subst align_word.simps) simp
  next
    case False
    then show ?thesis using 1 [OF False] pad_step3 [OF False] by (subst align_word.simps) (simp add: add.assoc diff_diff_eq del: fun_upd_apply)
  qed
qed

lemma rep_movsl_spec:
  "no_clobber d s (4 * c) \<Longrightarrow> rep_movsl c d s m = (d + of_nat (4 * c), s + of_nat (4 * c), copy_up (4 * c) d s m)"
proof (induction c arbitrary: d s m)
  case (Suc c)
  have "put_bytes (get_bytes 4 s m) d m = copy_up 4 d s m"
    using no_clobber_sub [OF Suc.prems, of 4 0] by (intro block_copy_up) simp_all
  moreover have "no_clobber (d + 4) (s + 4) (4 * c)" by (rule no_clobber_sub [OF Suc.prems]) simp
  moreover have "4 * Suc c = 4 + 4 * c" by simp
  ultimately show ?case using Suc.IH copy_up_add [of 4 "4 * c" d s m] by (simp add: add.assoc)
qed simp

lemma align_copy_spec:
  assumes "k \<le> 32"
  shows "align_copy (mask k) n d s m =
    (n - pad k d, d + of_nat (min n (pad k d)), s + of_nat (min n (pad k d)), copy_up (min n (pad k d)) d s m)"
proof (induction n arbitrary: d s m)
  case (Suc n)
  show ?case
  proof (cases "d AND mask k = 0")
    case True
    then show ?thesis using pad_0 [OF assms, of d] by simp
  next
    case False
    then show ?thesis using Suc.IH pad_step [OF assms False] by (simp add: add.assoc del: fun_upd_apply)
  qed
qed simp

text \<open>The block loops: what they copy from aligned addresses, and where they stop.\<close>

lemma copy_blocks_short: "n < w * c \<Longrightarrow> copy_blocks al w c (n, d, s, m) = Inr (n, d, s, m)"
  by (simp add: copy_blocks.simps)

lemma copy_blocks_misaligned:
  "0 < w \<Longrightarrow> 0 < c \<Longrightarrow> w * c \<le> n \<Longrightarrow> s AND al \<noteq> 0 \<Longrightarrow> copy_blocks al w c (n, d, s, m) = Inl GP"
  by (simp add: copy_blocks.simps load_regs_misaligned)

lemma copy_blocks_aligned:
  assumes "k \<le> 32" "2 ^ k dvd w" "0 < w * c" "w * c \<le> 4294967295"
  shows "d AND mask k = 0 \<Longrightarrow> s AND mask k = 0 \<Longrightarrow> no_clobber d s n \<Longrightarrow>
    copy_blocks (mask k) w c (n, d, s, m) =
      (let q = n div (w * c) * (w * c) in Inr (n - q, d + of_nat q, s + of_nat q, copy_up q d s m))"
proof (induction n arbitrary: d s m rule: less_induct)
  case (less n)
  let ?b = "w * c"
  show ?case
  proof (cases "n < ?b")
    case True
    then show ?thesis by (simp add: copy_blocks_short)
  next
    case False
    have dv: "(of_nat ?b :: u32) AND mask k = 0" using assms(2) by (intro aligned_of_nat) simp
    obtain rs where rs: "load_regs (mask k) w c s m = Inr rs" "concat rs = get_bytes ?b s m" "list_all (\<lambda>r. length r = w) rs"
      using load_regs_aligned [OF assms(1,2) less.prems(2)] by blast
    have st: "store_regs (mask k) w rs d m = Inr (copy_up ?b d s m)"
      using store_regs_aligned [OF assms(1,2) less.prems(1) rs(3)] rs(2) assms(4)
        block_copy_up [of d s ?b m] no_clobber_sub [OF less.prems(3), of ?b 0] False by simp
    have "copy_blocks (mask k) w c (n, d, s, m) =
        copy_blocks (mask k) w c (n - ?b, d + of_nat ?b, s + of_nat ?b, copy_up ?b d s m)"
      using False assms(3) rs(1) st by (subst copy_blocks.simps) simp
    also have "\<dots> = (let q = (n - ?b) div ?b * ?b in Inr (n - ?b - q, d + of_nat ?b + of_nat q, s + of_nat ?b + of_nat q,
        copy_up q (d + of_nat ?b) (s + of_nat ?b) (copy_up ?b d s m)))"
      using less.prems dv assms(1,3) False
      by (intro less.IH) (simp_all add: aligned_sum no_clobber_sub blocks_decrease del: of_nat_mult)
    also have "(n - ?b) div ?b = n div ?b - 1" using False assms(3) by (simp add: le_div_geq)
    also have "(n div ?b - 1) * ?b = n div ?b * ?b - ?b" by (simp add: diff_mult_distrib)
    finally have e: "copy_blocks (mask k) w c (n, d, s, m) = (let q = n div ?b * ?b - ?b in
        Inr (n - ?b - q, d + of_nat ?b + of_nat q, s + of_nat ?b + of_nat q, copy_up q (d + of_nat ?b) (s + of_nat ?b) (copy_up ?b d s m)))" .
    define q where "q = n div ?b * ?b"
    have "?b \<le> q" using False assms(3) by (simp add: q_def le_div_geq)
    then obtain r where r: "q = ?b + r" using le_Suc_ex by blast
    then show ?thesis using e copy_up_add [of ?b r d s m] unfolding q_def [symmetric]
      by (simp add: Let_def add.assoc)
  qed
qed

section \<open>The copy routines\<close>

lemma memcpy_baseline_spec:
  assumes "no_clobber dst src (unat n)"
  shows "memcpy_baseline dst src n m = memcpy dst src n m"
proof (cases "n < 4")
  case True
  then show ?thesis by (simp add: memcpy_baseline_def memcpy_def)
next
  case False
  define p where "p = pad 2 dst"
  define n' where "n' = n - of_nat p"
  define q where "q = unat n' div 4"
  have p: "p < 4" using pad_less [of 2 dst] by (simp add: p_def)
  have n4: "4 \<le> unat n" using False by (simp add: word_less_nat_alt)
  have n': "unat n' = unat n - p"
    using p n4 by (simp add: n'_def unat_sub word_le_nat_alt unat_of_nat_u32)
  have qle: "p + 4 * q \<le> unat n" using n' p n4 by (simp add: q_def)
  have c: "no_clobber (dst + of_nat p) (src + of_nat p) (4 * q)" by (rule no_clobber_sub [OF assms]) (use qle in simp)
  have rest: "unat (n' AND 3) = unat n - (p + 4 * q)"
  proof -
    have "unat (n' AND 3) = unat n' mod 4" using unat_mask [of n' 2] by (simp add: mask_eq_exp_minus_1)
    also have "\<dots> = unat n' - 4 * q" by (simp add: q_def minus_mult_div_eq_mod)
    finally show ?thesis using n' by simp
  qed
  have d4: "unat (n' div 4) = q" by (simp add: q_def unat_div)
  have total: "copy_up (unat n - (p + 4 * q)) (dst + of_nat (p + 4 * q)) (src + of_nat (p + 4 * q)) (copy_up (p + 4 * q) dst src m) =
      copy_up (unat n) dst src m"
    using copy_up_add [of "p + 4 * q" "unat n - (p + 4 * q)" dst src m] qle by simp
  have al: "align_word dst src n m = (dst + of_nat p, src + of_nat p, n', copy_up p dst src m)"
    by (simp add: align_word_spec p_def n'_def)
  show ?thesis
  proof (cases "4 \<le> n'")
    case True
    then show ?thesis using False al rep_movsl_spec [OF c] d4 rest total copy_up_add [of p "4 * q" dst src m]
      by (simp add: memcpy_baseline_def memcpy_def add.assoc)
  next
    case nle: False
    then have "q = 0" by (simp add: q_def word_le_nat_alt not_le)
    then show ?thesis using False nle al n' total by (simp add: memcpy_baseline_def memcpy_def)
  qed
qed

text \<open>After the byte loop: either too few bytes are left for a block, or both pointers are aligned exactly when their distance is.\<close>

lemma aligned_source:
  assumes "k \<le> 32"
  shows "(s + of_nat (pad k d)) AND mask k = 0 \<longleftrightarrow> (s - d) AND mask k = 0"
proof -
  have "s + of_nat (pad k d) = (d + of_nat (pad k d)) + (s - d)" by simp
  then show ?thesis using aligned_sum [OF assms aligned_pad [OF assms, of d], of "s - d"] by (simp add: add.commute)
qed

lemma copy_finish:
  assumes "q \<le> n"
  shows "copy_up (n - q) (d + of_nat q) (s + of_nat q) (copy_up q d s m) = copy_up n d s m"
  using copy_up_add [of q "n - q" d s m] assms by simp

text \<open>
  One pass of the byte loop and of a block loop with \<open>c\<close> registers of \<open>w\<close> bytes: the progress is a number of bytes copied so far.
\<close>

definition at :: "nat \<Rightarrow> u32 \<Rightarrow> u32 \<Rightarrow> mem \<Rightarrow> nat \<Rightarrow> cp" where
  "at n d s m q = (n - q, d + of_nat q, s + of_nat q, copy_up q d s m)"

lemma align_at: "k \<le> 32 \<Longrightarrow> align_copy (mask k) n d s m = at n d s m (min n (pad k d))"
  by (simp add: at_def align_copy_spec)

lemma blocks_at:
  assumes "k \<le> 32" "2 ^ k dvd w" "0 < w * c" "w * c \<le> 4294967295" "no_clobber d s n" "q \<le> n"
    "(d + of_nat q) AND mask k = 0" "(s + of_nat q) AND mask k = 0"
  shows "\<exists>r\<ge>q. r \<le> n \<and> (r - q) mod (w * c) = 0 \<and> n - r < w * c \<and> copy_blocks (mask k) w c (at n d s m q) = Inr (at n d s m r)"
proof -
  define t where "t = (n - q) div (w * c) * (w * c)"
  have t: "t \<le> n - q" by (simp add: t_def)
  have "copy_blocks (mask k) w c (at n d s m q) =
      Inr (n - q - t, d + of_nat q + of_nat t, s + of_nat q + of_nat t, copy_up t (d + of_nat q) (s + of_nat q) (copy_up q d s m))"
    using copy_blocks_aligned [OF assms(1-4,7,8) no_clobber_sub [OF assms(5)], of "n - q"] by (simp add: at_def t_def Let_def)
  also have "\<dots> = Inr (at n d s m (q + t))" by (simp add: at_def copy_up_add add.assoc)
  finally have "copy_blocks (mask k) w c (at n d s m q) = Inr (at n d s m (q + t))" .
  moreover have "n - (q + t) = (n - q) mod (w * c)" by (simp add: t_def minus_div_mult_eq_mod flip: diff_diff_left)
  moreover have "(n - q) mod (w * c) < w * c" using assms(3) by simp
  moreover have "t mod (w * c) = 0" by (simp add: t_def)
  ultimately show ?thesis using t assms(6) by (intro exI [of _ "q + t"]) auto
qed

lemma blocks_short_at: "n - q < w * c \<Longrightarrow> copy_blocks al w c (at n d s m q) = Inr (at n d s m q)"
  by (simp add: at_def copy_blocks_short)

lemma blocks_fault_at:
  "0 < w \<Longrightarrow> 0 < c \<Longrightarrow> w * c \<le> n - q \<Longrightarrow> (s + of_nat q) AND al \<noteq> 0 \<Longrightarrow> copy_blocks al w c (at n d s m q) = Inl GP"
  by (simp add: at_def copy_blocks_misaligned)

lemma unaligned_at:
  assumes "no_clobber d s n" "q \<le> n"
  shows "\<exists>r. r \<le> n \<and> copy_blocks 0 16 1 (at n d s m q) = Inr (at n d s m r)"
  using blocks_at [of 0 16 1 d s n q m] assms by auto

lemma finish_at:
  "q \<le> n \<Longrightarrow> (case at n d s m q of (n, d, s, m) \<Rightarrow> Inr (dst, copy_up n d s m)) = Inr (dst, copy_up n d s m)"
  by (simp add: at_def copy_finish)

lemma memcpy_sse2_spec:
  assumes "no_clobber dst src (unat n)"
  shows "memcpy_sse2 dst src n m =
    (if pad 4 dst + 128 \<le> unat n \<and> (src - dst) AND 15 \<noteq> 0 then Inl GP else Inr (memcpy dst src n m))"
proof -
  let ?n = "unat n" and ?p = "pad 4 dst"
  have al: "align_copy 15 ?n dst src m = at ?n dst src m (min ?n ?p)" using align_at [of 4] by (simp add: mask_eq_exp_minus_1)
  have fin: "memcpy_sse2 dst src n m = Inr (memcpy dst src n m)"
    if blk: "copy_blocks 15 16 8 (at ?n dst src m (min ?n ?p)) = Inr (at ?n dst src m q)" and q: "q \<le> ?n" for q
  proof -
    obtain r where "r \<le> ?n" "copy_blocks 0 16 1 (at ?n dst src m q) = Inr (at ?n dst src m r)"
      using unaligned_at [OF assms q] by blast
    then show ?thesis using al blk finish_at [of r ?n dst dst src m] by (simp add: memcpy_sse2_def memcpy_def)
  qed
  show ?thesis
  proof (cases "?p + 128 \<le> ?n")
    case False
    then show ?thesis using fin [of "min ?n ?p"] blocks_short_at [of ?n "min ?n ?p" 16 8] by simp
  next
    case True
    then have mn: "min ?n ?p = ?p" by simp
    have src: "(src + of_nat ?p) AND 15 = 0 \<longleftrightarrow> (src - dst) AND 15 = 0"
      using aligned_source [of 4 src dst] by (simp add: mask_eq_exp_minus_1)
    show ?thesis
    proof (cases "(src - dst) AND 15 = 0")
      case a: True
      have "\<exists>r\<ge>?p. r \<le> ?n \<and> (r - ?p) mod (16 * 8) = 0 \<and> ?n - r < 16 * 8 \<and>
          copy_blocks (mask 4) 16 8 (at ?n dst src m ?p) = Inr (at ?n dst src m r)"
        using True assms a src aligned_pad [of 4 dst] by (intro blocks_at) (simp_all add: mask_eq_exp_minus_1)
      then obtain r where "r \<le> ?n" "copy_blocks 15 16 8 (at ?n dst src m ?p) = Inr (at ?n dst src m r)"
        by (auto simp: mask_eq_exp_minus_1)
      then show ?thesis using fin [of r] mn a by simp
    next
      case na: False
      then have "copy_blocks 15 16 8 (at ?n dst src m ?p) = Inl GP" using True src by (intro blocks_fault_at) simp_all
      then show ?thesis using al True na mn by (simp add: memcpy_sse2_def)
    qed
  qed
qed

lemma aligned_forward:
  "k \<le> 32 \<Longrightarrow> (x + of_nat q) AND mask k = 0 \<Longrightarrow> q \<le> r \<Longrightarrow> 2 ^ k dvd r - q \<Longrightarrow> (x + of_nat r) AND mask k = 0" for x :: u32
proof -
  assume a: "k \<le> 32" "(x + of_nat q) AND mask k = 0" "q \<le> r" "2 ^ k dvd r - q"
  have "(x + of_nat q + of_nat (r - q)) AND mask k = 0"
    using aligned_sum [OF a(1,2), of "of_nat (r - q)"] aligned_of_nat [OF a(4)] by simp
  then show ?thesis using a(3) by (simp add: add.assoc flip: of_nat_add)
qed

lemma memcpy_avx_spec:
  assumes "no_clobber dst src (unat n)"
  shows "memcpy_avx avx dst src n m =
    (if \<not> avx then Inl UD
     else if pad 5 dst + 32 \<le> unat n \<and> (src - dst) AND 31 \<noteq> 0 then Inl GP
     else Inr (memcpy dst src n m))"
proof (cases avx)
  case avx: True
  let ?n = "unat n" and ?p = "pad 5 dst"
  have al: "align_copy 31 ?n dst src m = at ?n dst src m (min ?n ?p)" using align_at [of 5] by (simp add: mask_eq_exp_minus_1)
  have fin: "memcpy_avx avx dst src n m = Inr (memcpy dst src n m)"
    if "copy_blocks 31 32 8 (at ?n dst src m (min ?n ?p)) = Inr (at ?n dst src m q)"
      "copy_blocks 31 32 1 (at ?n dst src m q) = Inr (at ?n dst src m r)" "r \<le> ?n" for q r
    using that avx al finish_at [of r ?n dst dst src m] by (simp add: memcpy_avx_def memcpy_def)
  show ?thesis
  proof (cases "?p + 32 \<le> ?n")
    case False
    then show ?thesis
      using avx fin [of "min ?n ?p" "min ?n ?p"] blocks_short_at [of ?n "min ?n ?p" 32 8] blocks_short_at [of ?n "min ?n ?p" 32 1] by simp
  next
    case True
    then have mn: "min ?n ?p = ?p" by simp
    have src: "(src + of_nat ?p) AND 31 = 0 \<longleftrightarrow> (src - dst) AND 31 = 0"
      using aligned_source [of 5 src dst] by (simp add: mask_eq_exp_minus_1)
    have dst: "(dst + of_nat ?p) AND mask 5 = 0" by (rule aligned_pad) simp
    show ?thesis
    proof (cases "(src - dst) AND 31 = 0")
      case a: True
      then have s0: "(src + of_nat ?p) AND mask 5 = 0" using src by (simp add: mask_eq_exp_minus_1)
      have "\<exists>q\<ge>?p. q \<le> ?n \<and> (q - ?p) mod (32 * 8) = 0 \<and> ?n - q < 32 * 8 \<and>
          copy_blocks (mask 5) 32 8 (at ?n dst src m ?p) = Inr (at ?n dst src m q)"
        using True assms dst s0 by (intro blocks_at) simp_all
      then obtain q where q: "?p \<le> q" "q \<le> ?n" "(q - ?p) mod 256 = 0" "copy_blocks 31 32 8 (at ?n dst src m ?p) = Inr (at ?n dst src m q)"
        by (auto simp: mask_eq_exp_minus_1)
      have dv: "2 ^ 5 dvd q - ?p" using q(3) dvd_trans [of "2 ^ 5" 256 "q - ?p"] by (simp add: mod_0_imp_dvd)
      have "\<exists>r\<ge>q. r \<le> ?n \<and> (r - q) mod (32 * 1) = 0 \<and> ?n - r < 32 * 1 \<and>
          copy_blocks (mask 5) 32 1 (at ?n dst src m q) = Inr (at ?n dst src m r)"
        using assms q(2) aligned_forward [OF _ dst q(1) dv] aligned_forward [OF _ s0 q(1) dv] by (intro blocks_at) simp_all
      then obtain r where "r \<le> ?n" "copy_blocks 31 32 1 (at ?n dst src m q) = Inr (at ?n dst src m r)"
        by (auto simp: mask_eq_exp_minus_1)
      then show ?thesis using fin [of q r] q(4) mn a avx by simp
    next
      case na: False
      then have bad: "(src + of_nat ?p) AND 31 \<noteq> 0" using src by simp
      show ?thesis
      proof (cases "?p + 256 \<le> ?n")
        case big: True
        then have "copy_blocks 31 32 8 (at ?n dst src m ?p) = Inl GP" using bad by (intro blocks_fault_at) simp_all
        then show ?thesis using avx al True na mn by (simp add: memcpy_avx_def)
      next
        case small: False
        then have "copy_blocks 31 32 8 (at ?n dst src m ?p) = Inr (at ?n dst src m ?p)" using True by (intro blocks_short_at) simp
        moreover have "copy_blocks 31 32 1 (at ?n dst src m ?p) = Inl GP" using bad True by (intro blocks_fault_at) simp_all
        ultimately show ?thesis using avx al True na mn by (simp add: memcpy_avx_def)
      qed
    qed
  qed
qed (simp add: memcpy_avx_def Let_def)

section \<open>Fills are fills byte by byte\<close>

lemma memset_loop_add: "memset_loop (a + b) d v m = memset_loop b (d + of_nat a) v (memset_loop a d v m)"
  by (induction a arbitrary: d m) (simp_all add: add.assoc)

lemma put_bytes_replicate: "put_bytes (replicate n v) d m = memset_loop n d v m"
  by (induction n arbitrary: d m) simp_all

lemma bytes_pattern: "bytes32 (pattern32 v) = replicate 4 v"
proof -
  have b: "ucast (pattern32 v) = v" "ucast (drop_bit 8 (pattern32 v)) = v" "ucast (drop_bit 16 (pattern32 v)) = v"
    "ucast (drop_bit 24 (pattern32 v)) = v"
    by (rule bit_word_eqI, auto simp: pattern32_def bit_simps dest: bit_imp_le_length)+
  show ?thesis unfolding bytes32_def b by (simp add: numeral_eq_Suc)
qed

lemma broadcast: "pshufd0 (punpcklwd (punpcklbw (movd (pattern32 v)))) = replicate 16 v"
  by (simp add: movd_def bytes_pattern pshufd0_def punpcklwd_def punpcklbw_def upt_rec numeral_eq_Suc)

lemma align_word_set_spec:
  "align_word_set d n v m = (d + of_nat (pad 2 d), n - of_nat (pad 2 d), memset_loop (pad 2 d) d v m)"
proof (induction d n v m rule: align_word_set.induct)
  case (1 d n v m)
  show ?case
  proof (cases "d AND 3 = 0")
    case True
    then have "pad 2 d = 0" using pad_0 [of 2 d] by (simp add: mask_eq_exp_minus_1)
    with True show ?thesis by (subst align_word_set.simps) simp
  next
    case False
    then show ?thesis
      using 1 [OF False] pad_step3 [OF False] by (subst align_word_set.simps) (simp add: add.assoc diff_diff_eq del: fun_upd_apply)
  qed
qed

lemma rep_stosl_spec: "rep_stosl c d (pattern32 v) m = (d + of_nat (4 * c), memset_loop (4 * c) d v m)"
proof (induction c arbitrary: d m)
  case (Suc c)
  have "4 * Suc c = 4 + 4 * c" by simp
  then show ?case using Suc memset_loop_add [of 4 "4 * c" d v m] by (simp add: bytes_pattern put_bytes_replicate add.assoc)
qed simp

lemma align_set_spec:
  assumes "k \<le> 32"
  shows "align_set (mask k) n d v m = (n - pad k d, d + of_nat (min n (pad k d)), memset_loop (min n (pad k d)) d v m)"
proof (induction n arbitrary: d m)
  case (Suc n)
  show ?case
  proof (cases "d AND mask k = 0")
    case True
    then show ?thesis using pad_0 [OF assms, of d] by simp
  next
    case False
    then show ?thesis using Suc.IH pad_step [OF assms False] by (simp add: add.assoc del: fun_upd_apply)
  qed
qed simp

definition set_at :: "nat \<Rightarrow> u32 \<Rightarrow> u8 \<Rightarrow> mem \<Rightarrow> nat \<Rightarrow> nat \<times> u32 \<times> mem" where
  "set_at n d v m q = (n - q, d + of_nat q, memset_loop q d v m)"

lemma set_blocks_at:
  assumes "k \<le> 32" "2 ^ k dvd w" "0 < w" "0 < c"
  shows "q \<le> n \<Longrightarrow> n - q < w * c \<or> (d + of_nat q) AND mask k = 0 \<Longrightarrow>
    \<exists>r\<ge>q. r \<le> n \<and> w dvd (r - q) \<and> set_blocks (mask k) w c (replicate w v) (set_at n d v m q) = Inr (set_at n d v m r)"
proof (induction "n - q" arbitrary: q rule: less_induct)
  case less
  let ?b = "w * c"
  show ?case
  proof (cases "n - q < ?b")
    case True
    then show ?thesis using less.prems(1) by (intro exI [of _ q]) (simp add: set_at_def set_blocks.simps)
  next
    case False
    then have al: "(d + of_nat q) AND mask k = 0" using less.prems(2) by simp
    have le: "q + ?b \<le> n" using False less.prems(1) by linarith
    have "0 < ?b" using assms(3,4) by simp
    then have dec: "n - (q + ?b) < n - q" using le by linarith
    have "concat (replicate c (replicate w v)) = replicate ?b v"
      by (induction c) (simp_all add: replicate_add)
    then have "store_regs (mask k) w (replicate c (replicate w v)) (d + of_nat q) (memset_loop q d v m) =
        Inr (memset_loop (q + ?b) d v m)"
      using store_regs_aligned [OF assms(1,2) al, of "replicate c (replicate w v)"]
      by (simp add: put_bytes_replicate memset_loop_add list_all_length)
    then have step: "set_blocks (mask k) w c (replicate w v) (set_at n d v m q) =
        set_blocks (mask k) w c (replicate w v) (set_at n d v m (q + ?b))"
      using False assms(3,4) by (subst set_at_def, subst set_blocks.simps) (simp add: set_at_def add.assoc del: of_nat_mult)
    have "(d + of_nat (q + ?b)) AND mask k = 0" by (rule aligned_forward [OF assms(1) al]) (use assms(2) in simp_all)
    then obtain r where "q + ?b \<le> r" "r \<le> n" "w dvd (r - (q + ?b))"
      "set_blocks (mask k) w c (replicate w v) (set_at n d v m (q + ?b)) = Inr (set_at n d v m r)"
      using less.hyps [of "q + ?b"] le dec by auto
    moreover have "r - q = r - (q + ?b) + ?b" using \<open>q + ?b \<le> r\<close> by simp
    then have "w dvd r - q" using \<open>w dvd (r - (q + ?b))\<close> dvd_add [of w "r - (q + ?b)" ?b] by (simp only: dvd_triv_left)
    ultimately show ?thesis using step by (intro exI [of _ r]) simp
  qed
qed

lemma set_finish: "q \<le> n \<Longrightarrow> memset_loop (n - q) (d + of_nat q) v (memset_loop q d v m) = memset_loop n d v m"
  using memset_loop_add [of q "n - q" d v m] by simp

text \<open>The byte loop, the loop over eight registers and the loop over one register fill the block from any start.\<close>

lemma set_loops:
  assumes "k \<le> 5" "2 ^ k dvd w" "0 < w"
  shows "\<exists>q r. set_blocks (mask k) w 8 (replicate w v) (align_set (mask k) n d v m) = Inr (set_at n d v m q) \<and>
    set_blocks (mask k) w 1 (replicate w v) (set_at n d v m q) = Inr (set_at n d v m r) \<and> r \<le> n"
proof -
  let ?p = "min n (pad k d)"
  have k: "k \<le> 32" using assms(1) by simp
  have al: "align_set (mask k) n d v m = set_at n d v m ?p" by (simp add: set_at_def align_set_spec [OF k])
  have "n - ?p < w * 8 \<or> (d + of_nat ?p) AND mask k = 0"
    using aligned_pad [OF k, of d] assms(3) by (cases "pad k d \<le> n") (auto simp: min_def)
  then obtain q where q: "?p \<le> q" "q \<le> n" "w dvd (q - ?p)"
    "set_blocks (mask k) w 8 (replicate w v) (set_at n d v m ?p) = Inr (set_at n d v m q)"
    using set_blocks_at [OF k assms(2,3), of 8 ?p n d v m] by auto
  have "n - q < w * 1 \<or> (d + of_nat q) AND mask k = 0"
  proof (cases "pad k d \<le> n")
    case True
    then have "(d + of_nat ?p) AND mask k = 0" using aligned_pad [OF k, of d] by (simp add: min_def)
    then show ?thesis using aligned_forward [OF k _ q(1)] q(3) dvd_trans [OF assms(2)] by blast
  qed (use q(1,2) assms(3) in auto)
  then show ?thesis using set_blocks_at [OF k assms(2,3), of 1 q n d v m] q(2,4) al by auto
qed

lemma memset_sse2_spec: "memset_sse2 dst c n m = Inr (memset dst c n m)"
proof -
  let ?v = "ucast c :: u8"
  obtain q r where "set_blocks 15 16 8 (replicate 16 ?v) (align_set 15 (unat n) dst ?v m) = Inr (set_at (unat n) dst ?v m q)"
    "set_blocks 15 16 1 (replicate 16 ?v) (set_at (unat n) dst ?v m q) = Inr (set_at (unat n) dst ?v m r)" "r \<le> unat n"
    using set_loops [of 4 16 ?v "unat n" dst m] by (auto simp: mask_eq_exp_minus_1)
  then show ?thesis using set_finish [of r "unat n" dst ?v m]
    by (simp add: memset_sse2_def Let_def broadcast memset_def set_at_def [of _ _ _ _ r])
qed

lemma memset_avx_spec: "memset_avx avx dst c n m = (if avx then Inr (memset dst c n m) else Inl UD)"
proof (cases avx)
  case True
  let ?v = "ucast c :: u8"
  obtain q r where "set_blocks 31 32 8 (replicate 32 ?v) (align_set 31 (unat n) dst ?v m) = Inr (set_at (unat n) dst ?v m q)"
    "set_blocks 31 32 1 (replicate 32 ?v) (set_at (unat n) dst ?v m q) = Inr (set_at (unat n) dst ?v m r)" "r \<le> unat n"
    using set_loops [of 5 32 ?v "unat n" dst m] by (auto simp: mask_eq_exp_minus_1)
  moreover have "replicate 16 ?v @ replicate 16 ?v = replicate 32 ?v" by (simp flip: replicate_add)
  ultimately show ?thesis using set_finish [of r "unat n" dst ?v m] True
    by (simp add: memset_avx_def Let_def broadcast memset_def set_at_def [of _ _ _ _ r])
qed (simp add: memset_avx_def Let_def)

lemma memset_baseline_spec: "memset_baseline dst c n m = memset dst c n m"
proof (cases "n < 4")
  case True
  then show ?thesis by (simp add: memset_baseline_def memset_def)
next
  case False
  define p where "p = pad 2 dst"
  define n' where "n' = n - of_nat p"
  define q where "q = unat n' div 4"
  have p: "p < 4" using pad_less [of 2 dst] by (simp add: p_def)
  have n4: "4 \<le> unat n" using False by (simp add: word_less_nat_alt)
  have n': "unat n' = unat n - p" using p n4 by (simp add: n'_def unat_sub word_le_nat_alt unat_of_nat_u32)
  have qle: "p + 4 * q \<le> unat n" using n' p n4 by (simp add: q_def)
  have rest: "unat (n' AND 3) = unat n - (p + 4 * q)"
    using unat_mask [of n' 2] n' minus_mult_div_eq_mod [of "unat n'" 4] by (simp add: q_def mask_eq_exp_minus_1)
  have d4: "unat (n' div 4) = q" by (simp add: q_def unat_div)
  have al: "align_word_set dst n (ucast c) m = (dst + of_nat p, n', memset_loop p dst (ucast c) m)"
    by (simp add: align_word_set_spec p_def n'_def)
  show ?thesis
  proof (cases "4 \<le> n'")
    case True
    then show ?thesis
      using False al d4 rest set_finish [OF qle, of dst "ucast c" m] memset_loop_add [of p "4 * q" dst "ucast c" m]
      by (simp add: memset_baseline_def memset_def rep_stosl_spec Let_def add.assoc)
  next
    case nle: False
    then show ?thesis using False al n' set_finish [of p "unat n" dst "ucast c" m] p n4
      by (simp add: memset_baseline_def memset_def Let_def)
  qed
qed

section \<open>Comparison\<close>

lemma memcmp_loop_skip:
  "get_bytes a p m = get_bytes a q m \<Longrightarrow> memcmp_loop (a + b) p q m = memcmp_loop b (p + of_nat a) (q + of_nat a) m"
proof (induction a arbitrary: p q)
  case (Suc a)
  have "get_bytes 1 p m @ get_bytes a (p + 1) m = get_bytes 1 q m @ get_bytes a (q + 1) m"
    using Suc.prems get_bytes_add [of 1 a p m] get_bytes_add [of 1 a q m] by simp
  then have "get_bytes 1 p m = get_bytes 1 q m" "get_bytes a (p + 1) m = get_bytes a (q + 1) m" by simp_all
  then show ?case using Suc.IH [of "p + 1" "q + 1"] by (simp add: get_bytes_def add.assoc)
qed simp

lemma bytes32_load32: "bytes32 (load32 p m) = get_bytes 4 p m"
proof -
  have "ucast (load32 p m) = m p" "ucast (drop_bit 8 (load32 p m)) = m (p + 1)" "ucast (drop_bit 16 (load32 p m)) = m (p + 2)"
    "ucast (drop_bit 24 (load32 p m)) = m (p + 3)"
    by (rule bit_word_eqI, auto simp: load32_def bit_simps dest: bit_imp_le_length)+
  then show ?thesis by (simp add: bytes32_def get_bytes_def upt_rec)
qed

lemma pmovmskb_full:
  assumes "length x = 16" "length y = 16" "pmovmskb (pcmpeqb x y) = 0xFFFF"
  shows "x = y"
proof (rule nth_equalityI)
  fix i assume "i < length x"
  then have i: "i < 16" "i < length y" using assms by simp_all
  have "pmovmskb (pcmpeqb x y) = mask 16" using assms(3) by (simp add: mask_eq_exp_minus_1)
  then have "bit (pmovmskb (pcmpeqb x y)) i" using i(1) by (simp only: bit_mask_iff) simp
  then have "map (\<lambda>b. bit b 7) (pcmpeqb x y) ! i"
    by (simp add: pmovmskb_def bit_horner_sum_bit_word_iff)
  then show "x ! i = y ! i" using i assms(1) by (auto simp: pcmpeqb_def split: if_splits)
qed (use assms in simp)

lemma skip_words_spec: "skip_words n p q m = (n', p', q') \<Longrightarrow> memcmp_loop n' p' q' m = memcmp_loop n p q m"
proof (induction n p q m rule: skip_words.induct)
  case (1 n p q m)
  show ?case
  proof (cases "4 \<le> n \<and> load32 p m = load32 q m")
    case True
    then have "get_bytes 4 p m = get_bytes 4 q m" by (simp flip: bytes32_load32)
    from memcmp_loop_skip [OF this, of "n - 4"] show ?thesis
      using 1 True by (subst (asm) skip_words.simps) simp
  next
    case False
    then show ?thesis using 1 by (subst (asm) (2) skip_words.simps) (auto split: if_splits)
  qed
qed

lemma skip_blocks_spec: "skip_blocks n p q m = (n', p', q') \<Longrightarrow> memcmp_loop n' p' q' m = memcmp_loop n p q m"
proof (induction n p q m rule: skip_blocks.induct)
  case (1 n p q m)
  show ?case
  proof (cases "16 \<le> n \<and> pmovmskb (pcmpeqb (get_bytes 16 p m) (get_bytes 16 q m)) = 0xFFFF")
    case True
    then have "get_bytes 16 p m = get_bytes 16 q m" by (intro pmovmskb_full) simp_all
    from memcmp_loop_skip [OF this, of "n - 16"] show ?thesis
      using 1 True by (subst (asm) skip_blocks.simps) simp
  next
    case False
    then show ?thesis using 1 by (subst (asm) (2) skip_blocks.simps) (auto split: if_splits)
  qed
qed

lemma fast_memcmp_memcmp: "fast_memcmp f s1 s2 n m = memcmp s1 s2 n m"
  by (auto simp: fast_memcmp_def memcmp_sse2_def memcmp_def skip_words_spec skip_blocks_spec split: prod.splits)

section \<open>A copier as an interface\<close>

text \<open>
  What the clients of a copy routine rely on: under a condition \<open>ok\<close> on the addresses and the length it returns, with the memory that \<open>memcpy\<close>
  leaves.  Then the destination compares equal to the source, and nothing outside the destination changes.
\<close>

lemma memcmp_loop_0: "memcmp_loop n p q m = 0 \<longleftrightarrow> get_bytes n p m = get_bytes n q m"
proof (induction n arbitrary: p q)
  case (Suc n)
  have l: "get_bytes (Suc n) a m = m a # get_bytes n (a + 1) m" for a using get_bytes_add [of 1 n a m] by (simp add: get_bytes_def)
  show ?case using Suc by (auto simp: l dest: unsigned_word_eqI)
qed (simp add: get_bytes_def)

lemma moved_get_bytes:
  assumes "n < 4294967296" "n \<le> unat (d - s)" "n \<le> unat (s - d)"
  shows "get_bytes n d (moved d s n m) = get_bytes n s (moved d s n m)"
proof (rule nth_equalityI)
  fix i assume "i < length (get_bytes n d (moved d s n m))"
  then have i: "i < n" by simp
  have "\<not> unat (s + of_nat i - d) < n"
  proof
    assume lt: "unat (s + of_nat i - d) < n"
    define j where "j = unat (s + of_nat i - d)"
    have e: "d + of_nat j = s + of_nat i" using of_nat_unat_sub [of d "s + of_nat i"] by (simp add: j_def)
    have "j < n" using lt by (simp add: j_def)
    then consider "j < i" | "i \<le> j" by linarith
    then show False
    proof cases
      case 1
      with no_clobber_apart [of d s n j i] i assms e show False by (simp add: no_clobber_def)
    next
      case 2
      have "i \<noteq> j" using e assms i by auto
      then show False using 2 no_clobber_apart [of s d n i j] \<open>j < n\<close> assms e by (simp add: no_clobber_def)
    qed
  qed
  then show "get_bytes n d (moved d s n m) ! i = get_bytes n s (moved d s n m) ! i"
    using i assms(1) by (simp add: get_bytes_def moved_def unat_of_nat_u32)
qed simp

locale copier =
  fixes cpy :: "u32 \<Rightarrow> u32 \<Rightarrow> u32 \<Rightarrow> mem \<Rightarrow> fault + u32 \<times> mem"
    and ok :: "u32 \<Rightarrow> u32 \<Rightarrow> u32 \<Rightarrow> bool"
  assumes cpy_memcpy: "ok d s n \<Longrightarrow> no_clobber d s (unat n) \<Longrightarrow> cpy d s n m = Inr (memcpy d s n m)"
begin

lemma cpy_moved: "ok d s n \<Longrightarrow> no_clobber d s (unat n) \<Longrightarrow> cpy d s n m = Inr (d, moved d s (unat n) m)"
  using copy_up_moved [of "unat n" d s m] no_clobber_apart [of d s "unat n"] by (simp add: cpy_memcpy memcpy_def)

lemma cpy_compares_equal:
  assumes "ok d s n" "unat n \<le> unat (d - s)" "unat n \<le> unat (s - d)"
  shows "\<exists>m'. cpy d s n m = Inr (d, m') \<and> memcmp d s n m' = 0 \<and> (\<forall>a. unat n \<le> unat (a - d) \<longrightarrow> m' a = m a)"
proof (intro exI [of _ "moved d s (unat n) m"] conjI allI impI)
  show "cpy d s n m = Inr (d, moved d s (unat n) m)" using assms by (intro cpy_moved) (simp_all add: no_clobber_def)
  show "memcmp d s n (moved d s (unat n) m) = 0" using moved_get_bytes [of "unat n" d s m] assms by (simp add: memcmp_def memcmp_loop_0)
qed (simp add: moved_def)

end

interpretation base_copier: copier "\<lambda>d s n m. Inr (memcpy_baseline d s n m)" "\<lambda>d s n. True"
  by unfold_locales (simp add: memcpy_baseline_spec)

interpretation sse2_copier: copier memcpy_sse2 "\<lambda>d s n. (s - d) AND 15 = 0 \<or> unat n < pad 4 d + 128"
  by unfold_locales (auto simp: memcpy_sse2_spec)

interpretation avx_copier: copier "memcpy_avx True" "\<lambda>d s n. (s - d) AND 31 = 0 \<or> unat n < pad 5 d + 32"
  by unfold_locales (auto simp: memcpy_avx_spec)

section \<open>The dispatched routines\<close>

text \<open>
  C37. After \<open>fast_mem_init\<close> the selected copy routine does what \<open>memcpy\<close> does, unless it faults: SSE2 copies of at least 128 bytes beyond the alignment of the destination
  raise a general protection fault when source and destination differ modulo 16, AVX copies of at least 32 such bytes when they differ
  modulo 32, and AVX copies always fail with an invalid opcode while AVX is not enabled.
\<close>

theorem fast_memcpy_spec:
  assumes "no_clobber dst src (unat n)"
  shows "fast_memcpy c (fast_mem_init c) dst src n m =
    (if cpu_has_group CPU_GROUP_AVX c
     then if \<not> avx_on c then Inl UD
          else if pad 5 dst + 32 \<le> unat n \<and> (src - dst) AND 31 \<noteq> 0 then Inl GP
          else Inr (memcpy dst src n m)
     else if cpu_has_feature CPU_FEATURE_SSE2 c
     then if pad 4 dst + 128 \<le> unat n \<and> (src - dst) AND 15 \<noteq> 0 then Inl GP else Inr (memcpy dst src n m)
     else Inr (memcpy dst src n m))"
  by (simp add: fast_memcpy_def fast_mem_init_def Let_def memcpy_baseline_spec [OF assms] memcpy_sse2_spec [OF assms]
      memcpy_avx_spec [OF assms])

definition demo_sse2 :: cpuinfo where
  "demo_sse2 = \<lparr>features_edx = 0x4000000, features_ecx = 0, features_leaf7_ebx = 0, features_ext_edx = 0, features_ext_ecx = 0,
     max_leaf = 1, max_ext_leaf = 0, c_cr4 = 0x600, c_xcr0 = 0\<rparr>"

definition demo_mem :: mem where "demo_mem a = ucast a"

theorem fast_memcpy_witness:
  "fast_memcpy demo_sse2 (fast_mem_init demo_sse2) 0x1000 0x2001 128 demo_mem = Inl GP \<and>
   fast_memcpy demo_sse2 (fast_mem_init demo_sse2) 0x1000 0x2001 64 demo_mem = Inr (memcpy 0x1000 0x2001 64 demo_mem)"
proof -
  have nc: "no_clobber 0x1000 0x2001 (unat (128 :: u32))" "no_clobber 0x1000 0x2001 (unat (64 :: u32))" by (simp_all add: no_clobber_def)
  have f: "\<not> cpu_has_group CPU_GROUP_AVX demo_sse2" "cpu_has_feature CPU_FEATURE_SSE2 demo_sse2"
    by (simp_all add: has_group_avx cpu_has_feature_def feature_defs demo_sse2_def)
  have p: "pad 4 0x1000 = 0" "pad 5 0x1000 = 0" by (simp_all add: pad_0 mask_eq_exp_minus_1)
  show ?thesis using fast_memcpy_spec [OF nc(1), of demo_sse2 demo_mem] fast_memcpy_spec [OF nc(2), of demo_sse2 demo_mem] f p by simp
qed

text \<open>
  The selected fill and comparison routines are equivalent to the byte loops \<open>memset\<close> and \<open>memcmp\<close> for all arguments, whatever the alignment; only the AVX
  fill fails while AVX is not enabled.
\<close>

theorem fast_memset_memcmp_equiv:
  "fast_memset c (fast_mem_init c) dst v n m =
     (if cpu_has_group CPU_GROUP_AVX c \<and> \<not> avx_on c then Inl UD else Inr (memset dst v n m)) \<and>
   fast_memcmp f s1 s2 n m = memcmp s1 s2 n m"
  by (simp add: fast_memset_def fast_mem_init_def Let_def memset_baseline_spec memset_sse2_spec memset_avx_spec fast_memcmp_memcmp)

text \<open>
  \<open>cpu_init\<close> does not enable AVX on a processor that was started with CR4.OSXSAVE clear, while \<open>fast_mem_init\<close> selects the AVX routines from the CPUID
  flags alone: on a processor with the flags of the AVX group every later \<open>fast_memset\<close> and \<open>fast_memcpy\<close> raises an invalid opcode exception.
\<close>

theorem avx_selected_but_off:
  assumes "\<not> bit (c_cr4 s) 18" and "c = cpu_init cpuid s" and "cpu_has_group CPU_GROUP_AVX c"
  shows "fast_memset c (fast_mem_init c) dst v n m = Inl UD \<and> fast_memcpy c (fast_mem_init c) dst src n m = Inl UD"
proof -
  have "\<not> avx_on c" using cpu_init_avx [OF assms(1), of cpuid] assms(2) by simp
  then show ?thesis
    using assms(3) by (simp add: fast_memset_def fast_memcpy_def fast_mem_init_def Let_def memset_avx_spec memcpy_avx_def)
qed

definition demo_boot :: cpuinfo where
  "demo_boot = \<lparr>features_edx = 0, features_ecx = 0, features_leaf7_ebx = 0, features_ext_edx = 0, features_ext_ecx = 0,
     max_leaf = 0, max_ext_leaf = 0, c_cr4 = 0, c_xcr0 = 1\<rparr>"

definition demo_cpuid :: cpuid_fn where
  "demo_cpuid cr4 leaf =
     (if leaf = 0 then (7, 0, 0, 0)
      else if leaf = 1 then (0, 0, 0x10180201 OR (if bit cr4 18 then 0x8000000 else 0), 0x6000001)
      else if leaf = 7 then (0, 0x200, 0, 0) else (0, 0, 0, 0))"

theorem avx_selected_but_off_witness:
  "fast_memset (cpu_init demo_cpuid demo_boot) (fast_mem_init (cpu_init demo_cpuid demo_boot)) 0x1000 0 4096 demo_mem = Inl UD"
proof -
  have c: "\<not> bit (c_cr4 demo_boot) 18" by (simp add: demo_boot_def)
  have "cpu_has_group CPU_GROUP_AVX (cpu_init demo_cpuid demo_boot)"
    by (simp add: has_group_avx cpu_init_features read_features_def cpu_get_vendor_def demo_boot_def demo_cpuid_def Let_def)
  from avx_selected_but_off [OF c refl this] show ?thesis by simp
qed

end
