(* ===== verification/Cbuf.thy ===== *)
theory Cbuf
  imports Prelude
begin

text \<open>
  C strings in arrays of a fixed length, as the account, authentication, session and configuration components keep them.  A string argument is
  the list of the bytes before its terminating zero, an array the list of all its bytes; a copy leaves the bytes behind the terminator.
\<close>

type_synonym bytes = "u8 list"

text \<open>\<open>for (i = 0; src[i] && i < n - 1; i++) buf[i] = src[i]; buf[i] = 0;\<close>\<close>

definition copy_str :: "nat \<Rightarrow> bytes \<Rightarrow> bytes \<Rightarrow> bytes" where
  "copy_str n src buf = (let k = min (n - 1) (length src) in take k src @ [0] @ drop (k + 1) buf)"

text \<open>
  The comparison loop \<open>while (*a && *b && *a == *b) { a++; b++; }\<close> with the test for the end of both: the first string ends with its list, the
  second is an array with a terminator in it.  A missing terminator counts as a difference.
\<close>

fun same_name :: "bytes \<Rightarrow> bytes \<Rightarrow> bool" where
  "same_name a [] = False"
| "same_name [] (y # b) = (y = 0)"
| "same_name (x # a) (y # b) = (if x \<noteq> 0 \<and> y \<noteq> 0 \<and> x = y then same_name a b else x = 0 \<and> y = 0)"

text \<open>The string in an array, and the bytes of a literal.\<close>

definition str_of :: "bytes \<Rightarrow> bytes" where "str_of b = takeWhile (\<lambda>x. x \<noteq> 0) b"

definition of_string :: "string \<Rightarrow> bytes" where "of_string = map of_char"

lemma copy_str_ok: "0 < n \<Longrightarrow> length buf = n \<Longrightarrow> length (copy_str n src buf) = n \<and> 0 \<in> set (copy_str n src buf)"
  by (auto simp: copy_str_def Let_def)

lemma str_of_copy: "0 \<notin> set src \<Longrightarrow> str_of (copy_str n src buf) = take (n - 1) src"
proof -
  assume "0 \<notin> set src"
  then have "\<forall>x \<in> set (take k src). x \<noteq> 0" for k by (metis in_set_takeD)
  then show ?thesis unfolding str_of_def copy_str_def Let_def by (simp add: takeWhile_append2 min_def)
qed

lemma same_name_iff: "0 \<notin> set a \<Longrightarrow> 0 \<in> set b \<Longrightarrow> same_name a b \<longleftrightarrow> str_of b = a"
proof (induction a b rule: same_name.induct)
  case (3 x a y b)
  then show ?case by (auto simp: str_of_def)
qed (auto simp: str_of_def)

lemma same_name_copy:
  "0 \<notin> set name \<Longrightarrow> length name < n \<Longrightarrow> length buf = n \<Longrightarrow> 0 \<notin> set other \<Longrightarrow> same_name other (copy_str n name buf) \<longleftrightarrow> other = name"
  using copy_str_ok [of n buf name] by (auto simp: same_name_iff str_of_copy)

end
