(* ===== verification/Config.thy ===== *)
theory Config
  imports Cbuf
begin

text \<open>
  The parser of \<^verbatim>\<open>CONFIG.SYS\<close> (\<^verbatim>\<open>src/kernel/config_sys.c\<close>).  The text and the strings in the local arrays are lists of bytes without the final zero; the devices are a
  linked list in a pool of eight entries.  The echo of the lines is left out; the summary that \<open>config_sys_print\<close> writes is its result.  The counts are \<open>int\<close>, kept as words:
  \<open>parse_int\<close> wraps as the compiled code does.
\<close>

section \<open>State\<close>

definition CONFIG_LINE_SIZE :: nat where "CONFIG_LINE_SIZE = 128"
definition CONFIG_CMD_SIZE :: nat where "CONFIG_CMD_SIZE = 32"
definition CONFIG_VAL_SIZE :: nat where "CONFIG_VAL_SIZE = 128"

lemmas config_sizes = CONFIG_LINE_SIZE_def CONFIG_CMD_SIZE_def CONFIG_VAL_SIZE_def

record config_sys_entry =
  e_value :: bytes
  e_next :: "nat option"

record config_sys =
  cfg_files :: u32
  cfg_buffers :: u32
  cfg_last_drive :: u8
  cfg_break_on :: bool
  cfg_echo_on :: bool
  cfg_dos_high :: bool
  cfg_shell_path :: bytes
  cfg_devices :: "nat option"
  cfg_device_count :: nat

record config_state =
  g_config :: config_sys
  g_devices_head :: "nat option"
  g_devices_tail :: "nat option"
  g_device_count :: nat
  pool :: "config_sys_entry list"
  pool_idx :: nat

section \<open>Operations\<close>

text \<open>The pool index is a static variable of \<open>add_device\<close> and not reset.\<close>

definition config_sys_init :: "config_state \<Rightarrow> config_state" where
  "config_sys_init s = s\<lparr>g_config := (g_config s)\<lparr>cfg_files := 8, cfg_buffers := 4, cfg_last_drive := 0x45, cfg_break_on := True, cfg_echo_on := True,
     cfg_dos_high := False, cfg_shell_path := (cfg_shell_path (g_config s))[0 := 0], cfg_devices := None, cfg_device_count := 0\<rparr>,
     g_devices_head := None, g_devices_tail := None, g_device_count := 0\<rparr>"

definition blank :: "u8 \<Rightarrow> bool" where "blank c \<longleftrightarrow> c = 0x20 \<or> c = 0x09"

definition skip_whitespace :: "bytes \<Rightarrow> bytes" where "skip_whitespace s = dropWhile blank s"

definition trim_trailing :: "bytes \<Rightarrow> bytes" where
  "trim_trailing s = rev (dropWhile (\<lambda>c. blank c \<or> c = 0x0D \<or> c = 0x0A) (rev s))"

definition str_to_upper :: "bytes \<Rightarrow> bytes" where
  "str_to_upper s = map (\<lambda>c. if 0x61 \<le> c \<and> c \<le> 0x7A then c - 32 else c) s"

definition digit :: "u8 \<Rightarrow> bool" where "digit c \<longleftrightarrow> 0x30 \<le> c \<and> c \<le> 0x39"

fun parse_int_from :: "u32 \<Rightarrow> bytes \<Rightarrow> u32" where
  "parse_int_from val [] = val"
| "parse_int_from val (c # s) = (if digit c then parse_int_from (val * 10 + (ucast c - 0x30)) s else val)"

definition parse_int :: "bytes \<Rightarrow> u32" where "parse_int s = parse_int_from 0 s"

definition add_device :: "bytes \<Rightarrow> config_state \<Rightarrow> config_state" where
  "add_device path s =
     (if pool_idx s \<ge> 8 then s
      else let entry = pool_idx s;
               s = s\<lparr>pool_idx := pool_idx s + 1, pool := (pool s)[entry := \<lparr>e_value = copy_str CONFIG_VAL_SIZE path (e_value (pool s ! entry)), e_next = None\<rparr>]\<rparr>;
               s = (case g_devices_head s of
                      None \<Rightarrow> s\<lparr>g_devices_head := Some entry, g_devices_tail := Some entry\<rparr>
                    | Some _ \<Rightarrow> (case g_devices_tail s of
                          Some t \<Rightarrow> s\<lparr>pool := (pool s)[t := (pool s ! t)\<lparr>e_next := Some entry\<rparr>], g_devices_tail := Some entry\<rparr>
                        | None \<Rightarrow> s\<lparr>g_devices_tail := Some entry\<rparr>))
           in s\<lparr>g_device_count := g_device_count s + 1\<rparr>)"

abbreviation lit :: "string \<Rightarrow> bytes" where "lit \<equiv> of_string"

text \<open>\<open>value[0] == 'O' && value[1] == 'N'\<close>\<close>

definition is_on :: "bytes \<Rightarrow> bool" where "is_on v \<longleftrightarrow> take 2 v = [0x4F, 0x4E]"

text \<open>The effect of a command with its value: the chain of comparisons at the end of \<open>parse_line\<close>.\<close>

definition run_command :: "bytes \<Rightarrow> bytes \<Rightarrow> config_state \<Rightarrow> config_state" where
  "run_command command val s =
     (let upd = (\<lambda>f. s\<lparr>g_config := f (g_config s)\<rparr>) in
      if command = lit ''FILES'' then upd (\<lambda>c. c\<lparr>cfg_files := (let n = parse_int val in if sint n < 5 then 5 else n)\<rparr>)
      else if command = lit ''BUFFERS'' then upd (\<lambda>c. c\<lparr>cfg_buffers := (let n = parse_int val in if sint n < 2 then 2 else n)\<rparr>)
      else if command = lit ''LASTDRIVE'' \<or> command = lit ''LASTDRV''
      then (case val of [] \<Rightarrow> s | v # _ \<Rightarrow> if 0x41 \<le> v \<and> v \<le> 0x5A then upd (\<lambda>c. c\<lparr>cfg_last_drive := v\<rparr>) else s)
      else if command = lit ''BREAK'' then upd (\<lambda>c. c\<lparr>cfg_break_on := is_on (str_to_upper val)\<rparr>)
      else if command = lit ''ECHO'' then upd (\<lambda>c. c\<lparr>cfg_echo_on := is_on (str_to_upper val)\<rparr>)
      else if command = lit ''DOS'' then upd (\<lambda>c. c\<lparr>cfg_dos_high := (take 1 (str_to_upper val) = [0x48])\<rparr>)
      else if command = lit ''SHELL'' then upd (\<lambda>c. c\<lparr>cfg_shell_path := copy_str 64 val (cfg_shell_path c)\<rparr>)
      else if command = lit ''DEVICE'' then add_device val s
      else s)"

text \<open>The command and the value of a line, if it has them.\<close>

definition split_line :: "bytes \<Rightarrow> (bytes \<times> bytes) option" where
  "split_line line =
     (let s = skip_whitespace line in
      if s = [] \<or> s ! 0 = 0x3B \<or> s ! 0 = 0x23 then None
      else let eq = dropWhile (\<lambda>c. c \<noteq> 0x3D) s in
      if eq = [] then None
      else Some (str_to_upper (trim_trailing (take (CONFIG_CMD_SIZE - 1) (takeWhile (\<lambda>c. c \<noteq> 0x3D) s))),
                 trim_trailing (take (CONFIG_VAL_SIZE - 1) (skip_whitespace (tl eq)))))"

definition parse_line :: "bytes \<Rightarrow> config_state \<Rightarrow> config_state" where
  "parse_line line s = (case split_line line of None \<Rightarrow> s | Some (command, val) \<Rightarrow> run_command command val s)"

text \<open>The loop over the text; \<open>line\<close> is the array \<open>line[0..li)\<close>.\<close>

fun parse_loop :: "bytes \<Rightarrow> bytes \<Rightarrow> config_state \<Rightarrow> config_state" where
  "parse_loop [] line s = (if line \<noteq> [] then parse_line line s else s)"
| "parse_loop (c # p) line s =
     (if c = 0x0A \<or> c = 0x0D
      then parse_loop (if c = 0x0D \<and> p \<noteq> [] \<and> p ! 0 = 0x0A then tl p else p) [] (if line \<noteq> [] then parse_line line s else s)
      else parse_loop p (if length line < CONFIG_LINE_SIZE - 1 then line @ [c] else line) s)"

definition config_sys_parse :: "bytes \<Rightarrow> config_state \<Rightarrow> config_state" where
  "config_sys_parse data s =
     (if data = [] then s
      else let s = parse_loop data [] s
           in s\<lparr>g_config := (g_config s)\<lparr>cfg_devices := g_devices_head s, cfg_device_count := g_device_count s\<rparr>\<rparr>)"

text \<open>The walk along the list has at most as many steps as the index.\<close>

fun device_walk :: "nat \<Rightarrow> nat option \<Rightarrow> config_state \<Rightarrow> nat option" where
  "device_walk 0 e s = e"
| "device_walk (Suc n) e s = (case e of None \<Rightarrow> None | Some i \<Rightarrow> device_walk n (e_next (pool s ! i)) s)"

definition config_sys_find_device :: "int \<Rightarrow> config_state \<Rightarrow> bytes option" where
  "config_sys_find_device index s = map_option (\<lambda>i. e_value (pool s ! i)) (device_walk (nat index) (g_devices_head s) s)"

text \<open>\<open>screen_put_dec\<close> as the characters it writes.\<close>

fun dec_reversed :: "nat \<Rightarrow> bytes" where
  "dec_reversed n = (if n = 0 then [] else (0x30 + of_nat (n mod 10)) # dec_reversed (n div 10))"

definition screen_put_dec :: "u32 \<Rightarrow> bytes" where
  "screen_put_dec val = (if val = 0 then [0x30] else rev (dec_reversed (unat val)))"

definition config_sys_print :: "config_state \<Rightarrow> bytes" where
  "config_sys_print s =
     (let cfg = g_config s; nl = [0x0A] in
      nl @ lit ''  --- CONFIG.SYS Summary ---'' @ nl @
      lit ''  FILES='' @ screen_put_dec (cfg_files cfg) @ nl @
      lit ''  BUFFERS='' @ screen_put_dec (cfg_buffers cfg) @ nl @
      lit ''  LASTDRIVE='' @ [cfg_last_drive cfg] @ nl @
      lit ''  BREAK='' @ (if cfg_break_on cfg then lit ''ON'' else lit ''OFF'') @ nl @
      lit ''  DOS='' @ (if cfg_dos_high cfg then lit ''HIGH'' else lit ''LOW'') @ nl @
      (if cfg_shell_path cfg ! 0 \<noteq> 0 then lit ''  SHELL='' @ str_of (cfg_shell_path cfg) @ nl
       else lit ''  SHELL=(built-in)'' @ nl) @
      concat (map (\<lambda>i. lit ''  DEVICE='' @ (case config_sys_find_device (int i) s of None \<Rightarrow> [] | Some v \<Rightarrow> str_of v) @ nl)
        [0..<cfg_device_count cfg]) @
      lit ''  ---------------------------'' @ nl)"

declare dec_reversed.simps [simp del]

end
