(* ===== verification/Config_Spec.thy ===== *)
theory Config_Spec
  imports Config
begin

text \<open>
  The configuration as a record of settings with a list of devices: parsing a text is the effect of its lines one after the other, and the summary that is printed, read
  again, gives the settings back.
\<close>

section \<open>Lines\<close>

definition newline :: "u8 \<Rightarrow> bool" where "newline c \<longleftrightarrow> c = 0x0A \<or> c = 0x0D"

fun split_nl :: "bytes \<Rightarrow> bytes list" where
  "split_nl [] = [[]]"
| "split_nl (c # p) = (if newline c then [] # split_nl p else (case split_nl p of [] \<Rightarrow> [[c]] | l # ls \<Rightarrow> (c # l) # ls))"

text \<open>The non-empty lines of a text, cut to the size of the line buffer.\<close>

definition config_lines :: "bytes \<Rightarrow> bytes list" where
  "config_lines data = filter (\<lambda>l. l \<noteq> []) (map (take 127) (split_nl data))"

lemma split_nl_Cons: "split_nl p = hd (split_nl p) # tl (split_nl p)"
  by (cases p) (auto split: list.split)

lemma split_nl_step: "\<not> newline c \<Longrightarrow> split_nl (c # p) = (c # hd (split_nl p)) # tl (split_nl p)"
  using split_nl_Cons [of p] by (auto split: list.split)

lemma split_nl_newline: "newline c \<Longrightarrow> split_nl (c # p) = [] # split_nl p" by simp

lemma config_lines_newline: "newline c \<Longrightarrow> config_lines (c # p) = config_lines p"
  by (simp add: config_lines_def)

lemma parse_loop_lines:
  "length line \<le> 127 \<Longrightarrow> parse_loop data line s =
    fold parse_line (filter (\<lambda>l. l \<noteq> []) (map (take 127) ((line @ hd (split_nl data)) # tl (split_nl data)))) s"
proof (induction data line s rule: parse_loop.induct)
  case (1 line s)
  then show ?case by simp
next
  case (2 c p line s)
  show ?case
  proof (cases "newline c")
    case True
    let ?q = "if c = 0x0D \<and> p \<noteq> [] \<and> p ! 0 = 0x0A then tl p else p"
    let ?s = "if line \<noteq> [] then parse_line line s else s"
    have n: "c = 0x0A \<or> c = 0x0D" using True by (simp add: newline_def)
    have "config_lines ?q = config_lines p"
      using config_lines_newline [of "0x0A" "tl p"] by (cases p) (auto simp: newline_def)
    moreover have "fold parse_line (filter (\<lambda>l. l \<noteq> []) (map (take 127) (([] @ hd (split_nl d)) # tl (split_nl d)))) t = fold parse_line (config_lines d) t" for d t
      using split_nl_Cons [of d] by (simp add: config_lines_def)
    ultimately have "parse_loop ?q [] ?s = fold parse_line (config_lines p) ?s"
      using 2(1) [OF n] by simp
    moreover have "parse_loop (c # p) line s = parse_loop ?q [] ?s" using n by simp
    ultimately show ?thesis using True 2(3) by (simp add: config_lines_def)
  next
    case False
    then have n: "\<not> (c = 0x0A \<or> c = 0x0D)" by (simp add: newline_def)
    define l where "l = (if length line < CONFIG_LINE_SIZE - 1 then line @ [c] else line)"
    have t: "take 127 (l @ x) = take 127 (line @ c # x)" for x
      using 2(3) by (auto simp: config_sizes take_Cons' l_def)
    have "length l \<le> 127" using 2(3) by (simp add: config_sizes l_def)
    then have "parse_loop p l s = fold parse_line (filter (\<lambda>l. l \<noteq> []) (map (take 127) ((l @ hd (split_nl p)) # tl (split_nl p)))) s"
      using 2(2) [OF n, folded l_def] by blast
    moreover have "parse_loop (c # p) line s = parse_loop p l s" using n by (simp add: l_def)
    moreover have "(line @ hd (split_nl (c # p))) # tl (split_nl (c # p)) = (line @ c # hd (split_nl p)) # tl (split_nl p)"
      by (simp only: split_nl_step [OF False] list.sel append.simps)
    ultimately show ?thesis by (simp only: list.map t)
  qed
qed

lemma parse_lines: "parse_loop data [] s = fold parse_line (config_lines data) s"
  using parse_loop_lines [of "[]" data s] split_nl_Cons [of data] by (simp add: config_lines_def)

lemma split_nl_append: "(\<And>c. c \<in> set l \<Longrightarrow> \<not> newline c) \<Longrightarrow> split_nl (l @ 0x0A # p) = l # split_nl p"
  by (induction l) (auto simp: newline_def)

lemma config_lines_text:
  "(\<And>l c. l \<in> set ls \<Longrightarrow> c \<in> set l \<Longrightarrow> \<not> newline c) \<Longrightarrow>
    config_lines (concat (map (\<lambda>l. l @ [0x0A]) ls)) = filter (\<lambda>l. l \<noteq> []) (map (take 127) ls)"
proof (induction ls)
  case (Cons l ls)
  then have "split_nl (l @ 0x0A # concat (map (\<lambda>l. l @ [0x0A]) ls)) = l # split_nl (concat (map (\<lambda>l. l @ [0x0A]) ls))"
    by (intro split_nl_append) auto
  moreover have "config_lines (concat (map (\<lambda>l. l @ [0x0A]) ls)) = filter (\<lambda>l. l \<noteq> []) (map (take 127) ls)"
    using Cons.prems by (intro Cons.IH) auto
  ultimately show ?case by (simp add: config_lines_def)
qed (simp add: config_lines_def)

section \<open>Settings\<close>

record settings =
  set_files :: u32
  set_buffers :: u32
  set_drive :: u8
  set_break :: bool
  set_echo :: bool
  set_dos :: bool
  set_shell :: bytes
  set_devices :: "bytes list"
  set_room :: nat

definition apply_command :: "bytes \<Rightarrow> bytes \<Rightarrow> settings \<Rightarrow> settings" where
  "apply_command command val a =
     (if command = lit ''FILES'' then a\<lparr>set_files := (let n = parse_int val in if sint n < 5 then 5 else n)\<rparr>
      else if command = lit ''BUFFERS'' then a\<lparr>set_buffers := (let n = parse_int val in if sint n < 2 then 2 else n)\<rparr>
      else if command = lit ''LASTDRIVE'' \<or> command = lit ''LASTDRV''
      then (case val of v # _ \<Rightarrow> if 0x41 \<le> v \<and> v \<le> 0x5A then a\<lparr>set_drive := v\<rparr> else a | [] \<Rightarrow> a)
      else if command = lit ''BREAK'' then a\<lparr>set_break := is_on (str_to_upper val)\<rparr>
      else if command = lit ''ECHO'' then a\<lparr>set_echo := is_on (str_to_upper val)\<rparr>
      else if command = lit ''DOS'' then a\<lparr>set_dos := (take 1 (str_to_upper val) = [0x48])\<rparr>
      else if command = lit ''SHELL'' then a\<lparr>set_shell := take 63 val\<rparr>
      else if command = lit ''DEVICE''
      then (if set_room a = 0 then a else a\<lparr>set_devices := set_devices a @ [take 127 val], set_room := set_room a - 1\<rparr>)
      else a)"

definition apply_line :: "bytes \<Rightarrow> settings \<Rightarrow> settings" where
  "apply_line line a = (case split_line line of None \<Rightarrow> a | Some (command, val) \<Rightarrow> apply_command command val a)"

section \<open>The device list\<close>

definition first_device :: "config_state \<Rightarrow> nat" where "first_device s = pool_idx s - g_device_count s"

definition device_ok :: "config_state \<Rightarrow> bool" where
  "device_ok s \<longleftrightarrow> length (pool s) = 8 \<and> pool_idx s \<le> 8 \<and> g_device_count s \<le> pool_idx s \<and>
     g_devices_head s = (if g_device_count s = 0 then None else Some (first_device s)) \<and>
     g_devices_tail s = (if g_device_count s = 0 then None else Some (pool_idx s - 1)) \<and>
     (\<forall>i. first_device s \<le> i \<and> i < pool_idx s \<longrightarrow> e_next (pool s ! i) = (if Suc i = pool_idx s then None else Some (Suc i))) \<and>
     (\<forall>i<8. length (e_value (pool s ! i)) = 128)"

definition device_list :: "config_state \<Rightarrow> bytes list" where
  "device_list s = map (\<lambda>i. str_of (e_value (pool s ! i))) [first_device s..<pool_idx s]"

lemma device_walk_at:
  assumes "device_ok s"
  shows "first_device s \<le> i \<Longrightarrow> i < pool_idx s \<Longrightarrow>
    device_walk n (Some i) s = (if i + n < pool_idx s then Some (i + n) else None)"
proof (induction n arbitrary: i)
  case (Suc n)
  have none: "device_walk k None s = None" for k by (cases k) auto
  have nx: "e_next (pool s ! i) = (if Suc i = pool_idx s then None else Some (Suc i))"
    using assms Suc.prems unfolding device_ok_def by blast
  show ?case using Suc.IH [of "Suc i"] Suc.prems by (auto simp: nx none)
qed simp

lemma find_device:
  assumes "device_ok s"
  shows "map_option str_of (config_sys_find_device (int n) s) = (if n < g_device_count s then Some (device_list s ! n) else None)"
proof (cases "g_device_count s = 0")
  case True
  then have "g_devices_head s = None" using assms by (simp add: device_ok_def)
  moreover have "device_walk n None s = None" by (cases n) auto
  ultimately show ?thesis using True by (simp add: config_sys_find_device_def)
next
  case False
  then have h: "g_devices_head s = Some (first_device s)" and i: "first_device s < pool_idx s" and e: "first_device s + g_device_count s = pool_idx s"
    using assms by (auto simp: device_ok_def first_device_def)
  show ?thesis
    using device_walk_at [OF assms order_refl i, of n] e
    by (auto simp: config_sys_find_device_def h device_list_def)
qed

lemma add_device_ok:
  assumes ok: "device_ok s" and v: "0 \<notin> set path"
  shows "device_ok (add_device path s) \<and> g_config (add_device path s) = g_config s \<and>
    (if pool_idx s < 8 then device_list (add_device path s) = device_list s @ [take 127 path] \<and> pool_idx (add_device path s) = Suc (pool_idx s)
     else add_device path s = s)"
proof (cases "pool_idx s < 8")
  case True
  let ?p = "pool_idx s" and ?t = "add_device path s"
  have k: "length (pool s) = 8" "g_device_count s \<le> ?p" "length (e_value (pool s ! ?p)) = 128" using ok True by (auto simp: device_ok_def)
  have idx: "pool_idx ?t = Suc ?p" "g_device_count ?t = Suc (g_device_count s)" "g_config ?t = g_config s"
    using True by (auto simp: add_device_def Let_def split: option.split)
  have first: "first_device ?t = first_device s" using idx k by (simp add: first_device_def)
  have head: "g_devices_head ?t = Some (first_device s)" "g_devices_tail ?t = Some ?p"
    using True ok by (auto simp: add_device_def Let_def device_ok_def first_device_def split: option.split)
  have len: "length (pool ?t) = 8" using True k by (auto simp: add_device_def Let_def split: option.split)
  have nth: "pool ?t ! i = (if i = ?p then \<lparr>e_value = copy_str 128 path (e_value (pool s ! ?p)), e_next = None\<rparr>
      else if 0 < g_device_count s \<and> Suc i = ?p then (pool s ! i)\<lparr>e_next := Some ?p\<rparr> else pool s ! i)" if "i < 8" for i
    using True ok k that by (auto simp: add_device_def Let_def device_ok_def config_sizes nth_list_update split: option.split)
  have vals: "e_value (pool ?t ! i) = (if i = ?p then copy_str 128 path (e_value (pool s ! ?p)) else e_value (pool s ! i))" if "i < 8" for i
    using nth [OF that] by simp
  have "length (e_value (pool ?t ! i)) = 128" if "i < 8" for i
    using vals [OF that] copy_str_ok [of 128 "e_value (pool s ! ?p)" path] ok that k by (auto simp: device_ok_def)
  moreover have "e_next (pool ?t ! i) = (if Suc i = Suc ?p then None else Some (Suc i))" if "first_device s \<le> i" "i < Suc ?p" for i
  proof (cases "i = ?p")
    case True
    then show ?thesis using nth [of i] \<open>?p < 8\<close> by simp
  next
    case False
    then have i: "i < ?p" using that by simp
    then have "g_device_count s \<noteq> 0" using that by (auto simp: first_device_def)
    moreover have "e_next (pool s ! i) = (if Suc i = ?p then None else Some (Suc i))" using ok that(1) i unfolding device_ok_def by blast
    ultimately show ?thesis using nth [of i] i True by auto
  qed
  ultimately have "device_ok ?t"
    unfolding device_ok_def idx first head using k len True by auto
  moreover have "device_list ?t = device_list s @ [take 127 path]"
  proof -
    have "first_device s \<le> ?p" by (simp add: first_device_def)
    then have "[first_device ?t..<pool_idx ?t] = [first_device s..<?p] @ [?p]" unfolding first idx by simp
    moreover have "map (\<lambda>i. str_of (e_value (pool ?t ! i))) [first_device s..<?p] = device_list s"
      unfolding device_list_def using vals True by (intro map_cong) auto
    moreover have "str_of (e_value (pool ?t ! ?p)) = take 127 path" using vals [of ?p] True str_of_copy [OF v, of 128] by simp
    ultimately show ?thesis unfolding device_list_def [of ?t] by simp
  qed
  ultimately show ?thesis using True idx by simp
next
  case False
  then show ?thesis using ok by (simp add: add_device_def)
qed

section \<open>Refinement\<close>

definition config_inv :: "config_state \<Rightarrow> bool" where
  "config_inv s \<longleftrightarrow> device_ok s \<and> 5 \<le> sint (cfg_files (g_config s)) \<and> 2 \<le> sint (cfg_buffers (g_config s)) \<and>
     0x41 \<le> cfg_last_drive (g_config s) \<and> cfg_last_drive (g_config s) \<le> 0x5A \<and>
     length (cfg_shell_path (g_config s)) = 64 \<and> 0 \<in> set (cfg_shell_path (g_config s))"

definition settings_of :: "config_state \<Rightarrow> settings" where
  "settings_of s = \<lparr>set_files = cfg_files (g_config s), set_buffers = cfg_buffers (g_config s), set_drive = cfg_last_drive (g_config s),
     set_break = cfg_break_on (g_config s), set_echo = cfg_echo_on (g_config s), set_dos = cfg_dos_high (g_config s),
     set_shell = str_of (cfg_shell_path (g_config s)), set_devices = device_list s, set_room = 8 - pool_idx s\<rparr>"

lemma device_frame [simp]:
  "device_ok (s\<lparr>g_config := c\<rparr>) = device_ok s" "device_list (s\<lparr>g_config := c\<rparr>) = device_list s"
  by (simp_all add: device_ok_def device_list_def first_device_def)

lemma run_command_refines:
  assumes "config_inv s" "0 \<notin> set val"
  shows "config_inv (run_command command val s) \<and> settings_of (run_command command val s) = apply_command command val (settings_of s)"
proof -
  have d: "device_ok s" using assms(1) by (simp add: config_inv_def)
  note a = add_device_ok [OF d assms(2)]
  have n: "config_inv (add_device val s)" using a assms(1) by (simp add: config_inv_def)
  have e: "settings_of (add_device val s) =
      (if set_room (settings_of s) = 0 then settings_of s
       else (settings_of s)\<lparr>set_devices := set_devices (settings_of s) @ [take 127 val], set_room := set_room (settings_of s) - 1\<rparr>)"
    using a by (auto simp: settings_of_def split: if_splits)
  have c: "length (copy_str 64 val b) = 64 \<and> 0 \<in> set (copy_str 64 val b) \<and> str_of (copy_str 64 val b) = take 63 val" if "length b = 64" for b
    using copy_str_ok [of 64 b val] str_of_copy [OF assms(2), of 64 b] that by simp
  show ?thesis
    unfolding run_command_def apply_command_def Let_def
    using n e c assms(1) by (cases val) (simp_all add: config_inv_def settings_of_def)
qed

lemma trim_set: "set (trim_trailing s) \<subseteq> set s" "set (skip_whitespace s) \<subseteq> set s"
  by (auto simp: trim_trailing_def skip_whitespace_def dest: set_dropWhileD)

lemma split_line_set: "split_line line = Some (command, val) \<Longrightarrow> set val \<subseteq> set line"
proof -
  assume "split_line line = Some (command, val)"
  then have "val = trim_trailing (take (CONFIG_VAL_SIZE - 1) (skip_whitespace (tl (dropWhile (\<lambda>c. c \<noteq> 0x3D) (skip_whitespace line)))))"
    by (auto simp: split_line_def Let_def split: if_splits)
  moreover have "set (tl (dropWhile P xs)) \<subseteq> set xs" for P and xs :: bytes by (meson in_tl set_dropWhileD subsetI)
  ultimately show ?thesis using trim_set set_take_subset by (metis (no_types, lifting) order_trans)
qed

lemma parse_line_refines:
  assumes "config_inv s" "0 \<notin> set line"
  shows "config_inv (parse_line line s) \<and> settings_of (parse_line line s) = apply_line line (settings_of s)"
proof (cases "split_line line")
  case (Some x)
  obtain command val where x: "x = (command, val)" by fastforce
  then have "0 \<notin> set val" using split_line_set [of line command val] Some assms(2) by auto
  from run_command_refines [OF assms(1) this] show ?thesis by (simp add: parse_line_def apply_line_def Some x)
qed (simp add: parse_line_def apply_line_def assms)

lemma config_lines_set: "l \<in> set (config_lines data) \<Longrightarrow> set l \<subseteq> set data"
proof -
  have "\<Union> (set ` set (split_nl d)) \<subseteq> set d" for d
  proof (induction d)
    case (Cons c d)
    have "set (split_nl d) = insert (hd (split_nl d)) (set (tl (split_nl d)))" using split_nl_Cons [of d] by (metis list.simps(15))
    with Cons split_nl_step [of c d] show ?case by (cases "newline c") (auto simp del: split_nl.simps(2) simp: split_nl_newline)
  qed simp
  then show "l \<in> set (config_lines data) \<Longrightarrow> set l \<subseteq> set data"
    unfolding config_lines_def by (fastforce dest: in_set_takeD)
qed

lemma parse_fold_refines:
  "config_inv s \<Longrightarrow> (\<And>l. l \<in> set ls \<Longrightarrow> 0 \<notin> set l) \<Longrightarrow>
    config_inv (fold parse_line ls s) \<and> settings_of (fold parse_line ls s) = fold apply_line ls (settings_of s)"
  by (induction ls arbitrary: s) (simp_all add: parse_line_refines)

lemma parse_refines:
  assumes "config_inv s" "0 \<notin> set data" "data \<noteq> []"
  shows "config_inv (config_sys_parse data s)" "settings_of (config_sys_parse data s) = fold apply_line (config_lines data) (settings_of s)"
    "cfg_device_count (g_config (config_sys_parse data s)) = g_device_count (config_sys_parse data s)"
proof -
  have "0 \<notin> set l" if "l \<in> set (config_lines data)" for l using config_lines_set [OF that] assms(2) by auto
  from parse_fold_refines [OF assms(1), of "config_lines data", OF this]
  have r: "config_inv (parse_loop data [] s)" "settings_of (parse_loop data [] s) = fold apply_line (config_lines data) (settings_of s)"
    unfolding parse_lines by blast+
  show "config_inv (config_sys_parse data s)" "settings_of (config_sys_parse data s) = fold apply_line (config_lines data) (settings_of s)"
    "cfg_device_count (g_config (config_sys_parse data s)) = g_device_count (config_sys_parse data s)"
    using r assms(3) by (simp_all add: config_sys_parse_def Let_def config_inv_def settings_of_def)
qed

text \<open>The state at the start of the kernel, and what initialisation makes of it.\<close>

definition config_boot :: "config_state \<Rightarrow> bool" where
  "config_boot s \<longleftrightarrow> length (pool s) = 8 \<and> pool_idx s = 0 \<and> (\<forall>i<8. length (e_value (pool s ! i)) = 128) \<and> length (cfg_shell_path (g_config s)) = 64"

definition default_settings :: settings where
  "default_settings = \<lparr>set_files = 8, set_buffers = 4, set_drive = 0x45, set_break = True, set_echo = True, set_dos = False, set_shell = [],
     set_devices = [], set_room = 8\<rparr>"

lemma config_init: "config_boot s \<Longrightarrow> config_inv (config_sys_init s) \<and> settings_of (config_sys_init s) = default_settings"
proof -
  assume b: "config_boot s"
  then obtain x xs where "cfg_shell_path (g_config s) = x # xs" by (cases "cfg_shell_path (g_config s)") (auto simp: config_boot_def)
  with b show ?thesis
    by (auto simp: config_boot_def config_inv_def settings_of_def config_sys_init_def default_settings_def device_ok_def device_list_def first_device_def str_of_def)
qed

section \<open>The summary\<close>

text \<open>A value that is read back as it is written.\<close>

definition clean :: "bytes \<Rightarrow> bool" where
  "clean v \<longleftrightarrow> (v \<noteq> [] \<longrightarrow> \<not> blank (hd v) \<and> \<not> blank (last v)) \<and> (\<forall>c \<in> set v. \<not> newline c)"

lemma skip_clean: "clean v \<Longrightarrow> skip_whitespace v = v"
  by (cases v) (auto simp: clean_def skip_whitespace_def)

lemma trim_clean: "clean v \<Longrightarrow> trim_trailing v = v"
proof (cases v rule: rev_cases)
  case (snoc xs x)
  moreover assume "clean v"
  ultimately have "\<not> blank x" "\<not> newline x" by (auto simp: clean_def)
  then show ?thesis by (simp add: snoc trim_trailing_def newline_def)
qed (simp add: trim_trailing_def)

definition letters :: "bytes \<Rightarrow> bool" where "letters v \<longleftrightarrow> (\<forall>c \<in> set v. 0x41 \<le> c \<and> c \<le> 0x5A)"

lemma letter_not: "0x41 \<le> (c :: u8) \<Longrightarrow> c \<le> 0x5A \<Longrightarrow> c \<noteq> 0x3D \<and> c \<noteq> 0x3B \<and> c \<noteq> 0x23 \<and> \<not> blank c \<and> \<not> newline c \<and> \<not> (0x61 \<le> c)"
  by (auto simp: blank_def newline_def word_le_nat_alt)

lemma letters_clean: "letters v \<Longrightarrow> clean v" "letters v \<Longrightarrow> str_to_upper v = v"
  using letter_not by (auto simp: letters_def clean_def str_to_upper_def intro!: map_idI)

lemma split_line_simple:
  assumes cmd: "cmd \<noteq> []" "letters cmd" "length cmd \<le> 31" and v: "clean v" "length v \<le> 127"
  shows "split_line ([0x20, 0x20] @ cmd @ [0x3D] @ v) = Some (cmd, v)"
proof -
  let ?s = "cmd @ [0x3D] @ v"
  obtain c cs where c: "cmd = c # cs" using cmd(1) by (cases cmd) auto
  have lc: "0x41 \<le> c" "c \<le> 0x5A" using cmd(2) c by (auto simp: letters_def)
  have sk: "skip_whitespace ([0x20, 0x20] @ ?s) = ?s" using letter_not [OF lc] by (simp add: skip_whitespace_def blank_def c)
  have ne: "\<And>x. x \<in> set cmd \<Longrightarrow> x \<noteq> 0x3D" using cmd(2) letter_not by (auto simp: letters_def)
  have "takeWhile (\<lambda>c. c \<noteq> 0x3D) ?s = cmd" "dropWhile (\<lambda>c. c \<noteq> 0x3D) ?s = 0x3D # v"
    using ne by (simp_all add: takeWhile_append2 dropWhile_append2)
  moreover have "?s ! 0 \<noteq> 0x3B" "?s ! 0 \<noteq> 0x23" using letter_not [OF lc] c by simp_all
  ultimately show ?thesis
    unfolding split_line_def sk Let_def using cmd v letters_clean [OF cmd(2)]
    by (simp add: config_sizes skip_clean trim_clean)
qed

lemma parse_digits: "(\<And>c. c \<in> set xs \<Longrightarrow> digit c) \<Longrightarrow> parse_int_from a (xs @ ys) = parse_int_from (parse_int_from a xs) ys"
  by (induction xs arbitrary: a) auto

lemma digit_byte: "k < 10 \<Longrightarrow> ucast (0x30 + of_nat k :: u8) - 0x30 = (of_nat k :: u32) \<and> digit (0x30 + of_nat k)"
proof -
  have "list_all (\<lambda>k. ucast (0x30 + of_nat k :: u8) - 0x30 = (of_nat k :: u32) \<and> digit (0x30 + of_nat k)) [0..<10]" by code_simp
  then show "k < 10 \<Longrightarrow> ?thesis" by (simp add: list_all_iff)
qed

lemma dec_digits_all: "c \<in> set (dec_reversed n) \<Longrightarrow> digit c"
  by (induction n rule: dec_reversed.induct) (subst (asm) (2) dec_reversed.simps, auto simp: digit_byte split: if_splits)

lemma parse_dec: "parse_int_from 0 (rev (dec_reversed n)) = of_nat n"
proof (induction n rule: dec_reversed.induct)
  case (1 n)
  show ?case
  proof (cases "n = 0")
    case True
    then show ?thesis by (simp add: dec_reversed.simps)
  next
    case False
    have d: "n mod 10 < 10" by simp
    have "parse_int_from 0 (rev (dec_reversed n)) = of_nat (n div 10) * 10 + (ucast (0x30 + of_nat (n mod 10) :: u8) - 0x30)"
      using False 1 [OF False] digit_byte [OF d] parse_digits [of "rev (dec_reversed (n div 10))" 0 "[0x30 + of_nat (n mod 10)]"] dec_digits_all
      by (subst dec_reversed.simps) simp
    also have "\<dots> = of_nat (n div 10) * 10 + of_nat (n mod 10)" using digit_byte [OF d] by simp
    also have "\<dots> = of_nat (n div 10 * 10 + n mod 10)" by (simp only: of_nat_add of_nat_mult of_nat_numeral)
    finally show ?thesis by (simp only: div_mult_mod_eq)
  qed
qed

lemma parse_put_dec: "parse_int (screen_put_dec v) = v"
  using parse_dec [of "unat v"] by (simp add: parse_int_def screen_put_dec_def digit_def)

lemma dec_length: "n < 10 ^ k \<Longrightarrow> length (dec_reversed n) \<le> k"
proof (induction k arbitrary: n)
  case (Suc k)
  have "n div 10 < 10 ^ k" using Suc.prems by (simp add: less_mult_imp_div_less mult.commute)
  from Suc.IH [OF this] show ?case by (subst dec_reversed.simps) simp
qed (simp add: dec_reversed.simps)

lemma put_dec_clean: "clean (screen_put_dec v) \<and> length (screen_put_dec v) \<le> 10 \<and> 0 \<notin> set (screen_put_dec v)"
proof -
  have d: "digit c" if "c \<in> set (screen_put_dec v)" for c using that dec_digits_all by (auto simp: screen_put_dec_def digit_def split: if_splits)
  have n: "\<not> digit c" if "blank c \<or> newline c \<or> c = 0" for c using that by (auto simp: digit_def blank_def newline_def)
  have "unat v < 10 ^ 10" by (rule less_trans [OF unat_u32_less]) simp
  from dec_length [OF this] have "length (screen_put_dec v) \<le> 10" by (simp add: screen_put_dec_def)
  moreover have "clean (screen_put_dec v)" using d n unfolding clean_def by (meson hd_in_set last_in_set)
  ultimately show ?thesis using d n by blast
qed

text \<open>The lines of the summary.\<close>

definition summary_lines :: "settings \<Rightarrow> bytes list" where
  "summary_lines a =
     [[], lit ''  --- CONFIG.SYS Summary ---'',
      lit ''  FILES='' @ screen_put_dec (set_files a), lit ''  BUFFERS='' @ screen_put_dec (set_buffers a), lit ''  LASTDRIVE='' @ [set_drive a],
      lit ''  BREAK='' @ (if set_break a then lit ''ON'' else lit ''OFF''), lit ''  DOS='' @ (if set_dos a then lit ''HIGH'' else lit ''LOW''),
      lit ''  SHELL='' @ (if set_shell a = [] then lit ''(built-in)'' else set_shell a)] @
     map (\<lambda>d. lit ''  DEVICE='' @ d) (set_devices a) @ [lit ''  ---------------------------'']"

lemma shell_empty: "length b = 64 \<Longrightarrow> str_of b = [] \<longleftrightarrow> b ! 0 = 0"
  by (cases b) (auto simp: str_of_def)

lemma shell_builtin: "lit ''  SHELL=(built-in)'' = lit ''  SHELL='' @ lit ''(built-in)''" by code_simp

lemma print_lines:
  assumes "config_inv s" "cfg_device_count (g_config s) = g_device_count s"
  shows "config_sys_print s = concat (map (\<lambda>l. l @ [0x0A]) (summary_lines (settings_of s)))"
proof -
  have d: "device_ok s" and sh: "length (cfg_shell_path (g_config s)) = 64" using assms(1) by (auto simp: config_inv_def)
  have n: "length (device_list s) = g_device_count s" using d by (simp add: device_list_def device_ok_def first_device_def)
  have "(case config_sys_find_device (int i) s of None \<Rightarrow> [] | Some v \<Rightarrow> str_of v) = device_list s ! i" if "i < g_device_count s" for i
    using find_device [OF d, of i] that by (auto split: option.splits)
  then have "map (\<lambda>i. lit ''  DEVICE='' @ (case config_sys_find_device (int i) s of None \<Rightarrow> [] | Some v \<Rightarrow> str_of v) @ [0x0A]) [0..<g_device_count s] =
      map (\<lambda>i. lit ''  DEVICE='' @ device_list s ! i @ [0x0A]) [0..<g_device_count s]" by (intro map_cong) auto
  also have "\<dots> = map (\<lambda>d. lit ''  DEVICE='' @ d @ [0x0A]) (map ((!) (device_list s)) [0..<length (device_list s)])" unfolding n by simp
  finally have dl: "map (\<lambda>i. lit ''  DEVICE='' @ (case config_sys_find_device (int i) s of None \<Rightarrow> [] | Some v \<Rightarrow> str_of v) @ [0x0A]) [0..<g_device_count s] =
      map (\<lambda>d. lit ''  DEVICE='' @ d @ [0x0A]) (device_list s)" unfolding map_nth .
  show ?thesis
    unfolding config_sys_print_def summary_lines_def Let_def assms(2) dl
    using shell_empty [OF sh] shell_builtin by (simp add: settings_of_def comp_def)
qed

text \<open>A summary can be read again when the shell and the devices are clean and a line with them fits the buffer.\<close>

definition printable :: "settings \<Rightarrow> bool" where
  "printable a \<longleftrightarrow> clean (set_shell a) \<and> length (set_shell a) \<le> 63 \<and> 0 \<notin> set (set_shell a) \<and>
     (\<forall>d \<in> set (set_devices a). clean d \<and> length d \<le> 118 \<and> 0 \<notin> set d)"

lemma apply_line_simple:
  "cmd \<noteq> [] \<Longrightarrow> letters cmd \<Longrightarrow> length cmd \<le> 31 \<Longrightarrow> clean v \<Longrightarrow> length v \<le> 127 \<Longrightarrow>
    apply_line ([0x20, 0x20] @ cmd @ [0x3D] @ v) a = apply_command cmd v a"
  unfolding apply_line_def by (subst split_line_simple) simp_all

lemma command_lines:
  "lit ''  FILES='' = [0x20, 0x20] @ lit ''FILES'' @ [0x3D]" "lit ''  BUFFERS='' = [0x20, 0x20] @ lit ''BUFFERS'' @ [0x3D]"
  "lit ''  LASTDRIVE='' = [0x20, 0x20] @ lit ''LASTDRIVE'' @ [0x3D]" "lit ''  BREAK='' = [0x20, 0x20] @ lit ''BREAK'' @ [0x3D]"
  "lit ''  DOS='' = [0x20, 0x20] @ lit ''DOS'' @ [0x3D]" "lit ''  SHELL='' = [0x20, 0x20] @ lit ''SHELL'' @ [0x3D]"
  "lit ''  DEVICE='' = [0x20, 0x20] @ lit ''DEVICE'' @ [0x3D]"
  by code_simp+

lemma command_letters:
  "list_all (\<lambda>w. lit w \<noteq> [] \<and> letters (lit w) \<and> length (lit w) \<le> 31) [''FILES'', ''BUFFERS'', ''LASTDRIVE'', ''BREAK'', ''DOS'', ''SHELL'', ''DEVICE'']"
  by code_simp

lemma command_distinct:
  "distinct [lit ''FILES'', lit ''BUFFERS'', lit ''LASTDRIVE'', lit ''LASTDRV'', lit ''BREAK'', lit ''ECHO'', lit ''DOS'', lit ''SHELL'', lit ''DEVICE'']"
  "distinct [lit ''DEVICE'', lit ''SHELL'', lit ''DOS'', lit ''ECHO'', lit ''BREAK'', lit ''LASTDRV'', lit ''LASTDRIVE'', lit ''BUFFERS'', lit ''FILES'']"
  by code_simp+

text \<open>The effect of each kind of line in a summary.\<close>

lemma summary_effects:
  assumes "clean v" "length v \<le> 127"
  shows "apply_line (lit ''  FILES='' @ v) a = a\<lparr>set_files := (let n = parse_int v in if sint n < 5 then 5 else n)\<rparr>"
    "apply_line (lit ''  BUFFERS='' @ v) a = a\<lparr>set_buffers := (let n = parse_int v in if sint n < 2 then 2 else n)\<rparr>"
    "apply_line (lit ''  LASTDRIVE='' @ v) a = (case v of v # _ \<Rightarrow> if 0x41 \<le> v \<and> v \<le> 0x5A then a\<lparr>set_drive := v\<rparr> else a | [] \<Rightarrow> a)"
    "apply_line (lit ''  BREAK='' @ v) a = a\<lparr>set_break := is_on (str_to_upper v)\<rparr>"
    "apply_line (lit ''  DOS='' @ v) a = a\<lparr>set_dos := (take 1 (str_to_upper v) = [0x48])\<rparr>"
    "apply_line (lit ''  SHELL='' @ v) a = a\<lparr>set_shell := take 63 v\<rparr>"
    "apply_line (lit ''  DEVICE='' @ v) a =
       (if set_room a = 0 then a else a\<lparr>set_devices := set_devices a @ [v], set_room := set_room a - 1\<rparr>)"
  using assms command_distinct command_letters
  by (simp_all add: command_lines append_assoc apply_line_simple del: append_Cons)
    (simp_all add: apply_command_def)

lemma summary_devices:
  "(\<And>d. d \<in> set ds \<Longrightarrow> clean d \<and> length d \<le> 118) \<Longrightarrow> length ds \<le> set_room a \<Longrightarrow>
    fold apply_line (map (\<lambda>d. lit ''  DEVICE='' @ d) ds) a = a\<lparr>set_devices := set_devices a @ ds, set_room := set_room a - length ds\<rparr>"
proof (induction ds arbitrary: a)
  case (Cons d ds)
  have "clean d" "length d \<le> 127" using Cons.prems(1) [of d] by auto
  then show ?case using Cons by (simp add: summary_effects(7))
qed simp

text \<open>A line that survives the reading: short, without line breaks.\<close>

definition good_line :: "bytes \<Rightarrow> bool" where "good_line l \<longleftrightarrow> length l \<le> 127 \<and> (\<forall>c \<in> set l. \<not> newline c \<and> c \<noteq> 0)"

lemma good_append: "good_line p \<Longrightarrow> length p + length v \<le> 127 \<Longrightarrow> clean v \<Longrightarrow> 0 \<notin> set v \<Longrightarrow> good_line (p @ v)"
  by (auto simp: good_line_def clean_def)

lemma summary_literals:
  "list_all (\<lambda>w. good_line (lit w) \<and> length (lit w) \<le> 30) [''  --- CONFIG.SYS Summary ---'', ''  FILES='', ''  BUFFERS='', ''  LASTDRIVE='', ''  BREAK'' @ ''='',
     ''  DOS='', ''  SHELL='', ''  ---------------------------'']"
  "good_line (lit ''  DEVICE='') \<and> length (lit ''  DEVICE='') = 9"
  "list_all (\<lambda>w. clean (lit w) \<and> length (lit w) \<le> 30 \<and> 0 \<notin> set (lit w) \<and> lit w \<noteq> []) [''ON'', ''OFF'', ''HIGH'', ''LOW'', ''(built-in)'']"
  "split_line (lit ''  --- CONFIG.SYS Summary ---'') = None" "split_line (lit ''  ---------------------------'') = None"
  "is_on (str_to_upper (lit ''ON''))" "\<not> is_on (str_to_upper (lit ''OFF''))" "take 1 (str_to_upper (lit ''HIGH'')) = [0x48]" "take 1 (str_to_upper (lit ''LOW'')) \<noteq> [0x48]"
  by code_simp+

lemma drive_clean: "0x41 \<le> c \<Longrightarrow> c \<le> 0x5A \<Longrightarrow> clean [c] \<and> c \<noteq> 0"
  using letter_not [of c] by (auto simp: clean_def)

lemma summary_good:
  assumes "printable a" "0x41 \<le> set_drive a" "set_drive a \<le> 0x5A" "l \<in> set (summary_lines a)"
  shows "good_line l"
proof -
  have d: "good_line (lit ''  DEVICE='' @ d)" if "d \<in> set (set_devices a)" for d
    using assms(1) that summary_literals(2) by (intro good_append) (auto simp: printable_def)
  have sh: "good_line (lit ''  SHELL='' @ (if set_shell a = [] then lit ''(built-in)'' else set_shell a))"
    using assms(1) summary_literals(1,3) by (intro good_append) (auto simp: printable_def)
  have "good_line (lit ''  LASTDRIVE='' @ [set_drive a])"
    using drive_clean [OF assms(2,3)] summary_literals(1) by (intro good_append) auto
  moreover have "good_line (lit ''  FILES='' @ screen_put_dec n)" "good_line (lit ''  BUFFERS='' @ screen_put_dec n)" for n
    using put_dec_clean [of n] summary_literals(1) by (auto intro!: good_append)
  moreover have "good_line (lit ''  BREAK='' @ (if x then lit ''ON'' else lit ''OFF''))" "good_line (lit ''  DOS='' @ (if x then lit ''HIGH'' else lit ''LOW''))" for x
    using summary_literals(1,3) by (auto intro!: good_append)
  moreover have "good_line []" by (simp add: good_line_def)
  ultimately show ?thesis using assms(4) d sh summary_literals(1) by (auto simp: summary_lines_def)
qed

lemma summary_fold:
  assumes pr: "printable a" and drive: "0x41 \<le> set_drive a" "set_drive a \<le> 0x5A" and counts: "5 \<le> sint (set_files a)" "2 \<le> sint (set_buffers a)"
    and dev: "length (set_devices a) \<le> 8"
  shows "fold apply_line (filter (\<lambda>l. l \<noteq> []) (summary_lines a)) default_settings =
    a\<lparr>set_echo := True, set_shell := (if set_shell a = [] then lit ''(built-in)'' else set_shell a), set_room := 8 - length (set_devices a)\<rparr>"
proof -
  have ne: "list_all (\<lambda>w. lit w \<noteq> []) [''  --- CONFIG.SYS Summary ---'', ''  FILES='', ''  BUFFERS='', ''  LASTDRIVE='', ''  BREAK='', ''  DOS='', ''  SHELL='', ''  DEVICE='',
     ''  ---------------------------'']" by code_simp
  have e: "apply_line (lit ''  --- CONFIG.SYS Summary ---'') x = x" "apply_line (lit ''  ---------------------------'') x = x" for x
    by (simp_all add: apply_line_def summary_literals)
  have sh: "clean (if set_shell a = [] then lit ''(built-in)'' else set_shell a)" "length (if set_shell a = [] then lit ''(built-in)'' else set_shell a) \<le> 63"
    using pr summary_literals(3) by (auto simp: printable_def)
  have ds: "\<And>d. d \<in> set (set_devices a) \<Longrightarrow> clean d \<and> length d \<le> 118" using pr by (auto simp: printable_def)
  have w: "clean (if x then lit ''ON'' else lit ''OFF'')" "length (if x then lit ''ON'' else lit ''OFF'') \<le> 127"
    "clean (if x then lit ''HIGH'' else lit ''LOW'')" "length (if x then lit ''HIGH'' else lit ''LOW'') \<le> 127" for x
    using summary_literals(3) by auto
  have f: "filter (\<lambda>l. l \<noteq> []) (summary_lines a) = tl (summary_lines a)"
    using ne by (simp add: summary_lines_def filter_map comp_def)
  have fw: "clean (screen_put_dec v)" "length (screen_put_dec v) \<le> 127" for v using put_dec_clean [of v] by auto
  note eff = summary_effects(1) [OF fw] summary_effects(2) [OF fw] summary_effects(4) [OF w(1,2)] summary_effects(5) [OF w(3,4)] 
    summary_effects(6) [OF sh(1)]
  have dr: "apply_line (lit ''  LASTDRIVE='' @ [set_drive a]) x = x\<lparr>set_drive := set_drive a\<rparr>" for x
    using summary_effects(3) [of "[set_drive a]" x] drive_clean [OF drive] drive by simp
  have on: "is_on (str_to_upper (if x then lit ''ON'' else lit ''OFF'')) = x" "(take (Suc 0) (str_to_upper (if x then lit ''HIGH'' else lit ''LOW'')) = [0x48]) = x" for x
    using summary_literals(6-9) by auto
  show ?thesis
    unfolding f unfolding summary_lines_def
    using sh(2) counts by (intro settings.equality) (simp_all add: eff dr e on parse_put_dec summary_devices [OF ds] dev default_settings_def)
qed

section \<open>An example\<close>

definition fresh_config :: config_state where
  "fresh_config = \<lparr>g_config = \<lparr>cfg_files = 0, cfg_buffers = 0, cfg_last_drive = 0, cfg_break_on = False, cfg_echo_on = False, cfg_dos_high = False,
     cfg_shell_path = replicate 64 0, cfg_devices = None, cfg_device_count = 0\<rparr>, g_devices_head = None, g_devices_tail = None, g_device_count = 0,
     pool = replicate 8 \<lparr>e_value = replicate 128 0, e_next = None\<rparr>, pool_idx = 0\<rparr>"

definition sample_text :: bytes where
  "sample_text = lit ''files = 20'' @ [0x0D, 0x0A] @ lit ''; note'' @ [0x0A] @ lit ''DEVICE= A.SYS '' @ [0x0A, 0x0A] @ lit ''Break=off'' @ [0x0A] @ lit ''DEVICE=B.SYS''"

lemma fresh_boot: "config_boot fresh_config" by (simp add: config_boot_def fresh_config_def)

lemma sample_ok: "0 \<notin> set sample_text" "sample_text \<noteq> []" by code_simp+

definition sample_settings :: settings where "sample_settings = fold apply_line (config_lines sample_text) default_settings"

lemma sample_lines:
  "config_lines sample_text = [lit ''files = 20'', lit ''; note'', lit ''DEVICE= A.SYS '', lit ''Break=off'', lit ''DEVICE=B.SYS'']" by code_simp

lemma sample_commands:
  "split_line (lit ''files = 20'') = Some (lit ''FILES'', lit ''20'')" "split_line (lit ''; note'') = None"
  "split_line (lit ''DEVICE= A.SYS '') = Some (lit ''DEVICE'', lit ''A.SYS'')" "split_line (lit ''Break=off'') = Some (lit ''BREAK'', lit ''off'')"
  "split_line (lit ''DEVICE=B.SYS'') = Some (lit ''DEVICE'', lit ''B.SYS'')" "parse_int (lit ''20'') = 20" "\<not> is_on (str_to_upper (lit ''off''))"
  "take 127 (lit ''A.SYS'') = lit ''A.SYS''" "take 127 (lit ''B.SYS'') = lit ''B.SYS''"
  by code_simp+

lemma sample_eq: "sample_settings = default_settings\<lparr>set_files := 20, set_break := False, set_devices := [lit ''A.SYS'', lit ''B.SYS''], set_room := 6\<rparr>"
  unfolding sample_settings_def sample_lines using command_distinct
  by (simp add: apply_line_def sample_commands) (simp add: apply_command_def default_settings_def sample_commands)

lemma sample_settings: "set_files sample_settings = 20" "set_break sample_settings = False" "set_devices sample_settings = [lit ''A.SYS'', lit ''B.SYS'']"
  "set_shell sample_settings = []"
  by (simp_all add: sample_eq default_settings_def)

lemma sample_printable: "printable sample_settings"
proof -
  have "clean (lit ''A.SYS'') \<and> length (lit ''A.SYS'') \<le> 118 \<and> 0 \<notin> set (lit ''A.SYS'')" "clean (lit ''B.SYS'') \<and> length (lit ''B.SYS'') \<le> 118 \<and> 0 \<notin> set (lit ''B.SYS'')"
    by code_simp+
  then show ?thesis by (simp add: printable_def sample_settings) (simp add: clean_def)
qed

section \<open>Properties\<close>

text \<open>
  C22. Parsing any number of configuration texts after the kernel's start has exactly the effect of their lines, one by one, on the default settings; the parsed state stays well
  formed (at least 5 files and 2 buffers, a drive letter, a terminated shell path, at most eight devices in order), and \<open>config_sys_find_device\<close> returns the devices by
  their position and nothing beyond them.
\<close>

theorem config_parse_refines:
  assumes boot: "config_boot b" and texts: "\<And>d. d \<in> set ds \<Longrightarrow> 0 \<notin> set d"
    and s: "s = fold config_sys_parse ds (config_sys_init b)" and a: "a = fold apply_line (concat (map config_lines ds)) default_settings"
  shows "settings_of s = a \<and> config_inv s \<and> length (set_devices a) \<le> 8 \<and>
    (\<forall>n. map_option str_of (config_sys_find_device (int n) s) = (if n < length (set_devices a) then Some (set_devices a ! n) else None))"
proof -
  have step: "config_inv (config_sys_parse d t) \<and> settings_of (config_sys_parse d t) = fold apply_line (config_lines d) (settings_of t)"
    if "config_inv t" "0 \<notin> set d" for d t
    using parse_refines [OF that] that(1) by (cases "d = []") (auto simp: config_sys_parse_def config_lines_def)
  have "config_inv (fold config_sys_parse ds t) \<and> settings_of (fold config_sys_parse ds t) = fold apply_line (concat (map config_lines ds)) (settings_of t)"
    if "config_inv t" for t using that texts step by (induction ds arbitrary: t) auto
  with config_init [OF boot] have r: "config_inv s" "settings_of s = a" unfolding s a by auto
  then have d: "device_ok s" "device_list s = set_devices a" by (auto simp: config_inv_def settings_of_def)
  then have "length (set_devices a) = g_device_count s" "g_device_count s \<le> 8"
    by (auto simp: device_list_def device_ok_def first_device_def simp flip: d(2))
  then show ?thesis using r d find_device [OF d(1)] by simp
qed

theorem config_parse_refines_witness:
  "let s = fold config_sys_parse [sample_text] (config_sys_init fresh_config)
   in cfg_files (g_config s) = 20 \<and> \<not> cfg_break_on (g_config s) \<and> map_option str_of (config_sys_find_device 1 s) = Some (lit ''B.SYS'') \<and>
      config_sys_find_device 2 s = None"
proof -
  let ?s = "fold config_sys_parse [sample_text] (config_sys_init fresh_config)"
  have "settings_of ?s = sample_settings \<and> (\<forall>n. map_option str_of (config_sys_find_device (int n) ?s) =
      (if n < length (set_devices sample_settings) then Some (set_devices sample_settings ! n) else None))"
    using config_parse_refines [OF fresh_boot, of "[sample_text]" ?s sample_settings] sample_ok by (simp add: sample_settings_def)
  then have a: "settings_of ?s = sample_settings" and "map_option str_of (config_sys_find_device (int 1) ?s) = Some (lit ''B.SYS'')"
    "map_option str_of (config_sys_find_device (int 2) ?s) = None"
    by (simp_all only: sample_settings list.size nth_Cons_Suc nth_Cons_0 One_nat_def) simp_all
  moreover have "cfg_files (g_config ?s) = set_files sample_settings" "cfg_break_on (g_config ?s) = set_break sample_settings"
    unfolding a [symmetric] by (simp_all add: settings_of_def)
  ultimately show ?thesis by (simp add: sample_settings Let_def)
qed

text \<open>
  C23. Print and parse: when the summary that \<open>config_sys_print\<close> writes is read as a configuration file on a fresh start, the settings are those printed.  Echo is not part of
  the summary and has its default; a missing shell is printed, and read, as \<^verbatim>\<open>(built-in)\<close>.
\<close>

theorem config_print_parse:
  assumes inv: "config_inv s" and pr: "printable (settings_of s)" and cnt: "cfg_device_count (g_config s) = g_device_count s" and boot: "config_boot b"
  shows "settings_of (config_sys_parse (config_sys_print s) (config_sys_init b)) =
    (settings_of s)\<lparr>set_echo := True, set_shell := (if set_shell (settings_of s) = [] then lit ''(built-in)'' else set_shell (settings_of s)),
      set_room := 8 - length (set_devices (settings_of s))\<rparr>"
proof -
  let ?a = "settings_of s"
  have drive: "0x41 \<le> set_drive ?a" "set_drive ?a \<le> 0x5A" and counts: "5 \<le> sint (set_files ?a)" "2 \<le> sint (set_buffers ?a)"
    using inv by (auto simp: config_inv_def settings_of_def)
  have dev: "length (set_devices ?a) \<le> 8"
    using inv by (auto simp: config_inv_def settings_of_def device_list_def device_ok_def first_device_def)
  have good: "good_line l" if "l \<in> set (summary_lines ?a)" for l using summary_good [OF pr drive that] .
  have tx: "config_sys_print s = concat (map (\<lambda>l. l @ [0x0A]) (summary_lines ?a))" by (rule print_lines [OF inv cnt])
  have "config_lines (config_sys_print s) = filter (\<lambda>l. l \<noteq> []) (map (take 127) (summary_lines ?a))"
    unfolding tx using good by (intro config_lines_text) (auto simp: good_line_def)
  also have "map (take 127) (summary_lines ?a) = summary_lines ?a" using good by (intro map_idI) (auto simp: good_line_def)
  finally have lines: "config_lines (config_sys_print s) = filter (\<lambda>l. l \<noteq> []) (summary_lines ?a)" .
  have z: "0 \<notin> set (config_sys_print s)" unfolding tx using good by (auto simp: good_line_def)
  have "config_sys_print s \<noteq> []" by (simp add: config_sys_print_def Let_def)
  with parse_refines(2) [OF _ z] config_init [OF boot]
  have "settings_of (config_sys_parse (config_sys_print s) (config_sys_init b)) = fold apply_line (config_lines (config_sys_print s)) default_settings" by auto
  then show ?thesis unfolding lines summary_fold [OF pr drive counts dev] .
qed

theorem config_print_parse_witness:
  "let s = config_sys_parse sample_text (config_sys_init fresh_config);
       t = config_sys_parse (config_sys_print s) (config_sys_init fresh_config)
   in set_files (settings_of t) = 20 \<and> set_devices (settings_of t) = [lit ''A.SYS'', lit ''B.SYS''] \<and> set_shell (settings_of t) = lit ''(built-in)''"
proof -
  let ?s = "config_sys_parse sample_text (config_sys_init fresh_config)"
  have i: "config_inv (config_sys_init fresh_config)" "settings_of (config_sys_init fresh_config) = default_settings" using config_init [OF fresh_boot] by auto
  note r = parse_refines [OF i(1) sample_ok]
  have a: "settings_of ?s = sample_settings" using r(2) i(2) by (simp add: sample_settings_def)
  show ?thesis
    using config_print_parse [OF r(1) _ r(3) fresh_boot] sample_printable by (simp add: a sample_settings Let_def)
qed

end
