(* ===== verification/Users.thy ===== *)
theory Users
  imports Cbuf
begin

text \<open>
  User accounts, \<^verbatim>\<open>src/kernel/shell/users.c\<close>.  C strings are passed as the bytes before the terminating zero; the arrays of \<open>struct user\<close> are
  lists of their fixed length, so a copy leaves the bytes behind the terminator.  A pointer into the user table is a slot number.  The
  messages on screen and serial line are left out.

  \<open>user_hash_password\<close> shifts a 32 bit word by up to 36 places.  C leaves shifts by 32 and more undefined, so the shift is a parameter \<open>shr\<close> of the model; on
  amounts below 32 it is the right shift (\<open>shr_ok\<close>).
\<close>

definition USERNAME_MAX :: nat where "USERNAME_MAX = 24"
definition PASSWORD_MAX :: nat where "PASSWORD_MAX = 32"
definition FULLNAME_MAX :: nat where "FULLNAME_MAX = 48"
definition MAX_USERS :: nat where "MAX_USERS = 16"
definition GROUP_ADMIN :: u32 where "GROUP_ADMIN = 0"
definition GROUP_USER :: u32 where "GROUP_USER = 1"

type_synonym shift = "u32 \<Rightarrow> nat \<Rightarrow> u32"

record user =
  uid :: u32
  gid :: u32
  username :: bytes
  password_hash :: bytes
  fullname :: bytes
  active :: bool

record users =
  user_table :: "user list"
  user_count :: int
  current_user :: "nat option"

section \<open>Password hash\<close>

definition hash_step :: "u8 \<Rightarrow> u32 \<times> u32 \<Rightarrow> u32 \<times> u32" where
  "hash_step ch = (\<lambda>(h, salt). ((push_bit 5 h + h) XOR ucast ch XOR salt, push_bit 1 salt OR drop_bit 31 salt))"

definition hash_word :: "bytes \<Rightarrow> u32" where
  "hash_word password = fst (fold hash_step password (0x9E3779B9, 0x6B8B4567))"

definition hex_digit :: "u32 \<Rightarrow> u8" where
  "hex_digit x = (map of_nat ([48..<58] @ [65..<71])) ! unat (x AND 0x0F)"

definition hash_digits :: "shift \<Rightarrow> u32 \<Rightarrow> bytes" where
  "hash_digits shr h = concat (map (\<lambda>i. map (\<lambda>j. hex_digit (shr h (i * 4 + j))) [0, 4, 8, 12]) [0..<7])"

text \<open>The 29 bytes that \<open>user_hash_password\<close> writes into \<open>hash\<close>.\<close>

definition user_hash_password :: "shift \<Rightarrow> bytes \<Rightarrow> bytes \<Rightarrow> bytes" where
  "user_hash_password shr password hash = hash_digits shr (hash_word password) @ [0] @ drop 29 hash"

section \<open>Operations\<close>

definition find_free_slot :: "users \<Rightarrow> nat option" where
  "find_free_slot s = find (\<lambda>i. \<not> active (user_table s ! i)) [0..<MAX_USERS]"

definition user_create :: "shift \<Rightarrow> bytes \<Rightarrow> bytes \<Rightarrow> bytes option \<Rightarrow> u32 \<Rightarrow> users \<Rightarrow> int \<times> users" where
  "user_create shr name password full g s = (case find_free_slot s of
     None \<Rightarrow> (-1, s)
   | Some slot \<Rightarrow>
       let u = user_table s ! slot;
           u = u\<lparr>username := copy_str USERNAME_MAX name (username u)\<rparr>;
           u = u\<lparr>password_hash := user_hash_password shr password (password_hash u)\<rparr>;
           u = (case full of
                  Some f \<Rightarrow> u\<lparr>fullname := copy_str FULLNAME_MAX f (fullname u)\<rparr>
                | None \<Rightarrow> u\<lparr>fullname := (fullname u)[0 := 0]\<rparr>);
           u = u\<lparr>uid := of_nat slot, gid := g, active := True\<rparr>
       in (int slot, s\<lparr>user_table := (user_table s)[slot := u], user_count := user_count s + 1\<rparr>))"

definition user_delete :: "u32 \<Rightarrow> users \<Rightarrow> bool \<times> users" where
  "user_delete u_id s =
     (if unat u_id \<ge> MAX_USERS \<or> \<not> active (user_table s ! unat u_id) then (False, s)
      else let s = (if current_user s = Some (unat u_id) then s\<lparr>current_user := None\<rparr> else s)
           in (True, s\<lparr>user_table := (user_table s)[unat u_id := (user_table s ! unat u_id)\<lparr>active := False\<rparr>],
                 user_count := user_count s - 1\<rparr>))"

definition user_get_by_uid :: "u32 \<Rightarrow> users \<Rightarrow> nat option" where
  "user_get_by_uid u_id s = (if unat u_id \<ge> MAX_USERS \<or> \<not> active (user_table s ! unat u_id) then None else Some (unat u_id))"

definition user_get_by_name :: "bytes \<Rightarrow> users \<Rightarrow> nat option" where
  "user_get_by_name name s =
     find (\<lambda>i. active (user_table s ! i) \<and> same_name name (username (user_table s ! i))) [0..<MAX_USERS]"

definition user_get_current :: "users \<Rightarrow> nat option" where "user_get_current s = current_user s"
definition user_get_count :: "users \<Rightarrow> int" where "user_get_count s = user_count s"
definition user_is_logged_in :: "users \<Rightarrow> bool" where "user_is_logged_in s = (current_user s \<noteq> None)"

definition user_login :: "shift \<Rightarrow> bytes \<Rightarrow> bytes \<Rightarrow> users \<Rightarrow> bool \<times> users" where
  "user_login shr name password s = (case user_get_by_name name s of
     None \<Rightarrow> (False, s)
   | Some u \<Rightarrow>
       let hash = user_hash_password shr password (replicate PASSWORD_MAX 0);
           match = fold (\<lambda>i match. if hash ! i \<noteq> password_hash (user_table s ! u) ! i then False else match) [0..<28] True
       in if \<not> match then (False, s) else (True, s\<lparr>current_user := Some u\<rparr>))"

definition user_logout :: "users \<Rightarrow> users" where "user_logout s = s\<lparr>current_user := None\<rparr>"

definition users_init :: "shift \<Rightarrow> users \<Rightarrow> users" where
  "users_init shr s =
     (let s = s\<lparr>user_table := map (\<lambda>u. u\<lparr>active := False\<rparr>) (user_table s), user_count := 0, current_user := None\<rparr>;
          s = snd (user_create shr (of_string ''root'') (of_string ''admin'') (Some (of_string ''System Administrator'')) GROUP_ADMIN s)
      in snd (user_create shr (of_string ''demo'') (of_string ''demo'') (Some (of_string ''Demo User'')) GROUP_USER s))"

section \<open>What the hash keeps of a password\<close>

definition shr_ok :: "shift \<Rightarrow> bool" where
  "shr_ok shr \<longleftrightarrow> (\<forall>w k. k < 32 \<longrightarrow> shr w k = drop_bit k w)"

lemma hex_digit_eq: "hex_digit x = hex_digit y \<longleftrightarrow> x AND 0x0F = y AND 0x0F"
proof -
  let ?t = "map of_nat ([48..<58] @ [65..<71]) :: bytes"
  have t: "distinct ?t" "length ?t = 16" by (simp_all add: upt_rec)
  have "unat (z AND 0x0F) < length ?t" for z :: u32 unfolding t(2) using unat_mask [of z 4] by (simp add: mask_eq_exp_minus_1)
  from nth_eq_iff_index_eq [OF t(1) this this] show ?thesis unfolding hex_digit_def by (metis unsigned_word_eqI)
qed

lemma length_hash_digits [simp]: "length (hash_digits shr h) = 28"
  by (simp add: hash_digits_def upt_rec)

lemma nibbles_eq:
  assumes "\<And>k. k \<in> {0, 4, 8, 12, 16, 20, 24, 28} \<Longrightarrow> drop_bit k h AND 0x0F = drop_bit k h' AND (0x0F :: u32)"
  shows "h = h'"
proof (rule bit_word_eqI)
  fix n assume "n < LENGTH(32)"
  then have n: "n < 32" by simp
  let ?k = "4 * (n div 4)"
  have "n div 4 < 8" using n by simp
  then have "n div 4 \<in> {0, 1, 2, 3, 4, 5, 6, 7}" by auto
  then have "?k \<in> {0, 4, 8, 12, 16, 20, 24, 28}" by auto
  from assms [OF this] have "drop_bit ?k h AND mask 4 = drop_bit ?k h' AND mask 4" by (simp add: mask_eq_exp_minus_1)
  then have "bit (drop_bit ?k h AND mask 4) (n mod 4) = bit (drop_bit ?k h' AND mask 4) (n mod 4)" by simp
  moreover have "n mod 4 < 32" using mod_less_divisor [of 4 n] by linarith
  ultimately show "bit h n = bit h' n" using n by (simp add: bit_simps)
qed

lemma hash_digits_inj:
  assumes "shr_ok shr" "hash_digits shr h = hash_digits shr h'"
  shows "h = h'"
proof (rule nibbles_eq)
  have e: "map (\<lambda>j. hex_digit (shr h (i * 4 + j))) [0, 4, 8, 12] = map (\<lambda>j. hex_digit (shr h' (i * 4 + j))) [0, 4, 8, 12]"
    if "i < 7" for i
  proof -
    have "map (\<lambda>i. map (\<lambda>j. hex_digit (shr h (i * 4 + j))) [0, 4, 8, 12]) [0..<7] =
        map (\<lambda>i. map (\<lambda>j. hex_digit (shr h' (i * 4 + j))) [0, 4, 8, 12]) [0..<7]"
      using assms(2) unfolding hash_digits_def by (rule concat_injective) (auto simp: set_zip)
    then show ?thesis using that by (auto simp: map_eq_conv)
  qed
  have d: "drop_bit (i * 4 + j) h AND 0x0F = drop_bit (i * 4 + j) h' AND (0x0F :: u32)"
    if "i < 7" "j \<in> {0, 4, 8, 12}" "i * 4 + j < 32" for i j
    using e [OF that(1)] that assms(1) by (auto simp: shr_ok_def hex_digit_eq)
  show "drop_bit k h AND 0x0F = drop_bit k h' AND 0x0F" if "k \<in> {0, 4, 8, 12, 16, 20, 24, 28}" for k
    using that d [of 0 0] d [of 0 4] d [of 0 8] d [of 0 12] d [of 4 0] d [of 4 4] d [of 4 8] d [of 4 12] by auto
qed

section \<open>The account table\<close>

definition user_wf :: "user \<Rightarrow> bool" where
  "user_wf u \<longleftrightarrow> length (username u) = USERNAME_MAX \<and> length (password_hash u) = PASSWORD_MAX \<and> length (fullname u) = FULLNAME_MAX"

definition account_ok :: "shift \<Rightarrow> nat \<Rightarrow> user \<Rightarrow> bool" where
  "account_ok shr i u \<longleftrightarrow> user_wf u \<and>
     (active u \<longrightarrow> uid u = of_nat i \<and> 0 \<in> set (username u) \<and> 0 \<in> set (fullname u) \<and> (\<exists>pw. take 28 (password_hash u) = hash_digits shr (hash_word pw)))"

definition users_inv :: "shift \<Rightarrow> users \<Rightarrow> bool" where
  "users_inv shr s \<longleftrightarrow> length (user_table s) = MAX_USERS \<and> (\<forall>i<MAX_USERS. account_ok shr i (user_table s ! i)) \<and>
     user_count s = int (length (filter active (user_table s))) \<and>
     (\<forall>i. current_user s = Some i \<longrightarrow> i < MAX_USERS \<and> active (user_table s ! i))"

lemma hash_take: "take 28 (user_hash_password shr pw b) = hash_digits shr (hash_word pw)"
  by (simp add: user_hash_password_def)

lemma hash_nth: "i < 28 \<Longrightarrow> user_hash_password shr pw b ! i = hash_digits shr (hash_word pw) ! i"
  by (simp add: user_hash_password_def nth_append)

lemma count_update:
  "i < length xs \<Longrightarrow> int (length (filter P (xs[i := x]))) =
     int (length (filter P xs)) + (if P x then 1 else 0) - (if P (xs ! i) then 1 else 0)"
proof (induction xs arbitrary: i)
  case (Cons y ys)
  show ?case
  proof (cases i)
    case (Suc k)
    then show ?thesis using Cons.IH [of k] Cons.prems by (simp split: if_splits)
  qed simp
qed simp

lemma free_slot: "find_free_slot s = Some i \<longleftrightarrow> i < MAX_USERS \<and> \<not> active (user_table s ! i) \<and> (\<forall>j<i. active (user_table s ! j))"
  by (auto simp: find_free_slot_def find_upt_Some)

text \<open>The record that \<open>user_create\<close> puts into a free slot.\<close>

lemma user_create_cases:
  assumes "user_create shr name pw full g s = (r, t)"
  obtains (full) "find_free_slot s = None" "r = -1" "t = s"
  | (slot) i u where "find_free_slot s = Some i" "r = int i"
      "t = s\<lparr>user_table := (user_table s)[i := u], user_count := user_count s + 1\<rparr>"
      "uid u = of_nat i" "gid u = g" "active u" "username u = copy_str USERNAME_MAX name (username (user_table s ! i))"
      "password_hash u = user_hash_password shr pw (password_hash (user_table s ! i))"
      "fullname u = (case full of Some f \<Rightarrow> copy_str FULLNAME_MAX f (fullname (user_table s ! i)) | None \<Rightarrow> (fullname (user_table s ! i))[0 := 0])"
  using assms by (cases "find_free_slot s"; cases full) (auto simp: user_create_def Let_def)

lemma create_inv:
  assumes "users_inv shr s" "user_create shr name pw full g s = (r, t)"
  shows "users_inv shr t"
  using assms(2)
proof (cases rule: user_create_cases)
  case full
  then show ?thesis using assms(1) by simp
next
  case (slot i u)
  have i: "i < MAX_USERS" "\<not> active (user_table s ! i)" using slot(1) by (simp_all add: free_slot)
  have old: "user_wf (user_table s ! i)" using assms(1) i(1) by (simp add: users_inv_def account_ok_def)
  have "length (fullname u) = FULLNAME_MAX \<and> 0 \<in> set (fullname u)"
    using old slot(9) copy_str_ok [of FULLNAME_MAX "fullname (user_table s ! i)"]
    by (auto simp: user_wf_def FULLNAME_MAX_def set_update_memI split: option.splits)
  moreover have "length (username u) = USERNAME_MAX \<and> 0 \<in> set (username u)"
    using old slot(7) copy_str_ok [of USERNAME_MAX "username (user_table s ! i)"] by (auto simp: user_wf_def USERNAME_MAX_def)
  moreover have "length (password_hash u) = PASSWORD_MAX"
    using old slot(8) by (simp add: user_wf_def user_hash_password_def PASSWORD_MAX_def)
  ultimately have u: "account_ok shr i u" using slot(4,8) hash_take by (auto simp: account_ok_def user_wf_def)
  show ?thesis using assms(1) i slot(3,6) u count_update [of i "user_table s" active u]
    by (auto simp: users_inv_def nth_list_update)
qed

lemma delete_inv: "users_inv shr s \<Longrightarrow> users_inv shr (snd (user_delete u_id s))"
proof -
  assume inv: "users_inv shr s"
  show ?thesis
  proof (cases "unat u_id \<ge> MAX_USERS \<or> \<not> active (user_table s ! unat u_id)")
    case True
    then show ?thesis using inv by (simp add: user_delete_def)
  next
    case False
    let ?i = "unat u_id" and ?u = "(user_table s ! unat u_id)\<lparr>active := False\<rparr>"
    have "account_ok shr ?i ?u" using inv False by (auto simp: users_inv_def account_ok_def user_wf_def)
    then show ?thesis using inv False count_update [of ?i "user_table s" active ?u]
      by (auto simp: user_delete_def users_inv_def nth_list_update Let_def)
  qed
qed

lemma by_name: "user_get_by_name name s = Some i \<longleftrightarrow> i < MAX_USERS \<and> active (user_table s ! i) \<and> same_name name (username (user_table s ! i)) \<and>
    (\<forall>j<i. \<not> (active (user_table s ! j) \<and> same_name name (username (user_table s ! j))))"
  by (auto simp: user_get_by_name_def find_upt_Some)

lemma fold_match: "fold (\<lambda>i match. if P i then False else match) xs b \<longleftrightarrow> b \<and> (\<forall>i\<in>set xs. \<not> P i)"
  by (induction xs arbitrary: b) auto

lemma login_cases:
  assumes "length (password_hash (user_table s ! i)) = PASSWORD_MAX" "user_get_by_name name s = Some i"
  shows "user_login shr name pw s =
    (if hash_digits shr (hash_word pw) = take 28 (password_hash (user_table s ! i)) then (True, s\<lparr>current_user := Some i\<rparr>) else (False, s))"
proof -
  have "(\<forall>k\<in>set [0..<28]. \<not> user_hash_password shr pw (replicate PASSWORD_MAX 0) ! k \<noteq> password_hash (user_table s ! i) ! k) \<longleftrightarrow>
      hash_digits shr (hash_word pw) = take 28 (password_hash (user_table s ! i))"
    using assms(1) by (auto simp: list_eq_iff_nth_eq hash_nth PASSWORD_MAX_def)
  then show ?thesis using assms(2) unfolding user_login_def Let_def fold_match by simp
qed

lemma login_inv: "users_inv shr s \<Longrightarrow> users_inv shr (snd (user_login shr' name pw s))"
  using by_name [of name s] by (auto simp: user_login_def users_inv_def Let_def split: option.split)

lemma logout_inv: "users_inv shr s \<Longrightarrow> users_inv shr (user_logout s)"
  by (simp add: users_inv_def user_logout_def)

lemma users_init_inv:
  assumes "length (user_table s) = MAX_USERS" "\<forall>u\<in>set (user_table s). user_wf u"
  shows "users_inv shr (users_init shr s)"
proof -
  let ?s = "s\<lparr>user_table := map (\<lambda>u. u\<lparr>active := False\<rparr>) (user_table s), user_count := 0, current_user := None\<rparr>"
  have "users_inv shr ?s" using assms by (auto simp: users_inv_def account_ok_def user_wf_def filter_map comp_def)
  then show ?thesis unfolding users_init_def Let_def by (metis create_inv prod.collapse)
qed

section \<open>Reachable states and correctness\<close>

inductive users_step :: "shift \<Rightarrow> users \<Rightarrow> users \<Rightarrow> bool" where
  create: "users_step shr s (snd (user_create shr name pw full g s))"
| delete: "users_step shr s (snd (user_delete u_id s))"
| login: "users_step shr s (snd (user_login shr name pw s))"
| logout: "users_step shr s (user_logout s)"

inductive users_reach :: "shift \<Rightarrow> users \<Rightarrow> users \<Rightarrow> bool" where
  refl: "users_reach shr s s"
| step: "users_reach shr s t \<Longrightarrow> users_step shr t u \<Longrightarrow> users_reach shr s u"

inductive_cases users_stepE: "users_step shr s t"

lemma users_step_inv: "users_step shr s t \<Longrightarrow> users_inv shr s \<Longrightarrow> users_inv shr t"
  by (erule users_stepE) (auto intro: create_inv [OF _ prod.collapse [symmetric]] delete_inv login_inv logout_inv)

lemma reach_users_inv: "users_reach shr s t \<Longrightarrow> users_inv shr s \<Longrightarrow> users_inv shr t"
  by (induction rule: users_reach.induct) (auto intro: users_step_inv)

text \<open>
  C40. In every state that logins, logouts, creations and deletions reach from \<open>users_init\<close>, the account table is well formed: the arrays of each record have
  their declared length, the names of the active accounts are terminated, their identifier is their slot, their stored hash is the hash of a password,
  the counter is the number of active accounts, and the user who is logged in has an active account.
\<close>

theorem users_invariant:
  assumes "length (user_table s) = MAX_USERS" and "list_all user_wf (user_table s)" and "users_reach shr (users_init shr s) t"
  shows "users_inv shr t"
  using reach_users_inv [OF assms(3) users_init_inv] assms(1,2) by (simp add: list_all_iff)

definition blank_user :: user where
  "blank_user = \<lparr>uid = 0, gid = 0, username = replicate 24 0, password_hash = replicate 32 0, fullname = replicate 48 0, active = False\<rparr>"

definition blank_users :: users where
  "blank_users = \<lparr>user_table = replicate 16 blank_user, user_count = 0, current_user = None\<rparr>"

definition shr_x86 :: shift where "shr_x86 w k = drop_bit (k mod 32) w"

lemma blank_ok: "length (user_table blank_users) = MAX_USERS" "list_all user_wf (user_table blank_users)"
  by (simp_all add: blank_users_def blank_user_def user_wf_def MAX_USERS_def USERNAME_MAX_def PASSWORD_MAX_def FULLNAME_MAX_def list_all_length)

theorem users_invariant_witness:
  "users_inv shr_x86 (user_logout (users_init shr_x86 blank_users))"
  using users_invariant [OF blank_ok, of shr_x86 "user_logout (users_init shr_x86 blank_users)"]
  by (auto intro: users_reach.intros users_step.intros)

text \<open>
  \<open>user_login\<close> succeeds exactly when an active account has the name and its stored password has the same 32 bit hash as the one given; it then makes the first account of
  that name the current user and changes nothing else, and a failed login changes nothing at all.
\<close>

theorem user_login_spec:
  assumes "users_inv shr s" and "shr_ok shr"
  shows "case user_get_by_name name s of
      None \<Rightarrow> user_login shr name pw s = (False, s)
    | Some i \<Rightarrow> \<exists>stored. take 28 (password_hash (user_table s ! i)) = hash_digits shr (hash_word stored) \<and>
        user_login shr name pw s = (if hash_word pw = hash_word stored then (True, s\<lparr>current_user := Some i\<rparr>) else (False, s))"
proof (cases "user_get_by_name name s")
  case None
  then show ?thesis by (simp add: user_login_def)
next
  case (Some i)
  then have "i < MAX_USERS" "active (user_table s ! i)" by (simp_all add: by_name)
  then have ok: "account_ok shr i (user_table s ! i)" using assms(1) by (simp add: users_inv_def)
  then obtain stored where st: "take 28 (password_hash (user_table s ! i)) = hash_digits shr (hash_word stored)"
    using \<open>active (user_table s ! i)\<close> by (auto simp: account_ok_def)
  have "length (password_hash (user_table s ! i)) = PASSWORD_MAX" using ok by (simp add: account_ok_def user_wf_def)
  from login_cases [OF this Some, of shr pw] have "user_login shr name pw s =
      (if hash_word pw = hash_word stored then (True, s\<lparr>current_user := Some i\<rparr>) else (False, s))"
    using st hash_digits_inj [OF assms(2), of "hash_word pw" "hash_word stored"] by auto
  then show ?thesis using Some st by (simp only: option.case) blast
qed

lemma shr_x86_ok: "shr_ok shr_x86"
  by (simp add: shr_ok_def shr_x86_def)

lemma init_blank_inv: "users_inv shr (users_init shr blank_users)"
  using users_init_inv [of blank_users shr] blank_ok by (simp add: list_all_iff)

lemma init_demo:
  "user_get_by_name (of_string ''demo'') (users_init shr_x86 blank_users) = Some 1"
  by code_simp

lemma demo_hash:
  "take 28 (password_hash (user_table (users_init shr_x86 blank_users) ! 1)) = hash_digits shr_x86 (hash_word (of_string ''demo''))"
  by code_simp

lemma demo_collision: "hash_word [98, 32, 77, 76] = hash_word (of_string ''demo'')"
  by code_simp

text \<open>The password \<open>b ML\<close> opens the demo account, whose password is \<open>demo\<close>.\<close>

theorem user_login_witness:
  "fst (user_login shr_x86 (of_string ''demo'') [98, 32, 77, 76] (users_init shr_x86 blank_users))"
proof -
  let ?s = "users_init shr_x86 blank_users"
  obtain stored where st: "take 28 (password_hash (user_table ?s ! 1)) = hash_digits shr_x86 (hash_word stored)"
    and l: "user_login shr_x86 (of_string ''demo'') [98, 32, 77, 76] ?s =
      (if hash_word [98, 32, 77, 76] = hash_word stored then (True, ?s\<lparr>current_user := Some 1\<rparr>) else (False, ?s))"
    using user_login_spec [OF init_blank_inv shr_x86_ok, of "of_string ''demo''" "[98, 32, 77, 76]"] init_demo by auto
  have "hash_word stored = hash_word (of_string ''demo'')"
    by (rule hash_digits_inj [OF shr_x86_ok]) (use st demo_hash in simp)
  then show ?thesis using l demo_collision by simp
qed

text \<open>
  A new account can be used: after \<open>user_create\<close> with a name of at most 23 characters that no active account has, the new user can log in with the
  password given, and every other account name is found as before.
\<close>

theorem create_then_login:
  assumes "users_inv shr s" and "user_get_by_name name s = None" and "0 \<notin> set name" and "length name < USERNAME_MAX"
    and "user_create shr name pw full g s = (r, t)" and "r \<noteq> -1"
  shows "user_login shr name pw t = (True, t\<lparr>current_user := Some (nat r)\<rparr>) \<and>
    (0 \<notin> set other \<and> other \<noteq> name \<longrightarrow> user_get_by_name other t = user_get_by_name other s)"
  using assms(5)
proof (cases rule: user_create_cases)
  case full
  then show ?thesis using assms(6) by simp
next
  case (slot i u)
  have i: "i < MAX_USERS" "\<not> active (user_table s ! i)" using slot(1) by (simp_all add: free_slot)
  have len: "length (user_table s) = MAX_USERS" "length (username (user_table s ! i)) = USERNAME_MAX"
    "length (password_hash (user_table s ! i)) = PASSWORD_MAX"
    using assms(1) i(1) by (simp_all add: users_inv_def account_ok_def user_wf_def)
  have nm: "same_name z (username u) \<longleftrightarrow> z = name" if "0 \<notin> set z" for z
    using same_name_copy [OF assms(3,4) len(2) that] slot(7) by simp
  have none: "\<not> (active (user_table s ! j) \<and> same_name name (username (user_table s ! j)))" if "j < MAX_USERS" for j
    using assms(2) that by (auto simp: user_get_by_name_def find_None_iff)
  have tab: "user_table t ! j = (if j = i then u else user_table s ! j)" if "j < MAX_USERS" for j
    using slot(3) len(1) that by (simp add: nth_list_update)
  have f: "user_get_by_name name t = Some i" using i none nm [OF assms(3)] slot(6) tab by (auto simp: by_name)
  have pl: "length (password_hash (user_table t ! i)) = PASSWORD_MAX"
    using len(3) slot(8) tab [OF i(1)] by (simp add: user_hash_password_def PASSWORD_MAX_def)
  have "take 28 (password_hash (user_table t ! i)) = hash_digits shr (hash_word pw)" using slot(8) tab [OF i(1)] hash_take by simp
  then have "user_login shr name pw t = (True, t\<lparr>current_user := Some i\<rparr>)" using login_cases [OF pl f, of shr pw] by simp
  moreover have "user_get_by_name other t = user_get_by_name other s" if "0 \<notin> set other" "other \<noteq> name"
  proof -
    have "active (user_table t ! j) \<and> same_name other (username (user_table t ! j)) \<longleftrightarrow>
        active (user_table s ! j) \<and> same_name other (username (user_table s ! j))" if "j < MAX_USERS" for j
      using tab [OF that] i(2) nm [OF \<open>0 \<notin> set other\<close>] \<open>other \<noteq> name\<close> by auto
    then show ?thesis unfolding user_get_by_name_def by (intro find_cong) auto
  qed
  ultimately show ?thesis using slot(2) by simp
qed

theorem create_then_login_witness:
  "fst (user_login shr_x86 (of_string ''ann'') (of_string ''pw'')
     (snd (user_create shr_x86 (of_string ''ann'') (of_string ''pw'') None GROUP_USER (users_init shr_x86 blank_users))))"
proof -
  let ?s = "users_init shr_x86 blank_users" and ?n = "of_string ''ann''" and ?p = "of_string ''pw''"
  have a: "user_get_by_name ?n ?s = None" by code_simp
  have b: "0 \<notin> set ?n" "length ?n < USERNAME_MAX" by (simp_all add: of_string_def USERNAME_MAX_def)
  have c: "fst (user_create shr_x86 ?n ?p None GROUP_USER ?s) \<noteq> -1" by code_simp
  show ?thesis
    using create_then_login [OF init_blank_inv a b, of ?p None GROUP_USER "fst (user_create shr_x86 ?n ?p None GROUP_USER ?s)"
      "snd (user_create shr_x86 ?n ?p None GROUP_USER ?s)" "[]"] c by simp
qed

end
