(* ===== verification/Auth.thy ===== *)
theory Auth
  imports Cbuf
begin

text \<open>
  Authentication: the user data base of \<^verbatim>\<open>src/kernel/shim/usrgn.c\<close> and the session handles of \<^verbatim>\<open>src/kernel/shim/dfan.c\<close>.  A null
  string is \<open>None\<close>.  There is one handle, static in \<open>dfan_start\<close>, so a handle argument is only null or not.
\<close>

definition USRGN_MAX_NAME :: nat where "USRGN_MAX_NAME = 32"
definition USRGN_MAX_PASS :: nat where "USRGN_MAX_PASS = 64"
definition USRGN_MAX_USERS :: nat where "USRGN_MAX_USERS = 8"
definition USRGN_FLAG_DISABLED :: u8 where "USRGN_FLAG_DISABLED = 1"

record usrgn_user =
  u_name :: bytes
  u_display :: bytes
  u_home :: bytes
  u_shell :: bytes
  u_uid :: u32
  u_gid :: u32
  u_flags :: u8

record pass_entry =
  p_name :: bytes
  p_password :: bytes

record usrgn =
  passdb :: "pass_entry list"
  current_index :: int

text \<open>A string literal as the initial value of an array.\<close>

definition array :: "nat \<Rightarrow> string \<Rightarrow> bytes" where
  "array n str = of_string str @ replicate (n - length str) 0"

definition userdb :: "usrgn_user list" where
  "userdb =
     [\<lparr>u_name = array 32 ''root'', u_display = array 32 ''Nexsteaduser Administrator'', u_home = array 64 ''/system'',
       u_shell = array 32 ''/bin/shell'', u_uid = 0, u_gid = 0, u_flags = 0\<rparr>,
      \<lparr>u_name = array 32 ''guest'', u_display = array 32 ''Guest User'', u_home = array 64 ''/home/guest'',
       u_shell = array 32 ''/bin/shell'', u_uid = 1, u_gid = 1, u_flags = 0\<rparr>]"

section \<open>User data base\<close>

definition usrgn_init :: "usrgn \<Rightarrow> usrgn" where
  "usrgn_init s =
     (let db = map (\<lambda>e. e\<lparr>p_name := (p_name e)[0 := 0], p_password := (p_password e)[0 := 0]\<rparr>) (passdb s);
          e = db ! 0;
          e = e\<lparr>p_name := copy_str USRGN_MAX_NAME (of_string ''root'') (p_name e),
                p_password := copy_str USRGN_MAX_PASS (of_string ''Nexsteaduser'') (p_password e)\<rparr>
      in s\<lparr>passdb := db[0 := e], current_index := -1\<rparr>)"

definition usrgn_get_user :: "bytes option \<Rightarrow> nat option" where
  "usrgn_get_user name = (case name of
     None \<Rightarrow> None
   | Some n \<Rightarrow> find (\<lambda>i. same_name n (u_name (userdb ! i))) [0..<length userdb])"

definition usrgn_get_user_by_uid :: "u32 \<Rightarrow> nat option" where
  "usrgn_get_user_by_uid uid = find (\<lambda>i. u_uid (userdb ! i) = uid) [0..<length userdb]"

definition usrgn_get_first :: "usrgn \<Rightarrow> nat option \<times> usrgn" where
  "usrgn_get_first s = (if length userdb = 0 then (None, s) else (Some 0, s\<lparr>current_index := 0\<rparr>))"

definition usrgn_get_next :: "usrgn \<Rightarrow> nat option \<times> usrgn" where
  "usrgn_get_next s =
     (let s = s\<lparr>current_index := current_index s + 1\<rparr> in
      if current_index s \<ge> int (length userdb) then (None, s) else (Some (nat (current_index s)), s))"

definition entry_matches :: "bytes \<Rightarrow> pass_entry \<Rightarrow> bool" where
  "entry_matches name e \<longleftrightarrow> p_name e ! 0 \<noteq> 0 \<and> same_name name (p_name e)"

definition usrgn_verify_password :: "bytes option \<Rightarrow> bytes option \<Rightarrow> usrgn \<Rightarrow> bool" where
  "usrgn_verify_password name password s = (case (name, password) of
     (Some n, Some pw) \<Rightarrow> list_ex (\<lambda>i. entry_matches n (passdb s ! i) \<and> same_name pw (p_password (passdb s ! i))) [0..<USRGN_MAX_USERS]
   | _ \<Rightarrow> False)"

definition usrgn_set_password :: "bytes option \<Rightarrow> bytes option \<Rightarrow> usrgn \<Rightarrow> bool \<times> usrgn" where
  "usrgn_set_password name password s = (case (name, password) of
     (Some n, Some pw) \<Rightarrow> (case find (\<lambda>i. entry_matches n (passdb s ! i)) [0..<USRGN_MAX_USERS] of
         None \<Rightarrow> (False, s)
       | Some i \<Rightarrow> (True, s\<lparr>passdb := (passdb s)[i := (passdb s ! i)\<lparr>p_password := copy_str USRGN_MAX_PASS pw (p_password (passdb s ! i))\<rparr>]\<rparr>))
   | _ \<Rightarrow> (False, s))"

definition usrgn_user_count :: int where "usrgn_user_count = int (length userdb)"

section \<open>Sessions\<close>

datatype dfan_code = DFAN_SUCCESS | DFAN_AUTH_ERR | DFAN_ACCT_EXPIRED | DFAN_CRED_INSUFFICIENT | DFAN_AUTHINFO_UNAVAIL
  | DFAN_USER_UNKNOWN | DFAN_PERM_DENIED | DFAN_SYSTEM_ERR

record dfan =
  users_db :: usrgn
  h_service :: bytes
  h_user :: bytes
  authenticated :: int
  session_open :: int
  cred_established :: int

text \<open>\<open>conv\<close> and the flags are not used; \<open>out\<close> says whether the address for the handle is given.  The handle returned is null or not.\<close>

definition dfan_start :: "bytes option \<Rightarrow> bytes option \<Rightarrow> bool \<Rightarrow> dfan \<Rightarrow> dfan_code \<times> bool \<times> dfan" where
  "dfan_start service user out s = (case (service, user) of
     (Some sv, Some u) \<Rightarrow>
       if \<not> out then (DFAN_SYSTEM_ERR, False, s)
       else let s = s\<lparr>h_service := (h_service s)[0 := 0], h_user := (h_user s)[0 := 0], authenticated := 0, session_open := 0,
                      cred_established := 0\<rparr>;
                s = s\<lparr>h_service := copy_str 32 sv (h_service s)\<rparr>;
                s = s\<lparr>h_user := copy_str USRGN_MAX_NAME u (h_user s)\<rparr>
            in case usrgn_get_user user of None \<Rightarrow> (DFAN_USER_UNKNOWN, False, s) | Some _ \<Rightarrow> (DFAN_SUCCESS, True, s)
   | _ \<Rightarrow> (DFAN_SYSTEM_ERR, False, s))"

definition dfan_authenticate :: "bool \<Rightarrow> bytes option \<Rightarrow> dfan \<Rightarrow> dfan_code \<times> dfan" where
  "dfan_authenticate handle password s =
     (if \<not> handle then (DFAN_SYSTEM_ERR, s)
      else if password = None \<or> password = Some [] then (DFAN_AUTHINFO_UNAVAIL, s)
      else if usrgn_get_user (Some (str_of (h_user s))) = None then (DFAN_USER_UNKNOWN, s)
      else if usrgn_verify_password (Some (str_of (h_user s))) password (users_db s) then (DFAN_SUCCESS, s\<lparr>authenticated := 1\<rparr>)
      else (DFAN_AUTH_ERR, s))"

definition dfan_acct_mgmt :: "bool \<Rightarrow> dfan \<Rightarrow> dfan_code" where
  "dfan_acct_mgmt handle s =
     (if \<not> handle then DFAN_SYSTEM_ERR
      else case usrgn_get_user (Some (str_of (h_user s))) of
        None \<Rightarrow> DFAN_USER_UNKNOWN
      | Some i \<Rightarrow> if u_flags (userdb ! i) AND USRGN_FLAG_DISABLED \<noteq> 0 then DFAN_ACCT_EXPIRED else DFAN_SUCCESS)"

definition dfan_open_session :: "bool \<Rightarrow> dfan \<Rightarrow> dfan_code \<times> dfan" where
  "dfan_open_session handle s =
     (if \<not> handle then (DFAN_SYSTEM_ERR, s)
      else if authenticated s = 0 then (DFAN_AUTH_ERR, s)
      else (DFAN_SUCCESS, s\<lparr>session_open := 1\<rparr>))"

definition dfan_close_session :: "bool \<Rightarrow> dfan \<Rightarrow> dfan_code \<times> dfan" where
  "dfan_close_session handle s =
     (if \<not> handle then (DFAN_SYSTEM_ERR, s) else (DFAN_SUCCESS, s\<lparr>session_open := 0, authenticated := 0\<rparr>))"

definition dfan_setcred :: "bool \<Rightarrow> dfan \<Rightarrow> dfan_code \<times> dfan" where
  "dfan_setcred handle s = (if \<not> handle then (DFAN_SYSTEM_ERR, s) else (DFAN_SUCCESS, s\<lparr>cred_established := 1\<rparr>))"

definition dfan_end :: "bool \<Rightarrow> dfan \<Rightarrow> dfan_code \<times> dfan" where
  "dfan_end handle s =
     (if \<not> handle then (DFAN_SYSTEM_ERR, s)
      else (DFAN_SUCCESS, s\<lparr>authenticated := 0, session_open := 0, cred_established := 0\<rparr>))"

section \<open>Sequences of calls\<close>

datatype call = Start "bytes option" "bytes option" bool | Authenticate bool "bytes option" | Acct_mgmt bool | Open_session bool
  | Close_session bool | Setcred bool | End_session bool | Set_password "bytes option" "bytes option"

fun exec :: "call \<Rightarrow> dfan \<Rightarrow> dfan" where
  "exec (Start sv u out) s = snd (snd (dfan_start sv u out s))"
| "exec (Authenticate h pw) s = snd (dfan_authenticate h pw s)"
| "exec (Acct_mgmt h) s = s"
| "exec (Open_session h) s = snd (dfan_open_session h s)"
| "exec (Close_session h) s = snd (dfan_close_session h s)"
| "exec (Setcred h) s = snd (dfan_setcred h s)"
| "exec (End_session h) s = snd (dfan_end h s)"
| "exec (Set_password n pw) s = s\<lparr>users_db := snd (usrgn_set_password n pw (users_db s))\<rparr>"

definition run :: "call list \<Rightarrow> dfan \<Rightarrow> dfan" where "run cs s = fold exec cs s"

lemma run_snoc: "run (cs @ [c]) s = exec c (run cs s)"
  by (simp add: run_def)

text \<open>The calls that name a user again or take the permission back.\<close>

fun resets :: "call \<Rightarrow> bool" where
  "resets (Start sv u out) = (sv \<noteq> None \<and> u \<noteq> None \<and> out)"
| "resets (Close_session h) = h"
| "resets (End_session h) = h"
| "resets _ = False"

lemma exec_authenticated:
  assumes "authenticated (exec c s) \<noteq> 0"
  shows "\<not> resets c \<and> h_user (exec c s) = h_user s \<and>
    (authenticated s \<noteq> 0 \<or> (\<exists>pw. c = Authenticate True (Some pw) \<and> usrgn_verify_password (Some (str_of (h_user s))) (Some pw) (users_db s)))"
proof (cases c)
  case (Start sv u out)
  then show ?thesis using assms by (auto simp: dfan_start_def Let_def split: option.splits if_splits)
next
  case (Authenticate h pw)
  then show ?thesis using assms by (auto simp: dfan_authenticate_def split: if_splits)
qed (use assms in \<open>auto simp: dfan_open_session_def dfan_close_session_def dfan_setcred_def dfan_end_def split: if_splits\<close>)

lemma authenticated_history:
  assumes "authenticated s0 = 0"
  shows "authenticated (run cs s0) \<noteq> 0 \<Longrightarrow> \<exists>pre pw post. cs = pre @ Authenticate True (Some pw) # post \<and>
    usrgn_verify_password (Some (str_of (h_user (run cs s0)))) (Some pw) (users_db (run pre s0)) \<and> list_all (\<lambda>c. \<not> resets c) post"
proof (induction cs rule: rev_induct)
  case Nil
  then show ?case using assms by (simp add: run_def)
next
  case (snoc c cs)
  let ?s = "run cs s0"
  have e: "authenticated (exec c ?s) \<noteq> 0" using snoc.prems by (simp add: run_snoc)
  note x = exec_authenticated [OF e]
  show ?case
  proof (cases "authenticated ?s = 0")
    case False
    from snoc.IH [OF False] obtain pre pw post where h: "cs = pre @ Authenticate True (Some pw) # post"
      "usrgn_verify_password (Some (str_of (h_user ?s))) (Some pw) (users_db (run pre s0))" "list_all (\<lambda>c. \<not> resets c) post" by blast
    show ?thesis
    proof (intro exI conjI)
      show "cs @ [c] = pre @ Authenticate True (Some pw) # (post @ [c])" using h(1) by simp
      show "usrgn_verify_password (Some (str_of (h_user (run (cs @ [c]) s0)))) (Some pw) (users_db (run pre s0))" using h(2) x by (simp add: run_snoc)
      show "list_all (\<lambda>c. \<not> resets c) (post @ [c])" using h(3) x by simp
    qed
  next
    case True
    then obtain pw where c: "c = Authenticate True (Some pw)" "usrgn_verify_password (Some (str_of (h_user ?s))) (Some pw) (users_db ?s)"
      using x by blast
    have u: "h_user (run (cs @ [c]) s0) = h_user ?s" using x by (simp add: run_snoc)
    show ?thesis
    proof (intro exI conjI)
      show "cs @ [c] = cs @ Authenticate True (Some pw) # []" using c(1) by simp
      show "usrgn_verify_password (Some (str_of (h_user (run (cs @ [c]) s0)))) (Some pw) (users_db ?s)" unfolding u by (rule c(2))
    qed simp
  qed
qed

text \<open>
  C38. No session without a password: whatever calls are made, \<open>dfan_open_session\<close> succeeds only after a call of \<open>dfan_authenticate\<close> with a password that was the
  one stored for the user of the handle at that time, and with no start, close or end of the session since.
\<close>

theorem open_session_safe:
  assumes "authenticated s0 = 0" and "fst (dfan_open_session h (run cs s0)) = DFAN_SUCCESS"
  shows "\<exists>pre pw post. cs = pre @ Authenticate True (Some pw) # post \<and>
    usrgn_verify_password (Some (str_of (h_user (run cs s0)))) (Some pw) (users_db (run pre s0)) \<and> list_all (\<lambda>c. \<not> resets c) post"
  using authenticated_history [OF assms(1), of cs] assms(2) by (auto simp: dfan_open_session_def split: if_splits)

section \<open>The password table\<close>

definition pass_wf :: "usrgn \<Rightarrow> bool" where
  "pass_wf s \<longleftrightarrow> length (passdb s) = USRGN_MAX_USERS \<and>
     (\<forall>i<USRGN_MAX_USERS. length (p_name (passdb s ! i)) = USRGN_MAX_NAME \<and> length (p_password (passdb s ! i)) = USRGN_MAX_PASS)"

text \<open>Only the first entry is in use, by root; this is what \<open>usrgn_init\<close> sets up and nothing changes it.\<close>

definition only_root :: "usrgn \<Rightarrow> bool" where
  "only_root s \<longleftrightarrow> pass_wf s \<and> str_of (p_name (passdb s ! 0)) = of_string ''root'' \<and> 0 \<in> set (p_name (passdb s ! 0)) \<and>
     0 \<in> set (p_password (passdb s ! 0)) \<and> (\<forall>i. 0 < i \<and> i < USRGN_MAX_USERS \<longrightarrow> p_name (passdb s ! i) ! 0 = 0)"

lemma root_bytes: "of_string ''root'' = [114, 111, 111, 116]" "of_string ''Nexsteaduser'' = [78, 101, 120, 115, 116, 101, 97, 100, 117, 115, 101, 114]"
  "of_string ''guest'' = [103, 117, 101, 115, 116]"
  by (simp_all add: of_string_def)

lemma init_only_root:
  assumes "pass_wf s"
  shows "only_root (usrgn_init s)" "str_of (p_password (passdb (usrgn_init s) ! 0)) = of_string ''Nexsteaduser''"
proof -
  have l: "length (passdb s) = 8" using assms by (simp add: pass_wf_def USRGN_MAX_USERS_def)
  have w: "length (p_name (passdb s ! i)) = 32" "length (p_password (passdb s ! i)) = 64" if "i < 8" for i
    using assms that by (simp_all add: pass_wf_def USRGN_MAX_USERS_def USRGN_MAX_NAME_def USRGN_MAX_PASS_def)
  let ?e = "passdb (usrgn_init s) ! 0"
  have e: "p_name ?e = copy_str 32 (of_string ''root'') ((p_name (passdb s ! 0))[0 := 0])"
    "p_password ?e = copy_str 64 (of_string ''Nexsteaduser'') ((p_password (passdb s ! 0))[0 := 0])"
    using l by (simp_all add: usrgn_init_def Let_def USRGN_MAX_NAME_def USRGN_MAX_PASS_def)
  have o: "passdb (usrgn_init s) ! i = (passdb s ! i)\<lparr>p_name := (p_name (passdb s ! i))[0 := 0], p_password := (p_password (passdb s ! i))[0 := 0]\<rparr>"
    if "0 < i" "i < 8" for i
    using l that by (simp add: usrgn_init_def Let_def nth_list_update)
  have wf: "length (p_name (passdb (usrgn_init s) ! i)) = 32 \<and> length (p_password (passdb (usrgn_init s) ! i)) = 64" if "i < 8" for i
    using that o [of i] e w copy_str_ok [of 32 "(p_name (passdb s ! 0))[0 := 0]"] copy_str_ok [of 64 "(p_password (passdb s ! 0))[0 := 0]"]
    by (cases "i = 0") auto
  have len: "length (passdb (usrgn_init s)) = 8" using l by (simp add: usrgn_init_def Let_def)
  have z: "p_name (passdb (usrgn_init s) ! i) ! 0 = 0" if "0 < i" "i < 8" for i using o [OF that] w(1) [OF that(2)] by simp
  have c: "str_of (p_name ?e) = of_string ''root''" "str_of (p_password ?e) = of_string ''Nexsteaduser''" "0 \<in> set (p_name ?e)" "0 \<in> set (p_password ?e)"
    unfolding e using copy_str_ok [of 32 "(p_name (passdb s ! 0))[0 := 0]"] copy_str_ok [of 64 "(p_password (passdb s ! 0))[0 := 0]"] w [of 0]
    by (simp_all add: str_of_copy root_bytes)
  show "only_root (usrgn_init s)" "str_of (p_password ?e) = of_string ''Nexsteaduser''"
    using c len wf z by (simp_all add: only_root_def pass_wf_def USRGN_MAX_USERS_def USRGN_MAX_NAME_def USRGN_MAX_PASS_def)
qed

lemma set_password_only_root: "only_root s \<Longrightarrow> only_root (snd (usrgn_set_password n pw s))"
proof -
  assume r: "only_root s"
  have "only_root (s\<lparr>passdb := (passdb s)[i := (passdb s ! i)\<lparr>p_password := copy_str USRGN_MAX_PASS p (p_password (passdb s ! i))\<rparr>]\<rparr>)"
    if "i < USRGN_MAX_USERS" for i p
    using r that copy_str_ok [of USRGN_MAX_PASS "p_password (passdb s ! i)" p]
    by (auto simp: only_root_def pass_wf_def nth_list_update USRGN_MAX_USERS_def USRGN_MAX_PASS_def)
  then show ?thesis using r by (auto simp: usrgn_set_password_def find_Some_iff split: option.splits)
qed

lemma root_entry:
  assumes "only_root s" "i < USRGN_MAX_USERS" "0 \<notin> set n"
  shows "entry_matches n (passdb s ! i) \<longleftrightarrow> i = 0 \<and> n = of_string ''root''"
proof (cases "i = 0")
  case True
  have "str_of (p_name (passdb s ! 0)) = of_string ''root''" "0 \<in> set (p_name (passdb s ! 0))" using assms(1) by (simp_all add: only_root_def)
  moreover from this have "p_name (passdb s ! 0) ! 0 \<noteq> 0" by (cases "p_name (passdb s ! 0)") (auto simp: str_of_def root_bytes split: if_splits)
  ultimately show ?thesis using True same_name_iff [OF assms(3)] by (auto simp: entry_matches_def)
next
  case False
  then show ?thesis using assms(1,2) by (simp add: only_root_def entry_matches_def)
qed

lemma verify_only_root:
  assumes "only_root s" "0 \<notin> set n" "0 \<notin> set pw"
  shows "usrgn_verify_password (Some n) (Some pw) s \<longleftrightarrow> n = of_string ''root'' \<and> pw = str_of (p_password (passdb s ! 0))"
proof -
  have "0 \<in> set (p_password (passdb s ! 0))" using assms(1) by (simp add: only_root_def)
  then have "same_name pw (p_password (passdb s ! 0)) \<longleftrightarrow> str_of (p_password (passdb s ! 0)) = pw" using same_name_iff [OF assms(3)] by simp
  then show ?thesis using root_entry [OF assms(1) _ assms(2)] by (auto simp: usrgn_verify_password_def list_ex_iff USRGN_MAX_USERS_def)
qed

text \<open>
  C39. After \<open>usrgn_init\<close> and any number of password changes the only accepted password is the last one set for root, cut to 63 bytes: \<open>usrgn_set_password\<close> for
  root followed by \<open>usrgn_verify_password\<close> accepts exactly it, and guest, the other user of the data base, has no password entry, so that no
  password is ever set or accepted for guest.
\<close>

theorem password_roundtrip:
  assumes "pass_wf s" and "0 \<notin> set pw" and "0 \<notin> set try"
    and "t = fold (\<lambda>(n, p) t. snd (usrgn_set_password n p t)) changes (usrgn_init s)"
  shows "(case usrgn_set_password (Some (of_string ''root'')) (Some pw) t of
       (ok, u) \<Rightarrow> ok \<and> usrgn_verify_password (Some (of_string ''root'')) (Some try) u = (try = take 63 pw)) \<and>
    \<not> fst (usrgn_set_password (Some (of_string ''guest'')) (Some pw) t) \<and> \<not> usrgn_verify_password (Some (of_string ''guest'')) (Some try) t"
proof -
  have "only_root u \<Longrightarrow> only_root (fold (\<lambda>(n, p) t. snd (usrgn_set_password n p t)) cs u)" for u cs
    by (induction cs arbitrary: u) (auto simp: set_password_only_root split: prod.splits)
  then have r: "only_root t" using init_only_root(1) [OF assms(1)] assms(4) by simp
  let ?root = "of_string ''root''" and ?guest = "of_string ''guest''"
  have nz: "0 \<notin> set ?root" "0 \<notin> set ?guest" "?guest \<noteq> ?root" by (simp_all add: root_bytes)
  have f0: "find (\<lambda>i. entry_matches ?root (passdb t ! i)) [0..<USRGN_MAX_USERS] = Some 0"
    using root_entry [OF r _ nz(1)] by (simp add: find_upt_Some USRGN_MAX_USERS_def)
  have f1: "find (\<lambda>i. entry_matches ?guest (passdb t ! i)) [0..<USRGN_MAX_USERS] = None"
    using root_entry [OF r _ nz(2)] nz(3) by (simp add: find_upt_None)
  let ?u = "snd (usrgn_set_password (Some ?root) (Some pw) t)"
  have p: "p_password (passdb ?u ! 0) = copy_str USRGN_MAX_PASS pw (p_password (passdb t ! 0))"
    using f0 r by (simp add: usrgn_set_password_def only_root_def pass_wf_def USRGN_MAX_USERS_def)
  have v: "usrgn_verify_password (Some ?root) (Some try) ?u \<longleftrightarrow> try = str_of (p_password (passdb ?u ! 0))"
    using verify_only_root [OF set_password_only_root [OF r] nz(1) assms(3)] by simp
  have "usrgn_verify_password (Some ?root) (Some try) ?u \<longleftrightarrow> try = take 63 pw"
    unfolding v p by (simp add: str_of_copy assms(2) USRGN_MAX_PASS_def)
  moreover have "fst (usrgn_set_password (Some ?root) (Some pw) t)" using f0 by (simp add: usrgn_set_password_def)
  moreover have "\<not> fst (usrgn_set_password (Some ?guest) (Some pw) t)" using f1 by (simp add: usrgn_set_password_def)
  moreover have "\<not> usrgn_verify_password (Some ?guest) (Some try) t" using verify_only_root [OF r nz(2) assms(3)] nz(3) by simp
  ultimately show ?thesis by (auto split: prod.split)
qed

definition blank_db :: usrgn where
  "blank_db = \<lparr>passdb = replicate 8 \<lparr>p_name = replicate 32 0, p_password = replicate 64 0\<rparr>, current_index = 0\<rparr>"

lemma blank_db_wf: "pass_wf blank_db"
  by (simp add: pass_wf_def blank_db_def USRGN_MAX_USERS_def USRGN_MAX_NAME_def USRGN_MAX_PASS_def)

theorem password_roundtrip_witness:
  "usrgn_verify_password (Some (of_string ''root'')) (Some [7, 8])
     (snd (usrgn_set_password (Some (of_string ''root'')) (Some [7, 8]) (usrgn_init blank_db)))"
  using password_roundtrip [OF blank_db_wf, of "[7, 8]" "[7, 8]" "usrgn_init blank_db" "[]"] by (auto split: prod.splits)

definition blank_dfan :: dfan where
  "blank_dfan = \<lparr>users_db = usrgn_init blank_db, h_service = replicate 32 0, h_user = replicate 32 0, authenticated = 0, session_open = 0, cred_established = 0\<rparr>"

text \<open>A login of root, and the password it needed.\<close>

definition demo_calls :: "call list" where
  "demo_calls = [Start (Some [97]) (Some (of_string ''root'')) True, Authenticate True (Some (of_string ''Nexsteaduser''))]"

lemma demo_opens: "fst (dfan_open_session True (run demo_calls blank_dfan)) = DFAN_SUCCESS"
proof -
  let ?r = "of_string ''root''" and ?n = "of_string ''Nexsteaduser''"
  let ?s = "exec (Start (Some [97]) (Some ?r) True) blank_dfan"
  have g: "usrgn_get_user (Some ?r) = Some 0" by code_simp
  have z: "(replicate 32 (0::u8))[0 := 0] = replicate 32 0" by (rule nth_equalityI) (auto simp: nth_list_update)
  have u: "h_user ?s = copy_str 32 ?r (replicate 32 0)" "users_db ?s = usrgn_init blank_db"
    using g z by (simp_all add: dfan_start_def Let_def blank_dfan_def USRGN_MAX_NAME_def)
  have nz: "0 \<notin> set ?r" "0 \<notin> set ?n" by (simp_all add: root_bytes)
  have su: "str_of (h_user ?s) = ?r" unfolding u(1) by (simp add: str_of_copy nz) (simp add: root_bytes)
  have "usrgn_verify_password (Some ?r) (Some ?n) (usrgn_init blank_db)"
    using verify_only_root [OF init_only_root(1) [OF blank_db_wf] nz] init_only_root(2) [OF blank_db_wf] by simp
  then have "exec (Authenticate True (Some ?n)) ?s = ?s\<lparr>authenticated := 1\<rparr>"
    using g su u(2) by (simp add: dfan_authenticate_def root_bytes del: exec.simps(1))
  then show ?thesis by (simp add: run_def demo_calls_def dfan_open_session_def del: exec.simps)
qed

theorem open_session_safe_witness:
  "\<exists>pre pw post. demo_calls = pre @ Authenticate True (Some pw) # post \<and>
     usrgn_verify_password (Some (str_of (h_user (run demo_calls blank_dfan)))) (Some pw) (users_db (run pre blank_dfan))"
proof -
  have "authenticated blank_dfan = 0" by (simp add: blank_dfan_def)
  from open_session_safe [OF this demo_opens] show ?thesis by blast
qed

end
