(* ===== verification/Gfx.thy ===== *)
theory Gfx
  imports Prelude Cbuf "HOL-Library.Monad_Syntax"
begin

text \<open>
  The VGA driver \<^verbatim>\<open>src/kernel/drivers/vga.c\<close>: the register writes that set the graphics modes, the planar frame buffer of mode 12h
  (640x480, 16 colours) and the linear one of mode 13h (320x200, 256 colours), and the drawing primitives on top of a single pixel.

  The adapter itself is a record of its registers, latches and four planes of memory.  Its reactions to port and memory accesses are those documented
  for the configuration that every mode table of the driver programs: write mode 0 and read mode 0, no rotation, no logical operation,
  set/reset disabled.  Coordinates are mathematical integers: the model says nothing about calls whose coordinates overflow a C \<open>int\<close>.
\<close>

unbundle bit_operations_syntax

section \<open>The adapter\<close>

record vga =
  seq_index :: u8
  seq_regs :: "u8 \<Rightarrow> u8"
  crtc_index :: u8
  crtc_regs :: "u8 \<Rightarrow> u8"
  gc_index :: u8
  gc_regs :: "u8 \<Rightarrow> u8"
  ac_index :: u8
  ac_data_next :: bool
  ac_regs :: "u8 \<Rightarrow> u8"
  misc_reg :: u8
  dac_index :: u8
  dac_part :: nat
  dac_regs :: "u8 \<Rightarrow> nat \<Rightarrow> u8"
  input_status :: "nat \<Rightarrow> u8"
  polls :: nat
  latch :: "nat \<Rightarrow> u8"
  planes :: "nat \<Rightarrow> nat \<Rightarrow> u8"

definition vga_outb :: "u16 \<Rightarrow> u8 \<Rightarrow> vga \<Rightarrow> vga" where
  "vga_outb port v d =
     (if port = 0x3C4 then d\<lparr>seq_index := v\<rparr>
      else if port = 0x3C5 then d\<lparr>seq_regs := (seq_regs d)(seq_index d := v)\<rparr>
      else if port = 0x3D4 then d\<lparr>crtc_index := v\<rparr>
      else if port = 0x3D5 then d\<lparr>crtc_regs := (crtc_regs d)(crtc_index d := v)\<rparr>
      else if port = 0x3CE then d\<lparr>gc_index := v\<rparr>
      else if port = 0x3CF then d\<lparr>gc_regs := (gc_regs d)(gc_index d := v)\<rparr>
      else if port = 0x3C0 then
        (if ac_data_next d then d\<lparr>ac_regs := (ac_regs d)(ac_index d AND 0x1F := v), ac_data_next := False\<rparr>
         else d\<lparr>ac_index := v, ac_data_next := True\<rparr>)
      else if port = 0x3C2 then d\<lparr>misc_reg := v\<rparr>
      else if port = 0x3C8 then d\<lparr>dac_index := v, dac_part := 0\<rparr>
      else if port = 0x3C9 then
        (let d' = d\<lparr>dac_regs := (dac_regs d)(dac_index d := (dac_regs d (dac_index d))(dac_part d := v AND 0x3F))\<rparr>
         in if dac_part d = 2 then d'\<lparr>dac_index := dac_index d + 1, dac_part := 0\<rparr> else d'\<lparr>dac_part := dac_part d + 1\<rparr>)
      else d)"

text \<open>Reading the input status register also makes the next write to port 0x3C0 an index.\<close>

definition vga_in_status :: "vga \<Rightarrow> u8 \<times> vga" where
  "vga_in_status d = (input_status d (polls d), d\<lparr>polls := polls d + 1, ac_data_next := False\<rparr>)"

text \<open>Accesses to the window at 0xA0000; bit 3 of the miscellaneous graphics register moves the window away from there.\<close>

definition vga_mapped :: "vga \<Rightarrow> bool" where "vga_mapped d \<longleftrightarrow> \<not> bit (gc_regs d 6) 3"

definition vga_chain4 :: "vga \<Rightarrow> bool" where "vga_chain4 d \<longleftrightarrow> bit (seq_regs d 4) 3"

definition vga_merge :: "u8 \<Rightarrow> nat \<Rightarrow> vga \<Rightarrow> u8" where
  "vga_merge v p d = (v AND gc_regs d 8) OR (latch d p AND NOT (gc_regs d 8))"

definition vga_write :: "nat \<Rightarrow> u8 \<Rightarrow> vga \<Rightarrow> vga" where
  "vga_write off v d =
     (if \<not> vga_mapped d then d
      else if vga_chain4 d then
        d\<lparr>planes := (\<lambda>p a. if p = off mod 4 \<and> bit (seq_regs d 2) p \<and> a = off - off mod 4 then vga_merge v p d else planes d p a)\<rparr>
      else d\<lparr>planes := (\<lambda>p a. if p < 4 \<and> bit (seq_regs d 2) p \<and> a = off then vga_merge v p d else planes d p a)\<rparr>)"

definition vga_read :: "nat \<Rightarrow> vga \<Rightarrow> u8 \<times> vga" where
  "vga_read off d =
     (if \<not> vga_mapped d then (0xFF, d)
      else if vga_chain4 d then
        (planes d (off mod 4) (off - off mod 4), d\<lparr>latch := (\<lambda>p. planes d p (off - off mod 4))\<rparr>)
      else (planes d (unat (gc_regs d 4 AND 3)) off, d\<lparr>latch := (\<lambda>p. planes d p off)\<rparr>))"

section \<open>Register access\<close>

definition vga_seq_write :: "u8 \<Rightarrow> u8 \<Rightarrow> vga \<Rightarrow> vga" where
  "vga_seq_write i v d = vga_outb 0x3C5 v (vga_outb 0x3C4 i d)"

definition vga_crtc_write :: "u8 \<Rightarrow> u8 \<Rightarrow> vga \<Rightarrow> vga" where
  "vga_crtc_write i v d = vga_outb 0x3D5 v (vga_outb 0x3D4 i d)"

definition vga_gc_write :: "u8 \<Rightarrow> u8 \<Rightarrow> vga \<Rightarrow> vga" where
  "vga_gc_write i v d = vga_outb 0x3CF v (vga_outb 0x3CE i d)"

definition vga_ac_write :: "u8 \<Rightarrow> u8 \<Rightarrow> vga \<Rightarrow> vga" where
  "vga_ac_write i v d = vga_outb 0x3C0 v (vga_outb 0x3C0 (i OR 0x20) (snd (vga_in_status d)))"

text \<open>\<open>while (cond (inb(VGA_INPUT_STATUS)));\<close>, which ends only when the adapter lets it.\<close>

partial_function (option) poll_status :: "(u8 \<Rightarrow> bool) \<Rightarrow> vga \<Rightarrow> vga option" where
  [code]: "poll_status cond d = (case vga_in_status d of (v, d) \<Rightarrow> if cond v then poll_status cond d else Some d)"

definition vga_wait_vsync :: "vga \<Rightarrow> vga option" where
  "vga_wait_vsync d = Option.bind (poll_status (\<lambda>v. v AND 0x08 \<noteq> 0) d) (poll_status (\<lambda>v. v AND 0x08 = 0))"

definition seq_regs_12h :: "u8 list" where "seq_regs_12h = [0x03, 0x01, 0x0F, 0x00, 0x06]"

definition crtc_regs_12h :: "u8 list" where
  "crtc_regs_12h = [0x5F, 0x4F, 0x50, 0x82, 0x54, 0x80, 0x0B, 0x3E, 0x00, 0x40, 0x00, 0x00, 0x00, 0x00, 0x00, 0x00,
     0xEA, 0x0C, 0xDF, 0x28, 0x00, 0xE7, 0x04, 0xE3, 0xFF]"

definition gc_regs_12h :: "u8 list" where "gc_regs_12h = [0x00, 0x00, 0x00, 0x00, 0x00, 0x00, 0x05, 0x0F, 0xFF]"

definition ac_regs_12h :: "u8 list" where
  "ac_regs_12h = [0x00, 0x01, 0x02, 0x03, 0x04, 0x05, 0x14, 0x07, 0x38, 0x39, 0x3A, 0x3B, 0x3C, 0x3D, 0x3E, 0x3F, 0x01, 0x00, 0x0F, 0x00, 0x00]"

definition seq_regs_13h :: "u8 list" where "seq_regs_13h = [0x03, 0x01, 0x0F, 0x00, 0x0E]"

definition crtc_regs_13h :: "u8 list" where
  "crtc_regs_13h = [0x5F, 0x4F, 0x50, 0x82, 0x54, 0x80, 0xBF, 0x1F, 0x00, 0x41, 0x00, 0x00, 0x00, 0x00, 0x00, 0x00,
     0x9C, 0x0E, 0x8F, 0x28, 0x40, 0x96, 0xB9, 0xA3, 0xFF]"

definition gc_regs_13h :: "u8 list" where "gc_regs_13h = [0x00, 0x00, 0x00, 0x00, 0x00, 0x40, 0x05, 0x0F, 0xFF]"

definition ac_regs_13h :: "u8 list" where
  "ac_regs_13h = [0x00, 0x01, 0x02, 0x03, 0x04, 0x05, 0x06, 0x07, 0x08, 0x09, 0x0A, 0x0B, 0x0C, 0x0D, 0x0E, 0x0F, 0x41, 0x00, 0x0F, 0x00, 0x00]"

definition VGA_MODE_TEXT :: u8 where "VGA_MODE_TEXT = 0x03"
definition VGA_MODE_12H :: u8 where "VGA_MODE_12H = 0x12"
definition VGA_MODE_13H :: u8 where "VGA_MODE_13H = 0x13"

text \<open>The common part of \<open>vga_load_mode\<close> and \<open>graphics_restore\<close>: the miscellaneous register and the four register files.\<close>

definition load_registers :: "u8 \<Rightarrow> u8 list \<Rightarrow> u8 list \<Rightarrow> u8 list \<Rightarrow> u8 list \<Rightarrow> vga \<Rightarrow> vga" where
  "load_registers misc seq crtc gc ac d =
     (let d = vga_outb 0x3C2 misc d;
          d = for_range 0 5 (\<lambda>i. vga_seq_write (of_nat i) (seq ! i)) d;
          d = vga_crtc_write 0x11 (crtc ! 0x11 AND 0x7F) d;
          d = for_range 0 25 (\<lambda>i. vga_crtc_write (of_nat i) (crtc ! i)) d;
          d = for_range 0 9 (\<lambda>i. vga_gc_write (of_nat i) (gc ! i)) d
      in for_range 0 21 (\<lambda>i. vga_ac_write (of_nat i) (ac ! i)) d)"

definition vga_load_mode :: "u8 \<Rightarrow> vga \<Rightarrow> vga" where
  "vga_load_mode mode d =
     (if mode = VGA_MODE_12H then load_registers 0xE3 seq_regs_12h crtc_regs_12h gc_regs_12h ac_regs_12h d
      else load_registers 0xE3 seq_regs_13h crtc_regs_13h gc_regs_13h ac_regs_13h d)"

text \<open>The argument is an \<open>int\<close> shift cut to a byte.\<close>

definition vga_set_plane :: "u8 \<Rightarrow> vga \<Rightarrow> vga" where
  "vga_set_plane plane d = vga_seq_write 0x02 (ucast (push_bit (unat plane) (1 :: u32))) d"

definition vga_set_read_plane :: "u8 \<Rightarrow> vga \<Rightarrow> vga" where
  "vga_set_read_plane plane d = vga_gc_write 0x04 plane d"

definition vga_set_bitmask :: "u8 \<Rightarrow> vga \<Rightarrow> vga" where
  "vga_set_bitmask m d = vga_gc_write 0x08 m d"

section \<open>Modes and single pixels\<close>

definition VGA12_WIDTH :: int where "VGA12_WIDTH = 640"
definition VGA12_HEIGHT :: int where "VGA12_HEIGHT = 480"
definition VGA13_WIDTH :: int where "VGA13_WIDTH = 320"
definition VGA13_HEIGHT :: int where "VGA13_HEIGHT = 200"

text \<open>The static variables of the driver.  \<open>g_framebuffer\<close> has the value 0xA0000 in both modes.\<close>

record gfx =
  g_current_mode :: u8
  g_screen_width :: int
  g_screen_height :: int
  dev :: vga

definition graphics_init :: "u8 \<Rightarrow> gfx \<Rightarrow> bool \<times> gfx" where
  "graphics_init mode g =
     (if mode \<noteq> VGA_MODE_12H \<and> mode \<noteq> VGA_MODE_13H then (False, g)
      else let g = g\<lparr>dev := vga_load_mode mode (dev g), g_current_mode := mode\<rparr>
           in if mode = VGA_MODE_12H then (True, g\<lparr>g_screen_width := VGA12_WIDTH, g_screen_height := VGA12_HEIGHT\<rparr>)
              else (True, g\<lparr>g_screen_width := VGA13_WIDTH, g_screen_height := VGA13_HEIGHT\<rparr>))"

definition text_seq :: "u8 list" where "text_seq = [0x03, 0x00, 0x03, 0x00, 0x02]"

definition text_crtc :: "u8 list" where
  "text_crtc = [0x5F, 0x4F, 0x50, 0x82, 0x55, 0x81, 0xBF, 0x1F, 0x00, 0x4F, 0x0D, 0x0E, 0x00, 0x00, 0x00, 0x00,
     0x9C, 0x8E, 0x8F, 0x28, 0x1F, 0x96, 0xB9, 0xA3, 0xFF]"

definition text_gc :: "u8 list" where "text_gc = [0x00, 0x00, 0x00, 0x00, 0x00, 0x10, 0x0E, 0x00, 0xFF]"

definition text_ac :: "u8 list" where
  "text_ac = [0x00, 0x01, 0x02, 0x03, 0x04, 0x05, 0x14, 0x07, 0x38, 0x39, 0x3A, 0x3B, 0x3C, 0x3D, 0x3E, 0x3F, 0x0C, 0x00, 0x0F, 0x08, 0x00]"

definition graphics_restore :: "gfx \<Rightarrow> gfx" where
  "graphics_restore g = g\<lparr>dev := load_registers 0x67 text_seq text_crtc text_gc text_ac (dev g), g_current_mode := VGA_MODE_TEXT\<rparr>"

definition off_screen :: "gfx \<Rightarrow> int \<Rightarrow> int \<Rightarrow> bool" where
  "off_screen g x y \<longleftrightarrow> x < 0 \<or> y < 0 \<or> x \<ge> g_screen_width g \<or> y \<ge> g_screen_height g"

definition offset12 :: "int \<Rightarrow> int \<Rightarrow> nat" where
  "offset12 x y = nat ((y * 80 + drop_bit 3 x) mod 65536)"

definition pixel_bit :: "int \<Rightarrow> u8" where
  "pixel_bit x = drop_bit (nat (x AND 7)) 0x80"

definition put_plane :: "nat \<Rightarrow> u8 \<Rightarrow> nat \<Rightarrow> vga \<Rightarrow> vga" where
  "put_plane off color plane d =
     (let d = vga_set_plane (of_nat plane) d;
          d = snd (vga_read off d)
      in vga_write off (if color AND push_bit plane 1 \<noteq> 0 then 0xFF else 0x00) d)"

definition gfx_put_pixel :: "int \<Rightarrow> int \<Rightarrow> u8 \<Rightarrow> gfx \<Rightarrow> gfx" where
  "gfx_put_pixel x y color g =
     (if off_screen g x y then g
      else if g_current_mode g = VGA_MODE_12H then
        let off = offset12 x y;
            d = vga_set_bitmask (pixel_bit x) (dev g);
            d = for_range 0 4 (put_plane off color) d;
            d = vga_set_plane 0x0F (vga_set_bitmask 0xFF d)
        in g\<lparr>dev := d\<rparr>
      else g\<lparr>dev := vga_write (nat (y * VGA13_WIDTH + x)) color (dev g)\<rparr>)"

definition get_plane :: "nat \<Rightarrow> u8 \<Rightarrow> nat \<Rightarrow> u8 \<times> vga \<Rightarrow> u8 \<times> vga" where
  "get_plane off b plane s =
     (case s of (color, d) \<Rightarrow> case vga_read off (vga_set_read_plane (of_nat plane) d) of
        (v, d) \<Rightarrow> (if v AND b \<noteq> 0 then color OR push_bit plane 1 else color, d))"

definition gfx_get_pixel :: "int \<Rightarrow> int \<Rightarrow> gfx \<Rightarrow> u8 \<times> gfx" where
  "gfx_get_pixel x y g =
     (if off_screen g x y then (0, g)
      else if g_current_mode g = VGA_MODE_12H then
        let b = pixel_bit x;
            d = vga_set_bitmask b (dev g)
        in case for_range 0 4 (get_plane (offset12 x y) b) (0, d) of
             (color, d) \<Rightarrow> (color, g\<lparr>dev := vga_set_bitmask 0xFF d\<rparr>)
      else case vga_read (nat (y * VGA13_WIDTH + x)) (dev g) of (v, d) \<Rightarrow> (v, g\<lparr>dev := d\<rparr>))"

definition graphics_get_width :: "gfx \<Rightarrow> int" where "graphics_get_width g = g_screen_width g"
definition graphics_get_height :: "gfx \<Rightarrow> int" where "graphics_get_height g = g_screen_height g"

section \<open>Lines, rectangles and circles\<close>

definition gfx_draw_hline :: "int \<Rightarrow> int \<Rightarrow> int \<Rightarrow> u8 \<Rightarrow> gfx \<Rightarrow> gfx" where
  "gfx_draw_hline x y len color g =
     (if y < 0 \<or> y \<ge> g_screen_height g then g
      else for_range 0 (nat len) (\<lambda>i. gfx_put_pixel (x + int i) y color) g)"

definition gfx_draw_vline :: "int \<Rightarrow> int \<Rightarrow> int \<Rightarrow> u8 \<Rightarrow> gfx \<Rightarrow> gfx" where
  "gfx_draw_vline x y len color g =
     (if x < 0 \<or> x \<ge> g_screen_width g then g
      else for_range 0 (nat len) (\<lambda>i. gfx_put_pixel x (y + int i) color) g)"

text \<open>The loop of \<open>gfx_draw_line\<close>; \<open>None\<close>: it does not end.\<close>

partial_function (option) line_loop :: "int \<Rightarrow> int \<Rightarrow> int \<Rightarrow> int \<Rightarrow> int \<Rightarrow> int \<Rightarrow> u8 \<Rightarrow> int \<Rightarrow> int \<Rightarrow> int \<Rightarrow> gfx \<Rightarrow> gfx option" where
  [code]: "line_loop x2 y2 dx dy sx sy color x1 y1 err g =
     (let g = gfx_put_pixel x1 y1 color g
      in if x1 = x2 \<and> y1 = y2 then Some g
         else let e2 = 2 * err;
                  xe = (if e2 > - dy then (x1 + sx, err - dy) else (x1, err));
                  ye = (if e2 < dx then (y1 + sy, snd xe + dx) else (y1, snd xe))
              in line_loop x2 y2 dx dy sx sy color (fst xe) (fst ye) (snd ye) g)"

definition gfx_draw_line :: "int \<Rightarrow> int \<Rightarrow> int \<Rightarrow> int \<Rightarrow> u8 \<Rightarrow> gfx \<Rightarrow> gfx option" where
  "gfx_draw_line x1 y1 x2 y2 color g =
     (let dx = (if x2 > x1 then x2 - x1 else x1 - x2);
          dy = (if y2 > y1 then y2 - y1 else y1 - y2);
          sx = (if x1 < x2 then 1 else - 1);
          sy = (if y1 < y2 then 1 else - 1)
      in line_loop x2 y2 dx dy sx sy color x1 y1 (dx - dy) g)"

definition gfx_draw_rect :: "int \<Rightarrow> int \<Rightarrow> int \<Rightarrow> int \<Rightarrow> u8 \<Rightarrow> gfx \<Rightarrow> gfx" where
  "gfx_draw_rect x y width height color g =
     (let g = gfx_draw_hline x y width color g;
          g = gfx_draw_hline x (y + height - 1) width color g;
          g = gfx_draw_vline x y height color g
      in gfx_draw_vline (x + width - 1) y height color g)"

text \<open>\<open>memset\<close> and \<open>memcpy\<close> on the frame buffer, byte by byte.\<close>

definition fb_memset :: "nat \<Rightarrow> u8 \<Rightarrow> nat \<Rightarrow> vga \<Rightarrow> vga" where
  "fb_memset off v n d = for_range 0 n (\<lambda>i. vga_write (off + i) v) d"

definition fb_memcpy :: "nat \<Rightarrow> nat \<Rightarrow> nat \<Rightarrow> vga \<Rightarrow> vga" where
  "fb_memcpy dst src n d = for_range 0 n (\<lambda>i d. case vga_read (src + i) d of (v, d) \<Rightarrow> vga_write (dst + i) v d) d"

definition fill_row13 :: "int \<Rightarrow> int \<Rightarrow> int \<Rightarrow> u8 \<Rightarrow> nat \<Rightarrow> gfx \<Rightarrow> gfx" where
  "fill_row13 x y width color row g =
     (let sy = y + int row
      in if sy < 0 \<or> sy \<ge> g_screen_height g then g
         else let len = (if x < 0 then width + x else width);
                  sx = (if x < 0 then 0 else x);
                  len = (if sx + len > VGA13_WIDTH then VGA13_WIDTH - sx else len)
              in if len > 0 then g\<lparr>dev := fb_memset (nat (sy * VGA13_WIDTH + sx)) color (nat len) (dev g)\<rparr> else g)"

definition gfx_fill_rect :: "int \<Rightarrow> int \<Rightarrow> int \<Rightarrow> int \<Rightarrow> u8 \<Rightarrow> gfx \<Rightarrow> gfx" where
  "gfx_fill_rect x y width height color g =
     (if width \<le> 0 \<or> height \<le> 0 then g
      else if g_current_mode g = VGA_MODE_13H then for_range 0 (nat height) (fill_row13 x y width color) g
      else for_range 0 (nat height) (\<lambda>row. for_range 0 (nat width) (\<lambda>col. gfx_put_pixel (x + int col) (y + int row) color)) g)"

text \<open>The loop that \<open>gfx_draw_circle\<close> and \<open>gfx_fill_circle\<close> share; \<open>plot\<close> is what they draw in each round.\<close>

function circle_loop :: "(int \<Rightarrow> int \<Rightarrow> gfx \<Rightarrow> gfx) \<Rightarrow> int \<Rightarrow> int \<Rightarrow> int \<Rightarrow> gfx \<Rightarrow> gfx" where
  "circle_loop plot x y d g =
     (if x \<le> y then
        if d < 0 then circle_loop plot (x + 1) y (d + (2 * x + 3)) (plot x y g)
        else circle_loop plot (x + 1) (y - 1) (d + (2 * (x - y) + 5)) (plot x y g)
      else g)"
  by pat_completeness auto

termination
  by (relation "measure (\<lambda>(_, x, y, _, _). nat (y - x + 1))") auto

definition circle_points :: "int \<Rightarrow> int \<Rightarrow> u8 \<Rightarrow> int \<Rightarrow> int \<Rightarrow> gfx \<Rightarrow> gfx" where
  "circle_points cx cy color x y g =
     fold (\<lambda>(a, b). gfx_put_pixel a b color)
       [(cx + x, cy + y), (cx - x, cy + y), (cx + x, cy - y), (cx - x, cy - y),
        (cx + y, cy + x), (cx - y, cy + x), (cx + y, cy - x), (cx - y, cy - x)] g"

definition gfx_draw_circle :: "int \<Rightarrow> int \<Rightarrow> int \<Rightarrow> u8 \<Rightarrow> gfx \<Rightarrow> gfx" where
  "gfx_draw_circle cx cy radius color g = circle_loop (circle_points cx cy color) 0 radius (1 - radius) g"

definition circle_spans :: "int \<Rightarrow> int \<Rightarrow> u8 \<Rightarrow> int \<Rightarrow> int \<Rightarrow> gfx \<Rightarrow> gfx" where
  "circle_spans cx cy color x y g =
     (let g = gfx_draw_hline (cx - x) (cy + y) (2 * x + 1) color g;
          g = gfx_draw_hline (cx - x) (cy - y) (2 * x + 1) color g;
          g = gfx_draw_hline (cx - y) (cy + x) (2 * y + 1) color g
      in gfx_draw_hline (cx - y) (cy - x) (2 * y + 1) color g)"

definition gfx_fill_circle :: "int \<Rightarrow> int \<Rightarrow> int \<Rightarrow> u8 \<Rightarrow> gfx \<Rightarrow> gfx" where
  "gfx_fill_circle cx cy radius color g = circle_loop (circle_spans cx cy color) 0 radius (1 - radius) g"

section \<open>Text\<close>

definition vga_font_8x16 :: "u8 list list" where
  "vga_font_8x16 = [
     [0, 0, 0, 0, 0, 0, 0, 0, 0, 0, 0, 0, 0, 0, 0, 0], [0, 0, 24, 60, 60, 60, 24, 24, 24, 0, 24, 24, 0, 0, 0, 0],
     [0, 102, 102, 102, 36, 0, 0, 0, 0, 0, 0, 0, 0, 0, 0, 0], [0, 0, 0, 108, 108, 254, 108, 108, 254, 108, 108, 0, 0, 0, 0, 0],
     [24, 24, 124, 198, 194, 192, 124, 6, 134, 198, 124, 24, 24, 0, 0, 0], [0, 0, 0, 0, 194, 198, 12, 24, 48, 96, 198, 134, 0, 0, 0, 0],
     [0, 0, 56, 108, 108, 56, 118, 220, 204, 204, 204, 118, 0, 0, 0, 0], [0, 48, 48, 48, 96, 0, 0, 0, 0, 0, 0, 0, 0, 0, 0, 0],
     [0, 0, 12, 24, 48, 48, 48, 48, 48, 48, 24, 12, 0, 0, 0, 0], [0, 0, 48, 24, 12, 12, 12, 12, 12, 12, 24, 48, 0, 0, 0, 0],
     [0, 0, 0, 0, 0, 102, 60, 255, 60, 102, 0, 0, 0, 0, 0, 0], [0, 0, 0, 0, 0, 24, 24, 126, 24, 24, 0, 0, 0, 0, 0, 0],
     [0, 0, 0, 0, 0, 0, 0, 0, 0, 24, 24, 24, 48, 0, 0, 0], [0, 0, 0, 0, 0, 0, 0, 254, 0, 0, 0, 0, 0, 0, 0, 0],
     [0, 0, 0, 0, 0, 0, 0, 0, 0, 0, 24, 24, 0, 0, 0, 0], [0, 0, 0, 0, 2, 6, 12, 24, 48, 96, 192, 128, 0, 0, 0, 0],
     [0, 0, 124, 198, 198, 206, 222, 246, 230, 198, 198, 124, 0, 0, 0, 0], [0, 0, 24, 56, 120, 24, 24, 24, 24, 24, 24, 126, 0, 0, 0, 0],
     [0, 0, 124, 198, 198, 6, 12, 24, 48, 96, 198, 254, 0, 0, 0, 0], [0, 0, 124, 198, 6, 6, 60, 6, 6, 6, 198, 124, 0, 0, 0, 0],
     [0, 0, 12, 28, 60, 108, 204, 254, 12, 12, 12, 30, 0, 0, 0, 0], [0, 0, 254, 192, 192, 192, 252, 6, 6, 6, 198, 124, 0, 0, 0, 0],
     [0, 0, 56, 96, 192, 192, 252, 198, 198, 198, 198, 124, 0, 0, 0, 0], [0, 0, 254, 198, 198, 6, 12, 24, 48, 48, 48, 48, 0, 0, 0, 0],
     [0, 0, 124, 198, 198, 198, 124, 198, 198, 198, 198, 124, 0, 0, 0, 0], [0, 0, 124, 198, 198, 198, 126, 6, 6, 6, 12, 120, 0, 0, 0, 0],
     [0, 0, 0, 0, 24, 24, 0, 0, 0, 24, 24, 0, 0, 0, 0, 0], [0, 0, 0, 0, 24, 24, 0, 0, 0, 24, 24, 48, 0, 0, 0, 0],
     [0, 0, 0, 6, 12, 24, 48, 96, 48, 24, 12, 6, 0, 0, 0, 0], [0, 0, 0, 0, 0, 126, 0, 126, 0, 0, 0, 0, 0, 0, 0, 0],
     [0, 0, 0, 96, 48, 24, 12, 6, 12, 24, 48, 96, 0, 0, 0, 0], [0, 0, 124, 198, 198, 12, 24, 24, 24, 0, 24, 24, 0, 0, 0, 0],
     [0, 0, 0, 124, 198, 198, 222, 222, 222, 220, 192, 124, 0, 0, 0, 0], [0, 0, 16, 56, 108, 198, 198, 254, 198, 198, 198, 198, 0, 0, 0, 0],
     [0, 0, 252, 102, 102, 102, 124, 102, 102, 102, 102, 252, 0, 0, 0, 0], [0, 0, 60, 102, 194, 192, 192, 192, 192, 194, 102, 60, 0, 0, 0, 0],
     [0, 0, 248, 108, 102, 102, 102, 102, 102, 102, 108, 248, 0, 0, 0, 0], [0, 0, 254, 102, 98, 104, 120, 104, 96, 98, 102, 254, 0, 0, 0, 0],
     [0, 0, 254, 102, 98, 104, 120, 104, 96, 96, 96, 240, 0, 0, 0, 0], [0, 0, 60, 102, 194, 192, 192, 222, 198, 198, 102, 58, 0, 0, 0, 0],
     [0, 0, 198, 198, 198, 198, 254, 198, 198, 198, 198, 198, 0, 0, 0, 0], [0, 0, 60, 24, 24, 24, 24, 24, 24, 24, 24, 60, 0, 0, 0, 0],
     [0, 0, 30, 12, 12, 12, 12, 12, 204, 204, 204, 120, 0, 0, 0, 0], [0, 0, 230, 102, 102, 108, 120, 120, 108, 102, 102, 230, 0, 0, 0, 0],
     [0, 0, 240, 96, 96, 96, 96, 96, 96, 98, 102, 254, 0, 0, 0, 0], [0, 0, 198, 238, 254, 214, 198, 198, 198, 198, 198, 198, 0, 0, 0, 0],
     [0, 0, 198, 230, 246, 254, 222, 206, 198, 198, 198, 198, 0, 0, 0, 0], [0, 0, 124, 198, 198, 198, 198, 198, 198, 198, 198, 124, 0, 0, 0, 0],
     [0, 0, 252, 102, 102, 102, 124, 96, 96, 96, 96, 240, 0, 0, 0, 0], [0, 0, 124, 198, 198, 198, 198, 198, 198, 214, 222, 124, 12, 14, 0, 0],
     [0, 0, 252, 102, 102, 102, 124, 108, 102, 102, 102, 230, 0, 0, 0, 0], [0, 0, 124, 198, 198, 96, 56, 12, 6, 198, 198, 124, 0, 0, 0, 0],
     [0, 0, 255, 219, 153, 24, 24, 24, 24, 24, 24, 60, 0, 0, 0, 0], [0, 0, 198, 198, 198, 198, 198, 198, 198, 198, 198, 124, 0, 0, 0, 0],
     [0, 0, 198, 198, 198, 198, 198, 198, 198, 108, 56, 16, 0, 0, 0, 0], [0, 0, 198, 198, 198, 198, 198, 214, 214, 254, 238, 108, 0, 0, 0, 0],
     [0, 0, 198, 198, 108, 124, 56, 56, 124, 108, 198, 198, 0, 0, 0, 0], [0, 0, 204, 204, 204, 204, 120, 48, 48, 48, 48, 120, 0, 0, 0, 0],
     [0, 0, 254, 198, 134, 12, 24, 48, 96, 194, 198, 254, 0, 0, 0, 0], [0, 0, 60, 48, 48, 48, 48, 48, 48, 48, 48, 60, 0, 0, 0, 0],
     [0, 0, 0, 128, 192, 224, 112, 56, 28, 14, 6, 2, 0, 0, 0, 0], [0, 0, 60, 12, 12, 12, 12, 12, 12, 12, 12, 60, 0, 0, 0, 0],
     [16, 56, 108, 198, 0, 0, 0, 0, 0, 0, 0, 0, 0, 0, 0, 0], [0, 0, 0, 0, 0, 0, 0, 0, 0, 0, 0, 0, 255, 0, 0, 0],
     [48, 24, 12, 0, 0, 0, 0, 0, 0, 0, 0, 0, 0, 0, 0, 0], [0, 0, 0, 0, 0, 120, 12, 124, 204, 204, 204, 118, 0, 0, 0, 0],
     [0, 0, 224, 96, 96, 120, 108, 102, 102, 102, 102, 124, 0, 0, 0, 0], [0, 0, 0, 0, 0, 124, 198, 192, 192, 192, 198, 124, 0, 0, 0, 0],
     [0, 0, 28, 12, 12, 60, 108, 204, 204, 204, 204, 118, 0, 0, 0, 0], [0, 0, 0, 0, 0, 124, 198, 254, 192, 192, 198, 124, 0, 0, 0, 0],
     [0, 0, 28, 54, 50, 48, 120, 48, 48, 48, 48, 120, 0, 0, 0, 0], [0, 0, 0, 0, 0, 118, 204, 204, 204, 124, 12, 204, 120, 0, 0, 0],
     [0, 0, 224, 96, 96, 108, 118, 102, 102, 102, 102, 230, 0, 0, 0, 0], [0, 0, 24, 24, 0, 56, 24, 24, 24, 24, 24, 60, 0, 0, 0, 0],
     [0, 0, 6, 6, 0, 14, 6, 6, 6, 6, 6, 6, 102, 60, 0, 0], [0, 0, 224, 96, 96, 102, 108, 120, 120, 108, 102, 230, 0, 0, 0, 0],
     [0, 0, 56, 24, 24, 24, 24, 24, 24, 24, 24, 60, 0, 0, 0, 0], [0, 0, 0, 0, 0, 236, 254, 214, 214, 214, 198, 198, 0, 0, 0, 0],
     [0, 0, 0, 0, 0, 220, 102, 102, 102, 102, 102, 102, 0, 0, 0, 0], [0, 0, 0, 0, 0, 124, 198, 198, 198, 198, 198, 124, 0, 0, 0, 0],
     [0, 0, 0, 0, 0, 220, 102, 102, 102, 124, 96, 96, 240, 0, 0, 0], [0, 0, 0, 0, 0, 118, 204, 204, 204, 124, 12, 12, 30, 0, 0, 0],
     [0, 0, 0, 0, 0, 220, 118, 102, 96, 96, 96, 240, 0, 0, 0, 0], [0, 0, 0, 0, 0, 124, 198, 96, 56, 12, 198, 124, 0, 0, 0, 0],
     [0, 0, 16, 48, 48, 252, 48, 48, 48, 48, 54, 28, 0, 0, 0, 0], [0, 0, 0, 0, 0, 204, 204, 204, 204, 204, 204, 118, 0, 0, 0, 0],
     [0, 0, 0, 0, 0, 198, 198, 198, 198, 108, 56, 16, 0, 0, 0, 0], [0, 0, 0, 0, 0, 198, 198, 214, 214, 214, 254, 108, 0, 0, 0, 0],
     [0, 0, 0, 0, 0, 198, 108, 56, 56, 56, 108, 198, 0, 0, 0, 0], [0, 0, 0, 0, 0, 198, 198, 198, 198, 126, 6, 12, 248, 0, 0, 0],
     [0, 0, 0, 0, 0, 254, 204, 24, 48, 96, 198, 254, 0, 0, 0, 0], [0, 0, 14, 24, 24, 24, 112, 24, 24, 24, 24, 14, 0, 0, 0, 0],
     [0, 0, 24, 24, 24, 24, 24, 24, 24, 24, 24, 24, 0, 0, 0, 0], [0, 0, 112, 24, 24, 24, 14, 24, 24, 24, 24, 112, 0, 0, 0, 0],
     [0, 0, 118, 220, 0, 0, 0, 0, 0, 0, 0, 0, 0, 0, 0, 0], [0, 0, 0, 0, 0, 0, 0, 0, 0, 0, 0, 0, 0, 0, 0, 0]]"

definition FONT_WIDTH :: int where "FONT_WIDTH = 8"
definition FONT_HEIGHT :: int where "FONT_HEIGHT = 16"

text \<open>The row of the table for a character; \<open>char\<close> is signed, so that the upper half is below 32.\<close>

definition glyph_of :: "u8 \<Rightarrow> u8 list" where
  "glyph_of c = (let c = (if sint c < 32 \<or> sint c > 127 then 0x3F else c) in vga_font_8x16 ! (unat c - 32))"

definition glyph_bit :: "u8 \<Rightarrow> nat \<Rightarrow> nat \<Rightarrow> bool" where
  "glyph_bit c row col \<longleftrightarrow> glyph_of c ! row AND drop_bit col 0x80 \<noteq> 0"

definition gfx_draw_char :: "int \<Rightarrow> int \<Rightarrow> u8 \<Rightarrow> u8 \<Rightarrow> u8 \<Rightarrow> gfx \<Rightarrow> gfx" where
  "gfx_draw_char x y c fg bg g =
     for_range 0 (nat FONT_HEIGHT) (\<lambda>row. for_range 0 (nat FONT_WIDTH) (\<lambda>col.
       gfx_put_pixel (x + int col) (y + int row) (if glyph_bit c row col then fg else bg))) g"

fun draw_string_from :: "int \<Rightarrow> int \<Rightarrow> int \<Rightarrow> bytes \<Rightarrow> u8 \<Rightarrow> u8 \<Rightarrow> gfx \<Rightarrow> gfx" where
  "draw_string_from x cx y [] fg bg g = g"
| "draw_string_from x cx y (c # str) fg bg g =
     (if c = 0x0A then draw_string_from x x (y + FONT_HEIGHT) str fg bg g
      else draw_string_from x (cx + FONT_WIDTH) y str fg bg (gfx_draw_char cx y c fg bg g))"

definition gfx_draw_string :: "int \<Rightarrow> int \<Rightarrow> bytes \<Rightarrow> u8 \<Rightarrow> u8 \<Rightarrow> gfx \<Rightarrow> gfx" where
  "gfx_draw_string x y str fg bg g = draw_string_from x x y str fg bg g"

definition draw_char_transparent :: "int \<Rightarrow> int \<Rightarrow> u8 \<Rightarrow> u8 \<Rightarrow> gfx \<Rightarrow> gfx" where
  "draw_char_transparent x y c fg g =
     for_range 0 (nat FONT_HEIGHT) (\<lambda>row. for_range 0 (nat FONT_WIDTH) (\<lambda>col g.
       if glyph_bit c row col then gfx_put_pixel (x + int col) (y + int row) fg g else g)) g"

fun draw_transparent_from :: "int \<Rightarrow> int \<Rightarrow> int \<Rightarrow> bytes \<Rightarrow> u8 \<Rightarrow> gfx \<Rightarrow> gfx" where
  "draw_transparent_from x cx y [] fg g = g"
| "draw_transparent_from x cx y (c # str) fg g =
     (if c = 0x0A then draw_transparent_from x x (y + FONT_HEIGHT) str fg g
      else draw_transparent_from x (cx + FONT_WIDTH) y str fg (draw_char_transparent cx y c fg g))"

definition gfx_draw_string_transparent :: "int \<Rightarrow> int \<Rightarrow> bytes \<Rightarrow> u8 \<Rightarrow> gfx \<Rightarrow> gfx" where
  "gfx_draw_string_transparent x y str fg g = draw_transparent_from x x y str fg g"

section \<open>Bitmaps, scrolling and the palette\<close>

record bitmap =
  bmp_width :: int
  bmp_height :: int
  bmp_data :: "u8 list option"

definition bitmap_color :: "int \<Rightarrow> u8 list \<Rightarrow> nat \<Rightarrow> nat \<Rightarrow> u8" where
  "bitmap_color width data row col =
     (let byte = data ! nat ((int row * width + int col) div 2)
      in if odd col then byte AND 0x0F else drop_bit 4 byte AND 0x0F)"

definition gfx_draw_bitmap :: "int \<Rightarrow> int \<Rightarrow> bitmap option \<Rightarrow> gfx \<Rightarrow> gfx" where
  "gfx_draw_bitmap x y bmp g = (case bmp of
       None \<Rightarrow> g
     | Some b \<Rightarrow> (case bmp_data b of
         None \<Rightarrow> g
       | Some data \<Rightarrow> for_range 0 (nat (bmp_height b)) (\<lambda>row. for_range 0 (nat (bmp_width b)) (\<lambda>col.
           gfx_put_pixel (x + int col) (y + int row) (bitmap_color (bmp_width b) data row col))) g))"

definition gfx_clear :: "u8 \<Rightarrow> gfx \<Rightarrow> gfx" where
  "gfx_clear color g = gfx_fill_rect 0 0 (g_screen_width g) (g_screen_height g) color g"

definition copy_row12 :: "int \<Rightarrow> nat \<Rightarrow> gfx \<Rightarrow> gfx" where
  "copy_row12 lines y g = for_range 0 (nat (g_screen_width g)) (\<lambda>x g.
     case gfx_get_pixel (int x) (int y + lines) g of (c, g) \<Rightarrow> gfx_put_pixel (int x) (int y) c g) g"

definition gfx_scroll_up :: "int \<Rightarrow> u8 \<Rightarrow> gfx \<Rightarrow> gfx" where
  "gfx_scroll_up lines color g =
     (if lines \<le> 0 \<or> lines \<ge> g_screen_height g then g
      else if g_current_mode g = VGA_MODE_13H then
        let w = nat VGA13_WIDTH;
            d = for_range 0 (nat (VGA13_HEIGHT - lines)) (\<lambda>y. fb_memcpy (y * w) ((y + nat lines) * w) w) (dev g)
        in g\<lparr>dev := for_range (nat (VGA13_HEIGHT - lines)) (nat VGA13_HEIGHT) (\<lambda>y. fb_memset (y * w) color w) d\<rparr>
      else
        let g = for_range 0 (nat (g_screen_height g - lines)) (copy_row12 lines) g
        in for_range (nat (g_screen_height g - lines)) (nat (g_screen_height g))
             (\<lambda>y g. gfx_draw_hline 0 (int y) (g_screen_width g) color g) g)"

definition gfx_update_region :: "int \<Rightarrow> int \<Rightarrow> int \<Rightarrow> int \<Rightarrow> gfx \<Rightarrow> gfx" where
  "gfx_update_region x y width height g = g"

definition gfx_set_palette_entry :: "u8 \<Rightarrow> u8 \<Rightarrow> u8 \<Rightarrow> u8 \<Rightarrow> gfx \<Rightarrow> gfx option" where
  "gfx_set_palette_entry index r gr b g = (case vga_wait_vsync (dev g) of
       None \<Rightarrow> None
     | Some d \<Rightarrow> Some (g\<lparr>dev := vga_outb 0x3C9 b (vga_outb 0x3C9 gr (vga_outb 0x3C9 r (vga_outb 0x3C8 index d)))\<rparr>))"

definition default_palette :: "(u8 \<times> u8 \<times> u8) list" where
  "default_palette = [(0, 0, 0), (0, 0, 42), (0, 42, 0), (0, 42, 42), (42, 0, 0), (42, 0, 42), (42, 21, 0), (42, 42, 42),
     (21, 21, 21), (21, 21, 63), (21, 63, 21), (21, 63, 63), (63, 21, 21), (63, 21, 63), (63, 63, 21), (63, 63, 63)]"

definition gfx_set_default_palette :: "gfx \<Rightarrow> gfx option" where
  "gfx_set_default_palette g = for_range 0 16 (\<lambda>i r. case r of None \<Rightarrow> None | Some g \<Rightarrow>
     (case default_palette ! i of (r, gr, b) \<Rightarrow> gfx_set_palette_entry (of_nat i) r gr b g)) (Some g)"

end
