(* ===== verification/Gfx_Spec.thy ===== *)
theory Gfx_Spec
  imports Gfx
begin

text \<open>
  What the drawing primitives do to the picture.  The picture is a partial map from the positions on the screen to colours, read off the planes of the
  adapter.  A primitive is a painter: it always returns and overrides the picture with a stencil, a partial map of the pixels it draws, whatever
  was there before.  Painters compose by overriding, so that everything drawn with them is known from its stencils.
\<close>

unbundle bit_operations_syntax

section \<open>Register writes\<close>

lemma seq_write_eq: "vga_seq_write i v d = d\<lparr>seq_index := i, seq_regs := (seq_regs d)(i := v)\<rparr>"
  by (simp add: vga_seq_write_def vga_outb_def)

lemma crtc_write_eq: "vga_crtc_write i v d = d\<lparr>crtc_index := i, crtc_regs := (crtc_regs d)(i := v)\<rparr>"
  by (simp add: vga_crtc_write_def vga_outb_def)

lemma gc_write_eq: "vga_gc_write i v d = d\<lparr>gc_index := i, gc_regs := (gc_regs d)(i := v)\<rparr>"
  by (simp add: vga_gc_write_def vga_outb_def)

lemma ac_write_eq:
  "vga_ac_write i v d = d\<lparr>polls := polls d + 1, ac_index := i OR 0x20, ac_data_next := False, ac_regs := (ac_regs d)((i OR 0x20) AND 0x1F := v)\<rparr>"
  by (simp add: vga_ac_write_def vga_outb_def vga_in_status_def)

lemmas port_eqs = seq_write_eq crtc_write_eq gc_write_eq ac_write_eq

section \<open>The picture\<close>

definition mode_width :: "u8 \<Rightarrow> int" where "mode_width m = (if m = VGA_MODE_12H then VGA12_WIDTH else VGA13_WIDTH)"
definition mode_height :: "u8 \<Rightarrow> int" where "mode_height m = (if m = VGA_MODE_12H then VGA12_HEIGHT else VGA13_HEIGHT)"

definition on_screen :: "u8 \<Rightarrow> int \<times> int \<Rightarrow> bool" where
  "on_screen m p \<longleftrightarrow> 0 \<le> fst p \<and> fst p < mode_width m \<and> 0 \<le> snd p \<and> snd p < mode_height m"

text \<open>The colours a mode can show.\<close>

definition quant :: "u8 \<Rightarrow> u8 \<Rightarrow> u8" where "quant m c = (if m = VGA_MODE_12H then c AND 0x0F else c)"

definition pixel12 :: "(nat \<Rightarrow> nat \<Rightarrow> u8) \<Rightarrow> int \<Rightarrow> int \<Rightarrow> u8" where
  "pixel12 pl x y = for_range 0 4 (\<lambda>p c. if pl p (offset12 x y) AND pixel_bit x \<noteq> 0 then c OR push_bit p 1 else c) 0"

definition pixel13 :: "(nat \<Rightarrow> nat \<Rightarrow> u8) \<Rightarrow> int \<Rightarrow> int \<Rightarrow> u8" where
  "pixel13 pl x y = (let off = nat (y * VGA13_WIDTH + x) in pl (off mod 4) (off - off mod 4))"

definition picture :: "u8 \<Rightarrow> gfx \<Rightarrow> (int \<times> int) \<rightharpoonup> u8" where
  "picture m g p =
     (if on_screen m p then Some ((if m = VGA_MODE_12H then pixel12 else pixel13) (planes (dev g)) (fst p) (snd p)) else None)"

lemma picture_planes: "planes (dev g) = planes (dev g') \<Longrightarrow> picture m g = picture m g'"
  by (rule ext) (simp add: picture_def)

text \<open>The registers as \<open>graphics_init\<close> leaves them; the map mask of mode 12h is set before each use.\<close>

definition vga_ready :: "u8 \<Rightarrow> vga \<Rightarrow> bool" where
  "vga_ready m d \<longleftrightarrow> vga_mapped d \<and> gc_regs d 8 = 0xFF \<and> gc_regs d 1 = 0 \<and> gc_regs d 3 = 0 \<and> gc_regs d 5 AND 3 = 0 \<and>
     (if m = VGA_MODE_12H then \<not> vga_chain4 d else vga_chain4 d \<and> seq_regs d 2 = 0x0F)"

definition gfx_ok :: "u8 \<Rightarrow> gfx \<Rightarrow> bool" where
  "gfx_ok m g \<longleftrightarrow> (m = VGA_MODE_12H \<or> m = VGA_MODE_13H) \<and> g_current_mode g = m \<and> g_screen_width g = mode_width m \<and>
     g_screen_height g = mode_height m \<and> vga_ready m (dev g)"

lemmas mode_defs = VGA_MODE_12H_def VGA_MODE_13H_def VGA_MODE_TEXT_def
lemmas size_defs = mode_width_def mode_height_def VGA12_WIDTH_def VGA12_HEIGHT_def VGA13_WIDTH_def VGA13_HEIGHT_def

lemma off_screen_iff: "gfx_ok m g \<Longrightarrow> off_screen g x y \<longleftrightarrow> \<not> on_screen m (x, y)"
  by (auto simp: off_screen_def gfx_ok_def on_screen_def)

section \<open>Bits and planes\<close>

lemma pixel_bit_eq: "pixel_bit x = push_bit (7 - nat (x mod 8)) 1"
proof -
  have "nat (x AND 7) = nat (x mod 8)"
    using take_bit_eq_mask [of 3 x] by (simp add: take_bit_eq_mod mask_eq_exp_minus_1)
  moreover have "x mod 8 = 0 \<or> x mod 8 = 1 \<or> x mod 8 = 2 \<or> x mod 8 = 3 \<or> x mod 8 = 4 \<or> x mod 8 = 5 \<or> x mod 8 = 6 \<or> x mod 8 = 7"
    by presburger
  ultimately show ?thesis unfolding pixel_bit_def by auto
qed

lemma pixel_test: "v AND pixel_bit x \<noteq> 0 \<longleftrightarrow> bit (v :: u8) (7 - nat (x mod 8))"
  unfolding pixel_bit_eq by (subst and_bit_eq_0) simp_all

lemma offset12_eq: "on_screen VGA_MODE_12H (x, y) \<Longrightarrow> offset12 x y = nat (y * 80 + x div 8)"
proof -
  assume "on_screen VGA_MODE_12H (x, y)"
  then have "0 \<le> x" "x < 640" "0 \<le> y" "y < 480" by (simp_all add: on_screen_def size_defs)
  then have "0 \<le> y * 80 + x div 8 \<and> y * 80 + x div 8 < 65536" by linarith
  then show ?thesis unfolding offset12_def drop_bit_eq_div by simp
qed

lemma row_inj: "y * n + a = y' * n + a' \<Longrightarrow> 0 \<le> a \<Longrightarrow> a < n \<Longrightarrow> 0 \<le> a' \<Longrightarrow> a' < n \<Longrightarrow> y = y' \<and> a = a'" for y :: int
proof -
  assume e: "y * n + a = y' * n + a'" and b: "0 \<le> a" "a < n" "0 \<le> a'" "a' < n"
  have "y = (y * n + a) div n" "y' = (y' * n + a') div n" using b by simp_all
  with e have "y = y'" by simp
  with e show ?thesis by simp
qed

lemma below_seven: "a < 8 \<Longrightarrow> b < 8 \<Longrightarrow> 7 - a = 7 - b \<Longrightarrow> a = b" for a b :: nat
  by arith

text \<open>The byte and the bit in it determine the position.\<close>

lemma offset12_inj:
  assumes "on_screen VGA_MODE_12H (x, y)" "on_screen VGA_MODE_12H (x', y')" "offset12 x y = offset12 x' y'"
    "7 - nat (x mod 8) = 7 - nat (x' mod 8)"
  shows "x = x' \<and> y = y'"
proof -
  have "y * 80 + x div 8 = y' * 80 + x' div 8"
    using assms(1-3) unfolding offset12_eq [OF assms(1)] offset12_eq [OF assms(2)] by (auto simp: on_screen_def)
  moreover have "x div 8 < 80" "x' div 8 < 80" "0 \<le> x div 8" "0 \<le> x' div 8"
    using assms(1,2) by (auto simp: on_screen_def size_defs)
  ultimately have "y = y'" "x div 8 = x' div 8" using row_inj [of y 80 "x div 8" y' "x' div 8"] by simp_all
  moreover have "x mod 8 = x' mod 8"
  proof -
    have "nat (x mod 8) < 8" "nat (x' mod 8) < 8" by (simp_all add: nat_less_iff)
    from below_seven [OF this assms(4)] show ?thesis by (subst (asm) eq_nat_nat_iff) simp_all
  qed
  ultimately show ?thesis by (metis div_mult_mod_eq)
qed

lemma collect_bits:
  "n \<le> 8 \<Longrightarrow> bit (for_range 0 n (\<lambda>p c. if P p then c OR push_bit p 1 else c) (0 :: u8)) i \<longleftrightarrow> i < n \<and> P i"
proof (induction n)
  case (Suc n)
  then show ?case by (auto simp: for_range_Suc bit_simps less_Suc_eq simp del: push_bit_of_1)
qed simp

lemma bit_pixel12: "bit (pixel12 pl x y) i \<longleftrightarrow> i < 4 \<and> bit (pl i (offset12 x y)) (7 - nat (x mod 8))"
  unfolding pixel12_def collect_bits [of 4 "\<lambda>p. pl p (offset12 x y) AND pixel_bit x \<noteq> 0", simplified] by (simp only: pixel_test)

section \<open>One pixel in mode 12h\<close>

definition plane_byte :: "u8 \<Rightarrow> u8 \<Rightarrow> nat \<Rightarrow> u8 \<Rightarrow> u8" where
  "plane_byte m color p v = (if bit color p then v OR m else v AND NOT m)"

lemma set_plane_mask: "p < 8 \<Longrightarrow> bit (ucast (push_bit p (1 :: u32)) :: u8) q \<longleftrightarrow> q = p"
  by (auto simp: bit_simps simp del: push_bit_of_1)

lemma color_test: "p < 8 \<Longrightarrow> color AND push_bit p 1 \<noteq> 0 \<longleftrightarrow> bit (color :: u8) p"
  by (simp add: and_bit_eq_0 del: push_bit_of_1)

lemma merge_plane: "(if b then 0xFF else 0 :: u8) AND m OR v AND NOT m = (if b then v OR m else v AND NOT m)"
proof -
  have ones: "(0xFF :: u8) = - 1" by simp
  have "m OR v AND NOT m = v OR m" by (rule bit_word_eqI) (auto simp: bit_simps)
  then show ?thesis unfolding ones by simp
qed

lemma put_plane_eq:
  assumes "p < 4" "vga_mapped d" "\<not> vga_chain4 d"
  shows "put_plane off color p d = d\<lparr>seq_index := 2, seq_regs := (seq_regs d)(2 := ucast (push_bit p (1 :: u32))),
    latch := (\<lambda>q. planes d q off),
    planes := (\<lambda>q a. if q = p \<and> a = off then plane_byte (gc_regs d 8) color p (planes d p off) else planes d q a)\<rparr>"
proof -
  have u: "unat (of_nat p :: u8) = p" using assms(1) by (intro unat_of_nat_u8) simp
  have w: "(q < 4 \<and> bit (ucast (push_bit p (1 :: u32)) :: u8) q \<and> a = off) = (q = p \<and> a = off)" for q a
    using assms(1) set_plane_mask [of p q] by auto
  have c: "color AND push_bit p 1 \<noteq> 0 \<longleftrightarrow> bit color p" using assms(1) by (intro color_test) simp
  define d1 where "d1 = d\<lparr>seq_index := 2, seq_regs := (seq_regs d)(2 := ucast (push_bit p (1 :: u32)))\<rparr>"
  define d2 where "d2 = d1\<lparr>latch := (\<lambda>q. planes d q off)\<rparr>"
  have m1: "vga_mapped d1" "\<not> vga_chain4 d1" using assms(2,3) by (simp_all add: vga_mapped_def vga_chain4_def d1_def del: push_bit_of_1)
  then have m2: "vga_mapped d2" "\<not> vga_chain4 d2" by (simp_all add: vga_mapped_def vga_chain4_def d2_def)
  have r: "snd (vga_read off d1) = d2" using m1 by (simp add: vga_read_def d2_def) (simp add: d1_def)
  have "vga_set_plane (of_nat p) d = d1" unfolding vga_set_plane_def seq_write_eq u d1_def ..
  with r c have "put_plane off color p d = vga_write off (if bit color p then 0xFF else 0) d2" unfolding put_plane_def Let_def by simp
  also have "\<dots> = d2\<lparr>planes := (\<lambda>q a. if q < 4 \<and> bit (seq_regs d2 2) q \<and> a = off then vga_merge (if bit color p then 0xFF else 0) q d2 else planes d2 q a)\<rparr>"
    unfolding vga_write_def using m2 by simp
  also have "(\<lambda>q a. if q < 4 \<and> bit (seq_regs d2 2) q \<and> a = off then vga_merge (if bit color p then 0xFF else 0) q d2 else planes d2 q a) =
    (\<lambda>q a. if q = p \<and> a = off then plane_byte (gc_regs d 8) color p (planes d p off) else planes d q a)"
  proof (intro ext)
    fix q a
    have "seq_regs d2 2 = ucast (push_bit p (1 :: u32))" "gc_regs d2 8 = gc_regs d 8" "latch d2 q = planes d q off" "planes d2 q a = planes d q a"
      by (simp_all add: d2_def d1_def del: push_bit_of_1)
    then show "(if q < 4 \<and> bit (seq_regs d2 2) q \<and> a = off then vga_merge (if bit color p then 0xFF else 0) q d2 else planes d2 q a) =
      (if q = p \<and> a = off then plane_byte (gc_regs d 8) color p (planes d p off) else planes d q a)"
      unfolding vga_merge_def plane_byte_def merge_plane by (simp only: w) simp
  qed
  finally show ?thesis by (simp add: d2_def d1_def del: push_bit_of_1)
qed

lemma put_planes:
  assumes "n \<le> 4" "vga_mapped d" "\<not> vga_chain4 d"
  shows "vga_mapped (for_range 0 n (put_plane off color) d) \<and> \<not> vga_chain4 (for_range 0 n (put_plane off color) d) \<and>
    gc_regs (for_range 0 n (put_plane off color) d) = gc_regs d \<and>
    planes (for_range 0 n (put_plane off color) d) =
      (\<lambda>q a. if q < n \<and> a = off then plane_byte (gc_regs d 8) color q (planes d q off) else planes d q a)"
  using assms(1)
proof (induction n)
  case 0
  then show ?case using assms(2,3) by simp
next
  case (Suc n)
  let ?d = "for_range 0 n (put_plane off color) d"
  from Suc have ih: "vga_mapped ?d" "\<not> vga_chain4 ?d" "gc_regs ?d = gc_regs d"
    "planes ?d = (\<lambda>q a. if q < n \<and> a = off then plane_byte (gc_regs d 8) color q (planes d q off) else planes d q a)" and n: "n < 4" by auto
  show ?case
    unfolding for_range_Suc [OF le0] put_plane_eq [OF n ih(1,2)]
    using ih(1-3) by (auto simp: vga_mapped_def vga_chain4_def ih(4) less_Suc_eq fun_eq_iff simp del: push_bit_of_1)
qed

lemma put_pixel12:
  assumes "gfx_ok VGA_MODE_12H g" "on_screen VGA_MODE_12H (x, y)"
  shows "gfx_ok VGA_MODE_12H (gfx_put_pixel x y color g) \<and>
    planes (dev (gfx_put_pixel x y color g)) =
      (\<lambda>q a. if q < 4 \<and> a = offset12 x y then plane_byte (pixel_bit x) color q (planes (dev g) q a) else planes (dev g) q a)"
proof -
  define d0 where "d0 = vga_set_bitmask (pixel_bit x) (dev g)"
  define d1 where "d1 = for_range 0 4 (put_plane (offset12 x y) color) d0"
  have r: "vga_ready VGA_MODE_12H (dev g)" and m: "g_current_mode g = VGA_MODE_12H" using assms(1) by (simp_all add: gfx_ok_def)
  have "vga_mapped d0 \<and> \<not> vga_chain4 d0 \<and> gc_regs d0 = (gc_regs (dev g))(8 := pixel_bit x) \<and> planes d0 = planes (dev g)"
    using r by (simp add: d0_def vga_set_bitmask_def gc_write_eq vga_ready_def vga_mapped_def vga_chain4_def)
  with put_planes [of 4 d0 "offset12 x y" color]
  have d1: "vga_mapped d1" "\<not> vga_chain4 d1" "gc_regs d1 = (gc_regs (dev g))(8 := pixel_bit x)"
    "planes d1 = (\<lambda>q a. if q < 4 \<and> a = offset12 x y then plane_byte (pixel_bit x) color q (planes (dev g) q a) else planes (dev g) q a)"
    by (auto simp: d1_def fun_eq_iff)
  have e: "gfx_put_pixel x y color g = g\<lparr>dev := vga_set_plane 0x0F (vga_set_bitmask 0xFF d1)\<rparr>"
    using assms(2) m unfolding gfx_put_pixel_def off_screen_iff [OF assms(1)] d1_def d0_def Let_def by simp
  have "vga_ready VGA_MODE_12H (vga_set_plane 0x0F (vga_set_bitmask 0xFF d1))"
    using r d1 by (simp add: vga_set_plane_def vga_set_bitmask_def port_eqs vga_ready_def vga_mapped_def vga_chain4_def)
  with assms(1) have "gfx_ok VGA_MODE_12H (gfx_put_pixel x y color g)" unfolding e by (simp add: gfx_ok_def)
  moreover have "planes (dev (gfx_put_pixel x y color g)) = planes d1"
    unfolding e by (simp add: vga_set_plane_def vga_set_bitmask_def port_eqs)
  ultimately show ?thesis using d1(4) by simp
qed

lemma bit_15: "bit (0x0F :: u8) i \<longleftrightarrow> i < 4"
  using bit_mask_iff [of 4 i, where ?'a = u8] by (auto simp: mask_eq_exp_minus_1)

lemma bit_plane_byte: "j < 8 \<Longrightarrow> bit (plane_byte (pixel_bit x) c p v) j \<longleftrightarrow> (if j = 7 - nat (x mod 8) then bit c p else bit v j)"
  unfolding plane_byte_def pixel_bit_eq by (auto simp: bit_simps simp del: push_bit_of_1)

definition ink :: "u8 \<Rightarrow> int \<times> int \<Rightarrow> u8 \<Rightarrow> u8 option" where
  "ink m p c = (if on_screen m p then Some (quant m c) else None)"

lemma picture_put12:
  assumes "gfx_ok VGA_MODE_12H g" "on_screen VGA_MODE_12H (x, y)"
  shows "picture VGA_MODE_12H (gfx_put_pixel x y c g) = (picture VGA_MODE_12H g)((x, y) \<mapsto> c AND 0x0F)"
proof (intro ext, goal_cases)
  case (1 p)
  obtain x' y' where p: "p = (x', y')" by fastforce
  let ?pl = "planes (dev g)" and ?pl' = "planes (dev (gfx_put_pixel x y c g))"
  have pl: "?pl' = (\<lambda>q a. if q < 4 \<and> a = offset12 x y then plane_byte (pixel_bit x) c q (?pl q a) else ?pl q a)"
    using put_pixel12 [OF assms] by blast
  have j: "7 - nat (x' mod 8) < 8" by simp
  have "pixel12 ?pl' x' y' = (if (x', y') = (x, y) then c AND 0x0F else pixel12 ?pl x' y')" if o: "on_screen VGA_MODE_12H (x', y')"
  proof (cases "(x', y') = (x, y)")
    case True
    have "bit (pixel12 ?pl' x' y') i = bit (c AND 0x0F) i" for i
      unfolding bit_pixel12 bit_and_iff bit_15 using True by (auto simp: pl bit_plane_byte)
    then show ?thesis using True by (auto intro: bit_eqI)
  next
    case False
    have "bit (pixel12 ?pl' x' y') i = bit (pixel12 ?pl x' y') i" for i
    proof (cases "offset12 x' y' = offset12 x y")
      case True
      then have "7 - nat (x' mod 8) \<noteq> 7 - nat (x mod 8)" using offset12_inj [OF o assms(2)] False by blast
      then show ?thesis unfolding bit_pixel12 by (simp add: pl bit_plane_byte [OF j])
    next
      case False
      then show ?thesis unfolding bit_pixel12 by (simp add: pl)
    qed
    then show ?thesis using False by (auto intro: bit_eqI)
  qed
  then show ?case unfolding p picture_def by (auto simp: assms(2))
qed

section \<open>One pixel in mode 13h\<close>

lemma write13:
  assumes "vga_ready VGA_MODE_13H d"
  shows "vga_ready VGA_MODE_13H (vga_write off v d) \<and>
    planes (vga_write off v d) = (\<lambda>p a. if p = off mod 4 \<and> a = off - off mod 4 then v else planes d p a)"
proof -
  have r: "vga_mapped d" "vga_chain4 d" "gc_regs d 8 = 0xFF" "seq_regs d 2 = 0x0F" using assms by (simp_all add: vga_ready_def mode_defs)
  have ones: "(0xFF :: u8) = - 1" by simp
  have b: "(p = off mod 4 \<and> bit (0x0F :: u8) p \<and> a = off - off mod 4) \<longleftrightarrow> (p = off mod 4 \<and> a = off - off mod 4)" for p a
    unfolding bit_15 by auto
  have v: "vga_merge v p d = v" for p unfolding vga_merge_def r(3) ones by simp
  have "vga_write off v d = d\<lparr>planes := (\<lambda>p a. if p = off mod 4 \<and> bit (0x0F :: u8) p \<and> a = off - off mod 4 then vga_merge v p d else planes d p a)\<rparr>"
    unfolding vga_write_def by (simp only: r if_True if_False not_True_eq_False simp_thms)
  then have "vga_write off v d = d\<lparr>planes := (\<lambda>p a. if p = off mod 4 \<and> a = off - off mod 4 then v else planes d p a)\<rparr>"
    unfolding b v .
  then show ?thesis using assms by (simp add: vga_ready_def vga_mapped_def vga_chain4_def mode_defs)
qed

lemma offset13_split: "a mod 4 = b mod 4 \<Longrightarrow> a - a mod 4 = b - b mod 4 \<Longrightarrow> a = b" for a b :: nat
  by (metis le_add_diff_inverse2 mod_less_eq_dividend)

lemma offset13_inj:
  assumes "on_screen VGA_MODE_13H (x, y)" "on_screen VGA_MODE_13H (x', y')" "nat (y * VGA13_WIDTH + x) = nat (y' * VGA13_WIDTH + x')"
  shows "x = x' \<and> y = y'"
proof -
  have b: "0 \<le> x" "x < 320" "0 \<le> y" "0 \<le> x'" "x' < 320" "0 \<le> y'" using assms(1,2) by (simp_all add: on_screen_def size_defs mode_defs)
  with assms(3) have "y * 320 + x = y' * 320 + x'" by (simp add: VGA13_WIDTH_def)
  with row_inj [of y 320 x y' x'] b show ?thesis by simp
qed

text \<open>Writing the byte of a position changes that position of the picture and nothing else.\<close>

lemma pixel13_write:
  assumes "vga_ready VGA_MODE_13H d" "on_screen VGA_MODE_13H (x, y)" "on_screen VGA_MODE_13H (x', y')"
  shows "pixel13 (planes (vga_write (nat (y * VGA13_WIDTH + x)) c d)) x' y' = (if (x', y') = (x, y) then c else pixel13 (planes d) x' y')"
  using write13 [OF assms(1)] offset13_inj [OF assms(3,2)]
    offset13_split [of "nat (y' * VGA13_WIDTH + x')" "nat (y * VGA13_WIDTH + x)"]
  by (auto simp: pixel13_def Let_def)

lemma picture_put13:
  assumes "gfx_ok VGA_MODE_13H g" "on_screen VGA_MODE_13H (x, y)"
  shows "gfx_ok VGA_MODE_13H (gfx_put_pixel x y c g) \<and> picture VGA_MODE_13H (gfx_put_pixel x y c g) = (picture VGA_MODE_13H g)((x, y) \<mapsto> c)"
proof -
  have e: "gfx_put_pixel x y c g = g\<lparr>dev := vga_write (nat (y * VGA13_WIDTH + x)) c (dev g)\<rparr>"
    using assms unfolding gfx_put_pixel_def off_screen_iff [OF assms(1)] by (simp add: gfx_ok_def mode_defs)
  have r: "vga_ready VGA_MODE_13H (dev g)" using assms(1) by (simp add: gfx_ok_def)
  have "gfx_ok VGA_MODE_13H (gfx_put_pixel x y c g)" unfolding e using assms(1) write13 [OF r] by (simp add: gfx_ok_def)
  moreover have "picture VGA_MODE_13H (gfx_put_pixel x y c g) = (picture VGA_MODE_13H g)((x, y) \<mapsto> c)"
    unfolding e picture_def using assms(2) by (auto simp: fun_eq_iff mode_defs pixel13_write [OF r assms(2), unfolded mode_defs])
  ultimately show ?thesis ..
qed

lemma put_pixel_ok: "gfx_ok m g \<Longrightarrow> gfx_ok m (gfx_put_pixel x y c g)"
proof -
  assume g: "gfx_ok m g"
  then consider "\<not> on_screen m (x, y)" | "on_screen m (x, y)" "m = VGA_MODE_12H" | "on_screen m (x, y)" "m = VGA_MODE_13H" unfolding gfx_ok_def by blast
  then show ?thesis
  proof cases
    case 1
    then show ?thesis using g off_screen_iff [OF g] by (simp add: gfx_put_pixel_def)
  qed (use g put_pixel12 picture_put13 in blast)+
qed

lemma put_pixel_picture:
  assumes g: "gfx_ok m g"
  shows "picture m (gfx_put_pixel x y c g) = (case ink m (x, y) c of None \<Rightarrow> picture m g | Some c \<Rightarrow> (picture m g)((x, y) \<mapsto> c))"
proof -
  from g consider "\<not> on_screen m (x, y)" | "on_screen m (x, y)" "m = VGA_MODE_12H" | "on_screen m (x, y)" "m = VGA_MODE_13H" unfolding gfx_ok_def by blast
  then show ?thesis
  proof cases
    case 1
    then show ?thesis using off_screen_iff [OF g] by (simp add: gfx_put_pixel_def ink_def)
  next
    case 2
    with picture_put12 [of g x y c] g show ?thesis by (simp add: ink_def quant_def)
  next
    case 3
    with picture_put13 [of g x y c] g show ?thesis by (simp add: ink_def quant_def mode_defs)
  qed
qed

section \<open>Reading a pixel\<close>

lemma get_planes:
  assumes "n \<le> 4" "vga_mapped d" "\<not> vga_chain4 d"
  shows "case for_range 0 n (get_plane off b) (0, d) of (color, d') \<Rightarrow>
    color = for_range 0 n (\<lambda>p c. if planes d p off AND b \<noteq> 0 then c OR push_bit p 1 else c) 0 \<and>
    planes d' = planes d \<and> seq_regs d' = seq_regs d \<and> (\<forall>i. i \<noteq> 4 \<longrightarrow> gc_regs d' i = gc_regs d i)"
  using assms(1)
proof (induction n)
  case (Suc n)
  obtain c d' where r: "for_range 0 n (get_plane off b) (0, d) = (c, d')" by fastforce
  with Suc have ih: "c = for_range 0 n (\<lambda>p c. if planes d p off AND b \<noteq> 0 then c OR push_bit p 1 else c) 0"
    "planes d' = planes d" "seq_regs d' = seq_regs d" "\<forall>i. i \<noteq> 4 \<longrightarrow> gc_regs d' i = gc_regs d i" and n: "n < 4" by auto
  let ?d = "vga_set_read_plane (of_nat n) d'"
  have m: "vga_mapped ?d" "\<not> vga_chain4 ?d"
    using assms(2,3) ih(3,4) by (simp_all add: vga_set_read_plane_def gc_write_eq vga_mapped_def vga_chain4_def)
  have "n = 0 \<or> n = 1 \<or> n = 2 \<or> n = 3" using n by arith
  then have "unat ((of_nat n :: u8) AND 3) = n" by auto
  then have v: "vga_read off ?d = (planes d n off, ?d\<lparr>latch := (\<lambda>p. planes d p off)\<rparr>)"
    using m ih(2) by (simp add: vga_read_def) (simp add: vga_set_read_plane_def gc_write_eq)
  have "get_plane off b n (c, d') = (if planes d n off AND b \<noteq> 0 then c OR push_bit n 1 else c, ?d\<lparr>latch := (\<lambda>p. planes d p off)\<rparr>)"
    by (simp only: get_plane_def prod.case v)
  then have "for_range 0 (Suc n) (get_plane off b) (0, d) =
      (if planes d n off AND b \<noteq> 0 then c OR push_bit n 1 else c, ?d\<lparr>latch := (\<lambda>p. planes d p off)\<rparr>)"
    by (simp only: for_range_Suc [OF le0] r)
  then show ?case using ih by (simp add: for_range_Suc vga_set_read_plane_def gc_write_eq del: push_bit_of_1)
qed simp

lemma get_pixel:
  assumes "gfx_ok m g"
  shows "gfx_ok m (snd (gfx_get_pixel x y g)) \<and> picture m (snd (gfx_get_pixel x y g)) = picture m g \<and>
    fst (gfx_get_pixel x y g) = (case picture m g (x, y) of None \<Rightarrow> 0 | Some c \<Rightarrow> c)"
proof -
  from assms consider "\<not> on_screen m (x, y)" | "on_screen m (x, y)" "m = VGA_MODE_12H" | "on_screen m (x, y)" "m = VGA_MODE_13H"
    unfolding gfx_ok_def by blast
  then show ?thesis
  proof cases
    case 1
    then show ?thesis using assms off_screen_iff [OF assms] by (simp add: gfx_get_pixel_def picture_def)
  next
    case 2
    define d0 where "d0 = vga_set_bitmask (pixel_bit x) (dev g)"
    obtain c d where r: "for_range 0 4 (get_plane (offset12 x y) (pixel_bit x)) (0, d0) = (c, d)" by fastforce
    have rd: "vga_ready m (dev g)" using assms by (simp add: gfx_ok_def)
    have d0: "vga_mapped d0" "\<not> vga_chain4 d0" "planes d0 = planes (dev g)" "gc_regs d0 = (gc_regs (dev g))(8 := pixel_bit x)" "seq_regs d0 = seq_regs (dev g)"
      using rd 2(2) by (simp_all add: d0_def vga_set_bitmask_def gc_write_eq vga_ready_def vga_mapped_def vga_chain4_def)
    from get_planes [OF order_refl d0(1,2), of "offset12 x y" "pixel_bit x"]
    have c: "c = pixel12 (planes (dev g)) x y" and d: "planes d = planes (dev g)" "seq_regs d = seq_regs (dev g)" "\<forall>i. i \<noteq> 4 \<longrightarrow> gc_regs d i = gc_regs d0 i"
      unfolding r pixel12_def by (simp_all add: d0)
    have e: "gfx_get_pixel x y g = (c, g\<lparr>dev := vga_set_bitmask 0xFF d\<rparr>)"
      using 2 assms r unfolding gfx_get_pixel_def off_screen_iff [OF assms] Let_def d0_def by (simp add: gfx_ok_def)
    have "vga_ready m (vga_set_bitmask 0xFF d)"
      using rd d(2,3) 2(2) by (simp add: vga_set_bitmask_def gc_write_eq vga_ready_def vga_mapped_def vga_chain4_def d0(4))
    moreover have "picture m (g\<lparr>dev := vga_set_bitmask 0xFF d\<rparr>) = picture m g"
      using d(1) by (intro picture_planes) (simp add: vga_set_bitmask_def gc_write_eq)
    ultimately show ?thesis unfolding e using assms 2 c by (simp add: gfx_ok_def picture_def [of _ _ "(x, y)"])
  next
    case 3
    have rd: "vga_mapped (dev g)" "vga_chain4 (dev g)" "vga_ready m (dev g)" using assms 3(2) by (auto simp: gfx_ok_def vga_ready_def mode_defs)
    define off where "off = nat (y * VGA13_WIDTH + x)"
    have e: "gfx_get_pixel x y g = (planes (dev g) (off mod 4) (off - off mod 4), g\<lparr>dev := (dev g)\<lparr>latch := (\<lambda>p. planes (dev g) p (off - off mod 4))\<rparr>\<rparr>)"
      using 3 assms rd(1,2) unfolding gfx_get_pixel_def off_screen_iff [OF assms] vga_read_def by (simp add: gfx_ok_def mode_defs off_def)
    have "vga_ready m ((dev g)\<lparr>latch := f\<rparr>)" for f using rd(3) by (auto simp: vga_ready_def vga_mapped_def vga_chain4_def)
    then show ?thesis unfolding e using assms 3 by (simp add: gfx_ok_def picture_def fun_eq_iff pixel13_def off_def Let_def mode_defs)
  qed
qed

section \<open>Painters\<close>

text \<open>
  An operation on states that satisfy \<open>ok\<close> overrides the picture with a stencil.  \<open>draws\<close> says the same of an operation that might not return.
\<close>

definition paints :: "('s \<Rightarrow> bool) \<Rightarrow> ('s \<Rightarrow> 'p \<rightharpoonup> 'c) \<Rightarrow> ('s \<Rightarrow> 's) \<Rightarrow> ('p \<rightharpoonup> 'c) \<Rightarrow> bool" where
  "paints ok pic f st \<longleftrightarrow> (\<forall>s. ok s \<longrightarrow> ok (f s) \<and> pic (f s) = pic s ++ st)"

definition draws :: "('s \<Rightarrow> bool) \<Rightarrow> ('s \<Rightarrow> 'p \<rightharpoonup> 'c) \<Rightarrow> ('s \<Rightarrow> 's option) \<Rightarrow> ('p \<rightharpoonup> 'c) \<Rightarrow> bool" where
  "draws ok pic f st \<longleftrightarrow> (\<forall>s. ok s \<longrightarrow> (\<exists>s'. f s = Some s' \<and> ok s' \<and> pic s' = pic s ++ st))"

lemma paints_id [intro]: "paints ok pic (\<lambda>s. s) Map.empty"
  by (simp add: paints_def)

lemma paints_comp: "paints ok pic f st \<Longrightarrow> paints ok pic h st' \<Longrightarrow> paints ok pic (\<lambda>s. h (f s)) (st ++ st')"
  by (simp add: paints_def)

lemma paints_cong: "paints ok pic f st \<Longrightarrow> (\<And>s. ok s \<Longrightarrow> h s = f s) \<Longrightarrow> paints ok pic h st"
  by (simp add: paints_def)

lemma paints_for:
  assumes "\<And>k. k < n \<Longrightarrow> paints ok pic (f k) (st k)" "T 0 = Map.empty" "\<And>k. k < n \<Longrightarrow> T (Suc k) = T k ++ st k"
  shows "paints ok pic (for_range 0 n f) (T n)"
  using assms
proof (induction n)
  case 0
  then show ?case by (simp add: paints_def)
next
  case (Suc n)
  have "paints ok pic (for_range 0 n f) (T n)" using Suc.prems by (intro Suc.IH) auto
  from paints_comp [OF this Suc.prems(1) [of n]] Suc.prems(3) [of n] show ?case by (simp add: for_range_Suc)
qed

lemma draws_pure: "paints ok pic f st \<Longrightarrow> draws ok pic (\<lambda>s. Some (f s)) st"
  by (simp add: paints_def draws_def)

lemma draws_bind: "draws ok pic f st \<Longrightarrow> draws ok pic h st' \<Longrightarrow> draws ok pic (\<lambda>s. Option.bind (f s) h) (st ++ st')"
  unfolding draws_def by (fastforce simp: map_add_assoc)

lemma draws_after: "paints ok pic f st \<Longrightarrow> draws ok pic h st' \<Longrightarrow> draws ok pic (\<lambda>s. h (f s)) (st ++ st')"
  unfolding draws_def paints_def by (metis map_add_assoc)

text \<open>A surface on which single positions are set: what a position takes of a colour may depend on the position.\<close>

locale canvas =
  fixes ok :: "'s \<Rightarrow> bool" and pic :: "'s \<Rightarrow> (int \<times> int) \<rightharpoonup> 'c" and put :: "int \<Rightarrow> int \<Rightarrow> 'c \<Rightarrow> 's \<Rightarrow> 's" and dye :: "int \<times> int \<Rightarrow> 'c \<Rightarrow> 'c option"
  assumes put_ok: "ok s \<Longrightarrow> ok (put x y c s)"
    and put_pic: "ok s \<Longrightarrow> pic (put x y c s) = (case dye (x, y) c of None \<Rightarrow> pic s | Some c \<Rightarrow> (pic s)((x, y) \<mapsto> c))"
begin

lemma put_paints: "paints ok pic (put x y c) (\<lambda>p. if p = (x, y) then dye p c else None)"
proof -
  have "pic (put x y c s) = pic s ++ (\<lambda>p. if p = (x, y) then dye p c else None)" if "ok s" for s
    unfolding put_pic [OF that] by (auto simp: map_add_def fun_eq_iff split: option.splits)
  then show ?thesis by (simp add: paints_def put_ok)
qed

lemma row_paints:
  "paints ok pic (for_range 0 n (\<lambda>i. put (x + int i) y (col i)))
     (\<lambda>p. if snd p = y \<and> x \<le> fst p \<and> fst p < x + int n then dye p (col (nat (fst p - x))) else None)"
  by (rule paints_for [where T = "\<lambda>n p. if snd p = y \<and> x \<le> fst p \<and> fst p < x + int n then dye p (col (nat (fst p - x))) else None",
      OF put_paints]) (auto simp: map_add_def fun_eq_iff split: option.splits)

lemma column_paints:
  "paints ok pic (for_range 0 n (\<lambda>i. put x (y + int i) (col i)))
     (\<lambda>p. if fst p = x \<and> y \<le> snd p \<and> snd p < y + int n then dye p (col (nat (snd p - y))) else None)"
  by (rule paints_for [where T = "\<lambda>n p. if fst p = x \<and> y \<le> snd p \<and> snd p < y + int n then dye p (col (nat (snd p - y))) else None",
      OF put_paints]) (auto simp: map_add_def fun_eq_iff split: option.splits)

lemma area_paints:
  "paints ok pic (for_range 0 h (\<lambda>row. for_range 0 w (\<lambda>c. put (x + int c) (y + int row) (col row c))))
     (\<lambda>p. if x \<le> fst p \<and> fst p < x + int w \<and> y \<le> snd p \<and> snd p < y + int h then dye p (col (nat (snd p - y)) (nat (fst p - x))) else None)"
  by (rule paints_for [where T = "\<lambda>h p. if x \<le> fst p \<and> fst p < x + int w \<and> y \<le> snd p \<and> snd p < y + int h
      then dye p (col (nat (snd p - y)) (nat (fst p - x))) else None", OF row_paints]) (auto simp: map_add_def fun_eq_iff split: option.splits)

end

interpretation screen: canvas "gfx_ok m" "picture m" gfx_put_pixel "ink m" for m
  by unfold_locales (simp_all add: put_pixel_ok put_pixel_picture)

lemmas screen_step = paints_comp [of "gfx_ok m" "picture m" for m]

section \<open>Lines and rectangles\<close>

text \<open>The part of a rectangle that is on the screen, in one colour.\<close>

definition box :: "u8 \<Rightarrow> int \<Rightarrow> int \<Rightarrow> int \<Rightarrow> int \<Rightarrow> u8 \<Rightarrow> (int \<times> int) \<rightharpoonup> u8" where
  "box m x y w h c p = (if x \<le> fst p \<and> fst p < x + w \<and> y \<le> snd p \<and> snd p < y + h then ink m p c else None)"

lemma gfx_okD: "gfx_ok m g \<Longrightarrow> g_screen_width g = mode_width m \<and> g_screen_height g = mode_height m \<and> g_current_mode g = m"
  by (simp add: gfx_ok_def)

lemma row_box: "(\<lambda>p. if snd p = y \<and> x \<le> fst p \<and> fst p < x + int (nat w) then ink m p c else None) = box m x y w 1 c"
  by (auto simp: box_def fun_eq_iff)

lemma hline_paints: "paints (gfx_ok m) (picture m) (gfx_draw_hline x y len c) (box m x y len 1 c)"
proof (cases "y < 0 \<or> y \<ge> mode_height m")
  case True
  then have "box m x y len 1 c = Map.empty" by (auto simp: box_def fun_eq_iff ink_def on_screen_def)
  then show ?thesis using True by (auto intro!: paints_cong [OF paints_id] simp: gfx_draw_hline_def dest: gfx_okD)
next
  case False
  with screen.row_paints [of m "nat len" x y "\<lambda>_. c", unfolded row_box] show ?thesis
    by (auto elim!: paints_cong simp: gfx_draw_hline_def dest: gfx_okD)
qed

lemma vline_paints: "paints (gfx_ok m) (picture m) (gfx_draw_vline x y len c) (box m x y 1 len c)"
proof (cases "x < 0 \<or> x \<ge> mode_width m")
  case True
  then have "box m x y 1 len c = Map.empty" by (auto simp: box_def fun_eq_iff ink_def on_screen_def)
  then show ?thesis using True by (auto intro!: paints_cong [OF paints_id] simp: gfx_draw_vline_def dest: gfx_okD)
next
  case False
  have "(\<lambda>p. if fst p = x \<and> y \<le> snd p \<and> snd p < y + int (nat len) then ink m p c else None) = box m x y 1 len c"
    by (auto simp: box_def fun_eq_iff)
  with False screen.column_paints [of m "nat len" x y "\<lambda>_. c"] show ?thesis
    by (auto elim!: paints_cong simp: gfx_draw_vline_def dest: gfx_okD)
qed

definition frame :: "u8 \<Rightarrow> int \<Rightarrow> int \<Rightarrow> int \<Rightarrow> int \<Rightarrow> u8 \<Rightarrow> (int \<times> int) \<rightharpoonup> u8" where
  "frame m x y w h c = ((box m x y w 1 c ++ box m x (y + h - 1) w 1 c) ++ box m x y 1 h c) ++ box m (x + w - 1) y 1 h c"

lemma rect_paints: "paints (gfx_ok m) (picture m) (gfx_draw_rect x y w h c) (frame m x y w h c)"
  unfolding gfx_draw_rect_def [abs_def] frame_def Let_def by (intro paints_comp hline_paints vline_paints)

text \<open>A \<open>memset\<close> along a row sets its pixels one after the other.\<close>

lemma memset_puts:
  assumes "gfx_ok VGA_MODE_13H g" "0 \<le> x" "x + int n \<le> VGA13_WIDTH" "0 \<le> y" "y < VGA13_HEIGHT"
  shows "g\<lparr>dev := fb_memset (nat (y * VGA13_WIDTH + x)) c n (dev g)\<rparr> = for_range 0 n (\<lambda>i. gfx_put_pixel (x + int i) y c) g"
  using assms(3)
proof (induction n)
  case 0
  then show ?case by (simp add: fb_memset_def)
next
  case (Suc n)
  let ?g = "for_range 0 n (\<lambda>i. gfx_put_pixel (x + int i) y c) g"
  have ok: "gfx_ok VGA_MODE_13H ?g" using screen.row_paints [of VGA_MODE_13H n x y "\<lambda>_. c"] assms(1) by (simp add: paints_def)
  have on: "on_screen VGA_MODE_13H (x + int n, y)" using Suc.prems assms(2,4,5) by (simp add: on_screen_def size_defs mode_defs)
  have "gfx_put_pixel (x + int n) y c ?g = ?g\<lparr>dev := vga_write (nat (y * VGA13_WIDTH + (x + int n))) c (dev ?g)\<rparr>"
    using on ok unfolding gfx_put_pixel_def off_screen_iff [OF ok] by (simp add: gfx_ok_def mode_defs)
  also have "nat (y * VGA13_WIDTH + (x + int n)) = nat (y * VGA13_WIDTH + x) + n"
    using assms(2,4) by (simp add: VGA13_WIDTH_def)
  finally have "gfx_put_pixel (x + int n) y c ?g = ?g\<lparr>dev := vga_write (nat (y * VGA13_WIDTH + x) + n) c (dev ?g)\<rparr>" .
  moreover have "dev ?g = fb_memset (nat (y * VGA13_WIDTH + x)) c n (dev g)" "g\<lparr>dev := d\<rparr> = ?g\<lparr>dev := d\<rparr>" for d
    using Suc by (auto simp flip: Suc.IH)
  ultimately show ?case by (simp add: for_range_Suc fb_memset_def)
qed

lemma fill_row13_paints: "paints (gfx_ok VGA_MODE_13H) (picture VGA_MODE_13H) (fill_row13 x y w c row) (box VGA_MODE_13H x (y + int row) w 1 c)"
proof -
  let ?m = VGA_MODE_13H and ?y = "y + int row" and ?x = "if x < 0 then 0 else x"
  let ?l = "if x < 0 then w + x else w"
  let ?n = "if ?x + ?l > VGA13_WIDTH then VGA13_WIDTH - ?x else ?l"
  have sz: "mode_width ?m = 320" "mode_height ?m = 200" by (simp_all add: size_defs mode_defs)
  show ?thesis
  proof (cases "?y < 0 \<or> ?y \<ge> mode_height ?m \<or> ?n \<le> 0")
    case True
    have "box ?m x ?y w 1 c = Map.empty"
      using True by (auto simp: box_def fun_eq_iff ink_def on_screen_def sz VGA13_WIDTH_def split: if_splits)
    then show ?thesis using True by (auto intro!: paints_cong [OF paints_id] simp: fill_row13_def Let_def dest: gfx_okD)
  next
    case False
    have b: "box ?m ?x ?y ?n 1 c = box ?m x ?y w 1 c"
      using False by (auto simp: box_def fun_eq_iff ink_def on_screen_def sz VGA13_WIDTH_def split: if_splits)
    have "fill_row13 x y w c row g = for_range 0 (nat ?n) (\<lambda>i. gfx_put_pixel (?x + int i) ?y c) g" if g: "gfx_ok ?m g" for g
    proof -
      have "fill_row13 x y w c row g = g\<lparr>dev := fb_memset (nat (?y * VGA13_WIDTH + ?x)) c (nat ?n) (dev g)\<rparr>"
        using False gfx_okD [OF g] unfolding fill_row13_def Let_def by (simp del: of_nat_add)
      also have "\<dots> = for_range 0 (nat ?n) (\<lambda>i. gfx_put_pixel (?x + int i) ?y c) g"
        using False by (intro memset_puts g) (auto simp: size_defs mode_defs)
      finally show ?thesis .
    qed
    with screen.row_paints [of ?m "nat ?n" ?x ?y "\<lambda>_. c", unfolded row_box b] show ?thesis by (rule paints_cong)
  qed
qed

lemma rows_box:
  "h \<le> 0 \<longrightarrow> box m x y w h c = Map.empty" "w \<le> 0 \<longrightarrow> box m x y w h c = Map.empty"
  by (auto simp: box_def fun_eq_iff)

lemma fill_rect_paints: "paints (gfx_ok m) (picture m) (gfx_fill_rect x y w h c) (box m x y w h c)"
proof (cases "w \<le> 0 \<or> h \<le> 0")
  case True
  then have "box m x y w h c = Map.empty" using rows_box by blast
  then show ?thesis using True by (auto intro!: paints_cong [OF paints_id] simp: gfx_fill_rect_def)
next
  case False
  show ?thesis
  proof (cases "m = VGA_MODE_13H")
    case True
    have "paints (gfx_ok m) (picture m) (for_range 0 (nat h) (fill_row13 x y w c)) (box m x y w (int (nat h)) c)"
      unfolding True by (rule paints_for [where T = "\<lambda>h. box VGA_MODE_13H x y w (int h) c", OF fill_row13_paints])
        (auto simp: box_def fun_eq_iff map_add_def split: option.splits)
    then show ?thesis using False True by (auto elim!: paints_cong simp: gfx_fill_rect_def gfx_ok_def)
  next
    case m: False
    have "(\<lambda>p. if x \<le> fst p \<and> fst p < x + int (nat w) \<and> y \<le> snd p \<and> snd p < y + int (nat h) then ink m p c else None) = box m x y w h c"
      using False by (auto simp: box_def fun_eq_iff)
    with screen.area_paints [of m "nat h" "nat w" x y "\<lambda>_ _. c"]
    have "paints (gfx_ok m) (picture m)
        (for_range 0 (nat h) (\<lambda>row. for_range 0 (nat w) (\<lambda>col. gfx_put_pixel (x + int col) (y + int row) c))) (box m x y w h c)" by simp
    then show ?thesis using False m by (auto elim!: paints_cong simp: gfx_fill_rect_def gfx_ok_def)
  qed
qed

text \<open>
  The steps of Bresenham's algorithm.  After \<open>a\<close> steps in \<open>x\<close> and \<open>b\<close> in \<open>y\<close> the error term is \<open>(b + 1) dx - (a + 1) dy\<close>: every round makes a
  step, no coordinate passes its end, and the distance to the ideal line stays within half a pixel.
\<close>

lemma past_end: "P + u \<le> Q \<Longrightarrow> 0 \<le> v \<Longrightarrow> \<not> - v < 2 * (P - Q + u - v)" for P Q u v :: int
  by simp

lemma past_end': "P + v \<le> Q \<Longrightarrow> 0 \<le> u \<Longrightarrow> \<not> 2 * (Q - P + u - v) < u" for P Q u v :: int
  by simp

lemma within_half:
  fixes D u v M :: int
  assumes "2 * \<bar>D\<bar> \<le> M" "0 \<le> u" "0 \<le> v" "u \<le> M" "v \<le> M"
  shows "- v < 2 * (D + u - v) \<Longrightarrow> 2 * (D + u - v) < u \<Longrightarrow> 2 * \<bar>D + u - v\<bar> \<le> M"
    "\<not> 2 * (D + u - v) < u \<Longrightarrow> 2 * \<bar>D - v\<bar> \<le> M"
    "\<not> - v < 2 * (D + u - v) \<Longrightarrow> 2 * \<bar>D + u\<bar> \<le> M"
  using assms unfolding abs_if by (auto split: if_splits)

lemma bresenham_step:
  fixes a b dx dy :: int
  assumes "0 \<le> a" "a \<le> dx" "0 \<le> b" "b \<le> dy" "\<not> (a = dx \<and> b = dy)" and err: "err = (b + 1) * dx - (a + 1) * dy"
  shows "2 * err > - dy \<or> 2 * err < dx" "2 * err > - dy \<Longrightarrow> a < dx" "2 * err < dx \<Longrightarrow> b < dy"
proof -
  have e: "err = b * dx - a * dy + dx - dy" unfolding err by (simp add: algebra_simps)
  have d: "0 \<le> dx" "0 \<le> dy" using assms(1-4) by linarith+
  show "2 * err > - dy \<or> 2 * err < dx"
  proof (rule ccontr)
    assume "\<not> ?thesis"
    with d have "dx = 0" "dy = 0" unfolding e by linarith+
    with assms(1-5) show False by auto
  qed
  show "a < dx" if "2 * err > - dy"
  proof (rule ccontr)
    assume "\<not> a < dx"
    with assms(2,4,5) have a: "a = dx" "b + 1 \<le> dy" by auto
    have "(b + 1) * dx \<le> dy * dx" using a(2) d by (intro mult_right_mono)
    then have "b * dx + dx \<le> dx * dy" by (simp add: algebra_simps)
    with that past_end [of "b * dx" dx "dx * dy" dy] d show False unfolding e a(1) by blast
  qed
  show "b < dy" if "2 * err < dx"
  proof (rule ccontr)
    assume "\<not> b < dy"
    with assms(2,4,5) have b: "b = dy" "a + 1 \<le> dx" by auto
    have "(a + 1) * dy \<le> dx * dy" using b(2) d by (intro mult_right_mono)
    then have "a * dy + dy \<le> dy * dx" by (simp add: algebra_simps)
    with that past_end' [of "a * dy" dy "dy * dx" dx] d show False unfolding e b(1) by blast
  qed
qed

definition near_line :: "int \<Rightarrow> int \<Rightarrow> int \<Rightarrow> int \<Rightarrow> bool" where
  "near_line dx dy a b \<longleftrightarrow> 2 * \<bar>b * dx - a * dy\<bar> \<le> max dx dy"

lemma near_line_step:
  fixes a b dx dy :: int
  assumes "0 \<le> dx" "0 \<le> dy" "near_line dx dy a b" and err: "err = (b + 1) * dx - (a + 1) * dy"
  shows "2 * err > - dy \<Longrightarrow> 2 * err < dx \<Longrightarrow> near_line dx dy (a + 1) (b + 1)"
    "2 * err > - dy \<Longrightarrow> \<not> 2 * err < dx \<Longrightarrow> near_line dx dy (a + 1) b"
    "\<not> 2 * err > - dy \<Longrightarrow> 2 * err < dx \<Longrightarrow> near_line dx dy a (b + 1)"
proof -
  have e: "err = b * dx - a * dy + dx - dy" unfolding err by (simp add: algebra_simps)
  have p: "(b + 1) * dx - (a + 1) * dy = b * dx - a * dy + dx - dy" "b * dx - (a + 1) * dy = b * dx - a * dy - dy"
    "(b + 1) * dx - a * dy = b * dx - a * dy + dx" by (simp_all add: algebra_simps)
  note h = within_half [OF assms(3) [unfolded near_line_def] assms(1,2) max.cobounded1 max.cobounded2]
  show "near_line dx dy (a + 1) (b + 1)" if "2 * err > - dy" "2 * err < dx"
    unfolding near_line_def p using h(1) that unfolding e by blast
  show "near_line dx dy (a + 1) b" if "2 * err > - dy" "\<not> 2 * err < dx"
    unfolding near_line_def p using h(2) that unfolding e by blast
  show "near_line dx dy a (b + 1)" if "\<not> 2 * err > - dy" "2 * err < dx"
    unfolding near_line_def p using h(3) that unfolding e by blast
qed

text \<open>A drawing in one colour of the positions in a set.\<close>

definition dots :: "u8 \<Rightarrow> (int \<times> int) set \<Rightarrow> u8 \<Rightarrow> (int \<times> int) \<rightharpoonup> u8" where
  "dots m S c p = (if p \<in> S then ink m p c else None)"

lemma dots_add: "dots m S c ++ dots m T c = dots m (S \<union> T) c"
  by (auto simp: dots_def map_add_def fun_eq_iff split: option.splits)

lemma put_dots: "paints (gfx_ok m) (picture m) (gfx_put_pixel x y c) (dots m {(x, y)} c)"
  using screen.put_paints [of m x y c] by (simp add: dots_def [abs_def])

lemma line_loop_draws:
  assumes s: "sx = 1 \<or> sx = - 1" "sy = 1 \<or> sy = - 1" and "0 \<le> a" "a \<le> dx" "0 \<le> b" "b \<le> dy" "near_line dx dy a b"
  shows "\<exists>S. draws (gfx_ok m) (picture m)
      (line_loop (X + sx * dx) (Y + sy * dy) dx dy sx sy c (X + sx * a) (Y + sy * b) ((b + 1) * dx - (a + 1) * dy)) (dots m S c) \<and>
    (X + sx * a, Y + sy * b) \<in> S \<and> (X + sx * dx, Y + sy * dy) \<in> S \<and>
    (\<forall>p \<in> S. \<exists>a' b'. p = (X + sx * a', Y + sy * b') \<and> a \<le> a' \<and> a' \<le> dx \<and> b \<le> b' \<and> b' \<le> dy \<and> near_line dx dy a' b')"
  using assms(3-7)
proof (induction "nat (dx - a + (dy - b))" arbitrary: a b rule: less_induct)
  case less
  let ?err = "(b + 1) * dx - (a + 1) * dy"
  let ?L = "line_loop (X + sx * dx) (Y + sy * dy) dx dy sx sy c"
  let ?p = "(X + sx * a, Y + sy * b)"
  show ?case
  proof (cases "a = dx \<and> b = dy")
    case True
    then have "?L (X + sx * a) (Y + sy * b) ?err = (\<lambda>g. Some (gfx_put_pixel (X + sx * a) (Y + sy * b) c g))"
      by (intro ext) (subst line_loop.simps, simp)
    with draws_pure [OF put_dots [of m "X + sx * a" "Y + sy * b" c]] True less.prems show ?thesis
      by (intro exI [of _ "{?p}"]) auto
  next
    case False
    note st = bresenham_step [OF less.prems(1-4) False refl]
    let ?a = "if 2 * ?err > - dy then a + 1 else a" and ?b = "if 2 * ?err < dx then b + 1 else b"
    have d: "0 \<le> dx" "0 \<le> dy" using less.prems(1-4) by linarith+
    have ne: "\<not> (X + sx * a = X + sx * dx \<and> Y + sy * b = Y + sy * dy)" using False s by auto
    have step: "?L (X + sx * a) (Y + sy * b) ?err =
      (\<lambda>g. ?L (X + sx * ?a) (Y + sy * ?b) ((?b + 1) * dx - (?a + 1) * dy) (gfx_put_pixel (X + sx * a) (Y + sy * b) c g))"
    proof
      fix g
      define err xa ya where "err = ?err" and "xa = X + sx * a" and "ya = Y + sy * b"
      define xb yb where "xb = X + sx * (a + 1)" and "yb = Y + sy * (b + 1)"
      have x: "xa + sx = xb" "ya + sy = yb" by (simp_all add: xa_def ya_def xb_def yb_def algebra_simps)
      have e: "(b + 1) * dx - (a + 1 + 1) * dy = err - dy" "(b + 1 + 1) * dx - (a + 1) * dy = err + dx"
        "(b + 1 + 1) * dx - (a + 1 + 1) * dy = err - dy + dx" by (simp_all add: err_def algebra_simps)
      have "?L xa ya err g = ?L (if 2 * err > - dy then xb else xa) (if 2 * err < dx then yb else ya)
          (if 2 * err < dx then (if 2 * err > - dy then err - dy + dx else err + dx) else if 2 * err > - dy then err - dy else err) (gfx_put_pixel xa ya c g)"
        using ne unfolding xa_def [symmetric] ya_def [symmetric] by (subst line_loop.simps) (auto simp: Let_def x)
      then show "?L (X + sx * a) (Y + sy * b) ?err g =
        ?L (X + sx * ?a) (Y + sy * ?b) ((?b + 1) * dx - (?a + 1) * dy) (gfx_put_pixel (X + sx * a) (Y + sy * b) c g)"
        unfolding xa_def ya_def xb_def yb_def using e unfolding err_def by (simp only: if_distrib [of "\<lambda>z. z + 1"] split: if_split) blast
    qed
    have nl: "near_line dx dy ?a ?b" using near_line_step [OF d less.prems(5) refl] st(1) less.prems(5) by auto
    have b: "0 \<le> ?a" "?a \<le> dx" "0 \<le> ?b" "?b \<le> dy" "nat (dx - ?a + (dy - ?b)) < nat (dx - a + (dy - b))"
      using st less.prems(1-4) by (auto split: if_splits)
    from less.hyps [OF b(5) b(1-4) nl] obtain S where
      S: "draws (gfx_ok m) (picture m) (?L (X + sx * ?a) (Y + sy * ?b) ((?b + 1) * dx - (?a + 1) * dy)) (dots m S c)"
        "(X + sx * dx, Y + sy * dy) \<in> S"
        "\<forall>p \<in> S. \<exists>a' b'. p = (X + sx * a', Y + sy * b') \<and> ?a \<le> a' \<and> a' \<le> dx \<and> ?b \<le> b' \<and> b' \<le> dy \<and> near_line dx dy a' b'" by blast
    have "draws (gfx_ok m) (picture m) (?L (X + sx * a) (Y + sy * b) ?err) (dots m (insert ?p S) c)"
    proof -
      have "dots m (insert ?p S) c = dots m {?p} c ++ dots m S c" by (simp add: dots_add)
      with draws_after [OF put_dots S(1)] show ?thesis unfolding step by metis
    qed
    moreover have "\<forall>p \<in> insert ?p S. \<exists>a' b'. p = (X + sx * a', Y + sy * b') \<and> a \<le> a' \<and> a' \<le> dx \<and> b \<le> b' \<and> b' \<le> dy \<and> near_line dx dy a' b'"
    proof
      fix p assume "p \<in> insert ?p S"
      then consider "p = ?p" | "p \<in> S" by blast
      then show "\<exists>a' b'. p = (X + sx * a', Y + sy * b') \<and> a \<le> a' \<and> a' \<le> dx \<and> b \<le> b' \<and> b' \<le> dy \<and> near_line dx dy a' b'"
      proof cases
        case 1
        then show ?thesis using less.prems by blast
      next
        case 2
        with S(3) obtain a' b' where q: "p = (X + sx * a', Y + sy * b')" "?a \<le> a'" "a' \<le> dx" "?b \<le> b'" "b' \<le> dy" "near_line dx dy a' b'" by blast
        then have "a \<le> a'" "b \<le> b'" by (auto split: if_splits)
        with q show ?thesis by blast
      qed
    qed
    ultimately show ?thesis using S(2) by blast
  qed
qed

definition line_points :: "int \<Rightarrow> int \<Rightarrow> int \<Rightarrow> int \<Rightarrow> (int \<times> int) set \<Rightarrow> bool" where
  "line_points x1 y1 x2 y2 S \<longleftrightarrow> (x1, y1) \<in> S \<and> (x2, y2) \<in> S \<and>
     (\<forall>(x, y) \<in> S. min x1 x2 \<le> x \<and> x \<le> max x1 x2 \<and> min y1 y2 \<le> y \<and> y \<le> max y1 y2 \<and>
        2 * \<bar>(y - y1) * (x2 - x1) - (x - x1) * (y2 - y1)\<bar> \<le> max \<bar>x2 - x1\<bar> \<bar>y2 - y1\<bar>)"

lemma line_draws: "\<exists>S. line_points x1 y1 x2 y2 S \<and> draws (gfx_ok m) (picture m) (gfx_draw_line x1 y1 x2 y2 c) (dots m S c)"
proof -
  let ?dx = "\<bar>x2 - x1\<bar>" and ?dy = "\<bar>y2 - y1\<bar>"
  define sx sy where "sx = (if x1 < x2 then 1 else - 1 :: int)" and "sy = (if y1 < y2 then 1 else - 1 :: int)"
  have s: "sx = 1 \<or> sx = - 1" "sy = 1 \<or> sy = - 1" by (simp_all add: sx_def sy_def)
  have e: "x1 + sx * ?dx = x2" "y1 + sy * ?dy = y2" "\<bar>sx\<bar> = 1" "\<bar>sy\<bar> = 1" by (auto simp: sx_def sy_def)
  have "near_line ?dx ?dy 0 0" by (simp add: near_line_def)
  from line_loop_draws [of sx sy 0 ?dx 0 ?dy m x1 y1 c, OF s _ _ _ _ this]
  obtain S where S: "draws (gfx_ok m) (picture m) (line_loop x2 y2 ?dx ?dy sx sy c x1 y1 (?dx - ?dy)) (dots m S c)"
      "(x1, y1) \<in> S" "(x2, y2) \<in> S"
      "\<forall>p \<in> S. \<exists>a b. p = (x1 + sx * a, y1 + sy * b) \<and> 0 \<le> a \<and> a \<le> ?dx \<and> 0 \<le> b \<and> b \<le> ?dy \<and> near_line ?dx ?dy a b"
    unfolding e by auto
  have "min x1 x2 \<le> x \<and> x \<le> max x1 x2 \<and> min y1 y2 \<le> y \<and> y \<le> max y1 y2 \<and>
        2 * \<bar>(y - y1) * (x2 - x1) - (x - x1) * (y2 - y1)\<bar> \<le> max ?dx ?dy" if "(x, y) \<in> S" for x y
  proof -
    from S(4) that obtain a b where p: "x = x1 + sx * a" "y = y1 + sy * b" "0 \<le> a" "a \<le> ?dx" "0 \<le> b" "b \<le> ?dy" and n: "near_line ?dx ?dy a b" by blast
    have "(y - y1) * (x2 - x1) - (x - x1) * (y2 - y1) = (sx * sy) * (b * ?dx - a * ?dy)"
      unfolding p(1,2) by (auto simp: abs_if algebra_simps sx_def sy_def)
    then have "\<bar>(y - y1) * (x2 - x1) - (x - x1) * (y2 - y1)\<bar> = \<bar>b * ?dx - a * ?dy\<bar>" by (simp add: abs_mult e(3,4))
    with n have "2 * \<bar>(y - y1) * (x2 - x1) - (x - x1) * (y2 - y1)\<bar> \<le> max ?dx ?dy" unfolding near_line_def by (simp only:)
    moreover have "min x1 x2 \<le> x \<and> x \<le> max x1 x2" "min y1 y2 \<le> y \<and> y \<le> max y1 y2" using p by (auto simp: sx_def sy_def split: if_splits)
    ultimately show ?thesis by blast
  qed
  with S(2,3) have "line_points x1 y1 x2 y2 S" unfolding line_points_def by blast
  moreover have "gfx_draw_line x1 y1 x2 y2 c = line_loop x2 y2 ?dx ?dy sx sy c x1 y1 (?dx - ?dy)"
  proof -
    have "(if x2 > x1 then x2 - x1 else x1 - x2) = ?dx" "(if y2 > y1 then y2 - y1 else y1 - y2) = ?dy" by auto
    then show ?thesis unfolding gfx_draw_line_def [abs_def] Let_def sx_def sy_def by (intro ext) (simp only:)
  qed
  ultimately show ?thesis using S(1) by metis
qed

section \<open>Circles\<close>

text \<open>Both circle routines keep to the square around the circle.\<close>

definition within :: "int \<Rightarrow> int \<Rightarrow> int \<Rightarrow> int \<Rightarrow> ((int \<times> int) \<rightharpoonup> u8) \<Rightarrow> bool" where
  "within x y w h st \<longleftrightarrow> (\<forall>p \<in> dom st. x \<le> fst p \<and> fst p < x + w \<and> y \<le> snd p \<and> snd p < y + h)"

lemma within_empty [simp]: "within x y w h Map.empty"
  by (simp add: within_def)

lemma within_add: "within x y w h st \<Longrightarrow> within x y w h st' \<Longrightarrow> within x y w h (st ++ st')"
  unfolding within_def by auto

lemma within_box: "x \<le> x' \<Longrightarrow> x' + w' \<le> x + w \<Longrightarrow> y \<le> y' \<Longrightarrow> y' + h' \<le> y + h \<Longrightarrow> within x y w h (box m x' y' w' h' c)"
  unfolding within_def box_def by (auto split: if_splits)

lemma within_dot: "x \<le> a \<Longrightarrow> a < x + w \<Longrightarrow> y \<le> b \<Longrightarrow> b < y + h \<Longrightarrow> within x y w h (dots m {(a, b)} c)"
  unfolding within_def dots_def by (auto split: if_splits)

lemma within_sub: "within x' y' w' h' st \<Longrightarrow> x \<le> x' \<Longrightarrow> x' + w' \<le> x + w \<Longrightarrow> y \<le> y' \<Longrightarrow> y' + h' \<le> y + h \<Longrightarrow> within x y w h st"
  unfolding within_def by (intro ballI, drule (1) bspec, elim conjE, intro conjI; linarith)

lemma circle_loop_paints:
  assumes "\<And>x y. 0 \<le> x \<Longrightarrow> x \<le> y \<Longrightarrow> y \<le> r \<Longrightarrow> \<exists>st. paints ok pic (plot x y) st \<and> within a b w h st"
  shows "0 \<le> x \<Longrightarrow> y \<le> r \<Longrightarrow> \<exists>st. paints ok pic (circle_loop plot x y d) st \<and> within a b w h st"
proof (induction "nat (y - x + 1)" arbitrary: x y d rule: less_induct)
  case less
  show ?case
  proof (cases "x \<le> y")
    case False
    then have "circle_loop plot x y d = (\<lambda>s. s)" by (intro ext) (simp del: circle_loop.simps add: circle_loop.simps [of plot x y d])
    then show ?thesis using paints_id [of ok pic] within_empty by metis
  next
    case True
    let ?y = "if d < 0 then y else y - 1" and ?d = "if d < 0 then d + (2 * x + 3) else d + (2 * (x - y) + 5)"
    from assms [OF less.prems(1) True less.prems(2)] obtain st where st: "paints ok pic (plot x y) st" "within a b w h st" by blast
    have "\<exists>st. paints ok pic (circle_loop plot (x + 1) ?y ?d) st \<and> within a b w h st"
      using True less.prems by (intro less.hyps) auto
    then obtain st' where st': "paints ok pic (circle_loop plot (x + 1) ?y ?d) st'" "within a b w h st'" by blast
    have "circle_loop plot x y d = (\<lambda>s. circle_loop plot (x + 1) ?y ?d (plot x y s))"
      using True by (intro ext) (simp del: circle_loop.simps add: circle_loop.simps [of plot x y d])
    with paints_comp [OF st(1) st'(1)] within_add [OF st(2) st'(2)] show ?thesis by metis
  qed
qed

lemma circle_points_paints:
  assumes "0 \<le> x" "x \<le> y" "y \<le> r"
  shows "\<exists>st. paints (gfx_ok m) (picture m) (circle_points cx cy c x y) st \<and> within (cx - r) (cy - r) (2 * r + 1) (2 * r + 1) st"
proof -
  have "\<exists>st. paints (gfx_ok m) (picture m) (fold (\<lambda>(a, b). gfx_put_pixel a b c) ps) st \<and> within (cx - r) (cy - r) (2 * r + 1) (2 * r + 1) st"
    if "\<forall>(a, b) \<in> set ps. \<bar>a - cx\<bar> \<le> r \<and> \<bar>b - cy\<bar> \<le> r" for ps
    using that
  proof (induction ps)
    case Nil
    then show ?case by (intro exI [of _ Map.empty]) (simp add: paints_def)
  next
    case (Cons q ps)
    obtain a b where q: "q = (a, b)" by fastforce
    from Cons obtain st where st: "paints (gfx_ok m) (picture m) (fold (\<lambda>(a, b). gfx_put_pixel a b c) ps) st" "within (cx - r) (cy - r) (2 * r + 1) (2 * r + 1) st" by auto
    have "\<bar>a - cx\<bar> \<le> r" "\<bar>b - cy\<bar> \<le> r" using Cons.prems q by auto
    then have "within (cx - r) (cy - r) (2 * r + 1) (2 * r + 1) (dots m {(a, b)} c)" by (intro within_dot) auto
    with paints_comp [OF put_dots [of m a b c] st(1)] within_add [OF _ st(2)] show ?case
      by (intro exI [of _ "dots m {(a, b)} c ++ st"]) (simp add: q comp_def)
  qed
  moreover have "\<forall>(a, b) \<in> set [(cx + x, cy + y), (cx - x, cy + y), (cx + x, cy - y), (cx - x, cy - y),
        (cx + y, cy + x), (cx - y, cy + x), (cx + y, cy - x), (cx - y, cy - x)]. \<bar>a - cx\<bar> \<le> r \<and> \<bar>b - cy\<bar> \<le> r"
    using assms by auto
  ultimately show ?thesis unfolding circle_points_def [abs_def] by blast
qed

lemma circle_spans_paints:
  assumes "0 \<le> x" "x \<le> y" "y \<le> r"
  shows "\<exists>st. paints (gfx_ok m) (picture m) (circle_spans cx cy c x y) st \<and> within (cx - r) (cy - r) (2 * r + 1) (2 * r + 1) st"
proof -
  let ?st = "((box m (cx - x) (cy + y) (2 * x + 1) 1 c ++ box m (cx - x) (cy - y) (2 * x + 1) 1 c) ++ box m (cx - y) (cy + x) (2 * y + 1) 1 c) ++
    box m (cx - y) (cy - x) (2 * y + 1) 1 c"
  have "paints (gfx_ok m) (picture m) (circle_spans cx cy c x y) ?st"
    unfolding circle_spans_def [abs_def] Let_def by (intro paints_comp hline_paints)
  moreover have "within (cx - r) (cy - r) (2 * r + 1) (2 * r + 1) ?st" using assms by (intro within_add within_box) auto
  ultimately show ?thesis by blast
qed

lemma circles_confined:
  "\<exists>st. paints (gfx_ok m) (picture m) (gfx_draw_circle cx cy r c) st \<and> within (cx - r) (cy - r) (2 * r + 1) (2 * r + 1) st"
  "\<exists>st. paints (gfx_ok m) (picture m) (gfx_fill_circle cx cy r c) st \<and> within (cx - r) (cy - r) (2 * r + 1) (2 * r + 1) st"
  unfolding gfx_draw_circle_def [abs_def] gfx_fill_circle_def [abs_def]
  by (rule circle_loop_paints [where r = r], auto intro: circle_points_paints circle_spans_paints)+

section \<open>Text and bitmaps\<close>

definition glyph_map :: "u8 \<Rightarrow> int \<Rightarrow> int \<Rightarrow> u8 \<Rightarrow> u8 \<Rightarrow> u8 \<Rightarrow> (int \<times> int) \<rightharpoonup> u8" where
  "glyph_map m x y c fg bg p =
     (if x \<le> fst p \<and> fst p < x + FONT_WIDTH \<and> y \<le> snd p \<and> snd p < y + FONT_HEIGHT
      then ink m p (if glyph_bit c (nat (snd p - y)) (nat (fst p - x)) then fg else bg) else None)"

lemma char_paints: "paints (gfx_ok m) (picture m) (gfx_draw_char x y c fg bg) (glyph_map m x y c fg bg)"
proof -
  have "glyph_map m x y c fg bg = (\<lambda>p. if x \<le> fst p \<and> fst p < x + int (nat FONT_WIDTH) \<and> y \<le> snd p \<and> snd p < y + int (nat FONT_HEIGHT)
      then ink m p (if glyph_bit c (nat (snd p - y)) (nat (fst p - x)) then fg else bg) else None)"
    by (simp add: glyph_map_def [abs_def] FONT_WIDTH_def FONT_HEIGHT_def)
  then show ?thesis unfolding gfx_draw_char_def [abs_def]
    using screen.area_paints [of m "nat FONT_HEIGHT" "nat FONT_WIDTH" x y "\<lambda>row col. if glyph_bit c row col then fg else bg"] by (simp only:)
qed

lemma within_glyph: "within x y FONT_WIDTH FONT_HEIGHT (glyph_map m x y c fg bg)"
  unfolding within_def glyph_map_def by (auto split: if_splits)

text \<open>A string without line breaks stays in its line, a string of \<open>n\<close> characters in \<open>8 n\<close> columns.\<close>

lemma draw_string_from_paints:
  "0x0A \<notin> set str \<Longrightarrow> \<exists>st. paints (gfx_ok m) (picture m) (draw_string_from x cx y str fg bg) st \<and>
     within cx y (FONT_WIDTH * int (length str)) FONT_HEIGHT st"
proof (induction str arbitrary: cx)
  case Nil
  have "draw_string_from x cx y [] fg bg = (\<lambda>g. g)" by (rule ext) simp
  then show ?case by (intro exI [of _ Map.empty]) (simp add: paints_def)
next
  case (Cons c str)
  then have "c \<noteq> 0x0A" by auto
  then have e: "draw_string_from x cx y (c # str) fg bg = (\<lambda>g. draw_string_from x (cx + FONT_WIDTH) y str fg bg (gfx_draw_char cx y c fg bg g))"
    by (intro ext) simp
  from Cons obtain st where st: "paints (gfx_ok m) (picture m) (draw_string_from x (cx + FONT_WIDTH) y str fg bg) st"
    "within (cx + FONT_WIDTH) y (FONT_WIDTH * int (length str)) FONT_HEIGHT st" by auto
  have "within cx y (FONT_WIDTH * int (length (c # str))) FONT_HEIGHT (glyph_map m cx y c fg bg ++ st)"
    by (intro within_add within_sub [OF within_glyph] within_sub [OF st(2)]) (simp_all add: FONT_WIDTH_def)
  with paints_comp [OF char_paints st(1)] show ?case unfolding e by blast
qed

lemma string_paints:
  "0x0A \<notin> set str \<Longrightarrow> \<exists>st. paints (gfx_ok m) (picture m) (gfx_draw_string x y str fg bg) st \<and>
     within x y (FONT_WIDTH * int (length str)) FONT_HEIGHT st"
  unfolding gfx_draw_string_def [abs_def] by (rule draw_string_from_paints)

text \<open>Any string, transparent or not, is a painter.\<close>

lemma string_paints_any: "\<exists>st. paints (gfx_ok m) (picture m) (gfx_draw_string x y str fg bg) st"
proof -
  have "\<exists>st. paints (gfx_ok m) (picture m) (draw_string_from x cx y str fg bg) st" for cx
  proof (induction str arbitrary: cx y)
    case Nil
    have "draw_string_from x cx y [] fg bg = (\<lambda>g. g)" by (rule ext) simp
    then show ?case using paints_id [of "gfx_ok m" "picture m"] by metis
  next
    case (Cons c str)
    show ?case
    proof (cases "c = 0x0A")
      case True
      then have "draw_string_from x cx y (c # str) fg bg = draw_string_from x x (y + FONT_HEIGHT) str fg bg" by (intro ext) simp
      with Cons.IH show ?thesis by metis
    next
      case False
      then have "draw_string_from x cx y (c # str) fg bg = (\<lambda>g. draw_string_from x (cx + FONT_WIDTH) y str fg bg (gfx_draw_char cx y c fg bg g))"
        by (intro ext) simp
      with Cons.IH paints_comp [OF char_paints] show ?thesis by metis
    qed
  qed
  then show ?thesis unfolding gfx_draw_string_def [abs_def] by blast
qed

lemma char_transparent_paints: "\<exists>st. paints (gfx_ok m) (picture m) (draw_char_transparent x y c fg) st"
proof -
  have dot: "\<exists>st. paints (gfx_ok m) (picture m) (\<lambda>g. if b then gfx_put_pixel u v fg g else g) st" for b u v
    using put_dots [of m u v fg] paints_id [of "gfx_ok m" "picture m"] by (cases b) auto
  have loop: "\<exists>st. paints (gfx_ok m) (picture m) (for_range 0 n f) st" if "\<And>k. \<exists>st. paints (gfx_ok m) (picture m) (f k) st" for f n
  proof (induction n)
    case 0
    then show ?case by (intro exI [of _ Map.empty]) (simp add: paints_def)
  next
    case (Suc n)
    then show ?case using that [of n] paints_comp [of "gfx_ok m" "picture m" "for_range 0 n f" _ "f n"] by (auto simp: for_range_Suc)
  qed
  show ?thesis unfolding draw_char_transparent_def [abs_def] by (intro loop dot)
qed

lemma string_transparent_paints: "\<exists>st. paints (gfx_ok m) (picture m) (gfx_draw_string_transparent x y str fg) st"
proof -
  have "\<exists>st. paints (gfx_ok m) (picture m) (draw_transparent_from x cx y str fg) st" for cx
  proof (induction str arbitrary: cx y)
    case Nil
    have "draw_transparent_from x cx y [] fg = (\<lambda>g. g)" by (rule ext) simp
    then show ?case using paints_id [of "gfx_ok m" "picture m"] by metis
  next
    case (Cons c str)
    show ?case
    proof (cases "c = 0x0A")
      case True
      then have "draw_transparent_from x cx y (c # str) fg = draw_transparent_from x x (y + FONT_HEIGHT) str fg" by (intro ext) simp
      with Cons.IH show ?thesis by metis
    next
      case False
      obtain st where "paints (gfx_ok m) (picture m) (draw_char_transparent cx y c fg) st" using char_transparent_paints by blast
      moreover from False have "draw_transparent_from x cx y (c # str) fg = (\<lambda>g. draw_transparent_from x (cx + FONT_WIDTH) y str fg (draw_char_transparent cx y c fg g))"
        by (intro ext) simp
      ultimately show ?thesis using Cons.IH paints_comp by metis
    qed
  qed
  then show ?thesis unfolding gfx_draw_string_transparent_def [abs_def] by blast
qed

text \<open>A bitmap of even width shows the nibbles of its data in order; with an odd width every second row starts with the wrong half of a byte.\<close>

definition nibble :: "u8 list \<Rightarrow> nat \<Rightarrow> u8" where
  "nibble data i = (if odd i then data ! (i div 2) AND 0x0F else drop_bit 4 (data ! (i div 2)) AND 0x0F)"

lemma bitmap_color_even:
  assumes "even w" shows "bitmap_color (int w) data row col = nibble data (row * w + col)"
proof -
  have "nat ((int row * int w + int col) div 2) = (row * w + col) div 2" by (simp flip: of_nat_mult of_nat_add add: nat_div_distrib)
  moreover have "odd (row * w + col) \<longleftrightarrow> odd col" using assms by simp
  ultimately show ?thesis by (simp add: bitmap_color_def nibble_def Let_def)
qed

lemma bitmap_color_odd: "\<not> (\<forall>data row col. bitmap_color 1 data row col = nibble data (row * 1 + col))"
proof
  assume "\<forall>data row col. bitmap_color 1 data row col = nibble data (row * 1 + col)"
  then have "bitmap_color 1 [0x12] 1 0 = nibble [0x12] 1" by (metis mult.right_neutral add.right_neutral)
  then show False by (simp add: bitmap_color_def nibble_def Let_def)
qed

lemma bitmap_paints:
  "paints (gfx_ok m) (picture m) (gfx_draw_bitmap x y (Some b))
     (case bmp_data b of None \<Rightarrow> Map.empty
      | Some data \<Rightarrow> (\<lambda>p. if x \<le> fst p \<and> fst p < x + int (nat (bmp_width b)) \<and> y \<le> snd p \<and> snd p < y + int (nat (bmp_height b))
          then ink m p (bitmap_color (bmp_width b) data (nat (snd p - y)) (nat (fst p - x))) else None))"
proof (cases "bmp_data b")
  case None
  then show ?thesis by (auto intro!: paints_cong [OF paints_id] simp: gfx_draw_bitmap_def)
next
  case (Some data)
  then show ?thesis
    using screen.area_paints [of m "nat (bmp_height b)" "nat (bmp_width b)" x y "bitmap_color (bmp_width b) data"]
    by (simp add: gfx_draw_bitmap_def [abs_def])
qed

section \<open>Scrolling\<close>

definition scrolled :: "u8 \<Rightarrow> int \<Rightarrow> u8 \<Rightarrow> ((int \<times> int) \<rightharpoonup> u8) \<Rightarrow> (int \<times> int) \<rightharpoonup> u8" where
  "scrolled m n c pic p =
     (if \<not> on_screen m p then None else if snd p < mode_height m - n then pic (fst p, snd p + n) else Some (quant m c))"

text \<open>Copying a pixel from row \<open>y + n\<close> to row \<open>y\<close>, in either mode.\<close>

definition pic_moved :: "u8 \<Rightarrow> int \<Rightarrow> int \<Rightarrow> int \<Rightarrow> ((int \<times> int) \<rightharpoonup> u8) \<Rightarrow> (int \<times> int) \<rightharpoonup> u8" where
  "pic_moved m n x y pic p =
     (if \<not> on_screen m p then None else if snd p < y \<or> snd p = y \<and> fst p < x then pic (fst p, snd p + n) else pic p)"

lemma quant_picture: "picture m g p = Some c \<Longrightarrow> quant m c = c"
proof -
  assume p: "picture m g p = Some c"
  have "c AND 0x0F = c" if "m = VGA_MODE_12H"
  proof (rule bit_eqI)
    fix i
    have "c = pixel12 (planes (dev g)) (fst p) (snd p)" using p that by (auto simp: picture_def split: if_splits)
    then show "bit (c AND 0x0F) i = bit c i" unfolding bit_and_iff bit_15 using bit_pixel12 by blast
  qed
  then show ?thesis by (simp add: quant_def)
qed

lemma move_pixel:
  assumes "gfx_ok m g" "picture m g = pic_moved m n x y pic" "dom pic = {p. on_screen m p}" "0 \<le> x" "x < mode_width m" "0 \<le> y" "0 < n" "y + n < mode_height m"
    and h: "gfx_ok m h" "picture m h = (picture m g)((x, y) := picture m g (x, y + n))"
  shows "picture m h = pic_moved m n (x + 1) y pic"
proof (rule ext)
  fix p :: "int \<times> int"
  obtain u v where p: "p = (u, v)" by fastforce
  have "on_screen m (x, y)" "on_screen m (x, y + n)" using assms(4-8) by (auto simp: on_screen_def)
  then have "picture m g (x, y + n) = pic (x, y + n)" using assms(2,7) by (simp add: pic_moved_def)
  then show "picture m h p = pic_moved m n (x + 1) y pic p"
    unfolding h(2) p assms(2) using \<open>on_screen m (x, y)\<close> by (auto simp: pic_moved_def)
qed

lemma next_row: "y + n \<le> mode_height m \<Longrightarrow> pic_moved m n (mode_width m) y pic = pic_moved m n 0 (y + 1) pic"
  by (rule ext) (auto simp: pic_moved_def on_screen_def)

lemma copy_row12_moves:
  assumes "gfx_ok m g" "picture m g = pic_moved m n 0 (int y) pic" "dom pic = {p. on_screen m p}" "0 < n" "int y + n < mode_height m"
  shows "gfx_ok m (copy_row12 n y g) \<and> picture m (copy_row12 n y g) = pic_moved m n 0 (int y + 1) pic"
proof -
  let ?f = "\<lambda>x g. case gfx_get_pixel (int x) (int y + n) g of (c, g) \<Rightarrow> gfx_put_pixel (int x) (int y) c g"
  have w: "0 \<le> mode_width m" by (simp add: size_defs)
  have "gfx_ok m (for_range 0 k ?f g) \<and> picture m (for_range 0 k ?f g) = pic_moved m n (int k) (int y) pic" if "int k \<le> mode_width m" for k
    using that
  proof (induction k)
    case 0
    then show ?case using assms(1,2) by simp
  next
    case (Suc k)
    let ?g = "for_range 0 k ?f g"
    from Suc have ih: "gfx_ok m ?g" "picture m ?g = pic_moved m n (int k) (int y) pic" and k: "int k < mode_width m" by auto
    have on: "on_screen m (int k, int y)" "on_screen m (int k, int y + n)" using k assms(4,5) by (auto simp: on_screen_def)
    obtain c where c: "picture m ?g (int k, int y + n) = Some c" using on(2) by (auto simp: picture_def)
    obtain v g' where r: "gfx_get_pixel (int k) (int y + n) ?g = (v, g')" by fastforce
    with get_pixel [OF ih(1), of "int k" "int y + n"] c have g': "gfx_ok m g'" "picture m g' = picture m ?g" "v = c" by auto
    have "picture m (gfx_put_pixel (int k) (int y) c g') = (picture m ?g)((int k, int y) := picture m ?g (int k, int y + n))"
      unfolding put_pixel_picture [OF g'(1)] using on(1) c quant_picture [OF c] g'(2) by (simp add: ink_def)
    from move_pixel [OF ih assms(3) _ k _ assms(4,5) put_pixel_ok [OF g'(1)] this]
    have "picture m (gfx_put_pixel (int k) (int y) c g') = pic_moved m n (int (Suc k)) (int y) pic" by (simp add: add.commute)
    then show ?case using r g' put_pixel_ok [OF g'(1)] by (simp add: for_range_Suc)
  qed
  from this [of "nat (mode_width m)"] w next_row [of "int y" n m pic] assms(5) gfx_okD [OF assms(1)]
  show ?thesis by (simp add: copy_row12_def)
qed

text \<open>In mode 13h a \<open>memcpy\<close> of a row does the same.\<close>

lemma copy_row13_moves:
  assumes "gfx_ok VGA_MODE_13H g" "picture VGA_MODE_13H g = pic_moved VGA_MODE_13H n 0 (int y) pic" "dom pic = {p. on_screen VGA_MODE_13H p}"
    "0 < n" "int y + n < mode_height VGA_MODE_13H"
  shows "gfx_ok VGA_MODE_13H (g\<lparr>dev := fb_memcpy (y * nat VGA13_WIDTH) ((y + nat n) * nat VGA13_WIDTH) (nat VGA13_WIDTH) (dev g)\<rparr>) \<and>
    picture VGA_MODE_13H (g\<lparr>dev := fb_memcpy (y * nat VGA13_WIDTH) ((y + nat n) * nat VGA13_WIDTH) (nat VGA13_WIDTH) (dev g)\<rparr>) =
      pic_moved VGA_MODE_13H n 0 (int y + 1) pic"
proof -
  let ?m = VGA_MODE_13H and ?g = "\<lambda>k. g\<lparr>dev := fb_memcpy (y * 320) ((y + nat n) * 320) k (dev g)\<rparr>"
  have sz: "mode_width ?m = 320" "mode_height ?m = 200" "VGA13_WIDTH = 320" by (simp_all add: size_defs mode_defs)
  have "gfx_ok ?m (?g k) \<and> picture ?m (?g k) = pic_moved ?m n (int k) (int y) pic" if "k \<le> 320" for k
    using that
  proof (induction k)
    case 0
    have "?g 0 = g" by (simp add: fb_memcpy_def)
    then show ?case using assms(1,2) by simp
  next
    case (Suc k)
    from Suc have ih: "gfx_ok ?m (?g k)" "picture ?m (?g k) = pic_moved ?m n (int k) (int y) pic" and k: "k < 320" by auto
    have on: "on_screen ?m (int k, int y)" "on_screen ?m (int k, int y + n)" using k assms(4,5) by (auto simp: on_screen_def sz)
    obtain c where c: "picture ?m (?g k) (int k, int y + n) = Some c" using on(2) by (auto simp: picture_def)
    have o1: "nat ((int y + n) * VGA13_WIDTH + int k) = (y + nat n) * 320 + k" using assms(4) by (simp add: sz nat_add_distrib nat_mult_distrib)
    have o2: "nat (int y * VGA13_WIDTH + int k) = y * 320 + k" by (simp add: sz nat_add_distrib nat_mult_distrib)
    have md: "g_current_mode (?g k) \<noteq> VGA_MODE_12H" using gfx_okD [OF ih(1)] by (simp add: mode_defs)
    define d where "d = fb_memcpy (y * 320) ((y + nat n) * 320) k (dev g)"
    obtain v d' where r: "vga_read ((y + nat n) * 320 + k) d = (v, d')" by fastforce
    have gp: "gfx_get_pixel (int k) (int y + n) (?g k) = (v, g\<lparr>dev := d'\<rparr>)"
      unfolding gfx_get_pixel_def off_screen_iff [OF ih(1)] using on(2) md r o1 by (simp add: d_def)
    with get_pixel [OF ih(1), of "int k" "int y + n"] c have g': "gfx_ok ?m (g\<lparr>dev := d'\<rparr>)" "picture ?m (g\<lparr>dev := d'\<rparr>) = picture ?m (?g k)" "v = c" by auto
    have "gfx_put_pixel (int k) (int y) c (g\<lparr>dev := d'\<rparr>) = ?g (Suc k)"
      unfolding gfx_put_pixel_def off_screen_iff [OF g'(1)] using on(1) md o2 r g'(3) by (simp add: fb_memcpy_def for_range_Suc d_def)
    moreover have "picture ?m (gfx_put_pixel (int k) (int y) c (g\<lparr>dev := d'\<rparr>)) = (picture ?m (?g k))((int k, int y) := picture ?m (?g k) (int k, int y + n))"
      unfolding put_pixel_picture [OF g'(1)] using on(1) c quant_picture [OF c] g'(2) by (simp add: ink_def)
    ultimately show ?case
      using move_pixel [OF ih assms(3) _ _ _ assms(4,5), of "?g (Suc k)"] put_pixel_ok [OF g'(1), of "int k" "int y" c] k
      by (simp add: sz add.commute)
  qed
  from this [of 320] next_row [of "int y" n ?m pic] assms(5) show ?thesis by (simp add: sz)
qed

text \<open>The rows below the text: filled one after the other.\<close>

lemma for_range_shift: "a \<le> b \<Longrightarrow> for_range a b f = for_range 0 (b - a) (\<lambda>i. f (a + i))"
proof (induction b)
  case (Suc b)
  show ?case
  proof (cases "a = Suc b")
    case False
    then have "a \<le> b" using Suc.prems by simp
    then show ?thesis using Suc.IH by (intro ext) (simp add: for_range_Suc Suc_diff_le)
  qed (auto simp: fun_eq_iff)
qed (auto simp: fun_eq_iff)

lemma fill_rows_paints:
  assumes "\<And>i. i < n \<Longrightarrow> paints (gfx_ok m) (picture m) (f (a + i)) (box m 0 (int a + int i) (mode_width m) 1 c)"
  shows "paints (gfx_ok m) (picture m) (for_range a (a + n) f) (box m 0 (int a) (mode_width m) (int n) c)"
proof -
  have "for_range a (a + n) f = for_range 0 n (\<lambda>i. f (a + i))" using for_range_shift [of a "a + n" f] by simp
  moreover have "paints (gfx_ok m) (picture m) (for_range 0 n (\<lambda>i. f (a + i))) (box m 0 (int a) (mode_width m) (int n) c)"
    by (rule paints_for [where T = "\<lambda>n. box m 0 (int a) (mode_width m) (int n) c", OF assms])
      (auto simp: box_def fun_eq_iff map_add_def split: option.splits)
  ultimately show ?thesis by simp
qed

lemma scrolled_eq:
  assumes "0 < n" "n < mode_height m" "dom pic = {p. on_screen m p}"
  shows "pic_moved m n 0 (mode_height m - n) pic ++ box m 0 (mode_height m - n) (mode_width m) n c = scrolled m n c pic"
  using assms by (intro ext) (auto simp: pic_moved_def scrolled_def box_def ink_def on_screen_def map_add_def split: option.splits)

lemma scroll_rows:
  assumes "\<And>y g. gfx_ok m g \<Longrightarrow> picture m g = pic_moved m n 0 (int y) pic \<Longrightarrow> int y + n < mode_height m \<Longrightarrow>
      gfx_ok m (f y g) \<and> picture m (f y g) = pic_moved m n 0 (int y + 1) pic"
    and "gfx_ok m g" "picture m g = pic" "0 < n" "n < mode_height m" and k: "int k \<le> mode_height m - n"
  shows "gfx_ok m (for_range 0 k f g) \<and> picture m (for_range 0 k f g) = pic_moved m n 0 (int k) pic"
  using k
proof (induction k)
  case 0
  have "pic_moved m n 0 0 pic = pic"
    using assms(3) by (intro ext) (auto simp: pic_moved_def on_screen_def picture_def)
  then show ?case using assms(2,3) by simp
next
  case (Suc k)
  then show ?case using assms(1) [of "for_range 0 k f g" k] by (simp add: for_range_Suc add.commute)
qed

lemma dom_picture: "dom (picture m g) = {p. on_screen m p}"
  by (auto simp: picture_def split: if_splits)

lemma scroll_picture:
  assumes g: "gfx_ok m g" and n: "0 < n" "n < mode_height m"
  shows "gfx_ok m (gfx_scroll_up n c g) \<and> picture m (gfx_scroll_up n c g) = scrolled m n c (picture m g)"
proof (cases "m = VGA_MODE_13H")
  case True
  let ?m = VGA_MODE_13H and ?pic = "picture m g" and ?k = "nat (mode_height m - n)"
  have sz: "mode_width ?m = 320" "mode_height ?m = 200" "VGA13_WIDTH = 320" "VGA13_HEIGHT = 200" by (simp_all add: size_defs mode_defs)
  let ?cp = "\<lambda>y. fb_memcpy (y * 320) ((y + nat n) * 320) 320" and ?ms = "\<lambda>y. fb_memset (y * 320) c 320"
  let ?f = "\<lambda>y g. g\<lparr>dev := ?cp y (dev g)\<rparr>" and ?h = "\<lambda>y g. g\<lparr>dev := ?ms y (dev g)\<rparr>"
  have lift: "for_range a b (\<lambda>y g. g\<lparr>dev := F y (dev g)\<rparr>) g = g\<lparr>dev := for_range a b F (dev g)\<rparr>" if "a \<le> b" for a b F and g :: gfx
    using that
  proof (induction b)
    case (Suc b)
    show ?case
    proof (cases "a = Suc b")
      case False
      then have "a \<le> b" using Suc.prems by simp
      with Suc.IH show ?thesis by (simp add: for_range_Suc)
    qed simp
  qed simp
  have 1: "gfx_ok m (for_range 0 ?k ?f g) \<and> picture m (for_range 0 ?k ?f g) = pic_moved m n 0 (int ?k) ?pic"
    by (rule scroll_rows [OF _ g refl n]) (use copy_row13_moves [where n = n and pic = ?pic] n True dom_picture in \<open>auto simp: sz\<close>)
  have row: "paints (gfx_ok m) (picture m) (?h (?k + i)) (box m 0 (int ?k + int i) (mode_width m) 1 c)" if i: "i < nat n" for i
  proof -
    have "?h (?k + i) g' = for_range 0 320 (\<lambda>j. gfx_put_pixel (0 + int j) (int ?k + int i) c) g'" if "gfx_ok m g'" for g'
      using memset_puts [of g' 0 320 "int ?k + int i" c] that n i True by (simp add: sz nat_add_distrib nat_mult_distrib)
    moreover have "paints (gfx_ok m) (picture m) (for_range 0 (nat 320) (\<lambda>j. gfx_put_pixel (0 + int j) (int ?k + int i) c)) (box m 0 (int ?k + int i) 320 1 c)"
      by (rule screen.row_paints [of m "nat 320" 0 "int ?k + int i" "\<lambda>_. c", unfolded row_box])
    ultimately show ?thesis using True sz(1) by (auto elim!: paints_cong)
  qed
  have 2: "paints (gfx_ok m) (picture m) (for_range ?k (?k + nat n) ?h) (box m 0 (int ?k) (mode_width m) (int (nat n)) c)"
    by (rule fill_rows_paints [OF row])
  have l: "for_range ?k (?k + nat n) ?h (for_range 0 ?k ?f g) = g\<lparr>dev := for_range ?k (?k + nat n) ?ms (for_range 0 ?k ?cp (dev g))\<rparr>"
    unfolding lift [OF le0, of ?k ?cp] lift [OF le_add1, of ?k "nat n" ?ms] by simp
  have "?k + nat n = 200" using n True by (simp add: sz flip: nat_add_distrib)
  then have "gfx_scroll_up n c g = for_range ?k (?k + nat n) ?h (for_range 0 ?k ?f g)"
    unfolding l using n True gfx_okD [OF g] by (simp add: gfx_scroll_up_def Let_def sz)
  with 1 2 scrolled_eq [OF n, of ?pic c] dom_picture [of m g] n show ?thesis by (simp add: paints_def)
next
  case False
  let ?pic = "picture m g" and ?k = "nat (mode_height m - n)"
  let ?h = "\<lambda>y g. gfx_draw_hline 0 (int y) (g_screen_width g) c g"
  have 1: "gfx_ok m (for_range 0 ?k (copy_row12 n) g) \<and> picture m (for_range 0 ?k (copy_row12 n) g) = pic_moved m n 0 (int ?k) ?pic"
    by (rule scroll_rows [OF _ g refl n]) (use copy_row12_moves [where n = n and pic = ?pic] n dom_picture in auto)
  have row: "paints (gfx_ok m) (picture m) (?h (?k + i)) (box m 0 (int ?k + int i) (mode_width m) 1 c)" for i
    using hline_paints [of m 0 "int (?k + i)" "mode_width m" c] by (auto elim!: paints_cong simp: gfx_okD)
  have 2: "paints (gfx_ok m) (picture m) (for_range ?k (?k + nat n) ?h) (box m 0 (int ?k) (mode_width m) (int (nat n)) c)"
    by (rule fill_rows_paints [OF row])
  have "g_current_mode g \<noteq> VGA_MODE_13H" "g_screen_height g = mode_height m" using False gfx_okD [OF g] by auto
  moreover have "g_screen_height (for_range 0 ?k (copy_row12 n) g) = mode_height m" using 1 gfx_okD by blast
  moreover have "nat (mode_height m) = ?k + nat n" using n by (simp flip: nat_add_distrib)
  ultimately have "gfx_scroll_up n c g = for_range ?k (?k + nat n) ?h (for_range 0 ?k (copy_row12 n) g)"
    using n unfolding gfx_scroll_up_def Let_def by simp
  with 1 2 scrolled_eq [OF n, of ?pic c] dom_picture [of m g] n show ?thesis by (simp add: paints_def)
qed

section \<open>Setting and leaving the graphics modes\<close>

lemma load_seq:
  "n \<le> 256 \<Longrightarrow> for_range 0 n (\<lambda>i. vga_seq_write (of_nat i) (xs ! i)) d =
     d\<lparr>seq_index := (if n = 0 then seq_index d else of_nat (n - 1)), seq_regs := (\<lambda>j. if unat j < n then xs ! unat j else seq_regs d j)\<rparr>"
proof (induction n)
  case (Suc n)
  have u: "unat (of_nat n :: u8) = n" using Suc.prems by (intro unat_of_nat_u8) simp
  have "j = of_nat n \<longleftrightarrow> unat j = n" for j :: u8 using u by (metis of_nat_unat ucast_id)
  then show ?case using Suc by (auto simp: for_range_Suc seq_write_eq fun_eq_iff less_Suc_eq u)
qed simp

lemma load_gc:
  "n \<le> 256 \<Longrightarrow> for_range 0 n (\<lambda>i. vga_gc_write (of_nat i) (xs ! i)) d =
     d\<lparr>gc_index := (if n = 0 then gc_index d else of_nat (n - 1)), gc_regs := (\<lambda>j. if unat j < n then xs ! unat j else gc_regs d j)\<rparr>"
proof (induction n)
  case (Suc n)
  have u: "unat (of_nat n :: u8) = n" using Suc.prems by (intro unat_of_nat_u8) simp
  have "j = of_nat n \<longleftrightarrow> unat j = n" for j :: u8 using u by (metis of_nat_unat ucast_id)
  then show ?case using Suc by (auto simp: for_range_Suc gc_write_eq fun_eq_iff less_Suc_eq u)
qed simp

lemma load_others:
  "seq_regs (for_range 0 n (\<lambda>i. vga_crtc_write (of_nat i) (xs ! i)) d) = seq_regs d"
  "gc_regs (for_range 0 n (\<lambda>i. vga_ac_write (of_nat i) (xs ! i)) d) = gc_regs d"
  "seq_regs (for_range 0 n (\<lambda>i. vga_ac_write (of_nat i) (xs ! i)) d) = seq_regs d"
  "planes (for_range 0 n (\<lambda>i. vga_crtc_write (of_nat i) (xs ! i)) d) = planes d"
  "planes (for_range 0 n (\<lambda>i. vga_ac_write (of_nat i) (xs ! i)) d) = planes d"
  by (induction n) (simp_all add: for_range_Suc port_eqs)

lemma load_registers_eq:
  "seq_regs (load_registers misc seq crtc gc ac d) = (\<lambda>j. if unat j < 5 then seq ! unat j else seq_regs d j)"
  "gc_regs (load_registers misc seq crtc gc ac d) = (\<lambda>j. if unat j < 9 then gc ! unat j else gc_regs d j)"
  "planes (load_registers misc seq crtc gc ac d) = planes d"
proof -
  have "gc_regs (for_range 0 n (\<lambda>i. vga_crtc_write (of_nat i) (xs ! i)) d) = gc_regs d" for n xs d
    by (induction n) (simp_all add: for_range_Suc port_eqs)
  then show
    "seq_regs (load_registers misc seq crtc gc ac d) = (\<lambda>j. if unat j < 5 then seq ! unat j else seq_regs d j)"
    "gc_regs (load_registers misc seq crtc gc ac d) = (\<lambda>j. if unat j < 9 then gc ! unat j else gc_regs d j)"
    "planes (load_registers misc seq crtc gc ac d) = planes d"
    by (simp_all add: load_registers_def Let_def load_others load_seq load_gc crtc_write_eq vga_outb_def cong: if_cong)
qed

lemmas mode_tables = seq_regs_12h_def gc_regs_12h_def seq_regs_13h_def gc_regs_13h_def text_seq_def text_gc_def

lemma init_ok: "m = VGA_MODE_12H \<or> m = VGA_MODE_13H \<Longrightarrow> fst (graphics_init m g) \<and> gfx_ok m (snd (graphics_init m g))"
  by (auto simp: graphics_init_def gfx_ok_def vga_ready_def vga_mapped_def vga_chain4_def vga_load_mode_def load_registers_eq mode_tables
      mode_defs Let_def mode_width_def mode_height_def)

text \<open>After \<open>graphics_restore\<close> the window is elsewhere: drawing has no effect.\<close>

lemma restored_silent:
  assumes "g = graphics_restore g0" shows "gfx_put_pixel x y c g = g"
proof -
  have "\<not> vga_mapped (dev g)" "g_current_mode g \<noteq> VGA_MODE_12H"
    using assms by (simp_all add: graphics_restore_def vga_mapped_def load_registers_eq mode_tables mode_defs)
  then show ?thesis by (simp add: gfx_put_pixel_def vga_write_def)
qed

section \<open>Palette\<close>

text \<open>
  Waiting for the vertical retrace ends when the adapter reports, at some later read, that the retrace is over and then that the next one has begun.  The palette entry
  then has the three components, cut to six bits.
\<close>

lemma poll_hit: "\<not> cond (input_status d (polls d)) \<Longrightarrow> poll_status cond d = Some (d\<lparr>polls := Suc (polls d), ac_data_next := False\<rparr>)"
  by (subst poll_status.simps) (simp add: vga_in_status_def)

lemma poll_ends:
  assumes "polls d \<le> n" "\<not> cond (input_status d n)"
  shows "\<exists>k \<le> n. poll_status cond d = Some (d\<lparr>polls := Suc k, ac_data_next := False\<rparr>) \<and> \<not> cond (input_status d k) \<and> polls d \<le> k"
  using assms
proof (induction "n - polls d" arbitrary: d)
  case 0
  then have n: "n = polls d" by simp
  from poll_hit [of cond d] 0(3) show ?case unfolding n by blast
next
  case (Suc j)
  show ?case
  proof (cases "cond (input_status d (polls d))")
    case True
    let ?d = "d\<lparr>polls := polls d + 1, ac_data_next := False\<rparr>"
    have p: "j = n - polls ?d" "polls ?d \<le> n" using Suc.hyps(2) by simp_all
    have "\<not> cond (input_status ?d n)" using Suc.prems(2) by simp
    from Suc.hyps(1) [OF p(1) p(2) this] obtain k where
      k: "k \<le> n" "poll_status cond ?d = Some (?d\<lparr>polls := Suc k, ac_data_next := False\<rparr>)" "\<not> cond (input_status d k)" "polls d < k" by auto
    have "poll_status cond d = poll_status cond ?d" using True by (subst poll_status.simps) (simp add: vga_in_status_def)
    with k show ?thesis by (intro exI [of _ k]) simp
  next
    case False
    from poll_hit [of cond d, OF this] False Suc.prems(1) show ?thesis by blast
  qed
qed

lemma wait_vsync_returns:
  assumes low: "\<And>k. \<exists>n \<ge> k. \<not> bit (input_status d n) 3" and high: "\<And>k. \<exists>n \<ge> k. bit (input_status d n) 3"
  shows "\<exists>k. vga_wait_vsync d = Some (d\<lparr>polls := k, ac_data_next := False\<rparr>)"
proof -
  have b: "v AND 0x08 \<noteq> 0 \<longleftrightarrow> bit v 3" for v :: u8 using and_bit_eq_0 [of 3 v] by simp
  obtain n where n: "polls d \<le> n" "\<not> bit (input_status d n) 3" using low by blast
  have "\<not> input_status d n AND 0x08 \<noteq> 0" unfolding b by (rule n(2))
  from poll_ends [of d n "\<lambda>v. v AND 0x08 \<noteq> 0", OF n(1) this] obtain k where
    k: "poll_status (\<lambda>v. v AND 0x08 \<noteq> 0) d = Some (d\<lparr>polls := Suc k, ac_data_next := False\<rparr>)" by blast
  let ?d = "d\<lparr>polls := Suc k, ac_data_next := False\<rparr>"
  obtain n' where n': "n' \<ge> Suc k" "bit (input_status d n') 3" using high by blast
  then have "polls ?d \<le> n'" "\<not> input_status ?d n' AND 0x08 = 0" using b by auto
  from poll_ends [of ?d n' "\<lambda>v. v AND 0x08 = 0", OF this] obtain k' where
    "poll_status (\<lambda>v. v AND 0x08 = 0) ?d = Some (?d\<lparr>polls := Suc k', ac_data_next := False\<rparr>)" by blast
  then show ?thesis unfolding vga_wait_vsync_def k by auto
qed

lemma palette_entry_set:
  assumes "\<And>k. \<exists>n \<ge> k. \<not> bit (input_status (dev g) n) 3" "\<And>k. \<exists>n \<ge> k. bit (input_status (dev g) n) 3"
  shows "\<exists>g'. gfx_set_palette_entry i r gr b g = Some g' \<and> planes (dev g') = planes (dev g) \<and>
    map (dac_regs (dev g') i) [0, 1, 2] = [r AND 0x3F, gr AND 0x3F, b AND 0x3F]"
  using wait_vsync_returns [OF assms] by (auto simp: gfx_set_palette_entry_def vga_outb_def Let_def)

section \<open>The drawing primitives\<close>

text \<open>
  C26. In both graphics modes, from any state of the adapter: after \<open>graphics_init\<close> and any sequence of drawn pixels, reading a pixel that was just drawn gives its
  colour (its lower four bits in mode 12h), and every other pixel reads as before.  In mode 12h the colour travels through the latches and the four planes.
\<close>

theorem gfx_put_get:
  assumes "mode = VGA_MODE_12H \<or> mode = VGA_MODE_13H" and "g = fold (\<lambda>(x, y, c). gfx_put_pixel x y c) drawn (snd (graphics_init mode g0))"
    and "on_screen mode (x, y)" and "(x', y') \<noteq> (x, y)"
  shows "fst (gfx_get_pixel x y (gfx_put_pixel x y color g)) = quant mode color \<and>
    fst (gfx_get_pixel x' y' (gfx_put_pixel x y color g)) = fst (gfx_get_pixel x' y' g)"
proof -
  have "gfx_ok mode (fold (\<lambda>(x, y, c). gfx_put_pixel x y c) drawn g1)" if "gfx_ok mode g1" for g1
    using that by (induction drawn arbitrary: g1) (auto simp: put_pixel_ok split: prod.splits)
  then have ok: "gfx_ok mode g" using assms(2) init_ok [OF assms(1), of g0] by simp
  have "picture mode (gfx_put_pixel x y color g) = (picture mode g)((x, y) \<mapsto> quant mode color)"
    using put_pixel_picture [OF ok] assms(3) by (simp add: ink_def)
  then show ?thesis using get_pixel [OF put_pixel_ok [OF ok]] get_pixel [OF ok] assms(4) by auto
qed

definition blank_vga :: vga where
  "blank_vga = \<lparr>seq_index = 0, seq_regs = (\<lambda>_. 0), crtc_index = 0, crtc_regs = (\<lambda>_. 0), gc_index = 0, gc_regs = (\<lambda>_. 0), ac_index = 0,
     ac_data_next = False, ac_regs = (\<lambda>_. 0), misc_reg = 0, dac_index = 0, dac_part = 0, dac_regs = (\<lambda>_ _. 0),
     input_status = (\<lambda>n. if even n then 0 else 8), polls = 0, latch = (\<lambda>_. 0), planes = (\<lambda>_ _. 0)\<rparr>"

definition blank_gfx :: gfx where
  "blank_gfx = \<lparr>g_current_mode = VGA_MODE_TEXT, g_screen_width = 0, g_screen_height = 0, dev = blank_vga\<rparr>"

theorem gfx_put_get_witness:
  "fst (gfx_get_pixel 639 479 (gfx_put_pixel 639 479 13 (snd (graphics_init VGA_MODE_12H blank_gfx)))) = 13 \<and>
   fst (gfx_get_pixel 638 479 (gfx_put_pixel 639 479 13 (snd (graphics_init VGA_MODE_12H blank_gfx)))) =
     fst (gfx_get_pixel 638 479 (snd (graphics_init VGA_MODE_12H blank_gfx)))"
  using gfx_put_get [of VGA_MODE_12H "snd (graphics_init VGA_MODE_12H blank_gfx)" "[]" blank_gfx 639 479 638 479 13]
  by (simp add: on_screen_def size_defs quant_def)

text \<open>
  \<open>gfx_fill_rect\<close> implements one specification in both modes, pixel by pixel in mode 12h and with clipped \<open>memset\<close> runs in mode 13h: exactly the
  pixels of the rectangle that are on the screen take the colour, for any position and size.
\<close>

theorem gfx_fill_rect_refines:
  assumes "gfx_ok m g"
  shows "gfx_ok m (gfx_fill_rect x y w h c g) \<and>
    picture m (gfx_fill_rect x y w h c g) =
      (\<lambda>(a, b). if on_screen m (a, b) \<and> x \<le> a \<and> a < x + w \<and> y \<le> b \<and> b < y + h then Some (quant m c) else picture m g (a, b))"
  using fill_rect_paints [of m x y w h c] assms
  by (auto simp: paints_def box_def ink_def map_add_def fun_eq_iff split: option.splits)

theorem gfx_fill_rect_refines_witness:
  "picture VGA_MODE_13H (gfx_fill_rect (-5) 190 400 100 7 (snd (graphics_init VGA_MODE_13H blank_gfx))) (319, 199) = Some 7 \<and>
   picture VGA_MODE_13H (gfx_fill_rect (-5) 190 400 100 7 (snd (graphics_init VGA_MODE_13H blank_gfx))) (0, 189) =
     picture VGA_MODE_13H (snd (graphics_init VGA_MODE_13H blank_gfx)) (0, 189)"
  using gfx_fill_rect_refines [of VGA_MODE_13H "snd (graphics_init VGA_MODE_13H blank_gfx)" "-5" 190 400 100 7] init_ok [of VGA_MODE_13H blank_gfx]
  by (simp add: on_screen_def size_defs quant_def mode_defs)



text \<open>
  \<open>gfx_scroll_up\<close> moves the picture up by the given number of rows and fills the rows below with the colour, by \<open>memcpy\<close> of rows in mode 13h and by reading
  and writing single pixels in mode 12h: no row is overwritten before it is copied.  Counts that are not between 1 and the height minus 1 change nothing.
\<close>

theorem gfx_scroll_up_refines:
  assumes "gfx_ok m g"
  shows "picture m (gfx_scroll_up n c g) =
    (if 0 < n \<and> n < mode_height m then
       (\<lambda>(x, y). if \<not> on_screen m (x, y) then None else if y < mode_height m - n then picture m g (x, y + n) else Some (quant m c))
     else picture m g)"
proof (cases "0 < n \<and> n < mode_height m")
  case True
  then show ?thesis using scroll_picture [OF assms, of n c] by (auto simp: scrolled_def fun_eq_iff)
next
  case False
  then have "gfx_scroll_up n c g = g" using gfx_okD [OF assms] by (auto simp: gfx_scroll_up_def)
  then show ?thesis using False by (simp only: if_False)
qed

theorem gfx_scroll_up_refines_witness:
  "picture VGA_MODE_12H (gfx_scroll_up 16 9 (snd (graphics_init VGA_MODE_12H blank_gfx))) (5, 470) = Some 9 \<and>
   picture VGA_MODE_12H (gfx_scroll_up 16 9 (snd (graphics_init VGA_MODE_12H blank_gfx))) (5, 7) =
     picture VGA_MODE_12H (snd (graphics_init VGA_MODE_12H blank_gfx)) (5, 23)"
  using gfx_scroll_up_refines [of VGA_MODE_12H "snd (graphics_init VGA_MODE_12H blank_gfx)" 16 9] init_ok [of VGA_MODE_12H blank_gfx]
  by (simp add: on_screen_def size_defs quant_def)

end
