(* ===== verification/Painters.thy ===== *)
theory Painters
  imports Gfx_Spec
begin

text \<open>
  Painters and drawers: the functions on the display that put some stencil over the picture, whatever the picture is.  They always return and leave the display ready.  The
  rules below show it for a composition of drawing calls by following its text.
\<close>

named_theorems painters \<open>functions that put a stencil over the picture\<close>

definition painter :: "u8 \<Rightarrow> (gfx \<Rightarrow> gfx) \<Rightarrow> bool" where "painter m f \<longleftrightarrow> (\<exists>st. paints (gfx_ok m) (picture m) f st)"

definition drawer :: "u8 \<Rightarrow> (gfx \<Rightarrow> gfx option) \<Rightarrow> bool" where "drawer m f \<longleftrightarrow> (\<exists>st. draws (gfx_ok m) (picture m) f st)"

lemma painter_id [painters]: "painter m (\<lambda>g. g)"
  unfolding painter_def by (blast intro: paints_id)

lemma painter_comp: "painter m f \<Longrightarrow> painter m h \<Longrightarrow> painter m (\<lambda>g. h (f g))"
  unfolding painter_def by (blast intro: paints_comp)

lemma painter_if [painters]: "(b \<Longrightarrow> painter m f) \<Longrightarrow> (\<not> b \<Longrightarrow> painter m h) \<Longrightarrow> painter m (\<lambda>g. if b then f g else h g)"
  by (cases b) simp_all

lemma painter_for: "(\<And>i. painter m (f i)) \<Longrightarrow> painter m (for_range 0 n f)"
proof (induction n)
  case (Suc n)
  have "for_range 0 (Suc n) f = (\<lambda>g. f n (for_range 0 n f g))" by (simp add: for_range_Suc fun_eq_iff)
  then show ?case using painter_comp [OF Suc.IH [OF Suc.prems] Suc.prems [of n]] by simp
qed (simp add: painter_id for_range_def [abs_def] id_def)

lemma drawer_pure [painters]: "painter m f \<Longrightarrow> drawer m (\<lambda>g. Some (f g))"
  unfolding painter_def drawer_def by (blast intro: draws_pure)

lemma drawer_bind: "drawer m f \<Longrightarrow> drawer m h \<Longrightarrow> drawer m (\<lambda>g. Option.bind (f g) h)"
  unfolding drawer_def by (blast intro: draws_bind)

lemma drawer_after: "painter m f \<Longrightarrow> drawer m h \<Longrightarrow> drawer m (\<lambda>g. h (f g))"
  unfolding painter_def drawer_def by (blast intro: draws_after)

lemma drawer_if [painters]: "(b \<Longrightarrow> drawer m f) \<Longrightarrow> (\<not> b \<Longrightarrow> drawer m h) \<Longrightarrow> drawer m (\<lambda>g. if b then f g else h g)"
  by (cases b) simp_all

lemma drawer_map: "drawer m f \<Longrightarrow> painter m h \<Longrightarrow> drawer m (\<lambda>g. map_option h (f g))"
  using drawer_bind [OF _ drawer_pure, of m f h] by (simp add: map_conv_bind_option o_def)

lemma painter_ok: "painter m f \<Longrightarrow> gfx_ok m g \<Longrightarrow> gfx_ok m (f g)"
  unfolding painter_def paints_def by blast

lemma drawer_ok: "drawer m f \<Longrightarrow> gfx_ok m g \<Longrightarrow> \<exists>g'. f g = Some g' \<and> gfx_ok m g'"
  unfolding drawer_def draws_def by blast

text \<open>The primitives, applied to the picture that the rest of the text has drawn.\<close>

lemma painter_hline [painters]: "painter m f \<Longrightarrow> painter m (\<lambda>g. gfx_draw_hline x y n c (f g))"
  by (erule painter_comp) (auto simp: painter_def intro: hline_paints)

lemma painter_vline [painters]: "painter m f \<Longrightarrow> painter m (\<lambda>g. gfx_draw_vline x y n c (f g))"
  by (erule painter_comp) (auto simp: painter_def intro: vline_paints)

lemma painter_rect [painters]: "painter m f \<Longrightarrow> painter m (\<lambda>g. gfx_draw_rect x y w h c (f g))"
  by (erule painter_comp) (auto simp: painter_def intro: rect_paints)

lemma painter_fill [painters]: "painter m f \<Longrightarrow> painter m (\<lambda>g. gfx_fill_rect x y w h c (f g))"
  by (erule painter_comp) (auto simp: painter_def intro: fill_rect_paints)

lemma painter_string [painters]: "painter m f \<Longrightarrow> painter m (\<lambda>g. gfx_draw_string x y t fg bg (f g))"
  by (erule painter_comp) (use string_paints_any in \<open>auto simp: painter_def\<close>)

lemma painter_transparent [painters]: "painter m f \<Longrightarrow> painter m (\<lambda>g. gfx_draw_string_transparent x y t fg (f g))"
  by (erule painter_comp) (use string_transparent_paints in \<open>auto simp: painter_def\<close>)

lemma painter_char [painters]: "painter m f \<Longrightarrow> painter m (\<lambda>g. gfx_draw_char x y c fg bg (f g))"
  by (erule painter_comp) (auto simp: painter_def intro: char_paints)

lemma drawer_line: "drawer m (gfx_draw_line x1 y1 x2 y2 c)"
  using line_draws unfolding drawer_def by blast

lemma drawer_line_after [painters]: "painter m f \<Longrightarrow> drawer m (\<lambda>g. gfx_draw_line x1 y1 x2 y2 c (f g))"
  by (rule drawer_after [OF _ drawer_line])

lemma drawer_bind_line [painters]: "drawer m f \<Longrightarrow> drawer m (\<lambda>g. Option.bind (f g) (gfx_draw_line x1 y1 x2 y2 c))"
  by (rule drawer_bind [OF _ drawer_line])

lemma drawer_bind_fun [painters]: "drawer m f \<Longrightarrow> drawer m (\<lambda>g. h g) \<Longrightarrow> drawer m (\<lambda>g. Option.bind (f g) (\<lambda>g. h g))"
  by (rule drawer_bind)

end
