(* ===== verification/Wm.thy ===== *)
theory Wm
  imports Gfx Keyboard
begin

text \<open>
  The window manager \<^verbatim>\<open>src/kernel/gui/wm.c\<close> with \<^verbatim>\<open>src/include/plexsdos/wm.h\<close>: a table of sixteen windows, their stacking order, the focus, painting
  through the VGA driver and the delivery of events.

  A window has two function pointers, which the manager calls and which may call the manager again.  The operations therefore take as arguments what a call of an
  event handler and of a paint handler does; the program that owns the windows closes the recursion.  The result \<open>None\<close> says that the call does not come
  back: a handler did not return, or the stacking order would be written beyond its array.  The unused fields and variables for user data and
  dragging are left out.
\<close>

unbundle bit_operations_syntax

section \<open>State\<close>

definition WM_MAX_WINDOWS :: nat where "WM_MAX_WINDOWS = 16"
definition WM_TITLE_HEIGHT :: int where "WM_TITLE_HEIGHT = 20"
definition WM_BORDER_WIDTH :: int where "WM_BORDER_WIDTH = 2"
definition WM_BUTTON_SIZE :: int where "WM_BUTTON_SIZE = 16"
definition WM_MIN_WIDTH :: int where "WM_MIN_WIDTH = 100"
definition WM_MIN_HEIGHT :: int where "WM_MIN_HEIGHT = 60"

definition WM_FLAG_VISIBLE :: u16 where "WM_FLAG_VISIBLE = 0x01"
definition WM_FLAG_FOCUSED :: u16 where "WM_FLAG_FOCUSED = 0x02"
definition WM_FLAG_MINIMIZED :: u16 where "WM_FLAG_MINIMIZED = 0x04"
definition WM_FLAG_MAXIMIZED :: u16 where "WM_FLAG_MAXIMIZED = 0x08"
definition WM_FLAG_MOVABLE :: u16 where "WM_FLAG_MOVABLE = 0x10"
definition WM_FLAG_RESIZABLE :: u16 where "WM_FLAG_RESIZABLE = 0x20"
definition WM_FLAG_HAS_TITLE :: u16 where "WM_FLAG_HAS_TITLE = 0x40"
definition WM_FLAG_HAS_CLOSE :: u16 where "WM_FLAG_HAS_CLOSE = 0x80"

definition COLOR_BLACK :: u8 where "COLOR_BLACK = 0"
definition COLOR_BLUE :: u8 where "COLOR_BLUE = 1"
definition COLOR_GREEN :: u8 where "COLOR_GREEN = 2"
definition COLOR_CYAN :: u8 where "COLOR_CYAN = 3"
definition COLOR_LIGHT_GRAY :: u8 where "COLOR_LIGHT_GRAY = 7"
definition COLOR_DARK_GRAY :: u8 where "COLOR_DARK_GRAY = 8"
definition COLOR_WHITE :: u8 where "COLOR_WHITE = 15"
definition GUI_COLOR_DESKTOP :: u8 where "GUI_COLOR_DESKTOP = COLOR_CYAN"
definition GUI_COLOR_WINDOW_BG :: u8 where "GUI_COLOR_WINDOW_BG = COLOR_WHITE"
definition GUI_COLOR_TITLE_BG :: u8 where "GUI_COLOR_TITLE_BG = COLOR_BLUE"
definition GUI_COLOR_TITLE_FG :: u8 where "GUI_COLOR_TITLE_FG = COLOR_WHITE"
definition GUI_COLOR_TITLE_INACTIVE :: u8 where "GUI_COLOR_TITLE_INACTIVE = COLOR_DARK_GRAY"
definition GUI_COLOR_BORDER :: u8 where "GUI_COLOR_BORDER = COLOR_DARK_GRAY"
definition GUI_COLOR_BUTTON_BG :: u8 where "GUI_COLOR_BUTTON_BG = COLOR_LIGHT_GRAY"

record rect =
  rx :: int
  ry :: int
  rwidth :: int
  rheight :: int

datatype wm_event = WM_EVENT_PAINT | WM_EVENT_CLOSE | WM_EVENT_FOCUS | WM_EVENT_UNFOCUS | WM_EVENT_MINIMIZE | WM_EVENT_MAXIMIZE
  | WM_EVENT_RESTORE | WM_EVENT_MOVE | WM_EVENT_RESIZE | WM_EVENT_KEY | WM_EVENT_CLICK

datatype wm_button = WM_BTN_NONE | WM_BTN_CLOSE | WM_BTN_MINIMIZE | WM_BTN_MAXIMIZE

text \<open>\<open>'h\<close> stands for the functions a handler pointer can name; \<open>None\<close> is the null pointer.  The title is the array of 64 characters.\<close>

record 'h window =
  win_id :: int
  bounds :: rect
  old_bounds :: rect
  wflags :: u16
  title_fg :: u8
  title_bg :: u8
  title :: bytes
  on_paint :: "'h option"
  on_event :: "'h option"

text \<open>The static variables of the manager, the display, and the state \<open>'u\<close> of the programs behind the handlers.\<close>

record ('h, 'u) wm =
  g_windows :: "'h window list"
  g_window_count :: int
  g_focused_id :: int
  g_next_id :: int
  g_zorder :: "int list"
  g_zorder_count :: nat
  g_mouse_x :: int
  g_mouse_y :: int
  display :: gfx
  apps :: 'u

type_synonym ('h, 'u) event_call = "'h \<Rightarrow> int \<Rightarrow> wm_event \<Rightarrow> int \<Rightarrow> int \<Rightarrow> ('h, 'u) wm \<Rightarrow> ('h, 'u) wm option"
type_synonym ('h, 'u) paint_call = "'h \<Rightarrow> int \<Rightarrow> int \<Rightarrow> int \<Rightarrow> int \<Rightarrow> int \<Rightarrow> ('h, 'u) wm \<Rightarrow> ('h, 'u) wm option"

definition has_flag :: "u16 \<Rightarrow> 'h window \<Rightarrow> bool" where "has_flag f w \<longleftrightarrow> wflags w AND f \<noteq> 0"

definition set_flag :: "u16 \<Rightarrow> 'h window \<Rightarrow> 'h window" where "set_flag f w = w\<lparr>wflags := wflags w OR f\<rparr>"

definition clear_flag :: "u16 \<Rightarrow> 'h window \<Rightarrow> 'h window" where "clear_flag f w = w\<lparr>wflags := wflags w AND NOT f\<rparr>"

definition upd_window :: "nat \<Rightarrow> ('h window \<Rightarrow> 'h window) \<Rightarrow> ('h, 'u) wm \<Rightarrow> ('h, 'u) wm" where
  "upd_window i f s = s\<lparr>g_windows := (g_windows s)[i := f (g_windows s ! i)]\<rparr>"

definition on_display :: "(gfx \<Rightarrow> gfx option) \<Rightarrow> ('h, 'u) wm \<Rightarrow> ('h, 'u) wm option" where
  "on_display f s = (case f (display s) of None \<Rightarrow> None | Some g \<Rightarrow> Some (s\<lparr>display := g\<rparr>))"

text \<open>Calling a handler through a pointer that may be null.\<close>

definition send_event :: "('h, 'u) event_call \<Rightarrow> 'h option \<Rightarrow> int \<Rightarrow> wm_event \<Rightarrow> int \<Rightarrow> int \<Rightarrow> ('h, 'u) wm \<Rightarrow> ('h, 'u) wm option" where
  "send_event ev h wid e p1 p2 s = (case h of None \<Rightarrow> Some s | Some f \<Rightarrow> ev f wid e p1 p2 s)"

section \<open>Searching\<close>

definition wm_find_window :: "int \<Rightarrow> ('h, 'u) wm \<Rightarrow> nat option" where
  "wm_find_window wid s = find (\<lambda>i. win_id (g_windows s ! i) = wid) [0..<WM_MAX_WINDOWS]"

definition covers :: "'h window \<Rightarrow> int \<Rightarrow> int \<Rightarrow> bool" where
  "covers w x y \<longleftrightarrow> x \<ge> rx (bounds w) \<and> x < rx (bounds w) + rwidth (bounds w) \<and> y \<ge> ry (bounds w) \<and> y < ry (bounds w) + rheight (bounds w)"

definition wm_find_by_pos :: "int \<Rightarrow> int \<Rightarrow> ('h, 'u) wm \<Rightarrow> int" where
  "wm_find_by_pos x y s =
     (case find (\<lambda>i. case wm_find_window (g_zorder s ! i) s of
          None \<Rightarrow> False
        | Some k \<Rightarrow> (let w = g_windows s ! k in has_flag WM_FLAG_VISIBLE w \<and> \<not> has_flag WM_FLAG_MINIMIZED w \<and> covers w x y)) [0..<g_zorder_count s] of
        None \<Rightarrow> - 1
      | Some i \<Rightarrow> (case wm_find_window (g_zorder s ! i) s of None \<Rightarrow> - 1 | Some k \<Rightarrow> win_id (g_windows s ! k)))"

text \<open>The loops that take a window out of the stacking order and that put it on top.\<close>

definition zorder_remove :: "int \<Rightarrow> ('h, 'u) wm \<Rightarrow> ('h, 'u) wm" where
  "zorder_remove wid s =
     (case find (\<lambda>i. g_zorder s ! i = wid) [0..<g_zorder_count s] of
        None \<Rightarrow> s
      | Some i \<Rightarrow> s\<lparr>g_zorder := for_range i (g_zorder_count s - 1) (\<lambda>j z. z[j := z ! (j + 1)]) (g_zorder s),
                    g_zorder_count := g_zorder_count s - 1\<rparr>)"

fun shift_up :: "nat \<Rightarrow> int list \<Rightarrow> int list" where
  "shift_up 0 z = z"
| "shift_up (Suc i) z = shift_up i (z[Suc i := z ! i])"

definition wm_bring_to_front :: "int \<Rightarrow> ('h, 'u) wm \<Rightarrow> ('h, 'u) wm option" where
  "wm_bring_to_front wid s =
     (let s = zorder_remove wid s
      in if g_zorder_count s \<ge> WM_MAX_WINDOWS then None
         else Some (s\<lparr>g_zorder := (shift_up (g_zorder_count s) (g_zorder s))[0 := wid], g_zorder_count := g_zorder_count s + 1\<rparr>))"

section \<open>Painting\<close>

definition paint_close_button :: "rect \<Rightarrow> gfx \<Rightarrow> gfx option" where
  "paint_close_button b g =
     (let btn_x = rx b + rwidth b - WM_BORDER_WIDTH - WM_BUTTON_SIZE - 2;
          y = ry b;
          g = gfx_fill_rect btn_x (y + WM_BORDER_WIDTH + 2) WM_BUTTON_SIZE (WM_BUTTON_SIZE - 4) GUI_COLOR_BUTTON_BG g;
          g = gfx_draw_rect btn_x (y + WM_BORDER_WIDTH + 2) WM_BUTTON_SIZE (WM_BUTTON_SIZE - 4) COLOR_BLACK g
      in Option.bind
           (gfx_draw_line (btn_x + 3) (y + WM_BORDER_WIDTH + 4) (btn_x + WM_BUTTON_SIZE - 4) (y + WM_BORDER_WIDTH + WM_BUTTON_SIZE - 6) COLOR_BLACK g)
           (gfx_draw_line (btn_x + WM_BUTTON_SIZE - 4) (y + WM_BORDER_WIDTH + 4) (btn_x + 3) (y + WM_BORDER_WIDTH + WM_BUTTON_SIZE - 6) COLOR_BLACK))"

definition paint_min_button :: "rect \<Rightarrow> gfx \<Rightarrow> gfx" where
  "paint_min_button b g =
     (let min_x = rx b + rwidth b - WM_BORDER_WIDTH - 2 * WM_BUTTON_SIZE - 4;
          y = ry b;
          g = gfx_fill_rect min_x (y + WM_BORDER_WIDTH + 2) WM_BUTTON_SIZE (WM_BUTTON_SIZE - 4) GUI_COLOR_BUTTON_BG g;
          g = gfx_draw_rect min_x (y + WM_BORDER_WIDTH + 2) WM_BUTTON_SIZE (WM_BUTTON_SIZE - 4) COLOR_BLACK g
      in gfx_draw_hline (min_x + 3) (y + WM_BORDER_WIDTH + WM_BUTTON_SIZE - 6) (WM_BUTTON_SIZE - 6) COLOR_BLACK g)"

definition paint_max_button :: "rect \<Rightarrow> gfx \<Rightarrow> gfx" where
  "paint_max_button b g =
     (let max_x = rx b + rwidth b - WM_BORDER_WIDTH - 3 * WM_BUTTON_SIZE - 6;
          y = ry b;
          g = gfx_fill_rect max_x (y + WM_BORDER_WIDTH + 2) WM_BUTTON_SIZE (WM_BUTTON_SIZE - 4) GUI_COLOR_BUTTON_BG g;
          g = gfx_draw_rect max_x (y + WM_BORDER_WIDTH + 2) WM_BUTTON_SIZE (WM_BUTTON_SIZE - 4) COLOR_BLACK g
      in gfx_draw_rect (max_x + 3) (y + WM_BORDER_WIDTH + 4) (WM_BUTTON_SIZE - 6) (WM_BUTTON_SIZE - 8) COLOR_BLACK g)"

definition paint_title_text :: "'h window \<Rightarrow> gfx \<Rightarrow> gfx" where
  "paint_title_text w g =
     (let bg = (if has_flag WM_FLAG_FOCUSED w then GUI_COLOR_TITLE_BG else GUI_COLOR_TITLE_INACTIVE);
          fg = (if has_flag WM_FLAG_FOCUSED w then GUI_COLOR_TITLE_FG else COLOR_WHITE);
          x = rx (bounds w);
          y = ry (bounds w);
          g = gfx_fill_rect (x + WM_BORDER_WIDTH) (y + WM_BORDER_WIDTH) (rwidth (bounds w) - 2 * WM_BORDER_WIDTH) WM_TITLE_HEIGHT bg g
      in gfx_draw_string (x + WM_BORDER_WIDTH + 4) (y + WM_BORDER_WIDTH + (WM_TITLE_HEIGHT - FONT_HEIGHT) div 2) (str_of (title w)) fg bg g)"

definition wm_paint_titlebar :: "'h window \<Rightarrow> gfx \<Rightarrow> gfx option" where
  "wm_paint_titlebar w g =
     (if \<not> has_flag WM_FLAG_HAS_TITLE w then Some g
      else let g = paint_title_text w g
           in case (if has_flag WM_FLAG_HAS_CLOSE w then paint_close_button (bounds w) g else Some g) of
                None \<Rightarrow> None
              | Some g \<Rightarrow> Some (paint_max_button (bounds w) (paint_min_button (bounds w) g)))"

text \<open>The frame and the background of a window.\<close>

definition paint_window_body :: "rect \<Rightarrow> gfx \<Rightarrow> gfx" where
  "paint_window_body b g =
     (let x = rx b; y = ry b; w = rwidth b; h = rheight b;
          g = gfx_draw_rect x y w h GUI_COLOR_BORDER g;
          g = gfx_draw_hline (x + 1) (y + 1) (w - 2) COLOR_WHITE g;
          g = gfx_draw_vline (x + 1) (y + 1) (h - 2) COLOR_WHITE g;
          g = gfx_draw_hline (x + 1) (y + h - 2) (w - 2) COLOR_DARK_GRAY g;
          g = gfx_draw_vline (x + w - 2) (y + 1) (h - 2) COLOR_DARK_GRAY g
      in gfx_fill_rect (x + WM_BORDER_WIDTH) (y + WM_BORDER_WIDTH + WM_TITLE_HEIGHT) (w - 2 * WM_BORDER_WIDTH)
           (h - 2 * WM_BORDER_WIDTH - WM_TITLE_HEIGHT) GUI_COLOR_WINDOW_BG g)"

definition wm_paint_window :: "('h, 'u) paint_call \<Rightarrow> 'h window \<Rightarrow> ('h, 'u) wm \<Rightarrow> ('h, 'u) wm option" where
  "wm_paint_window pt w s =
     (if \<not> has_flag WM_FLAG_VISIBLE w \<or> has_flag WM_FLAG_MINIMIZED w then Some s
      else case on_display (\<lambda>g. wm_paint_titlebar w (paint_window_body (bounds w) g)) s of
             None \<Rightarrow> None
           | Some s \<Rightarrow> (case on_paint w of
               None \<Rightarrow> Some s
             | Some f \<Rightarrow> (let x = rx (bounds w); y = ry (bounds w) in
                 pt f (win_id w) (x + WM_BORDER_WIDTH) (y + WM_BORDER_WIDTH + WM_TITLE_HEIGHT) (rwidth (bounds w) - 2 * WM_BORDER_WIDTH)
                   (rheight (bounds w) - 2 * WM_BORDER_WIDTH - WM_TITLE_HEIGHT) s)))"

definition paint_cursor :: "int \<Rightarrow> int \<Rightarrow> gfx \<Rightarrow> gfx option" where
  "paint_cursor x y g =
     (let g = for_range 0 10 (\<lambda>i g. gfx_put_pixel (x + int i + 1) (y + int i) COLOR_WHITE (gfx_put_pixel (x + int i) (y + int i) COLOR_WHITE g)) g;
          g = for_range 0 7 (\<lambda>i. gfx_put_pixel (x + int i) (y + int i + 3) COLOR_WHITE) g;
          g = gfx_draw_hline x y 10 COLOR_BLACK g;
          g = gfx_draw_vline x y 10 COLOR_BLACK g
      in gfx_draw_line x y (x + 9) (y + 9) COLOR_BLACK g)"

definition wm_paint_mouse :: "('h, 'u) wm \<Rightarrow> ('h, 'u) wm option" where
  "wm_paint_mouse s = on_display (paint_cursor (g_mouse_x s) (g_mouse_y s)) s"

definition paint_background :: "gfx \<Rightarrow> gfx" where
  "paint_background g = for_range 0 60 (\<lambda>j. for_range 0 80 (\<lambda>i. gfx_put_pixel (8 * int i) (8 * int j) COLOR_CYAN)) (gfx_clear GUI_COLOR_DESKTOP g)"

definition wm_paint_desktop :: "('h, 'u) wm \<Rightarrow> ('h, 'u) wm" where
  "wm_paint_desktop s = s\<lparr>display := paint_background (display s)\<rparr>"

text \<open>The loop of \<open>wm_repaint\<close> from entry \<open>n - 1\<close> of the stacking order down to the top.\<close>

fun repaint_below :: "('h, 'u) paint_call \<Rightarrow> nat \<Rightarrow> ('h, 'u) wm \<Rightarrow> ('h, 'u) wm option" where
  "repaint_below pt 0 s = Some s"
| "repaint_below pt (Suc i) s =
     (case (case wm_find_window (g_zorder s ! i) s of
              None \<Rightarrow> Some s
            | Some k \<Rightarrow> if has_flag WM_FLAG_VISIBLE (g_windows s ! k) then wm_paint_window pt (g_windows s ! k) s else Some s) of
        None \<Rightarrow> None
      | Some s \<Rightarrow> repaint_below pt i s)"

definition wm_repaint :: "('h, 'u) paint_call \<Rightarrow> ('h, 'u) wm \<Rightarrow> ('h, 'u) wm option" where
  "wm_repaint pt s = Option.bind (repaint_below pt (g_zorder_count s) s) wm_paint_mouse"

definition wm_check_titlebar_click :: "'h window \<Rightarrow> int \<Rightarrow> int \<Rightarrow> wm_button" where
  "wm_check_titlebar_click w click_x click_y =
     (if \<not> has_flag WM_FLAG_HAS_TITLE w then WM_BTN_NONE
      else let title_y_min = ry (bounds w) + WM_BORDER_WIDTH;
               right = rx (bounds w) + rwidth (bounds w) - WM_BORDER_WIDTH;
               hit = (\<lambda>btn_x. click_x \<ge> btn_x \<and> click_x < btn_x + WM_BUTTON_SIZE)
           in if click_y < title_y_min \<or> click_y \<ge> title_y_min + WM_TITLE_HEIGHT then WM_BTN_NONE
              else if has_flag WM_FLAG_HAS_CLOSE w \<and> hit (right - WM_BUTTON_SIZE - 2) then WM_BTN_CLOSE
              else if hit (right - 2 * WM_BUTTON_SIZE - 4) then WM_BTN_MINIMIZE
              else if hit (right - 3 * WM_BUTTON_SIZE - 6) then WM_BTN_MAXIMIZE
              else WM_BTN_NONE)"

section \<open>Operations\<close>

definition wm_init :: "('h, 'u) wm \<Rightarrow> (bool \<times> ('h, 'u) wm) option" where
  "wm_init s =
     (case graphics_init VGA_MODE_12H (display s) of (ok, g) \<Rightarrow>
        if \<not> ok then Some (False, s\<lparr>display := g\<rparr>)
        else case gfx_set_default_palette g of
               None \<Rightarrow> None
             | Some g \<Rightarrow> Some (True, wm_paint_desktop (s\<lparr>display := g, g_windows := map (\<lambda>w. w\<lparr>win_id := 0\<rparr>) (g_windows s),
                 g_window_count := 0, g_zorder_count := 0, g_focused_id := - 1, g_next_id := 1\<rparr>)))"

definition wm_shutdown :: "('h, 'u) wm \<Rightarrow> ('h, 'u) wm" where
  "wm_shutdown s = s\<lparr>display := graphics_restore (display s)\<rparr>"

definition clamp_size :: "int \<Rightarrow> int \<Rightarrow> int \<times> int" where
  "clamp_size width height =
     (let width = (if width < WM_MIN_WIDTH then WM_MIN_WIDTH else width);
          height = (if height < WM_MIN_HEIGHT then WM_MIN_HEIGHT else height);
          width = (if width > VGA12_WIDTH then VGA12_WIDTH else width);
          height = (if height > VGA12_HEIGHT then VGA12_HEIGHT else height)
      in (width, height))"

definition clamp_pos :: "int \<Rightarrow> int \<Rightarrow> int \<Rightarrow> int \<Rightarrow> int \<times> int" where
  "clamp_pos x y width height =
     (let x = (if x < 0 then 0 else x);
          y = (if y < 0 then 0 else y);
          x = (if x + width > VGA12_WIDTH then VGA12_WIDTH - width else x);
          y = (if y + height > VGA12_HEIGHT then VGA12_HEIGHT - height else y)
      in (x, y))"

text \<open>\<open>strncpy(win->title, title, 63); win->title[63] = 0;\<close>\<close>

definition title_copy :: "bytes \<Rightarrow> bytes" where
  "title_copy t = take 63 t @ replicate (63 - length t) 0 @ [0]"

definition wm_create_window :: "bytes option \<Rightarrow> int \<Rightarrow> int \<Rightarrow> int \<Rightarrow> int \<Rightarrow> u16 \<Rightarrow> 'h option \<Rightarrow> 'h option \<Rightarrow> ('h, 'u) wm \<Rightarrow> (int \<times> ('h, 'u) wm) option" where
  "wm_create_window ttl x y width height fl paint event s =
     (case find (\<lambda>i. win_id (g_windows s ! i) = 0) [0..<WM_MAX_WINDOWS] of
        None \<Rightarrow> Some (- 1, s)
      | Some idx \<Rightarrow>
          (case clamp_size width height of (width, height) \<Rightarrow>
           case clamp_pos x y width height of (x, y) \<Rightarrow>
           let b = \<lparr>rx = x, ry = y, rwidth = width, rheight = height\<rparr>;
               wid = g_next_id s;
               w = (g_windows s ! idx)\<lparr>win_id := wid, bounds := b, old_bounds := b, wflags := fl OR WM_FLAG_HAS_TITLE OR WM_FLAG_HAS_CLOSE,
                     title_fg := GUI_COLOR_TITLE_FG, title_bg := GUI_COLOR_TITLE_BG, on_paint := paint, on_event := event,
                     title := (case ttl of Some t \<Rightarrow> title_copy t | None \<Rightarrow> (title (g_windows s ! idx))[0 := 0])\<rparr>;
               s = s\<lparr>g_windows := (g_windows s)[idx := w], g_next_id := g_next_id s + 1, g_window_count := g_window_count s + 1\<rparr>
           in case wm_bring_to_front wid s of None \<Rightarrow> None | Some s \<Rightarrow> Some (wid, s)))"

definition redraw_all :: "('h, 'u) paint_call \<Rightarrow> ('h, 'u) wm \<Rightarrow> ('h, 'u) wm option" where
  "redraw_all pt s = wm_repaint pt (wm_paint_desktop s)"

text \<open>The focus passes to the window on top.\<close>

definition refocus_top :: "('h, 'u) event_call \<Rightarrow> ('h, 'u) wm \<Rightarrow> ('h, 'u) wm option" where
  "refocus_top ev s =
     (let s = s\<lparr>g_focused_id := (if g_zorder_count s > 0 then g_zorder s ! 0 else - 1)\<rparr>
      in if g_focused_id s \<ge> 0 then
           case wm_find_window (g_focused_id s) s of
             None \<Rightarrow> Some s
           | Some k \<Rightarrow> (let s = upd_window k (set_flag WM_FLAG_FOCUSED) s
                        in send_event ev (on_event (g_windows s ! k)) (g_focused_id s) WM_EVENT_FOCUS 0 0 s)
         else Some s)"

definition wm_destroy_window :: "('h, 'u) event_call \<Rightarrow> ('h, 'u) paint_call \<Rightarrow> int \<Rightarrow> ('h, 'u) wm \<Rightarrow> ('h, 'u) wm option" where
  "wm_destroy_window ev pt wid s =
     (case wm_find_window wid s of
        None \<Rightarrow> Some s
      | Some idx \<Rightarrow>
          (case send_event ev (on_event (g_windows s ! idx)) wid WM_EVENT_CLOSE 0 0 s of
             None \<Rightarrow> None
           | Some s \<Rightarrow>
               (let s = zorder_remove wid s;
                    s = (upd_window idx (\<lambda>w. w\<lparr>win_id := 0\<rparr>) s)\<lparr>g_window_count := g_window_count s - 1\<rparr>
                in case (if g_focused_id s = wid then refocus_top ev s else Some s) of
                     None \<Rightarrow> None
                   | Some s \<Rightarrow> redraw_all pt s)))"

definition wm_close_window :: "('h, 'u) event_call \<Rightarrow> ('h, 'u) paint_call \<Rightarrow> int \<Rightarrow> ('h, 'u) wm \<Rightarrow> ('h, 'u) wm option" where
  "wm_close_window ev pt wid s = wm_destroy_window ev pt wid s"

text \<open>The old focus is told first; then its title bar is painted again.\<close>

definition unfocus_old :: "('h, 'u) event_call \<Rightarrow> ('h, 'u) wm \<Rightarrow> ('h, 'u) wm option" where
  "unfocus_old ev s =
     (if g_focused_id s \<ge> 0 then
        case wm_find_window (g_focused_id s) s of
          None \<Rightarrow> Some s
        | Some k \<Rightarrow>
            (let s = upd_window k (clear_flag WM_FLAG_FOCUSED) s
             in case send_event ev (on_event (g_windows s ! k)) (g_focused_id s) WM_EVENT_UNFOCUS 0 0 s of
                  None \<Rightarrow> None
                | Some s \<Rightarrow> on_display (wm_paint_titlebar (g_windows s ! k)) s)
      else Some s)"

definition wm_focus_window :: "('h, 'u) event_call \<Rightarrow> int \<Rightarrow> ('h, 'u) wm \<Rightarrow> ('h, 'u) wm option" where
  "wm_focus_window ev wid s =
     (if g_focused_id s = wid then Some s
      else case wm_find_window wid s of
        None \<Rightarrow> Some s
      | Some idx \<Rightarrow>
          if \<not> has_flag WM_FLAG_VISIBLE (g_windows s ! idx) then Some s
          else case unfocus_old ev s of
                 None \<Rightarrow> None
               | Some s \<Rightarrow>
                   (let s = upd_window idx (set_flag WM_FLAG_FOCUSED) (s\<lparr>g_focused_id := wid\<rparr>)
                    in case wm_bring_to_front wid s of
                         None \<Rightarrow> None
                       | Some s \<Rightarrow>
                           (case send_event ev (on_event (g_windows s ! idx)) wid WM_EVENT_FOCUS 0 0 s of
                              None \<Rightarrow> None
                            | Some s \<Rightarrow> on_display (wm_paint_titlebar (g_windows s ! idx)) s)))"

definition wm_invalidate :: "('h, 'u) paint_call \<Rightarrow> int \<Rightarrow> ('h, 'u) wm \<Rightarrow> ('h, 'u) wm option" where
  "wm_invalidate pt wid s =
     (case wm_find_window wid s of
        None \<Rightarrow> Some s
      | Some idx \<Rightarrow> if has_flag WM_FLAG_VISIBLE (g_windows s ! idx) then wm_paint_window pt (g_windows s ! idx) s else Some s)"

definition wm_invalidate_rect :: "('h, 'u) paint_call \<Rightarrow> int \<Rightarrow> rect \<Rightarrow> ('h, 'u) wm \<Rightarrow> ('h, 'u) wm option" where
  "wm_invalidate_rect pt wid r s = wm_invalidate pt wid s"

definition wm_show_window :: "('h, 'u) event_call \<Rightarrow> ('h, 'u) paint_call \<Rightarrow> int \<Rightarrow> ('h, 'u) wm \<Rightarrow> ('h, 'u) wm option" where
  "wm_show_window ev pt wid s =
     (case wm_find_window wid s of
        None \<Rightarrow> Some s
      | Some idx \<Rightarrow> Option.bind (wm_focus_window ev wid (upd_window idx (set_flag WM_FLAG_VISIBLE) s)) (wm_invalidate pt wid))"

definition wm_hide_window :: "('h, 'u) paint_call \<Rightarrow> int \<Rightarrow> ('h, 'u) wm \<Rightarrow> ('h, 'u) wm option" where
  "wm_hide_window pt wid s =
     (case wm_find_window wid s of
        None \<Rightarrow> Some s
      | Some idx \<Rightarrow>
          (let s = upd_window idx (clear_flag WM_FLAG_VISIBLE) s;
               s = (if g_focused_id s = wid then s\<lparr>g_focused_id := - 1\<rparr> else s)
           in redraw_all pt s))"

definition wm_move_window :: "('h, 'u) event_call \<Rightarrow> ('h, 'u) paint_call \<Rightarrow> int \<Rightarrow> int \<Rightarrow> int \<Rightarrow> ('h, 'u) wm \<Rightarrow> ('h, 'u) wm option" where
  "wm_move_window ev pt wid x y s =
     (case wm_find_window wid s of
        None \<Rightarrow> Some s
      | Some idx \<Rightarrow>
          let w = g_windows s ! idx
          in if \<not> has_flag WM_FLAG_MOVABLE w then Some s
             else (case clamp_pos x y (rwidth (bounds w)) (rheight (bounds w)) of (x, y) \<Rightarrow>
               let s = upd_window idx (\<lambda>w. w\<lparr>bounds := (bounds w)\<lparr>rx := x, ry := y\<rparr>\<rparr>) s
               in Option.bind (send_event ev (on_event w) wid WM_EVENT_MOVE x y s) (redraw_all pt)))"

definition wm_resize_window :: "('h, 'u) event_call \<Rightarrow> ('h, 'u) paint_call \<Rightarrow> int \<Rightarrow> int \<Rightarrow> int \<Rightarrow> ('h, 'u) wm \<Rightarrow> ('h, 'u) wm option" where
  "wm_resize_window ev pt wid width height s =
     (case wm_find_window wid s of
        None \<Rightarrow> Some s
      | Some idx \<Rightarrow>
          let w = g_windows s ! idx
          in if \<not> has_flag WM_FLAG_RESIZABLE w then Some s
             else (case clamp_size width height of (width, height) \<Rightarrow>
               let s = upd_window idx (\<lambda>w. w\<lparr>bounds := (bounds w)\<lparr>rwidth := width, rheight := height\<rparr>\<rparr>) s
               in Option.bind (send_event ev (on_event w) wid WM_EVENT_RESIZE width height s) (redraw_all pt)))"

definition wm_minimize_window :: "('h, 'u) event_call \<Rightarrow> ('h, 'u) paint_call \<Rightarrow> int \<Rightarrow> ('h, 'u) wm \<Rightarrow> ('h, 'u) wm option" where
  "wm_minimize_window ev pt wid s =
     (case wm_find_window wid s of
        None \<Rightarrow> Some s
      | Some idx \<Rightarrow>
          (let s = upd_window idx (\<lambda>w. clear_flag WM_FLAG_MAXIMIZED (set_flag WM_FLAG_MINIMIZED w)) s
           in Option.bind (send_event ev (on_event (g_windows s ! idx)) wid WM_EVENT_MINIMIZE 0 0 s) (redraw_all pt)))"

definition wm_maximize_window :: "('h, 'u) event_call \<Rightarrow> ('h, 'u) paint_call \<Rightarrow> int \<Rightarrow> ('h, 'u) wm \<Rightarrow> ('h, 'u) wm option" where
  "wm_maximize_window ev pt wid s =
     (case wm_find_window wid s of
        None \<Rightarrow> Some s
      | Some idx \<Rightarrow>
          Option.bind
            (if has_flag WM_FLAG_MAXIMIZED (g_windows s ! idx) then
               let s = upd_window idx (\<lambda>w. clear_flag WM_FLAG_MAXIMIZED (w\<lparr>bounds := old_bounds w\<rparr>)) s
               in send_event ev (on_event (g_windows s ! idx)) wid WM_EVENT_RESTORE 0 0 s
             else
               let s = upd_window idx (\<lambda>w. clear_flag WM_FLAG_MINIMIZED (set_flag WM_FLAG_MAXIMIZED
                     (w\<lparr>old_bounds := bounds w, bounds := \<lparr>rx = 0, ry = 0, rwidth = VGA12_WIDTH, rheight = VGA12_HEIGHT\<rparr>\<rparr>))) s
               in send_event ev (on_event (g_windows s ! idx)) wid WM_EVENT_MAXIMIZE 0 0 s)
            (redraw_all pt))"

definition wm_set_title :: "('h, 'u) paint_call \<Rightarrow> int \<Rightarrow> bytes option \<Rightarrow> ('h, 'u) wm \<Rightarrow> ('h, 'u) wm option" where
  "wm_set_title pt wid ttl s =
     (case wm_find_window wid s of
        None \<Rightarrow> Some s
      | Some idx \<Rightarrow> wm_invalidate pt wid (case ttl of None \<Rightarrow> s | Some t \<Rightarrow> upd_window idx (\<lambda>w. w\<lparr>title := title_copy t\<rparr>) s))"

definition wm_get_window :: "int \<Rightarrow> ('h, 'u) wm \<Rightarrow> 'h window option" where
  "wm_get_window wid s = map_option (\<lambda>i. g_windows s ! i) (wm_find_window wid s)"

definition wm_get_focused :: "('h, 'u) wm \<Rightarrow> int" where "wm_get_focused s = g_focused_id s"

text \<open>
  The key is the next one in the keyboard buffer; \<open>es\<close> is what happens while \<open>keyboard_getchar\<close> waits.
\<close>

definition wm_key :: "('h, 'u) event_call \<Rightarrow> ('h, 'u) paint_call \<Rightarrow> u8 \<Rightarrow> ('h, 'u) wm \<Rightarrow> ('h, 'u) wm option" where
  "wm_key ev pt c s =
     (if c = 0x1B then if g_focused_id s \<ge> 0 then wm_close_window ev pt (g_focused_id s) s else Some s
      else if c = 0x09 then if g_zorder_count s > 1 then wm_focus_window ev (g_zorder s ! 1) s else Some s
      else if g_focused_id s \<ge> 0 then
        case wm_find_window (g_focused_id s) s of
          None \<Rightarrow> Some s
        | Some k \<Rightarrow> send_event ev (on_event (g_windows s ! k)) (g_focused_id s) WM_EVENT_KEY (sint c) 0 s
      else Some s)"

definition wm_process_events :: "('h, 'u) event_call \<Rightarrow> ('h, 'u) paint_call \<Rightarrow> idle_event list \<Rightarrow> kbd \<Rightarrow> ('h, 'u) wm \<Rightarrow>
    (idle_event list \<times> kbd \<times> ('h, 'u) wm) option" where
  "wm_process_events ev pt es k s =
     (if keyboard_available k then
        case keyboard_getchar es k of
          None \<Rightarrow> None
        | Some (c, es, k) \<Rightarrow> map_option (\<lambda>s. (es, k, s)) (wm_key ev pt c s)
      else Some (es, k, s))"

end
