(* ===== verification/Wm_Spec.thy ===== *)
theory Wm_Spec
  imports Wm Gfx_Spec
begin

text \<open>
  The invariant of the window table: identifiers are positive and distinct, the stacking order lists exactly the windows that exist, the focus is on one of
  them, and every window has a legal size.  Every operation keeps it, for every program behind the handlers that leaves the manager's own
  variables alone while it handles an event.
\<close>

unbundle bit_operations_syntax

section \<open>The stacking order as a list\<close>

definition stack :: "('h, 'u) wm \<Rightarrow> int list" where "stack s = take (g_zorder_count s) (g_zorder s)"

definition live :: "('h, 'u) wm \<Rightarrow> int list" where "live s = filter (\<lambda>i. i \<noteq> 0) (map win_id (g_windows s))"

lemma shift_down_nth:
  assumes "i \<le> m" "m < length z"
  shows "length (for_range i m (\<lambda>j z. z[j := z ! (j + 1)]) z) = length z \<and>
    (\<forall>j < length z. for_range i m (\<lambda>j z. z[j := z ! (j + 1)]) z ! j = (if i \<le> j \<and> j < m then z ! (j + 1) else z ! j))"
  using assms
proof (induction m)
  case (Suc m)
  show ?case
  proof (cases "i = Suc m")
    case False
    then have "i \<le> m" using Suc.prems(1) by simp
    with Suc show ?thesis by (auto simp: for_range_Suc nth_list_update less_Suc_eq)
  qed auto
qed simp

lemma shift_up_nth:
  "n < length z \<Longrightarrow> length (shift_up n z) = length z \<and> (\<forall>j < length z. shift_up n z ! j = (if 0 < j \<and> j \<le> n then z ! (j - 1) else z ! j))"
proof (induction n z rule: shift_up.induct)
  case (2 i z)
  then show ?case by (auto simp: nth_list_update le_Suc_eq)
qed simp

text \<open>Removing an entry and inserting one on top, on the list of the entries in use.\<close>

lemma find_nth_remove1:
  "find (\<lambda>i. xs ! i = x) [0..<length xs] = Some i \<Longrightarrow> remove1 x xs = take i xs @ drop (i + 1) xs"
proof (induction xs arbitrary: i)
  case (Cons a xs)
  have "[0..<length (a # xs)] = 0 # map Suc [0..<length xs]" by (simp add: upt_conv_Cons map_Suc_upt del: upt_Suc)
  then have f: "find (\<lambda>i. (a # xs) ! i = x) [0..<length (a # xs)] = (if a = x then Some 0 else map_option Suc (find (\<lambda>i. xs ! i = x) [0..<length xs]))"
    by (simp add: find_map del: upt_Suc)
  show ?case
  proof (cases "a = x")
    case True
    then show ?thesis using Cons.prems f by (simp del: upt_Suc)
  next
    case False
    then have "map_option Suc (find (\<lambda>i. xs ! i = x) [0..<length xs]) = Some i" using Cons.prems unfolding f by simp
    then obtain j where "i = Suc j" "find (\<lambda>i. xs ! i = x) [0..<length xs] = Some j" by (auto simp: map_option_case split: option.splits)
    with Cons.IH False show ?thesis by auto
  qed
qed simp

text \<open>The loop that closes the gap, on an array of which the first \<open>n\<close> entries are in use.\<close>

lemma shift_down_remove1:
  assumes "n \<le> length z" "find (\<lambda>i. z ! i = x) [0..<n] = Some i"
  shows "take (n - 1) (for_range i (n - 1) (\<lambda>j z. z[j := z ! (j + 1)]) z) = remove1 x (take n z)"
    "length (for_range i (n - 1) (\<lambda>j z. z[j := z ! (j + 1)]) z) = length z" "length (remove1 x (take n z)) = n - 1"
proof -
  have i: "i < n" using assms(2) by (auto simp: find_Some_iff)
  have "find (\<lambda>i. take n z ! i = x) [0..<length (take n z)] = Some i"
    using assms find_cong [of "[0..<n]" "[0..<n]" "\<lambda>i. take n z ! i = x" "\<lambda>i. z ! i = x"] by (simp add: min_absorb2)
  then have r: "remove1 x (take n z) = take i (take n z) @ drop (i + 1) (take n z)" by (rule find_nth_remove1)
  let ?z' = "for_range i (n - 1) (\<lambda>j z. z[j := z ! (j + 1)]) z"
  have z': "length ?z' = length z" "\<forall>j < length z. ?z' ! j = (if i \<le> j \<and> j < n - 1 then z ! (j + 1) else z ! j)"
    using shift_down_nth [of i "n - 1" z] i assms(1) by auto
  have "min (length z) (n - 1) = n - 1" "min n i = i" using i assms(1) by simp_all
  then show "take (n - 1) ?z' = remove1 x (take n z)" unfolding r using i assms(1) z' by (intro nth_equalityI) (auto simp: nth_append)
  show "length ?z' = length z" by (rule z'(1))
  show "length (remove1 x (take n z)) = n - 1" unfolding r using i assms(1) by simp
qed

lemma zorder_remove_eq:
  assumes "g_zorder_count s \<le> length (g_zorder s)"
  shows "stack (zorder_remove wid s) = remove1 wid (stack s)"
    "length (g_zorder (zorder_remove wid s)) = length (g_zorder s)"
    "g_zorder_count (zorder_remove wid s) = length (remove1 wid (stack s))"
    "zorder_remove wid s = s\<lparr>g_zorder := g_zorder (zorder_remove wid s), g_zorder_count := g_zorder_count (zorder_remove wid s)\<rparr>"
proof -
  let ?n = "g_zorder_count s" and ?z = "g_zorder s"
  have len: "length (stack s) = ?n" using assms by (simp add: stack_def)
  have "stack (zorder_remove wid s) = remove1 wid (stack s) \<and> length (g_zorder (zorder_remove wid s)) = length ?z \<and>
    g_zorder_count (zorder_remove wid s) = length (remove1 wid (stack s)) \<and>
    zorder_remove wid s = s\<lparr>g_zorder := g_zorder (zorder_remove wid s), g_zorder_count := g_zorder_count (zorder_remove wid s)\<rparr>"
  proof (cases "find (\<lambda>i. ?z ! i = wid) [0..<?n]")
    case None
    then have "\<forall>i < ?n. ?z ! i \<noteq> wid" by (auto simp: find_None_iff)
    then have "wid \<notin> set (stack s)" using assms by (auto simp: stack_def in_set_conv_nth)
    then show ?thesis using None len by (simp add: zorder_remove_def remove1_idem)
  next
    case (Some i)
    note r = shift_down_remove1 [OF assms Some]
    show ?thesis using r by (simp add: zorder_remove_def Some stack_def)
  qed
  then show "stack (zorder_remove wid s) = remove1 wid (stack s)" "length (g_zorder (zorder_remove wid s)) = length ?z"
    "g_zorder_count (zorder_remove wid s) = length (remove1 wid (stack s))"
    "zorder_remove wid s = s\<lparr>g_zorder := g_zorder (zorder_remove wid s), g_zorder_count := g_zorder_count (zorder_remove wid s)\<rparr>" by blast+
qed

lemma bring_to_front_eq:
  assumes "length (g_zorder s) = WM_MAX_WINDOWS" "g_zorder_count s \<le> WM_MAX_WINDOWS" "length (remove1 wid (stack s)) < WM_MAX_WINDOWS"
  shows "\<exists>z n. wm_bring_to_front wid s = Some (s\<lparr>g_zorder := z, g_zorder_count := n\<rparr>) \<and> length z = WM_MAX_WINDOWS \<and> n \<le> WM_MAX_WINDOWS \<and>
    take n z = wid # remove1 wid (stack s)"
proof -
  have le: "g_zorder_count s \<le> length (g_zorder s)" using assms by simp
  define t where "t = zorder_remove wid s"
  note r = zorder_remove_eq [OF le, of wid, folded t_def]
  have n: "g_zorder_count t < length (g_zorder t)" using r assms by simp
  note u = shift_up_nth [OF n]
  let ?z = "(shift_up (g_zorder_count t) (g_zorder t))[0 := wid]" and ?n = "g_zorder_count t + 1"
  have "0 < length (g_zorder t)" using n by linarith
  then have "take ?n ?z = wid # stack t"
    using n u by (intro nth_equalityI) (auto simp: stack_def nth_Cons' nth_list_update)
  moreover have "wm_bring_to_front wid s = Some (t\<lparr>g_zorder := ?z, g_zorder_count := ?n\<rparr>)"
    using n r(2) assms(1) unfolding wm_bring_to_front_def t_def [symmetric] Let_def by simp
  moreover have "t\<lparr>g_zorder := a, g_zorder_count := b\<rparr> = s\<lparr>g_zorder := a, g_zorder_count := b\<rparr>" for a b by (subst r(4)) simp
  ultimately show ?thesis using n u r(1,2) assms(1) by (intro exI [of _ ?z] exI [of _ ?n]) auto
qed

section \<open>The invariant\<close>

definition rect_ok :: "rect \<Rightarrow> bool" where
  "rect_ok r \<longleftrightarrow> WM_MIN_WIDTH \<le> rwidth r \<and> rwidth r \<le> VGA12_WIDTH \<and> WM_MIN_HEIGHT \<le> rheight r \<and> rheight r \<le> VGA12_HEIGHT \<and>
     0 \<le> rx r \<and> rx r \<le> VGA12_WIDTH - WM_MIN_WIDTH \<and> 0 \<le> ry r \<and> ry r \<le> VGA12_HEIGHT - WM_MIN_HEIGHT"

definition window_ok :: "'h window \<Rightarrow> bool" where
  "window_ok w \<longleftrightarrow> win_id w \<noteq> 0 \<longrightarrow> rect_ok (bounds w) \<and> rect_ok (old_bounds w)"

definition wm_inv :: "('h, 'u) wm \<Rightarrow> bool" where
  "wm_inv s \<longleftrightarrow> length (g_windows s) = WM_MAX_WINDOWS \<and> length (g_zorder s) = WM_MAX_WINDOWS \<and> g_zorder_count s \<le> WM_MAX_WINDOWS \<and>
     distinct (live s) \<and> distinct (stack s) \<and> set (stack s) = set (live s) \<and> g_window_count s = int (length (live s)) \<and>
     (\<forall>i \<in> set (live s). 0 < i \<and> i < g_next_id s) \<and> 0 < g_next_id s \<and>
     (g_focused_id s = - 1 \<or> g_focused_id s \<in> set (live s)) \<and> list_all window_ok (g_windows s)"

text \<open>Two states that differ only in the display and in the programs' own state.\<close>

definition wm_same :: "('h, 'u) wm \<Rightarrow> ('h, 'u) wm \<Rightarrow> bool" where
  "wm_same s t \<longleftrightarrow> t = s\<lparr>display := display t, apps := apps t\<rparr>"

lemma wm_same_refl [simp]: "wm_same s s"
  by (simp add: wm_same_def)

lemma wm_same_fields:
  "wm_same s t \<Longrightarrow> g_windows t = g_windows s \<and> g_window_count t = g_window_count s \<and> g_focused_id t = g_focused_id s \<and> g_next_id t = g_next_id s \<and>
     g_zorder t = g_zorder s \<and> g_zorder_count t = g_zorder_count s \<and> g_mouse_x t = g_mouse_x s \<and> g_mouse_y t = g_mouse_y s"
  unfolding wm_same_def by (cases s, cases t) auto

lemma wm_same_trans: "wm_same s t \<Longrightarrow> wm_same t u \<Longrightarrow> wm_same s u"
  using wm_same_fields [of s t] wm_same_fields [of t u] unfolding wm_same_def by (intro wm.equality) simp_all

lemma wm_same_display [simp]: "wm_same s (s\<lparr>display := g\<rparr>)"
  by (simp add: wm_same_def)

lemma inv_same: "wm_same s t \<Longrightarrow> wm_inv s \<Longrightarrow> wm_inv t"
  using wm_same_fields [of s t] by (simp add: wm_inv_def stack_def live_def)

lemma find_window_some: "wm_find_window wid s = Some k \<Longrightarrow> k < WM_MAX_WINDOWS \<and> win_id (g_windows s ! k) = wid"
  by (auto simp: wm_find_window_def find_Some_iff)

lemma find_window_live: "wm_inv s \<Longrightarrow> wid \<noteq> 0 \<Longrightarrow> wm_find_window wid s = Some k \<Longrightarrow> wid \<in> set (live s)"
  using find_window_some [of wid s k] by (auto simp: wm_inv_def live_def image_iff)

lemma stack_live: "wm_inv s \<Longrightarrow> i < g_zorder_count s \<Longrightarrow> g_zorder s ! i \<in> set (live s)"
proof -
  assume s: "wm_inv s" and i: "i < g_zorder_count s"
  have "stack s ! i \<in> set (stack s)" using s i by (intro nth_mem) (simp add: stack_def wm_inv_def)
  then show ?thesis using s i by (simp add: stack_def wm_inv_def)
qed

lemma inv_upd:
  assumes "wm_inv s" "k < WM_MAX_WINDOWS" "win_id (f (g_windows s ! k)) = win_id (g_windows s ! k)"
    "window_ok (g_windows s ! k) \<Longrightarrow> window_ok (f (g_windows s ! k))"
  shows "wm_inv (upd_window k f s)"
proof -
  have l: "length (g_windows s) = WM_MAX_WINDOWS" using assms(1) by (simp add: wm_inv_def)
  have "map win_id ((g_windows s)[k := f (g_windows s ! k)]) = map win_id (g_windows s)"
    using assms(3) by (metis list_update_id map_update)
  then have v: "live (upd_window k f s) = live s" by (simp add: live_def upd_window_def)
  have "list_all window_ok ((g_windows s)[k := f (g_windows s ! k)])"
    using assms l by (auto simp: wm_inv_def list_all_length nth_list_update)
  then show ?thesis using assms(1) v by (simp add: wm_inv_def stack_def upd_window_def)
qed

lemma inv_focus: "wm_inv s \<Longrightarrow> i = - 1 \<or> i \<in> set (live s) \<Longrightarrow> wm_inv (s\<lparr>g_focused_id := i\<rparr>)"
  by (simp add: wm_inv_def stack_def live_def)

text \<open>Bringing an existing window to the front always succeeds.\<close>

lemma inv_front:
  assumes "wm_inv s" "wid \<in> set (live s)"
  shows "\<exists>z n. wm_bring_to_front wid s = Some (s\<lparr>g_zorder := z, g_zorder_count := n\<rparr>) \<and> wm_inv (s\<lparr>g_zorder := z, g_zorder_count := n\<rparr>) \<and>
    take n z = wid # remove1 wid (stack s)"
proof -
  have i: "length (g_zorder s) = WM_MAX_WINDOWS" "g_zorder_count s \<le> WM_MAX_WINDOWS" "distinct (stack s)" "set (stack s) = set (live s)"
    using assms(1) by (simp_all add: wm_inv_def)
  have w: "wid \<in> set (stack s)" using assms(2) i(4) by simp
  have "length (remove1 wid (stack s)) = length (stack s) - 1" "0 < length (stack s)" using w by (auto simp: length_remove1)
  moreover have "length (stack s) \<le> WM_MAX_WINDOWS" using i by (simp add: stack_def)
  ultimately have "length (remove1 wid (stack s)) < WM_MAX_WINDOWS" by linarith
  from bring_to_front_eq [OF i(1,2) this] obtain z n where
    z: "wm_bring_to_front wid s = Some (s\<lparr>g_zorder := z, g_zorder_count := n\<rparr>)" "length z = WM_MAX_WINDOWS" "n \<le> WM_MAX_WINDOWS"
      "take n z = wid # remove1 wid (stack s)" by blast
  have "distinct (wid # remove1 wid (stack s))" "set (wid # remove1 wid (stack s)) = set (live s)" using i(3,4) w by auto
  then have "wm_inv (s\<lparr>g_zorder := z, g_zorder_count := n\<rparr>)" using assms(1) z(2-4) by (simp add: wm_inv_def live_def stack_def)
  with z show ?thesis by blast
qed

lemma clamp_ok:
  "clamp_size w h = (w', h') \<Longrightarrow> WM_MIN_WIDTH \<le> w' \<and> w' \<le> VGA12_WIDTH \<and> WM_MIN_HEIGHT \<le> h' \<and> h' \<le> VGA12_HEIGHT"
  "clamp_pos x y w h = (x', y') \<Longrightarrow> WM_MIN_WIDTH \<le> w \<Longrightarrow> w \<le> VGA12_WIDTH \<Longrightarrow> WM_MIN_HEIGHT \<le> h \<Longrightarrow> h \<le> VGA12_HEIGHT \<Longrightarrow>
     0 \<le> x' \<and> x' + w \<le> VGA12_WIDTH \<and> 0 \<le> y' \<and> y' + h \<le> VGA12_HEIGHT"
  by (auto simp: clamp_size_def clamp_pos_def Let_def WM_MIN_WIDTH_def WM_MIN_HEIGHT_def VGA12_WIDTH_def VGA12_HEIGHT_def split: if_splits)

section \<open>Creating and removing entries\<close>

lemma find_upd: "win_id (f (g_windows s ! k)) = win_id (g_windows s ! k) \<Longrightarrow> wm_find_window i (upd_window k f s) = wm_find_window i s"
  unfolding wm_find_window_def upd_window_def
  by (intro find_cong refl, cases "k < length (g_windows s)") (auto simp: nth_list_update list_update_beyond)

lemma on_event_upd: "on_event (f (g_windows s ! k)) = on_event (g_windows s ! k) \<Longrightarrow> on_event (g_windows (upd_window k f s) ! k) = on_event (g_windows s ! k)"
  by (cases "k < length (g_windows s)") (simp_all add: upd_window_def list_update_beyond)

lemma list_all_update: "list_all P xs \<Longrightarrow> P x \<Longrightarrow> list_all P (xs[k := x])"
  unfolding list_all_iff using set_update_subset_insert [of xs k x] by auto

lemma filter_clear:
  assumes "k < length xs" "xs ! k \<noteq> 0" "distinct (filter (\<lambda>i. i \<noteq> 0) xs)"
  shows "filter (\<lambda>i. i \<noteq> 0) (xs[k := 0]) = remove1 (xs ! k) (filter (\<lambda>i. i \<noteq> 0) xs)"
proof -
  define a b x where "a = take k xs" and "b = drop (Suc k) xs" and "x = xs ! k"
  have xs: "xs = a @ x # b" unfolding a_def b_def x_def by (rule id_take_nth_drop [OF assms(1)])
  have xs': "xs[k := 0] = a @ 0 # b" unfolding a_def b_def by (rule upd_conv_take_nth_drop [OF assms(1)])
  have "distinct (filter (\<lambda>i. i \<noteq> 0) (a @ x # b))" "x \<noteq> 0" using assms(2,3) xs x_def by metis+
  then have "x \<noteq> 0" "x \<notin> set (filter (\<lambda>i. i \<noteq> 0) a)" by auto
  then have "filter (\<lambda>i. i \<noteq> 0) (a @ 0 # b) = remove1 x (filter (\<lambda>i. i \<noteq> 0) (a @ x # b))" by (simp add: remove1_append)
  then show ?thesis unfolding x_def [symmetric] xs' using xs by metis
qed

lemma filter_new:
  assumes "k < length xs" "xs ! k = 0" "n \<noteq> 0" "n \<notin> set (filter (\<lambda>i. i \<noteq> 0) xs)" "distinct (filter (\<lambda>i. i \<noteq> 0) xs)"
  shows "distinct (filter (\<lambda>i. i \<noteq> 0) (xs[k := n])) \<and> set (filter (\<lambda>i. i \<noteq> 0) (xs[k := n])) = insert n (set (filter (\<lambda>i. i \<noteq> 0) xs)) \<and>
    length (filter (\<lambda>i. i \<noteq> 0) (xs[k := n])) = Suc (length (filter (\<lambda>i. i \<noteq> 0) xs)) \<and> length (filter (\<lambda>i. i \<noteq> 0) xs) < length xs"
proof -
  define a b where "a = take k xs" and "b = drop (Suc k) xs"
  have xs: "xs = a @ 0 # b" unfolding a_def b_def using id_take_nth_drop [OF assms(1)] unfolding assms(2) .
  have xs': "xs[k := n] = a @ n # b" unfolding a_def b_def by (rule upd_conv_take_nth_drop [OF assms(1)])
  have "n \<notin> set (filter (\<lambda>i. i \<noteq> 0) (a @ 0 # b))" "distinct (filter (\<lambda>i. i \<noteq> 0) (a @ 0 # b))" using assms(4,5) xs by metis+
  moreover have "length (filter (\<lambda>i. i \<noteq> 0) (a @ b)) \<le> length (a @ b)" by (rule length_filter_le)
  ultimately have "distinct (filter (\<lambda>i. i \<noteq> 0) (a @ n # b)) \<and> set (filter (\<lambda>i. i \<noteq> 0) (a @ n # b)) = insert n (set (filter (\<lambda>i. i \<noteq> 0) (a @ 0 # b))) \<and>
    length (filter (\<lambda>i. i \<noteq> 0) (a @ n # b)) = Suc (length (filter (\<lambda>i. i \<noteq> 0) (a @ 0 # b))) \<and> length (filter (\<lambda>i. i \<noteq> 0) (a @ 0 # b)) < length (a @ 0 # b)"
    using assms(3) by auto
  then show ?thesis unfolding xs' using xs by metis
qed

lemma live_upd: "live (upd_window k f s) = filter (\<lambda>i. i \<noteq> 0) ((map win_id (g_windows s))[k := win_id (f (g_windows s ! k))])"
  by (simp add: live_def upd_window_def map_update)

lemma inv_stack_length: "wm_inv s \<Longrightarrow> length (stack s) = length (live s)"
  unfolding wm_inv_def by (metis distinct_card)

lemma inv_removed:
  assumes "wm_inv s" "wm_find_window wid s = Some k" "wid \<noteq> 0"
    and t: "t = (upd_window k (\<lambda>w. w\<lparr>win_id := 0\<rparr>) (zorder_remove wid s))\<lparr>g_window_count := g_window_count s - 1, g_focused_id := f\<rparr>"
    and f: "f = - 1 \<or> f \<in> set (live s) - {wid}"
  shows "wm_inv t" "stack t = remove1 wid (stack s)" "live t = remove1 wid (live s)"
proof -
  have i: "length (g_windows s) = WM_MAX_WINDOWS" "length (g_zorder s) = WM_MAX_WINDOWS" "g_zorder_count s \<le> WM_MAX_WINDOWS" "distinct (live s)" "distinct (stack s)"
    "set (stack s) = set (live s)" "g_window_count s = int (length (live s))" "list_all window_ok (g_windows s)" "\<forall>i \<in> set (live s). 0 < i \<and> i < g_next_id s"
    using assms(1) by (simp_all add: wm_inv_def)
  note k = find_window_some [OF assms(2)] and wl = find_window_live [OF assms(1,3,2)]
  note z = zorder_remove_eq [of s wid]
  have w: "g_windows (zorder_remove wid s) = g_windows s" "g_next_id (zorder_remove wid s) = g_next_id s" using z(4) i by (metis wm.select_convs wm.update_convs wm.surjective)+
  show "stack t = remove1 wid (stack s)" using z(1) i by (simp add: t stack_def upd_window_def)
  show l: "live t = remove1 wid (live s)"
    using filter_clear [of k "map win_id (g_windows s)"] k i(1,4) assms(3) by (simp add: t live_def upd_window_def w map_update)
  have "window_ok (g_windows t ! n)" if "n < length (g_windows t)" for n
    using i(8) that by (cases "n = k") (auto simp: t upd_window_def w list_all_length window_ok_def)
  then have "list_all window_ok (g_windows t)" by (simp add: list_all_length)
  moreover have "g_zorder_count t \<le> WM_MAX_WINDOWS"
  proof -
    have "length (remove1 wid (stack s)) \<le> length (stack s)" by (simp add: length_remove1)
    moreover have "g_zorder_count t = length (remove1 wid (stack s))" using z(3) i(2,3) by (simp add: t upd_window_def)
    ultimately show ?thesis using i(2,3) by (simp add: stack_def)
  qed
  moreover have "stack t = remove1 wid (stack s)" using z(1) i by (simp add: t stack_def upd_window_def)
  moreover have "int (length (live t)) = int (length (live s)) - 1" using wl length_pos_if_in_set [OF wl] by (simp add: l length_remove1 of_nat_diff Suc_le_eq)
  ultimately show "wm_inv t"
    unfolding wm_inv_def using i l f assms(1) z(2)
    by (auto simp: t upd_window_def w wm_inv_def)
qed

text \<open>\<open>wm_create_window\<close> finds room in the stacking order whenever it finds a free slot.\<close>

lemma create_spec:
  assumes "wm_inv s"
  shows "\<exists>t. wm_create_window ttl x y w h fl p e s = Some (if length (live s) < WM_MAX_WINDOWS then g_next_id s else - 1, t) \<and> wm_inv t \<and>
    (if length (live s) < WM_MAX_WINDOWS then stack t = g_next_id s # stack s else t = s)"
proof -
  have i: "length (g_windows s) = WM_MAX_WINDOWS" "length (g_zorder s) = WM_MAX_WINDOWS" "g_zorder_count s \<le> WM_MAX_WINDOWS" "distinct (live s)" "distinct (stack s)"
    "set (stack s) = set (live s)" "g_window_count s = int (length (live s))" "list_all window_ok (g_windows s)" "\<forall>i \<in> set (live s). 0 < i \<and> i < g_next_id s" "0 < g_next_id s"
    "g_focused_id s = - 1 \<or> g_focused_id s \<in> set (live s)"
    using assms by (simp_all add: wm_inv_def)
  show ?thesis
  proof (cases "find (\<lambda>i. win_id (g_windows s ! i) = 0) [0..<WM_MAX_WINDOWS]")
    case None
    then have "\<forall>i < WM_MAX_WINDOWS. win_id (g_windows s ! i) \<noteq> 0" by (auto simp: find_None_iff)
    then have "filter (\<lambda>i. i \<noteq> 0) (map win_id (g_windows s)) = map win_id (g_windows s)"
      using i(1) by (intro filter_True) (auto simp: in_set_conv_nth)
    then have "length (live s) = WM_MAX_WINDOWS" using i(1) by (simp add: live_def)
    with None assms show ?thesis by (simp add: wm_create_window_def)
  next
    case (Some k)
    then have k: "k < WM_MAX_WINDOWS" "win_id (g_windows s ! k) = 0" by (auto simp: find_Some_iff)
    obtain w' h' where c: "clamp_size w h = (w', h')" by fastforce
    obtain x' y' where c': "clamp_pos x y w' h' = (x', y')" by fastforce
    let ?id = "g_next_id s" and ?b = "\<lparr>rx = x', ry = y', rwidth = w', rheight = h'\<rparr>"
    define win where "win = (g_windows s ! k)\<lparr>win_id := ?id, bounds := ?b, old_bounds := ?b, wflags := fl OR WM_FLAG_HAS_TITLE OR WM_FLAG_HAS_CLOSE,
      title_fg := GUI_COLOR_TITLE_FG, title_bg := GUI_COLOR_TITLE_BG, on_paint := p, on_event := e,
      title := (case ttl of Some t \<Rightarrow> title_copy t | None \<Rightarrow> (title (g_windows s ! k))[0 := 0])\<rparr>"
    define u where "u = s\<lparr>g_windows := (g_windows s)[k := win], g_next_id := ?id + 1, g_window_count := g_window_count s + 1\<rparr>"
    have new: "?id \<noteq> 0" "?id \<notin> set (live s)" using i(9,10) by auto
    have lu: "live u = filter (\<lambda>i. i \<noteq> 0) ((map win_id (g_windows s))[k := ?id])" by (simp add: u_def live_def map_update win_def)
    have l: "distinct (live u)" "set (live u) = insert ?id (set (live s))" "length (live u) = Suc (length (live s))" "length (live s) < WM_MAX_WINDOWS"
      using filter_new [of k "map win_id (g_windows s)" ?id] k i(1,4) new unfolding lu [symmetric] live_def [symmetric] by simp_all
    have ok: "window_ok win" using clamp_ok(1) [OF c] clamp_ok(2) [OF c'] by (auto simp: window_ok_def win_def rect_ok_def)
    have wk: "list_all window_ok (g_windows u)" using i(8) ok by (simp add: u_def list_all_update)
    have st: "stack u = stack s" "remove1 ?id (stack s) = stack s" using new i(6) by (simp_all add: u_def stack_def remove1_idem)
    have "length (remove1 ?id (stack u)) < WM_MAX_WINDOWS" using st l(4) inv_stack_length [OF assms] by simp
    with bring_to_front_eq [of u ?id] i(2,3) obtain z n where
      z: "wm_bring_to_front ?id u = Some (u\<lparr>g_zorder := z, g_zorder_count := n\<rparr>)" "length z = WM_MAX_WINDOWS" "n \<le> WM_MAX_WINDOWS" "take n z = ?id # stack s"
      unfolding st by (auto simp: u_def)
    let ?t = "u\<lparr>g_zorder := z, g_zorder_count := n\<rparr>"
    have "wm_inv ?t"
      using i l wk z(2-4) new unfolding wm_inv_def by (auto simp: stack_def live_def u_def)
    moreover have "wm_create_window ttl x y w h fl p e s = Some (?id, ?t)"
      unfolding wm_create_window_def Some using z(1) by (simp add: Let_def u_def win_def c c')
    moreover have "stack ?t = ?id # stack s" using z(4) by (simp add: stack_def)
    ultimately show ?thesis using l(4) by auto
  qed
qed

section \<open>Every operation keeps the invariant\<close>

text \<open>The calls a program makes, and the keys that arrive.\<close>

datatype 'h wm_call = Create "bytes option" int int int int u16 "'h option" "'h option" | Destroy int | Close int | Show int | Hide int | Focus int
  | Move int int int | Resize int int int | Minimize int | Maximize int | Set_title int "bytes option" | Invalidate int | Repaint | Press u8

fun wm_exec :: "('h, 'u) event_call \<Rightarrow> ('h, 'u) paint_call \<Rightarrow> 'h wm_call \<Rightarrow> ('h, 'u) wm \<Rightarrow> ('h, 'u) wm option" where
  "wm_exec ev pt (Create ttl x y w h fl p e) s = map_option snd (wm_create_window ttl x y w h fl p e s)"
| "wm_exec ev pt (Destroy i) s = wm_destroy_window ev pt i s"
| "wm_exec ev pt (Close i) s = wm_close_window ev pt i s"
| "wm_exec ev pt (Show i) s = wm_show_window ev pt i s"
| "wm_exec ev pt (Hide i) s = wm_hide_window pt i s"
| "wm_exec ev pt (Focus i) s = wm_focus_window ev i s"
| "wm_exec ev pt (Move i x y) s = wm_move_window ev pt i x y s"
| "wm_exec ev pt (Resize i w h) s = wm_resize_window ev pt i w h s"
| "wm_exec ev pt (Minimize i) s = wm_minimize_window ev pt i s"
| "wm_exec ev pt (Maximize i) s = wm_maximize_window ev pt i s"
| "wm_exec ev pt (Set_title i t) s = wm_set_title pt i t s"
| "wm_exec ev pt (Invalidate i) s = wm_invalidate pt i s"
| "wm_exec ev pt Repaint s = wm_repaint pt s"
| "wm_exec ev pt (Press c) s = wm_key ev pt c s"

fun wm_run :: "('h, 'u) event_call \<Rightarrow> ('h, 'u) paint_call \<Rightarrow> 'h wm_call list \<Rightarrow> ('h, 'u) wm \<Rightarrow> ('h, 'u) wm option" where
  "wm_run ev pt [] s = Some s"
| "wm_run ev pt (c # cs) s = Option.bind (wm_exec ev pt c s) (wm_run ev pt cs)"

text \<open>No call names window 0, the mark of a free slot.\<close>

fun names_window :: "'h wm_call \<Rightarrow> bool" where
  "names_window (Destroy i) = (i \<noteq> 0)"
| "names_window (Close i) = (i \<noteq> 0)"
| "names_window (Show i) = (i \<noteq> 0)"
| "names_window (Focus i) = (i \<noteq> 0)"
| "names_window (Move i x y) = (i \<noteq> 0)"
| "names_window (Resize i w h) = (i \<noteq> 0)"
| "names_window _ = True"

text \<open>The contract of the handlers: called for its own window, an event handler that returns has left the manager's variables alone, and so has a paint handler.\<close>

locale wm_callbacks =
  fixes ev :: "('h, 'u) event_call" and pt :: "('h, 'u) paint_call"
  assumes ev_same: "wm_find_window wid s = Some k \<Longrightarrow> on_event (g_windows s ! k) = Some h \<Longrightarrow> ev h wid e p q s = Some t \<Longrightarrow> wm_same s t"
    and pt_same: "pt h wid x y w z s = Some t \<Longrightarrow> wm_same s t"
begin

lemma send_same: "wm_find_window wid s = Some k \<Longrightarrow> send_event ev (on_event (g_windows s ! k)) wid e p q s = Some t \<Longrightarrow> wm_same s t"
  by (auto simp: send_event_def ev_same split: option.splits)

lemma on_display_same: "on_display f s = Some t \<Longrightarrow> wm_same s t"
  by (auto simp: on_display_def split: option.splits)

lemma paint_window_same: "wm_paint_window pt w s = Some t \<Longrightarrow> wm_same s t"
  unfolding wm_paint_window_def Let_def
  by (auto split: option.splits if_splits dest: on_display_same intro: wm_same_trans [OF on_display_same pt_same])

lemma repaint_below_same: "repaint_below pt n s = Some t \<Longrightarrow> wm_same s t"
proof (induction n arbitrary: s)
  case (Suc i)
  then obtain u where "repaint_below pt i u = Some t" "wm_same s u"
    by (auto split: option.splits if_splits dest: paint_window_same)
  with Suc.IH wm_same_trans show ?case by blast
qed simp

lemma repaint_same: "wm_repaint pt s = Some t \<Longrightarrow> wm_same s t"
  unfolding wm_repaint_def wm_paint_mouse_def
  by (auto simp: bind_eq_Some_conv intro: wm_same_trans [OF repaint_below_same on_display_same])

lemma redraw_same: "redraw_all pt s = Some t \<Longrightarrow> wm_same s t"
  unfolding redraw_all_def wm_paint_desktop_def by (metis repaint_same wm_same_display wm_same_trans)

lemma invalidate_same: "wm_invalidate pt wid s = Some t \<Longrightarrow> wm_same s t"
  unfolding wm_invalidate_def by (auto split: option.splits if_splits dest: paint_window_same)

lemmas same_inv = inv_same [OF send_same] inv_same [OF on_display_same] inv_same [OF repaint_same] inv_same [OF redraw_same] inv_same [OF invalidate_same]

lemma bind_redraw_inv:
  "wm_find_window wid s = Some k \<Longrightarrow> Option.bind (send_event ev (on_event (g_windows s ! k)) wid e p q s) (redraw_all pt) = Some t \<Longrightarrow> wm_inv s \<Longrightarrow> wm_inv t"
  by (auto simp: bind_eq_Some_conv dest: same_inv)

lemma unfocus_inv: "unfocus_old ev s = Some t \<Longrightarrow> wm_inv s \<Longrightarrow> wm_inv t \<and> live t = live s \<and> stack t = stack s \<and> (\<forall>i. wm_find_window i t = wm_find_window i s)"
proof -
  assume u: "unfocus_old ev s = Some t" and s: "wm_inv s"
  show ?thesis
  proof (cases "g_focused_id s \<ge> 0 \<and> (\<exists>k. wm_find_window (g_focused_id s) s = Some k)")
    case True
    then obtain k where k: "wm_find_window (g_focused_id s) s = Some k" by blast
    define v where "v = upd_window k (clear_flag WM_FLAG_FOCUSED) s"
    have v: "wm_inv v" unfolding v_def using s find_window_some [OF k] by (intro inv_upd) (auto simp: clear_flag_def window_ok_def)
    have l: "live v = live s" "stack v = stack s"
      by (simp_all add: v_def live_def stack_def upd_window_def clear_flag_def map_update) (metis list_update_id length_map nth_map list_update_beyond linorder_le_less_linear)
    have f: "wm_find_window i v = wm_find_window i s" for i unfolding v_def by (rule find_upd) (simp add: clear_flag_def)
    from u True k obtain w where w: "send_event ev (on_event (g_windows v ! k)) (g_focused_id v) WM_EVENT_UNFOCUS 0 0 v = Some w"
      "on_display (wm_paint_titlebar (g_windows w ! k)) w = Some t"
      by (auto simp: unfocus_old_def Let_def v_def upd_window_def split: option.splits)
    have "wm_find_window (g_focused_id v) v = Some k" unfolding f using k by (simp add: v_def upd_window_def)
    note same = wm_same_trans [OF send_same [OF this w(1)] on_display_same [OF w(2)]]
    show ?thesis using inv_same [OF same v] l f wm_same_fields [OF same] by (simp add: live_def stack_def wm_find_window_def)
  next
    case False
    then have "t = s" using u by (auto simp: unfocus_old_def split: if_splits option.splits)
    then show ?thesis using s by simp
  qed
qed

lemma focus_inv:
  assumes "wm_focus_window ev wid s = Some t" "wm_inv s" "wid \<noteq> 0"
  shows "wm_inv t"
proof (cases "g_focused_id s = wid \<or> wm_find_window wid s = None \<or> (\<exists>k. wm_find_window wid s = Some k \<and> \<not> has_flag WM_FLAG_VISIBLE (g_windows s ! k))")
  case True
  then have "t = s" using assms(1) by (auto simp: wm_focus_window_def split: if_splits option.splits)
  then show ?thesis using assms(2) by simp
next
  case False
  then obtain k where k: "wm_find_window wid s = Some k" and c: "g_focused_id s \<noteq> wid" "has_flag WM_FLAG_VISIBLE (g_windows s ! k)" by auto
  from assms(1) c k obtain u where u: "unfocus_old ev s = Some u" by (auto simp: wm_focus_window_def split: option.splits)
  have ui: "wm_inv u" "live u = live s" "wm_find_window wid u = Some k" using unfocus_inv [OF u assms(2)] k by auto
  define v where "v = upd_window k (set_flag WM_FLAG_FOCUSED) (u\<lparr>g_focused_id := wid\<rparr>)"
  have kk: "k < WM_MAX_WINDOWS" and wl: "wid \<in> set (live s)" using find_window_some [OF k] find_window_live [OF assms(2,3) k] by auto
  have vi: "wm_inv v" unfolding v_def using ui wl kk by (intro inv_upd inv_focus) (auto simp: set_flag_def window_ok_def)
  have "live v = live u"
    by (simp add: v_def live_def upd_window_def set_flag_def map_update) (metis list_update_id length_map nth_map list_update_beyond linorder_le_less_linear)
  with inv_front [OF vi, of wid] wl ui(2) obtain z n where f: "wm_bring_to_front wid v = Some (v\<lparr>g_zorder := z, g_zorder_count := n\<rparr>)"
    "wm_inv (v\<lparr>g_zorder := z, g_zorder_count := n\<rparr>)" by auto
  let ?x = "v\<lparr>g_zorder := z, g_zorder_count := n\<rparr>"
  from assms(1) c k u f(1) obtain w where "send_event ev (on_event (g_windows ?x ! k)) wid WM_EVENT_FOCUS 0 0 ?x = Some w"
    "on_display (wm_paint_titlebar (g_windows w ! k)) w = Some t"
    by (auto simp: wm_focus_window_def v_def split: option.splits)
  moreover have "wm_find_window wid ?x = Some k"
    using find_upd [of "set_flag WM_FLAG_FOCUSED" "u\<lparr>g_focused_id := wid\<rparr>" k wid] ui(3) by (simp add: v_def wm_find_window_def set_flag_def)
  ultimately show ?thesis using f(2) same_inv(1,2) by blast
qed

lemma refocus_inv:
  assumes "refocus_top ev s = Some t" "wm_inv s"
  shows "wm_inv t"
proof -
  define f where "f = (if g_zorder_count s > 0 then g_zorder s ! 0 else - 1)"
  define v where "v = s\<lparr>g_focused_id := f\<rparr>"
  have "f = - 1 \<or> f \<in> set (live s)" using stack_live [OF assms(2), of 0] by (simp add: f_def)
  then have v: "wm_inv v" unfolding v_def by (rule inv_focus [OF assms(2)])
  have e: "refocus_top ev s = (if f \<ge> 0 then case wm_find_window f v of None \<Rightarrow> Some v
      | Some k \<Rightarrow> send_event ev (on_event (g_windows (upd_window k (set_flag WM_FLAG_FOCUSED) v) ! k)) f WM_EVENT_FOCUS 0 0 (upd_window k (set_flag WM_FLAG_FOCUSED) v)
      else Some v)"
    by (auto simp: refocus_top_def Let_def v_def f_def upd_window_def split: option.split)
  show ?thesis
  proof (cases "f \<ge> 0 \<and> (\<exists>k. wm_find_window f v = Some k)")
    case True
    then obtain k where k: "wm_find_window f v = Some k" by blast
    have "wm_inv (upd_window k (set_flag WM_FLAG_FOCUSED) v)"
      using v find_window_some [OF k] by (intro inv_upd) (auto simp: set_flag_def window_ok_def)
    moreover have "wm_find_window f (upd_window k (set_flag WM_FLAG_FOCUSED) v) = Some k"
      using k find_upd [of "set_flag WM_FLAG_FOCUSED" v k f] by (simp add: set_flag_def)
    ultimately show ?thesis using assms(1) True k unfolding e by (auto intro: same_inv(1))
  next
    case False
    then have "t = v" using assms(1) unfolding e by (auto split: if_splits option.splits)
    with v show ?thesis by simp
  qed
qed

lemma destroy_inv:
  assumes "wm_destroy_window ev pt wid s = Some t" "wm_inv s" "wid \<noteq> 0"
  shows "wm_inv t"
proof (cases "wm_find_window wid s")
  case None
  then show ?thesis using assms by (simp add: wm_destroy_window_def)
next
  case (Some k)
  from assms(1) Some obtain u where u: "send_event ev (on_event (g_windows s ! k)) wid WM_EVENT_CLOSE 0 0 s = Some u"
    by (auto simp: wm_destroy_window_def split: option.splits)
  note same = send_same [OF Some u]
  have ui: "wm_inv u" using inv_same [OF same assms(2)] .
  have uf: "wm_find_window wid u = Some k" using Some wm_same_fields [OF same] by (simp add: wm_find_window_def)
  define v where "v = (upd_window k (\<lambda>w. w\<lparr>win_id := 0\<rparr>) (zorder_remove wid u))\<lparr>g_window_count := g_window_count u - 1\<rparr>"
  have le: "g_zorder_count u \<le> length (g_zorder u)" using ui by (simp add: wm_inv_def)
  have c: "g_window_count (zorder_remove wid u) = g_window_count u" "g_focused_id (zorder_remove wid u) = g_focused_id u"
    by (subst zorder_remove_eq(4) [OF le], simp)+
  have vf: "g_focused_id v = g_focused_id u" by (simp add: v_def upd_window_def c)
  have v0: "v\<lparr>g_focused_id := f\<rparr> = (upd_window k (\<lambda>w. w\<lparr>win_id := 0\<rparr>) (zorder_remove wid u))\<lparr>g_window_count := g_window_count u - 1, g_focused_id := f\<rparr>" for f
    by (simp add: v_def)
  have sz: "(upd_window k (\<lambda>w. w\<lparr>win_id := 0\<rparr>) (zorder_remove wid u))\<lparr>g_window_count := g_window_count (zorder_remove wid u) - 1\<rparr> = v"
    by (simp add: v_def c)
  from assms(1) Some u sz obtain x where x: "(if g_focused_id v = wid then refocus_top ev v else Some v) = Some x" "redraw_all pt x = Some t"
    by (auto simp: wm_destroy_window_def Let_def split: option.splits)
  have "wm_inv x"
  proof (cases "g_focused_id v = wid")
    case True
    have v1: "wm_inv (v\<lparr>g_focused_id := - 1\<rparr>)" using inv_removed(1) [OF ui uf assms(3) v0] by simp
    have "refocus_top ev v = refocus_top ev (v\<lparr>g_focused_id := - 1\<rparr>)" by (simp add: refocus_top_def)
    then show ?thesis using x(1) True refocus_inv [OF _ v1] by simp
  next
    case False
    have "g_focused_id u = - 1 \<or> g_focused_id u \<in> set (live u) - {wid}" using ui False vf by (auto simp: wm_inv_def)
    moreover have "v = v\<lparr>g_focused_id := g_focused_id u\<rparr>" using vf by (metis wm.surjective wm.update_convs(3) wm.select_convs(3))
    ultimately have "wm_inv v" using inv_removed(1) [OF ui uf assms(3) v0] by metis
    then show ?thesis using x(1) False by simp
  qed
  then show ?thesis using same_inv(4) [OF x(2)] by blast
qed

lemma show_inv: "wm_show_window ev pt wid s = Some t \<Longrightarrow> wm_inv s \<Longrightarrow> wid \<noteq> 0 \<Longrightarrow> wm_inv t"
proof -
  assume a: "wm_show_window ev pt wid s = Some t" "wm_inv s" "wid \<noteq> 0"
  show ?thesis
  proof (cases "wm_find_window wid s")
    case None
    then show ?thesis using a by (simp add: wm_show_window_def)
  next
    case (Some k)
    let ?v = "upd_window k (set_flag WM_FLAG_VISIBLE) s"
    have "wm_inv ?v" using a(2) find_window_some [OF Some] by (intro inv_upd) (auto simp: set_flag_def window_ok_def)
    then show ?thesis using a(1,3) Some by (auto simp: wm_show_window_def bind_eq_Some_conv dest: same_inv(5) focus_inv)
  qed
qed

text \<open>The operations that change one window and redraw.\<close>

lemma update_redraw_inv:
  assumes "wm_inv s" "wm_find_window wid s = Some k" "win_id (f (g_windows s ! k)) = win_id (g_windows s ! k)"
    "window_ok (g_windows s ! k) \<Longrightarrow> window_ok (f (g_windows s ! k))"
    "on_event (f (g_windows s ! k)) = on_event (g_windows s ! k)"
    "Option.bind (send_event ev (on_event (g_windows s ! k)) wid e p q (upd_window k f s)) (redraw_all pt) = Some t"
  shows "wm_inv t"
proof -
  have "wm_find_window wid (upd_window k f s) = Some k" using find_upd [of f s k wid] assms(2,3) by simp
  from bind_redraw_inv [OF this] show ?thesis
    using assms(6) on_event_upd [of f s k] assms(5) inv_upd [where f = f, OF assms(1) _ assms(3,4)] find_window_some [OF assms(2)] by simp
qed

lemma hide_inv: "wm_hide_window pt wid s = Some t \<Longrightarrow> wm_inv s \<Longrightarrow> wm_inv t"
proof -
  assume a: "wm_hide_window pt wid s = Some t" "wm_inv s"
  show ?thesis
  proof (cases "wm_find_window wid s")
    case None
    then show ?thesis using a by (simp add: wm_hide_window_def)
  next
    case (Some k)
    let ?v = "upd_window k (clear_flag WM_FLAG_VISIBLE) s"
    have "wm_inv ?v" using a(2) find_window_some [OF Some] by (intro inv_upd) (auto simp: clear_flag_def window_ok_def)
    then have "wm_inv (if g_focused_id ?v = wid then ?v\<lparr>g_focused_id := - 1\<rparr> else ?v)" by (simp add: inv_focus)
    then show ?thesis using a(1) Some same_inv(4) unfolding wm_hide_window_def Let_def by auto
  qed
qed

lemma move_inv:
  assumes "wm_move_window ev pt wid x y s = Some t" "wm_inv s" "wid \<noteq> 0"
  shows "wm_inv t"
proof (cases "wm_find_window wid s")
  case None
  then show ?thesis using assms by (simp add: wm_move_window_def)
next
  case (Some k)
  obtain x' y' where c: "clamp_pos x y (rwidth (bounds (g_windows s ! k))) (rheight (bounds (g_windows s ! k))) = (x', y')" by fastforce
  have w: "window_ok (g_windows s ! k)" "win_id (g_windows s ! k) = wid"
    using assms(2) find_window_some [OF Some] by (auto simp: wm_inv_def list_all_length)
  show ?thesis
  proof (cases "has_flag WM_FLAG_MOVABLE (g_windows s ! k)")
    case True
    have "window_ok ((g_windows s ! k)\<lparr>bounds := (bounds (g_windows s ! k))\<lparr>rx := x', ry := y'\<rparr>\<rparr>)"
      using w clamp_ok(2) [OF c] assms(3) by (auto simp: window_ok_def rect_ok_def)
    with True Some c assms(1) show ?thesis
      by (intro update_redraw_inv [OF assms(2) Some, of "\<lambda>w. w\<lparr>bounds := (bounds w)\<lparr>rx := x', ry := y'\<rparr>\<rparr>"]) (auto simp: wm_move_window_def Let_def)
  next
    case False
    then show ?thesis using assms Some by (simp add: wm_move_window_def Let_def)
  qed
qed

lemma resize_inv:
  assumes "wm_resize_window ev pt wid x y s = Some t" "wm_inv s" "wid \<noteq> 0"
  shows "wm_inv t"
proof (cases "wm_find_window wid s")
  case None
  then show ?thesis using assms by (simp add: wm_resize_window_def)
next
  case (Some k)
  obtain x' y' where c: "clamp_size x y = (x', y')" by fastforce
  have w: "window_ok (g_windows s ! k)" "win_id (g_windows s ! k) = wid"
    using assms(2) find_window_some [OF Some] by (auto simp: wm_inv_def list_all_length)
  show ?thesis
  proof (cases "has_flag WM_FLAG_RESIZABLE (g_windows s ! k)")
    case True
    have "window_ok ((g_windows s ! k)\<lparr>bounds := (bounds (g_windows s ! k))\<lparr>rwidth := x', rheight := y'\<rparr>\<rparr>)"
      using w clamp_ok(1) [OF c] assms(3) by (auto simp: window_ok_def rect_ok_def)
    with True Some c assms(1) show ?thesis
      by (intro update_redraw_inv [OF assms(2) Some, of "\<lambda>w. w\<lparr>bounds := (bounds w)\<lparr>rwidth := x', rheight := y'\<rparr>\<rparr>"]) (auto simp: wm_resize_window_def Let_def)
  next
    case False
    then show ?thesis using assms Some by (simp add: wm_resize_window_def Let_def)
  qed
qed

lemma minimize_inv: "wm_minimize_window ev pt wid s = Some t \<Longrightarrow> wm_inv s \<Longrightarrow> wm_inv t"
proof (cases "wm_find_window wid s")
  case (Some k)
  assume a: "wm_minimize_window ev pt wid s = Some t" "wm_inv s"
  show ?thesis
    by (rule update_redraw_inv [OF a(2) Some, of "\<lambda>w. clear_flag WM_FLAG_MAXIMIZED (set_flag WM_FLAG_MINIMIZED w)"])
      (use a(1) Some in \<open>auto simp: wm_minimize_window_def on_event_upd Let_def clear_flag_def set_flag_def window_ok_def\<close>)
qed (simp add: wm_minimize_window_def)

lemma maximize_inv: "wm_maximize_window ev pt wid s = Some t \<Longrightarrow> wm_inv s \<Longrightarrow> wm_inv t"
proof (cases "wm_find_window wid s")
  case (Some k)
  assume a: "wm_maximize_window ev pt wid s = Some t" "wm_inv s"
  show ?thesis
  proof (cases "has_flag WM_FLAG_MAXIMIZED (g_windows s ! k)")
    case True
    show ?thesis
      by (rule update_redraw_inv [OF a(2) Some, of "\<lambda>w. clear_flag WM_FLAG_MAXIMIZED (w\<lparr>bounds := old_bounds w\<rparr>)"])
        (use a(1) Some True in \<open>auto simp: wm_maximize_window_def on_event_upd Let_def clear_flag_def window_ok_def\<close>)
  next
    case False
    show ?thesis
      by (rule update_redraw_inv [OF a(2) Some, of "\<lambda>w. clear_flag WM_FLAG_MINIMIZED (set_flag WM_FLAG_MAXIMIZED
            (w\<lparr>old_bounds := bounds w, bounds := \<lparr>rx = 0, ry = 0, rwidth = VGA12_WIDTH, rheight = VGA12_HEIGHT\<rparr>\<rparr>))"])
        (use a(1) Some False in \<open>auto simp: wm_maximize_window_def on_event_upd Let_def clear_flag_def set_flag_def window_ok_def rect_ok_def
            VGA12_WIDTH_def VGA12_HEIGHT_def WM_MIN_WIDTH_def WM_MIN_HEIGHT_def\<close>)
  qed
qed (simp add: wm_maximize_window_def)

lemma set_title_inv: "wm_set_title pt wid ttl s = Some t \<Longrightarrow> wm_inv s \<Longrightarrow> wm_inv t"
proof (cases "wm_find_window wid s")
  case (Some k)
  assume a: "wm_set_title pt wid ttl s = Some t" "wm_inv s"
  have "wm_inv (upd_window k (\<lambda>w. w\<lparr>title := x\<rparr>) s)" for x
    using a(2) find_window_some [OF Some] by (intro inv_upd) (auto simp: window_ok_def)
  then show ?thesis using a Some by (auto simp: wm_set_title_def dest: same_inv(5) split: option.splits)
qed (simp add: wm_set_title_def)

lemma key_inv: "wm_key ev pt c s = Some t \<Longrightarrow> wm_inv s \<Longrightarrow> wm_inv t"
proof -
  assume a: "wm_key ev pt c s = Some t" "wm_inv s"
  have f: "g_focused_id s \<ge> 0 \<Longrightarrow> g_focused_id s \<noteq> 0" using a(2) by (fastforce simp: wm_inv_def)
  have z: "g_zorder_count s > 1 \<Longrightarrow> g_zorder s ! 1 \<noteq> 0" using stack_live [OF a(2), of 1] a(2) by (fastforce simp: wm_inv_def)
  show ?thesis
    using a f z unfolding wm_key_def wm_close_window_def
    by (auto split: if_splits option.splits dest: destroy_inv focus_inv same_inv(1))
qed

lemma exec_inv: "wm_exec ev pt c s = Some t \<Longrightarrow> wm_inv s \<Longrightarrow> names_window c \<Longrightarrow> wm_inv t"
proof (cases c)
  case (Create ttl x y w h fl p e)
  assume "wm_exec ev pt c s = Some t" "wm_inv s"
  then show ?thesis using create_spec [of s ttl x y w h fl p e] Create by auto
qed (auto simp: wm_close_window_def dest: destroy_inv show_inv hide_inv focus_inv move_inv resize_inv minimize_inv maximize_inv set_title_inv key_inv same_inv(3,5))

lemma run_inv: "wm_run ev pt cs s = Some t \<Longrightarrow> wm_inv s \<Longrightarrow> list_all names_window cs \<Longrightarrow> wm_inv t"
  by (induction cs arbitrary: s) (auto simp: bind_eq_Some_conv dest: exec_inv)

text \<open>Hiding the window that has the focus leaves its focus flag set, while the manager no longer knows of it.\<close>

lemma hide_keeps_focus_flag:
  assumes "wm_hide_window pt wid s = Some t" "wm_find_window wid s = Some k" "g_focused_id s = wid" "has_flag WM_FLAG_FOCUSED (g_windows s ! k)" "wm_inv s"
  shows "g_focused_id t = - 1 \<and> has_flag WM_FLAG_FOCUSED (g_windows t ! k) \<and> \<not> has_flag WM_FLAG_VISIBLE (g_windows t ! k)"
proof -
  let ?v = "(upd_window k (clear_flag WM_FLAG_VISIBLE) s)\<lparr>g_focused_id := - 1\<rparr>"
  have "redraw_all pt ?v = Some t" using assms(1-3) by (simp add: wm_hide_window_def Let_def upd_window_def)
  from wm_same_fields [OF redraw_same [OF this]] have t: "g_windows t = g_windows ?v" "g_focused_id t = - 1" by simp_all
  have "k < length (g_windows s)" using find_window_some [OF assms(2)] assms(5) by (simp add: wm_inv_def)
  then have "g_windows t ! k = clear_flag WM_FLAG_VISIBLE (g_windows s ! k)" by (simp add: t upd_window_def)
  moreover have "(f AND NOT WM_FLAG_VISIBLE) AND WM_FLAG_FOCUSED = f AND WM_FLAG_FOCUSED" "(f AND NOT WM_FLAG_VISIBLE) AND WM_FLAG_VISIBLE = 0" for f
    by (rule bit_word_eqI; auto simp: bit_simps WM_FLAG_VISIBLE_def WM_FLAG_FOCUSED_def bit_2_iff bit_1_iff)+
  ultimately show ?thesis using assms(4) t(2) by (simp add: has_flag_def clear_flag_def)
qed

end

section \<open>The life of the manager\<close>

lemma wm_init_inv:
  assumes "wm_init s0 = Some (True, s)" "length (g_windows s0) = WM_MAX_WINDOWS" "length (g_zorder s0) = WM_MAX_WINDOWS"
  shows "wm_inv s"
proof -
  from assms(1) obtain g where s: "s = wm_paint_desktop (s0\<lparr>display := g, g_windows := map (\<lambda>w. w\<lparr>win_id := 0\<rparr>) (g_windows s0),
      g_window_count := 0, g_zorder_count := 0, g_focused_id := - 1, g_next_id := 1\<rparr>)"
    by (auto simp: wm_init_def split: prod.splits if_splits option.splits)
  have "live s = []" by (simp add: s wm_paint_desktop_def live_def o_def)
  then show ?thesis using assms(2,3) by (simp add: s wm_inv_def wm_paint_desktop_def stack_def live_def list_all_iff window_ok_def)
qed

end
