(* ===== verification/Wm_Paint.thy ===== *)
theory Wm_Paint
  imports Wm_Spec
begin

text \<open>
  What the window manager shows.  Every painting operation is a painter in mode 12h; a window whose title and paint handler keep to it covers exactly its
  rectangle.  The window found at a position is the one whose pixels are seen there.
\<close>

unbundle bit_operations_syntax

abbreviation M12 :: u8 where "M12 \<equiv> VGA_MODE_12H"

section \<open>Confined painters\<close>

lemma drawsD: "draws ok pic f st \<Longrightarrow> ok s \<Longrightarrow> \<exists>s'. f s = Some s' \<and> ok s' \<and> pic s' = pic s ++ st"
  by (simp add: draws_def)

lemma within_frame: "x \<le> x' \<Longrightarrow> x' + w' \<le> x + w \<Longrightarrow> y \<le> y' \<Longrightarrow> y' + h' \<le> y + h \<Longrightarrow> 1 \<le> w' \<Longrightarrow> 1 \<le> h' \<Longrightarrow> within x y w h (frame m x' y' w' h' c)"
  unfolding frame_def by (intro within_add within_box) auto

lemma within_line:
  assumes "line_points x1 y1 x2 y2 S" "x \<le> min x1 x2" "max x1 x2 < x + w" "y \<le> min y1 y2" "max y1 y2 < y + h"
  shows "within x y w h (dots m S c)"
proof -
  have "x \<le> fst p \<and> fst p < x + w \<and> y \<le> snd p \<and> snd p < y + h" if "p \<in> S" for p
    using assms that unfolding line_points_def by (cases p) fastforce
  then show ?thesis unfolding within_def dots_def by (auto split: if_splits)
qed

lemma line_within:
  assumes "x \<le> min x1 x2" "max x1 x2 < x + w" "y \<le> min y1 y2" "max y1 y2 < y + h"
  shows "\<exists>st. draws (gfx_ok m) (picture m) (gfx_draw_line x1 y1 x2 y2 c) st \<and> within x y w h st"
  using line_draws [of x1 y1 x2 y2 m c] within_line [OF _ assms] by blast

text \<open>Buttons in the title bar.\<close>

lemmas wm_sizes = WM_TITLE_HEIGHT_def WM_BORDER_WIDTH_def WM_BUTTON_SIZE_def WM_MIN_WIDTH_def WM_MIN_HEIGHT_def

lemma button_paints:
  assumes "rx b \<le> bx" "bx + 16 \<le> rx b + rwidth b" "60 \<le> rheight b"
  shows "within (rx b) (ry b) (rwidth b) (rheight b)
    (box m bx (ry b + WM_BORDER_WIDTH + 2) WM_BUTTON_SIZE (WM_BUTTON_SIZE - 4) c ++ frame m bx (ry b + WM_BORDER_WIDTH + 2) WM_BUTTON_SIZE (WM_BUTTON_SIZE - 4) c')"
  using assms by (intro within_add within_box within_frame) (auto simp: wm_sizes)

lemma close_button_draws:
  assumes "100 \<le> rwidth b" "60 \<le> rheight b"
  shows "\<exists>st. draws (gfx_ok m) (picture m) (paint_close_button b) st \<and> within (rx b) (ry b) (rwidth b) (rheight b) st"
proof -
  let ?bx = "rx b + rwidth b - WM_BORDER_WIDTH - WM_BUTTON_SIZE - 2" and ?y = "ry b + WM_BORDER_WIDTH"
  let ?l1 = "gfx_draw_line (?bx + 3) (?y + 4) (?bx + WM_BUTTON_SIZE - 4) (?y + WM_BUTTON_SIZE - 6) COLOR_BLACK"
  let ?l2 = "gfx_draw_line (?bx + WM_BUTTON_SIZE - 4) (?y + 4) (?bx + 3) (?y + WM_BUTTON_SIZE - 6) COLOR_BLACK"
  let ?st = "box m ?bx (?y + 2) WM_BUTTON_SIZE (WM_BUTTON_SIZE - 4) GUI_COLOR_BUTTON_BG ++ frame m ?bx (?y + 2) WM_BUTTON_SIZE (WM_BUTTON_SIZE - 4) COLOR_BLACK"
  have "\<exists>st. draws (gfx_ok m) (picture m) ?l1 st \<and> within (rx b) (ry b) (rwidth b) (rheight b) st"
    "\<exists>st. draws (gfx_ok m) (picture m) ?l2 st \<and> within (rx b) (ry b) (rwidth b) (rheight b) st"
    using assms by (intro line_within; simp add: wm_sizes)+
  then obtain s1 s2 where l: "draws (gfx_ok m) (picture m) ?l1 s1" "within (rx b) (ry b) (rwidth b) (rheight b) s1"
    "draws (gfx_ok m) (picture m) ?l2 s2" "within (rx b) (ry b) (rwidth b) (rheight b) s2" by blast
  have "draws (gfx_ok m) (picture m) (paint_close_button b) (?st ++ (s1 ++ s2))"
    unfolding paint_close_button_def [abs_def] Let_def
    by (rule draws_after [OF paints_comp [OF fill_rect_paints rect_paints] draws_bind [OF l(1,3)]])
  moreover have "within (rx b) (ry b) (rwidth b) (rheight b) (?st ++ (s1 ++ s2))"
    using assms by (intro within_add [OF button_paints within_add [OF l(2,4)]]) (simp_all add: wm_sizes)
  ultimately show ?thesis by blast
qed

lemma min_button_paints:
  assumes "100 \<le> rwidth b" "60 \<le> rheight b"
  shows "\<exists>st. paints (gfx_ok m) (picture m) (paint_min_button b) st \<and> within (rx b) (ry b) (rwidth b) (rheight b) st"
proof -
  let ?bx = "rx b + rwidth b - WM_BORDER_WIDTH - 2 * WM_BUTTON_SIZE - 4" and ?y = "ry b + WM_BORDER_WIDTH"
  let ?st = "(box m ?bx (?y + 2) WM_BUTTON_SIZE (WM_BUTTON_SIZE - 4) GUI_COLOR_BUTTON_BG ++ frame m ?bx (?y + 2) WM_BUTTON_SIZE (WM_BUTTON_SIZE - 4) COLOR_BLACK) ++
    box m (?bx + 3) (?y + WM_BUTTON_SIZE - 6) (WM_BUTTON_SIZE - 6) 1 COLOR_BLACK"
  have "paints (gfx_ok m) (picture m) (paint_min_button b) ?st"
    unfolding paint_min_button_def [abs_def] Let_def by (intro paints_comp fill_rect_paints rect_paints hline_paints)
  moreover have "within (rx b) (ry b) (rwidth b) (rheight b) ?st"
    using assms by (intro within_add [OF button_paints within_box]) (simp_all add: wm_sizes)
  ultimately show ?thesis by blast
qed

lemma max_button_paints:
  assumes "100 \<le> rwidth b" "60 \<le> rheight b"
  shows "\<exists>st. paints (gfx_ok m) (picture m) (paint_max_button b) st \<and> within (rx b) (ry b) (rwidth b) (rheight b) st"
proof -
  let ?bx = "rx b + rwidth b - WM_BORDER_WIDTH - 3 * WM_BUTTON_SIZE - 6" and ?y = "ry b + WM_BORDER_WIDTH"
  let ?st = "(box m ?bx (?y + 2) WM_BUTTON_SIZE (WM_BUTTON_SIZE - 4) GUI_COLOR_BUTTON_BG ++ frame m ?bx (?y + 2) WM_BUTTON_SIZE (WM_BUTTON_SIZE - 4) COLOR_BLACK) ++
    frame m (?bx + 3) (?y + 4) (WM_BUTTON_SIZE - 6) (WM_BUTTON_SIZE - 8) COLOR_BLACK"
  have "paints (gfx_ok m) (picture m) (paint_max_button b) ?st"
    unfolding paint_max_button_def [abs_def] Let_def by (intro paints_comp fill_rect_paints rect_paints)
  moreover have "within (rx b) (ry b) (rwidth b) (rheight b) ?st"
    using assms by (intro within_add [OF button_paints within_frame]) (simp_all add: wm_sizes)
  ultimately show ?thesis by blast
qed

section \<open>A window covers its rectangle\<close>

text \<open>The title fits between the left border and the right edge.\<close>

definition title_fits :: "'h window \<Rightarrow> bool" where
  "title_fits w \<longleftrightarrow> 0x0A \<notin> set (str_of (title w)) \<and> 6 + FONT_WIDTH * int (length (str_of (title w))) \<le> rwidth (bounds w)"

definition body_map :: "u8 \<Rightarrow> rect \<Rightarrow> (int \<times> int) \<rightharpoonup> u8" where
  "body_map m b =
     ((((frame m (rx b) (ry b) (rwidth b) (rheight b) GUI_COLOR_BORDER ++ box m (rx b + 1) (ry b + 1) (rwidth b - 2) 1 COLOR_WHITE) ++
        box m (rx b + 1) (ry b + 1) 1 (rheight b - 2) COLOR_WHITE) ++ box m (rx b + 1) (ry b + rheight b - 2) (rwidth b - 2) 1 COLOR_DARK_GRAY) ++
        box m (rx b + rwidth b - 2) (ry b + 1) 1 (rheight b - 2) COLOR_DARK_GRAY) ++
        box m (rx b + WM_BORDER_WIDTH) (ry b + WM_BORDER_WIDTH + WM_TITLE_HEIGHT) (rwidth b - 2 * WM_BORDER_WIDTH)
          (rheight b - 2 * WM_BORDER_WIDTH - WM_TITLE_HEIGHT) GUI_COLOR_WINDOW_BG"

lemma body_paints: "paints (gfx_ok m) (picture m) (paint_window_body b) (body_map m b)"
  unfolding paint_window_body_def [abs_def] body_map_def Let_def by (intro paints_comp rect_paints hline_paints vline_paints fill_rect_paints)

definition in_rect :: "int \<Rightarrow> int \<Rightarrow> int \<Rightarrow> int \<Rightarrow> int \<times> int \<Rightarrow> bool" where
  "in_rect x y w h p \<longleftrightarrow> x \<le> fst p \<and> fst p < x + w \<and> y \<le> snd p \<and> snd p < y + h"

lemma dom_box: "p \<in> dom (box m x y w h c) \<longleftrightarrow> on_screen m p \<and> in_rect x y w h p"
  by (auto simp: box_def ink_def dom_def in_rect_def split: if_splits)

lemma within_in_rect: "within x y w h st \<Longrightarrow> p \<in> dom st \<Longrightarrow> in_rect x y w h p"
  by (simp add: within_def in_rect_def)

lemma dom_cover:
  assumes "\<And>p. p \<in> dom A \<longleftrightarrow> on p \<and> R p" "\<And>p. p \<in> dom B \<Longrightarrow> R p" "\<And>p. p \<in> dom (A ++ B) \<Longrightarrow> on p"
  shows "dom (A ++ B) = {p. on p \<and> R p}"
  using assms unfolding dom_map_add by blast

lemma window_pieces:
  assumes "100 \<le> w" "60 \<le> h" "in_rect x y w h p"
  shows "in_rect x y w 1 p \<or> in_rect x (y + h - 1) w 1 p \<or> in_rect x y 1 h p \<or> in_rect (x + w - 1) y 1 h p \<or>
    in_rect (x + 1) (y + 1) (w - 2) 1 p \<or> in_rect (x + 1) (y + 1) 1 (h - 2) p \<or> in_rect (x + 1) (y + h - 2) (w - 2) 1 p \<or>
    in_rect (x + w - 2) (y + 1) 1 (h - 2) p \<or> in_rect (x + 2) (y + 2 + 20) (w - 2 * 2) (h - 2 * 2 - 20) p \<or> in_rect (x + 2) (y + 2) (w - 2 * 2) 20 p"
proof -
  define u v where "u = fst p" and "v = snd p"
  have r: "x \<le> u" "u < x + w" "y \<le> v" "v < y + h" using assms(3) by (simp_all add: in_rect_def u_def v_def)
  have e: "in_rect a b c d p \<longleftrightarrow> a \<le> u \<and> u < a + c \<and> b \<le> v \<and> v < b + d" for a b c d by (simp add: in_rect_def u_def v_def)
  from r consider "u = x" | "u = x + w - 1" | "v = y" | "v = y + h - 1" | "x + 1 \<le> u" "u \<le> x + w - 2" "y + 1 \<le> v" "v \<le> y + h - 2" by linarith
  then show ?thesis
  proof cases
    case 5
    then consider "u = x + 1" | "u = x + w - 2" | "v = y + 1" | "v = y + h - 2"
      | "x + 2 \<le> u" "u < x + w - 2" "y + 2 \<le> v" "v < y + 22" | "x + 2 \<le> u" "u < x + w - 2" "y + 22 \<le> v" "v < y + h - 2" by linarith
    then show ?thesis
    proof cases
      case 1
      then have "in_rect (x + 1) (y + 1) 1 (h - 2) p" unfolding e using 5 by linarith
      then show ?thesis by blast
    next
      case 2
      then have "in_rect (x + w - 2) (y + 1) 1 (h - 2) p" unfolding e using 5 by linarith
      then show ?thesis by blast
    next
      case 3
      then have "in_rect (x + 1) (y + 1) (w - 2) 1 p" unfolding e using 5 by linarith
      then show ?thesis by blast
    next
      case 4
      then have "in_rect (x + 1) (y + h - 2) (w - 2) 1 p" unfolding e using 5 by linarith
      then show ?thesis by blast
    next
      case c5: 5
      then have "in_rect (x + 2) (y + 2) (w - 2 * 2) 20 p" unfolding e by linarith
      then show ?thesis by blast
    next
      case 6
      then have "in_rect (x + 2) (y + 2 + 20) (w - 2 * 2) (h - 2 * 2 - 20) p" unfolding e by linarith
      then show ?thesis by blast
    qed
  qed (use r e in auto)
qed

lemma dom_body:
  assumes "100 \<le> rwidth b" "60 \<le> rheight b"
  shows "p \<in> dom (body_map m b ++ box m (rx b + WM_BORDER_WIDTH) (ry b + WM_BORDER_WIDTH) (rwidth b - 2 * WM_BORDER_WIDTH) WM_TITLE_HEIGHT c) \<longleftrightarrow>
    on_screen m p \<and> in_rect (rx b) (ry b) (rwidth b) (rheight b) p"
proof
  have w: "within (rx b) (ry b) (rwidth b) (rheight b)
      (body_map m b ++ box m (rx b + WM_BORDER_WIDTH) (ry b + WM_BORDER_WIDTH) (rwidth b - 2 * WM_BORDER_WIDTH) WM_TITLE_HEIGHT c)"
    unfolding body_map_def using assms by (intro within_add within_frame within_box) (simp_all add: wm_sizes)
  assume p: "p \<in> dom (body_map m b ++ box m (rx b + WM_BORDER_WIDTH) (ry b + WM_BORDER_WIDTH) (rwidth b - 2 * WM_BORDER_WIDTH) WM_TITLE_HEIGHT c)"
  then have "on_screen m p" unfolding body_map_def frame_def dom_map_add Un_iff dom_box by blast
  with within_in_rect [OF w p] show "on_screen m p \<and> in_rect (rx b) (ry b) (rwidth b) (rheight b) p" by (rule conjI [rotated])
next
  assume "on_screen m p \<and> in_rect (rx b) (ry b) (rwidth b) (rheight b) p"
  then show "p \<in> dom (body_map m b ++ box m (rx b + WM_BORDER_WIDTH) (ry b + WM_BORDER_WIDTH) (rwidth b - 2 * WM_BORDER_WIDTH) WM_TITLE_HEIGHT c)"
    using window_pieces [OF assms, of "rx b" "ry b" p]
    unfolding body_map_def frame_def dom_map_add Un_iff dom_box WM_BORDER_WIDTH_def WM_TITLE_HEIGHT_def by blast
qed

lemma covers_in_rect: "covers w (fst p) (snd p) \<longleftrightarrow> in_rect (rx (bounds w)) (ry (bounds w)) (rwidth (bounds w)) (rheight (bounds w)) p"
  by (auto simp: covers_def in_rect_def)

text \<open>A stencil lies on the screen.\<close>

lemma draws_on_screen: "draws (gfx_ok M12) (picture M12) f st \<Longrightarrow> p \<in> dom st \<Longrightarrow> on_screen M12 p"
proof -
  assume d: "draws (gfx_ok M12) (picture M12) f st" and p: "p \<in> dom st"
  have "gfx_ok M12 (snd (graphics_init M12 blank_gfx))" using init_ok by blast
  with d obtain g' where "picture M12 g' = picture M12 (snd (graphics_init M12 blank_gfx)) ++ st" unfolding draws_def by blast
  then have "p \<in> dom (picture M12 g')" using p by auto
  then show ?thesis unfolding dom_picture by blast
qed

lemma window_frame_draws:
  assumes "100 \<le> rwidth (bounds w)" "60 \<le> rheight (bounds w)" "has_flag WM_FLAG_HAS_TITLE w" "title_fits w"
  shows "\<exists>st. draws (gfx_ok M12) (picture M12) (\<lambda>g. wm_paint_titlebar w (paint_window_body (bounds w) g)) st \<and>
    dom st = {p. on_screen M12 p \<and> covers w (fst p) (snd p)}"
proof -
  let ?b = "bounds w"
  let ?bg = "if has_flag WM_FLAG_FOCUSED w then GUI_COLOR_TITLE_BG else GUI_COLOR_TITLE_INACTIVE"
  let ?fg = "if has_flag WM_FLAG_FOCUSED w then GUI_COLOR_TITLE_FG else COLOR_WHITE"
  let ?fill = "box M12 (rx ?b + WM_BORDER_WIDTH) (ry ?b + WM_BORDER_WIDTH) (rwidth ?b - 2 * WM_BORDER_WIDTH) WM_TITLE_HEIGHT ?bg"
  let ?tx = "rx ?b + WM_BORDER_WIDTH + 4" and ?ty = "ry ?b + WM_BORDER_WIDTH + (WM_TITLE_HEIGHT - FONT_HEIGHT) div 2"
  let ?in = "within (rx ?b) (ry ?b) (rwidth ?b) (rheight ?b)"
  obtain s1 where s1: "paints (gfx_ok M12) (picture M12) (gfx_draw_string ?tx ?ty (str_of (title w)) ?fg ?bg) s1"
    "within ?tx ?ty (FONT_WIDTH * int (length (str_of (title w)))) FONT_HEIGHT s1"
    using string_paints assms(4) unfolding title_fits_def by blast
  have in1: "?in s1" by (rule within_sub [OF s1(2)]) (use assms in \<open>auto simp: wm_sizes title_fits_def FONT_HEIGHT_def\<close>)
  have t: "paints (gfx_ok M12) (picture M12) (paint_title_text w) (?fill ++ s1)"
    unfolding paint_title_text_def [abs_def] Let_def by (rule paints_comp [OF fill_rect_paints s1(1)])
  obtain s2 where s2: "draws (gfx_ok M12) (picture M12) (\<lambda>g. if has_flag WM_FLAG_HAS_CLOSE w then paint_close_button ?b g else Some g) s2" "?in s2"
  proof (cases "has_flag WM_FLAG_HAS_CLOSE w")
    case True
    then show ?thesis using close_button_draws [OF assms(1,2), of M12] that by auto
  next
    case False
    then show ?thesis using that [of Map.empty] draws_pure [OF paints_id] by auto
  qed
  obtain s3 where s3: "paints (gfx_ok M12) (picture M12) (paint_min_button ?b) s3" "?in s3" using min_button_paints [OF assms(1,2)] by blast
  obtain s4 where s4: "paints (gfx_ok M12) (picture M12) (paint_max_button ?b) s4" "?in s4" using max_button_paints [OF assms(1,2)] by blast
  let ?rest = "s1 ++ (s2 ++ (s3 ++ s4))"
  have bd: "draws (gfx_ok M12) (picture M12) (\<lambda>g. Option.bind (if has_flag WM_FLAG_HAS_CLOSE w then paint_close_button ?b g else Some g)
      (\<lambda>g. Some (paint_max_button ?b (paint_min_button ?b g)))) (s2 ++ (s3 ++ s4))"
    by (rule draws_bind [OF s2(1) draws_pure [OF paints_comp [OF s3(1) s4(1)]]])
  have "draws (gfx_ok M12) (picture M12) (\<lambda>g. wm_paint_titlebar w (paint_window_body ?b g)) ((body_map M12 ?b ++ (?fill ++ s1)) ++ (s2 ++ (s3 ++ s4)))"
  proof -
    have "wm_paint_titlebar w g = Option.bind (if has_flag WM_FLAG_HAS_CLOSE w then paint_close_button ?b (paint_title_text w g) else Some (paint_title_text w g))
      (\<lambda>g. Some (paint_max_button ?b (paint_min_button ?b g)))" for g
      using assms(3) by (simp add: wm_paint_titlebar_def Let_def split: option.split)
    then show ?thesis using draws_after [OF paints_comp [OF body_paints [of M12 ?b] t] bd] by (simp only:)
  qed
  then have d: "draws (gfx_ok M12) (picture M12) (\<lambda>g. wm_paint_titlebar w (paint_window_body ?b g)) ((body_map M12 ?b ++ ?fill) ++ ?rest)" by simp
  have "?in ?rest" using in1 s2(2) s3(2) s4(2) by (intro within_add)
  then have "dom ((body_map M12 ?b ++ ?fill) ++ ?rest) = {p. on_screen M12 p \<and> covers w (fst p) (snd p)}"
    unfolding covers_in_rect by (intro dom_cover dom_body [OF assms(1,2)] draws_on_screen [OF d] within_in_rect)
  with d show ?thesis by blast
qed

section \<open>Painting windows in order\<close>

text \<open>States that differ from a given one only in the picture.\<close>

definition wm_shows :: "('h, 'u) wm \<Rightarrow> ('h, 'u) wm \<Rightarrow> bool" where
  "wm_shows s0 s \<longleftrightarrow> gfx_ok M12 (display s) \<and> s = s0\<lparr>display := display s\<rparr>"

definition wm_picture :: "('h, 'u) wm \<Rightarrow> (int \<times> int) \<rightharpoonup> u8" where "wm_picture s = picture M12 (display s)"

text \<open>A window whose title fits and whose paint handler, if any, returns and draws in the client area only.\<close>

definition window_confined :: "('h, 'u) paint_call \<Rightarrow> ('h, 'u) wm \<Rightarrow> 'h window \<Rightarrow> bool" where
  "window_confined pt s0 w \<longleftrightarrow> has_flag WM_FLAG_HAS_TITLE w \<and> title_fits w \<and>
     (\<forall>f. on_paint w = Some f \<longrightarrow>
        (let x = rx (bounds w) + WM_BORDER_WIDTH; y = ry (bounds w) + WM_BORDER_WIDTH + WM_TITLE_HEIGHT;
             cw = rwidth (bounds w) - 2 * WM_BORDER_WIDTH; ch = rheight (bounds w) - 2 * WM_BORDER_WIDTH - WM_TITLE_HEIGHT
         in \<exists>st. draws (wm_shows s0) wm_picture (pt f (win_id w) x y cw ch) st \<and> within x y cw ch st))"

lemma on_display_draws: "draws (gfx_ok M12) (picture M12) f st \<Longrightarrow> draws (wm_shows s0) wm_picture (on_display f) st"
  unfolding draws_def
proof (intro allI impI)
  fix s assume f: "\<forall>s. gfx_ok M12 s \<longrightarrow> (\<exists>s'. f s = Some s' \<and> gfx_ok M12 s' \<and> picture M12 s' = picture M12 s ++ st)" and s: "wm_shows s0 s"
  then obtain g where g: "f (display s) = Some g" "gfx_ok M12 g" "picture M12 g = picture M12 (display s) ++ st" unfolding wm_shows_def by blast
  have "s = s0\<lparr>display := display s\<rparr>" using s by (simp add: wm_shows_def)
  then have "s\<lparr>display := g\<rparr> = s0\<lparr>display := g\<rparr>" by (metis wm.update_convs(9) wm.surjective)
  then show "\<exists>s'. on_display f s = Some s' \<and> wm_shows s0 s' \<and> wm_picture s' = wm_picture s ++ st"
    using g by (intro exI [of _ "s\<lparr>display := g\<rparr>"]) (simp add: on_display_def wm_shows_def wm_picture_def)
qed

lemma shown_on_screen: "draws (wm_shows s0) wm_picture f st \<Longrightarrow> p \<in> dom st \<Longrightarrow> on_screen M12 p"
proof -
  assume d: "draws (wm_shows s0) wm_picture f st" and p: "p \<in> dom st"
  let ?s = "s0\<lparr>display := snd (graphics_init M12 blank_gfx)\<rparr>"
  have "gfx_ok M12 (snd (graphics_init M12 blank_gfx))" using init_ok by blast
  then have "wm_shows s0 ?s" by (simp add: wm_shows_def)
  from drawsD [OF d this] obtain t where "f ?s = Some t" "wm_picture t = wm_picture ?s ++ st" by blast
  then have "p \<in> dom (wm_picture t)" using p by (simp only: dom_map_add Un_iff simp_thms)
  then show ?thesis unfolding wm_picture_def dom_picture by blast
qed

definition shown :: "'h window \<Rightarrow> bool" where "shown w \<longleftrightarrow> has_flag WM_FLAG_VISIBLE w \<and> \<not> has_flag WM_FLAG_MINIMIZED w"

lemma paint_window_draws:
  assumes "100 \<le> rwidth (bounds w)" "60 \<le> rheight (bounds w)" "window_confined pt s0 w" "shown w"
  shows "\<exists>st. draws (wm_shows s0) wm_picture (wm_paint_window pt w) st \<and> dom st = {p. on_screen M12 p \<and> covers w (fst p) (snd p)}"
proof -
  let ?b = "bounds w"
  obtain s1 where s1: "draws (gfx_ok M12) (picture M12) (\<lambda>g. wm_paint_titlebar w (paint_window_body ?b g)) s1"
    "dom s1 = {p. on_screen M12 p \<and> covers w (fst p) (snd p)}"
    using window_frame_draws [OF assms(1,2)] assms(3) by (auto simp: window_confined_def)
  let ?F = "on_display (\<lambda>g. wm_paint_titlebar w (paint_window_body ?b g))"
  let ?P = "\<lambda>s. case on_paint w of None \<Rightarrow> Some s | Some f \<Rightarrow> pt f (win_id w) (rx ?b + WM_BORDER_WIDTH) (ry ?b + WM_BORDER_WIDTH + WM_TITLE_HEIGHT)
    (rwidth ?b - 2 * WM_BORDER_WIDTH) (rheight ?b - 2 * WM_BORDER_WIDTH - WM_TITLE_HEIGHT) s"
  have "\<exists>s2. draws (wm_shows s0) wm_picture ?P s2 \<and> within (rx ?b + WM_BORDER_WIDTH) (ry ?b + WM_BORDER_WIDTH + WM_TITLE_HEIGHT)
      (rwidth ?b - 2 * WM_BORDER_WIDTH) (rheight ?b - 2 * WM_BORDER_WIDTH - WM_TITLE_HEIGHT) s2"
  proof (cases "on_paint w")
    case None
    then show ?thesis by (intro exI [of _ Map.empty]) (simp add: draws_def)
  next
    case (Some f)
    then show ?thesis using assms(3) by (auto simp: window_confined_def Let_def)
  qed
  then obtain s2 where s2: "draws (wm_shows s0) wm_picture ?P s2" "within (rx ?b + WM_BORDER_WIDTH) (ry ?b + WM_BORDER_WIDTH + WM_TITLE_HEIGHT)
      (rwidth ?b - 2 * WM_BORDER_WIDTH) (rheight ?b - 2 * WM_BORDER_WIDTH - WM_TITLE_HEIGHT) s2" by blast
  have in2: "within (rx ?b) (ry ?b) (rwidth ?b) (rheight ?b) s2" by (rule within_sub [OF s2(2)]) (use assms in \<open>auto simp: wm_sizes\<close>)
  have "wm_paint_window pt w s = Option.bind (?F s) ?P" for s
    using assms(4) unfolding wm_paint_window_def shown_def Let_def by (simp split: option.split)
  then have d: "draws (wm_shows s0) wm_picture (wm_paint_window pt w) (s1 ++ s2)"
    using draws_bind [OF on_display_draws [OF s1(1)] s2(1)] by (simp add: draws_def)
  moreover have "dom (s1 ++ s2) = {p. on_screen M12 p \<and> covers w (fst p) (snd p)}"
  proof (intro dom_cover shown_on_screen [OF d])
    show "p \<in> dom s1 \<longleftrightarrow> on_screen M12 p \<and> covers w (fst p) (snd p)" for p by (simp add: s1(2))
    show "p \<in> dom s2 \<Longrightarrow> covers w (fst p) (snd p)" for p unfolding covers_in_rect by (rule within_in_rect [OF in2])
  qed
  ultimately show ?thesis by blast
qed

text \<open>The windows are painted from the bottom of the stacking order to its top; \<open>st i\<close> is the stencil of entry \<open>i\<close>.\<close>

fun overlay :: "(nat \<Rightarrow> 'p \<rightharpoonup> 'c) \<Rightarrow> nat \<Rightarrow> 'p \<rightharpoonup> 'c" where
  "overlay st 0 = Map.empty"
| "overlay st (Suc i) = st i ++ overlay st i"

lemma overlay_find:
  "overlay st n p = (case find (\<lambda>i. p \<in> dom (st i)) [0..<n] of None \<Rightarrow> None | Some i \<Rightarrow> st i p)"
proof (induction n)
  case (Suc n)
  have fs: "find (\<lambda>i. p \<in> dom (st i)) [0..<Suc n] =
      (case find (\<lambda>i. p \<in> dom (st i)) [0..<n] of None \<Rightarrow> (if p \<in> dom (st n) then Some n else None) | Some i \<Rightarrow> Some i)"
    by (auto simp: find_append split: option.split)
  show ?case
  proof (cases "find (\<lambda>i. p \<in> dom (st i)) [0..<n]")
    case None
    then show ?thesis using Suc.IH fs by (auto simp: map_add_def)
  next
    case (Some i)
    then have "p \<in> dom (st i)" by (simp add: find_upt_Some)
    then show ?thesis using Some Suc.IH fs by (auto simp: map_add_def)
  qed
qed simp

definition entry_step :: "('h, 'u) paint_call \<Rightarrow> ('h, 'u) wm \<Rightarrow> nat \<Rightarrow> ('h, 'u) wm \<Rightarrow> ('h, 'u) wm option" where
  "entry_step pt s0 i s = (case wm_find_window (g_zorder s0 ! i) s0 of
       None \<Rightarrow> Some s
     | Some k \<Rightarrow> if has_flag WM_FLAG_VISIBLE (g_windows s0 ! k) then wm_paint_window pt (g_windows s0 ! k) s else Some s)"

lemma repaint_below_draws:
  assumes "\<And>i. i < n \<Longrightarrow> draws (wm_shows s0) wm_picture (entry_step pt s0 i) (st i)"
  shows "draws (wm_shows s0) wm_picture (repaint_below pt n) (overlay st n)"
  using assms
proof (induction n)
  case 0
  then show ?case by (simp add: draws_def)
next
  case (Suc n)
  have "repaint_below pt (Suc n) s = Option.bind (entry_step pt s0 n s) (repaint_below pt n)" if "wm_shows s0 s" for s
  proof -
    have "g_zorder s = g_zorder s0" "g_windows s = g_windows s0" using that by (simp_all add: wm_shows_def) (metis wm.select_convs(1,5) wm.surjective wm.update_convs(9))+
    then show ?thesis by (simp add: entry_step_def wm_find_window_def split: option.split)
  qed
  with draws_bind [OF Suc.prems [of n] Suc.IH [OF Suc.prems]] show ?case by (simp add: draws_def)
qed

section \<open>The cursor and the background\<close>

lemma paints_for_within:
  assumes "\<And>k. k < n \<Longrightarrow> \<exists>st. paints ok pic (f k) st \<and> within x y w h st"
  shows "\<exists>st. paints ok pic (for_range 0 n f) st \<and> within x y w h st"
  using assms
proof (induction n)
  case 0
  then show ?case by (intro exI [of _ Map.empty]) (simp add: paints_def)
next
  case (Suc n)
  have "\<exists>st. paints ok pic (for_range 0 n f) st \<and> within x y w h st" using Suc.prems by (intro Suc.IH) simp
  then obtain st where st: "paints ok pic (for_range 0 n f) st" "within x y w h st" by blast
  obtain st' where st': "paints ok pic (f n) st'" "within x y w h st'" using Suc.prems [of n] by blast
  have "paints ok pic (for_range 0 (Suc n) f) (st ++ st')" using paints_comp [OF st(1) st'(1)] by (simp add: for_range_Suc paints_def)
  with within_add [OF st(2) st'(2)] show ?case by blast
qed

lemma for_range_keep: "P s \<Longrightarrow> (\<And>i s. P s \<Longrightarrow> P (f i s)) \<Longrightarrow> P (for_range 0 n f s)"
  by (induction n) (simp_all add: for_range_Suc)

lemma put_within: "x \<le> a \<Longrightarrow> a < x + w \<Longrightarrow> y \<le> b \<Longrightarrow> b < y + h \<Longrightarrow> \<exists>st. paints (gfx_ok m) (picture m) (gfx_put_pixel a b c) st \<and> within x y w h st"
  using put_dots within_dot by blast

lemma cursor_draws: "\<exists>st. draws (gfx_ok m) (picture m) (paint_cursor x y) st \<and> within x y 11 10 st"
proof -
  have a1: "\<exists>st. paints (gfx_ok m) (picture m) (\<lambda>g. gfx_put_pixel (x + int i + 1) (y + int i) COLOR_WHITE (gfx_put_pixel (x + int i) (y + int i) COLOR_WHITE g)) st \<and>
      within x y 11 10 st" if "i < 10" for i
    using that by (intro exI [of _ "dots m {(x + int i, y + int i)} COLOR_WHITE ++ dots m {(x + int i + 1, y + int i)} COLOR_WHITE"] conjI
        paints_comp put_dots within_add within_dot) auto
  have "\<exists>st. paints (gfx_ok m) (picture m)
      (for_range 0 10 (\<lambda>i g. gfx_put_pixel (x + int i + 1) (y + int i) COLOR_WHITE (gfx_put_pixel (x + int i) (y + int i) COLOR_WHITE g))) st \<and> within x y 11 10 st"
    by (rule paints_for_within) (rule a1)
  then obtain s1 where s1: "paints (gfx_ok m) (picture m)
      (for_range 0 10 (\<lambda>i g. gfx_put_pixel (x + int i + 1) (y + int i) COLOR_WHITE (gfx_put_pixel (x + int i) (y + int i) COLOR_WHITE g))) s1" "within x y 11 10 s1" by blast
  have a2: "\<exists>st. paints (gfx_ok m) (picture m) (gfx_put_pixel (x + int i) (y + int i + 3) COLOR_WHITE) st \<and> within x y 11 10 st" if "i < 7" for i
    using that by (intro put_within) auto
  have "\<exists>st. paints (gfx_ok m) (picture m) (for_range 0 7 (\<lambda>i. gfx_put_pixel (x + int i) (y + int i + 3) COLOR_WHITE)) st \<and> within x y 11 10 st"
    by (rule paints_for_within) (rule a2)
  then obtain s2 where
    s2: "paints (gfx_ok m) (picture m) (for_range 0 7 (\<lambda>i. gfx_put_pixel (x + int i) (y + int i + 3) COLOR_WHITE)) s2" "within x y 11 10 s2" by blast
  obtain s3 where s3: "draws (gfx_ok m) (picture m) (gfx_draw_line x y (x + 9) (y + 9) COLOR_BLACK) s3" "within x y 11 10 s3"
    using line_within [of x x "x + 9" 11 y y "y + 9" 10 m COLOR_BLACK] by auto
  let ?st = "((s1 ++ s2) ++ box m x y 10 1 COLOR_BLACK) ++ box m x y 1 10 COLOR_BLACK"
  have "draws (gfx_ok m) (picture m) (paint_cursor x y) (?st ++ s3)"
    unfolding paint_cursor_def [abs_def] Let_def
    by (rule draws_after [OF paints_comp [OF paints_comp [OF paints_comp [OF s1(1) s2(1)] hline_paints] vline_paints] s3(1)])
  moreover have "within x y 11 10 (?st ++ s3)" using s1(2) s2(2) s3(2) by (intro within_add within_box) auto
  ultimately show ?thesis by blast
qed

text \<open>The dots of the background pattern have the colour of the background: the desktop is one plain surface.\<close>

lemma background_plain:
  assumes "gfx_ok M12 g"
  shows "gfx_ok M12 (paint_background g) \<and> picture M12 (paint_background g) = (\<lambda>p. if on_screen M12 p then Some COLOR_CYAN else None)"
proof -
  let ?plain = "\<lambda>p. if on_screen M12 p then Some COLOR_CYAN else None"
  have q: "quant M12 COLOR_CYAN = COLOR_CYAN" by (simp add: quant_def COLOR_CYAN_def)
  have "gfx_ok M12 (gfx_clear GUI_COLOR_DESKTOP g) \<and> picture M12 (gfx_clear GUI_COLOR_DESKTOP g) = ?plain"
    using fill_rect_paints [of M12 0 0 "mode_width M12" "mode_height M12" GUI_COLOR_DESKTOP] assms gfx_okD [OF assms] q
    by (auto simp: paints_def gfx_clear_def GUI_COLOR_DESKTOP_def box_def ink_def on_screen_def picture_def map_add_def fun_eq_iff split: option.splits)
  moreover have put: "gfx_ok M12 (gfx_put_pixel a b COLOR_CYAN g) \<and> picture M12 (gfx_put_pixel a b COLOR_CYAN g) = ?plain"
    if "gfx_ok M12 g \<and> picture M12 g = ?plain" for a b g
    using that put_pixel_ok [of M12 g] put_pixel_picture [of M12 g a b COLOR_CYAN] q by (auto simp: ink_def fun_eq_iff)
  ultimately show ?thesis
    unfolding paint_background_def by (intro for_range_keep [where P = "\<lambda>g. gfx_ok M12 g \<and> picture M12 g = ?plain"])
qed

section \<open>What is seen is what is clicked\<close>

lemma entry_draws:
  assumes "wm_inv s" "\<forall>w \<in> set (g_windows s). win_id w \<noteq> 0 \<and> shown w \<longrightarrow> window_confined pt s w" "i < g_zorder_count s"
  shows "\<exists>st. draws (wm_shows s) wm_picture (entry_step pt s i) st \<and>
    (\<forall>p. p \<in> dom st \<longleftrightarrow> on_screen M12 p \<and> (case wm_find_window (g_zorder s ! i) s of None \<Rightarrow> False
      | Some k \<Rightarrow> (let w = g_windows s ! k in has_flag WM_FLAG_VISIBLE w \<and> \<not> has_flag WM_FLAG_MINIMIZED w \<and> covers w (fst p) (snd p))))"
proof (cases "wm_find_window (g_zorder s ! i) s")
  case None
  then show ?thesis by (intro exI [of _ Map.empty]) (simp add: entry_step_def draws_def)
next
  case (Some k)
  let ?w = "g_windows s ! k"
  show ?thesis
  proof (cases "shown ?w")
    case True
    have k: "k < WM_MAX_WINDOWS" "win_id ?w = g_zorder s ! i" using find_window_some [OF Some] by auto
    have "g_zorder s ! i \<in> set (live s)" by (rule stack_live [OF assms(1,3)])
    then have id: "win_id ?w \<noteq> 0" using k(2) by (simp add: live_def)
    have in_tab: "?w \<in> set (g_windows s)" using k(1) assms(1) by (simp add: wm_inv_def)
    then have "window_ok ?w" using assms(1) by (simp add: wm_inv_def list_all_iff)
    then have "100 \<le> rwidth (bounds ?w)" "60 \<le> rheight (bounds ?w)" using id by (simp_all add: window_ok_def rect_ok_def wm_sizes)
    from paint_window_draws [OF this, of pt s] True id in_tab assms(2) obtain st where
      st: "draws (wm_shows s) wm_picture (wm_paint_window pt ?w) st" "dom st = {p. on_screen M12 p \<and> covers ?w (fst p) (snd p)}" by blast
    have "entry_step pt s i = wm_paint_window pt ?w" using Some True by (auto simp: entry_step_def shown_def fun_eq_iff)
    with st Some True show ?thesis by (intro exI [of _ st]) (simp add: shown_def Let_def)
  next
    case False
    then have "entry_step pt s i = Some" using Some by (auto simp: entry_step_def shown_def wm_paint_window_def fun_eq_iff)
    then show ?thesis using Some False by (intro exI [of _ Map.empty]) (auto simp: draws_def shown_def Let_def)
  qed
qed

end
