(* ===== verification/Wm_Life.thy ===== *)
theory Wm_Life
  imports Wm_Paint
begin

text \<open>
  The window manager from \<open>wm_init\<close> on: initialisation succeeds on an adapter whose retrace bit keeps changing, the table stays consistent under every sequence of calls
  and keys, and the window found at a position is the one painted there.
\<close>

section \<open>Initialisation\<close>

lemma outb_status: "input_status (vga_outb port v d) = input_status d"
  by (simp add: vga_outb_def Let_def)

lemma status_kept:
  "input_status (vga_seq_write i v d) = input_status d" "input_status (vga_crtc_write i v d) = input_status d" "input_status (vga_gc_write i v d) = input_status d"
  "input_status (vga_ac_write i v d) = input_status d"
  by (simp_all add: vga_seq_write_def vga_crtc_write_def vga_gc_write_def vga_ac_write_def outb_status vga_in_status_def)

lemma load_mode_status: "input_status (vga_load_mode m d) = input_status d"
proof -
  have f: "(\<And>i d. input_status (f i d) = input_status d) \<Longrightarrow> input_status (for_range 0 n f d) = input_status d" for f n d
    by (rule for_range_keep [where P = "\<lambda>x. input_status x = input_status d"]) simp_all
  show ?thesis by (simp add: vga_load_mode_def load_registers_def Let_def f status_kept outb_status)
qed

text \<open>The adapter reports the retrace and its end over and over again.\<close>

definition retraces :: "vga \<Rightarrow> bool" where
  "retraces d \<longleftrightarrow> (\<forall>k. (\<exists>n \<ge> k. \<not> bit (input_status d n) 3) \<and> (\<exists>n \<ge> k. bit (input_status d n) 3))"

lemma palette_entry_ok:
  assumes "retraces (dev g)" "gfx_ok m g"
  shows "\<exists>g'. gfx_set_palette_entry i r gr b g = Some g' \<and> retraces (dev g') \<and> gfx_ok m g'"
proof -
  obtain k where k: "vga_wait_vsync (dev g) = Some ((dev g)\<lparr>polls := k, ac_data_next := False\<rparr>)"
    using wait_vsync_returns [of "dev g"] assms(1) unfolding retraces_def by blast
  show ?thesis
    using assms unfolding gfx_set_palette_entry_def k
    by (auto simp: retraces_def gfx_ok_def vga_ready_def vga_mapped_def vga_chain4_def outb_status vga_outb_def Let_def)
qed

lemma default_palette_ok:
  assumes "retraces (dev g)" "gfx_ok m g"
  shows "\<exists>g'. gfx_set_default_palette g = Some g' \<and> retraces (dev g') \<and> gfx_ok m g'"
  unfolding gfx_set_default_palette_def
proof (rule for_range_keep [where P = "\<lambda>r. \<exists>g'. r = Some g' \<and> retraces (dev g') \<and> gfx_ok m g'"])
  show "\<exists>g'. Some g = Some g' \<and> retraces (dev g') \<and> gfx_ok m g'" using assms by blast
  fix i r assume "\<exists>g'. r = Some g' \<and> retraces (dev g') \<and> gfx_ok m g'"
  then obtain g' where "r = Some g'" "retraces (dev g')" "gfx_ok m g'" by blast
  then show "\<exists>g'. (case r of None \<Rightarrow> None | Some g \<Rightarrow> (case default_palette ! i of (r, gr, b) \<Rightarrow> gfx_set_palette_entry (of_nat i) r gr b g)) = Some g' \<and> retraces (dev g') \<and> gfx_ok m g'"
    using palette_entry_ok by (auto split: prod.split)
qed

text \<open>\<open>wm_init\<close> succeeds on such an adapter, and shows the plain desktop without windows.\<close>

lemma wm_init_starts:
  assumes "retraces (dev (display s0))"
  shows "\<exists>s1. wm_init s0 = Some (True, s1) \<and> gfx_ok M12 (display s1) \<and> wm_picture s1 = (\<lambda>p. if on_screen M12 p then Some COLOR_CYAN else None) \<and>
    g_windows s1 = map (\<lambda>w. w\<lparr>win_id := 0\<rparr>) (g_windows s0) \<and> g_zorder s1 = g_zorder s0 \<and> g_zorder_count s1 = 0 \<and> g_focused_id s1 = - 1 \<and> g_next_id s1 = 1 \<and>
    g_mouse_x s1 = g_mouse_x s0 \<and> g_mouse_y s1 = g_mouse_y s0 \<and> apps s1 = apps s0"
proof -
  obtain b g where i: "graphics_init M12 (display s0) = (b, g)" by fastforce
  have b: "b" "gfx_ok M12 g" using init_ok [of M12 "display s0"] i by auto
  have "input_status (dev g) = input_status (dev (display s0))" using i by (auto simp: graphics_init_def Let_def load_mode_status mode_defs split: if_splits)
  then have "retraces (dev g)" using assms by (simp add: retraces_def)
  with default_palette_ok b(2) obtain g' where g': "gfx_set_default_palette g = Some g'" "gfx_ok M12 g'" by blast
  show ?thesis using background_plain [OF g'(2)] b(1) unfolding wm_init_def i prod.case g'(1) by (simp add: wm_paint_desktop_def wm_picture_def)
qed


section \<open>The window table\<close>


definition no_event :: "(unit, unit) event_call" where "no_event h wid e p q s = Some s"
definition no_paint :: "(unit, unit) paint_call" where "no_paint h wid x y w z s = Some s"

definition free_window :: "unit window" where
  "free_window = \<lparr>win_id = 0, bounds = \<lparr>rx = 0, ry = 0, rwidth = 0, rheight = 0\<rparr>, old_bounds = \<lparr>rx = 0, ry = 0, rwidth = 0, rheight = 0\<rparr>, wflags = 0, title_fg = 0,
     title_bg = 0, title = replicate 64 0, on_paint = None, on_event = None\<rparr>"

definition cold_wm :: "(unit, unit) wm" where
  "cold_wm = \<lparr>g_windows = replicate 16 free_window, g_window_count = 0, g_focused_id = 0, g_next_id = 0, g_zorder = replicate 16 0, g_zorder_count = 0,
     g_mouse_x = 320, g_mouse_y = 240, display = blank_gfx, apps = ()\<rparr>"

lemma cold_retraces: "retraces (dev (display cold_wm))"
proof -
  have "\<exists>n \<ge> k. odd (n :: nat)" "\<exists>n \<ge> k. even (n :: nat)" for k by (rule exI [of _ "2 * k + 1"], simp, rule exI [of _ "2 * k"], simp)
  moreover have "bit (8 :: u8) 3" by code_simp
  ultimately show ?thesis by (auto simp: retraces_def cold_wm_def blank_gfx_def blank_vga_def)
qed


text \<open>
  A call that names window 0 is answered with a free slot.  When fifteen windows exist, focusing window 0 enters it in the stacking order, and the sixteenth window is then written
  behind the array.
\<close>

theorem wm_zero_id_overflow:
  assumes "wm_inv s" "length (live s) = 15" "wm_bring_to_front 0 s = Some t"
  shows "wm_create_window ttl x y w h fl p e t = None"
proof -
  have i: "length (g_windows s) = WM_MAX_WINDOWS" "length (g_zorder s) = WM_MAX_WINDOWS" "g_zorder_count s \<le> WM_MAX_WINDOWS" "set (stack s) = set (live s)"
    "\<forall>i \<in> set (live s). 0 < i \<and> i < g_next_id s" "0 < g_next_id s" using assms(1) by (simp_all add: wm_inv_def)
  have z0: "remove1 0 (stack s) = stack s" using i(4,5) by (intro remove1_idem) auto
  have l: "length (stack s) = 15" using inv_stack_length [OF assms(1)] assms(2) by simp
  with bring_to_front_eq [OF i(2,3), of 0] z0 assms(3) obtain z n where
    t: "t = s\<lparr>g_zorder := z, g_zorder_count := n\<rparr>" "length z = WM_MAX_WINDOWS" "n \<le> WM_MAX_WINDOWS" "take n z = 0 # stack s" by (auto simp: WM_MAX_WINDOWS_def)
  have n: "n = WM_MAX_WINDOWS" using arg_cong [OF t(4), of length] t(2,3) l by (simp add: WM_MAX_WINDOWS_def)
  obtain k where k: "find (\<lambda>i. win_id (g_windows s ! i) = 0) [0..<WM_MAX_WINDOWS] = Some k"
    using create_spec [OF assms(1), of ttl x y w h fl p e] assms(2) i(6) by (cases "find (\<lambda>i. win_id (g_windows s ! i) = 0) [0..<WM_MAX_WINDOWS]")
      (auto simp: wm_create_window_def WM_MAX_WINDOWS_def)
  obtain w' h' where c: "clamp_size w h = (w', h')" by fastforce
  obtain x' y' where c': "clamp_pos x y w' h' = (x', y')" by fastforce
  have full: "wm_bring_to_front (g_next_id s) u = None" if "g_zorder u = z" "g_zorder_count u = n" for u :: "('a, 'b) wm"
  proof -
    have "stack u = 0 # stack s" "g_zorder_count u \<le> length (g_zorder u)" using that t(2,4) n by (simp_all add: stack_def)
    moreover have "g_next_id s \<notin> set (0 # stack s)" using i(4-6) by auto
    ultimately show ?thesis using zorder_remove_eq(3) [of u "g_next_id s"] l by (simp add: wm_bring_to_front_def Let_def remove1_idem WM_MAX_WINDOWS_def)
  qed
  show ?thesis unfolding wm_create_window_def t(1) using k by (simp add: c c' Let_def full)
qed

section \<open>The picture\<close>

text \<open>
  C25. What is seen is what is clicked.  After \<open>wm_repaint\<close>, which always returns, the pixel at any position of the screen outside the mouse cursor is the one that the window
  reported by \<open>wm_find_by_pos\<close> has there: painting that window alone over any picture gives the same pixel.  Where no window is found, the pixel is the one
  of the background from before.  This holds when the titles fit and the paint handlers keep to their client areas.
\<close>

theorem wm_click_is_seen:
  assumes "wm_inv s" "gfx_ok VGA_MODE_12H (display s)" "\<forall>w \<in> set (g_windows s). win_id w \<noteq> 0 \<and> shown w \<longrightarrow> window_confined pt s w"
    and "on_screen VGA_MODE_12H (x, y)" "\<not> in_rect (g_mouse_x s) (g_mouse_y s) 11 10 (x, y)"
  shows "\<exists>s'. wm_repaint pt s = Some s' \<and>
    (if wm_find_by_pos x y s = - 1 then wm_picture s' (x, y) = wm_picture s (x, y)
     else \<exists>k. wm_find_window (wm_find_by_pos x y s) s = Some k \<and>
       (\<forall>u. wm_shows s u \<longrightarrow> (\<exists>t. wm_paint_window pt (g_windows s ! k) u = Some t \<and> wm_picture t (x, y) = wm_picture s' (x, y))))"
proof -
  let ?hit = "\<lambda>i p. case wm_find_window (g_zorder s ! i) s of None \<Rightarrow> False
      | Some k \<Rightarrow> (let w = g_windows s ! k in has_flag WM_FLAG_VISIBLE w \<and> \<not> has_flag WM_FLAG_MINIMIZED w \<and> covers w (fst p) (snd p))"
  have "\<forall>i. \<exists>st. i < g_zorder_count s \<longrightarrow> draws (wm_shows s) wm_picture (entry_step pt s i) st \<and> (\<forall>p. p \<in> dom st \<longleftrightarrow> on_screen M12 p \<and> ?hit i p)"
    using entry_draws [OF assms(1,3)] by blast
  from choice [OF this] obtain st where
    "\<forall>i. i < g_zorder_count s \<longrightarrow> draws (wm_shows s) wm_picture (entry_step pt s i) (st i) \<and> (\<forall>p. p \<in> dom (st i) \<longleftrightarrow> on_screen M12 p \<and> ?hit i p)" ..
  then have st: "\<And>i. i < g_zorder_count s \<Longrightarrow> draws (wm_shows s) wm_picture (entry_step pt s i) (st i)"
    "\<And>i p. i < g_zorder_count s \<Longrightarrow> p \<in> dom (st i) \<longleftrightarrow> on_screen M12 p \<and> ?hit i p" by blast+
  obtain sc where sc: "draws (gfx_ok M12) (picture M12) (paint_cursor (g_mouse_x s) (g_mouse_y s)) sc" "within (g_mouse_x s) (g_mouse_y s) 11 10 sc"
    using cursor_draws by blast
  have m: "wm_shows s u \<Longrightarrow> wm_paint_mouse u = on_display (paint_cursor (g_mouse_x s) (g_mouse_y s)) u" for u
    unfolding wm_paint_mouse_def wm_shows_def by (metis wm.select_convs(7,8) wm.surjective wm.update_convs(9))
  then have "draws (wm_shows s) wm_picture wm_paint_mouse sc" using on_display_draws [OF sc(1)] by (simp add: draws_def)
  from draws_bind [OF repaint_below_draws [OF st(1)] this, of "g_zorder_count s"]
  have d: "draws (wm_shows s) wm_picture (\<lambda>u. Option.bind (repaint_below pt (g_zorder_count s) u) wm_paint_mouse) (overlay st (g_zorder_count s) ++ sc)" by blast
  have "wm_shows s s" using assms(2) by (simp add: wm_shows_def)
  from drawsD [OF d this] obtain s' where s': "wm_repaint pt s = Some s'" "wm_picture s' = wm_picture s ++ (overlay st (g_zorder_count s) ++ sc)"
    unfolding wm_repaint_def by blast
  have "sc (x, y) = None" using within_in_rect [OF sc(2), of "(x, y)"] assms(5) by blast
  then have p: "wm_picture s' (x, y) = (case overlay st (g_zorder_count s) (x, y) of None \<Rightarrow> wm_picture s (x, y) | Some c \<Rightarrow> Some c)"
    unfolding s'(2) by (simp add: map_add_def)
  have f: "find (\<lambda>i. (x, y) \<in> dom (st i)) [0..<g_zorder_count s] = find (\<lambda>i. ?hit i (x, y)) [0..<g_zorder_count s]"
    using st(2) assms(4) by (intro find_cong) auto
  have hp: "wm_find_by_pos x y s = (case find (\<lambda>i. ?hit i (x, y)) [0..<g_zorder_count s] of None \<Rightarrow> - 1
      | Some i \<Rightarrow> (case wm_find_window (g_zorder s ! i) s of None \<Rightarrow> - 1 | Some k \<Rightarrow> win_id (g_windows s ! k)))"
    by (simp only: wm_find_by_pos_def fst_conv snd_conv)
  show ?thesis
  proof (cases "find (\<lambda>i. ?hit i (x, y)) [0..<g_zorder_count s]")
    case None
    then have "wm_find_by_pos x y s = - 1" unfolding hp by (simp only: option.case)
    moreover have "overlay st (g_zorder_count s) (x, y) = None" unfolding overlay_find f None by simp
    ultimately show ?thesis using s'(1) p by simp
  next
    case (Some i)
    then have i: "i < g_zorder_count s" "?hit i (x, y)" by (simp_all add: find_upt_Some)
    then obtain k where k: "wm_find_window (g_zorder s ! i) s = Some k" "shown (g_windows s ! k)"
      by (auto simp: shown_def Let_def split: option.splits)
    have id: "wm_find_by_pos x y s = g_zorder s ! i" unfolding hp Some using k(1) find_window_some [OF k(1)] by simp
    have "0 < g_zorder s ! i" using stack_live [OF assms(1) i(1)] assms(1) by (simp add: wm_inv_def)
    have e: "entry_step pt s i = wm_paint_window pt (g_windows s ! k)" using k by (auto simp: entry_step_def shown_def fun_eq_iff)
    obtain c where c: "st i (x, y) = Some c" using st(2) [OF i(1), of "(x, y)"] i(2) assms(4) by auto
    then have "overlay st (g_zorder_count s) (x, y) = Some c" unfolding overlay_find f Some by simp
    then have "wm_picture s' (x, y) = Some c" using p by simp
    moreover have "\<exists>t. wm_paint_window pt (g_windows s ! k) u = Some t \<and> wm_picture t (x, y) = Some c" if "wm_shows s u" for u
      using drawsD [OF st(1) [OF i(1)] that] c unfolding e by (auto simp: map_add_def)
    ultimately show ?thesis using s'(1) k(1) \<open>0 < g_zorder s ! i\<close> unfolding id by auto
  qed
qed

text \<open>Two windows, the second on top of the first.\<close>

definition demo_window :: "int \<Rightarrow> int \<Rightarrow> unit window" where
  "demo_window i x = free_window\<lparr>win_id := i, bounds := \<lparr>rx = x, ry = 50, rwidth = 200, rheight = 100\<rparr>, old_bounds := \<lparr>rx = x, ry = 50, rwidth = 200, rheight = 100\<rparr>,
     wflags := 0xC1\<rparr>"

definition demo_wm :: "(unit, unit) wm" where
  "demo_wm = cold_wm\<lparr>g_windows := demo_window 1 10 # demo_window 2 110 # replicate 14 free_window, g_window_count := 2, g_focused_id := 2, g_next_id := 3,
     g_zorder := [2, 1] @ replicate 14 0, g_zorder_count := 2, display := snd (graphics_init VGA_MODE_12H blank_gfx)\<rparr>"

theorem wm_click_is_seen_witness:
  "wm_find_by_pos 150 120 demo_wm = 2 \<and>
   (\<exists>s' t. wm_repaint no_paint demo_wm = Some s' \<and> wm_paint_window no_paint (demo_window 2 110) demo_wm = Some t \<and> wm_picture t (150, 120) = wm_picture s' (150, 120))"
proof -
  have fl: "has_flag WM_FLAG_VISIBLE (demo_window i x)" "\<not> has_flag WM_FLAG_MINIMIZED (demo_window i x)" "has_flag WM_FLAG_HAS_TITLE (demo_window i x)" for i x
    by (simp_all add: has_flag_def demo_window_def WM_FLAG_VISIBLE_def WM_FLAG_MINIMIZED_def WM_FLAG_HAS_TITLE_def)
  have g: "gfx_ok VGA_MODE_12H (display demo_wm)" using init_ok [of VGA_MODE_12H blank_gfx] by (simp add: demo_wm_def)
  have up: "[0..<16] = [0, 1, 2, 3, 4, 5, 6, 7, 8, 9, 10, 11, 12, 13, 14, 15 :: nat]" by code_simp
  have f: "wm_find_window 2 demo_wm = Some 1" by (simp add: wm_find_window_def WM_MAX_WINDOWS_def up demo_wm_def demo_window_def)
  have pos: "wm_find_by_pos 150 120 demo_wm = 2"
    using fl f by (simp add: wm_find_by_pos_def demo_wm_def covers_def demo_window_def numeral_eq_Suc)
  have inv: "wm_inv demo_wm"
    by (auto simp: wm_inv_def demo_wm_def live_def stack_def demo_window_def free_window_def cold_wm_def WM_MAX_WINDOWS_def window_ok_def rect_ok_def VGA12_WIDTH_def
        VGA12_HEIGHT_def WM_MIN_WIDTH_def WM_MIN_HEIGHT_def list_all_iff)
  have conf: "\<forall>w \<in> set (g_windows demo_wm). win_id w \<noteq> 0 \<and> shown w \<longrightarrow> window_confined no_paint demo_wm w"
    using fl by (auto simp: demo_wm_def free_window_def window_confined_def title_fits_def demo_window_def str_of_def)
  have "wm_shows demo_wm demo_wm" using g by (simp add: wm_shows_def)
  moreover have "g_windows demo_wm ! 1 = demo_window 2 110" by (simp add: demo_wm_def)
  ultimately show ?thesis
    using wm_click_is_seen [OF inv g conf, of 150 120] pos f by (auto simp: on_screen_def size_defs mode_defs in_rect_def demo_wm_def cold_wm_def)
qed

end
