(* ===== verification/Widgets.thy ===== *)
theory Widgets
  imports Wm "HOL-Library.Signed_Division"
begin

text \<open>
  The widget library \<^verbatim>\<open>src/kernel/gui/widgets.c\<close> with \<^verbatim>\<open>src/include/plexsdos/widgets.h\<close>: a table of 64 widgets that name their parent and their children by
  identifier, drawn and clicked from a parent downwards.

  The click and paint callbacks are arguments of the operations that call them.  The union \<open>extra\<close> is a record with the fields of all its members: it is cleared when the type
  of a widget is set, the type never changes, and every operation reads and writes only the member of one type.  The recursive operations are
  partial: the result \<open>None\<close> says that the call does not return, which happens when the links between widgets do not form a tree.
\<close>

unbundle bit_operations_syntax

section \<open>State\<close>

definition MAX_WIDGETS :: nat where "MAX_WIDGETS = 64"
definition WIDGET_MAX_CHILDREN :: nat where "WIDGET_MAX_CHILDREN = 16"
definition WIDGET_MAX_TEXT :: nat where "WIDGET_MAX_TEXT = 128"
definition WIDGET_MAX_MENU_ITEMS :: nat where "WIDGET_MAX_MENU_ITEMS = 8"

datatype widget_type = WIDGET_BUTTON | WIDGET_TEXTBOX | WIDGET_LABEL | WIDGET_CHECKBOX | WIDGET_RADIO | WIDGET_LISTBOX | WIDGET_SCROLLBAR | WIDGET_MENUBAR
  | WIDGET_MENUITEM | WIDGET_PANEL

definition WIDGET_FLAG_VISIBLE :: u16 where "WIDGET_FLAG_VISIBLE = 0x01"
definition WIDGET_FLAG_ENABLED :: u16 where "WIDGET_FLAG_ENABLED = 0x02"
definition WIDGET_FLAG_PRESSED :: u16 where "WIDGET_FLAG_PRESSED = 0x08"

definition GUI_COLOR_MENU_BG :: u8 where "GUI_COLOR_MENU_BG = COLOR_LIGHT_GRAY"
definition GUI_COLOR_MENU_FG :: u8 where "GUI_COLOR_MENU_FG = COLOR_BLACK"
definition GUI_COLOR_MENU_HIGHLIGHT :: u8 where "GUI_COLOR_MENU_HIGHLIGHT = COLOR_BLUE"
definition GUI_COLOR_TEXT_BG :: u8 where "GUI_COLOR_TEXT_BG = COLOR_WHITE"
definition GUI_COLOR_TEXT_FG :: u8 where "GUI_COLOR_TEXT_FG = COLOR_BLACK"
definition GUI_COLOR_SCROLLBAR_BG :: u8 where "GUI_COLOR_SCROLLBAR_BG = COLOR_LIGHT_GRAY"

record 'h extra =
  checked :: int
  selected :: int
  scroll_offset :: int
  list_count :: nat
  list_items :: "bytes list"
  min_val :: int
  max_val :: int
  cur_val :: int
  menu_count :: nat
  menu_items :: "bytes list"
  menu_callbacks :: "'h option list"

record 'h widget =
  w_id :: int
  w_type :: widget_type
  w_flags :: u16
  w_bounds :: rect
  w_text :: bytes
  w_fg :: u8
  w_bg :: u8
  on_click :: "'h option"
  w_on_paint :: "'h option"
  parent_id :: int
  children :: "int list"
  child_count :: nat
  extra :: "'h extra"

record 'h widgets =
  g_widgets :: "'h widget list"
  g_widget_count :: int
  g_next_widget_id :: int

text \<open>The callbacks see the widgets and a state \<open>'u\<close> of their own; a paint callback sees the display.\<close>

type_synonym ('h, 'u) click_call = "'h \<Rightarrow> int \<Rightarrow> 'h widgets \<times> 'u \<Rightarrow> ('h widgets \<times> 'u) option"

definition w_has :: "u16 \<Rightarrow> 'h widget \<Rightarrow> bool" where "w_has f w \<longleftrightarrow> w_flags w AND f \<noteq> 0"

definition upd_widget :: "nat \<Rightarrow> ('h widget \<Rightarrow> 'h widget) \<Rightarrow> 'h widgets \<Rightarrow> 'h widgets" where
  "upd_widget i f s = s\<lparr>g_widgets := (g_widgets s)[i := f (g_widgets s ! i)]\<rparr>"

text \<open>\<open>strncpy(buf, str, n - 1); buf[n - 1] = 0;\<close> on an array of \<open>n\<close> characters.\<close>

definition text_copy :: "nat \<Rightarrow> bytes \<Rightarrow> bytes" where
  "text_copy n t = take (n - 1) t @ replicate (n - 1 - length t) 0 @ [0]"

definition widget_find :: "int \<Rightarrow> 'h widgets \<Rightarrow> nat option" where
  "widget_find wid s = find (\<lambda>i. w_id (g_widgets s ! i) = wid) [0..<MAX_WIDGETS]"

section \<open>Painting\<close>

text \<open>A border of two colours, the first above and on the left.\<close>

definition paint_bevel :: "int \<Rightarrow> int \<Rightarrow> int \<Rightarrow> int \<Rightarrow> u8 \<Rightarrow> u8 \<Rightarrow> gfx \<Rightarrow> gfx" where
  "paint_bevel x y bw bh c1 c2 g =
     gfx_draw_vline (x + bw - 1) y bh c2 (gfx_draw_hline x (y + bh - 1) bw c2 (gfx_draw_vline x y bh c1 (gfx_draw_hline x y bw c1 g)))"

definition widget_paint_button :: "'h widget \<Rightarrow> int \<Rightarrow> int \<Rightarrow> gfx \<Rightarrow> gfx" where
  "widget_paint_button w ox oy g =
     (let x = rx (w_bounds w) + ox; y = ry (w_bounds w) + oy; bw = rwidth (w_bounds w); bh = rheight (w_bounds w);
          bg = (if w_has WIDGET_FLAG_PRESSED w then COLOR_DARK_GRAY else w_bg w);
          g = gfx_fill_rect x y bw bh bg g;
          g = (if w_has WIDGET_FLAG_PRESSED w then paint_bevel x y bw bh COLOR_DARK_GRAY COLOR_WHITE g
               else paint_bevel x y bw bh COLOR_WHITE COLOR_DARK_GRAY g);
          text_x = x + (bw - int (length (str_of (w_text w))) * FONT_WIDTH) sdiv 2;
          text_y = y + (bh - FONT_HEIGHT) sdiv 2
      in gfx_draw_string text_x text_y (str_of (w_text w)) (w_fg w) bg g)"

definition widget_paint_textbox :: "'h widget \<Rightarrow> int \<Rightarrow> int \<Rightarrow> gfx \<Rightarrow> gfx" where
  "widget_paint_textbox w ox oy g =
     (let x = rx (w_bounds w) + ox; y = ry (w_bounds w) + oy; bw = rwidth (w_bounds w); bh = rheight (w_bounds w);
          g = gfx_fill_rect x y bw bh GUI_COLOR_TEXT_BG g;
          g = paint_bevel x y bw bh COLOR_DARK_GRAY COLOR_WHITE g
      in gfx_draw_string (x + 2) (y + (bh - FONT_HEIGHT) sdiv 2) (str_of (w_text w)) GUI_COLOR_TEXT_FG GUI_COLOR_TEXT_BG g)"

definition widget_paint_label :: "'h widget \<Rightarrow> int \<Rightarrow> int \<Rightarrow> gfx \<Rightarrow> gfx" where
  "widget_paint_label w ox oy g = gfx_draw_string (rx (w_bounds w) + ox) (ry (w_bounds w) + oy) (str_of (w_text w)) (w_fg w) (w_bg w) g"

definition widget_paint_checkbox :: "'h widget \<Rightarrow> int \<Rightarrow> int \<Rightarrow> gfx \<Rightarrow> gfx option" where
  "widget_paint_checkbox w ox oy g =
     (let x = rx (w_bounds w) + ox; y = ry (w_bounds w) + oy; box_size = 12;
          g = gfx_fill_rect x (y + (FONT_HEIGHT - box_size) div 2) box_size box_size COLOR_WHITE g;
          g = gfx_draw_rect x (y + (FONT_HEIGHT - box_size) div 2) box_size box_size COLOR_BLACK g;
          bx = x + 2; b_y = y + (FONT_HEIGHT - box_size) div 2 + 3
      in Option.bind
           (if checked (extra w) \<noteq> 0
            then Option.bind (gfx_draw_line bx (b_y + 3) (bx + 2) (b_y + 5) COLOR_BLACK g) (gfx_draw_line (bx + 2) (b_y + 5) (bx + 6) b_y COLOR_BLACK)
            else Some g)
           (\<lambda>g. Some (gfx_draw_string (x + box_size + 4) y (str_of (w_text w)) (w_fg w) (w_bg w) g)))"

definition paint_list_item :: "'h widget \<Rightarrow> int \<Rightarrow> int \<Rightarrow> nat \<Rightarrow> gfx \<Rightarrow> gfx" where
  "paint_list_item w x y i g =
     (let bw = rwidth (w_bounds w); idx = int i + scroll_offset (extra w); item_y = y + int i * FONT_HEIGHT; item = str_of (list_items (extra w) ! nat idx)
      in if idx = selected (extra w)
         then gfx_draw_string (x + 2) item_y item COLOR_WHITE GUI_COLOR_MENU_HIGHLIGHT (gfx_fill_rect (x + 1) item_y (bw - 2) FONT_HEIGHT GUI_COLOR_MENU_HIGHLIGHT g)
         else gfx_draw_string (x + 2) item_y item COLOR_BLACK COLOR_WHITE g)"

text \<open>The loop ends at the first item that is not visible or that does not exist.\<close>

definition widget_paint_listbox :: "'h widget \<Rightarrow> int \<Rightarrow> int \<Rightarrow> gfx \<Rightarrow> gfx" where
  "widget_paint_listbox w ox oy g =
     (let x = rx (w_bounds w) + ox; y = ry (w_bounds w) + oy; bw = rwidth (w_bounds w); bh = rheight (w_bounds w);
          g = gfx_fill_rect x y bw bh COLOR_WHITE g;
          g = paint_bevel x y bw bh COLOR_DARK_GRAY COLOR_WHITE g;
          visible_items = bh sdiv FONT_HEIGHT
      in for_range 0 (nat (min visible_items (int (list_count (extra w)) - scroll_offset (extra w)))) (paint_list_item w x y) g)"

definition paint_arrow :: "int \<Rightarrow> int \<Rightarrow> int \<Rightarrow> int \<Rightarrow> gfx \<Rightarrow> gfx option" where
  "paint_arrow x bw tip base g =
     Option.bind (gfx_draw_line (x + bw sdiv 2) tip (x + 3) base COLOR_BLACK g) (gfx_draw_line (x + bw sdiv 2) tip (x + bw - 3) base COLOR_BLACK)"

definition paint_thumb :: "'h widget \<Rightarrow> int \<Rightarrow> int \<Rightarrow> gfx \<Rightarrow> gfx" where
  "paint_thumb w x y g =
     (let bw = rwidth (w_bounds w); bh = rheight (w_bounds w); btn_size = 16; range = max_val (extra w) - min_val (extra w)
      in if range > 0 then
           let track_h = bh - 2 * btn_size;
               thumb_h = (if track_h sdiv (range + 1) < 8 then 8 else track_h sdiv (range + 1));
               thumb_y = btn_size + ((cur_val (extra w) - min_val (extra w)) * (track_h - thumb_h)) sdiv range
           in gfx_draw_rect (x + 1) (y + thumb_y) (bw - 2) thumb_h COLOR_BLACK (gfx_fill_rect (x + 1) (y + thumb_y) (bw - 2) thumb_h GUI_COLOR_BUTTON_BG g)
         else g)"

definition widget_paint_scrollbar :: "'h widget \<Rightarrow> int \<Rightarrow> int \<Rightarrow> gfx \<Rightarrow> gfx option" where
  "widget_paint_scrollbar w ox oy g =
     (let x = rx (w_bounds w) + ox; y = ry (w_bounds w) + oy; bw = rwidth (w_bounds w); bh = rheight (w_bounds w); btn_size = 16;
          g = gfx_fill_rect x y bw bh GUI_COLOR_SCROLLBAR_BG g;
          g = gfx_fill_rect x y bw btn_size GUI_COLOR_BUTTON_BG g;
          g = gfx_draw_rect x y bw btn_size COLOR_BLACK g
      in Option.bind (paint_arrow x bw (y + 3) (y + btn_size - 3) g) (\<lambda>g.
         let g = gfx_fill_rect x (y + bh - btn_size) bw btn_size GUI_COLOR_BUTTON_BG g;
             g = gfx_draw_rect x (y + bh - btn_size) bw btn_size COLOR_BLACK g
         in map_option (paint_thumb w x y) (paint_arrow x bw (y + bh - 3) (y + bh - btn_size + 3) g)))"

definition menu_item_width :: "'h widget \<Rightarrow> nat \<Rightarrow> int" where
  "menu_item_width w i = int (length (str_of (menu_items (extra w) ! i))) * FONT_WIDTH + 8"

definition paint_menu_item :: "'h widget \<Rightarrow> int \<Rightarrow> nat \<Rightarrow> int \<times> gfx \<Rightarrow> int \<times> gfx" where
  "paint_menu_item w y i = (\<lambda>(item_x, g).
     let bh = rheight (w_bounds w); item_w = menu_item_width w i; item = str_of (menu_items (extra w) ! i);
         text_y = y + (bh - FONT_HEIGHT) sdiv 2
     in (item_x + item_w,
         if w_has WIDGET_FLAG_PRESSED w
         then gfx_draw_string (item_x + 4) text_y item COLOR_WHITE GUI_COLOR_MENU_HIGHLIGHT (gfx_fill_rect item_x y item_w bh GUI_COLOR_MENU_HIGHLIGHT g)
         else gfx_draw_string (item_x + 4) text_y item GUI_COLOR_MENU_FG GUI_COLOR_MENU_BG g))"

definition widget_paint_menubar :: "'h widget \<Rightarrow> int \<Rightarrow> int \<Rightarrow> gfx \<Rightarrow> gfx" where
  "widget_paint_menubar w ox oy g =
     (let x = rx (w_bounds w) + ox; y = ry (w_bounds w) + oy; bw = rwidth (w_bounds w); bh = rheight (w_bounds w);
          g = gfx_fill_rect x y bw bh GUI_COLOR_MENU_BG g;
          g = gfx_draw_hline x (y + bh - 1) bw COLOR_DARK_GRAY g
      in snd (for_range 0 (menu_count (extra w)) (paint_menu_item w y) (x + 2, g)))"

text \<open>The \<open>switch\<close> of \<open>widget_paint\<close>.\<close>

definition paint_self :: "'h widget \<Rightarrow> int \<Rightarrow> int \<Rightarrow> gfx \<Rightarrow> gfx option" where
  "paint_self w ox oy g =
     (case w_type w of
        WIDGET_BUTTON \<Rightarrow> Some (widget_paint_button w ox oy g)
      | WIDGET_TEXTBOX \<Rightarrow> Some (widget_paint_textbox w ox oy g)
      | WIDGET_LABEL \<Rightarrow> Some (widget_paint_label w ox oy g)
      | WIDGET_CHECKBOX \<Rightarrow> widget_paint_checkbox w ox oy g
      | WIDGET_RADIO \<Rightarrow> widget_paint_checkbox w ox oy g
      | WIDGET_LISTBOX \<Rightarrow> Some (widget_paint_listbox w ox oy g)
      | WIDGET_SCROLLBAR \<Rightarrow> widget_paint_scrollbar w ox oy g
      | WIDGET_MENUBAR \<Rightarrow> Some (widget_paint_menubar w ox oy g)
      | WIDGET_MENUITEM \<Rightarrow> Some (widget_paint_menubar w ox oy g)
      | WIDGET_PANEL \<Rightarrow> Some (gfx_fill_rect (rx (w_bounds w) + ox) (ry (w_bounds w) + oy) (rwidth (w_bounds w)) (rheight (w_bounds w)) (w_bg w) g))"

section \<open>The table\<close>

definition widgets_init :: "'h widgets \<Rightarrow> 'h widgets" where
  "widgets_init s = s\<lparr>g_widgets := map (\<lambda>w. w\<lparr>w_id := 0\<rparr>) (g_widgets s), g_widget_count := 0, g_next_widget_id := 1\<rparr>"

definition zero_extra :: "'h extra" where
  "zero_extra = \<lparr>checked = 0, selected = 0, scroll_offset = 0, list_count = 0, list_items = replicate 16 (replicate 64 0), min_val = 0, max_val = 0, cur_val = 0,
     menu_count = 0, menu_items = replicate WIDGET_MAX_MENU_ITEMS (replicate 32 0), menu_callbacks = replicate WIDGET_MAX_MENU_ITEMS None\<rparr>"

definition widget_create :: "widget_type \<Rightarrow> int \<Rightarrow> int \<Rightarrow> int \<Rightarrow> int \<Rightarrow> bytes option \<Rightarrow> u8 \<Rightarrow> u8 \<Rightarrow> 'h option \<Rightarrow> 'h widgets \<Rightarrow> int \<times> 'h widgets" where
  "widget_create type x y width height label fg bg click s =
     (case find (\<lambda>i. w_id (g_widgets s ! i) = 0) [0..<MAX_WIDGETS] of
        None \<Rightarrow> (- 1, s)
      | Some idx \<Rightarrow>
          (let wid = g_next_widget_id s;
               w = (g_widgets s ! idx)\<lparr>w_id := wid, w_type := type, w_flags := WIDGET_FLAG_VISIBLE OR WIDGET_FLAG_ENABLED,
                     w_bounds := \<lparr>rx = x, ry = y, rwidth = width, rheight = height\<rparr>, w_fg := fg, w_bg := bg, on_click := click, w_on_paint := None,
                     parent_id := - 1, child_count := 0,
                     w_text := (case label of Some t \<Rightarrow> text_copy WIDGET_MAX_TEXT t | None \<Rightarrow> (w_text (g_widgets s ! idx))[0 := 0]), extra := zero_extra\<rparr>
           in (wid, s\<lparr>g_widgets := (g_widgets s)[idx := w], g_next_widget_id := wid + 1, g_widget_count := g_widget_count s + 1\<rparr>)))"

definition drop_child :: "int \<Rightarrow> 'h widget \<Rightarrow> 'h widget" where
  "drop_child wid w =
     (case find (\<lambda>i. children w ! i = wid) [0..<child_count w] of
        None \<Rightarrow> w
      | Some i \<Rightarrow> w\<lparr>children := for_range i (child_count w - 1) (\<lambda>j z. z[j := z ! (j + 1)]) (children w), child_count := child_count w - 1\<rparr>)"

definition unlink_parent :: "int \<Rightarrow> nat \<Rightarrow> 'h widgets \<Rightarrow> 'h widgets" where
  "unlink_parent wid idx s =
     (let p = parent_id (g_widgets s ! idx)
      in if p \<ge> 0 then case widget_find p s of None \<Rightarrow> s | Some pidx \<Rightarrow> upd_widget pidx (drop_child wid) s else s)"

text \<open>\<open>Inl wid\<close> is the entry of \<open>widget_destroy\<close>, \<open>Inr idx\<close> its loop over the children of slot \<open>idx\<close> and what follows.\<close>

partial_function (option) destroy_from :: "int + nat \<Rightarrow> 'h widgets \<Rightarrow> 'h widgets option" where
  [code]: "destroy_from at s =
     (case at of
        Inl wid \<Rightarrow> (case widget_find wid s of None \<Rightarrow> Some s | Some idx \<Rightarrow> destroy_from (Inr idx) (unlink_parent wid idx s))
      | Inr idx \<Rightarrow>
          (if child_count (g_widgets s ! idx) > 0
           then Option.bind (destroy_from (Inl (children (g_widgets s ! idx) ! 0)) s) (\<lambda>s. destroy_from (Inr idx) s)
           else Some ((upd_widget idx (\<lambda>w. w\<lparr>w_id := 0\<rparr>) s)\<lparr>g_widget_count := g_widget_count s - 1\<rparr>)))"

definition widget_destroy :: "int \<Rightarrow> 'h widgets \<Rightarrow> 'h widgets option" where
  "widget_destroy wid s = destroy_from (Inl wid) s"

definition widget_add_child :: "int \<Rightarrow> int \<Rightarrow> 'h widgets \<Rightarrow> 'h widgets" where
  "widget_add_child pid cid s =
     (case (widget_find pid s, widget_find cid s) of
        (Some pidx, Some cidx) \<Rightarrow>
          if child_count (g_widgets s ! pidx) \<ge> WIDGET_MAX_CHILDREN then s
          else upd_widget cidx (\<lambda>w. w\<lparr>parent_id := pid\<rparr>)
                 (upd_widget pidx (\<lambda>w. w\<lparr>children := (children w)[child_count w := cid], child_count := child_count w + 1\<rparr>) s)
      | _ \<Rightarrow> s)"

definition on_widget :: "int \<Rightarrow> ('h widget \<Rightarrow> 'h widget) \<Rightarrow> 'h widgets \<Rightarrow> 'h widgets" where
  "on_widget wid f s = (case widget_find wid s of None \<Rightarrow> s | Some idx \<Rightarrow> upd_widget idx f s)"

definition widget_set_text :: "int \<Rightarrow> bytes option \<Rightarrow> 'h widgets \<Rightarrow> 'h widgets" where
  "widget_set_text wid t = on_widget wid (\<lambda>w. case t of None \<Rightarrow> w | Some t \<Rightarrow> w\<lparr>w_text := text_copy WIDGET_MAX_TEXT t\<rparr>)"

definition set_w_flag :: "u16 \<Rightarrow> bool \<Rightarrow> 'h widget \<Rightarrow> 'h widget" where
  "set_w_flag f b w = w\<lparr>w_flags := (if b then w_flags w OR f else w_flags w AND NOT f)\<rparr>"

definition widget_set_visible :: "int \<Rightarrow> bool \<Rightarrow> 'h widgets \<Rightarrow> 'h widgets" where
  "widget_set_visible wid b = on_widget wid (set_w_flag WIDGET_FLAG_VISIBLE b)"

definition widget_set_enabled :: "int \<Rightarrow> bool \<Rightarrow> 'h widgets \<Rightarrow> 'h widgets" where
  "widget_set_enabled wid b = on_widget wid (set_w_flag WIDGET_FLAG_ENABLED b)"

text \<open>\<open>Inl (wid, ox, oy)\<close> is the entry of \<open>widget_paint\<close>, \<open>Inr (idx, i, ox, oy)\<close> its loop from child \<open>i\<close> on.\<close>

partial_function (option) paint_from :: "('h, gfx) click_call \<Rightarrow> (int \<times> int \<times> int) + (nat \<times> nat \<times> int \<times> int) \<Rightarrow> 'h widgets \<times> gfx \<Rightarrow> ('h widgets \<times> gfx) option" where
  [code]: "paint_from pt at s =
     (case at of
        Inl (wid, ox, oy) \<Rightarrow>
          (case widget_find wid (fst s) of
             None \<Rightarrow> Some s
           | Some idx \<Rightarrow>
               (let w = g_widgets (fst s) ! idx
                in if \<not> w_has WIDGET_FLAG_VISIBLE w then Some s
                   else Option.bind (paint_self w ox oy (snd s)) (\<lambda>g.
                        Option.bind (case w_on_paint w of None \<Rightarrow> Some (fst s, g) | Some h \<Rightarrow> pt h wid (fst s, g)) (\<lambda>s.
                        paint_from pt (Inr (idx, 0, ox, oy)) s))))
      | Inr (idx, i, ox, oy) \<Rightarrow>
          (let w = g_widgets (fst s) ! idx
           in if i < child_count w
              then Option.bind (paint_from pt (Inl (children w ! i, ox + rx (w_bounds w), oy + ry (w_bounds w))) s) (\<lambda>s. paint_from pt (Inr (idx, i + 1, ox, oy)) s)
              else Some s))"

definition widget_paint :: "('h, gfx) click_call \<Rightarrow> int \<Rightarrow> int \<Rightarrow> int \<Rightarrow> 'h widgets \<times> gfx \<Rightarrow> ('h widgets \<times> gfx) option" where
  "widget_paint pt wid ox oy s = paint_from pt (Inl (wid, ox, oy)) s"

definition w_inside :: "'h widget \<Rightarrow> int \<Rightarrow> int \<Rightarrow> bool" where
  "w_inside w x y \<longleftrightarrow> x \<ge> rx (w_bounds w) \<and> x < rx (w_bounds w) + rwidth (w_bounds w) \<and> y \<ge> ry (w_bounds w) \<and> y < ry (w_bounds w) + rheight (w_bounds w)"

definition press :: "'h widget \<Rightarrow> 'h widget" where
  "press w = (let w = w\<lparr>w_flags := w_flags w OR WIDGET_FLAG_PRESSED\<rparr>
     in if w_type w = WIDGET_CHECKBOX then w\<lparr>extra := (extra w)\<lparr>checked := checked (extra w) XOR 1\<rparr>\<rparr> else w)"

definition click_self :: "('h, 'u) click_call \<Rightarrow> int \<Rightarrow> nat \<Rightarrow> int \<Rightarrow> int \<Rightarrow> 'h widgets \<times> 'u \<Rightarrow> (int \<times> 'h widgets \<times> 'u) option" where
  "click_self ck wid idx x y s =
     (if w_inside (g_widgets (fst s) ! idx) x y then
        let t = upd_widget idx press (fst s)
        in map_option (\<lambda>s. (wid, s)) (case on_click (g_widgets t ! idx) of None \<Rightarrow> Some (t, snd s) | Some h \<Rightarrow> ck h wid (t, snd s))
      else Some (- 1, s))"

text \<open>\<open>Inl wid\<close> is the entry of \<open>widget_handle_click\<close>, \<open>Inr (wid, idx, i)\<close> its loop with the children below \<open>i\<close> left and what follows.\<close>

partial_function (option) click_from :: "('h, 'u) click_call \<Rightarrow> int + (int \<times> nat \<times> nat) \<Rightarrow> int \<Rightarrow> int \<Rightarrow> 'h widgets \<times> 'u \<Rightarrow> (int \<times> 'h widgets \<times> 'u) option" where
  [code]: "click_from ck at x y s =
     (case at of
        Inl wid \<Rightarrow>
          (case widget_find wid (fst s) of
             None \<Rightarrow> Some (- 1, s)
           | Some idx \<Rightarrow>
               (let w = g_widgets (fst s) ! idx
                in if \<not> w_has WIDGET_FLAG_VISIBLE w then Some (- 1, s)
                   else if \<not> w_has WIDGET_FLAG_ENABLED w then Some (- 1, s)
                   else click_from ck (Inr (wid, idx, child_count w)) x y s))
      | Inr (wid, idx, i) \<Rightarrow>
          (if i = 0 then click_self ck wid idx x y s
           else Option.bind (click_from ck (Inl (children (g_widgets (fst s) ! idx) ! (i - 1))) x y s) (\<lambda>r.
                if fst r \<ge> 0 then Some r else click_from ck (Inr (wid, idx, i - 1)) x y (snd r))))"

definition widget_handle_click :: "('h, 'u) click_call \<Rightarrow> int \<Rightarrow> int \<Rightarrow> int \<Rightarrow> 'h widgets \<times> 'u \<Rightarrow> (int \<times> 'h widgets \<times> 'u) option" where
  "widget_handle_click ck wid x y s = click_from ck (Inl wid) x y s"

definition widget_get :: "int \<Rightarrow> 'h widgets \<Rightarrow> 'h widget option" where
  "widget_get wid s = map_option (\<lambda>i. g_widgets s ! i) (widget_find wid s)"

section \<open>Operations of single types\<close>

definition on_typed :: "widget_type \<Rightarrow> int \<Rightarrow> ('h extra \<Rightarrow> 'h extra) \<Rightarrow> 'h widgets \<Rightarrow> 'h widgets" where
  "on_typed ty wid f = on_widget wid (\<lambda>w. if w_type w \<noteq> ty then w else w\<lparr>extra := f (extra w)\<rparr>)"

definition checkbox_set_checked :: "int \<Rightarrow> bool \<Rightarrow> 'h widgets \<Rightarrow> 'h widgets" where
  "checkbox_set_checked wid b = on_typed WIDGET_CHECKBOX wid (\<lambda>e. e\<lparr>checked := (if b then 1 else 0)\<rparr>)"

definition checkbox_is_checked :: "int \<Rightarrow> 'h widgets \<Rightarrow> bool" where
  "checkbox_is_checked wid s =
     (case widget_get wid s of None \<Rightarrow> False | Some w \<Rightarrow> if w_type w \<noteq> WIDGET_CHECKBOX then False else checked (extra w) \<noteq> 0)"

definition listbox_add_item :: "int \<Rightarrow> bytes \<Rightarrow> 'h widgets \<Rightarrow> 'h widgets" where
  "listbox_add_item wid item = on_typed WIDGET_LISTBOX wid (\<lambda>e.
     if list_count e \<ge> 16 then e else e\<lparr>list_items := (list_items e)[list_count e := text_copy 64 item], list_count := list_count e + 1\<rparr>)"

definition listbox_get_selected :: "int \<Rightarrow> 'h widgets \<Rightarrow> int" where
  "listbox_get_selected wid s = (case widget_get wid s of None \<Rightarrow> - 1 | Some w \<Rightarrow> if w_type w \<noteq> WIDGET_LISTBOX then - 1 else selected (extra w))"

definition scrollbar_set_range :: "int \<Rightarrow> int \<Rightarrow> int \<Rightarrow> int \<Rightarrow> 'h widgets \<Rightarrow> 'h widgets" where
  "scrollbar_set_range wid mn mx cur = on_typed WIDGET_SCROLLBAR wid (\<lambda>e. e\<lparr>min_val := mn, max_val := mx, cur_val := cur\<rparr>)"

definition scrollbar_get_value :: "int \<Rightarrow> 'h widgets \<Rightarrow> int" where
  "scrollbar_get_value wid s = (case widget_get wid s of None \<Rightarrow> 0 | Some w \<Rightarrow> if w_type w \<noteq> WIDGET_SCROLLBAR then 0 else cur_val (extra w))"

definition menubar_add_item :: "int \<Rightarrow> bytes \<Rightarrow> 'h option \<Rightarrow> 'h widgets \<Rightarrow> 'h widgets" where
  "menubar_add_item wid item callback = on_typed WIDGET_MENUBAR wid (\<lambda>e.
     if menu_count e \<ge> WIDGET_MAX_MENU_ITEMS then e
     else e\<lparr>menu_items := (menu_items e)[menu_count e := text_copy 32 item], menu_callbacks := (menu_callbacks e)[menu_count e := callback],
            menu_count := menu_count e + 1\<rparr>)"

end
