(* ===== verification/Widgets_Spec.thy ===== *)
theory Widgets_Spec
  imports Widgets Wm_Spec Painters
begin

text \<open>
  Widgets whose links form a tree: destroying a widget returns and frees exactly its subtree, a click goes to the topmost widget, and what happens when a widget is
  added to two parents.
\<close>

unbundle bit_operations_syntax

section \<open>Trees of widgets\<close>

datatype wtree = WNode (root_id: int) (root_idx: nat) "wtree list"

fun slots :: "wtree \<Rightarrow> nat list" where
  "slots (WNode i k ts) = k # concat (map slots ts)"

abbreviation wslot :: "'h widgets \<Rightarrow> nat \<Rightarrow> 'h widget" where "wslot s k \<equiv> g_widgets s ! k"

text \<open>A tree describes a part of the table: the widgets are found under their identifiers, and the links of parents and children agree.\<close>

fun represents :: "'h widgets \<Rightarrow> wtree \<Rightarrow> bool" where
  "represents s (WNode i k ts) \<longleftrightarrow> i > 0 \<and> widget_find i s = Some k \<and> child_count (wslot s k) = length ts \<and>
     take (length ts) (children (wslot s k)) = map root_id ts \<and> (\<forall>t \<in> set ts. represents s t \<and> parent_id (wslot s (root_idx t)) = i)"

lemma root_in_slots [simp]: "root_idx t \<in> set (slots t)"
  by (cases t) simp

lemma widget_find_some: "widget_find i s = Some k \<longleftrightarrow> k < MAX_WIDGETS \<and> w_id (wslot s k) = i \<and> (\<forall>j < k. w_id (wslot s j) \<noteq> i)"
  unfolding widget_find_def find_upt_Some by auto

lemma represents_root: "represents s t \<Longrightarrow> root_id t > 0 \<and> widget_find (root_id t) s = Some (root_idx t)"
  by (cases t) simp

text \<open>The description survives changes elsewhere that give no identifier to another slot.\<close>

definition only_frees :: "'h widgets \<Rightarrow> 'h widgets \<Rightarrow> bool" where
  "only_frees s s' \<longleftrightarrow> (\<forall>j < MAX_WIDGETS. w_id (wslot s' j) = w_id (wslot s j) \<or> w_id (wslot s' j) = 0)"

lemma find_frame: "widget_find i s = Some k \<Longrightarrow> i > 0 \<Longrightarrow> only_frees s s' \<Longrightarrow> w_id (wslot s' k) = i \<Longrightarrow> widget_find i s' = Some k"
  unfolding widget_find_some only_frees_def by (metis less_trans less_irrefl)

lemma represents_frame:
  "represents s t \<Longrightarrow> \<forall>j \<in> set (slots t). wslot s' j = wslot s j \<Longrightarrow> only_frees s s' \<Longrightarrow> represents s' t"
proof (induction s t rule: represents.induct)
  case (1 s i k ts)
  have k: "wslot s' k = wslot s k" using 1(3) by simp
  have "w_id (wslot s' k) = i" using 1(2) k by (simp add: widget_find_some)
  then have f: "widget_find i s' = Some k" using 1(2,4) by (auto intro: find_frame)
  have "represents s' t \<and> parent_id (wslot s' (root_idx t)) = i" if t: "t \<in> set ts" for t
  proof -
    have sub: "\<forall>j \<in> set (slots t). wslot s' j = wslot s j" using 1(3) t by auto
    moreover have "represents s t" "parent_id (wslot s (root_idx t)) = i" using 1(2) t by auto
    ultimately show ?thesis using 1(1) [OF t] 1(4) root_in_slots [of t] by auto
  qed
  with 1(2) k f show ?case by simp
qed

section \<open>Destroying a tree\<close>

text \<open>The children in use, and what remains of them when one is taken out.\<close>

definition kids :: "'h widget \<Rightarrow> int list" where "kids w = take (child_count w) (children w)"

lemma drop_child_kids:
  assumes "child_count w \<le> length (children w)"
  shows "kids (drop_child i w) = remove1 i (kids w) \<and> child_count (drop_child i w) = length (remove1 i (kids w)) \<and>
    drop_child i w = w\<lparr>children := children (drop_child i w), child_count := child_count (drop_child i w)\<rparr>"
proof (cases "find (\<lambda>j. children w ! j = i) [0..<child_count w]")
  case None
  then have "\<forall>j < child_count w. children w ! j \<noteq> i" by (simp add: find_upt_None)
  then have "i \<notin> set (kids w)" using assms by (auto simp: kids_def in_set_conv_nth)
  with None assms show ?thesis by (simp add: drop_child_def remove1_idem kids_def min_absorb2)
next
  case (Some j)
  show ?thesis using shift_down_remove1 [OF assms Some] by (simp add: drop_child_def Some kids_def)
qed

lemma drop_first:
  assumes "child_count w = Suc n" "take (Suc n) (children w) = i # is" "length is = n"
  shows "child_count (drop_child i w) = n" "take n (children (drop_child i w)) = is" "w_id (drop_child i w) = w_id w" "parent_id (drop_child i w) = parent_id w"
proof -
  have "child_count w \<le> length (children w)" using arg_cong [OF assms(2), of length] assms(1,3) by simp
  note c = drop_child_kids [OF this, of i]
  have "kids w = i # is" using assms(1,2) by (simp add: kids_def)
  with c assms(3) have d: "kids (drop_child i w) = is" "child_count (drop_child i w) = n" by simp_all
  have e: "drop_child i w = w\<lparr>children := children (drop_child i w), child_count := child_count (drop_child i w)\<rparr>" using c by blast
  from d show "child_count (drop_child i w) = n" "take n (children (drop_child i w)) = is" by (simp_all add: kids_def)
  show "w_id (drop_child i w) = w_id w" "parent_id (drop_child i w) = parent_id w" by (subst e, simp)+
qed

lemma drop_child_id [simp]: "w_id (drop_child i w) = w_id w"
  by (simp add: drop_child_def split: option.split)

lemma unlink_cases:
  "unlink_parent i k s = s \<or>
   (\<exists>p. parent_id (wslot s k) \<ge> 0 \<and> widget_find (parent_id (wslot s k)) s = Some p \<and> unlink_parent i k s = upd_widget p (drop_child i) s)"
  by (simp add: unlink_parent_def Let_def split: option.split)

text \<open>What a call that destroys the slots \<open>ks\<close> has done to the rest of the table \<open>s\<close>.\<close>

definition freed :: "nat list \<Rightarrow> 'h widgets \<Rightarrow> 'h widgets \<Rightarrow> bool" where
  "freed ks s s' \<longleftrightarrow> length (g_widgets s') = length (g_widgets s) \<and> (\<forall>j. j \<notin> set ks \<longrightarrow> wslot s' j = wslot s j) \<and> (\<forall>j \<in> set ks. w_id (wslot s' j) = 0) \<and>
     g_widget_count s' = g_widget_count s - int (length ks) \<and> g_next_widget_id s' = g_next_widget_id s"

lemma freed_only_frees: "freed ks s s' \<Longrightarrow> only_frees s s'"
  unfolding freed_def only_frees_def by metis

lemma slot_upd: "k < length (g_widgets s) \<Longrightarrow> wslot (upd_widget k f s) j = (if j = k then f (wslot s k) else wslot s j)"
  by (simp add: upd_widget_def)

lemma upd_length [simp]: "length (g_widgets (upd_widget k f s)) = length (g_widgets s)"
  by (simp add: upd_widget_def)

lemma destroy_loop:
  fixes s :: "'h widgets"
  assumes "\<And>t (s :: 'h widgets). t \<in> set ts \<Longrightarrow> represents s t \<Longrightarrow> distinct (slots t) \<Longrightarrow> length (g_widgets s) = MAX_WIDGETS \<Longrightarrow>
      (\<forall>p. parent_id (wslot s (root_idx t)) \<ge> 0 \<and> widget_find (parent_id (wslot s (root_idx t))) s = Some p \<longrightarrow> p \<notin> set (slots t)) \<Longrightarrow>
      \<exists>s'. destroy_from (Inl (root_id t)) s = Some s' \<and> freed (slots t) (unlink_parent (root_id t) (root_idx t) s) s'"
    and "i > 0" "widget_find i s = Some k" "child_count (wslot s k) = length ts" "take (length ts) (children (wslot s k)) = map root_id ts"
    and "\<forall>t \<in> set ts. represents s t \<and> parent_id (wslot s (root_idx t)) = i" "distinct (k # concat (map slots ts))" "length (g_widgets s) = MAX_WIDGETS"
  shows "\<exists>s'. destroy_from (Inr k) s = Some s' \<and> freed (k # concat (map slots ts)) s s'"
  using assms
proof (induction ts arbitrary: s)
  case Nil
  let ?s' = "(upd_widget k (\<lambda>w. w\<lparr>w_id := 0\<rparr>) s)\<lparr>g_widget_count := g_widget_count s - 1\<rparr>"
  have "destroy_from (Inr k) s = Some ?s'" using Nil.prems(4) by (subst destroy_from.simps) simp
  moreover have "k < length (g_widgets s)" using Nil.prems(3,8) by (simp add: widget_find_some)
  then have "freed [k] s ?s'" by (auto simp: freed_def upd_widget_def)
  ultimately show ?case by simp
next
  case (Cons t ts)
  note p = Cons.prems
  have t: "represents s t" "parent_id (wslot s (root_idx t)) = i" "distinct (slots t)" "k \<notin> set (slots t)" using p(6,7) by auto
  let ?u = "unlink_parent (root_id t) (root_idx t) s"
  have u: "?u = upd_widget k (drop_child (root_id t)) s" using p(2,3) t(2) by (simp add: unlink_parent_def)
  have k: "k < length (g_widgets s)" "w_id (wslot s k) = i" using p(3,8) by (simp_all add: widget_find_some)
  have "\<forall>q. parent_id (wslot s (root_idx t)) \<ge> 0 \<and> widget_find (parent_id (wslot s (root_idx t))) s = Some q \<longrightarrow> q \<notin> set (slots t)"
    using t(2,4) p(3) by simp
  from p(1) [of t s, OF _ t(1,3) p(8) this] obtain s1 where s1: "destroy_from (Inl (root_id t)) s = Some s1" "freed (slots t) ?u s1" by auto
  have out: "wslot s1 j = (if j = k then drop_child (root_id t) (wslot s k) else wslot s j)" if "j \<notin> set (slots t)" for j
    using s1(2) that k(1) by (simp add: freed_def u slot_upd)
  have fr: "only_frees s s1" using freed_only_frees [OF s1(2)] k(1) unfolding only_frees_def u by (auto simp: slot_upd split: if_splits)
  have k1: "wslot s1 k = drop_child (root_id t) (wslot s k)" using out [OF t(4)] by simp
  have "take (Suc (length ts)) (children (wslot s k)) = root_id t # map root_id ts" "child_count (wslot s k) = Suc (length ts)" using p(4,5) by simp_all
  note d = drop_first [OF this(2,1) length_map]
  have f1: "widget_find i s1 = Some k" using find_frame [OF p(3,2) fr] k1 k(2) by simp
  have sub: "represents s1 t' \<and> parent_id (wslot s1 (root_idx t')) = i" if t': "t' \<in> set ts" for t'
  proof -
    have "wslot s1 j = wslot s j" if "j \<in> set (slots t')" for j
    proof -
      have "j \<notin> set (slots t)" "j \<noteq> k" using that t' p(7) by auto
      then show ?thesis using out [of j] by simp
    qed
    then show ?thesis using represents_frame [OF _ _ fr, of t'] p(6) t' root_in_slots [of t'] by auto
  qed
  have len: "length (g_widgets s1) = MAX_WIDGETS" using s1(2) p(8) by (simp add: freed_def u)
  have dd: "distinct (k # concat (map slots ts))" using p(7) by auto
  have c1: "child_count (wslot s1 k) = length ts" "take (length ts) (children (wslot s1 k)) = map root_id ts" unfolding k1 using d(1,2) by simp_all
  have sub': "\<forall>t \<in> set ts. represents s1 t \<and> parent_id (wslot s1 (root_idx t)) = i" using sub by blast
  have "\<exists>s2. destroy_from (Inr k) s1 = Some s2 \<and> freed (k # concat (map slots ts)) s1 s2"
    by (rule Cons.IH [OF p(1) p(2) f1 c1 sub' dd len]) simp_all
  then obtain s2 where s2: "destroy_from (Inr k) s1 = Some s2" "freed (k # concat (map slots ts)) s1 s2" by blast
  have "destroy_from (Inr k) s = Some s2"
  proof -
    have "children (wslot s k) ! 0 = root_id t" using p(5) by (cases "children (wslot s k)") auto
    then show ?thesis using p(4) s1(1) s2(1) by (subst destroy_from.simps) simp
  qed
  moreover have "freed (k # concat (map slots (t # ts))) s s2"
    unfolding freed_def
  proof (intro conjI allI impI ballI)
    show "length (g_widgets s2) = length (g_widgets s)" using s2(2) len p(8) by (simp add: freed_def)
    show "wslot s2 j = wslot s j" if "j \<notin> set (k # concat (map slots (t # ts)))" for j
      using that s2(2) out [of j] by (simp add: freed_def)
    show "w_id (wslot s2 j) = 0" if "j \<in> set (k # concat (map slots (t # ts)))" for j
    proof (cases "j \<in> set (k # concat (map slots ts))")
      case False
      then show ?thesis using that s2(2) s1(2) unfolding freed_def by auto
    qed (use s2(2) in \<open>auto simp: freed_def\<close>)
    show "g_widget_count s2 = g_widget_count s - int (length (k # concat (map slots (t # ts))))" "g_next_widget_id s2 = g_next_widget_id s"
      using s2(2) s1(2) by (simp_all add: freed_def u upd_widget_def)
  qed
  ultimately show ?case by blast
qed

lemma destroy_tree:
  "represents s t \<Longrightarrow> distinct (slots t) \<Longrightarrow> length (g_widgets s) = MAX_WIDGETS \<Longrightarrow>
   (\<forall>p. parent_id (wslot s (root_idx t)) \<ge> 0 \<and> widget_find (parent_id (wslot s (root_idx t))) s = Some p \<longrightarrow> p \<notin> set (slots t)) \<Longrightarrow>
   \<exists>s'. destroy_from (Inl (root_id t)) s = Some s' \<and> freed (slots t) (unlink_parent (root_id t) (root_idx t) s) s'"
proof (induction t arbitrary: s)
  case (WNode i k ts)
  define u where "u = unlink_parent i k s"
  have len: "length (g_widgets u) = MAX_WIDGETS" using WNode.prems(3) by (simp add: u_def unlink_parent_def Let_def split: option.split)
  have same: "wslot u j = wslot s j" if "j \<in> set (slots (WNode i k ts))" for j
  proof -
    consider "u = s" | p where "parent_id (wslot s k) \<ge> 0" "widget_find (parent_id (wslot s k)) s = Some p" "u = upd_widget p (drop_child i) s"
      using unlink_cases [of i k s] unfolding u_def by blast
    then show ?thesis
    proof cases
      case 2
      then have "p \<noteq> j" "p < length (g_widgets s)" using WNode.prems(3,4) that by (auto simp: widget_find_some)
      with 2(3) show ?thesis by (simp add: slot_upd)
    qed simp
  qed
  have "only_frees s u"
    using unlink_cases [of i k s] WNode.prems(3) unfolding only_frees_def u_def by (auto simp: slot_upd widget_find_some)
  then have r: "represents u (WNode i k ts)" using represents_frame [OF WNode.prems(1)] same by blast
  have f: "widget_find i s = Some k" using WNode.prems(1) by simp
  have r': "i > 0" "widget_find i u = Some k" "child_count (wslot u k) = length ts" "take (length ts) (children (wslot u k)) = map root_id ts"
    "\<forall>t \<in> set ts. represents u t \<and> parent_id (wslot u (root_idx t)) = i" using r by simp_all
  have "distinct (k # concat (map slots ts))" using WNode.prems(2) by simp
  from destroy_loop [OF WNode.IH r' this len] obtain s' where
    "destroy_from (Inr k) u = Some s'" "freed (k # concat (map slots ts)) u s'" by blast
  moreover have "destroy_from (Inl i) s = destroy_from (Inr k) u" using f by (subst destroy_from.simps) (simp add: u_def)
  ultimately show ?case by (simp add: u_def)
qed

section \<open>Building trees\<close>

lemma create_leaf:
  assumes "widget_create ty x y w h t fg bg ck s = (i, s')" "i > 0" "\<forall>k < MAX_WIDGETS. w_id (wslot s k) < g_next_widget_id s" "length (g_widgets s) = MAX_WIDGETS"
  shows "\<exists>k. represents s' (WNode i k []) \<and> parent_id (wslot s' k) = - 1 \<and> w_id (wslot s k) = 0 \<and> (\<forall>j. j \<noteq> k \<longrightarrow> wslot s' j = wslot s j) \<and>
    length (g_widgets s') = MAX_WIDGETS \<and> i = g_next_widget_id s \<and> g_next_widget_id s' = i + 1"
proof (cases "find (\<lambda>i. w_id (wslot s i) = 0) [0..<MAX_WIDGETS]")
  case (Some k)
  then have k: "k < MAX_WIDGETS" "w_id (wslot s k) = 0" by (simp_all add: find_upt_Some)
  have i: "i = g_next_widget_id s" using assms(1) Some by (simp add: widget_create_def Let_def)
  have "w_id (wslot s j) \<noteq> i" if "j < k" for j using assms(3) that k(1) i by (metis less_trans less_irrefl)
  then have f: "widget_find i s' = Some k"
    using assms(1,4) Some k unfolding widget_find_some by (auto simp: widget_create_def Let_def)
  show ?thesis
    using assms(1,2,4) Some k f i by (intro exI [of _ k]) (auto simp: widget_create_def Let_def)
qed (use assms(1,2) in \<open>auto simp: widget_create_def\<close>)

lemma add_child_tree:
  assumes "represents s (WNode p k ts)" "represents s t" "set (slots (WNode p k ts)) \<inter> set (slots t) = {}" "length ts < WIDGET_MAX_CHILDREN"
    "length (g_widgets s) = MAX_WIDGETS" "length (children (wslot s k)) = WIDGET_MAX_CHILDREN" "distinct (slots (WNode p k ts))" "distinct (slots t)"
  shows "represents (widget_add_child p (root_id t) s) (WNode p k (ts @ [t]))"
proof -
  obtain c kc tc where t: "t = WNode c kc tc" by (cases t)
  have k: "widget_find p s = Some k" "child_count (wslot s k) = length ts" "k < length (g_widgets s)" "p > 0" "take (length ts) (children (wslot s k)) = map root_id ts"
    using assms(1,5) by (auto simp: widget_find_some)
  have c: "widget_find c s = Some kc" "kc < length (g_widgets s)" "kc \<noteq> k" "c > 0" using assms(2,3,5) by (auto simp: t widget_find_some)
  define s' where "s' = widget_add_child p c s"
  have s': "wslot s' j = (if j = kc then (wslot s kc)\<lparr>parent_id := p\<rparr>
      else if j = k then (wslot s k)\<lparr>children := (children (wslot s k))[length ts := c], child_count := length ts + 1\<rparr> else wslot s j)" for j
    using k c assms(4) by (simp add: s'_def widget_add_child_def slot_upd)
  have fr: "only_frees s s'" unfolding only_frees_def s' by simp
  have pk: "widget_find p s' = Some k" using find_frame [OF k(1) k(4) fr] k(1) c(3) unfolding s' by (simp add: widget_find_some)
  have ck: "widget_find c s' = Some kc" using find_frame [OF c(1) c(4) fr] c(1) unfolding s' by (simp add: widget_find_some)
  have old: "represents s' u \<and> parent_id (wslot s' (root_idx u)) = p" if u: "u \<in> set ts" for u
  proof -
    have "j \<noteq> k \<and> j \<noteq> kc" if "j \<in> set (slots u)" for j using that u assms(3,7) by (auto simp: t)
    then have "\<forall>j \<in> set (slots u). wslot s' j = wslot s j" unfolding s' by simp
    then show ?thesis using represents_frame [OF _ _ fr, of u] assms(1) u root_in_slots [of u] by auto
  qed
  have new: "represents s' u \<and> parent_id (wslot s' (root_idx u)) = c" if u: "u \<in> set tc" for u
  proof -
    have "j \<noteq> k \<and> j \<noteq> kc" if "j \<in> set (slots u)" for j using that u assms(3,8) by (auto simp: t)
    then have "\<forall>j \<in> set (slots u). wslot s' j = wslot s j" unfolding s' by simp
    then show ?thesis using represents_frame [OF _ _ fr, of u] assms(2) u root_in_slots [of u] by (auto simp: t)
  qed
  have "represents s' t" using assms(2) ck new unfolding t by (simp add: s')
  moreover have "take (length ts + 1) ((children (wslot s k))[length ts := c]) = map root_id (ts @ [t])"
    using assms(4,6) k(5) by (simp add: t take_Suc_conv_app_nth)
  ultimately have "represents s' (WNode p k (ts @ [t]))" using pk k(4) c(3) old by (auto simp: s' t)
  then show ?thesis by (simp add: s'_def t)
qed

section \<open>A widget with two parents\<close>

text \<open>The loop of \<open>widget_destroy\<close> does not end when the first child of a widget no longer exists.\<close>

lemma missing_child_loops:
  assumes "destroy_from at s = Some s'"
  shows "case at of Inl c \<Rightarrow> widget_find c s = None \<longrightarrow> s' = s
    | Inr k \<Rightarrow> child_count (wslot s k) = 0 \<or> widget_find (children (wslot s k) ! 0) s \<noteq> None"
  using assms
proof (rule destroy_from.raw_induct [rotated], goal_cases)
  case (1 f at s s')
  show ?case
  proof (cases at)
    case (Inr k)
    show ?thesis
    proof (cases "child_count (wslot s k) = 0")
      case False
      with 1(2) Inr obtain u where u: "f (Inl (children (wslot s k) ! 0)) s = Some u" "f (Inr k) u = Some s'" by (auto simp: bind_eq_Some_conv)
      show ?thesis using 1(1) [OF u(1)] 1(1) [OF u(2)] Inr by auto
    qed (simp add: Inr)
  qed (use 1(2) in \<open>auto split: option.splits\<close>)
qed

text \<open>
  \<open>widget_add_child\<close> does not take the child away from the parent it has.  When a childless widget was added to two parents and is the first child of the earlier one,
  destroying that parent never returns.
\<close>

theorem shared_child_never_ends:
  assumes "widget_find p s = Some k" "parent_id (wslot s k) = - 1" "child_count (wslot s k) > 0" "children (wslot s k) ! 0 = c"
    and "widget_find c s = Some kc" "\<forall>j < MAX_WIDGETS. w_id (wslot s j) = c \<longrightarrow> j = kc" "c > 0" "child_count (wslot s kc) = 0" "kc \<noteq> k"
    and "parent_id (wslot s kc) = q" "q > 0" "widget_find q s = Some kq" "kq \<noteq> k" "length (g_widgets s) = MAX_WIDGETS"
  shows "widget_destroy p s = None"
proof (rule ccontr)
  assume "widget_destroy p s \<noteq> None"
  then obtain s' where "destroy_from (Inl p) s = Some s'" by (auto simp: widget_destroy_def)
  moreover have "destroy_from (Inl p) s = destroy_from (Inr k) s" using assms(1,2) by (subst destroy_from.simps) (simp add: unlink_parent_def)
  moreover have "destroy_from (Inr k) s = Option.bind (destroy_from (Inl c) s) (destroy_from (Inr k))"
    using assms(3,4) by (subst destroy_from.simps) simp
  ultimately obtain s1 where s1: "destroy_from (Inl c) s = Some s1" "destroy_from (Inr k) s1 = Some s'" by (auto simp: bind_eq_Some_conv)
  let ?u = "upd_widget kq (drop_child c) s"
  have kk: "kq < length (g_widgets s)" "kc < length (g_widgets s)" using assms by (simp_all add: widget_find_some)
  have "child_count (wslot ?u kc) = 0" using assms(8) kk by (auto simp: slot_upd drop_child_def)
  then have "destroy_from (Inr kc) ?u = Some ((upd_widget kc (\<lambda>w. w\<lparr>w_id := 0\<rparr>) ?u)\<lparr>g_widget_count := g_widget_count ?u - 1\<rparr>)"
    by (subst destroy_from.simps) simp
  moreover have "destroy_from (Inl c) s = destroy_from (Inr kc) ?u" using assms(5,10-12) by (subst destroy_from.simps) (simp add: unlink_parent_def)
  ultimately have e: "s1 = (upd_widget kc (\<lambda>w. w\<lparr>w_id := 0\<rparr>) ?u)\<lparr>g_widget_count := g_widget_count ?u - 1\<rparr>" using s1(1) by simp
  have sl: "wslot s1 j = (if j = kc then (wslot ?u kc)\<lparr>w_id := 0\<rparr> else if j = kq then drop_child c (wslot s kq) else wslot s j)" for j
    using kk unfolding e by (simp add: slot_upd upd_widget_def)
  have "w_id (wslot s1 j) \<noteq> c" if "j < MAX_WIDGETS" for j
    using assms(6,7) that unfolding sl by auto
  then have "widget_find c s1 = None" by (simp add: widget_find_def find_upt_None)
  moreover have "wslot s1 k = wslot s k" using assms(9,13) unfolding sl by simp
  ultimately show False using missing_child_loops [OF s1(2)] assms(3,4) by simp
qed

section \<open>Painting a tree\<close>

lemma bevel_painter [painters]: "painter m f \<Longrightarrow> painter m (\<lambda>g. paint_bevel x y w h c1 c2 (f g))"
  unfolding paint_bevel_def by (intro painters)

lemma list_item_painter: "painter m (paint_list_item w x y i)"
  unfolding paint_list_item_def [abs_def] Let_def by (intro painters)

lemma menu_items_painter: "painter m (\<lambda>g. snd (for_range 0 n (paint_menu_item w y) (x, f g)))" if "painter m f"
proof -
  have "fst (for_range 0 n (paint_menu_item w y) (x, g)) = x + (\<Sum>i < n. menu_item_width w i)" for g n
    by (induction n) (simp_all add: for_range_Suc paint_menu_item_def Let_def split_beta)
  moreover have "painter m (\<lambda>g. snd (paint_menu_item w y i (v, h g)))" if "painter m h" for i v h
    unfolding paint_menu_item_def Let_def prod.case snd_conv by (intro painters that)
  ultimately show ?thesis
  proof (induction n)
    case (Suc n)
    let ?v = "x + (\<Sum>i < n. menu_item_width w i)"
    have "for_range 0 (Suc n) (paint_menu_item w y) (x, f g) = paint_menu_item w y n (?v, snd (for_range 0 n (paint_menu_item w y) (x, f g)))" for g
      using Suc.prems(1) [of n "f g"] by (simp add: for_range_Suc) (metis prod.collapse)
    then show ?case using Suc.prems(2) [OF Suc.IH [OF Suc.prems], of n ?v] by simp
  qed (simp add: that)
qed

lemma arrow_drawer [painters]: "painter m f \<Longrightarrow> drawer m (\<lambda>g. paint_arrow x w t b (f g))"
  unfolding paint_arrow_def by (intro painters)

lemma thumb_painter: "painter m (paint_thumb w x y)"
  unfolding paint_thumb_def [abs_def] Let_def by (intro painters)

text \<open>Every widget is drawn, whatever its type and size.\<close>

lemma paint_self_drawer: "drawer m (paint_self w ox oy)"
proof (cases "w_type w")
  case WIDGET_BUTTON
  then show ?thesis unfolding paint_self_def [abs_def] widget_paint_button_def Let_def by simp (intro conjI impI painters)
next
  case WIDGET_TEXTBOX
  then show ?thesis unfolding paint_self_def [abs_def] widget_paint_textbox_def Let_def by simp (intro painters)
next
  case WIDGET_LABEL
  then show ?thesis unfolding paint_self_def [abs_def] widget_paint_label_def Let_def by simp (intro painters)
next
  case WIDGET_LISTBOX
  then show ?thesis unfolding paint_self_def [abs_def] widget_paint_listbox_def Let_def
    by simp (intro painters painter_comp [OF _ painter_for] list_item_painter)
next
  case WIDGET_PANEL
  then show ?thesis unfolding paint_self_def [abs_def] by simp (intro painters)
next
  case WIDGET_SCROLLBAR
  then show ?thesis unfolding paint_self_def [abs_def] widget_paint_scrollbar_def Let_def by simp (intro painters drawer_map thumb_painter)
next
  case WIDGET_MENUBAR
  then show ?thesis unfolding paint_self_def [abs_def] widget_paint_menubar_def Let_def by simp (intro painters menu_items_painter)
next
  case WIDGET_MENUITEM
  then show ?thesis unfolding paint_self_def [abs_def] widget_paint_menubar_def Let_def by simp (intro painters menu_items_painter)
next
  case WIDGET_CHECKBOX
  then show ?thesis unfolding paint_self_def [abs_def] widget_paint_checkbox_def Let_def by simp (intro painters)
next
  case WIDGET_RADIO
  then show ?thesis unfolding paint_self_def [abs_def] widget_paint_checkbox_def Let_def by simp (intro painters)
qed

text \<open>The slots in the order in which \<open>widget_paint\<close> draws them, each with its offset on the screen.\<close>

fun painted :: "'h widgets \<Rightarrow> wtree \<Rightarrow> int \<Rightarrow> int \<Rightarrow> (nat \<times> int \<times> int) list" where
  "painted s (WNode i k ts) ox oy =
     (if w_has WIDGET_FLAG_VISIBLE (wslot s k)
      then (k, ox, oy) # concat (map (\<lambda>t. painted s t (ox + rx (w_bounds (wslot s k))) (oy + ry (w_bounds (wslot s k)))) ts) else [])"

fun draw_all :: "'h widgets \<Rightarrow> (nat \<times> int \<times> int) list \<Rightarrow> gfx \<Rightarrow> gfx option" where
  "draw_all s [] g = Some g"
| "draw_all s ((k, ox, oy) # l) g = Option.bind (paint_self (wslot s k) ox oy g) (draw_all s l)"

lemma draw_all_append: "draw_all s (l @ l') g = Option.bind (draw_all s l g) (draw_all s l')"
proof (induction s l g rule: draw_all.induct)
  case (2 s k ox oy l g)
  then show ?case by (cases "paint_self (wslot s k) ox oy g") simp_all
qed simp

lemma draw_all_drawer: "drawer m (draw_all s l)"
proof (induction l)
  case Nil
  have "draw_all s [] = Some" by (rule ext) simp
  then show ?case using drawer_pure [OF painter_id] by metis
next
  case (Cons a l)
  obtain k ox oy where a: "a = (k, ox, oy)" by (cases a)
  have "draw_all s (a # l) = (\<lambda>g. Option.bind (paint_self (wslot s k) ox oy g) (draw_all s l))" by (rule ext) (simp add: a)
  then show ?case using drawer_bind [OF paint_self_drawer Cons.IH] by metis
qed

lemma paint_loop:
  assumes "\<And>t ox oy g. t \<in> set ts \<Longrightarrow> paint_from pt (Inl (root_id t, ox, oy)) (s, g) = map_option (Pair s) (draw_all s (painted s t ox oy) g)"
    and "child_count (wslot s k) = length ts" "take (length ts) (children (wslot s k)) = map root_id ts" "n \<le> length ts"
  shows "paint_from pt (Inr (k, n, ox, oy)) (s, g) =
    map_option (Pair s) (draw_all s (concat (map (\<lambda>t. painted s t (ox + rx (w_bounds (wslot s k))) (oy + ry (w_bounds (wslot s k)))) (drop n ts))) g)"
  using assms(4)
proof (induction "length ts - n" arbitrary: n g)
  case 0
  then show ?case using assms(2) by (subst paint_from.simps) simp
next
  case (Suc d)
  let ?p = "\<lambda>t. painted s t (ox + rx (w_bounds (wslot s k))) (oy + ry (w_bounds (wslot s k)))"
  have n: "n < length ts" using Suc.hyps(2) by linarith
  then have "children (wslot s k) ! n = root_id (ts ! n)" using assms(3) by (metis nth_map nth_take)
  moreover have "drop n ts = ts ! n # drop (Suc n) ts" using n by (simp add: Cons_nth_drop_Suc)
  moreover have "paint_from pt (Inr (k, Suc n, ox, oy)) (s, g) = map_option (Pair s) (draw_all s (concat (map ?p (drop (Suc n) ts))) g)" for g
    using Suc.hyps(1) [of "Suc n"] Suc.hyps(2) n by simp
  ultimately show ?case
    using assms(1) [of "ts ! n"] assms(2) n
    by (subst paint_from.simps) (cases "draw_all s (?p (ts ! n)) g"; simp add: Let_def draw_all_append)
qed

lemma paint_tree:
  "represents s t \<Longrightarrow> \<forall>k \<in> set (slots t). w_on_paint (wslot s k) = None \<Longrightarrow>
   paint_from pt (Inl (root_id t, ox, oy)) (s, g) = map_option (Pair s) (draw_all s (painted s t ox oy) g)"
proof (induction t arbitrary: ox oy g)
  case (WNode i k ts)
  have r: "widget_find i s = Some k" "child_count (wslot s k) = length ts" "take (length ts) (children (wslot s k)) = map root_id ts" using WNode.prems(1) by simp_all
  have ih: "paint_from pt (Inl (root_id t, ox, oy)) (s, g) = map_option (Pair s) (draw_all s (painted s t ox oy) g)" if "t \<in> set ts" for t ox oy g
    using WNode.IH [OF that] WNode.prems that by auto
  show ?case
    using paint_loop [OF ih r(2,3), of 0 ox oy] r(1) WNode.prems(2)
    by (subst paint_from.simps) (cases "paint_self (wslot s k) ox oy g"; simp add: Let_def)
qed

section \<open>Clicking a tree\<close>

text \<open>The widgets that may take a click, in the order in which they are drawn.\<close>

fun clickable :: "'h widgets \<Rightarrow> wtree \<Rightarrow> (int \<times> nat) list" where
  "clickable s (WNode i k ts) =
     (if w_has WIDGET_FLAG_VISIBLE (wslot s k) \<and> w_has WIDGET_FLAG_ENABLED (wslot s k) then (i, k) # concat (map (clickable s) ts) else [])"

lemma clickable_painted:
  "\<forall>k \<in> set (slots t). w_has WIDGET_FLAG_ENABLED (wslot s k) \<Longrightarrow> map snd (clickable s t) = map fst (painted s t ox oy)"
proof (induction t arbitrary: ox oy)
  case (WNode i k ts)
  then have "map (\<lambda>t. map snd (clickable s t)) ts = map (\<lambda>t. map fst (painted s t ox' oy')) ts" for ox' oy' by auto
  from arg_cong [OF this, of concat] show ?case using WNode.prems by (simp add: map_concat o_def)
qed

lemma clickable_ids: "represents s t \<Longrightarrow> (i, k) \<in> set (clickable s t) \<Longrightarrow> i > 0"
  by (induction s t rule: represents.induct) (auto split: if_splits)

definition click_result :: "('h, 'u) click_call \<Rightarrow> int \<Rightarrow> int \<Rightarrow> 'h widgets \<times> 'u \<Rightarrow> (int \<times> nat) option \<Rightarrow> (int \<times> 'h widgets \<times> 'u) option" where
  "click_result ck x y s hit = (case hit of None \<Rightarrow> Some (- 1, s) | Some (i, k) \<Rightarrow> click_self ck i k x y s)"

lemma on_click_press [simp]: "on_click (wslot (upd_widget k press s) k) = on_click (wslot s k)"
proof (cases "k < length (g_widgets s)")
  case True
  then show ?thesis by (simp add: slot_upd press_def Let_def)
qed (simp add: upd_widget_def list_update_beyond)

lemma click_loop:
  assumes "\<And>t. t \<in> set ts \<Longrightarrow> click_from ck (Inl (root_id t)) x y (s, u) =
      click_result ck x y (s, u) (find (\<lambda>(i, k). w_inside (wslot s k) x y) (rev (clickable s t)))"
    and "\<And>t. t \<in> set ts \<Longrightarrow> represents s t" "take (length ts) (children (wslot s k)) = map root_id ts" "n \<le> length ts"
  shows "click_from ck (Inr (i, k, n)) x y (s, u) =
    (case find (\<lambda>(i, k). w_inside (wslot s k) x y) (rev (concat (map (clickable s) (take n ts)))) of
       None \<Rightarrow> click_self ck i k x y (s, u) | Some h \<Rightarrow> click_result ck x y (s, u) (Some h))"
  using assms(4)
proof (induction n)
  case 0
  then show ?case by (subst click_from.simps) simp
next
  case (Suc n)
  let ?in = "\<lambda>(i, k). w_inside (wslot s k) x y"
  have n: "n < length ts" using Suc.prems by simp
  then have c: "children (wslot s k) ! n = root_id (ts ! n)" using assms(3) by (metis nth_map nth_take)
  note t = assms(1) [OF nth_mem [OF n]]
  have tk: "take (Suc n) ts = take n ts @ [ts ! n]" using n by (simp add: take_Suc_conv_app_nth)
  show ?case
  proof (cases "find ?in (rev (clickable s (ts ! n)))")
    case None
    then show ?thesis using Suc.IH n c t by (subst click_from.simps) (simp add: click_result_def tk find_append)
  next
    case (Some h)
    obtain j kj where h: "h = (j, kj)" by fastforce
    have "(j, kj) \<in> set (clickable s (ts ! n))" "w_inside (wslot s kj) x y" using Some h by (auto simp: find_Some_iff) (metis nth_mem set_rev length_rev)+
    then have "j > 0" "w_inside (wslot s kj) x y" using clickable_ids assms(2) [OF nth_mem [OF n]] by blast+
    then have "click_self ck j kj x y (s, u) = Some r \<Longrightarrow> fst r \<ge> 0" for r by (auto simp: click_self_def Let_def)
    then show ?thesis using c t Some h
      by (subst click_from.simps) (cases "click_self ck j kj x y (s, u)"; simp add: click_result_def tk find_append)
  qed
qed

lemma click_tree:
  "represents s t \<Longrightarrow> click_from ck (Inl (root_id t)) x y (s, u) = click_result ck x y (s, u) (find (\<lambda>(i, k). w_inside (wslot s k) x y) (rev (clickable s t)))"
proof (induction t)
  case (WNode i k ts)
  have r: "widget_find i s = Some k" "child_count (wslot s k) = length ts" "take (length ts) (children (wslot s k)) = map root_id ts"
    "\<And>t. t \<in> set ts \<Longrightarrow> represents s t" using WNode.prems by simp_all
  have "click_self ck i k x y (s, u) = Some (- 1, s, u)" if "\<not> w_inside (wslot s k) x y" using that by (simp add: click_self_def)
  then show ?case
    using click_loop [OF WNode.IH [OF _ r(4)] r(4) r(3) order.refl, of i] r(1,2)
    by (subst click_from.simps) (auto simp: click_result_def find_append Let_def split: option.split)
qed

section \<open>The operations on a tree\<close>

text \<open>
  \<open>widget_paint\<close> on a tree returns and draws the visible widgets in preorder, each at the sum of the positions of its ancestors.
\<close>

theorem widget_paint_preorder:
  assumes "represents s t" "\<forall>k \<in> set (slots t). w_on_paint (wslot s k) = None" "gfx_ok m g"
  shows "\<exists>g'. widget_paint pt (root_id t) ox oy (s, g) = Some (s, g') \<and> draw_all s (painted s t ox oy) g = Some g' \<and> gfx_ok m g'"
  using drawer_ok [OF draw_all_drawer assms(3), of s "painted s t ox oy"] paint_tree [OF assms(1,2)] by (auto simp: widget_paint_def)

text \<open>
  C28. Destroying a widget frees exactly its subtree.  When the links below a widget form a tree that does not contain its parent, \<open>widget_destroy\<close> returns; afterwards the slots of the subtree, and no others,
  are free, the parent has lost this child, every other widget is as it was and the counter has dropped by the size of the subtree.
\<close>

theorem widget_destroy_subtree:
  assumes "represents s t" "distinct (slots t)" "length (g_widgets s) = MAX_WIDGETS"
    and "\<forall>p. parent_id (wslot s (root_idx t)) \<ge> 0 \<and> widget_find (parent_id (wslot s (root_idx t))) s = Some p \<longrightarrow> p \<notin> set (slots t)"
  shows "\<exists>s'. widget_destroy (root_id t) s = Some s' \<and> (\<forall>j \<in> set (slots t). w_id (wslot s' j) = 0) \<and>
    (\<forall>j. j \<notin> set (slots t) \<longrightarrow> wslot s' j =
       (if parent_id (wslot s (root_idx t)) \<ge> 0 \<and> widget_find (parent_id (wslot s (root_idx t))) s = Some j then drop_child (root_id t) (wslot s j) else wslot s j)) \<and>
    g_widget_count s' = g_widget_count s - int (length (slots t)) \<and> g_next_widget_id s' = g_next_widget_id s"
proof -
  from destroy_tree [OF assms] obtain s' where s': "widget_destroy (root_id t) s = Some s'" "freed (slots t) (unlink_parent (root_id t) (root_idx t) s) s'"
    by (auto simp: widget_destroy_def)
  have "wslot (unlink_parent (root_id t) (root_idx t) s) j =
      (if parent_id (wslot s (root_idx t)) \<ge> 0 \<and> widget_find (parent_id (wslot s (root_idx t))) s = Some j then drop_child (root_id t) (wslot s j) else wslot s j)" for j
  proof (cases "widget_find (parent_id (wslot s (root_idx t))) s")
    case (Some p)
    then have "p < length (g_widgets s)" using assms(3) by (simp add: widget_find_some)
    with Some show ?thesis by (auto simp: unlink_parent_def slot_upd Let_def)
  qed (simp add: unlink_parent_def Let_def)
  moreover have "g_widget_count (unlink_parent (root_id t) (root_idx t) s) = g_widget_count s" "g_next_widget_id (unlink_parent (root_id t) (root_idx t) s) = g_next_widget_id s"
    by (simp_all add: unlink_parent_def Let_def upd_widget_def split: option.split)
  ultimately show ?thesis using s' unfolding freed_def by auto
qed

text \<open>A panel with a list box that holds a label.\<close>

definition free_widget :: "unit widget" where
  "free_widget = \<lparr>w_id = 0, w_type = WIDGET_PANEL, w_flags = 3, w_bounds = \<lparr>rx = 10, ry = 10, rwidth = 100, rheight = 80\<rparr>, w_text = [], w_fg = 0, w_bg = 0, on_click = None,
     w_on_paint = None, parent_id = - 1, children = replicate 16 0, child_count = 0, extra = zero_extra\<rparr>"

definition demo_widgets :: "unit widgets" where
  "demo_widgets =
     \<lparr>g_widgets = free_widget\<lparr>w_id := 1, w_bounds := \<lparr>rx = 100, ry = 100, rwidth = 200, rheight = 150\<rparr>, children := 2 # replicate 15 0, child_count := 1\<rparr> #
        free_widget\<lparr>w_id := 2, w_type := WIDGET_LISTBOX, parent_id := 1, children := 3 # replicate 15 0, child_count := 1\<rparr> #
        free_widget\<lparr>w_id := 3, w_type := WIDGET_LABEL, parent_id := 2\<rparr> # replicate 61 free_widget, g_widget_count = 3, g_next_widget_id = 4\<rparr>"

abbreviation demo_tree :: wtree where "demo_tree \<equiv> WNode 1 0 [WNode 2 1 [WNode 3 2 []]]"

lemma demo_represented: "represents demo_widgets demo_tree \<and> parent_id (wslot demo_widgets 0) = - 1 \<and> parent_id (wslot demo_widgets 1) = 1 \<and>
    widget_find 1 demo_widgets = Some 0 \<and> length (g_widgets demo_widgets) = 64 \<and> g_widget_count demo_widgets = 3"
proof -
  have "widget_find 1 demo_widgets = Some 0" "widget_find 2 demo_widgets = Some 1" "widget_find 3 demo_widgets = Some 2"
    by (auto simp: widget_find_some demo_widgets_def MAX_WIDGETS_def less_Suc_eq numeral_eq_Suc)
  then show ?thesis by (simp add: demo_widgets_def free_widget_def)
qed

theorem widget_destroy_subtree_witness:
  "\<exists>s'. widget_destroy 2 demo_widgets = Some s' \<and> w_id (wslot s' 1) = 0 \<and> w_id (wslot s' 2) = 0 \<and> wslot s' 0 = drop_child 2 (wslot demo_widgets 0) \<and> g_widget_count s' = 1"
  using widget_destroy_subtree [of demo_widgets "WNode 2 1 [WNode 3 2 []]"] demo_represented by (auto simp: MAX_WIDGETS_def)

text \<open>
  C29. A click goes to the topmost widget.  On a tree of widgets, \<open>widget_handle_click\<close> is decided by the last widget, in the order of drawing, that is visible and enabled with all its
  ancestors and whose bounds contain the position: that widget is pressed (a check box is toggled), its callback runs, and its identifier is returned.  Without such a widget the result is \<open>-1\<close> and nothing changes.
\<close>

theorem widget_click_topmost:
  assumes "represents s t"
  shows "widget_handle_click ck (root_id t) x y (s, u) =
    (case find (\<lambda>(i, k). w_inside (wslot s k) x y) (rev (clickable s t)) of
       None \<Rightarrow> Some (- 1, s, u)
     | Some (i, k) \<Rightarrow> map_option (\<lambda>r. (i, r)) (case on_click (wslot s k) of None \<Rightarrow> Some (upd_widget k press s, u) | Some h \<Rightarrow> ck h i (upd_widget k press s, u)))"
proof (cases "find (\<lambda>(i, k). w_inside (wslot s k) x y) (rev (clickable s t))")
  case None
  then show ?thesis using click_tree [OF assms, of ck x y u] by (simp add: widget_handle_click_def click_result_def)
next
  case (Some h)
  obtain i k where h: "h = (i, k)" by fastforce
  have "w_inside (wslot s k) x y" using Some h by (auto simp: find_Some_iff)
  then show ?thesis using click_tree [OF assms, of ck x y u] Some h
    by (simp add: widget_handle_click_def click_result_def click_self_def Let_def split: option.split)
qed

theorem widget_click_topmost_witness:
  "widget_handle_click (\<lambda>h i s. Some s) 1 101 101 (demo_widgets, ()) = Some (1, upd_widget 0 press demo_widgets, ())"
proof -
  have c: "clickable demo_widgets demo_tree = [(1, 0), (2, 1), (3, 2)]" "\<not> w_inside (wslot demo_widgets 2) 101 101" "\<not> w_inside (wslot demo_widgets 1) 101 101"
    "w_inside (wslot demo_widgets 0) 101 101" "on_click (wslot demo_widgets 0) = None"
    by (simp_all add: demo_widgets_def free_widget_def w_inside_def w_has_def WIDGET_FLAG_VISIBLE_def WIDGET_FLAG_ENABLED_def)
  show ?thesis using widget_click_topmost [of demo_widgets demo_tree "\<lambda>h i s. Some s" 101 101 "()"] demo_represented c by simp
qed

text \<open>
  The positions are compared without the offsets that painting adds.  A click on a child as it is drawn, outside of the place where it would be drawn without its parent, is
  taken by the parent.
\<close>

theorem click_ignores_offset:
  assumes "represents s (WNode p kp [WNode c kc []])" "clickable s (WNode p kp [WNode c kc []]) = [(p, kp), (c, kc)]" "on_click (wslot s kp) = None"
    and "w_inside (wslot s kp) x y" "w_inside (wslot s kc) (x - rx (w_bounds (wslot s kp))) (y - ry (w_bounds (wslot s kp)))" "\<not> w_inside (wslot s kc) x y"
  shows "widget_handle_click ck p x y (s, u) = Some (p, upd_widget kp press s, u)"
  using click_tree [OF assms(1), of ck x y u] unfolding assms(2) using assms(3,4,6)
  by (simp add: widget_handle_click_def click_result_def click_self_def Let_def)

end
