(* ===== verification/Desktop.thy ===== *)
theory Desktop
  imports Wm Widgets
begin

text \<open>
  The desktop \<^verbatim>\<open>src/kernel/gui/desktop.c\<close> with \<^verbatim>\<open>src/include/plexsdos/desktop.h\<close>: icons, task bar, start menu, main loop and the five programs behind the windows.

  The handlers of the programs close the recursion that the window manager leaves open.  An event handler that closes its window calls the manager, which calls the handler again;
  \<open>desk_event n\<close> is the dispatch with at most \<open>n\<close> nested handler calls, and its result \<open>None\<close> says that a call does not return within this depth.  The numbers of the calculator
  are machine words: its arithmetic wraps as the compiled code does, and the one quotient that does not fit is the processor's divide error (\<open>None\<close>).
\<close>

unbundle bit_operations_syntax

section \<open>State\<close>

definition DESKTOP_MAX_ICONS :: nat where "DESKTOP_MAX_ICONS = 16"
definition TASKBAR_HEIGHT :: int where "TASKBAR_HEIGHT = 28"
definition ICON_SIZE :: int where "ICON_SIZE = 32"
definition ICON_TEXT_HEIGHT :: int where "ICON_TEXT_HEIGHT = 12"
definition START_MENU_WIDTH :: int where "START_MENU_WIDTH = 160"
definition START_MENU_ITEM_HEIGHT :: int where "START_MENU_ITEM_HEIGHT = 20"
definition START_MENU_MAX_ITEMS :: int where "START_MENU_MAX_ITEMS = 8"

text \<open>A program stands for its paint handler, its event handler and the function that starts it.\<close>

datatype app = Program_manager | File_manager | Notepad | Calculator | About

record desktop_icon =
  icon_id :: int
  icon_name :: bytes
  icon_x :: int
  icon_y :: int
  icon_color :: u8
  on_open :: "app option"

record desk =
  g_icons :: "desktop_icon list"
  g_icon_count :: nat
  g_next_icon_id :: int
  g_desktop_running :: bool
  g_start_menu_visible :: bool
  g_pm_win_id :: int
  g_fm_win_id :: int
  g_np_win_id :: int
  g_np_buffer :: bytes
  g_np_cursor :: nat
  g_calc_win_id :: int
  g_calc_display :: bytes
  g_calc_value :: u32
  g_calc_operand :: u32
  g_calc_op :: u8
  g_calc_new_input :: bool
  g_about_win_id :: int
  widgets :: "app widgets"

type_synonym desktop = "(app, desk) wm"

definition on_apps :: "(desk \<Rightarrow> desk) \<Rightarrow> desktop \<Rightarrow> desktop" where "on_apps f s = s\<lparr>apps := f (apps s)\<rparr>"

section \<open>Desktop, task bar and menu\<close>

definition desktop_paint_icon :: "desktop_icon \<Rightarrow> gfx \<Rightarrow> gfx" where
  "desktop_paint_icon icon g =
     (let x = icon_x icon; y = icon_y icon; name = str_of (icon_name icon);
          g = gfx_fill_rect x y ICON_SIZE ICON_SIZE (icon_color icon) g;
          g = gfx_draw_rect x y ICON_SIZE ICON_SIZE COLOR_BLACK g;
          g = gfx_draw_hline (x + 4) (y + ICON_SIZE div 2) (ICON_SIZE - 8) COLOR_WHITE g;
          g = gfx_draw_vline (x + ICON_SIZE div 2) (y + 4) (ICON_SIZE - 8) COLOR_WHITE g;
          text_x = x + (ICON_SIZE - int (length name) * FONT_WIDTH) sdiv 2;
          text_y = y + ICON_SIZE + 2;
          text_x = (if text_x < x then x else text_x)
      in gfx_draw_string_transparent text_x text_y name COLOR_WHITE g)"

definition task_width :: "app window \<Rightarrow> int" where
  "task_width win =
     (let btn_w = int (length (str_of (title win))) * FONT_WIDTH + 12;
          btn_w = (if btn_w > 120 then 120 else btn_w)
      in if btn_w < 60 then 60 else btn_w)"

definition paint_task_button :: "app window \<Rightarrow> int \<Rightarrow> gfx \<Rightarrow> gfx" where
  "paint_task_button win btn_x g =
     (let taskbar_y = VGA12_HEIGHT - TASKBAR_HEIGHT; btn_w = task_width win;
          g = gfx_fill_rect btn_x (taskbar_y + 2) btn_w (TASKBAR_HEIGHT - 4) (if has_flag WM_FLAG_FOCUSED win then COLOR_WHITE else GUI_COLOR_BUTTON_BG) g;
          g = gfx_draw_rect btn_x (taskbar_y + 2) btn_w (TASKBAR_HEIGHT - 4) COLOR_BLACK g
      in gfx_draw_string (btn_x + 4) (taskbar_y + (TASKBAR_HEIGHT - FONT_HEIGHT) div 2) (str_of (title win)) COLOR_BLACK COLOR_WHITE g)"

text \<open>The loop over the numbers \<open>i\<close>, which are passed to \<open>wm_get_window\<close> as identifiers.\<close>

fun paint_task_buttons :: "nat list \<Rightarrow> int \<Rightarrow> desktop \<Rightarrow> gfx \<Rightarrow> gfx" where
  "paint_task_buttons [] btn_x s g = g"
| "paint_task_buttons (i # is) btn_x s g =
     (case wm_get_window (int i) s of
        None \<Rightarrow> paint_task_buttons is btn_x s g
      | Some win \<Rightarrow>
          if has_flag WM_FLAG_VISIBLE win then
            (if btn_x + task_width win + 2 > VGA12_WIDTH - 80 then paint_task_button win btn_x g
             else paint_task_buttons is (btn_x + task_width win + 2) s (paint_task_button win btn_x g))
          else paint_task_buttons is btn_x s g)"

definition desktop_paint_taskbar :: "desktop \<Rightarrow> gfx \<Rightarrow> gfx" where
  "desktop_paint_taskbar s g =
     (let taskbar_y = VGA12_HEIGHT - TASKBAR_HEIGHT;
          g = gfx_fill_rect 0 taskbar_y VGA12_WIDTH TASKBAR_HEIGHT GUI_COLOR_MENU_BG g;
          g = gfx_draw_hline 0 taskbar_y VGA12_WIDTH COLOR_WHITE g;
          g = gfx_fill_rect 2 (taskbar_y + 2) 60 (TASKBAR_HEIGHT - 4) GUI_COLOR_BUTTON_BG g;
          g = gfx_draw_rect 2 (taskbar_y + 2) 60 (TASKBAR_HEIGHT - 4) COLOR_BLACK g;
          g = gfx_draw_string 8 (taskbar_y + (TASKBAR_HEIGHT - FONT_HEIGHT) div 2) (of_string ''Start'') COLOR_BLACK GUI_COLOR_BUTTON_BG g;
          g = paint_task_buttons [0..<WM_MAX_WINDOWS] 68 s g
      in gfx_draw_string (VGA12_WIDTH - 60) (taskbar_y + (TASKBAR_HEIGHT - FONT_HEIGHT) div 2) (of_string ''12:00'') COLOR_BLACK GUI_COLOR_MENU_BG g)"

definition menu_y :: int where "menu_y = VGA12_HEIGHT - TASKBAR_HEIGHT - START_MENU_ITEM_HEIGHT * START_MENU_MAX_ITEMS - 4"

definition start_items :: "string list" where
  "start_items = [''Program Manager'', ''File Manager'', ''Notepad'', ''Calculator'', ''About PlexsDOS'', ''----------------'', ''Exit to DOS'']"

definition paint_start_item :: "nat \<Rightarrow> gfx \<Rightarrow> gfx" where
  "paint_start_item i g =
     (let x = 2; item_y = menu_y + 2 + int i * START_MENU_ITEM_HEIGHT
      in if i = 5 then gfx_draw_hline (x + 4) (item_y + START_MENU_ITEM_HEIGHT div 2) (START_MENU_WIDTH - 8) COLOR_DARK_GRAY g
         else gfx_draw_string (x + 8) (item_y + (START_MENU_ITEM_HEIGHT - FONT_HEIGHT) div 2) (of_string (start_items ! i)) GUI_COLOR_MENU_FG GUI_COLOR_MENU_BG g)"

definition desktop_paint_start_menu :: "gfx \<Rightarrow> gfx" where
  "desktop_paint_start_menu g =
     (let x = 2; y = menu_y; h = START_MENU_ITEM_HEIGHT * START_MENU_MAX_ITEMS + 4;
          g = gfx_fill_rect x y START_MENU_WIDTH h GUI_COLOR_MENU_BG g;
          g = gfx_draw_rect x y START_MENU_WIDTH h COLOR_BLACK g;
          g = gfx_draw_hline (x + 1) (y + 1) (START_MENU_WIDTH - 2) COLOR_WHITE g;
          g = gfx_draw_vline (x + 1) (y + 1) (h - 2) COLOR_WHITE g
      in for_range 0 7 paint_start_item g)"

section \<open>Painting the programs\<close>

definition pm_icon :: "int \<Rightarrow> int \<Rightarrow> u8 \<Rightarrow> string \<Rightarrow> gfx \<Rightarrow> gfx" where
  "pm_icon ix iy color name g =
     gfx_draw_string ix (iy + 56) (of_string name) COLOR_BLACK GUI_COLOR_WINDOW_BG
       (gfx_draw_rect ix (iy + 20) 32 32 COLOR_BLACK (gfx_fill_rect ix (iy + 20) 32 32 color g))"

definition pm_paint :: "int \<Rightarrow> int \<Rightarrow> int \<Rightarrow> int \<Rightarrow> gfx \<Rightarrow> gfx" where
  "pm_paint x y width height g =
     (let ix = x + 10; iy = y + 10;
          g = gfx_draw_string (x + 10) (y + 5) (of_string ''Program Manager'') COLOR_BLACK GUI_COLOR_WINDOW_BG g;
          g = pm_icon ix iy COLOR_BLUE ''Notepad'' g;
          g = pm_icon (ix + 80) iy COLOR_GREEN ''Files'' g;
          g = pm_icon (ix + 160) iy COLOR_LIGHT_GRAY ''Calc'' g
      in gfx_draw_string (x + 10) (y + height - 30) (of_string ''PlexsDOS v0.2 - Nexsteaduser'') COLOR_DARK_GRAY GUI_COLOR_WINDOW_BG g)"

text \<open>The example listing; the backslash of the title is the character 92.\<close>

definition fm_lines :: "string list" where
  "fm_lines = [''[DIR]  .'', ''[DIR]  ..'', ''[DIR]  SYSTEM'', ''[DIR]  PROGRAMS'', ''       KERNEL BIN  123456 bytes'', ''       README TXT  1024 bytes'', ''       CONFIG SYS  256 bytes'']"

definition fm_paint :: "int \<Rightarrow> int \<Rightarrow> int \<Rightarrow> int \<Rightarrow> gfx \<Rightarrow> gfx" where
  "fm_paint x y width height g =
     (let line_y = y + 5;
          g = gfx_draw_string (x + 5) line_y (of_string ''File Manager - A:'' @ [92]) COLOR_BLACK GUI_COLOR_WINDOW_BG g;
          line_y = line_y + FONT_HEIGHT + 4;
          g = gfx_draw_hline (x + 5) line_y (width - 10) COLOR_DARK_GRAY g;
          line_y = line_y + 4;
          g = for_range 0 7 (\<lambda>i. gfx_draw_string (x + 10) (line_y + int i * FONT_HEIGHT) (of_string (fm_lines ! i)) COLOR_BLACK GUI_COLOR_WINDOW_BG) g;
          g = gfx_draw_hline (x + 5) (y + height - FONT_HEIGHT - 6) (width - 10) COLOR_DARK_GRAY g
      in gfx_draw_string (x + 5) (y + height - FONT_HEIGHT - 4) (of_string ''5 items  125,741 bytes free'') COLOR_DARK_GRAY GUI_COLOR_WINDOW_BG g)"

text \<open>The loop over the text from a position of the buffer on; the buffer always has a terminator.\<close>

fun np_text :: "bytes \<Rightarrow> int \<Rightarrow> int \<Rightarrow> int \<Rightarrow> int \<Rightarrow> int \<Rightarrow> int \<Rightarrow> gfx \<Rightarrow> gfx" where
  "np_text [] line_x line_y x y width height g = g"
| "np_text (c # cs) line_x line_y x y width height g =
     (if c \<noteq> 0 \<and> line_y < y + height - FONT_HEIGHT then
        if c = 10 then np_text cs (x + 6) (line_y + FONT_HEIGHT) x y width height g
        else let g = gfx_draw_char line_x line_y c COLOR_BLACK COLOR_WHITE g; line_x = line_x + FONT_WIDTH
             in if line_x > x + width - FONT_WIDTH then np_text cs (x + 6) (line_y + FONT_HEIGHT) x y width height g
                else np_text cs line_x line_y x y width height g
      else g)"

definition np_paint :: "bytes \<Rightarrow> int \<Rightarrow> int \<Rightarrow> int \<Rightarrow> int \<Rightarrow> gfx \<Rightarrow> gfx" where
  "np_paint buffer x y width height g =
     (let g = gfx_fill_rect (x + 2) (y + 2) (width - 4) (height - 4) COLOR_WHITE g;
          g = gfx_draw_hline (x + 2) (y + 2) (width - 4) COLOR_DARK_GRAY g;
          g = gfx_draw_vline (x + 2) (y + 2) (height - 4) COLOR_DARK_GRAY g;
          g = gfx_draw_hline (x + 2) (y + height - 3) (width - 4) COLOR_WHITE g;
          g = gfx_draw_vline (x + width - 3) (y + 2) (height - 4) COLOR_WHITE g
      in if buffer ! 0 \<noteq> 0 then np_text buffer (x + 6) (y + 6) x y width height g
         else gfx_draw_string (x + 6) (y + 6) (of_string ''Type here...'') COLOR_DARK_GRAY COLOR_WHITE g)"

definition btn_labels :: "string list" where
  "btn_labels = [''7'', ''8'', ''9'', ''/'', ''4'', ''5'', ''6'', ''*'', ''1'', ''2'', ''3'', ''-'', ''0'', ''C'', ''='', ''+'']"

definition calc_paint_button :: "int \<Rightarrow> int \<Rightarrow> nat \<Rightarrow> nat \<Rightarrow> gfx \<Rightarrow> gfx" where
  "calc_paint_button disp_x btn_y i j g =
     (let btn_w = 40; btn_h = 24; gap = 4; b_y = btn_y + int i * (btn_h + gap); bx = disp_x + int j * (btn_w + gap);
          g = gfx_fill_rect bx b_y btn_w btn_h GUI_COLOR_BUTTON_BG g;
          g = gfx_draw_rect bx b_y btn_w btn_h COLOR_BLACK g;
          g = gfx_draw_hline (bx + 1) (b_y + 1) (btn_w - 2) COLOR_WHITE g;
          g = gfx_draw_vline (bx + 1) (b_y + 1) (btn_h - 2) COLOR_WHITE g
      in gfx_draw_string (bx + (btn_w - FONT_WIDTH) div 2) (b_y + (btn_h - FONT_HEIGHT) div 2) (of_string (btn_labels ! (i * 4 + j))) COLOR_BLACK GUI_COLOR_BUTTON_BG g)"

definition calc_paint :: "bytes \<Rightarrow> int \<Rightarrow> int \<Rightarrow> int \<Rightarrow> int \<Rightarrow> gfx \<Rightarrow> gfx" where
  "calc_paint disp x y width height g =
     (let disp_x = x + 10; disp_y = y + 10; disp_w = width - 20; btn_y = disp_y + FONT_HEIGHT + 10;
          g = gfx_fill_rect disp_x disp_y disp_w (FONT_HEIGHT + 4) COLOR_WHITE g;
          g = gfx_draw_rect disp_x disp_y disp_w (FONT_HEIGHT + 4) COLOR_BLACK g;
          text_x = disp_x + disp_w - int (length (str_of disp)) * FONT_WIDTH - 4;
          g = gfx_draw_string text_x (disp_y + 2) (str_of disp) COLOR_BLACK COLOR_WHITE g
      in for_range 0 4 (\<lambda>i. for_range 0 4 (calc_paint_button disp_x btn_y i)) g)"

definition about_paint :: "int \<Rightarrow> int \<Rightarrow> int \<Rightarrow> int \<Rightarrow> gfx \<Rightarrow> gfx" where
  "about_paint x y width height g =
     (let cx = x + width sdiv 2;
          g = gfx_fill_rect (cx - 16) (y + 15) 32 32 COLOR_BLUE g;
          g = gfx_draw_rect (cx - 16) (y + 15) 32 32 COLOR_BLACK g;
          g = gfx_draw_string (cx - 70) (y + 55) (of_string ''PlexsDOS v0.2'') COLOR_BLACK GUI_COLOR_WINDOW_BG g;
          g = gfx_draw_string (cx - 80) (y + 55 + FONT_HEIGHT + 4) (of_string ''Nexsteaduser OS Project'') COLOR_DARK_GRAY GUI_COLOR_WINDOW_BG g;
          g = gfx_draw_string (cx - 60) (y + 55 + 2 * (FONT_HEIGHT + 4)) (of_string ''Author: Tinmc189623'') COLOR_DARK_GRAY GUI_COLOR_WINDOW_BG g;
          g = gfx_draw_string (cx - 50) (y + 55 + 3 * (FONT_HEIGHT + 4)) (of_string ''Team: Nexlyh'') COLOR_DARK_GRAY GUI_COLOR_WINDOW_BG g;
          btn_x = cx - 30; btn_y = y + height - 35;
          g = gfx_fill_rect btn_x btn_y 60 24 GUI_COLOR_BUTTON_BG g;
          g = gfx_draw_rect btn_x btn_y 60 24 COLOR_BLACK g;
          g = gfx_draw_hline (btn_x + 1) (btn_y + 1) 58 COLOR_WHITE g;
          g = gfx_draw_vline (btn_x + 1) (btn_y + 1) 22 COLOR_WHITE g
      in gfx_draw_string (btn_x + 14) (btn_y + 4) (of_string ''OK'') COLOR_BLACK GUI_COLOR_BUTTON_BG g)"

fun app_paint :: "app \<Rightarrow> desk \<Rightarrow> int \<Rightarrow> int \<Rightarrow> int \<Rightarrow> int \<Rightarrow> gfx \<Rightarrow> gfx" where
  "app_paint Program_manager d = pm_paint"
| "app_paint File_manager d = fm_paint"
| "app_paint Notepad d = np_paint (g_np_buffer d)"
| "app_paint Calculator d = calc_paint (g_calc_display d)"
| "app_paint About d = about_paint"

text \<open>What a call through a paint pointer does.\<close>

definition desk_paint :: "(app, desk) paint_call" where
  "desk_paint h wid x y w z s = Some (s\<lparr>display := app_paint h (apps s) x y w z (display s)\<rparr>)"

section \<open>Events of the programs\<close>

definition pm_event :: "(app, desk) event_call \<Rightarrow> int \<Rightarrow> wm_event \<Rightarrow> desktop \<Rightarrow> desktop option" where
  "pm_event ev wid e s =
     (if e = WM_EVENT_CLOSE then map_option (on_apps (\<lambda>d. d\<lparr>g_pm_win_id := - 1\<rparr>)) (wm_destroy_window ev desk_paint wid s) else Some s)"

definition fm_event :: "(app, desk) event_call \<Rightarrow> int \<Rightarrow> wm_event \<Rightarrow> desktop \<Rightarrow> desktop option" where
  "fm_event ev wid e s =
     (if e = WM_EVENT_CLOSE then map_option (on_apps (\<lambda>d. d\<lparr>g_fm_win_id := - 1\<rparr>)) (wm_destroy_window ev desk_paint wid s) else Some s)"

definition NP_SIZE :: nat where "NP_SIZE = 2048"

definition np_key :: "u8 \<Rightarrow> desk \<Rightarrow> desk" where
  "np_key c d =
     (if c = 8 then
        if g_np_cursor d > 0 then d\<lparr>g_np_cursor := g_np_cursor d - 1, g_np_buffer := (g_np_buffer d)[g_np_cursor d - 1 := 0]\<rparr> else d
      else if sint c \<ge> 32 \<and> sint c < 127 then
        if g_np_cursor d < NP_SIZE - 1 then
          d\<lparr>g_np_buffer := (g_np_buffer d)[g_np_cursor d := c, g_np_cursor d + 1 := 0], g_np_cursor := g_np_cursor d + 1\<rparr>
        else d
      else d)"

definition np_event :: "(app, desk) event_call \<Rightarrow> int \<Rightarrow> wm_event \<Rightarrow> int \<Rightarrow> desktop \<Rightarrow> desktop option" where
  "np_event ev wid e param1 s =
     (if e = WM_EVENT_CLOSE then
        map_option (on_apps (\<lambda>d. d\<lparr>g_np_win_id := - 1, g_np_buffer := (g_np_buffer d)[0 := 0], g_np_cursor := 0\<rparr>)) (wm_destroy_window ev desk_paint wid s)
      else if e = WM_EVENT_KEY then wm_invalidate desk_paint wid (on_apps (np_key (of_int param1)) s)
      else Some s)"

text \<open>The digits of a positive number from the last one on, at most \<open>n\<close> of them.\<close>

fun calc_digits :: "nat \<Rightarrow> int \<Rightarrow> bytes" where
  "calc_digits 0 v = []"
| "calc_digits (Suc n) v = (if v > 0 then (48 + of_int (v mod 10)) # calc_digits n (v div 10) else [])"

definition calc_update_display :: "u32 \<Rightarrow> bytes \<Rightarrow> bytes" where
  "calc_update_display val disp =
     (let neg = sint val < 0;
          val = (if neg then - val else val)
      in if val = 0 then disp[0 := 48, 1 := 0]
         else let tmp = calc_digits 15 (sint val) @ (if neg then [45] else [])
              in rev tmp @ [0] @ drop (length tmp + 1) disp)"

definition calc_show :: "desk \<Rightarrow> desk" where
  "calc_show d = d\<lparr>g_calc_display := calc_update_display (g_calc_value d) (g_calc_display d)\<rparr>"

definition calc_digit :: "u8 \<Rightarrow> desk \<Rightarrow> desk" where
  "calc_digit c d =
     calc_show (if g_calc_new_input d then d\<lparr>g_calc_value := ucast c - 48, g_calc_new_input := False\<rparr>
                else d\<lparr>g_calc_value := g_calc_value d * 10 + (ucast c - 48)\<rparr>)"

definition calc_operator :: "u8 \<Rightarrow> desk \<Rightarrow> desk" where
  "calc_operator c d = d\<lparr>g_calc_operand := g_calc_value d, g_calc_op := c, g_calc_new_input := True\<rparr>"

text \<open>The \<open>switch\<close> over the operator.\<close>

definition calc_result :: "u8 \<Rightarrow> u32 \<Rightarrow> u32 \<Rightarrow> u32 option" where
  "calc_result c a b =
     (if c = 43 then Some (a + b)
      else if c = 45 then Some (a - b)
      else if c = 42 then Some (a * b)
      else if c = 47 then
        if b \<noteq> 0 then if a = 0x80000000 \<and> b = - 1 then None else Some (of_int (sint a sdiv sint b)) else Some 0
      else Some b)"

definition calc_equals :: "desk \<Rightarrow> desk option" where
  "calc_equals d =
     (case calc_result (g_calc_op d) (g_calc_operand d) (g_calc_value d) of
        None \<Rightarrow> None
      | Some v \<Rightarrow> Some (calc_show (d\<lparr>g_calc_value := v, g_calc_op := 0, g_calc_new_input := True\<rparr>)))"

definition calc_clear :: "desk \<Rightarrow> desk" where
  "calc_clear d = calc_show (d\<lparr>g_calc_value := 0, g_calc_operand := 0, g_calc_op := 0, g_calc_new_input := True\<rparr>)"

definition is_digit :: "u8 \<Rightarrow> bool" where "is_digit c \<longleftrightarrow> 48 \<le> c \<and> c \<le> 57"
definition is_operator :: "u8 \<Rightarrow> bool" where "is_operator c \<longleftrightarrow> c = 43 \<or> c = 45 \<or> c = 42 \<or> c = 47"

definition calc_press :: "u8 \<Rightarrow> desk \<Rightarrow> desk option" where
  "calc_press c d =
     (if is_digit c then Some (calc_digit c d)
      else if is_operator c then Some (calc_operator c d)
      else if c = 61 then calc_equals d
      else if c = 67 then Some (calc_clear d)
      else Some d)"

definition calc_button_click :: "int \<Rightarrow> desktop \<Rightarrow> desktop option" where
  "calc_button_click widget_id s =
     (case widget_get widget_id (widgets (apps s)) of
        None \<Rightarrow> Some s
      | Some w \<Rightarrow>
          (case calc_press (w_text w ! 0) (apps s) of
             None \<Rightarrow> None
           | Some d \<Rightarrow>
               (let s = s\<lparr>apps := d\<rparr>
                in if g_calc_win_id d \<ge> 0 then wm_invalidate desk_paint (g_calc_win_id d) s else Some s)))"

definition calc_key :: "int \<Rightarrow> u8 \<Rightarrow> desktop \<Rightarrow> desktop option" where
  "calc_key wid c s =
     (if is_digit c then wm_invalidate desk_paint wid (on_apps (calc_digit c) s)
      else if is_operator c then Some (on_apps (calc_operator c) s)
      else if c = 61 \<or> c = 13 then calc_button_click 0 s
      else if c = 99 \<or> c = 67 then wm_invalidate desk_paint wid (on_apps calc_clear s)
      else Some s)"

definition calc_reset :: "desk \<Rightarrow> desk" where
  "calc_reset d = d\<lparr>g_calc_value := 0, g_calc_operand := 0, g_calc_op := 0, g_calc_new_input := True, g_calc_display := (g_calc_display d)[0 := 48, 1 := 0]\<rparr>"

definition calc_event :: "(app, desk) event_call \<Rightarrow> int \<Rightarrow> wm_event \<Rightarrow> int \<Rightarrow> desktop \<Rightarrow> desktop option" where
  "calc_event ev wid e param1 s =
     (if e = WM_EVENT_CLOSE then map_option (on_apps (\<lambda>d. calc_reset (d\<lparr>g_calc_win_id := - 1\<rparr>))) (wm_destroy_window ev desk_paint wid s)
      else if e = WM_EVENT_KEY then calc_key wid (of_int param1) s
      else Some s)"

definition about_event :: "(app, desk) event_call \<Rightarrow> int \<Rightarrow> wm_event \<Rightarrow> desktop \<Rightarrow> desktop option" where
  "about_event ev wid e s =
     (if e = WM_EVENT_CLOSE then map_option (on_apps (\<lambda>d. d\<lparr>g_about_win_id := - 1\<rparr>)) (wm_destroy_window ev desk_paint wid s) else Some s)"

text \<open>What a call through an event pointer does, with at most \<open>n\<close> handler calls inside each other.\<close>

fun desk_event :: "nat \<Rightarrow> (app, desk) event_call" where
  "desk_event 0 h wid e p q s = None"
| "desk_event (Suc n) Program_manager wid e p q s = pm_event (desk_event n) wid e s"
| "desk_event (Suc n) File_manager wid e p q s = fm_event (desk_event n) wid e s"
| "desk_event (Suc n) Notepad wid e p q s = np_event (desk_event n) wid e p s"
| "desk_event (Suc n) Calculator wid e p q s = calc_event (desk_event n) wid e p s"
| "desk_event (Suc n) About wid e p q s = about_event (desk_event n) wid e s"

section \<open>Starting programs\<close>

text \<open>The common course: a running program gets the focus, otherwise \<open>prep\<close> resets its variables, the window is created, its identifier stored and the window shown.\<close>

definition launch :: "nat \<Rightarrow> int \<Rightarrow> (desk \<Rightarrow> desk) \<Rightarrow> (int \<Rightarrow> desk \<Rightarrow> desk) \<Rightarrow> string \<Rightarrow> int \<Rightarrow> int \<Rightarrow> int \<Rightarrow> int \<Rightarrow> u16 \<Rightarrow> app \<Rightarrow> desktop \<Rightarrow> desktop option" where
  "launch n wid prep store ttl x y w h fl a s =
     (if wid \<ge> 0 then wm_focus_window (desk_event n) wid s
      else case wm_create_window (Some (of_string ttl)) x y w h fl (Some a) (Some a) (on_apps prep s) of
             None \<Rightarrow> None
           | Some (i, s) \<Rightarrow> (let s = on_apps (store i) s in if i \<ge> 0 then wm_show_window (desk_event n) desk_paint i s else Some s))"

definition app_program_manager :: "nat \<Rightarrow> desktop \<Rightarrow> desktop option" where
  "app_program_manager n s =
     launch n (g_pm_win_id (apps s)) (\<lambda>d. d) (\<lambda>i d. d\<lparr>g_pm_win_id := i\<rparr>) ''Program Manager'' 50 30 400 300
       (WM_FLAG_VISIBLE OR WM_FLAG_MOVABLE OR WM_FLAG_RESIZABLE) Program_manager s"

definition app_file_manager :: "nat \<Rightarrow> desktop \<Rightarrow> desktop option" where
  "app_file_manager n s =
     launch n (g_fm_win_id (apps s)) (\<lambda>d. d) (\<lambda>i d. d\<lparr>g_fm_win_id := i\<rparr>) ''File Manager'' 80 40 450 350
       (WM_FLAG_VISIBLE OR WM_FLAG_MOVABLE OR WM_FLAG_RESIZABLE) File_manager s"

definition app_notepad :: "nat \<Rightarrow> desktop \<Rightarrow> desktop option" where
  "app_notepad n s =
     launch n (g_np_win_id (apps s)) (\<lambda>d. d\<lparr>g_np_buffer := (g_np_buffer d)[0 := 0], g_np_cursor := 0\<rparr>) (\<lambda>i d. d\<lparr>g_np_win_id := i\<rparr>) ''Notepad'' 100 50 400 300
       (WM_FLAG_VISIBLE OR WM_FLAG_MOVABLE OR WM_FLAG_RESIZABLE) Notepad s"

definition app_calculator :: "nat \<Rightarrow> desktop \<Rightarrow> desktop option" where
  "app_calculator n s =
     launch n (g_calc_win_id (apps s)) calc_reset (\<lambda>i d. d\<lparr>g_calc_win_id := i\<rparr>) ''Calculator'' 200 80 200 220 (WM_FLAG_VISIBLE OR WM_FLAG_MOVABLE) Calculator s"

definition app_about :: "nat \<Rightarrow> desktop \<Rightarrow> desktop option" where
  "app_about n s =
     launch n (g_about_win_id (apps s)) (\<lambda>d. d) (\<lambda>i d. d\<lparr>g_about_win_id := i\<rparr>) ''About PlexsDOS'' (VGA12_WIDTH div 2 - 100) (VGA12_HEIGHT div 2 - 80) 200 160
       (WM_FLAG_VISIBLE OR WM_FLAG_MOVABLE) About s"

fun app_open :: "nat \<Rightarrow> app \<Rightarrow> desktop \<Rightarrow> desktop option" where
  "app_open n Program_manager s = app_program_manager n s"
| "app_open n File_manager s = app_file_manager n s"
| "app_open n Notepad s = app_notepad n s"
| "app_open n Calculator s = app_calculator n s"
| "app_open n About s = app_about n s"

section \<open>The desktop itself\<close>

definition desktop_add_icon :: "bytes option \<Rightarrow> int \<Rightarrow> int \<Rightarrow> u8 \<Rightarrow> app option \<Rightarrow> desk \<Rightarrow> int \<times> desk" where
  "desktop_add_icon name x y color open d =
     (if g_icon_count d \<ge> DESKTOP_MAX_ICONS then (- 1, d)
      else let k = g_icon_count d; i = g_next_icon_id d;
               icon = (g_icons d ! k)\<lparr>icon_id := i, icon_x := x, icon_y := y, icon_color := color, on_open := open\<rparr>;
               icon = (case name of None \<Rightarrow> icon | Some t \<Rightarrow> icon\<lparr>icon_name := text_copy 32 t\<rparr>)
           in (i, d\<lparr>g_icons := (g_icons d)[k := icon], g_icon_count := k + 1, g_next_icon_id := i + 1\<rparr>))"

definition add_default_icons :: "desk \<Rightarrow> desk" where
  "add_default_icons d =
     snd (desktop_add_icon (Some (of_string ''Calculator'')) 20 260 COLOR_LIGHT_GRAY (Some Calculator) (
     snd (desktop_add_icon (Some (of_string ''Notepad'')) 20 180 COLOR_WHITE (Some Notepad) (
     snd (desktop_add_icon (Some (of_string ''Files'')) 20 100 COLOR_GREEN (Some File_manager) (
     snd (desktop_add_icon (Some (of_string ''My Computer'')) 20 20 COLOR_BLUE (Some Program_manager) d)))))))"

definition desktop_init :: "desktop \<Rightarrow> (bool \<times> desktop) option" where
  "desktop_init s =
     (case wm_init s of
        None \<Rightarrow> None
      | Some (ok, s) \<Rightarrow>
          if \<not> ok then Some (False, s)
          else Some (True, on_apps (\<lambda>d. add_default_icons (d\<lparr>widgets := widgets_init (widgets d), g_icon_count := 0, g_next_icon_id := 1, g_start_menu_visible := False\<rparr>)) s))"

definition desktop_shutdown :: "desktop \<Rightarrow> desktop" where
  "desktop_shutdown s = wm_shutdown (on_apps (\<lambda>d. d\<lparr>g_desktop_running := False\<rparr>) s)"

definition desktop_paint :: "desktop \<Rightarrow> desktop option" where
  "desktop_paint s =
     (let s = wm_paint_desktop s;
          s = s\<lparr>display := for_range 0 (g_icon_count (apps s)) (\<lambda>i. desktop_paint_icon (g_icons (apps s) ! i)) (display s)\<rparr>
      in case wm_repaint desk_paint s of
           None \<Rightarrow> None
         | Some s \<Rightarrow>
             (let s = s\<lparr>display := desktop_paint_taskbar s (display s)\<rparr>
              in Some (if g_start_menu_visible (apps s) then s\<lparr>display := desktop_paint_start_menu (display s)\<rparr> else s)))"

definition desktop_show_start_menu :: "desktop \<Rightarrow> desktop option" where
  "desktop_show_start_menu s = desktop_paint (on_apps (\<lambda>d. d\<lparr>g_start_menu_visible := \<not> g_start_menu_visible d\<rparr>) s)"

text \<open>These two functions are static and nothing calls them.\<close>

definition desktop_handle_start_click :: "nat \<Rightarrow> int \<Rightarrow> int \<Rightarrow> desktop \<Rightarrow> desktop option" where
  "desktop_handle_start_click n x y s =
     (if x < 2 \<or> x \<ge> 2 + START_MENU_WIDTH then Some s
      else if y < menu_y \<or> y \<ge> menu_y + START_MENU_ITEM_HEIGHT * START_MENU_MAX_ITEMS then Some s
      else let item = (y - menu_y - 2) sdiv START_MENU_ITEM_HEIGHT;
               hidden = on_apps (\<lambda>d. d\<lparr>g_start_menu_visible := False\<rparr>) s
           in if item = 0 then app_program_manager n hidden
              else if item = 1 then app_file_manager n hidden
              else if item = 2 then app_notepad n hidden
              else if item = 3 then app_calculator n hidden
              else if item = 4 then app_about n hidden
              else if item = 6 then Some (on_apps (\<lambda>d. d\<lparr>g_desktop_running := False\<rparr>) hidden)
              else Some s)"

definition desktop_handle_icon_click :: "nat \<Rightarrow> int \<Rightarrow> int \<Rightarrow> desktop \<Rightarrow> desktop option" where
  "desktop_handle_icon_click n x y s =
     (case find (\<lambda>i. let icon = g_icons (apps s) ! i in x \<ge> icon_x icon \<and> x < icon_x icon + ICON_SIZE \<and>
                       y \<ge> icon_y icon \<and> y < icon_y icon + ICON_SIZE + ICON_TEXT_HEIGHT) [0..<g_icon_count (apps s)] of
        None \<Rightarrow> Some s
      | Some i \<Rightarrow> (case on_open (g_icons (apps s) ! i) of None \<Rightarrow> Some s | Some a \<Rightarrow> app_open n a s))"

text \<open>
  One pass of the loop of \<open>desktop_run\<close>.  \<open>codes\<close> are the scan codes whose interrupts arrive since the pass before, \<open>es\<close> what happens while \<open>keyboard_getchar\<close> waits.
\<close>

definition desktop_pass :: "nat \<Rightarrow> u8 list \<Rightarrow> idle_event list \<Rightarrow> kbd \<Rightarrow> desktop \<Rightarrow> (idle_event list \<times> kbd \<times> desktop) option" where
  "desktop_pass n codes es k s =
     (case wm_process_events (desk_event n) desk_paint es (fold kbd_interrupt_handler codes k) s of
        None \<Rightarrow> None
      | Some (es, k, s) \<Rightarrow>
          (case (if keyboard_available k then
                   case keyboard_getchar es k of
                     None \<Rightarrow> None
                   | Some (c, es, k) \<Rightarrow>
                       if c = 0x1B \<and> g_start_menu_visible (apps s)
                       then map_option (\<lambda>s. (es, k, s)) (desktop_paint (on_apps (\<lambda>d. d\<lparr>g_start_menu_visible := False\<rparr>) s))
                       else Some (es, k, s)
                 else Some (es, k, s)) of
             None \<Rightarrow> None
           | Some (es, k, s) \<Rightarrow> map_option (\<lambda>s. (es, k, s)) (desktop_paint s)))"

text \<open>The loop, over the passes that the given interrupts drive; the result says whether the loop was left.\<close>

fun desktop_loop :: "nat \<Rightarrow> u8 list list \<Rightarrow> idle_event list \<Rightarrow> kbd \<Rightarrow> desktop \<Rightarrow> (bool \<times> idle_event list \<times> kbd \<times> desktop) option" where
  "desktop_loop n [] es k s = Some (\<not> g_desktop_running (apps s), es, k, s)"
| "desktop_loop n (codes # rest) es k s =
     (if \<not> g_desktop_running (apps s) then Some (True, es, k, s)
      else case desktop_pass n codes es k s of None \<Rightarrow> None | Some (es, k, s) \<Rightarrow> desktop_loop n rest es k s)"

definition desktop_run :: "nat \<Rightarrow> u8 list list \<Rightarrow> idle_event list \<Rightarrow> kbd \<Rightarrow> desktop \<Rightarrow> (bool \<times> idle_event list \<times> kbd \<times> desktop) option" where
  "desktop_run n passes es k s =
     (case desktop_paint (on_apps (\<lambda>d. d\<lparr>g_desktop_running := True\<rparr>) s) of None \<Rightarrow> None | Some s \<Rightarrow> desktop_loop n passes es k s)"

end
