(* ===== verification/Desktop_Spec.thy ===== *)
theory Desktop_Spec
  imports Desktop Wm_Life Painters
begin

text \<open>
  The desktop and its programs: what the handlers keep of the window manager's state and of their own, that closing a program's window never returns, that
  the main loop is never left, and what the notepad and the calculator hold.
\<close>

unbundle bit_operations_syntax

section \<open>The state of the programs under the operations of the manager\<close>

text \<open>A property of the programs' state that every handler keeps is kept by every operation of the manager.\<close>

locale wm_apps =
  fixes ev :: "('h, 'u) event_call" and pt :: "('h, 'u) paint_call" and Q :: "'u \<Rightarrow> bool"
  assumes ev_keeps: "ev h wid e p q s = Some t \<Longrightarrow> Q (apps s) \<Longrightarrow> Q (apps t)"
    and pt_keeps: "pt h wid x y w z s = Some t \<Longrightarrow> Q (apps s) \<Longrightarrow> Q (apps t)"
begin

lemma send_keeps: "send_event ev h wid e p q s = Some t \<Longrightarrow> Q (apps s) \<Longrightarrow> Q (apps t)"
  by (auto simp: send_event_def ev_keeps split: option.splits)

lemma on_display_keeps: "on_display f s = Some t \<Longrightarrow> apps t = apps s"
  by (auto simp: on_display_def split: option.splits)

lemma paint_window_keeps: "wm_paint_window pt w s = Some t \<Longrightarrow> Q (apps s) \<Longrightarrow> Q (apps t)"
  unfolding wm_paint_window_def Let_def by (auto split: if_splits option.splits dest!: on_display_keeps pt_keeps)

lemma repaint_below_keeps: "repaint_below pt n s = Some t \<Longrightarrow> Q (apps s) \<Longrightarrow> Q (apps t)"
proof (induction n arbitrary: s)
  case (Suc i)
  from Suc.prems obtain u where "repaint_below pt i u = Some t" "Q (apps u)" by (auto split: option.splits if_splits dest: paint_window_keeps)
  with Suc.IH show ?case by blast
qed simp

lemma repaint_keeps: "wm_repaint pt s = Some t \<Longrightarrow> Q (apps s) \<Longrightarrow> Q (apps t)"
  unfolding wm_repaint_def wm_paint_mouse_def by (auto simp: bind_eq_Some_conv dest!: repaint_below_keeps on_display_keeps)

lemma redraw_keeps: "redraw_all pt s = Some t \<Longrightarrow> Q (apps s) \<Longrightarrow> Q (apps t)"
  using repaint_keeps [of "wm_paint_desktop s" t] by (simp add: redraw_all_def wm_paint_desktop_def)

lemma invalidate_keeps: "wm_invalidate pt wid s = Some t \<Longrightarrow> Q (apps s) \<Longrightarrow> Q (apps t)"
  unfolding wm_invalidate_def by (auto split: option.splits if_splits dest: paint_window_keeps)

lemma upd_apps [simp]: "apps (upd_window k f s) = apps s"
  by (simp add: upd_window_def)

lemma front_apps: "wm_bring_to_front wid s = Some t \<Longrightarrow> apps t = apps s"
  by (auto simp: wm_bring_to_front_def zorder_remove_def Let_def split: if_splits option.splits)

lemma unfocus_keeps: "unfocus_old ev s = Some t \<Longrightarrow> Q (apps s) \<Longrightarrow> Q (apps t)"
  unfolding unfocus_old_def Let_def by (auto split: option.splits if_splits dest!: on_display_keeps send_keeps)

lemma focus_keeps: "wm_focus_window ev wid s = Some t \<Longrightarrow> Q (apps s) \<Longrightarrow> Q (apps t)"
  unfolding wm_focus_window_def Let_def
  by (auto split: option.splits if_splits dest!: on_display_keeps send_keeps front_apps unfocus_keeps)

lemma refocus_keeps: "refocus_top ev s = Some t \<Longrightarrow> Q (apps s) \<Longrightarrow> Q (apps t)"
  unfolding refocus_top_def Let_def by (auto split: option.splits if_splits dest!: send_keeps)

lemma zorder_apps [simp]: "apps (zorder_remove wid s) = apps s"
  by (simp add: zorder_remove_def split: option.split)

lemma destroy_keeps: "wm_destroy_window ev pt wid s = Some t \<Longrightarrow> Q (apps s) \<Longrightarrow> Q (apps t)"
  unfolding wm_destroy_window_def Let_def
  by (auto split: option.splits if_splits dest!: redraw_keeps refocus_keeps send_keeps)

lemma show_keeps: "wm_show_window ev pt wid s = Some t \<Longrightarrow> Q (apps s) \<Longrightarrow> Q (apps t)"
  unfolding wm_show_window_def by (auto simp: bind_eq_Some_conv split: option.splits dest!: invalidate_keeps focus_keeps)

lemma key_keeps: "wm_key ev pt c s = Some t \<Longrightarrow> Q (apps s) \<Longrightarrow> Q (apps t)"
  unfolding wm_key_def wm_close_window_def by (auto split: option.splits if_splits dest!: destroy_keeps focus_keeps send_keeps)

end

section \<open>Closing a program\<close>

lemma close_never_returns:
  "wm_find_window wid s = Some k \<Longrightarrow> on_event (g_windows s ! k) = Some h \<Longrightarrow> desk_event n h wid WM_EVENT_CLOSE p q s = None"
proof (induction n arbitrary: p q)
  case (Suc n)
  then have "wm_destroy_window (desk_event n) desk_paint wid s = None" by (simp add: wm_destroy_window_def send_event_def)
  then show ?case by (cases h) (simp_all add: pm_event_def fm_event_def np_event_def calc_event_def about_event_def)
qed simp

lemma desk_paint_same: "desk_paint h wid x y w z s = Some t \<Longrightarrow> wm_same s t"
  by (auto simp: desk_paint_def)

lemma invalidate_desk_same: "wm_invalidate desk_paint wid s = Some t \<Longrightarrow> wm_same s t"
  by (rule wm_callbacks.invalidate_same [OF wm_callbacks.intro, of "\<lambda>_ _ _ _ _ s. Some s"]) (simp_all add: desk_paint_same)

lemma on_apps_same [simp]: "wm_same s (on_apps f s)"
  by (simp add: wm_same_def on_apps_def)

lemma button_same: "calc_button_click i s = Some t \<Longrightarrow> wm_same s t"
proof -
  assume a: "calc_button_click i s = Some t"
  have "wm_same s (s\<lparr>apps := d\<rparr>)" for d by (simp add: wm_same_def)
  with a show ?thesis
    unfolding calc_button_click_def Let_def by (auto split: option.splits if_splits dest: invalidate_desk_same wm_same_trans)
qed

lemma calc_key_same: "calc_key wid c s = Some t \<Longrightarrow> wm_same s t"
  unfolding calc_key_def by (auto split: if_splits dest: invalidate_desk_same button_same wm_same_trans [OF on_apps_same])

lemma desk_event_same:
  assumes "wm_find_window wid s = Some k" "on_event (g_windows s ! k) = Some h" "desk_event n h wid e p q s = Some t"
  shows "wm_same s t"
proof (cases n)
  case (Suc m)
  have e: "e \<noteq> WM_EVENT_CLOSE" using close_never_returns [OF assms(1,2)] assms(3) by auto
  show ?thesis
    using assms(3) e unfolding Suc
    by (cases h) (auto simp: pm_event_def fm_event_def np_event_def calc_event_def about_event_def split: if_splits
        dest: wm_same_trans [OF on_apps_same invalidate_desk_same] calc_key_same)
qed (use assms(3) in simp)

text \<open>The programs of the desktop meet the contract of the window manager, at every depth of nested handler calls.\<close>

interpretation desk: wm_callbacks "desk_event n" desk_paint for n
  by unfold_locales (fact desk_event_same, fact desk_paint_same)

text \<open>What the handlers keep of the programs' own state.\<close>

lemma desk_keeps:
  assumes "\<And>d c. Q d \<Longrightarrow> Q (np_key c d)" "\<And>d c. Q d \<Longrightarrow> Q (calc_digit c d)" "\<And>d c. Q d \<Longrightarrow> Q (calc_operator c d)" "\<And>d. Q d \<Longrightarrow> Q (calc_clear d)"
    and "\<And>d d'. Q d \<Longrightarrow> calc_equals d = Some d' \<Longrightarrow> Q d'"
    and "\<And>d. Q d \<Longrightarrow> Q (d\<lparr>g_pm_win_id := - 1\<rparr>)" "\<And>d. Q d \<Longrightarrow> Q (d\<lparr>g_fm_win_id := - 1\<rparr>)" "\<And>d. Q d \<Longrightarrow> Q (d\<lparr>g_about_win_id := - 1\<rparr>)"
    and "\<And>d. Q d \<Longrightarrow> Q (calc_reset (d\<lparr>g_calc_win_id := - 1\<rparr>))"
    and "\<And>d. Q d \<Longrightarrow> Q (d\<lparr>g_np_win_id := - 1, g_np_buffer := (g_np_buffer d)[0 := 0], g_np_cursor := 0\<rparr>)"
  shows "wm_apps (desk_event n) desk_paint Q"
proof (induction n)
  case 0
  show ?case by unfold_locales (auto simp: desk_paint_def)
next
  case (Suc n)
  note destroy = wm_apps.destroy_keeps [OF Suc] and invalidate = wm_apps.invalidate_keeps [OF Suc]
  have press: "calc_press c d = Some d' \<Longrightarrow> Q d \<Longrightarrow> Q d'" for c d d'
    using assms(2-5) unfolding calc_press_def by (auto split: if_splits)
  have button: "calc_button_click i s = Some t \<Longrightarrow> Q (apps s) \<Longrightarrow> Q (apps t)" for i s t
    unfolding calc_button_click_def Let_def by (auto split: option.splits if_splits dest!: invalidate press)
  have key: "calc_key wid c s = Some t \<Longrightarrow> Q (apps s) \<Longrightarrow> Q (apps t)" for wid c s t
    using assms(2-4) unfolding calc_key_def by (auto simp: on_apps_def split: if_splits dest!: invalidate button)
  show ?case
  proof
    fix h wid e p q s t assume a: "desk_event (Suc n) h wid e p q s = Some t" "Q (apps s)"
    show "Q (apps t)"
      using a assms(1,6-10) key
      by (cases h) (auto simp: pm_event_def fm_event_def np_event_def calc_event_def about_event_def on_apps_def split: if_splits dest!: destroy invalidate)
  qed (auto simp: desk_paint_def)
qed

interpretation running: wm_apps "desk_event n" desk_paint "\<lambda>d. g_desktop_running d = b" for n b
  by (rule desk_keeps) (auto simp: np_key_def calc_digit_def calc_show_def calc_operator_def calc_clear_def calc_equals_def calc_reset_def split: option.splits)

section \<open>The main loop\<close>

lemma icon_painter: "painter m (desktop_paint_icon icon)"
  unfolding desktop_paint_icon_def [abs_def] Let_def by (intro painters)

lemma task_button_painter [painters]: "painter m f \<Longrightarrow> painter m (\<lambda>g. paint_task_button win x (f g))"
  unfolding paint_task_button_def Let_def by (intro painters)

lemma task_buttons_painter: "painter m f \<Longrightarrow> painter m (\<lambda>g. paint_task_buttons is x s (f g))"
proof (induction "is" arbitrary: x f)
  case (Cons i "is")
  show ?case
  proof (cases "wm_get_window (int i) s")
    case (Some win)
    show ?thesis unfolding paint_task_buttons.simps Some option.case
      by (intro painter_if Cons.IH Cons.prems task_button_painter)
  qed (use Cons in simp)
qed simp

lemma taskbar_painter: "painter m (desktop_paint_taskbar s)"
  unfolding desktop_paint_taskbar_def [abs_def] Let_def by (intro painters task_buttons_painter)

lemma start_menu_painter: "painter m desktop_paint_start_menu"
proof -
  have "painter m (paint_start_item i)" for i unfolding paint_start_item_def [abs_def] Let_def by (intro painters)
  then show ?thesis unfolding desktop_paint_start_menu_def [abs_def] Let_def by (intro painter_comp [OF _ painter_for] painters)
qed

text \<open>Without windows the desktop is always painted.\<close>

lemma desktop_paint_returns:
  assumes "gfx_ok M12 (display s)" "g_zorder_count s = 0"
  shows "\<exists>g. desktop_paint s = Some (s\<lparr>display := g\<rparr>) \<and> gfx_ok M12 g"
proof -
  let ?g1 = "for_range 0 (g_icon_count (apps s)) (\<lambda>i. desktop_paint_icon (g_icons (apps s) ! i)) (paint_background (display s))"
  have "gfx_ok M12 ?g1" using background_plain [OF assms(1)] painter_ok [OF painter_for [OF icon_painter]] by blast
  with cursor_draws [of M12 "g_mouse_x s" "g_mouse_y s"] obtain g2 where
    g2: "paint_cursor (g_mouse_x s) (g_mouse_y s) ?g1 = Some g2" "gfx_ok M12 g2" unfolding draws_def by blast
  let ?g3 = "desktop_paint_taskbar (s\<lparr>display := g2\<rparr>) g2"
  have g3: "gfx_ok M12 ?g3" "gfx_ok M12 (desktop_paint_start_menu ?g3)" using painter_ok [OF taskbar_painter g2(2)] painter_ok [OF start_menu_painter] by blast+
  have "wm_repaint desk_paint (s\<lparr>display := ?g1\<rparr>) = Some (s\<lparr>display := g2\<rparr>)"
    using assms(2) g2(1) by (simp add: wm_repaint_def wm_paint_mouse_def on_display_def)
  then have "desktop_paint s = Some (s\<lparr>display := if g_start_menu_visible (apps s) then desktop_paint_start_menu ?g3 else ?g3\<rparr>)"
    by (simp add: desktop_paint_def wm_paint_desktop_def Let_def)
  then show ?thesis using g3 by auto
qed

definition keys_ready :: "kbd \<Rightarrow> bool" where "keys_ready k \<longleftrightarrow> kbd_ok k \<and> (\<forall>c \<in> set (kbd_queue k). kbd_char c)"

lemma interrupts_ready: "keys_ready k \<Longrightarrow> keys_ready (fold kbd_interrupt_handler codes k)"
  unfolding keys_ready_def using handlers_ok handlers_kbd_char by blast

lemma getchar_ready:
  assumes "keys_ready k" "keyboard_available k"
  shows "\<exists>c k'. keyboard_getchar es k = Some (c, es, k') \<and> keys_ready k'"
proof -
  obtain c cs where q: "kbd_queue k = c # cs" using assms(2) length_kbd_queue [of k] by (cases "kbd_queue k") (auto simp: keyboard_available_def)
  with assms(1) get_queue obtain t where t: "kbd_buffer_get k = (sint c, t)" "kbd_ok t" "kbd_queue t = cs" unfolding keys_ready_def by blast
  have "kbd_char c" using assms(1) q by (simp add: keys_ready_def)
  moreover have "\<not> kbd_char (- 1)" by code_simp
  ultimately have "c \<noteq> - 1" by auto
  then have "sint c \<noteq> - 1" by (metis of_int_1 of_int_minus sint_kept)
  then show ?thesis using t q assms(1) by (cases es) (auto simp: keys_ready_def)
qed

text \<open>A running desktop without windows.\<close>

definition idle_desktop :: "desktop \<Rightarrow> bool" where
  "idle_desktop s \<longleftrightarrow> gfx_ok M12 (display s) \<and> g_zorder_count s = 0 \<and> g_focused_id s = - 1 \<and> live s = [] \<and> g_desktop_running (apps s)"

lemma idle_paint: "idle_desktop s \<Longrightarrow> \<exists>s'. desktop_paint s = Some s' \<and> idle_desktop s'"
  using desktop_paint_returns [of s] by (auto simp: idle_desktop_def live_def)

lemma idle_pass:
  assumes "idle_desktop s" "keys_ready k"
  shows "\<exists>k' s'. desktop_pass n codes es k s = Some (es, k', s') \<and> idle_desktop s' \<and> keys_ready k'"
proof -
  let ?k = "fold kbd_interrupt_handler codes k"
  have key: "wm_key (desk_event n) desk_paint c s = Some s" for c using assms(1) by (simp add: wm_key_def idle_desktop_def)
  obtain k1 where k1: "wm_process_events (desk_event n) desk_paint es ?k s = Some (es, k1, s)" "keys_ready k1"
  proof (cases "keyboard_available ?k")
    case True
    from getchar_ready [OF interrupts_ready [OF assms(2)] True, of es] that show ?thesis by (auto simp: wm_process_events_def True key)
  next
    case False
    with that [of ?k] interrupts_ready [OF assms(2)] show ?thesis by (simp add: wm_process_events_def)
  qed
  have off: "idle_desktop (on_apps (\<lambda>d. d\<lparr>g_start_menu_visible := False\<rparr>) s)" using assms(1) by (simp add: idle_desktop_def on_apps_def live_def)
  obtain k2 s2 where "(if keyboard_available k1 then
                   case keyboard_getchar es k1 of
                     None \<Rightarrow> None
                   | Some (c, es, k) \<Rightarrow>
                       if c = 0x1B \<and> g_start_menu_visible (apps s)
                       then map_option (\<lambda>s. (es, k, s)) (desktop_paint (on_apps (\<lambda>d. d\<lparr>g_start_menu_visible := False\<rparr>) s))
                       else Some (es, k, s)
                 else Some (es, k1, s)) = Some (es, k2, s2)" "keys_ready k2" "idle_desktop s2"
  proof (cases "keyboard_available k1")
    case True
    with getchar_ready [OF k1(2), of es] obtain c k' where g: "keyboard_getchar es k1 = Some (c, es, k')" "keys_ready k'" by blast
    show ?thesis
    proof (cases "c = 0x1B \<and> g_start_menu_visible (apps s)")
      case True
      with idle_paint [OF off] g that \<open>keyboard_available k1\<close> show ?thesis by auto
    next
      case False
      with g that [of k' s] assms(1) \<open>keyboard_available k1\<close> show ?thesis by auto
    qed
  next
    case False
    with that [of k1 s] k1(2) assms(1) show ?thesis by simp
  qed
  then show ?thesis using k1 idle_paint [of s2] by (auto simp: desktop_pass_def)
qed

lemma idle_loop:
  "idle_desktop s \<Longrightarrow> keys_ready k \<Longrightarrow> \<exists>k' s'. desktop_loop n passes es k s = Some (False, es, k', s') \<and> idle_desktop s'"
proof (induction passes arbitrary: k s)
  case Nil
  then show ?case by (auto simp: idle_desktop_def)
next
  case (Cons codes passes)
  have "g_desktop_running (apps s)" using Cons.prems(1) by (simp add: idle_desktop_def)
  with idle_pass [OF Cons.prems, of n codes es] Cons.IH show ?case by fastforce
qed

lemma desktop_init_idle:
  assumes "retraces (dev (display s0))"
  shows "\<exists>s. desktop_init s0 = Some (True, s) \<and> idle_desktop (on_apps (\<lambda>d. d\<lparr>g_desktop_running := True\<rparr>) s)"
  using wm_init_starts [OF assms] by (auto simp: desktop_init_def idle_desktop_def on_apps_def live_def o_def)

text \<open>
  C30. The desktop cannot be left and opens no window.  On an adapter whose retrace bit keeps changing, \<open>desktop_init\<close> succeeds; from then on, whatever keys arrive in however many passes of the loop
  of \<open>desktop_run\<close>, every pass returns, the loop is not left and no window exists.  The two functions that start programs or end the loop, \<open>desktop_handle_icon_click\<close> and
  \<open>desktop_handle_start_click\<close>, are never called.
\<close>

theorem desktop_never_left:
  assumes "retraces (dev (display s0))" "kbd_ok k" "\<forall>c \<in> set (kbd_queue k). kbd_char c"
  shows "\<exists>s. desktop_init s0 = Some (True, s) \<and>
    (\<exists>k' s'. desktop_run n passes es k s = Some (False, es, k', s') \<and> g_desktop_running (apps s') \<and> live s' = [] \<and> wm_get_focused s' = - 1)"
proof -
  from desktop_init_idle [OF assms(1)] obtain s where s: "desktop_init s0 = Some (True, s)" "idle_desktop (on_apps (\<lambda>d. d\<lparr>g_desktop_running := True\<rparr>) s)" by blast
  from idle_paint [OF s(2)] obtain t where t: "desktop_paint (on_apps (\<lambda>d. d\<lparr>g_desktop_running := True\<rparr>) s) = Some t" "idle_desktop t" by blast
  have "keys_ready k" using assms(2,3) by (simp add: keys_ready_def)
  from idle_loop [OF t(2) this, of n passes es] t(1) s(1) show ?thesis by (auto simp: desktop_run_def idle_desktop_def wm_get_focused_def)
qed

section \<open>Programs\<close>

text \<open>
  C31. The window of a program cannot be closed.  Whatever program owns it, at any depth of nested calls: the Escape key for the window with the focus, \<open>wm_close_window\<close> and \<open>wm_destroy_window\<close> do not return,
  because the manager sends the close event before it takes the window out of its table and every handler of a close event calls \<open>wm_destroy_window\<close> again.
\<close>

theorem app_close_never_returns:
  assumes "wm_find_window wid s = Some k" "on_event (g_windows s ! k) = Some a"
  shows "wm_destroy_window (desk_event n) desk_paint wid s = None \<and> wm_close_window (desk_event n) desk_paint wid s = None \<and>
    (g_focused_id s = wid \<and> wid \<ge> 0 \<longrightarrow> wm_key (desk_event n) desk_paint 0x1B s = None)"
  using close_never_returns [OF assms] assms by (auto simp: wm_key_def wm_close_window_def wm_destroy_window_def send_event_def)

text \<open>All other operations of the manager keep its invariant with the programs of the desktop behind the handlers.\<close>

theorem desktop_keeps_wm_inv:
  "wm_run (desk_event n) desk_paint calls s = Some t \<Longrightarrow> wm_inv s \<Longrightarrow> list_all names_window calls \<Longrightarrow> wm_inv t"
  by (rule desk.run_inv)

subsection \<open>Notepad\<close>

text \<open>The text as a list, with the newest character last.\<close>

definition note_key :: "u8 \<Rightarrow> bytes \<Rightarrow> bytes" where
  "note_key c t = (if c = 8 then butlast t else if 32 \<le> c \<and> c < 127 \<and> length t < 2047 then t @ [c] else t)"

definition note_of :: "desk \<Rightarrow> bytes" where "note_of d = take (g_np_cursor d) (g_np_buffer d)"

definition np_ok :: "desk \<Rightarrow> bool" where
  "np_ok d \<longleftrightarrow> length (g_np_buffer d) = NP_SIZE \<and> g_np_cursor d < NP_SIZE \<and> g_np_buffer d ! g_np_cursor d = 0 \<and> 0 \<notin> set (note_of d)"

lemma np_ok_str: "np_ok d \<Longrightarrow> str_of (g_np_buffer d) = note_of d"
proof -
  assume a: "np_ok d"
  have "g_np_buffer d = note_of d @ 0 # drop (Suc (g_np_cursor d)) (g_np_buffer d)"
    using a id_take_nth_drop [of "g_np_cursor d" "g_np_buffer d"] by (simp add: np_ok_def note_of_def)
  then have "str_of (g_np_buffer d) = str_of (note_of d @ 0 # drop (Suc (g_np_cursor d)) (g_np_buffer d))" by simp
  also have "\<dots> = note_of d" unfolding str_of_def using a by (subst takeWhile_append2) (auto simp: np_ok_def)
  finally show ?thesis .
qed

lemma sint_of_int8: "- 128 \<le> k \<Longrightarrow> k < 128 \<Longrightarrow> sint (of_int k :: u8) = k"
  by (simp add: signed_of_int signed_take_bit_int_eq_self)

lemma sint_u8: "sint (c :: u8) = (if uint c < 128 then uint c else uint c - 256)"
proof (cases "uint c < 128")
  case True
  have "- 128 \<le> uint c" using uint_ge_0 [of c] by linarith
  from sint_of_int8 [OF this True] True show ?thesis by simp
next
  case False
  have e: "of_int (uint c - 256) = c" and "uint c < 256" using uint_lt2p [of c] by simp_all
  with False have "sint (of_int (uint c - 256) :: u8) = uint c - 256" by (intro sint_of_int8) auto
  with False show ?thesis unfolding e by simp
qed

lemma sint_printable: "sint (c :: u8) \<ge> 32 \<and> sint c < 127 \<longleftrightarrow> 32 \<le> c \<and> c < 127"
proof -
  have "uint c < 256" using uint_lt2p [of c] by simp
  then show ?thesis unfolding sint_u8 word_le_def word_less_def by auto
qed

lemma np_key_note:
  assumes "np_ok d"
  shows "np_ok (np_key c d) \<and> note_of (np_key c d) = note_key c (note_of d)"
proof -
  have b: "length (g_np_buffer d) = NP_SIZE" "g_np_cursor d < NP_SIZE" "g_np_buffer d ! g_np_cursor d = 0" "0 \<notin> set (note_of d)" using assms by (simp_all add: np_ok_def)
  have len: "length (note_of d) = g_np_cursor d" using b by (simp add: note_of_def)
  consider "c = 8" "g_np_cursor d = 0" | m where "c = 8" "g_np_cursor d = Suc m" | "c \<noteq> 8" "32 \<le> c \<and> c < 127" "g_np_cursor d < NP_SIZE - 1"
    | "c \<noteq> 8" "\<not> (32 \<le> c \<and> c < 127 \<and> g_np_cursor d < NP_SIZE - 1)" by (metis not0_implies_Suc)
  then show ?thesis
  proof cases
    case 1
    then show ?thesis using assms len by (simp add: np_key_def note_key_def)
  next
    case (2 m)
    have n: "note_of (np_key c d) = butlast (note_of d)" using 2 b by (simp add: np_key_def note_of_def butlast_take)
    moreover have "np_ok (np_key c d)" using 2 b in_set_butlastD [of 0 "note_of d"] unfolding np_ok_def n by (auto simp: np_key_def)
    ultimately show ?thesis using 2 by (simp add: note_key_def)
  next
    case 3
    have k: "np_key c d = d\<lparr>g_np_buffer := (g_np_buffer d)[g_np_cursor d := c, g_np_cursor d + 1 := 0], g_np_cursor := g_np_cursor d + 1\<rparr>"
      using 3 sint_printable [of c] by (simp add: np_key_def)
    have n: "note_of (np_key c d) = note_of d @ [c]" using b 3(3) unfolding k by (simp add: note_of_def take_Suc_conv_app_nth)
    moreover have "np_ok (np_key c d)" using b 3 unfolding np_ok_def n by (auto simp: k NP_SIZE_def)
    ultimately show ?thesis using 3 len by (simp add: note_key_def NP_SIZE_def)
  next
    case 4
    have "\<not> (32 \<le> c \<and> c < 127 \<and> length (note_of d) < 2047)" using 4(2) len by (simp add: NP_SIZE_def)
    moreover have "np_key c d = d" using 4 sint_printable [of c] by (auto simp: np_key_def)
    ultimately show ?thesis using assms 4(1) unfolding note_key_def by simp
  qed
qed

text \<open>The keys that the handler of the notepad gets, one after the other.\<close>

fun np_keys :: "nat \<Rightarrow> int \<Rightarrow> u8 list \<Rightarrow> desktop \<Rightarrow> desktop option" where
  "np_keys n wid [] s = Some s"
| "np_keys n wid (c # cs) s = Option.bind (desk_event (Suc n) Notepad wid WM_EVENT_KEY (sint c) 0 s) (np_keys n wid cs)"

lemma invalidate_desk_apps: "wm_invalidate desk_paint wid s = Some t \<Longrightarrow> apps t = apps s"
  using wm_apps.invalidate_keeps [of "\<lambda>_ _ _ _ _ s. Some s" desk_paint "\<lambda>d. d = apps s" wid s t] by (auto simp: wm_apps_def desk_paint_def)

lemma np_keys_note:
  assumes "np_ok (apps s)" "np_keys n wid cs s = Some t"
  shows "np_ok (apps t) \<and> note_of (apps t) = fold note_key cs (note_of (apps s))"
  using assms
proof (induction cs arbitrary: s)
  case (Cons c cs)
  then obtain u where u: "np_event (desk_event n) wid WM_EVENT_KEY (sint c) s = Some u" "np_keys n wid cs u = Some t" by (auto simp: bind_eq_Some_conv)
  have "apps u = np_key c (apps s)"
    using u(1) invalidate_desk_apps [of wid "on_apps (np_key c) s" u] by (simp add: np_event_def sint_kept on_apps_def)
  with Cons.IH [OF _ u(2)] Cons.prems(1) np_key_note [of "apps s" c] show ?case by simp
qed simp

subsection \<open>Painting returns\<close>

lemma title_bar_drawer: "drawer m (\<lambda>g. wm_paint_titlebar w (paint_window_body b g))"
proof -
  have body: "painter m (paint_window_body b)" unfolding paint_window_body_def [abs_def] Let_def by (intro painters)
  have t: "painter m (paint_title_text w)" unfolding paint_title_text_def [abs_def] Let_def by (intro painters)
  have mn: "painter m (paint_min_button b)" for b unfolding paint_min_button_def [abs_def] Let_def by (intro painters)
  have mx: "painter m (paint_max_button b)" for b unfolding paint_max_button_def [abs_def] Let_def by (intro painters)
  have c: "drawer m (paint_close_button b)" for b unfolding paint_close_button_def [abs_def] Let_def by (intro painters)
  have "wm_paint_titlebar w = (\<lambda>g. if \<not> has_flag WM_FLAG_HAS_TITLE w then Some g
      else Option.bind (if has_flag WM_FLAG_HAS_CLOSE w then paint_close_button (bounds w) (paint_title_text w g) else Some (paint_title_text w g))
        (\<lambda>g. Some (paint_max_button (bounds w) (paint_min_button (bounds w) g))))"
    by (auto simp: wm_paint_titlebar_def Let_def fun_eq_iff split: option.split)
  moreover have "drawer m \<dots>" by (intro painters drawer_after [OF t c] painter_comp [OF mn mx] t)
  ultimately show ?thesis using drawer_after [OF body] by simp
qed

lemma np_text_painter: "painter m f \<Longrightarrow> painter m (\<lambda>g. np_text cs lx ly x y w h (f g))"
proof (induction cs arbitrary: lx ly f)
  case (Cons c cs)
  show ?case unfolding np_text.simps Let_def by (intro painter_if Cons.IH Cons.prems painter_char)
qed simp

lemma pm_icon_painter [painters]: "painter m f \<Longrightarrow> painter m (\<lambda>g. pm_icon x y c n (f g))"
  unfolding pm_icon_def by (intro painters)

lemma calc_button_painter: "painter m (calc_paint_button x y i j)"
  unfolding calc_paint_button_def [abs_def] Let_def by (intro painters)

lemma app_painter: "painter m (app_paint a d x y w h)"
proof (cases a)
  case Program_manager
  then show ?thesis by (simp add: pm_paint_def [abs_def] Let_def) (intro painters)
next
  case File_manager
  have "painter m (\<lambda>g. gfx_draw_string x y t c b g)" for x y t c b by (intro painters)
  then show ?thesis unfolding File_manager by (simp add: fm_paint_def [abs_def] Let_def) (intro painters painter_comp [OF _ painter_for])
next
  case Notepad
  then show ?thesis by (simp add: np_paint_def [abs_def] Let_def) (intro conjI impI painters np_text_painter)
next
  case Calculator
  then show ?thesis by (simp add: calc_paint_def [abs_def] Let_def) (intro painters painter_comp [OF _ painter_for] painter_for calc_button_painter)
next
  case About
  then show ?thesis by (simp add: about_paint_def [abs_def] Let_def) (intro painters)
qed

lemma invalidate_returns:
  assumes "gfx_ok m (display s)"
  shows "\<exists>t. wm_invalidate desk_paint wid s = Some t \<and> gfx_ok m (display t)"
proof -
  have "\<exists>t. wm_paint_window desk_paint w s = Some t \<and> gfx_ok m (display t)" for w
  proof -
    obtain g where g: "wm_paint_titlebar w (paint_window_body (bounds w) (display s)) = Some g" "gfx_ok m g"
      using drawer_ok [OF title_bar_drawer assms] by blast
    then show ?thesis using assms painter_ok [OF app_painter g(2)]
      by (auto simp: wm_paint_window_def on_display_def desk_paint_def Let_def split: option.split)
  qed
  then show ?thesis using assms by (auto simp: wm_invalidate_def split: option.split)
qed

lemma np_keys_return: "gfx_ok m (display s) \<Longrightarrow> \<exists>t. np_keys n wid cs s = Some t"
proof (induction cs arbitrary: s)
  case (Cons c cs)
  have "gfx_ok m (display (on_apps (np_key c) s))" using Cons.prems by (simp add: on_apps_def)
  from invalidate_returns [OF this, of wid] obtain u where
    "desk_event (Suc n) Notepad wid WM_EVENT_KEY (sint c) 0 s = Some u" "gfx_ok m (display u)" by (auto simp: np_event_def sint_kept)
  with Cons.IH show ?case by (auto simp: bind_eq_Some_conv)
qed simp

text \<open>
  C32. The notepad holds what was typed.  Its buffer, cursor and terminator implement a list of characters: each printable key appends to it while fewer than 2047 characters are
  held, backspace takes the last one away, every other key changes nothing.  For any sequence of keys the handler returns, the text in the buffer is the one the list gives, and the buffer is not overrun.
\<close>

theorem notepad_refines:
  assumes "np_ok (apps s)" "gfx_ok VGA_MODE_12H (display s)"
  shows "\<exists>t. np_keys n wid cs s = Some t \<and> str_of (g_np_buffer (apps t)) = fold note_key cs (str_of (g_np_buffer (apps s))) \<and>
    length (g_np_buffer (apps t)) = NP_SIZE \<and> g_np_cursor (apps t) = length (str_of (g_np_buffer (apps t))) \<and> g_np_cursor (apps t) < NP_SIZE"
proof -
  obtain t where t: "np_keys n wid cs s = Some t" using np_keys_return [OF assms(2)] by blast
  note r = np_keys_note [OF assms(1) t]
  have "length (note_of (apps t)) = g_np_cursor (apps t)" using conjunct1 [OF r] unfolding np_ok_def note_of_def by simp
  with t r np_ok_str [of "apps t"] np_ok_str [OF assms(1)] show ?thesis by (auto simp: np_ok_def)
qed

subsection \<open>Calculator\<close>

text \<open>The number that a list of digits stands for, and the texts that show an integer.\<close>

definition dec_value :: "bytes \<Rightarrow> int" where "dec_value ds = fold (\<lambda>c n. n * 10 + (uint c - 48)) ds 0"

definition shows_int :: "bytes \<Rightarrow> int \<Rightarrow> bool" where
  "shows_int t k \<longleftrightarrow> (let ds = (if k < 0 then tl t else t) in t = (if k < 0 then [45] else []) @ ds \<and> ds \<noteq> [] \<and> list_all is_digit ds \<and> dec_value ds = \<bar>k\<bar>)"

lemma dec_value_snoc: "dec_value (ds @ [c]) = dec_value ds * 10 + (uint c - 48)"
  by (simp add: dec_value_def)

lemma digit_char: "0 \<le> r \<Longrightarrow> r < 10 \<Longrightarrow> uint (48 + of_int r :: u8) = 48 + r \<and> is_digit (48 + of_int r)"
proof -
  assume "0 \<le> r" "r < 10"
  then have "uint (of_int (48 + r) :: u8) = 48 + r" by (subst uint_word_of_int) simp
  then have "uint (48 + of_int r :: u8) = 48 + r" by simp
  moreover have "uint (48 :: u8) = 48" "uint (57 :: u8) = 57" by simp_all
  ultimately show ?thesis using \<open>0 \<le> r\<close> \<open>r < 10\<close> unfolding is_digit_def word_le_def by simp
qed

lemma calc_digits_value:
  "0 \<le> v \<Longrightarrow> v < 10 ^ n \<Longrightarrow> dec_value (rev (calc_digits n v)) = v \<and> list_all is_digit (calc_digits n v) \<and> length (calc_digits n v) \<le> n \<and> (v > 0 \<longrightarrow> calc_digits n v \<noteq> [])"
proof (induction n arbitrary: v)
  case 0
  then show ?case by (simp add: dec_value_def)
next
  case (Suc n)
  show ?case
  proof (cases "v > 0")
    case True
    have "v div 10 < 10 ^ n" "0 \<le> v div 10" using Suc.prems by simp_all
    note ih = Suc.IH [OF this(2,1)]
    have "0 \<le> v mod 10" "v mod 10 < 10" by simp_all
    note d = digit_char [OF this]
    show ?thesis using True ih d by (simp add: dec_value_snoc)
  next
    case False
    then show ?thesis using Suc.prems(1) by (simp add: dec_value_def)
  qed
qed

lemma sint_of_int32: "- 2147483648 \<le> k \<Longrightarrow> k < 2147483648 \<Longrightarrow> sint (of_int k :: u32) = k"
  by (simp add: signed_of_int signed_take_bit_int_eq_self)

lemma sint_range: "- 2147483648 \<le> sint (v :: u32) \<and> sint v < 2147483648"
  using sint_ge [of v] sint_lt [of v] by simp

lemma sint_neg: "sint (v :: u32) > - 2147483648 \<Longrightarrow> sint (- v) = - sint v"
proof -
  assume "sint v > - 2147483648"
  then have "sint (of_int (- sint v) :: u32) = - sint v" using sint_range [of v] by (intro sint_of_int32) simp_all
  then show ?thesis by simp
qed

lemma sint_zero_iff: "sint (v :: u32) = 0 \<longleftrightarrow> v = 0"
proof
  assume "sint v = 0"
  then have "of_int (sint v) = (0 :: u32)" by simp
  then show "v = 0" by simp
qed simp

lemma str_of_prefix: "0 \<notin> set t \<Longrightarrow> str_of (t @ 0 # r) = t"
  unfolding str_of_def by (subst takeWhile_append2) auto

lemma digits_nonzero: "list_all is_digit ds \<Longrightarrow> 0 \<notin> set ds"
  by (induction ds) (auto simp: is_digit_def)

lemma update_display_shows:
  assumes "length disp = 32" "sint v > - 2147483648"
  shows "length (calc_update_display v disp) = 32 \<and> shows_int (str_of (calc_update_display v disp)) (sint v)"
proof (cases "v = 0")
  case True
  obtain a b r where "disp = a # b # r" using assms(1) by (cases disp; cases "tl disp") auto
  then have "str_of (calc_update_display v disp) = [48]" using True by (simp add: calc_update_display_def str_of_def)
  moreover have "is_digit 48" by (simp add: is_digit_def)
  ultimately show ?thesis using assms(1) True by (simp add: shows_int_def dec_value_def calc_update_display_def)
next
  case False
  let ?k = "\<bar>sint v\<bar>" and ?s = "if sint v < 0 then [45] else [] :: bytes"
  have k: "0 < ?k" "?k < 10 ^ 15" using False sint_zero_iff [of v] sint_range [of v] by (auto simp: abs_less_iff)
  let ?ds = "calc_digits 15 ?k"
  from calc_digits_value [of ?k 15] k have ds: "dec_value (rev ?ds) = ?k" "list_all is_digit ?ds" "length ?ds \<le> 15" "?ds \<noteq> []" by auto
  have "sint (if sint v < 0 then - v else v) = ?k" "(if sint v < 0 then - v else v) \<noteq> 0" using sint_neg [OF assms(2)] False by auto
  then have e: "calc_update_display v disp = (?s @ rev ?ds) @ 0 # drop (length ?ds + length ?s + 1) disp"
    by (simp add: calc_update_display_def Let_def)
  have "0 \<notin> set (?s @ rev ?ds)" using digits_nonzero [OF ds(2)] by auto
  then have "str_of (calc_update_display v disp) = ?s @ rev ?ds" unfolding e by (rule str_of_prefix)
  moreover have "length (calc_update_display v disp) = 32" unfolding e using assms(1) ds(3) by auto
  ultimately show ?thesis using ds by (cases "sint v < 0") (simp_all add: shows_int_def list_all_rev)
qed

text \<open>The display shows the value, unless it is the least number.\<close>

definition calc_shown :: "desk \<Rightarrow> bool" where
  "calc_shown d \<longleftrightarrow> length (g_calc_display d) = 32 \<and> (sint (g_calc_value d) > - 2147483648 \<longrightarrow> shows_int (str_of (g_calc_display d)) (sint (g_calc_value d)))"

lemma least_display: "sint v = - 2147483648 \<Longrightarrow> length disp = 32 \<Longrightarrow> length (calc_update_display v disp) = 32 \<and> str_of (calc_update_display v disp) = [45]"
proof -
  assume v: "sint v = - 2147483648" and l: "length disp = 32"
  have "of_int (sint v) = (of_int (- 2147483648) :: u32)" unfolding v ..
  then have "v = - 2147483648" by simp
  moreover have "- (- 2147483648 :: u32) = - 2147483648" "sint (- 2147483648 :: u32) = - 2147483648" "(- 2147483648 :: u32) \<noteq> 0" by code_simp+
  ultimately have "calc_update_display v disp = [45, 0] @ drop 2 disp" by (simp add: calc_update_display_def Let_def numeral_eq_Suc)
  then show ?thesis using l by (simp add: str_of_def)
qed

lemma update_display_length: "length disp = 32 \<Longrightarrow> length (calc_update_display v disp) = 32"
  using update_display_shows [of disp v] least_display [of v disp] sint_range [of v] by (cases "sint v = - 2147483648") auto

lemma calc_show_shown: "length (g_calc_display d) = 32 \<Longrightarrow> calc_shown (calc_show d)"
  unfolding calc_shown_def calc_show_def using update_display_shows update_display_length by simp

lemma calc_reset_shown: "length (g_calc_display d) = 32 \<Longrightarrow> calc_shown (calc_reset d)"
  using update_display_shows [of "g_calc_display d" 0] by (simp add: calc_shown_def calc_reset_def calc_update_display_def)

interpretation calc: wm_apps "desk_event n" desk_paint calc_shown for n
proof (rule desk_keeps)
  have len: "calc_shown d \<Longrightarrow> length (g_calc_display d) = 32" for d by (simp add: calc_shown_def)
  show "calc_shown d \<Longrightarrow> calc_shown (np_key c d)" for d c by (simp add: calc_shown_def np_key_def)
  show "calc_shown d \<Longrightarrow> calc_shown (calc_digit c d)" for d c unfolding calc_digit_def by (rule calc_show_shown) (auto dest: len)
  show "calc_shown d \<Longrightarrow> calc_shown (calc_operator c d)" for d c by (simp add: calc_shown_def calc_operator_def)
  show "calc_shown d \<Longrightarrow> calc_shown (calc_clear d)" for d unfolding calc_clear_def by (rule calc_show_shown) (auto dest: len)
  show "calc_shown d \<Longrightarrow> calc_equals d = Some d' \<Longrightarrow> calc_shown d'" for d d'
    unfolding calc_equals_def by (auto split: option.splits intro!: calc_show_shown dest: len)
  show "calc_shown d \<Longrightarrow> calc_shown (calc_reset (d\<lparr>g_calc_win_id := - 1\<rparr>))" for d by (rule calc_reset_shown) (auto dest: len)
qed (simp_all add: calc_shown_def)

text \<open>
  The calculator shows its value.  Starting it and every event of every program keep the display in step with the value: the text is an optional minus sign and decimal digits that read as the
  value, for every value but \<open>-2^31\<close> (which shows as a lone minus sign).  The display stays within its 32 characters.
\<close>

theorem calculator_shows_value:
  assumes "length (g_calc_display d0) = 32" "calc_shown (apps s)" "desk_event n a wid e p q s = Some t"
  shows "calc_shown (calc_reset d0) \<and> length (g_calc_display (apps t)) = 32 \<and>
    (sint (g_calc_value (apps t)) > - 2147483648 \<longrightarrow> shows_int (str_of (g_calc_display (apps t))) (sint (g_calc_value (apps t))))"
  using calc.ev_keeps [OF assms(3,2)] calc_reset_shown [OF assms(1)] by (simp add: calc_shown_def)

text \<open>
  The keys for the result are passed on as a click on widget 0, which is a free slot of the table.  While the free slots have no text, the keys change nothing: after
  \<open>2\<close>, \<open>+\<close>, \<open>3\<close> and \<open>=\<close> the calculator still holds 3.
\<close>

theorem equals_key_ignored:
  assumes "widget_find 0 (widgets (apps s)) = Some k" "w_text (g_widgets (widgets (apps s)) ! k) ! 0 = 0" "calc_key wid 61 s = Some t"
  shows "apps t = apps s"
proof -
  have "calc_press 0 (apps s) = Some (apps s)" by (simp add: calc_press_def is_digit_def is_operator_def)
  with assms show ?thesis
    using invalidate_desk_apps [of "g_calc_win_id (apps s)" s t]
    by (auto simp: calc_key_def is_digit_def is_operator_def calc_button_click_def widget_get_def Let_def split: if_splits)
qed

section \<open>Witnesses\<close>

definition blank_desk :: desk where
  "blank_desk = \<lparr>g_icons = replicate 16 \<lparr>icon_id = 0, icon_name = replicate 32 0, icon_x = 0, icon_y = 0, icon_color = 0, on_open = None\<rparr>, g_icon_count = 0,
     g_next_icon_id = 1, g_desktop_running = False, g_start_menu_visible = False, g_pm_win_id = - 1, g_fm_win_id = - 1, g_np_win_id = - 1,
     g_np_buffer = replicate 2048 0, g_np_cursor = 0, g_calc_win_id = 1, g_calc_display = 48 # 0 # replicate 30 0, g_calc_value = 0, g_calc_operand = 0, g_calc_op = 0,
     g_calc_new_input = True, g_about_win_id = - 1, widgets = \<lparr>g_widgets = [], g_widget_count = 0, g_next_widget_id = 1\<rparr>\<rparr>"

definition calc_window :: "app window" where
  "calc_window = \<lparr>win_id = 1, bounds = \<lparr>rx = 200, ry = 80, rwidth = 200, rheight = 220\<rparr>, old_bounds = \<lparr>rx = 200, ry = 80, rwidth = 200, rheight = 220\<rparr>, wflags = 0xD3,
     title_fg = 15, title_bg = 1, title = replicate 64 0, on_paint = Some Calculator, on_event = Some Calculator\<rparr>"

definition demo_desktop :: desktop where
  "demo_desktop = \<lparr>g_windows = calc_window # replicate 15 (calc_window\<lparr>win_id := 0\<rparr>), g_window_count = 1, g_focused_id = 1, g_next_id = 2, g_zorder = 1 # replicate 15 0,
     g_zorder_count = 1, g_mouse_x = 320, g_mouse_y = 240, display = snd (graphics_init VGA_MODE_12H blank_gfx), apps = blank_desk\<rparr>"

lemma demo_found: "wm_find_window 1 demo_desktop = Some 0" "on_event (g_windows demo_desktop ! 0) = Some Calculator"
  unfolding wm_find_window_def find_upt_Some by (simp_all add: demo_desktop_def calc_window_def WM_MAX_WINDOWS_def)

lemma demo_display: "gfx_ok VGA_MODE_12H (display demo_desktop)"
  using init_ok [of VGA_MODE_12H blank_gfx] by (simp add: demo_desktop_def)

theorem desktop_never_left_witness:
  "\<exists>s k' s'. desktop_init (demo_desktop\<lparr>display := blank_gfx\<rparr>) = Some (True, s) \<and>
     desktop_run 3 [[0x01, 0x81], [0x1E]] [] demo_kbd s = Some (False, [], k', s') \<and> g_desktop_running (apps s') \<and> live s' = []"
proof -
  have "retraces (dev (display (demo_desktop\<lparr>display := blank_gfx\<rparr>)))" using cold_retraces by (simp add: cold_wm_def)
  from desktop_never_left [OF this demo_kbd_idle(2), of 3 "[[0x01, 0x81], [0x1E]]" "[]"] idle_queue [OF demo_kbd_idle(1)] show ?thesis by auto
qed

theorem app_close_never_returns_witness: "wm_key (desk_event 100) desk_paint 0x1B demo_desktop = None"
  using app_close_never_returns [OF demo_found, of 100] by (simp add: demo_desktop_def)

theorem notepad_refines_witness:
  "\<exists>t. np_keys 0 1 [0x48, 0x69, 8, 7, 0x21] demo_desktop = Some t \<and> str_of (g_np_buffer (apps t)) = [0x48, 0x21] \<and> g_np_cursor (apps t) = 2"
proof -
  have "np_ok (apps demo_desktop)" by (simp add: np_ok_def demo_desktop_def blank_desk_def NP_SIZE_def note_of_def)
  moreover have "str_of (g_np_buffer (apps demo_desktop)) = []" by (simp add: str_of_def demo_desktop_def blank_desk_def)
  moreover have "fold note_key [0x48, 0x69, 8, 7, 0x21] [] = [0x48, 0x21]" by (simp add: note_key_def)
  ultimately show ?thesis using notepad_refines [of demo_desktop 0 1 "[0x48, 0x69, 8, 7, 0x21]", OF _ demo_display] by auto
qed

theorem calculator_shows_value_witness:
  "\<exists>t. desk_event 1 Calculator 1 WM_EVENT_KEY 52 0 demo_desktop = Some t \<and> g_calc_value (apps t) = 4 \<and> shows_int (str_of (g_calc_display (apps t))) 4"
proof -
  let ?s = "on_apps (calc_digit 52) demo_desktop"
  obtain t where t: "wm_invalidate desk_paint 1 ?s = Some t" using invalidate_returns [of VGA_MODE_12H ?s 1] demo_display by (auto simp: on_apps_def)
  have e: "desk_event 1 Calculator 1 WM_EVENT_KEY 52 0 demo_desktop = Some t" using t by (simp add: calc_event_def calc_key_def is_digit_def)
  have v: "g_calc_value (apps t) = 4" using invalidate_desk_apps [OF t] by (simp add: on_apps_def calc_digit_def calc_show_def demo_desktop_def blank_desk_def)
  have r: "apps demo_desktop = calc_reset blank_desk" by (simp add: demo_desktop_def calc_reset_def blank_desk_def)
  have l: "length (g_calc_display blank_desk) = 32" by (simp add: blank_desk_def)
  from calculator_shows_value [OF l _ e] r calc_reset_shown [OF l] v e show ?thesis by auto
qed

end
