(* ===== verification/Spec2Isabelle.thy ===== *)
theory Spec2Isabelle
  imports Prelude Ring_Buffer Pfa Paging Paging_Spec Scheduler Scheduler_Spec Fat_Common Fat12 Fat12_Spec Fat12_Write Fat12_Total Fat32 Fat32_Spec Fat32_Load
    Fdc Drive Fs Keyboard Editor Editor_Spec Editor_Files Cstring Cstdlib Cstdio Cpu Loader Loader_Spec Fastmem Cbuf Config Config_Spec Users Auth
    Gfx Gfx_Spec Painters Wm Wm_Spec Wm_Paint Wm_Life Widgets Widgets_Spec Desktop Desktop_Spec
begin

text \<open>
  Verification library for PlexsDOS, a 32 bit protected mode kernel for the PC.

  \<^bold>\<open>Parts of the program.\<close>  \<^verbatim>\<open>src/kernel/kernel_main.c\<close> brings up the machine: processor detection (\<^verbatim>\<open>arch/cpu.c\<close>), the choice of the
  block memory routines (\<^verbatim>\<open>lib/fast_mem.c\<close>), the page frame allocator (\<^verbatim>\<open>mm/pfa.c\<close>), paging (\<^verbatim>\<open>mm/paging.c\<close>, which takes its page tables from the
  allocator and asks \<^verbatim>\<open>cpu.c\<close> for PSE), the scheduler (\<^verbatim>\<open>sched/scheduler.c\<close>, driven by the timer interrupt and by system calls), the FAT12 and FAT32
  file systems (\<^verbatim>\<open>fs/fat12.c\<close>, \<^verbatim>\<open>fs/fat32.c\<close>, over sector read and write functions), the drive table and the file system layer that choose between them
  (\<^verbatim>\<open>drivers/drive.c\<close>, \<^verbatim>\<open>fs/fs.c\<close>, with the floppy driver \<^verbatim>\<open>drivers/fdc.c\<close> below), the keyboard (\<^verbatim>\<open>drivers/keyboard.c\<close>: an interrupt handler that
  fills a ring buffer and readers that empty it), user accounts (\<^verbatim>\<open>shell/users.c\<close>), the shells and the editor (\<^verbatim>\<open>editor/editor.c\<close>, over keyboard and FAT32),
  the boot configuration (\<^verbatim>\<open>config_sys.c\<close>) and the program loader (\<^verbatim>\<open>loader.c\<close>, over FAT32, the user memory test of the pager, the processor's features and the ring 3 entry of the scheduler).
  The graphical interface stacks four layers: drawing on the VGA adapter (\<^verbatim>\<open>drivers/vga.c\<close>), windows (\<^verbatim>\<open>gui/wm.c\<close>), widgets (\<^verbatim>\<open>gui/widgets.c\<close>) and the desktop with its
  programs (\<^verbatim>\<open>gui/desktop.c\<close>), which reads the keyboard and hands its handlers to the window manager as function pointers.
  All of it rests on the C library in \<^verbatim>\<open>src/lib\<close>.

  \<^bold>\<open>Conventions.\<close>  C integers are words of their width; pointers and \<open>size_t\<close> have 32 bits and wrap.  Static variables of a source file are the
  fields of one record, operations take and return that record.  Failure is a result value as in the code.  Hardware and devices are parameters: the
  sector functions of a disk, the CPUID instruction, the linker's addresses; the VGA adapter is a record of its registers, latches and planes with the documented
  effect of a port or memory access.  Messages on the text screen and the serial line are left out.  Coordinates and sizes of the graphical interface are integers without wrap-around: it draws within a few
  thousand pixels around the screen.

  \<^bold>\<open>Theories.\<close>
  \<^item> \<open>Prelude\<close>: word widths, counted loops, facts on words, lists and searches.
  \<^item> \<open>Pfa\<close>: the bitmap of \<^verbatim>\<open>pfa.c\<close> as a list of bytes.  Allocation takes the least free frame, release puts back exactly one frame, the counter equals
    the number of free frames; the locale \<open>frame_allocator\<close> states what clients rely on and gives exclusive ownership of frames over any session.
  \<^item> \<open>Paging\<close>, \<open>Paging_Spec\<close>: physical memory with the page directory and tables in it, the registers CR0, CR3, CR4, and the hardware's translation.  Mapping, unmapping
    and querying are specified by the translation they produce, \<open>paging_init\<close> by the identity map, \<open>user_ptr_valid\<close> by what ring 3 can reach.
  \<^item> \<open>Scheduler\<close>, \<open>Scheduler_Spec\<close>: process control blocks, the linked ready queue, saved contexts on kernel stacks and \<open>iret\<close>.  The queue is interpreted
    as a FIFO queue (locale \<open>fifo_queue\<close>); every operation refines an abstract scheduler, the invariant holds in all reachable states, and round robin follows.
  \<^item> \<open>Fat_Common\<close>, \<open>Fat12\<close>, \<open>Fat12_Spec\<close>, \<open>Fat12_Write\<close>, \<open>Fat32\<close>, \<open>Fat32_Spec\<close>: directory entries, the packed and the 32 bit allocation table (both interpretations of the
    locale \<open>cluster_table\<close>), and all operations of both file systems.  Shown are round trips of table entries, chain release, that a file written by FAT12 loads with
    its bytes and leaves the other files alone, the directory as a list, format followed by mount, and coherence of the table on disk with its buffer.
  \<^item> \<open>Fat12_Total\<close>: a FAT12 write succeeds whenever the data fits the free clusters, a directory slot is free and the disk accepts every sector.
  \<^item> \<open>Fat32_Load\<close>: a FAT32 file with an intact chain loads with its bytes; a load never stores outside the range of the file's size and changes nothing on the volume.
  \<^item> \<open>Loader\<close>, \<open>Loader_Spec\<close>: \<^verbatim>\<open>.comx\<close>, \<^verbatim>\<open>.exe\<close> and \<^verbatim>\<open>.com\<close> files, with memory as one function of addresses that holds the file buffer too.  A \<^verbatim>\<open>.comx\<close>
    file on disk arrives in memory as its header says; no file reaches memory outside the user area and the buffer unless its sizes wrap around or it is larger than the buffer; a
    changed byte is detected.  Two defects are theorems: sizes that wrap clear the kernel's memory, and the jump to ring 3 always faults.
  \<^item> \<open>Config\<close>, \<open>Config_Spec\<close>: the parser of \<^verbatim>\<open>CONFIG.SYS\<close> refines the effect of lines on a record of settings; the printed summary, read again, gives the settings back.
  \<^item> \<open>Fdc\<close>, \<open>Drive\<close>, \<open>Fs\<close>: the floppy driver (conversion of sector numbers to cylinder, head and sector, retries, the motor's timer), the drive letters and
    the file system layer.  The exchange of a command with the controller is a parameter, with a locale for what a working drive does; through all three layers a file written
    to a floppy is read back with its bytes.
  \<^item> \<open>Ring_Buffer\<close>, \<open>Keyboard\<close>: arrays used as rings and the interface of a bounded queue (locale \<open>bounded_queue\<close>); scan codes, modifier keys and the keyboard's buffer, which interprets it.  A read that is interrupted between any two of its
    statements gives what it gives without interrupts before or after them; typing a line returns that line; no control code is ever delivered.
  \<^item> \<open>Editor\<close>, \<open>Editor_Spec\<close>, \<open>Editor_Files\<close>: the line buffer and the commands of the editor.  Every key refines an editor on a list of lines, every session that stays below the
    capacity of a line keeps the buffer well formed, saving followed by loading gives the text back, and search and the screen contents are as specified.
  \<^item> \<open>Cstring\<close>, \<open>Cstdlib\<close>, \<open>Cstdio\<close>: string, character, number and formatting functions over byte memory: \<open>memmove\<close> on overlapping blocks, \<open>strstr\<close>, print and parse round
    trips, and that \<open>vsnprintf\<close> stays in its buffer.
  \<^item> \<open>Cpu\<close>, \<open>Fastmem\<close>: feature queries and the vector versions of copy, fill and compare, which are equivalent to the byte loops of \<open>Cstring\<close> where they do not fault
    (locale \<open>copier\<close>, interpreted by all three copy routines).
  \<^item> \<open>Users\<close>: the account table, its invariant over all reachable states, login, creation followed by login.
  \<^item> \<open>Cbuf\<close>, \<open>Auth\<close>: names and passwords in character arrays; the user data base and the session handles of the display manager
    (\<^verbatim>\<open>shim/usrgn.c\<close>, \<^verbatim>\<open>shim/dfan.c\<close>).  Over every sequence of calls a session opens only after a correct password; a password set is the one accepted.
  \<^item> \<open>Gfx\<close>, \<open>Gfx_Spec\<close>: the adapter, mode setting, pixels, lines, rectangles, circles, text, bitmaps, scrolling and the palette.  The screen is a map from positions to colours (\<open>picture\<close>); the locale
    \<open>canvas\<close> composes what is drawn on it and is interpreted by the driver in both graphics modes.  Pixels read back as drawn, filling and scrolling mean the same in both modes, a line ends and is straight.
  \<^item> \<open>Painters\<close>, \<open>Wm\<close>, \<open>Wm_Spec\<close>, \<open>Wm_Paint\<close>, \<open>Wm_Life\<close>: windows, stacking order, focus, painting.  Handlers are arguments, with the locale \<open>wm_callbacks\<close> for what they may do.  The window table stays
    consistent over any sequence of calls, and what is seen at a position is the window that a click there finds.
  \<^item> \<open>Widgets\<close>, \<open>Widgets_Spec\<close>: the widget table and its links, abstracted to trees.  Destroying frees exactly a subtree, painting is in preorder, a click goes to the topmost widget.
  \<^item> \<open>Desktop\<close>, \<open>Desktop_Spec\<close>: icons, task bar, menu, main loop and the five programs; their handlers interpret \<open>wm_callbacks\<close>, and the locale \<open>wm_apps\<close> carries properties of the programs' variables through
    every call of the manager.  The notepad implements a bounded list, the calculator shows its value.  Two defects are theorems: no program's window can be closed, and the desktop is never left.

  \<^bold>\<open>Loops, fuel and partiality.\<close>  Loops over a C string are \<open>partial_function (option)\<close>: \<open>None\<close> means that the
  loop does not end, and the theorems show \<open>Some\<close> under their hypotheses.  Walks along a cluster chain, which may be cyclic on a damaged disk, take fuel: an intact FAT12 chain has fewer
  than 4096 clusters, and releasing a chain over the buffered FAT32 table meets each of its 4096 entries at most once, so that 4098 steps are enough; on a cyclic chain no fuel is, as
  the code then never returns.  The reading of a line and the loop of the editor are total functions over
  the list of the key strokes to come, with termination proofs.  Loops of the graphical interface that may run on, waiting for the retrace, the line loop and the recursion over widgets, are
  \<open>partial_function (option)\<close> too.  Handlers of the desktop call the manager and the manager calls handlers: \<open>desk_event n\<close> allows \<open>n\<close> such calls inside each other and is \<open>None\<close> beyond.  Keys and painting need one
  level; a result that is \<open>None\<close> for every \<open>n\<close> is a recursion that never returns.  \<open>desktop_run\<close> is a function of the list of passes that the arriving interrupts drive.  All other loops are total functions.

  \<^bold>\<open>Not modelled.\<close>  Port and memory mapped I/O inside the other device drivers (the exchange with the floppy controller is a parameter; ATA, AHCI, CD-ROM, mouse, serial, PCI), which
  is hardware access with little logic of its own; the shell's commands, installer and debugger, which are text output around the modelled operations; the assembly start-up code beyond the context switch; the
  compatibility shims other than the user data base; the system call dispatcher; floating point in \<^verbatim>\<open>kmath.c\<close>; the ported display manager and the vendored \<^verbatim>\<open>xorriso\<close>, which are third party code.
  Next in the order planned are the system calls, FAT32 write followed by load, and the shims \<^verbatim>\<open>int21.c\<close> and \<^verbatim>\<open>syslog.c\<close>.
\<close>

end
